(* ===== verification/Prelude.thy ===== *)
theory Prelude
  imports "HOL-Library.Word" "HOL-Library.Signed_Division" "HOL-Library.Monad_Syntax"
    "HOL-Library.Char_ord" "HOL-Library.List_Lexorder" "HOL-Library.Sublist"
begin

section \<open>Shared vocabulary of the development\<close>

text \<open>
  What every component uses: signed machine integers with overflow made explicit, the
  behaviour of the C standard library functions the code calls, the documented contract of
  the Abseil string functions (which are not part of this repository and therefore a
  parameter), and generic lemmas on lists.

  A C++ function that can abort (a failed \<open>ABSL_CHECK\<close>) or run into undefined behaviour
  (signed overflow, division by zero) returns an \<open>option\<close>: \<open>None\<close> stands for exactly
  these outcomes, and an ordinary \<open>false\<close> result of the code is an ordinary value.
  \<open>ABSL_DCHECK\<close> is compiled out of release builds and has no effect in the model; that its
  condition holds is a theorem where it matters.
\<close>

subsection \<open>Signed machine integers\<close>

definition in_i64 :: "int \<Rightarrow> bool" where
  "in_i64 x \<longleftrightarrow> - (2 ^ 63) \<le> x \<and> x < 2 ^ 63"

definition in_i32 :: "int \<Rightarrow> bool" where
  "in_i32 x \<longleftrightarrow> - (2 ^ 31) \<le> x \<and> x < 2 ^ 31"

text \<open>The result of a signed operation: undefined when it leaves the range of its type.\<close>

definition i64 :: "int \<Rightarrow> int option" where
  "i64 x = (if in_i64 x then Some x else None)"

definition i32 :: "int \<Rightarrow> int option" where
  "i32 x = (if in_i32 x then Some x else None)"

text \<open>A conversion to a narrower signed type keeps the low bits (two's complement).\<close>

definition to_i32 :: "int \<Rightarrow> int" where
  "to_i32 x = signed_take_bit 31 x"

definition to_i64 :: "int \<Rightarrow> int" where
  "to_i64 x = signed_take_bit 63 x"

lemma i64_eq_Some [simp]: "i64 x = Some y \<longleftrightarrow> in_i64 x \<and> y = x"
  by (auto simp: i64_def)

lemma i32_eq_Some [simp]: "i32 x = Some y \<longleftrightarrow> in_i32 x \<and> y = x"
  by (auto simp: i32_def)

lemma i64_Some [simp]: "in_i64 x \<Longrightarrow> i64 x = Some x"
  by simp

lemma i32_Some [simp]: "in_i32 x \<Longrightarrow> i32 x = Some x"
  by simp

lemma i64_None: "i64 x = None \<longleftrightarrow> \<not> in_i64 x"
  by (auto simp: i64_def)

lemma to_i32_id: "in_i32 x \<Longrightarrow> to_i32 x = x"
  unfolding in_i32_def to_i32_def by (rule signed_take_bit_int_eq_self) auto

lemma to_i64_id: "in_i64 x \<Longrightarrow> to_i64 x = x"
  unfolding in_i64_def to_i64_def by (rule signed_take_bit_int_eq_self) auto

lemma in_i32_to_i32: "in_i32 (to_i32 x)"
  unfolding in_i32_def to_i32_def
  using signed_take_bit_int_greater_eq_minus_exp [of 31 x] signed_take_bit_int_less_exp [of 31 x]
  by simp

subsection \<open>Division that truncates towards zero\<close>

lemma sdiv_pos: "0 < b \<Longrightarrow> (a::int) sdiv b = (if a < 0 then - ((- a) div b) else a div b)"
  by (cases "a = 0") (auto simp: signed_divide_int_def sgn_if)

lemma smod_pos: "0 < b \<Longrightarrow> (a::int) smod b = (if a < 0 then - ((- a) mod b) else a mod b)"
  by (cases "a = 0") (auto simp: signed_modulo_int_def sgn_if)

lemma sdiv_smod_eq: "(a::int) sdiv b * b + a smod b = a"
  by (rule signed_division_class.sdiv_mult_smod_eq)

lemma smod_bounds:
  fixes a b :: int
  assumes "0 < b"
  shows "- b < a smod b" and "a smod b < b"
    and "0 \<le> a \<Longrightarrow> 0 \<le> a smod b" and "a \<le> 0 \<Longrightarrow> a smod b \<le> 0"
proof -
  have "0 \<le> (- a) mod b" "(- a) mod b < b" "0 \<le> a mod b" "a mod b < b"
    using assms by auto
  then show "- b < a smod b" and "a smod b < b"
    and "0 \<le> a \<Longrightarrow> 0 \<le> a smod b" and "a \<le> 0 \<Longrightarrow> a smod b \<le> 0"
    using assms by (auto simp: smod_pos simp del: pos_mod_sign pos_mod_bound)
qed

lemma sdiv_sign:
  fixes a b :: int
  assumes "0 < b"
  shows "0 \<le> a \<Longrightarrow> 0 \<le> a sdiv b" and "a \<le> 0 \<Longrightarrow> a sdiv b \<le> 0"
  using assms by (auto simp: sdiv_pos pos_imp_zdiv_nonneg_iff)

subsection \<open>Lists\<close>

definition join :: "'a list \<Rightarrow> 'a list list \<Rightarrow> 'a list" where
  "join sep xss = (case xss of [] \<Rightarrow> [] | x # xs \<Rightarrow> x @ concat (map (\<lambda>y. sep @ y) xs))"

lemma join_Nil [simp]: "join sep [] = []"
  by (simp add: join_def)

lemma join_single [simp]: "join sep [x] = x"
  by (simp add: join_def)

lemma join_Cons: "xs \<noteq> [] \<Longrightarrow> join sep (x # xs) = x @ sep @ join sep xs"
  by (cases xs) (auto simp: join_def)

lemma join_Cons_if: "join sep (x # xs) = (if xs = [] then x else x @ sep @ join sep xs)"
  by (simp add: join_Cons)

text \<open>Cutting a list at every occurrence of one element.\<close>

fun split_on :: "'a \<Rightarrow> 'a list \<Rightarrow> 'a list list" where
  "split_on d [] = [[]]"
| "split_on d (c # cs) =
     (if c = d then [] # split_on d cs
      else case split_on d cs of [] \<Rightarrow> [[c]] | p # ps \<Rightarrow> (c # p) # ps)"

lemma split_on_nonempty [simp]: "split_on d s \<noteq> []"
  by (induction s) (auto split: list.splits)

lemma join_split_on [simp]: "join [d] (split_on d s) = s"
proof (induction s)
  case Nil
  then show ?case by simp
next
  case (Cons c cs)
  obtain p ps where p: "split_on d cs = p # ps"
    using split_on_nonempty [of d cs] by (cases "split_on d cs") auto
  with Cons show ?case by (auto simp: join_Cons_if split: if_splits)
qed

lemma split_on_free: "p \<in> set (split_on d s) \<Longrightarrow> d \<notin> set p"
  by (induction s arbitrary: p) (auto split: if_splits list.splits)

lemma split_on_no_delim: "d \<notin> set p \<Longrightarrow> split_on d p = [p]"
  by (induction p) auto

lemma split_on_append: "d \<notin> set p \<Longrightarrow> split_on d (p @ d # s) = p # split_on d s"
  by (induction p) auto

lemma split_on_join:
  "ps \<noteq> [] \<Longrightarrow> \<forall>p \<in> set ps. d \<notin> set p \<Longrightarrow> split_on d (join [d] ps) = ps"
proof (induction ps)
  case Nil
  then show ?case by simp
next
  case (Cons p ps)
  then show ?case
    by (cases "ps = []") (simp_all add: join_Cons split_on_no_delim split_on_append)
qed

end
