(* ===== verification/Runtime.thy ===== *)
theory Runtime
  imports Prelude
begin

section \<open>The library functions the code calls\<close>

text \<open>
  Decimal numerals, \<open>strtoll\<close> of the C standard library, and the contract of the Abseil
  string functions. Abseil is not part of the repository: the functions of the record
  \<open>absl\<close> are a parameter of every definition that calls one, and \<open>absl_ok\<close> states
  their documented behaviour. \<open>absl_ref\<close> is a concrete instance, used by witnesses.
\<close>

subsection \<open>Decimal numerals\<close>

definition digit_char :: "nat \<Rightarrow> char" where
  "digit_char d = char_of (48 + d)"

definition is_digit :: "char \<Rightarrow> bool" where
  "is_digit c \<longleftrightarrow> 48 \<le> (of_char c :: nat) \<and> (of_char c :: nat) \<le> 57"

definition digit_val :: "char \<Rightarrow> nat" where
  "digit_val c = of_char c - 48"

fun dec :: "nat \<Rightarrow> string" where
  "dec n = (if n < 10 then [digit_char n] else dec (n div 10) @ [digit_char (n mod 10)])"

declare dec.simps [simp del]

definition dec_val :: "string \<Rightarrow> nat" where
  "dec_val ds = foldl (\<lambda>a c. 10 * a + digit_val c) 0 ds"

definition zero_pad :: "nat \<Rightarrow> string \<Rightarrow> string" where
  "zero_pad w s = replicate (w - length s) CHR ''0'' @ s"

lemma digit_char_simps [simp]:
  assumes "d < 10"
  shows "is_digit (digit_char d)" and "digit_val (digit_char d) = d"
  using assms by (simp_all add: is_digit_def digit_val_def digit_char_def)

lemma is_digit_zero [simp]: "is_digit CHR ''0''" "digit_val CHR ''0'' = 0"
  by (simp_all add: is_digit_def digit_val_def)

lemma dec_val_Nil [simp]: "dec_val [] = 0"
  by (simp add: dec_val_def)

lemma dec_val_snoc [simp]: "dec_val (ds @ [c]) = 10 * dec_val ds + digit_val c"
  by (simp add: dec_val_def)

lemma dec_val_append: "dec_val (xs @ ys) = dec_val xs * 10 ^ length ys + dec_val ys"
proof (induction ys rule: rev_induct)
  case Nil
  then show ?case by simp
next
  case (snoc y ys)
  have "dec_val (xs @ ys @ [y]) = dec_val ((xs @ ys) @ [y])"
    by simp
  also have "\<dots> = 10 * dec_val (xs @ ys) + digit_val y"
    by (rule dec_val_snoc)
  finally show ?case
    using snoc by (simp add: algebra_simps)
qed

lemma dec_val_replicate_zero [simp]: "dec_val (replicate k CHR ''0'') = 0"
proof (induction k)
  case 0
  then show ?case by simp
next
  case (Suc k)
  have "dec_val (replicate (Suc k) CHR ''0'') = dec_val (replicate k CHR ''0'' @ [CHR ''0''])"
    by (simp add: replicate_append_same)
  then show ?case using Suc by (simp only: dec_val_snoc is_digit_zero)
qed

lemma dec_val_zero_pad [simp]: "dec_val (zero_pad w s) = dec_val s"
  by (simp add: zero_pad_def dec_val_append)

lemma dec_val_dec [simp]: "dec_val (dec n) = n"
proof (induction n rule: dec.induct)
  case (1 n)
  show ?case
  proof (cases "n < 10")
    case True
    then show ?thesis using dec_val_snoc [of "[]" "digit_char n"] by (simp add: dec.simps)
  next
    case False
    with "1" have "dec_val (dec (n div 10)) = n div 10" by simp
    with False show ?thesis by (subst dec.simps) simp
  qed
qed

lemma dec_digits: "c \<in> set (dec n) \<Longrightarrow> is_digit c"
proof (induction n rule: dec.induct)
  case (1 n)
  then show ?case
    by (subst (asm) (2) dec.simps) (auto split: if_splits)
qed

lemma dec_nonempty [simp]: "dec n \<noteq> []"
  by (subst dec.simps) simp

lemma length_dec_le: "n < 10 ^ w \<Longrightarrow> 0 < w \<Longrightarrow> length (dec n) \<le> w"
proof (induction n arbitrary: w rule: dec.induct)
  case (1 n)
  show ?case
  proof (cases "n < 10")
    case True
    with "1.prems" show ?thesis by (subst dec.simps) simp
  next
    case False
    with "1.prems" obtain v where w: "w = Suc v" "0 < v"
      by (cases w) (auto, metis less_nat_zero_code not_gr_zero power_0 less_one mult.right_neutral)
    have "n div 10 < 10 ^ v"
      using "1.prems"(1) w by (simp add: less_mult_imp_div_less mult.commute)
    with "1.IH" False w have "length (dec (n div 10)) \<le> v" by blast
    with False w show ?thesis by (subst dec.simps) simp
  qed
qed

lemma zero_pad_length: "length s \<le> w \<Longrightarrow> length (zero_pad w s) = w"
  by (simp add: zero_pad_def)

lemma zero_pad_digits: "(\<And>c. c \<in> set s \<Longrightarrow> is_digit c) \<Longrightarrow> c \<in> set (zero_pad w s) \<Longrightarrow> is_digit c"
  by (auto simp: zero_pad_def)

subsection \<open>The C standard library\<close>

definition isspace :: "char \<Rightarrow> bool" where
  "isspace c \<longleftrightarrow> of_char c \<in> {9::nat, 10, 11, 12, 13, 32}"

text \<open>
  \<open>std::strtoll(s, &end, 10)\<close>: the value and the number of characters read (\<open>end - s\<close>).
  White space and one sign may precede the digits; without a digit nothing is read; a value
  out of range is saturated.
\<close>

definition sat_i64 :: "int \<Rightarrow> int" where
  "sat_i64 x = (if x < - (2 ^ 63) then - (2 ^ 63) else if x \<ge> 2 ^ 63 then 2 ^ 63 - 1 else x)"

definition strtoll10 :: "string \<Rightarrow> int \<times> nat" where
  "strtoll10 s =
     (let ws = takeWhile isspace s;
          r = drop (length ws) s;
          neg = (r \<noteq> [] \<and> hd r = CHR ''-'');
          sg = (if r \<noteq> [] \<and> (hd r = CHR ''-'' \<or> hd r = CHR ''+'') then 1 else 0);
          ds = takeWhile is_digit (drop sg r);
          v = int (dec_val ds)
      in if ds = [] then (0, 0)
         else (sat_i64 (if neg then - v else v), length ws + sg + length ds))"

lemma not_digit_space: "is_digit c \<Longrightarrow> \<not> isspace c"
  by (auto simp: is_digit_def isspace_def)

lemma digit_not_sign: "is_digit c \<Longrightarrow> c \<noteq> CHR ''-'' \<and> c \<noteq> CHR ''+'' \<and> c \<noteq> CHR ''.''"
  by (auto simp: is_digit_def)

lemma takeWhile_digits: "(\<And>c. c \<in> set s \<Longrightarrow> is_digit c) \<Longrightarrow> takeWhile is_digit s = s"
  by (simp add: takeWhile_eq_all_conv)

lemma sat_i64_id: "in_i64 x \<Longrightarrow> sat_i64 x = x"
  by (simp add: in_i64_def sat_i64_def)

lemma in_i64_sat_i64: "in_i64 (sat_i64 x)"
  by (simp add: in_i64_def sat_i64_def)

lemma strtoll10_digits:
  assumes "s \<noteq> []" and "\<And>c. c \<in> set s \<Longrightarrow> is_digit c" and "in_i64 (int (dec_val s))"
  shows "strtoll10 s = (int (dec_val s), length s)"
proof -
  obtain c cs where s: "s = c # cs" using assms(1) by (cases s) auto
  with assms(2) have c: "is_digit c" by simp
  then have "takeWhile isspace s = []" using s not_digit_space by simp
  moreover have "hd s \<noteq> CHR ''-''" "hd s \<noteq> CHR ''+''" using s c digit_not_sign by auto
  ultimately show ?thesis
    using assms by (simp add: strtoll10_def takeWhile_digits sat_i64_id)
qed

lemma in_i64_strtoll10: "in_i64 (fst (strtoll10 s))"
  by (auto simp: strtoll10_def Let_def in_i64_sat_i64 in_i64_def [of 0])

subsection \<open>The Abseil string functions\<close>

record absl =
  StrSplit :: "char \<Rightarrow> string \<Rightarrow> string list"
  StrJoin :: "string \<Rightarrow> string list \<Rightarrow> string"
  ConsumePrefix :: "string \<Rightarrow> string \<Rightarrow> string option"
  AlphaNum :: "int \<Rightarrow> string"
  FormatDec :: "nat \<Rightarrow> int \<Rightarrow> string"
  FormatHex :: "nat \<Rightarrow> nat \<Rightarrow> string"
  StartsWith :: "string \<Rightarrow> string \<Rightarrow> bool"

text \<open>
  \<open>StrSplit d s\<close> is \<open>absl::StrSplit(s, d)\<close> with a character delimiter: the pieces
  between the delimiters, at least one, joining back to \<open>s\<close>. \<open>StrJoin sep ps\<close> is
  \<open>absl::StrJoin(ps, sep)\<close>. \<open>ConsumePrefix s p\<close> is the rest of \<open>s\<close> when
  \<open>absl::ConsumePrefix(&s, p)\<close> returns true. \<open>AlphaNum n\<close> is what \<open>StrCat\<close> and
  \<open>StrAppend\<close> print for an integer; \<open>FormatDec w n\<close> and \<open>FormatHex w n\<close> are the
  conversions \<open>%0wd\<close> and \<open>%0wx\<close> of \<open>StrFormat\<close>, of which only the non-negative case is
  relied on. \<open>StartsWith s p\<close> is \<open>absl::StartsWith(s, p)\<close>.
\<close>

definition absl_ok :: "absl \<Rightarrow> bool" where
  "absl_ok A \<longleftrightarrow>
     (\<forall>d s. StrSplit A d s \<noteq> [] \<and> join [d] (StrSplit A d s) = s
            \<and> (\<forall>p \<in> set (StrSplit A d s). d \<notin> set p))
   \<and> (\<forall>sep ps. StrJoin A sep ps = join sep ps)
   \<and> (\<forall>s p r. ConsumePrefix A s p = Some r \<longleftrightarrow> s = p @ r)
   \<and> (\<forall>n. AlphaNum A (int n) = dec n)
   \<and> (\<forall>w n. FormatDec A w (int n) = zero_pad w (dec n))
   \<and> (\<forall>s p. StartsWith A s p \<longleftrightarrow> prefix p s)"

lemma absl_StrSplit:
  assumes "absl_ok A"
  shows "StrSplit A d s = split_on d s"
proof -
  have "StrSplit A d s \<noteq> []" "join [d] (StrSplit A d s) = s"
    "\<forall>p \<in> set (StrSplit A d s). d \<notin> set p"
    using assms by (auto simp: absl_ok_def)
  then show ?thesis using split_on_join [of "StrSplit A d s" d] by simp
qed

lemma absl_StrJoin: "absl_ok A \<Longrightarrow> StrJoin A sep ps = join sep ps"
  by (simp add: absl_ok_def)

lemma absl_ConsumePrefix: "absl_ok A \<Longrightarrow> ConsumePrefix A s p = Some r \<longleftrightarrow> s = p @ r"
  by (simp add: absl_ok_def)

lemma absl_StartsWith: "absl_ok A \<Longrightarrow> StartsWith A s p \<longleftrightarrow> prefix p s"
  by (simp add: absl_ok_def)

lemma absl_AlphaNum: "absl_ok A \<Longrightarrow> 0 \<le> n \<Longrightarrow> AlphaNum A n = dec (nat n)"
  by (metis absl_ok_def int_nat_eq)

lemma absl_FormatDec: "absl_ok A \<Longrightarrow> 0 \<le> n \<Longrightarrow> FormatDec A w n = zero_pad w (dec (nat n))"
  by (metis absl_ok_def int_nat_eq)

lemmas absl_simps = absl_StrSplit absl_StrJoin absl_AlphaNum absl_FormatDec

definition hex_char :: "nat \<Rightarrow> char" where
  "hex_char d = (if d < 10 then digit_char d else char_of (87 + d))"

fun hex :: "nat \<Rightarrow> string" where
  "hex n = (if n < 16 then [hex_char n] else hex (n div 16) @ [hex_char (n mod 16)])"

declare hex.simps [simp del]

definition strip_prefix :: "string \<Rightarrow> string \<Rightarrow> string option" where
  "strip_prefix s p = (if take (length p) s = p then Some (drop (length p) s) else None)"

definition absl_ref :: absl where
  "absl_ref = \<lparr>StrSplit = split_on, StrJoin = join, ConsumePrefix = strip_prefix,
     AlphaNum = (\<lambda>n. if n < 0 then CHR ''-'' # dec (nat (- n)) else dec (nat n)),
     FormatDec = (\<lambda>w n. if n < 0 then CHR ''-'' # zero_pad (w - 1) (dec (nat (- n)))
                        else zero_pad w (dec (nat n))),
     FormatHex = (\<lambda>w n. zero_pad w (hex n)), StartsWith = (\<lambda>s p. prefix p s)\<rparr>"

lemma strip_prefix_eq: "strip_prefix s p = Some r \<longleftrightarrow> s = p @ r"
  by (auto simp: strip_prefix_def) (metis append_take_drop_id)

lemma absl_ok_ref: "absl_ok absl_ref"
  by (simp add: absl_ok_def absl_ref_def split_on_free strip_prefix_eq)

end
