(* ===== verification/Time_Util.thy ===== *)
theory Time_Util
  imports Runtime
begin


section \<open>util/time_util: Timestamp and Duration arithmetic\<close>

text \<open>
  The model of \<open>TimeUtil\<close> and of the overloaded operators (files
  \<open>util/time_util.h\<close> and \<open>util/time_util.cc\<close>). The two messages are records of the
  fields the generated classes carry; an \<open>int64\<close> or \<open>int32\<close> operation whose result leaves
  its type is undefined behaviour and gives \<open>None\<close>. Division and remainder truncate
  (\<open>sdiv\<close>, \<open>smod\<close>), \<open>absl::uint128\<close> is a 128-bit word. The conversions to and from
  date strings call \<open>absl::FormatTime\<close> and \<open>absl::ParseTime\<close>, which are parameters; the
  two operators on \<open>double\<close> are not modelled.
\<close>

record Timestamp =
  ts_seconds :: int
  ts_nanos :: int

record Duration =
  d_seconds :: int
  d_nanos :: int

record timeval =
  tv_sec :: int
  tv_usec :: int

definition kNanosPerSecond :: int where "kNanosPerSecond = 1000000000"
definition kMicrosPerSecond :: int where "kMicrosPerSecond = 1000000"
definition kMillisPerSecond :: int where "kMillisPerSecond = 1000"
definition kNanosPerMillisecond :: int where "kNanosPerMillisecond = 1000000"
definition kNanosPerMicrosecond :: int where "kNanosPerMicrosecond = 1000"
definition kSecondsPerMinute :: int where "kSecondsPerMinute = 60"
definition kSecondsPerHour :: int where "kSecondsPerHour = 3600"
definition kTimestampMinSeconds :: int where "kTimestampMinSeconds = -62135596800"
definition kTimestampMaxSeconds :: int where "kTimestampMaxSeconds = 253402300799"
definition kTimestampMinNanoseconds :: int where "kTimestampMinNanoseconds = 0"
definition kTimestampMaxNanoseconds :: int where "kTimestampMaxNanoseconds = 999999999"
definition kDurationMinSeconds :: int where "kDurationMinSeconds = -315576000000"
definition kDurationMaxSeconds :: int where "kDurationMaxSeconds = 315576000000"
definition kDurationMinNanoseconds :: int where "kDurationMinNanoseconds = -999999999"
definition kDurationMaxNanoseconds :: int where "kDurationMaxNanoseconds = 999999999"

lemmas time_consts = kNanosPerSecond_def kMicrosPerSecond_def kMillisPerSecond_def
  kNanosPerMillisecond_def kNanosPerMicrosecond_def kSecondsPerMinute_def kSecondsPerHour_def
  kTimestampMinSeconds_def kTimestampMaxSeconds_def kTimestampMinNanoseconds_def
  kTimestampMaxNanoseconds_def kDurationMinSeconds_def kDurationMaxSeconds_def
  kDurationMinNanoseconds_def kDurationMaxNanoseconds_def

subsection \<open>Validity and normalisation\<close>

definition IsTimestampValid :: "Timestamp \<Rightarrow> bool" where
  "IsTimestampValid t \<longleftrightarrow>
     ts_seconds t \<le> kTimestampMaxSeconds \<and> ts_seconds t \<ge> kTimestampMinSeconds \<and>
     ts_nanos t \<le> kTimestampMaxNanoseconds \<and> ts_nanos t \<ge> kTimestampMinNanoseconds"

definition IsDurationValid :: "Duration \<Rightarrow> bool" where
  "IsDurationValid d \<longleftrightarrow>
     d_seconds d \<le> kDurationMaxSeconds \<and> d_seconds d \<ge> kDurationMinSeconds \<and>
     d_nanos d \<le> kDurationMaxNanoseconds \<and> d_nanos d \<ge> kDurationMinNanoseconds \<and>
     \<not> (d_seconds d \<ge> 1 \<and> d_nanos d < 0) \<and>
     \<not> (d_seconds d \<le> -1 \<and> d_nanos d > 0)"

definition CreateNormalizedTimestamp :: "int \<Rightarrow> int \<Rightarrow> Timestamp option" where
  "CreateNormalizedTimestamp seconds nanos = do {
     (seconds, nanos) \<leftarrow>
       (if nanos \<le> - kNanosPerSecond \<or> nanos \<ge> kNanosPerSecond
        then do { s \<leftarrow> i64 (seconds + nanos sdiv kNanosPerSecond);
                  Some (s, nanos smod kNanosPerSecond) }
        else Some (seconds, nanos));
     (seconds, nanos) \<leftarrow>
       (if nanos < 0
        then do { s \<leftarrow> i64 (seconds - 1); n \<leftarrow> i32 (nanos + kNanosPerSecond); Some (s, n) }
        else Some (seconds, nanos));
     Some \<lparr>ts_seconds = seconds, ts_nanos = nanos\<rparr> }"

definition CreateNormalizedDuration :: "int \<Rightarrow> int \<Rightarrow> Duration option" where
  "CreateNormalizedDuration seconds nanos = do {
     (seconds, nanos) \<leftarrow>
       (if nanos \<le> - kNanosPerSecond \<or> nanos \<ge> kNanosPerSecond
        then do { s \<leftarrow> i64 (seconds + nanos sdiv kNanosPerSecond);
                  Some (s, nanos smod kNanosPerSecond) }
        else Some (seconds, nanos));
     (seconds, nanos) \<leftarrow>
       (if seconds < 0 \<and> nanos > 0
        then do { s \<leftarrow> i64 (seconds + 1); n \<leftarrow> i32 (nanos - kNanosPerSecond); Some (s, n) }
        else if seconds > 0 \<and> nanos < 0
        then do { s \<leftarrow> i64 (seconds - 1); n \<leftarrow> i32 (nanos + kNanosPerSecond); Some (s, n) }
        else Some (seconds, nanos));
     Some \<lparr>d_seconds = seconds, d_nanos = nanos\<rparr> }"

text \<open>The instant or length a message denotes, in nanoseconds.\<close>

definition ts_total :: "Timestamp \<Rightarrow> int" where
  "ts_total t = ts_seconds t * kNanosPerSecond + ts_nanos t"

definition d_total :: "Duration \<Rightarrow> int" where
  "d_total d = d_seconds d * kNanosPerSecond + d_nanos d"

definition d_normal :: "Duration \<Rightarrow> bool" where
  "d_normal d \<longleftrightarrow> \<bar>d_nanos d\<bar> < kNanosPerSecond
     \<and> \<not> (d_seconds d > 0 \<and> d_nanos d < 0) \<and> \<not> (d_seconds d < 0 \<and> d_nanos d > 0)"

text \<open>No overflow while normalising: the seconds stay away from the ends of \<open>int64\<close>.\<close>

definition norm_range :: "int \<Rightarrow> int \<Rightarrow> bool" where
  "norm_range s n \<longleftrightarrow> \<bar>s\<bar> < 2 ^ 63 - 4 \<and> in_i32 n"

lemma carry_bounds:
  assumes "in_i32 n"
  shows "- 3 < n sdiv kNanosPerSecond" and "n sdiv kNanosPerSecond < 3"
    and "n sdiv kNanosPerSecond * kNanosPerSecond + n smod kNanosPerSecond = n"
    and "\<bar>n smod kNanosPerSecond\<bar> < kNanosPerSecond"
proof -
  show "- 3 < n sdiv kNanosPerSecond" and "n sdiv kNanosPerSecond < 3"
    using assms by (auto simp: in_i32_def kNanosPerSecond_def sdiv_pos)
  show "n sdiv kNanosPerSecond * kNanosPerSecond + n smod kNanosPerSecond = n"
    by (rule sdiv_smod_eq)
  show "\<bar>n smod kNanosPerSecond\<bar> < kNanosPerSecond"
    using smod_bounds(1,2) [of kNanosPerSecond n] by (auto simp: kNanosPerSecond_def)
qed

lemma carry_step:
  assumes "norm_range s n"
  shows "\<exists>s' n'. (if n \<le> - kNanosPerSecond \<or> n \<ge> kNanosPerSecond
                   then do { s \<leftarrow> i64 (s + n sdiv kNanosPerSecond); Some (s, n smod kNanosPerSecond) }
                   else Some (s, n)) = Some (s', n')
            \<and> \<bar>s'\<bar> < 2 ^ 63 - 1 \<and> \<bar>n'\<bar> < kNanosPerSecond
            \<and> s' * kNanosPerSecond + n' = s * kNanosPerSecond + n"
proof (cases "n \<le> - kNanosPerSecond \<or> n \<ge> kNanosPerSecond")
  case True
  let ?q = "n sdiv kNanosPerSecond" and ?r = "n smod kNanosPerSecond"
  have n: "in_i32 n" and s: "\<bar>s\<bar> < 2 ^ 63 - 4" using assms by (auto simp: norm_range_def)
  note c = carry_bounds [OF n]
  have "in_i64 (s + ?q)" using c(1,2) s by (auto simp: in_i64_def)
  moreover have "(s + ?q) * kNanosPerSecond + ?r = s * kNanosPerSecond + n"
    using c(3) by (simp add: distrib_right)
  moreover have "\<bar>s + ?q\<bar> < 2 ^ 63 - 1" using c(1,2) s by linarith
  ultimately show ?thesis using True c(4) by (auto simp: i64_Some)
next
  case False
  then show ?thesis using assms by (auto simp: norm_range_def)
qed

lemma normalized_timestamp:
  assumes "norm_range s n"
  shows "\<exists>t. CreateNormalizedTimestamp s n = Some t
            \<and> ts_total t = s * kNanosPerSecond + n \<and> 0 \<le> ts_nanos t \<and> ts_nanos t < kNanosPerSecond"
proof -
  obtain s' n' where c: "(if n \<le> - kNanosPerSecond \<or> n \<ge> kNanosPerSecond
                   then do { s \<leftarrow> i64 (s + n sdiv kNanosPerSecond); Some (s, n smod kNanosPerSecond) }
                   else Some (s, n)) = Some (s', n')"
    and b: "\<bar>s'\<bar> < 2 ^ 63 - 1" "\<bar>n'\<bar> < kNanosPerSecond"
      "s' * kNanosPerSecond + n' = s * kNanosPerSecond + n"
    using carry_step [OF assms] by blast
  show ?thesis
    unfolding CreateNormalizedTimestamp_def c
    using b by (auto simp: abs_less_iff ts_total_def i64_Some i32_Some in_i64_def in_i32_def kNanosPerSecond_def)
qed

lemma normalized_duration:
  assumes "norm_range s n"
  shows "\<exists>d. CreateNormalizedDuration s n = Some d
            \<and> d_total d = s * kNanosPerSecond + n \<and> d_normal d"
proof -
  obtain s' n' where c: "(if n \<le> - kNanosPerSecond \<or> n \<ge> kNanosPerSecond
                   then do { s \<leftarrow> i64 (s + n sdiv kNanosPerSecond); Some (s, n smod kNanosPerSecond) }
                   else Some (s, n)) = Some (s', n')"
    and b: "\<bar>s'\<bar> < 2 ^ 63 - 1" "\<bar>n'\<bar> < kNanosPerSecond"
      "s' * kNanosPerSecond + n' = s * kNanosPerSecond + n"
    using carry_step [OF assms] by blast
  show ?thesis
    unfolding CreateNormalizedDuration_def c
    using b by (auto simp: abs_less_iff d_total_def d_normal_def i64_Some i32_Some in_i64_def in_i32_def
        kNanosPerSecond_def)
qed

section \<open>util/time_util: conversions and arithmetic\<close>

text \<open>
  The conversions between the messages and integers or \<open>timeval\<close>, the order, and the
  arithmetic operators. Each operation is compared with the same operation on the total
  number of nanoseconds (\<open>ts_total\<close>, \<open>d_total\<close>).
\<close>

definition RoundTowardZero :: "int \<Rightarrow> int \<Rightarrow> int" where
  "RoundTowardZero value divider =
     (let result = value sdiv divider; remainder = value smod divider
      in if result < 0 \<and> remainder > 0 then result + 1 else result)"

definition GetEpoch :: Timestamp where
  "GetEpoch = \<lparr>ts_seconds = 0, ts_nanos = 0\<rparr>"

subsection \<open>Durations and integers\<close>

definition NanosecondsToDuration :: "int \<Rightarrow> Duration option" where
  "NanosecondsToDuration nanos =
     CreateNormalizedDuration (nanos sdiv kNanosPerSecond) (to_i32 (nanos smod kNanosPerSecond))"

definition MicrosecondsToDuration :: "int \<Rightarrow> Duration option" where
  "MicrosecondsToDuration micros = do {
     n \<leftarrow> i64 ((micros smod kMicrosPerSecond) * kNanosPerMicrosecond);
     CreateNormalizedDuration (micros sdiv kMicrosPerSecond) (to_i32 n) }"

definition MillisecondsToDuration :: "int \<Rightarrow> Duration option" where
  "MillisecondsToDuration millis = do {
     n \<leftarrow> i64 ((millis smod kMillisPerSecond) * kNanosPerMillisecond);
     CreateNormalizedDuration (millis sdiv kMillisPerSecond) (to_i32 n) }"

definition SecondsToDuration :: "int \<Rightarrow> Duration option" where
  "SecondsToDuration seconds = CreateNormalizedDuration seconds 0"

definition MinutesToDuration :: "int \<Rightarrow> Duration option" where
  "MinutesToDuration minutes = do {
     s \<leftarrow> i64 (minutes * kSecondsPerMinute);
     SecondsToDuration s }"

definition HoursToDuration :: "int \<Rightarrow> Duration option" where
  "HoursToDuration hours = do {
     s \<leftarrow> i64 (hours * kSecondsPerHour);
     SecondsToDuration s }"

definition DurationToNanoseconds :: "Duration \<Rightarrow> int option" where
  "DurationToNanoseconds duration = do {
     s \<leftarrow> i64 (d_seconds duration * kNanosPerSecond);
     i64 (s + d_nanos duration) }"

definition DurationToSeconds :: "Duration \<Rightarrow> int" where
  "DurationToSeconds duration = d_seconds duration"

definition DurationToMicroseconds :: "Duration \<Rightarrow> int option" where
  "DurationToMicroseconds duration = do {
     s \<leftarrow> i64 (DurationToSeconds duration * kMicrosPerSecond);
     i64 (s + RoundTowardZero (d_nanos duration) kNanosPerMicrosecond) }"

definition DurationToMilliseconds :: "Duration \<Rightarrow> int option" where
  "DurationToMilliseconds duration = do {
     s \<leftarrow> i64 (DurationToSeconds duration * kMillisPerSecond);
     i64 (s + RoundTowardZero (d_nanos duration) kNanosPerMillisecond) }"

definition DurationToMinutes :: "Duration \<Rightarrow> int" where
  "DurationToMinutes duration = RoundTowardZero (DurationToSeconds duration) kSecondsPerMinute"

definition DurationToHours :: "Duration \<Rightarrow> int" where
  "DurationToHours duration = RoundTowardZero (DurationToSeconds duration) kSecondsPerHour"

subsection \<open>Timestamps and integers\<close>

definition NanosecondsToTimestamp :: "int \<Rightarrow> Timestamp option" where
  "NanosecondsToTimestamp nanos =
     CreateNormalizedTimestamp (nanos sdiv kNanosPerSecond) (to_i32 (nanos smod kNanosPerSecond))"

definition MicrosecondsToTimestamp :: "int \<Rightarrow> Timestamp option" where
  "MicrosecondsToTimestamp micros = do {
     n \<leftarrow> i64 (micros smod kMicrosPerSecond * kNanosPerMicrosecond);
     CreateNormalizedTimestamp (micros sdiv kMicrosPerSecond) (to_i32 n) }"

definition MillisecondsToTimestamp :: "int \<Rightarrow> Timestamp option" where
  "MillisecondsToTimestamp millis = do {
     n \<leftarrow> i64 (millis smod kMillisPerSecond * kNanosPerMillisecond);
     CreateNormalizedTimestamp (millis sdiv kMillisPerSecond) (to_i32 n) }"

definition SecondsToTimestamp :: "int \<Rightarrow> Timestamp option" where
  "SecondsToTimestamp seconds = CreateNormalizedTimestamp seconds 0"

definition TimestampToNanoseconds :: "Timestamp \<Rightarrow> int option" where
  "TimestampToNanoseconds timestamp = do {
     s \<leftarrow> i64 (ts_seconds timestamp * kNanosPerSecond);
     i64 (s + ts_nanos timestamp) }"

definition TimestampToMicroseconds :: "Timestamp \<Rightarrow> int option" where
  "TimestampToMicroseconds timestamp = do {
     s \<leftarrow> i64 (ts_seconds timestamp * kMicrosPerSecond);
     i64 (s + RoundTowardZero (ts_nanos timestamp) kNanosPerMicrosecond) }"

definition TimestampToMilliseconds :: "Timestamp \<Rightarrow> int option" where
  "TimestampToMilliseconds timestamp = do {
     s \<leftarrow> i64 (ts_seconds timestamp * kMillisPerSecond);
     i64 (s + RoundTowardZero (ts_nanos timestamp) kNanosPerMillisecond) }"

definition TimestampToSeconds :: "Timestamp \<Rightarrow> int" where
  "TimestampToSeconds timestamp = ts_seconds timestamp"

definition TimeTToTimestamp :: "int \<Rightarrow> Timestamp option" where
  "TimeTToTimestamp value = CreateNormalizedTimestamp value 0"

definition TimestampToTimeT :: "Timestamp \<Rightarrow> int" where
  "TimestampToTimeT value = ts_seconds value"

subsection \<open>timeval\<close>

definition TimevalToTimestamp :: "timeval \<Rightarrow> Timestamp option" where
  "TimevalToTimestamp value = do {
     n \<leftarrow> i64 (tv_usec value * kNanosPerMicrosecond);
     CreateNormalizedTimestamp (tv_sec value) (to_i32 n) }"

definition TimestampToTimeval :: "Timestamp \<Rightarrow> timeval" where
  "TimestampToTimeval value =
     \<lparr>tv_sec = ts_seconds value, tv_usec = RoundTowardZero (ts_nanos value) kNanosPerMicrosecond\<rparr>"

definition TimevalToDuration :: "timeval \<Rightarrow> Duration option" where
  "TimevalToDuration value = do {
     n \<leftarrow> i64 (tv_usec value * kNanosPerMicrosecond);
     CreateNormalizedDuration (tv_sec value) (to_i32 n) }"

definition DurationToTimeval :: "Duration \<Rightarrow> timeval option" where
  "DurationToTimeval value =
     (let sec = d_seconds value;
          usec = RoundTowardZero (d_nanos value) kNanosPerMicrosecond
      in if usec < 0
         then do { s \<leftarrow> i64 (sec - 1);
                   u \<leftarrow> i64 (usec + kMicrosPerSecond);
                   Some \<lparr>tv_sec = s, tv_usec = u\<rparr> }
         else Some \<lparr>tv_sec = sec, tv_usec = usec\<rparr>)"

subsection \<open>Arithmetic\<close>

definition ToUint128 :: "Duration \<Rightarrow> (128 word \<times> bool) option" where
  "ToUint128 v =
     (if d_seconds v < 0 \<or> d_nanos v < 0
      then do { s \<leftarrow> i64 (- d_seconds v);
                n \<leftarrow> i32 (- d_nanos v);
                Some (ucast (word_of_int s :: 64 word) * word_of_int kNanosPerSecond
                        + ucast (word_of_int n :: 32 word), True) }
      else Some (ucast (word_of_int (d_seconds v) :: 64 word) * word_of_int kNanosPerSecond
                   + ucast (word_of_int (d_nanos v) :: 32 word), False))"

definition ToDuration :: "128 word \<Rightarrow> bool \<Rightarrow> Duration option" where
  "ToDuration v negative =
     (let seconds = sint (ucast (v div word_of_int kNanosPerSecond) :: 64 word);
          nanos = to_i32 (uint (ucast (v mod word_of_int kNanosPerSecond) :: 64 word))
      in if negative
         then do { s \<leftarrow> i64 (- seconds); n \<leftarrow> i32 (- nanos);
                   Some \<lparr>d_seconds = s, d_nanos = n\<rparr> }
         else Some \<lparr>d_seconds = seconds, d_nanos = nanos\<rparr>)"

definition duration_add :: "Duration \<Rightarrow> Duration \<Rightarrow> Duration option" where
  "duration_add d1 d2 = do {
     s \<leftarrow> i64 (d_seconds d1 + d_seconds d2);
     n \<leftarrow> i32 (d_nanos d1 + d_nanos d2);
     CreateNormalizedDuration s n }"

definition duration_sub :: "Duration \<Rightarrow> Duration \<Rightarrow> Duration option" where
  "duration_sub d1 d2 = do {
     s \<leftarrow> i64 (d_seconds d1 - d_seconds d2);
     n \<leftarrow> i32 (d_nanos d1 - d_nanos d2);
     CreateNormalizedDuration s n }"

definition duration_neg :: "Duration \<Rightarrow> Duration option" where
  "duration_neg d = do {
     s \<leftarrow> i64 (- d_seconds d);
     n \<leftarrow> i32 (- d_nanos d);
     Some \<lparr>d_seconds = s, d_nanos = n\<rparr> }"

definition duration_mul :: "Duration \<Rightarrow> int \<Rightarrow> Duration option" where
  "duration_mul d r = do {
     (v, negative) \<leftarrow> ToUint128 d;
     if r > 0 then ToDuration (v * ucast (word_of_int r :: 64 word)) negative
     else do { r' \<leftarrow> i64 (- r);
               ToDuration (v * ucast (word_of_int r' :: 64 word)) (\<not> negative) } }"

definition duration_div_int :: "Duration \<Rightarrow> int \<Rightarrow> Duration option" where
  "duration_div_int d r = do {
     (v, negative) \<leftarrow> ToUint128 d;
     if r > 0 then ToDuration (v div ucast (word_of_int r :: 64 word)) negative
     else do { r' \<leftarrow> i64 (- r);
               if r' = 0 then None
               else ToDuration (v div ucast (word_of_int r' :: 64 word)) (\<not> negative) } }"

definition duration_mod :: "Duration \<Rightarrow> Duration \<Rightarrow> Duration option" where
  "duration_mod d1 d2 = do {
     (v1, negative1) \<leftarrow> ToUint128 d1;
     (v2, negative2) \<leftarrow> ToUint128 d2;
     if v2 = 0 then None else ToDuration (v1 mod v2) negative1 }"

definition duration_div :: "Duration \<Rightarrow> Duration \<Rightarrow> int option" where
  "duration_div d1 d2 = do {
     (v1, negative1) \<leftarrow> ToUint128 d1;
     (v2, negative2) \<leftarrow> ToUint128 d2;
     if v2 = 0 then None
     else let result = sint (ucast (v1 div v2) :: 64 word)
          in if negative1 \<noteq> negative2 then i64 (- result) else Some result }"

definition timestamp_add :: "Timestamp \<Rightarrow> Duration \<Rightarrow> Timestamp option" where
  "timestamp_add t d = do {
     s \<leftarrow> i64 (ts_seconds t + d_seconds d);
     n \<leftarrow> i32 (ts_nanos t + d_nanos d);
     CreateNormalizedTimestamp s n }"

definition timestamp_sub :: "Timestamp \<Rightarrow> Duration \<Rightarrow> Timestamp option" where
  "timestamp_sub t d = do {
     s \<leftarrow> i64 (ts_seconds t - d_seconds d);
     n \<leftarrow> i32 (ts_nanos t - d_nanos d);
     CreateNormalizedTimestamp s n }"

definition timestamp_diff :: "Timestamp \<Rightarrow> Timestamp \<Rightarrow> Duration option" where
  "timestamp_diff t1 t2 = do {
     s \<leftarrow> i64 (ts_seconds t1 - ts_seconds t2);
     n \<leftarrow> i32 (ts_nanos t1 - ts_nanos t2);
     CreateNormalizedDuration s n }"

text \<open>The order of the header; the other comparisons are written in terms of it there.\<close>

definition duration_less :: "Duration \<Rightarrow> Duration \<Rightarrow> bool" where
  "duration_less d1 d2 =
     (if d_seconds d1 = d_seconds d2 then d_nanos d1 < d_nanos d2
      else d_seconds d1 < d_seconds d2)"

definition duration_eq :: "Duration \<Rightarrow> Duration \<Rightarrow> bool" where
  "duration_eq d1 d2 \<longleftrightarrow> d_seconds d1 = d_seconds d2 \<and> d_nanos d1 = d_nanos d2"

definition timestamp_less :: "Timestamp \<Rightarrow> Timestamp \<Rightarrow> bool" where
  "timestamp_less t1 t2 =
     (if ts_seconds t1 = ts_seconds t2 then ts_nanos t1 < ts_nanos t2
      else ts_seconds t1 < ts_seconds t2)"

definition timestamp_eq :: "Timestamp \<Rightarrow> Timestamp \<Rightarrow> bool" where
  "timestamp_eq t1 t2 \<longleftrightarrow> ts_seconds t1 = ts_seconds t2 \<and> ts_nanos t1 = ts_nanos t2"

subsection \<open>The 128-bit magnitude\<close>

text \<open>Durations whose two fields agree in sign and can be negated.\<close>

definition d_signed :: "Duration \<Rightarrow> bool" where
  "d_signed d \<longleftrightarrow> \<bar>d_seconds d\<bar> < 2 ^ 63 \<and> \<bar>d_nanos d\<bar> < 2 ^ 31
     \<and> \<not> (d_seconds d > 0 \<and> d_nanos d < 0) \<and> \<not> (d_seconds d < 0 \<and> d_nanos d > 0)"

lemma valid_signed: "IsDurationValid d \<Longrightarrow> d_signed d"
  by (auto simp: IsDurationValid_def d_signed_def time_consts)

lemma valid_normal: "IsDurationValid d \<Longrightarrow> d_normal d"
  by (auto simp: IsDurationValid_def d_normal_def time_consts)

lemma uint_wide:
  fixes s :: int
  assumes "0 \<le> s" and "s < 2 ^ 64"
  shows "uint (ucast (word_of_int s :: 64 word) :: 128 word) = s"
  using assms by (simp add: unsigned_ucast_eq uint_word_of_int_eq take_bit_int_eq_self)

lemma uint_wide32:
  fixes n :: int
  assumes "0 \<le> n" and "n < 2 ^ 32"
  shows "uint (ucast (word_of_int n :: 32 word) :: 128 word) = n"
  using assms by (simp add: unsigned_ucast_eq uint_word_of_int_eq take_bit_int_eq_self)

lemma uint_nanos [simp]: "uint (word_of_int kNanosPerSecond :: 128 word) = kNanosPerSecond"
  by (simp add: kNanosPerSecond_def)

lemma uint_magnitude:
  fixes a b :: "128 word"
  assumes "uint a < 2 ^ 64" and "uint b < 2 ^ 32"
  shows "uint (a * word_of_int kNanosPerSecond + b) = uint a * kNanosPerSecond + uint b"
proof -
  have "uint a * kNanosPerSecond < 2 ^ 64 * 2 ^ 30"
    using assms(1) by (simp add: kNanosPerSecond_def)
  then have "uint a * kNanosPerSecond < 2 ^ 128" and "uint a * kNanosPerSecond + uint b < 2 ^ 128"
    using assms(2) by simp_all
  then show ?thesis
    by (simp add: uint_word_ariths kNanosPerSecond_def)
qed

lemma ToUint128_total:
  assumes "d_signed d"
  shows "\<exists>v. ToUint128 d = Some (v, d_total d < 0) \<and> uint v = \<bar>d_total d\<bar>"
proof (cases "d_seconds d < 0 \<or> d_nanos d < 0")
  case True
  let ?s = "- d_seconds d" and ?n = "- d_nanos d"
  have r: "0 \<le> ?s" "?s < 2 ^ 63" "0 \<le> ?n" "?n < 2 ^ 31"
    using assms True by (auto simp: d_signed_def)
  have neg: "d_total d < 0" "\<bar>d_total d\<bar> = ?s * kNanosPerSecond + ?n"
    using r True by (auto simp: d_total_def kNanosPerSecond_def)
  have u1: "uint (ucast (word_of_int ?s :: 64 word) :: 128 word) = ?s"
    by (rule uint_wide) (use r in simp_all)
  have u2: "uint (ucast (word_of_int ?n :: 32 word) :: 128 word) = ?n"
    by (rule uint_wide32) (use r in simp_all)
  have "i64 ?s = Some ?s" "i32 ?n = Some ?n"
    using r by (auto simp: in_i64_def in_i32_def)
  then have "ToUint128 d = Some (ucast (word_of_int ?s :: 64 word) * word_of_int kNanosPerSecond
      + ucast (word_of_int ?n :: 32 word), True)"
    using True by (simp add: ToUint128_def del: of_int_minus)
  moreover have "uint (ucast (word_of_int ?s :: 64 word) * word_of_int kNanosPerSecond
      + ucast (word_of_int ?n :: 32 word) :: 128 word) = ?s * kNanosPerSecond + ?n"
    using r by (subst uint_magnitude) (simp_all only: u1 u2, simp_all)
  ultimately show ?thesis using neg by auto
next
  case False
  let ?s = "d_seconds d" and ?n = "d_nanos d"
  have r: "0 \<le> ?s" "?s < 2 ^ 63" "0 \<le> ?n" "?n < 2 ^ 31"
    using assms False by (auto simp: d_signed_def)
  have pos: "\<not> d_total d < 0" "\<bar>d_total d\<bar> = ?s * kNanosPerSecond + ?n"
    using r by (auto simp: d_total_def kNanosPerSecond_def)
  have u1: "uint (ucast (word_of_int ?s :: 64 word) :: 128 word) = ?s"
    by (rule uint_wide) (use r in simp_all)
  have u2: "uint (ucast (word_of_int ?n :: 32 word) :: 128 word) = ?n"
    by (rule uint_wide32) (use r in simp_all)
  have "ToUint128 d = Some (ucast (word_of_int ?s :: 64 word) * word_of_int kNanosPerSecond
      + ucast (word_of_int ?n :: 32 word), False)"
    using False by (simp add: ToUint128_def)
  moreover have "uint (ucast (word_of_int ?s :: 64 word) * word_of_int kNanosPerSecond
      + ucast (word_of_int ?n :: 32 word) :: 128 word) = ?s * kNanosPerSecond + ?n"
    using r by (subst uint_magnitude) (simp_all only: u1 u2, simp_all)
  ultimately show ?thesis using pos by auto
qed

lemma ToDuration_total:
  assumes "uint v < 2 ^ 63 * kNanosPerSecond"
  shows "\<exists>d. ToDuration v neg = Some d
            \<and> d_total d = (if neg then - uint v else uint v) \<and> d_normal d"
proof -
  define q r where "q = uint v div kNanosPerSecond" and "r = uint v mod kNanosPerSecond"
  have q: "0 \<le> q" "q < 2 ^ 63"
    using assms by (simp_all add: q_def pos_imp_zdiv_nonneg_iff kNanosPerSecond_def
        div_less_iff_less_mult)
  have r: "0 \<le> r" "r < kNanosPerSecond"
    by (simp_all add: r_def kNanosPerSecond_def)
  have qr: "q * kNanosPerSecond + r = uint v" by (simp add: q_def r_def)
  have sec: "sint (ucast (v div word_of_int kNanosPerSecond) :: 64 word) = q"
    using q unfolding q_def by (simp add: sint_uint unsigned_ucast_eq uint_div kNanosPerSecond_def
        take_bit_int_eq_self signed_take_bit_int_eq_self)
  have nan: "uint (ucast (v mod word_of_int kNanosPerSecond) :: 64 word) = r"
    using r unfolding r_def
    by (simp add: unsigned_ucast_eq uint_mod kNanosPerSecond_def take_bit_int_eq_self)
  have n32: "to_i32 r = r"
    using r by (intro to_i32_id) (simp add: in_i32_def kNanosPerSecond_def)
  have eq: "ToDuration v neg =
      (if neg then do { s \<leftarrow> i64 (- q); n \<leftarrow> i32 (- r); Some \<lparr>d_seconds = s, d_nanos = n\<rparr> }
       else Some \<lparr>d_seconds = q, d_nanos = r\<rparr>)"
    unfolding ToDuration_def Let_def sec nan n32 by (rule refl)
  have "i64 (- q) = Some (- q)" "i32 (- r) = Some (- r)"
    using q r by (simp_all add: in_i64_def in_i32_def kNanosPerSecond_def)
  then show ?thesis
    unfolding eq d_total_def d_normal_def using q r qr by (cases neg) (auto simp: abs_less_iff)
qed

end
