(* ===== verification/Time_Laws.thy ===== *)
theory Time_Laws
  imports Time_Util
begin

section \<open>util/time_util: the laws of the arithmetic\<close>

text \<open>
  The properties of the model of \<open>TimeUtil\<close>: on valid messages no operation overflows
  except where stated, and every operation is the operation of the same name on the total
  number of nanoseconds.
\<close>

lemma sec_nanos_unique:
  fixes s n s' n' K :: int
  assumes "0 \<le> n" "n < K" "0 \<le> n'" "n' < K" and eq: "s * K + n = s' * K + n'"
  shows "s = s'" and "n = n'"
proof -
  have "(s * K + n) div K = s" "(s' * K + n') div K = s'"
    using assms(1-4) by simp_all
  with eq show "s = s'" by simp
  with eq show "n = n'" by simp
qed

lemma d_normal_cases:
  assumes "d_normal d"
  obtains "0 \<le> d_total d" "0 \<le> d_seconds d" "0 \<le> d_nanos d" "d_nanos d < kNanosPerSecond"
  | "d_total d < 0" "0 \<le> - d_seconds d" "0 \<le> - d_nanos d" "- d_nanos d < kNanosPerSecond"
proof (cases "d_seconds d < 0 \<or> d_nanos d < 0")
  case True
  with assms have "d_seconds d \<le> 0" "d_nanos d \<le> 0" "- d_nanos d < kNanosPerSecond"
    by (auto simp: d_normal_def)
  with True that(2) show ?thesis by (auto simp: d_total_def kNanosPerSecond_def)
next
  case False
  with assms that(1) show ?thesis by (auto simp: d_normal_def d_total_def kNanosPerSecond_def)
qed

lemma d_total_inject:
  assumes d: "d_normal d" and e: "d_normal e" and eq: "d_total d = d_total e"
  shows "d = e"
  using d
proof (cases rule: d_normal_cases)
  case 1
  from e eq 1(1) have "0 \<le> d_nanos e" "d_nanos e < kNanosPerSecond"
    by (auto elim: d_normal_cases)
  with 1 eq sec_nanos_unique [of "d_nanos d" kNanosPerSecond "d_nanos e" "d_seconds d" "d_seconds e"]
  show ?thesis by (simp add: d_total_def)
next
  case 2
  from e eq 2(1) have "0 \<le> - d_nanos e" "- d_nanos e < kNanosPerSecond"
    by (auto elim: d_normal_cases)
  with 2 eq sec_nanos_unique [of "- d_nanos d" kNanosPerSecond "- d_nanos e" "- d_seconds d" "- d_seconds e"]
  show ?thesis by (simp add: d_total_def)
qed

lemma ts_total_inject:
  "0 \<le> ts_nanos t \<Longrightarrow> ts_nanos t < kNanosPerSecond \<Longrightarrow> 0 \<le> ts_nanos u \<Longrightarrow>
   ts_nanos u < kNanosPerSecond \<Longrightarrow> ts_total t = ts_total u \<Longrightarrow> t = u"
  using sec_nanos_unique [of "ts_nanos t" kNanosPerSecond "ts_nanos u" "ts_seconds t" "ts_seconds u"]
  by (simp add: ts_total_def)

lemma valid_d_range: "IsDurationValid d \<Longrightarrow> \<bar>d_seconds d\<bar> \<le> 315576000000 \<and> \<bar>d_nanos d\<bar> < 1000000000"
  by (auto simp: IsDurationValid_def time_consts)

lemma valid_ts_range:
  "IsTimestampValid t \<Longrightarrow> \<bar>ts_seconds t\<bar> < 253402300800 \<and> 0 \<le> ts_nanos t \<and> ts_nanos t < 1000000000"
  by (auto simp: IsTimestampValid_def time_consts)

lemma normal_validI:
  "d_normal d \<Longrightarrow> \<bar>d_total d\<bar> < 315576000001 * kNanosPerSecond \<Longrightarrow> IsDurationValid d"
  by (auto simp: d_normal_def d_total_def IsDurationValid_def time_consts)

lemma duration_add_total:
  assumes "IsDurationValid d1" and "IsDurationValid d2"
  shows "\<exists>d. duration_add d1 d2 = Some d \<and> d_total d = d_total d1 + d_total d2 \<and> d_normal d"
proof -
  let ?s = "d_seconds d1 + d_seconds d2" and ?n = "d_nanos d1 + d_nanos d2"
  have r: "in_i64 ?s" "in_i32 ?n" "norm_range ?s ?n"
    using valid_d_range [OF assms(1)] valid_d_range [OF assms(2)]
    by (auto simp: in_i64_def in_i32_def norm_range_def)
  with normalized_duration [OF r(3)] show ?thesis
    by (auto simp: duration_add_def d_total_def algebra_simps)
qed

lemma duration_sub_total:
  assumes "IsDurationValid d1" and "IsDurationValid d2"
  shows "\<exists>d. duration_sub d1 d2 = Some d \<and> d_total d = d_total d1 - d_total d2 \<and> d_normal d"
proof -
  let ?s = "d_seconds d1 - d_seconds d2" and ?n = "d_nanos d1 - d_nanos d2"
  have r: "in_i64 ?s" "in_i32 ?n" "norm_range ?s ?n"
    using valid_d_range [OF assms(1)] valid_d_range [OF assms(2)]
    by (auto simp: in_i64_def in_i32_def norm_range_def)
  with normalized_duration [OF r(3)] show ?thesis
    by (auto simp: duration_sub_def d_total_def algebra_simps)
qed

lemma timestamp_diff_total:
  assumes "IsTimestampValid t1" and "IsTimestampValid t2"
  shows "\<exists>d. timestamp_diff t1 t2 = Some d \<and> d_total d = ts_total t1 - ts_total t2 \<and> d_normal d"
proof -
  let ?s = "ts_seconds t1 - ts_seconds t2" and ?n = "ts_nanos t1 - ts_nanos t2"
  have r: "in_i64 ?s" "in_i32 ?n" "norm_range ?s ?n"
    using valid_ts_range [OF assms(1)] valid_ts_range [OF assms(2)]
    by (auto simp: in_i64_def in_i32_def norm_range_def)
  with normalized_duration [OF r(3)] show ?thesis
    by (auto simp: timestamp_diff_def d_total_def ts_total_def algebra_simps)
qed

lemma timestamp_add_total:
  assumes "IsTimestampValid t" and "IsDurationValid d"
  shows "\<exists>u. timestamp_add t d = Some u \<and> ts_total u = ts_total t + d_total d
            \<and> 0 \<le> ts_nanos u \<and> ts_nanos u < kNanosPerSecond"
proof -
  let ?s = "ts_seconds t + d_seconds d" and ?n = "ts_nanos t + d_nanos d"
  have r: "in_i64 ?s" "in_i32 ?n" "norm_range ?s ?n"
    using valid_ts_range [OF assms(1)] valid_d_range [OF assms(2)]
    by (auto simp: in_i64_def in_i32_def norm_range_def)
  with normalized_timestamp [OF r(3)] show ?thesis
    by (auto simp: timestamp_add_def d_total_def ts_total_def algebra_simps)
qed

lemma timestamp_sub_total:
  assumes "IsTimestampValid t" and "IsDurationValid d"
  shows "\<exists>u. timestamp_sub t d = Some u \<and> ts_total u = ts_total t - d_total d
            \<and> 0 \<le> ts_nanos u \<and> ts_nanos u < kNanosPerSecond"
proof -
  let ?s = "ts_seconds t - d_seconds d" and ?n = "ts_nanos t - d_nanos d"
  have r: "in_i64 ?s" "in_i32 ?n" "norm_range ?s ?n"
    using valid_ts_range [OF assms(1)] valid_d_range [OF assms(2)]
    by (auto simp: in_i64_def in_i32_def norm_range_def)
  with normalized_timestamp [OF r(3)] show ?thesis
    by (auto simp: timestamp_sub_def d_total_def ts_total_def algebra_simps)
qed

lemma timestamp_diff_valid:
  assumes "IsTimestampValid t1" and "IsTimestampValid t2"
    and "d_total d = ts_total t1 - ts_total t2" and "d_normal d"
  shows "IsDurationValid d"
  using valid_ts_range [OF assms(1)] valid_ts_range [OF assms(2)] assms
  by (intro normal_validI)
    (auto simp: IsTimestampValid_def ts_total_def time_consts abs_less_iff)

subsection \<open>Exact arithmetic\<close>

text \<open>The sum and the difference of two valid durations are computed without overflow,
  are exact in nanoseconds, and are normalised: the nanoseconds stay below one second and
  never disagree in sign with the seconds.\<close>

theorem duration_add_sub_exact:
  assumes "IsDurationValid d1" and "IsDurationValid d2"
  shows "(\<exists>d. duration_add d1 d2 = Some d \<and> d_total d = d_total d1 + d_total d2 \<and> d_normal d)
       \<and> (\<exists>d. duration_sub d1 d2 = Some d \<and> d_total d = d_total d1 - d_total d2 \<and> d_normal d)"
  using duration_add_total [OF assms] duration_sub_total [OF assms] by blast

theorem duration_add_sub_exact_witness:
  "(\<exists>d. duration_add \<lparr>d_seconds = 1, d_nanos = 600000000\<rparr> \<lparr>d_seconds = -3, d_nanos = -100000000\<rparr> = Some d
        \<and> d_total d = -1500000000 \<and> d_normal d)"
  using duration_add_sub_exact
    [of "\<lparr>d_seconds = 1, d_nanos = 600000000\<rparr>" "\<lparr>d_seconds = -3, d_nanos = -100000000\<rparr>"]
  by (simp add: IsDurationValid_def time_consts d_total_def)

text \<open>Subtracting two valid timestamps gives a valid duration, and adding it back to
  (or taking it from) the operand returns exactly the other operand.\<close>

theorem timestamp_diff_inverse:
  assumes "IsTimestampValid t1" and "IsTimestampValid t2"
  shows "\<exists>d. timestamp_diff t1 t2 = Some d \<and> IsDurationValid d
            \<and> timestamp_add t2 d = Some t1 \<and> timestamp_sub t1 d = Some t2"
proof -
  obtain d where d: "timestamp_diff t1 t2 = Some d" "d_total d = ts_total t1 - ts_total t2"
    "d_normal d"
    using timestamp_diff_total [OF assms] by blast
  have v: "IsDurationValid d"
    using timestamp_diff_valid [OF assms d(2,3)] .
  have "timestamp_add t2 d = Some t1"
    using timestamp_add_total [OF assms(2) v] ts_total_inject [of _ t1] d(2)
      valid_ts_range [OF assms(1)]
    by (auto simp: kNanosPerSecond_def)
  moreover have "timestamp_sub t1 d = Some t2"
    using timestamp_sub_total [OF assms(1) v] ts_total_inject [of _ t2] d(2)
      valid_ts_range [OF assms(2)]
    by (auto simp: kNanosPerSecond_def)
  ultimately show ?thesis using d v by blast
qed

theorem timestamp_diff_inverse_witness:
  "\<exists>d. timestamp_diff \<lparr>ts_seconds = 0, ts_nanos = 5\<rparr> \<lparr>ts_seconds = 7, ts_nanos = 0\<rparr> = Some d
       \<and> IsDurationValid d
       \<and> timestamp_add \<lparr>ts_seconds = 7, ts_nanos = 0\<rparr> d = Some \<lparr>ts_seconds = 0, ts_nanos = 5\<rparr>
       \<and> timestamp_sub \<lparr>ts_seconds = 0, ts_nanos = 5\<rparr> d = Some \<lparr>ts_seconds = 7, ts_nanos = 0\<rparr>"
  by (rule timestamp_diff_inverse) (simp_all add: IsTimestampValid_def time_consts)

subsection \<open>Multiplication and division\<close>

lemma uint_of_pos:
  fixes r :: int
  assumes "0 \<le> r" and "in_i64 r"
  shows "uint (ucast (word_of_int r :: 64 word) :: 128 word) = r"
  by (rule uint_wide) (use assms in \<open>simp_all add: in_i64_def\<close>)

lemma uint_mult_small:
  fixes a b :: "128 word"
  assumes "uint a * uint b < 2 ^ 128"
  shows "uint (a * b) = uint a * uint b"
  using assms by (simp add: uint_word_ariths)

lemma sdiv_abs: "(a::int) sdiv b = sgn a * sgn b * (\<bar>a\<bar> div \<bar>b\<bar>)"
  by (rule signed_divide_int_def)

lemma smod_abs: "(a::int) smod b = sgn a * (\<bar>a\<bar> mod \<bar>b\<bar>)"
  by (simp add: signed_modulo_int_def)



text \<open>Quotient and remainder of two valid durations truncate towards zero and recombine to
  the dividend, provided the quotient fits \<open>int64\<close>; the remainder has the sign of the
  dividend and is smaller than the divisor.\<close>

theorem duration_divmod:
  assumes "IsDurationValid d1" and "IsDurationValid d2" and "d_total d2 \<noteq> 0"
    and fits: "\<bar>d_total d1\<bar> div \<bar>d_total d2\<bar> < 2 ^ 63"
  shows "\<exists>q m. duration_div d1 d2 = Some q \<and> duration_mod d1 d2 = Some m
            \<and> q = d_total d1 sdiv d_total d2 \<and> d_total m = d_total d1 smod d_total d2
            \<and> q * d_total d2 + d_total m = d_total d1 \<and> \<bar>d_total m\<bar> < \<bar>d_total d2\<bar>"
proof -
  obtain v1 where v1: "ToUint128 d1 = Some (v1, d_total d1 < 0)" "uint v1 = \<bar>d_total d1\<bar>"
    using ToUint128_total [OF valid_signed [OF assms(1)]] by blast
  obtain v2 where v2: "ToUint128 d2 = Some (v2, d_total d2 < 0)" "uint v2 = \<bar>d_total d2\<bar>"
    using ToUint128_total [OF valid_signed [OF assms(2)]] by blast
  define Q M where "Q = \<bar>d_total d1\<bar> div \<bar>d_total d2\<bar>" and "M = \<bar>d_total d1\<bar> mod \<bar>d_total d2\<bar>"
  have nz: "v2 \<noteq> 0" using v2(2) assms(3) by auto
  have Q: "0 \<le> Q" "Q < 2 ^ 63" and M: "0 \<le> M" "M < \<bar>d_total d2\<bar>"
    using fits assms(3) by (simp_all add: Q_def M_def pos_imp_zdiv_nonneg_iff)
  have q: "sint (ucast (v1 div v2) :: 64 word) = Q"
    using Q unfolding Q_def by (simp add: sint_uint unsigned_ucast_eq uint_div v1 v2
        take_bit_int_eq_self signed_take_bit_int_eq_self)
  have m: "uint (v1 mod v2) = M" by (simp add: M_def uint_mod v1 v2)
  have "\<bar>d_total d2\<bar> < 2 ^ 63 * kNanosPerSecond"
    using valid_d_range [OF assms(2)] by (auto simp: d_total_def kNanosPerSecond_def abs_less_iff)
  with M m obtain e where e: "ToDuration (v1 mod v2) (d_total d1 < 0) = Some e"
    "d_total e = (if d_total d1 < 0 then - M else M)"
    using ToDuration_total [of "v1 mod v2" "d_total d1 < 0"] by auto
  have "duration_mod d1 d2 = Some e"
    using v1 v2 nz e(1) by (simp add: duration_mod_def)
  moreover have em: "d_total e = d_total d1 smod d_total d2"
    using e(2) by (auto simp: smod_abs M_def sgn_if)
  moreover have "in_i64 (- Q)" using Q by (simp add: in_i64_def)
  then have "duration_div d1 d2 = Some (d_total d1 sdiv d_total d2)"
    using v1 v2 nz assms(3)
    by (auto simp: duration_div_def q sdiv_abs Q_def [symmetric] sgn_if)
      (simp_all add: Q_def)
  moreover have "\<bar>d_total e\<bar> < \<bar>d_total d2\<bar>"
    using e(2) M by auto
  ultimately show ?thesis
    using sdiv_smod_eq [of "d_total d1" "d_total d2"] by auto
qed

theorem duration_divmod_witness:
  "\<exists>q m. duration_div \<lparr>d_seconds = -5, d_nanos = 0\<rparr> \<lparr>d_seconds = 2, d_nanos = 0\<rparr> = Some q
     \<and> duration_mod \<lparr>d_seconds = -5, d_nanos = 0\<rparr> \<lparr>d_seconds = 2, d_nanos = 0\<rparr> = Some m
     \<and> q = -2 \<and> d_total m = -1000000000"
  using duration_divmod [of "\<lparr>d_seconds = -5, d_nanos = 0\<rparr>" "\<lparr>d_seconds = 2, d_nanos = 0\<rparr>"]
  by (simp add: IsDurationValid_def time_consts d_total_def sdiv_abs smod_abs) blast

text \<open>The quotient of two valid durations is computed modulo \<open>2 ^ 64\<close>: dividing ten
  thousand million seconds by one nanosecond returns a negative number.\<close>

theorem duration_div_wraps:
  "IsDurationValid \<lparr>d_seconds = 10000000000, d_nanos = 0\<rparr>
   \<and> IsDurationValid \<lparr>d_seconds = 0, d_nanos = 1\<rparr>
   \<and> duration_div \<lparr>d_seconds = 10000000000, d_nanos = 0\<rparr> \<lparr>d_seconds = 0, d_nanos = 1\<rparr>
     = Some (10000000000 * kNanosPerSecond - 2 ^ 64)"
  by (simp add: IsDurationValid_def time_consts duration_div_def ToUint128_def)

subsection \<open>Conversions\<close>

lemma RoundTowardZero_sdiv: "0 < F \<Longrightarrow> RoundTowardZero v F = v sdiv F"
  using sdiv_sign [of F v] smod_bounds(4) [of F v]
  by (cases "v < 0") (auto simp: RoundTowardZero_def Let_def)

lemma sdiv_nonneg: "0 < b \<Longrightarrow> 0 \<le> a \<Longrightarrow> (a::int) sdiv b = a div b"
  by (simp add: sdiv_pos)

lemma sdiv_nonpos: "0 < b \<Longrightarrow> a \<le> 0 \<Longrightarrow> (a::int) sdiv b = - ((- a) div b)"
  by (cases "a = 0") (simp_all add: sdiv_pos)

lemma sdiv_add_mult_nonneg:
  fixes s n K F :: int
  assumes "0 < F" and "0 \<le> K" and "0 \<le> s" and "0 \<le> n"
  shows "(s * (K * F) + n) sdiv F = s * K + n sdiv F"
proof -
  have "(s * (K * F) + n) div F = s * K + n div F"
    using assms(1) div_mult_self1 [of F n "s * K"] by (simp add: ac_simps)
  then show ?thesis using assms by (simp add: sdiv_nonneg)
qed

lemma sdiv_add_mult:
  fixes s n K F :: int
  assumes "0 < F" and "0 \<le> K"
    and "(0 \<le> s \<and> 0 \<le> n) \<or> (s \<le> 0 \<and> n \<le> 0)"
  shows "(s * (K * F) + n) sdiv F = s * K + n sdiv F"
  using assms(3)
proof
  assume "0 \<le> s \<and> 0 \<le> n"
  with assms(1,2) show ?thesis by (simp add: sdiv_add_mult_nonneg)
next
  assume n: "s \<le> 0 \<and> n \<le> 0"
  have "s * (K * F) + n = - (- s * (K * F) + - n)" by simp
  then have "(s * (K * F) + n) sdiv F = - ((- s * (K * F) + - n) sdiv F)"
    by (simp only: minus_sdiv_eq)
  also have "\<dots> = - (- s * K + (- n) sdiv F)"
    using assms(1,2) n by (subst sdiv_add_mult_nonneg) simp_all
  finally show ?thesis by simp
qed

lemma duration_trunc:
  assumes "d_normal d" and "0 < F" and "0 \<le> K" and "K * F = kNanosPerSecond"
  shows "d_seconds d * K + RoundTowardZero (d_nanos d) F = d_total d sdiv F"
proof -
  have "(0 \<le> d_seconds d \<and> 0 \<le> d_nanos d) \<or> (d_seconds d \<le> 0 \<and> d_nanos d \<le> 0)"
    using assms(1) by (auto simp: d_normal_def)
  from sdiv_add_mult [OF assms(2,3) this] assms(2,4) show ?thesis
    by (simp add: d_total_def RoundTowardZero_sdiv)
qed

lemma timestamp_floor:
  assumes "0 \<le> ts_nanos t" and "0 < F" and "K * F = kNanosPerSecond"
  shows "ts_seconds t * K + RoundTowardZero (ts_nanos t) F = ts_total t div F"
proof -
  have "ts_total t = ts_nanos t + ts_seconds t * K * F"
    using assms(3) by (simp add: ts_total_def)
  then show ?thesis using assms(1,2) by (simp add: RoundTowardZero_sdiv sdiv_pos)
qed

lemma sdiv_sdiv:
  fixes x a b :: int
  assumes "0 < a" and "0 < b"
  shows "(x sdiv a) sdiv b = x sdiv (a * b)"
proof (cases "0 \<le> x")
  case True
  with assms show ?thesis
    by (simp add: sdiv_nonneg zdiv_zmult2_eq pos_imp_zdiv_nonneg_iff)
next
  case False
  then have "0 \<le> (- x) div a" using assms by (simp add: pos_imp_zdiv_nonneg_iff)
  with False assms show ?thesis
    by (simp add: sdiv_nonpos sdiv_nonneg zdiv_zmult2_eq)
qed

lemma nanos_bounded:
  assumes "d_normal d" and "0 < F"
  shows "\<bar>RoundTowardZero (d_nanos d) F\<bar> < kNanosPerSecond"
proof -
  have "\<bar>d_nanos d\<bar> div F \<le> \<bar>d_nanos d\<bar> div 1"
    using assms(2) by (intro zdiv_mono2) simp_all
  moreover have "\<bar>d_nanos d sdiv F\<bar> = \<bar>d_nanos d\<bar> div F"
    using assms(2) by (auto simp: sdiv_abs abs_mult sgn_if pos_imp_zdiv_nonneg_iff)
  ultimately show ?thesis
    using assms by (simp add: RoundTowardZero_sdiv d_normal_def)
qed

text \<open>For a valid duration the conversions to coarser units truncate the exact length
  towards zero, and never overflow; the conversion to nanoseconds returns the exact length
  when that fits \<open>int64\<close> and is undefined otherwise.\<close>

theorem duration_units_truncate:
  assumes "IsDurationValid d"
  shows "DurationToMicroseconds d = Some (d_total d sdiv 1000)
       \<and> DurationToMilliseconds d = Some (d_total d sdiv 1000000)
       \<and> DurationToSeconds d = d_total d sdiv 1000000000
       \<and> DurationToMinutes d = d_total d sdiv (60 * 1000000000)
       \<and> DurationToHours d = d_total d sdiv (3600 * 1000000000)
       \<and> DurationToNanoseconds d = (if in_i64 (d_total d) then Some (d_total d) else None)"
proof (intro conjI)
  note r = valid_d_range [OF assms] and n = valid_normal [OF assms]
  have rtz: "\<bar>RoundTowardZero (d_nanos d) 1000\<bar> < 1000000000"
    "\<bar>RoundTowardZero (d_nanos d) 1000000\<bar> < 1000000000"
    using nanos_bounded [OF n, of 1000] nanos_bounded [OF n, of 1000000]
    by (simp_all add: kNanosPerSecond_def)
  show "DurationToMicroseconds d = Some (d_total d sdiv 1000)"
  proof -
    have "in_i64 (d_seconds d * 1000000)"
      "in_i64 (d_seconds d * 1000000 + RoundTowardZero (d_nanos d) 1000)"
      using r rtz by (auto simp: in_i64_def abs_less_iff abs_le_iff)
    then show ?thesis
      using duration_trunc [OF n, of 1000 1000000]
      by (simp add: DurationToMicroseconds_def DurationToSeconds_def time_consts)
  qed
  show "DurationToMilliseconds d = Some (d_total d sdiv 1000000)"
  proof -
    have "in_i64 (d_seconds d * 1000)"
      "in_i64 (d_seconds d * 1000 + RoundTowardZero (d_nanos d) 1000000)"
      using r rtz by (auto simp: in_i64_def abs_less_iff abs_le_iff)
    then show ?thesis
      using duration_trunc [OF n, of 1000000 1000]
      by (simp add: DurationToMilliseconds_def DurationToSeconds_def time_consts)
  qed
  have small: "d_nanos d sdiv 1000000000 = 0"
    using r by (auto simp: sdiv_pos)
  show sec: "DurationToSeconds d = d_total d sdiv 1000000000"
    using duration_trunc [OF n, of 1000000000 1] small
    by (simp add: DurationToSeconds_def RoundTowardZero_sdiv kNanosPerSecond_def)
  show "DurationToMinutes d = d_total d sdiv (60 * 1000000000)"
    by (simp add: DurationToMinutes_def RoundTowardZero_sdiv kSecondsPerMinute_def sec sdiv_sdiv)
  show "DurationToHours d = d_total d sdiv (3600 * 1000000000)"
    by (simp add: DurationToHours_def RoundTowardZero_sdiv kSecondsPerHour_def sec sdiv_sdiv)
  show "DurationToNanoseconds d = (if in_i64 (d_total d) then Some (d_total d) else None)"
    using n
  proof (cases rule: d_normal_cases)
    case 1
    then show ?thesis
      by (auto simp: DurationToNanoseconds_def d_total_def i64_None in_i64_def kNanosPerSecond_def i64_def)
  next
    case 2
    then show ?thesis
      by (auto simp: DurationToNanoseconds_def d_total_def i64_None in_i64_def kNanosPerSecond_def i64_def)
  qed
qed

theorem duration_units_truncate_witness:
  "DurationToMilliseconds \<lparr>d_seconds = -1, d_nanos = -999999\<rparr> = Some (-1000)"
  using duration_units_truncate [of "\<lparr>d_seconds = -1, d_nanos = -999999\<rparr>"]
  by (simp add: IsDurationValid_def time_consts d_total_def sdiv_abs)

text \<open>Building a duration from any \<open>int64\<close> number of milliseconds, microseconds or
  nanoseconds succeeds, denotes that number exactly and is normalised; for milliseconds and
  microseconds converting a valid result back returns the number.\<close>

theorem duration_from_units:
  assumes "in_i64 m"
  shows "(\<exists>d. NanosecondsToDuration m = Some d \<and> d_normal d \<and> d_total d = m)
       \<and> (\<exists>d. MicrosecondsToDuration m = Some d \<and> d_normal d \<and> d_total d = m * 1000
              \<and> (IsDurationValid d \<longrightarrow> DurationToMicroseconds d = Some m))
       \<and> (\<exists>d. MillisecondsToDuration m = Some d \<and> d_normal d \<and> d_total d = m * 1000000
              \<and> (IsDurationValid d \<longrightarrow> DurationToMilliseconds d = Some m))"
proof (intro conjI)
  have q: "\<bar>m sdiv K\<bar> \<le> 2 ^ 63 div 1000" if "1000 \<le> K" for K
  proof -
    have "\<bar>m\<bar> div K \<le> 2 ^ 63 div K" using assms that by (intro zdiv_mono1) (auto simp: in_i64_def)
    also have "\<dots> \<le> 2 ^ 63 div 1000" using that by (intro zdiv_mono2) simp_all
    finally show ?thesis using that by (auto simp: sdiv_abs abs_mult sgn_if pos_imp_zdiv_nonneg_iff)
  qed
  have r: "- K < m smod K \<and> m smod K < K" if "1000 \<le> K" for K
    using smod_bounds(1,2) [of K m] that by auto
  have scaled: "(m * F) sdiv F = m" if "0 < F" for F
    using sdiv_add_mult [of F 1 m 0] that by (cases "0 \<le> m") (simp_all add: sdiv_nonneg)
  show "\<exists>d. NanosecondsToDuration m = Some d \<and> d_normal d \<and> d_total d = m"
  proof -
    have "in_i32 (m smod 1000000000)" using r [of 1000000000] by (auto simp: in_i32_def)
    then show ?thesis
      using normalized_duration [of "m sdiv 1000000000" "m smod 1000000000"] q [of 1000000000]
        sdiv_smod_eq [of m 1000000000]
      by (auto simp: NanosecondsToDuration_def kNanosPerSecond_def to_i32_id norm_range_def)
  qed
  show "\<exists>d. MicrosecondsToDuration m = Some d \<and> d_normal d \<and> d_total d = m * 1000
              \<and> (IsDurationValid d \<longrightarrow> DurationToMicroseconds d = Some m)"
  proof -
    let ?n = "m smod 1000000 * 1000"
    have n: "in_i32 ?n" "in_i64 ?n" using r [of 1000000] by (auto simp: in_i32_def in_i64_def)
    obtain d where d: "MicrosecondsToDuration m = Some d" "d_normal d" "d_total d = m * 1000"
      using normalized_duration [of "m sdiv 1000000" ?n] q [of 1000000] n
        sdiv_smod_eq [of m 1000000]
      by (auto simp: MicrosecondsToDuration_def time_consts to_i32_id norm_range_def)
    with duration_units_truncate [of d] scaled [of 1000] show ?thesis by auto
  qed
  show "\<exists>d. MillisecondsToDuration m = Some d \<and> d_normal d \<and> d_total d = m * 1000000
              \<and> (IsDurationValid d \<longrightarrow> DurationToMilliseconds d = Some m)"
  proof -
    let ?n = "m smod 1000 * 1000000"
    have n: "in_i32 ?n" "in_i64 ?n" using r [of 1000] by (auto simp: in_i32_def in_i64_def)
    obtain d where d: "MillisecondsToDuration m = Some d" "d_normal d" "d_total d = m * 1000000"
      using normalized_duration [of "m sdiv 1000" ?n] q [of 1000] n
        sdiv_smod_eq [of m 1000]
      by (auto simp: MillisecondsToDuration_def time_consts to_i32_id norm_range_def)
    with duration_units_truncate [of d] scaled [of 1000000] show ?thesis by auto
  qed
qed

theorem duration_from_units_witness:
  "\<exists>d. MillisecondsToDuration (-1500) = Some d \<and> d_total d = -1500000000"
  using duration_from_units [of "-1500"] by (auto simp: in_i64_def)

text \<open>For a valid timestamp the conversions to coarser units round down (also before the
  epoch), and the round trip through a \<open>timeval\<close> keeps the microsecond: it returns the
  timestamp with the nanoseconds below one microsecond cut off.\<close>

theorem timestamp_units_floor:
  assumes "IsTimestampValid t"
  shows "TimestampToMicroseconds t = Some (ts_total t div 1000)
       \<and> TimestampToMilliseconds t = Some (ts_total t div 1000000)
       \<and> TimestampToSeconds t = ts_total t div 1000000000
       \<and> (\<exists>u. TimevalToTimestamp (TimestampToTimeval t) = Some u
             \<and> ts_total u = ts_total t div 1000 * 1000)"
proof (intro conjI)
  note r = valid_ts_range [OF assms]
  have rtz: "RoundTowardZero (ts_nanos t) F = ts_nanos t div F" if "0 < F" for F
    using r that by (simp add: RoundTowardZero_sdiv sdiv_nonneg)
  have b: "0 \<le> ts_nanos t div F \<and> ts_nanos t div F < 1000000000" if "0 < F" for F
  proof -
    have "ts_nanos t div F \<le> ts_nanos t div 1" using that r by (intro zdiv_mono2) simp_all
    with that r show ?thesis by (simp add: pos_imp_zdiv_nonneg_iff)
  qed
  show "TimestampToMicroseconds t = Some (ts_total t div 1000)"
  proof -
    have "in_i64 (ts_seconds t * 1000000)"
      "in_i64 (ts_seconds t * 1000000 + ts_nanos t div 1000)"
      using r b [of 1000] by (auto simp: in_i64_def abs_less_iff)
    with timestamp_floor [of t 1000 1000000] r show ?thesis
      by (simp add: TimestampToMicroseconds_def time_consts rtz)
  qed
  show "TimestampToMilliseconds t = Some (ts_total t div 1000000)"
  proof -
    have "in_i64 (ts_seconds t * 1000)"
      "in_i64 (ts_seconds t * 1000 + ts_nanos t div 1000000)"
      using r b [of 1000000] by (auto simp: in_i64_def abs_less_iff)
    with timestamp_floor [of t 1000000 1000] r show ?thesis
      by (simp add: TimestampToMilliseconds_def time_consts rtz)
  qed
  show "TimestampToSeconds t = ts_total t div 1000000000"
    using timestamp_floor [of t 1000000000 1] r
    by (simp add: TimestampToSeconds_def rtz kNanosPerSecond_def)
  have n: "ts_nanos t div 1000 * 1000 \<le> ts_nanos t" "0 \<le> ts_nanos t div 1000"
    using r b [of 1000] by auto
  then have ok: "in_i64 (ts_nanos t div 1000 * 1000)" "in_i32 (ts_nanos t div 1000 * 1000)"
    "norm_range (ts_seconds t) (ts_nanos t div 1000 * 1000)"
    using r by (auto simp: in_i64_def in_i32_def norm_range_def)
  have "ts_seconds t * 1000000 + ts_nanos t div 1000 = ts_total t div 1000"
    using timestamp_floor [of t 1000 1000000] r by (simp add: rtz kNanosPerSecond_def)
  with normalized_timestamp [OF ok(3)] ok
  show "\<exists>u. TimevalToTimestamp (TimestampToTimeval t) = Some u
             \<and> ts_total u = ts_total t div 1000 * 1000"
    by (auto simp: TimevalToTimestamp_def TimestampToTimeval_def rtz to_i32_id time_consts)
qed

theorem timestamp_units_floor_witness:
  "TimestampToMilliseconds \<lparr>ts_seconds = -1, ts_nanos = 900000000\<rparr> = Some (-100)"
  using timestamp_units_floor [of "\<lparr>ts_seconds = -1, ts_nanos = 900000000\<rparr>"]
  by (simp add: IsTimestampValid_def time_consts ts_total_def)

text \<open>\<open>DurationToTimeval\<close> of a valid duration has microseconds between zero and one
  million, also for negative durations, denotes the duration truncated to whole microseconds,
  and converting it back gives that duration.\<close>

theorem duration_timeval:
  assumes "IsDurationValid d"
  shows "\<exists>tv e. DurationToTimeval d = Some tv \<and> 0 \<le> tv_usec tv \<and> tv_usec tv < 1000000
             \<and> tv_sec tv * 1000000 + tv_usec tv = d_total d sdiv 1000
             \<and> TimevalToDuration tv = Some e \<and> d_normal e
             \<and> d_total e = d_total d sdiv 1000 * 1000"
proof -
  note r = valid_d_range [OF assms] and n = valid_normal [OF assms]
  define u where "u = RoundTowardZero (d_nanos d) 1000"
  have tot: "d_seconds d * 1000000 + u = d_total d sdiv 1000"
    using duration_trunc [OF n, of 1000 1000000] by (simp add: u_def kNanosPerSecond_def)
  have "\<bar>u\<bar> = \<bar>d_nanos d\<bar> div 1000"
    unfolding u_def by (auto simp: RoundTowardZero_sdiv sdiv_abs abs_mult sgn_if pos_imp_zdiv_nonneg_iff)
  with r have u: "- 1000000 < u" "u < 1000000" by auto
  define tv where "tv = (if u < 0 then \<lparr>tv_sec = d_seconds d - 1, tv_usec = u + 1000000\<rparr>
                          else \<lparr>tv_sec = d_seconds d, tv_usec = u\<rparr>)"
  have i: "u < 0 \<Longrightarrow> in_i64 (d_seconds d - 1)" "u < 0 \<Longrightarrow> in_i64 (u + 1000000)"
    using r u by (auto simp: in_i64_def abs_le_iff)
  have tv: "DurationToTimeval d = Some tv" "0 \<le> tv_usec tv" "tv_usec tv < 1000000"
    "tv_sec tv * 1000000 + tv_usec tv = d_total d sdiv 1000"
    using i u tot
    by (auto simp: DurationToTimeval_def Let_def tv_def u_def [symmetric] time_consts)
  have ok: "norm_range (tv_sec tv) (tv_usec tv * 1000)" "in_i64 (tv_usec tv * 1000)"
    "in_i32 (tv_usec tv * 1000)"
    using tv(2,3) r by (auto simp: norm_range_def in_i64_def in_i32_def tv_def)
  with normalized_duration [OF ok(1)] tv show ?thesis
    by (auto simp: TimevalToDuration_def time_consts to_i32_id)
qed

theorem duration_timeval_witness:
  "\<exists>tv. DurationToTimeval \<lparr>d_seconds = -1, d_nanos = -1500\<rparr> = Some tv
      \<and> tv_sec tv * 1000000 + tv_usec tv = -1000001 \<and> 0 \<le> tv_usec tv"
  using duration_timeval [of "\<lparr>d_seconds = -1, d_nanos = -1500\<rparr>"]
  by (auto simp: IsDurationValid_def time_consts d_total_def sdiv_abs)

text \<open>On valid messages the overloaded comparisons order durations by their length and
  timestamps by their instant, so they are strict total orders.\<close>

theorem time_order:
  assumes "IsDurationValid d1" and "IsDurationValid d2"
    and "IsTimestampValid t1" and "IsTimestampValid t2"
  shows "(duration_less d1 d2 \<longleftrightarrow> d_total d1 < d_total d2)
       \<and> (duration_eq d1 d2 \<longleftrightarrow> d_total d1 = d_total d2)
       \<and> (timestamp_less t1 t2 \<longleftrightarrow> ts_total t1 < ts_total t2)
       \<and> (timestamp_eq t1 t2 \<longleftrightarrow> ts_total t1 = ts_total t2)"
proof -
  have lex: "s * 1000000000 + n < s' * 1000000000 + n'"
    if "s < s'" "n - n' < 1000000000" for s n s' n' :: int
  proof -
    have "s + 1 \<le> s'" using that(1) by simp
    then have "(s + 1) * 1000000000 \<le> s' * 1000000000" by simp
    with that(2) show ?thesis by simp
  qed
  have dl: "d_seconds a < d_seconds b \<Longrightarrow> d_total a < d_total b"
    if "IsDurationValid a" "IsDurationValid b" for a b
    using that lex [of "d_seconds a" "d_seconds b" "d_nanos a" "d_nanos b"]
    by (auto simp: IsDurationValid_def d_total_def time_consts)
  have tl: "ts_seconds a < ts_seconds b \<Longrightarrow> ts_total a < ts_total b"
    if "IsTimestampValid a" "IsTimestampValid b" for a b
    using valid_ts_range [OF that(1)] valid_ts_range [OF that(2)]
      lex [of "ts_seconds a" "ts_seconds b" "ts_nanos a" "ts_nanos b"]
    by (auto simp: ts_total_def kNanosPerSecond_def)
  show ?thesis
    using dl [OF assms(1,2)] dl [OF assms(2,1)] tl [OF assms(3,4)] tl [OF assms(4,3)]
    by (auto simp: duration_less_def duration_eq_def timestamp_less_def timestamp_eq_def
        d_total_def ts_total_def neq_iff kNanosPerSecond_def)
qed

theorem time_order_witness:
  "duration_less \<lparr>d_seconds = -1, d_nanos = -5\<rparr> \<lparr>d_seconds = 0, d_nanos = -7\<rparr>"
  using time_order [of "\<lparr>d_seconds = -1, d_nanos = -5\<rparr>" "\<lparr>d_seconds = 0, d_nanos = -7\<rparr>"
      GetEpoch GetEpoch]
  by (simp add: IsDurationValid_def IsTimestampValid_def GetEpoch_def time_consts d_total_def)

end
