(* ===== verification/Time_Format.thy ===== *)
theory Time_Format
  imports Time_Laws
begin

section \<open>util/time_util: string formats\<close>

text \<open>
  Printing and parsing. The calendar conversions \<open>absl::FormatTime\<close>, \<open>absl::ParseTime\<close>
  and \<open>absl::Now\<close> are the parameter \<open>absl_time\<close>; the decimal conversions of
  \<open>StrFormat\<close> and \<open>StrAppend\<close> are part of the parameter \<open>absl\<close>. A parser returns
  \<open>Some None\<close> where the code returns false.
\<close>

record absl_time =
  FormatUTC :: "int \<Rightarrow> string"
  ParseRFC3339 :: "string \<Rightarrow> (int \<times> int) option"
  Now :: "int \<times> int"

definition FormatNanos :: "absl \<Rightarrow> int \<Rightarrow> string" where
  "FormatNanos A nanos =
     (if nanos smod kNanosPerMillisecond = 0 then FormatDec A 3 (nanos sdiv kNanosPerMillisecond)
      else if nanos smod kNanosPerMicrosecond = 0 then FormatDec A 6 (nanos sdiv kNanosPerMicrosecond)
      else FormatDec A 9 nanos)"

definition FormatTime :: "absl \<Rightarrow> absl_time \<Rightarrow> int \<Rightarrow> int \<Rightarrow> string" where
  "FormatTime A T seconds nanos =
     FormatUTC T seconds @ (if nanos \<noteq> 0 then ''.'' @ FormatNanos A nanos else []) @ ''Z''"

definition ParseTime :: "absl_time \<Rightarrow> string \<Rightarrow> (int \<times> int) option" where
  "ParseTime T v = (case ParseRFC3339 T v of None \<Rightarrow> None | Some (s, n) \<Rightarrow> Some (s, to_i32 n))"

definition CurrentTime :: "absl_time \<Rightarrow> int \<times> int" where
  "CurrentTime T = (case Now T of (s, n) \<Rightarrow> (s, to_i32 n))"

definition TimestampToString :: "absl \<Rightarrow> absl_time \<Rightarrow> Timestamp \<Rightarrow> string" where
  "TimestampToString A T timestamp = FormatTime A T (ts_seconds timestamp) (ts_nanos timestamp)"

definition TimestampFromString :: "absl_time \<Rightarrow> string \<Rightarrow> Timestamp option option" where
  "TimestampFromString T v =
     (case ParseTime T v of
        None \<Rightarrow> Some None
      | Some (seconds, nanos) \<Rightarrow> map_option Some (CreateNormalizedTimestamp seconds nanos))"

definition GetCurrentTime :: "absl_time \<Rightarrow> Timestamp option" where
  "GetCurrentTime T = (case CurrentTime T of (seconds, nanos) \<Rightarrow> CreateNormalizedTimestamp seconds nanos)"

definition DurationToString :: "absl \<Rightarrow> Duration \<Rightarrow> string option" where
  "DurationToString A duration = do {
     (result, seconds, nanos) \<leftarrow>
       (if d_seconds duration < 0 \<or> d_nanos duration < 0
        then do { s \<leftarrow> i64 (- d_seconds duration); n \<leftarrow> i32 (- d_nanos duration);
                  Some (''-'', s, n) }
        else Some ([], d_seconds duration, d_nanos duration));
     Some (result @ AlphaNum A seconds
             @ (if nanos \<noteq> 0 then ''.'' @ FormatNanos A nanos else []) @ ''s'') }"

fun Pow_loop :: "nat \<Rightarrow> int \<Rightarrow> int \<Rightarrow> int option" where
  "Pow_loop 0 x result = Some result"
| "Pow_loop (Suc k) x result = do { r \<leftarrow> i64 (result * x); Pow_loop k x r }"

text \<open>The loop runs \<open>y\<close> times, not at all for a negative \<open>y\<close>.\<close>

definition Pow :: "int \<Rightarrow> int \<Rightarrow> int option" where
  "Pow x y = Pow_loop (nat y) x 1"

definition find_last_of :: "char \<Rightarrow> string \<Rightarrow> nat option" where
  "find_last_of c s =
     (if c \<in> set s then Some (length s - 1 - length (takeWhile (\<lambda>x. x \<noteq> c) (rev s))) else None)"

definition substr :: "nat \<Rightarrow> nat \<Rightarrow> string \<Rightarrow> string" where
  "substr pos n s = take n (drop pos s)"

definition DurationFromString :: "string \<Rightarrow> Duration option option" where
  "DurationFromString v =
     (if length v \<le> 1 \<or> v ! (length v - 1) \<noteq> CHR ''s'' then Some None
      else
        let negative = (v ! 0 = CHR ''-'');
            sign_length = (if negative then 1 else 0);
            (seconds_part, nanos_part) =
              (case find_last_of CHR ''.'' v of
                 None \<Rightarrow> (substr sign_length (length v - 1 - sign_length) v, ''0'')
               | Some pos \<Rightarrow> (substr sign_length (pos - sign_length) v,
                              substr (pos + 1) (length v - pos - 2) v));
            (seconds, end1) = strtoll10 seconds_part
        in if end1 \<noteq> length seconds_part then Some None
           else let (nanos, end2) = strtoll10 nanos_part
                in if end2 \<noteq> length nanos_part then Some None
                   else do {
                     p \<leftarrow> Pow 10 (to_i32 (9 - int (length nanos_part)));
                     nanos \<leftarrow> i64 (nanos * p);
                     (seconds, nanos) \<leftarrow>
                       (if negative
                        then do { s \<leftarrow> i64 (- seconds); n \<leftarrow> i64 (- nanos); Some (s, n) }
                        else Some (seconds, nanos));
                     Some (Some \<lparr>d_seconds = seconds, d_nanos = to_i32 nanos\<rparr>) })"

subsection \<open>Fractional seconds\<close>

lemma find_last_of_append: "c \<notin> set ys \<Longrightarrow> find_last_of c (xs @ c # ys) = Some (length xs)"
proof -
  assume "c \<notin> set ys"
  then have "takeWhile (\<lambda>x. x \<noteq> c) (rev (xs @ c # ys)) = rev ys"
    by (simp add: takeWhile_append takeWhile_eq_all_conv)
  then show ?thesis by (simp add: find_last_of_def)
qed

lemma Pow_loop_10: "k \<le> 9 \<Longrightarrow> 0 \<le> a \<Longrightarrow> a \<le> 10 ^ (9 - k) \<Longrightarrow> Pow_loop k 10 a = Some (a * 10 ^ k)"
proof (induction k arbitrary: a)
  case 0
  then show ?case by simp
next
  case (Suc k)
  have e: "(10::int) ^ (9 - k) = 10 * 10 ^ (9 - Suc k)"
    using Suc.prems(1) by (metis Suc_diff_Suc Suc_le_lessD power_Suc)
  then have "a * 10 \<le> 10 ^ (9 - k)" using Suc.prems(3) by simp
  moreover have "(10::int) ^ (9 - k) \<le> 10 ^ 9" by (rule power_increasing) simp_all
  ultimately have "in_i64 (a * 10)" using Suc.prems(2) by (simp add: in_i64_def)
  with Suc.IH [of "a * 10"] Suc.prems e \<open>a * 10 \<le> 10 ^ (9 - k)\<close> show ?case
    by simp
qed

lemma Pow_10: "k \<le> 9 \<Longrightarrow> Pow 10 (to_i32 (9 - int k)) = Some (10 ^ (9 - k))"
proof -
  assume k: "k \<le> 9"
  then have "nat (to_i32 (9 - int k)) = 9 - k"
    by (simp add: to_i32_id in_i32_def)
  then show ?thesis using Pow_loop_10 [of "9 - k" 1] k by (simp add: Pow_def)
qed

text \<open>The fraction printed for a number of nanoseconds: three, six or nine digits whose
  value, scaled by the missing powers of ten, is the number.\<close>

lemma FormatNanos_digits:
  assumes "absl_ok A" and "0 \<le> n" and "n < kNanosPerSecond"
  shows "length (FormatNanos A n) \<in> {3, 6, 9} \<and> (\<forall>c \<in> set (FormatNanos A n). is_digit c)
       \<and> int (dec_val (FormatNanos A n)) * 10 ^ (9 - length (FormatNanos A n)) = n"
proof -
  have pad: "length (zero_pad w (dec k)) = w \<and> (\<forall>c \<in> set (zero_pad w (dec k)). is_digit c)"
    if "k < 10 ^ w" "0 < w" for w k
    using that zero_pad_length length_dec_le zero_pad_digits dec_digits by blast
  have n: "0 \<le> n" "n < 1000000000" using assms by (auto simp: kNanosPerSecond_def)
  consider "n mod 1000000 = 0" | "n mod 1000000 \<noteq> 0" "n mod 1000 = 0" | "n mod 1000000 \<noteq> 0" "n mod 1000 \<noteq> 0"
    by blast
  then show ?thesis
  proof cases
    case 1
    then have f: "FormatNanos A n = zero_pad 3 (dec (nat (n div 1000000)))"
      using n absl_FormatDec [OF assms(1)] by (simp add: FormatNanos_def time_consts smod_pos sdiv_pos pos_imp_zdiv_nonneg_iff)
    have "nat (n div 1000000) < 10 ^ 3" using n by (simp add: nat_less_iff pos_imp_zdiv_nonneg_iff)
    with 1 n pad [of "nat (n div 1000000)" 3] show ?thesis
      by (auto simp: f pos_imp_zdiv_nonneg_iff)
  next
    case 2
    then have f: "FormatNanos A n = zero_pad 6 (dec (nat (n div 1000)))"
      using n absl_FormatDec [OF assms(1)] by (simp add: FormatNanos_def time_consts smod_pos sdiv_pos pos_imp_zdiv_nonneg_iff)
    have "nat (n div 1000) < 10 ^ 6" using n by (simp add: nat_less_iff pos_imp_zdiv_nonneg_iff)
    with 2 n pad [of "nat (n div 1000)" 6] show ?thesis
      by (auto simp: f pos_imp_zdiv_nonneg_iff)
  next
    case 3
    then have f: "FormatNanos A n = zero_pad 9 (dec (nat n))"
      using n absl_FormatDec [OF assms(1)] by (simp add: FormatNanos_def time_consts smod_pos)
    have "nat n < 10 ^ 9" using n by (simp add: nat_less_iff)
    with 3 n pad [of "nat n" 9] show ?thesis by (auto simp: f)
  qed
qed

subsection \<open>Parsing what was printed\<close>

lemma FormatNanos_parts:
  assumes "absl_ok A" and "0 < n" and "n < kNanosPerSecond"
  shows "\<exists>k. length (FormatNanos A n) = k \<and> 0 < k \<and> k \<le> 9
           \<and> strtoll10 (FormatNanos A n) = (int (dec_val (FormatNanos A n)), k)
           \<and> int (dec_val (FormatNanos A n)) * 10 ^ (9 - k) = n"
proof -
  let ?f = "FormatNanos A n"
  have f: "length ?f \<in> {3, 6, 9}" "\<forall>c \<in> set ?f. is_digit c"
    "int (dec_val ?f) * 10 ^ (9 - length ?f) = n"
    using FormatNanos_digits [OF assms(1) _ assms(3)] assms(2) by auto
  have "int (dec_val ?f) * 1 \<le> int (dec_val ?f) * 10 ^ (9 - length ?f)"
    by (intro mult_left_mono) simp_all
  with f(3) assms have "in_i64 (int (dec_val ?f))"
    by (simp add: in_i64_def kNanosPerSecond_def)
  with f strtoll10_digits [of ?f] show ?thesis by (cases "?f = []") auto
qed

lemma seconds_part:
  assumes "0 \<le> s" and "in_i64 s"
  shows "strtoll10 (dec (nat s)) = (s, length (dec (nat s)))"
  using assms strtoll10_digits [of "dec (nat s)"] dec_digits by auto

text \<open>The text of a non-negative length, and of the fraction that may follow.\<close>

definition fraction :: "absl \<Rightarrow> int \<Rightarrow> string" where
  "fraction A n = (if n \<noteq> 0 then ''.'' @ FormatNanos A n else [])"

lemma fraction_no_dot: "0 < n \<Longrightarrow> n < kNanosPerSecond \<Longrightarrow> absl_ok A \<Longrightarrow> CHR ''.'' \<notin> set (FormatNanos A n)"
  using FormatNanos_digits [of A n] digit_not_sign by force

lemma dec_no_dot: "CHR ''.'' \<notin> set (dec k)" and dec_no_minus: "CHR ''-'' \<notin> set (dec k)"
  using dec_digits digit_not_sign by blast+

lemma hd_dec: "hd (dec k @ ys) \<noteq> CHR ''-''"
  using dec_no_minus [of k] by (cases "dec k") auto

lemma DurationFromString_parts:
  assumes "\<not> length v \<le> 1" and "v ! (length v - 1) = CHR ''s''"
    and sl: "sl = (if v ! 0 = CHR ''-'' then 1 else 0)"
    and parts: "(case find_last_of CHR ''.'' v of
                 None \<Rightarrow> (substr sl (length v - 1 - sl) v, ''0'')
               | Some pos \<Rightarrow> (substr sl (pos - sl) v, substr (pos + 1) (length v - pos - 2) v))
               = (sp, np)"
    and sp: "strtoll10 sp = (s, length sp)" and np: "strtoll10 np = (m, length np)"
    and len: "length np \<le> 9" and n: "m * 10 ^ (9 - length np) = n"
    and i: "in_i64 (- s)" "in_i64 n" "in_i64 (- n)" "in_i32 n" "in_i32 (- n)"
  shows "DurationFromString v
       = Some (Some \<lparr>d_seconds = (if sl = 0 then s else - s), d_nanos = (if sl = 0 then n else - n)\<rparr>)"
  using assms(1,2) sl sp np n i Pow_10 [OF len]
  by (simp add: DurationFromString_def Let_def parts [unfolded sl] to_i32_id split: if_splits)

lemma parse_printed:
  assumes A: "absl_ok A" and s: "0 \<le> s" "s < 2 ^ 62" and n: "0 \<le> n" "n < kNanosPerSecond"
    and sg: "sg = [] \<or> sg = ''-''"
  shows "DurationFromString (sg @ dec (nat s) @ fraction A n @ ''s'')
       = Some (Some \<lparr>d_seconds = (if sg = [] then s else - s), d_nanos = (if sg = [] then n else - n)\<rparr>)"
proof -
  let ?v = "sg @ dec (nat s) @ fraction A n @ ''s''"
  let ?D = "dec (nat s)"
  have i: "in_i64 s" "in_i64 (- s)" "in_i64 n" "in_i64 (- n)" "in_i32 n" "in_i32 (- n)"
    using s n by (auto simp: in_i64_def in_i32_def kNanosPerSecond_def)
  have D: "?D \<noteq> []" "0 < length ?D" by simp_all
  have len: "\<not> length ?v \<le> 1" "?v ! (length ?v - 1) = CHR ''s''"
    using D by (simp_all add: nth_append)
  have sl: "length sg = (if ?v ! 0 = CHR ''-'' then 1 else 0)"
    using sg hd_dec [of "nat s" "fraction A n @ ''s''"] by (auto simp: hd_conv_nth)
  have sg0: "length sg = 0 \<longleftrightarrow> sg = []" by simp
  note sp = seconds_part [OF s(1) i(1)]
  show ?thesis
  proof (cases "n = 0")
    case True
    have dot: "find_last_of CHR ''.'' ?v = None"
      using sg dec_no_dot True by (auto simp: find_last_of_def fraction_def)
    have z: "strtoll10 ''0'' = (0, length ''0'')"
      using strtoll10_digits [of "''0''"] dec_val_replicate_zero [of 1] by (simp add: in_i64_def)
    have "substr (length sg) (length ?v - 1 - length sg) ?v = ?D"
      using sg True by (auto simp: substr_def fraction_def)
    from DurationFromString_parts [OF len sl _ sp z, of n] this dot True i
    show ?thesis by (simp add: sg0)
  next
    case False
    with n have n': "0 < n" by simp
    let ?f = "FormatNanos A n"
    obtain k where k: "length ?f = k" "0 < k" "k \<le> 9" "strtoll10 ?f = (int (dec_val ?f), k)"
      "int (dec_val ?f) * 10 ^ (9 - k) = n"
      using FormatNanos_parts [OF A n' n(2)] by blast
    have v: "?v = (sg @ ?D) @ CHR ''.'' # (?f @ ''s'')"
      using False by (simp add: fraction_def)
    have dot: "find_last_of CHR ''.'' ?v = Some (length (sg @ ?D))"
      unfolding v using fraction_no_dot [OF n' n(2) A] by (intro find_last_of_append) simp
    have a: "substr (length sg) (length (sg @ ?D) - length sg) ?v = ?D"
      by (simp add: substr_def)
    have b: "substr (length (sg @ ?D) + 1) (length ?v - length (sg @ ?D) - 2) ?v = ?f"
      unfolding v by (simp add: substr_def)
    have np: "strtoll10 ?f = (int (dec_val ?f), length ?f)" using k by simp
    show ?thesis
      using DurationFromString_parts [OF len sl _ sp np, of n] dot a b i k by (simp add: sg0)
  qed
qed

text \<open>C32. Printing a valid duration and parsing the text returns exactly the same message:
  negative durations, durations below one second and every fractional precision included.\<close>

theorem duration_string_roundtrip:
  assumes "absl_ok A" and "IsDurationValid d"
  shows "\<exists>v. DurationToString A d = Some v \<and> DurationFromString v = Some (Some d)"
proof -
  note r = valid_d_range [OF assms(2)] and normal = valid_normal [OF assms(2)]
  from normal show ?thesis
  proof (cases rule: d_normal_cases)
    case 1
    then have "DurationToString A d
        = Some ([] @ dec (nat (d_seconds d)) @ fraction A (d_nanos d) @ ''s'')"
      using absl_AlphaNum [OF assms(1)] by (simp add: DurationToString_def fraction_def)
    moreover have "DurationFromString ([] @ dec (nat (d_seconds d)) @ fraction A (d_nanos d) @ ''s'')
        = Some (Some d)"
      using 1 r parse_printed [OF assms(1), of "d_seconds d" "d_nanos d" "[]"] by simp
    ultimately show ?thesis by blast
  next
    case 2
    have neg: "d_seconds d < 0 \<or> d_nanos d < 0"
      using 2 by (auto simp: d_total_def kNanosPerSecond_def)
    have i: "in_i64 (- d_seconds d)" "in_i32 (- d_nanos d)"
      using r by (auto simp: in_i64_def in_i32_def)
    then have "DurationToString A d
        = Some (''-'' @ dec (nat (- d_seconds d)) @ fraction A (- d_nanos d) @ ''s'')"
      using 2 neg absl_AlphaNum [OF assms(1), of "- d_seconds d"]
      by (simp add: DurationToString_def fraction_def)
    moreover have "DurationFromString (''-'' @ dec (nat (- d_seconds d)) @ fraction A (- d_nanos d) @ ''s'')
        = Some (Some d)"
      using 2 r parse_printed [OF assms(1), of "- d_seconds d" "- d_nanos d" "''-''"] by simp
    ultimately show ?thesis by blast
  qed
qed

theorem duration_string_roundtrip_witness:
  "\<exists>v. DurationToString absl_ref \<lparr>d_seconds = 0, d_nanos = -1500000\<rparr> = Some v
     \<and> DurationFromString v = Some (Some \<lparr>d_seconds = 0, d_nanos = -1500000\<rparr>)"
  by (rule duration_string_roundtrip [OF absl_ok_ref]) (simp add: IsDurationValid_def time_consts)


end
