(* ===== verification/Zero_Copy_Input.thy ===== *)
theory Zero_Copy_Input
  imports Prelude
begin

section \<open>io/zero_copy_stream: the input stream interface\<close>

text \<open>
  The interface \<open>ZeroCopyInputStream\<close> (file \<open>io/zero_copy_stream.h\<close>). A stream with
  state \<open>'s\<close> is given by four operations; \<open>nxt\<close> returns the buffer the code hands out
  through its out-parameters, or \<open>None\<close> when it returns false; an operation as a whole is
  \<open>None\<close> when an \<open>ABSL_CHECK\<close> fails. Byte counters are mathematical integers: the 64-bit
  counters of the code would need \<open>2 ^ 63\<close> bytes to overflow.

  The locale \<open>zero_copy_input\<close> is the contract of the interface. Its state is observed
  through \<open>rest\<close>, the bytes that are still to be read. Every buffer is non-empty here, which all streams of this development
  guarantee; the interface would also allow empty ones. \<open>BackUp()\<close> is only specified right
  after a successful \<open>Next()\<close>, as in the interface.
\<close>

type_synonym 's next_op = "'s \<Rightarrow> (string option \<times> 's) option"
type_synonym 's backup_op = "int \<Rightarrow> 's \<Rightarrow> 's option"
type_synonym 's skip_op = "int \<Rightarrow> 's \<Rightarrow> (bool \<times> 's) option"

subsection \<open>The default ReadCord\<close>

text \<open>
  \<open>ZeroCopyInputStream::ReadCord\<close> in terms of the virtual operations. The lambda
  \<open>FetchNextNonEmptyChunk\<close> repeats \<open>Next()\<close> until it returns a non-empty buffer and backs up
  over what exceeds \<open>count\<close>; the main loop appends buffers until \<open>count\<close> bytes are read. How
  the bytes are cut into the blocks of the cord is not observable: a cord is its content.
\<close>

partial_function (option) FetchNextNonEmptyChunk ::
  "'s next_op \<Rightarrow> 's backup_op \<Rightarrow> int \<Rightarrow> 's \<Rightarrow> (string option \<times> 's) option" where
  "FetchNextNonEmptyChunk nxt backup count s = do {
     (r, s) \<leftarrow> nxt s;
     case r of
       None \<Rightarrow> Some (None, s)
     | Some b \<Rightarrow>
         if b = [] then FetchNextNonEmptyChunk nxt backup count s
         else if int (length b) > count
         then do { s \<leftarrow> backup (int (length b) - count) s; Some (Some (take (nat count) b), s) }
         else Some (Some b, s) }"

partial_function (option) ReadCord_loop ::
  "'s next_op \<Rightarrow> 's backup_op \<Rightarrow> string \<Rightarrow> int \<Rightarrow> 's \<Rightarrow> (bool \<times> string \<times> 's) option" where
  "ReadCord_loop nxt backup cord count s = do {
     (r, s) \<leftarrow> FetchNextNonEmptyChunk nxt backup count s;
     case r of
       None \<Rightarrow> Some (False, cord, s)
     | Some b \<Rightarrow>
         if count - int (length b) > 0
         then ReadCord_loop nxt backup (cord @ b) (count - int (length b)) s
         else Some (True, cord @ b, s) }"

definition ReadCord ::
  "'s next_op \<Rightarrow> 's backup_op \<Rightarrow> string \<Rightarrow> int \<Rightarrow> 's \<Rightarrow> (bool \<times> string \<times> 's) option" where
  "ReadCord nxt backup cord count s =
     (if count \<le> 0 then Some (True, cord, s) else ReadCord_loop nxt backup cord count s)"

text \<open>A client that reads everything, as the parsers do: \<open>Next()\<close> until it returns false.\<close>

partial_function (option) ReadAll :: "'s next_op \<Rightarrow> string list \<Rightarrow> 's \<Rightarrow> (string list \<times> 's) option" where
  "ReadAll nxt acc s = do {
     (r, s) \<leftarrow> nxt s;
     case r of None \<Rightarrow> Some (acc, s) | Some b \<Rightarrow> ReadAll nxt (acc @ [b]) s }"

text \<open>
  A client that mixes the operations in any order: \<open>Take n\<close> is \<open>Next()\<close> followed by backing up over
  the last \<open>n\<close> bytes of the buffer (all of it when it is shorter), \<open>Pass n\<close> is \<open>Skip(n)\<close>.
  Each command reports the stream position before it, and the bytes it consumed from buffers.
\<close>

datatype read_cmd = Take nat | Pass nat

definition run_cmd ::
  "'s next_op \<Rightarrow> 's backup_op \<Rightarrow> 's skip_op \<Rightarrow> ('s \<Rightarrow> int) \<Rightarrow> read_cmd \<Rightarrow> 's
    \<Rightarrow> ((int \<times> string) \<times> 's) option" where
  "run_cmd nxt backup skip cnt cmd s =
     (case cmd of
        Take n \<Rightarrow> do {
          (r, s') \<leftarrow> nxt s;
          case r of
            None \<Rightarrow> Some ((cnt s, []), s')
          | Some c \<Rightarrow> do {
              s'' \<leftarrow> backup (int (min n (length c))) s';
              Some ((cnt s, take (length c - min n (length c)) c), s'') } }
      | Pass n \<Rightarrow> do { (b, s') \<leftarrow> skip (int n) s; Some ((cnt s, []), s') })"

fun run_cmds ::
  "'s next_op \<Rightarrow> 's backup_op \<Rightarrow> 's skip_op \<Rightarrow> ('s \<Rightarrow> int) \<Rightarrow> read_cmd list \<Rightarrow> 's
    \<Rightarrow> ((int \<times> string) list \<times> 's) option" where
  "run_cmds nxt backup skip cnt [] s = Some ([], s)"
| "run_cmds nxt backup skip cnt (cmd # cmds) s = do {
     (e, s) \<leftarrow> run_cmd nxt backup skip cnt cmd s;
     (es, s) \<leftarrow> run_cmds nxt backup skip cnt cmds s;
     Some (e # es, s) }"

text \<open>The events agree with the content: what was delivered at position \<open>p\<close> stands there.\<close>

definition events_ok :: "string \<Rightarrow> (int \<times> string) list \<Rightarrow> bool" where
  "events_ok data es \<longleftrightarrow>
     list_all (\<lambda>(p, bs). 0 \<le> p \<and> prefix bs (drop (nat p) data)) es"

subsection \<open>The contract\<close>

locale zero_copy_input =
  fixes nxt :: "'s \<Rightarrow> (string option \<times> 's) option"
    and backup :: "int \<Rightarrow> 's \<Rightarrow> 's option"
    and skip :: "int \<Rightarrow> 's \<Rightarrow> (bool \<times> 's) option"
    and cnt :: "'s \<Rightarrow> int"
    and inv :: "'s \<Rightarrow> bool"
    and rest :: "'s \<Rightarrow> string"
  assumes nxt_end: "inv s \<Longrightarrow> rest s = [] \<Longrightarrow>
      \<exists>s'. nxt s = Some (None, s') \<and> inv s' \<and> rest s' = [] \<and> cnt s' = cnt s"
    and nxt_data: "inv s \<Longrightarrow> rest s \<noteq> [] \<Longrightarrow>
      \<exists>c s'. nxt s = Some (Some c, s') \<and> inv s' \<and> c \<noteq> [] \<and> rest s = c @ rest s'
           \<and> cnt s' = cnt s + int (length c)"
    and backup_nxt: "inv s \<Longrightarrow> nxt s = Some (Some c, s') \<Longrightarrow> 0 \<le> n \<Longrightarrow> n \<le> int (length c) \<Longrightarrow>
      \<exists>s''. backup n s' = Some s'' \<and> inv s''
           \<and> rest s'' = drop (length c - nat n) c @ rest s' \<and> cnt s'' = cnt s' - n"
    and skip_zero: "inv s \<Longrightarrow>
      \<exists>b s'. skip 0 s = Some (b, s') \<and> inv s' \<and> rest s' = rest s \<and> cnt s' = cnt s
           \<and> (b \<or> rest s = [])"
    and skip_rest: "inv s \<Longrightarrow> 0 < n \<Longrightarrow>
      \<exists>s'. skip n s = Some (n \<le> int (length (rest s)), s') \<and> inv s'
           \<and> rest s' = drop (nat n) (rest s)
           \<and> cnt s' = cnt s + min n (int (length (rest s)))"
begin

lemma nxt_SomeD:
  assumes "inv s" and "nxt s = Some (Some c, s')"
  shows "inv s'" and "c \<noteq> []" and "rest s = c @ rest s'" and "cnt s' = cnt s + int (length c)"
proof -
  have "rest s \<noteq> []" using nxt_end [OF assms(1)] assms(2) by auto
  from nxt_data [OF assms(1) this] assms(2)
  show "inv s'" and "c \<noteq> []" and "rest s = c @ rest s'" and "cnt s' = cnt s + int (length c)"
    by auto
qed

lemma nxt_total:
  assumes "inv s"
  obtains (End) s' where "nxt s = Some (None, s')" "inv s'" "rest s = []" "rest s' = []" "cnt s' = cnt s"
  | (Data) c s' where "nxt s = Some (Some c, s')" "inv s'" "c \<noteq> []" "rest s = c @ rest s'"
      "cnt s' = cnt s + int (length c)"
  using nxt_end [OF assms] nxt_data [OF assms] by (cases "rest s = []") auto

text \<open>Backing up over a part of the buffer just received makes it available again.\<close>

lemma nxt_then_backup:
  assumes "inv s" and "nxt s = Some (Some c, s')" and "0 \<le> n" and "n \<le> int (length c)"
  shows "\<exists>s''. backup n s' = Some s'' \<and> inv s'' \<and> rest s'' = drop (length c - nat n) (rest s)
           \<and> cnt s'' = cnt s + int (length c) - n"
  using backup_nxt [OF assms] nxt_SomeD [OF assms(1,2)] by auto

lemma fetch_end:
  assumes "inv s" and "rest s = []"
  shows "\<exists>s'. FetchNextNonEmptyChunk nxt backup n s = Some (None, s') \<and> inv s' \<and> rest s' = []
            \<and> cnt s' = cnt s"
  using nxt_end [OF assms] by (subst FetchNextNonEmptyChunk.simps) auto

lemma fetch_data:
  assumes "inv s" and "rest s \<noteq> []" and n: "0 < n"
  shows "\<exists>c s'. FetchNextNonEmptyChunk nxt backup n s = Some (Some c, s') \<and> inv s' \<and> c \<noteq> []
            \<and> int (length c) \<le> n \<and> rest s = c @ rest s' \<and> cnt s' = cnt s + int (length c)"
proof -
  obtain c s' where s': "nxt s = Some (Some c, s')" "inv s'" "c \<noteq> []" "rest s = c @ rest s'"
    "cnt s' = cnt s + int (length c)"
    using nxt_data [OF assms(1,2)] by blast
  show ?thesis
  proof (cases "int (length c) > n")
    case False
    with s' show ?thesis by (subst FetchNextNonEmptyChunk.simps) auto
  next
    case True
    with nxt_then_backup [OF assms(1) s'(1), of "int (length c) - n"] n
    obtain s'' where b: "backup (int (length c) - n) s' = Some s''" "inv s''"
      "rest s'' = drop (nat n) (rest s)" "cnt s'' = cnt s + n"
      by (auto simp: nat_diff_distrib')
    have "take (nat n) c @ rest s'' = rest s"
      using s'(4) b(3) True n by simp
    with True s' b n show ?thesis
      by (subst FetchNextNonEmptyChunk.simps) (auto simp: min_def)
  qed
qed

lemma ReadCord_loop_rest:
  assumes "inv s" and "0 < n"
  shows "\<exists>s'. ReadCord_loop nxt backup cord n s
            = Some (n \<le> int (length (rest s)), cord @ take (nat n) (rest s), s')
            \<and> inv s' \<and> rest s' = drop (nat n) (rest s)
            \<and> cnt s' = cnt s + min n (int (length (rest s)))"
  using assms
proof (induction "nat n" arbitrary: n s cord rule: less_induct)
  case less
  show ?case
  proof (cases "rest s = []")
    case True
    obtain s' where "FetchNextNonEmptyChunk nxt backup n s = Some (None, s')" "inv s'"
      "rest s' = []" "cnt s' = cnt s"
      using fetch_end [OF less.prems(1) True] by blast
    with True less.prems(2) show ?thesis
      by (subst ReadCord_loop.simps) simp
  next
    case False
    obtain c s' where c: "FetchNextNonEmptyChunk nxt backup n s = Some (Some c, s')" "inv s'"
      "c \<noteq> []" "int (length c) \<le> n" "rest s = c @ rest s'" "cnt s' = cnt s + int (length c)"
      using fetch_data [OF less.prems(1) False less.prems(2)] by blast
    show ?thesis
    proof (cases "n = int (length c)")
      case True
      with c show ?thesis by (subst ReadCord_loop.simps) auto
    next
      case False
      with c have m: "0 < n - int (length c)" "nat (n - int (length c)) < nat n" by auto
      from less.hyps [OF m(2) c(2) m(1), of "cord @ c"] c m show ?thesis
        by (subst ReadCord_loop.simps) (auto simp: nat_diff_distrib' min_def)
    qed
  qed
qed

text \<open>The default \<open>ReadCord\<close> appends exactly the next \<open>n\<close> bytes, or all there are.\<close>

lemma ReadCord_rest:
  assumes "inv s" and "0 \<le> n"
  shows "\<exists>s'. ReadCord nxt backup cord n s
            = Some (n \<le> int (length (rest s)), cord @ take (nat n) (rest s), s')
            \<and> inv s' \<and> rest s' = drop (nat n) (rest s)
            \<and> cnt s' = cnt s + min n (int (length (rest s)))"
  using ReadCord_loop_rest [OF assms(1), of n cord] assms by (cases "n = 0") (auto simp: ReadCord_def)

lemma ReadAll_acc:
  assumes "inv s"
  shows "\<exists>cs s'. ReadAll nxt acc s = Some (acc @ cs, s') \<and> concat cs = rest s \<and> [] \<notin> set cs
            \<and> inv s' \<and> rest s' = [] \<and> cnt s' = cnt s + int (length (rest s))"
  using assms
proof (induction "length (rest s)" arbitrary: s acc rule: less_induct)
  case less
  show ?case
  proof (cases "rest s = []")
    case True
    with nxt_end [OF less.prems] show ?thesis by (subst ReadAll.simps) auto
  next
    case False
    obtain c s' where s': "nxt s = Some (Some c, s')" "inv s'" "c \<noteq> []" "rest s = c @ rest s'"
      "cnt s' = cnt s + int (length c)"
      using nxt_data [OF less.prems False] by blast
    then have "length (rest s') < length (rest s)" by simp
    from less.hyps [OF this s'(2), of "acc @ [c]"] obtain cs s'' where
      "ReadAll nxt (acc @ [c]) s' = Some ((acc @ [c]) @ cs, s'')" "concat cs = rest s'"
      "[] \<notin> set cs" "inv s''" "rest s'' = []" "cnt s'' = cnt s' + int (length (rest s'))"
      by blast
    with s' show ?thesis
      by (subst ReadAll.simps) (auto intro!: exI [of _ "c # cs"])
  qed
qed

text \<open>Reading until \<open>Next()\<close> returns false yields all the bytes, in order, and terminates.\<close>

lemma ReadAll_rest:
  assumes "inv s"
  shows "\<exists>cs s'. ReadAll nxt [] s = Some (cs, s') \<and> concat cs = rest s \<and> [] \<notin> set cs
            \<and> inv s' \<and> rest s' = [] \<and> cnt s' = cnt s + int (length (rest s))"
  using ReadAll_acc [OF assms, of "[]"] by simp

text \<open>
  Any sequence of client operations runs without a failed check, keeps the byte count in step
  with the content, and delivers only bytes that stand at the reported positions.
\<close>

lemma run_cmd_at:
  assumes "inv s" and "rest s = drop (nat (cnt s)) data" and "0 \<le> cnt s"
  shows "\<exists>p bs s'. run_cmd nxt backup skip cnt cmd s = Some ((p, bs), s') \<and> inv s'
      \<and> rest s' = drop (nat (cnt s')) data \<and> cnt s \<le> cnt s' \<and> p = cnt s \<and> prefix bs (drop (nat p) data)"
proof (cases cmd)
  case (Take n)
  from assms(1) show ?thesis
  proof (cases rule: nxt_total)
    case (End s')
    with Take assms(2,3) show ?thesis by (auto simp: run_cmd_def)
  next
    case (Data c s')
    from nxt_then_backup [OF assms(1) Data(1), of "int (min n (length c))"] obtain s'' where
      b: "backup (int (min n (length c))) s' = Some s''" "inv s''"
        "rest s'' = drop (length c - min n (length c)) (rest s)"
        "cnt s'' = cnt s + int (length c) - int (min n (length c))"
      by auto
    have "nat (cnt s'') = nat (cnt s) + (length c - min n (length c))"
      using b(4) assms(3) by auto
    then have "rest s'' = drop (nat (cnt s'')) data"
      using b(3) assms(2) by (simp add: add.commute)
    moreover have "prefix (take (length c - min n (length c)) c) (drop (nat (cnt s)) data)"
      using Data(4) assms(2) prefix_order.trans [OF take_is_prefix, of c] by (metis prefixI)
    ultimately show ?thesis using Take Data(1) b by (auto simp: run_cmd_def)
  qed
next
  case (Pass n)
  show ?thesis
  proof (cases "n = 0")
    case True
    from skip_zero [OF assms(1)] assms(2,3) Pass True show ?thesis by (auto simp: run_cmd_def)
  next
    case False
    then have "0 < int n" by simp
    from skip_rest [OF assms(1) this] obtain s' where
      k: "skip (int n) s = Some (int n \<le> int (length (rest s)), s')" "inv s'"
        "rest s' = drop n (rest s)" "cnt s' = cnt s + min (int n) (int (length (rest s)))"
      by auto
    have "drop (nat (cnt s')) data = drop n (drop (nat (cnt s)) data)"
      using k(4) assms(2,3) by (auto simp: min_def nat_add_distrib add.commute split: if_splits)
    with k assms Pass show ?thesis by (auto simp: run_cmd_def)
  qed
qed

lemma run_cmds_at:
  assumes "inv s" and "rest s = drop (nat (cnt s)) data" and "0 \<le> cnt s"
  shows "\<exists>es s'. run_cmds nxt backup skip cnt cmds s = Some (es, s') \<and> inv s'
      \<and> rest s' = drop (nat (cnt s')) data \<and> cnt s \<le> cnt s' \<and> events_ok data es"
  using assms
proof (induction cmds arbitrary: s)
  case Nil
  then show ?case by (simp add: events_ok_def)
next
  case (Cons cmd cmds)
  obtain p bs s' where r: "run_cmd nxt backup skip cnt cmd s = Some ((p, bs), s')" "inv s'"
    "rest s' = drop (nat (cnt s')) data" "cnt s \<le> cnt s'" "p = cnt s" "prefix bs (drop (nat p) data)"
    using run_cmd_at [OF Cons.prems] by blast
  have "0 \<le> cnt s'" using r(4) Cons.prems(3) by simp
  from Cons.IH [OF r(2,3) this] obtain es s'' where
    "run_cmds nxt backup skip cnt cmds s' = Some (es, s'')" "inv s''"
    "rest s'' = drop (nat (cnt s'')) data" "cnt s' \<le> cnt s''" "events_ok data es"
    by blast
  with r Cons.prems(3) show ?case by (auto simp: events_ok_def)
qed

lemma run_cmds_rest:
  assumes "inv s" and "cnt s = 0"
  shows "\<exists>es s'. run_cmds nxt backup skip cnt cmds s = Some (es, s') \<and> inv s'
      \<and> rest s' = drop (nat (cnt s')) (rest s) \<and> 0 \<le> cnt s' \<and> events_ok (rest s) es"
  using run_cmds_at [OF assms(1), of "rest s" cmds] assms(2) by auto

end

end
