(* ===== verification/Input_Streams.thy ===== *)
theory Input_Streams
  imports Zero_Copy_Input
begin

section \<open>io/zero_copy_stream_impl: the input streams\<close>

text \<open>
  The models of \<open>ArrayInputStream\<close>, \<open>CopyingInputStreamAdaptor\<close> (over a
  \<open>CopyingInputStream\<close>, here the one that wraps a \<open>std::istream\<close>),
  \<open>LimitingInputStream\<close>, \<open>ConcatenatingInputStream\<close> and \<open>CordInputStream\<close> (files
  \<open>io/zero_copy_stream_impl_lite.cc\<close> and \<open>io/zero_copy_stream_impl.cc\<close>). Streams that
  wrap another stream take its operations as arguments, as the code calls virtual methods.
  Converting an \<open>int64_t\<close> distance to the \<open>int\<close> argument of the wrapped stream is the identity,
  the distance being bounded by a buffer size or by the \<open>int\<close> argument of the caller.
\<close>

subsection \<open>ArrayInputStream\<close>

record array_input =
  ai_data :: string
  ai_size :: int
  ai_block_size :: int
  ai_position :: int
  ai_last_returned_size :: int

definition ArrayInputStream :: "string \<Rightarrow> int \<Rightarrow> int \<Rightarrow> array_input" where
  "ArrayInputStream data n block_size =
     \<lparr>ai_data = data, ai_size = n, ai_block_size = (if block_size > 0 then block_size else n),
      ai_position = 0, ai_last_returned_size = 0\<rparr>"

definition array_Next :: "array_input next_op" where
  "array_Next s =
     (if ai_position s < ai_size s
      then let l = min (ai_block_size s) (ai_size s - ai_position s)
           in Some (Some (take (nat l) (drop (nat (ai_position s)) (ai_data s))),
                    s\<lparr>ai_last_returned_size := l, ai_position := ai_position s + l\<rparr>)
      else Some (None, s\<lparr>ai_last_returned_size := 0\<rparr>))"

definition array_BackUp :: "array_input backup_op" where
  "array_BackUp count s =
     (if \<not> ai_last_returned_size s > 0 then None
      else if \<not> count \<le> ai_last_returned_size s then None
      else if \<not> count \<ge> 0 then None
      else Some (s\<lparr>ai_position := ai_position s - count, ai_last_returned_size := 0\<rparr>))"

definition array_Skip :: "array_input skip_op" where
  "array_Skip count s =
     (if \<not> count \<ge> 0 then None
      else let s = s\<lparr>ai_last_returned_size := 0\<rparr>
           in if count > ai_size s - ai_position s
              then Some (False, s\<lparr>ai_position := ai_size s\<rparr>)
              else Some (True, s\<lparr>ai_position := ai_position s + count\<rparr>))"

definition array_ByteCount :: "array_input \<Rightarrow> int" where
  "array_ByteCount s = ai_position s"

definition array_inv :: "array_input \<Rightarrow> bool" where
  "array_inv s \<longleftrightarrow> ai_size s = int (length (ai_data s)) \<and> 0 \<le> ai_position s
     \<and> ai_position s \<le> ai_size s \<and> (0 < ai_size s \<longrightarrow> 0 < ai_block_size s)"

definition array_rest :: "array_input \<Rightarrow> string" where
  "array_rest s = drop (nat (ai_position s)) (ai_data s)"

lemma ArrayInputStream_inv [simp]:
  "array_inv (ArrayInputStream data (int (length data)) b)"
  "array_rest (ArrayInputStream data (int (length data)) b) = data"
  "array_ByteCount (ArrayInputStream data n b) = 0"
  by (auto simp: array_inv_def array_rest_def ArrayInputStream_def array_ByteCount_def)

lemma array_rest_length: "array_inv s \<Longrightarrow> int (length (array_rest s)) = ai_size s - ai_position s"
  by (auto simp: array_inv_def array_rest_def of_nat_diff nat_le_iff)

lemma array_rest_empty: "array_inv s \<Longrightarrow> array_rest s = [] \<longleftrightarrow> \<not> ai_position s < ai_size s"
  using array_rest_length [of s] by (cases "array_rest s") auto

lemma array_Next_data:
  assumes "array_inv s" and "array_rest s \<noteq> []"
  defines "l \<equiv> min (ai_block_size s) (ai_size s - ai_position s)"
  defines "s' \<equiv> s\<lparr>ai_last_returned_size := l, ai_position := ai_position s + l\<rparr>"
  shows "array_Next s = Some (Some (take (nat l) (array_rest s)), s')"
    and "0 < l" and "l \<le> int (length (array_rest s))" and "array_inv s'"
    and "array_rest s = take (nat l) (array_rest s) @ array_rest s'"
proof -
  have p: "ai_position s < ai_size s" using assms(1,2) by (simp add: array_rest_empty)
  then show "array_Next s = Some (Some (take (nat l) (array_rest s)), s')"
    by (simp add: array_Next_def l_def s'_def array_rest_def Let_def)
  show "0 < l" "l \<le> int (length (array_rest s))" "array_inv s'"
    using p assms(1) by (auto simp: l_def s'_def array_inv_def array_rest_def)
  have "array_rest s' = drop (nat l) (array_rest s)"
    using \<open>0 < l\<close> assms(1) by (simp add: array_rest_def s'_def array_inv_def nat_add_distrib add.commute)
  then show "array_rest s = take (nat l) (array_rest s) @ array_rest s'" by simp
qed

interpretation array: zero_copy_input array_Next array_BackUp array_Skip array_ByteCount
    array_inv array_rest
proof unfold_locales
  fix s
  assume "array_inv s" "array_rest s = []"
  then show "\<exists>s'. array_Next s = Some (None, s') \<and> array_inv s' \<and> array_rest s' = []
      \<and> array_ByteCount s' = array_ByteCount s"
    by (auto simp: array_Next_def array_rest_empty array_inv_def array_ByteCount_def)
next
  fix s
  assume "array_inv s" "array_rest s \<noteq> []"
  from array_Next_data [OF this]
  show "\<exists>c s'. array_Next s = Some (Some c, s') \<and> array_inv s' \<and> c \<noteq> []
      \<and> array_rest s = c @ array_rest s' \<and> array_ByteCount s' = array_ByteCount s + int (length c)"
    by (auto simp: array_ByteCount_def)
next
  fix s c s' n
  assume s: "array_inv s" "array_Next s = Some (Some c, s')" "0 \<le> n" "n \<le> int (length c)"
  have "array_rest s \<noteq> []"
    using s(1,2) by (auto simp: array_Next_def array_rest_empty split: if_splits)
  note d = array_Next_data [OF s(1) this]
  define l where "l = min (ai_block_size s) (ai_size s - ai_position s)"
  have c: "c = take (nat l) (array_rest s)" "length c = nat l"
    "s' = s\<lparr>ai_last_returned_size := l, ai_position := ai_position s + l\<rparr>"
    using s(2) d(1,2,3) unfolding l_def [symmetric] by auto
  have l: "0 < l" "n \<le> l" using d(2) c s(4) unfolding l_def [symmetric] by auto
  let ?t = "s'\<lparr>ai_position := ai_position s' - n, ai_last_returned_size := 0\<rparr>"
  have "array_BackUp n s' = Some ?t"
    using l s(3) by (simp add: array_BackUp_def c)
  moreover have "array_inv ?t"
    using d(4) l s(1,3) by (auto simp: array_inv_def c l_def)
  moreover have "array_rest ?t = drop (nat l - nat n) (array_rest s)"
    using l s(1,3) by (auto simp: array_rest_def c array_inv_def nat_add_distrib nat_diff_distrib
        add.commute)
  moreover have "drop (nat l - nat n) (array_rest s) = drop (length c - nat n) c @ array_rest s'"
  proof -
    have "array_rest s = c @ array_rest s'" using d(5) c unfolding l_def [symmetric] by simp
    then show ?thesis using c(2) by simp
  qed
  ultimately show "\<exists>s''. array_BackUp n s' = Some s'' \<and> array_inv s''
      \<and> array_rest s'' = drop (length c - nat n) c @ array_rest s'
      \<and> array_ByteCount s'' = array_ByteCount s' - n"
    by (auto simp: array_ByteCount_def)
next
  fix s
  assume "array_inv s"
  then show "\<exists>b s'. array_Skip 0 s = Some (b, s') \<and> array_inv s' \<and> array_rest s' = array_rest s
      \<and> array_ByteCount s' = array_ByteCount s \<and> (b \<or> array_rest s = [])"
    by (auto simp: array_Skip_def array_inv_def array_rest_def array_ByteCount_def)
next
  fix s and n :: int
  assume "array_inv s" "0 < n"
  then show "\<exists>s'. array_Skip n s = Some (n \<le> int (length (array_rest s)), s') \<and> array_inv s'
      \<and> array_rest s' = drop (nat n) (array_rest s)
      \<and> array_ByteCount s' = array_ByteCount s + min n (int (length (array_rest s)))"
    by (auto simp: array_Skip_def Let_def array_inv_def array_rest_def array_ByteCount_def
        nat_add_distrib add.commute)
qed

end
