(* ===== verification/Copying_Input.thy ===== *)
theory Copying_Input
  imports Input_Streams
begin

section \<open>CopyingInputStreamAdaptor\<close>

text \<open>
  The adaptor that turns a \<open>CopyingInputStream\<close> into a zero-copy stream. \<open>rd n c\<close> is the
  virtual \<open>Read\<close> with a buffer of \<open>n\<close> bytes: \<open>None\<close> for a negative result (a permanent
  error), otherwise the bytes stored, none at the end of the input. \<open>sk n c\<close> is the virtual
  \<open>Skip\<close>, whose default is \<open>CopyingInputStream_Skip\<close>. Of the adaptor's heap buffer the
  model keeps the bytes the last \<open>Read\<close> stored.
\<close>

type_synonym 'c read_op = "int \<Rightarrow> 'c \<Rightarrow> string option \<times> 'c"
type_synonym 'c cskip_op = "int \<Rightarrow> 'c \<Rightarrow> int \<times> 'c"

function CopyingInputStream_Skip_loop :: "'c read_op \<Rightarrow> int \<Rightarrow> int \<Rightarrow> 'c \<Rightarrow> int \<times> 'c" where
  "CopyingInputStream_Skip_loop rd count skipped c =
     (if skipped < count
      then case rd (min (count - skipped) 4096) c of
             (None, c) \<Rightarrow> (skipped, c)
           | (Some bs, c) \<Rightarrow>
               if bs = [] then (skipped, c)
               else CopyingInputStream_Skip_loop rd count (skipped + int (length bs)) c
      else (skipped, c))"
  by pat_completeness auto
termination
proof (relation "measure (\<lambda>(rd, count, skipped, c). nat (count - skipped))", goal_cases)
  case (2 rd count skipped c r d bs)
  then show ?case by (cases bs) auto
qed simp

declare CopyingInputStream_Skip_loop.simps [simp del]

definition CopyingInputStream_Skip :: "'c read_op \<Rightarrow> 'c cskip_op" where
  "CopyingInputStream_Skip rd count c = CopyingInputStream_Skip_loop rd count 0 c"

record 'c copying_input =
  ca_stream :: 'c
  ca_failed :: bool
  ca_position :: int
  ca_buffer :: "string option"
  ca_buffer_size :: int
  ca_buffer_used :: int
  ca_backup_bytes :: int

definition kDefaultBlockSize :: int where "kDefaultBlockSize = 8192"

definition CopyingInputStreamAdaptor :: "'c \<Rightarrow> int \<Rightarrow> 'c copying_input" where
  "CopyingInputStreamAdaptor stream block_size =
     \<lparr>ca_stream = stream, ca_failed = False, ca_position = 0, ca_buffer = None,
      ca_buffer_size = (if block_size > 0 then block_size else kDefaultBlockSize),
      ca_buffer_used = 0, ca_backup_bytes = 0\<rparr>"

definition copying_AllocateBufferIfNeeded :: "'c copying_input \<Rightarrow> 'c copying_input" where
  "copying_AllocateBufferIfNeeded s =
     (if ca_buffer s = None then s\<lparr>ca_buffer := Some []\<rparr> else s)"

definition copying_FreeBuffer :: "'c copying_input \<Rightarrow> 'c copying_input option" where
  "copying_FreeBuffer s =
     (if \<not> ca_backup_bytes s = 0 then None
      else Some (s\<lparr>ca_buffer_used := 0, ca_buffer := None\<rparr>))"

definition copying_Next :: "'c read_op \<Rightarrow> 'c copying_input next_op" where
  "copying_Next rd s =
     (if ca_failed s then Some (None, s)
      else
        let s = copying_AllocateBufferIfNeeded s;
            buf = the (ca_buffer s)
        in if ca_backup_bytes s > 0
           then Some (Some (take (nat (ca_backup_bytes s))
                              (drop (nat (ca_buffer_used s - ca_backup_bytes s)) buf)),
                      s\<lparr>ca_backup_bytes := 0\<rparr>)
           else case rd (ca_buffer_size s) (ca_stream s) of
                  (None, c) \<Rightarrow> do {
                    s \<leftarrow> copying_FreeBuffer (s\<lparr>ca_stream := c, ca_buffer_used := -1, ca_failed := True\<rparr>);
                    Some (None, s) }
                | (Some bs, c) \<Rightarrow>
                    if bs = []
                    then do {
                      s \<leftarrow> copying_FreeBuffer (s\<lparr>ca_stream := c, ca_buffer_used := 0\<rparr>);
                      Some (None, s) }
                    else Some (Some bs,
                               s\<lparr>ca_stream := c, ca_buffer := Some bs,
                                 ca_buffer_used := int (length bs),
                                 ca_position := ca_position s + int (length bs)\<rparr>))"

definition copying_BackUp :: "'c copying_input backup_op" where
  "copying_BackUp count s =
     (if \<not> (ca_backup_bytes s = 0 \<and> ca_buffer s \<noteq> None) then None
      else if \<not> count \<le> ca_buffer_used s then None
      else if \<not> count \<ge> 0 then None
      else Some (s\<lparr>ca_backup_bytes := count\<rparr>))"

definition copying_Skip :: "'c cskip_op \<Rightarrow> 'c copying_input skip_op" where
  "copying_Skip sk count s =
     (if \<not> count \<ge> 0 then None
      else if ca_failed s then Some (False, s)
      else if ca_backup_bytes s \<ge> count
      then Some (True, s\<lparr>ca_backup_bytes := ca_backup_bytes s - count\<rparr>)
      else
        let count = count - ca_backup_bytes s;
            s = s\<lparr>ca_backup_bytes := 0\<rparr>;
            (skipped, c) = sk count (ca_stream s)
        in Some (skipped = count,
                 s\<lparr>ca_stream := c, ca_position := ca_position s + skipped\<rparr>))"

definition copying_ByteCount :: "'c copying_input \<Rightarrow> int" where
  "copying_ByteCount s = ca_position s - ca_backup_bytes s"

subsection \<open>A copying stream without read errors\<close>

locale copying_read =
  fixes rd :: "int \<Rightarrow> 'c \<Rightarrow> string option \<times> 'c"
    and cinv :: "'c \<Rightarrow> bool"
    and content :: "'c \<Rightarrow> string"
  assumes read_content: "cinv c \<Longrightarrow> 0 < n \<Longrightarrow>
      \<exists>bs c'. rd n c = (Some bs, c') \<and> cinv c' \<and> int (length bs) \<le> n \<and> content c = bs @ content c'
            \<and> (bs = [] \<longrightarrow> content c = [])"
begin

lemma Skip_loop_content:
  assumes "cinv c" and "skipped \<le> n"
  shows "\<exists>c'. CopyingInputStream_Skip_loop rd n skipped c
            = (skipped + min (n - skipped) (int (length (content c))), c')
            \<and> cinv c' \<and> content c' = drop (nat (n - skipped)) (content c)"
  using assms
proof (induction "nat (n - skipped)" arbitrary: skipped c rule: less_induct)
  case less
  show ?case
  proof (cases "skipped < n")
    case False
    with less.prems show ?thesis by (subst CopyingInputStream_Skip_loop.simps) auto
  next
    case True
    then have "0 < min (n - skipped) 4096" by simp
    from read_content [OF less.prems(1) this] obtain bs c' where
      r: "rd (min (n - skipped) 4096) c = (Some bs, c')" "cinv c'"
        "int (length bs) \<le> n - skipped" "content c = bs @ content c'"
        "bs = [] \<longrightarrow> content c = []"
      by auto
    show ?thesis
    proof (cases "bs = []")
      case True
      with r \<open>skipped < n\<close> show ?thesis by (subst CopyingInputStream_Skip_loop.simps) auto
    next
      case False
      then have "nat (n - (skipped + int (length bs))) < nat (n - skipped)"
        using \<open>skipped < n\<close> by (cases bs) auto
      from less.hyps [OF this r(2)] r(3) obtain c'' where
        "CopyingInputStream_Skip_loop rd n (skipped + int (length bs)) c'
          = (skipped + int (length bs) + min (n - (skipped + int (length bs))) (int (length (content c'))), c'')"
        "cinv c''" "content c'' = drop (nat (n - (skipped + int (length bs)))) (content c')"
        by auto
      moreover have "nat (n - (skipped + int (length bs))) = nat (n - skipped) - length bs"
        using r(3) by auto
      ultimately show ?thesis
        using False \<open>skipped < n\<close> r by (subst CopyingInputStream_Skip_loop.simps) (auto simp: min_def)
    qed
  qed
qed

lemma default_skip_content:
  assumes "cinv c" and "0 \<le> n"
  shows "\<exists>c'. CopyingInputStream_Skip rd n c = (min n (int (length (content c))), c')
            \<and> cinv c' \<and> content c' = drop (nat n) (content c)"
  using Skip_loop_content [OF assms] by (simp add: CopyingInputStream_Skip_def)

end

locale copying_stream = copying_read rd cinv content
  for rd :: "int \<Rightarrow> 'c \<Rightarrow> string option \<times> 'c" and cinv :: "'c \<Rightarrow> bool" and content :: "'c \<Rightarrow> string" +
  fixes sk :: "int \<Rightarrow> 'c \<Rightarrow> int \<times> 'c"
  assumes skip_content: "cinv c \<Longrightarrow> 0 \<le> n \<Longrightarrow>
      \<exists>c'. sk n c = (min n (int (length (content c))), c')
         \<and> cinv c' \<and> content c' = drop (nat n) (content c)"

text \<open>The invariant of the adaptor: bytes that were backed up over are the end of the buffer.\<close>

definition copying_inv :: "('c \<Rightarrow> bool) \<Rightarrow> 'c copying_input \<Rightarrow> bool" where
  "copying_inv cinv s \<longleftrightarrow> cinv (ca_stream s) \<and> \<not> ca_failed s \<and> 0 < ca_buffer_size s
     \<and> 0 \<le> ca_backup_bytes s \<and> ca_backup_bytes s \<le> ca_buffer_used s
     \<and> (0 < ca_buffer_used s \<longrightarrow>
          (\<exists>b. ca_buffer s = Some b \<and> int (length b) = ca_buffer_used s))"

definition copying_rest :: "('c \<Rightarrow> string) \<Rightarrow> 'c copying_input \<Rightarrow> string" where
  "copying_rest content s =
     (if ca_backup_bytes s > 0
      then drop (nat (ca_buffer_used s - ca_backup_bytes s)) (the (ca_buffer s)) else [])
     @ content (ca_stream s)"

context copying_stream begin

lemma copying_Next_backed_up:
  assumes "copying_inv cinv s" and "ca_backup_bytes s > 0"
  shows "\<exists>b. ca_buffer s = Some b
     \<and> copying_Next rd s = Some (Some (drop (nat (ca_buffer_used s - ca_backup_bytes s)) b),
                                 s\<lparr>ca_backup_bytes := 0\<rparr>)
     \<and> int (length (drop (nat (ca_buffer_used s - ca_backup_bytes s)) b)) = ca_backup_bytes s"
  using assms
  by (auto simp: copying_inv_def copying_Next_def copying_AllocateBufferIfNeeded_def Let_def)

lemma copying_Next_read:
  assumes "copying_inv cinv s" and "ca_backup_bytes s = 0" and "content (ca_stream s) \<noteq> []"
  shows "\<exists>bs c'. copying_Next rd s
            = Some (Some bs, s\<lparr>ca_stream := c', ca_buffer := Some bs, ca_buffer_used := int (length bs),
                               ca_position := ca_position s + int (length bs)\<rparr>)
          \<and> cinv c' \<and> bs \<noteq> [] \<and> content (ca_stream s) = bs @ content c'"
proof -
  from assms(1) have "cinv (ca_stream s)" "0 < ca_buffer_size s" by (auto simp: copying_inv_def)
  from read_content [OF this] obtain bs c' where
    "rd (ca_buffer_size s) (ca_stream s) = (Some bs, c')" "cinv c'"
    "content (ca_stream s) = bs @ content c'" "bs \<noteq> []"
    using assms(3) by auto
  then show ?thesis
    using assms(1,2)
    by (auto simp: copying_Next_def copying_AllocateBufferIfNeeded_def Let_def copying_inv_def)
qed

lemma copying_Next_eof:
  assumes "copying_inv cinv s" and "ca_backup_bytes s = 0" and "content (ca_stream s) = []"
  shows "\<exists>c'. copying_Next rd s
            = Some (None, s\<lparr>ca_stream := c', ca_buffer_used := 0, ca_buffer := None\<rparr>)
          \<and> cinv c' \<and> content c' = []"
proof -
  from assms(1) have "cinv (ca_stream s)" "0 < ca_buffer_size s" by (auto simp: copying_inv_def)
  from read_content [OF this] obtain c' where
    "rd (ca_buffer_size s) (ca_stream s) = (Some [], c')" "cinv c'" "content c' = []"
    using assms(3) by auto
  then show ?thesis
    using assms(1,2)
    by (auto simp: copying_Next_def copying_AllocateBufferIfNeeded_def Let_def copying_inv_def
        copying_FreeBuffer_def)
qed

lemma copying_rest_empty:
  assumes "copying_inv cinv s"
  shows "copying_rest content s = [] \<longleftrightarrow> ca_backup_bytes s = 0 \<and> content (ca_stream s) = []"
  using assms by (auto simp: copying_inv_def copying_rest_def)

lemma copying_BackUp_next:
  assumes s: "copying_inv cinv s" and nx: "copying_Next rd s = Some (Some c, s')"
    and n: "0 \<le> n" "n \<le> int (length c)"
  shows "\<exists>s''. copying_BackUp n s' = Some s'' \<and> copying_inv cinv s''
           \<and> copying_rest content s'' = drop (length c - nat n) c @ copying_rest content s'
           \<and> copying_ByteCount s'' = copying_ByteCount s' - n"
proof -
  obtain b where b: "ca_buffer s' = Some b" "int (length b) = ca_buffer_used s'" "ca_backup_bytes s' = 0"
    "copying_inv cinv s'" "suffix c b"
  proof (cases "ca_backup_bytes s > 0")
    case True
    from copying_Next_backed_up [OF s this] nx s True that show ?thesis
      by (auto simp: copying_inv_def suffix_drop)
  next
    case False
    then have z: "ca_backup_bytes s = 0" using s by (simp add: copying_inv_def)
    have "content (ca_stream s) \<noteq> []" using copying_Next_eof [OF s z] nx by auto
    from copying_Next_read [OF s z this] nx s z that show ?thesis
      by (auto simp: copying_inv_def)
  qed
  obtain p where p: "b = p @ c" using b(5) by (auto simp: suffix_def)
  have "copying_BackUp n s' = Some (s'\<lparr>ca_backup_bytes := n\<rparr>)"
    using b n p by (auto simp: copying_BackUp_def)
  moreover have "copying_inv cinv (s'\<lparr>ca_backup_bytes := n\<rparr>)"
    using b n p by (auto simp: copying_inv_def)
  moreover have "nat (ca_buffer_used s' - n) = length p + (length c - nat n)"
    using b(2) n p by auto
  then have "copying_rest content (s'\<lparr>ca_backup_bytes := n\<rparr>)
      = drop (length c - nat n) c @ copying_rest content s'"
    using b n p by (auto simp: copying_rest_def)
  ultimately show ?thesis using b(3) by (auto simp: copying_ByteCount_def)
qed

lemma copying_Skip_rest:
  assumes s: "copying_inv cinv s" and n: "0 \<le> n"
  shows "\<exists>s'. copying_Skip sk n s = Some (n \<le> int (length (copying_rest content s)), s')
           \<and> copying_inv cinv s' \<and> copying_rest content s' = drop (nat n) (copying_rest content s)
           \<and> copying_ByteCount s' = copying_ByteCount s + min n (int (length (copying_rest content s)))"
proof (cases "ca_backup_bytes s \<ge> n")
  case True
  show ?thesis
  proof (cases "ca_backup_bytes s > 0")
    case False
    with True n s show ?thesis
      by (auto simp: copying_Skip_def copying_inv_def copying_rest_def copying_ByteCount_def)
  next
    case bk: True
    then obtain b where b: "ca_buffer s = Some b" "int (length b) = ca_buffer_used s"
      using s by (auto simp: copying_inv_def)
    have "nat (ca_buffer_used s - (ca_backup_bytes s - n))
        = nat n + nat (ca_buffer_used s - ca_backup_bytes s)"
      using True n s by (auto simp: copying_inv_def)
    with True bk n s b show ?thesis
      by (auto simp: copying_Skip_def copying_inv_def copying_rest_def copying_ByteCount_def)
  qed
next
  case False
  let ?m = "n - ca_backup_bytes s"
  have "cinv (ca_stream s)" "0 \<le> ?m" using s False by (auto simp: copying_inv_def)
  from skip_content [OF this] obtain c' where
    c': "sk ?m (ca_stream s) = (min ?m (int (length (content (ca_stream s)))), c')" "cinv c'"
      "content c' = drop (nat ?m) (content (ca_stream s))"
    by blast
  have pre: "int (length (copying_rest content s)) = ca_backup_bytes s + int (length (content (ca_stream s)))"
    using s by (auto simp: copying_inv_def copying_rest_def)
  have "drop (nat n) (copying_rest content s) = content c'"
  proof (cases "ca_backup_bytes s > 0")
    case True
    then obtain b where b: "ca_buffer s = Some b" "int (length b) = ca_buffer_used s"
      using s by (auto simp: copying_inv_def)
    have "nat n + nat (ca_buffer_used s - ca_backup_bytes s) - length b = nat ?m"
      "length b \<le> nat n + nat (ca_buffer_used s - ca_backup_bytes s)"
      using s False b(2) by (auto simp: copying_inv_def)
    with True b c'(3) show ?thesis by (simp add: copying_rest_def)
  next
    case False
    with s c'(3) show ?thesis by (auto simp: copying_inv_def copying_rest_def)
  qed
  with c' pre s False n show ?thesis
    by (auto simp: copying_Skip_def Let_def copying_inv_def copying_rest_def copying_ByteCount_def)
qed

end

sublocale copying_stream \<subseteq> adaptor: zero_copy_input "copying_Next rd" copying_BackUp "copying_Skip sk"
    copying_ByteCount "copying_inv cinv" "copying_rest content"
proof unfold_locales
  fix s
  assume s: "copying_inv cinv s" "copying_rest content s = []"
  then have "ca_backup_bytes s = 0" "content (ca_stream s) = []" by (simp_all add: copying_rest_empty)
  from copying_Next_eof [OF s(1) this] s(1) this
  show "\<exists>s'. copying_Next rd s = Some (None, s') \<and> copying_inv cinv s' \<and> copying_rest content s' = []
      \<and> copying_ByteCount s' = copying_ByteCount s"
    by (auto simp: copying_inv_def copying_rest_def copying_ByteCount_def)
next
  fix s
  assume s: "copying_inv cinv s" "copying_rest content s \<noteq> []"
  show "\<exists>c s'. copying_Next rd s = Some (Some c, s') \<and> copying_inv cinv s' \<and> c \<noteq> []
      \<and> copying_rest content s = c @ copying_rest content s'
      \<and> copying_ByteCount s' = copying_ByteCount s + int (length c)"
  proof (cases "ca_backup_bytes s > 0")
    case True
    from copying_Next_backed_up [OF s(1) this] obtain b where
      b: "ca_buffer s = Some b"
        "copying_Next rd s = Some (Some (drop (nat (ca_buffer_used s - ca_backup_bytes s)) b),
                                   s\<lparr>ca_backup_bytes := 0\<rparr>)"
        "int (length (drop (nat (ca_buffer_used s - ca_backup_bytes s)) b)) = ca_backup_bytes s"
      by blast
    then have "drop (nat (ca_buffer_used s - ca_backup_bytes s)) b \<noteq> []" using True by (intro notI) simp
    moreover have "copying_inv cinv (s\<lparr>ca_backup_bytes := 0\<rparr>)"
      using s(1) by (auto simp: copying_inv_def)
    moreover have "copying_rest content s = drop (nat (ca_buffer_used s - ca_backup_bytes s)) b
        @ copying_rest content (s\<lparr>ca_backup_bytes := 0\<rparr>)"
      using b(1) True by (simp add: copying_rest_def)
    moreover have "copying_ByteCount (s\<lparr>ca_backup_bytes := 0\<rparr>) = copying_ByteCount s
        + int (length (drop (nat (ca_buffer_used s - ca_backup_bytes s)) b))"
      unfolding b(3) by (simp add: copying_ByteCount_def)
    ultimately show ?thesis using b(2) by blast
  next
    case False
    then have z: "ca_backup_bytes s = 0" using s(1) by (simp add: copying_inv_def)
    then have "content (ca_stream s) \<noteq> []" using s by (simp add: copying_rest_empty)
    from copying_Next_read [OF s(1) z this] obtain bs c' where
      n: "copying_Next rd s = Some (Some bs, s\<lparr>ca_stream := c', ca_buffer := Some bs,
            ca_buffer_used := int (length bs), ca_position := ca_position s + int (length bs)\<rparr>)"
        "cinv c'" "bs \<noteq> []" "content (ca_stream s) = bs @ content c'"
      by blast
    show ?thesis
      by (rule exI, rule exI, rule conjI, rule n(1))
         (use n s(1) z in \<open>auto simp: copying_inv_def copying_rest_def copying_ByteCount_def\<close>)
  qed
next
  fix s c s' n
  assume "copying_inv cinv s" "copying_Next rd s = Some (Some c, s')" "0 \<le> n" "n \<le> int (length c)"
  then show "\<exists>s''. copying_BackUp n s' = Some s'' \<and> copying_inv cinv s''
      \<and> copying_rest content s'' = drop (length c - nat n) c @ copying_rest content s'
      \<and> copying_ByteCount s'' = copying_ByteCount s' - n"
    by (rule copying_BackUp_next)
next
  fix s
  assume "copying_inv cinv s"
  from copying_Skip_rest [OF this, of 0]
  show "\<exists>b s'. copying_Skip sk 0 s = Some (b, s') \<and> copying_inv cinv s'
      \<and> copying_rest content s' = copying_rest content s \<and> copying_ByteCount s' = copying_ByteCount s
      \<and> (b \<or> copying_rest content s = [])"
    by auto
next
  fix s and n :: int
  assume "copying_inv cinv s" "0 < n"
  then show "\<exists>s'. copying_Skip sk n s = Some (n \<le> int (length (copying_rest content s)), s')
      \<and> copying_inv cinv s' \<and> copying_rest content s' = drop (nat n) (copying_rest content s)
      \<and> copying_ByteCount s' = copying_ByteCount s + min n (int (length (copying_rest content s)))"
    by (intro copying_Skip_rest) simp_all
qed

end
