(* ===== verification/Istream_Input.thy ===== *)
theory Istream_Input
  imports Copying_Input
begin

section \<open>IstreamInputStream\<close>

text \<open>
  \<open>IstreamInputStream\<close> (file \<open>io/zero_copy_stream_impl.cc\<close>) is a
  \<open>CopyingInputStreamAdaptor\<close> over a \<open>CopyingIstreamInputStream\<close>. Of \<open>std::istream\<close> the
  model has what \<open>read\<close> and \<open>gcount\<close> do to the three state flags: the characters of the
  stream buffer, and whether the buffer ends with the end of the file or with an error of the
  device (which sets \<open>badbit\<close>).
\<close>

record std_istream =
  is_content :: string
  is_device_error :: bool
  is_eofbit :: bool
  is_failbit :: bool
  is_badbit :: bool

definition std_open :: "string \<Rightarrow> bool \<Rightarrow> std_istream" where
  "std_open data error =
     \<lparr>is_content = data, is_device_error = error, is_eofbit = False, is_failbit = False,
      is_badbit = False\<rparr>"

text \<open>\<open>istream::read(buffer, n)\<close>; the first component are the \<open>gcount()\<close> bytes stored.\<close>

definition std_read :: "int \<Rightarrow> std_istream \<Rightarrow> string \<times> std_istream" where
  "std_read n s =
     (if is_eofbit s \<or> is_failbit s \<or> is_badbit s then ([], s\<lparr>is_failbit := True\<rparr>)
      else if n \<le> int (length (is_content s))
      then (take (nat n) (is_content s), s\<lparr>is_content := drop (nat n) (is_content s)\<rparr>)
      else if is_device_error s
      then (is_content s, s\<lparr>is_content := [], is_badbit := True\<rparr>)
      else (is_content s, s\<lparr>is_content := [], is_eofbit := True, is_failbit := True\<rparr>))"

definition std_fail :: "std_istream \<Rightarrow> bool" where
  "std_fail s \<longleftrightarrow> is_failbit s \<or> is_badbit s"

definition CopyingIstream_Read :: "std_istream read_op" where
  "CopyingIstream_Read n s =
     (let (bs, s) = std_read n s
      in if bs = [] \<and> std_fail s \<and> \<not> is_eofbit s then (None, s) else (Some bs, s))"

text \<open>The operations of \<open>IstreamInputStream\<close> forward to the adaptor it contains.\<close>

type_synonym istream_input = "std_istream copying_input"

definition istream_Next :: "istream_input next_op" where
  "istream_Next s = copying_Next CopyingIstream_Read s"

definition istream_BackUp :: "istream_input backup_op" where
  "istream_BackUp count s = copying_BackUp count s"

definition istream_Skip :: "istream_input skip_op" where
  "istream_Skip count s = copying_Skip (CopyingInputStream_Skip CopyingIstream_Read) count s"

definition istream_ByteCount :: "istream_input \<Rightarrow> int" where
  "istream_ByteCount s = copying_ByteCount s"

text \<open>A stream whose device does not fail: once a flag is set, it is the end of the file.\<close>

definition std_inv :: "std_istream \<Rightarrow> bool" where
  "std_inv s \<longleftrightarrow> \<not> is_device_error s \<and> \<not> is_badbit s
     \<and> (is_eofbit s \<or> is_failbit s \<longrightarrow> is_eofbit s \<and> is_content s = [])"

lemma std_open_inv [simp]: "std_inv (std_open data False)" "is_content (std_open data e) = data"
  by (auto simp: std_inv_def std_open_def)

interpretation istream: copying_read CopyingIstream_Read std_inv is_content
proof unfold_locales
  fix c and n :: int
  assume "std_inv c" "0 < n"
  then show "\<exists>bs c'. CopyingIstream_Read n c = (Some bs, c') \<and> std_inv c' \<and> int (length bs) \<le> n
      \<and> is_content c = bs @ is_content c' \<and> (bs = [] \<longrightarrow> is_content c = [])"
    by (auto simp: CopyingIstream_Read_def std_read_def std_inv_def std_fail_def)
qed

interpretation istream_skip: copying_stream CopyingIstream_Read std_inv is_content
    "CopyingInputStream_Skip CopyingIstream_Read"
  by unfold_locales (rule istream.default_skip_content)

text \<open>The bytes an \<open>IstreamInputStream\<close> has still to deliver.\<close>

definition istream_inv :: "istream_input \<Rightarrow> bool" where
  "istream_inv s = copying_inv std_inv s"

definition istream_rest :: "istream_input \<Rightarrow> string" where
  "istream_rest s = copying_rest is_content s"

lemma istream_open:
  "istream_inv (CopyingInputStreamAdaptor (std_open data False) b)"
  "istream_rest (CopyingInputStreamAdaptor (std_open data False) b) = data"
  "istream_ByteCount (CopyingInputStreamAdaptor c b) = 0"
  by (auto simp: istream_inv_def istream_rest_def istream_ByteCount_def copying_inv_def
      copying_rest_def copying_ByteCount_def CopyingInputStreamAdaptor_def kDefaultBlockSize_def)

lemma istream_ops:
  "istream_Next = copying_Next CopyingIstream_Read" "istream_BackUp = copying_BackUp"
  "istream_Skip = copying_Skip (CopyingInputStream_Skip CopyingIstream_Read)"
  "istream_ByteCount = copying_ByteCount"
  by (simp_all add: fun_eq_iff istream_Next_def istream_BackUp_def istream_Skip_def istream_ByteCount_def)

interpretation istream_input: zero_copy_input istream_Next istream_BackUp istream_Skip
    istream_ByteCount istream_inv istream_rest
  unfolding istream_ops
  using istream_skip.adaptor.zero_copy_input_axioms
  by (simp add: zero_copy_input_def istream_inv_def istream_rest_def)

subsection \<open>Errors of the device\<close>

definition std_err :: "std_istream \<Rightarrow> bool" where
  "std_err s \<longleftrightarrow> is_device_error s \<and> \<not> is_eofbit s \<and> (is_failbit s \<or> is_badbit s \<longrightarrow> is_content s = [])"

lemma CopyingIstream_Read_err:
  assumes "std_err s" and "0 < n"
  shows "\<exists>s'. std_err s' \<and>
    ((is_content s = [] \<and> is_content s' = [] \<and> CopyingIstream_Read n s = (None, s'))
     \<or> (\<exists>bs. bs \<noteq> [] \<and> CopyingIstream_Read n s = (Some bs, s') \<and> is_content s = bs @ is_content s'))"
  using assms by (auto simp: CopyingIstream_Read_def std_read_def std_err_def std_fail_def)

definition istream_err :: "istream_input \<Rightarrow> bool" where
  "istream_err s \<longleftrightarrow> std_err (ca_stream s) \<and> \<not> ca_failed s \<and> 0 < ca_buffer_size s \<and> ca_backup_bytes s = 0"

lemma istream_Next_err:
  assumes "istream_err s"
  obtains (Fail) s' where "is_content (ca_stream s) = []" "istream_Next s = Some (None, s')" "ca_failed s'"
  | (Data) bs s' where "bs \<noteq> []" "istream_Next s = Some (Some bs, s')" "istream_err s'"
      "is_content (ca_stream s) = bs @ is_content (ca_stream s')"
proof -
  from assms have e: "std_err (ca_stream s)" "0 < ca_buffer_size s" "\<not> ca_failed s" "ca_backup_bytes s = 0"
    by (simp_all add: istream_err_def)
  note u = istream_Next_def copying_Next_def copying_AllocateBufferIfNeeded_def Let_def
  obtain c where c: "std_err c"
    "(is_content (ca_stream s) = [] \<and> CopyingIstream_Read (ca_buffer_size s) (ca_stream s) = (None, c))
     \<or> (\<exists>bs. bs \<noteq> [] \<and> CopyingIstream_Read (ca_buffer_size s) (ca_stream s) = (Some bs, c)
             \<and> is_content (ca_stream s) = bs @ is_content c)"
    using CopyingIstream_Read_err [OF e(1,2)] by blast
  from c(2) show ?thesis
  proof
    assume "is_content (ca_stream s) = [] \<and> CopyingIstream_Read (ca_buffer_size s) (ca_stream s) = (None, c)"
    with e have "is_content (ca_stream s) = []" "\<exists>s'. istream_Next s = Some (None, s') \<and> ca_failed s'"
      by (auto simp: u copying_FreeBuffer_def)
    with Fail show ?thesis by blast
  next
    assume "\<exists>bs. bs \<noteq> [] \<and> CopyingIstream_Read (ca_buffer_size s) (ca_stream s) = (Some bs, c)
             \<and> is_content (ca_stream s) = bs @ is_content c"
    then obtain bs where bs: "bs \<noteq> []" "CopyingIstream_Read (ca_buffer_size s) (ca_stream s) = (Some bs, c)"
      "is_content (ca_stream s) = bs @ is_content c" by blast
    let ?t = "s\<lparr>ca_stream := c, ca_buffer := Some bs, ca_buffer_used := int (length bs),
                ca_position := ca_position s + int (length bs)\<rparr>"
    have "istream_Next s = Some (Some bs, ?t)" using e bs by (auto simp: u)
    moreover have "istream_err ?t" using e c(1) by (simp add: istream_err_def)
    ultimately show ?thesis using Data [of bs ?t] bs by simp
  qed
qed

lemma ReadAll_err:
  assumes "istream_err s"
  shows "\<exists>cs s'. ReadAll istream_Next acc s = Some (acc @ cs, s')
      \<and> concat cs = is_content (ca_stream s) \<and> ca_failed s'"
  using assms
proof (induction "length (is_content (ca_stream s))" arbitrary: s acc rule: less_induct)
  case less
  from less.prems show ?case
  proof (cases rule: istream_Next_err)
    case (Fail s')
    then show ?thesis by (subst ReadAll.simps) auto
  next
    case (Data bs s')
    then have "length (is_content (ca_stream s')) < length (is_content (ca_stream s))" by simp
    from less.hyps [OF this Data(3), of "acc @ [bs]"] obtain cs s'' where
      "ReadAll istream_Next (acc @ [bs]) s' = Some ((acc @ [bs]) @ cs, s'')"
      "concat cs = is_content (ca_stream s')" "ca_failed s''" by blast
    with Data show ?thesis by (subst ReadAll.simps) (auto intro!: exI [of _ "bs # cs"])
  qed
qed

lemma istream_failed_stuck:
  assumes "ca_failed s"
  shows "istream_Next s = Some (None, s)" and "0 \<le> n \<Longrightarrow> istream_Skip n s = Some (False, s)"
  using assms by (auto simp: istream_Next_def copying_Next_def istream_Skip_def copying_Skip_def)

lemma istream_err_open: "istream_err (CopyingInputStreamAdaptor (std_open data True) b)"
  by (auto simp: istream_err_def std_err_def std_open_def CopyingInputStreamAdaptor_def kDefaultBlockSize_def)

end
