(* ===== verification/Concatenating_Input.thy ===== *)
theory Concatenating_Input
  imports Input_Streams
begin

section \<open>ConcatenatingInputStream\<close>

text \<open>
  \<open>ConcatenatingInputStream\<close> (file \<open>io/zero_copy_stream_impl.cc\<close>): the given streams, read
  one after the other. The pointer and count of the remaining streams are the list of their
  states; the operations of the streams are arguments. \<open>ABSL_DLOG(FATAL)\<close> is compiled out of
  release builds, so \<open>BackUp()\<close> without a stream does nothing.
\<close>

record 's concatenating_input =
  ci_streams :: "'s list"
  ci_bytes_retired :: int

definition ConcatenatingInputStream :: "'s list \<Rightarrow> 's concatenating_input" where
  "ConcatenatingInputStream streams = \<lparr>ci_streams = streams, ci_bytes_retired = 0\<rparr>"

fun concat_Next_loop ::
  "'s next_op \<Rightarrow> ('s \<Rightarrow> int) \<Rightarrow> 's list \<Rightarrow> int \<Rightarrow> (string option \<times> 's concatenating_input) option" where
  "concat_Next_loop nxt cnt [] retired = Some (None, \<lparr>ci_streams = [], ci_bytes_retired = retired\<rparr>)"
| "concat_Next_loop nxt cnt (x # xs) retired = do {
     (r, x) \<leftarrow> nxt x;
     case r of
       Some b \<Rightarrow> Some (Some b, \<lparr>ci_streams = x # xs, ci_bytes_retired = retired\<rparr>)
     | None \<Rightarrow> concat_Next_loop nxt cnt xs (retired + cnt x) }"

definition concat_Next :: "'s next_op \<Rightarrow> ('s \<Rightarrow> int) \<Rightarrow> 's concatenating_input next_op" where
  "concat_Next nxt cnt s = concat_Next_loop nxt cnt (ci_streams s) (ci_bytes_retired s)"

definition concat_BackUp :: "'s backup_op \<Rightarrow> 's concatenating_input backup_op" where
  "concat_BackUp backup count s =
     (case ci_streams s of
        [] \<Rightarrow> Some s
      | x # xs \<Rightarrow> do { x \<leftarrow> backup count x; Some (s\<lparr>ci_streams := x # xs\<rparr>) })"

fun concat_Skip_loop ::
  "'s skip_op \<Rightarrow> ('s \<Rightarrow> int) \<Rightarrow> int \<Rightarrow> 's list \<Rightarrow> int \<Rightarrow> (bool \<times> 's concatenating_input) option" where
  "concat_Skip_loop skip cnt count [] retired = Some (False, \<lparr>ci_streams = [], ci_bytes_retired = retired\<rparr>)"
| "concat_Skip_loop skip cnt count (x # xs) retired = (
     let target_byte_count = cnt x + count
     in do {
       (b, x) \<leftarrow> skip count x;
       if b then Some (True, \<lparr>ci_streams = x # xs, ci_bytes_retired = retired\<rparr>)
       else let final_byte_count = cnt x
            in concat_Skip_loop skip cnt (target_byte_count - final_byte_count) xs
                 (retired + final_byte_count) })"

definition concat_Skip :: "'s skip_op \<Rightarrow> ('s \<Rightarrow> int) \<Rightarrow> 's concatenating_input skip_op" where
  "concat_Skip skip cnt count s = concat_Skip_loop skip cnt count (ci_streams s) (ci_bytes_retired s)"

definition concat_ByteCount :: "('s \<Rightarrow> int) \<Rightarrow> 's concatenating_input \<Rightarrow> int" where
  "concat_ByteCount cnt s =
     (case ci_streams s of
        [] \<Rightarrow> ci_bytes_retired s
      | x # _ \<Rightarrow> ci_bytes_retired s + cnt x)"

text \<open>The streams behind the current one have not been read.\<close>

definition concat_inv :: "('s \<Rightarrow> bool) \<Rightarrow> ('s \<Rightarrow> int) \<Rightarrow> 's concatenating_input \<Rightarrow> bool" where
  "concat_inv okay cnt s \<longleftrightarrow>
     list_all okay (ci_streams s) \<and> list_all (\<lambda>x. cnt x = 0) (tl (ci_streams s))"

definition concat_rest :: "('s \<Rightarrow> string) \<Rightarrow> 's concatenating_input \<Rightarrow> string" where
  "concat_rest rest s = concat (map rest (ci_streams s))"

locale concatenated = zero_copy_input nxt backup skip cnt inv rest
  for nxt :: "'s \<Rightarrow> (string option \<times> 's) option" and backup :: "int \<Rightarrow> 's \<Rightarrow> 's option"
    and skip :: "int \<Rightarrow> 's \<Rightarrow> (bool \<times> 's) option" and cnt :: "'s \<Rightarrow> int"
    and inv :: "'s \<Rightarrow> bool" and rest :: "'s \<Rightarrow> string"
begin

abbreviation mk where "mk xs r \<equiv> \<lparr>ci_streams = xs, ci_bytes_retired = r\<rparr>"

lemma concat_tail:
  assumes "concat_inv inv cnt (mk (x # xs) r)" and "rest x = []" and "cnt x' = cnt x"
  shows "concat_inv inv cnt (mk xs (r + cnt x'))" and "concat_rest rest (mk (x # xs) r) = concat_rest rest (mk xs (r + cnt x'))"
    and "concat_ByteCount cnt (mk xs (r + cnt x')) = concat_ByteCount cnt (mk (x # xs) r)"
  using assms by (cases xs; auto simp: concat_inv_def concat_rest_def concat_ByteCount_def)+

lemma concat_head:
  assumes "concat_inv inv cnt (mk (x # xs) r)" and "inv x'"
  shows "concat_inv inv cnt (mk (x' # xs) r)"
    and "rest x = c @ rest x' \<Longrightarrow> concat_rest rest (mk (x # xs) r) = c @ concat_rest rest (mk (x' # xs) r)"
    and "concat_ByteCount cnt (mk (x' # xs) r) = concat_ByteCount cnt (mk (x # xs) r) + (cnt x' - cnt x)"
  using assms by (auto simp: concat_inv_def concat_rest_def concat_ByteCount_def)

lemma concat_Next_loop_cases:
  assumes "concat_inv inv cnt (mk xs r)"
  obtains (End) s' where "concat_rest rest (mk xs r) = []" "concat_Next_loop nxt cnt xs r = Some (None, s')"
      "concat_inv inv cnt s'" "concat_rest rest s' = []"
      "concat_ByteCount cnt s' = concat_ByteCount cnt (mk xs r)"
  | (Data) x c x' ys r' where "concat_Next_loop nxt cnt xs r = Some (Some c, mk (x' # ys) r')"
      "inv x" "nxt x = Some (Some c, x')" "concat_inv inv cnt (mk (x' # ys) r')" "c \<noteq> []"
      "concat_rest rest (mk xs r) = c @ concat_rest rest (mk (x' # ys) r')"
      "concat_ByteCount cnt (mk (x' # ys) r') = concat_ByteCount cnt (mk xs r) + int (length c)"
  using assms
proof (induction xs arbitrary: r thesis)
  case Nil
  show ?case by (rule Nil.prems(1)) (simp_all add: concat_rest_def concat_inv_def)
next
  case (Cons x xs)
  have "inv x" using Cons.prems(3) by (simp add: concat_inv_def)
  then show ?case
  proof (cases rule: nxt_total)
    case (End x')
    note t = concat_tail [OF Cons.prems(3) End(3,5)]
    have eq: "concat_Next_loop nxt cnt (x # xs) r = concat_Next_loop nxt cnt xs (r + cnt x')"
      using End(1) by simp
    show ?thesis
    proof (rule Cons.IH [OF _ _ t(1)], goal_cases)
      case (1 s')
      with Cons.prems(1) [of s'] show ?case by (simp only: eq t simp_thms)
    next
      case (2 c y ys r' z)
      with Cons.prems(2) [of c y ys r' z] show ?case by (simp only: eq t simp_thms)
    qed
  next
    case (Data c x')
    from concat_head [OF Cons.prems(3) Data(2)] Data show ?thesis
      by (intro Cons.prems(2) [of c x' xs r x]) (simp_all add: \<open>inv x\<close>)
  qed
qed

lemma concat_Skip_loop_rest:
  assumes "concat_inv inv cnt (mk xs r)" and "0 < n"
  shows "\<exists>s'. concat_Skip_loop skip cnt n xs r = Some (n \<le> int (length (concat_rest rest (mk xs r))), s')
      \<and> concat_inv inv cnt s' \<and> concat_rest rest s' = drop (nat n) (concat_rest rest (mk xs r))
      \<and> concat_ByteCount cnt s' = concat_ByteCount cnt (mk xs r)
          + min n (int (length (concat_rest rest (mk xs r))))"
  using assms
proof (induction xs arbitrary: r n)
  case Nil
  then show ?case by (simp add: concat_rest_def concat_inv_def concat_ByteCount_def)
next
  case (Cons x xs)
  have "inv x" using Cons.prems(1) by (simp add: concat_inv_def)
  from skip_rest [OF this Cons.prems(2)] obtain x' where
    k: "skip n x = Some (n \<le> int (length (rest x)), x')" "inv x'" "rest x' = drop (nat n) (rest x)"
      "cnt x' = cnt x + min n (int (length (rest x)))" by blast
  show ?case
  proof (cases "n \<le> int (length (rest x))")
    case True
    then have "concat_Skip_loop skip cnt n (x # xs) r = Some (True, mk (x' # xs) r)"
      using k(1) by (simp add: Let_def)
    moreover have "concat_rest rest (mk (x' # xs) r) = drop (nat n) (concat_rest rest (mk (x # xs) r))"
      "n \<le> int (length (concat_rest rest (mk (x # xs) r)))"
      using True k(3) Cons.prems(2) by (simp_all add: concat_rest_def nat_le_iff)
    ultimately show ?thesis
      using concat_head(1,3) [OF Cons.prems(1) k(2)] k(4) True by simp
  next
    case False
    let ?m = "n - int (length (rest x))"
    have i: "concat_inv inv cnt (mk xs (r + cnt x'))"
      using Cons.prems(1) by (cases xs) (auto simp: concat_inv_def)
    have eq: "concat_Skip_loop skip cnt n (x # xs) r = concat_Skip_loop skip cnt ?m xs (r + cnt x')"
      using False k(1,4) by (simp add: Let_def)
    have rest: "concat_rest rest (mk (x # xs) r) = rest x @ concat_rest rest (mk xs (r + cnt x'))"
      by (simp add: concat_rest_def)
    have count: "concat_ByteCount cnt (mk xs (r + cnt x'))
        = concat_ByteCount cnt (mk (x # xs) r) + int (length (rest x))"
      using Cons.prems(1) k(4) False by (cases xs) (simp_all add: concat_inv_def concat_ByteCount_def)
    have "nat ?m = nat n - length (rest x)" using False by auto
    with Cons.IH [OF i, of ?m] False show ?thesis
      unfolding eq rest count by (auto simp: min_def)
  qed
qed

lemma concat_Skip_loop_zero:
  assumes "concat_inv inv cnt (mk xs r)"
  shows "\<exists>b s'. concat_Skip_loop skip cnt 0 xs r = Some (b, s')
      \<and> concat_inv inv cnt s' \<and> concat_rest rest s' = concat_rest rest (mk xs r)
      \<and> concat_ByteCount cnt s' = concat_ByteCount cnt (mk xs r)
      \<and> (b \<or> concat_rest rest (mk xs r) = [])"
  using assms
proof (induction xs arbitrary: r)
  case Nil
  then show ?case by (auto simp: concat_rest_def)
next
  case (Cons x xs)
  have "inv x" using Cons.prems(1) by (simp add: concat_inv_def)
  from skip_zero [OF this] obtain b x' where
    k: "skip 0 x = Some (b, x')" "inv x'" "rest x' = rest x" "cnt x' = cnt x" "b \<or> rest x = []" by blast
  show ?case
  proof (cases b)
    case True
    with k concat_head(1,3) [OF Cons.prems(1) k(2)] show ?thesis
      by (auto simp: Let_def concat_rest_def)
  next
    case False
    with k(5) have e: "rest x = []" by simp
    note t = concat_tail [OF Cons.prems(1) e k(4)]
    from Cons.IH [OF t(1)] show ?thesis
      using k False unfolding t(2) t(3) [symmetric] by (simp add: Let_def)
  qed
qed

end

sublocale concatenated \<subseteq> con: zero_copy_input "concat_Next nxt cnt" "concat_BackUp backup"
    "concat_Skip skip cnt" "concat_ByteCount cnt" "concat_inv inv cnt" "concat_rest rest"
proof unfold_locales
  fix s
  assume s: "concat_inv inv cnt s" "concat_rest rest s = []"
  obtain xs r where [simp]: "s = mk xs r" by (cases s) auto
  from s(1) have "concat_inv inv cnt (mk xs r)" by simp
  then show "\<exists>s'. concat_Next nxt cnt s = Some (None, s') \<and> concat_inv inv cnt s'
      \<and> concat_rest rest s' = [] \<and> concat_ByteCount cnt s' = concat_ByteCount cnt s"
    by (rule concat_Next_loop_cases) (use s(2) in \<open>auto simp: concat_Next_def\<close>)
next
  fix s
  assume s: "concat_inv inv cnt s" "concat_rest rest s \<noteq> []"
  obtain xs r where [simp]: "s = mk xs r" by (cases s) auto
  from s(1) have "concat_inv inv cnt (mk xs r)" by simp
  then show "\<exists>c s'. concat_Next nxt cnt s = Some (Some c, s') \<and> concat_inv inv cnt s' \<and> c \<noteq> []
      \<and> concat_rest rest s = c @ concat_rest rest s'
      \<and> concat_ByteCount cnt s' = concat_ByteCount cnt s + int (length c)"
    by (rule concat_Next_loop_cases) (use s(2) in \<open>auto simp: concat_Next_def\<close>)
next
  fix s c s' and n :: int
  assume s: "concat_inv inv cnt s" "concat_Next nxt cnt s = Some (Some c, s')"
    and n: "0 \<le> n" "n \<le> int (length c)"
  obtain xs r where [simp]: "s = mk xs r" by (cases s) auto
  have "concat_inv inv cnt (mk xs r)" using s(1) by simp
  then show "\<exists>s''. concat_BackUp backup n s' = Some s'' \<and> concat_inv inv cnt s''
      \<and> concat_rest rest s'' = drop (length c - nat n) c @ concat_rest rest s'
      \<and> concat_ByteCount cnt s'' = concat_ByteCount cnt s' - n"
  proof (cases rule: concat_Next_loop_cases)
    case (End t)
    with s(2) show ?thesis by (simp add: concat_Next_def)
  next
    case (Data x c' x' ys r')
    with s(2) have c: "c' = c" "s' = mk (x' # ys) r'" by (auto simp: concat_Next_def)
    from backup_nxt [OF Data(2,3), of n] n obtain x'' where
      b: "backup n x' = Some x''" "inv x''" "rest x'' = drop (length c - nat n) c @ rest x'"
        "cnt x'' = cnt x' - n" unfolding c by blast
    from concat_head [OF Data(4) b(2)] b show ?thesis
      by (auto simp: c concat_BackUp_def concat_rest_def)
  qed
next
  fix s
  assume s: "concat_inv inv cnt s"
  obtain xs r where [simp]: "s = mk xs r" by (cases s) auto
  from s concat_Skip_loop_zero [of xs r]
  show "\<exists>b s'. concat_Skip skip cnt 0 s = Some (b, s') \<and> concat_inv inv cnt s'
      \<and> concat_rest rest s' = concat_rest rest s \<and> concat_ByteCount cnt s' = concat_ByteCount cnt s
      \<and> (b \<or> concat_rest rest s = [])"
    by (simp add: concat_Skip_def)
next
  fix s and n :: int
  assume s: "concat_inv inv cnt s" "0 < n"
  obtain xs r where [simp]: "s = mk xs r" by (cases s) auto
  from s concat_Skip_loop_rest [of xs r n]
  show "\<exists>s'. concat_Skip skip cnt n s = Some (n \<le> int (length (concat_rest rest s)), s')
      \<and> concat_inv inv cnt s' \<and> concat_rest rest s' = drop (nat n) (concat_rest rest s)
      \<and> concat_ByteCount cnt s' = concat_ByteCount cnt s + min n (int (length (concat_rest rest s)))"
    by (simp add: concat_Skip_def)
qed

interpretation concatenated_array: concatenated array_Next array_BackUp array_Skip array_ByteCount
    array_inv array_rest
  by unfold_locales

lemma concat_open:
  assumes "list_all okay xs" and "list_all (\<lambda>x. cnt x = 0) xs"
  shows "concat_inv okay cnt (ConcatenatingInputStream xs)"
    and "concat_rest rest (ConcatenatingInputStream xs) = concat (map rest xs)"
    and "concat_ByteCount cnt (ConcatenatingInputStream xs) = 0"
  using assms by (cases xs; auto simp: concat_inv_def concat_rest_def concat_ByteCount_def
      ConcatenatingInputStream_def)+

end
