(* ===== verification/Limiting_Input.thy ===== *)
theory Limiting_Input
  imports Input_Streams
begin

section \<open>LimitingInputStream\<close>

text \<open>
  \<open>LimitingInputStream\<close> (file \<open>io/zero_copy_stream_impl_lite.cc\<close>): a view of the first
  \<open>limit\<close> bytes of another stream. The operations of the wrapped stream are arguments. The
  last buffer of the wrapped stream may overshoot the limit; then \<open>limit_\<close> is negative, the
  excess is hidden from the caller, and the destructor backs up over it.
\<close>

record 's limiting_input =
  li_input :: 's
  li_limit :: int
  li_prior :: int

definition LimitingInputStream :: "('s \<Rightarrow> int) \<Rightarrow> 's \<Rightarrow> int \<Rightarrow> 's limiting_input" where
  "LimitingInputStream cnt input limit =
     \<lparr>li_input = input, li_limit = limit, li_prior = cnt input\<rparr>"

definition limiting_destroy :: "'s backup_op \<Rightarrow> 's limiting_input \<Rightarrow> 's option" where
  "limiting_destroy backup s =
     (if li_limit s < 0 then backup (- li_limit s) (li_input s) else Some (li_input s))"

definition limiting_Next :: "'s next_op \<Rightarrow> 's limiting_input next_op" where
  "limiting_Next nxt s =
     (if li_limit s \<le> 0 then Some (None, s)
      else do {
        (r, i) \<leftarrow> nxt (li_input s);
        case r of
          None \<Rightarrow> Some (None, s\<lparr>li_input := i\<rparr>)
        | Some c \<Rightarrow>
            let l = li_limit s - int (length c)
            in Some (Some (if l < 0 then take (nat (int (length c) + l)) c else c),
                     s\<lparr>li_input := i, li_limit := l\<rparr>) })"

definition limiting_BackUp :: "'s backup_op \<Rightarrow> 's limiting_input backup_op" where
  "limiting_BackUp backup count s =
     (if li_limit s < 0
      then do { i \<leftarrow> backup (count - li_limit s) (li_input s);
                Some (s\<lparr>li_input := i, li_limit := count\<rparr>) }
      else do { i \<leftarrow> backup count (li_input s);
                Some (s\<lparr>li_input := i, li_limit := li_limit s + count\<rparr>) })"

definition limiting_Skip :: "'s skip_op \<Rightarrow> 's limiting_input skip_op" where
  "limiting_Skip skip count s =
     (if count > li_limit s
      then if li_limit s < 0 then Some (False, s)
           else do { (_, i) \<leftarrow> skip (li_limit s) (li_input s);
                     Some (False, s\<lparr>li_input := i, li_limit := 0\<rparr>) }
      else do { (b, i) \<leftarrow> skip count (li_input s);
                if \<not> b then Some (False, s\<lparr>li_input := i\<rparr>)
                else Some (True, s\<lparr>li_input := i, li_limit := li_limit s - count\<rparr>) })"

definition limiting_ByteCount :: "('s \<Rightarrow> int) \<Rightarrow> 's limiting_input \<Rightarrow> int" where
  "limiting_ByteCount cnt s =
     (if li_limit s < 0 then cnt (li_input s) + li_limit s - li_prior s
      else cnt (li_input s) - li_prior s)"

text \<open>\<open>rcord\<close> is the virtual \<open>ReadCord\<close> of the wrapped stream.\<close>

type_synonym 's rcord_op = "string \<Rightarrow> int \<Rightarrow> 's \<Rightarrow> (bool \<times> string \<times> 's) option"

definition limiting_ReadCord :: "'s rcord_op \<Rightarrow> 's limiting_input rcord_op" where
  "limiting_ReadCord rcord cord count s =
     (if count \<le> 0 then Some (True, cord, s)
      else if count \<le> li_limit s
      then do { (b, cord, i) \<leftarrow> rcord cord count (li_input s);
                if \<not> b then Some (False, cord, s\<lparr>li_input := i\<rparr>)
                else Some (True, cord, s\<lparr>li_input := i, li_limit := li_limit s - count\<rparr>) }
      else do { (_, cord, i) \<leftarrow> rcord cord (li_limit s) (li_input s);
                Some (False, cord, s\<lparr>li_input := i, li_limit := 0\<rparr>) })"

subsection \<open>The bytes of the wrapped stream\<close>

text \<open>
  \<open>limiting_pos s r\<close>: once the limiting stream is destroyed, the wrapped stream will have the
  bytes \<open>r\<close> left. After an overshoot these start with the hidden end of the last buffer.
\<close>

definition limiting_pos :: "('s \<Rightarrow> bool) \<Rightarrow> 's next_op \<Rightarrow> ('s \<Rightarrow> string) \<Rightarrow> 's limiting_input \<Rightarrow> string \<Rightarrow> bool" where
  "limiting_pos okay nxt rest s r \<longleftrightarrow>
     (if li_limit s < 0
      then \<exists>s0 c. okay s0 \<and> nxt s0 = Some (Some c, li_input s) \<and> - li_limit s < int (length c)
             \<and> r = drop (length c - nat (- li_limit s)) c @ rest (li_input s)
      else okay (li_input s) \<and> r = rest (li_input s))"

definition limiting_inv ::
  "('s \<Rightarrow> bool) \<Rightarrow> 's next_op \<Rightarrow> ('s \<Rightarrow> string) \<Rightarrow> ('s \<Rightarrow> int) \<Rightarrow> string \<Rightarrow> 's limiting_input \<Rightarrow> bool" where
  "limiting_inv okay nxt rest cnt data s \<longleftrightarrow> 0 \<le> limiting_ByteCount cnt s
     \<and> limiting_pos okay nxt rest s (drop (nat (limiting_ByteCount cnt s)) data)"

definition limiting_rest :: "('s \<Rightarrow> string) \<Rightarrow> 's limiting_input \<Rightarrow> string" where
  "limiting_rest rest s = take (nat (li_limit s)) (rest (li_input s))"

lemma limiting_rest_neg [simp]: "li_limit s \<le> 0 \<Longrightarrow> limiting_rest rest s = []"
  by (simp add: limiting_rest_def)

locale limited = zero_copy_input nxt backup skip cnt inv rest
  for nxt :: "'s \<Rightarrow> (string option \<times> 's) option" and backup :: "int \<Rightarrow> 's \<Rightarrow> 's option"
    and skip :: "int \<Rightarrow> 's \<Rightarrow> (bool \<times> 's) option" and cnt :: "'s \<Rightarrow> int"
    and inv :: "'s \<Rightarrow> bool" and rest :: "'s \<Rightarrow> string" +
  fixes data :: string
begin

lemma limiting_open:
  assumes "inv i" and "0 \<le> limit" and "data = rest i"
  shows "limiting_inv inv nxt rest cnt data (LimitingInputStream cnt i limit)"
    and "limiting_rest rest (LimitingInputStream cnt i limit) = take (nat limit) data"
    and "limiting_ByteCount cnt (LimitingInputStream cnt i limit) = 0"
  using assms by (simp_all add: limiting_inv_def limiting_pos_def limiting_rest_def
      LimitingInputStream_def limiting_ByteCount_def)

lemma limiting_posI:
  assumes "0 \<le> li_limit s" and "limiting_inv inv nxt rest cnt data s"
  shows "inv (li_input s)" and "0 \<le> cnt (li_input s) - li_prior s"
    and "rest (li_input s) = drop (nat (cnt (li_input s) - li_prior s)) data"
  using assms by (simp_all add: limiting_inv_def limiting_pos_def limiting_ByteCount_def)

text \<open>The new invariant, from what the wrapped stream did.\<close>

lemma limiting_invI:
  assumes "inv i'" and "0 \<le> l" and "0 \<le> cnt i - p" and "rest i = drop (nat (cnt i - p)) data"
    and "rest i' = drop k (rest i)" and "cnt i' = cnt i + int (min k (length (rest i)))"
  shows "limiting_inv inv nxt rest cnt data \<lparr>li_input = i', li_limit = l, li_prior = p\<rparr>"
proof -
  have "nat (cnt i' - p) = nat (cnt i - p) + min k (length (rest i))"
    using assms(3,6) by auto
  moreover have "drop (min k (length (rest i))) (rest i) = drop k (rest i)"
    by (simp add: min_def)
  ultimately have "rest i' = drop (nat (cnt i' - p)) data"
    using assms(4,5) by (metis add.commute drop_drop)
  then show ?thesis
    using assms(1,2,3,6) by (simp add: limiting_inv_def limiting_pos_def limiting_ByteCount_def)
qed

lemma limiting_destroy_rest:
  assumes "limiting_inv inv nxt rest cnt data s"
  shows "\<exists>i. limiting_destroy backup s = Some i \<and> inv i
      \<and> rest i = drop (nat (limiting_ByteCount cnt s)) data
      \<and> cnt i = li_prior s + limiting_ByteCount cnt s"
proof (cases "li_limit s < 0")
  case False
  with assms show ?thesis
    by (auto simp: limiting_inv_def limiting_pos_def limiting_destroy_def limiting_ByteCount_def)
next
  case True
  with assms obtain s0 c where s0: "inv s0" "nxt s0 = Some (Some c, li_input s)"
    "- li_limit s < int (length c)"
    "drop (nat (limiting_ByteCount cnt s)) data = drop (length c - nat (- li_limit s)) c @ rest (li_input s)"
    by (auto simp: limiting_inv_def limiting_pos_def)
  from backup_nxt [OF s0(1,2), of "- li_limit s"] True s0(3) obtain i where
    "backup (- li_limit s) (li_input s) = Some i" "inv i"
    "rest i = drop (length c - nat (- li_limit s)) c @ rest (li_input s)"
    "cnt i = cnt (li_input s) - (- li_limit s)"
    by auto
  with True s0(4) show ?thesis by (auto simp: limiting_destroy_def limiting_ByteCount_def)
qed

lemma limiting_Next_end:
  assumes "limiting_inv inv nxt rest cnt data s" and "limiting_rest rest s = []"
  shows "\<exists>s'. limiting_Next nxt s = Some (None, s') \<and> limiting_inv inv nxt rest cnt data s'
      \<and> limiting_rest rest s' = [] \<and> limiting_ByteCount cnt s' = limiting_ByteCount cnt s"
proof (cases "li_limit s \<le> 0")
  case True
  with assms show ?thesis by (simp add: limiting_Next_def)
next
  case False
  with assms have i: "inv (li_input s)" "rest (li_input s) = []"
    by (simp_all add: limiting_inv_def limiting_pos_def limiting_rest_def)
  from nxt_end [OF i] obtain i' where
    n: "nxt (li_input s) = Some (None, i')" "inv i'" "rest i' = []" "cnt i' = cnt (li_input s)" by blast
  then have "limiting_Next nxt s = Some (None, s\<lparr>li_input := i'\<rparr>)"
    using False by (simp add: limiting_Next_def)
  moreover have "limiting_inv inv nxt rest cnt data (s\<lparr>li_input := i'\<rparr>)"
    using assms(1) False i n by (simp add: limiting_inv_def limiting_pos_def limiting_ByteCount_def)
  ultimately show ?thesis using n by (simp add: limiting_rest_def limiting_ByteCount_def)
qed

text \<open>A successful \<open>Next()\<close> of the wrapped stream, without and with an overshoot.\<close>

lemma limiting_Next_cases:
  assumes "limiting_inv inv nxt rest cnt data s" and "limiting_Next nxt s = Some (Some v, s')"
  obtains c where "0 < li_limit s" "nxt (li_input s) = Some (Some c, li_input s')"
    "li_limit s' = li_limit s - int (length c)" "li_prior s' = li_prior s"
    "v = (if li_limit s' < 0 then take (nat (li_limit s)) c else c)"
proof -
  have l: "\<not> li_limit s \<le> 0" using assms(2) by (auto simp: limiting_Next_def)
  with assms(2) obtain r i where r: "nxt (li_input s) = Some (r, i)"
    by (cases "nxt (li_input s)") (auto simp: limiting_Next_def)
  with assms(2) l obtain c where "r = Some c"
    by (cases r) (auto simp: limiting_Next_def)
  moreover from r l assms(2) this
  have "v = (if li_limit s - int (length c) < 0 then take (nat (li_limit s)) c else c)"
    "s' = s\<lparr>li_input := i, li_limit := li_limit s - int (length c)\<rparr>"
    by (auto simp: limiting_Next_def Let_def)
  ultimately show ?thesis using r l that [of c] by simp
qed

lemma limiting_Next_data:
  assumes "limiting_inv inv nxt rest cnt data s" and "limiting_rest rest s \<noteq> []"
  shows "\<exists>c s'. limiting_Next nxt s = Some (Some c, s') \<and> limiting_inv inv nxt rest cnt data s' \<and> c \<noteq> []
      \<and> limiting_rest rest s = c @ limiting_rest rest s'
      \<and> limiting_ByteCount cnt s' = limiting_ByteCount cnt s + int (length c)"
proof -
  have l: "0 < li_limit s" using assms(2) by (rule contrapos_np) simp
  note i = limiting_posI [OF less_imp_le [OF l] assms(1)]
  have "rest (li_input s) \<noteq> []" using assms(2) by (auto simp: limiting_rest_def)
  from nxt_data [OF i(1) this] obtain c i' where
    c: "nxt (li_input s) = Some (Some c, i')" "inv i'" "c \<noteq> []" "rest (li_input s) = c @ rest i'"
      "cnt i' = cnt (li_input s) + int (length c)" by blast
  define l' where "l' = li_limit s - int (length c)"
  let ?s' = "s\<lparr>li_input := i', li_limit := l'\<rparr>"
  show ?thesis
  proof (cases "l' < 0")
    case False
    have "limiting_Next nxt s = Some (Some c, ?s')"
      using l c(1) False by (simp add: limiting_Next_def l'_def)
    moreover have "limiting_inv inv nxt rest cnt data \<lparr>li_input = i', li_limit = l', li_prior = li_prior s\<rparr>"
      by (rule limiting_invI [OF c(2) _ i(2,3), of _ "length c"]) (use False c(4,5) in simp_all)
    then have "limiting_inv inv nxt rest cnt data ?s'" by (cases s) simp
    moreover have "limiting_rest rest s = c @ limiting_rest rest ?s'"
      using c(4) False l by (simp add: limiting_rest_def l'_def nat_diff_distrib')
    ultimately show ?thesis
      using c(3,5) l False by (intro exI [of _ c] exI [of _ ?s']) (simp add: limiting_ByteCount_def)
  next
    case True
    define v where "v = take (nat (li_limit s)) c"
    have v: "int (length v) = li_limit s" "v \<noteq> []" using True l c(3) by (auto simp: v_def l'_def)
    have "limiting_Next nxt s = Some (Some v, ?s')"
      using l c(1) True by (simp add: limiting_Next_def l'_def v_def)
    moreover have bc: "limiting_ByteCount cnt ?s' = limiting_ByteCount cnt s + int (length v)"
      using True l c(5) v(1) by (simp add: limiting_ByteCount_def l'_def)
    moreover have "limiting_inv inv nxt rest cnt data ?s'"
    proof -
      let ?k = "cnt (li_input s) - li_prior s"
      have "drop (nat (?k + li_limit s)) data = drop (nat (li_limit s)) (rest (li_input s))"
        using i(2,3) l by (simp add: nat_add_distrib add.commute)
      also have "\<dots> = drop (length c - nat (- l')) c @ rest i'"
        using True l unfolding l'_def c(4) by (simp add: nat_diff_distrib')
      finally have "limiting_pos inv nxt rest ?s' (drop (nat (?k + li_limit s)) data)"
        using True l i(1) c(1) unfolding limiting_pos_def l'_def by auto
      then show ?thesis
        using bc i(2) l v(1) by (simp add: limiting_inv_def limiting_ByteCount_def)
    qed
    moreover have "limiting_rest rest s = v @ limiting_rest rest ?s'"
      using c(4) True l by (simp add: limiting_rest_def v_def l'_def)
    ultimately show ?thesis using v(2) by blast
  qed
qed

lemma limiting_BackUp_nxt:
  assumes s: "limiting_inv inv nxt rest cnt data s" "limiting_Next nxt s = Some (Some v, s')"
    and n: "0 \<le> n" "n \<le> int (length v)"
  shows "\<exists>s''. limiting_BackUp backup n s' = Some s'' \<and> limiting_inv inv nxt rest cnt data s''
      \<and> limiting_rest rest s'' = drop (length v - nat n) v @ limiting_rest rest s'
      \<and> limiting_ByteCount cnt s'' = limiting_ByteCount cnt s' - n"
  using s
proof (rule limiting_Next_cases)
  fix c
  assume c: "0 < li_limit s" "nxt (li_input s) = Some (Some c, li_input s')"
    "li_limit s' = li_limit s - int (length c)" "li_prior s' = li_prior s"
    "v = (if li_limit s' < 0 then take (nat (li_limit s)) c else c)"
  note i = limiting_posI [OF less_imp_le [OF c(1)] s(1)]
  note i' = nxt_SomeD [OF i(1) c(2)]
  define m where "m = (if li_limit s' < 0 then n - li_limit s' else n)"
  have m: "0 \<le> m" "m \<le> int (length c)" using c n by (auto simp: m_def split: if_splits)
  from nxt_then_backup [OF i(1) c(2) m] obtain i'' where
    b: "backup m (li_input s') = Some i''" "inv i''" "rest i'' = drop (length c - nat m) (rest (li_input s))"
      "cnt i'' = cnt (li_input s) + int (length c) - m" by blast
  define l where "l = (if li_limit s' < 0 then n else li_limit s' + n)"
  have l: "0 \<le> l" "l + (int (length c) - m) = li_limit s" using c n by (auto simp: l_def m_def)
  let ?s'' = "s'\<lparr>li_input := i'', li_limit := l\<rparr>"
  have "limiting_BackUp backup n s' = Some ?s''"
    using b(1) by (cases "li_limit s' < 0") (simp_all add: limiting_BackUp_def m_def l_def)
  moreover have "cnt i'' = cnt (li_input s) + int (min (length c - nat m) (length (rest (li_input s))))"
    using b(4) m i'(3) by simp
  from limiting_invI [OF b(2) l(1) i(2,3) b(3) this]
  have "limiting_inv inv nxt rest cnt data ?s''"
    using c(4) by (cases s') simp
  moreover have "limiting_ByteCount cnt ?s'' = limiting_ByteCount cnt s' - n"
    using b(4) i'(4) l by (simp add: limiting_ByteCount_def m_def)
  moreover have "limiting_rest rest ?s'' = drop (length v - nat n) v @ limiting_rest rest s'"
  proof -
    have "limiting_rest rest ?s'' = take (nat l) (drop (length c - nat m) c @ rest (li_input s'))"
      using b(3) i'(3) by (simp add: limiting_rest_def)
    also have "\<dots> = drop (length v - nat n) v @ limiting_rest rest s'"
    proof (cases "li_limit s' < 0")
      case True
      then have "l = n" "length c - nat m = length v - nat n" "v = take (nat (li_limit s)) c" "length v = nat (li_limit s)" "nat n \<le> length v"
        using c n by (auto simp: l_def m_def)
      moreover have "length c - (length v - nat n) \<ge> nat n"
        using calculation(5) True c(5) by (simp del: min_less_iff_conj)
      ultimately show ?thesis using True n(1) by (simp add: take_drop)
    next
      case False
      then have "v = c" "m = n" "nat l = nat n + nat (li_limit s')" "nat n \<le> length c"
        using c n by (simp_all add: m_def l_def nat_add_distrib)
      then show ?thesis using False by (simp add: limiting_rest_def)
    qed
    finally show ?thesis .
  qed
  ultimately show ?thesis by blast
qed

lemma limiting_Skip_rest:
  assumes s: "limiting_inv inv nxt rest cnt data s" and n: "0 < n"
  shows "\<exists>s'. limiting_Skip skip n s = Some (n \<le> int (length (limiting_rest rest s)), s')
      \<and> limiting_inv inv nxt rest cnt data s'
      \<and> limiting_rest rest s' = drop (nat n) (limiting_rest rest s)
      \<and> limiting_ByteCount cnt s' = limiting_ByteCount cnt s + min n (int (length (limiting_rest rest s)))"
proof (cases "li_limit s < 0")
  case True
  with s n show ?thesis by (auto simp: limiting_Skip_def)
next
  case False
  then have l: "0 \<le> li_limit s" by simp
  note i = limiting_posI [OF l s]
  let ?k = "min n (li_limit s)"
  obtain b i' where k: "skip ?k (li_input s) = Some (b, i')" "inv i'"
    "rest i' = drop (nat ?k) (rest (li_input s))"
    "cnt i' = cnt (li_input s) + int (min (nat ?k) (length (rest (li_input s))))"
    "n \<le> li_limit s \<longrightarrow> b = (n \<le> int (length (rest (li_input s))))"
  proof (cases "?k = 0")
    case True
    then have "\<not> n \<le> li_limit s" using n l by auto
    with True skip_zero [OF i(1)] that show ?thesis by auto
  next
    case False
    with l n have "0 < ?k" by auto
    then have "int (min (nat ?k) m) = min ?k (int m)" for m by linarith
    moreover have "n \<le> li_limit s \<longrightarrow> ?k = n" by simp
    ultimately show ?thesis using skip_rest [OF i(1) \<open>0 < ?k\<close>] that by metis
  qed
  have len: "int (length (limiting_rest rest s)) = min (li_limit s) (int (length (rest (li_input s))))"
    using l by (simp add: limiting_rest_def)
  define l' where "l' = (if n > li_limit s then 0 else if b then li_limit s - n else li_limit s)"
  let ?s' = "s\<lparr>li_input := i', li_limit := l'\<rparr>"
  have l': "0 \<le> l'" using l by (simp add: l'_def)
  have "limiting_Skip skip n s = Some (n \<le> int (length (limiting_rest rest s)), ?s')"
    using k(1,5) n False unfolding len limiting_Skip_def l'_def by (cases s) auto
  moreover have "limiting_inv inv nxt rest cnt data ?s'"
    using limiting_invI [OF k(2) l' i(2,3) k(3,4)] by (cases s) simp
  moreover have "limiting_rest rest ?s' = drop (nat n) (limiting_rest rest s)"
    using k(3,5) n l by (auto simp: limiting_rest_def l'_def drop_take nat_diff_distrib' min_def)
  moreover have "limiting_ByteCount cnt ?s' = limiting_ByteCount cnt s
      + min n (int (length (limiting_rest rest s)))"
  proof -
    have "int (min (nat ?k) m) = min n (min (li_limit s) (int m))" for m using n l by linarith
    with k(4) l l' show ?thesis unfolding len limiting_ByteCount_def by simp
  qed
  ultimately show ?thesis by blast
qed

lemma limiting_Skip_zero:
  assumes s: "limiting_inv inv nxt rest cnt data s"
  shows "\<exists>b s'. limiting_Skip skip 0 s = Some (b, s') \<and> limiting_inv inv nxt rest cnt data s'
      \<and> limiting_rest rest s' = limiting_rest rest s
      \<and> limiting_ByteCount cnt s' = limiting_ByteCount cnt s \<and> (b \<or> limiting_rest rest s = [])"
proof (cases "li_limit s < 0")
  case True
  with s show ?thesis by (auto simp: limiting_Skip_def)
next
  case False
  then have l: "0 \<le> li_limit s" by simp
  note i = limiting_posI [OF l s]
  obtain b i' where k: "skip 0 (li_input s) = Some (b, i')" "inv i'" "rest i' = rest (li_input s)"
    "cnt i' = cnt (li_input s)" "b \<or> rest (li_input s) = []"
    using skip_zero [OF i(1)] by blast
  let ?s' = "s\<lparr>li_input := i'\<rparr>"
  have "limiting_Skip skip 0 s = Some (b, ?s')"
    using k(1) l by (cases s) (auto simp: limiting_Skip_def)
  moreover have "limiting_inv inv nxt rest cnt data ?s'"
    using s k l by (simp add: limiting_inv_def limiting_pos_def limiting_ByteCount_def)
  ultimately show ?thesis using k l by (auto simp: limiting_rest_def limiting_ByteCount_def)
qed

end

sublocale limited \<subseteq> lim: zero_copy_input "limiting_Next nxt" "limiting_BackUp backup"
    "limiting_Skip skip" "limiting_ByteCount cnt" "limiting_inv inv nxt rest cnt data" "limiting_rest rest"
  by unfold_locales
     (fact limiting_Next_end limiting_Next_data limiting_BackUp_nxt limiting_Skip_zero limiting_Skip_rest)+

context limited begin

text \<open>
  A client of the limiting stream sees the first \<open>limit\<close> bytes, and once the limiting stream is
  destroyed the wrapped stream goes on right behind the bytes the client consumed.
\<close>

lemma limiting_run:
  assumes "inv i" and "0 \<le> limit" and "data = rest i"
  shows "\<exists>es s' i'. run_cmds (limiting_Next nxt) (limiting_BackUp backup) (limiting_Skip skip)
        (limiting_ByteCount cnt) cmds (LimitingInputStream cnt i limit) = Some (es, s')
      \<and> events_ok (take (nat limit) (rest i)) es
      \<and> limiting_destroy backup s' = Some i'
      \<and> rest i' = drop (nat (limiting_ByteCount cnt s')) (rest i)
      \<and> 0 \<le> limiting_ByteCount cnt s'"
proof -
  note o = limiting_open [OF assms]
  obtain es s' where
    "run_cmds (limiting_Next nxt) (limiting_BackUp backup) (limiting_Skip skip)
        (limiting_ByteCount cnt) cmds (LimitingInputStream cnt i limit) = Some (es, s')"
    "limiting_inv inv nxt rest cnt data s'" "0 \<le> limiting_ByteCount cnt s'"
    "events_ok (take (nat limit) (rest i)) es"
    using lim.run_cmds_rest [OF o(1,3), of cmds] o(2) assms(3) by auto
  moreover obtain i' where "limiting_destroy backup s' = Some i'"
    "rest i' = drop (nat (limiting_ByteCount cnt s')) (rest i)"
    using limiting_destroy_rest [OF calculation(2)] assms(3) by auto
  ultimately show ?thesis by blast
qed

end

interpretation limited_array: limited array_Next array_BackUp array_Skip array_ByteCount
    array_inv array_rest data
  for data by unfold_locales

end
