(* ===== verification/Cord_Input.thy ===== *)
theory Cord_Input
  imports Limiting_Input
begin

section \<open>CordInputStream\<close>

text \<open>
  \<open>CordInputStream\<close> (file \<open>io/zero_copy_stream_impl_lite.cc\<close>). \<open>absl::Cord\<close> is not part of
  the repository. A cord is its content together with a function that says how many bytes from
  an offset on are contiguous in memory, which is all \<open>Cord::ChunkRemaining\<close> reveals; the
  documented behaviour \<open>cord_ok\<close> is that a chunk is never empty before the end. An iterator is
  an offset, \<open>Advance\<close> adds to it, and \<open>AdvanceAndRead\<close> also returns the bytes passed. The
  cast of a 32-bit \<open>int\<close> argument to \<open>size_t\<close> adds \<open>2 ^ 64\<close> to a negative one.
\<close>

record absl_cord =
  cord_content :: string
  cord_run :: "int \<Rightarrow> int"

definition cord_ok :: "absl_cord \<Rightarrow> bool" where
  "cord_ok c \<longleftrightarrow>
     (\<forall>p. 0 \<le> p \<longrightarrow> p < int (length (cord_content c))
        \<longrightarrow> 0 < cord_run c p \<and> p + cord_run c p \<le> int (length (cord_content c)))
     \<and> int (length (cord_content c)) < 2 ^ 63"

definition ChunkRemaining :: "absl_cord \<Rightarrow> int \<Rightarrow> string" where
  "ChunkRemaining c it = take (nat (cord_run c it)) (drop (nat it) (cord_content c))"

definition AdvanceAndRead :: "absl_cord \<Rightarrow> int \<Rightarrow> int \<Rightarrow> string \<times> int" where
  "AdvanceAndRead c it n = (take (nat n) (drop (nat it) (cord_content c)), it + n)"

definition to_size :: "int \<Rightarrow> int" where
  "to_size n = (if n < 0 then n + 2 ^ 64 else n)"

record cord_input =
  co_cord :: absl_cord
  co_it :: int
  co_length :: int
  co_bytes_remaining :: int
  co_data :: string
  co_size :: int
  co_available :: int

definition cord_LoadChunkData :: "cord_input \<Rightarrow> bool \<times> cord_input" where
  "cord_LoadChunkData s =
     (if co_bytes_remaining s \<noteq> 0
      then let sv = ChunkRemaining (co_cord s) (co_it s)
           in (True, s\<lparr>co_data := sv, co_size := int (length sv), co_available := int (length sv)\<rparr>)
      else (False, s\<lparr>co_size := 0, co_available := 0\<rparr>))"

definition CordInputStream :: "absl_cord \<Rightarrow> cord_input" where
  "CordInputStream c =
     snd (cord_LoadChunkData
       \<lparr>co_cord = c, co_it = 0, co_length = int (length (cord_content c)),
        co_bytes_remaining = int (length (cord_content c)),
        co_data = [], co_size = 0, co_available = 0\<rparr>)"

definition cord_NextChunk :: "int \<Rightarrow> cord_input \<Rightarrow> bool \<times> cord_input" where
  "cord_NextChunk skip s =
     (if co_size s = 0 then (False, s)
      else let distance = co_size s - co_available s + skip
           in cord_LoadChunkData
                (s\<lparr>co_it := co_it s + distance, co_bytes_remaining := co_bytes_remaining s - skip\<rparr>))"

definition cord_Next :: "cord_input next_op" where
  "cord_Next s =
     (let (b, s) = (if co_available s > 0 then (True, s) else cord_NextChunk 0 s)
      in if b
         then Some (Some (take (nat (co_available s)) (drop (nat (co_size s - co_available s)) (co_data s))),
                    s\<lparr>co_bytes_remaining := co_bytes_remaining s - co_available s, co_available := 0\<rparr>)
         else Some (None, s))"

definition cord_BackUp :: "cord_input backup_op" where
  "cord_BackUp count s =
     (if \<not> to_size count \<le> co_size s - co_available s then None
      else Some (s\<lparr>co_available := co_available s + count,
                   co_bytes_remaining := co_bytes_remaining s + count\<rparr>))"

definition cord_Skip :: "cord_input skip_op" where
  "cord_Skip count s =
     (if to_size count \<le> co_available s
      then Some (True, s\<lparr>co_available := co_available s - count,
                         co_bytes_remaining := co_bytes_remaining s - count\<rparr>)
      else if to_size count \<le> co_bytes_remaining s
      then Some (True, snd (cord_NextChunk count s))
      else Some (False, snd (cord_NextChunk (co_bytes_remaining s) s)))"

definition cord_ByteCount :: "cord_input \<Rightarrow> int" where
  "cord_ByteCount s = co_length s - co_bytes_remaining s"

definition cord_ReadCord :: "cord_input rcord_op" where
  "cord_ReadCord cord count s =
     (let used = co_size s - co_available s;
          it = co_it s + used;
          n = min (to_size count) (co_bytes_remaining s);
          (bytes, it) = AdvanceAndRead (co_cord s) it n;
          (_, s) = cord_LoadChunkData (s\<lparr>co_it := it, co_bytes_remaining := co_bytes_remaining s - n\<rparr>)
      in Some (n = to_size count, cord @ bytes, s))"

text \<open>
  The invariant: the chunk in hand stands at the iterator, and what remains is what follows the
  used part of it. A size of zero is the end of the cord.
\<close>

definition cord_inv :: "cord_input \<Rightarrow> bool" where
  "cord_inv s \<longleftrightarrow> cord_ok (co_cord s) \<and> co_length s = int (length (cord_content (co_cord s)))
     \<and> 0 \<le> co_it s \<and> 0 \<le> co_available s \<and> co_available s \<le> co_size s
     \<and> co_bytes_remaining s = co_length s - (co_it s + (co_size s - co_available s))
     \<and> co_it s + co_size s \<le> co_length s
     \<and> (co_size s = 0 \<longrightarrow> co_bytes_remaining s = 0)
     \<and> (0 < co_size s \<longrightarrow> co_data s = take (nat (co_size s)) (drop (nat (co_it s)) (cord_content (co_cord s))))"

definition cord_rest :: "cord_input \<Rightarrow> string" where
  "cord_rest s = drop (nat (co_length s - co_bytes_remaining s)) (cord_content (co_cord s))"

lemma to_size_nonneg [simp]: "0 \<le> n \<Longrightarrow> to_size n = n"
  by (simp add: to_size_def)

lemma cord_Load_inv:
  assumes "cord_ok (co_cord s)" and "co_length s = int (length (cord_content (co_cord s)))"
    and "0 \<le> co_it s" and "0 \<le> co_bytes_remaining s" and "co_bytes_remaining s = co_length s - co_it s"
  shows "\<exists>s'. cord_LoadChunkData s = (co_bytes_remaining s \<noteq> 0, s') \<and> cord_inv s'
      \<and> co_cord s' = co_cord s \<and> co_length s' = co_length s
      \<and> co_bytes_remaining s' = co_bytes_remaining s \<and> co_available s' = co_size s'
      \<and> (co_bytes_remaining s \<noteq> 0 \<longrightarrow> 0 < co_size s')"
proof (cases "co_bytes_remaining s = 0")
  case True
  with assms show ?thesis by (auto simp: cord_LoadChunkData_def cord_inv_def)
next
  case False
  let ?sv = "ChunkRemaining (co_cord s) (co_it s)"
  have r: "0 < cord_run (co_cord s) (co_it s)"
    "co_it s + cord_run (co_cord s) (co_it s) \<le> co_length s"
    using assms False by (auto simp: cord_ok_def)
  then have l: "int (length ?sv) = cord_run (co_cord s) (co_it s)"
    using assms by (simp add: ChunkRemaining_def)
  moreover have "?sv = take (nat (cord_run (co_cord s) (co_it s))) (drop (nat (co_it s)) (cord_content (co_cord s)))"
    by (simp add: ChunkRemaining_def)
  moreover note r
  ultimately show ?thesis
    using False assms by (auto simp: cord_LoadChunkData_def Let_def cord_inv_def)
qed

lemma CordInputStream_open:
  assumes "cord_ok c"
  shows "cord_inv (CordInputStream c)" and "cord_rest (CordInputStream c) = cord_content c"
    and "cord_ByteCount (CordInputStream c) = 0"
  using cord_Load_inv [of "\<lparr>co_cord = c, co_it = 0, co_length = int (length (cord_content c)),
        co_bytes_remaining = int (length (cord_content c)),
        co_data = [], co_size = 0, co_available = 0\<rparr>"] assms
  by (auto simp: CordInputStream_def cord_rest_def cord_ByteCount_def)

lemma cord_rest_length: "cord_inv s \<Longrightarrow> int (length (cord_rest s)) = co_bytes_remaining s"
  by (auto simp: cord_inv_def cord_rest_def)

lemma cord_rest_advance:
  assumes "cord_inv s" and "co_cord t = co_cord s" and "0 \<le> k"
    and "co_length t - co_bytes_remaining t = (co_length s - co_bytes_remaining s) + k"
  shows "cord_rest t = drop (nat k) (cord_rest s)"
proof -
  have "0 \<le> co_length s - co_bytes_remaining s" using assms(1) by (auto simp: cord_inv_def)
  then have "nat (co_length t - co_bytes_remaining t) = nat k + nat (co_length s - co_bytes_remaining s)"
    using assms(3,4) by linarith
  then show ?thesis by (simp only: cord_rest_def assms(2) drop_drop)
qed

lemma cord_Load_advance:
  assumes "cord_inv s" and "0 \<le> k" and "k \<le> co_bytes_remaining s"
  shows "\<exists>t. cord_LoadChunkData (s\<lparr>co_it := co_it s + (co_size s - co_available s + k),
                co_bytes_remaining := co_bytes_remaining s - k\<rparr>) = (co_bytes_remaining s - k \<noteq> 0, t)
      \<and> cord_inv t \<and> co_cord t = co_cord s \<and> co_length t = co_length s
      \<and> co_bytes_remaining t = co_bytes_remaining s - k \<and> co_available t = co_size t
      \<and> (co_bytes_remaining t \<noteq> 0 \<longrightarrow> 0 < co_size t)"
proof -
  let ?t = "s\<lparr>co_it := co_it s + (co_size s - co_available s + k),
              co_bytes_remaining := co_bytes_remaining s - k\<rparr>"
  have i: "cord_ok (co_cord s)" "co_length s = int (length (cord_content (co_cord s)))" "0 \<le> co_it s"
    "co_available s \<le> co_size s" "co_bytes_remaining s = co_length s - (co_it s + (co_size s - co_available s))"
    using assms(1) by (simp_all add: cord_inv_def)
  have "cord_ok (co_cord ?t)" "co_length ?t = int (length (cord_content (co_cord ?t)))" "0 \<le> co_it ?t"
    "0 \<le> co_bytes_remaining ?t" "co_bytes_remaining ?t = co_length ?t - co_it ?t"
    using i assms(2,3) by simp_all
  from cord_Load_inv [OF this] show ?thesis by auto
qed

lemma cord_NextChunk_inv:
  assumes "cord_inv s" and "0 \<le> n" and "n \<le> co_bytes_remaining s"
  shows "\<exists>s'. cord_NextChunk n s = (co_size s \<noteq> 0 \<and> co_bytes_remaining s - n \<noteq> 0, s') \<and> cord_inv s'
      \<and> co_cord s' = co_cord s \<and> co_length s' = co_length s
      \<and> co_bytes_remaining s' = co_bytes_remaining s - n \<and> co_available s' = co_size s'
      \<and> (co_bytes_remaining s' \<noteq> 0 \<longrightarrow> 0 < co_size s')"
proof (cases "co_size s = 0")
  case True
  with assms show ?thesis by (auto simp: cord_NextChunk_def cord_inv_def)
next
  case False
  with cord_Load_advance [OF assms] show ?thesis by (auto simp: cord_NextChunk_def)
qed

text \<open>Handing out what is available of the chunk in hand.\<close>

lemma cord_take_available:
  assumes "cord_inv s" and "0 < co_available s"
  defines "c \<equiv> take (nat (co_available s)) (drop (nat (co_size s - co_available s)) (co_data s))"
  defines "s' \<equiv> s\<lparr>co_bytes_remaining := co_bytes_remaining s - co_available s, co_available := 0\<rparr>"
  shows "cord_inv s'" and "c = take (nat (co_available s)) (cord_rest s)"
    and "int (length c) = co_available s" and "cord_rest s' = drop (nat (co_available s)) (cord_rest s)"
    and "co_available s \<le> int (length (cord_rest s))"
proof -
  have u: "0 \<le> co_it s" "co_available s \<le> co_size s" "co_it s + co_size s \<le> co_length s"
    "co_length s - co_bytes_remaining s = co_it s + (co_size s - co_available s)"
    "co_data s = take (nat (co_size s)) (drop (nat (co_it s)) (cord_content (co_cord s)))"
    "co_length s = int (length (cord_content (co_cord s)))"
    using assms(1,2) by (auto simp: cord_inv_def)
  show "cord_inv s'" using assms(1,2) by (auto simp: cord_inv_def s'_def)
  have "c = take (nat (co_available s)) (take (nat (co_size s) - nat (co_size s - co_available s))
      (drop (nat (co_size s - co_available s)) (drop (nat (co_it s)) (cord_content (co_cord s)))))"
    by (simp add: c_def u(5) drop_take)
  also have "nat (co_size s) - nat (co_size s - co_available s) = nat (co_available s)"
    using u(2) assms(2) by simp
  also have "drop (nat (co_size s - co_available s)) (drop (nat (co_it s)) (cord_content (co_cord s))) = cord_rest s"
    using u by (simp add: cord_rest_def nat_add_distrib add.commute)
  finally show c: "c = take (nat (co_available s)) (cord_rest s)" by simp
  show l: "co_available s \<le> int (length (cord_rest s))"
    using cord_rest_length [OF assms(1)] u by simp
  show "int (length c) = co_available s" using c l assms(2) by simp
  show "cord_rest s' = drop (nat (co_available s)) (cord_rest s)"
    by (rule cord_rest_advance [OF assms(1)]) (use assms(2) in \<open>simp_all add: s'_def\<close>)
qed

lemma cord_Next_data:
  assumes "cord_inv s" and "cord_rest s \<noteq> []"
  shows "\<exists>t. cord_inv t \<and> 0 < co_available t \<and> cord_rest t = cord_rest s
      \<and> cord_ByteCount t = cord_ByteCount s
      \<and> cord_Next s = Some (Some (take (nat (co_available t)) (drop (nat (co_size t - co_available t)) (co_data t))),
                    t\<lparr>co_bytes_remaining := co_bytes_remaining t - co_available t, co_available := 0\<rparr>)"
proof (cases "0 < co_available s")
  case True
  with assms show ?thesis by (auto simp: cord_Next_def)
next
  case False
  have r: "co_bytes_remaining s \<noteq> 0" using cord_rest_length [OF assms(1)] assms(2) by auto
  then have z: "co_size s \<noteq> 0" "0 \<le> co_bytes_remaining s"
    using assms(1) by (auto simp: cord_inv_def)
  from cord_NextChunk_inv [OF assms(1), of 0] z r obtain t where
    "cord_NextChunk 0 s = (True, t)" "cord_inv t" "co_cord t = co_cord s" "co_length t = co_length s"
    "co_bytes_remaining t = co_bytes_remaining s" "co_available t = co_size t" "0 < co_size t"
    by auto
  then show ?thesis using False by (auto simp: cord_Next_def cord_rest_def cord_ByteCount_def)
qed

lemma cord_Next_end:
  assumes "cord_inv s" and "cord_rest s = []"
  shows "\<exists>s'. cord_Next s = Some (None, s') \<and> cord_inv s' \<and> cord_rest s' = []
      \<and> cord_ByteCount s' = cord_ByteCount s"
proof -
  have r: "co_bytes_remaining s = 0" using cord_rest_length [OF assms(1)] assms(2) by simp
  then have "co_available s = 0" using assms(1) by (auto simp: cord_inv_def)
  moreover from cord_NextChunk_inv [OF assms(1), of 0] r obtain t where
    "cord_NextChunk 0 s = (False, t)" "cord_inv t" "co_cord t = co_cord s" "co_length t = co_length s"
    "co_bytes_remaining t = 0"
    by auto
  ultimately show ?thesis
    using r assms(2) by (auto simp: cord_Next_def cord_rest_def cord_ByteCount_def)
qed

lemma cord_Skip_rest:
  assumes "cord_inv s" and "0 \<le> n"
  shows "\<exists>s'. cord_Skip n s = Some (n \<le> int (length (cord_rest s)), s') \<and> cord_inv s'
      \<and> cord_rest s' = drop (nat n) (cord_rest s)
      \<and> cord_ByteCount s' = cord_ByteCount s + min n (int (length (cord_rest s)))"
proof -
  note len = cord_rest_length [OF assms(1)]
  have b: "co_available s \<le> co_bytes_remaining s" "0 \<le> co_bytes_remaining s" "co_bytes_remaining s \<le> co_length s"
    using assms(1) by (auto simp: cord_inv_def)
  show ?thesis
  proof (cases "n \<le> co_available s")
    case True
    let ?t = "s\<lparr>co_available := co_available s - n, co_bytes_remaining := co_bytes_remaining s - n\<rparr>"
    have "cord_inv ?t" using True assms by (auto simp: cord_inv_def)
    moreover have "cord_rest ?t = drop (nat n) (cord_rest s)"
      by (rule cord_rest_advance [OF assms(1)]) (use assms(2) in simp_all)
    ultimately show ?thesis
      using True assms(2) b len by (auto simp: cord_Skip_def cord_ByteCount_def)
  next
    case False
    define k where "k = min n (co_bytes_remaining s)"
    have k: "0 \<le> k" "k \<le> co_bytes_remaining s" using assms(2) b by (auto simp: k_def)
    from cord_NextChunk_inv [OF assms(1) k] obtain t where
      t: "snd (cord_NextChunk k s) = t" "cord_inv t" "co_cord t = co_cord s" "co_length t = co_length s"
        "co_bytes_remaining t = co_bytes_remaining s - k"
      by auto
    have "cord_Skip n s = Some (n \<le> co_bytes_remaining s, t)"
      using False assms(2) t(1) by (auto simp: cord_Skip_def k_def min_def)
    moreover have "cord_rest t = drop (nat k) (cord_rest s)"
      by (rule cord_rest_advance [OF assms(1)]) (use k t in simp_all)
    moreover have "drop (nat k) (cord_rest s) = drop (nat n) (cord_rest s)"
      using len assms(2) by (simp add: k_def min_def)
    ultimately show ?thesis
      using t len by (auto simp: cord_ByteCount_def k_def)
  qed
qed

interpretation cord: zero_copy_input cord_Next cord_BackUp cord_Skip cord_ByteCount cord_inv cord_rest
proof unfold_locales
  fix s
  assume s: "cord_inv s" "cord_rest s \<noteq> []"
  from cord_Next_data [OF s] obtain t where t: "cord_inv t" "0 < co_available t" "cord_rest t = cord_rest s"
    "cord_ByteCount t = cord_ByteCount s"
    "cord_Next s = Some (Some (take (nat (co_available t)) (drop (nat (co_size t - co_available t)) (co_data t))),
                    t\<lparr>co_bytes_remaining := co_bytes_remaining t - co_available t, co_available := 0\<rparr>)"
    by blast
  note a = cord_take_available [OF t(1,2)]
  have "cord_ByteCount (t\<lparr>co_bytes_remaining := co_bytes_remaining t - co_available t, co_available := 0\<rparr>)
      = cord_ByteCount s + co_available t"
    unfolding t(4) [symmetric] by (simp add: cord_ByteCount_def)
  moreover have "cord_rest s = take (nat (co_available t)) (cord_rest t) @ drop (nat (co_available t)) (cord_rest t)"
    by (simp add: t(3))
  ultimately show "\<exists>c s'. cord_Next s = Some (Some c, s') \<and> cord_inv s' \<and> c \<noteq> []
      \<and> cord_rest s = c @ cord_rest s' \<and> cord_ByteCount s' = cord_ByteCount s + int (length c)"
    using t(2,5) a by (metis length_greater_0_conv of_nat_0_less_iff)
next
  fix s c s' and n :: int
  assume s: "cord_inv s" "cord_Next s = Some (Some c, s')" and n: "0 \<le> n" "n \<le> int (length c)"
  have "cord_rest s \<noteq> []" using cord_Next_end [OF s(1)] s(2) by auto
  from cord_Next_data [OF s(1) this] s(2) obtain t where t: "cord_inv t" "0 < co_available t"
    "c = take (nat (co_available t)) (drop (nat (co_size t - co_available t)) (co_data t))"
    "s' = t\<lparr>co_bytes_remaining := co_bytes_remaining t - co_available t, co_available := 0\<rparr>"
    by auto
  note a = cord_take_available [OF t(1,2), folded t(3,4)]
  let ?u = "s'\<lparr>co_available := co_available s' + n, co_bytes_remaining := co_bytes_remaining s' + n\<rparr>"
  have "cord_BackUp n s' = Some ?u" using a(3) n t(1) by (simp add: cord_BackUp_def t(4) cord_inv_def)
  moreover have "cord_inv ?u" using t(1,2) a(3) n by (auto simp: cord_inv_def t(4))
  moreover have "cord_rest ?u = drop (length c - nat n) c @ cord_rest s'"
  proof -
    have "cord_rest ?u = drop (nat (co_available t - n)) (cord_rest t)"
      by (rule cord_rest_advance [OF t(1)]) (use a(3) n in \<open>simp_all add: t(4)\<close>)
    also have "cord_rest t = c @ cord_rest s'" using a(2,4) by simp
    also have "nat (co_available t - n) = length c - nat n" using a(3) n by auto
    finally show ?thesis by simp
  qed
  ultimately show "\<exists>s''. cord_BackUp n s' = Some s'' \<and> cord_inv s''
      \<and> cord_rest s'' = drop (length c - nat n) c @ cord_rest s'
      \<and> cord_ByteCount s'' = cord_ByteCount s' - n"
    by (auto simp: cord_ByteCount_def)
next
  fix s
  assume "cord_inv s"
  from cord_Skip_rest [OF this, of 0]
  show "\<exists>b s'. cord_Skip 0 s = Some (b, s') \<and> cord_inv s' \<and> cord_rest s' = cord_rest s
      \<and> cord_ByteCount s' = cord_ByteCount s \<and> (b \<or> cord_rest s = [])" by auto
qed (simp_all add: cord_Next_end cord_Skip_rest)

text \<open>The overridden \<open>ReadCord\<close> has the effect of the default one.\<close>

lemma cord_ReadCord_rest:
  assumes "cord_inv s" and "0 \<le> n"
  shows "\<exists>s'. cord_ReadCord cord n s
            = Some (n \<le> int (length (cord_rest s)), cord @ take (nat n) (cord_rest s), s')
            \<and> cord_inv s' \<and> cord_rest s' = drop (nat n) (cord_rest s)
            \<and> cord_ByteCount s' = cord_ByteCount s + min n (int (length (cord_rest s)))"
proof -
  note len = cord_rest_length [OF assms(1)]
  define k where "k = min n (co_bytes_remaining s)"
  have b: "0 \<le> co_bytes_remaining s" "0 \<le> co_it s" "co_available s \<le> co_size s"
    "co_length s - co_bytes_remaining s = co_it s + (co_size s - co_available s)"
    using assms(1) by (auto simp: cord_inv_def)
  have k: "0 \<le> k" "k \<le> co_bytes_remaining s" using assms(2) b by (auto simp: k_def)
  from cord_Load_advance [OF assms(1) k] obtain t where
    t: "cord_LoadChunkData (s\<lparr>co_it := co_it s + (co_size s - co_available s + k),
          co_bytes_remaining := co_bytes_remaining s - k\<rparr>) = (co_bytes_remaining s - k \<noteq> 0, t)"
      "cord_inv t" "co_cord t = co_cord s"
      "co_length t = co_length s" "co_bytes_remaining t = co_bytes_remaining s - k"
    by blast
  have rest: "cord_rest s = drop (nat (co_it s + (co_size s - co_available s))) (cord_content (co_cord s))"
    using b by (simp add: cord_rest_def)
  have "cord_ReadCord cord n s = Some (k = n, cord @ take (nat k) (cord_rest s), t)"
    using t(1) assms(2) by (simp add: cord_ReadCord_def AdvanceAndRead_def rest k_def [symmetric] Let_def add.assoc)
  moreover have "take (nat k) (cord_rest s) = take (nat n) (cord_rest s)"
    "drop (nat k) (cord_rest s) = drop (nat n) (cord_rest s)" "(k = n) = (n \<le> int (length (cord_rest s)))"
    using len assms(2) by (auto simp: k_def min_def)
  moreover have "cord_rest t = drop (nat k) (cord_rest s)"
    by (rule cord_rest_advance [OF assms(1)]) (use k t in simp_all)
  ultimately show ?thesis using t len by (auto simp: cord_ByteCount_def k_def)
qed

interpretation limited_cord: limited cord_Next cord_BackUp cord_Skip cord_ByteCount
    cord_inv cord_rest data
  for data by unfold_locales

end
