(* ===== verification/Input_Laws.thy ===== *)
theory Input_Laws
  imports Istream_Input Concatenating_Input Cord_Input
begin

section \<open>What the clients of the input streams rely on\<close>

text \<open>
  The properties of the concrete streams, obtained from the interpretations of
  \<open>zero_copy_input\<close>. The client is \<open>run_cmds\<close>: any sequence of \<open>Next\<close>, \<open>BackUp\<close> and
  \<open>Skip\<close> with arbitrary amounts, and \<open>events_ok data es\<close> says that all bytes it was handed
  stand in \<open>data\<close> at the position \<open>ByteCount()\<close> reported.
\<close>

text \<open>An \<open>ArrayInputStream\<close> with any block size serves any sequence of client operations
  without a failed check: each buffer holds the bytes at the reported position, and afterwards
  reading to the end yields the bytes behind the final position, in non-empty buffers.\<close>

theorem array_stream_reads:
  "\<exists>es s cs s'. run_cmds array_Next array_BackUp array_Skip array_ByteCount cmds
        (ArrayInputStream data (int (length data)) block_size) = Some (es, s)
     \<and> events_ok data es
     \<and> ReadAll array_Next [] s = Some (cs, s') \<and> [] \<notin> set cs
     \<and> concat cs = drop (nat (array_ByteCount s)) data
     \<and> array_ByteCount s' = array_ByteCount s + int (length (concat cs))"
proof -
  obtain es s where "run_cmds array_Next array_BackUp array_Skip array_ByteCount cmds
        (ArrayInputStream data (int (length data)) block_size) = Some (es, s)"
    "array_inv s" "array_rest s = drop (nat (array_ByteCount s)) data" "events_ok data es"
    using array.run_cmds_rest [of "ArrayInputStream data (int (length data)) block_size" cmds] by auto
  moreover from array.ReadAll_rest [OF this(2)] obtain cs s' where
    "ReadAll array_Next [] s = Some (cs, s')" "concat cs = array_rest s" "[] \<notin> set cs"
    "array_ByteCount s' = array_ByteCount s + int (length (array_rest s))" by blast
  ultimately show ?thesis by metis
qed

text \<open>The default \<open>ReadCord\<close> over an array stream appends exactly the next \<open>n\<close> bytes, or all
  that is left, says whether there were enough, and leaves the stream right behind them, however
  the stream cuts its buffers.\<close>

theorem array_ReadCord:
  assumes "0 \<le> n"
  shows "\<exists>s. ReadCord array_Next array_BackUp cord n (ArrayInputStream data (int (length data)) block_size)
        = Some (n \<le> int (length data), cord @ take (nat n) data, s)
      \<and> array_rest s = drop (nat n) data \<and> array_ByteCount s = min n (int (length data))"
  using array.ReadCord_rest [of "ArrayInputStream data (int (length data)) block_size" n cord] assms
  by auto

lemma array_ReadCord_witness:
  "\<exists>s. ReadCord array_Next array_BackUp ''ab'' 3 (ArrayInputStream ''cdefg'' (int (length ''cdefg'')) 2)
        = Some (True, ''abcde'', s)
      \<and> array_rest s = ''fg'' \<and> array_ByteCount s = 3"
  using array_ReadCord [of 3 "''ab''" "''cdefg''" 2] by (simp add: numeral_3_eq_3)

text \<open>An \<open>IstreamInputStream\<close> over a device without errors delivers exactly the characters
  of the stream for any sequence of client operations, the default \<open>Skip\<close> of the copying
  stream (which reads and discards) included.\<close>

theorem istream_reads:
  "\<exists>es s cs s'. run_cmds istream_Next istream_BackUp istream_Skip istream_ByteCount cmds
        (CopyingInputStreamAdaptor (std_open data False) block_size) = Some (es, s)
     \<and> events_ok data es
     \<and> ReadAll istream_Next [] s = Some (cs, s') \<and> [] \<notin> set cs
     \<and> concat cs = drop (nat (istream_ByteCount s)) data"
proof -
  note o = istream_open(1,2) [of data block_size] istream_open(3) [of "std_open data False" block_size]
  obtain es s where "run_cmds istream_Next istream_BackUp istream_Skip istream_ByteCount cmds
        (CopyingInputStreamAdaptor (std_open data False) block_size) = Some (es, s)"
    "istream_inv s" "istream_rest s = drop (nat (istream_ByteCount s)) data" "events_ok data es"
    using istream_input.run_cmds_rest [OF o(1) o(3), of cmds] o(2) by auto
  moreover from istream_input.ReadAll_rest [OF this(2)] obtain cs s' where
    "ReadAll istream_Next [] s = Some (cs, s')" "concat cs = istream_rest s" "[] \<notin> set cs" by blast
  ultimately show ?thesis by metis
qed

text \<open>When the device fails, all the characters read before the failure are delivered first;
  then \<open>Next()\<close> and \<open>Skip()\<close> return false, for good.\<close>

theorem istream_error_latches:
  "\<exists>cs s. ReadAll istream_Next [] (CopyingInputStreamAdaptor (std_open data True) block_size) = Some (cs, s)
     \<and> concat cs = data \<and> ca_failed s
     \<and> istream_Next s = Some (None, s) \<and> istream_Skip (int k) s = Some (False, s)"
  using ReadAll_err [OF istream_err_open [of data block_size], of "[]"]
    istream_failed_stuck(1) istream_failed_stuck(2) [of _ "int k"]
  by (fastforce simp: CopyingInputStreamAdaptor_def)



definition blocks_of_four :: "string \<Rightarrow> absl_cord" where
  "blocks_of_four s =
     \<lparr>cord_content = s, cord_run = (\<lambda>p. min (4 - p mod 4) (int (length s) - p))\<rparr>"

lemma blocks_of_four_ok: "int (length s) < 2 ^ 63 \<Longrightarrow> cord_ok (blocks_of_four s)"
  by (auto simp: cord_ok_def blocks_of_four_def)





end
