(* ===== verification/Zero_Copy_Output.thy ===== *)
theory Zero_Copy_Output
  imports Prelude
begin

section \<open>io/zero_copy_stream: the output stream interface\<close>

text \<open>
  The interface \<open>ZeroCopyOutputStream\<close> (file \<open>io/zero_copy_stream.h\<close>). \<open>Next()\<close> hands out
  a region of memory of the stream, here its address and size, or nothing when it returns
  false; the caller stores bytes there. \<open>put a bs\<close> is \<open>memcpy\<close> to address \<open>a\<close> of the memory the
  stream currently hands out. An operation is \<open>None\<close> when an \<open>ABSL_CHECK\<close> fails.

  The locale \<open>zero_copy_output\<close> is the contract. \<open>written\<close> observes the bytes that were
  written; \<open>full n\<close> says that the stream may refuse to go on after \<open>n\<close> bytes.
\<close>

type_synonym 's onext_op = "'s \<Rightarrow> ((int \<times> int) option \<times> 's) option"
type_synonym 's put_op = "int \<Rightarrow> string \<Rightarrow> 's \<Rightarrow> 's"
type_synonym 's obackup_op = "int \<Rightarrow> 's \<Rightarrow> 's option"

text \<open>\<open>memcpy\<close> into a block of memory.\<close>

definition overwrite :: "'a list \<Rightarrow> int \<Rightarrow> 'a list \<Rightarrow> 'a list" where
  "overwrite m a bs = take (nat a) m @ bs @ drop (nat a + length bs) m"

lemma overwrite_length [simp]:
  "0 \<le> a \<Longrightarrow> a + int (length bs) \<le> int (length m) \<Longrightarrow> length (overwrite m a bs) = length m"
  by (auto simp: overwrite_def)

lemma overwrite_Nil [simp]: "overwrite m a [] = m"
  by (simp add: overwrite_def)

lemma overwrite_append:
  assumes "0 \<le> a" and "a + int (length xs) + int (length ys) \<le> int (length m)"
  shows "overwrite (overwrite m a xs) (a + int (length xs)) ys = overwrite m a (xs @ ys)"
proof -
  obtain k where "a = int k" using assms(1) nonneg_int_cases by blast
  moreover from this assms(2) have "k + length xs + length ys \<le> length m" by linarith
  ultimately show ?thesis by (simp add: overwrite_def nat_add_distrib ac_simps)
qed

lemma take_overwrite_before:
  assumes "0 \<le> a" and "a + int (length bs) \<le> int (length m)"
  shows "take (nat a) (overwrite m a bs) = take (nat a) m"
proof -
  obtain k where "a = int k" using assms(1) nonneg_int_cases by blast
  moreover from this assms(2) have "k + length bs \<le> length m" by linarith
  ultimately show ?thesis by (simp add: overwrite_def)
qed

lemma take_overwrite:
  assumes "0 \<le> a" and "a + int (length bs) \<le> int (length m)"
  shows "take (nat a + length bs) (overwrite m a bs) = take (nat a) m @ bs"
proof -
  obtain k where "a = int k" using assms(1) nonneg_int_cases by blast
  moreover from this assms(2) have "k + length bs \<le> length m" by linarith
  ultimately show ?thesis by (simp add: overwrite_def)
qed

subsection \<open>The default WriteCord\<close>

text \<open>
  \<open>ZeroCopyOutputStream::WriteCord\<close> over the chunks of a cord: the inner loop fills up the
  current buffer and asks for the next one while the fragment does not fit, and the unused
  end of the last buffer is given back.
\<close>

partial_function (option) WriteCord_fragment ::
  "'s onext_op \<Rightarrow> 's put_op \<Rightarrow> string \<Rightarrow> int \<Rightarrow> int \<Rightarrow> 's \<Rightarrow> (bool \<times> int \<times> int \<times> 's) option" where
  "WriteCord_fragment nxt put fragment buffer n s =
     (if int (length fragment) > n
      then do {
        (r, s) \<leftarrow> nxt (put buffer (take (nat n) fragment) s);
        case r of
          None \<Rightarrow> Some (False, buffer, n, s)
        | Some (buffer, m) \<Rightarrow> WriteCord_fragment nxt put (drop (nat n) fragment) buffer m s }
      else Some (True, buffer + int (length fragment), n - int (length fragment),
                 put buffer fragment s))"

fun WriteCord_chunks ::
  "'s onext_op \<Rightarrow> 's put_op \<Rightarrow> string list \<Rightarrow> int \<Rightarrow> int \<Rightarrow> 's \<Rightarrow> (bool \<times> int \<times> 's) option" where
  "WriteCord_chunks nxt put [] buffer n s = Some (True, n, s)"
| "WriteCord_chunks nxt put (c # cs) buffer n s = do {
     (b, buffer, n, s) \<leftarrow> WriteCord_fragment nxt put c buffer n s;
     if b then WriteCord_chunks nxt put cs buffer n s else Some (False, n, s) }"

definition WriteCord ::
  "'s onext_op \<Rightarrow> 's put_op \<Rightarrow> 's obackup_op \<Rightarrow> string list \<Rightarrow> 's \<Rightarrow> (bool \<times> 's) option" where
  "WriteCord nxt put backup chunks s =
     (if concat chunks = [] then Some (True, s)
      else do {
        (r, s) \<leftarrow> nxt s;
        case r of
          None \<Rightarrow> Some (False, s)
        | Some (buffer, n) \<Rightarrow> do {
            (b, n, s) \<leftarrow> WriteCord_chunks nxt put chunks buffer n s;
            if b then do { s \<leftarrow> backup n s; Some (True, s) } else Some (False, s) } })"

subsection \<open>The contract\<close>

locale zero_copy_output =
  fixes nxt :: "'s \<Rightarrow> ((int \<times> int) option \<times> 's) option"
    and put :: "int \<Rightarrow> string \<Rightarrow> 's \<Rightarrow> 's"
    and backup :: "int \<Rightarrow> 's \<Rightarrow> 's option"
    and cnt :: "'s \<Rightarrow> int"
    and inv :: "'s \<Rightarrow> bool"
    and written :: "'s \<Rightarrow> string"
    and full :: "int \<Rightarrow> bool"
  assumes cnt_written: "inv s \<Longrightarrow> cnt s = int (length (written s))"
    and nxt_buffer: "inv s \<Longrightarrow> (\<exists>s'. nxt s = Some (None, s') \<and> full (cnt s))
      \<or> (\<exists>p n s'. nxt s = Some (Some (p, n), s') \<and> 0 < n)"
    and nxt_fail: "inv s \<Longrightarrow> nxt s = Some (None, s') \<Longrightarrow> inv s' \<and> written s' = written s"
    and fill_buffer: "inv s \<Longrightarrow> nxt s = Some (Some (p, n), s') \<Longrightarrow> int (length b) = n \<Longrightarrow>
      inv (put p b s') \<and> written (put p b s') = written s @ b"
    and fill_backup: "inv s \<Longrightarrow> nxt s = Some (Some (p, n), s') \<Longrightarrow> int (length b) \<le> n \<Longrightarrow>
      \<exists>s''. backup (n - int (length b)) (put p b s') = Some s'' \<and> inv s'' \<and> written s'' = written s @ b"
    and put_append: "inv s \<Longrightarrow> nxt s = Some (Some (p, n), s') \<Longrightarrow> int (length (a @ b)) \<le> n \<Longrightarrow>
      put (p + int (length a)) b (put p a s') = put p (a @ b) s'"
    and put_Nil: "put p [] s = s"
begin

text \<open>In the middle of a buffer: \<open>w\<close> is written, and \<open>m\<close> more bytes fit at address \<open>a\<close>.\<close>

definition at_buffer :: "string \<Rightarrow> int \<Rightarrow> int \<Rightarrow> 's \<Rightarrow> bool" where
  "at_buffer w a m t \<longleftrightarrow> (\<exists>s p n s' b. inv s \<and> nxt s = Some (Some (p, n), s') \<and> 0 < n
      \<and> int (length b) \<le> n \<and> a = p + int (length b) \<and> m = n - int (length b)
      \<and> t = put p b s' \<and> w = written s @ b)"

lemma at_buffer_start:
  "inv s \<Longrightarrow> nxt s = Some (Some (p, n), s') \<Longrightarrow> 0 < n \<Longrightarrow> at_buffer (written s) p n s'"
  unfolding at_buffer_def by (intro exI [of _ s] exI [of _ p] exI [of _ n] exI [of _ s'] exI [of _ "[]"])
    (simp add: put_Nil)

lemma at_buffer_room: "at_buffer w a m t \<Longrightarrow> 0 \<le> m"
  by (auto simp: at_buffer_def)

lemma at_buffer_put:
  assumes "at_buffer w a m t" and "int (length b) \<le> m"
  shows "at_buffer (w @ b) (a + int (length b)) (m - int (length b)) (put a b t)"
proof -
  from assms(1) obtain s p n s' c where o: "inv s" "nxt s = Some (Some (p, n), s')" "0 < n"
    "int (length c) \<le> n" "a = p + int (length c)" "m = n - int (length c)" "t = put p c s'"
    "w = written s @ c" by (auto simp: at_buffer_def)
  have "int (length (c @ b)) \<le> n" using assms(2) o(6) by simp
  with put_append [OF o(1,2) this] o show ?thesis
    unfolding at_buffer_def
    by (intro exI [of _ s] exI [of _ p] exI [of _ n] exI [of _ s'] exI [of _ "c @ b"]) simp
qed

lemma at_buffer_full:
  assumes "at_buffer w a 0 t"
  shows "inv t" and "written t = w"
  using assms fill_buffer by (auto simp: at_buffer_def)

lemma at_buffer_backup:
  assumes "at_buffer w a m t"
  shows "\<exists>s. backup m t = Some s \<and> inv s \<and> written s = w"
  using assms fill_backup by (auto simp: at_buffer_def)

lemma WriteCord_fragment_written:
  assumes "at_buffer w a m t"
  shows "\<exists>b a' m' t'. WriteCord_fragment nxt put frag a m t = Some (b, a', m', t')
      \<and> (b \<longrightarrow> at_buffer (w @ frag) a' m' t')
      \<and> (\<not> b \<longrightarrow> inv t' \<and> (\<exists>k < length frag. full (int (length w + k))))"
  using assms
proof (induction "2 * length frag + (if m = 0 then 1 else 0)" arbitrary: frag w a m t rule: less_induct)
  case less
  have m: "0 \<le> m" using less.prems by (rule at_buffer_room)
  show ?case
  proof (cases "int (length frag) > m")
    case False
    with at_buffer_put [OF less.prems, of frag] show ?thesis
      by (subst WriteCord_fragment.simps) auto
  next
    case True
    let ?c = "take (nat m) frag" and ?t = "put a (take (nat m) frag) t"
    have c: "int (length ?c) = m" using True m by simp
    with at_buffer_put [OF less.prems, of ?c] have "at_buffer (w @ ?c) (a + m) 0 ?t" by simp
    note f = at_buffer_full [OF this]
    from nxt_buffer [OF f(1)] show ?thesis
    proof
      assume "\<exists>s'. nxt ?t = Some (None, s') \<and> full (cnt ?t)"
      then obtain s' where "nxt ?t = Some (None, s')" "full (int (length w + nat m))"
        using cnt_written [OF f(1)] f(2) c m by auto
      moreover from nxt_fail [OF f(1) this(1)] have "inv s'" by simp
      moreover from \<open>nxt ?t = Some (None, s')\<close> True
      have "WriteCord_fragment nxt put frag a m t = Some (False, a, m, s')"
        by (subst WriteCord_fragment.simps) simp
      moreover have "nat m < length frag" using True m by simp
      ultimately show ?thesis by blast
    next
      assume "\<exists>p n s'. nxt ?t = Some (Some (p, n), s') \<and> 0 < n"
      then obtain p n s' where n: "nxt ?t = Some (Some (p, n), s')" "0 < n" by blast
      have "at_buffer (w @ ?c) p n s'" using at_buffer_start [OF f(1) n] f(2) by simp
      moreover have "2 * length (drop (nat m) frag) + (if n = 0 then 1 else 0)
          < 2 * length frag + (if m = 0 then 1 else 0)"
        using True m n(2) by auto
      ultimately obtain b a' m' t' where r:
        "WriteCord_fragment nxt put (drop (nat m) frag) p n s' = Some (b, a', m', t')"
        "b \<longrightarrow> at_buffer ((w @ ?c) @ drop (nat m) frag) a' m' t'"
        "\<not> b \<longrightarrow> inv t' \<and> (\<exists>k < length (drop (nat m) frag). full (int (length (w @ ?c) + k)))"
        using less.hyps by blast
      have "\<not> b \<longrightarrow> inv t' \<and> (\<exists>k < length frag. full (int (length w + k)))"
      proof
        assume nb: "\<not> b"
        with r(3) obtain k where k: "k < length (drop (nat m) frag)" "full (int (length (w @ ?c) + k))"
          by blast
        have "inv t'" using nb r(3) by blast
        have "length ?c = nat m" using c by linarith
        with k have "\<exists>k < length frag. full (int (length w + k))"
          by (intro exI [of _ "nat m + k"]) (simp add: add.assoc)
        with \<open>inv t'\<close> show "inv t' \<and> (\<exists>k < length frag. full (int (length w + k)))" ..
      qed
      moreover have "WriteCord_fragment nxt put frag a m t = Some (b, a', m', t')"
        using True n(1) r(1) by (subst WriteCord_fragment.simps) simp
      moreover have "(w @ ?c) @ drop (nat m) frag = w @ frag" by simp
      ultimately show ?thesis using r(2) by metis
    qed
  qed
qed

lemma WriteCord_chunks_written:
  assumes "at_buffer w a m t"
  shows "\<exists>b m' t'. WriteCord_chunks nxt put cs a m t = Some (b, m', t')
      \<and> (b \<longrightarrow> (\<exists>a'. at_buffer (w @ concat cs) a' m' t'))
      \<and> (\<not> b \<longrightarrow> inv t' \<and> (\<exists>k < length (concat cs). full (int (length w + k))))"
  using assms
proof (induction cs arbitrary: w a m t)
  case Nil
  then show ?case by auto
next
  case (Cons c cs)
  obtain b a' m' t' where r: "WriteCord_fragment nxt put c a m t = Some (b, a', m', t')"
    "b \<longrightarrow> at_buffer (w @ c) a' m' t'" "\<not> b \<longrightarrow> inv t' \<and> (\<exists>k < length c. full (int (length w + k)))"
    using WriteCord_fragment_written [OF Cons.prems] by blast
  show ?case
  proof (cases b)
    case False
    with r obtain k where "k < length c" "full (int (length w + k))" "inv t'" by blast
    then have "k < length (concat (c # cs))" by simp
    moreover from False r(1) have "WriteCord_chunks nxt put (c # cs) a m t = Some (False, m', t')" by simp
    ultimately show ?thesis using \<open>full (int (length w + k))\<close> \<open>inv t'\<close> by blast
  next
    case True
    with r have "at_buffer (w @ c) a' m' t'" by simp
    from Cons.IH [OF this] obtain b' m'' t'' where q:
      "WriteCord_chunks nxt put cs a' m' t' = Some (b', m'', t'')"
      "b' \<longrightarrow> (\<exists>a'. at_buffer ((w @ c) @ concat cs) a' m'' t'')"
      "\<not> b' \<longrightarrow> inv t'' \<and> (\<exists>k < length (concat cs). full (int (length (w @ c) + k)))" by blast
    have "\<not> b' \<longrightarrow> inv t'' \<and> (\<exists>k < length (concat (c # cs)). full (int (length w + k)))"
    proof
      assume "\<not> b'"
      with q(3) obtain k where "k < length (concat cs)" "full (int (length (w @ c) + k))" "inv t''" by blast
      then have "\<exists>k < length (concat (c # cs)). full (int (length w + k))"
        by (intro exI [of _ "length c + k"]) (simp add: add.assoc)
      with \<open>inv t''\<close> show "inv t'' \<and> (\<exists>k < length (concat (c # cs)). full (int (length w + k)))" ..
    qed
    moreover from True r(1) q(1) have "WriteCord_chunks nxt put (c # cs) a m t = Some (b', m'', t'')" by simp
    moreover have "(w @ c) @ concat cs = w @ concat (c # cs)" by simp
    ultimately show ?thesis using q(2) by metis
  qed
qed

text \<open>
  The default \<open>WriteCord\<close> appends the content of the cord, or fails because the stream was full
  before the end of it; it always returns.
\<close>

lemma WriteCord_written:
  assumes "inv s"
  shows "\<exists>b s'. WriteCord nxt put backup cs s = Some (b, s')
      \<and> (b \<longrightarrow> inv s' \<and> written s' = written s @ concat cs)
      \<and> (\<not> b \<longrightarrow> inv s' \<and> (\<exists>k < length (concat cs). full (cnt s + int k)))"
proof (cases "concat cs = []")
  case True
  with assms have "WriteCord nxt put backup cs s = Some (True, s)" "written s = written s @ concat cs"
    by (simp_all add: WriteCord_def)
  with assms show ?thesis by blast
next
  case False
  from nxt_buffer [OF assms] show ?thesis
  proof
    assume "\<exists>s'. nxt s = Some (None, s') \<and> full (cnt s)"
    then obtain s' where "nxt s = Some (None, s')" "full (cnt s)" by blast
    moreover from this(1) False have "WriteCord nxt put backup cs s = Some (False, s')"
      unfolding WriteCord_def by simp
    moreover have "0 < length (concat cs)" using False by (simp only: length_greater_0_conv) simp
    with \<open>full (cnt s)\<close> have "\<exists>k < length (concat cs). full (cnt s + int k)"
      by (intro exI [of _ 0] conjI) simp_all
    ultimately show ?thesis using nxt_fail [OF assms \<open>nxt s = Some (None, s')\<close>] by blast
  next
    assume "\<exists>p n s'. nxt s = Some (Some (p, n), s') \<and> 0 < n"
    then obtain p n s' where n: "nxt s = Some (Some (p, n), s')" "0 < n" by blast
    from WriteCord_chunks_written [OF at_buffer_start [OF assms n], of cs] obtain b m t where
      r: "WriteCord_chunks nxt put cs p n s' = Some (b, m, t)"
      "b \<longrightarrow> (\<exists>a'. at_buffer (written s @ concat cs) a' m t)"
      "\<not> b \<longrightarrow> inv t \<and> (\<exists>k < length (concat cs). full (int (length (written s) + k)))" by blast
    show ?thesis
    proof (cases b)
      case True
      with r(2) at_buffer_backup obtain s'' where "backup m t = Some s''" "inv s''"
        "written s'' = written s @ concat cs" by blast
      moreover from this(1) True False n r(1) have "WriteCord nxt put backup cs s = Some (True, s'')"
        by (simp add: WriteCord_def del: concat_eq_Nil_conv)
      ultimately show ?thesis by blast
    next
      case b: False
      with False n r(1) have "WriteCord nxt put backup cs s = Some (False, t)"
        by (simp add: WriteCord_def del: concat_eq_Nil_conv)
      moreover have "inv t \<and> (\<exists>k < length (concat cs). full (cnt s + int k))"
        using r(3) b cnt_written [OF assms] by simp
      ultimately show ?thesis by blast
    qed
  qed
qed

end

end
