(* ===== verification/Output_Streams.thy ===== *)
theory Output_Streams
  imports Zero_Copy_Output
begin

section \<open>io/zero_copy_stream_impl_lite: ArrayOutputStream and StringOutputStream\<close>

text \<open>
  An \<open>ArrayOutputStream\<close> writes into the array of the caller, of which \<open>ao_data\<close> is the
  content. A \<open>StringOutputStream\<close> appends to a \<open>std::string\<close>: its content is \<open>so_target\<close>, and
  \<open>so_capacity\<close> its capacity. How far the standard library grows a string beyond the size asked
  for, and what uninitialised bytes hold, are the components \<open>so_grow\<close> and \<open>so_fill\<close>; only
  \<open>n \<le> so_grow n\<close> is relied on. A pointer into the memory is its offset.
\<close>

subsection \<open>ArrayOutputStream\<close>

record array_output =
  ao_data :: string
  ao_size :: int
  ao_block_size :: int
  ao_position :: int
  ao_last_returned_size :: int

definition ArrayOutputStream :: "string \<Rightarrow> int \<Rightarrow> int \<Rightarrow> array_output" where
  "ArrayOutputStream data n block_size =
     \<lparr>ao_data = data, ao_size = n, ao_block_size = (if block_size > 0 then block_size else n),
      ao_position = 0, ao_last_returned_size = 0\<rparr>"

definition arrayout_Next :: "array_output onext_op" where
  "arrayout_Next s =
     (if ao_position s < ao_size s
      then let l = min (ao_block_size s) (ao_size s - ao_position s)
           in Some (Some (ao_position s, l),
                    s\<lparr>ao_last_returned_size := l, ao_position := ao_position s + l\<rparr>)
      else Some (None, s\<lparr>ao_last_returned_size := 0\<rparr>))"

definition arrayout_BackUp :: "array_output obackup_op" where
  "arrayout_BackUp count s =
     (if \<not> count \<le> ao_last_returned_size s then None
      else if \<not> count \<ge> 0 then None
      else Some (s\<lparr>ao_position := ao_position s - count,
                   ao_last_returned_size := ao_last_returned_size s - count\<rparr>))"

definition arrayout_ByteCount :: "array_output \<Rightarrow> int" where
  "arrayout_ByteCount s = ao_position s"

definition arrayout_put :: "array_output put_op" where
  "arrayout_put a bs s = s\<lparr>ao_data := overwrite (ao_data s) a bs\<rparr>"

definition arrayout_inv :: "int \<Rightarrow> array_output \<Rightarrow> bool" where
  "arrayout_inv n s \<longleftrightarrow> ao_size s = n \<and> ao_size s = int (length (ao_data s)) \<and> 0 \<le> ao_position s
     \<and> ao_position s \<le> ao_size s \<and> (0 < ao_size s \<longrightarrow> 0 < ao_block_size s) \<and> 0 \<le> ao_last_returned_size s"

definition arrayout_written :: "array_output \<Rightarrow> string" where
  "arrayout_written s = take (nat (ao_position s)) (ao_data s)"

lemma ArrayOutputStream_open:
  "arrayout_inv (int (length data)) (ArrayOutputStream data (int (length data)) b)"
  "arrayout_written (ArrayOutputStream data (int (length data)) b) = []"
  "arrayout_ByteCount (ArrayOutputStream data n b) = 0"
  by (auto simp: arrayout_inv_def arrayout_written_def ArrayOutputStream_def arrayout_ByteCount_def)

lemma arrayout_Next_SomeD:
  assumes "arrayout_inv n s" and "arrayout_Next s = Some (Some (p, l), s')"
  shows "p = ao_position s" and "0 < l" and "p + l \<le> n"
    and "s' = s\<lparr>ao_last_returned_size := l, ao_position := p + l\<rparr>"
  using assms by (auto simp: arrayout_Next_def arrayout_inv_def Let_def split: if_splits)

lemma arrayout_fill:
  assumes s: "arrayout_inv n s" "arrayout_Next s = Some (Some (p, l), s')"
    and b: "int (length b) \<le> l"
  defines "t \<equiv> arrayout_put p b s'\<lparr>ao_position := p + int (length b), ao_last_returned_size := int (length b)\<rparr>"
  shows "arrayout_inv n t" and "arrayout_written t = arrayout_written s @ b"
    and "arrayout_BackUp (l - int (length b)) (arrayout_put p b s') = Some t"
proof -
  note d = arrayout_Next_SomeD [OF s]
  have p: "0 \<le> p" "p + int (length b) \<le> int (length (ao_data s))" "n = int (length (ao_data s))"
    using s(1) b d by (auto simp: arrayout_inv_def)
  show "arrayout_inv n t"
    using s(1) p d by (simp add: t_def arrayout_put_def arrayout_inv_def)
  have "nat (p + int (length b)) = nat p + length b" using p(1) by simp
  then show "arrayout_written t = arrayout_written s @ b"
    using take_overwrite [OF p(1,2)] d(1,4) by (simp add: t_def arrayout_written_def arrayout_put_def)
  show "arrayout_BackUp (l - int (length b)) (arrayout_put p b s') = Some t"
    using b unfolding d(4) by (simp add: t_def arrayout_BackUp_def arrayout_put_def d(4))
qed

interpretation array_output: zero_copy_output arrayout_Next arrayout_put arrayout_BackUp arrayout_ByteCount
    "arrayout_inv n" arrayout_written "\<lambda>k. k = n" for n
proof unfold_locales
  fix s
  assume "arrayout_inv n s"
  then show "arrayout_ByteCount s = int (length (arrayout_written s))"
    by (auto simp: arrayout_ByteCount_def arrayout_inv_def arrayout_written_def)
next
  fix s
  assume "arrayout_inv n s"
  then show "(\<exists>s'. arrayout_Next s = Some (None, s') \<and> arrayout_ByteCount s = n)
      \<or> (\<exists>p l s'. arrayout_Next s = Some (Some (p, l), s') \<and> 0 < l)"
    by (auto simp: arrayout_Next_def Let_def arrayout_inv_def arrayout_ByteCount_def)
next
  fix s s'
  assume "arrayout_inv n s" "arrayout_Next s = Some (None, s')"
  then show "arrayout_inv n s' \<and> arrayout_written s' = arrayout_written s"
    by (auto simp: arrayout_Next_def arrayout_inv_def arrayout_written_def Let_def split: if_splits)
next
  fix s p l s' and b :: string
  assume s: "arrayout_inv n s" "arrayout_Next s = Some (Some (p, l), s')" and b: "int (length b) = l"
  have "arrayout_put p b s' = arrayout_put p b s'\<lparr>ao_position := p + int (length b), ao_last_returned_size := int (length b)\<rparr>"
    using arrayout_Next_SomeD [OF s] b by (simp add: arrayout_put_def)
  with arrayout_fill [OF s, of b] b
  show "arrayout_inv n (arrayout_put p b s') \<and> arrayout_written (arrayout_put p b s') = arrayout_written s @ b"
    by simp
next
  fix s p l s' and b :: string
  assume "arrayout_inv n s" "arrayout_Next s = Some (Some (p, l), s')" "int (length b) \<le> l"
  from arrayout_fill [OF this]
  show "\<exists>s''. arrayout_BackUp (l - int (length b)) (arrayout_put p b s') = Some s'' \<and> arrayout_inv n s''
      \<and> arrayout_written s'' = arrayout_written s @ b" by blast
next
  fix s p l s' and a b :: string
  assume s: "arrayout_inv n s" "arrayout_Next s = Some (Some (p, l), s')" and ab: "int (length (a @ b)) \<le> l"
  have "0 \<le> p" "p + int (length a) + int (length b) \<le> int (length (ao_data s'))"
    using arrayout_Next_SomeD [OF s] s(1) ab by (auto simp: arrayout_inv_def)
  then show "arrayout_put (p + int (length a)) b (arrayout_put p a s') = arrayout_put p (a @ b) s'"
    by (simp add: arrayout_put_def overwrite_append)
qed (simp add: arrayout_put_def)

subsection \<open>StringOutputStream\<close>

record string_output =
  so_target :: string
  so_capacity :: int
  so_grow :: "int \<Rightarrow> int"
  so_fill :: "nat \<Rightarrow> char"

definition kMinimumSize :: int where "kMinimumSize = 16"
definition int_max :: int where "int_max = 2147483647"

text \<open>\<open>STLStringResizeUninitialized\<close>: bytes beyond the old size are unspecified.\<close>

definition resize_string :: "int \<Rightarrow> string_output \<Rightarrow> string_output" where
  "resize_string n s =
     s\<lparr>so_target := take (nat n) (so_target s) @ map (so_fill s) [length (so_target s) ..< nat n],
       so_capacity := (if n \<le> so_capacity s then so_capacity s else so_grow s n)\<rparr>"

definition string_Next :: "string_output onext_op" where
  "string_Next s =
     (let old_size = int (length (so_target s));
          new_size = (if old_size < so_capacity s then so_capacity s else old_size * 2);
          new_size = min new_size (old_size + int_max);
          s' = resize_string (max new_size kMinimumSize) s
      in Some (Some (old_size, int (length (so_target s')) - old_size), s'))"

definition string_BackUp :: "string_output obackup_op" where
  "string_BackUp count s =
     (if \<not> count \<ge> 0 then None
      else if \<not> count \<le> int (length (so_target s)) then None
      else Some (resize_string (int (length (so_target s)) - count) s))"

definition string_ByteCount :: "string_output \<Rightarrow> int" where
  "string_ByteCount s = int (length (so_target s))"

definition string_put :: "string_output put_op" where
  "string_put a bs s = s\<lparr>so_target := overwrite (so_target s) a bs\<rparr>"

definition string_inv :: "string_output \<Rightarrow> bool" where
  "string_inv s \<longleftrightarrow> (\<forall>n. n \<le> so_grow s n)"

lemma resize_string_length [simp]:
  "0 \<le> n \<Longrightarrow> int (length (so_target (resize_string n s))) = n"
  by (auto simp: resize_string_def)

lemma string_Next_SomeD:
  assumes "string_Next s = Some (Some (p, l), s')"
  shows "p = int (length (so_target s))" and "0 < l" and "int (length (so_target s')) = p + l"
    and "take (length (so_target s)) (so_target s') = so_target s" and "so_grow s' = so_grow s"
    and "l \<le> int_max"
proof -
  define m where "m = max (min (if p < so_capacity s then so_capacity s else p * 2) (p + int_max)) kMinimumSize"
  have d: "p = int (length (so_target s))" "s' = resize_string m s" "l = int (length (so_target s')) - p"
    using assms by (auto simp: string_Next_def Let_def m_def)
  have m: "int (length (so_target s)) < m" "m \<le> p + int_max" "0 \<le> m"
    by (auto simp: m_def kMinimumSize_def int_max_def d(1))
  have len: "int (length (so_target s')) = m" unfolding d(2) by (rule resize_string_length [OF m(3)])
  show "p = int (length (so_target s))" "0 < l" "int (length (so_target s')) = p + l" "l \<le> int_max"
    using d m len by simp_all
  show "take (length (so_target s)) (so_target s') = so_target s" "so_grow s' = so_grow s"
    using m by (simp_all add: d(2) resize_string_def)
qed

lemma string_fill:
  assumes nx: "string_Next s = Some (Some (p, l), s')" and b: "int (length b) \<le> l"
  shows "take (length (so_target s) + length b) (so_target (string_put p b s')) = so_target s @ b"
    and "int (length (so_target (string_put p b s'))) = p + l"
proof -
  note d = string_Next_SomeD [OF nx]
  have p: "0 \<le> p" "p + int (length b) \<le> int (length (so_target s'))" using b d by simp_all
  show "take (length (so_target s) + length b) (so_target (string_put p b s')) = so_target s @ b"
    using take_overwrite [OF p] d(1,4) by (simp add: string_put_def)
  show "int (length (so_target (string_put p b s'))) = p + l"
    using p d(3) by (simp add: string_put_def)
qed

interpretation string_output: zero_copy_output string_Next string_put string_BackUp string_ByteCount
    string_inv so_target "\<lambda>k. False"
proof unfold_locales
  fix s
  assume "string_inv s"
  then show "string_ByteCount s = int (length (so_target s))" by (simp add: string_ByteCount_def)
next
  fix s
  have "\<exists>p l s'. string_Next s = Some (Some (p, l), s')" by (simp add: string_Next_def Let_def)
  then show "(\<exists>s'. string_Next s = Some (None, s') \<and> False)
      \<or> (\<exists>p l s'. string_Next s = Some (Some (p, l), s') \<and> 0 < l)"
    using string_Next_SomeD(2) by blast
next
  fix s s'
  assume "string_Next s = Some (None, s')"
  then show "string_inv s' \<and> so_target s' = so_target s" by (simp add: string_Next_def Let_def)
next
  fix s p l s' and b :: string
  assume s: "string_inv s" "string_Next s = Some (Some (p, l), s')" and b: "int (length b) = l"
  have "length (so_target (string_put p b s')) = length (so_target s) + length b"
    using string_fill(2) [OF s(2), of b] string_Next_SomeD(1) [OF s(2)] b by simp
  moreover have "string_inv (string_put p b s')"
    using s string_Next_SomeD(5) [OF s(2)] by (simp add: string_inv_def string_put_def)
  ultimately show "string_inv (string_put p b s') \<and> so_target (string_put p b s') = so_target s @ b"
    using string_fill(1) [OF s(2), of b] b by simp
next
  fix s p l s' and b :: string
  assume s: "string_inv s" "string_Next s = Some (Some (p, l), s')" and b: "int (length b) \<le> l"
  note f = string_fill [OF s(2) b] and d = string_Next_SomeD [OF s(2)]
  let ?t = "string_put p b s'"
  have len: "int (length (so_target ?t)) - (l - int (length b)) = int (length (so_target s) + length b)"
    using f(2) d(1) by simp
  have "string_BackUp (l - int (length b)) ?t = Some (resize_string (int (length (so_target s) + length b)) ?t)"
    using b f(2) d(1) unfolding string_BackUp_def len by simp
  moreover have "length (so_target s) + length b \<le> length (so_target ?t)"
    using f(2) b d(1) by linarith
  then have "so_target (resize_string (int (length (so_target s) + length b)) ?t) = so_target s @ b"
    using f(1) by (simp add: resize_string_def nat_int_add)
  moreover have "string_inv (resize_string (int (length (so_target s) + length b)) ?t)"
    using s(1) d(5) by (simp add: string_inv_def resize_string_def string_put_def)
  ultimately show "\<exists>s''. string_BackUp (l - int (length b)) (string_put p b s') = Some s''
      \<and> string_inv s'' \<and> so_target s'' = so_target s @ b" by blast
next
  fix s p l s' and a b :: string
  assume s: "string_inv s" "string_Next s = Some (Some (p, l), s')" and ab: "int (length (a @ b)) \<le> l"
  have "0 \<le> p" "p + int (length a) + int (length b) \<le> int (length (so_target s'))"
    using string_Next_SomeD [OF s(2)] ab by simp_all
  then show "string_put (p + int (length a)) b (string_put p a s') = string_put p (a @ b) s'"
    by (simp add: string_put_def overwrite_append)
qed (simp add: string_put_def)

end
