(* ===== verification/Copying_Output.thy ===== *)
theory Copying_Output
  imports Output_Streams
begin

section \<open>CopyingOutputStreamAdaptor and OstreamOutputStream\<close>

text \<open>
  The adaptor that collects bytes in a buffer and passes full buffers to a
  \<open>CopyingOutputStream\<close> (files \<open>io/zero_copy_stream_impl_lite.cc\<close> and
  \<open>io/zero_copy_stream_impl.cc\<close>). \<open>wr bs c\<close> is the virtual \<open>Write\<close>: whether it succeeded, and
  the new state of the sink. The content of fresh memory, \<open>cu_fill\<close>, is unspecified.
\<close>

type_synonym 'c write_op = "string \<Rightarrow> 'c \<Rightarrow> bool \<times> 'c"

record 'c copying_output =
  cu_stream :: 'c
  cu_failed :: bool
  cu_position :: int
  cu_buffer :: "string option"
  cu_buffer_size :: int
  cu_buffer_used :: int
  cu_fill :: "nat \<Rightarrow> char"

definition kDefaultBlockSize_out :: int where "kDefaultBlockSize_out = 8192"

definition CopyingOutputStreamAdaptor :: "(nat \<Rightarrow> char) \<Rightarrow> 'c \<Rightarrow> int \<Rightarrow> 'c copying_output" where
  "CopyingOutputStreamAdaptor fill stream block_size =
     \<lparr>cu_stream = stream, cu_failed = False, cu_position = 0, cu_buffer = None,
      cu_buffer_size = (if block_size > 0 then block_size else kDefaultBlockSize_out),
      cu_buffer_used = 0, cu_fill = fill\<rparr>"

definition copyout_FreeBuffer :: "'c copying_output \<Rightarrow> 'c copying_output" where
  "copyout_FreeBuffer s = s\<lparr>cu_buffer_used := 0, cu_buffer := None\<rparr>"

definition copyout_AllocateBufferIfNeeded :: "'c copying_output \<Rightarrow> 'c copying_output" where
  "copyout_AllocateBufferIfNeeded s =
     (if cu_buffer s = None
      then s\<lparr>cu_buffer := Some (map (cu_fill s) [0 ..< nat (cu_buffer_size s)])\<rparr> else s)"

definition copyout_WriteBuffer :: "'c write_op \<Rightarrow> 'c copying_output \<Rightarrow> bool \<times> 'c copying_output" where
  "copyout_WriteBuffer wr s =
     (if cu_failed s then (False, s)
      else if cu_buffer_used s = 0 then (True, s)
      else let (b, c) = wr (take (nat (cu_buffer_used s)) (the (cu_buffer s))) (cu_stream s);
               s = s\<lparr>cu_stream := c\<rparr>
           in if b
              then (True, s\<lparr>cu_position := cu_position s + cu_buffer_used s, cu_buffer_used := 0\<rparr>)
              else (False, copyout_FreeBuffer (s\<lparr>cu_failed := True\<rparr>)))"

definition copyout_Flush :: "'c write_op \<Rightarrow> 'c copying_output \<Rightarrow> bool \<times> 'c copying_output" where
  "copyout_Flush wr s = copyout_WriteBuffer wr s"

definition copyout_Next :: "'c write_op \<Rightarrow> 'c copying_output onext_op" where
  "copyout_Next wr s =
     (let (b, s) = (if cu_buffer_used s = cu_buffer_size s then copyout_WriteBuffer wr s else (True, s))
      in if \<not> b then Some (None, s)
         else let s = copyout_AllocateBufferIfNeeded s
              in Some (Some (cu_buffer_used s, cu_buffer_size s - cu_buffer_used s),
                       s\<lparr>cu_buffer_used := cu_buffer_size s\<rparr>))"

definition copyout_BackUp :: "'c write_op \<Rightarrow> 'c copying_output obackup_op" where
  "copyout_BackUp wr count s =
     (if count = 0 then Some (snd (copyout_Flush wr s))
      else if \<not> count \<ge> 0 then None
      else if \<not> cu_buffer_used s = cu_buffer_size s then None
      else if \<not> count \<le> cu_buffer_used s then None
      else Some (s\<lparr>cu_buffer_used := cu_buffer_used s - count\<rparr>))"

definition copyout_ByteCount :: "'c copying_output \<Rightarrow> int" where
  "copyout_ByteCount s = cu_position s + cu_buffer_used s"

definition copyout_put :: "'c copying_output put_op" where
  "copyout_put a bs s = s\<lparr>cu_buffer := map_option (\<lambda>m. overwrite m a bs) (cu_buffer s)\<rparr>"

partial_function (option) copyout_WriteAliased_loop ::
  "'c write_op \<Rightarrow> string \<Rightarrow> 'c copying_output \<Rightarrow> (bool \<times> 'c copying_output) option" where
  "copyout_WriteAliased_loop wr data s = do {
     (r, s) \<leftarrow> copyout_Next wr s;
     case r of
       None \<Rightarrow> Some (False, s)
     | Some (out, out_size) \<Rightarrow>
         if int (length data) \<le> out_size
         then do { s \<leftarrow> copyout_BackUp wr (out_size - int (length data)) (copyout_put out data s);
                   Some (True, s) }
         else copyout_WriteAliased_loop wr (drop (nat out_size) data)
                (copyout_put out (take (nat out_size) data) s) }"

definition copyout_WriteAliasedRaw ::
  "'c write_op \<Rightarrow> string \<Rightarrow> 'c copying_output \<Rightarrow> (bool \<times> 'c copying_output) option" where
  "copyout_WriteAliasedRaw wr data s =
     (if int (length data) \<ge> cu_buffer_size s
      then let (b, s) = copyout_Flush wr s
           in if \<not> b then Some (False, s)
              else let (b, c) = wr data (cu_stream s);
                       s = s\<lparr>cu_stream := c\<rparr>
                   in if \<not> b then Some (False, s)
                      else Some (True, s\<lparr>cu_position := cu_position s + int (length data)\<rparr>)
      else copyout_WriteAliased_loop wr data s)"

fun copyout_WriteCord ::
  "'c write_op \<Rightarrow> string list \<Rightarrow> 'c copying_output \<Rightarrow> (bool \<times> 'c copying_output) option" where
  "copyout_WriteCord wr [] s = Some (True, s)"
| "copyout_WriteCord wr (c # cs) s = do {
     (b, s) \<leftarrow> copyout_WriteAliasedRaw wr c s;
     if b then copyout_WriteCord wr cs s else Some (False, s) }"

text \<open>The destructor writes the buffer and ignores the result.\<close>

definition copyout_destroy :: "'c write_op \<Rightarrow> 'c copying_output \<Rightarrow> 'c" where
  "copyout_destroy wr s = cu_stream (snd (copyout_WriteBuffer wr s))"

subsection \<open>A sink that accepts everything\<close>

definition copyout_inv :: "('c \<Rightarrow> bool) \<Rightarrow> ('c \<Rightarrow> string) \<Rightarrow> 'c copying_output \<Rightarrow> bool" where
  "copyout_inv cinv out s \<longleftrightarrow> cinv (cu_stream s) \<and> \<not> cu_failed s \<and> 0 < cu_buffer_size s
     \<and> 0 \<le> cu_buffer_used s \<and> cu_buffer_used s \<le> cu_buffer_size s
     \<and> cu_position s = int (length (out (cu_stream s)))
     \<and> (0 < cu_buffer_used s \<longrightarrow> cu_buffer s \<noteq> None)
     \<and> (\<forall>m. cu_buffer s = Some m \<longrightarrow> int (length m) = cu_buffer_size s)"

definition copyout_written :: "('c \<Rightarrow> string) \<Rightarrow> 'c copying_output \<Rightarrow> string" where
  "copyout_written out s = out (cu_stream s) @ take (nat (cu_buffer_used s)) (the (cu_buffer s))"

locale copying_write =
  fixes wr :: "string \<Rightarrow> 'c \<Rightarrow> bool \<times> 'c" and cinv :: "'c \<Rightarrow> bool" and out :: "'c \<Rightarrow> string"
  assumes write_out: "cinv c \<Longrightarrow> \<exists>c'. wr bs c = (True, c') \<and> cinv c' \<and> out c' = out c @ bs"
begin

lemma copyout_WriteBuffer_out:
  assumes "copyout_inv cinv out s"
  shows "\<exists>s'. copyout_WriteBuffer wr s = (True, s') \<and> copyout_inv cinv out s' \<and> cu_buffer_used s' = 0
      \<and> out (cu_stream s') = copyout_written out s \<and> copyout_written out s' = copyout_written out s
      \<and> cu_buffer_size s' = cu_buffer_size s"
proof (cases "cu_buffer_used s = 0")
  case True
  with assms show ?thesis by (simp add: copyout_WriteBuffer_def copyout_inv_def copyout_written_def)
next
  case False
  then have u: "0 < cu_buffer_used s" using assms by (simp add: copyout_inv_def)
  then obtain m where m: "cu_buffer s = Some m" "int (length m) = cu_buffer_size s"
    using assms by (auto simp: copyout_inv_def)
  let ?bs = "take (nat (cu_buffer_used s)) m"
  have "cinv (cu_stream s)" using assms by (simp add: copyout_inv_def)
  from write_out [OF this, of ?bs] obtain c where
    c: "wr ?bs (cu_stream s) = (True, c)" "cinv c" "out c = out (cu_stream s) @ ?bs" by blast
  let ?s' = "s\<lparr>cu_stream := c, cu_position := cu_position s + cu_buffer_used s, cu_buffer_used := 0\<rparr>"
  have "int (length ?bs) = cu_buffer_used s" using m u assms by (auto simp: copyout_inv_def)
  then have "copyout_inv cinv out ?s'"
    using assms m c by (simp add: copyout_inv_def)
  moreover have "copyout_WriteBuffer wr s = (True, ?s')"
    using u m c(1) assms by (simp add: copyout_WriteBuffer_def copyout_inv_def)
  ultimately show ?thesis using c(3) m by (simp add: copyout_written_def)
qed

text \<open>The part of \<open>Next()\<close> before it hands out the buffer.\<close>

lemma copyout_Next_out:
  assumes "copyout_inv cinv out s"
  obtains s1 m where "copyout_inv cinv out s1" "copyout_written out s1 = copyout_written out s"
    "cu_buffer s1 = Some m" "int (length m) = cu_buffer_size s1" "cu_buffer_used s1 < cu_buffer_size s1"
    "copyout_Next wr s = Some (Some (cu_buffer_used s1, cu_buffer_size s1 - cu_buffer_used s1),
                               s1\<lparr>cu_buffer_used := cu_buffer_size s1\<rparr>)"
proof -
  obtain s0 where s0: "(if cu_buffer_used s = cu_buffer_size s then copyout_WriteBuffer wr s else (True, s)) = (True, s0)"
    "copyout_inv cinv out s0" "copyout_written out s0 = copyout_written out s"
    "cu_buffer_used s0 < cu_buffer_size s0"
  proof (cases "cu_buffer_used s = cu_buffer_size s")
    case True
    from copyout_WriteBuffer_out [OF assms] True that assms show ?thesis
      by (auto simp: copyout_inv_def)
  next
    case False
    with assms that [of s] show ?thesis by (simp add: copyout_inv_def)
  qed
  define s1 where "s1 = copyout_AllocateBufferIfNeeded s0"
  have "copyout_inv cinv out s1" "copyout_written out s1 = copyout_written out s0"
    using s0(2) by (auto simp: s1_def copyout_AllocateBufferIfNeeded_def copyout_inv_def copyout_written_def)
  moreover have "\<exists>m. cu_buffer s1 = Some m \<and> int (length m) = cu_buffer_size s1"
    "cu_buffer_used s1 < cu_buffer_size s1"
    using s0(2,4) by (auto simp: s1_def copyout_AllocateBufferIfNeeded_def copyout_inv_def)
  moreover have "copyout_Next wr s = Some (Some (cu_buffer_used s1, cu_buffer_size s1 - cu_buffer_used s1),
                               s1\<lparr>cu_buffer_used := cu_buffer_size s1\<rparr>)"
    unfolding copyout_Next_def s0(1) by (simp add: s1_def Let_def)
  ultimately show ?thesis using that s0(3) by auto
qed

text \<open>Storing \<open>b\<close> in the buffer that was handed out and keeping exactly that much of it.\<close>

lemma copyout_put_used:
  assumes "copyout_inv cinv out s1" and "cu_buffer s1 = Some m" and "int (length m) = cu_buffer_size s1"
    and "cu_buffer_used s1 + int (length b) \<le> cu_buffer_size s1"
  defines "t \<equiv> copyout_put (cu_buffer_used s1) b (s1\<lparr>cu_buffer_used := cu_buffer_size s1\<rparr>)"
  shows "copyout_inv cinv out (t\<lparr>cu_buffer_used := cu_buffer_used s1 + int (length b)\<rparr>)"
    and "copyout_written out (t\<lparr>cu_buffer_used := cu_buffer_used s1 + int (length b)\<rparr>)
         = copyout_written out s1 @ b"
    and "cu_buffer_used t = cu_buffer_size t" and "cu_buffer_size t = cu_buffer_size s1"
proof -
  have u: "0 \<le> cu_buffer_used s1" "cu_buffer_used s1 + int (length b) \<le> int (length m)"
    using assms by (auto simp: copyout_inv_def)
  show "copyout_inv cinv out (t\<lparr>cu_buffer_used := cu_buffer_used s1 + int (length b)\<rparr>)"
    using assms(1-4) u by (simp add: copyout_inv_def t_def copyout_put_def)
  have "nat (cu_buffer_used s1 + int (length b)) = nat (cu_buffer_used s1) + length b" using u by simp
  then show "copyout_written out (t\<lparr>cu_buffer_used := cu_buffer_used s1 + int (length b)\<rparr>)
         = copyout_written out s1 @ b"
    using take_overwrite [OF u] assms(2) by (simp add: t_def copyout_put_def copyout_written_def)
  show "cu_buffer_used t = cu_buffer_size t" "cu_buffer_size t = cu_buffer_size s1"
    by (simp_all add: t_def copyout_put_def)
qed

end

sublocale copying_write \<subseteq> adaptor_out: zero_copy_output "copyout_Next wr" copyout_put "copyout_BackUp wr"
    copyout_ByteCount "copyout_inv cinv out" "copyout_written out" "\<lambda>k. False"
proof unfold_locales
  fix s
  assume s: "copyout_inv cinv out s"
  have "int (length (take (nat (cu_buffer_used s)) (the (cu_buffer s)))) = cu_buffer_used s"
    using s by (cases "cu_buffer_used s = 0") (auto simp: copyout_inv_def)
  with s show "copyout_ByteCount s = int (length (copyout_written out s))"
    by (simp add: copyout_ByteCount_def copyout_written_def copyout_inv_def)
next
  fix s
  assume s: "copyout_inv cinv out s"
  then show "(\<exists>s'. copyout_Next wr s = Some (None, s') \<and> False)
      \<or> (\<exists>p n s'. copyout_Next wr s = Some (Some (p, n), s') \<and> 0 < n)"
    by (rule copyout_Next_out) auto
next
  fix s s'
  assume s: "copyout_inv cinv out s" "copyout_Next wr s = Some (None, s')"
  from s(1) have "\<exists>r. copyout_Next wr s = Some (Some (fst r), snd r)" by (rule copyout_Next_out) auto
  with s(2) show "copyout_inv cinv out s' \<and> copyout_written out s' = copyout_written out s" by simp
next
  fix s p n s' and b :: string
  assume s: "copyout_inv cinv out s" "copyout_Next wr s = Some (Some (p, n), s')" and b: "int (length b) = n"
  from s(1) show "copyout_inv cinv out (copyout_put p b s')
      \<and> copyout_written out (copyout_put p b s') = copyout_written out s @ b"
  proof (rule copyout_Next_out)
    fix s1 m
    assume o: "copyout_inv cinv out s1" "copyout_written out s1 = copyout_written out s"
      "cu_buffer s1 = Some m" "int (length m) = cu_buffer_size s1" "cu_buffer_used s1 < cu_buffer_size s1"
      "copyout_Next wr s = Some (Some (cu_buffer_used s1, cu_buffer_size s1 - cu_buffer_used s1),
                               s1\<lparr>cu_buffer_used := cu_buffer_size s1\<rparr>)"
    have n: "p = cu_buffer_used s1" "n = cu_buffer_size s1 - cu_buffer_used s1"
      "s' = s1\<lparr>cu_buffer_used := cu_buffer_size s1\<rparr>" using s(2) o(6) by simp_all
    then have le: "cu_buffer_used s1 + int (length b) \<le> cu_buffer_size s1" using b by simp
    have "(copyout_put p b s')\<lparr>cu_buffer_used := p + int (length b)\<rparr> = copyout_put p b s'"
      using b n by (simp add: copyout_put_def)
    with copyout_put_used [OF o(1,3,4) le, folded n(1,3)] o(2) show ?thesis by simp
  qed
next
  fix s p n s' and b :: string
  assume s: "copyout_inv cinv out s" "copyout_Next wr s = Some (Some (p, n), s')" and b: "int (length b) \<le> n"
  from s(1) show "\<exists>s''. copyout_BackUp wr (n - int (length b)) (copyout_put p b s') = Some s''
      \<and> copyout_inv cinv out s'' \<and> copyout_written out s'' = copyout_written out s @ b"
  proof (rule copyout_Next_out)
    fix s1 m
    assume o: "copyout_inv cinv out s1" "copyout_written out s1 = copyout_written out s"
      "cu_buffer s1 = Some m" "int (length m) = cu_buffer_size s1" "cu_buffer_used s1 < cu_buffer_size s1"
      "copyout_Next wr s = Some (Some (cu_buffer_used s1, cu_buffer_size s1 - cu_buffer_used s1),
                               s1\<lparr>cu_buffer_used := cu_buffer_size s1\<rparr>)"
    have n: "p = cu_buffer_used s1" "n = cu_buffer_size s1 - cu_buffer_used s1"
      "s' = s1\<lparr>cu_buffer_used := cu_buffer_size s1\<rparr>" using s(2) o(6) by simp_all
    let ?t = "copyout_put p b s'"
    have le: "cu_buffer_used s1 + int (length b) \<le> cu_buffer_size s1" using b n by simp
    note u = copyout_put_used [OF o(1,3,4) le, folded n(1,3)]
    show ?thesis
    proof (cases "n = int (length b)")
      case True
      have "?t\<lparr>cu_buffer_used := p + int (length b)\<rparr> = ?t"
        using True n by (simp add: copyout_put_def)
      with u have t: "copyout_inv cinv out ?t" "copyout_written out ?t = copyout_written out s1 @ b" by simp_all
      from copyout_WriteBuffer_out [OF t(1)] t(2) True o(2) show ?thesis
        by (auto simp: copyout_BackUp_def copyout_Flush_def)
    next
      case False
      have le: "0 \<le> cu_buffer_used s1" using o(1) by (simp add: copyout_inv_def)
      have "copyout_BackUp wr (n - int (length b)) ?t = Some (?t\<lparr>cu_buffer_used := cu_buffer_used ?t - (n - int (length b))\<rparr>)"
        using False b n(2) u(3,4) le by (simp add: copyout_BackUp_def)
      moreover have "cu_buffer_used ?t - (n - int (length b)) = p + int (length b)"
        using u(3,4) n by simp
      ultimately show ?thesis using u(1,2) o(2) by simp
    qed
  qed
next
  fix s p n s' and a b :: string
  assume s: "copyout_inv cinv out s" "copyout_Next wr s = Some (Some (p, n), s')" and ab: "int (length (a @ b)) \<le> n"
  from s(1) show "copyout_put (p + int (length a)) b (copyout_put p a s') = copyout_put p (a @ b) s'"
  proof (rule copyout_Next_out)
    fix s1 m
    assume o: "copyout_inv cinv out s1" "copyout_written out s1 = copyout_written out s"
      "cu_buffer s1 = Some m" "int (length m) = cu_buffer_size s1" "cu_buffer_used s1 < cu_buffer_size s1"
      "copyout_Next wr s = Some (Some (cu_buffer_used s1, cu_buffer_size s1 - cu_buffer_used s1),
                               s1\<lparr>cu_buffer_used := cu_buffer_size s1\<rparr>)"
    have "0 \<le> p" "p + int (length a) + int (length b) \<le> int (length m)" "cu_buffer s' = Some m"
      using s(2) o ab by (auto simp: copyout_inv_def)
    then show ?thesis by (simp add: copyout_put_def overwrite_append)
  qed
qed (simp add: copyout_put_def option.map_ident_strong)

context copying_write begin

lemma WriteAliased_loop_written:
  assumes "copyout_inv cinv out s"
  shows "\<exists>s'. copyout_WriteAliased_loop wr data s = Some (True, s') \<and> copyout_inv cinv out s'
      \<and> copyout_written out s' = copyout_written out s @ data"
  using assms
proof (induction "length data" arbitrary: data s rule: less_induct)
  case less
  obtain p n t where n: "copyout_Next wr s = Some (Some (p, n), t)" "0 < n"
    using adaptor_out.nxt_buffer [OF less.prems] by blast
  show ?case
  proof (cases "int (length data) \<le> n")
    case True
    from adaptor_out.fill_backup [OF less.prems n(1) this] True n(1) show ?thesis
      by (subst copyout_WriteAliased_loop.simps) auto
  next
    case False
    let ?c = "take (nat n) data"
    have "int (length ?c) = n" using False n(2) by simp
    note f = adaptor_out.fill_buffer [OF less.prems n(1) this]
    have "length (drop (nat n) data) < length data" using False n(2) by simp
    from less.hyps [OF this, of "copyout_put p ?c t"] f obtain s' where
      "copyout_WriteAliased_loop wr (drop (nat n) data) (copyout_put p ?c t) = Some (True, s')"
      "copyout_inv cinv out s'" "copyout_written out s' = (copyout_written out s @ ?c) @ drop (nat n) data"
      by metis
    with False n(1) show ?thesis by (subst copyout_WriteAliased_loop.simps) simp
  qed
qed

lemma WriteAliasedRaw_written:
  assumes "copyout_inv cinv out s"
  shows "\<exists>s'. copyout_WriteAliasedRaw wr data s = Some (True, s') \<and> copyout_inv cinv out s'
      \<and> copyout_written out s' = copyout_written out s @ data"
proof (cases "int (length data) \<ge> cu_buffer_size s")
  case False
  with WriteAliased_loop_written [OF assms] show ?thesis by (simp add: copyout_WriteAliasedRaw_def)
next
  case True
  obtain s1 where s1: "copyout_WriteBuffer wr s = (True, s1)" "copyout_inv cinv out s1" "cu_buffer_used s1 = 0"
    "copyout_written out s1 = copyout_written out s"
    using copyout_WriteBuffer_out [OF assms] by blast
  have "cinv (cu_stream s1)" using s1(2) by (simp add: copyout_inv_def)
  from write_out [OF this, of data] obtain c where
    c: "wr data (cu_stream s1) = (True, c)" "cinv c" "out c = out (cu_stream s1) @ data" by blast
  let ?s' = "s1\<lparr>cu_stream := c, cu_position := cu_position s1 + int (length data)\<rparr>"
  have "copyout_WriteAliasedRaw wr data s = Some (True, ?s')"
    using True s1(1) c(1) by (simp add: copyout_WriteAliasedRaw_def copyout_Flush_def Let_def)
  moreover have "copyout_inv cinv out ?s'" using s1(2,3) c by (simp add: copyout_inv_def)
  moreover have "copyout_written out ?s' = copyout_written out s @ data"
    using s1(3,4) c(3) by (simp add: copyout_written_def)
  ultimately show ?thesis by blast
qed

lemma copyout_WriteCord_written:
  assumes "copyout_inv cinv out s"
  shows "\<exists>s'. copyout_WriteCord wr cs s = Some (True, s') \<and> copyout_inv cinv out s'
      \<and> copyout_written out s' = copyout_written out s @ concat cs"
  using assms
proof (induction cs arbitrary: s)
  case Nil
  then show ?case by simp
next
  case (Cons c cs)
  from WriteAliasedRaw_written [OF Cons.prems, of c] obtain t where
    t: "copyout_WriteAliasedRaw wr c s = Some (True, t)" "copyout_inv cinv out t"
      "copyout_written out t = copyout_written out s @ c" by blast
  from Cons.IH [OF t(2)] t show ?case by auto
qed

lemma copyout_destroy_out:
  "copyout_inv cinv out s \<Longrightarrow> out (copyout_destroy wr s) = copyout_written out s"
  using copyout_WriteBuffer_out [of s] by (auto simp: copyout_destroy_def)

end

subsection \<open>OstreamOutputStream\<close>

text \<open>
  Of \<open>std::ostream\<close> the model has the characters written and whether the stream is \<open>good()\<close>;
  \<open>os_room\<close> is how many more characters the device takes, \<open>None\<close> for a device without limit.
  A write that fails may have written a part.
\<close>

record std_ostream =
  os_content :: string
  os_room :: "nat option"
  os_good :: bool

definition std_write :: "string \<Rightarrow> std_ostream \<Rightarrow> std_ostream" where
  "std_write bs s =
     (if \<not> os_good s then s
      else case os_room s of
             None \<Rightarrow> s\<lparr>os_content := os_content s @ bs\<rparr>
           | Some n \<Rightarrow>
               if length bs \<le> n
               then s\<lparr>os_content := os_content s @ bs, os_room := Some (n - length bs)\<rparr>
               else s\<lparr>os_content := os_content s @ take n bs, os_room := Some 0, os_good := False\<rparr>)"

definition CopyingOstream_Write :: "std_ostream write_op" where
  "CopyingOstream_Write bs s = (let s = std_write bs s in (os_good s, s))"

definition ostream_inv :: "std_ostream \<Rightarrow> bool" where
  "ostream_inv s \<longleftrightarrow> os_good s \<and> os_room s = None"

interpretation ostream: copying_write CopyingOstream_Write ostream_inv os_content
  by unfold_locales (simp add: CopyingOstream_Write_def std_write_def ostream_inv_def)

subsection \<open>Errors of the sink\<close>

text \<open>
  For any device: a flush that succeeds has put everything in the device; one that fails leaves
  a prefix there, and the stream refuses to flush from then on.
\<close>

lemma ostream_Flush_cases:
  assumes "copyout_Flush CopyingOstream_Write s = (b, s')"
  shows "b \<Longrightarrow> \<not> cu_failed s \<Longrightarrow> os_content (cu_stream s') = copyout_written os_content s \<and> cu_buffer_used s' = 0"
    and "\<not> b \<Longrightarrow> cu_failed s' \<and> copyout_Flush CopyingOstream_Write s' = (False, s')
          \<and> (\<not> cu_failed s \<longrightarrow> prefix (os_content (cu_stream s')) (copyout_written os_content s))"
proof -
  let ?bs = "take (nat (cu_buffer_used s)) (the (cu_buffer s))"
  let ?t = "std_write ?bs (cu_stream s)"
  note defs = copyout_Flush_def copyout_WriteBuffer_def copyout_FreeBuffer_def CopyingOstream_Write_def
  have w: "os_good ?t \<Longrightarrow> os_content ?t = os_content (cu_stream s) @ ?bs"
    by (auto simp: std_write_def split: option.splits if_splits)
  have "prefix (os_content (std_write bs c)) (os_content c @ bs)" for bs c
    by (auto simp: std_write_def take_is_prefix split: option.splits)
  then have p: "prefix (os_content ?t) (os_content (cu_stream s) @ ?bs)" .
  show "b \<Longrightarrow> \<not> cu_failed s \<Longrightarrow> os_content (cu_stream s') = copyout_written os_content s \<and> cu_buffer_used s' = 0"
    using assms w by (auto simp: defs copyout_written_def Let_def split: if_splits)
  show "\<not> b \<Longrightarrow> cu_failed s' \<and> copyout_Flush CopyingOstream_Write s' = (False, s')
          \<and> (\<not> cu_failed s \<longrightarrow> prefix (os_content (cu_stream s')) (copyout_written os_content s))"
    using assms p by (auto simp: defs copyout_written_def Let_def split: if_splits)
qed

end
