(* ===== verification/Cord_Output.thy ===== *)
theory Cord_Output
  imports Copying_Output
begin

section \<open>CordOutputStream\<close>

text \<open>
  \<open>CordOutputStream\<close> (file \<open>io/zero_copy_stream_impl_lite.cc\<close>). A cord is its content, and an
  \<open>absl::CordBuffer\<close> its content and capacity. Abseil is not part of the repository: which
  part of a cord \<open>GetAppendBuffer\<close> takes back, the capacity a new buffer gets and the bytes of
  uninitialised memory are the record \<open>absl_buffers\<close>, and \<open>buffers_ok\<close> is their documented
  behaviour: the buffer taken back is the end of the cord and has room for more, and a new
  buffer is not of capacity zero. \<open>assert\<close> is compiled out of release builds.
\<close>

record cord_buffer =
  cb_data :: string
  cb_capacity :: int

record absl_buffers =
  GetAppendBuffer :: "string \<Rightarrow> int \<Rightarrow> string \<times> cord_buffer"
  CreateWithDefaultLimit :: "int \<Rightarrow> int"
  uninitialized :: "nat \<Rightarrow> char"

definition buffers_ok :: "absl_buffers \<Rightarrow> bool" where
  "buffers_ok A \<longleftrightarrow>
     (\<forall>c n. fst (GetAppendBuffer A c n) @ cb_data (snd (GetAppendBuffer A c n)) = c
        \<and> int (length (cb_data (snd (GetAppendBuffer A c n)))) < cb_capacity (snd (GetAppendBuffer A c n)))
     \<and> (\<forall>n. 0 < CreateWithDefaultLimit A n)"

definition empty_buffer :: cord_buffer where
  "empty_buffer = \<lparr>cb_data = [], cb_capacity = 15\<rparr>"

definition SetLength :: "absl_buffers \<Rightarrow> int \<Rightarrow> cord_buffer \<Rightarrow> cord_buffer" where
  "SetLength A n b =
     b\<lparr>cb_data := take (nat n) (cb_data b) @ map (uninitialized A) [length (cb_data b) ..< nat n]\<rparr>"

datatype cord_state = kEmpty | kFull | kPartial | kSteal

record cord_output =
  cx_cord :: string
  cx_size_hint :: int
  cx_state :: cord_state
  cx_buffer :: cord_buffer

definition CordOutputStream :: "int \<Rightarrow> cord_output" where
  "CordOutputStream size_hint =
     \<lparr>cx_cord = [], cx_size_hint = size_hint, cx_state = kEmpty, cx_buffer = empty_buffer\<rparr>"

definition CordOutputStream_cord :: "string \<Rightarrow> int \<Rightarrow> cord_output" where
  "CordOutputStream_cord cord size_hint =
     \<lparr>cx_cord = cord, cx_size_hint = size_hint, cx_state = (if cord = [] then kEmpty else kSteal),
      cx_buffer = empty_buffer\<rparr>"

definition CordOutputStream_buffer :: "string \<Rightarrow> cord_buffer \<Rightarrow> int \<Rightarrow> cord_output" where
  "CordOutputStream_buffer cord buffer size_hint =
     \<lparr>cx_cord = cord, cx_size_hint = size_hint,
      cx_state = (if int (length (cb_data buffer)) < cb_capacity buffer then kPartial else kFull),
      cx_buffer = buffer\<rparr>"

definition kMinBlockSize :: int where "kMinBlockSize = 128"

definition cordout_ByteCount :: "cord_output \<Rightarrow> int" where
  "cordout_ByteCount s = int (length (cx_cord s)) + int (length (cb_data (cx_buffer s)))"

text \<open>Appending the moved-from buffer to the cord leaves it empty.\<close>

definition flush_buffer :: "cord_output \<Rightarrow> cord_output" where
  "flush_buffer s = s\<lparr>cx_cord := cx_cord s @ cb_data (cx_buffer s), cx_buffer := empty_buffer\<rparr>"

text \<open>The \<open>switch\<close> of \<open>Next()\<close>: a buffer with room, from the cord, the current one, or a new one.\<close>

definition cordout_acquire :: "absl_buffers \<Rightarrow> int \<Rightarrow> cord_output \<Rightarrow> cord_output" where
  "cordout_acquire A desired_size s =
     (case cx_state s of
        kSteal \<Rightarrow> (let (cord, buffer) = GetAppendBuffer A (cx_cord s) desired_size
                   in s\<lparr>cx_cord := cord, cx_buffer := buffer\<rparr>)
      | kPartial \<Rightarrow> s
      | kFull \<Rightarrow> (flush_buffer s)
          \<lparr>cx_buffer := \<lparr>cb_data = [], cb_capacity = CreateWithDefaultLimit A desired_size\<rparr>\<rparr>
      | kEmpty \<Rightarrow> s
          \<lparr>cx_buffer := \<lparr>cb_data = [], cb_capacity = CreateWithDefaultLimit A desired_size\<rparr>\<rparr>)"

definition cordout_Next :: "absl_buffers \<Rightarrow> cord_output onext_op" where
  "cordout_Next A s =
     (let cord_size = cordout_ByteCount s;
          limited = cx_size_hint s > cord_size;
          desired_size = (if limited then cx_size_hint s - cord_size else max cord_size kMinBlockSize);
          s = cordout_acquire A desired_size s;
          used = int (length (cb_data (cx_buffer s)));
          available = cb_capacity (cx_buffer s) - used
      in if limited \<and> available > desired_size
         then Some (Some (used, desired_size),
                    s\<lparr>cx_buffer := SetLength A (used + desired_size) (cx_buffer s), cx_state := kPartial\<rparr>)
         else Some (Some (used, available),
                    s\<lparr>cx_buffer := SetLength A (used + available) (cx_buffer s), cx_state := kFull\<rparr>))"

definition cordout_BackUp :: "absl_buffers \<Rightarrow> cord_output obackup_op" where
  "cordout_BackUp A count s =
     (if count = 0 then Some s
      else let buffer_length = int (length (cb_data (cx_buffer s)))
           in if count \<le> buffer_length
              then Some (s\<lparr>cx_buffer := SetLength A (buffer_length - count) (cx_buffer s), cx_state := kPartial\<rparr>)
              else Some (s\<lparr>cx_buffer := empty_buffer,
                           cx_cord := take (nat (int (length (cx_cord s)) - count)) (cx_cord s),
                           cx_state := kSteal\<rparr>))"

definition cordout_WriteCord :: "string \<Rightarrow> cord_output \<Rightarrow> bool \<times> cord_output" where
  "cordout_WriteCord cord s =
     (let s = flush_buffer s in (True, s\<lparr>cx_cord := cx_cord s @ cord, cx_state := kSteal\<rparr>))"

definition cordout_Consume :: "cord_output \<Rightarrow> string \<times> cord_output" where
  "cordout_Consume s =
     (let s = flush_buffer s in (cx_cord s, s\<lparr>cx_cord := [], cx_state := kEmpty\<rparr>))"

definition cordout_put :: "cord_output put_op" where
  "cordout_put a bs s =
     s\<lparr>cx_buffer := (cx_buffer s)\<lparr>cb_data := overwrite (cb_data (cx_buffer s)) a bs\<rparr>\<rparr>"

text \<open>The states of the buffer: the conditions the code asserts in \<open>Next()\<close>.\<close>

definition cordout_inv :: "cord_output \<Rightarrow> bool" where
  "cordout_inv s \<longleftrightarrow>
     (case cx_state s of
        kSteal \<Rightarrow> cb_data (cx_buffer s) = []
      | kPartial \<Rightarrow> int (length (cb_data (cx_buffer s))) < cb_capacity (cx_buffer s)
      | kFull \<Rightarrow> True
      | kEmpty \<Rightarrow> cb_data (cx_buffer s) = [])"

definition cordout_written :: "cord_output \<Rightarrow> string" where
  "cordout_written s = cx_cord s @ cb_data (cx_buffer s)"

lemma CordOutputStream_open:
  "cordout_inv (CordOutputStream h)" "cordout_written (CordOutputStream h) = []"
  "cordout_inv (CordOutputStream_cord c h)" "cordout_written (CordOutputStream_cord c h) = c"
  "cordout_inv (CordOutputStream_buffer c b h)"
  "cordout_written (CordOutputStream_buffer c b h) = c @ cb_data b"
  by (simp_all add: cordout_inv_def cordout_written_def CordOutputStream_def empty_buffer_def
      CordOutputStream_cord_def CordOutputStream_buffer_def)

lemma SetLength_grow:
  "int (length (cb_data b)) \<le> n \<Longrightarrow>
     int (length (cb_data (SetLength A n b))) = n
     \<and> take (length (cb_data b)) (cb_data (SetLength A n b)) = cb_data b
     \<and> cb_capacity (SetLength A n b) = cb_capacity b"
  by (auto simp: SetLength_def)

lemma cordout_Next_SomeD:
  assumes "buffers_ok A" and "cordout_inv s" and "cordout_Next A s = Some (Some (p, n), s')"
  shows "\<exists>d. 0 < n \<and> p = int (length d) \<and> int (length (cb_data (cx_buffer s'))) = p + n
    \<and> take (length d) (cb_data (cx_buffer s')) = d \<and> cx_cord s' @ d = cordout_written s
    \<and> p + n \<le> cb_capacity (cx_buffer s')
    \<and> (cx_state s' = kPartial \<and> p + n < cb_capacity (cx_buffer s') \<or> cx_state s' = kFull)"
proof -
  define desired where "desired = (if cx_size_hint s > cordout_ByteCount s
    then cx_size_hint s - cordout_ByteCount s else max (cordout_ByteCount s) kMinBlockSize)"
  define t where "t = cordout_acquire A desired s"
  define lim where "lim \<longleftrightarrow> cx_size_hint s > cordout_ByteCount s
    \<and> cb_capacity (cx_buffer t) - int (length (cb_data (cx_buffer t))) > desired"
  define k where "k = (if lim then desired else cb_capacity (cx_buffer t) - int (length (cb_data (cx_buffer t))))"
  have "cordout_Next A s = Some (Some (int (length (cb_data (cx_buffer t))), k),
    t\<lparr>cx_buffer := SetLength A (int (length (cb_data (cx_buffer t))) + k) (cx_buffer t),
      cx_state := (if lim then kPartial else kFull)\<rparr>)"
    unfolding cordout_Next_def Let_def desired_def [symmetric] t_def [symmetric]
      lim_def [symmetric] k_def by simp
  with assms(3) have eq: "p = int (length (cb_data (cx_buffer t)))" "n = k"
    "s' = t\<lparr>cx_buffer := SetLength A (p + k) (cx_buffer t), cx_state := (if lim then kPartial else kFull)\<rparr>"
    by auto
  have A: "fst (GetAppendBuffer A (cx_cord s) desired) @ cb_data (snd (GetAppendBuffer A (cx_cord s) desired)) = cx_cord s"
      "int (length (cb_data (snd (GetAppendBuffer A (cx_cord s) desired))))
        < cb_capacity (snd (GetAppendBuffer A (cx_cord s) desired))" "0 < CreateWithDefaultLimit A desired"
    using assms(1) by (simp_all add: buffers_ok_def)
  have t: "int (length (cb_data (cx_buffer t))) < cb_capacity (cx_buffer t)"
    "cx_cord t @ cb_data (cx_buffer t) = cordout_written s"
    using assms(2) A by (cases "cx_state s"; simp add: t_def cordout_acquire_def cordout_inv_def
        split_beta cordout_written_def flush_buffer_def)+
  have k: "0 < k" "p + k \<le> cb_capacity (cx_buffer t)" "lim \<longrightarrow> p + k < cb_capacity (cx_buffer t)"
    using t(1) by (auto simp: k_def eq(1) lim_def desired_def)
  have g: "int (length (cb_data (cx_buffer t))) \<le> p + k" using k eq(1) by simp
  show ?thesis
    by (rule exI [of _ "cb_data (cx_buffer t)"])
       (use eq k t SetLength_grow [OF g, of A] in \<open>simp_all add: eq(3)\<close>)
qed

text \<open>Storing \<open>b\<close> at the start of the region and keeping exactly that much of it.\<close>

lemma cordout_fill:
  assumes s: "buffers_ok A" "cordout_inv s" "cordout_Next A s = Some (Some (p, n), s')"
    and b: "int (length b) \<le> n"
  shows "cx_cord s' @ take (nat p + length b) (cb_data (cx_buffer (cordout_put p b s'))) = cordout_written s @ b"
    and "int (length (cb_data (cx_buffer (cordout_put p b s')))) = p + n"
    and "cordout_inv (cordout_put p b s')"
    and "p + n \<le> cb_capacity (cx_buffer (cordout_put p b s'))"
proof -
  obtain d where d: "0 < n" "p = int (length d)" "int (length (cb_data (cx_buffer s'))) = p + n"
    "take (length d) (cb_data (cx_buffer s')) = d" "cx_cord s' @ d = cordout_written s"
    "p + n \<le> cb_capacity (cx_buffer s')"
    "cx_state s' = kPartial \<and> p + n < cb_capacity (cx_buffer s') \<or> cx_state s' = kFull"
    using cordout_Next_SomeD [OF s] by blast
  have p: "0 \<le> p" "p + int (length b) \<le> int (length (cb_data (cx_buffer s')))" using b d by simp_all
  have "take (nat p) (cb_data (cx_buffer s')) = d" using d(2,4) by simp
  then have "take (nat p + length b) (cb_data (cx_buffer (cordout_put p b s'))) = d @ b"
    using take_overwrite [OF p] by (simp add: cordout_put_def)
  then show "cx_cord s' @ take (nat p + length b) (cb_data (cx_buffer (cordout_put p b s'))) = cordout_written s @ b"
    by (simp add: d(5) [symmetric])
  show "int (length (cb_data (cx_buffer (cordout_put p b s')))) = p + n"
    using p d(3) by (simp add: cordout_put_def)
  then show "cordout_inv (cordout_put p b s')"
    using d(7) by (auto simp: cordout_inv_def cordout_put_def)
  show "p + n \<le> cb_capacity (cx_buffer (cordout_put p b s'))"
    using d(6) by (simp add: cordout_put_def)
qed

lemma cordout_fill_all:
  assumes s: "buffers_ok A" "cordout_inv s" "cordout_Next A s = Some (Some (p, n), s')"
    and b: "int (length b) = n"
  shows "cordout_inv (cordout_put p b s')" and "cordout_written (cordout_put p b s') = cordout_written s @ b"
proof -
  have b': "int (length b) \<le> n" using b by simp
  note f = cordout_fill [OF s b']
  show "cordout_inv (cordout_put p b s')" by (rule f(3))
  have "0 \<le> p" using cordout_Next_SomeD [OF s] by auto
  then have "length (cb_data (cx_buffer (cordout_put p b s'))) = nat p + length b" using f(2) b by simp
  then show "cordout_written (cordout_put p b s') = cordout_written s @ b"
    using f(1) by (simp add: cordout_written_def) (simp add: cordout_put_def)
qed

lemma cordout_fill_backup:
  assumes s: "buffers_ok A" "cordout_inv s" "cordout_Next A s = Some (Some (p, n), s')"
    and b: "int (length b) \<le> n"
  shows "\<exists>s''. cordout_BackUp A (n - int (length b)) (cordout_put p b s') = Some s'' \<and> cordout_inv s''
      \<and> cordout_written s'' = cordout_written s @ b"
proof (cases "n = int (length b)")
  case True
  with cordout_fill_all [OF s] show ?thesis by (simp add: cordout_BackUp_def)
next
  case False
  note f = cordout_fill [OF s b]
  let ?t = "cordout_put p b s'" and ?l = "p + int (length b)"
  let ?u = "?t\<lparr>cx_buffer := SetLength A ?l (cx_buffer ?t), cx_state := kPartial\<rparr>"
  have p: "0 \<le> p" using cordout_Next_SomeD [OF s] by auto
  have "cordout_BackUp A (n - int (length b)) ?t = Some ?u"
    using f(2) False p by (simp add: cordout_BackUp_def Let_def)
  moreover have data: "cb_data (SetLength A ?l (cx_buffer ?t)) = take (nat p + length b) (cb_data (cx_buffer ?t))"
    using f(2) b p by (simp add: SetLength_def nat_add_distrib)
  then have "cordout_written ?u = cordout_written s @ b"
    using f(1) by (simp add: cordout_written_def) (simp add: cordout_put_def)
  moreover have "int (length (cb_data (SetLength A ?l (cx_buffer ?t)))) < cb_capacity (cx_buffer ?t)"
    unfolding data using f(2,4) b False p by simp
  then have "cordout_inv ?u" by (simp add: cordout_inv_def SetLength_def)
  ultimately show ?thesis by blast
qed

text \<open>The stream over any behaviour of Abseil that \<open>buffers_ok\<close> allows.\<close>

interpretation cord_output: zero_copy_output "cordout_Next A" cordout_put "cordout_BackUp A"
    cordout_ByteCount "\<lambda>s. buffers_ok A \<and> cordout_inv s" cordout_written "\<lambda>k. False" for A
proof unfold_locales
  fix s
  show "cordout_ByteCount s = int (length (cordout_written s))"
    by (simp add: cordout_ByteCount_def cordout_written_def)
next
  fix s
  assume s: "buffers_ok A \<and> cordout_inv s"
  have "\<exists>p n s'. cordout_Next A s = Some (Some (p, n), s')"
    unfolding cordout_Next_def Let_def by (simp split: if_split)
  then show "(\<exists>s'. cordout_Next A s = Some (None, s') \<and> False)
      \<or> (\<exists>p n s'. cordout_Next A s = Some (Some (p, n), s') \<and> 0 < n)"
    using cordout_Next_SomeD s by fast
next
  fix s s'
  assume "cordout_Next A s = Some (None, s')"
  then show "(buffers_ok A \<and> cordout_inv s') \<and> cordout_written s' = cordout_written s"
    unfolding cordout_Next_def Let_def by (simp split: if_splits)
next
  fix s p n s' and b :: string
  assume s: "buffers_ok A \<and> cordout_inv s" "cordout_Next A s = Some (Some (p, n), s')" "int (length b) = n"
  from cordout_fill_all [OF conjunct1 conjunct2, OF s(1,1,2,3)] s(1)
  show "(buffers_ok A \<and> cordout_inv (cordout_put p b s'))
      \<and> cordout_written (cordout_put p b s') = cordout_written s @ b" by simp
next
  fix s p n s' and b :: string
  assume s: "buffers_ok A \<and> cordout_inv s" "cordout_Next A s = Some (Some (p, n), s')" "int (length b) \<le> n"
  from cordout_fill_backup [OF conjunct1 conjunct2, OF s(1,1,2,3)] s(1)
  show "\<exists>s''. cordout_BackUp A (n - int (length b)) (cordout_put p b s') = Some s''
      \<and> (buffers_ok A \<and> cordout_inv s'') \<and> cordout_written s'' = cordout_written s @ b"
    by blast
next
  fix s p n s' and a b :: string
  assume s: "buffers_ok A \<and> cordout_inv s" "cordout_Next A s = Some (Some (p, n), s')"
    and ab: "int (length (a @ b)) \<le> n"
  have "0 \<le> p" "int (length (cb_data (cx_buffer s'))) = p + n"
    using cordout_Next_SomeD [OF conjunct1 conjunct2, OF s(1,1,2)] by auto
  with ab have "0 \<le> p" "p + int (length a) + int (length b) \<le> int (length (cb_data (cx_buffer s')))" by simp_all
  then show "cordout_put (p + int (length a)) b (cordout_put p a s') = cordout_put p (a @ b) s'"
    by (simp add: cordout_put_def overwrite_append)
qed (simp add: cordout_put_def)

lemma cordout_WriteCord_written:
  "cordout_WriteCord c s = (True, s') \<Longrightarrow> cordout_written s' = cordout_written s @ c \<and> cordout_inv s'"
  by (auto simp: cordout_WriteCord_def flush_buffer_def cordout_written_def empty_buffer_def cordout_inv_def
      Let_def)

lemma cordout_Consume_written:
  "cordout_Consume s = (c, s') \<Longrightarrow> c = cordout_written s \<and> cordout_written s' = [] \<and> cordout_inv s'"
  by (auto simp: cordout_Consume_def flush_buffer_def cordout_written_def empty_buffer_def cordout_inv_def
      Let_def)

text \<open>A behaviour of Abseil that takes the last byte of a cord back and doubles what is asked for.\<close>

definition sample_buffers :: absl_buffers where
  "sample_buffers =
     \<lparr>GetAppendBuffer = (\<lambda>c n. (butlast c, \<lparr>cb_data = drop (length c - 1) c, cb_capacity = 2 + \<bar>n\<bar>\<rparr>)),
      CreateWithDefaultLimit = (\<lambda>n. 2 * \<bar>n\<bar> + 1), uninitialized = (\<lambda>_. CHR 0x00)\<rparr>"

lemma sample_buffers_ok: "buffers_ok sample_buffers"
proof -
  have "butlast c @ drop (length c - 1) c = c" for c :: string
    by (simp add: butlast_conv_take)
  then show ?thesis by (auto simp: buffers_ok_def sample_buffers_def)
qed

end
