(* ===== verification/Output_Laws.thy ===== *)
theory Output_Laws
  imports Cord_Output
begin

section \<open>What the clients of the output streams rely on\<close>

text \<open>
  The properties of the concrete output streams, from the interpretations of
  \<open>zero_copy_output\<close>. The client is \<open>WriteCord\<close>, the default or the overridden one, which uses
  \<open>Next\<close>, \<open>memcpy\<close> and \<open>BackUp\<close> over chunks of any size.
\<close>

text \<open>Writing a cord of any chunk structure to an \<open>ArrayOutputStream\<close> of any block size
  succeeds exactly when the content fits in the array; then the array starts with the
  content and \<open>ByteCount()\<close> is its length.\<close>

theorem array_output_WriteCord:
  "\<exists>b s. WriteCord arrayout_Next arrayout_put arrayout_BackUp chunks
        (ArrayOutputStream data (int (length data)) block_size) = Some (b, s)
     \<and> b = (length (concat chunks) \<le> length data)
     \<and> (b \<longrightarrow> take (length (concat chunks)) (ao_data s) = concat chunks
              \<and> arrayout_ByteCount s = int (length (concat chunks)))"
proof -
  let ?s = "ArrayOutputStream data (int (length data)) block_size"
  note o = ArrayOutputStream_open(1,2) [of data block_size] ArrayOutputStream_open(3) [of data "int (length data)" block_size]
  from array_output.WriteCord_written [OF o(1), of chunks] obtain b s where
    w: "WriteCord arrayout_Next arrayout_put arrayout_BackUp chunks ?s = Some (b, s)"
    "b \<longrightarrow> arrayout_inv (int (length data)) s \<and> arrayout_written s = concat chunks"
    "\<not> b \<longrightarrow> (\<exists>k < length (concat chunks). int k = int (length data))"
    using o(2,3) by auto
  have "arrayout_ByteCount s = int (length (concat chunks)) \<and> length (concat chunks) \<le> length data
      \<and> take (length (concat chunks)) (ao_data s) = concat chunks" if b
  proof -
    from w(2) that have i: "arrayout_inv (int (length data)) s" "arrayout_written s = concat chunks" by auto
    have "arrayout_ByteCount s = int (length (concat chunks))"
      using array_output.cnt_written [OF i(1)] i(2) by simp
    moreover from this i have "take (length (concat chunks)) (ao_data s) = concat chunks"
      by (simp add: arrayout_written_def arrayout_ByteCount_def)
    ultimately show ?thesis using i(1) by (simp add: arrayout_inv_def arrayout_ByteCount_def)
  qed
  with w(1,3) show ?thesis by auto
qed

lemma array_output_WriteCord_witness:
  "\<exists>s. WriteCord arrayout_Next arrayout_put arrayout_BackUp [''ab'', ''c'']
        (ArrayOutputStream ''wxyz'' 4 2) = Some (True, s)
     \<and> take (length (''abc'')) (ao_data s) = ''abc'' \<and> arrayout_ByteCount s = 3"
  using array_output_WriteCord [of "[''ab'', ''c'']" "''wxyz''" 2] by auto

text \<open>Writing a cord to a \<open>StringOutputStream\<close> always succeeds and appends exactly the content
  to the target string, whatever its capacity and however the library lets it grow.\<close>

theorem string_output_WriteCord:
  assumes "\<And>n. n \<le> so_grow s n"
  shows "\<exists>s'. WriteCord string_Next string_put string_BackUp chunks s = Some (True, s')
     \<and> so_target s' = so_target s @ concat chunks"
  using string_output.WriteCord_written [of s chunks] assms by (auto simp: string_inv_def)

lemma string_output_WriteCord_witness:
  "\<exists>s'. WriteCord string_Next string_put string_BackUp [''abc'', ''de'']
        \<lparr>so_target = ''x'', so_capacity = 2, so_grow = (\<lambda>n. n), so_fill = (\<lambda>_. CHR ''?'')\<rparr> = Some (True, s')
     \<and> so_target s' = ''xabcde''"
  using string_output_WriteCord [of "\<lparr>so_target = ''x'', so_capacity = 2, so_grow = (\<lambda>n. n), so_fill = (\<lambda>_. CHR ''?'')\<rparr>"
      "[''abc'', ''de'']"] by simp

text \<open>Over a device that accepts everything, an \<open>OstreamOutputStream\<close> writes exactly what it
  was given, in order: a cord through the default \<open>WriteCord\<close>, then one through the overridden
  one that passes large chunks on without copying them; the destructor flushes the buffer.\<close>

theorem ostream_writes:
  "\<exists>s s'. WriteCord (copyout_Next CopyingOstream_Write) copyout_put (copyout_BackUp CopyingOstream_Write) xs
        (CopyingOutputStreamAdaptor fill \<lparr>os_content = [], os_room = None, os_good = True\<rparr> block_size) = Some (True, s)
     \<and> copyout_WriteCord CopyingOstream_Write ys s = Some (True, s')
     \<and> copyout_ByteCount s' = int (length (concat xs @ concat ys))
     \<and> os_content (copyout_destroy CopyingOstream_Write s') = concat xs @ concat ys"
proof -
  let ?s = "CopyingOutputStreamAdaptor fill \<lparr>os_content = [], os_room = None, os_good = True\<rparr> block_size"
  have i: "copyout_inv ostream_inv os_content ?s" "copyout_written os_content ?s = []"
    by (simp_all add: copyout_inv_def CopyingOutputStreamAdaptor_def ostream_inv_def kDefaultBlockSize_out_def
        copyout_written_def)
  from ostream.adaptor_out.WriteCord_written [OF i(1), of xs] i(2) obtain s where
    s: "WriteCord (copyout_Next CopyingOstream_Write) copyout_put (copyout_BackUp CopyingOstream_Write) xs ?s = Some (True, s)"
    "copyout_inv ostream_inv os_content s" "copyout_written os_content s = concat xs" by auto
  from ostream.copyout_WriteCord_written [OF s(2), of ys] s(3) obtain s' where
    s': "copyout_WriteCord CopyingOstream_Write ys s = Some (True, s')"
    "copyout_inv ostream_inv os_content s'" "copyout_written os_content s' = concat xs @ concat ys" by auto
  from ostream.adaptor_out.cnt_written [OF s'(2)] ostream.copyout_destroy_out [OF s'(2)] s(1) s'(1,3)
  show ?thesis by auto
qed

text \<open>Over a device that may fail, a flush that returns true has put everything written so far
  in the device; a flush that returns false leaves a prefix of it there, and every later
  flush returns false as well.\<close>

theorem ostream_flush_error:
  assumes "copyout_Flush CopyingOstream_Write s = (b, s')" and "\<not> cu_failed s"
  shows "if b then os_content (cu_stream s') = copyout_written os_content s
         else prefix (os_content (cu_stream s')) (copyout_written os_content s)
           \<and> copyout_Flush CopyingOstream_Write s' = (False, s')"
  using ostream_Flush_cases [OF assms(1)] assms(2) by auto

lemma ostream_flush_error_witness:
  "let s = \<lparr>cu_stream = \<lparr>os_content = ''x'', os_room = Some 2, os_good = True\<rparr>, cu_failed = False,
            cu_position = 1, cu_buffer = Some ''abc?'', cu_buffer_size = 4, cu_buffer_used = 3,
            cu_fill = (\<lambda>_. CHR ''?'')\<rparr>;
       s' = snd (copyout_Flush CopyingOstream_Write s)
   in prefix (os_content (cu_stream s')) (copyout_written os_content s)
      \<and> copyout_Flush CopyingOstream_Write s' = (False, s')"
proof -
  let ?s = "\<lparr>cu_stream = \<lparr>os_content = ''x'', os_room = Some 2, os_good = True\<rparr>, cu_failed = False,
            cu_position = 1, cu_buffer = Some ''abc?'', cu_buffer_size = 4, cu_buffer_used = 3,
            cu_fill = (\<lambda>_. CHR ''?'')\<rparr>"
  have "copyout_Flush CopyingOstream_Write ?s = (False, snd (copyout_Flush CopyingOstream_Write ?s))"
    by (simp add: copyout_Flush_def copyout_WriteBuffer_def CopyingOstream_Write_def std_write_def Let_def)
  from ostream_flush_error [OF this] show ?thesis by (simp add: Let_def)
qed

text \<open>A \<open>CordOutputStream\<close> with any size hint, started on any cord, appends what is written
  through \<open>Next\<close> and \<open>BackUp\<close> and through its own \<open>WriteCord\<close>, and \<open>Consume\<close> returns exactly
  the initial cord followed by all of it, for any behaviour of Abseil within its contract.\<close>

theorem cord_output_writes:
  assumes "buffers_ok A"
  shows "\<exists>s. WriteCord (cordout_Next A) cordout_put (cordout_BackUp A) xs (CordOutputStream_cord c size_hint) = Some (True, s)
     \<and> cordout_ByteCount s = int (length (c @ concat xs))
     \<and> (\<exists>s'. WriteCord (cordout_Next A) cordout_put (cordout_BackUp A) ys (snd (cordout_WriteCord d s)) = Some (True, s')
          \<and> fst (cordout_Consume s') = c @ concat xs @ d @ concat ys)"
proof -
  note o = CordOutputStream_open(3,4) [of c size_hint]
  from cord_output.WriteCord_written [of A "CordOutputStream_cord c size_hint" xs] assms o obtain s where
    s: "WriteCord (cordout_Next A) cordout_put (cordout_BackUp A) xs (CordOutputStream_cord c size_hint) = Some (True, s)"
    "cordout_inv s" "cordout_written s = c @ concat xs" by auto
  have w: "cordout_WriteCord d s = (True, snd (cordout_WriteCord d s))" by (simp add: cordout_WriteCord_def Let_def)
  note t = cordout_WriteCord_written [OF w]
  from cord_output.WriteCord_written [of A "snd (cordout_WriteCord d s)" ys] assms t s(3) obtain s' where
    s': "WriteCord (cordout_Next A) cordout_put (cordout_BackUp A) ys (snd (cordout_WriteCord d s)) = Some (True, s')"
    "cordout_written s' = c @ concat xs @ d @ concat ys" by auto
  have "fst (cordout_Consume s') = cordout_written s'"
    using cordout_Consume_written [of s' "fst (cordout_Consume s')" "snd (cordout_Consume s')"] by simp
  moreover have "cordout_ByteCount s = int (length (c @ concat xs))"
    using s(3) by (simp add: cordout_ByteCount_def cordout_written_def flip: length_append of_nat_add)
  ultimately show ?thesis using s(1) s' by auto
qed

lemma cord_output_writes_witness:
  "\<exists>s. WriteCord (cordout_Next sample_buffers) cordout_put (cordout_BackUp sample_buffers) [''bc'', ''d'']
        (CordOutputStream_cord ''a'' 2) = Some (True, s)
     \<and> cordout_ByteCount s = int (length (''a'' @ concat [''bc'', ''d'']))
     \<and> (\<exists>s'. WriteCord (cordout_Next sample_buffers) cordout_put (cordout_BackUp sample_buffers) [''g'']
              (snd (cordout_WriteCord ''ef'' s)) = Some (True, s')
          \<and> fst (cordout_Consume s') = ''a'' @ concat [''bc'', ''d''] @ ''ef'' @ concat [''g''])"
  by (rule cord_output_writes [OF sample_buffers_ok])

end
