(* ===== verification/Field_Mask_Text.thy ===== *)
theory Field_Mask_Text
  imports Runtime
begin


section \<open>util/field_mask_util: masks as text\<close>

text \<open>
  A \<open>FieldMask\<close> message is the list of its paths. The functions of \<open>FieldMaskUtil\<close> (file
  \<open>util/field_mask_util.cc\<close>) that read and print masks, in the plain and in the JSON form; a
  function that returns false is \<open>None\<close>. \<open>StrSplit\<close>, \<open>StrJoin\<close> and \<open>ConsumePrefix\<close> are
  Abseil's, taken from the parameter \<open>A\<close>.
\<close>

type_synonym field_mask = "string list"

definition FieldMask_ToString :: "absl \<Rightarrow> field_mask \<Rightarrow> string" where
  "FieldMask_ToString A m = StrJoin A '','' m"

definition FieldMask_FromString :: "absl \<Rightarrow> string \<Rightarrow> field_mask" where
  "FieldMask_FromString A str = filter (\<lambda>path. path \<noteq> []) (StrSplit A CHR '','' str)"

text \<open>The arithmetic on characters of the case conversions.\<close>

definition is_upper :: "char \<Rightarrow> bool" where
  "is_upper c \<longleftrightarrow> CHR ''A'' \<le> c \<and> c \<le> CHR ''Z''"

definition is_lower :: "char \<Rightarrow> bool" where
  "is_lower c \<longleftrightarrow> CHR ''a'' \<le> c \<and> c \<le> CHR ''z''"

definition to_upper :: "char \<Rightarrow> char" where
  "to_upper c = char_of (of_char c + 65 - 97 :: nat)"

definition to_lower :: "char \<Rightarrow> char" where
  "to_lower c = char_of (of_char c + 97 - 65 :: nat)"

fun SnakeCaseToCamelCase_loop :: "bool \<Rightarrow> string \<Rightarrow> string \<Rightarrow> string option" where
  "SnakeCaseToCamelCase_loop after_underscore output [] = (if after_underscore then None else Some output)"
| "SnakeCaseToCamelCase_loop after_underscore output (c # cs) =
     (if is_upper c then None
      else if after_underscore
      then if is_lower c then SnakeCaseToCamelCase_loop False (output @ [to_upper c]) cs else None
      else if c = CHR ''_'' then SnakeCaseToCamelCase_loop True output cs
      else SnakeCaseToCamelCase_loop False (output @ [c]) cs)"

definition SnakeCaseToCamelCase :: "string \<Rightarrow> string option" where
  "SnakeCaseToCamelCase input = SnakeCaseToCamelCase_loop False [] input"

fun CamelCaseToSnakeCase_loop :: "string \<Rightarrow> string \<Rightarrow> string option" where
  "CamelCaseToSnakeCase_loop output [] = Some output"
| "CamelCaseToSnakeCase_loop output (c # cs) =
     (if c = CHR ''_'' then None
      else if is_upper c then CamelCaseToSnakeCase_loop (output @ [CHR ''_'', to_lower c]) cs
      else CamelCaseToSnakeCase_loop (output @ [c]) cs)"

definition CamelCaseToSnakeCase :: "string \<Rightarrow> string option" where
  "CamelCaseToSnakeCase input = CamelCaseToSnakeCase_loop [] input"

fun ToJsonString_loop :: "nat \<Rightarrow> string \<Rightarrow> field_mask \<Rightarrow> string option" where
  "ToJsonString_loop i out [] = Some out"
| "ToJsonString_loop i out (path # paths) =
     (case SnakeCaseToCamelCase path of
        None \<Rightarrow> None
      | Some camel \<Rightarrow> ToJsonString_loop (i + 1) (if i > 0 then out @ '','' @ camel else out @ camel) paths)"

definition FieldMask_ToJsonString :: "field_mask \<Rightarrow> string option" where
  "FieldMask_ToJsonString m = ToJsonString_loop 0 [] m"

fun FromJsonString_loop :: "field_mask \<Rightarrow> string list \<Rightarrow> field_mask option" where
  "FromJsonString_loop out [] = Some out"
| "FromJsonString_loop out (path # paths) =
     (if path = [] then FromJsonString_loop out paths
      else case CamelCaseToSnakeCase path of
             None \<Rightarrow> None
           | Some snake \<Rightarrow> FromJsonString_loop (out @ [snake]) paths)"

definition FieldMask_FromJsonString :: "absl \<Rightarrow> string \<Rightarrow> field_mask option" where
  "FieldMask_FromJsonString A str = FromJsonString_loop [] (StrSplit A CHR '','' str)"

fun IsPathInFieldMask :: "absl \<Rightarrow> string \<Rightarrow> field_mask \<Rightarrow> bool" where
  "IsPathInFieldMask A path [] = False"
| "IsPathInFieldMask A path (mask_path # m) =
     (if path = mask_path then True
      else if length mask_path < length path
              \<and> (case ConsumePrefix A path mask_path of
                   None \<Rightarrow> False
                 | Some current \<Rightarrow> ConsumePrefix A current ''.'' \<noteq> None)
      then True
      else IsPathInFieldMask A path m)"

subsection \<open>Characters\<close>

lemma is_upper_code: "is_upper c \<longleftrightarrow> 65 \<le> (of_char c :: nat) \<and> of_char c \<le> (90 :: nat)"
  by (simp add: is_upper_def less_eq_char_def)

lemma is_lower_code: "is_lower c \<longleftrightarrow> 97 \<le> (of_char c :: nat) \<and> of_char c \<le> (122 :: nat)"
  by (simp add: is_lower_def less_eq_char_def)

lemma to_upper_code: "is_lower c \<Longrightarrow> (of_char (to_upper c) :: nat) = of_char c - 32"
  by (auto simp: to_upper_def is_lower_code intro!: mod_less)

lemma to_lower_code: "is_upper c \<Longrightarrow> (of_char (to_lower c) :: nat) = of_char c + 32"
  by (auto simp: to_lower_def is_upper_code intro!: mod_less)

lemma char_code_eq: "c = d \<longleftrightarrow> (of_char c :: nat) = of_char d"
  by simp

lemma case_conversions [simp]:
  "is_lower c \<Longrightarrow> is_upper (to_upper c)" "is_upper c \<Longrightarrow> is_lower (to_lower c)"
  "is_lower c \<Longrightarrow> to_lower (to_upper c) = c" "is_upper c \<Longrightarrow> to_upper (to_lower c) = c"
  by (auto simp: is_upper_code is_lower_code to_upper_def to_lower_def)

lemma case_disjoint [simp]:
  "is_lower c \<Longrightarrow> \<not> is_upper c" "is_upper c \<Longrightarrow> c \<noteq> CHR ''_''" "is_lower c \<Longrightarrow> c \<noteq> CHR ''_''"
  "\<not> is_upper (CHR ''_'')" "is_upper c \<Longrightarrow> c \<noteq> CHR '',''"  "is_lower c \<Longrightarrow> c \<noteq> CHR '',''"
  by (auto simp: is_upper_code is_lower_code)

lemma case_comma:
  "is_upper c \<Longrightarrow> (CHR '','' = to_lower c) = False" "is_upper c \<Longrightarrow> (CHR '','' = c) = False"
  by (metis case_conversions(2) case_disjoint(5,6))+

subsection \<open>The case conversions are inverse to each other\<close>

text \<open>The output buffer only grows.\<close>

lemma snake_loop_acc:
  "SnakeCaseToCamelCase_loop u (a @ out) cs = map_option (\<lambda>r. a @ r) (SnakeCaseToCamelCase_loop u out cs)"
  by (induction cs arbitrary: u out) auto

lemma camel_loop_acc:
  "CamelCaseToSnakeCase_loop (a @ out) cs = map_option (\<lambda>r. a @ r) (CamelCaseToSnakeCase_loop out cs)"
  by (induction cs arbitrary: out) auto

lemma snake_simps:
  "SnakeCaseToCamelCase [] = Some []"
  "SnakeCaseToCamelCase (c # cs) =
     (if is_upper c then None
      else if c = CHR ''_'' then
        (case cs of [] \<Rightarrow> None
         | d # ds \<Rightarrow> if is_lower d then map_option (\<lambda>r. to_upper d # r) (SnakeCaseToCamelCase ds) else None)
      else map_option (\<lambda>r. c # r) (SnakeCaseToCamelCase cs))"
  unfolding SnakeCaseToCamelCase_def
  using snake_loop_acc [of False "[c]" "[]" cs] snake_loop_acc [of False "[to_upper (hd cs)]" "[]" "tl cs"]
  by (auto split: list.split)

lemma camel_simps:
  "CamelCaseToSnakeCase [] = Some []"
  "CamelCaseToSnakeCase (c # cs) =
     (if c = CHR ''_'' then None
      else if is_upper c then map_option (\<lambda>r. CHR ''_'' # to_lower c # r) (CamelCaseToSnakeCase cs)
      else map_option (\<lambda>r. c # r) (CamelCaseToSnakeCase cs))"
  unfolding CamelCaseToSnakeCase_def
  using camel_loop_acc [of "[c]" "[]" cs] camel_loop_acc [of "[CHR ''_'', to_lower c]" "[]" cs]
  by auto

lemma snake_camel: "SnakeCaseToCamelCase s = Some c \<Longrightarrow> CamelCaseToSnakeCase c = Some s"
proof (induction "length s" arbitrary: s c rule: less_induct)
  case less
  show ?case
  proof (cases s)
    case Nil
    with less.prems show ?thesis by (simp add: snake_simps camel_simps)
  next
    case (Cons x xs)
    with less.prems have u: "\<not> is_upper x" by (auto simp: snake_simps split: if_splits)
    show ?thesis
    proof (cases "x = CHR ''_''")
      case False
      with less.prems Cons u obtain c' where "SnakeCaseToCamelCase xs = Some c'" "c = x # c'"
        by (auto simp: snake_simps)
      with less.hyps [of xs c'] Cons False u show ?thesis by (simp add: camel_simps)
    next
      case True
      with less.prems Cons obtain d ds c' where "xs = d # ds" "is_lower d"
        "SnakeCaseToCamelCase ds = Some c'" "c = to_upper d # c'"
        by (auto simp: snake_simps split: list.splits if_splits)
      with less.hyps [of ds c'] Cons True show ?thesis by (simp add: camel_simps)
    qed
  qed
qed

lemma camel_snake: "CamelCaseToSnakeCase c = Some s \<Longrightarrow> SnakeCaseToCamelCase s = Some c"
proof (induction c arbitrary: s)
  case Nil
  then show ?case by (simp add: snake_simps camel_simps)
next
  case (Cons x xs)
  then show ?case by (auto simp: snake_simps camel_simps split: if_splits)
qed

text \<open>A conversion neither creates nor loses commas and is empty only for the empty name.\<close>

lemma camel_comma: "CamelCaseToSnakeCase c = Some s \<Longrightarrow> CHR '','' \<in> set s \<longleftrightarrow> CHR '','' \<in> set c"
proof (induction c arbitrary: s)
  case (Cons x xs)
  then show ?case
    by (auto simp: camel_simps case_comma split: if_splits)
qed (simp add: camel_simps)

lemma camel_empty: "CamelCaseToSnakeCase c = Some s \<Longrightarrow> s = [] \<longleftrightarrow> c = []"
  by (cases c) (auto simp: camel_simps split: if_splits)

subsection \<open>Printing and reading masks\<close>

lemma FromString_ref: "absl_ok A \<Longrightarrow> FieldMask_FromString A s = filter (\<lambda>p. p \<noteq> []) (split_on CHR '','' s)"
  by (simp add: FieldMask_FromString_def absl_StrSplit)

text \<open>The JSON form is the list of the converted paths, all of which must be convertible.\<close>

lemma ToJson_loop_Some:
  "ToJsonString_loop i out m = Some s \<longleftrightarrow>
     (\<exists>cs. list_all2 (\<lambda>p c. SnakeCaseToCamelCase p = Some c) m cs
        \<and> s = out @ (if i > 0 then concat (map (\<lambda>c. '','' @ c) cs) else join '','' cs))"
proof (induction m arbitrary: i out)
  case Nil
  then show ?case by auto
next
  case (Cons p m)
  have *: "concat (map (\<lambda>c. '','' @ c) (c # cs)) = '','' @ c @ concat (map (\<lambda>c. '','' @ c) cs)" for c cs by simp
  show ?case
  proof (cases "SnakeCaseToCamelCase p")
    case None
    then show ?thesis by (auto simp: list_all2_Cons1)
  next
    case (Some c)
    show ?thesis
      by (auto simp: Some Cons list_all2_Cons1 join_def)
  qed
qed

lemma ToJson_Some:
  "FieldMask_ToJsonString m = Some s \<longleftrightarrow>
     (\<exists>cs. list_all2 (\<lambda>p c. SnakeCaseToCamelCase p = Some c) m cs \<and> s = join '','' cs)"
  by (simp add: FieldMask_ToJsonString_def ToJson_loop_Some)

lemma FromJson_loop_Some:
  "FromJsonString_loop out ps = Some m \<longleftrightarrow>
     (\<exists>ss. list_all2 (\<lambda>p s. CamelCaseToSnakeCase p = Some s) (filter (\<lambda>p. p \<noteq> []) ps) ss \<and> m = out @ ss)"
proof (induction ps arbitrary: out)
  case Nil
  then show ?case by auto
next
  case (Cons p ps)
  show ?case by (cases "CamelCaseToSnakeCase p") (auto simp: Cons list_all2_Cons1)
qed

lemma FromJson_Some:
  "absl_ok A \<Longrightarrow> FieldMask_FromJsonString A s = Some m \<longleftrightarrow>
     list_all2 (\<lambda>p q. CamelCaseToSnakeCase p = Some q) (filter (\<lambda>p. p \<noteq> []) (split_on CHR '','' s)) m"
  by (simp add: FieldMask_FromJsonString_def FromJson_loop_Some absl_StrSplit)

lemma join_map_nonempty_split:
  assumes "\<forall>p \<in> set ps. p \<noteq> [] \<and> d \<notin> set p"
  shows "filter (\<lambda>p. p \<noteq> []) (split_on d (join [d] ps)) = ps"
proof (cases "ps = []")
  case True
  then show ?thesis by simp
next
  case False
  then have "split_on d (join [d] ps) = ps" using assms by (intro split_on_join) auto
  then show ?thesis using assms by (simp add: filter_id_conv)
qed

section \<open>util/field_mask_util: FieldMaskTree\<close>

text \<open>
  The tree form of a mask (class \<open>FieldMaskTree\<close> in \<open>util/field_mask_util.cc\<close>). A node is the
  list of its children in the order of their names, which is what \<open>absl::btree_map\<close> iterates
  over; a loop that walks a pointer down the tree and changes what it points to is a recursion
  that rebuilds the nodes on the way. Message types come from a pool of descriptors: the fields
  of a message type, in declaration order.
\<close>

subsection \<open>Descriptors\<close>

record field_descriptor =
  fd_name :: string
  fd_repeated :: bool
  fd_required :: bool
  fd_message_type :: "string option"

text \<open>\<open>fd_message_type\<close> is the type of a field with \<open>CPPTYPE_MESSAGE\<close>, \<open>None\<close> for the others.\<close>

type_synonym descriptor_pool = "string \<Rightarrow> field_descriptor list"

definition FindFieldByName :: "descriptor_pool \<Rightarrow> string \<Rightarrow> string \<Rightarrow> field_descriptor option" where
  "FindFieldByName pool descriptor name = List.find (\<lambda>f. fd_name f = name) (pool descriptor)"

fun GetFieldDescriptors_loop ::
  "descriptor_pool \<Rightarrow> string option \<Rightarrow> field_descriptor list \<Rightarrow> string list \<Rightarrow> field_descriptor list option" where
  "GetFieldDescriptors_loop pool descriptor found [] = Some found"
| "GetFieldDescriptors_loop pool descriptor found (field_name # parts) =
     (case descriptor of
        None \<Rightarrow> None
      | Some T \<Rightarrow>
          (case FindFieldByName pool T field_name of
             None \<Rightarrow> None
           | Some field \<Rightarrow>
               GetFieldDescriptors_loop pool (if \<not> fd_repeated field then fd_message_type field else None)
                 (found @ [field]) parts))"

definition GetFieldDescriptors :: "absl \<Rightarrow> descriptor_pool \<Rightarrow> string \<Rightarrow> string \<Rightarrow> field_descriptor list option" where
  "GetFieldDescriptors A pool descriptor path =
     GetFieldDescriptors_loop pool (Some descriptor) [] (StrSplit A CHR ''.'' path)"

definition GetFieldMaskForAllFields :: "descriptor_pool \<Rightarrow> string \<Rightarrow> field_mask \<Rightarrow> field_mask" where
  "GetFieldMaskForAllFields pool descriptor out = out @ map fd_name (pool descriptor)"

subsection \<open>Nodes\<close>

datatype node = Node (children: "(string \<times> node) list")

text \<open>\<open>btree_map::operator[]\<close> with an assignment, and \<open>erase\<close>.\<close>

fun child_set :: "string \<Rightarrow> 'n \<Rightarrow> (string \<times> 'n) list \<Rightarrow> (string \<times> 'n) list" where
  "child_set k v [] = [(k, v)]"
| "child_set k v ((k', v') # cs) =
     (if k < k' then (k, v) # (k', v') # cs
      else if k = k' then (k, v) # cs
      else (k', v') # child_set k v cs)"

definition child_erase :: "string \<Rightarrow> (string \<times> 'n) list \<Rightarrow> (string \<times> 'n) list" where
  "child_erase k cs = filter (\<lambda>(k', _). k' \<noteq> k) cs"

fun AddPath_loop :: "bool \<Rightarrow> bool \<Rightarrow> string list \<Rightarrow> node \<Rightarrow> node" where
  "AddPath_loop new_branch is_root [] node = Node []"
| "AddPath_loop new_branch is_root (node_name # parts) node =
     (if \<not> new_branch \<and> \<not> is_root \<and> children node = [] then node
      else case map_of (children node) node_name of
             None \<Rightarrow> Node (child_set node_name (AddPath_loop True False parts (Node [])) (children node))
           | Some child \<Rightarrow>
               Node (child_set node_name (AddPath_loop new_branch False parts child) (children node)))"

definition AddPath :: "absl \<Rightarrow> string \<Rightarrow> node \<Rightarrow> node" where
  "AddPath A path root = AddPath_loop False True (StrSplit A CHR ''.'' path) root"

definition MergeFromFieldMask :: "absl \<Rightarrow> field_mask \<Rightarrow> node \<Rightarrow> node" where
  "MergeFromFieldMask A m root = fold (AddPath A) m root"

text \<open>
  \<open>ForEachLeaf\<close> with its explicit stack, the top of which is the head of the list. The result
  are the paths \<open>f\<close> is called with, in order.
\<close>

definition path_cat :: "string \<Rightarrow> string \<Rightarrow> string" where
  "path_cat path name = (if path = [] then name else path @ ''.'' @ name)"

lemma size_children: "(\<Sum>x\<leftarrow>cs. size (snd x)) < size (Node cs)" for cs :: "(string \<times> node) list"
  by (induction cs) auto

function ForEachLeaf_loop :: "(node \<times> string) list \<Rightarrow> string list" where
  "ForEachLeaf_loop [] = []"
| "ForEachLeaf_loop ((node, path) # stack) =
     (if children node = [] then path # ForEachLeaf_loop stack
      else ForEachLeaf_loop (map (\<lambda>x. (snd x, path_cat path (fst x))) (children node) @ stack))"
  by pat_completeness auto
termination
proof (relation "measure (\<lambda>stack. \<Sum>x\<leftarrow>stack. size (fst x))", goal_cases)
  case (2 node path stack)
  then show ?case by (cases node) simp
next
  case (3 node path stack)
  have "(\<Sum>x\<leftarrow>children node. size (snd x)) < size node"
    using size_children [of "children node"] by simp
  then show ?case by (simp add: comp_def)
qed simp

definition ForEachLeaf :: "node \<Rightarrow> string list" where
  "ForEachLeaf root = ForEachLeaf_loop [(root, [])]"

definition MergeToFieldMask :: "node \<Rightarrow> field_mask" where
  "MergeToFieldMask root =
     (if children root = [] then [] else filter (\<lambda>path. path \<noteq> []) (ForEachLeaf root))"

definition MergeLeafNodesToTree :: "absl \<Rightarrow> string \<Rightarrow> node \<Rightarrow> node \<Rightarrow> node" where
  "MergeLeafNodesToTree A pre node out =
     (if children node = [] then AddPath A pre out
      else if pre = [] then fold (AddPath A) (ForEachLeaf node) out
      else fold (\<lambda>path. AddPath A (pre @ ''.'' @ path)) (ForEachLeaf node) out)"

fun IntersectPath_loop :: "absl \<Rightarrow> string \<Rightarrow> bool \<Rightarrow> string list \<Rightarrow> node \<Rightarrow> node \<Rightarrow> node" where
  "IntersectPath_loop A path is_root [] node out = MergeLeafNodesToTree A path node out"
| "IntersectPath_loop A path is_root (node_name # parts) node out =
     (if children node = [] then (if \<not> is_root then AddPath A path out else out)
      else case map_of (children node) node_name of
             None \<Rightarrow> out
           | Some child \<Rightarrow> IntersectPath_loop A path False parts child out)"

definition IntersectPath :: "absl \<Rightarrow> string \<Rightarrow> node \<Rightarrow> node \<Rightarrow> node" where
  "IntersectPath A path root out = IntersectPath_loop A path True (StrSplit A CHR ''.'' path) root out"

text \<open>
  \<open>RemovePath\<close>. \<open>Invalid\<close> is the early return for an invalid path, which clears the children
  of the first node that was filled in on the way (\<open>new_branch_node\<close>, a node without children
  before); \<open>Missing\<close> is the early return when the tree does not contain the path; otherwise the
  last part is erased, and so is every node on the way that has no children left.
\<close>

datatype remove_status = Invalid | Missing | Removed

fun RemovePath_walk :: "descriptor_pool \<Rightarrow> string \<Rightarrow> string list \<Rightarrow> node \<Rightarrow> remove_status \<times> node" where
  "RemovePath_walk pool descriptor [] node = (Removed, node)"
| "RemovePath_walk pool descriptor (part # parts) node =
     (case FindFieldByName pool descriptor part of
        None \<Rightarrow> (Invalid, node)
      | Some field \<Rightarrow>
          if fd_message_type field = None \<and> parts \<noteq> [] then (Invalid, node)
          else
            let cs = (if children node = []
                      then fold (\<lambda>f. child_set (fd_name f) (Node [])) (pool descriptor) []
                      else children node)
            in case map_of cs part of
                 None \<Rightarrow> (Missing, Node cs)
               | Some child \<Rightarrow>
                   if parts = [] then (Removed, Node (child_erase part cs))
                   else case RemovePath_walk pool (the (fd_message_type field)) parts child of
                     (Invalid, child) \<Rightarrow>
                       (Invalid, if children node = [] then Node [] else Node (child_set part child cs))
                   | (Missing, child) \<Rightarrow> (Missing, Node (child_set part child cs))
                   | (Removed, child) \<Rightarrow>
                       (Removed, Node (if children child = [] then child_erase part cs
                                       else child_set part child cs)))"

definition RemovePath :: "absl \<Rightarrow> descriptor_pool \<Rightarrow> string \<Rightarrow> string \<Rightarrow> node \<Rightarrow> node" where
  "RemovePath A pool descriptor path root =
     (if children root = [] then root
      else snd (RemovePath_walk pool descriptor (StrSplit A CHR ''.'' path) root))"

subsection \<open>The operations of FieldMaskUtil\<close>

definition ToCanonicalForm :: "absl \<Rightarrow> field_mask \<Rightarrow> field_mask" where
  "ToCanonicalForm A m = MergeToFieldMask (MergeFromFieldMask A m (Node []))"

definition FieldMask_Union :: "absl \<Rightarrow> field_mask \<Rightarrow> field_mask \<Rightarrow> field_mask" where
  "FieldMask_Union A m1 m2 =
     MergeToFieldMask (MergeFromFieldMask A m2 (MergeFromFieldMask A m1 (Node [])))"

definition FieldMask_Intersect :: "absl \<Rightarrow> field_mask \<Rightarrow> field_mask \<Rightarrow> field_mask" where
  "FieldMask_Intersect A m1 m2 =
     (let tree = MergeFromFieldMask A m1 (Node [])
      in MergeToFieldMask (fold (\<lambda>path. IntersectPath A path tree) m2 (Node [])))"

definition FieldMask_Subtract ::
  "absl \<Rightarrow> descriptor_pool \<Rightarrow> string \<Rightarrow> field_mask \<Rightarrow> field_mask \<Rightarrow> field_mask" where
  "FieldMask_Subtract A pool descriptor m1 m2 =
     (if m1 = [] then []
      else MergeToFieldMask
             (fold (RemovePath A pool descriptor) m2 (MergeFromFieldMask A m1 (Node []))))"

subsection \<open>Children\<close>

lemma map_of_child_set [simp]: "map_of (child_set k v cs) = (map_of cs)(k \<mapsto> v)"
  by (induction cs) (auto simp: fun_eq_iff)

lemma child_set_nonempty [simp]: "child_set k v cs \<noteq> []"
  by (cases cs) (auto split: if_splits)

lemma map_of_child_erase [simp]: "map_of (child_erase k cs) = (map_of cs)(k := None)"
  by (induction cs) (auto simp: child_erase_def fun_eq_iff)

text \<open>The order of \<open>btree_map\<close>.\<close>

definition sorted_keys :: "(string \<times> 'n) list \<Rightarrow> bool" where
  "sorted_keys cs \<longleftrightarrow> sorted_wrt (<) (map fst cs)"

lemma sorted_keys_simps [simp]:
  "sorted_keys []" "sorted_keys (x # cs) \<longleftrightarrow> (\<forall>y \<in> set cs. fst x < fst y) \<and> sorted_keys cs"
  by (auto simp: sorted_keys_def)

lemma fst_child_set: "fst ` set (child_set k v cs) = insert k (fst ` set cs)"
  using dom_map_of_conv_image_fst [of "child_set k v cs"] dom_map_of_conv_image_fst [of cs] by simp

lemma sorted_child_set: "sorted_keys cs \<Longrightarrow> sorted_keys (child_set k v cs)"
proof (induction cs)
  case (Cons x cs)
  obtain k' v' where [simp]: "x = (k', v')" by (cases x)
  have "\<forall>y \<in> set (child_set k v cs). k' < fst y" if "k' < k"
  proof
    fix y assume "y \<in> set (child_set k v cs)"
    then have "fst y \<in> insert k (fst ` set cs)" using fst_child_set [of k v cs] by auto
    then show "k' < fst y" using Cons.prems that by auto
  qed
  with Cons show ?case by (auto simp: not_less_iff_gr_or_eq)
qed simp

lemma sorted_child_erase: "sorted_keys cs \<Longrightarrow> sorted_keys (child_erase k cs)"
  by (induction cs) (auto simp: child_erase_def)

lemma sorted_keys_distinct: "sorted_keys cs \<Longrightarrow> distinct (map fst cs)"
  by (induction cs) auto

lemma set_child_set: "set (child_set k v cs) \<subseteq> insert (k, v) (set cs)"
  by (induction cs) (auto split: if_splits)

lemma set_child_erase: "set (child_erase k cs) \<subseteq> set cs"
  by (auto simp: child_erase_def)

end
