(* ===== verification/Field_Mask_Cover.thy ===== *)
theory Field_Mask_Cover
  imports Field_Mask_Text
begin

section \<open>What a field mask covers\<close>

text \<open>
  The abstract meaning of masks and trees: a mask covers a path when it contains the path or a
  prefix of it that ends at a dot. Paths are compared as lists of parts. A tree covers a path
  when walking down the parts ends at a leaf; the root without children covers nothing.
  The lemmas relate each operation of the tree to this set of covered paths.
\<close>

definition mask_covers :: "field_mask \<Rightarrow> string list \<Rightarrow> bool" where
  "mask_covers m q \<longleftrightarrow> (\<exists>p \<in> set m. prefix (split_on CHR ''.'' p) q)"

fun node_covers :: "node \<Rightarrow> string list \<Rightarrow> bool" where
  "node_covers node [] \<longleftrightarrow> children node = []"
| "node_covers node (p # ps) \<longleftrightarrow> children node = []
     \<or> (\<exists>child. map_of (children node) p = Some child \<and> node_covers child ps)"

definition tree_covers :: "node \<Rightarrow> string list \<Rightarrow> bool" where
  "tree_covers root q \<longleftrightarrow> children root \<noteq> [] \<and> node_covers root q"

lemma node_covers_leaf [simp]: "node_covers (Node []) q"
  by (cases q) auto

lemma tree_covers_empty [simp]: "\<not> tree_covers (Node []) q"
  by (simp add: tree_covers_def)

text \<open>Well-formed trees: names are those of non-empty parts, in the order of the map.\<close>

fun wf_node :: "node \<Rightarrow> bool" where
  "wf_node (Node cs) \<longleftrightarrow> sorted_keys cs
     \<and> (\<forall>x \<in> set cs. fst x \<noteq> [] \<and> CHR ''.'' \<notin> set (fst x) \<and> wf_node (snd x))"

definition parts_ok :: "string list \<Rightarrow> bool" where
  "parts_ok ps \<longleftrightarrow> (\<forall>p \<in> set ps. p \<noteq> [] \<and> CHR ''.'' \<notin> set p)"

text \<open>A path without empty parts.\<close>

definition path_ok :: "string \<Rightarrow> bool" where
  "path_ok path \<longleftrightarrow> [] \<notin> set (split_on CHR ''.'' path)"

lemma path_ok_parts: "path_ok path \<Longrightarrow> parts_ok (split_on CHR ''.'' path)"
  using split_on_free by (fastforce simp: path_ok_def parts_ok_def)

lemma path_ok_nonempty: "path_ok path \<Longrightarrow> path \<noteq> []"
  by (auto simp: path_ok_def)

lemma parts_ok_join: "parts_ok ps \<Longrightarrow> ps \<noteq> [] \<Longrightarrow> split_on CHR ''.'' (join ''.'' ps) = ps"
  by (rule split_on_join) (auto simp: parts_ok_def)

lemma parts_ok_path_ok: "parts_ok ps \<Longrightarrow> ps \<noteq> [] \<Longrightarrow> path_ok (join ''.'' ps)"
  by (auto simp: path_ok_def parts_ok_join) (auto simp: parts_ok_def)

lemma parts_ok_simps [simp]:
  "parts_ok []" "parts_ok (p # ps) \<longleftrightarrow> p \<noteq> [] \<and> CHR ''.'' \<notin> set p \<and> parts_ok ps"
  "parts_ok (ps @ qs) \<longleftrightarrow> parts_ok ps \<and> parts_ok qs"
  by (auto simp: parts_ok_def)

lemma wf_child:
  "wf_node node \<Longrightarrow> map_of (children node) p = Some child \<Longrightarrow> wf_node child \<and> p \<noteq> [] \<and> CHR ''.'' \<notin> set p"
  by (cases node) (fastforce dest: map_of_SomeD)

lemma wf_child_set:
  assumes "wf_node node" and "p \<noteq> []" and "CHR ''.'' \<notin> set p" and "wf_node child"
  shows "wf_node (Node (child_set p child (children node)))"
proof -
  have "\<forall>x \<in> set (child_set p child (children node)). fst x \<noteq> [] \<and> CHR ''.'' \<notin> set (fst x) \<and> wf_node (snd x)"
  proof
    fix x assume "x \<in> set (child_set p child (children node))"
    then have "x = (p, child) \<or> x \<in> set (children node)" using set_child_set by fast
    then show "fst x \<noteq> [] \<and> CHR ''.'' \<notin> set (fst x) \<and> wf_node (snd x)"
      using assms by (cases node) auto
  qed
  moreover have "sorted_keys (child_set p child (children node))"
    using assms(1) by (cases node) (simp add: sorted_child_set)
  ultimately show ?thesis by simp
qed

lemma wf_child_erase: "wf_node node \<Longrightarrow> wf_node (Node (child_erase p (children node)))"
  using set_child_erase [of p "children node"] by (cases node) (auto simp: sorted_child_erase)

subsection \<open>AddPath\<close>

lemma AddPath_loop_wf: "wf_node node \<Longrightarrow> parts_ok ps \<Longrightarrow> wf_node (AddPath_loop nb r ps node)"
proof (induction nb r ps node rule: AddPath_loop.induct)
  case (2 nb r p ps node)
  show ?case
  proof (cases "\<not> nb \<and> \<not> r \<and> children node = []")
    case True
    with 2 show ?thesis by simp
  next
    case False
    show ?thesis
    proof (cases "map_of (children node) p")
      case None
      with False 2 have "wf_node (AddPath_loop True False ps (Node []))" by simp
      with 2 have "wf_node (Node (child_set p (AddPath_loop True False ps (Node [])) (children node)))"
        by (intro wf_child_set) simp_all
      with None False show ?thesis by (auto simp del: wf_node.simps)
    next
      case (Some child)
      with False 2 wf_child [OF 2(3) Some] have "wf_node (AddPath_loop nb False ps child)" by simp
      with 2 have "wf_node (Node (child_set p (AddPath_loop nb False ps child) (children node)))"
        by (intro wf_child_set) simp_all
      with Some False show ?thesis by (auto simp del: wf_node.simps)
    qed
  qed
qed simp

lemma AddPath_new_covers: "node_covers (AddPath_loop True r ps (Node [])) q \<longleftrightarrow> prefix ps q"
proof (induction ps arbitrary: r q)
  case (Cons p ps)
  then show ?case by (cases q) auto
qed simp

lemma AddPath_loop_covers:
  "node_covers (AddPath_loop False r ps node) q \<longleftrightarrow>
     (if r \<and> children node = [] then prefix ps q else node_covers node q \<or> prefix ps q)"
proof (induction ps arbitrary: r node q)
  case Nil
  then show ?case by simp
next
  case (Cons p ps)
  show ?case
  proof (cases "children node = []")
    case True
    then show ?thesis by (cases q) (auto simp: AddPath_new_covers)
  next
    case False
    show ?thesis
    proof (cases "map_of (children node) p")
      case None
      with False show ?thesis by (cases q) (auto simp: AddPath_new_covers)
    next
      case (Some child)
      with False Cons.IH [of False child] show ?thesis by (cases q) auto
    qed
  qed
qed

lemma AddPath_loop_nonempty: "ps \<noteq> [] \<Longrightarrow> r \<or> children node \<noteq> [] \<Longrightarrow> children (AddPath_loop nb r ps node) \<noteq> []"
  by (cases ps) (auto split: option.split)

lemma AddPath_covers:
  assumes "absl_ok A"
  shows "tree_covers (AddPath A path root) q \<longleftrightarrow> tree_covers root q \<or> prefix (split_on CHR ''.'' path) q"
  using AddPath_loop_nonempty [of "split_on CHR ''.'' path" True root False]
  by (auto simp: tree_covers_def AddPath_def absl_StrSplit [OF assms] AddPath_loop_covers)

lemma AddPath_wf: "absl_ok A \<Longrightarrow> wf_node root \<Longrightarrow> path_ok path \<Longrightarrow> wf_node (AddPath A path root)"
  by (simp add: AddPath_def absl_StrSplit AddPath_loop_wf path_ok_parts)

lemma fold_AddPath_covers:
  "absl_ok A \<Longrightarrow> tree_covers (fold (AddPath A) ps root) q \<longleftrightarrow> tree_covers root q \<or> mask_covers ps q"
  by (induction ps arbitrary: root) (auto simp: AddPath_covers mask_covers_def)

lemma fold_AddPath_wf:
  "absl_ok A \<Longrightarrow> wf_node root \<Longrightarrow> \<forall>p \<in> set ps. path_ok p \<Longrightarrow> wf_node (fold (AddPath A) ps root)"
  by (induction ps arbitrary: root) (auto simp: AddPath_wf)

subsection \<open>The leaves\<close>

text \<open>The paths of the leaves, as lists of parts, in the order \<open>ForEachLeaf\<close> visits them.\<close>

function node_paths :: "node \<Rightarrow> string list list" where
  "node_paths node =
     (if children node = [] then [[]]
      else concat (map (\<lambda>x. map ((#) (fst x)) (node_paths (snd x))) (children node)))"
  by pat_completeness auto
termination
proof (relation "measure size", goal_cases)
  case (2 node x)
  then have "size (snd x) \<le> (\<Sum>x\<leftarrow>children node. size (snd x))"
    by (intro member_le_sum_list) auto
  then show ?case using size_children [of "children node"] by simp
qed simp

declare node_paths.simps [simp del]

lemma node_paths_leaf: "children node = [] \<Longrightarrow> node_paths node = [[]]"
  by (simp add: node_paths.simps [of node])

lemma node_paths_inner:
  "children node \<noteq> [] \<Longrightarrow>
     node_paths node = concat (map (\<lambda>x. map ((#) (fst x)) (node_paths (snd x))) (children node))"
  by (simp add: node_paths.simps [of node])

lemma ForEachLeaf_loop_paths:
  "ForEachLeaf_loop stack = concat (map (\<lambda>(node, path). map (foldl path_cat path) (node_paths node)) stack)"
proof (induction stack rule: ForEachLeaf_loop.induct)
  case (2 node path stack)
  show ?case
  proof (cases "children node = []")
    case True
    with 2 show ?thesis by (simp add: node_paths_leaf)
  next
    case False
    with 2 show ?thesis by (simp add: node_paths_inner map_concat comp_def split_beta)
  qed
qed simp

lemma ForEachLeaf_paths: "ForEachLeaf node = map (foldl path_cat []) (node_paths node)"
  by (simp add: ForEachLeaf_def ForEachLeaf_loop_paths)

lemma append_dot: "(@) ''.'' = (#) CHR ''.''"
  by (rule ext) simp

lemma foldl_path_cat: "path \<noteq> [] \<Longrightarrow> foldl path_cat path ps = path @ concat (map (\<lambda>p. ''.'' @ p) ps)"
  by (induction ps arbitrary: path) (auto simp: path_cat_def)

lemma foldl_path_cat_join: "parts_ok ps \<Longrightarrow> foldl path_cat [] ps = join ''.'' ps"
  by (cases ps) (simp_all add: path_cat_def foldl_path_cat join_def append_dot)

lemma map_of_mem:
  "distinct (map fst cs) \<Longrightarrow> map_of cs p = Some c \<longleftrightarrow> (p, c) \<in> set cs"
  by (rule map_of_eq_Some_iff)

lemma wf_children: "wf_node node \<Longrightarrow> x \<in> set (children node) \<Longrightarrow> wf_node (snd x) \<and> fst x \<noteq> [] \<and> CHR ''.'' \<notin> set (fst x)"
  by (cases node) auto

lemma wf_distinct: "wf_node node \<Longrightarrow> distinct (map fst (children node))"
  by (cases node) (auto intro: sorted_keys_distinct)

lemma node_paths_ok: "wf_node node \<Longrightarrow> p \<in> set (node_paths node) \<Longrightarrow> parts_ok p"
proof (induction node arbitrary: p rule: node_paths.induct)
  case (1 node)
  show ?case
  proof (cases "children node = []")
    case True
    with 1(3) show ?thesis by (simp add: node_paths.simps)
  next
    case False
    with 1(3) obtain x r where "x \<in> set (children node)" "p = fst x # r" "r \<in> set (node_paths (snd x))"
      by (subst (asm) node_paths.simps) auto
    with 1(1) [OF False, of x r] wf_children [OF 1(2), of x] show ?thesis by simp
  qed
qed

lemma node_covers_paths: "wf_node node \<Longrightarrow> node_covers node q \<longleftrightarrow> (\<exists>p \<in> set (node_paths node). prefix p q)"
proof (induction q arbitrary: node)
  case Nil
  show ?case by (subst node_paths.simps) (auto simp: neq_Nil_conv)
next
  case (Cons a q)
  show ?case
  proof (cases "children node = []")
    case True
    then show ?thesis by (simp add: node_paths.simps [of node])
  next
    case False
    have "(\<exists>p \<in> set (node_paths node). prefix p (a # q))
        \<longleftrightarrow> (\<exists>x \<in> set (children node). fst x = a \<and> (\<exists>p \<in> set (node_paths (snd x)). prefix p q))"
      using False by (subst node_paths.simps) auto
    also have "\<dots> \<longleftrightarrow> (\<exists>x \<in> set (children node). fst x = a \<and> node_covers (snd x) q)"
      using Cons.IH wf_children [OF Cons.prems] by auto
    also have "\<dots> \<longleftrightarrow> (\<exists>c. (a, c) \<in> set (children node) \<and> node_covers c q)" by force
    also have "\<dots> \<longleftrightarrow> node_covers node (a # q)"
      using False map_of_mem [OF wf_distinct [OF Cons.prems]] by auto
    finally show ?thesis by simp
  qed
qed

lemma node_paths_nonempty: "node_paths node \<noteq> []"
proof (induction node rule: node_paths.induct)
  case (1 node)
  show ?case
  proof (cases "children node = []")
    case False
    then obtain x xs where x: "children node = x # xs" by (cases "children node") auto
    with 1 [OF False, of x] show ?thesis by (simp add: node_paths_inner)
  qed (simp add: node_paths_leaf)
qed

lemma node_paths_Nil: "[] \<in> set (node_paths node) \<longleftrightarrow> children node = []"
  by (subst node_paths.simps) auto

text \<open>The mask a tree is written to: the leaves, joined by dots, none of them empty.\<close>

lemma MergeToFieldMask_paths:
  assumes "wf_node root"
  shows "MergeToFieldMask root = (if children root = [] then [] else map (join ''.'') (node_paths root))"
proof (cases "children root = []")
  case False
  have "join ''.'' p \<noteq> []" "foldl path_cat [] p = join ''.'' p" if "p \<in> set (node_paths root)" for p
  proof -
    from that have p: "p \<noteq> []" "parts_ok p"
      using node_paths_Nil [of root] False node_paths_ok [OF assms] by auto
    then show "foldl path_cat [] p = join ''.'' p" by (simp add: foldl_path_cat_join)
    from p show "join ''.'' p \<noteq> []" by (cases p) (auto simp: join_def)
  qed
  then show ?thesis
    using False by (simp add: MergeToFieldMask_def ForEachLeaf_paths filter_id_conv)
qed (simp add: MergeToFieldMask_def)

lemma MergeToFieldMask_covers:
  assumes "wf_node root"
  shows "mask_covers (MergeToFieldMask root) q \<longleftrightarrow> tree_covers root q"
proof (cases "children root = []")
  case False
  have "split_on CHR ''.'' (join ''.'' p) = p" if "p \<in> set (node_paths root)" for p
    using that node_paths_ok [OF assms] node_paths_Nil [of root] False by (intro parts_ok_join) auto
  then have "mask_covers (map (join ''.'') (node_paths root)) q \<longleftrightarrow> (\<exists>p \<in> set (node_paths root). prefix p q)"
    by (auto simp: mask_covers_def)
  with False show ?thesis
    by (simp add: MergeToFieldMask_paths [OF assms] tree_covers_def node_covers_paths [OF assms])
qed (simp add: MergeToFieldMask_paths [OF assms] tree_covers_def mask_covers_def)

lemma MergeToFieldMask_path_ok:
  assumes "wf_node root" and "p \<in> set (MergeToFieldMask root)"
  shows "path_ok p"
proof -
  from assms obtain ps where ps: "ps \<in> set (node_paths root)" "p = join ''.'' ps" "children root \<noteq> []"
    by (auto simp: MergeToFieldMask_paths split: if_splits)
  then have "parts_ok ps" "ps \<noteq> []" using node_paths_ok [OF assms(1)] node_paths_Nil [of root] by auto
  with ps(2) show ?thesis by (simp add: parts_ok_path_ok)
qed

end
