(* ===== verification/Field_Mask_Ops.thy ===== *)
theory Field_Mask_Ops
  imports Field_Mask_Cover
begin

section \<open>The set operations on masks\<close>

text \<open>
  The effect of the remaining tree operations on the covered paths: the canonical form, the
  intersection and the removal of a path.
\<close>

lemma split_on_append_delim: "split_on d (a @ d # b) = split_on d a @ split_on d b"
proof (induction a)
  case (Cons c a)
  obtain p ps where "split_on d a = p # ps" by (cases "split_on d a") auto
  with Cons show ?case by (auto split: list.splits)
qed simp

subsection \<open>A tree is determined by what it covers\<close>

lemma sorted_map_of_eq:
  assumes "sorted_keys cs" and "sorted_keys ds" and "map_of cs = map_of ds"
  shows "cs = ds"
proof -
  have "fst ` set cs = fst ` set ds"
    using assms(3) by (metis dom_map_of_conv_image_fst)
  then have keys: "map fst cs = map fst ds"
    using assms(1,2) by (intro strict_sorted_equal) (auto simp: sorted_keys_def)
  have "cs = map (\<lambda>k. (k, the (map_of cs k))) (map fst cs)" if "sorted_keys cs" for cs :: "(string \<times> 'a) list"
    using sorted_keys_distinct [OF that] by (auto intro!: map_idI [symmetric])
  from this [OF assms(1)] this [OF assms(2)] show ?thesis using keys assms(3) by metis
qed

lemma node_covers_some: "wf_node node \<Longrightarrow> \<exists>q. node_covers node q"
  using node_paths_nonempty [of node] node_covers_paths [of node]
  by (metis list.set_sel(1) prefix_order.refl)

lemma node_covers_inject:
  assumes "wf_node s" and "wf_node t" and "\<And>q. node_covers s q \<longleftrightarrow> node_covers t q"
  shows "s = t"
  using assms
proof (induction "size s" arbitrary: s t rule: less_induct)
  case less
  show ?case
  proof (cases "children s = []")
    case True
    with less.prems(3) [of "[]"] have "children t = []" by simp
    with True show ?thesis by (cases s; cases t) simp
  next
    case False
    with less.prems(3) [of "[]"] have nt: "children t \<noteq> []" by simp
    have child: "map_of (children s) p = Some c \<longleftrightarrow> map_of (children t) p = Some c" for p c
    proof -
      have cov: "(\<exists>x. map_of (children s) p = Some x \<and> node_covers x q)
          \<longleftrightarrow> (\<exists>y. map_of (children t) p = Some y \<and> node_covers y q)" for q
        using less.prems(3) [of "p # q"] False nt by simp
      have "x = y" if x: "map_of (children s) p = Some x" and y: "map_of (children t) p = Some y" for x y
      proof (rule less.hyps)
        have "size x \<le> (\<Sum>x\<leftarrow>children s. size (snd x))"
          using map_of_SomeD [OF x] by (intro member_le_sum_list) (auto intro!: image_eqI [of _ _ "(p, x)"])
        then show "size x < size s" using size_children [of "children s"] by simp
        show "wf_node x" "wf_node y" using wf_child less.prems x y by blast+
        show "\<And>q. node_covers x q \<longleftrightarrow> node_covers y q" using cov x y by simp
      qed
      moreover have "map_of (children s) p = None \<longleftrightarrow> map_of (children t) p = None"
      proof -
        have "map_of (children t) p \<noteq> None" if "map_of (children s) p = Some x" for x
        proof -
          have "wf_node x" using wf_child [OF less.prems(1) that] by simp
          from node_covers_some [OF this] cov that show ?thesis by auto
        qed
        moreover have "map_of (children s) p \<noteq> None" if "map_of (children t) p = Some x" for x
        proof -
          have "wf_node x" using wf_child [OF less.prems(2) that] by simp
          from node_covers_some [OF this] cov that show ?thesis by auto
        qed
        ultimately show ?thesis by (metis not_None_eq)
      qed
      ultimately show ?thesis by (metis option.exhaust)
    qed
    have "map_of (children s) = map_of (children t)"
    proof
      fix p show "map_of (children s) p = map_of (children t) p"
        using child [of p] by (metis not_None_eq)
    qed
    moreover have "sorted_keys (children s)" "sorted_keys (children t)"
      using less.prems by (cases s; cases t; simp)+
    ultimately show ?thesis using sorted_map_of_eq by (metis node.exhaust_sel)
  qed
qed

lemma tree_covers_inject:
  assumes "wf_node s" and "wf_node t" and "\<And>q. tree_covers s q \<longleftrightarrow> tree_covers t q"
  shows "s = t"
proof -
  have "children s = [] \<longleftrightarrow> children t = []"
    using assms node_covers_some by (metis tree_covers_def)
  then show ?thesis
  proof (cases "children s = []")
    case True
    with \<open>children s = [] \<longleftrightarrow> children t = []\<close> show ?thesis by (simp add: node.expand)
  next
    case False
    with \<open>children s = [] \<longleftrightarrow> children t = []\<close> show ?thesis
      using assms by (intro node_covers_inject) (auto simp: tree_covers_def)
  qed
qed

subsection \<open>Intersection\<close>

lemma fold_AddPath_map: "fold (\<lambda>x. AddPath A (f x)) xs out = fold (AddPath A) (map f xs) out"
  by (simp add: fold_map comp_def)

lemma MergeLeaf_covers:
  assumes "absl_ok A" and "wf_node node" and "path_ok path"
  shows "tree_covers (MergeLeafNodesToTree A path node out) q
    \<longleftrightarrow> tree_covers out q \<or> (\<exists>r. q = split_on CHR ''.'' path @ r \<and> node_covers node r)"
proof (cases "children node = []")
  case True
  have "node_covers node r" for r using True by (cases r) auto
  with True show ?thesis
    by (auto simp: MergeLeafNodesToTree_def AddPath_covers [OF assms(1)] prefix_def)
next
  case False
  let ?f = "\<lambda>p. path @ ''.'' @ foldl path_cat [] p"
  have split: "split_on CHR ''.'' (?f p) = split_on CHR ''.'' path @ p" if "p \<in> set (node_paths node)" for p
  proof -
    have p: "parts_ok p" "p \<noteq> []"
      using that node_paths_ok [OF assms(2)] node_paths_Nil [of node] False by auto
    then show ?thesis by (simp add: foldl_path_cat_join parts_ok_join split_on_append_delim)
  qed
  have "tree_covers (MergeLeafNodesToTree A path node out) q
      \<longleftrightarrow> tree_covers out q \<or> mask_covers (map ?f (node_paths node)) q"
    using False path_ok_nonempty [OF assms(3)]
    by (simp add: MergeLeafNodesToTree_def ForEachLeaf_paths fold_map comp_def
        fold_AddPath_covers [OF assms(1), symmetric])
  also have "mask_covers (map ?f (node_paths node)) q
      \<longleftrightarrow> (\<exists>p \<in> set (node_paths node). prefix (split_on CHR ''.'' path @ p) q)"
    using split by (auto simp: mask_covers_def)
  also have "\<dots> \<longleftrightarrow> (\<exists>r. q = split_on CHR ''.'' path @ r \<and> (\<exists>p \<in> set (node_paths node). prefix p r))"
    by (auto simp: prefix_def)
  finally show ?thesis by (simp add: node_covers_paths [OF assms(2)])
qed

lemma MergeLeaf_wf:
  assumes "absl_ok A" and "wf_node node" and "path_ok path" and "wf_node out"
  shows "wf_node (MergeLeafNodesToTree A path node out)"
proof (cases "children node = []")
  case True
  with assms show ?thesis by (simp add: MergeLeafNodesToTree_def AddPath_wf)
next
  case False
  let ?f = "\<lambda>p. path @ ''.'' @ foldl path_cat [] p"
  have "path_ok (?f p)" if "p \<in> set (node_paths node)" for p
  proof -
    have p: "parts_ok p" "p \<noteq> []"
      using that node_paths_ok [OF assms(2)] node_paths_Nil [of node] False by auto
    then have "split_on CHR ''.'' (?f p) = split_on CHR ''.'' path @ p"
      by (simp add: foldl_path_cat_join parts_ok_join split_on_append_delim)
    with p(1) assms(3) show ?thesis by (auto simp: path_ok_def parts_ok_def)
  qed
  then have "wf_node (fold (AddPath A) (map ?f (node_paths node)) out)"
    by (intro fold_AddPath_wf [OF assms(1,4)]) auto
  then show ?thesis
    using False path_ok_nonempty [OF assms(3)]
    by (simp add: MergeLeafNodesToTree_def ForEachLeaf_paths fold_map comp_def)
qed

lemma IntersectPath_loop_covers:
  assumes "absl_ok A" and "path_ok path" and "wf_node node" and "split_on CHR ''.'' path = pre @ ps"
    and "r \<longrightarrow> ps \<noteq> []"
  shows "tree_covers (IntersectPath_loop A path r ps node out) q
    \<longleftrightarrow> tree_covers out q \<or> (\<exists>q'. q = pre @ q' \<and> \<not> (r \<and> children node = []) \<and> node_covers node q' \<and> prefix ps q')"
  using assms(3-5)
proof (induction ps arbitrary: pre r node)
  case Nil
  then show ?case using MergeLeaf_covers [OF assms(1) Nil(1) assms(2)] by simp
next
  case (Cons p ps)
  show ?case
  proof (cases "children node = []")
    case True
    have "node_covers node q'" for q' using True by (cases q') auto
    with True Cons.prems(2) show ?thesis
      by (auto simp: AddPath_covers [OF assms(1)] prefix_def)
  next
    case False
    show ?thesis
    proof (cases "map_of (children node) p")
      case None
      with False show ?thesis by (auto simp: prefix_def)
    next
      case (Some child)
      have "wf_node child" using wf_child [OF Cons.prems(1) Some] by simp
      from Cons.IH [OF this, of "pre @ [p]" False] Cons.prems(2) False Some show ?thesis
        by (auto simp: prefix_def)
    qed
  qed
qed

lemma IntersectPath_loop_wf:
  "absl_ok A \<Longrightarrow> path_ok path \<Longrightarrow> wf_node node \<Longrightarrow> wf_node out \<Longrightarrow> wf_node (IntersectPath_loop A path r ps node out)"
proof (induction ps arbitrary: r node)
  case (Cons p ps)
  then show ?case using wf_child [OF Cons.prems(3)] by (auto simp: AddPath_wf split: option.split)
qed (simp add: MergeLeaf_wf)

lemma IntersectPath_covers:
  assumes "absl_ok A" and "path_ok path" and "wf_node root"
  shows "tree_covers (IntersectPath A path root out) q
    \<longleftrightarrow> tree_covers out q \<or> (tree_covers root q \<and> prefix (split_on CHR ''.'' path) q)"
  using IntersectPath_loop_covers [OF assms, of "[]" "split_on CHR ''.'' path" True out q]
  by (auto simp: IntersectPath_def absl_StrSplit [OF assms(1)] tree_covers_def)

lemma fold_IntersectPath:
  assumes "absl_ok A" and "wf_node root"
  shows "\<forall>p \<in> set ps. path_ok p \<Longrightarrow> wf_node out \<Longrightarrow>
      wf_node (fold (\<lambda>p. IntersectPath A p root) ps out)
      \<and> (tree_covers (fold (\<lambda>p. IntersectPath A p root) ps out) q
          \<longleftrightarrow> tree_covers out q \<or> (tree_covers root q \<and> mask_covers ps q))"
proof (induction ps arbitrary: out)
  case (Cons p ps)
  have "wf_node (IntersectPath A p root out)"
    using Cons.prems assms by (simp add: IntersectPath_def IntersectPath_loop_wf)
  from Cons.IH [OF _ this] Cons.prems IntersectPath_covers [OF assms(1) _ assms(2), of p out q]
  show ?case by (auto simp: mask_covers_def)
qed (simp add: mask_covers_def)

subsection \<open>Removal\<close>

text \<open>A path of fields: every part but the last names a message field.\<close>

fun valid_path :: "descriptor_pool \<Rightarrow> string \<Rightarrow> string list \<Rightarrow> bool" where
  "valid_path pool T [] = True"
| "valid_path pool T (p # ps) =
     (case FindFieldByName pool T p of
        None \<Rightarrow> False
      | Some f \<Rightarrow> ps = [] \<or> (case fd_message_type f of None \<Rightarrow> False | Some U \<Rightarrow> valid_path pool U ps))"

definition pool_ok :: "descriptor_pool \<Rightarrow> bool" where
  "pool_ok pool \<longleftrightarrow> (\<forall>T. \<forall>f \<in> set (pool T). fd_name f \<noteq> [] \<and> CHR ''.'' \<notin> set (fd_name f))"

lemma FindFieldByName_Some:
  "FindFieldByName pool T p = Some f \<Longrightarrow> f \<in> set (pool T) \<and> fd_name f = p"
  by (auto simp: FindFieldByName_def find_Some_iff in_set_conv_nth)

definition all_fields :: "field_descriptor list \<Rightarrow> (string \<times> node) list" where
  "all_fields fs = fold (\<lambda>f. child_set (fd_name f) (Node [])) fs []"

lemma map_of_fold_fields:
  "map_of (fold (\<lambda>f. child_set (fd_name f) (Node [])) fs cs) p
     = (if p \<in> fd_name ` set fs then Some (Node []) else map_of cs p)"
  by (induction fs arbitrary: cs) auto

lemma map_of_all_fields: "map_of (all_fields fs) p = (if p \<in> fd_name ` set fs then Some (Node []) else None)"
  by (simp add: all_fields_def map_of_fold_fields)

lemma wf_fold_fields:
  assumes "\<forall>f \<in> set fs. fd_name f \<noteq> [] \<and> CHR ''.'' \<notin> set (fd_name f)" and "wf_node (Node cs)"
  shows "wf_node (Node (fold (\<lambda>f. child_set (fd_name f) (Node [])) fs cs))"
  using assms
proof (induction fs arbitrary: cs)
  case (Cons f fs)
  have "wf_node (Node (child_set (fd_name f) (Node []) cs))"
    using wf_child_set [OF Cons.prems(2), of "fd_name f" "Node []"] Cons.prems(1) by (simp del: wf_node.simps) simp
  with Cons.IH [of "child_set (fd_name f) (Node []) cs"] Cons.prems(1) show ?case
    by (simp del: wf_node.simps)
qed (simp del: wf_node.simps)

lemma wf_all_fields: "pool_ok pool \<Longrightarrow> wf_node (Node (all_fields (pool T)))"
  unfolding all_fields_def by (rule wf_fold_fields) (simp_all add: pool_ok_def)

lemma child_set_same: "map_of cs k = Some v \<Longrightarrow> sorted_keys cs \<Longrightarrow> child_set k v cs = cs"
  by (rule sorted_map_of_eq) (auto simp: sorted_child_set fun_upd_idem)

text \<open>The children of a node on the way: filled in with all fields when there were none.\<close>

definition expanded :: "descriptor_pool \<Rightarrow> string \<Rightarrow> node \<Rightarrow> (string \<times> node) list" where
  "expanded pool T node = (if children node = [] then all_fields (pool T) else children node)"

lemma expanded_wf: "pool_ok pool \<Longrightarrow> wf_node node \<Longrightarrow> wf_node (Node (expanded pool T node))"
  by (cases node) (auto simp: expanded_def wf_all_fields simp del: wf_node.simps)

lemma expanded_covers:
  assumes "valid_path pool T (a # q)"
  shows "node_covers node (a # q) \<longleftrightarrow> (\<exists>c. map_of (expanded pool T node) a = Some c \<and> node_covers c q)"
proof (cases "children node = []")
  case True
  from assms obtain f where "FindFieldByName pool T a = Some f" by (auto split: option.splits)
  from FindFieldByName_Some [OF this] have "a \<in> fd_name ` set (pool T)" by auto
  with True show ?thesis by (simp add: expanded_def map_of_all_fields)
qed (simp add: expanded_def)

lemma RemovePath_walk_Cons:
  "RemovePath_walk pool T (p # ps) node =
     (case FindFieldByName pool T p of
        None \<Rightarrow> (Invalid, node)
      | Some f \<Rightarrow>
          if fd_message_type f = None \<and> ps \<noteq> [] then (Invalid, node)
          else case map_of (expanded pool T node) p of
                 None \<Rightarrow> (Missing, Node (expanded pool T node))
               | Some child \<Rightarrow>
                   if ps = [] then (Removed, Node (child_erase p (expanded pool T node)))
                   else case RemovePath_walk pool (the (fd_message_type f)) ps child of
                     (Invalid, child) \<Rightarrow>
                       (Invalid, if children node = [] then Node [] else Node (child_set p child (children node)))
                   | (Missing, child) \<Rightarrow> (Missing, Node (child_set p child (expanded pool T node)))
                   | (Removed, child) \<Rightarrow>
                       (Removed, Node (if children child = [] then child_erase p (expanded pool T node)
                                       else child_set p child (expanded pool T node))))"
  by (auto simp: expanded_def all_fields_def Let_def split: option.split prod.split remove_status.split)

lemma expanded_id: "children node \<noteq> [] \<Longrightarrow> Node (expanded pool T node) = node"
  by (simp add: expanded_def)

lemma node_same: "wf_node node \<Longrightarrow> map_of (children node) p = Some c \<Longrightarrow> Node (child_set p c (children node)) = node"
  by (cases node) (simp add: child_set_same)

text \<open>Of a walk that fails, nothing remains.\<close>

lemma RemovePath_walk_fails:
  assumes "wf_node node" and "RemovePath_walk pool T ps node = (st, node')" and "st \<noteq> Removed"
  shows "node' = node \<and> (st = Missing \<longrightarrow> children node \<noteq> [])
      \<and> (\<forall>q. valid_path pool T q \<longrightarrow> node_covers node q \<longrightarrow> \<not> prefix ps q)"
  using assms
proof (induction ps arbitrary: T node node')
  case (Cons p ps)
  show ?case
  proof (cases "FindFieldByName pool T p")
    case None
    with Cons.prems show ?thesis by (auto simp: prefix_def)
  next
    case f: (Some f)
    show ?thesis
    proof (cases "fd_message_type f = None \<and> ps \<noteq> []")
      case True
      with f Cons.prems show ?thesis by (auto simp: prefix_def)
    next
      case msg: False
      show ?thesis
      proof (cases "map_of (expanded pool T node) p")
        case None
        have "p \<in> fd_name ` set (pool T)" using FindFieldByName_Some [OF f] by auto
        with None have ne: "children node \<noteq> []"
          by (auto simp: expanded_def map_of_all_fields split: if_splits)
        have "node' = node \<and> st = Missing"
          using Cons.prems(2) f msg None expanded_id [OF ne] by (auto simp: RemovePath_walk_Cons simp del: RemovePath_walk.simps)
        with ne None show ?thesis by (auto simp: expanded_def prefix_def)
      next
        case child: (Some child)
        with Cons.prems(2,3) f msg have ps: "ps \<noteq> []" by (auto simp: RemovePath_walk_Cons simp del: RemovePath_walk.simps)
        then obtain U where U: "fd_message_type f = Some U" using msg by auto
        obtain st' child' where w: "RemovePath_walk pool U ps child = (st', child')"
          by (cases "RemovePath_walk pool U ps child") auto
        have st: "st' = st"
          using Cons.prems(2) f msg child ps U w
          by (auto simp: RemovePath_walk_Cons simp del: RemovePath_walk.simps split: remove_status.splits)
        have "wf_node child"
        proof (cases "children node = []")
          case True
          with child show ?thesis by (auto simp: expanded_def map_of_all_fields split: if_splits)
        next
          case False
          with child wf_child [OF Cons.prems(1)] show ?thesis by (simp add: expanded_def)
        qed
        from Cons.IH [OF this w [unfolded st] Cons.prems(3)] have ih: "child' = child"
          "st = Missing \<longrightarrow> children child \<noteq> []"
          "\<forall>q. valid_path pool U q \<longrightarrow> node_covers child q \<longrightarrow> \<not> prefix ps q" by auto
        have ne: "children node \<noteq> []" if "st = Missing"
          using child ih(2) that by (auto simp: expanded_def map_of_all_fields split: if_splits)
        have "node' = node"
        proof (cases st)
          case Invalid
          then show ?thesis
            using Cons.prems(2) f msg child ps U w st ih(1) node_same [OF Cons.prems(1), of p child]
            by (cases "children node = []")
               (auto simp: RemovePath_walk_Cons expanded_def simp del: RemovePath_walk.simps intro: node.expand)
        next
          case Missing
          then show ?thesis
            using Cons.prems(2) f msg child ps U w st ih(1) node_same [OF Cons.prems(1), of p child] ne
            by (auto simp: RemovePath_walk_Cons expanded_def simp del: RemovePath_walk.simps)
        qed (use Cons.prems(3) in simp)
        moreover have "\<not> prefix (p # ps) q" if "valid_path pool T q" "node_covers node q" for q
        proof
          assume "prefix (p # ps) q"
          then obtain q' where q: "q = p # q'" "prefix ps q'" by (auto simp: prefix_def)
          with that f U ps have "valid_path pool U q'" by (auto simp: prefix_def)
          moreover have "node_covers child q'"
            using that q child expanded_covers [of pool T p q' node] by simp
          ultimately show False using ih(3) q(2) by blast
        qed
        ultimately show ?thesis using ne by blast
      qed
    qed
  qed
qed simp

lemma RemovePath_walk_removes:
  assumes "wf_node node" and "RemovePath_walk pool T ps node = (Removed, node')" and "ps \<noteq> []"
    and "valid_path pool T q" and "\<not> strict_prefix q ps"
  shows "children node' \<noteq> [] \<and> node_covers node' q \<longleftrightarrow> node_covers node q \<and> \<not> prefix ps q"
  using assms
proof (induction ps arbitrary: T node node' q)
  case (Cons p ps)
  from Cons.prems(5) obtain a q' where q: "q = a # q'" by (cases q) (auto simp: strict_prefix_def)
  obtain f where f: "FindFieldByName pool T p = Some f"
    using Cons.prems(2) by (cases "FindFieldByName pool T p") auto
  have msg: "\<not> (fd_message_type f = None \<and> ps \<noteq> [])"
  proof
    assume "fd_message_type f = None \<and> ps \<noteq> []"
    with Cons.prems(2) f show False by simp
  qed
  let ?cs = "expanded pool T node"
  obtain child where child: "map_of ?cs p = Some child"
    using Cons.prems(2) f msg
    by (cases "map_of ?cs p") (auto simp: RemovePath_walk_Cons simp del: RemovePath_walk.simps)
  have cov: "node_covers node (a # q') \<longleftrightarrow> (\<exists>c. map_of ?cs a = Some c \<and> node_covers c q')"
    using expanded_covers Cons.prems(4) q by blast
  show ?case
  proof (cases "ps = []")
    case True
    then have n': "node' = Node (child_erase p ?cs)"
      using Cons.prems(2) f child msg by (simp add: RemovePath_walk_Cons del: RemovePath_walk.simps)
    show ?thesis
    proof (cases "a = p")
      case True
      then show ?thesis using n' q \<open>ps = []\<close> by auto
    next
      case False
      have "child_erase p ?cs \<noteq> []" if "map_of ?cs a \<noteq> None"
      proof
        assume "child_erase p ?cs = []"
        then have "map_of (child_erase p ?cs) a = None" by simp
        with that False show False by simp
      qed
      with False n' q cov show ?thesis by auto
    qed
  next
    case ps: False
    then obtain U where U: "fd_message_type f = Some U" using msg by auto
    obtain st child' where w: "RemovePath_walk pool U ps child = (st, child')"
      by (cases "RemovePath_walk pool U ps child") auto
    have st: "st = Removed"
      using Cons.prems(2) f msg child ps U w
      by (auto simp: RemovePath_walk_Cons simp del: RemovePath_walk.simps split: remove_status.splits)
    have n': "node' = Node (if children child' = [] then child_erase p ?cs else child_set p child' ?cs)"
      using Cons.prems(2) f msg child ps U w st by (simp add: RemovePath_walk_Cons del: RemovePath_walk.simps)
    show ?thesis
    proof (cases "a = p")
      case False
      have m: "map_of (children node') a = map_of ?cs a" using False n' by simp
      have "children node' \<noteq> []" if "map_of ?cs a \<noteq> None" using that m by auto
      with False m q cov show ?thesis by auto
    next
      case True
      with q Cons.prems(4) f U have v: "q' = [] \<or> valid_path pool U q'" by simp
      have "q' \<noteq> []" using Cons.prems(5) True q ps by (auto simp: strict_prefix_def)
      with v have v: "valid_path pool U q'" by simp
      have s: "\<not> strict_prefix q' ps" using Cons.prems(5) True q by (simp add: strict_prefix_def)
      have "wf_node child"
      proof (cases "children node = []")
        case True
        with child show ?thesis by (auto simp: expanded_def map_of_all_fields split: if_splits)
      next
        case False
        with child wf_child [OF Cons.prems(1)] show ?thesis by (simp add: expanded_def)
      qed
      from Cons.IH [OF this w [unfolded st] ps v s]
      have ih: "children child' \<noteq> [] \<and> node_covers child' q' \<longleftrightarrow> node_covers child q' \<and> \<not> prefix ps q'" .
      show ?thesis
        using True n' q cov child ih by (cases "children child' = []") auto
    qed
  qed
qed simp

lemma RemovePath_walk_wf:
  assumes "pool_ok pool" and "wf_node node"
  shows "wf_node (snd (RemovePath_walk pool T ps node))"
  using assms(2)
proof (induction ps arbitrary: T node)
  case (Cons p ps)
  note e = expanded_wf [OF assms(1) Cons.prems, of T]
  show ?case
  proof (cases "\<exists>st node'. RemovePath_walk pool T (p # ps) node = (st, node') \<and> st \<noteq> Removed")
    case True
    then obtain st node' where w: "RemovePath_walk pool T (p # ps) node = (st, node')" "st \<noteq> Removed" by blast
    from RemovePath_walk_fails [OF Cons.prems w] have "node' = node" by blast
    with w(1) Cons.prems show ?thesis by (simp del: RemovePath_walk.simps)
  next
    case False
    then obtain node' where r: "RemovePath_walk pool T (p # ps) node = (Removed, node')"
      by (metis prod.exhaust)
    obtain f where f: "FindFieldByName pool T p = Some f"
      using r by (cases "FindFieldByName pool T p") auto
    have msg: "\<not> (fd_message_type f = None \<and> ps \<noteq> [])"
    proof
      assume "fd_message_type f = None \<and> ps \<noteq> []"
      with r f show False by simp
    qed
    obtain child where child: "map_of (expanded pool T node) p = Some child"
      using r f msg by (cases "map_of (expanded pool T node) p")
        (auto simp: RemovePath_walk_Cons simp del: RemovePath_walk.simps)
    have c: "wf_node child" "p \<noteq> []" "CHR ''.'' \<notin> set p" using wf_child [OF e] child by auto
    have er: "wf_node (Node (child_erase p (expanded pool T node)))" using wf_child_erase [OF e] by simp
    show ?thesis
    proof (cases "ps = []")
      case True
      with r f child msg er show ?thesis by (simp add: RemovePath_walk_Cons del: RemovePath_walk.simps wf_node.simps)
    next
      case False
      then obtain U where U: "fd_message_type f = Some U" using msg by auto
      obtain st child' where w: "RemovePath_walk pool U ps child = (st, child')"
        by (cases "RemovePath_walk pool U ps child") auto
      have "wf_node child'" using Cons.IH [OF c(1), of U] w by simp
      from wf_child_set [OF e c(2,3) this]
      have "wf_node (Node (child_set p child' (expanded pool T node)))" by (simp del: wf_node.simps)
      with er r f msg child False U w show ?thesis
        by (auto simp: RemovePath_walk_Cons simp del: RemovePath_walk.simps wf_node.simps split: remove_status.splits)
    qed
  qed
qed simp

lemma RemovePath_covers:
  assumes "absl_ok A" and "pool_ok pool" and "wf_node root"
    and "valid_path pool T q" and "\<not> strict_prefix q (split_on CHR ''.'' path)"
  shows "tree_covers (RemovePath A pool T path root) q
    \<longleftrightarrow> tree_covers root q \<and> \<not> prefix (split_on CHR ''.'' path) q"
    and "wf_node (RemovePath A pool T path root)"
proof -
  let ?ps = "split_on CHR ''.'' path"
  show "wf_node (RemovePath A pool T path root)"
    using assms(2,3) by (simp add: RemovePath_def RemovePath_walk_wf)
  show "tree_covers (RemovePath A pool T path root) q \<longleftrightarrow> tree_covers root q \<and> \<not> prefix ?ps q"
  proof (cases "children root = []")
    case True
    then show ?thesis by (simp add: RemovePath_def tree_covers_def)
  next
    case False
    obtain st root' where w: "RemovePath_walk pool T ?ps root = (st, root')"
      by (cases "RemovePath_walk pool T ?ps root") auto
    with False have r: "RemovePath A pool T path root = root'"
      by (simp add: RemovePath_def absl_StrSplit [OF assms(1)])
    show ?thesis
    proof (cases "st = Removed")
      case True
      with RemovePath_walk_removes [OF assms(3) _ _ assms(4,5)] w False show ?thesis
        by (simp add: r tree_covers_def)
    next
      case notr: False
      with RemovePath_walk_fails [OF assms(3) w] assms(4) show ?thesis
        by (auto simp: r tree_covers_def)
    qed
  qed
qed

lemma fold_RemovePath:
  assumes "absl_ok A" and "pool_ok pool" and "valid_path pool T q"
  shows "wf_node root \<Longrightarrow> \<forall>p \<in> set ps. \<not> strict_prefix q (split_on CHR ''.'' p) \<Longrightarrow>
      wf_node (fold (RemovePath A pool T) ps root)
      \<and> (tree_covers (fold (RemovePath A pool T) ps root) q \<longleftrightarrow> tree_covers root q \<and> \<not> mask_covers ps q)"
proof (induction ps arbitrary: root)
  case (Cons p ps)
  from RemovePath_covers [OF assms(1,2) Cons.prems(1) assms(3), of p] Cons.prems(2)
    Cons.IH [of "RemovePath A pool T p root"]
  show ?case by (auto simp: mask_covers_def)
qed (simp add: mask_covers_def)

end
