(* ===== verification/Field_Mask_Laws.thy ===== *)
theory Field_Mask_Laws
  imports Field_Mask_Ops
begin

section \<open>Properties of field masks\<close>

text \<open>
  What the clients of \<open>FieldMaskUtil\<close> rely on: the text forms are inverse to each other, and the
  tree operations compute the set operations on covered paths. \<open>path_ok\<close> excludes paths with
  empty parts, which no field name matches.
\<close>

lemma prefix_split:
  "prefix (split_on d a) (split_on d b) \<longleftrightarrow> b = a \<or> (\<exists>r. b = a @ d # r)"
proof
  assume "prefix (split_on d a) (split_on d b)"
  then obtain ps where ps: "split_on d b = split_on d a @ ps" by (auto simp: prefix_def)
  have "join [d] (xs @ ps) = join [d] xs @ d # join [d] ps" if "xs \<noteq> []" "ps \<noteq> []" for xs
    using that by (induction xs) (auto simp: join_Cons_if)
  with ps show "b = a \<or> (\<exists>r. b = a @ d # r)"
    by (metis append_Nil2 join_split_on split_on_nonempty)
next
  assume "b = a \<or> (\<exists>r. b = a @ d # r)"
  then show "prefix (split_on d a) (split_on d b)" by (auto simp: split_on_append_delim)
qed

text \<open>The conversions between snake case and camel case are partial inverses of each other:
  one succeeds with a result exactly when the other maps the result back.\<close>

theorem snake_camel_bijection:
  "SnakeCaseToCamelCase s = Some c \<longleftrightarrow> CamelCaseToSnakeCase c = Some s"
  using snake_camel camel_snake by blast

text \<open>C31. A mask of non-empty paths without commas survives printing and parsing, in the plain
  form, and in the JSON form whenever that can be printed.\<close>

theorem field_mask_text_roundtrip:
  assumes "absl_ok A" and "\<forall>p \<in> set m. p \<noteq> [] \<and> CHR '','' \<notin> set p"
  shows "FieldMask_FromString A (FieldMask_ToString A m) = m
    \<and> (\<forall>s. FieldMask_ToJsonString m = Some s \<longrightarrow> FieldMask_FromJsonString A s = Some m)"
proof (intro conjI allI impI)
  show "FieldMask_FromString A (FieldMask_ToString A m) = m"
    using assms by (simp add: FieldMask_ToString_def FromString_ref absl_StrJoin join_map_nonempty_split)
next
  fix s
  assume "FieldMask_ToJsonString m = Some s"
  then obtain cs where cs: "list_all2 (\<lambda>p c. SnakeCaseToCamelCase p = Some c) m cs" "s = join '','' cs"
    by (auto simp: ToJson_Some)
  then have inverse: "list_all2 (\<lambda>c p. CamelCaseToSnakeCase c = Some p) cs m"
    using snake_camel by (auto simp: list_all2_conv_all_nth)
  have "c \<noteq> [] \<and> CHR '','' \<notin> set c" if "c \<in> set cs" for c
  proof -
    from that obtain i where i: "i < length cs" "c = cs ! i" by (auto simp: in_set_conv_nth)
    with inverse have "CamelCaseToSnakeCase c = Some (m ! i)" "m ! i \<in> set m"
      by (auto simp: list_all2_conv_all_nth)
    then obtain p where "p \<in> set m" "CamelCaseToSnakeCase c = Some p" by blast
    with assms(2) camel_comma [of c p] camel_empty [of c p] show ?thesis by auto
  qed
  then have "filter (\<lambda>p. p \<noteq> []) (split_on CHR '','' s) = cs"
    unfolding cs(2) by (intro join_map_nonempty_split) blast
  with inverse show "FieldMask_FromJsonString A s = Some m" by (simp add: FromJson_Some [OF assms(1)])
qed

lemma field_mask_text_roundtrip_witness:
  "FieldMask_FromString absl_ref (FieldMask_ToString absl_ref [''foo_bar.x'', ''b'']) = [''foo_bar.x'', ''b'']
    \<and> FieldMask_FromJsonString absl_ref ''fooBar.x,b'' = Some [''foo_bar.x'', ''b'']"
proof -
  have "FieldMask_ToJsonString [''foo_bar.x'', ''b''] = Some ''fooBar.x,b''" by code_simp
  moreover have "\<forall>p \<in> set [''foo_bar.x'', ''b'']. p \<noteq> [] \<and> CHR '','' \<notin> set p" by simp
  ultimately show ?thesis using field_mask_text_roundtrip [OF absl_ok_ref, of "[''foo_bar.x'', ''b'']"] by blast
qed

text \<open>A path is in a mask exactly when the mask covers its parts: the mask contains the path,
  or a prefix of it that ends at a dot.\<close>

theorem IsPathInFieldMask_covers:
  assumes "absl_ok A"
  shows "IsPathInFieldMask A path m \<longleftrightarrow> mask_covers m (split_on CHR ''.'' path)"
proof (induction m)
  case (Cons p m)
  have step: "prefix (split_on CHR ''.'' p) (split_on CHR ''.'' path)
      \<longleftrightarrow> path = p \<or> (length p < length path \<and>
            (case ConsumePrefix A path p of None \<Rightarrow> False | Some r \<Rightarrow> ConsumePrefix A r ''.'' \<noteq> None))"
  proof (cases "ConsumePrefix A path p")
    case None
    then have "\<not> (\<exists>r. path = p @ r)" by (metis absl_ConsumePrefix [OF assms] option.distinct(1))
    with None show ?thesis by (auto simp: prefix_split)
  next
    case (Some r)
    then have r: "path = p @ r" by (simp add: absl_ConsumePrefix [OF assms])
    have "ConsumePrefix A r ''.'' \<noteq> None \<longleftrightarrow> (\<exists>r'. r = ''.'' @ r')"
      using absl_ConsumePrefix [OF assms, of r "''.''"] by auto
    with Some r show ?thesis by (auto simp: prefix_split)
  qed
  with Cons show ?case by (auto simp: mask_covers_def)
qed (simp add: mask_covers_def)

lemma IsPathInFieldMask_covers_witness:
  "IsPathInFieldMask absl_ref ''foo.bar'' [''fo'', ''foo'']
    \<longleftrightarrow> mask_covers [''fo'', ''foo''] (split_on CHR ''.'' ''foo.bar'')"
  by (rule IsPathInFieldMask_covers [OF absl_ok_ref])

lemma merged_mask:
  assumes "absl_ok A" and "\<forall>p \<in> set m. path_ok p"
  shows "wf_node (MergeFromFieldMask A m (Node []))"
    and "tree_covers (MergeFromFieldMask A m (Node [])) q \<longleftrightarrow> mask_covers m q"
  using assms by (simp_all add: MergeFromFieldMask_def fold_AddPath_wf fold_AddPath_covers)

lemma canonical_covers:
  "absl_ok A \<Longrightarrow> \<forall>p \<in> set m. path_ok p \<Longrightarrow> mask_covers (ToCanonicalForm A m) q \<longleftrightarrow> mask_covers m q"
  by (simp add: ToCanonicalForm_def MergeToFieldMask_covers merged_mask)

text \<open>C28. The canonical form of a mask covers the same paths as the mask, is a fixed point, and
  is canonical: two masks have the same form exactly when they cover the same paths.\<close>

theorem canonical_form:
  assumes "absl_ok A" and "\<forall>p \<in> set m. path_ok p" and "\<forall>p \<in> set n. path_ok p"
  shows "(\<forall>q. mask_covers (ToCanonicalForm A m) q \<longleftrightarrow> mask_covers m q)
    \<and> ToCanonicalForm A (ToCanonicalForm A m) = ToCanonicalForm A m
    \<and> (ToCanonicalForm A m = ToCanonicalForm A n \<longleftrightarrow> (\<forall>q. mask_covers m q \<longleftrightarrow> mask_covers n q))"
proof -
  have same: "ToCanonicalForm A m = ToCanonicalForm A n"
    if "\<forall>q. mask_covers m q \<longleftrightarrow> mask_covers n q" "\<forall>p \<in> set m. path_ok p" "\<forall>p \<in> set n. path_ok p" for m n
  proof -
    have "MergeFromFieldMask A m (Node []) = MergeFromFieldMask A n (Node [])"
      using that merged_mask [OF assms(1)] by (intro tree_covers_inject) simp_all
    then show ?thesis by (simp add: ToCanonicalForm_def)
  qed
  note c = canonical_covers [OF assms(1,2)]
  have "\<forall>p \<in> set (ToCanonicalForm A m). path_ok p"
    using MergeToFieldMask_path_ok [OF merged_mask(1) [OF assms(1,2)]] by (simp add: ToCanonicalForm_def)
  then have "ToCanonicalForm A (ToCanonicalForm A m) = ToCanonicalForm A m"
    using c assms(2) by (intro same) simp_all
  moreover have "ToCanonicalForm A m = ToCanonicalForm A n \<longleftrightarrow> (\<forall>q. mask_covers m q \<longleftrightarrow> mask_covers n q)"
    using same [of m n] canonical_covers [OF assms(1)] assms(2,3) by metis
  ultimately show ?thesis using c by blast
qed

lemma canonical_form_witness:
  "(\<forall>q. mask_covers (ToCanonicalForm absl_ref [''b'', ''a.x'', ''a'']) q \<longleftrightarrow> mask_covers [''b'', ''a.x'', ''a''] q)
    \<and> ToCanonicalForm absl_ref (ToCanonicalForm absl_ref [''b'', ''a.x'', ''a'']) = ToCanonicalForm absl_ref [''b'', ''a.x'', ''a'']
    \<and> (ToCanonicalForm absl_ref [''b'', ''a.x'', ''a''] = ToCanonicalForm absl_ref [''a'', ''b'']
        \<longleftrightarrow> (\<forall>q. mask_covers [''b'', ''a.x'', ''a''] q \<longleftrightarrow> mask_covers [''a'', ''b''] q))"
  by (rule canonical_form [OF absl_ok_ref]) (simp_all add: path_ok_def)

text \<open>C29. The union of two masks covers the paths that one of them covers, the intersection
  those that both cover.\<close>

theorem union_intersect_cover:
  assumes "absl_ok A" and "\<forall>p \<in> set m1. path_ok p" and "\<forall>p \<in> set m2. path_ok p"
  shows "(mask_covers (FieldMask_Union A m1 m2) q \<longleftrightarrow> mask_covers m1 q \<or> mask_covers m2 q)
    \<and> (mask_covers (FieldMask_Intersect A m1 m2) q \<longleftrightarrow> mask_covers m1 q \<and> mask_covers m2 q)"
proof
  note t = merged_mask [OF assms(1,2)]
  have "wf_node (MergeFromFieldMask A m2 (MergeFromFieldMask A m1 (Node [])))"
    "tree_covers (MergeFromFieldMask A m2 (MergeFromFieldMask A m1 (Node []))) q
      \<longleftrightarrow> mask_covers m1 q \<or> mask_covers m2 q"
    using t assms by (simp_all add: MergeFromFieldMask_def fold_AddPath_wf fold_AddPath_covers)
  then show "mask_covers (FieldMask_Union A m1 m2) q \<longleftrightarrow> mask_covers m1 q \<or> mask_covers m2 q"
    by (simp add: FieldMask_Union_def MergeToFieldMask_covers)
  from fold_IntersectPath [OF assms(1) t(1) assms(3), of "Node []" q]
  show "mask_covers (FieldMask_Intersect A m1 m2) q \<longleftrightarrow> mask_covers m1 q \<and> mask_covers m2 q"
    by (simp add: FieldMask_Intersect_def Let_def MergeToFieldMask_covers t(2))
qed

lemma union_intersect_cover_witness:
  "(mask_covers (FieldMask_Union absl_ref [''a.b'', ''c''] [''a'']) [''a'', ''x'']
      \<longleftrightarrow> mask_covers [''a.b'', ''c''] [''a'', ''x''] \<or> mask_covers [''a''] [''a'', ''x''])
    \<and> (mask_covers (FieldMask_Intersect absl_ref [''a.b'', ''c''] [''a'']) [''a'', ''x'']
      \<longleftrightarrow> mask_covers [''a.b'', ''c''] [''a'', ''x''] \<and> mask_covers [''a''] [''a'', ''x''])"
  by (rule union_intersect_cover [OF absl_ok_ref]) (simp_all add: path_ok_def)

text \<open>C30. Subtracting a mask removes exactly the covered paths: a path of fields, not itself
  above a removed path, is covered afterwards if it was before and no removed path covers it.
  Paths of the second mask that name no fields have no effect.\<close>

theorem subtract_covers:
  assumes "absl_ok A" and "pool_ok pool" and "\<forall>p \<in> set m1. path_ok p"
    and "valid_path pool T q" and "\<forall>p \<in> set m2. \<not> strict_prefix q (split_on CHR ''.'' p)"
  shows "mask_covers (FieldMask_Subtract A pool T m1 m2) q \<longleftrightarrow> mask_covers m1 q \<and> \<not> mask_covers m2 q"
proof (cases "m1 = []")
  case True
  then show ?thesis by (simp add: FieldMask_Subtract_def mask_covers_def)
next
  case False
  note t = merged_mask [OF assms(1,3)]
  from fold_RemovePath [OF assms(1,2,4) t(1) assms(5)] False show ?thesis
    by (simp add: FieldMask_Subtract_def MergeToFieldMask_covers t(2))
qed

text \<open>Two message types: a person with a name and a repeated address of two fields.\<close>

definition sample_pool :: descriptor_pool where
  "sample_pool T =
     (if T = ''Person'' then
        [\<lparr>fd_name = ''name'', fd_repeated = False, fd_required = False, fd_message_type = None\<rparr>,
         \<lparr>fd_name = ''address'', fd_repeated = True, fd_required = False, fd_message_type = Some ''Address''\<rparr>]
      else if T = ''Address'' then
        [\<lparr>fd_name = ''street'', fd_repeated = False, fd_required = False, fd_message_type = None\<rparr>,
         \<lparr>fd_name = ''city'', fd_repeated = False, fd_required = False, fd_message_type = None\<rparr>]
      else [])"

lemma sample_pool_ok: "pool_ok sample_pool"
  by (auto simp: pool_ok_def sample_pool_def)

lemma subtract_covers_witness:
  "mask_covers (FieldMask_Subtract absl_ref sample_pool ''Person'' [''address''] [''address.city'']) [''address'', ''street'']
    \<longleftrightarrow> mask_covers [''address''] [''address'', ''street''] \<and> \<not> mask_covers [''address.city''] [''address'', ''street'']"
  by (rule subtract_covers [OF absl_ok_ref sample_pool_ok])
     (simp_all add: path_ok_def sample_pool_def FindFieldByName_def strict_prefix_def)


text \<open>A path that starts with a dot loses the dot when it goes through the tree: the canonical
  form covers a path that the mask does not.\<close>

theorem leading_dot_dropped:
  "ToCanonicalForm absl_ref [''.a''] = [''a'']
   \<and> IsPathInFieldMask absl_ref ''a'' [''a''] \<and> \<not> IsPathInFieldMask absl_ref ''a'' [''.a'']"
  by (simp add: ToCanonicalForm_def MergeFromFieldMask_def AddPath_def absl_ref_def
      MergeToFieldMask_def ForEachLeaf_def path_cat_def strip_prefix_def)

end
