(* ===== verification/Tokenizer_State.thy ===== *)
theory Tokenizer_State
  imports Prelude
begin

section \<open>io/tokenizer: state and characters\<close>

text \<open>
  The \<open>Tokenizer\<close> of the text formats (files \<open>io/tokenizer.h\<close> and \<open>io/tokenizer.cc\<close>): its
  state, the operations on single characters and the loops over a character class. The input
  stream is the list of the buffers that successive calls of \<open>Next()\<close> return. \<open>tk_record\<close> is
  \<open>record_target_\<close> with \<open>record_start_\<close>, \<open>None\<close> for a null target: the target is the text of the
  current token or the comment buffer of the caller, \<open>tk_content\<close>. What the code passes to the
  \<open>ErrorCollector\<close> is collected in \<open>tk_errors\<close>.
\<close>

subsection \<open>Character classes\<close>

datatype char_class =
  kWhitespace | kWhitespaceNoNewline | kUnprintable | kDigit | kOctalDigit | kHexDigit
  | kLetter | kAlphanumeric | kEscape | kUrlChar

text \<open>The \<open>absl::CharSet\<close> constants; no class contains the character zero.\<close>

fun contains :: "char_class \<Rightarrow> char \<Rightarrow> bool" where
  "contains kWhitespace c \<longleftrightarrow> c = CHR '' '' \<or> (CHR 0x09 \<le> c \<and> c \<le> CHR 0x0D)"
| "contains kWhitespaceNoNewline c \<longleftrightarrow> (c = CHR '' '' \<or> (CHR 0x09 \<le> c \<and> c \<le> CHR 0x0D)) \<and> c \<noteq> CHR 0x0A"
| "contains kUnprintable c \<longleftrightarrow> CHR 0x01 \<le> c \<and> c \<le> CHR 0x1F"
| "contains kDigit c \<longleftrightarrow> CHR ''0'' \<le> c \<and> c \<le> CHR ''9''"
| "contains kOctalDigit c \<longleftrightarrow> CHR ''0'' \<le> c \<and> c \<le> CHR ''7''"
| "contains kHexDigit c \<longleftrightarrow> (CHR ''0'' \<le> c \<and> c \<le> CHR ''9'') \<or> (CHR ''a'' \<le> c \<and> c \<le> CHR ''f'')
     \<or> (CHR ''A'' \<le> c \<and> c \<le> CHR ''F'')"
| "contains kLetter c \<longleftrightarrow> (CHR ''a'' \<le> c \<and> c \<le> CHR ''z'') \<or> (CHR ''A'' \<le> c \<and> c \<le> CHR ''Z'') \<or> c = CHR ''_''"
| "contains kAlphanumeric c \<longleftrightarrow> (CHR ''a'' \<le> c \<and> c \<le> CHR ''z'') \<or> (CHR ''A'' \<le> c \<and> c \<le> CHR ''Z'') \<or> c = CHR ''_''
     \<or> (CHR ''0'' \<le> c \<and> c \<le> CHR ''9'')"
| "contains kEscape c \<longleftrightarrow> c \<in> set [CHR ''a'', CHR ''b'', CHR ''f'', CHR ''n'', CHR ''r'', CHR ''t'', CHR ''v'',
     CHR 0x5C, CHR ''?'', CHR 0x27, CHR 0x22]"
| "contains kUrlChar c \<longleftrightarrow> (CHR ''a'' \<le> c \<and> c \<le> CHR ''z'') \<or> (CHR ''A'' \<le> c \<and> c \<le> CHR ''Z'') \<or> c = CHR ''_''
     \<or> (CHR ''0'' \<le> c \<and> c \<le> CHR ''9'') \<or> c \<in> set ''-.~!$&()*+,;=%/''"

lemma contains_nul [simp]: "\<not> contains cls (CHR 0x00)"
  by (cases cls) (simp_all add: less_eq_char_def)

subsection \<open>State\<close>

datatype token_type =
  TYPE_START | TYPE_END | TYPE_IDENTIFIER | TYPE_INTEGER | TYPE_FLOAT | TYPE_STRING | TYPE_SYMBOL
  | TYPE_WHITESPACE | TYPE_NEWLINE | TYPE_URL_CHARS

record token =
  tok_type :: token_type
  tok_text :: string
  tok_line :: int
  tok_column :: int
  tok_end_column :: int

datatype comment_style = CPP_COMMENT_STYLE | SH_COMMENT_STYLE
datatype record_target = ToToken | ToContent

text \<open>An error message; the one with a formatted number is a constructor of its own.\<close>

datatype tok_error = Message string | NonAsciiCodepoint nat

record tokenizer =
  tk_input :: "string list"
  tk_current_char :: char
  tk_buffer :: string
  tk_buffer_pos :: nat
  tk_read_error :: bool
  tk_line :: int
  tk_column :: int
  tk_record :: "(record_target \<times> nat) option"
  tk_content :: string
  tk_current :: token
  tk_previous :: token
  tk_errors :: "(int \<times> int \<times> tok_error) list"
  tk_allow_f_after_float :: bool
  tk_comment_style :: comment_style
  tk_require_space_after_number :: bool
  tk_allow_multiline_strings :: bool
  tk_report_whitespace :: bool
  tk_report_newlines :: bool
  tk_report_url_chars :: bool

definition set_report_whitespace :: "bool \<Rightarrow> tokenizer \<Rightarrow> tokenizer" where
  "set_report_whitespace report s =
     s\<lparr>tk_report_whitespace := report, tk_report_newlines := tk_report_newlines s \<and> report\<rparr>"

definition set_report_newlines :: "bool \<Rightarrow> tokenizer \<Rightarrow> tokenizer" where
  "set_report_newlines report s =
     s\<lparr>tk_report_newlines := report, tk_report_whitespace := tk_report_whitespace s \<or> report\<rparr>"

definition set_report_url_chars :: "bool \<Rightarrow> tokenizer \<Rightarrow> tokenizer" where
  "set_report_url_chars report s = s\<lparr>tk_report_url_chars := report\<rparr>"

definition AddError :: "string \<Rightarrow> tokenizer \<Rightarrow> tokenizer" where
  "AddError message s = s\<lparr>tk_errors := tk_errors s @ [(tk_line s, tk_column s, Message message)]\<rparr>"

subsection \<open>Reading characters\<close>

definition record_append :: "record_target \<Rightarrow> string \<Rightarrow> tokenizer \<Rightarrow> tokenizer" where
  "record_append target bytes s =
     (case target of
        ToToken \<Rightarrow> s\<lparr>tk_current := (tk_current s)\<lparr>tok_text := tok_text (tk_current s) @ bytes\<rparr>\<rparr>
      | ToContent \<Rightarrow> s\<lparr>tk_content := tk_content s @ bytes\<rparr>)"

text \<open>The loop over \<open>input_->Next()\<close>: the next non-empty buffer and what is behind it.\<close>

fun next_buffer :: "string list \<Rightarrow> string \<times> string list" where
  "next_buffer [] = ([], [])"
| "next_buffer (b # bs) = (if b = [] then next_buffer bs else (b, bs))"

definition Refresh :: "tokenizer \<Rightarrow> tokenizer" where
  "Refresh s =
     (if tk_read_error s then s\<lparr>tk_current_char := CHR 0x00\<rparr>
      else
        let s = (case tk_record s of
                   Some (target, start) \<Rightarrow>
                     if start < length (tk_buffer s)
                     then (record_append target (drop start (tk_buffer s)) s)\<lparr>tk_record := Some (target, 0)\<rparr>
                     else s
                 | None \<Rightarrow> s);
            (buffer, input) = next_buffer (tk_input s)
        in if buffer = []
           then s\<lparr>tk_input := input, tk_buffer := [], tk_buffer_pos := 0, tk_read_error := True,
                  tk_current_char := CHR 0x00\<rparr>
           else s\<lparr>tk_input := input, tk_buffer := buffer, tk_buffer_pos := 0,
                  tk_current_char := hd buffer\<rparr>)"

definition kTabWidth :: int where "kTabWidth = 8"

definition NextChar :: "tokenizer \<Rightarrow> tokenizer" where
  "NextChar s =
     (let s = (if tk_current_char s = CHR 0x0A then s\<lparr>tk_line := tk_line s + 1, tk_column := 0\<rparr>
               else if tk_current_char s = CHR 0x09
               then s\<lparr>tk_column := tk_column s + (kTabWidth - tk_column s mod kTabWidth)\<rparr>
               else s\<lparr>tk_column := tk_column s + 1\<rparr>);
          s = s\<lparr>tk_buffer_pos := tk_buffer_pos s + 1\<rparr>
      in if tk_buffer_pos s < length (tk_buffer s)
         then s\<lparr>tk_current_char := tk_buffer s ! tk_buffer_pos s\<rparr>
         else Refresh s)"

definition start_token :: token where
  "start_token = \<lparr>tok_type = TYPE_START, tok_text = [], tok_line = 0, tok_column = 0, tok_end_column = 0\<rparr>"

definition Tokenizer :: "string list \<Rightarrow> tokenizer" where
  "Tokenizer input = Refresh
     \<lparr>tk_input = input, tk_current_char = CHR 0x00, tk_buffer = [], tk_buffer_pos = 0, tk_read_error = False,
      tk_line = 0, tk_column = 0, tk_record = None, tk_content = [],
      tk_current = start_token, tk_previous = start_token, tk_errors = [],
      tk_allow_f_after_float = False, tk_comment_style = CPP_COMMENT_STYLE,
      tk_require_space_after_number = True, tk_allow_multiline_strings = False,
      tk_report_whitespace = False, tk_report_newlines = False, tk_report_url_chars = False\<rparr>"

text \<open>The destructor backs up over the unread part of the buffer.\<close>

definition Tokenizer_destroy_backup :: "tokenizer \<Rightarrow> nat" where
  "Tokenizer_destroy_backup s = length (tk_buffer s) - tk_buffer_pos s"

definition RecordTo :: "record_target \<Rightarrow> tokenizer \<Rightarrow> tokenizer" where
  "RecordTo target s = s\<lparr>tk_record := Some (target, tk_buffer_pos s)\<rparr>"

definition StopRecording :: "tokenizer \<Rightarrow> tokenizer" where
  "StopRecording s =
     (case tk_record s of
        None \<Rightarrow> s
      | Some (target, start) \<Rightarrow>
          (if tk_buffer_pos s \<noteq> start
           then record_append target (take (tk_buffer_pos s - start) (drop start (tk_buffer s))) s
           else s)\<lparr>tk_record := None\<rparr>)"

definition StartToken :: "tokenizer \<Rightarrow> tokenizer" where
  "StartToken s = RecordTo ToToken
     (s\<lparr>tk_current := (tk_current s)\<lparr>tok_type := TYPE_START, tok_text := [], tok_line := tk_line s,
                                      tok_column := tk_column s\<rparr>\<rparr>)"

definition EndToken :: "tokenizer \<Rightarrow> tokenizer" where
  "EndToken s =
     (let s = StopRecording s in s\<lparr>tk_current := (tk_current s)\<lparr>tok_end_column := tk_column s\<rparr>\<rparr>)"

definition set_type :: "token_type \<Rightarrow> tokenizer \<Rightarrow> tokenizer" where
  "set_type type s = s\<lparr>tk_current := (tk_current s)\<lparr>tok_type := type\<rparr>\<rparr>"

subsection \<open>A measure that every consumed character decreases\<close>

definition tk_left :: "tokenizer \<Rightarrow> nat" where
  "tk_left s = 2 * ((length (tk_buffer s) - tk_buffer_pos s) + (\<Sum>c\<leftarrow>tk_input s. length c + 1)
     + (if tk_read_error s then 0 else 1)) + (if tk_current_char s = CHR 0x00 then 0 else 1)"

lemma next_buffer_left:
  "next_buffer input = (b, bs) \<Longrightarrow> length b + (\<Sum>c\<leftarrow>bs. length c + 1) + (if b = [] then 0 else 1)
     \<le> (\<Sum>c\<leftarrow>input. length c + 1)"
  by (induction input) (auto split: if_splits)

lemma record_append_left [simp]:
  "tk_left (record_append t bs s) = tk_left s" "tk_read_error (record_append t bs s) = tk_read_error s"
  "tk_input (record_append t bs s) = tk_input s" "tk_buffer (record_append t bs s) = tk_buffer s"
  "tk_buffer_pos (record_append t bs s) = tk_buffer_pos s" "tk_record (record_append t bs s) = tk_record s"
  "tk_current_char (record_append t bs s) = tk_current_char s"
  "tk_line (record_append t bs s) = tk_line s" "tk_column (record_append t bs s) = tk_column s"
  by (cases t; simp add: record_append_def tk_left_def)+

lemma Refresh_left:
  "tk_left (Refresh s) \<le> (if tk_read_error s then 2 * (length (tk_buffer s) - tk_buffer_pos s) + 2 * (\<Sum>c\<leftarrow>tk_input s. length c + 1)
     else 2 * (\<Sum>c\<leftarrow>tk_input s. length c + 1) + 1)"
proof (cases "tk_read_error s")
  case True
  then show ?thesis by (simp add: Refresh_def tk_left_def)
next
  case False
  obtain b bs where n: "next_buffer (tk_input s) = (b, bs)" by (cases "next_buffer (tk_input s)") auto
  from next_buffer_left [OF n] False n show ?thesis
    by (auto simp: Refresh_def Let_def tk_left_def split: option.split)
qed

lemma NextChar_left:
  assumes "tk_current_char s \<noteq> CHR 0x00 \<or> \<not> tk_read_error s"
  shows "tk_left (NextChar s) < tk_left s"
proof -
  define t where "t = (let s = (if tk_current_char s = CHR 0x0A then s\<lparr>tk_line := tk_line s + 1, tk_column := 0\<rparr>
               else if tk_current_char s = CHR 0x09
               then s\<lparr>tk_column := tk_column s + (kTabWidth - tk_column s mod kTabWidth)\<rparr>
               else s\<lparr>tk_column := tk_column s + 1\<rparr>)
      in s\<lparr>tk_buffer_pos := tk_buffer_pos s + 1\<rparr>)"
  have t: "tk_buffer t = tk_buffer s" "tk_buffer_pos t = tk_buffer_pos s + 1" "tk_input t = tk_input s"
    "tk_read_error t = tk_read_error s"
    by (simp_all add: t_def Let_def)
  have n: "NextChar s = (if tk_buffer_pos t < length (tk_buffer t)
       then t\<lparr>tk_current_char := tk_buffer t ! tk_buffer_pos t\<rparr> else Refresh t)"
    by (simp add: NextChar_def t_def Let_def)
  show ?thesis
  proof (cases "tk_buffer_pos t < length (tk_buffer t)")
    case True
    then obtain k where "length (tk_buffer s) = tk_buffer_pos s + 2 + k"
      using t(1,2) by (metis add_2_eq_Suc' less_iff_Suc_add add_Suc_right add_Suc Suc_eq_plus1)
    with True show ?thesis by (simp add: n t tk_left_def)
  next
    case False
    with Refresh_left [of t] assms show ?thesis
      by (auto simp: n t tk_left_def split: if_splits)
  qed
qed

lemma control_left [simp]:
  "tk_left (AddError e s) = tk_left s" "tk_left (RecordTo t s) = tk_left s"
  "tk_left (StopRecording s) = tk_left s" "tk_left (StartToken s) = tk_left s"
  "tk_left (EndToken s) = tk_left s" "tk_left (set_type ty s) = tk_left s"
  by (simp_all add: AddError_def RecordTo_def StopRecording_def StartToken_def EndToken_def set_type_def
      Let_def tk_left_def split: option.split prod.split)

end
