(* ===== verification/Tokenizer_Scan.thy ===== *)
theory Tokenizer_Scan
  imports Tokenizer_State
begin

section \<open>io/tokenizer: the scanner\<close>

text \<open>
  The methods of \<open>Tokenizer\<close> that consume characters, up to \<open>Next()\<close> and \<open>NextWithComments()\<close>.
  A method that returns a value returns it with the new state. \<open>orelse\<close> and \<open>andthen\<close> are the
  short-circuit operators of the conditions. The body of an endless loop is a definition of its
  own that says whether the loop goes on; all loops terminate because each turn consumes a
  character (\<open>tk_left\<close>), which is proved before the loop is defined.
\<close>

type_synonym 'a scan = "tokenizer \<Rightarrow> 'a \<times> tokenizer"

definition orelse :: "bool scan \<Rightarrow> bool scan \<Rightarrow> bool scan" where
  "orelse f g s = (case f s of (b, s) \<Rightarrow> if b then (True, s) else g s)"

definition andthen :: "bool scan \<Rightarrow> bool scan \<Rightarrow> bool scan" where
  "andthen f g s = (case f s of (b, s) \<Rightarrow> if b then g s else (False, s))"

definition LookingAt :: "char_class \<Rightarrow> tokenizer \<Rightarrow> bool" where
  "LookingAt cls s = contains cls (tk_current_char s)"

definition TryConsumeOne :: "char_class \<Rightarrow> bool scan" where
  "TryConsumeOne cls s = (if contains cls (tk_current_char s) then (True, NextChar s) else (False, s))"

definition TryConsume :: "char \<Rightarrow> bool scan" where
  "TryConsume c s = (if tk_current_char s = c then (True, NextChar s) else (False, s))"

function ConsumeZeroOrMore :: "char_class \<Rightarrow> tokenizer \<Rightarrow> tokenizer" where
  "ConsumeZeroOrMore cls s =
     (if contains cls (tk_current_char s) then ConsumeZeroOrMore cls (NextChar s) else s)"
  by pat_completeness auto
termination
proof (relation "measure (\<lambda>(_, s). tk_left s)", goal_cases)
  case (2 cls s)
  then have "tk_current_char s \<noteq> CHR 0x00" by (intro notI) simp
  then show ?case by (simp add: NextChar_left)
qed simp

declare ConsumeZeroOrMore.simps [simp del]

definition ConsumeOneOrMore :: "char_class \<Rightarrow> string \<Rightarrow> tokenizer \<Rightarrow> tokenizer" where
  "ConsumeOneOrMore cls error s =
     (if \<not> contains cls (tk_current_char s) then AddError error s
      else ConsumeZeroOrMore cls (NextChar s))"

subsection \<open>Consuming never gives characters back\<close>

lemma contains_not_nul: "contains cls c \<Longrightarrow> c \<noteq> CHR 0x00"
  by (intro notI) simp

lemma TryConsumeOne_left:
  "TryConsumeOne cls s = (b, s') \<Longrightarrow> tk_left s' \<le> tk_left s \<and> (b \<longrightarrow> tk_left s' < tk_left s)"
  using NextChar_left [of s] contains_not_nul by (auto simp: TryConsumeOne_def split: if_splits)

lemma TryConsume_left:
  "TryConsume c s = (b, s') \<Longrightarrow> c \<noteq> CHR 0x00 \<or> \<not> tk_read_error s \<Longrightarrow>
     tk_left s' \<le> tk_left s \<and> (b \<longrightarrow> tk_left s' < tk_left s)"
  using NextChar_left [of s] by (auto simp: TryConsume_def split: if_splits)

lemma ConsumeZeroOrMore_left: "tk_left (ConsumeZeroOrMore cls s) \<le> tk_left s"
proof (induction cls s rule: ConsumeZeroOrMore.induct)
  case (1 cls s)
  show ?case
  proof (cases "contains cls (tk_current_char s)")
    case True
    with 1 NextChar_left [of s] contains_not_nul [of cls] show ?thesis
      by (subst ConsumeZeroOrMore.simps) fastforce
  next
    case False
    then show ?thesis by (subst ConsumeZeroOrMore.simps) simp
  qed
qed

lemma ConsumeOneOrMore_left: "tk_left (ConsumeOneOrMore cls e s) \<le> tk_left s"
  using NextChar_left [of s] contains_not_nul [of cls "tk_current_char s"]
    ConsumeZeroOrMore_left [of cls "NextChar s"]
  by (auto simp: ConsumeOneOrMore_def)

text \<open>Scans that give nothing back, and their compositions.\<close>

definition no_more :: "bool scan \<Rightarrow> bool" where
  "no_more f \<longleftrightarrow> (\<forall>s. tk_left (snd (f s)) \<le> tk_left s)"

lemma no_moreD: "no_more f \<Longrightarrow> f s = (b, s') \<Longrightarrow> tk_left s' \<le> tk_left s"
  unfolding no_more_def by (metis snd_conv)

lemma no_more_intros [intro!]:
  "no_more (TryConsumeOne cls)" "c \<noteq> CHR 0x00 \<Longrightarrow> no_more (TryConsume c)"
  "no_more f \<Longrightarrow> no_more g \<Longrightarrow> no_more (orelse f g)"
  "no_more f \<Longrightarrow> no_more g \<Longrightarrow> no_more (andthen f g)"
proof -
  show "no_more (TryConsumeOne cls)"
    unfolding no_more_def using TryConsumeOne_left by (metis prod.collapse)
  show "c \<noteq> CHR 0x00 \<Longrightarrow> no_more (TryConsume c)"
    unfolding no_more_def using TryConsume_left by (metis prod.collapse)
  have "tk_left (snd (orelse f g s)) \<le> tk_left s \<and> tk_left (snd (andthen f g s)) \<le> tk_left s"
    if "no_more f" "no_more g" for s
  proof -
    obtain b t where f: "f s = (b, t)" by (cases "f s")
    have "tk_left t \<le> tk_left s" "tk_left (snd (g t)) \<le> tk_left t"
      using no_moreD [OF that(1) f] that(2) by (auto simp: no_more_def)
    then show ?thesis by (auto simp: orelse_def andthen_def f)
  qed
  then show "no_more f \<Longrightarrow> no_more g \<Longrightarrow> no_more (orelse f g)"
    "no_more f \<Longrightarrow> no_more g \<Longrightarrow> no_more (andthen f g)"
    by (auto simp: no_more_def)
qed

subsection \<open>Strings, numbers and symbols\<close>

definition four_hex_digits :: "bool scan" where
  "four_hex_digits = andthen (TryConsumeOne kHexDigit) (andthen (TryConsumeOne kHexDigit)
     (andthen (TryConsumeOne kHexDigit) (TryConsumeOne kHexDigit)))"

definition eight_hex_digits :: "bool scan" where
  "eight_hex_digits = andthen (TryConsume CHR ''0'') (andthen (TryConsume CHR ''0'')
     (andthen (orelse (TryConsume CHR ''0'') (TryConsume CHR ''1''))
     (andthen (TryConsumeOne kHexDigit) (andthen (TryConsumeOne kHexDigit)
     (andthen (TryConsumeOne kHexDigit) (andthen (TryConsumeOne kHexDigit) (TryConsumeOne kHexDigit)))))))"

definition AddError_unless :: "string \<Rightarrow> bool \<times> tokenizer \<Rightarrow> tokenizer" where
  "AddError_unless message r = (if fst r then snd r else AddError message (snd r))"

text \<open>The case of \<open>ConsumeString\<close> for an escape sequence, behind the backslash.\<close>

definition ConsumeEscape :: "tokenizer \<Rightarrow> tokenizer" where
  "ConsumeEscape s =
     (case TryConsumeOne kEscape s of (b, s) \<Rightarrow> if b then s else
      case TryConsumeOne kOctalDigit s of (b, s) \<Rightarrow> if b then s else
      case orelse (TryConsume CHR ''x'') (TryConsume CHR ''X'') s of (b, s) \<Rightarrow>
        if b then AddError_unless ''Expected hex digits for escape sequence.'' (TryConsumeOne kHexDigit s) else
      case TryConsume CHR ''u'' s of (b, s) \<Rightarrow>
        if b then AddError_unless (''Expected four hex digits for '' @ [CHR 0x5C] @ ''u escape sequence.'') (four_hex_digits s) else
      case TryConsume CHR ''U'' s of (b, s) \<Rightarrow>
        if b then AddError_unless (''Expected eight hex digits up to 10ffff for '' @ [CHR 0x5C] @ ''U escape sequence'') (eight_hex_digits s)
        else AddError ''Invalid escape sequence in string literal.'' s)"

lemma AddError_unless_left: "tk_left (AddError_unless e r) = tk_left (snd r)"
  by (simp add: AddError_unless_def)

lemma hex_digits_no_more [intro!]: "no_more four_hex_digits" "no_more eight_hex_digits"
  unfolding four_hex_digits_def eight_hex_digits_def by blast+

lemma ConsumeEscape_left: "tk_left (ConsumeEscape s) \<le> tk_left s"
proof -
  have x: "no_more (orelse (TryConsume CHR ''x'') (TryConsume CHR ''X''))" by auto
  obtain b1 s1 where 1: "TryConsumeOne kEscape s = (b1, s1)" by (cases "TryConsumeOne kEscape s")
  obtain b2 s2 where 2: "TryConsumeOne kOctalDigit s1 = (b2, s2)" by (cases "TryConsumeOne kOctalDigit s1")
  obtain b3 s3 where 3: "orelse (TryConsume CHR ''x'') (TryConsume CHR ''X'') s2 = (b3, s3)"
    by (cases "orelse (TryConsume CHR ''x'') (TryConsume CHR ''X'') s2")
  obtain b4 s4 where 4: "TryConsume CHR ''u'' s3 = (b4, s4)" by (cases "TryConsume CHR ''u'' s3")
  obtain b5 s5 where 5: "TryConsume CHR ''U'' s4 = (b5, s5)" by (cases "TryConsume CHR ''U'' s4")
  have l: "tk_left s1 \<le> tk_left s" "tk_left s2 \<le> tk_left s1" "tk_left s3 \<le> tk_left s2"
    "tk_left s4 \<le> tk_left s3" "tk_left s5 \<le> tk_left s4"
    using TryConsumeOne_left [OF 1] TryConsumeOne_left [OF 2] no_moreD [OF x 3]
      TryConsume_left [OF 4] TryConsume_left [OF 5] by auto
  have "tk_left (snd (TryConsumeOne kHexDigit s3)) \<le> tk_left s3" "tk_left (snd (four_hex_digits s4)) \<le> tk_left s4"
    "tk_left (snd (eight_hex_digits s5)) \<le> tk_left s5"
    using no_more_intros(1) hex_digits_no_more by (auto simp: no_more_def)
  with l show ?thesis
    by (simp add: ConsumeEscape_def 1 2 3 4 5 AddError_unless_left)
qed

function ConsumeString :: "char \<Rightarrow> tokenizer \<Rightarrow> tokenizer" where
  "ConsumeString delimiter s =
     (let c = tk_current_char s
      in if c = CHR 0x00 then AddError ''Unexpected end of string.'' s
         else if c = CHR 0x0A
         then if \<not> tk_allow_multiline_strings s
              then AddError (''Multiline strings are not allowed. Did you miss a '' @ [CHR 0x22] @ ''?.'') s
              else ConsumeString delimiter (NextChar s)
         else if c = CHR 0x5C then ConsumeString delimiter (ConsumeEscape (NextChar s))
         else if c = delimiter then NextChar s
         else ConsumeString delimiter (NextChar s))"
  by pat_completeness auto
termination
proof (relation "measure (\<lambda>(_, s). tk_left s)", goal_cases)
  case (3 delimiter s c)
  then show ?case using ConsumeEscape_left [of "NextChar s"] NextChar_left [of s] by auto
qed (auto simp: NextChar_left)

declare ConsumeString.simps [simp del]

text \<open>The optional exponent of a decimal number and the optional \<open>f\<close>; the result is \<open>is_float\<close>.\<close>

definition ConsumeExponent :: "bool \<Rightarrow> bool scan" where
  "ConsumeExponent is_float s =
     (case orelse (TryConsume CHR ''e'') (TryConsume CHR ''E'') s of (b, s) \<Rightarrow>
        if b
        then (case orelse (TryConsume CHR ''-'') (TryConsume CHR ''+'') s of (_, s) \<Rightarrow>
                (True, ConsumeOneOrMore kDigit ([CHR 0x22] @ ''e'' @ [CHR 0x22] @ '' must be followed by exponent.'') s))
        else (is_float, s))"

definition ConsumeFloatSuffix :: "bool \<Rightarrow> bool scan" where
  "ConsumeFloatSuffix is_float s =
     (if tk_allow_f_after_float s
      then (case orelse (TryConsume CHR ''f'') (TryConsume CHR ''F'') s of (b, s) \<Rightarrow> (b \<or> is_float, s))
      else (is_float, s))"

definition ConsumeDecimal :: "bool \<Rightarrow> bool scan" where
  "ConsumeDecimal started_with_dot s =
     (let (is_float, s) =
        (if started_with_dot then (True, ConsumeZeroOrMore kDigit s)
         else case TryConsume CHR ''.'' (ConsumeZeroOrMore kDigit s) of (b, s) \<Rightarrow>
                if b then (True, ConsumeZeroOrMore kDigit s) else (False, s));
          (is_float, s) = ConsumeExponent is_float s
      in ConsumeFloatSuffix is_float s)"

definition ConsumeOctal :: "tokenizer \<Rightarrow> tokenizer" where
  "ConsumeOctal s =
     (let s = ConsumeZeroOrMore kOctalDigit s
      in if LookingAt kDigit s
         then ConsumeZeroOrMore kDigit (AddError ''Numbers starting with leading zero must be in octal.'' s)
         else s)"

definition ConsumeNumber :: "bool \<Rightarrow> bool \<Rightarrow> token_type scan" where
  "ConsumeNumber started_with_zero started_with_dot s =
     (let (hex, s) = (if started_with_zero then orelse (TryConsume CHR ''x'') (TryConsume CHR ''X'') s
                      else (False, s));
          (is_float, s) =
            (if hex
             then (False, ConsumeOneOrMore kHexDigit ([CHR 0x22] @ ''0x'' @ [CHR 0x22] @ '' must be followed by hex digits.'') s)
             else if started_with_zero \<and> LookingAt kDigit s then (False, ConsumeOctal s)
             else ConsumeDecimal started_with_dot s);
          s = (if LookingAt kLetter s \<and> tk_require_space_after_number s
               then AddError ''Need space between number and identifier.'' s
               else if tk_current_char s = CHR ''.''
               then if is_float
                    then AddError (''Already saw decimal point or exponent; can'' @ [CHR 0x27] @ ''t have another one.'') s
                    else AddError ''Hex and octal numbers must be integers.'' s
               else s)
      in (if is_float then TYPE_FLOAT else TYPE_INTEGER, s))"

definition ConsumeSymbol :: "tokenizer \<Rightarrow> tokenizer" where
  "ConsumeSymbol s =
     NextChar (if 128 \<le> (of_char (tk_current_char s) :: nat)
               then s\<lparr>tk_errors := tk_errors s @ [(tk_line s, tk_column s, NonAsciiCodepoint (of_char (tk_current_char s)))]\<rparr>
               else s)"

subsection \<open>Comments and whitespace\<close>

text \<open>\<open>with_content\<close> says that the caller passed a buffer for the comment (\<open>content\<close> is not null).\<close>

function skip_until :: "char list \<Rightarrow> tokenizer \<Rightarrow> tokenizer" where
  "skip_until stops s =
     (if tk_current_char s \<noteq> CHR 0x00 \<and> tk_current_char s \<notin> set stops
      then skip_until stops (NextChar s) else s)"
  by pat_completeness auto
termination
  by (relation "measure (\<lambda>(_, s). tk_left s)") (auto simp: NextChar_left)

declare skip_until.simps [simp del]

lemma skip_until_left: "tk_left (skip_until stops s) \<le> tk_left s"
proof (induction stops s rule: skip_until.induct)
  case (1 stops s)
  show ?case
  proof (cases "tk_current_char s \<noteq> CHR 0x00 \<and> tk_current_char s \<notin> set stops")
    case True
    with 1 NextChar_left [of s] show ?thesis by (subst skip_until.simps) auto
  next
    case False
    then show ?thesis by (subst skip_until.simps) auto
  qed
qed

lemma skip_until_stops:
  "tk_current_char (skip_until stops s) = CHR 0x00 \<or> tk_current_char (skip_until stops s) \<in> set stops"
proof (induction stops s rule: skip_until.induct)
  case (1 stops s)
  show ?case
  proof (cases "tk_current_char s \<noteq> CHR 0x00 \<and> tk_current_char s \<notin> set stops")
    case True
    with 1 show ?thesis by (simp add: skip_until.simps [of stops s])
  next
    case False
    then have "skip_until stops s = s" by (subst skip_until.simps) auto
    with False show ?thesis by auto
  qed
qed

definition ConsumeLineComment :: "bool \<Rightarrow> tokenizer \<Rightarrow> tokenizer" where
  "ConsumeLineComment with_content s =
     (let s = (if with_content then RecordTo ToContent s else s);
          s = skip_until [CHR 0x0A] s;
          s = snd (TryConsume CHR 0x0A s)
      in if with_content then StopRecording s else s)"

text \<open>One turn of the loop of \<open>ConsumeBlockComment\<close>: whether it goes on, and the new state.\<close>

definition BlockComment_turn :: "bool \<Rightarrow> int \<Rightarrow> int \<Rightarrow> bool scan" where
  "BlockComment_turn with_content start_line start_column s =
     (case TryConsume CHR 0x0A (skip_until [CHR ''*'', CHR ''/'', CHR 0x0A] s) of (newline, s) \<Rightarrow>
      if newline
      then let s = (if with_content then StopRecording s else s);
               s = ConsumeZeroOrMore kWhitespaceNoNewline s;
               (ends, s) = andthen (TryConsume CHR ''*'') (TryConsume CHR ''/'') s
           in if ends then (False, s) else (True, if with_content then RecordTo ToContent s else s)
      else case andthen (TryConsume CHR ''*'') (TryConsume CHR ''/'') s of (ends, s) \<Rightarrow>
      if ends
      then if with_content
           then let s = StopRecording s
                in (False, s\<lparr>tk_content := take (length (tk_content s) - 2) (tk_content s)\<rparr>)
           else (False, s)
      else case TryConsume CHR ''/'' s of (slash, s) \<Rightarrow>
      if slash \<and> tk_current_char s = CHR ''*''
      then (True, AddError ([CHR 0x22] @ ''/*'' @ [CHR 0x22] @ '' inside block comment.  Block comments cannot be nested.'') s)
      else if tk_current_char s = CHR 0x00
      then let s = AddError ''End-of-file inside block comment.'' s;
               s = s\<lparr>tk_errors := tk_errors s @ [(start_line, start_column, Message ''  Comment started here.'')]\<rparr>
           in (False, if with_content then StopRecording s else s)
      else (True, s))"

lemma tk_left_update [simp]:
  "tk_left (s\<lparr>tk_content := c\<rparr>) = tk_left s" "tk_left (s\<lparr>tk_errors := e\<rparr>) = tk_left s"
  "tk_left (s\<lparr>tk_current := k\<rparr>) = tk_left s" "tk_left (s\<lparr>tk_previous := k\<rparr>) = tk_left s"
  by (simp_all add: tk_left_def)

lemma BlockComment_turn_left:
  assumes "BlockComment_turn w l k s = (b, s')"
  shows "tk_left s' \<le> tk_left s \<and> (b \<longrightarrow> tk_left s' < tk_left s)"
proof -
  define s0 where "s0 = skip_until [CHR ''*'', CHR ''/'', CHR 0x0A] s"
  have 0: "tk_left s0 \<le> tk_left s" unfolding s0_def by (rule skip_until_left)
  have stop: "tk_current_char s0 \<in> {CHR 0x00, CHR ''*'', CHR ''/'', CHR 0x0A}"
    using skip_until_stops [of "[CHR ''*'', CHR ''/'', CHR 0x0A]" s] by (auto simp: s0_def)
  obtain n s1 where 1: "TryConsume CHR 0x0A s0 = (n, s1)" by (cases "TryConsume CHR 0x0A s0")
  note l1 = TryConsume_left [OF 1]
  show ?thesis
  proof (cases n)
    case True
    define s2 where "s2 = ConsumeZeroOrMore kWhitespaceNoNewline (if w then StopRecording s1 else s1)"
    have 2: "tk_left s2 \<le> tk_left s1"
      using ConsumeZeroOrMore_left [of kWhitespaceNoNewline "if w then StopRecording s1 else s1"]
      by (cases w) (simp_all add: s2_def)
    obtain e s3 where 3: "andthen (TryConsume CHR ''*'') (TryConsume CHR ''/'') s2 = (e, s3)"
      by (cases "andthen (TryConsume CHR ''*'') (TryConsume CHR ''/'') s2")
    have "no_more (andthen (TryConsume CHR ''*'') (TryConsume CHR ''/''))" by auto
    from no_moreD [OF this 3] have "tk_left s3 \<le> tk_left s2" .
    moreover have "s' = s3 \<or> s' = RecordTo ToContent s3"
      using assms True 3 by (auto simp: BlockComment_turn_def s0_def [symmetric] 1 Let_def s2_def split: if_splits)
    ultimately show ?thesis using 0 l1 2 True by auto
  next
    case False
    then have s1: "s1 = s0" "tk_current_char s0 \<noteq> CHR 0x0A" using 1 by (auto simp: TryConsume_def split: if_splits)
    obtain e s2 where 2: "andthen (TryConsume CHR ''*'') (TryConsume CHR ''/'') s1 = (e, s2)"
      by (cases "andthen (TryConsume CHR ''*'') (TryConsume CHR ''/'') s1")
    have "no_more (andthen (TryConsume CHR ''*'') (TryConsume CHR ''/''))" by auto
    from no_moreD [OF this 2] have l2: "tk_left s2 \<le> tk_left s1" .
    have star: "tk_current_char s0 = CHR ''*'' \<Longrightarrow> tk_left s2 < tk_left s0"
      using 2 s1 NextChar_left [of s0] TryConsume_left [of "CHR ''/''" "NextChar s0"]
      by (cases "TryConsume CHR ''/'' (NextChar s0)") (auto simp: andthen_def TryConsume_def [of "CHR ''*''"])
    have nostar: "tk_current_char s0 \<noteq> CHR ''*'' \<Longrightarrow> s2 = s0"
      using 2 s1 by (auto simp: andthen_def TryConsume_def)
    obtain sl s3 where 3: "TryConsume CHR ''/'' s2 = (sl, s3)" by (cases "TryConsume CHR ''/'' s2")
    note l3 = TryConsume_left [OF 3]
    have eqs: "(b, s') = (if e then (False, if w then (StopRecording s2)\<lparr>tk_content := take (length (tk_content (StopRecording s2)) - 2) (tk_content (StopRecording s2))\<rparr> else s2)
      else if sl \<and> tk_current_char s3 = CHR ''*''
      then (True, AddError ([CHR 0x22] @ ''/*'' @ [CHR 0x22] @ '' inside block comment.  Block comments cannot be nested.'') s3)
      else if tk_current_char s3 = CHR 0x00
      then (False, s') else (True, s3))"
      using assms False unfolding BlockComment_turn_def s0_def [symmetric] 1 prod.case if_False 2 3 Let_def
      by (auto split: if_splits)
    have fin: "tk_left s' = tk_left s3" if "\<not> e" "\<not> (sl \<and> tk_current_char s3 = CHR ''*'')" "tk_current_char s3 = CHR 0x00"
      using assms False that unfolding BlockComment_turn_def s0_def [symmetric] 1 prod.case if_False 2 3 Let_def
      by (auto split: if_splits)
    have prog: "tk_left s3 < tk_left s0" if "\<not> e" "tk_current_char s3 \<noteq> CHR 0x00 \<or> sl"
    proof (cases "tk_current_char s0 = CHR ''*''")
      case True
      then show ?thesis using star l3 by auto
    next
      case ns: False
      then have "s2 = s0" by (rule nostar)
      show ?thesis
      proof (cases sl)
        case True
        with l3 \<open>s2 = s0\<close> show ?thesis by auto
      next
        case False
        with 3 have "s3 = s2" "tk_current_char s2 \<noteq> CHR ''/''" by (auto simp: TryConsume_def split: if_splits)
        with stop s1(2) ns \<open>s2 = s0\<close> that(2) False show ?thesis by auto
      qed
    qed
    show ?thesis using eqs fin prog 0 l2 l3 s1(1) by (auto split: if_splits)
  qed
qed

function BlockComment_loop :: "bool \<Rightarrow> int \<Rightarrow> int \<Rightarrow> tokenizer \<Rightarrow> tokenizer" where
  "BlockComment_loop w start_line start_column s =
     (case BlockComment_turn w start_line start_column s of
        (b, s) \<Rightarrow> if b then BlockComment_loop w start_line start_column s else s)"
  by pat_completeness auto
termination
proof (relation "measure (\<lambda>(_, _, _, s). tk_left s)", goal_cases)
  case (2 w l k s b s')
  then have "BlockComment_turn w l k s = (b, s')" by simp
  from BlockComment_turn_left [OF this] 2 show ?case by simp
qed simp

declare BlockComment_loop.simps [simp del]

definition ConsumeBlockComment :: "bool \<Rightarrow> tokenizer \<Rightarrow> tokenizer" where
  "ConsumeBlockComment with_content s =
     (let start_line = tk_line s; start_column = tk_column s - 2
      in BlockComment_loop with_content start_line start_column
           (if with_content then RecordTo ToContent s else s))"

lemma BlockComment_loop_left: "tk_left (BlockComment_loop w l k s) \<le> tk_left s"
proof (induction w l k s rule: BlockComment_loop.induct)
  case (1 w l k s)
  obtain b s' where t: "BlockComment_turn w l k s = (b, s')" by (cases "BlockComment_turn w l k s")
  have eq: "BlockComment_loop w l k s = (if b then BlockComment_loop w l k s' else s')"
    by (subst BlockComment_loop.simps) (simp add: t)
  have "b \<Longrightarrow> tk_left (BlockComment_loop w l k s') \<le> tk_left s'" by (rule 1) (simp_all add: t)
  with BlockComment_turn_left [OF t] show ?case unfolding eq by (cases b) simp_all
qed

lemma comments_left:
  "tk_left (ConsumeLineComment w s) \<le> tk_left s" "tk_left (ConsumeBlockComment w s) \<le> tk_left s"
proof -
  have w: "tk_left (if w then RecordTo t s else s) = tk_left s" "tk_left (if w then StopRecording s else s) = tk_left s" for t s
    by simp_all
  have n: "tk_left (snd (TryConsume CHR 0x0A s)) \<le> tk_left s" for s
  proof -
    have "no_more (TryConsume CHR 0x0A)" by (rule no_more_intros(2)) simp
    then show ?thesis by (simp add: no_more_def)
  qed
  have "tk_left (snd (TryConsume CHR 0x0A (skip_until [CHR 0x0A] s))) \<le> tk_left s" for s
    using n skip_until_left order_trans by blast
  then show "tk_left (ConsumeLineComment w s) \<le> tk_left s"
    unfolding ConsumeLineComment_def Let_def w(2) using \<open>\<And>s. tk_left (snd (TryConsume CHR 0x0A (skip_until [CHR 0x0A] s))) \<le> tk_left s\<close>
      [of "if w then RecordTo ToContent s else s"] w(1) by simp
  show "tk_left (ConsumeBlockComment w s) \<le> tk_left s"
    unfolding ConsumeBlockComment_def Let_def using BlockComment_loop_left
      [of w "tk_line s" "tk_column s - 2" "if w then RecordTo ToContent s else s"] w(1) by simp
qed

datatype comment_status = LINE_COMMENT | BLOCK_COMMENT | SLASH_NOT_COMMENT | NO_COMMENT

definition TryConsumeCommentStart :: "comment_status scan" where
  "TryConsumeCommentStart s =
     (case (if tk_comment_style s = CPP_COMMENT_STYLE then TryConsume CHR ''/'' s else (False, s)) of
        (True, s) \<Rightarrow>
          (case TryConsume CHR ''/'' s of
             (True, s) \<Rightarrow> (LINE_COMMENT, s)
           | (False, s) \<Rightarrow>
               (case TryConsume CHR ''*'' s of
                  (True, s) \<Rightarrow> (BLOCK_COMMENT, s)
                | (False, s) \<Rightarrow>
                    (SLASH_NOT_COMMENT,
                     s\<lparr>tk_current := \<lparr>tok_type = TYPE_SYMBOL, tok_text = ''/'', tok_line = tk_line s,
                                      tok_column = tk_column s - 1, tok_end_column = tk_column s\<rparr>\<rparr>)))
      | (False, s) \<Rightarrow>
          (case (if tk_comment_style s = SH_COMMENT_STYLE then TryConsume CHR ''#'' s else (False, s)) of
             (True, s) \<Rightarrow> (LINE_COMMENT, s)
           | (False, s) \<Rightarrow> (NO_COMMENT, s)))"

definition TryConsumeWhitespace :: "bool scan" where
  "TryConsumeWhitespace s =
     (if tk_report_newlines s
      then (case TryConsumeOne kWhitespaceNoNewline s of
              (True, s) \<Rightarrow> (True, set_type TYPE_WHITESPACE (ConsumeZeroOrMore kWhitespaceNoNewline s))
            | (False, s) \<Rightarrow> (False, s))
      else (case TryConsumeOne kWhitespace s of
              (True, s) \<Rightarrow> let s = set_type TYPE_WHITESPACE (ConsumeZeroOrMore kWhitespace s)
                          in (tk_report_whitespace s, s)
            | (False, s) \<Rightarrow> (False, s)))"

definition TryConsumeNewline :: "bool scan" where
  "TryConsumeNewline s =
     (if \<not> tk_report_whitespace s \<or> \<not> tk_report_newlines s then (False, s)
      else case TryConsume CHR 0x0A s of
             (True, s) \<Rightarrow> (True, set_type TYPE_NEWLINE s)
           | (False, s) \<Rightarrow> (False, s))"

lemma TryConsumeCommentStart_left:
  assumes "TryConsumeCommentStart s = (c, s')"
  shows "tk_left s' \<le> tk_left s \<and> (c \<noteq> NO_COMMENT \<longrightarrow> tk_left s' < tk_left s)"
proof -
  have t: "\<And>c s b s'. TryConsume c s = (b, s') \<Longrightarrow> c \<noteq> CHR 0x00 \<Longrightarrow> tk_left s' \<le> tk_left s \<and> (b \<longrightarrow> tk_left s' < tk_left s)"
    using TryConsume_left by blast
  show ?thesis
    using assms unfolding TryConsumeCommentStart_def
    by (auto split: prod.splits bool.splits if_splits dest!: t)
qed

lemma TryConsumeWhitespace_left: "no_more TryConsumeWhitespace"
  unfolding no_more_def
proof
  fix s
  have z: "TryConsumeOne cls s = (b, s') \<Longrightarrow> tk_left (ConsumeZeroOrMore cls s') \<le> tk_left s" for cls b s'
    using TryConsumeOne_left [of cls s b s'] ConsumeZeroOrMore_left [of cls s'] by linarith
  have o: "TryConsumeOne cls s = (b, s') \<Longrightarrow> tk_left s' \<le> tk_left s" for cls b s'
    using TryConsumeOne_left [of cls s b s'] by blast
  show "tk_left (snd (TryConsumeWhitespace s)) \<le> tk_left s"
    by (auto simp: TryConsumeWhitespace_def Let_def split: prod.split bool.split dest: z o)
qed

lemma TryConsumeNewline_left: "no_more TryConsumeNewline"
  unfolding no_more_def
proof
  fix s
  have o: "TryConsume CHR 0x0A s = (b, s') \<Longrightarrow> tk_left s' \<le> tk_left s" for b s'
    using TryConsume_left [of "CHR 0x0A" s b s'] by auto
  show "tk_left (snd (TryConsumeNewline s)) \<le> tk_left s"
    by (auto simp: TryConsumeNewline_def split: prod.split bool.split dest: o)
qed

subsection \<open>Next\<close>

text \<open>Reading one token that is neither whitespace nor a comment, between StartToken and EndToken.\<close>

definition ReadToken :: "tokenizer \<Rightarrow> tokenizer" where
  "ReadToken s =
     (if tk_report_url_chars s
      then (case TryConsumeOne kUrlChar s of (b, s) \<Rightarrow>
              if b then set_type TYPE_URL_CHARS (ConsumeZeroOrMore kUrlChar s)
              else set_type TYPE_SYMBOL (ConsumeSymbol s))
      else
        case TryConsumeOne kLetter s of (b, s) \<Rightarrow>
        if b then set_type TYPE_IDENTIFIER (ConsumeZeroOrMore kAlphanumeric s)
        else case TryConsume CHR ''0'' s of (b, s) \<Rightarrow>
        if b then (case ConsumeNumber True False s of (ty, s) \<Rightarrow> set_type ty s)
        else case TryConsume CHR ''.'' s of (b, s) \<Rightarrow>
        if b
        then (case TryConsumeOne kDigit s of (b, s) \<Rightarrow>
                if b
                then let s = (if tok_type (tk_previous s) = TYPE_IDENTIFIER
                                 \<and> tok_line (tk_current s) = tok_line (tk_previous s)
                                 \<and> tok_column (tk_current s) = tok_end_column (tk_previous s)
                              then s\<lparr>tk_errors := tk_errors s @ [(tk_line s, tk_column s - 2,
                                     Message ''Need space between identifier and decimal point.'')]\<rparr>
                              else s)
                     in (case ConsumeNumber False True s of (ty, s) \<Rightarrow> set_type ty s)
                else set_type TYPE_SYMBOL s)
        else case TryConsumeOne kDigit s of (b, s) \<Rightarrow>
        if b then (case ConsumeNumber False False s of (ty, s) \<Rightarrow> set_type ty s)
        else case TryConsume CHR 0x22 s of (b, s) \<Rightarrow>
        if b then set_type TYPE_STRING (ConsumeString CHR 0x22 s)
        else case TryConsume CHR 0x27 s of (b, s) \<Rightarrow>
        if b then set_type TYPE_STRING (ConsumeString CHR 0x27 s)
        else set_type TYPE_SYMBOL (ConsumeSymbol s))"

text \<open>The loop that skips control characters, the character zero among them before the end.\<close>

definition TryConsumeControl :: "bool scan" where
  "TryConsumeControl s =
     (case TryConsumeOne kUnprintable s of (b, s) \<Rightarrow>
        if b then (True, s)
        else if \<not> tk_read_error s then TryConsume CHR 0x00 s else (False, s))"

lemma TryConsumeControl_left:
  assumes "TryConsumeControl s = (b, s')"
  shows "tk_left s' \<le> tk_left s \<and> (b \<longrightarrow> tk_left s' < tk_left s)"
proof -
  obtain c t where 1: "TryConsumeOne kUnprintable s = (c, t)" by (cases "TryConsumeOne kUnprintable s")
  obtain d u where 2: "TryConsume CHR 0x00 t = (d, u)" by (cases "TryConsume CHR 0x00 t")
  from TryConsumeOne_left [OF 1] TryConsume_left [OF 2] assms show ?thesis
    by (auto simp: TryConsumeControl_def 1 2 split: if_splits)
qed

function SkipControls :: "tokenizer \<Rightarrow> tokenizer" where
  "SkipControls s = (case TryConsumeControl s of (b, s) \<Rightarrow> if b then SkipControls s else s)"
  by pat_completeness auto
termination
proof (relation "measure tk_left", goal_cases)
  case (2 s b s')
  then have "TryConsumeControl s = (b, s')" by simp
  from TryConsumeControl_left [OF this] 2 show ?case by simp
qed simp

declare SkipControls.simps [simp del]

lemma SkipControls_left: "tk_left (SkipControls s) \<le> tk_left s"
proof (induction s rule: SkipControls.induct)
  case (1 s)
  obtain b s' where t: "TryConsumeControl s = (b, s')" by (cases "TryConsumeControl s")
  have eq: "SkipControls s = (if b then SkipControls s' else s')"
    by (subst SkipControls.simps) (simp add: t)
  have "b \<Longrightarrow> tk_left (SkipControls s') \<le> tk_left s'" by (rule 1) (simp_all add: t)
  with TryConsumeControl_left [OF t] show ?case unfolding eq by (cases b) simp_all
qed

text \<open>
  One turn of the loop of \<open>Next()\<close>, while there is input left: \<open>None\<close> goes on, \<open>Some True\<close>
  returns a token, \<open>Some False\<close> leaves the loop at the end of the input.
\<close>

definition Next_turn :: "bool option scan" where
  "Next_turn s =
     (case orelse TryConsumeWhitespace TryConsumeNewline (StartToken s) of (report_token, s) \<Rightarrow>
      let s = EndToken s
      in if report_token then (Some True, s)
         else case TryConsumeCommentStart s of (status, s) \<Rightarrow>
           (case status of
              LINE_COMMENT \<Rightarrow> (None, ConsumeLineComment False s)
            | BLOCK_COMMENT \<Rightarrow> (None, ConsumeBlockComment False s)
            | SLASH_NOT_COMMENT \<Rightarrow> (Some True, s)
            | NO_COMMENT \<Rightarrow>
                if tk_read_error s then (Some False, s)
                else if LookingAt kUnprintable s \<or> tk_current_char s = CHR 0x00
                then (None, SkipControls (NextChar (AddError ''Invalid control characters encountered in text.'' s)))
                else (Some True, EndToken (ReadToken (StartToken s)))))"

lemma AddError_simps [simp]:
  "tk_read_error (AddError e s) = tk_read_error s" "tk_current_char (AddError e s) = tk_current_char s"
  by (simp_all add: AddError_def)

lemma Next_turn_left:
  assumes "Next_turn s = (None, s')"
  shows "tk_left s' < tk_left s"
proof -
  obtain b s1 where 1: "orelse TryConsumeWhitespace TryConsumeNewline (StartToken s) = (b, s1)"
    by (cases "orelse TryConsumeWhitespace TryConsumeNewline (StartToken s)")
  obtain c s2 where 2: "TryConsumeCommentStart (EndToken s1) = (c, s2)"
    by (cases "TryConsumeCommentStart (EndToken s1)")
  have "no_more (orelse TryConsumeWhitespace TryConsumeNewline)"
    using TryConsumeWhitespace_left TryConsumeNewline_left by (rule no_more_intros(3))
  from no_moreD [OF this 1] have l1: "tk_left s1 \<le> tk_left s" by simp
  have l2: "tk_left s2 \<le> tk_left s1" "c \<noteq> NO_COMMENT \<longrightarrow> tk_left s2 < tk_left s1"
    using TryConsumeCommentStart_left [OF 2] by simp_all
  have "tk_left (NextChar (AddError e s2)) < tk_left s2" if "\<not> tk_read_error s2" for e
    using NextChar_left [of "AddError e s2"] that by simp
  with SkipControls_left have ctl: "tk_left (SkipControls (NextChar (AddError e s2))) < tk_left s2"
    if "\<not> tk_read_error s2" for e
    using that le_less_trans by blast
  from assms show ?thesis
    using l1 l2 ctl [of "''Invalid control characters encountered in text.''"] comments_left(1) [of False s2] comments_left(2) [of False s2]
    by (cases c) (auto simp: Next_turn_def 1 2 Let_def split: if_splits)
qed

function Next_loop :: "bool scan" where
  "Next_loop s =
     (if tk_read_error s then (False, s)
      else case Next_turn s of
             (None, s) \<Rightarrow> Next_loop s
           | (Some b, s) \<Rightarrow> (b, s))"
  by pat_completeness auto
termination
proof (relation "measure tk_left", goal_cases)
  case (2 s r s')
  then have "Next_turn s = (None, s')" by simp
  from Next_turn_left [OF this] show ?case by simp
qed simp

declare Next_loop.simps [simp del]

definition EndOfInput :: "tokenizer \<Rightarrow> tokenizer" where
  "EndOfInput s =
     s\<lparr>tk_current := \<lparr>tok_type = TYPE_END, tok_text = [], tok_line = tk_line s, tok_column = tk_column s,
                      tok_end_column = tk_column s\<rparr>\<rparr>"

definition Next :: "bool scan" where
  "Next s =
     (case Next_loop (s\<lparr>tk_previous := tk_current s\<rparr>) of
        (b, s) \<Rightarrow> if b then (True, s) else (False, EndOfInput s))"

text \<open>All tokens up to the end, as a parser reads them.\<close>

fun Next_tokens :: "nat \<Rightarrow> tokenizer \<Rightarrow> token list \<times> tokenizer" where
  "Next_tokens 0 s = ([], s)"
| "Next_tokens (Suc n) s =
     (case Next s of
        (False, s) \<Rightarrow> ([], s)
      | (True, s) \<Rightarrow> (case Next_tokens n s of (ts, s') \<Rightarrow> (tk_current s # ts, s')))"

end
