(* ===== verification/Tokenizer_Sim.thy ===== *)
theory Tokenizer_Sim
  imports Tokenizer_Scan
begin

section \<open>The scanner over a flat text\<close>

text \<open>
  The abstraction of the tokenizer state: \<open>tk_view\<close> forgets how the input is cut into buffers and
  which part of a token was already copied out of a buffer. \<open>tk_ok\<close> is the invariant of the
  buffer handling (in particular, no character is read behind a buffer). Two states are
  similar when they have the same view; every method of the scanner respects similarity, and
  consumes some text while it keeps line, column and the recorded text in step
  (\<open>scan_step\<close>).
\<close>

definition tk_rest :: "tokenizer \<Rightarrow> string" where
  "tk_rest s = drop (tk_buffer_pos s) (tk_buffer s) @ concat (tk_input s)"

definition tk_recorded :: "tokenizer \<Rightarrow> string" where
  "tk_recorded s = (case tk_record s of None \<Rightarrow> []
     | Some (_, start) \<Rightarrow> take (tk_buffer_pos s - start) (drop start (tk_buffer s)))"

definition tk_ok :: "tokenizer \<Rightarrow> bool" where
  "tk_ok s \<longleftrightarrow>
     (if tk_read_error s
      then tk_buffer s = [] \<and> tk_buffer_pos s = 0 \<and> tk_current_char s = CHR 0x00 \<and> tk_input s = []
      else tk_buffer_pos s < length (tk_buffer s) \<and> tk_current_char s = tk_buffer s ! tk_buffer_pos s)
     \<and> (\<forall>t start. tk_record s = Some (t, start) \<longrightarrow> start \<le> tk_buffer_pos s)"

definition tk_view :: "tokenizer \<Rightarrow> tokenizer" where
  "tk_view s =
     (case tk_record s of
        None \<Rightarrow> s
      | Some (t, _) \<Rightarrow> (record_append t (tk_recorded s) s)\<lparr>tk_record := Some (t, 0)\<rparr>)
     \<lparr>tk_input := [], tk_buffer := tk_rest s, tk_buffer_pos := 0\<rparr>"

definition tk_sim :: "tokenizer \<Rightarrow> tokenizer \<Rightarrow> bool" where
  "tk_sim s t \<longleftrightarrow> tk_ok s \<and> tk_ok t \<and> tk_view s = tk_view t"

subsection \<open>Next character\<close>

text \<open>How a character moves the line and the column.\<close>

fun advance1 :: "char \<Rightarrow> int \<times> int \<Rightarrow> int \<times> int" where
  "advance1 c (line, column) =
     (if c = CHR 0x0A then (line + 1, 0)
      else if c = CHR 0x09 then (line, column + (kTabWidth - column mod kTabWidth))
      else (line, column + 1))"

definition advance :: "string \<Rightarrow> int \<times> int \<Rightarrow> int \<times> int" where
  "advance cs p = fold advance1 cs p"

lemma advance_simps [simp]:
  "advance [] p = p" "advance (c # cs) p = advance cs (advance1 c p)"
  "advance (xs @ ys) p = advance ys (advance xs p)"
  by (simp_all add: advance_def)

definition tk_pos :: "tokenizer \<Rightarrow> int \<times> int" where
  "tk_pos s = (tk_line s, tk_column s)"

text \<open>\<open>NextChar\<close> on a view.\<close>

definition view_next :: "tokenizer \<Rightarrow> tokenizer" where
  "view_next v =
     (let c = tk_current_char v; rest = tl (tk_buffer v); p = advance1 c (tk_pos v);
          v = (case tk_record v of None \<Rightarrow> v | Some (t, _) \<Rightarrow> record_append t [c] v)
      in v\<lparr>tk_line := fst p, tk_column := snd p, tk_buffer := rest, tk_read_error := (rest = []),
           tk_current_char := (if rest = [] then CHR 0x00 else hd rest)\<rparr>)"

lemma record_append_simps [simp]:
  "tk_previous (record_append t bs s) = tk_previous s" "tk_errors (record_append t bs s) = tk_errors s"
  "tk_allow_f_after_float (record_append t bs s) = tk_allow_f_after_float s"
  "tk_comment_style (record_append t bs s) = tk_comment_style s"
  "tk_require_space_after_number (record_append t bs s) = tk_require_space_after_number s"
  "tk_allow_multiline_strings (record_append t bs s) = tk_allow_multiline_strings s"
  "tk_report_whitespace (record_append t bs s) = tk_report_whitespace s"
  "tk_report_newlines (record_append t bs s) = tk_report_newlines s"
  "tk_report_url_chars (record_append t bs s) = tk_report_url_chars s"
  "record_append t [] s = s"
  "record_append t ys (record_append t xs s) = record_append t (xs @ ys) s"
  by (cases t; simp add: record_append_def)+

lemma tk_view_simps [simp]:
  "tk_input (tk_view s) = []" "tk_buffer (tk_view s) = tk_rest s" "tk_buffer_pos (tk_view s) = 0"
  "tk_current_char (tk_view s) = tk_current_char s" "tk_read_error (tk_view s) = tk_read_error s"
  "tk_line (tk_view s) = tk_line s" "tk_column (tk_view s) = tk_column s"
  "tk_previous (tk_view s) = tk_previous s" "tk_errors (tk_view s) = tk_errors s"
  "tk_record (tk_view s) = map_option (\<lambda>(t, _). (t, 0)) (tk_record s)"
  "tk_allow_f_after_float (tk_view s) = tk_allow_f_after_float s"
  "tk_comment_style (tk_view s) = tk_comment_style s"
  "tk_require_space_after_number (tk_view s) = tk_require_space_after_number s"
  "tk_allow_multiline_strings (tk_view s) = tk_allow_multiline_strings s"
  "tk_report_whitespace (tk_view s) = tk_report_whitespace s"
  "tk_report_newlines (tk_view s) = tk_report_newlines s"
  "tk_report_url_chars (tk_view s) = tk_report_url_chars s"
  by (simp_all add: tk_view_def split: option.split)

lemma tk_view_text:
  "tk_current (tk_view s) =
     (if map_option fst (tk_record s) = Some ToToken
      then (tk_current s)\<lparr>tok_text := tok_text (tk_current s) @ tk_recorded s\<rparr> else tk_current s)"
  "tk_content (tk_view s) =
     (if map_option fst (tk_record s) = Some ToContent then tk_content s @ tk_recorded s else tk_content s)"
  by (auto simp: tk_view_def record_append_def split: option.split record_target.split)

lemma view_next_simps:
  "tk_input (view_next v) = tk_input v" "tk_buffer (view_next v) = tl (tk_buffer v)"
  "tk_buffer_pos (view_next v) = tk_buffer_pos v" "tk_record (view_next v) = tk_record v"
  "tk_current_char (view_next v) = (if tl (tk_buffer v) = [] then CHR 0x00 else hd (tl (tk_buffer v)))"
  "tk_read_error (view_next v) = (tl (tk_buffer v) = [])"
  "tk_line (view_next v) = fst (advance1 (tk_current_char v) (tk_pos v))"
  "tk_column (view_next v) = snd (advance1 (tk_current_char v) (tk_pos v))"
  "tk_previous (view_next v) = tk_previous v" "tk_errors (view_next v) = tk_errors v"
  "tk_allow_f_after_float (view_next v) = tk_allow_f_after_float v"
  "tk_comment_style (view_next v) = tk_comment_style v"
  "tk_require_space_after_number (view_next v) = tk_require_space_after_number v"
  "tk_allow_multiline_strings (view_next v) = tk_allow_multiline_strings v"
  "tk_report_whitespace (view_next v) = tk_report_whitespace v"
  "tk_report_newlines (view_next v) = tk_report_newlines v"
  "tk_report_url_chars (view_next v) = tk_report_url_chars v"
  "tk_current (view_next v) =
     (if map_option fst (tk_record v) = Some ToToken
      then (tk_current v)\<lparr>tok_text := tok_text (tk_current v) @ [tk_current_char v]\<rparr> else tk_current v)"
  "tk_content (view_next v) =
     (if map_option fst (tk_record v) = Some ToContent then tk_content v @ [tk_current_char v] else tk_content v)"
  by (auto simp: view_next_def Let_def record_append_def split: option.split record_target.split)

lemma tk_pos_view [simp]: "tk_pos (tk_view s) = tk_pos s"
  by (simp add: tk_pos_def)

lemma tk_ok_rest: "tk_ok s \<Longrightarrow> tk_read_error s \<longleftrightarrow> tk_rest s = []"
  by (auto simp: tk_ok_def tk_rest_def split: if_splits)

lemma tk_ok_current: "tk_ok s \<Longrightarrow> \<not> tk_read_error s \<Longrightarrow> tk_rest s = tk_current_char s # tl (tk_rest s)"
  by (auto simp: tk_ok_def tk_rest_def Cons_nth_drop_Suc [symmetric])

lemma tk_ok_not_nul: "tk_ok s \<Longrightarrow> tk_current_char s \<noteq> CHR 0x00 \<Longrightarrow> \<not> tk_read_error s"
  by (auto simp: tk_ok_def)

lemma next_buffer_concat: "next_buffer input = (b, bs) \<Longrightarrow> b @ concat bs = concat input \<and> (b = [] \<longrightarrow> bs = [])"
  by (induction input) (auto split: if_splits)

text \<open>The part of \<open>NextChar\<close> that counts lines and columns.\<close>

definition count_char :: "tokenizer \<Rightarrow> tokenizer" where
  "count_char s = s\<lparr>tk_line := fst (advance1 (tk_current_char s) (tk_pos s)),
                    tk_column := snd (advance1 (tk_current_char s) (tk_pos s))\<rparr>"

lemma NextChar_count:
  "NextChar s =
     (let s = (count_char s)\<lparr>tk_buffer_pos := tk_buffer_pos s + 1\<rparr>
      in if tk_buffer_pos s < length (tk_buffer s)
         then s\<lparr>tk_current_char := tk_buffer s ! tk_buffer_pos s\<rparr> else Refresh s)"
  by (simp add: NextChar_def count_char_def tk_pos_def Let_def)

lemma count_char_simps [simp]:
  "tk_input (count_char s) = tk_input s" "tk_buffer (count_char s) = tk_buffer s"
  "tk_buffer_pos (count_char s) = tk_buffer_pos s" "tk_record (count_char s) = tk_record s"
  "tk_current_char (count_char s) = tk_current_char s" "tk_read_error (count_char s) = tk_read_error s"
  "tk_line (count_char s) = fst (advance1 (tk_current_char s) (tk_pos s))"
  "tk_column (count_char s) = snd (advance1 (tk_current_char s) (tk_pos s))"
  "tk_current (count_char s) = tk_current s" "tk_content (count_char s) = tk_content s"
  "tk_previous (count_char s) = tk_previous s" "tk_errors (count_char s) = tk_errors s"
  "tk_allow_f_after_float (count_char s) = tk_allow_f_after_float s"
  "tk_comment_style (count_char s) = tk_comment_style s"
  "tk_require_space_after_number (count_char s) = tk_require_space_after_number s"
  "tk_allow_multiline_strings (count_char s) = tk_allow_multiline_strings s"
  "tk_report_whitespace (count_char s) = tk_report_whitespace s"
  "tk_report_newlines (count_char s) = tk_report_newlines s"
  "tk_report_url_chars (count_char s) = tk_report_url_chars s"
  by (simp_all add: count_char_def)

declare advance1.simps [simp del]

lemma NextChar_inside:
  assumes "tk_ok s" and "\<not> tk_read_error s" and "tk_buffer_pos s + 1 < length (tk_buffer s)"
  shows "tk_ok (NextChar s)" and "tk_view (NextChar s) = view_next (tk_view s)"
proof -
  let ?s = "(count_char s)\<lparr>tk_buffer_pos := Suc (tk_buffer_pos s),
                           tk_current_char := tk_buffer s ! Suc (tk_buffer_pos s)\<rparr>"
  have n: "NextChar s = ?s" using assms(3) by (simp add: NextChar_count Let_def)
  have c: "tk_current_char s = tk_buffer s ! tk_buffer_pos s" using assms(1,2) by (simp add: tk_ok_def)
  show "tk_ok (NextChar s)"
    using assms unfolding n by (fastforce simp: tk_ok_def)
  have tl: "tl (tk_rest s) = tk_rest ?s"
    using assms(3) by (simp add: tk_rest_def drop_Suc tl_drop)
  have cons: "tk_rest ?s = tk_buffer s ! Suc (tk_buffer_pos s) # tl (tk_rest ?s)"
    using assms(3) by (simp add: tk_rest_def Cons_nth_drop_Suc [symmetric])
  have rest: "tl (tk_rest s) \<noteq> []" "hd (tl (tk_rest s)) = tk_buffer s ! Suc (tk_buffer_pos s)"
    unfolding tl by (metis cons list.distinct(1), metis cons list.sel(1))
  have rec: "tk_recorded ?s = tk_recorded s @ [tk_current_char s]" if some: "tk_record s \<noteq> None"
  proof -
    obtain t st where r: "tk_record s = Some (t, st)" using some by auto
    then have "st \<le> tk_buffer_pos s" using assms(1) by (simp add: tk_ok_def)
    then have "take (Suc (tk_buffer_pos s) - st) (drop st (tk_buffer s))
        = take (tk_buffer_pos s - st) (drop st (tk_buffer s)) @ [tk_current_char s]"
      using assms(3) c by (simp add: Suc_diff_le take_Suc_conv_app_nth)
    then show ?thesis by (simp add: tk_recorded_def r)
  qed
  show "tk_view (NextChar s) = view_next (tk_view s)"
    unfolding n
    by (rule tokenizer.equality)
       (use rest tl rec assms(2) in \<open>auto simp: view_next_simps tk_view_text\<close>)
qed

lemma NextChar_refill:
  assumes "tk_ok s" and "\<not> tk_read_error s" and "\<not> tk_buffer_pos s + 1 < length (tk_buffer s)"
  shows "tk_ok (NextChar s)" and "tk_view (NextChar s) = view_next (tk_view s)"
proof -
  obtain b bs where nb: "next_buffer (tk_input s) = (b, bs)" by (cases "next_buffer (tk_input s)")
  note cat = next_buffer_concat [OF nb]
  have p: "tk_buffer_pos s + 1 = length (tk_buffer s)" "tk_current_char s = tk_buffer s ! tk_buffer_pos s"
    using assms by (auto simp: tk_ok_def)
  define u where "u = (case tk_record s of None \<Rightarrow> count_char s
    | Some (t, st) \<Rightarrow> (record_append t (drop st (tk_buffer s)) (count_char s))\<lparr>tk_record := Some (t, 0)\<rparr>)"
  have le: "st < length (tk_buffer s)" if "tk_record s = Some (t, st)" for t st
    using assms(1) p(1) that by (fastforce simp: tk_ok_def)
  have n: "NextChar s = u\<lparr>tk_input := bs, tk_buffer := b, tk_buffer_pos := 0, tk_read_error := (b = []),
       tk_current_char := (if b = [] then CHR 0x00 else hd b)\<rparr>"
  proof (cases "tk_record s")
    case None
    then show ?thesis
      using assms(2,3) by (cases "b = []") (simp_all add: NextChar_count Let_def Refresh_def nb u_def)
  next
    case (Some q)
    then obtain t st where r: "tk_record s = Some (t, st)" by (cases q) auto
    let ?v = "(count_char s)\<lparr>tk_buffer_pos := Suc (tk_buffer_pos s)\<rparr>"
    have "NextChar s = Refresh ?v" using assms(3) by (simp add: NextChar_count Let_def)
    also have "\<dots> = (let (buffer, input) = next_buffer (tk_input s);
           v = (record_append t (drop st (tk_buffer s)) ?v)\<lparr>tk_record := Some (t, 0)\<rparr>
        in if buffer = []
           then v\<lparr>tk_input := input, tk_buffer := [], tk_buffer_pos := 0, tk_read_error := True,
                  tk_current_char := CHR 0x00\<rparr>
           else v\<lparr>tk_input := input, tk_buffer := buffer, tk_buffer_pos := 0,
                  tk_current_char := hd buffer\<rparr>)"
      using assms(2) le [OF r] by (simp add: Refresh_def r Let_def)
    finally show ?thesis
      using assms(2) by (cases t; cases "b = []") (simp_all add: nb u_def r record_append_def Let_def)
  qed
  have rest: "tl (tk_rest s) = b @ concat bs"
  proof -
    have "drop (tk_buffer_pos s) (tk_buffer s) = [tk_current_char s]"
      using p by (simp add: Cons_nth_drop_Suc [symmetric])
    then show ?thesis using cat by (simp add: tk_rest_def)
  qed
  have rec: "tk_recorded s @ [tk_current_char s] = drop st (tk_buffer s)" if r: "tk_record s = Some (t, st)" for t st
  proof -
    have "length (drop st (tk_buffer s)) = Suc (tk_buffer_pos s - st)" using le [OF r] p(1) by simp
    then have "drop st (tk_buffer s) = take (Suc (tk_buffer_pos s - st)) (drop st (tk_buffer s))" by simp
    also have "\<dots> = take (tk_buffer_pos s - st) (drop st (tk_buffer s)) @ [tk_current_char s]"
      using le [OF r] p by (subst take_Suc_conv_app_nth) simp_all
    finally show ?thesis by (simp add: tk_recorded_def r)
  qed
  show "tk_ok (NextChar s)"
    unfolding n using cat by (auto simp: tk_ok_def hd_conv_nth u_def split: option.split)
  have rest': "tl (tk_rest s) = [] \<longleftrightarrow> b = []" "b \<noteq> [] \<Longrightarrow> hd (tl (tk_rest s)) = hd b"
    unfolding rest using cat [THEN conjunct2] by (cases b; simp)+
  have new: "tk_rest (NextChar s) = tl (tk_rest s)" by (simp only: rest) (simp add: n tk_rest_def)
  show "tk_view (NextChar s) = view_next (tk_view s)"
  proof (rule tokenizer.equality)
    show "tk_current (tk_view (NextChar s)) = tk_current (view_next (tk_view s))"
      using rec by (auto simp: n view_next_simps tk_view_text u_def tk_recorded_def record_append_def
          split: option.split record_target.split)
    show "tk_content (tk_view (NextChar s)) = tk_content (view_next (tk_view s))"
      using rec by (auto simp: n view_next_simps tk_view_text u_def tk_recorded_def record_append_def
          split: option.split record_target.split)
  qed (use rest' new in \<open>auto simp: n view_next_simps u_def split: option.split\<close>)
qed

lemma NextChar_view:
  assumes "tk_ok s" and "\<not> tk_read_error s"
  shows "tk_ok (NextChar s) \<and> tk_view (NextChar s) = view_next (tk_view s)"
  using NextChar_inside [OF assms] NextChar_refill [OF assms] by blast


lemma next_simps [simp]:
  assumes "tk_ok s" and "\<not> tk_read_error s"
  shows "tk_rest (NextChar s) = tl (tk_rest s)"
    and "tk_pos (NextChar s) = advance1 (tk_current_char s) (tk_pos s)"
    and "map_option fst (tk_record (NextChar s)) = map_option fst (tk_record s)"
proof -
  have v: "tk_view (NextChar s) = view_next (tk_view s)" using NextChar_view [OF assms] by blast
  show "tk_rest (NextChar s) = tl (tk_rest s)"
    using arg_cong [OF v, of tk_buffer] by (simp add: view_next_simps)
  show "tk_pos (NextChar s) = advance1 (tk_current_char s) (tk_pos s)"
    using arg_cong [OF v, of tk_pos] by (simp add: view_next_simps tk_pos_def [of "view_next _"])
  have "map_option fst (tk_record (tk_view (NextChar s))) = map_option fst (tk_record (tk_view s))"
    using arg_cong [OF v, of tk_record] by (simp add: view_next_simps)
  moreover have "fst \<circ> (\<lambda>(t, _). (t, 0 :: nat)) = (fst :: record_target \<times> nat \<Rightarrow> record_target)" by auto
  ultimately show "map_option fst (tk_record (NextChar s)) = map_option fst (tk_record s)"
    by (simp add: option.map_comp)
qed

subsection \<open>What similar states have in common\<close>

definition tk_target :: "tokenizer \<Rightarrow> record_target option" where
  "tk_target s = map_option fst (tk_record s)"

text \<open>The fields that no method of the scanner changes.\<close>

definition tk_options :: "tokenizer \<Rightarrow> bool \<times> comment_style \<times> bool \<times> bool \<times> bool \<times> bool \<times> bool" where
  "tk_options s = (tk_allow_f_after_float s, tk_comment_style s, tk_require_space_after_number s,
     tk_allow_multiline_strings s, tk_report_whitespace s, tk_report_newlines s, tk_report_url_chars s)"

lemma tk_target_view: "tk_target (tk_view s) = tk_target s"
  by (cases "tk_record s") (auto simp: tk_target_def)

lemma tk_sim_eqs:
  assumes "tk_sim s t"
  shows "tk_current_char s = tk_current_char t" "tk_read_error s = tk_read_error t" "tk_line s = tk_line t"
    "tk_column s = tk_column t" "tk_previous s = tk_previous t" "tk_errors s = tk_errors t"
    "tk_allow_f_after_float s = tk_allow_f_after_float t" "tk_comment_style s = tk_comment_style t"
    "tk_require_space_after_number s = tk_require_space_after_number t"
    "tk_allow_multiline_strings s = tk_allow_multiline_strings t"
    "tk_report_whitespace s = tk_report_whitespace t" "tk_report_newlines s = tk_report_newlines t"
    "tk_report_url_chars s = tk_report_url_chars t" "tk_rest s = tk_rest t" "tk_pos s = tk_pos t"
    "tk_target s = tk_target t" "tk_current (tk_view s) = tk_current (tk_view t)"
    "tk_content (tk_view s) = tk_content (tk_view t)"
proof -
  have v: "tk_view s = tk_view t" using assms by (simp add: tk_sim_def)
  show "tk_current_char s = tk_current_char t" "tk_read_error s = tk_read_error t" "tk_line s = tk_line t"
    "tk_column s = tk_column t" "tk_previous s = tk_previous t" "tk_errors s = tk_errors t"
    "tk_allow_f_after_float s = tk_allow_f_after_float t" "tk_comment_style s = tk_comment_style t"
    "tk_require_space_after_number s = tk_require_space_after_number t"
    "tk_allow_multiline_strings s = tk_allow_multiline_strings t"
    "tk_report_whitespace s = tk_report_whitespace t" "tk_report_newlines s = tk_report_newlines t"
    "tk_report_url_chars s = tk_report_url_chars t" "tk_rest s = tk_rest t" "tk_pos s = tk_pos t"
    "tk_target s = tk_target t"
    using arg_cong [OF v, of tk_current_char] arg_cong [OF v, of tk_read_error] arg_cong [OF v, of tk_line]
      arg_cong [OF v, of tk_column] arg_cong [OF v, of tk_previous] arg_cong [OF v, of tk_errors]
      arg_cong [OF v, of tk_allow_f_after_float] arg_cong [OF v, of tk_comment_style]
      arg_cong [OF v, of tk_require_space_after_number] arg_cong [OF v, of tk_allow_multiline_strings]
      arg_cong [OF v, of tk_report_whitespace] arg_cong [OF v, of tk_report_newlines]
      arg_cong [OF v, of tk_report_url_chars] arg_cong [OF v, of tk_buffer] arg_cong [OF v, of tk_pos]
      arg_cong [OF v, of tk_target]
    by (simp_all add: tk_target_view)
  show "tk_current (tk_view s) = tk_current (tk_view t)" "tk_content (tk_view s) = tk_content (tk_view t)"
    by (simp_all add: v)
qed

lemma tk_view_idle: "tk_record s = None \<Longrightarrow> tk_current (tk_view s) = tk_current s \<and> tk_content (tk_view s) = tk_content s"
  by (simp add: tk_view_text)

lemma tk_view_current:
  "tok_line (tk_current (tk_view s)) = tok_line (tk_current s)"
  "tok_column (tk_current (tk_view s)) = tok_column (tk_current s)"
  "tok_type (tk_current (tk_view s)) = tok_type (tk_current s)"
  "tok_end_column (tk_current (tk_view s)) = tok_end_column (tk_current s)"
  by (simp_all add: tk_view_text)

lemma tk_sim_current:
  assumes "tk_sim s t"
  shows "tok_line (tk_current s) = tok_line (tk_current t)"
    and "tok_column (tk_current s) = tok_column (tk_current t)"
    and "tok_type (tk_current s) = tok_type (tk_current t)"
  using tk_sim_eqs(17) [OF assms] by (metis tk_view_current)+

lemma tk_sim_refl: "tk_ok s \<Longrightarrow> tk_sim s s"
  by (simp add: tk_sim_def)

subsection \<open>Consuming text\<close>

text \<open>
  \<open>tk_steps xs s s'\<close>: between the two states the text \<open>xs\<close> was consumed; line and column
  followed it, and a token that is being recorded grew by it.
\<close>

definition tk_steps :: "string \<Rightarrow> tokenizer \<Rightarrow> tokenizer \<Rightarrow> bool" where
  "tk_steps xs s s' \<longleftrightarrow> tk_rest s = xs @ tk_rest s' \<and> tk_pos s' = advance xs (tk_pos s)
     \<and> tk_target s' = tk_target s
     \<and> tok_text (tk_current (tk_view s'))
        = tok_text (tk_current (tk_view s)) @ (if tk_target s = Some ToToken then xs else [])
     \<and> tok_line (tk_current s') = tok_line (tk_current s) \<and> tok_column (tk_current s') = tok_column (tk_current s)
     \<and> (tk_target s = Some ToToken \<or> tk_current s' = tk_current s)
     \<and> tk_previous s' = tk_previous s \<and> tk_options s' = tk_options s"

lemma tk_steps_refl [simp, intro]: "tk_steps [] s s"
  by (simp add: tk_steps_def)

lemma tk_steps_trans: "tk_steps xs s t \<Longrightarrow> tk_steps ys t u \<Longrightarrow> tk_steps (xs @ ys) s u"
  by (auto simp: tk_steps_def)

lemma tk_steps_NextChar:
  assumes "tk_ok s" and "\<not> tk_read_error s"
  shows "tk_steps [tk_current_char s] s (NextChar s)"
proof -
  have v: "tk_view (NextChar s) = view_next (tk_view s)" using NextChar_view [OF assms] by blast
  have c: "tk_current (tk_view (NextChar s)) = tk_current (view_next (tk_view s))"
    "tk_previous (tk_view (NextChar s)) = tk_previous (view_next (tk_view s))"
    "tk_options (tk_view (NextChar s)) = tk_options (view_next (tk_view s))"
    using v by simp_all
  have t: "tk_target (NextChar s) = tk_target s" using next_simps(3) [OF assms] by (simp add: tk_target_def)
  have f: "map_option fst (tk_record (tk_view s)) = tk_target s" using tk_target_view [of s] by (simp add: tk_target_def)
  have o: "tk_options (NextChar s) = tk_options s" "tk_previous (NextChar s) = tk_previous s"
    using c(2,3) by (simp_all add: tk_options_def view_next_simps)
  have k: "tk_current (tk_view (NextChar s)) = (if tk_target s = Some ToToken
      then (tk_current (tk_view s))\<lparr>tok_text := tok_text (tk_current (tk_view s)) @ [tk_current_char s]\<rparr> else tk_current (tk_view s))"
    unfolding c(1) view_next_simps f by simp
  have n: "tk_current (tk_view u) = tk_current u" if "tk_target u \<noteq> Some ToToken" for u
    using that by (simp add: tk_view_text tk_target_def)
  show ?thesis
    unfolding tk_steps_def
  proof (intro conjI)
    show "tk_rest s = [tk_current_char s] @ tk_rest (NextChar s)"
      using tk_ok_current [OF assms] next_simps(1) [OF assms] by simp
    show "tk_pos (NextChar s) = advance [tk_current_char s] (tk_pos s)" using next_simps(2) [OF assms] by simp
    show "tok_text (tk_current (tk_view (NextChar s))) = tok_text (tk_current (tk_view s))
        @ (if tk_target s = Some ToToken then [tk_current_char s] else [])"
      by (simp add: k)
    show "tok_line (tk_current (NextChar s)) = tok_line (tk_current s)"
      "tok_column (tk_current (NextChar s)) = tok_column (tk_current s)"
      using arg_cong [OF k, of tok_line] arg_cong [OF k, of tok_column] by (simp_all add: tk_view_current split: if_splits)
    show "tk_target s = Some ToToken \<or> tk_current (NextChar s) = tk_current s"
    proof (cases "tk_target s = Some ToToken")
      case False
      then have "tk_current (tk_view (NextChar s)) = tk_current (tk_view s)" by (simp add: k)
      then show ?thesis using n [of s] n [of "NextChar s"] t False by simp
    qed simp
  qed (use t o in simp_all)
qed

text \<open>Appending an error, or giving the recorded token a type, consumes nothing.\<close>

definition add_error :: "(int \<times> int \<times> tok_error) \<Rightarrow> tokenizer \<Rightarrow> tokenizer" where
  "add_error e s = s\<lparr>tk_errors := tk_errors s @ [e]\<rparr>"

lemma add_error_view:
  "tk_ok (add_error e s) \<longleftrightarrow> tk_ok s" "tk_view (add_error e s) = add_error e (tk_view s)"
  by (auto simp: add_error_def tk_ok_def tk_view_def tk_recorded_def tk_rest_def record_append_def
      split: option.split record_target.split)

lemma set_type_view:
  "tk_ok (set_type ty s) \<longleftrightarrow> tk_ok s" "tk_view (set_type ty s) = set_type ty (tk_view s)"
  by (auto simp: set_type_def tk_ok_def tk_view_def tk_recorded_def tk_rest_def record_append_def
      split: option.split record_target.split)

lemma tk_steps_add_error: "tk_steps [] s (add_error e s)"
  unfolding tk_steps_def add_error_view
  by (simp add: add_error_def tk_rest_def tk_pos_def tk_target_def tk_options_def)

lemma tk_steps_set_type: "tk_target s = Some ToToken \<Longrightarrow> tk_steps [] s (set_type ty s)"
  unfolding tk_steps_def set_type_view
  by (simp add: set_type_def tk_rest_def tk_pos_def tk_target_def tk_options_def)

end
