(* ===== verification/Tokenizer_Respect.thy ===== *)
theory Tokenizer_Respect
  imports Tokenizer_Sim
begin

section \<open>Every scanning method respects the view\<close>

text \<open>
  \<open>scan_on Q f\<close>: on states with \<open>Q\<close> the method \<open>f\<close> gives the same result on similar states, ends
  in similar states, and consumes some text (\<open>tk_steps\<close>). The rules of the collection
  \<open>scan_rules\<close> follow the syntax of the definitions, so that each method is one \<open>intro\<close>.
\<close>

named_theorems scan_rules

definition scan_on :: "(tokenizer \<Rightarrow> bool) \<Rightarrow> 'a scan \<Rightarrow> bool" where
  "scan_on Q f \<longleftrightarrow> (\<forall>s t. tk_sim s t \<longrightarrow> Q s \<longrightarrow>
     fst (f s) = fst (f t) \<and> tk_sim (snd (f s)) (snd (f t)) \<and> (\<exists>xs. tk_steps xs s (snd (f s))))"

definition op_on :: "(tokenizer \<Rightarrow> bool) \<Rightarrow> (tokenizer \<Rightarrow> tokenizer) \<Rightarrow> bool" where
  "op_on Q f \<longleftrightarrow> scan_on Q (\<lambda>s. ((), f s))"

text \<open>Conditions on the state that survive consuming.\<close>

definition stable :: "(tokenizer \<Rightarrow> bool) \<Rightarrow> bool" where
  "stable Q \<longleftrightarrow> (\<forall>xs s s'. tk_steps xs s s' \<longrightarrow> Q s \<longrightarrow> Q s')"

definition anywhere :: "tokenizer \<Rightarrow> bool" where
  "anywhere s \<longleftrightarrow> True"

definition in_token :: "tokenizer \<Rightarrow> bool" where
  "in_token s \<longleftrightarrow> tk_target s = Some ToToken"

lemma stable_simps [simp, intro]: "stable anywhere" "stable in_token"
  by (auto simp: stable_def anywhere_def in_token_def tk_steps_def)

lemma op_onI:
  assumes "\<And>s t. tk_sim s t \<Longrightarrow> Q s \<Longrightarrow> tk_sim (f s) (f t)" and "\<And>s. tk_ok s \<Longrightarrow> Q s \<Longrightarrow> \<exists>xs. tk_steps xs s (f s)"
  shows "op_on Q f"
  using assms by (auto simp: op_on_def scan_on_def tk_sim_def)

lemma op_onD:
  assumes "op_on Q f" and "tk_sim s t" and "Q s"
  shows "tk_sim (f s) (f t)" and "\<exists>xs. tk_steps xs s (f s)"
  using assms by (auto simp: op_on_def scan_on_def)

lemma scan_onD:
  assumes "scan_on Q f" and "tk_sim s t" and "Q s" and "f s = (a, s')"
  shows "\<exists>t'. f t = (a, t') \<and> tk_sim s' t'" and "\<exists>xs. tk_steps xs s s'"
proof -
  have "fst (f s) = fst (f t) \<and> tk_sim (snd (f s)) (snd (f t)) \<and> (\<exists>xs. tk_steps xs s (snd (f s)))"
    using assms(1-3) by (auto simp: scan_on_def)
  with assms(4) show "\<exists>t'. f t = (a, t') \<and> tk_sim s' t'" "\<exists>xs. tk_steps xs s s'"
    by (cases "f t"; simp)+
qed

lemma scan_on_mono: "scan_on Q f \<Longrightarrow> (\<And>s. R s \<Longrightarrow> Q s) \<Longrightarrow> scan_on R f"
  unfolding scan_on_def by blast

lemma op_on_mono: "op_on Q f \<Longrightarrow> (\<And>s. R s \<Longrightarrow> Q s) \<Longrightarrow> op_on R f"
  unfolding op_on_def by (rule scan_on_mono)

lemma scan_bind [scan_rules]:
  assumes "stable Q" and "scan_on Q f" and "\<And>a. scan_on Q (g a)"
  shows "scan_on Q (\<lambda>s. case f s of (a, s) \<Rightarrow> g a s)"
  unfolding scan_on_def
proof (intro allI impI)
  fix s t assume st: "tk_sim s t" and q: "Q s"
  obtain a s' where f: "f s = (a, s')" by (cases "f s")
  obtain t' where t: "f t = (a, t')" "tk_sim s' t'" using scan_onD(1) [OF assms(2) st q f] by blast
  obtain xs where xs: "tk_steps xs s s'" using scan_onD(2) [OF assms(2) st q f] by blast
  have q': "Q s'" using assms(1) xs q by (auto simp: stable_def)
  have g: "fst (g a s') = fst (g a t') \<and> tk_sim (snd (g a s')) (snd (g a t')) \<and> (\<exists>ys. tk_steps ys s' (snd (g a s')))"
    using assms(3) [of a] t(2) q' by (auto simp: scan_on_def)
  then show "fst (case f s of (a, s) \<Rightarrow> g a s) = fst (case f t of (a, s) \<Rightarrow> g a s)
      \<and> tk_sim (snd (case f s of (a, s) \<Rightarrow> g a s)) (snd (case f t of (a, s) \<Rightarrow> g a s))
      \<and> (\<exists>xs. tk_steps xs s (snd (case f s of (a, s) \<Rightarrow> g a s)))"
    using f t(1) tk_steps_trans [OF xs] by auto
qed

lemma op_bind [scan_rules]:
  assumes "stable Q" and "scan_on Q f" and "\<And>a. op_on Q (g a)"
  shows "op_on Q (\<lambda>s. case f s of (a, s) \<Rightarrow> g a s)"
proof -
  have "scan_on Q (\<lambda>s. case f s of (a, s) \<Rightarrow> ((), g a s))"
    using assms unfolding op_on_def by (rule scan_bind)
  moreover have "(\<lambda>s. case f s of (a, s) \<Rightarrow> ((), g a s)) = (\<lambda>s. ((), case f s of (a, s) \<Rightarrow> g a s))"
    by (auto split: prod.split)
  ultimately show ?thesis by (simp add: op_on_def)
qed

lemma scan_seq:
  assumes "stable Q" and "op_on Q f" and "scan_on Q g"
  shows "scan_on Q (\<lambda>s. g (f s))"
  using scan_bind [of Q "\<lambda>s. ((), f s)" "\<lambda>_. g"] assms by (simp add: op_on_def)

lemma op_seq:
  assumes "stable Q" and "op_on Q f" and "op_on Q g"
  shows "op_on Q (\<lambda>s. g (f s))"
  using scan_seq [of Q f "\<lambda>s. ((), g s)"] assms by (simp add: op_on_def)

lemma scan_let [scan_rules]: "stable Q \<Longrightarrow> op_on Q f \<Longrightarrow> scan_on Q g \<Longrightarrow> scan_on Q (\<lambda>s. Let (f s) g)"
  using scan_seq by (simp add: Let_def)

lemma op_let [scan_rules]: "stable Q \<Longrightarrow> op_on Q f \<Longrightarrow> op_on Q g \<Longrightarrow> op_on Q (\<lambda>s. Let (f s) g)"
  using op_seq by (simp add: Let_def)

lemma scan_let_pair [scan_rules]:
  assumes "stable Q" and "scan_on Q f" and "\<And>a. scan_on Q (g a)"
  shows "scan_on Q (\<lambda>s. let (a, s) = f s in g a s)"
  using scan_bind [OF assms] by (simp add: Let_def)

lemma scan_if [scan_rules]:
  assumes "\<And>s t. tk_sim s t \<Longrightarrow> P s = P t" and "scan_on Q f" and "scan_on Q g"
  shows "scan_on Q (\<lambda>s. if P s then f s else g s)"
  unfolding scan_on_def
proof (intro allI impI)
  fix s t assume st: "tk_sim s t" and q: "Q s"
  with assms(1) have "P s = P t" by blast
  with assms(2,3) st q show "fst (if P s then f s else g s) = fst (if P t then f t else g t)
      \<and> tk_sim (snd (if P s then f s else g s)) (snd (if P t then f t else g t))
      \<and> (\<exists>xs. tk_steps xs s (snd (if P s then f s else g s)))"
    by (cases "P s") (auto simp: scan_on_def)
qed

lemma op_if [scan_rules]:
  assumes "\<And>s t. tk_sim s t \<Longrightarrow> P s = P t" and "op_on Q f" and "op_on Q g"
  shows "op_on Q (\<lambda>s. if P s then f s else g s)"
proof -
  have "scan_on Q (\<lambda>s. if P s then ((), f s) else ((), g s))"
    using assms unfolding op_on_def by (rule scan_if)
  then show ?thesis by (simp add: op_on_def if_distrib [of "Pair ()"])
qed

lemma op_id [scan_rules]: "op_on Q (\<lambda>s. s)"
  by (auto intro: op_onI)

lemma scan_pair [scan_rules]:
  assumes "\<And>s t. tk_sim s t \<Longrightarrow> h s = h t" and "op_on Q f"
  shows "scan_on Q (\<lambda>s. (h s, f s))"
  using assms by (auto simp: op_on_def scan_on_def)

lemma op_snd [scan_rules]: "scan_on Q f \<Longrightarrow> op_on Q (\<lambda>s. snd (f s))"
  by (simp add: op_on_def scan_on_def)

subsection \<open>The elementary methods\<close>

lemma sim_NextChar:
  assumes "tk_sim s t" and "\<not> tk_read_error s"
  shows "tk_sim (NextChar s) (NextChar t)"
  using NextChar_view [of s] NextChar_view [of t] assms tk_sim_eqs(2) [OF assms(1)] by (simp add: tk_sim_def)

lemma sim_NextChar_nul:
  "tk_sim s t \<Longrightarrow> tk_current_char s \<noteq> CHR 0x00 \<Longrightarrow> tk_sim (NextChar s) (NextChar t)"
  "tk_ok s \<Longrightarrow> tk_current_char s \<noteq> CHR 0x00 \<Longrightarrow> tk_steps [tk_current_char s] s (NextChar s)"
  using sim_NextChar tk_ok_not_nul tk_steps_NextChar by (auto simp: tk_sim_def)

lemma sim_add_error: "tk_sim s t \<Longrightarrow> tk_sim (add_error e s) (add_error e t)"
  by (simp add: tk_sim_def add_error_view)

lemma AddError_add_error: "AddError e s = add_error (tk_line s, tk_column s, Message e) s"
  by (simp add: AddError_def add_error_def)

lemma op_add_error [scan_rules]:
  assumes "\<And>s t. tk_sim s t \<Longrightarrow> e s = e t"
  shows "op_on Q (\<lambda>s. s\<lparr>tk_errors := tk_errors s @ [e s]\<rparr>)"
proof -
  have "op_on Q (\<lambda>s. add_error (e s) s)"
  proof (rule op_onI)
    fix s t assume st: "tk_sim s t"
    show "tk_sim (add_error (e s) s) (add_error (e t) t)"
      unfolding assms [OF st] using st by (rule sim_add_error)
  qed (blast intro: tk_steps_add_error)
  then show ?thesis by (simp add: add_error_def)
qed

lemma op_AddError [scan_rules]: "op_on Q (AddError e)"
proof -
  have "op_on Q (\<lambda>s. s\<lparr>tk_errors := tk_errors s @ [(tk_line s, tk_column s, Message e)]\<rparr>)"
    by (rule op_add_error) (simp add: tk_sim_eqs)
  then show ?thesis by (simp add: AddError_def [abs_def])
qed

lemma op_set_type [scan_rules]: "op_on in_token (set_type ty)"
  by (rule op_onI) (auto simp: tk_sim_def set_type_view in_token_def intro: tk_steps_set_type)

lemma TryConsumeOne_on [scan_rules]: "scan_on Q (TryConsumeOne cls)"
  unfolding scan_on_def
proof (intro allI impI)
  fix s t assume st: "tk_sim s t"
  note c = tk_sim_eqs(1) [OF st]
  have "contains cls (tk_current_char s) \<Longrightarrow> tk_current_char s \<noteq> CHR 0x00" using contains_not_nul by blast
  then show "fst (TryConsumeOne cls s) = fst (TryConsumeOne cls t)
      \<and> tk_sim (snd (TryConsumeOne cls s)) (snd (TryConsumeOne cls t))
      \<and> (\<exists>xs. tk_steps xs s (snd (TryConsumeOne cls s)))"
    using st c sim_NextChar_nul [of s] by (auto simp: TryConsumeOne_def tk_sim_def)
qed

lemma TryConsume_on [scan_rules]: "c \<noteq> CHR 0x00 \<Longrightarrow> scan_on Q (TryConsume c)"
  unfolding scan_on_def
proof (intro allI impI)
  fix s t assume st: "tk_sim s t" and nul: "c \<noteq> CHR 0x00"
  show "fst (TryConsume c s) = fst (TryConsume c t) \<and> tk_sim (snd (TryConsume c s)) (snd (TryConsume c t))
      \<and> (\<exists>xs. tk_steps xs s (snd (TryConsume c s)))"
    using st nul tk_sim_eqs(1) [OF st] sim_NextChar_nul [of s] by (auto simp: TryConsume_def tk_sim_def)
qed

lemma orelse_on [scan_rules]:
  assumes "stable Q" and "scan_on Q f" and "scan_on Q g"
  shows "scan_on Q (orelse f g)"
proof -
  have "scan_on Q (\<lambda>s. case f s of (b, s) \<Rightarrow> if b then (True, s) else g s)"
    using assms by (intro scan_rules) simp_all
  then show ?thesis by (simp add: orelse_def [abs_def])
qed

lemma andthen_on [scan_rules]:
  assumes "stable Q" and "scan_on Q f" and "scan_on Q g"
  shows "scan_on Q (andthen f g)"
proof -
  have "scan_on Q (\<lambda>s. case f s of (b, s) \<Rightarrow> if b then g s else (False, s))"
    using assms by (intro scan_rules) simp_all
  then show ?thesis by (simp add: andthen_def [abs_def])
qed

lemma ConsumeZeroOrMore_sim:
  "tk_sim s t \<Longrightarrow> tk_sim (ConsumeZeroOrMore cls s) (ConsumeZeroOrMore cls t)
     \<and> (\<exists>xs. tk_steps xs s (ConsumeZeroOrMore cls s))"
proof (induction cls s arbitrary: t rule: ConsumeZeroOrMore.induct)
  case (1 cls s)
  note c = tk_sim_eqs(1) [OF "1.prems"]
  show ?case
  proof (cases "contains cls (tk_current_char s)")
    case True
    then have n: "tk_current_char s \<noteq> CHR 0x00" using contains_not_nul by blast
    have ok: "tk_ok s" using "1.prems" by (simp add: tk_sim_def)
    have eq: "ConsumeZeroOrMore cls s = ConsumeZeroOrMore cls (NextChar s)"
      "ConsumeZeroOrMore cls t = ConsumeZeroOrMore cls (NextChar t)"
      using True c by (simp_all add: ConsumeZeroOrMore.simps [of cls s] ConsumeZeroOrMore.simps [of cls t])
    show ?thesis
      unfolding eq using "1.IH" [OF True sim_NextChar_nul(1) [OF "1.prems" n]]
        tk_steps_trans [OF sim_NextChar_nul(2) [OF ok n]] by blast
  next
    case False
    then have "ConsumeZeroOrMore cls s = s" "ConsumeZeroOrMore cls t = t"
      using c by (subst ConsumeZeroOrMore.simps, simp)+
    then show ?thesis using "1.prems" by auto
  qed
qed

lemma ConsumeZeroOrMore_on [scan_rules]: "op_on Q (ConsumeZeroOrMore cls)"
  by (rule op_onI) (use ConsumeZeroOrMore_sim tk_sim_refl in blast)+

lemma skip_until_sim:
  "tk_sim s t \<Longrightarrow> tk_sim (skip_until stops s) (skip_until stops t) \<and> (\<exists>xs. tk_steps xs s (skip_until stops s))"
proof (induction stops s arbitrary: t rule: skip_until.induct)
  case (1 stops s)
  note c = tk_sim_eqs(1) [OF "1.prems"]
  show ?case
  proof (cases "tk_current_char s \<noteq> CHR 0x00 \<and> tk_current_char s \<notin> set stops")
    case True
    have ok: "tk_ok s" using "1.prems" by (simp add: tk_sim_def)
    have eq: "skip_until stops s = skip_until stops (NextChar s)" "skip_until stops t = skip_until stops (NextChar t)"
      using True c by (simp_all add: skip_until.simps [of stops s] skip_until.simps [of stops t])
    show ?thesis
      unfolding eq using "1.IH" [OF True sim_NextChar_nul(1) [OF "1.prems" conjunct1 [OF True]]]
        tk_steps_trans [OF sim_NextChar_nul(2) [OF ok conjunct1 [OF True]]] by blast
  next
    case False
    then have "skip_until stops s = s" "skip_until stops t = t"
      using c by (subst skip_until.simps, auto)+
    then show ?thesis using "1.prems" by auto
  qed
qed

lemma skip_until_on [scan_rules]: "op_on Q (skip_until stops)"
  by (rule op_onI) (use skip_until_sim tk_sim_refl in blast)+


lemma ConsumeOneOrMore_on [scan_rules]: "op_on Q (ConsumeOneOrMore cls e)"
proof (rule op_onI)
  fix s t assume st: "tk_sim s t"
  have ok: "tk_sim (AddError e s) (AddError e t)"
    using op_AddError [of anywhere e] st by (rule op_onD) (simp add: anywhere_def)
  have "tk_sim (ConsumeZeroOrMore cls (NextChar s)) (ConsumeZeroOrMore cls (NextChar t))"
    if "contains cls (tk_current_char s)"
    using ConsumeZeroOrMore_sim sim_NextChar_nul(1) [OF st] contains_not_nul [OF that] by blast
  with ok show "tk_sim (ConsumeOneOrMore cls e s) (ConsumeOneOrMore cls e t)"
    using tk_sim_eqs(1) [OF st] by (simp add: ConsumeOneOrMore_def)
next
  fix s assume s: "tk_ok s"
  have "\<exists>xs. tk_steps xs s (AddError e s)" unfolding AddError_add_error using tk_steps_add_error by blast
  moreover have "\<exists>xs. tk_steps xs s (ConsumeZeroOrMore cls (NextChar s))" if "contains cls (tk_current_char s)"
  proof -
    note n = contains_not_nul [OF that]
    have "tk_sim (NextChar s) (NextChar s)" using sim_NextChar_nul(1) [OF tk_sim_refl [OF s] n] by simp
    then obtain xs where "tk_steps xs (NextChar s) (ConsumeZeroOrMore cls (NextChar s))"
      using ConsumeZeroOrMore_sim by blast
    with tk_steps_trans [OF sim_NextChar_nul(2) [OF s n]] show ?thesis by blast
  qed
  ultimately show "\<exists>xs. tk_steps xs s (ConsumeOneOrMore cls e s)" by (simp add: ConsumeOneOrMore_def)
qed

subsection \<open>Strings and numbers\<close>

lemma AddError_unless_on [scan_rules]:
  assumes "stable Q" and "scan_on Q f"
  shows "op_on Q (\<lambda>s. AddError_unless e (f s))"
proof -
  have "op_on Q (\<lambda>s. case f s of (b, s) \<Rightarrow> if b then s else AddError e s)"
    using assms by (intro scan_rules) simp_all
  then show ?thesis by (simp add: AddError_unless_def split_def)
qed

lemma hex_digits_on [scan_rules]:
  "stable Q \<Longrightarrow> scan_on Q four_hex_digits" "stable Q \<Longrightarrow> scan_on Q eight_hex_digits"
  unfolding four_hex_digits_def eight_hex_digits_def by (intro scan_rules; simp)+

lemma ConsumeEscape_on: "op_on anywhere ConsumeEscape"
  unfolding ConsumeEscape_def [abs_def] by (intro scan_rules; simp)

lemma ConsumeString_sim:
  "tk_sim s t \<Longrightarrow> tk_sim (ConsumeString d s) (ConsumeString d t) \<and> (\<exists>xs. tk_steps xs s (ConsumeString d s))"
proof (induction d s arbitrary: t rule: ConsumeString.induct)
  case (1 d s)
  let ?c = "tk_current_char s"
  note st = "1.prems"
  note c = tk_sim_eqs(1) [OF st]
  have ok: "tk_ok s" using st by (simp add: tk_sim_def)
  have err: "tk_sim (AddError e s) (AddError e t) \<and> (\<exists>xs. tk_steps xs s (AddError e s))" for e
    using op_onD [OF op_AddError st, of anywhere] by (simp add: anywhere_def)
  note unf = ConsumeString.simps [of d s] ConsumeString.simps [of d t]
  note m = tk_sim_eqs(10) [OF st]
  have go: "\<exists>xs. tk_steps xs s (ConsumeString d u)" if "\<exists>xs. tk_steps xs s u" "\<exists>xs. tk_steps xs u (ConsumeString d u)" for u
    using that tk_steps_trans by blast
  consider "?c = CHR 0x00" | "?c = CHR 0x0A" "\<not> tk_allow_multiline_strings s"
    | "?c = CHR 0x5C" | "?c \<noteq> CHR 0x00" "?c = d" "?c \<noteq> CHR 0x0A" "?c \<noteq> CHR 0x5C"
    | "?c \<noteq> CHR 0x00" "?c \<noteq> CHR 0x5C" "?c = CHR 0x0A \<and> tk_allow_multiline_strings s \<or> ?c \<noteq> CHR 0x0A \<and> ?c \<noteq> d"
    by auto
  then show ?case
  proof cases
    case 1
    then show ?thesis using err c by (simp add: unf Let_def)
  next
    case 2
    then show ?thesis using err c m by (simp add: unf Let_def)
  next
    case 3
    then have n: "?c \<noteq> CHR 0x00" by simp
    have eq: "ConsumeString d s = ConsumeString d (ConsumeEscape (NextChar s))"
      "ConsumeString d t = ConsumeString d (ConsumeEscape (NextChar t))"
      using 3 c by (subst ConsumeString.simps, simp)+
    have e: "tk_sim (ConsumeEscape (NextChar s)) (ConsumeEscape (NextChar t))"
      "\<exists>xs. tk_steps xs (NextChar s) (ConsumeEscape (NextChar s))"
      using op_onD [OF ConsumeEscape_on sim_NextChar_nul(1) [OF st n]] by (simp_all add: anywhere_def)
    have x: "\<exists>xs. tk_steps xs s (ConsumeEscape (NextChar s))"
      using e(2) tk_steps_trans [OF sim_NextChar_nul(2) [OF ok n]] by blast
    show ?thesis unfolding eq using "1.IH"(2) [OF refl _ _ _ e(1)] 3 go [OF x] by simp
  next
    case 4
    then have "ConsumeString d s = NextChar s" "ConsumeString d t = NextChar t"
      using c by (subst ConsumeString.simps, simp)+
    then show ?thesis using sim_NextChar_nul(1) [OF st 4(1)] sim_NextChar_nul(2) [OF ok 4(1)] by auto
  next
    case 5
    then have eq: "ConsumeString d s = ConsumeString d (NextChar s)" "ConsumeString d t = ConsumeString d (NextChar t)"
      using c m by (subst ConsumeString.simps, auto)+
    have x: "\<exists>xs. tk_steps xs s (NextChar s)" using sim_NextChar_nul(2) [OF ok 5(1)] by blast
    note n = sim_NextChar_nul(1) [OF st 5(1)]
    have "tk_sim (ConsumeString d (NextChar s)) (ConsumeString d (NextChar t))
        \<and> (\<exists>xs. tk_steps xs (NextChar s) (ConsumeString d (NextChar s)))"
      using 5 "1.IH"(1) [OF refl _ _ _ n] "1.IH"(3) [OF refl _ _ _ _ n] by auto
    then show ?thesis unfolding eq using go [OF x] by simp
  qed
qed

lemma ConsumeString_on [scan_rules]: "op_on Q (ConsumeString d)"
  by (rule op_onI) (use ConsumeString_sim tk_sim_refl in blast)+


text \<open>A value that only depends on the view.\<close>

lemma scan_result:
  assumes "stable Q" and "scan_on Q f"
  shows "scan_on Q (\<lambda>s. case f s of (a, s) \<Rightarrow> (h a, s))"
  using assms by (intro scan_rules) simp_all

lemma ConsumeExponent_on [scan_rules]: "stable Q \<Longrightarrow> scan_on Q (ConsumeExponent b)"
  unfolding ConsumeExponent_def [abs_def] by (intro scan_rules; simp)

lemma ConsumeFloatSuffix_on [scan_rules]: "stable Q \<Longrightarrow> scan_on Q (ConsumeFloatSuffix b)"
  unfolding ConsumeFloatSuffix_def [abs_def] by (intro scan_rules; simp add: tk_sim_eqs)

lemma ConsumeDecimal_on [scan_rules]: "stable Q \<Longrightarrow> scan_on Q (ConsumeDecimal dot)"
proof -
  assume st: "stable Q"
  have d: "scan_on Q (\<lambda>s. case TryConsume CHR ''.'' (ConsumeZeroOrMore kDigit s) of (b, s) \<Rightarrow>
      if b then (True, ConsumeZeroOrMore kDigit s) else (False, s))"
    by (rule scan_seq [OF st ConsumeZeroOrMore_on]) (intro scan_rules; simp add: st)
  show ?thesis
    unfolding ConsumeDecimal_def [abs_def] Let_def by (intro scan_rules d; simp add: st)
qed

lemma ConsumeOctal_on [scan_rules]: "stable Q \<Longrightarrow> op_on Q ConsumeOctal"
proof -
  assume st: "stable Q"
  have d: "op_on Q (\<lambda>s. ConsumeZeroOrMore kDigit (AddError e s))" for e
    by (rule op_seq [OF st op_AddError ConsumeZeroOrMore_on])
  show ?thesis
    unfolding ConsumeOctal_def [abs_def] by (intro scan_rules d; simp add: st LookingAt_def tk_sim_eqs)
qed

lemma ConsumeNumber_on [scan_rules]: "stable Q \<Longrightarrow> scan_on Q (ConsumeNumber zero dot)"
proof -
  assume st: "stable Q"
  have hex: "scan_on Q (\<lambda>s. if zero then orelse (TryConsume CHR ''x'') (TryConsume CHR ''X'') s else (False, s))"
    by (intro scan_rules; simp add: st)
  have body: "scan_on Q (\<lambda>s. if hex then (False, ConsumeOneOrMore kHexDigit e s)
      else if zero \<and> LookingAt kDigit s then (False, ConsumeOctal s) else ConsumeDecimal dot s)" for hex e
    by (intro scan_rules; simp add: st LookingAt_def tk_sim_eqs)
  have fin: "scan_on Q (\<lambda>s. let s = (if LookingAt kLetter s \<and> tk_require_space_after_number s
      then AddError e1 s else if tk_current_char s = CHR ''.''
      then if fl then AddError e2 s else AddError e3 s else s) in (if fl then TYPE_FLOAT else TYPE_INTEGER, s))" for fl e1 e2 e3
    by (intro scan_rules; simp add: st LookingAt_def tk_sim_eqs)
  show ?thesis
    unfolding ConsumeNumber_def [abs_def] Let_def [of "if zero then _ else _"] Let_def [of "if _ then (False, _) else _"]
    by (intro scan_bind hex body fin st)
qed

lemma ConsumeSymbol_on: "op_on (\<lambda>s. Q s \<and> \<not> tk_read_error s) ConsumeSymbol"
proof (rule op_onI)
  let ?e = "\<lambda>s. (if 128 \<le> (of_char (tk_current_char s) :: nat)
      then s\<lparr>tk_errors := tk_errors s @ [(tk_line s, tk_column s, NonAsciiCodepoint (of_char (tk_current_char s)))]\<rparr> else s)"
  have e: "op_on anywhere ?e" by (intro scan_rules; simp add: tk_sim_eqs)
  have r: "tk_read_error (?e s) = tk_read_error s" for s by simp
  {
    fix s t assume st: "tk_sim s t" and q: "Q s \<and> \<not> tk_read_error s"
    show "tk_sim (ConsumeSymbol s) (ConsumeSymbol t)"
      unfolding ConsumeSymbol_def using op_onD(1) [OF e st] q by (intro sim_NextChar) (simp_all add: anywhere_def)
  }
  fix s assume s: "tk_ok s" and q: "Q s \<and> \<not> tk_read_error s"
  obtain xs where "tk_steps xs s (?e s)"
    using op_onD(2) [OF e tk_sim_refl [OF s]] by (auto simp: anywhere_def)
  moreover have "tk_ok (?e s)" using op_onD(1) [OF e tk_sim_refl [OF s]] by (simp add: anywhere_def tk_sim_def)
  ultimately show "\<exists>xs. tk_steps xs s (ConsumeSymbol s)"
    unfolding ConsumeSymbol_def using tk_steps_NextChar [of "?e s"] q tk_steps_trans r by blast
qed

end
