(* ===== verification/Tokenizer_Next.thy ===== *)
theory Tokenizer_Next
  imports Tokenizer_Respect
begin

section \<open>What Next() reads\<close>

text \<open>
  The methods from \<open>StartToken\<close> to \<open>Next\<close>: on an idle state, in which no text is being
  recorded, a turn of the loop consumes a gap and perhaps a token, and the token carries exactly
  the text, the line and the columns of what was consumed (\<open>reads_token\<close>).
\<close>

definition idle :: "tokenizer \<Rightarrow> bool" where
  "idle s \<longleftrightarrow> tk_ok s \<and> tk_record s = None"

lemma idle_sim: "tk_sim s t \<Longrightarrow> idle s \<Longrightarrow> idle t"
  using tk_sim_eqs(16) [of s t] by (auto simp: idle_def tk_sim_def tk_target_def)

lemma idle_sim_current: "tk_sim s t \<Longrightarrow> idle s \<Longrightarrow> tk_current s = tk_current t"
  using tk_sim_eqs(17) [of s t] idle_sim tk_view_idle by (metis idle_def)

text \<open>Moving over a text between two idle states.\<close>

definition tk_moves :: "string \<Rightarrow> tokenizer \<Rightarrow> tokenizer \<Rightarrow> bool" where
  "tk_moves xs s s' \<longleftrightarrow> tk_rest s = xs @ tk_rest s' \<and> tk_pos s' = advance xs (tk_pos s)
     \<and> tk_previous s' = tk_previous s \<and> tk_options s' = tk_options s \<and> idle s'"

lemma tk_moves_trans: "tk_moves xs s t \<Longrightarrow> tk_moves ys t u \<Longrightarrow> tk_moves (xs @ ys) s u"
  by (auto simp: tk_moves_def)

lemma idle_steps: "idle s \<Longrightarrow> tk_ok s' \<Longrightarrow> tk_steps xs s s' \<Longrightarrow> tk_moves xs s s' \<and> tk_current s' = tk_current s"
  by (auto simp: tk_moves_def tk_steps_def idle_def tk_target_def)

lemma op_idle:
  assumes "op_on anywhere f" and "tk_sim s t" and "idle s"
  shows "tk_sim (f s) (f t) \<and> (\<exists>xs. tk_moves xs s (f s)) \<and> tk_current (f s) = tk_current s"
proof -
  have sim: "tk_sim (f s) (f t)" "\<exists>xs. tk_steps xs s (f s)"
    using op_onD [OF assms(1,2)] by (simp_all add: anywhere_def)
  then have "tk_ok (f s)" by (simp add: tk_sim_def)
  with sim idle_steps [OF assms(3)] show ?thesis by blast
qed

subsection \<open>Recording a token\<close>

lemma StartToken_view:
  assumes "idle s"
  shows "tk_ok (StartToken s)"
    and "tk_view (StartToken s) = (tk_view s)\<lparr>tk_record := Some (ToToken, 0), tk_current := (tk_current (tk_view s))
           \<lparr>tok_type := TYPE_START, tok_text := [], tok_line := tk_line s, tok_column := tk_column s\<rparr>\<rparr>"
  using assms
  by (auto simp: idle_def tk_ok_def StartToken_def RecordTo_def tk_view_def tk_recorded_def tk_rest_def record_append_def)

lemma EndToken_view:
  assumes "tk_ok s"
  shows "idle (EndToken s)"
    and "tk_view (EndToken s) = (tk_view s)\<lparr>tk_record := None, tk_current := (tk_current (tk_view s))
           \<lparr>tok_end_column := tk_column s\<rparr>\<rparr>"
proof -
  show "idle (EndToken s)"
    using assms by (auto simp: idle_def tk_ok_def EndToken_def StopRecording_def Let_def record_append_def
        split: option.split record_target.split)
  show "tk_view (EndToken s) = (tk_view s)\<lparr>tk_record := None, tk_current := (tk_current (tk_view s))
           \<lparr>tok_end_column := tk_column s\<rparr>\<rparr>"
  proof (cases "tk_record s")
    case None
    then show ?thesis
      by (simp add: EndToken_def StopRecording_def tk_view_def tk_rest_def)
  next
    case (Some q)
    then obtain tg st where q: "tk_record s = Some (tg, st)" by (cases q) auto
    with assms have "st \<le> tk_buffer_pos s" by (simp add: tk_ok_def)
    then show ?thesis
      using q by (cases tg) (auto simp: EndToken_def StopRecording_def tk_view_def tk_rest_def tk_recorded_def record_append_def)
  qed
qed

lemma StartToken_sim: "tk_sim s t \<Longrightarrow> idle s \<Longrightarrow> tk_sim (StartToken s) (StartToken t)"
  using StartToken_view [of s] StartToken_view [of t] idle_sim [of s t] tk_sim_eqs(3,4) [of s t]
  by (simp add: tk_sim_def)

lemma EndToken_sim: "tk_sim s t \<Longrightarrow> tk_sim (EndToken s) (EndToken t)"
  using EndToken_view [of s] EndToken_view [of t] tk_sim_eqs(4) [of s t] by (simp add: tk_sim_def idle_def)

lemma StartToken_simps [simp]:
  "tk_read_error (StartToken s) = tk_read_error s" "tk_current_char (StartToken s) = tk_current_char s"
  "tk_target (StartToken s) = Some ToToken" "tk_rest (StartToken s) = tk_rest s" "tk_pos (StartToken s) = tk_pos s"
  "tk_previous (StartToken s) = tk_previous s" "tk_options (StartToken s) = tk_options s"
  "tok_line (tk_current (StartToken s)) = tk_line s" "tok_column (tk_current (StartToken s)) = tk_column s"
  "tk_report_url_chars (StartToken s) = tk_report_url_chars s"
  by (simp_all add: StartToken_def RecordTo_def tk_target_def tk_rest_def tk_pos_def tk_options_def)

lemma StopRecording_simps:
  "tk_rest (StopRecording s) = tk_rest s" "tk_pos (StopRecording s) = tk_pos s"
  "tk_previous (StopRecording s) = tk_previous s" "tk_options (StopRecording s) = tk_options s"
  "tk_column (StopRecording s) = tk_column s" "tk_read_error (StopRecording s) = tk_read_error s"
  "tk_current_char (StopRecording s) = tk_current_char s" "tk_errors (StopRecording s) = tk_errors s"
  by (simp_all add: StopRecording_def tk_rest_def tk_pos_def tk_options_def split: option.split)

lemma EndToken_simps [simp]:
  "tk_rest (EndToken s) = tk_rest s" "tk_pos (EndToken s) = tk_pos s" "tk_column (EndToken s) = tk_column s"
  "tk_previous (EndToken s) = tk_previous s" "tk_options (EndToken s) = tk_options s"
  "tok_end_column (tk_current (EndToken s)) = tk_column s" "tk_read_error (EndToken s) = tk_read_error s"
  "tk_current_char (EndToken s) = tk_current_char s"
  using StopRecording_simps [of s]
  by (simp_all add: EndToken_def Let_def tk_rest_def tk_pos_def tk_options_def)

text \<open>The current token is the text behind a gap, at the place the gap leads to.\<close>

definition token_at :: "string \<Rightarrow> tokenizer \<Rightarrow> tokenizer \<Rightarrow> bool" where
  "token_at gap s s' \<longleftrightarrow>
     (let t = tk_current s'
      in tk_moves (gap @ tok_text t) s s' \<and> (tok_line t, tok_column t) = advance gap (tk_pos s)
         \<and> tok_end_column t = tk_column s' \<and> tok_text t \<noteq> [])"

lemma recorded_token:
  assumes "idle s" and "tk_steps xs (StartToken s) u" and "tk_ok u"
  shows "tk_moves xs s (EndToken u)" and "tok_text (tk_current (EndToken u)) = xs"
    and "(tok_line (tk_current (EndToken u)), tok_column (tk_current (EndToken u))) = tk_pos s"
proof -
  note st = assms(2) [unfolded tk_steps_def]
  note e = EndToken_view [OF assms(3)]
  have cur: "tk_current (EndToken u) = (tk_current (tk_view u))\<lparr>tok_end_column := tk_column u\<rparr>"
    using tk_view_idle [of "EndToken u"] e by (simp add: idle_def)
  show "tk_moves xs s (EndToken u)" using st e(1) by (simp add: tk_moves_def)
  show "tok_text (tk_current (EndToken u)) = xs"
    using st StartToken_view(2) [OF assms(1)] by (simp add: cur)
  show "(tok_line (tk_current (EndToken u)), tok_column (tk_current (EndToken u))) = tk_pos s"
    using st by (simp add: cur tk_view_current tk_pos_def)
qed

subsection \<open>Whitespace and comments\<close>

lemma set_type_on: "op_on in_token f \<Longrightarrow> op_on in_token (\<lambda>s. set_type ty (f s))"
  by (rule op_seq [OF _ _ op_set_type]) simp_all

lemma set_type_let_on: "op_on in_token f \<Longrightarrow> op_on in_token (\<lambda>s. set_type ty (f s))"
  by (rule set_type_on)

lemma TryConsumeWhitespace_on: "scan_on in_token TryConsumeWhitespace"
proof -
  have z: "op_on in_token (\<lambda>s. set_type ty (ConsumeZeroOrMore cls s))" for ty cls
    by (rule set_type_on [OF ConsumeZeroOrMore_on])
  have w: "scan_on in_token (\<lambda>s. if b then (True, set_type ty (ConsumeZeroOrMore cls s)) else (False, s))" for b ty cls
    by (intro scan_rules z; simp)
  have v: "scan_on in_token (\<lambda>s. if b then (let s = set_type ty (ConsumeZeroOrMore cls s) in (tk_report_whitespace s, s)) else (False, s))" for b ty cls
    by (intro scan_rules z; simp add: tk_sim_eqs)
  have eq: "TryConsumeWhitespace = (\<lambda>s. if tk_report_newlines s
      then (case TryConsumeOne kWhitespaceNoNewline s of (b, s) \<Rightarrow>
              if b then (True, set_type TYPE_WHITESPACE (ConsumeZeroOrMore kWhitespaceNoNewline s)) else (False, s))
      else (case TryConsumeOne kWhitespace s of (b, s) \<Rightarrow>
              if b then (let s = set_type TYPE_WHITESPACE (ConsumeZeroOrMore kWhitespace s) in (tk_report_whitespace s, s))
              else (False, s)))"
    by (auto simp: fun_eq_iff TryConsumeWhitespace_def split: prod.split bool.split)
  show ?thesis
    unfolding eq by (intro scan_if scan_bind w v TryConsumeOne_on; simp add: tk_sim_eqs)
qed

lemma TryConsumeNewline_on: "scan_on in_token TryConsumeNewline"
proof -
  have eq: "TryConsumeNewline = (\<lambda>s. if \<not> tk_report_whitespace s \<or> \<not> tk_report_newlines s then (False, s)
      else case TryConsume CHR 0x0A s of (b, s) \<Rightarrow> if b then (True, set_type TYPE_NEWLINE s) else (False, s))"
    by (auto simp: fun_eq_iff TryConsumeNewline_def split: prod.split bool.split)
  show ?thesis
    unfolding eq by (intro scan_rules; simp add: tk_sim_eqs)
qed

lemma ConsumeLineComment_on: "op_on anywhere (ConsumeLineComment False)"
proof -
  have "op_on anywhere (\<lambda>s. snd (TryConsume CHR 0x0A (skip_until [CHR 0x0A] s)))"
    by (rule op_seq [OF _ skip_until_on op_snd [OF TryConsume_on]]) simp_all
  then show ?thesis by (simp add: ConsumeLineComment_def [abs_def] Let_def)
qed

lemma BlockComment_turn_on: "scan_on anywhere (BlockComment_turn False l k)"
proof -
  have n: "scan_on anywhere (\<lambda>s. TryConsume CHR 0x0A (skip_until [CHR ''*'', CHR ''/'', CHR 0x0A] s))"
    by (rule scan_seq [OF _ skip_until_on TryConsume_on]) simp_all
  have e: "op_on anywhere (\<lambda>s. s\<lparr>tk_errors := tk_errors s @ [(l, k, m)]\<rparr>)" for m by (rule op_add_error) simp
  show ?thesis
    unfolding BlockComment_turn_def [abs_def] if_False
    by (intro scan_rules n e; simp add: tk_sim_eqs)
qed

lemma BlockComment_loop_sim:
  "tk_sim s t \<Longrightarrow> tk_sim (BlockComment_loop False l k s) (BlockComment_loop False l k t)
     \<and> (\<exists>xs. tk_steps xs s (BlockComment_loop False l k s))"
proof (induction False l k s arbitrary: t rule: BlockComment_loop.induct)
  case (1 l k s)
  obtain b s' where b: "BlockComment_turn False l k s = (b, s')" by (cases "BlockComment_turn False l k s")
  obtain t' where t: "BlockComment_turn False l k t = (b, t')" "tk_sim s' t'"
    using scan_onD(1) [OF BlockComment_turn_on "1.prems" _ b] by (auto simp: anywhere_def)
  obtain xs where xs: "tk_steps xs s s'"
    using scan_onD(2) [OF BlockComment_turn_on "1.prems" _ b] by (auto simp: anywhere_def)
  have eq: "BlockComment_loop False l k s = (if b then BlockComment_loop False l k s' else s')"
    "BlockComment_loop False l k t = (if b then BlockComment_loop False l k t' else t')"
    by (subst BlockComment_loop.simps, simp add: b t)+
  show ?case
  proof (cases b)
    case True
    with "1.hyps" [OF b [symmetric] True t(2)] tk_steps_trans [OF xs] show ?thesis unfolding eq by auto
  next
    case False
    with t(2) xs show ?thesis unfolding eq by auto
  qed
qed

lemma ConsumeBlockComment_on: "op_on anywhere (ConsumeBlockComment False)"
proof (rule op_onI)
  fix s t assume st: "tk_sim s t"
  show "tk_sim (ConsumeBlockComment False s) (ConsumeBlockComment False t)"
    using BlockComment_loop_sim [OF st] tk_sim_eqs(3,4) [OF st] by (simp add: ConsumeBlockComment_def)
next
  fix s assume "tk_ok s"
  with BlockComment_loop_sim [OF tk_sim_refl] show "\<exists>xs. tk_steps xs s (ConsumeBlockComment False s)"
    by (simp add: ConsumeBlockComment_def)
qed


lemma whitespace_progress:
  assumes "tk_ok u" and "orelse TryConsumeWhitespace TryConsumeNewline u = (True, v)"
  shows "tk_rest v \<noteq> tk_rest u"
proof -
  have n: "length (tk_rest (NextChar u)) < length (tk_rest u)" if "tk_current_char u \<noteq> CHR 0x00"
    using sim_NextChar_nul(2) [OF assms(1) that] by (auto simp: tk_steps_def)
  have z: "length (tk_rest (ConsumeZeroOrMore cls (NextChar u))) < length (tk_rest u)"
    if "contains cls (tk_current_char u)" for cls
  proof -
    have c: "tk_current_char u \<noteq> CHR 0x00" using contains_not_nul [OF that] .
    have "tk_sim (NextChar u) (NextChar u)" using sim_NextChar_nul(1) [OF tk_sim_refl [OF assms(1)] c] .
    from ConsumeZeroOrMore_sim [OF this, of cls] obtain xs
      where "tk_rest (NextChar u) = xs @ tk_rest (ConsumeZeroOrMore cls (NextChar u))"
      by (auto simp: tk_steps_def)
    with n [OF c] show ?thesis by (metis length_append le_add2 le_less_trans)
  qed
  have r: "tk_rest (set_type ty w) = tk_rest w" for ty w by (simp add: set_type_def tk_rest_def)
  have "length (tk_rest v) < length (tk_rest u)"
  proof (cases "fst (TryConsumeWhitespace u)")
    case True
    with assms(2) have "TryConsumeWhitespace u = (True, v)"
      by (auto simp: orelse_def split: prod.splits)
    with z show ?thesis
      by (auto simp: TryConsumeWhitespace_def TryConsumeOne_def Let_def r split: if_splits)
  next
    case False
    then obtain w where w: "TryConsumeWhitespace u = (False, w)" by (cases "TryConsumeWhitespace u") auto
    with assms(2) have nl: "TryConsumeNewline w = (True, v)" by (simp add: orelse_def)
    then have rep: "tk_report_newlines w" by (auto simp: TryConsumeNewline_def split: if_splits)
    have tg: "w = u"
    proof (cases "tk_report_newlines u")
      case True
      with w show ?thesis by (auto simp: TryConsumeWhitespace_def TryConsumeOne_def split: if_splits)
    next
      case f: False
      have "tk_options (ConsumeZeroOrMore cls (NextChar u)) = tk_options u" if "contains cls (tk_current_char u)" for cls
      proof -
        have c: "tk_current_char u \<noteq> CHR 0x00" using contains_not_nul [OF that] .
        have "tk_sim (NextChar u) (NextChar u)" using sim_NextChar_nul(1) [OF tk_sim_refl [OF assms(1)] c] .
        from ConsumeZeroOrMore_sim [OF this, of cls] have "tk_options (ConsumeZeroOrMore cls (NextChar u)) = tk_options (NextChar u)"
          by (auto simp: tk_steps_def)
        with sim_NextChar_nul(2) [OF assms(1) c] show ?thesis by (simp add: tk_steps_def)
      qed
      with w f rep show ?thesis
        by (auto simp: TryConsumeWhitespace_def TryConsumeOne_def Let_def set_type_def tk_options_def split: if_splits)
    qed
    with nl have "tk_current_char u = CHR 0x0A" "tk_rest v = tk_rest (NextChar u)"
      by (auto simp: TryConsumeNewline_def TryConsume_def r split: if_splits)
    with n show ?thesis by simp
  qed
  then show ?thesis by auto
qed

lemma set_current_view:
  assumes "idle s"
  shows "idle (s\<lparr>tk_current := k\<rparr>)" and "tk_view (s\<lparr>tk_current := k\<rparr>) = (tk_view s)\<lparr>tk_current := k\<rparr>"
    and "idle (s\<lparr>tk_previous := k\<rparr>)" and "tk_view (s\<lparr>tk_previous := k\<rparr>) = (tk_view s)\<lparr>tk_previous := k\<rparr>"
  using assms by (simp_all add: idle_def tk_ok_def tk_view_def tk_rest_def)

lemma idle_NextChar:
  assumes "idle s" and "tk_current_char s \<noteq> CHR 0x00"
  shows "idle (NextChar s)" and "tk_moves [tk_current_char s] s (NextChar s)" and "tk_current (NextChar s) = tk_current s"
proof -
  have ok: "tk_ok s" using assms(1) by (simp add: idle_def)
  then have "tk_ok (NextChar s)" using sim_NextChar_nul(1) [OF tk_sim_refl assms(2)] by (simp add: tk_sim_def)
  with idle_steps [OF assms(1) _ sim_NextChar_nul(2) [OF ok assms(2)]]
  show "idle (NextChar s)" "tk_moves [tk_current_char s] s (NextChar s)" "tk_current (NextChar s) = tk_current s"
    by (auto simp: tk_moves_def)
qed

lemma CommentStart_reads:
  assumes "tk_sim s t" and "idle s" and "TryConsumeCommentStart s = (c, s')"
  shows "\<exists>t'. TryConsumeCommentStart t = (c, t') \<and> tk_sim s' t'"
    and "c \<noteq> SLASH_NOT_COMMENT \<Longrightarrow> (\<exists>xs. tk_moves xs s s') \<and> tk_current s' = tk_current s"
    and "c = SLASH_NOT_COMMENT \<Longrightarrow> token_at [] s s'"
    and "c = NO_COMMENT \<Longrightarrow> s' = s"
proof -
  note e = tk_sim_eqs(1,8) [OF assms(1)]
  have ok: "tk_ok s" using assms(2) by (simp add: idle_def)
  have id: "tk_moves [] s s" using assms(2) by (simp add: tk_moves_def)
  have "(\<exists>t'. TryConsumeCommentStart t = (c, t') \<and> tk_sim s' t')
    \<and> (c \<noteq> SLASH_NOT_COMMENT \<longrightarrow> (\<exists>xs. tk_moves xs s s') \<and> tk_current s' = tk_current s)
    \<and> (c = SLASH_NOT_COMMENT \<longrightarrow> token_at [] s s') \<and> (c = NO_COMMENT \<longrightarrow> s' = s)"
  proof (cases "tk_comment_style s")
    case CPP_COMMENT_STYLE
    show ?thesis
    proof (cases "tk_current_char s = CHR ''/''")
      case False
      with assms CPP_COMMENT_STYLE e id show ?thesis
        by (auto simp: TryConsumeCommentStart_def TryConsume_def)
    next
      case True
      then have n: "tk_current_char s \<noteq> CHR 0x00" by simp
      let ?s = "NextChar s" and ?t = "NextChar t"
      note i = idle_NextChar [OF assms(2) n]
      have st: "tk_sim ?s ?t" using sim_NextChar_nul(1) [OF assms(1) n] .
      note f = tk_sim_eqs [OF st]
      have two: ?thesis if d: "tk_current_char ?s = d" "d \<noteq> CHR 0x00" "(c, s') = (k, NextChar ?s)"
          "k = (if d = CHR ''/'' then LINE_COMMENT else BLOCK_COMMENT)" "TryConsumeCommentStart t = (k, NextChar ?t)" for d k
        using d sim_NextChar_nul(1) [OF st] idle_NextChar [OF i(1)] i(3) tk_moves_trans [OF i(2)] by auto
      consider "tk_current_char ?s = CHR ''/''" | "tk_current_char ?s = CHR ''*''"
        | "tk_current_char ?s \<noteq> CHR ''/''" "tk_current_char ?s \<noteq> CHR ''*''" by blast
      then show ?thesis
      proof cases
        case 1
        then show ?thesis
          using assms(3) CPP_COMMENT_STYLE e True f(1) by (intro two) (auto simp: TryConsumeCommentStart_def TryConsume_def)
      next
        case 2
        then show ?thesis
          using assms(3) CPP_COMMENT_STYLE e True f(1) by (intro two) (auto simp: TryConsumeCommentStart_def TryConsume_def)
      next
        case 3
        define k where "k = \<lparr>tok_type = TYPE_SYMBOL, tok_text = ''/'', tok_line = tk_line ?s,
          tok_column = tk_column ?s - 1, tok_end_column = tk_column ?s\<rparr>"
        have r: "c = SLASH_NOT_COMMENT" "s' = ?s\<lparr>tk_current := k\<rparr>"
          using assms(3) 3 CPP_COMMENT_STYLE e True by (auto simp: TryConsumeCommentStart_def TryConsume_def k_def)
        have t: "TryConsumeCommentStart t = (SLASH_NOT_COMMENT, ?t\<lparr>tk_current := k\<rparr>)"
          using 3 CPP_COMMENT_STYLE e True f by (simp add: TryConsumeCommentStart_def TryConsume_def k_def)
        have "tk_sim s' (?t\<lparr>tk_current := k\<rparr>)"
          using st set_current_view [OF i(1), of k] set_current_view [OF idle_sim [OF st i(1)], of k]
          by (simp add: tk_sim_def r(2) idle_def)
        moreover have "token_at [] s s'"
          using i(2) set_current_view(1) [OF i(1), of k] True
          by (cases "tk_pos s") (auto simp: token_at_def Let_def r(2) k_def tk_moves_def tk_rest_def tk_pos_def tk_options_def advance1.simps)
        ultimately show ?thesis using t r(1) by auto
      qed
    qed
  next
    case SH_COMMENT_STYLE
    show ?thesis
    proof (cases "tk_current_char s = CHR ''#''")
      case True
      then have n: "tk_current_char s \<noteq> CHR 0x00" by simp
      have "TryConsumeCommentStart t = (LINE_COMMENT, NextChar t)" "c = LINE_COMMENT" "s' = NextChar s"
        using assms(3) e True SH_COMMENT_STYLE by (simp_all add: TryConsumeCommentStart_def TryConsume_def)
      with sim_NextChar_nul(1) [OF assms(1) n] idle_NextChar [OF assms(2) n] show ?thesis by auto
    next
      case False
      with assms SH_COMMENT_STYLE e id show ?thesis by (auto simp: TryConsumeCommentStart_def TryConsume_def)
    qed
  qed
  then show "\<exists>t'. TryConsumeCommentStart t = (c, t') \<and> tk_sim s' t'"
    and "c \<noteq> SLASH_NOT_COMMENT \<Longrightarrow> (\<exists>xs. tk_moves xs s s') \<and> tk_current s' = tk_current s"
    and "c = SLASH_NOT_COMMENT \<Longrightarrow> token_at [] s s'" and "c = NO_COMMENT \<Longrightarrow> s' = s"
    by blast+
qed


subsection \<open>One token\<close>

declare contains.simps [simp del]

text \<open>
  \<open>ReadToken\<close> consumes its first character whatever it is, perhaps with an error; what follows
  depends only on that character.
\<close>

definition warn_symbol :: "tokenizer \<Rightarrow> tokenizer" where
  "warn_symbol s = (if 128 \<le> (of_char (tk_current_char s) :: nat)
     then s\<lparr>tk_errors := tk_errors s @ [(tk_line s, tk_column s, NonAsciiCodepoint (of_char (tk_current_char s)))]\<rparr> else s)"

lemma ConsumeSymbol_warn: "ConsumeSymbol s = NextChar (warn_symbol s)"
  by (simp add: ConsumeSymbol_def warn_symbol_def)

lemma warn_symbol_add: "warn_symbol s = s \<or> (\<exists>e. warn_symbol s = add_error e s)"
  by (auto simp: warn_symbol_def add_error_def)

lemma sim_warn_symbol: "tk_sim s t \<Longrightarrow> tk_sim (warn_symbol s) (warn_symbol t)"
proof -
  have "op_on anywhere warn_symbol"
    unfolding warn_symbol_def [abs_def] by (intro scan_rules; simp add: tk_sim_eqs)
  then show "tk_sim s t \<Longrightarrow> tk_sim (warn_symbol s) (warn_symbol t)"
    by (rule op_onD(1)) (simp_all add: anywhere_def)
qed

lemma warn_symbol_simps:
  "tk_read_error (warn_symbol s) = tk_read_error s" "tk_current_char (warn_symbol s) = tk_current_char s"
  by (simp_all add: warn_symbol_def)

lemma decimal_point_on:
  "op_on in_token (\<lambda>s. case TryConsumeOne kDigit s of (b, s) \<Rightarrow>
     if b
     then let s = (if tok_type (tk_previous s) = TYPE_IDENTIFIER \<and> tok_line (tk_current s) = tok_line (tk_previous s)
                      \<and> tok_column (tk_current s) = tok_end_column (tk_previous s)
                   then s\<lparr>tk_errors := tk_errors s @ [(tk_line s, tk_column s - 2, m)]\<rparr> else s)
          in (case ConsumeNumber False True s of (ty, s) \<Rightarrow> set_type ty s)
     else set_type TYPE_SYMBOL s)"
  by (intro scan_rules; simp add: tk_sim_eqs tk_sim_current)

lemma ReadToken_first:
  "\<exists>F E. op_on in_token F \<and> E \<in> {\<lambda>u. u, warn_symbol}
    \<and> (\<forall>u. tk_current_char u = c \<longrightarrow> tk_report_url_chars u = url \<longrightarrow> ReadToken u = F (NextChar (E u)))"
proof -
  have z: "op_on in_token (\<lambda>s. set_type ty (ConsumeZeroOrMore cls s))" for ty cls
    by (rule set_type_on [OF ConsumeZeroOrMore_on])
  have n: "op_on in_token (\<lambda>s. case ConsumeNumber a b s of (ty, s) \<Rightarrow> set_type ty s)" for a b
    by (intro scan_rules; simp)
  have q: "op_on in_token (\<lambda>s. set_type TYPE_STRING (ConsumeString d s))" for d
    by (rule set_type_on [OF ConsumeString_on])
  have R: ?thesis if "op_on in_token F" "E \<in> {\<lambda>u. u, warn_symbol}"
    "\<And>u. tk_current_char u = c \<Longrightarrow> tk_report_url_chars u = url \<Longrightarrow> ReadToken u = F (NextChar (E u))" for F E
    using that by blast
  note d = ReadToken_def TryConsumeOne_def TryConsume_def ConsumeSymbol_warn
  show ?thesis
  proof (cases url)
    case True
    show ?thesis
    proof (cases "contains kUrlChar c")
      case c: True
      show ?thesis by (rule R [OF z, of "\<lambda>u. u" TYPE_URL_CHARS kUrlChar]) (use True c in \<open>simp_all add: d\<close>)
    next
      case False
      show ?thesis by (rule R [OF op_set_type, of warn_symbol TYPE_SYMBOL]) (use True False in \<open>simp_all add: d\<close>)
    qed
  next
    case url: False
    consider "contains kLetter c" | "\<not> contains kLetter c" "c = CHR ''0''" | "\<not> contains kLetter c" "c = CHR ''.''"
      | "\<not> contains kLetter c" "c \<noteq> CHR ''0''" "c \<noteq> CHR ''.''" "contains kDigit c"
      | "\<not> contains kLetter c" "\<not> contains kDigit c" "c \<noteq> CHR ''0''" "c = CHR 0x22"
      | "\<not> contains kLetter c" "\<not> contains kDigit c" "c \<noteq> CHR ''0''" "c = CHR 0x27"
      | "\<not> contains kLetter c" "\<not> contains kDigit c" "c \<notin> {CHR ''0'', CHR ''.'', CHR 0x22, CHR 0x27}" by blast
    then show ?thesis
    proof cases
      case 1
      show ?thesis by (rule R [OF z, of "\<lambda>u. u" TYPE_IDENTIFIER kAlphanumeric]) (use 1 url in \<open>simp_all add: d\<close>)
    next
      case 2
      show ?thesis by (rule R [OF n, of "\<lambda>u. u" True False]) (use 2 url in \<open>simp_all add: d\<close>)
    next
      case 3
      show ?thesis
        by (rule R [OF decimal_point_on, of "\<lambda>u. u" "Message ''Need space between identifier and decimal point.''"])
           (use 3 url in \<open>simp_all add: d\<close>)
    next
      case 4
      show ?thesis by (rule R [OF n, of "\<lambda>u. u" False False]) (use 4 url in \<open>simp_all add: d\<close>)
    next
      case 5
      show ?thesis by (rule R [OF q, of "\<lambda>u. u" "CHR 0x22"]) (use 5 url in \<open>simp_all add: d\<close>)
    next
      case 6
      show ?thesis by (rule R [OF q, of "\<lambda>u. u" "CHR 0x27"]) (use 6 url in \<open>simp_all add: d\<close>)
    next
      case 7
      show ?thesis by (rule R [OF op_set_type, of warn_symbol TYPE_SYMBOL]) (use 7 url in \<open>simp_all add: d\<close>)
    qed
  qed
qed

lemma ReadToken_reads:
  assumes "tk_sim s t" and "in_token s" and "\<not> tk_read_error s"
  shows "tk_sim (ReadToken s) (ReadToken t)" and "\<exists>x xs. tk_steps (x # xs) s (ReadToken s)"
proof -
  obtain F E where F: "op_on in_token F" and E: "E \<in> {\<lambda>u. u, warn_symbol}"
    and eq: "\<And>u. tk_current_char u = tk_current_char s \<Longrightarrow> tk_report_url_chars u = tk_report_url_chars s
       \<Longrightarrow> ReadToken u = F (NextChar (E u))"
    using ReadToken_first [of "tk_current_char s" "tk_report_url_chars s"] by blast
  note e = tk_sim_eqs(1-4,13) [OF assms(1)]
  have ok: "tk_ok s" using assms(1) by (simp add: tk_sim_def)
  have simE: "tk_sim (E s) (E t)"
    using E assms(1) sim_warn_symbol by auto
  have stE: "tk_steps [] s (E s)" using E warn_symbol_add [of s] tk_steps_add_error tk_steps_refl by (metis insertE singletonD)
  have ne: "\<not> tk_read_error (E s)" "tk_ok (E s)" "tk_current_char (E s) = tk_current_char s"
    using E assms(3) simE by (auto simp: warn_symbol_simps tk_sim_def)
  have n: "tk_sim (NextChar (E s)) (NextChar (E t))" by (rule sim_NextChar [OF simE ne(1)])
  have st: "tk_steps [tk_current_char s] s (NextChar (E s))"
    using tk_steps_trans [OF stE tk_steps_NextChar [OF ne(2,1)]] ne(3) by simp
  then have "in_token (NextChar (E s))" using assms(2) by (simp add: in_token_def tk_steps_def)
  from op_onD [OF F n this] obtain xs where "tk_sim (F (NextChar (E s))) (F (NextChar (E t)))"
    "tk_steps xs (NextChar (E s)) (F (NextChar (E s)))" by blast
  with tk_steps_trans [OF st] have "tk_sim (F (NextChar (E s))) (F (NextChar (E t)))"
    "tk_steps (tk_current_char s # xs) s (F (NextChar (E s)))" by fastforce+
  then show "tk_sim (ReadToken s) (ReadToken t)" and "\<exists>x xs. tk_steps (x # xs) s (ReadToken s)"
    using eq [of s] eq [of t] e by auto
qed

text \<open>Control characters.\<close>

lemma TryConsumeControl_on: "scan_on anywhere TryConsumeControl"
proof -
  have z: "scan_on anywhere (\<lambda>s. if \<not> tk_read_error s then TryConsume c s else (False, s))" for c
    unfolding scan_on_def
  proof (intro allI impI)
    fix s t assume st: "tk_sim s t"
    then have "tk_ok s" by (simp add: tk_sim_def)
    with st show "fst (if \<not> tk_read_error s then TryConsume c s else (False, s))
          = fst (if \<not> tk_read_error t then TryConsume c t else (False, t))
        \<and> tk_sim (snd (if \<not> tk_read_error s then TryConsume c s else (False, s)))
            (snd (if \<not> tk_read_error t then TryConsume c t else (False, t)))
        \<and> (\<exists>xs. tk_steps xs s (snd (if \<not> tk_read_error s then TryConsume c s else (False, s))))"
      using tk_sim_eqs(1,2) [OF st] sim_NextChar [OF st] tk_steps_NextChar [of s] by (auto simp: TryConsume_def)
  qed
  show ?thesis
    unfolding TryConsumeControl_def [abs_def] by (intro scan_bind TryConsumeOne_on scan_if z scan_pair op_id; simp)
qed

lemma SkipControls_sim:
  "tk_sim s t \<Longrightarrow> tk_sim (SkipControls s) (SkipControls t) \<and> (\<exists>xs. tk_steps xs s (SkipControls s))"
proof (induction s arbitrary: t rule: SkipControls.induct)
  case (1 s)
  obtain b s' where b: "TryConsumeControl s = (b, s')" by (cases "TryConsumeControl s")
  obtain t' where t: "TryConsumeControl t = (b, t')" "tk_sim s' t'"
    using scan_onD(1) [OF TryConsumeControl_on "1.prems" _ b] by (auto simp: anywhere_def)
  obtain xs where xs: "tk_steps xs s s'"
    using scan_onD(2) [OF TryConsumeControl_on "1.prems" _ b] by (auto simp: anywhere_def)
  have eq: "SkipControls s = (if b then SkipControls s' else s')" "SkipControls t = (if b then SkipControls t' else t')"
    by (subst SkipControls.simps, simp add: b t)+
  show ?case
  proof (cases b)
    case True
    with "1.IH" [OF b [symmetric] True t(2)] tk_steps_trans [OF xs] show ?thesis unfolding eq by auto
  next
    case False
    with t(2) xs show ?thesis unfolding eq by auto
  qed
qed

lemma SkipControls_on: "op_on anywhere SkipControls"
  by (rule op_onI) (use SkipControls_sim tk_sim_refl in blast)+


subsection \<open>Next\<close>

definition turn_reads :: "tokenizer \<Rightarrow> bool option \<Rightarrow> tokenizer \<Rightarrow> bool" where
  "turn_reads s r s' \<longleftrightarrow> idle s' \<and>
     (case r of
        Some True \<Rightarrow> \<exists>gap. token_at gap s s'
      | Some False \<Rightarrow> (\<exists>xs. tk_moves xs s s') \<and> tk_read_error s'
      | None \<Rightarrow> \<exists>xs. tk_moves xs s s')"

lemma token_at_behind:
  assumes "tk_moves xs s u" and "token_at gap u s'"
  shows "token_at (xs @ gap) s s'"
proof -
  have "tk_pos u = advance xs (tk_pos s)" using assms(1) by (simp add: tk_moves_def)
  with assms(2) tk_moves_trans [OF assms(1), of "gap @ tok_text (tk_current s')" s'] show ?thesis
    by (simp add: token_at_def Let_def)
qed

lemma turn_reads_behind:
  "tk_moves xs s u \<Longrightarrow> turn_reads u r s' \<Longrightarrow> turn_reads s r s'"
  using token_at_behind [of xs s u _ s'] tk_moves_trans [of xs s u _ s']
  by (auto simp: turn_reads_def split: option.splits bool.splits)

lemma recorded_token_at:
  assumes "idle s" and "tk_steps xs (StartToken s) u" and "tk_ok u" and "xs \<noteq> []"
  shows "token_at [] s (EndToken u)"
  using recorded_token [OF assms(1-3)] assms(4) by (simp add: token_at_def Let_def)

text \<open>The turn behind the whitespace.\<close>

definition Next_turn_rest :: "bool option scan" where
  "Next_turn_rest s =
     (case TryConsumeCommentStart s of (status, s) \<Rightarrow>
        (case status of
           LINE_COMMENT \<Rightarrow> (None, ConsumeLineComment False s)
         | BLOCK_COMMENT \<Rightarrow> (None, ConsumeBlockComment False s)
         | SLASH_NOT_COMMENT \<Rightarrow> (Some True, s)
         | NO_COMMENT \<Rightarrow>
             if tk_read_error s then (Some False, s)
             else if LookingAt kUnprintable s \<or> tk_current_char s = CHR 0x00
             then (None, SkipControls (NextChar (AddError ''Invalid control characters encountered in text.'' s)))
             else (Some True, EndToken (ReadToken (StartToken s)))))"

lemma Next_turn_rest:
  "Next_turn s = (case orelse TryConsumeWhitespace TryConsumeNewline (StartToken s) of (report_token, s) \<Rightarrow>
      if report_token then (Some True, EndToken s) else Next_turn_rest (EndToken s))"
  by (cases "orelse TryConsumeWhitespace TryConsumeNewline (StartToken s)") (simp add: Next_turn_def Next_turn_rest_def Let_def)

lemma Next_turn_rest_reads:
  assumes st: "tk_sim s t" and i: "idle s" and r: "Next_turn_rest s = (r, s')"
  shows "\<exists>t'. Next_turn_rest t = (r, t') \<and> tk_sim s' t' \<and> turn_reads s r s'"
proof -
  obtain c s1 where c: "TryConsumeCommentStart s = (c, s1)" by (cases "TryConsumeCommentStart s")
  obtain t1 where t: "TryConsumeCommentStart t = (c, t1)" "tk_sim s1 t1"
    using CommentStart_reads(1) [OF st i c] by blast
  note start = CommentStart_reads(2-4) [OF st i c]
  have comment: ?thesis if f: "op_on anywhere f" and nc: "c \<noteq> SLASH_NOT_COMMENT"
    and rf: "(r, s') = (None, f s1)" "Next_turn_rest t = (None, f t1)" for f
  proof -
    obtain xs where xs: "tk_moves xs s s1" using start(1) nc by blast
    then have "idle s1" by (simp add: tk_moves_def)
    from op_idle [OF f t(2) this] obtain ys where "tk_sim (f s1) (f t1)" "tk_moves ys s1 (f s1)" by blast
    with tk_moves_trans [OF xs] rf show ?thesis by (auto simp: turn_reads_def tk_moves_def)
  qed
  show ?thesis
  proof (cases c)
    case LINE_COMMENT
    then show ?thesis
      using r c t(1) by (intro comment [OF ConsumeLineComment_on]) (simp_all add: Next_turn_rest_def)
  next
    case BLOCK_COMMENT
    then show ?thesis
      using r c t(1) by (intro comment [OF ConsumeBlockComment_on]) (simp_all add: Next_turn_rest_def)
  next
    case SLASH_NOT_COMMENT
    with start(2) have "token_at [] s s1" by blast
    then have "turn_reads s (Some True) s1" by (auto simp: turn_reads_def token_at_def Let_def tk_moves_def)
    with SLASH_NOT_COMMENT r c t show ?thesis by (auto simp: Next_turn_rest_def)
  next
    case NO_COMMENT
    then have s1: "s1 = s" using start(3) by blast
    have id: "tk_moves [] s s" using i by (simp add: tk_moves_def)
    note e = tk_sim_eqs(1,2) [OF t(2)]
    let ?ctl = "LookingAt kUnprintable s \<or> tk_current_char s = CHR 0x00"
    let ?f = "\<lambda>s. SkipControls (NextChar (AddError ''Invalid control characters encountered in text.'' s))"
    consider "tk_read_error s" | "\<not> tk_read_error s" ?ctl | "\<not> tk_read_error s" "\<not> ?ctl" by blast
    then show ?thesis
    proof cases
      case 1
      then show ?thesis
        using NO_COMMENT r c t id e i by (auto simp: Next_turn_rest_def s1 turn_reads_def)
    next
      case 2
      let ?a = "AddError ''Invalid control characters encountered in text.''"
      have a: "tk_sim (?a s) (?a t1)" "tk_ok (?a s)" "tk_steps [] s (?a s)"
        using op_onD [OF op_AddError t(2), of anywhere] tk_steps_add_error
        by (auto simp: anywhere_def s1 tk_sim_def AddError_add_error)
      have n: "tk_sim (NextChar (?a s)) (NextChar (?a t1))" using sim_NextChar [OF a(1)] 2(1) by simp
      obtain xs where f: "tk_sim (?f s) (?f t1)" "tk_steps xs (NextChar (?a s)) (?f s)"
        using SkipControls_sim [OF n] by blast
      have "tk_steps ([tk_current_char s] @ xs) s (?f s)"
        using tk_steps_trans [OF tk_steps_trans [OF a(3) tk_steps_NextChar [OF a(2)]] f(2)] 2(1) by simp
      moreover have "tk_ok (?f s)" using f(1) by (simp add: tk_sim_def)
      ultimately have "\<exists>xs. tk_moves xs s (?f s)" using idle_steps [OF i] by blast
      with f(1) 2 NO_COMMENT r c t e show ?thesis
        by (auto simp: Next_turn_rest_def s1 turn_reads_def tk_moves_def LookingAt_def)
    next
      case 3
      have m: "tk_sim (StartToken s) (StartToken t1)" using StartToken_sim [OF t(2)] i s1 by simp
      obtain x xs where k: "tk_sim (ReadToken (StartToken s)) (ReadToken (StartToken t1))"
        "tk_steps (x # xs) (StartToken s) (ReadToken (StartToken s))"
        using ReadToken_reads [OF m] 3(1) by (auto simp: in_token_def)
      have "token_at [] s (EndToken (ReadToken (StartToken s)))"
        using k recorded_token_at [OF i k(2)] by (simp add: tk_sim_def)
      with EndToken_sim [OF k(1)] 3 NO_COMMENT r c t e show ?thesis
        by (auto simp: Next_turn_rest_def s1 turn_reads_def token_at_def Let_def tk_moves_def LookingAt_def)
    qed
  qed
qed

lemma Next_turn_reads:
  assumes st: "tk_sim s t" and i: "idle s" and r: "Next_turn s = (r, s')"
  shows "\<exists>t'. Next_turn t = (r, t') \<and> tk_sim s' t' \<and> turn_reads s r s'"
proof -
  let ?w = "orelse TryConsumeWhitespace TryConsumeNewline"
  obtain b s1 where b: "?w (StartToken s) = (b, s1)" by (cases "?w (StartToken s)")
  have on: "scan_on in_token ?w" by (intro orelse_on TryConsumeWhitespace_on TryConsumeNewline_on) simp
  have it: "in_token (StartToken s)" by (simp add: in_token_def)
  obtain t1 where t: "?w (StartToken t) = (b, t1)" "tk_sim s1 t1"
    using scan_onD(1) [OF on StartToken_sim [OF st i] it b] by blast
  obtain xs where xs: "tk_steps xs (StartToken s) s1"
    using scan_onD(2) [OF on StartToken_sim [OF st i] it b] by blast
  have ok: "tk_ok s1" using t(2) by (simp add: tk_sim_def)
  note rec = recorded_token [OF i xs ok]
  have e: "tk_sim (EndToken s1) (EndToken t1)" by (rule EndToken_sim [OF t(2)])
  have ei: "idle (EndToken s1)" using rec(1) by (simp add: tk_moves_def)
  show ?thesis
  proof (cases b)
    case True
    have "tk_rest s1 \<noteq> tk_rest (StartToken s)"
      using whitespace_progress [of "StartToken s" s1] StartToken_view(1) [OF i] b True by simp
    with xs have "xs \<noteq> []" by (auto simp: tk_steps_def)
    from recorded_token_at [OF i xs ok this] e ei True r b t(1) show ?thesis
      by (auto simp: Next_turn_rest turn_reads_def)
  next
    case False
    with r b have "Next_turn_rest (EndToken s1) = (r, s')" by (simp add: Next_turn_rest)
    from Next_turn_rest_reads [OF e ei this] turn_reads_behind [OF rec(1)] False t(1) show ?thesis
      by (auto simp: Next_turn_rest)
  qed
qed

lemma Next_loop_reads:
  "tk_sim s t \<Longrightarrow> idle s \<Longrightarrow> Next_loop s = (b, s') \<Longrightarrow>
     \<exists>t'. Next_loop t = (b, t') \<and> tk_sim s' t' \<and> turn_reads s (Some b) s'"
proof (induction s arbitrary: t rule: Next_loop.induct)
  case (1 s)
  note st = "1.prems"(1) and i = "1.prems"(2)
  note e = tk_sim_eqs(2) [OF st]
  show ?case
  proof (cases "tk_read_error s")
    case True
    then have "Next_loop s = (False, s)" "Next_loop t = (False, t)" using e by (subst Next_loop.simps, simp)+
    moreover have "turn_reads s (Some False) s"
      using True i by (auto simp: turn_reads_def tk_moves_def intro: exI [of _ "[]"])
    ultimately show ?thesis using st "1.prems"(3) by auto
  next
    case False
    obtain r s1 where r: "Next_turn s = (r, s1)" by (cases "Next_turn s")
    obtain t1 where t: "Next_turn t = (r, t1)" "tk_sim s1 t1" "turn_reads s r s1"
      using Next_turn_reads [OF st i r] by blast
    have eq: "Next_loop s = (case r of None \<Rightarrow> Next_loop s1 | Some b \<Rightarrow> (b, s1))"
      "Next_loop t = (case r of None \<Rightarrow> Next_loop t1 | Some b \<Rightarrow> (b, t1))"
      using False e by (subst Next_loop.simps, simp add: r t(1) split: option.split)+
    show ?thesis
    proof (cases r)
      case None
      then obtain xs where xs: "tk_moves xs s s1" "idle s1" using t(3) by (auto simp: turn_reads_def)
      have "\<exists>t'. Next_loop t1 = (b, t') \<and> tk_sim s' t' \<and> turn_reads s1 (Some b) s'"
        using "1.IH" [OF False r [symmetric] None t(2) xs(2)] "1.prems"(3) None eq(1) by simp
      then show ?thesis using turn_reads_behind [OF xs(1)] None eq(2) by auto
    next
      case (Some d)
      then show ?thesis using eq t "1.prems"(3) by auto
    qed
  qed
qed

text \<open>A call of \<open>Next\<close>: the previous token is the old one; at the end the token is empty.\<close>

definition next_reads :: "tokenizer \<Rightarrow> bool \<Rightarrow> tokenizer \<Rightarrow> bool" where
  "next_reads s b s' \<longleftrightarrow> idle s' \<and> tk_previous s' = tk_current s \<and> tk_options s' = tk_options s \<and>
     (if b
      then \<exists>gap. tk_rest s = gap @ tok_text (tk_current s') @ tk_rest s'
             \<and> (tok_line (tk_current s'), tok_column (tk_current s')) = advance gap (tk_pos s)
             \<and> tk_pos s' = advance (gap @ tok_text (tk_current s')) (tk_pos s)
             \<and> tok_end_column (tk_current s') = tk_column s' \<and> tok_text (tk_current s') \<noteq> []
      else tk_rest s' = [] \<and> tk_pos s' = advance (tk_rest s) (tk_pos s)
             \<and> tk_current s' = \<lparr>tok_type = TYPE_END, tok_text = [], tok_line = tk_line s', tok_column = tk_column s',
                                tok_end_column = tk_column s'\<rparr>)"

lemma Next_reads:
  assumes st: "tk_sim s t" and i: "idle s" and r: "Next s = (b, s')"
  shows "\<exists>t'. Next t = (b, t') \<and> tk_sim s' t' \<and> next_reads s b s'"
proof -
  define p where "p u = u\<lparr>tk_previous := tk_current s\<rparr>" for u :: tokenizer
  have k: "tk_current t = tk_current s" using idle_sim_current [OF st i] by simp
  have it: "idle t" using idle_sim [OF st i] .
  have sim: "tk_sim (p s) (p t)" and pi: "idle (p s)"
    using st set_current_view(3,4) [OF i] set_current_view(3,4) [OF it] by (auto simp: p_def tk_sim_def idle_def)
  obtain c s1 where c: "Next_loop (p s) = (c, s1)" by (cases "Next_loop (p s)")
  obtain t1 where t: "Next_loop (p t) = (c, t1)" "tk_sim s1 t1" "turn_reads (p s) (Some c) s1"
    using Next_loop_reads [OF sim pi c] by blast
  have ps: "tk_rest (p s) = tk_rest s" "tk_pos (p s) = tk_pos s" "tk_options (p s) = tk_options s" "tk_previous (p s) = tk_current s"
    by (simp_all add: p_def tk_rest_def tk_pos_def tk_options_def)
  have eq: "Next s = (if c then (True, s1) else (False, EndOfInput s1))" "Next t = (if c then (True, t1) else (False, EndOfInput t1))"
    using c t(1) k by (simp_all add: Next_def p_def)
  show ?thesis
  proof (cases c)
    case True
    then obtain gap where g: "token_at gap (p s) s1" "idle s1" using t(3) by (auto simp: turn_reads_def)
    then have "next_reads s True s1"
      unfolding next_reads_def token_at_def Let_def tk_moves_def ps by auto
    with True eq t(2) r show ?thesis by auto
  next
    case False
    then obtain xs where xs: "tk_moves xs (p s) s1" "tk_read_error s1" "idle s1" using t(3) by (auto simp: turn_reads_def)
    have e: "tk_rest s1 = []" using xs(2,3) tk_ok_rest by (auto simp: idle_def)
    have f: "idle (EndOfInput s1)" "tk_rest (EndOfInput s1) = tk_rest s1" "tk_pos (EndOfInput s1) = tk_pos s1"
      "tk_options (EndOfInput s1) = tk_options s1" "tk_previous (EndOfInput s1) = tk_previous s1"
      using set_current_view(1) [OF xs(3)] by (simp_all add: EndOfInput_def tk_rest_def tk_pos_def tk_options_def)
    have "next_reads s False (EndOfInput s1)"
      using xs(1) e f ps by (simp add: next_reads_def tk_moves_def) (simp add: EndOfInput_def)
    moreover have "tk_sim (EndOfInput s1) (EndOfInput t1)"
      using t(2) set_current_view(1,2) [OF xs(3)] set_current_view(1,2) [OF idle_sim [OF t(2) xs(3)]] tk_sim_eqs(3,4) [OF t(2)]
      by (simp add: tk_sim_def EndOfInput_def idle_def)
    ultimately show ?thesis using False eq r by auto
  qed
qed

end
