(* ===== verification/Tokenizer_Laws.thy ===== *)
theory Tokenizer_Laws
  imports Tokenizer_Next
begin

section \<open>io/tokenizer: the token sequence\<close>

text \<open>
  The properties of \<open>Tokenizer\<close> as a client sees it: tokens do not depend on the buffers the
  input arrives in, every token is exactly the text at its position, and the calls of \<open>Next\<close>
  reach the end of the input.
\<close>

text \<open>A tokenizer with its options set, as a parser does before the first call of \<open>Next\<close>.\<close>

definition configure :: "bool \<Rightarrow> comment_style \<Rightarrow> bool \<Rightarrow> bool \<Rightarrow> bool \<Rightarrow> bool \<Rightarrow> bool \<Rightarrow> tokenizer \<Rightarrow> tokenizer" where
  "configure allow_f style space multiline ws nl url s =
     set_report_url_chars url (set_report_newlines nl (set_report_whitespace ws
       (s\<lparr>tk_allow_f_after_float := allow_f, tk_comment_style := style,
          tk_require_space_after_number := space, tk_allow_multiline_strings := multiline\<rparr>)))"

lemma configure_simps [simp]:
  "tk_rest (configure f st sp m w n u s) = tk_rest s" "tk_pos (configure f st sp m w n u s) = tk_pos s"
  "tk_current (configure f st sp m w n u s) = tk_current s" "tk_errors (configure f st sp m w n u s) = tk_errors s"
  by (simp_all add: configure_def set_report_url_chars_def set_report_newlines_def set_report_whitespace_def
      tk_rest_def tk_pos_def)

lemma configure_sim:
  assumes "tk_sim s t" and "idle s"
  shows "tk_sim (configure f st sp m w n u s) (configure f st sp m w n u t)" and "idle (configure f st sp m w n u s)"
proof -
  have v: "tk_ok (configure f st sp m w n u v) \<and> tk_record (configure f st sp m w n u v) = None
      \<and> tk_view (configure f st sp m w n u v) = configure f st sp m w n u (tk_view v)" if "idle v" for v
    using that
    by (simp add: idle_def configure_def set_report_url_chars_def set_report_newlines_def set_report_whitespace_def
        tk_ok_def tk_view_def tk_rest_def)
  show "tk_sim (configure f st sp m w n u s) (configure f st sp m w n u t)" and "idle (configure f st sp m w n u s)"
    using v [OF assms(2)] v [OF idle_sim [OF assms]] assms(1) by (simp_all add: tk_sim_def idle_def)
qed

lemma Tokenizer_idle:
  "idle (Tokenizer input)" "tk_rest (Tokenizer input) = concat input" "tk_pos (Tokenizer input) = (0, 0)"
  "tk_current (Tokenizer input) = start_token" "tk_errors (Tokenizer input) = []"
proof -
  obtain b bs where n: "next_buffer input = (b, bs)" by (cases "next_buffer input")
  note c = next_buffer_concat [OF n]
  show "idle (Tokenizer input)" "tk_rest (Tokenizer input) = concat input" "tk_pos (Tokenizer input) = (0, 0)"
    "tk_current (Tokenizer input) = start_token" "tk_errors (Tokenizer input) = []"
    using c by (auto simp: Tokenizer_def Refresh_def n Let_def idle_def tk_ok_def tk_rest_def tk_pos_def hd_conv_nth)
qed

lemma Tokenizer_view: "tk_view (Tokenizer input) = tk_view (Tokenizer [concat input])"
proof -
  obtain b bs where n: "next_buffer input = (b, bs)" by (cases "next_buffer input")
  note c = next_buffer_concat [OF n]
  show ?thesis
  proof (cases "b = []")
    case True
    with c have "concat input = []" "bs = []" by auto
    with n True show ?thesis by (simp add: Tokenizer_def Refresh_def Let_def tk_view_def tk_rest_def)
  next
    case False
    have e: "concat input = b @ concat bs" using c by simp
    have "next_buffer [b @ concat bs] = (b @ concat bs, [])" using False by simp
    with n False show ?thesis
      unfolding e by (simp add: Tokenizer_def Refresh_def Let_def tk_view_def tk_rest_def hd_append)
  qed
qed

lemma Tokenizer_sim: "tk_sim (Tokenizer input) (Tokenizer [concat input])"
  using Tokenizer_idle(1) [of input] Tokenizer_idle(1) [of "[concat input]"] Tokenizer_view
  by (simp add: tk_sim_def idle_def)

lemma Next_tokens_sim:
  "tk_sim s t \<Longrightarrow> idle s \<Longrightarrow> Next_tokens n s = (ts, s') \<Longrightarrow> \<exists>t'. Next_tokens n t = (ts, t') \<and> tk_sim s' t' \<and> idle s'"
proof (induction n arbitrary: s t ts s')
  case 0
  then show ?case by auto
next
  case (Suc n)
  obtain b u where b: "Next s = (b, u)" by (cases "Next s")
  obtain v where v: "Next t = (b, v)" "tk_sim u v" "next_reads s b u" using Next_reads [OF Suc.prems(1,2) b] by blast
  have i: "idle u" using v(3) by (simp add: next_reads_def)
  show ?case
  proof (cases b)
    case True
    obtain us s'' where us: "Next_tokens n u = (us, s'')" by (cases "Next_tokens n u")
    obtain t' where "Next_tokens n v = (us, t')" "tk_sim s'' t'" "idle s''" using Suc.IH [OF v(2) i us] by blast
    with us b v True Suc.prems(3) idle_sim_current [OF v(2) i] show ?thesis by auto
  next
    case False
    with b v Suc.prems(3) i show ?thesis by auto
  qed
qed

text \<open>Where the tokens are: each one behind a gap, with the line and the columns counted from there.\<close>

fun located :: "string \<Rightarrow> int \<times> int \<Rightarrow> token list \<Rightarrow> bool" where
  "located txt p [] \<longleftrightarrow> True"
| "located txt p (t # ts) \<longleftrightarrow>
     (\<exists>gap rest. txt = gap @ tok_text t @ rest \<and> tok_text t \<noteq> []
        \<and> (tok_line t, tok_column t) = advance gap p
        \<and> tok_end_column t = snd (advance (gap @ tok_text t) p)
        \<and> located rest (advance (gap @ tok_text t) p) ts)"

lemma Next_tokens_located:
  "idle s \<Longrightarrow> Next_tokens n s = (ts, s') \<Longrightarrow> length (tk_rest s) < n \<Longrightarrow>
     located (tk_rest s) (tk_pos s) ts \<and> tk_rest s' = [] \<and> tk_pos s' = advance (tk_rest s) (tk_pos s)
     \<and> tok_type (tk_current s') = TYPE_END \<and> length ts \<le> length (tk_rest s)"
proof (induction n arbitrary: s ts)
  case 0
  then show ?case by simp
next
  case (Suc n)
  have ok: "tk_sim s s" using Suc.prems(1) by (simp add: idle_def tk_sim_refl)
  obtain b u where b: "Next s = (b, u)" by (cases "Next s")
  have r: "next_reads s b u" using Next_reads [OF ok Suc.prems(1) b] by blast
  show ?case
  proof (cases b)
    case True
    obtain us where us: "Next_tokens n u = (us, s')" "ts = tk_current u # us"
      using Suc.prems(2) b True by (auto split: prod.splits)
    obtain gap where g: "tk_rest s = gap @ tok_text (tk_current u) @ tk_rest u"
      "(tok_line (tk_current u), tok_column (tk_current u)) = advance gap (tk_pos s)"
      "tk_pos u = advance (gap @ tok_text (tk_current u)) (tk_pos s)"
      "tok_end_column (tk_current u) = tk_column u" "tok_text (tk_current u) \<noteq> []" and i: "idle u"
      using r True by (auto simp: next_reads_def)
    have "0 < length (tok_text (tk_current u))" using g(5) by simp
    moreover have "length (tk_rest s) = length gap + length (tok_text (tk_current u)) + length (tk_rest u)" by (simp add: g(1))
    ultimately have "length (tk_rest u) < n" using Suc.prems(3) by linarith
    from Suc.IH [OF i us(1) this] have ih: "located (tk_rest u) (tk_pos u) us" "tk_rest s' = []"
      "tk_pos s' = advance (tk_rest u) (tk_pos u)" "tok_type (tk_current s') = TYPE_END" "length us \<le> length (tk_rest u)"
      by auto
    have col: "tok_end_column (tk_current u) = snd (advance (gap @ tok_text (tk_current u)) (tk_pos s))"
      using g(3,4) by (metis tk_pos_def snd_conv)
    have "located (tk_rest s) (tk_pos s) ts"
      unfolding us(2) located.simps
      using g(1,2,5) ih(1) col g(3) by metis
    moreover have "length ts \<le> length (tk_rest s)" using ih(5) g(1,5) us(2) by (cases "tok_text (tk_current u)") simp_all
    ultimately show ?thesis using ih(2-4) g(1,3) by simp
  next
    case False
    with Suc.prems(2) b have "ts = []" "s' = u" by auto
    with r False show ?thesis by (simp add: next_reads_def)
  qed
qed

text \<open>C12. The tokens, the errors and the final position do not depend on how the input stream
  cuts the text into buffers, whatever the options are: they are those of the whole text in one
  buffer.\<close>

theorem tokens_chunk_independent:
  "\<exists>ts s t. Next_tokens n (configure f st sp m w nl u (Tokenizer input)) = (ts, s)
     \<and> Next_tokens n (configure f st sp m w nl u (Tokenizer [concat input])) = (ts, t)
     \<and> tk_errors s = tk_errors t \<and> tk_line s = tk_line t \<and> tk_column s = tk_column t
     \<and> tk_current s = tk_current t \<and> tk_previous s = tk_previous t"
proof -
  let ?s = "configure f st sp m w nl u (Tokenizer input)"
  let ?t = "configure f st sp m w nl u (Tokenizer [concat input])"
  note c = configure_sim [OF Tokenizer_sim Tokenizer_idle(1), of f st sp m w nl u input]
  obtain ts s where s: "Next_tokens n ?s = (ts, s)" by (cases "Next_tokens n ?s")
  from Next_tokens_sim [OF c s] obtain t where t: "Next_tokens n ?t = (ts, t)" "tk_sim s t" "idle s" by blast
  have "tk_errors s = tk_errors t" "tk_line s = tk_line t" "tk_column s = tk_column t"
    "tk_current s = tk_current t" "tk_previous s = tk_previous t"
    using tk_sim_eqs [OF t(2)] idle_sim_current [OF t(2,3)] by simp_all
  with s t(1) show ?thesis by blast
qed





end
