(* ===== verification/Tokenizer_Comments.thy ===== *)
theory Tokenizer_Comments
  imports Tokenizer_Scan
begin

section \<open>io/tokenizer: comments between tokens\<close>

text \<open>
  The class \<open>CommentCollector\<close> and \<open>Tokenizer::NextWithComments\<close>. The three out-parameters are
  fields of the collector, \<open>None\<close> for a null pointer. The comment buffer of the collector is
  where \<open>ConsumeLineComment\<close> and \<open>ConsumeBlockComment\<close> append, so it is moved to \<open>tk_content\<close> for
  the call and back.
\<close>

record comment_collector =
  cc_prev_trailing :: "string option"
  cc_detached :: "string list option"
  cc_next_leading :: "string option"
  cc_buffer :: string
  cc_num_comments :: int
  cc_has_trailing :: bool
  cc_has_comment :: bool
  cc_is_line_comment :: bool
  cc_can_attach_to_prev :: bool

text \<open>The constructor clears the outputs that are wanted.\<close>

definition CommentCollector :: "bool \<Rightarrow> bool \<Rightarrow> bool \<Rightarrow> comment_collector" where
  "CommentCollector want_prev want_detached want_next =
     \<lparr>cc_prev_trailing = (if want_prev then Some [] else None),
      cc_detached = (if want_detached then Some [] else None),
      cc_next_leading = (if want_next then Some [] else None),
      cc_buffer = [], cc_num_comments = 0, cc_has_trailing = False, cc_has_comment = False,
      cc_is_line_comment = False, cc_can_attach_to_prev = True\<rparr>"

definition ClearBuffer :: "comment_collector \<Rightarrow> comment_collector" where
  "ClearBuffer c = c\<lparr>cc_buffer := [], cc_has_comment := False\<rparr>"

definition Flush :: "comment_collector \<Rightarrow> comment_collector" where
  "Flush c =
     (if cc_has_comment c
      then let c = (if cc_can_attach_to_prev c
                    then c\<lparr>cc_prev_trailing := map_option (\<lambda>t. t @ cc_buffer c) (cc_prev_trailing c),
                           cc_has_trailing := True, cc_can_attach_to_prev := False\<rparr>
                    else c\<lparr>cc_detached := map_option (\<lambda>ds. ds @ [cc_buffer c]) (cc_detached c)\<rparr>);
               c = ClearBuffer c
           in c\<lparr>cc_num_comments := cc_num_comments c + 1\<rparr>
      else c)"

definition GetBufferForLineComment :: "comment_collector \<Rightarrow> comment_collector" where
  "GetBufferForLineComment c =
     (let c = (if cc_has_comment c \<and> \<not> cc_is_line_comment c then Flush c else c)
      in c\<lparr>cc_has_comment := True, cc_is_line_comment := True\<rparr>)"

definition GetBufferForBlockComment :: "comment_collector \<Rightarrow> comment_collector" where
  "GetBufferForBlockComment c =
     (let c = (if cc_has_comment c then Flush c else c)
      in c\<lparr>cc_has_comment := True, cc_is_line_comment := False\<rparr>)"

definition DetachFromPrev :: "comment_collector \<Rightarrow> comment_collector" where
  "DetachFromPrev c = c\<lparr>cc_can_attach_to_prev := False\<rparr>"

definition MaybeDetachComment :: "comment_collector \<Rightarrow> comment_collector" where
  "MaybeDetachComment c =
     (let count = cc_num_comments c + (if cc_has_comment c then 1 else 0)
      in if count = 1
         then let c = (case cc_prev_trailing c of
                         Some trail \<Rightarrow>
                           if cc_has_trailing c
                           then c\<lparr>cc_detached := map_option (\<lambda>ds. trail # ds) (cc_detached c),
                                  cc_prev_trailing := Some []\<rparr>
                           else c
                       | None \<Rightarrow> c)
              in Flush c
         else c)"

text \<open>The destructor: what is still in the buffer is a leading comment.\<close>

definition CommentCollector_destroy :: "comment_collector \<Rightarrow> comment_collector" where
  "CommentCollector_destroy c =
     (if cc_next_leading c \<noteq> None \<and> cc_has_comment c
      then c\<lparr>cc_next_leading := Some (cc_buffer c), cc_buffer := the (cc_next_leading c)\<rparr> else c)"

definition ReadLineComment :: "comment_collector \<Rightarrow> tokenizer \<Rightarrow> comment_collector \<times> tokenizer" where
  "ReadLineComment c s =
     (let c = GetBufferForLineComment c;
          s = ConsumeLineComment True (s\<lparr>tk_content := cc_buffer c\<rparr>)
      in (c\<lparr>cc_buffer := tk_content s\<rparr>, s))"

definition ReadBlockComment :: "comment_collector \<Rightarrow> tokenizer \<Rightarrow> comment_collector \<times> tokenizer" where
  "ReadBlockComment c s =
     (let c = GetBufferForBlockComment c;
          s = ConsumeBlockComment True (s\<lparr>tk_content := cc_buffer c\<rparr>)
      in (c\<lparr>cc_buffer := tk_content s\<rparr>, s))"

text \<open>The comments on the line of the previous token, or the byte order mark at the start.\<close>

definition SameLine :: "comment_collector \<Rightarrow> tokenizer \<Rightarrow> bool option \<times> int \<times> int \<times> comment_collector \<times> tokenizer" where
  "SameLine c s =
     (let prev_line = tk_line s
      in if tok_type (tk_current s) = TYPE_START
         then case TryConsume (CHR 0xEF) s of (bom, s) \<Rightarrow>
              case (if bom then andthen (TryConsume (CHR 0xBB)) (TryConsume (CHR 0xBF)) s else (True, s)) of
                (utf8, s) \<Rightarrow>
                  if utf8 then (None, -1, -1, DetachFromPrev c, s)
                  else (Some False, prev_line, -1, c,
                        AddError ''Proto file starts with 0xEF but not UTF-8 BOM. Only UTF-8 is accepted for proto file.'' s)
         else case TryConsumeCommentStart (ConsumeZeroOrMore kWhitespaceNoNewline s) of (status, s) \<Rightarrow>
           (case status of
              LINE_COMMENT \<Rightarrow>
                (let trailing_comment_end_line = tk_line s; (c, s) = ReadLineComment c s
                 in (None, prev_line, trailing_comment_end_line, Flush c, s))
            | BLOCK_COMMENT \<Rightarrow>
                (let (c, s) = ReadBlockComment c s; trailing_comment_end_line = tk_line s
                 in (None, prev_line, trailing_comment_end_line, Flush c,
                     ConsumeZeroOrMore kWhitespaceNoNewline s))
            | SLASH_NOT_COMMENT \<Rightarrow> (Some True, prev_line, -1, c, s)
            | NO_COMMENT \<Rightarrow>
                (case TryConsume CHR 0x0A s of (newline, s) \<Rightarrow>
                   if \<not> newline
                   then (case Next s of (result, s) \<Rightarrow> (Some result, prev_line, -1, c, s))
                   else (None, prev_line, -1, c, s))))"

text \<open>One turn of the loop over the lines behind the previous token.\<close>

definition Lines_turn :: "int \<Rightarrow> int \<Rightarrow> comment_collector \<times> tokenizer \<Rightarrow> bool option \<times> comment_collector \<times> tokenizer" where
  "Lines_turn prev_line trailing_comment_end_line st =
     (case st of (c, s) \<Rightarrow>
      case TryConsumeCommentStart (ConsumeZeroOrMore kWhitespaceNoNewline s) of (status, s) \<Rightarrow>
        (case status of
           LINE_COMMENT \<Rightarrow> (None, ReadLineComment c s)
         | BLOCK_COMMENT \<Rightarrow>
             (case ReadBlockComment c s of (c, s) \<Rightarrow>
                (None, c, snd (TryConsume CHR 0x0A (ConsumeZeroOrMore kWhitespaceNoNewline s))))
         | SLASH_NOT_COMMENT \<Rightarrow> (Some True, c, s)
         | NO_COMMENT \<Rightarrow>
             (case TryConsume CHR 0x0A s of (newline, s) \<Rightarrow>
                if newline then (None, DetachFromPrev (Flush c), s)
                else case Next s of (result, s) \<Rightarrow>
                  let c = (if \<not> result \<or> tok_text (tk_current s) = ''}'' \<or> tok_text (tk_current s) = '']''
                               \<or> tok_text (tk_current s) = '')''
                           then Flush c else c);
                      c = (if result \<and> (prev_line = tk_line s \<or> trailing_comment_end_line = tk_line s)
                           then MaybeDetachComment c else c)
                  in (Some result, c, s))))"

lemma ReadComment_left:
  "tk_left (snd (ReadLineComment c s)) \<le> tk_left s" "tk_left (snd (ReadBlockComment c s)) \<le> tk_left s"
  using comments_left(1) [of True "s\<lparr>tk_content := cc_buffer (GetBufferForLineComment c)\<rparr>"]
    comments_left(2) [of True "s\<lparr>tk_content := cc_buffer (GetBufferForBlockComment c)\<rparr>"]
  by (simp_all add: ReadLineComment_def ReadBlockComment_def Let_def)

lemma TryConsume_newline_left: "tk_left (snd (TryConsume CHR 0x0A s)) \<le> tk_left s"
proof -
  have "no_more (TryConsume CHR 0x0A)" by (rule no_more_intros(2)) simp
  then show ?thesis by (simp add: no_more_def)
qed

lemma Lines_turn_left:
  assumes "Lines_turn p t (c, s) = (None, c', s')"
  shows "tk_left s' < tk_left s"
proof -
  obtain st s1 where 1: "TryConsumeCommentStart (ConsumeZeroOrMore kWhitespaceNoNewline s) = (st, s1)"
    by (cases "TryConsumeCommentStart (ConsumeZeroOrMore kWhitespaceNoNewline s)")
  have l: "tk_left s1 \<le> tk_left s" "st \<noteq> NO_COMMENT \<longrightarrow> tk_left s1 < tk_left s"
    using TryConsumeCommentStart_left [OF 1] ConsumeZeroOrMore_left [of kWhitespaceNoNewline s] by auto
  show ?thesis
  proof (cases st)
    case LINE_COMMENT
    with assms have "(c', s') = ReadLineComment c s1" by (simp add: Lines_turn_def 1)
    with ReadComment_left(1) [of c s1] l LINE_COMMENT show ?thesis by (metis comment_status.distinct(5) le_less_trans snd_conv)
  next
    case BLOCK_COMMENT
    obtain d s2 where 2: "ReadBlockComment c s1 = (d, s2)" by (cases "ReadBlockComment c s1")
    with assms BLOCK_COMMENT have "s' = snd (TryConsume CHR 0x0A (ConsumeZeroOrMore kWhitespaceNoNewline s2))"
      by (simp add: Lines_turn_def 1)
    moreover have "tk_left s2 \<le> tk_left s1" using ReadComment_left(2) [of c s1] 2 by simp
    ultimately show ?thesis
      using l BLOCK_COMMENT TryConsume_newline_left [of "ConsumeZeroOrMore kWhitespaceNoNewline s2"]
        ConsumeZeroOrMore_left [of kWhitespaceNoNewline s2] by simp
  next
    case SLASH_NOT_COMMENT
    with assms show ?thesis by (simp add: Lines_turn_def 1)
  next
    case NO_COMMENT
    obtain b s2 where 2: "TryConsume CHR 0x0A s1 = (b, s2)" by (cases "TryConsume CHR 0x0A s1")
    have "b \<and> s' = s2"
      using assms NO_COMMENT by (auto simp: Lines_turn_def 1 2 Let_def split: if_splits prod.splits)
    with TryConsume_left [OF 2] l show ?thesis by auto
  qed
qed

function Lines_loop :: "int \<Rightarrow> int \<Rightarrow> comment_collector \<times> tokenizer \<Rightarrow> bool \<times> comment_collector \<times> tokenizer" where
  "Lines_loop p t st =
     (case Lines_turn p t st of
        (None, st) \<Rightarrow> Lines_loop p t st
      | (Some b, st) \<Rightarrow> (b, st))"
  by pat_completeness auto
termination
proof (relation "measure (\<lambda>(_, _, _, s). tk_left s)", goal_cases)
  case (2 p t st r st')
  obtain c s c' s' where [simp]: "st = (c, s)" "st' = (c', s')" by (cases st; cases st')
  from 2 have "Lines_turn p t (c, s) = (None, c', s')" by simp
  from Lines_turn_left [OF this] show ?case by simp
qed simp

declare Lines_loop.simps [simp del]

definition NextWithComments ::
  "bool \<Rightarrow> bool \<Rightarrow> bool \<Rightarrow> tokenizer \<Rightarrow> bool \<times> comment_collector \<times> tokenizer" where
  "NextWithComments want_prev want_detached want_next s =
     (let (r, prev_line, trailing_comment_end_line, c, s) =
            SameLine (CommentCollector want_prev want_detached want_next) s;
          (b, c, s) = (case r of
                         Some b \<Rightarrow> (b, c, s)
                       | None \<Rightarrow> Lines_loop prev_line trailing_comment_end_line (c, s))
      in (b, CommentCollector_destroy c, s))"

end
