(* ===== verification/Tokenizer_Text.thy ===== *)
theory Tokenizer_Text
  imports Tokenizer_State Runtime "HOL-Library.Word"
begin

section \<open>io/tokenizer: from token text to values\<close>

text \<open>
  The static helpers of \<open>Tokenizer\<close> that turn the text of a token into a number, a string or a
  truth value. A \<open>const char*\<close> is the list of the characters up to the terminating zero, so that
  \<open>ptr[k]\<close> is \<open>peek ptr k\<close>. Code points are 32-bit words, integers 64-bit words, as in the
  code. \<open>NoLocaleStrtod\<close> rests on \<open>absl::from_chars\<close> and is a parameter.
\<close>

unbundle bit_operations_syntax

definition c_str :: "string \<Rightarrow> string" where
  "c_str text = takeWhile (\<lambda>c. c \<noteq> CHR 0x00) text"

definition peek :: "string \<Rightarrow> nat \<Rightarrow> char" where
  "peek ptr k = (if k < length ptr then ptr ! k else CHR 0x00)"

lemma peek_simps [simp]:
  "peek [] k = CHR 0x00" "peek (c # cs) 0 = c" "peek (c # cs) (Suc k) = peek cs k" "peek (c # cs) 1 = peek cs 0"
  by (simp_all add: peek_def)

subsection \<open>Digits and integers\<close>

text \<open>The table \<open>kAsciiToInt\<close>, range by range; 36 stands for no digit.\<close>

definition DigitValue :: "char \<Rightarrow> nat" where
  "DigitValue digit =
     (let d = of_char digit
      in if 48 \<le> d \<and> d \<le> 57 then d - 48
         else if 65 \<le> d \<and> d \<le> 90 then d - 55
         else if 97 \<le> d \<and> d \<le> 122 then d - 87
         else 36)"

definition TranslateEscape :: "char \<Rightarrow> char" where
  "TranslateEscape c =
     (if c = CHR ''a'' then CHR 0x07
      else if c = CHR ''b'' then CHR 0x08
      else if c = CHR ''f'' then CHR 0x0C
      else if c = CHR ''n'' then CHR 0x0A
      else if c = CHR ''r'' then CHR 0x0D
      else if c = CHR ''t'' then CHR 0x09
      else if c = CHR ''v'' then CHR 0x0B
      else if c = CHR 0x5C then CHR 0x5C
      else if c = CHR ''?'' then CHR ''?''
      else if c = CHR 0x27 then CHR 0x27
      else if c = CHR 0x22 then CHR 0x22
      else CHR ''?'')"

text \<open>The two loops of \<open>ParseInteger\<close>: leading zeros with the first digit, then the others.\<close>

fun ParseInteger_lead :: "nat \<Rightarrow> string \<Rightarrow> (64 word \<times> string) option" where
  "ParseInteger_lead base [] = Some (0, [])"
| "ParseInteger_lead base (c # ptr) =
     (let digit = DigitValue c
      in if digit \<ge> base then None
         else if digit \<noteq> 0 then Some (of_nat digit, ptr)
         else ParseInteger_lead base ptr)"

fun ParseInteger_rest :: "nat \<Rightarrow> 64 word \<Rightarrow> 64 word \<Rightarrow> string \<Rightarrow> 64 word option" where
  "ParseInteger_rest base overflow_if_mul_base result [] = Some result"
| "ParseInteger_rest base overflow_if_mul_base result (c # ptr) =
     (let digit = DigitValue c
      in if digit \<ge> base then None
         else if result \<ge> overflow_if_mul_base then None
         else let result = result * of_nat base + of_nat digit
              in if result < of_nat base then None
                 else ParseInteger_rest base overflow_if_mul_base result ptr)"

definition ParseInteger_base :: "string \<Rightarrow> nat \<times> string" where
  "ParseInteger_base ptr =
     (if peek ptr 0 = CHR ''0''
      then if peek ptr 1 = CHR ''x'' \<or> peek ptr 1 = CHR ''X'' then (16, drop 2 ptr) else (8, ptr)
      else (10, ptr))"

definition ParseInteger :: "string \<Rightarrow> 64 word \<Rightarrow> 64 word option" where
  "ParseInteger text max_value =
     (let (base, ptr) = ParseInteger_base (c_str text);
          overflow_if_mul_base = - 1 div of_nat base + 1
      in case ParseInteger_lead base ptr of
           None \<Rightarrow> None
         | Some (result, ptr) \<Rightarrow>
             (case ParseInteger_rest base overflow_if_mul_base result ptr of
                None \<Rightarrow> None
              | Some result \<Rightarrow> if result > max_value then None else Some result))"

subsection \<open>Floating point numbers\<close>

text \<open>\<open>strtod ptr\<close> is the value and the number of characters read (\<open>end - start\<close>).\<close>

definition TryParseFloat :: "(string \<Rightarrow> 'd \<times> nat) \<Rightarrow> string \<Rightarrow> bool \<times> 'd" where
  "TryParseFloat strtod text =
     (let start = c_str text;
          (result, e) = strtod start;
          e = (if peek start e = CHR ''e'' \<or> peek start e = CHR ''E''
               then if peek start (e + 1) = CHR ''-'' \<or> peek start (e + 1) = CHR ''+'' then e + 2 else e + 1
               else e);
          e = (if peek start e = CHR ''f'' \<or> peek start e = CHR ''F'' then e + 1 else e)
      in (e = length text \<and> peek start 0 \<noteq> CHR ''-'', result))"

subsection \<open>Unicode\<close>

text \<open>The last \<open>len\<close> bytes of \<open>ghtonl(tmp)\<close> in memory, the most significant first.\<close>

definition network_bytes :: "nat \<Rightarrow> 32 word \<Rightarrow> string" where
  "network_bytes len tmp = map (\<lambda>i. char_of (unat (drop_bit (8 * i) tmp))) (rev [0..<len])"

definition AppendUTF8 :: "absl \<Rightarrow> 32 word \<Rightarrow> string \<Rightarrow> string" where
  "AppendUTF8 A code_point output =
     (if code_point \<le> 0x7f then output @ network_bytes 1 code_point
      else if code_point \<le> 0x07ff
      then output @ network_bytes 2
             (0x0000c080 OR push_bit 2 (code_point AND 0x07c0) OR (code_point AND 0x003f))
      else if code_point \<le> 0xffff
      then output @ network_bytes 3
             (0x00e08080 OR push_bit 4 (code_point AND 0xf000) OR push_bit 2 (code_point AND 0x0fc0)
                OR (code_point AND 0x003f))
      else if code_point \<le> 0x10ffff
      then output @ network_bytes 4
             (0xf0808080 OR push_bit 6 (code_point AND 0x1c0000) OR push_bit 4 (code_point AND 0x03f000)
                OR push_bit 2 (code_point AND 0x000fc0) OR (code_point AND 0x003f))
      else output @ [CHR 0x5C, CHR ''U''] @ FormatHex A 8 (unat code_point))"

fun ReadHexDigits_loop :: "nat \<Rightarrow> 32 word \<Rightarrow> string \<Rightarrow> 32 word option" where
  "ReadHexDigits_loop 0 result ptr = Some result"
| "ReadHexDigits_loop (Suc len) result ptr =
     (case ptr of
        [] \<Rightarrow> None
      | c # ptr \<Rightarrow> ReadHexDigits_loop len (push_bit 4 result + of_nat (DigitValue c)) ptr)"

definition ReadHexDigits :: "string \<Rightarrow> nat \<Rightarrow> 32 word option" where
  "ReadHexDigits ptr len = (if len = 0 then None else ReadHexDigits_loop len 0 ptr)"

definition kMinHeadSurrogate :: "32 word" where "kMinHeadSurrogate = 0xd800"
definition kMaxHeadSurrogate :: "32 word" where "kMaxHeadSurrogate = 0xdc00"
definition kMinTrailSurrogate :: "32 word" where "kMinTrailSurrogate = 0xdc00"
definition kMaxTrailSurrogate :: "32 word" where "kMaxTrailSurrogate = 0xe000"

definition IsHeadSurrogate :: "32 word \<Rightarrow> bool" where
  "IsHeadSurrogate code_point \<longleftrightarrow> code_point \<ge> kMinHeadSurrogate \<and> code_point < kMaxHeadSurrogate"

definition IsTrailSurrogate :: "32 word \<Rightarrow> bool" where
  "IsTrailSurrogate code_point \<longleftrightarrow> code_point \<ge> kMinTrailSurrogate \<and> code_point < kMaxTrailSurrogate"

definition AssembleUTF16 :: "32 word \<Rightarrow> 32 word \<Rightarrow> 32 word" where
  "AssembleUTF16 head_surrogate trail_surrogate =
     0x10000 + (push_bit 10 (head_surrogate - kMinHeadSurrogate) OR (trail_surrogate - kMinTrailSurrogate))"

definition UnicodeLength :: "char \<Rightarrow> nat" where
  "UnicodeLength key = (if key = CHR ''u'' then 4 else if key = CHR ''U'' then 8 else 0)"

text \<open>\<open>None\<close> when nothing was parsed (the code then returns \<open>ptr\<close>), else the code point and the rest.\<close>

definition FetchUnicodePoint :: "string \<Rightarrow> (32 word \<times> string) option" where
  "FetchUnicodePoint ptr =
     (let len = UnicodeLength (peek ptr 0); p = drop 1 ptr
      in case ReadHexDigits p len of
           None \<Rightarrow> None
         | Some code_point \<Rightarrow>
             let p = drop len p
             in if IsHeadSurrogate code_point \<and> peek p 0 = CHR 0x5C \<and> peek p 1 = CHR ''u''
                then (case ReadHexDigits (drop 2 p) 4 of
                        Some trail_surrogate \<Rightarrow>
                          if IsTrailSurrogate trail_surrogate
                          then Some (AssembleUTF16 code_point trail_surrogate, drop 6 p)
                          else Some (code_point, p)
                      | None \<Rightarrow> Some (code_point, p))
                else Some (code_point, p))"

subsection \<open>String literals\<close>

text \<open>
  One escape sequence behind the backslash: the new output and the rest of the text. The
  casts of an \<open>int\<close> to \<open>char\<close> keep the last eight bits, as \<open>char_of\<close> does.
\<close>

definition ParseOctalEscape :: "string \<Rightarrow> char \<times> string" where
  "ParseOctalEscape ptr =
     (let code = DigitValue (peek ptr 0); ptr = drop 1 ptr;
          (code, ptr) = (if contains kOctalDigit (peek ptr 0)
                         then (code * 8 + DigitValue (peek ptr 0), drop 1 ptr) else (code, ptr));
          (code, ptr) = (if contains kOctalDigit (peek ptr 0)
                         then (code * 8 + DigitValue (peek ptr 0), drop 1 ptr) else (code, ptr))
      in (char_of code, ptr))"

definition ParseHexEscape :: "string \<Rightarrow> char \<times> string" where
  "ParseHexEscape ptr =
     (let code = 0; ptr = drop 1 ptr;
          (code, ptr) = (if contains kHexDigit (peek ptr 0) then (DigitValue (peek ptr 0), drop 1 ptr) else (code, ptr));
          (code, ptr) = (if contains kHexDigit (peek ptr 0)
                         then (code * 16 + DigitValue (peek ptr 0), drop 1 ptr) else (code, ptr))
      in (char_of code, ptr))"

definition ParseEscape :: "absl \<Rightarrow> string \<Rightarrow> string \<Rightarrow> string \<times> string" where
  "ParseEscape A output ptr =
     (if contains kOctalDigit (peek ptr 0)
      then case ParseOctalEscape ptr of (c, ptr) \<Rightarrow> (output @ [c], ptr)
      else if peek ptr 0 = CHR ''x'' \<or> peek ptr 0 = CHR ''X''
      then case ParseHexEscape ptr of (c, ptr) \<Rightarrow> (output @ [c], ptr)
      else if peek ptr 0 = CHR ''u'' \<or> peek ptr 0 = CHR ''U''
      then (case FetchUnicodePoint ptr of
              None \<Rightarrow> (output @ [peek ptr 0], drop 1 ptr)
            | Some (unicode, ptr) \<Rightarrow> (AppendUTF8 A unicode output, ptr))
      else (output @ [TranslateEscape (peek ptr 0)], drop 1 ptr))"

lemma FetchUnicodePoint_rest: "FetchUnicodePoint ptr = Some (u, r) \<Longrightarrow> length r \<le> length ptr - 1"
  by (auto simp: FetchUnicodePoint_def Let_def split: option.splits if_splits)

lemma ParseEscape_rest: "ParseEscape A output ptr = (out, r) \<Longrightarrow> length r \<le> length ptr - 1"
  using FetchUnicodePoint_rest [of ptr]
  by (auto simp: ParseEscape_def ParseOctalEscape_def ParseHexEscape_def Let_def split: option.splits if_splits prod.splits)

lemma ParseEscape_shrinks: "ParseEscape A output ptr = (out, r) \<Longrightarrow> length r \<le> length ptr"
  by (drule ParseEscape_rest) simp

function ParseString_loop :: "absl \<Rightarrow> char \<Rightarrow> string \<Rightarrow> string \<Rightarrow> string" where
  "ParseString_loop A quot output [] = output"
| "ParseString_loop A quot output (c # ptr) =
     (if c = CHR 0x5C \<and> ptr \<noteq> []
      then (case ParseEscape A output ptr of (output, ptr) \<Rightarrow> ParseString_loop A quot output ptr)
      else if c = quot \<and> ptr = [] then ParseString_loop A quot output ptr
      else ParseString_loop A quot (output @ [c]) ptr)"
  by pat_completeness auto
termination
  by (relation "measure (\<lambda>(_, _, _, ptr). length ptr)")
     (auto simp: less_Suc_eq_le dest: ParseEscape_shrinks split: prod.split)

definition ParseStringAppend :: "absl \<Rightarrow> string \<Rightarrow> string \<Rightarrow> string" where
  "ParseStringAppend A text output =
     (if text = [] then output else ParseString_loop A (hd text) output (c_str (tl text)))"

definition ParseString :: "absl \<Rightarrow> string \<Rightarrow> string" where
  "ParseString A text = ParseStringAppend A text []"

subsection \<open>Identifiers\<close>

fun AllInClass :: "char_class \<Rightarrow> string \<Rightarrow> bool" where
  "AllInClass character_class [] \<longleftrightarrow> True"
| "AllInClass character_class (c # s) \<longleftrightarrow>
     (if \<not> contains character_class c then False else AllInClass character_class s)"

definition IsIdentifier :: "string \<Rightarrow> bool" where
  "IsIdentifier text \<longleftrightarrow>
     (if text = [] then False
      else if \<not> contains kLetter (hd text) then False
      else if \<not> AllInClass kAlphanumeric (tl text) then False
      else True)"

lemma AllInClass_set: "AllInClass cls s \<longleftrightarrow> (\<forall>c \<in> set s. contains cls c)"
  by (induction s) auto

end
