(* ===== verification/Tokenizer_Text_Laws.thy ===== *)
theory Tokenizer_Text_Laws
  imports Tokenizer_Text
begin

section \<open>io/tokenizer: values of token texts\<close>

text \<open>
  \<open>ParseInteger\<close> computes the number a numeral denotes, or fails exactly when it has a wrong
  digit or exceeds the bound; \<open>AppendUTF8\<close> is the UTF-8 encoding; \<open>ParseString\<close> undoes
  escaping.
\<close>

unbundle bit_operations_syntax

subsection \<open>Integers\<close>

definition digits_value :: "nat \<Rightarrow> nat \<Rightarrow> string \<Rightarrow> nat" where
  "digits_value base a ds = foldl (\<lambda>v c. v * base + DigitValue c) a ds"

lemma digits_value_simps [simp]:
  "digits_value base a [] = a" "digits_value base a (c # ds) = digits_value base (a * base + DigitValue c) ds"
  by (simp_all add: digits_value_def)

lemma digits_value_mono: "0 < base \<Longrightarrow> a \<le> digits_value base a ds"
proof (induction ds arbitrary: a)
  case (Cons c ds)
  then have "a * base + DigitValue c \<le> digits_value base (a * base + DigitValue c) ds" by blast
  moreover have "a \<le> a * base" using Cons.prems by simp
  ultimately have "a \<le> digits_value base (a * base + DigitValue c) ds" by linarith
  then show ?case by simp
qed simp

text \<open>One step of the second loop, on the value of the result.\<close>

lemma ParseInteger_step:
  fixes r :: "64 word"
  assumes "base \<in> {8, 10, 16}" and "0 < unat r" and "d < base"
  shows "(- 1 div of_nat base + 1 \<le> r) \<longleftrightarrow> 2 ^ 64 \<le> unat r * base"
    and "\<not> (- 1 div of_nat base + 1 \<le> r) \<Longrightarrow>
         (if r * of_nat base + of_nat d < of_nat base then 2 ^ 64 \<le> unat r * base + d
          else unat (r * of_nat base + of_nat d) = unat r * base + d)"
proof -
  have b: "unat (of_nat base :: 64 word) = base" "8 \<le> base" "base \<le> 16"
    using assms(1) by (auto simp: unat_of_nat)
  have q: "unat (- 1 div of_nat base + 1 :: 64 word) = (2 ^ 64 - 1) div base + 1"
    using assms(1) by auto
  show t: "(- 1 div of_nat base + 1 \<le> r) \<longleftrightarrow> 2 ^ 64 \<le> unat r * base"
  proof -
    have "(- 1 div of_nat base + 1 \<le> r) \<longleftrightarrow> (2 ^ 64 - 1) div base + 1 \<le> unat r"
      unfolding word_le_nat_alt q ..
    also have "\<dots> \<longleftrightarrow> \<not> unat r * base \<le> 2 ^ 64 - 1"
      using b(2) by (subst less_eq_div_iff_mult_less_eq [symmetric]) auto
    finally show ?thesis by auto
  qed
  assume "\<not> (- 1 div of_nat base + 1 \<le> r)"
  then have lt: "unat r * base < 2 ^ 64" using t by simp
  have ge: "base \<le> unat r * base" using assms(2) by simp
  have v: "unat (r * of_nat base + of_nat d) = (unat r * base + d) mod 2 ^ 64"
  proof -
    have "r * of_nat base + of_nat d = of_nat (unat r * base + d)" by simp
    then show ?thesis by (simp only: unat_of_nat) simp
  qed
  show "if r * of_nat base + of_nat d < of_nat base then 2 ^ 64 \<le> unat r * base + d
          else unat (r * of_nat base + of_nat d) = unat r * base + d"
  proof (cases "unat r * base + d < 2 ^ 64")
    case True
    then have "unat (r * of_nat base + of_nat d) = unat r * base + d" using v by simp
    moreover have "\<not> unat r * base + d < base" using ge by linarith
    ultimately show ?thesis using b(1) by (simp add: word_less_nat_alt)
  next
    case False
    then have "(unat r * base + d) mod 2 ^ 64 = unat r * base + d - 2 ^ 64"
      using lt assms(3) b(3) by (simp add: mod_if)
    then have "unat (r * of_nat base + of_nat d) < base" using v lt assms(3) False by simp
    then show ?thesis using b(1) False by (simp add: word_less_nat_alt)
  qed
qed

lemma ParseInteger_rest_value:
  assumes "base \<in> {8, 10, 16}"
  shows "0 < unat r \<Longrightarrow> ParseInteger_rest base (- 1 div of_nat base + 1) r ds =
     (if list_all (\<lambda>c. DigitValue c < base) ds \<and> digits_value base (unat r) ds < 2 ^ 64
      then Some (of_nat (digits_value base (unat r) ds)) else None)"
proof (induction ds arbitrary: r)
  case Nil
  then show ?case using unsigned_less [of r] by simp
next
  case (Cons c ds)
  let ?d = "DigitValue c" and ?r = "r * of_nat base + of_nat (DigitValue c)"
  note mono = digits_value_mono [of base "unat r * base + ?d" ds]
  have b: "0 < base" using assms by auto
  show ?case
  proof (cases "?d < base")
    case False
    then show ?thesis by simp
  next
    case True
    note st = ParseInteger_step [OF assms Cons.prems True]
    show ?thesis
    proof (cases "- 1 div of_nat base + 1 \<le> r")
      case big: True
      then have "2 ^ 64 \<le> digits_value base (unat r * base + ?d) ds" using st(1) mono b by linarith
      then show ?thesis using big True by simp
    next
      case False
      note st2 = st(2) [OF False]
      show ?thesis
      proof (cases "?r < of_nat base")
        case wrap: True
        then have "2 ^ 64 \<le> digits_value base (unat r * base + ?d) ds" using st2 mono b by simp
        then show ?thesis using False True wrap by (simp add: Let_def)
      next
        case fits: False
        then have u: "unat ?r = unat r * base + ?d" using st2 by simp
        have "0 < unat ?r" unfolding u using Cons.prems b by simp
        from Cons.IH [OF this] show ?thesis using False True fits by (simp add: Let_def u)
      qed
    qed
  qed
qed

lemma ParseInteger_lead_value:
  assumes "base \<in> {8, 10, 16}"
  shows "(case ParseInteger_lead base ds of None \<Rightarrow> None
          | Some (r, rest) \<Rightarrow> ParseInteger_rest base (- 1 div of_nat base + 1) r rest) =
     (if list_all (\<lambda>c. DigitValue c < base) ds \<and> digits_value base 0 ds < 2 ^ 64
      then Some (of_nat (digits_value base 0 ds)) else None)"
proof (induction ds)
  case Nil
  then show ?case by simp
next
  case (Cons c ds)
  have lt: "DigitValue c < 2 ^ 64" if "DigitValue c < base" using that assms by auto
  show ?case
  proof (cases "DigitValue c < base \<and> DigitValue c \<noteq> 0")
    case True
    then have "0 < unat (of_nat (DigitValue c) :: 64 word)" "unat (of_nat (DigitValue c) :: 64 word) = DigitValue c"
      using lt by (simp_all add: unat_of_nat)
    with ParseInteger_rest_value [OF assms, of "of_nat (DigitValue c)" ds] True show ?thesis by simp
  next
    case False
    with Cons show ?thesis by auto
  qed
qed

lemma ParseInteger_value:
  "ParseInteger text max_value =
     (case ParseInteger_base (c_str text) of (base, ds) \<Rightarrow>
        if list_all (\<lambda>c. DigitValue c < base) ds \<and> digits_value base 0 ds \<le> unat max_value
        then Some (of_nat (digits_value base 0 ds)) else None)"
proof -
  obtain base ds where b: "ParseInteger_base (c_str text) = (base, ds)" by (cases "ParseInteger_base (c_str text)")
  have base: "base \<in> {8, 10, 16}" using b by (auto simp: ParseInteger_base_def split: if_splits)
  have max: "unat max_value < 2 ^ 64" by (rule less_le_trans [OF unsigned_less]) simp
  have "ParseInteger text max_value =
      (case (case ParseInteger_lead base ds of None \<Rightarrow> None
          | Some (r, rest) \<Rightarrow> ParseInteger_rest base (- 1 div of_nat base + 1) r rest) of
         None \<Rightarrow> None | Some r \<Rightarrow> if r > max_value then None else Some r)"
    by (auto simp: ParseInteger_def b split: option.split)
  also have "\<dots> = (if list_all (\<lambda>c. DigitValue c < base) ds \<and> digits_value base 0 ds \<le> unat max_value
        then Some (of_nat (digits_value base 0 ds)) else None)"
    unfolding ParseInteger_lead_value [OF base]
    using max by (auto simp: word_less_nat_alt unat_of_nat)
  finally show ?thesis by (simp add: b)
qed

text \<open>C17. \<open>ParseInteger\<close> of any text: with the base the prefix selects, it returns the number the
  digits denote when every character is a digit of the base and the number is at most the
  bound, and fails otherwise; no overflow of the 64-bit arithmetic goes undetected.\<close>

theorem ParseInteger_exact:
  "ParseInteger text max_value =
     (case ParseInteger_base (c_str text) of (base, ds) \<Rightarrow>
        if list_all (\<lambda>c. DigitValue c < base) ds \<and> digits_value base 0 ds \<le> unat max_value
        then Some (of_nat (digits_value base 0 ds)) else None)"
  by (rule ParseInteger_value)

subsection \<open>Unicode\<close>

text \<open>The encoding by its definition: leading byte and continuation bytes of six bits.\<close>

definition utf8 :: "nat \<Rightarrow> string" where
  "utf8 n =
     (if n < 0x80 then [char_of n]
      else if n < 0x800 then [char_of (0xC0 + n div 64), char_of (0x80 + n mod 64)]
      else if n < 0x10000
      then [char_of (0xE0 + n div 4096), char_of (0x80 + n div 64 mod 64), char_of (0x80 + n mod 64)]
      else [char_of (0xF0 + n div 262144), char_of (0x80 + n div 4096 mod 64),
            char_of (0x80 + n div 64 mod 64), char_of (0x80 + n mod 64)])"


lemma char_of_bits:
  fixes k :: nat
  shows "char_of k = Char (bit k 0) (bit k 1) (bit k 2) (bit k 3) (bit k 4) (bit k 5) (bit k 6) (bit k 7)"
  by (simp add: char_of_def bit_0)

lemma bit_one_0 [simp]: "bit (Suc 0) 0"
  by (simp add: bit_0)

lemma nat_or:
  fixes x :: nat
  shows "0x80 + x mod 64 = 0x80 OR take_bit 6 x" and "x < 32 \<Longrightarrow> 0xC0 + x = 0xC0 OR take_bit 5 x"
    and "x < 16 \<Longrightarrow> 0xE0 + x = 0xE0 OR take_bit 4 x" and "x < 8 \<Longrightarrow> 0xF0 + x = 0xF0 OR take_bit 3 x"
proof -
  have t: "take_bit 6 x = x mod 64" "x < 32 \<Longrightarrow> take_bit 5 x = x" "x < 16 \<Longrightarrow> take_bit 4 x = x" "x < 8 \<Longrightarrow> take_bit 3 x = x"
    by (simp_all add: take_bit_eq_mod)
  have d: "(0x80 :: nat) AND take_bit 6 x = 0" "(0xC0 :: nat) AND take_bit 5 x = 0"
    "(0xE0 :: nat) AND take_bit 4 x = 0" "(0xF0 :: nat) AND take_bit 3 x = 0"
  proof -
    have "0x80 = push_bit 7 (1 :: nat)" "0xC0 = push_bit 6 (3 :: nat)" "0xE0 = push_bit 5 (7 :: nat)" "0xF0 = push_bit 4 (15 :: nat)"
      by simp_all
    then show "(0x80 :: nat) AND take_bit 6 x = 0" "(0xC0 :: nat) AND take_bit 5 x = 0"
      "(0xE0 :: nat) AND take_bit 4 x = 0" "(0xF0 :: nat) AND take_bit 3 x = 0"
      by (auto intro!: bit_eqI simp only: bit_and_iff bit_push_bit_iff bit_take_bit_iff bit_0_eq)
  qed
  show "0x80 + x mod 64 = 0x80 OR take_bit 6 x" "x < 32 \<Longrightarrow> 0xC0 + x = 0xC0 OR take_bit 5 x"
    "x < 16 \<Longrightarrow> 0xE0 + x = 0xE0 OR take_bit 4 x" "x < 8 \<Longrightarrow> 0xF0 + x = 0xF0 OR take_bit 3 x"
    using d t by (metis disjunctive_add_eq_or)+
qed


lemma network_bytes_simps:
  "network_bytes (Suc 0) w = [char_of (unat w)]"
  "network_bytes 2 w = [char_of (unat (drop_bit 8 w)), char_of (unat w)]"
  "network_bytes 3 w = [char_of (unat (drop_bit 16 w)), char_of (unat (drop_bit 8 w)), char_of (unat w)]"
  "network_bytes 4 w = [char_of (unat (drop_bit 24 w)), char_of (unat (drop_bit 16 w)), char_of (unat (drop_bit 8 w)), char_of (unat w)]"
  by (simp_all add: network_bytes_def upt_rec)

lemma bit_unat: "bit (unat (w :: 32 word)) k \<longleftrightarrow> bit w k"
  by (simp add: bit_unsigned_iff)

lemma div_64: "(n :: nat) div 64 = drop_bit 6 n" "n div 4096 = drop_bit 12 n" "n div 262144 = drop_bit 18 n"
  by (simp_all add: drop_bit_eq_div)

lemma AppendUTF8_small:
  "cp \<le> 0x7f \<Longrightarrow> AppendUTF8 A cp out = out @ utf8 (unat cp)"
  "0x7f < cp \<Longrightarrow> cp \<le> 0x07ff \<Longrightarrow> AppendUTF8 A cp out = out @ utf8 (unat cp)"
proof -
  show "cp \<le> 0x7f \<Longrightarrow> AppendUTF8 A cp out = out @ utf8 (unat cp)"
    by (simp add: AppendUTF8_def network_bytes_simps utf8_def word_le_nat_alt)
  assume c: "0x7f < cp" "cp \<le> 0x07ff"
  then have n: "0x80 \<le> unat cp" "unat cp < 0x800" "unat cp div 64 < 32" by (auto simp: word_le_nat_alt word_less_nat_alt)
  have u: "utf8 (unat cp) = [char_of (0xC0 OR take_bit 5 (drop_bit 6 (unat cp))), char_of (0x80 OR take_bit 6 (unat cp))]"
    using n nat_or(1) [of "unat cp"] nat_or(2) [of "unat cp div 64"] by (simp add: utf8_def div_64)
  have "\<not> cp \<le> 0x7f" using c(1) by simp
  then have "AppendUTF8 A cp out = out @ network_bytes 2
             (0x0000c080 OR push_bit 2 (cp AND 0x07c0) OR (cp AND 0x003f))"
    using c by (simp add: AppendUTF8_def)
  then show "AppendUTF8 A cp out = out @ utf8 (unat cp)"
    unfolding u network_bytes_simps
    by (simp add: char_of_bits bit_or_iff bit_and_iff bit_drop_bit_eq bit_push_bit_iff bit_take_bit_iff bit_unat)
qed


lemma AppendUTF8_large:
  "0x07ff < cp \<Longrightarrow> cp \<le> 0xffff \<Longrightarrow> AppendUTF8 A cp out = out @ utf8 (unat cp)"
  "0xffff < cp \<Longrightarrow> cp \<le> 0x10ffff \<Longrightarrow> AppendUTF8 A cp out = out @ utf8 (unat cp)"
proof -
  note bits = char_of_bits bit_or_iff bit_and_iff bit_drop_bit_eq bit_push_bit_iff bit_take_bit_iff bit_unat
  let ?n = "unat cp"
  {
    assume c: "0x07ff < cp" "cp \<le> 0xffff"
    then have n: "0x800 \<le> ?n" "?n < 0x10000" "?n div 4096 < 16" by (auto simp: word_le_nat_alt word_less_nat_alt)
    have u: "utf8 ?n = [char_of (0xE0 OR take_bit 4 (drop_bit 12 ?n)), char_of (0x80 OR take_bit 6 (drop_bit 6 ?n)),
        char_of (0x80 OR take_bit 6 ?n)]"
      using n nat_or(1) [of ?n] nat_or(1) [of "?n div 64"] nat_or(3) [of "?n div 4096"] by (simp add: utf8_def div_64)
    have le: "\<not> cp \<le> 0x7f" "\<not> cp \<le> 0x07ff" using c(1) by (auto simp: not_le elim: order_less_trans [rotated])
    then have "AppendUTF8 A cp out = out @ network_bytes 3
        (0x00e08080 OR push_bit 4 (cp AND 0xf000) OR push_bit 2 (cp AND 0x0fc0) OR (cp AND 0x003f))"
      using c(2) by (simp add: AppendUTF8_def)
    then show "AppendUTF8 A cp out = out @ utf8 ?n"
      unfolding u network_bytes_simps by (simp add: bits)
  }
  assume c: "0xffff < cp" "cp \<le> 0x10ffff"
  then have n: "0x10000 \<le> ?n" "?n div 262144 < 8" by (auto simp: word_le_nat_alt word_less_nat_alt)
  have u: "utf8 ?n = [char_of (0xF0 OR take_bit 3 (drop_bit 18 ?n)), char_of (0x80 OR take_bit 6 (drop_bit 12 ?n)),
      char_of (0x80 OR take_bit 6 (drop_bit 6 ?n)), char_of (0x80 OR take_bit 6 ?n)]"
    using n nat_or(1) [of ?n] nat_or(1) [of "?n div 64"] nat_or(1) [of "?n div 4096"] nat_or(4) [of "?n div 262144"]
    by (simp add: utf8_def div_64)
  have le: "\<not> cp \<le> 0x7f" "\<not> cp \<le> 0x07ff" "\<not> cp \<le> 0xffff" using c(1) by (auto simp: not_le elim: order_less_trans [rotated])
  then have "AppendUTF8 A cp out = out @ network_bytes 4
      (0xf0808080 OR push_bit 6 (cp AND 0x1c0000) OR push_bit 4 (cp AND 0x03f000)
         OR push_bit 2 (cp AND 0x000fc0) OR (cp AND 0x003f))"
    using c(2) by (simp add: AppendUTF8_def)
  then show "AppendUTF8 A cp out = out @ utf8 ?n"
    unfolding u network_bytes_simps by (simp add: bits)
qed

text \<open>\<open>AppendUTF8\<close> appends the UTF-8 encoding of every code point up to 10ffff: the bytes that
  the definition of the encoding asks for, whatever the code point.\<close>

theorem AppendUTF8_utf8:
  assumes "code_point \<le> 0x10ffff"
  shows "AppendUTF8 A code_point out = out @ utf8 (unat code_point)"
  using assms AppendUTF8_small [of code_point A out] AppendUTF8_large [of code_point A out] by (meson not_le)

lemma AppendUTF8_utf8_witness:
  "AppendUTF8 absl_ref 0x20ac ''x'' = [CHR ''x'', CHR 0xE2, CHR 0x82, CHR 0xAC]"
proof -
  have "AppendUTF8 absl_ref 0x20ac ''x'' = ''x'' @ utf8 (unat (0x20ac :: 32 word))"
    by (rule AppendUTF8_utf8) simp
  then show ?thesis by (simp add: utf8_def char_of_def)
qed

subsection \<open>String literals\<close>

text \<open>A string as a literal of octal escapes.\<close>

definition octal_digit :: "nat \<Rightarrow> char" where
  "octal_digit d = char_of (48 + d mod 8)"

definition octal_escape :: "char \<Rightarrow> string" where
  "octal_escape c = [CHR 0x5C, octal_digit (of_char c div 64), octal_digit (of_char c div 8), octal_digit (of_char c)]"

definition string_literal :: "char \<Rightarrow> string \<Rightarrow> string" where
  "string_literal quot bytes = quot # concat (map octal_escape bytes) @ [quot]"

lemma octal_digit_simps:
  "of_char (octal_digit d) = 48 + d mod 8" "DigitValue (octal_digit d) = d mod 8"
  "contains kOctalDigit (octal_digit d)" "octal_digit d \<noteq> CHR 0x00" "octal_digit d \<noteq> CHR 0x5C"
proof -
  show v: "of_char (octal_digit d) = 48 + d mod 8" by (simp add: octal_digit_def)
  have "d mod 8 < 8" by simp
  then have l: "d mod 8 \<le> 7" by linarith
  show "DigitValue (octal_digit d) = d mod 8" using l by (simp add: DigitValue_def v)
  show "contains kOctalDigit (octal_digit d)" using l by (simp add: less_eq_char_def v)
  show "octal_digit d \<noteq> CHR 0x00" "octal_digit d \<noteq> CHR 0x5C"
    using v l by (auto dest: arg_cong [of _ _ "of_char :: char \<Rightarrow> nat"])
qed

declare contains.simps [simp del]

lemma ParseEscape_octal:
  "ParseEscape A out (octal_digit (of_char c div 64) # octal_digit (of_char c div 8) # octal_digit (of_char c) # r)
     = (out @ [c], r)"
proof -
  let ?n = "of_char c :: nat"
  have e: "64 * (?n div 64) + ?n div 8 mod 8 * 8 + ?n mod 8 = ?n" and s: "?n div 64 mod 8 = ?n div 64"
  proof -
    have "?n < 256" using of_char_mod_256 [of c, where 'a = nat] by (metis mod_less_divisor zero_less_numeral)
    then have "?n div 64 < 4" by (simp add: div_less_iff_less_mult)
    then show "?n div 64 mod 8 = ?n div 64" by simp
    have "?n div 8 = ?n div 64 * 8 + ?n div 8 mod 8"
      using div_mult_mod_eq [of "?n div 8" 8] by (simp add: div_mult2_eq [symmetric])
    then show "64 * (?n div 64) + ?n div 8 mod 8 * 8 + ?n mod 8 = ?n" using div_mult_mod_eq [of ?n 8] by linarith
  qed
  then show ?thesis
    by (simp add: ParseEscape_def ParseOctalEscape_def octal_digit_simps Let_def s e)
qed

lemma ParseString_loop_octal:
  assumes "quot \<noteq> CHR 0x5C"
  shows "ParseString_loop A quot out (concat (map octal_escape bytes) @ [quot]) = out @ bytes"
proof (induction bytes arbitrary: out)
  case Nil
  then show ?case using assms by simp
next
  case (Cons c bytes)
  then show ?case by (simp add: octal_escape_def ParseEscape_octal)
qed

text \<open>\<open>ParseString\<close> undoes the escaping.\<close>

lemma ParseString_octal:
  assumes "quot \<in> {CHR 0x22, CHR 0x27}"
  shows "ParseString A (string_literal quot bytes) = bytes"
proof -
  have "c_str (concat (map octal_escape bytes) @ [quot]) = concat (map octal_escape bytes) @ [quot]"
    unfolding c_str_def takeWhile_eq_all_conv using assms by (auto simp: octal_escape_def octal_digit_simps)
  moreover have "quot \<noteq> CHR 0x5C" using assms by auto
  ultimately show ?thesis
    using ParseString_loop_octal [of quot A "[]" bytes]
    by (simp only: ParseString_def ParseStringAppend_def string_literal_def list.sel list.distinct if_False append_Nil not_False_eq_True)
qed

end
