(* ===== verification/Tokenizer_Values.thy ===== *)
theory Tokenizer_Values
  imports Tokenizer_Laws Tokenizer_Text_Laws
begin

section \<open>io/tokenizer: printing, reading and parsing back\<close>

text \<open>
  The scanner and the value helpers together: the text of an identifier, of a decimal number or
  of a string literal is read as one token of the right type, without errors, and the helper
  for the type returns the value that was printed.
\<close>

subsection \<open>The scanner on a flat text\<close>

lemma NextChar_errors [simp]: "tk_errors (NextChar s) = tk_errors s" "tk_report_url_chars (NextChar s) = tk_report_url_chars s"
  by (auto simp: NextChar_def Let_def Refresh_def split: prod.split option.split)

text \<open>Facts about the head of the remaining text.\<close>

lemma head_char:
  assumes "tk_ok s" and "tk_rest s = c # r"
  shows "tk_current_char s = c" and "\<not> tk_read_error s" and "tk_ok (NextChar s)" and "tk_rest (NextChar s) = r"
proof -
  show e: "\<not> tk_read_error s" using tk_ok_rest [OF assms(1)] assms(2) by simp
  show "tk_current_char s = c" using tk_ok_current [OF assms(1) e] assms(2) by simp
  show "tk_ok (NextChar s)" using NextChar_view [OF assms(1) e] by blast
  show "tk_rest (NextChar s) = r" using next_simps(1) [OF assms(1) e] assms(2) by simp
qed

lemma head_none:
  assumes "tk_ok s" and "tk_rest s = []"
  shows "tk_current_char s = CHR 0x00"
proof -
  have "tk_read_error s" using tk_ok_rest [OF assms(1)] assms(2) by blast
  with assms(1) show ?thesis by (simp add: tk_ok_def)
qed

lemma ConsumeZeroOrMore_flat:
  "tk_ok s \<Longrightarrow> tk_ok (ConsumeZeroOrMore cls s) \<and> tk_rest (ConsumeZeroOrMore cls s) = dropWhile (contains cls) (tk_rest s)
     \<and> tk_errors (ConsumeZeroOrMore cls s) = tk_errors s"
proof (induction cls s rule: ConsumeZeroOrMore.induct)
  case (1 cls s)
  show ?case
  proof (cases "contains cls (tk_current_char s)")
    case True
    then obtain c r where r: "tk_rest s = c # r" using head_none [OF "1.prems"] by (cases "tk_rest s") auto
    have eq: "ConsumeZeroOrMore cls s = ConsumeZeroOrMore cls (NextChar s)"
      by (subst ConsumeZeroOrMore.simps) (simp add: True)
    from "1.IH" [OF True] head_char [OF "1.prems" r] True r show ?thesis unfolding eq by simp
  next
    case False
    then have eq: "ConsumeZeroOrMore cls s = s" by (subst ConsumeZeroOrMore.simps) simp
    show ?thesis
    proof (cases "tk_rest s")
      case (Cons c r)
      with False head_char(1) [OF "1.prems" Cons] eq "1.prems" show ?thesis by simp
    qed (use eq "1.prems" in simp)
  qed
qed

text \<open>A token that starts at the current character.\<close>

definition starts_token :: "char \<Rightarrow> bool" where
  "starts_token c \<longleftrightarrow> \<not> contains kWhitespace c \<and> \<not> contains kUnprintable c \<and> c \<notin> {CHR 0x00, CHR ''/'', CHR ''#''}"

definition token_start :: "tokenizer \<Rightarrow> tokenizer" where
  "token_start s = StartToken (EndToken (StartToken (s\<lparr>tk_previous := tk_current s\<rparr>)))"

lemma EndToken_errors [simp]: "tk_errors (EndToken s) = tk_errors s" "tk_errors (StartToken s) = tk_errors s"
  "tk_comment_style (EndToken s) = tk_comment_style s" "tk_comment_style (StartToken s) = tk_comment_style s"
  "tk_report_url_chars (EndToken s) = tk_report_url_chars s"
  by (simp_all add: EndToken_def StartToken_def RecordTo_def StopRecording_def Let_def split: option.split)

lemma Next_direct:
  assumes "idle s" and "\<not> tk_read_error s" and "starts_token (tk_current_char s)"
  shows "Next s = (True, EndToken (ReadToken (token_start s)))"
proof -
  let ?p = "s\<lparr>tk_previous := tk_current s\<rparr>"
  let ?u = "StartToken ?p"
  let ?c = "tk_current_char s"
  have ws: "\<not> contains kWhitespaceNoNewline ?c" "?c \<noteq> CHR 0x0A"
    using assms(3) by (auto simp: starts_token_def contains.simps)
  have u: "tk_current_char ?u = ?c" "tk_read_error ?u = tk_read_error s" by simp_all
  have "TryConsumeWhitespace ?u = (False, ?u)"
    using assms(3) ws(1) by (auto simp: TryConsumeWhitespace_def TryConsumeOne_def starts_token_def)
  moreover have "TryConsumeNewline ?u = (False, ?u)"
    using ws(2) by (simp add: TryConsumeNewline_def TryConsume_def)
  ultimately have o: "orelse TryConsumeWhitespace TryConsumeNewline ?u = (False, ?u)" by (simp add: orelse_def)
  have c: "TryConsumeCommentStart (EndToken ?u) = (NO_COMMENT, EndToken ?u)"
    using assms(3) by (simp add: TryConsumeCommentStart_def TryConsume_def starts_token_def)
  have "Next_turn ?p = (Some True, EndToken (ReadToken (StartToken (EndToken ?u))))"
    using assms(2,3) by (simp add: Next_turn_rest o Next_turn_rest_def c LookingAt_def starts_token_def)
  then have "Next_loop ?p = (True, EndToken (ReadToken (StartToken (EndToken ?u))))"
    using assms(2) by (subst Next_loop.simps) simp
  then show ?thesis by (simp add: Next_def token_start_def)
qed

lemma token_start_idle:
  assumes "idle s"
  shows "tk_ok (token_start s)" "tk_rest (token_start s) = tk_rest s" "in_token (token_start s)"
    "tk_errors (token_start s) = tk_errors s" "tk_report_url_chars (token_start s) = tk_report_url_chars s"
    "tk_current_char (token_start s) = tk_current_char s" "tk_read_error (token_start s) = tk_read_error s"
proof -
  have "idle (EndToken (StartToken (s\<lparr>tk_previous := tk_current s\<rparr>)))"
    by (rule EndToken_view(1) [OF StartToken_view(1) [OF set_current_view(3) [OF assms]]])
  then show "tk_ok (token_start s)" unfolding token_start_def by (rule StartToken_view(1))
qed (simp_all add: token_start_def in_token_def, simp add: tk_rest_def)

text \<open>
  What remains to show for a kind of token: from \<open>token_start s\<close>, \<open>ReadToken\<close> leaves the rest \<open>r\<close>,
  reports no error and sets the type.
\<close>

lemma Next_token:
  assumes i: "idle s" and w: "tk_rest s = w @ r" "w \<noteq> []" and c: "starts_token (hd w)"
    and v: "tk_rest (ReadToken (token_start s)) = r" "tk_errors (ReadToken (token_start s)) = tk_errors s"
      "tok_type (tk_current (ReadToken (token_start s))) = ty"
  shows "\<exists>s'. Next s = (True, s') \<and> idle s' \<and> tk_rest s' = r \<and> tk_errors s' = tk_errors s
     \<and> tk_current s' = \<lparr>tok_type = ty, tok_text = w, tok_line = tk_line s, tok_column = tk_column s,
                        tok_end_column = snd (advance w (tk_pos s))\<rparr>"
proof -
  let ?p = "s\<lparr>tk_previous := tk_current s\<rparr>"
  let ?e = "EndToken (StartToken ?p)"
  let ?v = "ReadToken (token_start s)"
  have ok: "tk_ok s" using i by (simp add: idle_def)
  obtain x xs where "w = x # xs" using w(2) by (cases w) auto
  with head_char [OF ok, of x "xs @ r"] w c have cur: "starts_token (tk_current_char s)" "\<not> tk_read_error s" by simp_all
  note n = Next_direct [OF i cur(2,1)]
  note u = token_start_idle [OF i]
  have ei: "idle ?e" by (rule EndToken_view(1) [OF StartToken_view(1) [OF set_current_view(3) [OF i]]])
  obtain y ys where st: "tk_steps (y # ys) (token_start s) ?v" "tk_sim ?v ?v"
    using ReadToken_reads [OF tk_sim_refl [OF u(1)] u(3)] u(7) cur(2) by auto
  then have "y # ys = w" using w(1) u(2) v(1) by (simp add: tk_steps_def)
  with st have sw: "tk_steps w (StartToken ?e) ?v" and okv: "tk_ok ?v" by (simp_all add: token_start_def tk_sim_def)
  note rec = recorded_token [OF ei sw okv]
  have ps: "tk_pos ?e = tk_pos s" by (simp, simp add: tk_pos_def)
  have ty: "tok_type (tk_current (EndToken ?v)) = ty"
    using v(3) by (auto simp: EndToken_def StopRecording_def Let_def record_append_def split: option.split record_target.split)
  have col: "tok_end_column (tk_current (EndToken ?v)) = snd (advance w (tk_pos s))"
  proof -
    have "tk_pos ?v = advance w (tk_pos s)" using rec(1) ps by (simp add: tk_moves_def)
    moreover have "tk_column ?v = snd (tk_pos ?v)" by (simp add: tk_pos_def)
    ultimately show ?thesis by simp
  qed
  have "tk_current (EndToken ?v) = \<lparr>tok_type = ty, tok_text = w, tok_line = tk_line s, tok_column = tk_column s,
      tok_end_column = snd (advance w (tk_pos s))\<rparr>"
    by (rule token.equality) (use rec(2,3) ty col ps in \<open>simp_all add: tk_pos_def\<close>)
  with n rec(1) v(1,2) show ?thesis by (simp add: tk_moves_def)
qed

subsection \<open>Identifiers\<close>

text \<open>A text behind a token: what follows does not continue it.\<close>

definition not_continued :: "(char \<Rightarrow> bool) \<Rightarrow> string \<Rightarrow> bool" where
  "not_continued P r \<longleftrightarrow> (case r of [] \<Rightarrow> True | c # _ \<Rightarrow> \<not> P c)"

lemma dropWhile_stop: "list_all P w \<Longrightarrow> not_continued P r \<Longrightarrow> dropWhile P (w @ r) = r"
  by (induction w) (auto simp: not_continued_def split: list.splits)

lemma letter_starts: "contains kLetter c \<Longrightarrow> starts_token c"
  by (auto simp: contains.simps starts_token_def less_eq_char_def)

lemma set_type_simps [simp]:
  "tk_rest (set_type ty s) = tk_rest s" "tk_errors (set_type ty s) = tk_errors s" "tok_type (tk_current (set_type ty s)) = ty"
  by (simp_all add: set_type_def tk_rest_def)

text \<open>An identifier, by \<open>IsIdentifier\<close>, at the current position is read by \<open>Next\<close> as one token
  of type \<open>TYPE_IDENTIFIER\<close> with exactly its text, provided no letter, digit or underscore follows.\<close>

theorem identifier_token:
  assumes "idle s" and "\<not> tk_report_url_chars s" and "tk_rest s = w @ r"
    and "IsIdentifier w" and "not_continued (contains kAlphanumeric) r"
  shows "\<exists>s'. Next s = (True, s') \<and> idle s' \<and> tk_rest s' = r \<and> tk_errors s' = tk_errors s
     \<and> tk_current s' = \<lparr>tok_type = TYPE_IDENTIFIER, tok_text = w, tok_line = tk_line s, tok_column = tk_column s,
                        tok_end_column = snd (advance w (tk_pos s))\<rparr>"
proof -
  obtain c cs where w: "w = c # cs" "contains kLetter c" "list_all (contains kAlphanumeric) cs"
    using assms(4) by (cases w) (auto simp: IsIdentifier_def AllInClass_set list_all_iff split: if_splits)
  note u = token_start_idle [OF assms(1)]
  have h: "tk_rest (token_start s) = c # cs @ r" using u(2) assms(3) w(1) by simp
  note hc = head_char [OF u(1) h]
  have eq: "ReadToken (token_start s) = set_type TYPE_IDENTIFIER (ConsumeZeroOrMore kAlphanumeric (NextChar (token_start s)))"
    using w(2) hc(1) u(5) assms(2) by (simp add: ReadToken_def TryConsumeOne_def)
  show ?thesis
    by (rule Next_token [OF assms(1,3)])
       (use w letter_starts u(4) ConsumeZeroOrMore_flat [OF hc(3), of kAlphanumeric] hc(4)
          dropWhile_stop [OF w(3) assms(5)] in \<open>simp_all add: eq\<close>)
qed

lemma identifier_token_witness:
  "\<exists>s'. Next (Tokenizer [''fo'', ''o_1 = 2'']) = (True, s') \<and> tok_text (tk_current s') = ''foo_1'' \<and> tk_rest s' = '' = 2''"
proof -
  have "\<exists>s'. Next (Tokenizer [''fo'', ''o_1 = 2'']) = (True, s') \<and> idle s' \<and> tk_rest s' = '' = 2''
     \<and> tk_errors s' = tk_errors (Tokenizer [''fo'', ''o_1 = 2''])
     \<and> tk_current s' = \<lparr>tok_type = TYPE_IDENTIFIER, tok_text = ''foo_1'', tok_line = tk_line (Tokenizer [''fo'', ''o_1 = 2'']),
          tok_column = tk_column (Tokenizer [''fo'', ''o_1 = 2'']), tok_end_column = snd (advance ''foo_1'' (tk_pos (Tokenizer [''fo'', ''o_1 = 2''])))\<rparr>"
    by (rule identifier_token [OF Tokenizer_idle(1)])
       (simp_all add: Tokenizer_idle(2) not_continued_def IsIdentifier_def contains.simps less_eq_char_def,
        simp add: Tokenizer_def Refresh_def)
  then show ?thesis by auto
qed


subsection \<open>Integers\<close>

lemma not_continuedD:
  assumes "tk_ok s" and "not_continued P (tk_rest s)" and "\<not> P (CHR 0x00)"
  shows "\<not> P (tk_current_char s)"
proof (cases "tk_rest s")
  case Nil
  with head_none [OF assms(1)] assms(3) show ?thesis by simp
next
  case (Cons c r)
  with head_char(1) [OF assms(1) Cons] assms(2) show ?thesis by (simp add: not_continued_def)
qed

definition ends_number :: "string \<Rightarrow> bool" where
  "ends_number r \<longleftrightarrow> not_continued (\<lambda>c. contains kAlphanumeric c \<or> c = CHR ''.'') r"

lemma ends_number_char:
  assumes "tk_ok s" and "ends_number (tk_rest s)"
  shows "\<not> contains kLetter (tk_current_char s)" and "\<not> contains kDigit (tk_current_char s)"
    and "tk_current_char s \<noteq> CHR ''.''"
    and "tk_current_char s \<notin> {CHR ''e'', CHR ''E'', CHR ''f'', CHR ''F'', CHR ''x'', CHR ''X''}"
  using not_continuedD [OF assms(1) assms(2) [unfolded ends_number_def]]
  by (auto simp: contains.simps less_eq_char_def)

lemma ConsumeNumber_plain:
  assumes "tk_ok s" and "tk_rest s = ds @ r" and "list_all (contains kDigit) ds" and "ends_number r"
    and "zero \<Longrightarrow> ds = []"
  shows "ConsumeNumber zero False s = (TYPE_INTEGER, ConsumeZeroOrMore kDigit s)"
proof -
  let ?s = "ConsumeZeroOrMore kDigit s"
  have nd: "not_continued (contains kDigit) r"
    using assms(4) by (auto simp: ends_number_def not_continued_def contains.simps split: list.splits)
  have z: "tk_ok ?s" "tk_rest ?s = r"
    using ConsumeZeroOrMore_flat [OF assms(1), of kDigit] dropWhile_stop [OF assms(3) nd] assms(2) by simp_all
  note e = ends_number_char [OF z(1)] and e0 = ends_number_char [OF assms(1)]
  have en: "ends_number (tk_rest ?s)" using z(2) assms(4) by simp
  note e = e [OF en]
  have dec: "ConsumeDecimal False s = (False, ?s)"
    using e by (simp add: ConsumeDecimal_def TryConsume_def ConsumeExponent_def ConsumeFloatSuffix_def orelse_def)
  have zr: "zero \<Longrightarrow> orelse (TryConsume CHR ''x'') (TryConsume CHR ''X'') s = (False, s) \<and> \<not> LookingAt kDigit s"
    using e0 assms(2,4,5) by (simp add: orelse_def TryConsume_def LookingAt_def)
  show ?thesis
    using zr dec e by (cases zero) (simp_all add: ConsumeNumber_def LookingAt_def)
qed

lemma digit_DigitValue: "is_digit c \<Longrightarrow> DigitValue c = digit_val c" "is_digit c \<Longrightarrow> digit_val c < 10"
  by (auto simp: is_digit_def DigitValue_def digit_val_def)

lemma digits_value_dec:
  "\<forall>c \<in> set ds. is_digit c \<Longrightarrow> digits_value 10 a ds = foldl (\<lambda>a c. 10 * a + digit_val c) a ds"
  by (induction ds arbitrary: a) (simp_all add: digit_DigitValue mult.commute)

lemma dec_head:
  "\<exists>c cs. dec n = c # cs \<and> contains kDigit c \<and> list_all (contains kDigit) cs
     \<and> (if n = 0 then c = CHR ''0'' \<and> cs = [] else c \<noteq> CHR ''0'')"
proof -
  have dig: "is_digit c \<Longrightarrow> contains kDigit c" for c by (simp add: is_digit_def contains.simps less_eq_char_def)
  have h: "n \<noteq> 0 \<Longrightarrow> hd (dec n) \<noteq> CHR ''0''"
  proof (induction n rule: dec.induct)
    case (1 n)
    show ?case
    proof (cases "n < 10")
      case True
      have "digit_val (digit_char n) = n" using True by simp
      with 1 have "digit_char n \<noteq> CHR ''0''" by (auto simp: digit_val_def)
      with True show ?thesis by (subst dec.simps) simp
    next
      case False
      with 1 have "hd (dec (n div 10)) \<noteq> CHR ''0''" by (simp add: div_eq_0_iff)
      with False show ?thesis by (subst dec.simps) simp
    qed
  qed
  obtain c cs where d: "dec n = c # cs" using dec_nonempty [of n] by (cases "dec n") auto
  have "list_all (contains kDigit) (dec n)" using dec_digits [of _ n] dig by (auto simp: list_all_iff)
  moreover have "n = 0 \<Longrightarrow> dec n = ''0''" by (subst dec.simps) (simp add: digit_char_def char_of_def)
  ultimately show ?thesis using d h by auto
qed

text \<open>C16. Printing a number in decimal, reading it back as a token and parsing the token returns the
  number: \<open>Next\<close> reads the numeral as one \<open>TYPE_INTEGER\<close> token without errors, and \<open>ParseInteger\<close>
  of its text succeeds exactly for the numbers within the bound.\<close>

theorem integer_token:
  assumes "idle s" and "\<not> tk_report_url_chars s" and "tk_rest s = dec n @ r" and "ends_number r"
  shows "\<exists>s'. Next s = (True, s') \<and> idle s' \<and> tk_rest s' = r \<and> tk_errors s' = tk_errors s
     \<and> tk_current s' = \<lparr>tok_type = TYPE_INTEGER, tok_text = dec n, tok_line = tk_line s, tok_column = tk_column s,
                        tok_end_column = snd (advance (dec n) (tk_pos s))\<rparr>
     \<and> ParseInteger (tok_text (tk_current s')) max_value = (if n \<le> unat max_value then Some (of_nat n) else None)"
proof -
  obtain c cs where d: "dec n = c # cs" "contains kDigit c" "list_all (contains kDigit) cs"
    "if n = 0 then c = CHR ''0'' \<and> cs = [] else c \<noteq> CHR ''0''"
    using dec_head [of n] by blast
  have nl: "\<not> contains kLetter c" "c \<noteq> CHR ''.''" "starts_token c"
    using d(2) by (auto simp: contains.simps less_eq_char_def starts_token_def)
  note u = token_start_idle [OF assms(1)]
  have h: "tk_rest (token_start s) = c # cs @ r" using u(2) assms(3) d(1) by simp
  note hc = head_char [OF u(1) h]
  have nu: "ConsumeNumber (n = 0) False (NextChar (token_start s)) = (TYPE_INTEGER, ConsumeZeroOrMore kDigit (NextChar (token_start s)))"
    using ConsumeNumber_plain [OF hc(3,4) d(3) assms(4), of "n = 0"] d(4) by auto
  have eq: "ReadToken (token_start s) = set_type TYPE_INTEGER (ConsumeZeroOrMore kDigit (NextChar (token_start s)))"
    using nu d(2,4) nl hc(1) u(5) assms(2) by (auto simp: ReadToken_def TryConsumeOne_def TryConsume_def split: if_splits)
  have nd: "not_continued (contains kDigit) r"
    using assms(4) by (auto simp: ends_number_def not_continued_def contains.simps split: list.splits)
  have "\<exists>s'. Next s = (True, s') \<and> idle s' \<and> tk_rest s' = r \<and> tk_errors s' = tk_errors s
     \<and> tk_current s' = \<lparr>tok_type = TYPE_INTEGER, tok_text = dec n, tok_line = tk_line s, tok_column = tk_column s,
                        tok_end_column = snd (advance (dec n) (tk_pos s))\<rparr>"
    by (rule Next_token [OF assms(1,3)])
       (use d(1) nl u(4) ConsumeZeroOrMore_flat [OF hc(3), of kDigit] hc(4) dropWhile_stop [OF d(3) nd] in \<open>simp_all add: eq\<close>)
  moreover have "ParseInteger (dec n) max_value = (if n \<le> unat max_value then Some (of_nat n) else None)"
  proof -
    have "c_str (dec n) = dec n"
      using dec_digits [of _ n] by (fastforce simp: c_str_def takeWhile_eq_all_conv is_digit_def)
    moreover have "ParseInteger_base (dec n) = (if n = 0 then 8 else 10, dec n)"
      using d(1,4) by (auto simp: ParseInteger_base_def split: if_splits)
    moreover have "digits_value 10 0 (dec n) = n"
      using digits_value_dec [of "dec n" 0] dec_digits [of _ n] dec_val_dec [of n] by (simp add: dec_val_def)
    moreover have "dec 0 = ''0''" by (subst dec.simps) (simp add: digit_char_def char_of_def)
    ultimately show ?thesis
      using dec_digits [of _ n] by (auto simp: ParseInteger_value list_all_iff digit_DigitValue)
  qed
  ultimately show ?thesis by auto
qed

lemma integer_token_witness:
  "\<exists>s'. Next (Tokenizer [''4'', ''2 ''] ) = (True, s') \<and> tok_text (tk_current s') = dec 42
     \<and> ParseInteger (tok_text (tk_current s')) 100 = Some 42"
proof -
  have d: "dec 42 = ''42''" by (subst dec.simps) (simp add: dec.simps [of 4] digit_char_def char_of_def)
  have "\<exists>s'. Next (Tokenizer [''4'', ''2 ''] ) = (True, s') \<and> idle s' \<and> tk_rest s' = '' ''
     \<and> tk_errors s' = tk_errors (Tokenizer [''4'', ''2 ''])
     \<and> tk_current s' = \<lparr>tok_type = TYPE_INTEGER, tok_text = dec 42, tok_line = tk_line (Tokenizer [''4'', ''2 '']),
          tok_column = tk_column (Tokenizer [''4'', ''2 '']), tok_end_column = snd (advance (dec 42) (tk_pos (Tokenizer [''4'', ''2 ''])))\<rparr>
     \<and> ParseInteger (tok_text (tk_current s')) 100 = (if 42 \<le> unat (100 :: 64 word) then Some (of_nat 42) else None)"
    by (rule integer_token [OF Tokenizer_idle(1)])
       (simp_all add: Tokenizer_idle(2) d ends_number_def not_continued_def contains.simps less_eq_char_def,
        simp add: Tokenizer_def Refresh_def)
  then show ?thesis by auto
qed


subsection \<open>Strings\<close>

lemma octal_char:
  "contains kOctalDigit (octal_digit d)" "\<not> contains kEscape (octal_digit d)"
  "octal_digit d \<notin> {CHR 0x00, CHR 0x0A, CHR 0x5C, CHR 0x22, CHR 0x27}"
proof -
  show "contains kOctalDigit (octal_digit d)" by (rule octal_digit_simps(3))
  then show "\<not> contains kEscape (octal_digit d)" "octal_digit d \<notin> {CHR 0x00, CHR 0x0A, CHR 0x5C, CHR 0x22, CHR 0x27}"
    by (auto simp: contains.simps less_eq_char_def)
qed

lemma ConsumeString_plain:
  assumes "tk_ok s" and "tk_rest s = c # r" and "c \<notin> {CHR 0x00, CHR 0x0A, CHR 0x5C, d}"
  shows "ConsumeString d s = ConsumeString d (NextChar s)"
  using assms(3) head_char(1) [OF assms(1,2)] by (subst ConsumeString.simps) simp

lemma ConsumeString_octal:
  assumes d: "d \<in> {CHR 0x22, CHR 0x27}"
  shows "tk_ok s \<Longrightarrow> tk_rest s = concat (map octal_escape bytes) @ d # r \<Longrightarrow>
    tk_rest (ConsumeString d s) = r \<and> tk_errors (ConsumeString d s) = tk_errors s"
proof (induction bytes arbitrary: s)
  case Nil
  then have h: "tk_rest s = d # r" by simp
  have "ConsumeString d s = NextChar s"
    using d head_char(1) [OF Nil.prems(1) h] by (subst ConsumeString.simps) auto
  with head_char [OF Nil.prems(1) h] show ?case by simp
next
  case (Cons b bytes)
  let ?r = "concat (map octal_escape bytes) @ d # r"
  obtain x y z where e: "octal_escape b = [CHR 0x5C, octal_digit x, octal_digit y, octal_digit z]"
    by (simp add: octal_escape_def)
  with Cons.prems(2) have h0: "tk_rest s = CHR 0x5C # octal_digit x # octal_digit y # octal_digit z # ?r" by simp
  note c0 = head_char [OF Cons.prems(1) h0]
  note c1 = head_char [OF c0(3,4)] and c2 = head_char [OF head_char(3,4) [OF c0(3,4)]]
  note c3 = head_char [OF c2(3,4)]
  have "ConsumeEscape (NextChar s) = NextChar (NextChar s)"
    using c1(1) octal_char by (simp add: ConsumeEscape_def TryConsumeOne_def)
  then have "ConsumeString d s = ConsumeString d (NextChar (NextChar s))"
    using c0(1) by (subst ConsumeString.simps) simp
  also have "\<dots> = ConsumeString d (NextChar (NextChar (NextChar s)))"
    using octal_char(3) [of y] d by (intro ConsumeString_plain [OF c1(3,4)]) auto
  also have "\<dots> = ConsumeString d (NextChar (NextChar (NextChar (NextChar s))))"
    using octal_char(3) [of z] d by (intro ConsumeString_plain [OF c2(3,4)]) auto
  finally show ?case using Cons.IH [OF c3(3,4)] by simp
qed

text \<open>C15. Any bytes, written as a string literal in octal escapes, are read by \<open>Next\<close> as one
  \<open>TYPE_STRING\<close> token without errors, whatever follows and however the input is buffered, and
  \<open>ParseString\<close> of its text returns the bytes.\<close>

theorem string_token:
  assumes "idle s" and "\<not> tk_report_url_chars s" and "tk_rest s = string_literal d bytes @ r"
    and "d \<in> {CHR 0x22, CHR 0x27}"
  shows "\<exists>s'. Next s = (True, s') \<and> idle s' \<and> tk_rest s' = r \<and> tk_errors s' = tk_errors s
     \<and> tok_type (tk_current s') = TYPE_STRING \<and> ParseString A (tok_text (tk_current s')) = bytes"
proof -
  note u = token_start_idle [OF assms(1)]
  have h: "tk_rest (token_start s) = d # concat (map octal_escape bytes) @ d # r"
    using u(2) assms(3) by (simp add: string_literal_def)
  note hc = head_char [OF u(1) h]
  have nd: "\<not> contains kLetter d" "\<not> contains kDigit d" "starts_token d"
    using assms(4) by (auto simp: contains.simps less_eq_char_def starts_token_def)
  have eq: "ReadToken (token_start s) = set_type TYPE_STRING (ConsumeString d (NextChar (token_start s)))"
    using assms(4) nd hc(1) u(5) assms(2) by (auto simp: ReadToken_def TryConsumeOne_def TryConsume_def)
  have "\<exists>s'. Next s = (True, s') \<and> idle s' \<and> tk_rest s' = r \<and> tk_errors s' = tk_errors s
     \<and> tk_current s' = \<lparr>tok_type = TYPE_STRING, tok_text = string_literal d bytes, tok_line = tk_line s, tok_column = tk_column s,
                        tok_end_column = snd (advance (string_literal d bytes) (tk_pos s))\<rparr>"
    by (rule Next_token [OF assms(1,3)])
       (use nd u(4) ConsumeString_octal [OF assms(4) hc(3,4)] in \<open>simp_all add: eq string_literal_def\<close>)
  then show ?thesis using ParseString_octal [OF assms(4)] by auto
qed

lemma string_token_witness:
  "\<exists>s'. Next (Tokenizer [[CHR 0x27, CHR 0x5C], ''000'', [CHR 0x27]]) = (True, s')
     \<and> tok_type (tk_current s') = TYPE_STRING \<and> ParseString absl_ref (tok_text (tk_current s')) = [CHR 0x00]"
proof -
  have "tk_rest (Tokenizer [[CHR 0x27, CHR 0x5C], ''000'', [CHR 0x27]]) = string_literal CHR 0x27 [CHR 0x00] @ []"
    by (simp add: Tokenizer_idle(2) string_literal_def octal_escape_def octal_digit_def char_of_def)
  moreover have "\<not> tk_report_url_chars (Tokenizer [[CHR 0x27, CHR 0x5C], ''000'', [CHR 0x27]])"
    by (simp add: Tokenizer_def Refresh_def)
  moreover have "CHR 0x27 \<in> {CHR 0x22, CHR 0x27}" by simp
  ultimately show ?thesis
    using string_token [OF Tokenizer_idle(1), of "[[CHR 0x27, CHR 0x5C], ''000'', [CHR 0x27]]" "CHR 0x27" "[CHR 0x00]" "[]" absl_ref]
    by blast
qed

end
