(* ===== verification/Coded_Input.thy ===== *)
theory Coded_Input
  imports Limiting_Input
begin

section \<open>io/coded_stream: CodedInputStream, its buffer and its limits\<close>

text \<open>
  \<open>CodedInputStream\<close> (files \<open>io/coded_stream.h\<close> and \<open>io/coded_stream.cc\<close>): the decoder of the
  wire format on top of a \<open>ZeroCopyInputStream\<close>, or of a flat array. The wrapped stream is given
  by its virtual functions, the record \<open>input_stream\<close>, and \<open>ci_input\<close> is the pointer \<open>input_\<close>,
  \<open>None\<close> when null; a call through the null pointer is \<open>None\<close>.

  \<open>ci_buffer\<close> holds the bytes in memory from \<open>buffer_\<close> on: first the \<open>ci_size\<close> bytes up to
  \<open>buffer_end_\<close>, then those behind the limit (\<open>buffer_size_after_limit_\<close>), then those behind
  \<open>INT_MAX\<close> (\<open>overflow_bytes_\<close>). Positions and limits of type \<open>int\<close> are mathematical integers:
  the invariant \<open>coded_inv\<close> of the theory \<open>Coded_Laws\<close> bounds them, so that no
  operation on them overflows. The error that is logged at the total bytes limit has no effect
  on the state.
\<close>

record 's input_stream =
  is_Next :: "'s next_op"
  is_BackUp :: "'s backup_op"
  is_Skip :: "'s skip_op"
  is_ByteCount :: "'s \<Rightarrow> int"
  is_ReadCord :: "'s rcord_op"

definition INT_MAX :: int where
  "INT_MAX = 2 ^ 31 - 1"

definition kDefaultTotalBytesLimit :: int where
  "kDefaultTotalBytesLimit = INT_MAX"

definition default_recursion_limit :: int where
  "default_recursion_limit = 100"

definition kMaxCordBytesToCopy :: int where
  "kMaxCordBytesToCopy = 512"

record 's coded_input =
  ci_buffer :: string
  ci_size :: int
  ci_input :: "'s option"
  ci_total :: int
  ci_overflow :: int
  ci_last_tag :: "32 word"
  ci_legit_end :: bool
  ci_limit :: int
  ci_after :: int
  ci_total_limit :: int
  ci_recursion_budget :: int
  ci_recursion_limit :: int

subsection \<open>Position and limits\<close>

definition coded_Advance :: "int \<Rightarrow> 's coded_input \<Rightarrow> 's coded_input" where
  "coded_Advance amount s =
     s\<lparr>ci_buffer := drop (nat amount) (ci_buffer s), ci_size := ci_size s - amount\<rparr>"

definition CurrentPosition :: "'s coded_input \<Rightarrow> int" where
  "CurrentPosition s = ci_total s - (ci_size s + ci_after s)"

definition closest_limit :: "'s coded_input \<Rightarrow> int" where
  "closest_limit s = min (ci_limit s) (ci_total_limit s)"

definition RecomputeBufferLimits :: "'s coded_input \<Rightarrow> 's coded_input" where
  "RecomputeBufferLimits s =
     (let s = s\<lparr>ci_size := ci_size s + ci_after s\<rparr>
      in if closest_limit s < ci_total s
         then let after = ci_total s - closest_limit s
              in s\<lparr>ci_after := after, ci_size := ci_size s - after\<rparr>
         else s\<lparr>ci_after := 0\<rparr>)"

definition PushLimit :: "int \<Rightarrow> 's coded_input \<Rightarrow> int \<times> 's coded_input" where
  "PushLimit byte_limit s =
     (let current_position = CurrentPosition s; old_limit = ci_limit s
      in (old_limit,
          if byte_limit \<ge> 0 \<and> byte_limit \<le> INT_MAX - current_position
             \<and> byte_limit < ci_limit s - current_position
          then RecomputeBufferLimits (s\<lparr>ci_limit := current_position + byte_limit\<rparr>)
          else s))"

definition PopLimit :: "int \<Rightarrow> 's coded_input \<Rightarrow> 's coded_input" where
  "PopLimit limit s = (RecomputeBufferLimits (s\<lparr>ci_limit := limit\<rparr>))\<lparr>ci_legit_end := False\<rparr>"

definition BytesUntilLimit :: "'s coded_input \<Rightarrow> int" where
  "BytesUntilLimit s = (if ci_limit s = INT_MAX then -1 else ci_limit s - CurrentPosition s)"

definition SetTotalBytesLimit :: "int \<Rightarrow> 's coded_input \<Rightarrow> 's coded_input" where
  "SetTotalBytesLimit total_bytes_limit s =
     RecomputeBufferLimits (s\<lparr>ci_total_limit := max (CurrentPosition s) total_bytes_limit\<rparr>)"

definition BytesUntilTotalBytesLimit :: "'s coded_input \<Rightarrow> int" where
  "BytesUntilTotalBytesLimit s =
     (if ci_total_limit s = INT_MAX then -1 else ci_total_limit s - CurrentPosition s)"

definition ConsumedEntireMessage :: "'s coded_input \<Rightarrow> bool" where
  "ConsumedEntireMessage s = ci_legit_end s"

definition CheckEntireMessageConsumedAndPopLimit :: "int \<Rightarrow> 's coded_input \<Rightarrow> bool \<times> 's coded_input" where
  "CheckEntireMessageConsumedAndPopLimit limit s = (ConsumedEntireMessage s, PopLimit limit s)"

subsection \<open>Recursion depth\<close>

text \<open>The budget is an \<open>int\<close> that a client could count below its range: signed overflow is \<open>None\<close>.\<close>

definition SetRecursionLimit :: "int \<Rightarrow> 's coded_input \<Rightarrow> 's coded_input option" where
  "SetRecursionLimit limit s = do {
     d \<leftarrow> i32 (limit - ci_recursion_limit s);
     b \<leftarrow> i32 (ci_recursion_budget s + d);
     Some (s\<lparr>ci_recursion_budget := b, ci_recursion_limit := limit\<rparr>) }"

definition IncrementRecursionDepth :: "'s coded_input \<Rightarrow> (bool \<times> 's coded_input) option" where
  "IncrementRecursionDepth s = do {
     b \<leftarrow> i32 (ci_recursion_budget s - 1);
     Some (b \<ge> 0, s\<lparr>ci_recursion_budget := b\<rparr>) }"

definition DecrementRecursionDepth :: "'s coded_input \<Rightarrow> 's coded_input" where
  "DecrementRecursionDepth s =
     (if ci_recursion_budget s < ci_recursion_limit s
      then s\<lparr>ci_recursion_budget := ci_recursion_budget s + 1\<rparr> else s)"

definition UnsafeDecrementRecursionDepth :: "'s coded_input \<Rightarrow> 's coded_input option" where
  "UnsafeDecrementRecursionDepth s = do {
     b \<leftarrow> i32 (ci_recursion_budget s + 1);
     Some (s\<lparr>ci_recursion_budget := b\<rparr>) }"

definition IncrementRecursionDepthAndPushLimit ::
  "int \<Rightarrow> 's coded_input \<Rightarrow> ((int \<times> int) \<times> 's coded_input) option" where
  "IncrementRecursionDepthAndPushLimit byte_limit s =
     (let (old, s) = PushLimit byte_limit s
      in do { b \<leftarrow> i32 (ci_recursion_budget s - 1);
              Some ((old, b), s\<lparr>ci_recursion_budget := b\<rparr>) })"

definition DecrementRecursionDepthAndPopLimit :: "int \<Rightarrow> 's coded_input \<Rightarrow> (bool \<times> 's coded_input) option" where
  "DecrementRecursionDepthAndPopLimit limit s = do {
     let result = ConsumedEntireMessage s;
     s \<leftarrow> Some (PopLimit limit s);
     b \<leftarrow> i32 (ci_recursion_budget s + 1);
     Some (result, s\<lparr>ci_recursion_budget := b\<rparr>) }"

subsection \<open>Refilling the buffer\<close>

partial_function (option) NextNonEmpty :: "'s next_op \<Rightarrow> 's next_op" where
  "NextNonEmpty nxt i = do {
     (r, i) \<leftarrow> nxt i;
     case r of
       None \<Rightarrow> Some (None, i)
     | Some b \<Rightarrow> if b = [] then NextNonEmpty nxt i else Some (Some b, i) }"

definition coded_Refresh :: "'s input_stream \<Rightarrow> 's coded_input \<Rightarrow> (bool \<times> 's coded_input) option" where
  "coded_Refresh I s =
     (if ci_after s > 0 \<or> ci_overflow s > 0 \<or> ci_total s = ci_limit s
      then Some (False, s)
      else do {
        i \<leftarrow> ci_input s;
        (r, i) \<leftarrow> NextNonEmpty (is_Next I) i;
        case r of
          None \<Rightarrow> Some (False, s\<lparr>ci_input := Some i, ci_buffer := [], ci_size := 0\<rparr>)
        | Some b \<Rightarrow>
            let size = int (length b);
                s = s\<lparr>ci_input := Some i, ci_buffer := b, ci_size := size\<rparr>;
                s = (if ci_total s \<le> INT_MAX - size
                     then s\<lparr>ci_total := ci_total s + size\<rparr>
                     else let overflow = ci_total s - (INT_MAX - size)
                          in s\<lparr>ci_overflow := overflow, ci_size := size - overflow, ci_total := INT_MAX\<rparr>)
            in Some (True, RecomputeBufferLimits s) })"

definition CodedInputStream :: "'s input_stream \<Rightarrow> 's \<Rightarrow> 's coded_input option" where
  "CodedInputStream I input = do {
     (_, s) \<leftarrow> coded_Refresh I
       \<lparr>ci_buffer = [], ci_size = 0, ci_input = Some input, ci_total = 0, ci_overflow = 0,
        ci_last_tag = 0, ci_legit_end = False, ci_limit = INT_MAX, ci_after = 0,
        ci_total_limit = kDefaultTotalBytesLimit, ci_recursion_budget = default_recursion_limit,
        ci_recursion_limit = default_recursion_limit\<rparr>;
     Some s }"

definition CodedInputStream_array :: "string \<Rightarrow> int \<Rightarrow> 's coded_input" where
  "CodedInputStream_array buffer n =
     \<lparr>ci_buffer = buffer, ci_size = n, ci_input = None, ci_total = n, ci_overflow = 0,
      ci_last_tag = 0, ci_legit_end = False, ci_limit = n, ci_after = 0,
      ci_total_limit = kDefaultTotalBytesLimit, ci_recursion_budget = default_recursion_limit,
      ci_recursion_limit = default_recursion_limit\<rparr>"

definition BackUpInputToCurrentPosition :: "'s input_stream \<Rightarrow> 's coded_input \<Rightarrow> 's coded_input option" where
  "BackUpInputToCurrentPosition I s =
     (let backup_bytes = ci_size s + ci_after s + ci_overflow s
      in if backup_bytes > 0
         then do {
           i \<leftarrow> ci_input s;
           i \<leftarrow> is_BackUp I backup_bytes i;
           Some (s\<lparr>ci_input := Some i, ci_total := ci_total s - (ci_size s + ci_after s),
                   ci_buffer := [], ci_size := 0, ci_after := 0, ci_overflow := 0\<rparr>) }
         else Some s)"

text \<open>The destructor returns the wrapped stream, for the client that goes on with it.\<close>

definition coded_destroy :: "'s input_stream \<Rightarrow> 's coded_input \<Rightarrow> 's option option" where
  "coded_destroy I s =
     (case ci_input s of
        None \<Rightarrow> Some None
      | Some _ \<Rightarrow> do { s \<leftarrow> BackUpInputToCurrentPosition I s; Some (ci_input s) })"

subsection \<open>Raw bytes\<close>

text \<open>\<open>memcpy\<close> of \<open>n\<close> bytes from \<open>buffer_\<close>: outside of the memory block it is undefined.\<close>

definition copy_bytes :: "int \<Rightarrow> 's coded_input \<Rightarrow> string option" where
  "copy_bytes n s = (if nat n \<le> length (ci_buffer s) then Some (take (nat n) (ci_buffer s)) else None)"

definition SkipFallback ::
  "'s input_stream \<Rightarrow> int \<Rightarrow> int \<Rightarrow> 's coded_input \<Rightarrow> (bool \<times> 's coded_input) option" where
  "SkipFallback I count original_buffer_size s =
     (if ci_after s > 0 then Some (False, coded_Advance original_buffer_size s)
      else let count = count - original_buffer_size;
               s = s\<lparr>ci_buffer := [], ci_size := 0\<rparr>;
               bytes_until_limit = closest_limit s - ci_total s
           in if bytes_until_limit < count
              then if bytes_until_limit > 0
                   then do { i \<leftarrow> ci_input s;
                             (_, i) \<leftarrow> is_Skip I bytes_until_limit i;
                             Some (False, s\<lparr>ci_input := Some i, ci_total := closest_limit s\<rparr>) }
                   else Some (False, s)
              else do { i \<leftarrow> ci_input s;
                        (b, i) \<leftarrow> is_Skip I count i;
                        if \<not> b
                        then Some (False, s\<lparr>ci_input := Some i, ci_total := to_i32 (is_ByteCount I i)\<rparr>)
                        else Some (True, s\<lparr>ci_input := Some i, ci_total := ci_total s + count\<rparr>) })"

definition coded_Skip :: "'s input_stream \<Rightarrow> int \<Rightarrow> 's coded_input \<Rightarrow> (bool \<times> 's coded_input) option" where
  "coded_Skip I count s =
     (if count < 0 then Some (False, s)
      else if count \<le> ci_size s then Some (True, coded_Advance count s)
      else SkipFallback I count (ci_size s) s)"

definition coded_GetDirectBufferPointer ::
  "'s input_stream \<Rightarrow> 's coded_input \<Rightarrow> (string option \<times> 's coded_input) option" where
  "coded_GetDirectBufferPointer I s = do {
     (b, s) \<leftarrow> (if ci_size s = 0 then coded_Refresh I s else Some (True, s));
     if \<not> b then Some (None, s)
     else do { bs \<leftarrow> copy_bytes (ci_size s) s; Some (Some bs, s) } }"

definition GetDirectBufferPointerInline :: "'s coded_input \<Rightarrow> string option" where
  "GetDirectBufferPointerInline s = copy_bytes (ci_size s) s"

text \<open>The loops return the bytes written to the destination of the caller, also when they fail.\<close>

partial_function (option) ReadRaw_loop ::
  "'s input_stream \<Rightarrow> string \<Rightarrow> int \<Rightarrow> 's coded_input \<Rightarrow> (bool \<times> string \<times> 's coded_input) option" where
  "ReadRaw_loop I out n s =
     (if ci_size s < n
      then do {
        (out, n, s) \<leftarrow>
          (if ci_size s > 0
           then do { bs \<leftarrow> copy_bytes (ci_size s) s;
                     Some (out @ bs, n - ci_size s, coded_Advance (ci_size s) s) }
           else Some (out, n, s));
        (b, s) \<leftarrow> coded_Refresh I s;
        if \<not> b then Some (False, out, s) else ReadRaw_loop I out n s }
      else do { bs \<leftarrow> copy_bytes n s; Some (True, out @ bs, coded_Advance n s) })"

definition ReadRaw ::
  "'s input_stream \<Rightarrow> int \<Rightarrow> 's coded_input \<Rightarrow> (bool \<times> string \<times> 's coded_input) option" where
  "ReadRaw I n s =
     (if n < 0 then Some (False, [], s)
      else if n = 0 then Some (True, [], s)
      else ReadRaw_loop I [] n s)"

partial_function (option) ReadString_loop ::
  "'s input_stream \<Rightarrow> string \<Rightarrow> int \<Rightarrow> 's coded_input \<Rightarrow> (bool \<times> string \<times> 's coded_input) option" where
  "ReadString_loop I out n s =
     (if ci_size s < n
      then do {
        bs \<leftarrow> (if ci_size s \<noteq> 0 then copy_bytes (ci_size s) s else Some []);
        let n = n - ci_size s;
        (b, s) \<leftarrow> coded_Refresh I (coded_Advance (ci_size s) s);
        if \<not> b then Some (False, out @ bs, s) else ReadString_loop I (out @ bs) n s }
      else do { bs \<leftarrow> copy_bytes n s; Some (True, out @ bs, coded_Advance n s) })"

definition ReadStringFallback ::
  "'s input_stream \<Rightarrow> int \<Rightarrow> 's coded_input \<Rightarrow> (bool \<times> string \<times> 's coded_input) option" where
  "ReadStringFallback I n s = ReadString_loop I [] n s"

text \<open>\<open>out\<close> is what the string held before.\<close>

definition ReadString ::
  "'s input_stream \<Rightarrow> string \<Rightarrow> int \<Rightarrow> 's coded_input \<Rightarrow> (bool \<times> string \<times> 's coded_input) option" where
  "ReadString I out n s =
     (if n < 0 then Some (False, out, s)
      else if ci_size s \<ge> n
      then do { bs \<leftarrow> copy_bytes n s; Some (True, bs, coded_Advance n s) }
      else ReadStringFallback I n s)"

text \<open>The end of \<open>ReadCord\<close>: what the buffer did not hold comes from the wrapped stream.\<close>

definition ReadCord_from_input ::
  "'s input_stream \<Rightarrow> string \<Rightarrow> int \<Rightarrow> 's coded_input \<Rightarrow> (bool \<times> string \<times> 's coded_input) option" where
  "ReadCord_from_input I out n s =
     (let available = closest_limit s - ci_total s
      in if n > available
         then do { i \<leftarrow> ci_input s;
                   (_, out, i) \<leftarrow> is_ReadCord I out available i;
                   Some (False, out, s\<lparr>ci_input := Some i, ci_total := closest_limit s\<rparr>) }
         else do { i \<leftarrow> ci_input s;
                   (b, out, i) \<leftarrow> is_ReadCord I out n i;
                   Some (b, out, s\<lparr>ci_input := Some i, ci_total := ci_total s + n\<rparr>) })"

definition coded_ReadCord ::
  "'s input_stream \<Rightarrow> int \<Rightarrow> 's coded_input \<Rightarrow> (bool \<times> string \<times> 's coded_input) option" where
  "coded_ReadCord I n s =
     (if n < 0 then Some (False, [], s)
      else if ci_input s = None \<or> n < kMaxCordBytesToCopy
      then do {
        out \<leftarrow> copy_bytes (min n (ci_size s)) s;
        let s = coded_Advance (int (length out)) s;
        let n = n - int (length out);
        if n = 0 then Some (True, out, s)
        else if ci_input s = None \<or> ci_after s + ci_overflow s > 0 then Some (False, out, s)
        else ReadCord_from_input I out n s }
      else do {
        s \<leftarrow> BackUpInputToCurrentPosition I s;
        ReadCord_from_input I [] n s })"

end
