(* ===== verification/Coded_Laws.thy ===== *)
theory Coded_Laws
  imports Coded_Input
begin

section \<open>What CodedInputStream guarantees\<close>

text \<open>
  The invariant of \<open>CodedInputStream\<close>, its preservation by every operation, and the functional
  behaviour of the operations on raw bytes, in terms of \<open>coded_avail data s\<close>: the bytes of the
  input \<open>data\<close> that can still be read, from the current position to the closest limit. The locale
  \<open>coded_source\<close> is the contract of the wrapped stream: that of \<open>zero_copy_input\<close> and of its
  \<open>ReadCord\<close>. The laws hold for streams and, without a wrapped stream, for flat arrays.
\<close>

definition coded_pending :: "'s coded_input \<Rightarrow> int" where
  "coded_pending s = ci_size s + ci_after s + ci_overflow s"

text \<open>
  \<open>coded_at I okay rest data s r\<close>: once the object is destroyed, the wrapped stream will have the
  bytes \<open>r\<close> left. While bytes of the last buffer are pending, the wrapped stream stands behind them.
\<close>

definition coded_at ::
  "'s input_stream \<Rightarrow> ('s \<Rightarrow> bool) \<Rightarrow> ('s \<Rightarrow> string) \<Rightarrow> string \<Rightarrow> 's coded_input \<Rightarrow> string \<Rightarrow> bool" where
  "coded_at I okay rest data s r \<longleftrightarrow>
     (case ci_input s of
        None \<Rightarrow> ci_overflow s = 0 \<and> ci_limit s \<le> ci_total s \<and> int (length r) = ci_size s + ci_after s
      | Some i \<Rightarrow> okay i \<and> is_ByteCount I i + int (length (rest i)) = int (length data)
          \<and> (if coded_pending s = 0 then r = rest i
             else \<exists>i0 c. okay i0 \<and> is_Next I i0 = Some (Some c, i) \<and> coded_pending s \<le> int (length c)
                    \<and> r = drop (length c - nat (coded_pending s)) c @ rest i))"

text \<open>The numbers of the state, and the memory they describe.\<close>

definition coded_ints :: "'s coded_input \<Rightarrow> bool" where
  "coded_ints s \<longleftrightarrow>
     0 \<le> ci_size s \<and> 0 \<le> ci_overflow s \<and> 0 \<le> CurrentPosition s \<and> CurrentPosition s \<le> closest_limit s
     \<and> ci_total s \<le> INT_MAX \<and> ci_limit s \<le> INT_MAX \<and> ci_total_limit s \<le> INT_MAX
     \<and> (0 < ci_overflow s \<longrightarrow> ci_total s = INT_MAX)
     \<and> ci_after s = max 0 (ci_total s - closest_limit s)"

definition coded_inv ::
  "'s input_stream \<Rightarrow> ('s \<Rightarrow> bool) \<Rightarrow> ('s \<Rightarrow> string) \<Rightarrow> string \<Rightarrow> 's coded_input \<Rightarrow> bool" where
  "coded_inv I okay rest data s \<longleftrightarrow>
     coded_ints s
     \<and> nat (ci_size s + ci_after s) \<le> length (ci_buffer s)
     \<and> prefix (take (nat (ci_size s + ci_after s)) (ci_buffer s)) (drop (nat (CurrentPosition s)) data)
     \<and> coded_at I okay rest data s (drop (nat (CurrentPosition s)) data)"

definition coded_avail :: "string \<Rightarrow> 's coded_input \<Rightarrow> string" where
  "coded_avail data s =
     take (nat (closest_limit s - CurrentPosition s)) (drop (nat (CurrentPosition s)) data)"

text \<open>The part of the state that reading does not change.\<close>

definition coded_frame :: "'s coded_input \<Rightarrow> 32 word \<times> bool \<times> int \<times> int \<times> int \<times> int \<times> bool" where
  "coded_frame s = (ci_last_tag s, ci_legit_end s, ci_limit s, ci_total_limit s,
                    ci_recursion_budget s, ci_recursion_limit s, ci_input s = None)"

definition coded_blocked :: "'s coded_input \<Rightarrow> bool" where
  "coded_blocked s \<longleftrightarrow> ci_after s > 0 \<or> ci_overflow s > 0 \<or> ci_total s = ci_limit s"

lemma frame_closest: "coded_frame s' = coded_frame s \<Longrightarrow> closest_limit s' = closest_limit s"
  by (simp add: coded_frame_def closest_limit_def)

lemma coded_invD:
  assumes "coded_inv I okay rest data s"
  shows "0 \<le> ci_size s" "0 \<le> ci_after s" "0 \<le> ci_overflow s" "0 \<le> CurrentPosition s"
    "CurrentPosition s \<le> closest_limit s" "closest_limit s \<le> INT_MAX" "ci_total s \<le> INT_MAX"
    "nat (ci_size s + ci_after s) \<le> length (ci_buffer s)"
    "prefix (take (nat (ci_size s + ci_after s)) (ci_buffer s)) (drop (nat (CurrentPosition s)) data)"
    "coded_at I okay rest data s (drop (nat (CurrentPosition s)) data)"
    "ci_after s = max 0 (ci_total s - closest_limit s)"
    "0 < ci_overflow s \<Longrightarrow> ci_total s = INT_MAX" "coded_ints s"
  using assms by (auto simp: coded_inv_def coded_ints_def closest_limit_def)

text \<open>The fields that neither the buffer nor the limits depend on.\<close>

lemma coded_flags [simp]:
  "CurrentPosition (s\<lparr>ci_legit_end := b\<rparr>) = CurrentPosition s"
  "CurrentPosition (s\<lparr>ci_last_tag := t\<rparr>) = CurrentPosition s"
  "CurrentPosition (s\<lparr>ci_recursion_budget := k\<rparr>) = CurrentPosition s"
  "closest_limit (s\<lparr>ci_legit_end := b\<rparr>) = closest_limit s"
  "closest_limit (s\<lparr>ci_last_tag := t\<rparr>) = closest_limit s"
  "closest_limit (s\<lparr>ci_recursion_budget := k\<rparr>) = closest_limit s"
  by (simp_all add: CurrentPosition_def closest_limit_def)

lemma coded_flags_inv [simp]:
  "coded_inv I okay rest data (s\<lparr>ci_legit_end := b\<rparr>) = coded_inv I okay rest data s"
  "coded_inv I okay rest data (s\<lparr>ci_last_tag := t\<rparr>) = coded_inv I okay rest data s"
  "coded_inv I okay rest data (s\<lparr>ci_recursion_budget := k\<rparr>) = coded_inv I okay rest data s"
  "coded_avail data (s\<lparr>ci_legit_end := b\<rparr>) = coded_avail data s"
  "coded_avail data (s\<lparr>ci_last_tag := t\<rparr>) = coded_avail data s"
  "coded_avail data (s\<lparr>ci_recursion_budget := k\<rparr>) = coded_avail data s"
  by (simp_all add: coded_inv_def coded_ints_def coded_at_def coded_pending_def coded_avail_def
      cong: option.case_cong)

text \<open>The bytes in the buffer are the next bytes of the input, and they are readable.\<close>

lemma coded_size_min:
  assumes "coded_inv I okay rest data s"
  shows "ci_size s = min (closest_limit s) (ci_total s) - CurrentPosition s"
  using coded_invD [OF assms] by (simp add: CurrentPosition_def)

lemma coded_buffer:
  assumes "coded_inv I okay rest data s"
  shows "take (nat (ci_size s)) (ci_buffer s) = take (nat (ci_size s)) (coded_avail data s)"
    and "nat (ci_size s) \<le> length (coded_avail data s)"
    and "nat (ci_size s) \<le> length (ci_buffer s)"
proof -
  note d = coded_invD [OF assms]
  let ?k = "nat (ci_size s)" and ?m = "nat (ci_size s + ci_after s)" and ?r = "drop (nat (CurrentPosition s)) data"
  have k: "?k \<le> ?m" "?m \<le> length (ci_buffer s)" using d(1,2,8) by auto
  obtain z where z: "?r = take ?m (ci_buffer s) @ z" using d(9) by (auto elim: prefixE)
  have "ci_size s \<le> closest_limit s - CurrentPosition s"
    using coded_size_min [OF assms] by simp
  then have c: "?k \<le> nat (closest_limit s - CurrentPosition s)" by simp
  have "length ?r \<ge> ?m" using z k(2) by (metis length_append length_take le_add1 min.absorb2)
  with c k show "?k \<le> length (coded_avail data s)" by (simp add: coded_avail_def)
  have "take ?k ?r = take ?k (ci_buffer s)" using k by (simp add: z min_def)
  then show "take ?k (ci_buffer s) = take ?k (coded_avail data s)"
    using c by (simp add: coded_avail_def min_def)
  show "?k \<le> length (ci_buffer s)" using k by simp
qed

lemma coded_copy:
  assumes "coded_inv I okay rest data s" and "n \<le> ci_size s"
  shows "copy_bytes n s = Some (take (nat n) (coded_avail data s))"
    and "nat n \<le> length (coded_avail data s)"
proof -
  note b = coded_buffer [OF assms(1)]
  have n: "nat n \<le> nat (ci_size s)" using assms(2) by simp
  with b(2) show "nat n \<le> length (coded_avail data s)" by simp
  have "take (nat n) (ci_buffer s) = take (nat n) (take (nat (ci_size s)) (ci_buffer s))"
    using n by (simp add: min_def)
  also have "\<dots> = take (nat n) (coded_avail data s)" using n by (simp add: b(1) min_def)
  finally show "copy_bytes n s = Some (take (nat n) (coded_avail data s))"
    using n b(3) by (simp add: copy_bytes_def)
qed

lemma coded_at_drop:
  assumes "coded_at I okay rest data s r" and "0 \<le> n" and "n \<le> ci_size s"
    and "0 \<le> ci_after s" and "0 \<le> ci_overflow s" and "nat n \<le> length r"
  shows "coded_at I okay rest data (coded_Advance n s) (drop (nat n) r)"
proof (cases "ci_input s")
  case None
  with assms show ?thesis by (auto simp: coded_at_def coded_Advance_def)
next
  case (Some i)
  show ?thesis
  proof (cases "n = 0")
    case True
    then show ?thesis using assms(1) by (simp add: coded_at_def coded_Advance_def coded_pending_def)
  next
    case False
    with assms(2-5) have p: "0 < coded_pending s" "coded_pending (coded_Advance n s) = coded_pending s - n"
      "n \<le> coded_pending s"
      by (auto simp: coded_pending_def coded_Advance_def)
    with assms(1) Some obtain i0 c where c: "okay i" "okay i0" "is_Next I i0 = Some (Some c, i)"
      "coded_pending s \<le> int (length c)" "r = drop (length c - nat (coded_pending s)) c @ rest i"
      "is_ByteCount I i + int (length (rest i)) = int (length data)"
      by (auto simp: coded_at_def)
    have l: "nat n \<le> length (drop (length c - nat (coded_pending s)) c)"
      using p assms(2) c(4) by (simp add: nat_le_iff)
    have "length c - nat (coded_pending s) + nat n = length c - nat (coded_pending s - n)"
      using p(1,3) assms(2) c(4) by linarith
    then have "drop (nat n) r = drop (length c - nat (coded_pending s - n)) c @ rest i"
      using l by (simp add: c(5) add.commute)
    moreover have "ci_input (coded_Advance n s) = Some i" using Some by (simp add: coded_Advance_def)
    moreover have "coded_pending s - n \<le> int (length c)" using c(4) assms(2) by simp
    ultimately show ?thesis
      using c p by (auto simp: coded_at_def p(2) intro: exI [of _ i0] exI [of _ c])
  qed
qed

lemma coded_Advance_inv:
  assumes "coded_inv I okay rest data s" and "0 \<le> n" and "n \<le> ci_size s"
  defines "s' \<equiv> coded_Advance n s"
  shows "coded_inv I okay rest data s'" and "coded_frame s' = coded_frame s"
    and "CurrentPosition s' = CurrentPosition s + n" and "ci_size s' = ci_size s - n"
    and "coded_avail data s' = drop (nat n) (coded_avail data s)"
    and "coded_blocked s' = coded_blocked s"
proof -
  note d = coded_invD [OF assms(1)]
  show f: "coded_frame s' = coded_frame s" and p: "CurrentPosition s' = CurrentPosition s + n"
    and z: "ci_size s' = ci_size s - n" "coded_blocked s' = coded_blocked s"
    by (simp_all add: s'_def coded_Advance_def coded_frame_def CurrentPosition_def coded_blocked_def)
  have c: "closest_limit s' = closest_limit s" using f by (rule frame_closest)
  have a: "nat (CurrentPosition s') = nat n + nat (CurrentPosition s)" using p d(4) assms(2) by simp
  show "coded_avail data s' = drop (nat n) (coded_avail data s)"
  proof -
    have "nat (closest_limit s - CurrentPosition s') = nat (closest_limit s - CurrentPosition s) - nat n"
      using assms(2) by (simp add: p)
    then show ?thesis by (simp only: coded_avail_def c a drop_take drop_drop)
  qed
  let ?r = "drop (nat (CurrentPosition s)) data" and ?m = "nat (ci_size s + ci_after s)"
  obtain y where y: "?r = take ?m (ci_buffer s) @ y" using d(9) by (auto elim: prefixE)
  have m: "nat n \<le> ?m" "?m \<le> length (ci_buffer s)" "nat (ci_size s - n + ci_after s) = ?m - nat n"
    using assms(2,3) d(2,8) by auto
  then have "nat n \<le> length ?r" using y
    by (metis length_append length_take le_add1 min.absorb2 order_trans)
  from coded_at_drop [OF d(10) assms(2,3) d(2,3) this]
  have "coded_at I okay rest data s' (drop (nat (CurrentPosition s')) data)"
    by (simp add: s'_def [symmetric] a)
  moreover have "drop (nat n) ?r = take (?m - nat n) (drop (nat n) (ci_buffer s)) @ y"
    using m by (simp add: y drop_take)
  then have "prefix (take (?m - nat n) (drop (nat n) (ci_buffer s))) (drop (nat (CurrentPosition s')) data)"
    by (simp add: a)
  moreover have "CurrentPosition s' \<le> closest_limit s"
    using assms(3) coded_size_min [OF assms(1)] by (simp add: p)
  moreover have "ci_after s' = ci_after s" "ci_overflow s' = ci_overflow s" "ci_total s' = ci_total s"
    "ci_limit s' = ci_limit s" "ci_total_limit s' = ci_total_limit s"
    "ci_buffer s' = drop (nat n) (ci_buffer s)"
    by (simp_all add: s'_def coded_Advance_def)
  moreover have "nat (ci_size s' + ci_after s') = ?m - nat n" "?m - nat n \<le> length (ci_buffer s')"
    using m by (simp_all add: z(1) calculation diff_le_mono)
  moreover have "coded_ints s'"
    using d(13) assms(2,3) calculation(3) p unfolding coded_ints_def c z(1) calculation(4-8) by simp
  ultimately show "coded_inv I okay rest data s'"
    by (simp add: coded_inv_def)
qed


subsection \<open>Limits\<close>

lemma recompute_fields:
  fixes s :: "'s coded_input"
  defines "s' \<equiv> RecomputeBufferLimits s"
  shows "ci_size s' + ci_after s' = ci_size s + ci_after s"
    and "ci_after s' = max 0 (ci_total s - closest_limit s)"
    and "ci_buffer s' = ci_buffer s" "ci_input s' = ci_input s" "ci_total s' = ci_total s"
    and "ci_overflow s' = ci_overflow s" "coded_frame s' = coded_frame s"
    and "closest_limit s' = closest_limit s" "CurrentPosition s' = CurrentPosition s"
    and "ci_limit s' = ci_limit s" "ci_total_limit s' = ci_total_limit s"
  by (auto simp: s'_def RecomputeBufferLimits_def closest_limit_def Let_def coded_frame_def CurrentPosition_def)

lemma recompute_inv:
  assumes "coded_at I okay rest data s (drop (nat (CurrentPosition s)) data)"
    and "0 \<le> ci_overflow s" "0 \<le> CurrentPosition s" "CurrentPosition s \<le> closest_limit s"
    and "ci_total s \<le> INT_MAX" "ci_limit s \<le> INT_MAX" "ci_total_limit s \<le> INT_MAX"
    and "0 < ci_overflow s \<longrightarrow> ci_total s = INT_MAX" and "0 \<le> ci_size s + ci_after s"
    and "nat (ci_size s + ci_after s) \<le> length (ci_buffer s)"
    and "prefix (take (nat (ci_size s + ci_after s)) (ci_buffer s)) (drop (nat (CurrentPosition s)) data)"
  shows "coded_inv I okay rest data (RecomputeBufferLimits s)"
proof -
  note f = recompute_fields [of s]
  have "ci_size (RecomputeBufferLimits s) = min (closest_limit s) (ci_total s) - CurrentPosition s"
    using f(1,2) by (auto simp: CurrentPosition_def)
  then have "coded_ints (RecomputeBufferLimits s)"
    using assms(2-9) f by (auto simp: coded_ints_def CurrentPosition_def)
  moreover have "coded_pending (RecomputeBufferLimits s) = coded_pending s"
    using f(1,6) by (simp add: coded_pending_def)
  then have "coded_at I okay rest data (RecomputeBufferLimits s) (drop (nat (CurrentPosition s)) data)"
    using assms(1) by (simp only: coded_at_def f(1,4-6,10))
  ultimately show ?thesis
    using assms(10,11) by (simp only: coded_inv_def f(1,3,9))
qed

lemma limits_inv:
  assumes "coded_inv I okay rest data s" and "CurrentPosition s \<le> min l t" and "l \<le> INT_MAX" and "t \<le> INT_MAX"
    and "ci_input s = None \<Longrightarrow> l \<le> ci_total s"
  defines "s' \<equiv> RecomputeBufferLimits (s\<lparr>ci_limit := l, ci_total_limit := t\<rparr>)"
  shows "coded_inv I okay rest data s'" and "CurrentPosition s' = CurrentPosition s"
    and "closest_limit s' = min l t" and "ci_limit s' = l" and "ci_total_limit s' = t"
proof -
  note d = coded_invD [OF assms(1)]
  let ?s = "s\<lparr>ci_limit := l, ci_total_limit := t\<rparr>"
  have p: "CurrentPosition ?s = CurrentPosition s" "closest_limit ?s = min l t"
    by (simp_all add: CurrentPosition_def closest_limit_def)
  have "coded_at I okay rest data ?s (drop (nat (CurrentPosition s)) data)"
    using d(10) assms(5) by (auto simp: coded_at_def coded_pending_def split: option.splits)
  then show "coded_inv I okay rest data s'"
    unfolding s'_def using d assms(2-4) by (intro recompute_inv) (auto simp: p)
  show "CurrentPosition s' = CurrentPosition s" "closest_limit s' = min l t" "ci_limit s' = l"
    "ci_total_limit s' = t"
    using recompute_fields [of ?s] by (simp_all add: s'_def p)
qed

lemma SetTotalBytesLimit_inv:
  assumes "coded_inv I okay rest data s" and "t \<le> INT_MAX" and "CurrentPosition s \<le> ci_limit s"
  shows "coded_inv I okay rest data (SetTotalBytesLimit t s)"
    and "CurrentPosition (SetTotalBytesLimit t s) = CurrentPosition s"
    and "ci_limit (SetTotalBytesLimit t s) = ci_limit s"
    and "ci_total_limit (SetTotalBytesLimit t s) = max (CurrentPosition s) t"
proof -
  note d = coded_invD [OF assms(1)]
  have "ci_limit s \<le> INT_MAX" "CurrentPosition s \<le> INT_MAX" using d by (auto simp: coded_ints_def)
  note l = limits_inv [OF assms(1), of "ci_limit s" "max (CurrentPosition s) t"]
  have "s\<lparr>ci_limit := ci_limit s, ci_total_limit := max (CurrentPosition s) t\<rparr>
      = s\<lparr>ci_total_limit := max (CurrentPosition s) t\<rparr>" by simp
  moreover have "ci_input s = None \<Longrightarrow> ci_limit s \<le> ci_total s" using d(10) by (simp add: coded_at_def)
  ultimately show "coded_inv I okay rest data (SetTotalBytesLimit t s)"
    and "CurrentPosition (SetTotalBytesLimit t s) = CurrentPosition s"
    and "ci_limit (SetTotalBytesLimit t s) = ci_limit s"
    and "ci_total_limit (SetTotalBytesLimit t s) = max (CurrentPosition s) t"
    using l \<open>ci_limit s \<le> INT_MAX\<close> \<open>CurrentPosition s \<le> INT_MAX\<close> assms(2,3)
    by (simp_all add: SetTotalBytesLimit_def)
qed

text \<open>A pushed limit takes effect when it is not negative and closer than the limit in place.\<close>

lemma PushLimit_inv:
  fixes n :: int
  assumes "coded_inv I okay rest data s"
  defines "s' \<equiv> snd (PushLimit n s)"
  shows "fst (PushLimit n s) = ci_limit s" and "coded_inv I okay rest data s'"
    and "CurrentPosition s' = CurrentPosition s"
    and "ci_limit s' = (if 0 \<le> n then min (CurrentPosition s + n) (ci_limit s) else ci_limit s)"
    and "ci_total_limit s' = ci_total_limit s" and "ci_input s' = ci_input s" and "ci_total s' = ci_total s"
proof -
  note d = coded_invD [OF assms(1)]
  have b: "ci_limit s \<le> INT_MAX" "ci_total_limit s \<le> INT_MAX" "CurrentPosition s \<le> ci_total_limit s"
    using d(5,13) by (auto simp: coded_ints_def closest_limit_def)
  let ?c = "n \<ge> 0 \<and> n \<le> INT_MAX - CurrentPosition s \<and> n < ci_limit s - CurrentPosition s"
  have e: "s' = (if ?c then RecomputeBufferLimits (s\<lparr>ci_limit := CurrentPosition s + n, ci_total_limit := ci_total_limit s\<rparr>) else s)"
    by (simp add: s'_def PushLimit_def Let_def)
  show "fst (PushLimit n s) = ci_limit s" by (simp add: PushLimit_def Let_def)
  have n: "ci_input s = None \<Longrightarrow> ci_limit s \<le> ci_total s" using d(10) by (simp add: coded_at_def)
  have l: "coded_inv I okay rest data s'" "CurrentPosition s' = CurrentPosition s"
    "ci_limit s' = CurrentPosition s + n" "ci_total_limit s' = ci_total_limit s" if c: ?c
  proof -
    have m: "CurrentPosition s \<le> min (CurrentPosition s + n) (ci_total_limit s)"
      "CurrentPosition s + n \<le> INT_MAX" using c b by auto
    have "CurrentPosition s + n \<le> ci_total s" if "ci_input s = None" using n [OF that] c by simp
    from limits_inv [OF assms(1) m b(2) this] show "coded_inv I okay rest data s'"
      "CurrentPosition s' = CurrentPosition s" "ci_limit s' = CurrentPosition s + n"
      "ci_total_limit s' = ci_total_limit s" unfolding e if_P [OF c] by simp_all
  qed
  show "coded_inv I okay rest data s'" "CurrentPosition s' = CurrentPosition s"
    "ci_limit s' = (if 0 \<le> n then min (CurrentPosition s + n) (ci_limit s) else ci_limit s)"
    "ci_total_limit s' = ci_total_limit s" "ci_input s' = ci_input s" "ci_total s' = ci_total s"
    using l assms(1) b(1) recompute_fields [of "s\<lparr>ci_limit := CurrentPosition s + n\<rparr>"]
    by (auto simp: e min_def)
qed

lemma PopLimit_inv:
  assumes "coded_inv I okay rest data s" and "CurrentPosition s \<le> l" and "l \<le> INT_MAX"
    and "ci_input s = None \<Longrightarrow> l \<le> ci_total s"
  shows "coded_inv I okay rest data (PopLimit l s)" and "CurrentPosition (PopLimit l s) = CurrentPosition s"
    and "ci_limit (PopLimit l s) = l" and "ci_total_limit (PopLimit l s) = ci_total_limit s"
    and "ci_input (PopLimit l s) = ci_input s" and "ci_total (PopLimit l s) = ci_total s"
proof -
  note d = coded_invD [OF assms(1)]
  have b: "ci_total_limit s \<le> INT_MAX" "CurrentPosition s \<le> ci_total_limit s"
    using d(5,13) by (auto simp: coded_ints_def closest_limit_def)
  let ?t = "RecomputeBufferLimits (s\<lparr>ci_limit := l\<rparr>)"
  have "s\<lparr>ci_limit := l, ci_total_limit := ci_total_limit s\<rparr> = s\<lparr>ci_limit := l\<rparr>" by simp
  with limits_inv [OF assms(1), of l "ci_total_limit s"] b assms(2-4)
  have t: "coded_inv I okay rest data ?t" "CurrentPosition ?t = CurrentPosition s" "ci_limit ?t = l"
    "ci_total_limit ?t = ci_total_limit s" by auto
  have e: "PopLimit l s = ?t\<lparr>ci_legit_end := False\<rparr>" by (simp add: PopLimit_def)
  show "coded_inv I okay rest data (PopLimit l s)"
    using t(1) by (simp add: e)
  show "CurrentPosition (PopLimit l s) = CurrentPosition s" "ci_limit (PopLimit l s) = l"
    "ci_total_limit (PopLimit l s) = ci_total_limit s" "ci_input (PopLimit l s) = ci_input s"
    "ci_total (PopLimit l s) = ci_total s"
    using t recompute_fields [of "s\<lparr>ci_limit := l\<rparr>"] by (simp_all add: e)
qed


subsection \<open>Reading from the wrapped stream\<close>

lemma coded_blocked_avail:
  assumes "coded_inv I okay rest data s" and "ci_size s = 0" and "coded_blocked s"
  shows "coded_avail data s = []" and "CurrentPosition s = closest_limit s"
proof -
  note d = coded_invD [OF assms(1)]
  show "CurrentPosition s = closest_limit s"
    using assms(2,3) coded_size_min [OF assms(1)] d(6,11,12) unfolding coded_blocked_def
    by (auto simp: closest_limit_def split: if_splits)
  then show "coded_avail data s = []" by (simp add: coded_avail_def)
qed

lemma coded_unblocked:
  assumes "coded_inv I okay rest data s" and "ci_size s = 0" and "\<not> coded_blocked s"
  obtains i where "ci_input s = Some i" "okay i" "rest i = drop (nat (ci_total s)) data"
    "is_ByteCount I i + int (length (rest i)) = int (length data)"
    "ci_after s = 0" "ci_overflow s = 0" "CurrentPosition s = ci_total s" "ci_total s < INT_MAX"
    "ci_total s < ci_limit s"
proof -
  note d = coded_invD [OF assms(1)]
  have z: "ci_after s = 0" "ci_overflow s = 0" "ci_total s \<noteq> ci_limit s"
    using assms(3) d(2,3) by (auto simp: coded_blocked_def)
  then have p: "CurrentPosition s = ci_total s" by (simp add: CurrentPosition_def assms(2))
  then have l: "ci_total s < ci_limit s" "ci_total s < INT_MAX"
    using d(5,13) z(3) by (auto simp: closest_limit_def coded_ints_def)
  obtain i where "ci_input s = Some i"
    using d(10) l by (cases "ci_input s") (auto simp: coded_at_def)
  with d(10) z p l that show ?thesis by (simp add: coded_at_def coded_pending_def assms(2))
qed

locale coded_source =
  zero_copy_input "is_Next I" "is_BackUp I" "is_Skip I" "is_ByteCount I" okay rest
  for I :: "'s input_stream" and okay :: "'s \<Rightarrow> bool" and rest :: "'s \<Rightarrow> string" +
  fixes data :: string
  assumes rcord: "okay i \<Longrightarrow> 0 \<le> n \<Longrightarrow>
      \<exists>i'. is_ReadCord I out n i = Some (n \<le> int (length (rest i)), out @ take (nat n) (rest i), i')
         \<and> okay i' \<and> rest i' = drop (nat n) (rest i)
         \<and> is_ByteCount I i' = is_ByteCount I i + min n (int (length (rest i)))"
begin

abbreviation J :: "'s coded_input \<Rightarrow> bool" where
  "J \<equiv> coded_inv I okay rest data"

lemma NextNonEmpty_end:
  assumes "okay i" and "rest i = []"
  shows "\<exists>i'. NextNonEmpty (is_Next I) i = Some (None, i') \<and> okay i' \<and> rest i' = []
      \<and> is_ByteCount I i' = is_ByteCount I i"
  using nxt_end [OF assms] by (subst NextNonEmpty.simps) auto

lemma NextNonEmpty_data:
  assumes "okay i" and "rest i \<noteq> []"
  shows "\<exists>c i'. NextNonEmpty (is_Next I) i = Some (Some c, i') \<and> is_Next I i = Some (Some c, i') \<and> okay i'
      \<and> c \<noteq> [] \<and> rest i = c @ rest i' \<and> is_ByteCount I i' = is_ByteCount I i + int (length c)"
  using nxt_data [OF assms] by (subst NextNonEmpty.simps) auto

lemma coded_empty_inv:
  fixes bf :: string
  assumes "J s" and "ci_size s = 0" and "ci_after s = 0" and "ci_overflow s = 0"
    and "okay i'" and "rest i' = drop (nat t) data" and "t \<le> closest_limit s" and "0 \<le> t"
    and "is_ByteCount I i' + int (length (rest i')) = int (length data)" and "ci_input s \<noteq> None"
  defines "s' \<equiv> s\<lparr>ci_input := Some i', ci_buffer := bf, ci_size := 0, ci_total := t\<rparr>"
  shows "J s'" and "coded_frame s' = coded_frame s" and "CurrentPosition s' = t" and "ci_size s' = 0"
proof -
  show p: "coded_frame s' = coded_frame s" "CurrentPosition s' = t" "ci_size s' = 0"
    using assms(10) by (simp_all add: s'_def coded_frame_def CurrentPosition_def assms(3))
  have c: "closest_limit s' = closest_limit s" using p(1) by (rule frame_closest)
  have "coded_ints s'"
    unfolding coded_ints_def c p using assms(3,4,7,8) coded_invD(6,13) [OF assms(1)]
    by (auto simp: s'_def coded_ints_def)
  then show "J s'"
    unfolding coded_inv_def p using assms(3-6,9)
    by (simp add: s'_def coded_at_def coded_pending_def)
qed

lemma coded_Refresh_inv:
  assumes "J s" and "ci_size s = 0"
  shows "\<exists>b s'. coded_Refresh I s = Some (b, s') \<and> J s' \<and> coded_frame s' = coded_frame s
      \<and> CurrentPosition s' = CurrentPosition s
      \<and> (if b then \<not> coded_blocked s \<and> (0 < ci_size s' \<or> coded_blocked s')
         else ci_size s' = 0 \<and> coded_avail data s = [])"
proof (cases "coded_blocked s")
  case True
  with assms coded_blocked_avail(1) [OF assms True] show ?thesis
    by (auto simp: coded_Refresh_def coded_blocked_def)
next
  case False
  note d = coded_invD [OF assms(1)]
  obtain i where i: "ci_input s = Some i" "okay i" "rest i = drop (nat (ci_total s)) data"
    "is_ByteCount I i + int (length (rest i)) = int (length data)"
    "ci_after s = 0" "ci_overflow s = 0" "CurrentPosition s = ci_total s" "ci_total s < INT_MAX"
    "ci_total s < ci_limit s"
    using coded_unblocked [OF assms False] by blast
  have nb: "\<not> (ci_after s > 0 \<or> ci_overflow s > 0 \<or> ci_total s = ci_limit s)" using i by simp
  show ?thesis
  proof (cases "rest i = []")
    case True
    obtain i' where i': "NextNonEmpty (is_Next I) i = Some (None, i')" "okay i'" "rest i' = []"
      "is_ByteCount I i' = is_ByteCount I i"
      using NextNonEmpty_end [OF i(2) True] by blast
    let ?s = "s\<lparr>ci_input := Some i', ci_buffer := [], ci_size := 0\<rparr>"
    have "?s = s\<lparr>ci_input := Some i', ci_buffer := [], ci_size := 0, ci_total := ci_total s\<rparr>" by simp
    with coded_empty_inv [OF assms i(5,6) i'(2), of "ci_total s" "[]"] i i' True d(4,5)
    have "J ?s" "coded_frame ?s = coded_frame s" "CurrentPosition ?s = ci_total s" by simp_all
    moreover have "coded_avail data s = []" using True i(3,7) by (simp add: coded_avail_def)
    moreover have "coded_Refresh I s = Some (False, ?s)"
      using nb by (simp add: coded_Refresh_def i(1) i'(1))
    ultimately show ?thesis using i(7) by auto
  next
    case False
    obtain c i' where c: "NextNonEmpty (is_Next I) i = Some (Some c, i')" "is_Next I i = Some (Some c, i')"
      "okay i'" "c \<noteq> []" "rest i = c @ rest i'" "is_ByteCount I i' = is_ByteCount I i + int (length c)"
      using NextNonEmpty_data [OF i(2) False] by blast
    define n where "n = int (length c)"
    define ov where "ov = max 0 (ci_total s + n - INT_MAX)"
    define t where "t = s\<lparr>ci_input := Some i', ci_buffer := c, ci_size := n - ov,
        ci_total := ci_total s + n - ov, ci_overflow := ov\<rparr>"
    have n: "0 < n" using c(4) by (simp add: n_def)
    have ov: "0 \<le> ov" "ov < n" "0 < ov \<Longrightarrow> ci_total s + n - ov = INT_MAX" "ci_total s + n - ov \<le> INT_MAX"
      using i(8) n by (auto simp: ov_def)
    have "coded_Refresh I s = Some (True, RecomputeBufferLimits t)"
      using nb by (auto simp: coded_Refresh_def i(1) c(1) Let_def t_def ov_def n_def i(6) max_def
          intro!: arg_cong [of _ _ RecomputeBufferLimits])
    note R = this
    have pt: "CurrentPosition t = CurrentPosition s" "closest_limit t = closest_limit s"
      "coded_frame t = coded_frame s" "coded_pending t = n"
      by (simp_all add: t_def CurrentPosition_def assms(2) i(5) closest_limit_def coded_frame_def coded_pending_def i(1))
    have "is_ByteCount I i' + int (length (rest i')) = int (length data)" using i(4) c(5,6) by simp
    then have "coded_at I okay rest data t (drop (nat (CurrentPosition s)) data)"
      unfolding coded_at_def pt(4) using i(2,3,7) c(2,3,5) n
      by (auto simp: t_def n_def intro!: exI [of _ i] exI [of _ c])
    moreover have "prefix (take k c) (drop (nat (ci_total s)) data)" for k
      unfolding i(3) [symmetric] c(5) by (rule prefix_order.trans [OF take_is_prefix]) simp
    ultimately have r: "J (RecomputeBufferLimits t)"
      using d(4,5,13) ov i(5,7)
      by (intro recompute_inv) (simp_all add: pt, auto simp: t_def coded_ints_def n_def)
    note f = recompute_fields [of t]
    have "0 < ci_size (RecomputeBufferLimits t) \<or> coded_blocked (RecomputeBufferLimits t)"
    proof (rule disjCI)
      assume "\<not> coded_blocked (RecomputeBufferLimits t)"
      then have "ci_after (RecomputeBufferLimits t) = 0"
        using coded_invD(2) [OF r] by (auto simp: coded_blocked_def)
      then have "ci_size (RecomputeBufferLimits t) = n - ov"
        using f(1) by (simp add: t_def i(5))
      then show "0 < ci_size (RecomputeBufferLimits t)" using ov(2) by simp
    qed
    then show ?thesis using R r pt f \<open>\<not> coded_blocked s\<close> by auto
  qed
qed

end

end
