(* ===== verification/Coded_Raw.thy ===== *)
theory Coded_Raw
  imports Coded_Laws
begin

section \<open>Raw bytes through CodedInputStream\<close>

text \<open>
  Every operation that reads or skips \<open>n\<close> bytes does the same to the readable bytes
  \<open>coded_avail data s\<close>, wherever the buffers end: it takes \<open>n\<close> of them, or all there are and
  fails. \<open>coded_took\<close> says so; after a success the position has moved by \<open>n\<close>.
\<close>

definition coded_took :: "string \<Rightarrow> int \<Rightarrow> 's coded_input \<Rightarrow> bool \<Rightarrow> 's coded_input \<Rightarrow> bool" where
  "coded_took data n s b s' \<longleftrightarrow>
     (b \<longleftrightarrow> n \<le> int (length (coded_avail data s)))
     \<and> coded_avail data s' = drop (nat n) (coded_avail data s)
     \<and> (b \<longrightarrow> CurrentPosition s' = CurrentPosition s + n)
     \<and> coded_frame s' = coded_frame s"

text \<open>Taking what the buffer has, and the rest from where the buffer ends.\<close>

lemma coded_took_trans:
  assumes "coded_took data k s True s1" and "coded_took data (n - k) s1 b s2" and "0 \<le> k" and "k \<le> n"
  shows "coded_took data n s b s2"
proof -
  have "length (coded_avail data s1) = length (coded_avail data s) - nat k"
    using assms(1) by (simp add: coded_took_def)
  moreover have "nat (n - k) + nat k = nat n" using assms(3,4) by simp
  ultimately show ?thesis
    using assms by (auto simp: coded_took_def nat_le_iff)
qed

lemma coded_took_skip:
  assumes "coded_took data n s1 b s2" and "CurrentPosition s1 = CurrentPosition s"
    and "coded_frame s1 = coded_frame s"
  shows "coded_took data n s b s2"
proof -
  have "coded_avail data s1 = coded_avail data s"
    using assms(2) frame_closest [OF assms(3)] by (simp add: coded_avail_def)
  with assms show ?thesis by (simp add: coded_took_def)
qed

lemma coded_Advance_took:
  assumes "coded_inv I okay rest data s" and "0 \<le> n" and "n \<le> ci_size s"
  shows "coded_took data n s True (coded_Advance n s)"
  using coded_Advance_inv [OF assms] coded_copy(2) [OF assms(1,3)] assms(2)
  by (simp add: coded_took_def nat_le_iff)

lemma coded_fail_took:
  assumes "coded_avail data s = []" and "0 < n" and "CurrentPosition s' = CurrentPosition s"
    and "coded_frame s' = coded_frame s"
  shows "coded_took data n s False s'"
proof -
  have "coded_avail data s' = []"
    using assms frame_closest [OF assms(4)] by (simp add: coded_avail_def)
  with assms show ?thesis by (simp add: coded_took_def)
qed

text \<open>Why the reading loops end: a blocked stream is at its limit.\<close>

definition refill_rank :: "int \<Rightarrow> 's coded_input \<Rightarrow> nat" where
  "refill_rank n s = 3 * nat n + (if 0 < ci_size s then 0 else if coded_blocked s then 1 else 2)"

context coded_source
begin

text \<open>One turn of the reading loops: the buffer is used up, then refilled.\<close>

lemma refill_turn:
  assumes "J s" and "ci_size s < n"
  obtains (Stop) s' where "coded_Refresh I (coded_Advance (ci_size s) s) = Some (False, s')" "J s'"
      "coded_took data n s False s'" "coded_avail data s = take (nat (ci_size s)) (coded_avail data s)"
  | (Go) s' where "coded_Refresh I (coded_Advance (ci_size s) s) = Some (True, s')" "J s'"
      "coded_took data (ci_size s) s True s'" "refill_rank (n - ci_size s) s' < refill_rank n s"
proof -
  note d = coded_invD [OF assms(1)]
  let ?a = "coded_Advance (ci_size s) s"
  note a = coded_Advance_inv [OF assms(1) d(1) order_refl]
    and t = coded_Advance_took [OF assms(1) d(1) order_refl]
  have z: "ci_size ?a = 0" using a(4) by simp
  obtain b s' where r: "coded_Refresh I ?a = Some (b, s')" "J s'" "coded_frame s' = coded_frame ?a"
    "CurrentPosition s' = CurrentPosition ?a"
    "if b then \<not> coded_blocked ?a \<and> (0 < ci_size s' \<or> coded_blocked s')
     else ci_size s' = 0 \<and> coded_avail data ?a = []"
    using coded_Refresh_inv [OF a(1) z] by blast
  show thesis
  proof (cases b)
    case False
    with r(5) have e: "coded_avail data ?a = []" by simp
    have "coded_took data (n - ci_size s) ?a False s'"
      by (rule coded_fail_took [OF e _ r(4,3)]) (use assms(2) in simp)
    with t have "coded_took data n s False s'"
      by (rule coded_took_trans) (use d(1) assms(2) in simp_all)
    moreover have "coded_avail data s = take (nat (ci_size s)) (coded_avail data s)"
      using e a(5) by simp
    ultimately show thesis using Stop r(1,2) False by simp
  next
    case True
    have "coded_took data (ci_size s) s True s'"
    proof -
      have "coded_avail data s' = coded_avail data ?a"
        using r(4) frame_closest [OF r(3)] by (simp add: coded_avail_def)
      with t r(3,4) show ?thesis by (simp add: coded_took_def)
    qed
    moreover have "refill_rank (n - ci_size s) s' < refill_rank n s"
      using True r(5) a(6) assms(2) d(1) unfolding refill_rank_def by auto
    ultimately show thesis using Go r(1,2) True by simp
  qed
qed

lemma ReadRaw_loop_took:
  assumes "J s" and "0 \<le> n"
  shows "\<exists>b s'. ReadRaw_loop I out n s = Some (b, out @ take (nat n) (coded_avail data s), s')
      \<and> J s' \<and> coded_took data n s b s'"
  using assms
proof (induction "refill_rank n s" arbitrary: out n s rule: less_induct)
  case less
  note d = coded_invD [OF less.prems(1)]
  note copy = coded_copy(1) [OF less.prems(1)]
  show ?case
  proof (cases "ci_size s < n")
    case False
    with less.prems coded_Advance_inv(1) [OF less.prems(1,2)] coded_Advance_took [OF less.prems(1,2)]
    show ?thesis by (subst ReadRaw_loop.simps) (auto simp: copy)
  next
    case True
    have zero: "coded_Advance 0 s = s" by (simp add: coded_Advance_def)
    have step: "ReadRaw_loop I out n s = do {
        (b, s') \<leftarrow> coded_Refresh I (coded_Advance (ci_size s) s);
        if \<not> b then Some (False, out @ take (nat (ci_size s)) (coded_avail data s), s')
        else ReadRaw_loop I (out @ take (nat (ci_size s)) (coded_avail data s)) (n - ci_size s) s' }"
      using True d(1) by (subst ReadRaw_loop.simps, cases "ci_size s = 0") (simp_all add: copy zero cong: if_cong)
    from less.prems(1) True show ?thesis
    proof (cases rule: refill_turn)
      case (Stop s')
      have "take (nat n) (coded_avail data s) = take (nat (ci_size s)) (coded_avail data s)"
        using True arg_cong [OF Stop(4), of "take (nat n)"] by (simp add: min_def)
      with Stop(1-3) show ?thesis by (auto simp: step)
    next
      case (Go s')
      have "0 \<le> n - ci_size s" using True by simp
      from less.hyps [OF Go(4,2) this] obtain b s2 where
        r: "ReadRaw_loop I (out @ take (nat (ci_size s)) (coded_avail data s)) (n - ci_size s) s'
            = Some (b, (out @ take (nat (ci_size s)) (coded_avail data s))
                @ take (nat (n - ci_size s)) (coded_avail data s'), s2)"
          "J s2" "coded_took data (n - ci_size s) s' b s2"
        by blast
      have "take (nat (ci_size s)) (coded_avail data s) @ take (nat (n - ci_size s)) (coded_avail data s')
          = take (nat n) (coded_avail data s)"
        using Go(3) True d(1) by (simp add: coded_took_def nat_diff_distrib' flip: take_add)
      moreover have "coded_took data n s b s2"
        using Go(3) r(3) d(1) by (rule coded_took_trans) (use True in simp)
      ultimately show ?thesis using r(1,2) Go(1) by (auto simp: step)
    qed
  qed
qed

lemma ReadRaw_took:
  assumes "J s" and "0 \<le> n"
  shows "\<exists>b s'. ReadRaw I n s = Some (b, take (nat n) (coded_avail data s), s')
      \<and> J s' \<and> coded_took data n s b s'"
  using ReadRaw_loop_took [OF assms, of "[]"] assms
  by (cases "n = 0") (auto simp: ReadRaw_def coded_took_def)

lemma ReadString_loop_took:
  assumes "J s" and "0 \<le> n"
  shows "\<exists>b s'. ReadString_loop I out n s = Some (b, out @ take (nat n) (coded_avail data s), s')
      \<and> J s' \<and> coded_took data n s b s'"
proof -
  have "ReadString_loop I out n s = ReadRaw_loop I out n s"
    using assms
  proof (induction "refill_rank n s" arbitrary: out n s rule: less_induct)
    case less
    note d = coded_invD [OF less.prems(1)]
    note copy = coded_copy(1) [OF less.prems(1)]
    show ?case
    proof (cases "ci_size s < n")
      case False
      then show ?thesis by (subst ReadString_loop.simps, subst ReadRaw_loop.simps) simp
    next
      case True
      have zero: "coded_Advance 0 s = s" by (simp add: coded_Advance_def)
      from less.prems(1) True show ?thesis
      proof (cases rule: refill_turn)
        case (Stop s')
        then show ?thesis
          using True d(1) by (subst ReadString_loop.simps, subst ReadRaw_loop.simps, cases "ci_size s = 0")
            (simp_all add: copy zero)
      next
        case (Go s')
        have "0 \<le> n - ci_size s" using True by simp
        note ih = less.hyps [OF Go(4,2) this]
        from Go(1) True d(1) show ?thesis
          by (subst ReadString_loop.simps, subst ReadRaw_loop.simps, cases "ci_size s = 0")
            (use ih in \<open>simp_all add: copy zero\<close>)
      qed
    qed
  qed
  with ReadRaw_loop_took [OF assms, of out] show ?thesis by simp
qed

lemma ReadString_took:
  assumes "J s" and "0 \<le> n"
  shows "\<exists>b s'. ReadString I out n s = Some (b, take (nat n) (coded_avail data s), s')
      \<and> J s' \<and> coded_took data n s b s'"
proof (cases "ci_size s \<ge> n")
  case True
  with assms coded_Advance_took [OF assms True] coded_Advance_inv(1) [OF assms True] show ?thesis
    by (auto simp: ReadString_def coded_copy(1))
next
  case False
  with ReadString_loop_took [OF assms, of "[]"] assms(2) show ?thesis
    by (simp add: ReadString_def ReadStringFallback_def)
qed

subsection \<open>Skipping\<close>

text \<open>The wrapped stream stands at the current position once the buffer is used up.\<close>

lemma coded_no_pending:
  assumes "J s" and "coded_pending s = 0" and "ci_input s = Some i"
  shows "okay i" and "rest i = drop (nat (ci_total s)) data" and "CurrentPosition s = ci_total s"
    and "is_ByteCount I i + int (length (rest i)) = int (length data)"
    and "ci_size s = 0" and "ci_after s = 0" and "ci_overflow s = 0"
proof -
  note d = coded_invD [OF assms(1)]
  show z: "ci_size s = 0" "ci_after s = 0" "ci_overflow s = 0"
    using assms(2) d(1-3) by (auto simp: coded_pending_def)
  then show p: "CurrentPosition s = ci_total s" by (simp add: CurrentPosition_def)
  show "okay i" "rest i = drop (nat (ci_total s)) data"
    "is_ByteCount I i + int (length (rest i)) = int (length data)"
    using d(10) assms(2,3) by (simp_all add: coded_at_def p)
qed

lemma coded_buffer_inv:
  assumes "J s" and "ci_size s + ci_after s = 0"
  shows "J (s\<lparr>ci_buffer := b\<rparr>)"
proof -
  have "coded_at I okay rest data (s\<lparr>ci_buffer := b\<rparr>) r = coded_at I okay rest data s r" for r
    by (simp add: coded_at_def coded_pending_def cong: option.case_cong)
  moreover have "coded_ints (s\<lparr>ci_buffer := b\<rparr>) = coded_ints s" "CurrentPosition (s\<lparr>ci_buffer := b\<rparr>) = CurrentPosition s"
    by (simp_all add: coded_ints_def CurrentPosition_def closest_limit_def)
  ultimately show ?thesis
    using assms by (simp add: coded_inv_def)
qed

text \<open>After moving the wrapped stream by \<open>k\<close> bytes, the position is set to \<open>t\<close>.\<close>

lemma coded_input_took:
  fixes bf :: string
  assumes "J s" and "coded_pending s = 0" and "ci_input s = Some i" and "0 \<le> k"
    and "okay i'" and "rest i' = drop (nat k) (rest i)"
    and "is_ByteCount I i' = is_ByteCount I i + min k (int (length (rest i)))"
    and "rest i' = drop (nat t) data" and "0 \<le> t" and "t \<le> closest_limit s"
    and "b \<longleftrightarrow> n \<le> int (length (coded_avail data s))" and "b \<Longrightarrow> t = ci_total s + n"
    and "coded_avail data s = take (nat (closest_limit s - ci_total s)) (rest i) \<Longrightarrow>
           take (nat (closest_limit s - t)) (rest i') = drop (nat n) (coded_avail data s)"
  defines "s' \<equiv> s\<lparr>ci_input := Some i', ci_buffer := bf, ci_size := 0, ci_total := t\<rparr>"
  shows "J s'" and "coded_took data n s b s'"
proof -
  note z = coded_no_pending [OF assms(1-3)]
  have bc: "is_ByteCount I i' + int (length (rest i')) = int (length data)"
    using z(4) assms(4,6,7) by (auto simp: min_def of_nat_diff)
  from assms(3) have "ci_input s \<noteq> None" by simp
  note e = coded_empty_inv [OF assms(1) z(5-7) assms(5,8,10,9) bc this, where bf = bf, folded s'_def]
  show "J s'" by (rule e(1))
  have "coded_avail data s = take (nat (closest_limit s - ci_total s)) (rest i)"
    by (simp add: coded_avail_def z(2,3))
  from assms(13) [OF this] have "coded_avail data s' = drop (nat n) (coded_avail data s)"
    by (simp add: coded_avail_def e(3) frame_closest [OF e(2)] assms(8))
  then show "coded_took data n s b s'"
    using e(2,3) assms(11,12) z(3) by (simp add: coded_took_def)
qed

text \<open>\<open>SkipFallback\<close> once the buffer is used up: nothing is left before the limit, or it goes on in
  the wrapped stream.\<close>

lemma coded_pending_limit:
  assumes "J s" and "ci_size s = 0" and "ci_input s = None \<or> 0 < ci_after s + ci_overflow s"
  shows "coded_avail data s = []" and "closest_limit s \<le> ci_total s"
proof -
  note d = coded_invD [OF assms(1)]
  have "CurrentPosition s = closest_limit s \<and> closest_limit s \<le> ci_total s"
  proof (cases "ci_input s")
    case None
    then have "ci_limit s \<le> ci_total s" using d(10) by (simp add: coded_at_def)
    then show ?thesis
      using coded_size_min [OF assms(1)] assms(2) by (auto simp: closest_limit_def min_def split: if_splits)
  next
    case (Some i)
    then have "0 < ci_after s \<or> 0 < ci_overflow s" using assms(3) d(2,3) by auto
    then show ?thesis
      using coded_size_min [OF assms(1)] assms(2) d(6,11,12) by (auto simp: max_def split: if_splits)
  qed
  then show "coded_avail data s = []" "closest_limit s \<le> ci_total s" by (simp_all add: coded_avail_def)
qed

lemma SkipFallback_took:
  assumes "J s" and "ci_size s < n"
  shows "\<exists>b s'. SkipFallback I n (ci_size s) s = Some (b, s') \<and> J s' \<and> coded_took data n s b s'"
proof -
  note d = coded_invD [OF assms(1)]
  define a where "a = coded_Advance (ci_size s) s"
  note A = coded_Advance_inv [OF assms(1) d(1) order_refl, folded a_def]
    and T = coded_Advance_took [OF assms(1) d(1) order_refl, folded a_def]
  define k where "k = n - ci_size s"
  have k: "0 < k" using assms(2) by (simp add: k_def)
  have fields: "ci_after a = ci_after s" "ci_overflow a = ci_overflow s" "ci_input a = ci_input s"
    "ci_total a = ci_total s" "ci_size a = 0"
    by (simp_all add: a_def coded_Advance_def)
  have go: "\<exists>b s'. SkipFallback I n (ci_size s) s = Some (b, s') \<and> J s' \<and> coded_took data k a b s'
      \<Longrightarrow> ?thesis"
    using coded_took_trans [OF T] d(1) assms(2) by (auto simp: k_def)
  define e where "e = a\<lparr>ci_buffer := []\<rparr>"
  have e: "e = s\<lparr>ci_buffer := [], ci_size := 0\<rparr>" by (simp add: e_def a_def coded_Advance_def)
  have fr: "coded_frame e = coded_frame a" "CurrentPosition e = CurrentPosition a" "closest_limit e = closest_limit a"
    by (simp_all add: e_def coded_frame_def CurrentPosition_def closest_limit_def)
  show ?thesis
  proof (cases "0 < ci_after s")
    case True
    then have "SkipFallback I n (ci_size s) s = Some (False, a)"
      by (simp add: SkipFallback_def a_def)
    moreover have "coded_avail data a = []"
      using coded_pending_limit(1) [OF A(1)] fields True d(3) by simp
    ultimately show ?thesis
      using A(1) k by (intro go) (auto intro!: coded_fail_took)
  next
    case False
    then have after: "ci_after s = 0" using d(2) by simp
    have J: "J e" unfolding e_def by (rule coded_buffer_inv [OF A(1)]) (simp add: fields after)
    define u where "u = closest_limit e - ci_total e"
    have te: "ci_total e = ci_total s" "ci_size e = 0" "ci_after e = 0" "ci_overflow e = ci_overflow s"
      "ci_input e = ci_input s" by (simp_all add: e after)
    have pe: "CurrentPosition e = ci_total e" by (simp add: CurrentPosition_def te)
    have sf: "SkipFallback I n (ci_size s) s =
        (if u < k
         then if u > 0
              then do { i \<leftarrow> ci_input e; (_, i) \<leftarrow> is_Skip I u i;
                        Some (False, e\<lparr>ci_input := Some i, ci_total := closest_limit e\<rparr>) }
              else Some (False, e)
         else do { i \<leftarrow> ci_input e; (b, i) \<leftarrow> is_Skip I k i;
                   if \<not> b then Some (False, e\<lparr>ci_input := Some i, ci_total := to_i32 (is_ByteCount I i)\<rparr>)
                   else Some (True, e\<lparr>ci_input := Some i, ci_total := ci_total e + k\<rparr>) })"
      by (simp add: SkipFallback_def after Let_def u_def k_def e cong: if_cong)
    have took: "coded_took data k e b s' \<Longrightarrow> coded_took data k a b s'" for b s'
      by (rule coded_took_skip [OF _ fr(2,1)])
    show ?thesis
    proof (cases "u > 0")
      case False
      then have "u = 0" using coded_invD(5) [OF J] by (simp add: u_def pe)
      then have "coded_avail data e = []" by (simp add: coded_avail_def pe u_def)
      then have "coded_took data k e False e" using k by (intro coded_fail_took) simp_all
      with J took sf \<open>u = 0\<close> k show ?thesis by (intro go) auto
    next
      case True
      have "\<not> (ci_input e = None \<or> 0 < ci_after e + ci_overflow e)"
        by (rule notI) (use coded_pending_limit(2) [OF J te(2)] True in \<open>simp add: u_def\<close>)
      then have ne: "ci_input e \<noteq> None" "\<not> 0 < ci_after e + ci_overflow e" by simp_all
      then have "coded_pending e = 0" using coded_invD(1-3) [OF J] te(2) by (simp add: coded_pending_def)
      moreover obtain i where "ci_input e = Some i" using ne(1) by blast
      ultimately obtain i where i: "ci_input e = Some i" "coded_pending e = 0" by blast
      note z = coded_no_pending [OF J i(2,1)]
      have av: "coded_avail data e = take (nat u) (rest i)" by (simp add: coded_avail_def pe z(2) u_def)
      have ce: "closest_limit e \<le> INT_MAX" "0 \<le> ci_total e" using coded_invD(4,6) [OF J] pe by simp_all
      define m where "m = min u k"
      have m: "0 < m" using True k by (simp add: m_def)
      from skip_rest [OF z(1) m] obtain i' where i': "is_Skip I m i = Some (m \<le> int (length (rest i)), i')"
        "okay i'" "rest i' = drop (nat m) (rest i)"
        "is_ByteCount I i' = is_ByteCount I i + min m (int (length (rest i)))"
        by blast
      have tm: "rest i' = drop (nat (ci_total e + m)) data"
        using z(2) ce(2) m i'(3) by (simp add: nat_add_distrib add.commute)
      define upd where "upd t = e\<lparr>ci_input := Some i', ci_total := t\<rparr>" for t
      have upd: "e\<lparr>ci_input := Some i', ci_buffer := [], ci_size := 0, ci_total := t\<rparr> = upd t" for t
        by (simp add: upd_def e)
      note it = coded_input_took [OF J i(2,1) _ i'(2,3,4), where bf = "[]", unfolded upd]
      consider (limit) "u < k" | (eof) "\<not> u < k" "int (length (rest i)) < k" | (ok) "\<not> u < k" "k \<le> int (length (rest i))"
        by linarith
      then show ?thesis
      proof cases
        case limit
        then have mu: "m = u" by (simp add: m_def)
        have "J (upd (closest_limit e))" "coded_took data k e False (upd (closest_limit e))"
          using it [of "closest_limit e" False k] tm ce True limit
          by (auto simp: mu u_def av)
        moreover have "SkipFallback I n (ci_size s) s = Some (False, upd (closest_limit e))"
          using limit True i'(1) by (simp add: sf i(1) mu upd_def)
        ultimately show ?thesis using took by (intro go) auto
      next
        case eof
        then have mk: "m = k" by (simp add: m_def)
        have r: "rest i' = []" using i'(3) eof(2) by (simp add: mk)
        have c: "is_ByteCount I i' = int (length data)"
          using z(4) i'(4) eof(2) k by (simp add: mk)
        have ld: "int (length data) < ci_total e + k"
          using eof(2) z(2) ce(2) by (simp add: nat_less_iff)
        have lt: "int (length data) \<le> closest_limit e" using ld eof(1) by (simp add: u_def)
        then have "in_i32 (int (length data))" using ce(1) by (simp add: in_i32_def INT_MAX_def)
        then have ti: "to_i32 (is_ByteCount I i') = int (length data)" by (simp add: c to_i32_id)
        have "J (upd (int (length data)))" "coded_took data k e False (upd (int (length data)))"
          using it [of "int (length data)" False k] r lt eof k by (auto simp: mk av)
        moreover have "SkipFallback I n (ci_size s) s = Some (False, upd (int (length data)))"
          using eof i'(1) by (simp add: sf i(1) mk upd_def ti)
        ultimately show ?thesis using took by (intro go) auto
      next
        case ok
        then have mk: "m = k" by (simp add: m_def)
        have "ci_total e + k \<le> closest_limit e" using ok(1) by (simp add: u_def)
        moreover have "take (nat (closest_limit e - (ci_total e + k))) (drop (nat k) (rest i))
            = drop (nat k) (take (nat (closest_limit e - ci_total e)) (rest i))"
        proof -
          have "nat (closest_limit e - (ci_total e + k)) = nat (closest_limit e - ci_total e) - nat k"
            using k by simp
          then show ?thesis by (simp only: drop_take)
        qed
        ultimately have "J (upd (ci_total e + k))" "coded_took data k e True (upd (ci_total e + k))"
          using it [of "ci_total e + k" True k] tm ce k ok i'(3) by (auto simp: mk av nat_le_iff)
        moreover have "SkipFallback I n (ci_size s) s = Some (True, upd (ci_total e + k))"
          using ok i'(1) by (simp add: sf i(1) mk upd_def)
        ultimately show ?thesis using took by (intro go) auto
      qed
    qed
  qed
qed

lemma coded_Skip_took:
  assumes "J s" and "0 \<le> n"
  shows "\<exists>b s'. coded_Skip I n s = Some (b, s') \<and> J s' \<and> coded_took data n s b s'"
proof (cases "n \<le> ci_size s")
  case True
  with assms coded_Advance_took [OF assms True] coded_Advance_inv(1) [OF assms True] show ?thesis
    by (auto simp: coded_Skip_def)
next
  case False
  with SkipFallback_took [OF assms(1), of n] assms(2) show ?thesis by (auto simp: coded_Skip_def)
qed

subsection \<open>Cords, and giving the buffer back\<close>

lemma BackUpInput_inv:
  assumes "J s" and "ci_input s = Some i"
  shows "\<exists>s' i'. BackUpInputToCurrentPosition I s = Some s' \<and> J s' \<and> coded_frame s' = coded_frame s
      \<and> CurrentPosition s' = CurrentPosition s \<and> coded_pending s' = 0 \<and> ci_input s' = Some i'
      \<and> okay i' \<and> rest i' = drop (nat (CurrentPosition s)) data"
proof -
  note d = coded_invD [OF assms(1)]
  show ?thesis
  proof (cases "coded_pending s = 0")
    case True
    with coded_no_pending [OF assms(1) True assms(2)] assms show ?thesis
      by (auto simp: BackUpInputToCurrentPosition_def coded_pending_def)
  next
    case False
    then have p: "0 < coded_pending s" using d(1-3) by (simp add: coded_pending_def)
    from d(10) False assms(2) obtain i0 c where c: "okay i0" "is_Next I i0 = Some (Some c, i)"
      "coded_pending s \<le> int (length c)" "okay i" "is_ByteCount I i + int (length (rest i)) = int (length data)"
      "drop (nat (CurrentPosition s)) data = drop (length c - nat (coded_pending s)) c @ rest i"
      by (auto simp: coded_at_def)
    from backup_nxt [OF c(1,2) _ c(3)] p obtain i' where i': "is_BackUp I (coded_pending s) i = Some i'" "okay i'"
      "rest i' = drop (nat (CurrentPosition s)) data" "is_ByteCount I i' = is_ByteCount I i - coded_pending s"
      by (auto simp: c(6))
    let ?s = "s\<lparr>ci_input := Some i', ci_total := CurrentPosition s, ci_buffer := [], ci_size := 0,
      ci_after := 0, ci_overflow := 0\<rparr>"
    have b: "BackUpInputToCurrentPosition I s = Some ?s"
      using p i'(1) assms(2) by (simp add: BackUpInputToCurrentPosition_def Let_def coded_pending_def CurrentPosition_def)
    have f: "coded_frame ?s = coded_frame s" "CurrentPosition ?s = CurrentPosition s"
      "closest_limit ?s = closest_limit s" "coded_pending ?s = 0"
      using assms(2) by (simp_all add: coded_frame_def CurrentPosition_def closest_limit_def coded_pending_def)
    have "length (drop (nat (CurrentPosition s)) data) = nat (coded_pending s) + length (rest i)"
      using c(3) p by (simp add: c(6) nat_le_iff)
    then have "is_ByteCount I i' + int (length (rest i')) = int (length data)"
      using c(5) i'(3,4) p by simp
    moreover have "coded_ints ?s"
      using d(4,5,6,13) unfolding coded_ints_def f by simp
    ultimately have "J ?s"
      unfolding coded_inv_def f using i'(2,3) by (simp add: coded_at_def f)
    with b f i'(2,3) show ?thesis by fastforce
  qed
qed

text \<open>The destructor leaves the wrapped stream at the first unread byte.\<close>

lemma coded_destroy_rest:
  assumes "J s" and "ci_input s = Some i"
  shows "\<exists>i'. coded_destroy I s = Some (Some i') \<and> okay i' \<and> rest i' = drop (nat (CurrentPosition s)) data"
  using BackUpInput_inv [OF assms] assms(2) by (auto simp: coded_destroy_def)

lemma ReadCord_from_input_took:
  assumes "J s" and "coded_pending s = 0" and "ci_input s = Some i" and "0 \<le> n"
  shows "\<exists>b s'. ReadCord_from_input I out n s = Some (b, out @ take (nat n) (coded_avail data s), s')
      \<and> J s' \<and> coded_took data n s b s'"
proof -
  note z = coded_no_pending [OF assms(1-3)]
  note d = coded_invD [OF assms(1)]
  define u where "u = closest_limit s - ci_total s"
  have u: "0 \<le> u" "0 \<le> ci_total s" using d(4,5) by (simp_all add: u_def z(3))
  have av: "coded_avail data s = take (nat u) (rest i)" by (simp add: coded_avail_def z(2,3) u_def)
  define m where "m = min u n"
  have m: "0 \<le> m" using u assms(4) by (simp add: m_def)
  from rcord [OF z(1) m] obtain i' where i': "is_ReadCord I out m i
        = Some (m \<le> int (length (rest i)), out @ take (nat m) (rest i), i')" "okay i'"
    "rest i' = drop (nat m) (rest i)" "is_ByteCount I i' = is_ByteCount I i + min m (int (length (rest i)))"
    by blast
  have tm: "rest i' = drop (nat (ci_total s + m)) data"
    using z(2) u(2) m i'(3) by (simp add: nat_add_distrib add.commute)
  have out: "take (nat m) (rest i) = take (nat n) (coded_avail data s)"
    by (cases "u \<le> n") (use u assms(4) in \<open>simp_all add: av m_def min_def nat_le_iff\<close>)
  define upd where "upd t = s\<lparr>ci_input := Some i', ci_total := t\<rparr>" for t
  have upd: "s\<lparr>ci_input := Some i', ci_buffer := ci_buffer s, ci_size := 0, ci_total := t\<rparr> = upd t" for t
    using z(5) by (simp add: upd_def)
  note it = coded_input_took [OF assms(1-3) m i'(2,3,4), where bf = "ci_buffer s", unfolded upd]
  show ?thesis
  proof (cases "u < n")
    case True
    then have mu: "m = u" by (simp add: m_def)
    have "ReadCord_from_input I out n s
        = Some (False, out @ take (nat n) (coded_avail data s), upd (closest_limit s))"
      using True i'(1) out by (simp add: ReadCord_from_input_def assms(3) u_def [symmetric] mu Let_def upd_def)
    moreover have "J (upd (closest_limit s))" "coded_took data n s False (upd (closest_limit s))"
      using it [of "closest_limit s" False n] tm u True by (auto simp: mu u_def av)
    ultimately show ?thesis by blast
  next
    case False
    then have mn: "m = n" by (simp add: m_def)
    let ?b = "n \<le> int (length (rest i))"
    have "ReadCord_from_input I out n s
        = Some (?b, out @ take (nat n) (coded_avail data s), upd (ci_total s + n))"
      using False i'(1) out by (simp add: ReadCord_from_input_def assms(3) u_def [symmetric] mn Let_def upd_def)
    moreover have "take (nat (closest_limit s - (ci_total s + n))) (drop (nat n) (rest i))
            = drop (nat n) (take (nat (closest_limit s - ci_total s)) (rest i))"
    proof -
      have "nat (closest_limit s - (ci_total s + n)) = nat (closest_limit s - ci_total s) - nat n"
        using assms(4) by simp
      then show ?thesis by (simp only: drop_take)
    qed
    moreover have b: "?b \<longleftrightarrow> n \<le> int (length (coded_avail data s))" using False by (auto simp: av)
    have t: "rest i' = drop (nat (ci_total s + n)) data" "0 \<le> ci_total s + n" "ci_total s + n \<le> closest_limit s"
      using tm u False assms(4) by (simp_all add: mn u_def)
    ultimately have "J (upd (ci_total s + n))" "coded_took data n s ?b (upd (ci_total s + n))"
      using it [OF t b] i'(3) by (simp_all add: mn av u_def)
    with \<open>ReadCord_from_input I out n s = _\<close> show ?thesis by blast
  qed
qed

lemma coded_ReadCord_took:
  assumes "J s" and "0 \<le> n"
  shows "\<exists>b s'. coded_ReadCord I n s = Some (b, take (nat n) (coded_avail data s), s')
      \<and> J s' \<and> coded_took data n s b s'"
proof (cases "ci_input s = None \<or> n < kMaxCordBytesToCopy")
  case False
  then obtain i where i: "ci_input s = Some i" by auto
  obtain t i' where t: "BackUpInputToCurrentPosition I s = Some t" "J t" "coded_frame t = coded_frame s"
    "CurrentPosition t = CurrentPosition s" "coded_pending t = 0" "ci_input t = Some i'"
    using BackUpInput_inv [OF assms(1) i] by blast
  have "coded_avail data t = coded_avail data s"
    using t(4) frame_closest [OF t(3)] by (simp add: coded_avail_def)
  with ReadCord_from_input_took [OF t(2,5,6) assms(2), of "[]"] coded_took_skip [OF _ t(4,3)] False assms(2) t(1)
  show ?thesis by (auto simp: coded_ReadCord_def)
next
  case True
  note d = coded_invD [OF assms(1)]
  define k where "k = min n (ci_size s)"
  have k: "0 \<le> k" "k \<le> ci_size s" "k \<le> n" using assms(2) d(1) by (auto simp: k_def)
  define a where "a = coded_Advance k s"
  note A = coded_Advance_inv [OF assms(1) k(1,2), folded a_def]
    and T = coded_Advance_took [OF assms(1) k(1,2), folded a_def]
  have copy: "copy_bytes k s = Some (take (nat k) (coded_avail data s))"
    "int (length (take (nat k) (coded_avail data s))) = k"
    using coded_copy [OF assms(1) k(2)] k(1) by simp_all
  have e: "coded_ReadCord I n s =
      (if n - k = 0 then Some (True, take (nat k) (coded_avail data s), a)
       else if ci_input a = None \<or> ci_after a + ci_overflow a > 0
       then Some (False, take (nat k) (coded_avail data s), a)
       else ReadCord_from_input I (take (nat k) (coded_avail data s)) (n - k) a)"
    using True assms(2) copy by (simp add: coded_ReadCord_def k_def [symmetric] Let_def a_def coded_Advance_def)
  have cat: "take (nat k) (coded_avail data s) @ take (nat (n - k)) (coded_avail data a)
      = take (nat n) (coded_avail data s)"
    using k by (simp add: A(5) nat_diff_distrib' flip: take_add)
  show ?thesis
  proof (cases "n - k = 0")
    case True
    with e T A(1) show ?thesis by auto
  next
    case False
    then have z: "ci_size a = 0" and pos: "0 < n - k"
      using A(4) k by (auto simp: k_def)
    show ?thesis
    proof (cases "ci_input a = None \<or> ci_after a + ci_overflow a > 0")
      case True
      from coded_pending_limit(1) [OF A(1) z True] have em: "coded_avail data a = []" .
      have "coded_took data (n - k) a False a" using em pos by (intro coded_fail_took) simp_all
      with T have "coded_took data n s False a" by (rule coded_took_trans) (use k in simp_all)
      moreover have "take (nat k) (coded_avail data s) = take (nat n) (coded_avail data s)"
        using cat em by simp
      moreover have "coded_ReadCord I n s = Some (False, take (nat k) (coded_avail data s), a)"
        using e True False by simp
      ultimately show ?thesis using A(1) by auto
    next
      case g: False
      then obtain i where i: "ci_input a = Some i" by auto
      have p: "coded_pending a = 0"
        using g z coded_invD(2,3) [OF A(1)] by (simp add: coded_pending_def)
      have "0 \<le> n - k" using pos by simp
      from ReadCord_from_input_took [OF A(1) p i this, of "take (nat k) (coded_avail data s)"]
      obtain b s' where r: "ReadCord_from_input I (take (nat k) (coded_avail data s)) (n - k) a
          = Some (b, take (nat k) (coded_avail data s) @ take (nat (n - k)) (coded_avail data a), s')"
        "J s'" "coded_took data (n - k) a b s'" by blast
      have "coded_took data n s b s'" using T r(3) by (rule coded_took_trans) (use k in simp_all)
      then show ?thesis using e g False r by (simp add: cat)
    qed
  qed
qed

subsection \<open>Direct access to the buffer, and construction\<close>

text \<open>The buffer handed out is a prefix of the readable bytes; without one, there are none.\<close>

lemma GetDirectBufferPointer_prefix:
  assumes "J s"
  shows "\<exists>r s'. coded_GetDirectBufferPointer I s = Some (r, s') \<and> J s' \<and> coded_frame s' = coded_frame s
      \<and> CurrentPosition s' = CurrentPosition s
      \<and> (case r of None \<Rightarrow> coded_avail data s = [] | Some bs \<Rightarrow> prefix bs (coded_avail data s))"
proof (cases "ci_size s = 0")
  case False
  with coded_copy(1) [OF assms order_refl] assms show ?thesis
    by (simp add: coded_GetDirectBufferPointer_def take_is_prefix)
next
  case True
  from coded_Refresh_inv [OF assms True] obtain b s' where r: "coded_Refresh I s = Some (b, s')" "J s'"
    "coded_frame s' = coded_frame s" "CurrentPosition s' = CurrentPosition s"
    "\<not> b \<Longrightarrow> coded_avail data s = []" by (auto split: if_splits)
  have "coded_avail data s' = coded_avail data s"
    using r(4) frame_closest [OF r(3)] by (simp add: coded_avail_def)
  with r True coded_copy(1) [OF r(2) order_refl] show ?thesis
    by (cases b) (simp_all add: coded_GetDirectBufferPointer_def take_is_prefix)
qed

lemma CodedInputStream_inv:
  assumes "okay i" and "rest i = data" and "is_ByteCount I i = 0"
  shows "\<exists>s i'. CodedInputStream I i = Some s \<and> J s \<and> CurrentPosition s = 0 \<and> ci_limit s = INT_MAX
      \<and> ci_total_limit s = INT_MAX \<and> ci_input s = Some i' \<and> ci_legit_end s = False
      \<and> coded_avail data s = take (nat INT_MAX) data
      \<and> ci_recursion_budget s = default_recursion_limit \<and> ci_recursion_limit s = default_recursion_limit"
proof -
  define s0 where "s0 = \<lparr>ci_buffer = [], ci_size = 0, ci_input = Some i, ci_total = 0, ci_overflow = 0,
        ci_last_tag = 0, ci_legit_end = False, ci_limit = INT_MAX, ci_after = 0,
        ci_total_limit = kDefaultTotalBytesLimit, ci_recursion_budget = default_recursion_limit,
        ci_recursion_limit = default_recursion_limit\<rparr>"
  have f: "CurrentPosition s0 = 0" "ci_size s0 = 0" "closest_limit s0 = INT_MAX" "coded_pending s0 = 0"
    by (simp_all add: s0_def CurrentPosition_def closest_limit_def kDefaultTotalBytesLimit_def coded_pending_def)
  have "J s0"
    using assms unfolding coded_inv_def coded_ints_def coded_at_def f
    by (simp add: s0_def kDefaultTotalBytesLimit_def INT_MAX_def)
  from coded_Refresh_inv [OF this f(2)] obtain b s' where r: "coded_Refresh I s0 = Some (b, s')" "J s'"
    "coded_frame s' = coded_frame s0" "CurrentPosition s' = 0" by (auto simp: f)
  have l: "ci_limit s' = INT_MAX" "ci_total_limit s' = INT_MAX" "ci_legit_end s' = False"
    "ci_recursion_budget s' = default_recursion_limit" "ci_recursion_limit s' = default_recursion_limit"
    using r(3) by (simp_all add: coded_frame_def s0_def kDefaultTotalBytesLimit_def)
  have "coded_avail data s' = take (nat INT_MAX) data"
    by (simp add: coded_avail_def r(4) closest_limit_def l)
  moreover have "ci_input s' \<noteq> None"
    using r(3) by (simp add: coded_frame_def s0_def)
  ultimately show ?thesis using r l by (auto simp: CodedInputStream_def s0_def)
qed

end

end
