(* ===== verification/Coded_Varint.thy ===== *)
theory Coded_Varint
  imports Coded_Input
begin

unbundle bit_operations_syntax

section \<open>io/coded_stream: varints and little-endian integers in memory\<close>

text \<open>
  The functions of \<open>io/coded_stream.cc\<close> and \<open>io/coded_stream.h\<close> that decode and encode
  integers in a byte array. A pointer into the array is an index; reading behind the end of the
  array is \<open>None\<close>. Decoding returns the value, or \<open>None\<close> inside when the code returns false, and
  the number of bytes to the returned pointer; encoding returns the bytes written.
\<close>

definition kMaxVarintBytes :: nat where
  "kMaxVarintBytes = 10"

definition kMaxVarint32Bytes :: nat where
  "kMaxVarint32Bytes = 5"

definition byte_val :: "char \<Rightarrow> nat" where
  "byte_val c = of_char c"

definition byte_word :: "char \<Rightarrow> 'a::len word" where
  "byte_word c = of_nat (byte_val c)"

definition low_byte :: "'a::len word \<Rightarrow> char" where
  "low_byte w = char_of (unat w)"

definition byte_at :: "string \<Rightarrow> nat \<Rightarrow> char option" where
  "byte_at b i = (if i < length b then Some (b ! i) else None)"

subsection \<open>Decoding\<close>

definition DecodeVarint64KnownSize :: "nat \<Rightarrow> string \<Rightarrow> (64 word option \<times> nat) option" where
  "DecodeVarint64KnownSize n buffer =
     (if n \<le> length buffer
      then Some (Some (fold (\<lambda>i result. result + push_bit (7 * i) (byte_word (buffer ! i) - 0x80)) [0..<n - 1]
                   (push_bit (7 * (n - 1)) (byte_word (buffer ! (n - 1))))), n)
      else None)"

definition ReadVarint64FromArray :: "string \<Rightarrow> (64 word option \<times> nat) option" where
  "ReadVarint64FromArray buffer = do {
     b \<leftarrow> byte_at buffer 1; if byte_val b < 128 then DecodeVarint64KnownSize 2 buffer else do {
     b \<leftarrow> byte_at buffer 2; if byte_val b < 128 then DecodeVarint64KnownSize 3 buffer else do {
     b \<leftarrow> byte_at buffer 3; if byte_val b < 128 then DecodeVarint64KnownSize 4 buffer else do {
     b \<leftarrow> byte_at buffer 4; if byte_val b < 128 then DecodeVarint64KnownSize 5 buffer else do {
     b \<leftarrow> byte_at buffer 5; if byte_val b < 128 then DecodeVarint64KnownSize 6 buffer else do {
     b \<leftarrow> byte_at buffer 6; if byte_val b < 128 then DecodeVarint64KnownSize 7 buffer else do {
     b \<leftarrow> byte_at buffer 7; if byte_val b < 128 then DecodeVarint64KnownSize 8 buffer else do {
     b \<leftarrow> byte_at buffer 8; if byte_val b < 128 then DecodeVarint64KnownSize 9 buffer else do {
     b \<leftarrow> byte_at buffer 9; if byte_val b < 128 then DecodeVarint64KnownSize 10 buffer else
     Some (None, 11) }}}}}}}}}"

text \<open>The high-order bytes of a varint of more than 32 bits are read and discarded.\<close>

fun DiscardHighBytes :: "nat \<Rightarrow> string \<Rightarrow> nat \<Rightarrow> 32 word \<Rightarrow> (32 word option \<times> nat) option" where
  "DiscardHighBytes 0 buffer ptr result = Some (None, ptr)"
| "DiscardHighBytes (Suc i) buffer ptr result = do {
     c \<leftarrow> byte_at buffer ptr;
     if (byte_word c :: 32 word) AND 0x80 = 0 then Some (Some result, ptr + 1)
     else DiscardHighBytes i buffer (ptr + 1) result }"

definition ReadVarint32FromArray :: "32 word \<Rightarrow> string \<Rightarrow> (32 word option \<times> nat) option" where
  "ReadVarint32FromArray first_byte buffer = do {
     let result = first_byte - 0x80;
     c \<leftarrow> byte_at buffer 1;
     let b = byte_word c;
     let result = result + push_bit 7 b;
     if b AND 0x80 = 0 then Some (Some result, 2) else do {
     let result = result - push_bit 7 0x80;
     c \<leftarrow> byte_at buffer 2;
     let b = byte_word c;
     let result = result + push_bit 14 b;
     if b AND 0x80 = 0 then Some (Some result, 3) else do {
     let result = result - push_bit 14 0x80;
     c \<leftarrow> byte_at buffer 3;
     let b = byte_word c;
     let result = result + push_bit 21 b;
     if b AND 0x80 = 0 then Some (Some result, 4) else do {
     let result = result - push_bit 21 0x80;
     c \<leftarrow> byte_at buffer 4;
     let b = byte_word c;
     let result = result + push_bit 28 b;
     if b AND 0x80 = 0 then Some (Some result, 5) else
     DiscardHighBytes (kMaxVarintBytes - kMaxVarint32Bytes) buffer 5 result }}}}"

text \<open>On any host, the bytes are the little-endian representation of the value.\<close>

fun le_val :: "string \<Rightarrow> nat" where
  "le_val [] = 0"
| "le_val (c # cs) = byte_val c + 256 * le_val cs"

definition ReadLittleEndian16FromArray :: "string \<Rightarrow> (16 word \<times> nat) option" where
  "ReadLittleEndian16FromArray buffer =
     (if 2 \<le> length buffer then Some (of_nat (le_val (take 2 buffer)), 2) else None)"

definition ReadLittleEndian32FromArray :: "string \<Rightarrow> (32 word \<times> nat) option" where
  "ReadLittleEndian32FromArray buffer =
     (if 4 \<le> length buffer then Some (of_nat (le_val (take 4 buffer)), 4) else None)"

definition ReadLittleEndian64FromArray :: "string \<Rightarrow> (64 word \<times> nat) option" where
  "ReadLittleEndian64FromArray buffer =
     (if 8 \<le> length buffer then Some (of_nat (le_val (take 8 buffer)), 8) else None)"

definition ExpectTagFromArray :: "string \<Rightarrow> 32 word \<Rightarrow> nat option option" where
  "ExpectTagFromArray buffer expected =
     (if expected < 2 ^ 7
      then do { c \<leftarrow> byte_at buffer 0; Some (if byte_word c = expected then Some 1 else None) }
      else if expected < 2 ^ 14
      then do {
        c \<leftarrow> byte_at buffer 0;
        if c \<noteq> low_byte (expected OR 0x80) then Some None
        else do {
          c \<leftarrow> byte_at buffer 1;
          Some (if c = low_byte (drop_bit 7 expected) then Some 2 else None) } }
      else Some None)"

subsection \<open>Encoding\<close>

text \<open>\<open>UnsafeVarint\<close> is a template with the two unsigned types as instances.\<close>

lemma unat_drop_bit_7: "0x80 \<le> value \<Longrightarrow> 0 < unat value \<Longrightarrow> unat (drop_bit 7 value) < unat (value :: 'a::len word)"
  by (subst unat_drop_bit_eq) (simp add: drop_bit_eq_div)

function UnsafeVarint32 :: "32 word \<Rightarrow> string" where
  "UnsafeVarint32 value =
     (if value \<ge> 0x80 then low_byte (value OR 0x80) # UnsafeVarint32 (drop_bit 7 value) else [low_byte value])"
  by pat_completeness auto
termination
  by (relation "measure unat") (auto intro!: unat_drop_bit_7 simp: word_le_nat_alt)

function UnsafeVarint64 :: "64 word \<Rightarrow> string" where
  "UnsafeVarint64 value =
     (if value \<ge> 0x80 then low_byte (value OR 0x80) # UnsafeVarint64 (drop_bit 7 value) else [low_byte value])"
  by pat_completeness auto
termination
  by (relation "measure unat") (auto intro!: unat_drop_bit_7 simp: word_le_nat_alt)

declare UnsafeVarint32.simps [simp del]
declare UnsafeVarint64.simps [simp del]

text \<open>\<open>UnsafeWriteSize\<close> repeats the loop for a length; the others call it.\<close>

function UnsafeWriteSize :: "32 word \<Rightarrow> string" where
  "UnsafeWriteSize value =
     (if value \<ge> 0x80 then low_byte (value OR 0x80) # UnsafeWriteSize (drop_bit 7 value) else [low_byte value])"
  by pat_completeness auto
termination
  by (relation "measure unat") (auto intro!: unat_drop_bit_7 simp: word_le_nat_alt)

declare UnsafeWriteSize.simps [simp del]

definition WriteVarint32ToArray :: "32 word \<Rightarrow> string" where
  "WriteVarint32ToArray value = UnsafeVarint32 value"

definition WriteVarint64ToArray :: "64 word \<Rightarrow> string" where
  "WriteVarint64ToArray value = UnsafeVarint64 value"

text \<open>A negative \<open>int32_t\<close> becomes a \<open>uint64_t\<close> by sign extension.\<close>

definition WriteVarint32SignExtendedToArray :: "32 word \<Rightarrow> string" where
  "WriteVarint32SignExtendedToArray value = WriteVarint64ToArray (scast value)"

definition WriteTagToArray :: "32 word \<Rightarrow> string" where
  "WriteTagToArray value = WriteVarint32ToArray value"

definition WriteLittleEndian16ToArray :: "16 word \<Rightarrow> string" where
  "WriteLittleEndian16ToArray value = [low_byte value, low_byte (drop_bit 8 value)]"

definition WriteLittleEndian32ToArray :: "32 word \<Rightarrow> string" where
  "WriteLittleEndian32ToArray value =
     [low_byte value, low_byte (drop_bit 8 value), low_byte (drop_bit 16 value), low_byte (drop_bit 24 value)]"

definition WriteLittleEndian64ToArray :: "64 word \<Rightarrow> string" where
  "WriteLittleEndian64ToArray value =
     (let part0 = ucast value :: 32 word; part1 = ucast (drop_bit 32 value) :: 32 word
      in [low_byte part0, low_byte (drop_bit 8 part0), low_byte (drop_bit 16 part0), low_byte (drop_bit 24 part0),
          low_byte part1, low_byte (drop_bit 8 part1), low_byte (drop_bit 16 part1), low_byte (drop_bit 24 part1)])"

definition ZigZagEncode32 :: "32 word \<Rightarrow> 32 word" where
  "ZigZagEncode32 v = push_bit 1 v XOR signed_drop_bit 31 v"

definition ZigZagEncode64 :: "64 word \<Rightarrow> 64 word" where
  "ZigZagEncode64 v = push_bit 1 v XOR signed_drop_bit 63 v"

definition TagSize :: "32 word \<Rightarrow> nat" where
  "TagSize tag =
     (if tag < 2 ^ 7 then 1 else if tag < 2 ^ 14 then 2 else if tag < 2 ^ 21 then 3
      else if tag < 2 ^ 28 then 4 else 5)"

subsection \<open>The size of an encoding\<close>

text \<open>
  \<open>absl::countl_zero\<close>, the \<open>std::countl_zero\<close> of the C++ library: the number of leading zero bits.
  The code has two variants of each size, for processors with and without such an instruction.
\<close>

definition countl_zero :: "'a::len word \<Rightarrow> nat" where
  "countl_zero v = length (takeWhile (\<lambda>i. \<not> bit v i) (rev [0..<LENGTH('a)]))"

definition StaticVarintSize32 :: "32 word \<Rightarrow> nat" where
  "StaticVarintSize32 value =
     (if value < 2 ^ 7 then 1 else if value < 2 ^ 14 then 2 else if value < 2 ^ 21 then 3
      else if value < 2 ^ 28 then 4 else 5)"

definition VarintSize32 :: "bool \<Rightarrow> 32 word \<Rightarrow> nat" where
  "VarintSize32 prefer_bsr value =
     (if prefer_bsr
      then let log2value = (32 - 1) - countl_zero (value OR 1) in (log2value * 9 + (64 + 9)) div 64
      else let clz = countl_zero value in ((32 * 9 + 64) - clz * 9) div 64)"

definition VarintSize32PlusOne :: "bool \<Rightarrow> 32 word \<Rightarrow> nat" where
  "VarintSize32PlusOne prefer_bsr value =
     (if prefer_bsr
      then let log2value = (32 - 1) - countl_zero (value OR 1) in (log2value * 9 + (64 + 9) + 64) div 64
      else let clz = countl_zero value in ((32 * 9 + 64 + 64) - clz * 9) div 64)"

definition VarintSize64 :: "bool \<Rightarrow> 64 word \<Rightarrow> nat" where
  "VarintSize64 prefer_bsr value =
     (if prefer_bsr
      then let log2value = (64 - 1) - countl_zero (value OR 1) in (log2value * 9 + (64 + 9)) div 64
      else let clz = countl_zero value in ((64 * 9 + 64) - clz * 9) div 64)"

definition VarintSize64PlusOne :: "bool \<Rightarrow> 64 word \<Rightarrow> nat" where
  "VarintSize64PlusOne prefer_bsr value =
     (if prefer_bsr
      then let log2value = (64 - 1) - countl_zero (value OR 1) in (log2value * 9 + (64 + 9) + 64) div 64
      else let clz = countl_zero value in ((64 * 9 + 64 + 64) - clz * 9) div 64)"

definition VarintSize32SignExtended :: "bool \<Rightarrow> 32 word \<Rightarrow> nat" where
  "VarintSize32SignExtended prefer_bsr value = VarintSize64 prefer_bsr (scast value)"

definition VarintSize32SignExtendedPlusOne :: "bool \<Rightarrow> 32 word \<Rightarrow> nat" where
  "VarintSize32SignExtendedPlusOne prefer_bsr value = VarintSize64PlusOne prefer_bsr (scast value)"

end
