(* ===== verification/Coded_Read.thy ===== *)
theory Coded_Read
  imports Coded_Varint
begin

unbundle bit_operations_syntax

section \<open>io/coded_stream: reading integers and tags\<close>

text \<open>
  The readers of \<open>CodedInputStream\<close> for varints, little-endian integers and tags, with their
  fast paths on the bytes in the buffer, the fallbacks, and the slow path that refills the
  buffer in the middle of a varint. A function that returns through an out-parameter returns
  the pair of its result and the value left there.
\<close>

subsection \<open>Varints\<close>

text \<open>The inner loop of \<open>ReadVarint64Slow\<close>.\<close>

partial_function (option) refill_buffer ::
  "'s input_stream \<Rightarrow> 's coded_input \<Rightarrow> (bool \<times> 's coded_input) option" where
  "refill_buffer I s =
     (if ci_size s = 0
      then do { (b, s) \<leftarrow> coded_Refresh I s; if \<not> b then Some (False, s) else refill_buffer I s }
      else Some (True, s))"

partial_function (option) ReadVarint64Slow_loop ::
  "'s input_stream \<Rightarrow> 64 word \<Rightarrow> nat \<Rightarrow> 's coded_input \<Rightarrow> ((bool \<times> 64 word) \<times> 's coded_input) option" where
  "ReadVarint64Slow_loop I result count s =
     (if count = kMaxVarintBytes then Some ((False, 0), s)
      else do {
        (b, s) \<leftarrow> refill_buffer I s;
        if \<not> b then Some ((False, 0), s)
        else do {
          c \<leftarrow> byte_at (ci_buffer s) 0;
          let b = (byte_word c :: 32 word);
          let result = result OR push_bit (7 * count) (ucast (b AND 0x7F));
          let s = coded_Advance 1 s;
          if b AND 0x80 \<noteq> 0 then ReadVarint64Slow_loop I result (count + 1) s
          else Some ((True, result), s) } })"

definition ReadVarint64Slow ::
  "'s input_stream \<Rightarrow> 's coded_input \<Rightarrow> ((bool \<times> 64 word) \<times> 's coded_input) option" where
  "ReadVarint64Slow I s = ReadVarint64Slow_loop I 0 0 s"

text \<open>The test of the fallbacks: the buffer has ten bytes, or it ends with the last byte of a varint.\<close>

definition varint_in_buffer :: "'s coded_input \<Rightarrow> bool option" where
  "varint_in_buffer s =
     (if ci_size s \<ge> int kMaxVarintBytes then Some True
      else if ci_size s > 0
      then do { c \<leftarrow> byte_at (ci_buffer s) (nat (ci_size s) - 1); Some ((byte_word c :: 32 word) AND 0x80 = 0) }
      else Some False)"

definition ReadVarint64Fallback ::
  "'s input_stream \<Rightarrow> 's coded_input \<Rightarrow> ((64 word \<times> bool) \<times> 's coded_input) option" where
  "ReadVarint64Fallback I s = do {
     fast \<leftarrow> varint_in_buffer s;
     if fast then do {
       (r, n) \<leftarrow> ReadVarint64FromArray (ci_buffer s);
       case r of
         None \<Rightarrow> Some ((0, False), s)
       | Some temp \<Rightarrow> Some ((temp, True), coded_Advance (int n) s) }
     else do {
       ((success, temp), s) \<leftarrow> ReadVarint64Slow I s;
       Some ((temp, success), s) } }"

definition ReadVarint64 ::
  "'s input_stream \<Rightarrow> 's coded_input \<Rightarrow> ((bool \<times> 64 word) \<times> 's coded_input) option" where
  "ReadVarint64 I s = do {
     first \<leftarrow> (if ci_size s > 0 then do { c \<leftarrow> byte_at (ci_buffer s) 0; Some (Some c) } else Some None);
     case first of
       Some c \<Rightarrow>
         if byte_val c < 0x80 then Some ((True, byte_word c), coded_Advance 1 s)
         else do { ((v, ok), s) \<leftarrow> ReadVarint64Fallback I s; Some ((ok, v), s) }
     | None \<Rightarrow> do { ((v, ok), s) \<leftarrow> ReadVarint64Fallback I s; Some ((ok, v), s) } }"

definition ReadVarint32Slow ::
  "'s input_stream \<Rightarrow> 's coded_input \<Rightarrow> ((bool \<times> 32 word) \<times> 's coded_input) option" where
  "ReadVarint32Slow I s = do {
     ((v, ok), s) \<leftarrow> ReadVarint64Fallback I s;
     Some ((ok, ucast v), s) }"

definition ReadVarint32Fallback ::
  "'s input_stream \<Rightarrow> 32 word \<Rightarrow> 's coded_input \<Rightarrow> (int \<times> 's coded_input) option" where
  "ReadVarint32Fallback I first_byte_or_zero s = do {
     fast \<leftarrow> varint_in_buffer s;
     if fast then do {
       (r, n) \<leftarrow> ReadVarint32FromArray first_byte_or_zero (ci_buffer s);
       case r of
         None \<Rightarrow> Some (-1, s)
       | Some temp \<Rightarrow> Some (uint temp, coded_Advance (int n) s) }
     else do {
       ((ok, temp), s) \<leftarrow> ReadVarint32Slow I s;
       Some (if ok then uint temp else -1, s) } }"

definition ReadVarint32 ::
  "'s input_stream \<Rightarrow> 's coded_input \<Rightarrow> ((bool \<times> 32 word) \<times> 's coded_input) option" where
  "ReadVarint32 I s = do {
     first \<leftarrow> (if ci_size s > 0 then do { c \<leftarrow> byte_at (ci_buffer s) 0; Some (Some c) } else Some None);
     let v = (case first of Some c \<Rightarrow> byte_word c | None \<Rightarrow> 0);
     if first \<noteq> None \<and> v < 0x80 then Some ((True, v), coded_Advance 1 s)
     else do {
       (result, s) \<leftarrow> ReadVarint32Fallback I v s;
       Some ((result \<ge> 0, of_int result), s) } }"

definition ReadVarintSizeAsIntSlow :: "'s input_stream \<Rightarrow> 's coded_input \<Rightarrow> (int \<times> 's coded_input) option" where
  "ReadVarintSizeAsIntSlow I s = do {
     ((v, ok), s) \<leftarrow> ReadVarint64Fallback I s;
     Some (if \<not> ok \<or> uint v > INT_MAX then -1 else uint v, s) }"

definition ReadVarintSizeAsIntFallback :: "'s input_stream \<Rightarrow> 's coded_input \<Rightarrow> (int \<times> 's coded_input) option" where
  "ReadVarintSizeAsIntFallback I s = do {
     fast \<leftarrow> varint_in_buffer s;
     if fast then do {
       (r, n) \<leftarrow> ReadVarint64FromArray (ci_buffer s);
       case r of
         None \<Rightarrow> Some (-1, s)
       | Some temp \<Rightarrow>
           if uint temp > INT_MAX then Some (-1, s) else Some (uint temp, coded_Advance (int n) s) }
     else ReadVarintSizeAsIntSlow I s }"

definition ReadVarintSizeAsInt ::
  "'s input_stream \<Rightarrow> 's coded_input \<Rightarrow> ((bool \<times> int) \<times> 's coded_input) option" where
  "ReadVarintSizeAsInt I s = do {
     first \<leftarrow> (if ci_size s > 0 then do { c \<leftarrow> byte_at (ci_buffer s) 0; Some (Some c) } else Some None);
     case first of
       Some c \<Rightarrow>
         if byte_val c < 0x80 then Some ((True, int (byte_val c)), coded_Advance 1 s)
         else do { (v, s) \<leftarrow> ReadVarintSizeAsIntFallback I s; Some ((v \<ge> 0, v), s) }
     | None \<Rightarrow> do { (v, s) \<leftarrow> ReadVarintSizeAsIntFallback I s; Some ((v \<ge> 0, v), s) } }"

text \<open>The length converts to the \<open>int\<close> parameter of \<open>PushLimit\<close>.\<close>

definition ReadLengthAndPushLimit :: "'s input_stream \<Rightarrow> 's coded_input \<Rightarrow> (int \<times> 's coded_input) option" where
  "ReadLengthAndPushLimit I s = do {
     ((ok, length), s) \<leftarrow> ReadVarint32 I s;
     Some (PushLimit (to_i32 (if ok then uint length else 0)) s) }"

subsection \<open>Little-endian integers\<close>

definition ReadLittleEndian16Fallback ::
  "'s input_stream \<Rightarrow> 's coded_input \<Rightarrow> (16 word option \<times> 's coded_input) option" where
  "ReadLittleEndian16Fallback I s =
     (if ci_size s \<ge> 2
      then do { (v, n) \<leftarrow> ReadLittleEndian16FromArray (ci_buffer s); Some (Some v, coded_Advance 2 s) }
      else do {
        (ok, bytes, s) \<leftarrow> ReadRaw I 2 s;
        if \<not> ok then Some (None, s)
        else do { (v, n) \<leftarrow> ReadLittleEndian16FromArray bytes; Some (Some v, s) } })"

definition ReadLittleEndian16 ::
  "'s input_stream \<Rightarrow> 's coded_input \<Rightarrow> (16 word option \<times> 's coded_input) option" where
  "ReadLittleEndian16 I s =
     (if ci_size s \<ge> 2
      then do { (v, n) \<leftarrow> ReadLittleEndian16FromArray (ci_buffer s); Some (Some v, coded_Advance (int n) s) }
      else ReadLittleEndian16Fallback I s)"

definition ReadLittleEndian32Fallback ::
  "'s input_stream \<Rightarrow> 's coded_input \<Rightarrow> (32 word option \<times> 's coded_input) option" where
  "ReadLittleEndian32Fallback I s =
     (if ci_size s \<ge> 4
      then do { (v, n) \<leftarrow> ReadLittleEndian32FromArray (ci_buffer s); Some (Some v, coded_Advance 4 s) }
      else do {
        (ok, bytes, s) \<leftarrow> ReadRaw I 4 s;
        if \<not> ok then Some (None, s)
        else do { (v, n) \<leftarrow> ReadLittleEndian32FromArray bytes; Some (Some v, s) } })"

text \<open>\<open>opt\<close>: the build takes the fast path, on little-endian hosts.\<close>

definition ReadLittleEndian32 ::
  "bool \<Rightarrow> 's input_stream \<Rightarrow> 's coded_input \<Rightarrow> (32 word option \<times> 's coded_input) option" where
  "ReadLittleEndian32 opt I s =
     (if opt \<and> ci_size s \<ge> 4
      then do { (v, n) \<leftarrow> ReadLittleEndian32FromArray (ci_buffer s); Some (Some v, coded_Advance (int n) s) }
      else ReadLittleEndian32Fallback I s)"

definition ReadLittleEndian64Fallback ::
  "'s input_stream \<Rightarrow> 's coded_input \<Rightarrow> (64 word option \<times> 's coded_input) option" where
  "ReadLittleEndian64Fallback I s =
     (if ci_size s \<ge> 8
      then do { (v, n) \<leftarrow> ReadLittleEndian64FromArray (ci_buffer s); Some (Some v, coded_Advance 8 s) }
      else do {
        (ok, bytes, s) \<leftarrow> ReadRaw I 8 s;
        if \<not> ok then Some (None, s)
        else do { (v, n) \<leftarrow> ReadLittleEndian64FromArray bytes; Some (Some v, s) } })"

definition ReadLittleEndian64 ::
  "bool \<Rightarrow> 's input_stream \<Rightarrow> 's coded_input \<Rightarrow> (64 word option \<times> 's coded_input) option" where
  "ReadLittleEndian64 opt I s =
     (if opt \<and> ci_size s \<ge> 8
      then do { (v, n) \<leftarrow> ReadLittleEndian64FromArray (ci_buffer s); Some (Some v, coded_Advance (int n) s) }
      else ReadLittleEndian64Fallback I s)"

subsection \<open>Tags\<close>

definition ReadTagSlow :: "'s input_stream \<Rightarrow> 's coded_input \<Rightarrow> (32 word \<times> 's coded_input) option" where
  "ReadTagSlow I s = do {
     (b, s) \<leftarrow> (if ci_size s = 0 then coded_Refresh I s else Some (True, s));
     if \<not> b
     then let current_position = ci_total s - ci_after s
          in Some (0, if current_position \<ge> ci_total_limit s
                      then s\<lparr>ci_legit_end := (ci_limit s = ci_total_limit s)\<rparr>
                      else s\<lparr>ci_legit_end := True\<rparr>)
     else do {
       ((ok, result), s) \<leftarrow> ReadVarint64 I s;
       Some (if \<not> ok then 0 else ucast result, s) } }"

definition ReadTagFallback ::
  "'s input_stream \<Rightarrow> 32 word \<Rightarrow> 's coded_input \<Rightarrow> (32 word \<times> 's coded_input) option" where
  "ReadTagFallback I first_byte_or_zero s = do {
     fast \<leftarrow> varint_in_buffer s;
     if fast
     then if first_byte_or_zero = 0 then Some (0, coded_Advance 1 s)
          else do {
            (r, n) \<leftarrow> ReadVarint32FromArray first_byte_or_zero (ci_buffer s);
            case r of
              None \<Rightarrow> Some (0, s)
            | Some tag \<Rightarrow> Some (tag, coded_Advance (int n) s) }
     else if ci_size s = 0 \<and> (ci_after s > 0 \<or> ci_total s = ci_limit s)
             \<and> ci_total s - ci_after s < ci_total_limit s
     then Some (0, s\<lparr>ci_legit_end := True\<rparr>)
     else ReadTagSlow I s }"

definition ReadTagNoLastTag :: "'s input_stream \<Rightarrow> 's coded_input \<Rightarrow> (32 word \<times> 's coded_input) option" where
  "ReadTagNoLastTag I s = do {
     first \<leftarrow> (if ci_size s > 0 then do { c \<leftarrow> byte_at (ci_buffer s) 0; Some (Some c) } else Some None);
     let v = (case first of Some c \<Rightarrow> byte_word c | None \<Rightarrow> 0);
     if first \<noteq> None \<and> v < 0x80 then Some (v, coded_Advance 1 s)
     else ReadTagFallback I v s }"

definition ReadTag :: "'s input_stream \<Rightarrow> 's coded_input \<Rightarrow> (32 word \<times> 's coded_input) option" where
  "ReadTag I s = do { (tag, s) \<leftarrow> ReadTagNoLastTag I s; Some (tag, s\<lparr>ci_last_tag := tag\<rparr>) }"

definition ReadTagWithCutoffNoLastTag ::
  "'s input_stream \<Rightarrow> 32 word \<Rightarrow> 's coded_input \<Rightarrow> ((32 word \<times> bool) \<times> 's coded_input) option" where
  "ReadTagWithCutoffNoLastTag I cutoff s =
     (let slow = (\<lambda>first. do {
            (tag, s) \<leftarrow> ReadTagFallback I first s;
            Some ((tag, tag - 1 < cutoff), s) })
      in if ci_size s > 0
         then do {
           c \<leftarrow> byte_at (ci_buffer s) 0;
           if 0 < byte_val c \<and> byte_val c < 0x80
           then let tag = byte_word c
                in Some ((tag, cutoff \<ge> 0x7F \<or> tag \<le> cutoff), coded_Advance 1 s)
           else do {
             two \<leftarrow> (if cutoff \<ge> 0x80 \<and> ci_size s > 1
                     then do {
                       d \<leftarrow> byte_at (ci_buffer s) 1;
                       Some (if (byte_word c :: 32 word) AND NOT (byte_word d) \<ge> 0x80 then Some d else None) }
                     else Some None);
             case two of
               Some d \<Rightarrow>
                 let tag = 2 ^ 7 * byte_word d + (byte_word c - 0x80)
                 in Some ((tag, cutoff \<ge> push_bit 7 0x7F + 0x7F \<or> tag \<le> cutoff), coded_Advance 2 s)
             | None \<Rightarrow> slow (byte_word c) } }
         else slow 0)"

definition ReadTagWithCutoff ::
  "'s input_stream \<Rightarrow> 32 word \<Rightarrow> 's coded_input \<Rightarrow> ((32 word \<times> bool) \<times> 's coded_input) option" where
  "ReadTagWithCutoff I cutoff s = do {
     ((tag, b), s) \<leftarrow> ReadTagWithCutoffNoLastTag I cutoff s;
     Some ((tag, b), s\<lparr>ci_last_tag := tag\<rparr>) }"

definition LastTagWas :: "32 word \<Rightarrow> 's coded_input \<Rightarrow> bool" where
  "LastTagWas expected s = (ci_last_tag s = expected)"

definition ExpectTag :: "32 word \<Rightarrow> 's coded_input \<Rightarrow> (bool \<times> 's coded_input) option" where
  "ExpectTag expected s =
     (if expected < 2 ^ 7
      then if ci_size s > 0
           then do { c \<leftarrow> byte_at (ci_buffer s) 0;
                     Some (if byte_word c = expected then (True, coded_Advance 1 s) else (False, s)) }
           else Some (False, s)
      else if expected < 2 ^ 14
      then if ci_size s \<ge> 2
           then do { c \<leftarrow> byte_at (ci_buffer s) 0; d \<leftarrow> byte_at (ci_buffer s) 1;
                     Some (if c = low_byte (expected OR 0x80) \<and> d = low_byte (drop_bit 7 expected)
                           then (True, coded_Advance 2 s) else (False, s)) }
           else Some (False, s)
      else Some (False, s))"

definition ExpectAtEnd :: "'s coded_input \<Rightarrow> bool \<times> 's coded_input" where
  "ExpectAtEnd s =
     (if ci_size s = 0 \<and> (ci_after s \<noteq> 0 \<or> ci_total s = ci_limit s)
      then (True, s\<lparr>ci_last_tag := 0, ci_legit_end := True\<rparr>)
      else (False, s))"

end
