(* ===== verification/Varint_Laws.thy ===== *)
theory Varint_Laws
  imports Coded_Varint
begin

unbundle bit_operations_syntax

section \<open>What the varint routines compute\<close>

text \<open>
  The varint format, as a reference: a number in base 128, least significant digit first, every
  byte but the last with its high bit set. \<open>varint_val\<close> is the number that a sequence of bytes
  stands for and \<open>varint_len n b\<close> the length of the varint at the start of \<open>b\<close>, if it ends within
  \<open>n\<close> bytes; \<open>varint_bytes\<close> is the shortest encoding. The unrolled and table-free routines of the
  code compute exactly these.
\<close>

fun varint_val :: "string \<Rightarrow> nat" where
  "varint_val [] = 0"
| "varint_val (c # cs) = byte_val c mod 128 + 128 * varint_val cs"

fun varint_len :: "nat \<Rightarrow> string \<Rightarrow> nat option" where
  "varint_len 0 b = None"
| "varint_len (Suc n) [] = None"
| "varint_len (Suc n) (c # cs) = (if byte_val c < 128 then Some 1 else map_option Suc (varint_len n cs))"

fun varint_bytes :: "nat \<Rightarrow> string" where
  "varint_bytes n = (if n < 128 then [char_of n] else char_of (n mod 128 + 128) # varint_bytes (n div 128))"

declare varint_bytes.simps [simp del]

subsection \<open>Bytes and words\<close>

lemma byte_val_less: "byte_val c < 256"
  unfolding byte_val_def using nat_of_char_less_256 [of c] by simp

lemma byte_val_char_of [simp]: "byte_val (char_of n) = n mod 256"
  by (simp add: byte_val_def)

lemma char_of_byte_val [simp]: "char_of (byte_val c) = c"
  by (simp add: byte_val_def)

lemma unat_byte_word:
  assumes "8 \<le> LENGTH('a::len)"
  shows "unat (byte_word c :: 'a word) = byte_val c"
proof -
  have "(2::nat) ^ 8 \<le> 2 ^ LENGTH('a)" using assms by (rule power_increasing) simp
  then have "byte_val c < 2 ^ LENGTH('a)" using byte_val_less [of c] by simp
  then show ?thesis by (simp add: byte_word_def unat_of_nat)
qed

lemma high_bit_clear:
  assumes "8 \<le> LENGTH('a::len)"
  shows "(byte_word c :: 'a word) AND 0x80 = 0 \<longleftrightarrow> byte_val c < 128"
proof -
  have "(byte_word c :: 'a word) AND 0x80 = byte_word c AND 2 ^ 7" by simp
  also have "\<dots> = 0 \<longleftrightarrow> \<not> bit (byte_word c :: 'a word) 7" by (rule and_exp_eq_0_iff_not_bit)
  also have "bit (byte_word c :: 'a word) 7 \<longleftrightarrow> odd (byte_val c div 128)"
    using unat_byte_word [OF assms, of c]
      bit_unsigned_iff [where ?'a = nat, of "byte_word c :: 'a word" 7] by (simp add: bit_iff_odd [of "byte_val c"])
  also have "odd (byte_val c div 128) \<longleftrightarrow> \<not> byte_val c < 128"
  proof -
    have "byte_val c div 128 < 2" using byte_val_less [of c] by simp
    then have "byte_val c div 128 = 0 \<or> byte_val c div 128 = 1" by linarith
    then show ?thesis by auto
  qed
  finally show ?thesis by simp
qed

lemma byte_word_high:
  assumes "128 \<le> byte_val c"
  shows "byte_word c - 0x80 = (of_nat (byte_val c mod 128) :: 'a::len word)"
proof -
  have "byte_val c mod 128 + 128 = byte_val c"
    using assms byte_val_less [of c] by (auto simp: mod_if)
  then have "byte_word c = (of_nat (byte_val c mod 128 + 128) :: 'a word)" by (simp add: byte_word_def)
  also have "\<dots> = of_nat (byte_val c mod 128) + 0x80" by (simp only: of_nat_add of_nat_numeral)
  finally show ?thesis by simp
qed

lemma power_7: "(2 :: 'a::comm_semiring_1) ^ (k * 7) = 128 ^ k"
  by (simp add: power_mult mult.commute [of k])

lemma varint_val_append: "varint_val (xs @ ys) = varint_val xs + 128 ^ length xs * varint_val ys"
  by (induction xs) (auto simp: algebra_simps)

lemma varint_val_take_Suc:
  "k < length b \<Longrightarrow> varint_val (take (Suc k) b) = varint_val (take k b) + 128 ^ k * (byte_val (b ! k) mod 128)"
  by (simp add: take_Suc_conv_app_nth varint_val_append)

lemma varint_len_Nil [simp]: "varint_len n [] = None"
  by (cases n) simp_all

lemma varint_len_le: "varint_len n b = Some k \<Longrightarrow> 0 < k \<and> k \<le> n \<and> k \<le> length b"
  by (induction n b arbitrary: k rule: varint_len.induct) (fastforce split: if_splits)+

lemma varint_len_take: "varint_len n b = Some k \<Longrightarrow> k \<le> m \<Longrightarrow> varint_len n (take m b) = Some k"
proof (induction n b arbitrary: k m rule: varint_len.induct)
  case (3 n c cs)
  show ?case
  proof (cases m)
    case 0
    with "3.prems" varint_len_le show ?thesis by fastforce
  next
    case (Suc m')
    with "3" show ?thesis by (auto split: if_splits)
  qed
qed auto

text \<open>A varint is all there when its length is; without its end, all bytes have the high bit.\<close>

lemma varint_len_None: "varint_len n b = None \<longleftrightarrow> (\<forall>c \<in> set (take n b). 128 \<le> byte_val c)"
  by (induction n b rule: varint_len.induct) auto

lemma varint_len_append: "varint_len n b = Some k \<Longrightarrow> varint_len n (b @ z) = Some k"
  by (induction n b arbitrary: k rule: varint_len.induct) (auto split: if_splits)

lemma varint_len_first: "0 < n \<Longrightarrow> b \<noteq> [] \<Longrightarrow> byte_val (hd b) < 128 \<Longrightarrow> varint_len n b = Some 1"
  by (cases n; cases b) auto

subsection \<open>Decoding from an array\<close>

lemma fold_plus: "fold (\<lambda>i r. r + f i) xs (a :: 'a::comm_monoid_add) = a + sum_list (map f xs)"
  by (induction xs arbitrary: a) (auto simp: ac_simps)

lemma varint_sum:
  assumes "k \<le> length b" and "\<And>i. i < k \<Longrightarrow> 128 \<le> byte_val (b ! i)"
  shows "(\<Sum>i\<leftarrow>[0..<k]. push_bit (7 * i) (byte_word (b ! i) - 0x80)) = (of_nat (varint_val (take k b)) :: 'a::len word)"
  using assms
proof (induction k)
  case 0
  then show ?case by simp
next
  case (Suc k)
  have "push_bit (7 * k) (byte_word (b ! k) - 0x80) = (of_nat (128 ^ k * (byte_val (b ! k) mod 128)) :: 'a word)"
    using byte_word_high [where ?'a = 'a, of "b ! k"] Suc.prems(2) [of k]
    by (simp add: push_bit_eq_mult power_7 mult.commute)
  with Suc show ?case by (simp add: varint_val_take_Suc)
qed

lemma DecodeVarint64KnownSize_val:
  assumes "Suc k \<le> length b" and "\<And>i. i < k \<Longrightarrow> 128 \<le> byte_val (b ! i)" and "byte_val (b ! k) < 128"
  shows "DecodeVarint64KnownSize (Suc k) b = Some (Some (of_nat (varint_val (take (Suc k) b))), Suc k)"
proof -
  have "push_bit (7 * k) (byte_word (b ! k)) = (of_nat (128 ^ k * (byte_val (b ! k) mod 128)) :: 64 word)"
    using assms(3) by (simp add: push_bit_eq_mult power_7 mult.commute byte_word_def)
  moreover have "k \<le> length b" using assms(1) by simp
  ultimately show ?thesis
    using varint_sum [of k b, where ?'a = 64, OF _ assms(2)] assms(1)
    by (simp add: DecodeVarint64KnownSize_def fold_plus varint_val_take_Suc add.commute)
qed

fun decode_chain :: "nat \<Rightarrow> nat \<Rightarrow> string \<Rightarrow> (64 word option \<times> nat) option" where
  "decode_chain k 0 b = Some (None, 11)"
| "decode_chain k (Suc f) b = do {
     c \<leftarrow> byte_at b k;
     if byte_val c < 128 then DecodeVarint64KnownSize (Suc k) b else decode_chain (Suc k) f b }"

lemma ReadVarint64_chain: "ReadVarint64FromArray b = decode_chain 1 9 b"
  by (simp add: ReadVarint64FromArray_def numeral_eq_Suc cong: if_cong)

lemma decode_chain_val:
  assumes "k \<le> length b" and "\<And>i. i < k \<Longrightarrow> 128 \<le> byte_val (b ! i)"
  shows "decode_chain k f b =
     (case varint_len f (drop k b) of
        Some n \<Rightarrow> Some (Some (of_nat (varint_val (take (k + n) b))), k + n)
      | None \<Rightarrow> if k + f \<le> length b then Some (None, 11) else None)"
  using assms
proof (induction f arbitrary: k)
  case 0
  then show ?case by simp
next
  case (Suc f)
  show ?case
  proof (cases "k < length b")
    case False
    with Suc.prems(1) show ?thesis by (simp add: byte_at_def)
  next
    case True
    then have d: "drop k b = b ! k # drop (Suc k) b" by (simp add: Cons_nth_drop_Suc)
    show ?thesis
    proof (cases "byte_val (b ! k) < 128")
      case small: True
      with True DecodeVarint64KnownSize_val [of k b] Suc.prems show ?thesis by (simp add: byte_at_def d)
    next
      case False
      then have "\<And>i. i < Suc k \<Longrightarrow> 128 \<le> byte_val (b ! i)" using Suc.prems(2) by (auto simp: less_Suc_eq)
      from Suc.IH [OF _ this] True False show ?thesis
        by (simp add: byte_at_def d split: option.splits)
    qed
  qed
qed

text \<open>The varint at the start of an array whose first byte says that it goes on.\<close>

theorem ReadVarint64FromArray_val:
  assumes "b \<noteq> []" and "128 \<le> byte_val (hd b)"
  shows "ReadVarint64FromArray b =
     (case varint_len 10 b of
        Some n \<Rightarrow> Some (Some (of_nat (varint_val (take n b))), n)
      | None \<Rightarrow> if 10 \<le> length b then Some (None, 11) else None)"
proof -
  obtain c cs where b: "b = c # cs" using assms(1) by (cases b) auto
  have "varint_len (Suc n) b = map_option Suc (varint_len n cs)" for n using assms(2) by (simp add: b)
  from this [of 9] have l: "varint_len 10 b = map_option Suc (varint_len 9 cs)" by simp
  have "decode_chain 1 9 b =
     (case varint_len 9 (drop 1 b) of
        Some n \<Rightarrow> Some (Some (of_nat (varint_val (take (1 + n) b))), 1 + n)
      | None \<Rightarrow> if 1 + 9 \<le> length b then Some (None, 11) else None)"
    by (rule decode_chain_val) (use assms in \<open>auto simp: b\<close>)
  then show ?thesis unfolding ReadVarint64_chain l by (simp add: b split: option.splits)
qed


text \<open>The 32-bit routine: the same length, and the low 32 bits of the value.\<close>

fun decode_chain32 :: "nat \<Rightarrow> nat \<Rightarrow> 32 word \<Rightarrow> string \<Rightarrow> (32 word option \<times> nat) option" where
  "decode_chain32 k 0 r b = DiscardHighBytes 5 b k r"
| "decode_chain32 k (Suc f) r b = do {
     c \<leftarrow> byte_at b k;
     if byte_val c < 128 then Some (Some (r + push_bit (7 * k) (byte_word c)), Suc k)
     else decode_chain32 (Suc k) f (r + push_bit (7 * k) (byte_word c) - push_bit (7 * k) 0x80) b }"

lemma ReadVarint32_chain: "ReadVarint32FromArray f b = decode_chain32 1 4 (f - 0x80) b"
proof -
  have z: "push_bit 28 (0x80 :: 32 word) = 0" by (simp add: push_bit_eq_mult)
  have h: "(byte_word c :: 32 word) AND 0x80 = 0 \<longleftrightarrow> byte_val c < 128" for c
    by (rule high_bit_clear) simp
  have f4: "decode_chain32 1 4 r b = decode_chain32 1 (Suc (Suc (Suc (Suc 0)))) r b" for r
    by (rule arg_cong [where f = "\<lambda>n. decode_chain32 1 n r b"]) simp
  have k: "7 * 1 = (7::nat)" "Suc 1 = 2" "7 * 2 = (14::nat)" "Suc 2 = 3" "7 * 3 = (21::nat)" "Suc 3 = 4"
    "7 * 4 = (28::nat)" "Suc 4 = 5" "(10::nat) - 5 = 5" by simp_all
  show ?thesis
    unfolding ReadVarint32FromArray_def f4 decode_chain32.simps k Let_def h kMaxVarintBytes_def
      kMaxVarint32Bytes_def z diff_zero
    by (rule refl)
qed


lemma DiscardHighBytes_val:
  assumes "k \<le> length b"
  shows "DiscardHighBytes f b k r =
     (case varint_len f (drop k b) of
        Some n \<Rightarrow> Some (Some r, k + n)
      | None \<Rightarrow> if k + f \<le> length b then Some (None, k + f) else None)"
  using assms
proof (induction f arbitrary: k)
  case 0
  then show ?case by simp
next
  case (Suc f)
  have h: "(byte_word c :: 32 word) AND 0x80 = 0 \<longleftrightarrow> byte_val c < 128" for c
    by (rule high_bit_clear) simp
  show ?case
  proof (cases "k < length b")
    case False
    with Suc.prems show ?thesis by (simp add: byte_at_def)
  next
    case True
    then have d: "drop k b = b ! k # drop (Suc k) b" by (simp add: Cons_nth_drop_Suc)
    with True Suc.IH [of "Suc k"] show ?thesis
      by (auto simp: byte_at_def h split: option.splits)
  qed
qed

lemma varint_val_high:
  assumes "5 \<le> k" and "k \<le> length b"
  shows "(of_nat (varint_val (take k b)) :: 32 word) = of_nat (varint_val (take 5 b))"
proof -
  obtain m where k: "k = 5 + m" using assms(1) by (metis le_Suc_ex)
  have "varint_val (take k b) = varint_val (take 5 b) + 128 ^ 5 * varint_val (take m (drop 5 b))"
    using assms by (simp add: k take_add varint_val_append)
  moreover have "of_nat (a + 128 ^ 5 * c) = (of_nat a + of_nat (128 ^ 5) * of_nat c :: 32 word)" for a c
    by simp
  moreover have "(of_nat (128 ^ 5) :: 32 word) = 0" by simp
  ultimately show ?thesis by (simp only: mult_zero_left add_0_right)
qed

lemma decode_chain32_val:
  assumes "k \<le> length b" and "\<And>i. i < k \<Longrightarrow> 128 \<le> byte_val (b ! i)" and "k + f = 5"
    and "r = of_nat (varint_val (take k b))"
  shows "decode_chain32 k f r b =
     (case varint_len (f + 5) (drop k b) of
        Some n \<Rightarrow> Some (Some (of_nat (varint_val (take (k + n) b))), k + n)
      | None \<Rightarrow> if 10 \<le> length b then Some (None, 10) else None)"
  using assms
proof (induction f arbitrary: k r)
  case 0
  then have k: "k = 5" by simp
  have "(of_nat (varint_val (take (5 + n) b)) :: 32 word) = r" if "varint_len 5 (drop 5 b) = Some n" for n
  proof -
    have "5 \<le> 5 + n" "5 + n \<le> length b" using varint_len_le [OF that] "0.prems"(1)
      by (simp_all add: k le_diff_conv2 add.commute)
    from varint_val_high [OF this] "0.prems"(4) show ?thesis by (simp add: k)
  qed
  with DiscardHighBytes_val [OF "0.prems"(1), of 5 r] show ?case
    by (auto simp: k split: option.splits)
next
  case (Suc f)
  show ?case
  proof (cases "k < length b")
    case False
    with Suc.prems(1,3) show ?thesis by (simp add: byte_at_def)
  next
    case True
    then have d: "drop k b = b ! k # drop (Suc k) b" by (simp add: Cons_nth_drop_Suc)
    have len: "varint_len (Suc f + 5) (drop k b)
        = (if byte_val (b ! k) < 128 then Some 1 else map_option Suc (varint_len (f + 5) (drop (Suc k) b)))"
      by (simp only: d add_Suc varint_len.simps)
    have p: "push_bit (7 * k) w = of_nat (128 ^ k) * (w :: 32 word)" for w
      by (simp add: push_bit_eq_mult power_7 mult.commute)
    have v: "varint_val (take (Suc k) b) = varint_val (take k b) + 128 ^ k * (byte_val (b ! k) mod 128)"
      using True by (rule varint_val_take_Suc)
    show ?thesis
    proof (cases "byte_val (b ! k) < 128")
      case small: True
      have "r + push_bit (7 * k) (byte_word (b ! k)) = of_nat (varint_val (take (Suc k) b))"
        using small by (simp add: v p Suc.prems(4) byte_word_def)
      with True small show ?thesis unfolding len by (simp add: byte_at_def)
    next
      case False
      then have hi: "\<And>i. i < Suc k \<Longrightarrow> 128 \<le> byte_val (b ! i)" using Suc.prems(2) by (auto simp: less_Suc_eq)
      have "r + push_bit (7 * k) (byte_word (b ! k)) - push_bit (7 * k) 0x80
          = r + push_bit (7 * k) (byte_word (b ! k) - 0x80)"
        unfolding p by (simp add: algebra_simps)
      also have "\<dots> = of_nat (varint_val (take (Suc k) b))"
        using False unfolding p by (simp add: v Suc.prems(4) byte_word_high [where ?'a = 32, of "b ! k"])
      finally have r: "r + push_bit (7 * k) (byte_word (b ! k)) - push_bit (7 * k) 0x80
          = of_nat (varint_val (take (Suc k) b))" .
      have "Suc k \<le> length b" "Suc k + f = 5" using True Suc.prems(3) by simp_all
      from Suc.IH [OF this(1) hi this(2) r] True False show ?thesis
        unfolding len by (simp add: byte_at_def split: option.splits)
    qed
  qed
qed

theorem ReadVarint32FromArray_val:
  assumes "b \<noteq> []" and "128 \<le> byte_val (hd b)"
  shows "ReadVarint32FromArray (byte_word (hd b)) b =
     (case varint_len 10 b of
        Some n \<Rightarrow> Some (Some (of_nat (varint_val (take n b))), n)
      | None \<Rightarrow> if 10 \<le> length b then Some (None, 10) else None)"
proof -
  obtain c cs where b: "b = c # cs" using assms(1) by (cases b) auto
  have c: "128 \<le> byte_val c" using assms(2) by (simp add: b)
  have "varint_len (Suc n) b = map_option Suc (varint_len n cs)" for n using c by (simp add: b)
  from this [of 9] have l: "varint_len 10 b = map_option Suc (varint_len 9 cs)" by simp
  have "decode_chain32 1 4 (byte_word (hd b) - 0x80) b =
     (case varint_len (4 + 5) (drop 1 b) of
        Some n \<Rightarrow> Some (Some (of_nat (varint_val (take (1 + n) b))), 1 + n)
      | None \<Rightarrow> if 10 \<le> length b then Some (None, 10) else None)"
    by (rule decode_chain32_val) (use c in \<open>simp_all add: b byte_word_high\<close>)
  then show ?thesis unfolding ReadVarint32_chain l by (simp add: b split: option.splits)
qed

end
