(* ===== verification/Varint_Encode.thy ===== *)
theory Varint_Encode
  imports Varint_Laws
begin

unbundle bit_operations_syntax

section \<open>What the encoders write\<close>

text \<open>
  The encoders write the shortest varint, whose length the size functions compute in both of
  their variants; decoding it returns the number. Little-endian integers and the zigzag code of
  signed integers come back unchanged.
\<close>

lemma or_128_byte: "(n OR 128) mod 256 = (n mod 128 + 128 :: nat)"
proof -
  have "n mod 128 + 128 = take_bit 7 n + 2 ^ 7" by (simp add: take_bit_eq_mod)
  also have "\<dots> = take_bit 7 n OR 2 ^ 7"
    by (rule disjunctive_add) (simp only: bit_take_bit_iff bit_exp_iff, auto)
  also have "\<dots> = take_bit 8 (n OR 2 ^ 7)"
    by (rule bit_eqI) (simp only: bit_take_bit_iff bit_or_iff bit_exp_iff, auto)
  also have "\<dots> = (n OR 128) mod 256" by (simp add: take_bit_eq_mod)
  finally show ?thesis by simp
qed

lemma low_byte_or:
  assumes "8 \<le> LENGTH('a::len)"
  shows "low_byte ((v :: 'a word) OR 0x80) = char_of (unat v mod 128 + 128)"
proof -
  have "(2::nat) ^ 8 \<le> 2 ^ LENGTH('a)" using assms by (rule power_increasing) simp
  then have "unat (0x80 :: 'a word) = 128" by (simp add: unsigned_numeral take_bit_eq_mod)
  then have "unat (v OR 0x80) = unat v OR 128" by (simp add: unsigned_or_eq)
  then have "low_byte (v OR 0x80) = char_of ((unat v OR 128) mod 256)"
    by (simp add: low_byte_def)
  then show ?thesis by (simp only: or_128_byte)
qed

lemma unat_drop7: "unat (drop_bit 7 (v :: 'a::len word)) = unat v div 128"
  by (subst unat_drop_bit_eq) (simp add: drop_bit_eq_div)

lemma UnsafeVarint32_bytes: "UnsafeVarint32 v = varint_bytes (unat v)"
proof (induction v rule: UnsafeVarint32.induct)
  case (1 v)
  have "v \<ge> 0x80 \<longleftrightarrow> \<not> unat v < 128" by (simp add: word_le_nat_alt not_less)
  moreover have "low_byte (v OR 0x80) = char_of (unat v mod 128 + 128)" by (rule low_byte_or) simp
  ultimately show ?case
    using "1" by (subst UnsafeVarint32.simps, subst varint_bytes.simps, cases "unat v < 128")
      (simp add: low_byte_def, simp add: unat_drop7)
qed

lemma UnsafeVarint64_bytes: "UnsafeVarint64 v = varint_bytes (unat v)"
proof (induction v rule: UnsafeVarint64.induct)
  case (1 v)
  have "v \<ge> 0x80 \<longleftrightarrow> \<not> unat v < 128" by (simp add: word_le_nat_alt not_less)
  moreover have "low_byte (v OR 0x80) = char_of (unat v mod 128 + 128)" by (rule low_byte_or) simp
  ultimately show ?case
    using "1" by (subst UnsafeVarint64.simps, subst varint_bytes.simps, cases "unat v < 128")
      (simp add: low_byte_def, simp add: unat_drop7)
qed

lemma UnsafeWriteSize_bytes: "UnsafeWriteSize v = varint_bytes (unat v)"
proof (induction v rule: UnsafeWriteSize.induct)
  case (1 v)
  have "v \<ge> 0x80 \<longleftrightarrow> \<not> unat v < 128" by (simp add: word_le_nat_alt not_less)
  moreover have "low_byte (v OR 0x80) = char_of (unat v mod 128 + 128)" by (rule low_byte_or) simp
  ultimately show ?case
    using "1" by (subst UnsafeWriteSize.simps, subst varint_bytes.simps, cases "unat v < 128")
      (simp add: low_byte_def, simp add: unat_drop7)
qed

subsection \<open>The shortest encoding\<close>

lemma varint_bytes_nonempty [simp]: "varint_bytes n \<noteq> []"
  by (subst varint_bytes.simps) simp

lemma varint_val_bytes [simp]: "varint_val (varint_bytes n) = n"
proof (induction n rule: varint_bytes.induct)
  case (1 n)
  then show ?case
    by (subst varint_bytes.simps) (auto simp: mod_simps)
qed

lemma varint_len_bytes: "length (varint_bytes n) \<le> m \<Longrightarrow> varint_len m (varint_bytes n @ z) = Some (length (varint_bytes n))"
proof (induction n arbitrary: m rule: varint_bytes.induct)
  case (1 n)
  show ?case
  proof (cases "n < 128")
    case True
    then have e: "varint_bytes n = [char_of n]" by (subst varint_bytes.simps) simp
    with "1.prems" True show ?thesis by (cases m) (simp_all add: e)
  next
    case False
    then have e: "varint_bytes n = char_of (n mod 128 + 128) # varint_bytes (n div 128)"
      by (subst varint_bytes.simps) simp
    have "(n mod 128 + 128) mod 256 = n mod 128 + 128" by simp
    with "1" False show ?thesis by (cases m) (simp_all add: e)
  qed
qed

lemma varint_bytes_length: "length (varint_bytes n) = (if n < 128 then 1 else Suc (length (varint_bytes (n div 128))))"
  by (subst varint_bytes.simps) simp

lemma varint_bytes_length_le: "n < 128 ^ Suc k \<Longrightarrow> length (varint_bytes n) \<le> Suc k"
proof (induction k arbitrary: n)
  case 0
  then show ?case by (simp add: varint_bytes_length)
next
  case (Suc k)
  then have "n div 128 < 128 ^ Suc k" by (simp add: less_mult_imp_div_less mult.commute)
  from Suc.IH [OF this] show ?case by (subst varint_bytes_length) simp
qed

lemma varint_bytes_length_ge: "128 ^ k \<le> n \<Longrightarrow> Suc k \<le> length (varint_bytes n)"
proof (induction k arbitrary: n)
  case 0
  then show ?case by (subst varint_bytes_length) simp
next
  case (Suc k)
  then have "128 ^ k \<le> n div 128" by (simp add: less_eq_div_iff_mult_less_eq mult.commute)
  moreover have "128 \<le> n"
  proof -
    have "(1::nat) \<le> 128 ^ k" by simp
    then have "128 * 1 \<le> 128 * (128::nat) ^ k" by (rule mult_le_mono2)
    with Suc.prems show ?thesis unfolding power_Suc by linarith
  qed
  ultimately show ?case
    using Suc.IH [of "n div 128"] by (subst varint_bytes_length) simp
qed

lemma varint_bytes_length_eq:
  assumes "128 ^ k \<le> n \<or> k = 0" and "n < 128 ^ Suc k"
  shows "length (varint_bytes n) = Suc k"
  using assms varint_bytes_length_le [OF assms(2)] varint_bytes_length_ge [of k n] varint_bytes_nonempty [of n]
  by (cases "varint_bytes n") auto

lemma unat_length_32: "length (varint_bytes (unat (v :: 32 word))) \<le> 5"
proof -
  have "unat v < 2 ^ 32" using unsigned_less [of v] by simp
  then have "unat v < 128 ^ Suc 4" by simp
  from varint_bytes_length_le [OF this] show ?thesis by simp
qed

lemma unat_length_64: "length (varint_bytes (unat (v :: 64 word))) \<le> 10"
proof -
  have "unat v < 2 ^ 64" using unsigned_less [of v] by simp
  then have "unat v < 128 ^ Suc 9" by simp
  from varint_bytes_length_le [OF this] show ?thesis by simp
qed


subsection \<open>Sizes\<close>

text \<open>The number of significant bits of a number.\<close>

fun bit_count :: "nat \<Rightarrow> nat" where
  "bit_count n = (if n = 0 then 0 else Suc (bit_count (n div 2)))"

declare bit_count.simps [simp del]

lemma bit_count_0 [simp]: "bit_count n = 0 \<longleftrightarrow> n = 0"
  by (subst bit_count.simps) simp

lemma bit_count_zero [simp]: "bit_count 0 = 0"
  by simp

lemma bit_count_bounds: "n < 2 ^ bit_count n \<and> (n = 0 \<or> 2 ^ (bit_count n - 1) \<le> n)"
proof (induction n rule: bit_count.induct)
  case (1 n)
  show ?case
  proof (cases "n = 0")
    case True
    then show ?thesis by (subst bit_count.simps) simp
  next
    case False
    with "1" have ih: "n div 2 < 2 ^ bit_count (n div 2)" "n div 2 = 0 \<or> 2 ^ (bit_count (n div 2) - 1) \<le> n div 2"
      by auto
    have e: "bit_count n = Suc (bit_count (n div 2))" using False by (subst bit_count.simps) simp
    have "n < 2 ^ bit_count n" using ih(1) by (simp add: e)
    moreover have "2 ^ (bit_count n - 1) \<le> n"
    proof (cases "n div 2 = 0")
      case True
      then have "bit_count (n div 2) = 0" by (simp add: bit_count.simps)
      with False show ?thesis by (simp add: e)
    next
      case n2: False
      then have "bit_count (n div 2) \<noteq> 0" by simp
      then obtain m where m: "bit_count (n div 2) = Suc m" by (rule not0_implies_Suc [THEN exE])
      with ih(2) n2 have "2 ^ m \<le> n div 2" by simp
      then show ?thesis by (simp add: e m)
    qed
    ultimately show ?thesis by simp
  qed
qed

lemma countl_zero_count: "countl_zero (v :: 'a::len word) = LENGTH('a) - bit_count (unat v)"
proof -
  let ?n = "unat v" and ?L = "LENGTH('a)"
  have b: "bit v i \<longleftrightarrow> bit ?n i" for i
    by (metis bit_unsigned_iff possible_bit_nat)
  define k where "k = bit_count ?n"
  have hi: "\<not> bit ?n i" if "k \<le> i" for i
  proof -
    have "?n < 2 ^ k" using bit_count_bounds [of ?n] by (simp add: k_def)
    also have "(2::nat) ^ k \<le> 2 ^ i" using that by (rule power_increasing) simp
    finally show ?thesis by (simp add: bit_iff_odd)
  qed
  have kL: "k \<le> ?L"
  proof (rule ccontr)
    assume a: "\<not> k \<le> ?L"
    then have "?n \<noteq> 0" by (intro notI) (simp add: k_def)
    then have "2 ^ (k - 1) \<le> ?n" using bit_count_bounds [of ?n] by (simp add: k_def)
    moreover have "?n < 2 ^ ?L" by (rule unsigned_less)
    moreover have "(2::nat) ^ ?L \<le> 2 ^ (k - 1)" using a by (intro power_increasing) auto
    ultimately show False by linarith
  qed
  have "rev [0..<?L] = rev [k..<?L] @ rev [0..<k]"
    using upt_add_eq_append [of 0 k "?L - k"] kL by simp
  moreover have "takeWhile (\<lambda>i. \<not> bit v i) (rev [0..<k]) = []"
  proof (cases k)
    case 0
    then show ?thesis by simp
  next
    case (Suc m)
    have "?n \<noteq> 0" using Suc by (intro notI) (simp add: k_def)
    then have "2 ^ m \<le> ?n" "?n < 2 ^ Suc m" using bit_count_bounds [of ?n] Suc by (simp_all add: k_def)
    then have "?n div 2 ^ m = 1" by (simp add: div_nat_eqI)
    then have "bit ?n m" by (simp add: bit_iff_odd)
    then show ?thesis by (simp add: Suc b)
  qed
  moreover have "takeWhile (\<lambda>i. \<not> bit v i) (rev [k..<?L] @ ys) = rev [k..<?L] @ takeWhile (\<lambda>i. \<not> bit v i) ys" for ys
    by (rule takeWhile_append2) (simp add: b hi)
  ultimately show ?thesis by (simp add: countl_zero_def k_def)
qed

lemma varint_length_bits: "length (varint_bytes n) = (if n = 0 then 1 else (bit_count n + 6) div 7)"
proof (cases "n = 0")
  case True
  then show ?thesis by (subst varint_bytes.simps) simp
next
  case False
  note b = bit_count_bounds [of n]
  define k where "k = (bit_count n + 6) div 7 - 1"
  have pos: "1 \<le> bit_count n" using False by (subst bit_count.simps) simp
  define d where "d = (bit_count n + 6) div 7"
  have "7 * d + (bit_count n + 6) mod 7 = bit_count n + 6" unfolding d_def by (rule mult_div_mod_eq)
  moreover have "(bit_count n + 6) mod 7 < 7" by simp
  ultimately have d: "7 * d \<le> bit_count n + 6" "bit_count n \<le> 7 * d" "1 \<le> d" using pos by linarith+
  have kd: "Suc k = d" using d(3) by (simp add: k_def d_def [symmetric])
  then have k: "7 * k < bit_count n" using d by linarith
  have "(2::nat) ^ bit_count n \<le> 2 ^ (7 * d)" using d(2) by (rule power_increasing) simp
  then have "n < 128 ^ d" using b by (simp add: power_mult)
  then have "n < 128 ^ Suc k" by (simp only: kd)
  moreover have "(2::nat) ^ (7 * k) \<le> 2 ^ (bit_count n - 1)" using k by (intro power_increasing) simp_all
  then have "128 ^ k \<le> n" using b False by (simp add: power_mult)
  ultimately have "length (varint_bytes n) = Suc k" by (intro varint_bytes_length_eq) simp_all
  then show ?thesis using False kd by (simp add: d_def)
qed

text \<open>The multiplication by nine and division by 64 is a division by seven on these ranges.\<close>

lemma nine_64: "l \<le> 64 \<Longrightarrow> (9 * l + 64) div 64 = (if l = 0 then 1 else (l + 6) div 7)" for l :: nat
proof -
  have "list_all (\<lambda>l. (9 * l + 64) div 64 = (if l = 0 then 1 else (l + 6) div 7)) [0..<65]"
    by code_simp
  then show "l \<le> 64 \<Longrightarrow> ?thesis" by (auto simp: list_all_iff)
qed

lemma bit_count_le: "n < 2 ^ k \<Longrightarrow> bit_count n \<le> k"
proof (rule ccontr)
  assume n: "n < 2 ^ k" and "\<not> bit_count n \<le> k"
  then have k: "k \<le> bit_count n - 1" "n \<noteq> 0" by (auto intro: ccontr)
  then have "(2::nat) ^ k \<le> 2 ^ (bit_count n - 1)" by (intro power_increasing) simp_all
  with bit_count_bounds [of n] k n show False by linarith
qed

lemma bit_count_or_1: "n \<noteq> 0 \<Longrightarrow> bit_count (n OR 1) = bit_count n"
proof -
  assume n: "n \<noteq> 0"
  have "(n OR 1) div 2 = drop_bit 1 (n OR 1)" by (simp add: drop_bit_eq_div)
  also have "\<dots> = drop_bit 1 n OR drop_bit 1 1" by (rule drop_bit_or)
  also have "\<dots> = n div 2" by (simp add: drop_bit_eq_div)
  finally have "(n OR 1) div 2 = n div 2" .
  moreover have "n OR 1 \<noteq> 0" by (simp add: or_eq_0_iff)
  ultimately show ?thesis using n by (subst (1 2) bit_count.simps) simp
qed


lemma countl_size:
  fixes v :: "'a::len word"
  defines "b \<equiv> bit_count (unat v)"
  shows "countl_zero v = LENGTH('a) - b" and "b \<le> LENGTH('a)"
    and "LENGTH('a) - 1 - countl_zero (v OR 1) = (if b = 0 then 0 else b - 1)"
proof -
  show c: "countl_zero v = LENGTH('a) - b" by (simp add: countl_zero_count b_def)
  show l: "b \<le> LENGTH('a)" unfolding b_def by (rule bit_count_le) (rule unsigned_less)
  have o: "unat (v OR 1) = unat v OR 1" by (simp add: unsigned_or_eq)
  show "LENGTH('a) - 1 - countl_zero (v OR 1) = (if b = 0 then 0 else b - 1)"
  proof (cases "unat v = 0")
    case True
    then have "bit_count (unat (v OR 1)) = 1" unfolding o by (simp add: bit_count.simps)
    with True show ?thesis by (simp add: countl_zero_count b_def)
  next
    case False
    then have "bit_count (unat (v OR 1)) = b" unfolding o b_def by (rule bit_count_or_1)
    with False l show ?thesis by (simp add: countl_zero_count)
  qed
qed

lemma VarintSize32_value: "VarintSize32 bsr v = length (UnsafeVarint32 v)"
proof -
  note c = countl_size [of v]
  define b where "b = bit_count (unat v)"
  have b: "b \<le> 32" "length (UnsafeVarint32 v) = (9 * b + 64) div 64"
    using c(2) varint_length_bits [of "unat v"] nine_64 [of b] by (auto simp: b_def UnsafeVarint32_bytes)
  have "VarintSize32 bsr v = (9 * b + 64) div 64"
  proof (cases bsr)
    case True
    then have "VarintSize32 bsr v = ((if b = 0 then 0 else b - 1) * 9 + (64 + 9)) div 64"
      using c(3) by (simp add: VarintSize32_def b_def)
    then show ?thesis by (cases b) (simp_all add: algebra_simps)
  next
    case False
    then have "VarintSize32 bsr v = ((32 * 9 + 64) - (32 - b) * 9) div 64"
      using c(1) by (simp add: VarintSize32_def b_def)
    moreover have "(32 * 9 + 64) - (32 - b) * 9 = 9 * b + 64" using b(1) by simp
    ultimately show ?thesis by simp
  qed
  with b(2) show ?thesis by simp
qed

lemma VarintSize64_value: "VarintSize64 bsr v = length (UnsafeVarint64 v)"
proof -
  note c = countl_size [of v]
  define b where "b = bit_count (unat v)"
  have b: "b \<le> 64" "length (UnsafeVarint64 v) = (9 * b + 64) div 64"
    using c(2) varint_length_bits [of "unat v"] nine_64 [of b] by (auto simp: b_def UnsafeVarint64_bytes)
  have "VarintSize64 bsr v = (9 * b + 64) div 64"
  proof (cases bsr)
    case True
    then have "VarintSize64 bsr v = ((if b = 0 then 0 else b - 1) * 9 + (64 + 9)) div 64"
      using c(3) by (simp add: VarintSize64_def b_def)
    then show ?thesis by (cases b) (simp_all add: algebra_simps)
  next
    case False
    then have "VarintSize64 bsr v = ((64 * 9 + 64) - (64 - b) * 9) div 64"
      using c(1) by (simp add: VarintSize64_def b_def)
    moreover have "(64 * 9 + 64) - (64 - b) * 9 = 9 * b + 64" using b(1) by simp
    ultimately show ?thesis by simp
  qed
  with b(2) show ?thesis by simp
qed

lemma VarintSizePlusOne_value:
  "VarintSize32PlusOne bsr v = Suc (VarintSize32 bsr v)" "VarintSize64PlusOne bsr w = Suc (VarintSize64 bsr w)"
proof -
  have d: "(x + 64) div 64 = Suc (x div 64)" for x :: nat by simp
  have "countl_zero v \<le> 32" "countl_zero w \<le> 64" using countl_size(1) [of v] countl_size(1) [of w] by simp_all
  then have s: "(32 * 9 + 64 + 64) - countl_zero v * 9 = (32 * 9 + 64) - countl_zero v * 9 + 64"
    "(64 * 9 + 64 + 64) - countl_zero w * 9 = (64 * 9 + 64) - countl_zero w * 9 + 64" by simp_all
  show "VarintSize32PlusOne bsr v = Suc (VarintSize32 bsr v)" "VarintSize64PlusOne bsr w = Suc (VarintSize64 bsr w)"
    unfolding VarintSize32PlusOne_def VarintSize64PlusOne_def VarintSize32_def VarintSize64_def Let_def s d
    by (cases bsr; simp)+
qed

lemma TagSize_value: "TagSize v = length (UnsafeVarint32 v)" "StaticVarintSize32 v = length (UnsafeVarint32 v)"
proof -
  let ?n = "unat v"
  have w: "v < 2 ^ 7 \<longleftrightarrow> ?n < 2 ^ 7" "v < 2 ^ 14 \<longleftrightarrow> ?n < 2 ^ 14" "v < 2 ^ 21 \<longleftrightarrow> ?n < 2 ^ 21"
    "v < 2 ^ 28 \<longleftrightarrow> ?n < 2 ^ 28"
    by (simp_all add: word_less_nat_alt)
  have p: "(128::nat) ^ 0 = 1" "(128::nat) ^ Suc 0 = 2 ^ 7" "(128::nat) ^ Suc 1 = 2 ^ 14" "(128::nat) ^ 1 = 2 ^ 7"
    "(128::nat) ^ Suc 2 = 2 ^ 21" "(128::nat) ^ 2 = 2 ^ 14" "(128::nat) ^ Suc 3 = 2 ^ 28"
    "(128::nat) ^ 3 = 2 ^ 21" "(128::nat) ^ Suc 4 = 2 ^ 35" "(128::nat) ^ 4 = 2 ^ 28"
    by simp_all
  note e = varint_bytes_length_eq [of 0 ?n, unfolded p] varint_bytes_length_eq [of 1 ?n, unfolded p]
    varint_bytes_length_eq [of 2 ?n, unfolded p] varint_bytes_length_eq [of 3 ?n, unfolded p]
    varint_bytes_length_eq [of 4 ?n, unfolded p]
  have "?n < 2 ^ 32" using unsigned_less [of v, where ?'a = nat] by simp
  then have "?n < 2 ^ 35" by simp
  then have l: "length (varint_bytes ?n) = (if ?n < 2 ^ 7 then 1 else if ?n < 2 ^ 14 then 2 else if ?n < 2 ^ 21 then 3
      else if ?n < 2 ^ 28 then 4 else 5)"
    using e by (simp add: not_less)
  show "TagSize v = length (UnsafeVarint32 v)" "StaticVarintSize32 v = length (UnsafeVarint32 v)"
    unfolding TagSize_def StaticVarintSize32_def UnsafeVarint32_bytes l w by (rule refl)+
qed


subsection \<open>Little-endian integers\<close>

lemma le_val_bytes: "le_val (map (\<lambda>i. char_of (n div 256 ^ i)) [0..<k]) = n mod 256 ^ k"
proof (induction k arbitrary: n)
  case 0
  then show ?case by simp
next
  case (Suc k)
  have "map (\<lambda>i. char_of (n div 256 ^ i)) [0..<Suc k]
      = (char_of n :: char) # map (\<lambda>i. char_of (n div 256 div 256 ^ i)) [0..<k]"
    by (simp only: upt_conv_Cons map_Suc_upt [symmetric] zero_less_Suc list.map)
      (simp add: div_mult2_eq [symmetric])
  then show ?case
    using Suc [of "n div 256"] by (simp add: mod_mult2_eq)
qed

lemma low_byte_drop: "low_byte (drop_bit k (v :: 'a::len word)) = char_of (unat v div 2 ^ k)"
  unfolding low_byte_def by (subst unat_drop_bit_eq) (simp add: drop_bit_eq_div)

lemma WriteLittleEndian_val:
  "le_val (WriteLittleEndian16ToArray v) = unat v" "le_val (WriteLittleEndian32ToArray w) = unat w"
  "le_val (WriteLittleEndian64ToArray x) = unat x"
proof -
  have p: "(2::nat) ^ 8 = 256 ^ 1" "(2::nat) ^ 16 = 256 ^ 2" "(2::nat) ^ 24 = 256 ^ 3" by simp_all
  have u: "[0..<2] = [0, 1::nat]" "[0..<4] = [0, 1, 2, 3::nat]" "[0..<8] = [0, 1, 2, 3, 4, 5, 6, 7::nat]"
    by (simp_all add: upt_rec)
  have "WriteLittleEndian16ToArray v = map (\<lambda>i. char_of (unat v div 256 ^ i)) [0..<2]"
    by (simp only: WriteLittleEndian16ToArray_def low_byte_drop p u list.map)
      (simp add: low_byte_def)
  then show "le_val (WriteLittleEndian16ToArray v) = unat v"
    using le_val_bytes [of "unat v" 2] unsigned_less [of v, where ?'a = nat] by simp
  have "WriteLittleEndian32ToArray w = map (\<lambda>i. char_of (unat w div 256 ^ i)) [0..<4]"
    by (simp only: WriteLittleEndian32ToArray_def low_byte_drop p u list.map)
      (simp add: low_byte_def)
  then show "le_val (WriteLittleEndian32ToArray w) = unat w"
    using le_val_bytes [of "unat w" 4] unsigned_less [of w, where ?'a = nat] by simp
  let ?a = "ucast x :: 32 word" and ?b = "ucast (drop_bit 32 x) :: 32 word"
  have "WriteLittleEndian64ToArray x
      = map (\<lambda>i. char_of (unat ?a div 256 ^ i)) [0..<4] @ map (\<lambda>i. char_of (unat ?b div 256 ^ i)) [0..<4]"
    by (simp only: WriteLittleEndian64ToArray_def Let_def low_byte_drop p u list.map append.simps)
      (simp add: low_byte_def)
  moreover have "le_val (xs @ ys) = le_val xs + 256 ^ length xs * le_val ys" for xs ys
    by (induction xs) (auto simp: algebra_simps)
  ultimately have "le_val (WriteLittleEndian64ToArray x) = unat ?a mod 256 ^ 4 + 256 ^ 4 * (unat ?b mod 256 ^ 4)"
    by (simp only: le_val_bytes length_map length_upt) simp
  moreover have "unat ?a = unat x mod 2 ^ 32" "unat ?b = unat x div 2 ^ 32 mod 2 ^ 32"
  proof -
    have u: "unat (ucast z :: 32 word) = unat z mod 2 ^ 32" for z :: "64 word"
      by (simp add: unsigned_ucast_eq take_bit_eq_mod)
    show "unat ?a = unat x mod 2 ^ 32" by (rule u)
    show "unat ?b = unat x div 2 ^ 32 mod 2 ^ 32"
      unfolding u by (subst unat_drop_bit_eq) (simp add: drop_bit_eq_div)
  qed
  moreover have "unat x div 2 ^ 32 < 2 ^ 32"
    using unsigned_less [of x, where ?'a = nat] by (simp add: less_mult_imp_div_less)
  ultimately show "le_val (WriteLittleEndian64ToArray x) = unat x" by simp
qed

end
