(* ===== verification/Coded_Read_Laws.thy ===== *)
theory Coded_Read_Laws
  imports Coded_Raw Coded_Read Varint_Encode
begin

unbundle bit_operations_syntax

section \<open>Integers and tags, wherever the buffers end\<close>

text \<open>
  What the integer readers return is a function of the readable bytes alone. \<open>coded_varint\<close> is
  the reference: the varint at the start of the readable bytes, of at most ten bytes. The fast
  paths on the buffer and the slow path across buffers both compute it.
\<close>

definition coded_varint :: "string \<Rightarrow> 's coded_input \<Rightarrow> (nat \<times> nat) option" where
  "coded_varint data s =
     map_option (\<lambda>n. (varint_val (take n (coded_avail data s)), n)) (varint_len 10 (coded_avail data s))"

lemma coded_varint_Some:
  "coded_varint data s = Some (v, n) \<longleftrightarrow>
     varint_len 10 (coded_avail data s) = Some n \<and> v = varint_val (take n (coded_avail data s))"
  by (auto simp: coded_varint_def)

lemma coded_varint_None: "coded_varint data s = None \<longleftrightarrow> varint_len 10 (coded_avail data s) = None"
  by (simp add: coded_varint_def)

text \<open>The outcome of reading a varint: the reference decides, a failure leaves the position open.\<close>

definition varint_outcome ::
  "'s input_stream \<Rightarrow> ('s \<Rightarrow> bool) \<Rightarrow> ('s \<Rightarrow> string) \<Rightarrow> string \<Rightarrow> 's coded_input \<Rightarrow> bool \<Rightarrow> (nat \<Rightarrow> bool)
    \<Rightarrow> 's coded_input \<Rightarrow> bool" where
  "varint_outcome I okay rest data s ok val s' \<longleftrightarrow> coded_inv I okay rest data s' \<and> coded_frame s' = coded_frame s
     \<and> (coded_avail data s = [] \<longrightarrow> CurrentPosition s' = CurrentPosition s)
     \<and> (case coded_varint data s of
           None \<Rightarrow> \<not> ok
         | Some (x, n) \<Rightarrow> ok \<and> val x \<and> coded_took data (int n) s True s')"

subsection \<open>The bytes in the buffer\<close>

lemma varint_len_prefix: "varint_len n b = varint_len n (take n b)"
  by (induction n b rule: varint_len.induct) simp_all

lemma varint_len_complete:
  assumes "10 \<le> length a \<or> a \<noteq> [] \<and> byte_val (last a) < 128"
  shows "varint_len 10 (a @ x) = varint_len 10 (a @ y)"
proof (cases "10 \<le> length a")
  case True
  then show ?thesis
    using varint_len_prefix [of 10 "a @ x"] varint_len_prefix [of 10 "a @ y"] by simp
next
  case False
  with assms have "last a \<in> set (take 10 a)" "byte_val (last a) < 128" by simp_all
  then have "varint_len 10 a \<noteq> None" using varint_len_None [of 10 a] by force
  then obtain k where "varint_len 10 a = Some k" by blast
  from varint_len_append [OF this] show ?thesis by simp
qed

text \<open>The memory behind the buffer does not matter to an access within it.\<close>

lemma coded_buffer_split:
  assumes "coded_inv I okay rest data s"
  obtains a x y where "ci_buffer s = a @ x" "coded_avail data s = a @ y" "int (length a) = ci_size s"
proof -
  note b = coded_buffer [OF assms]
  let ?k = "nat (ci_size s)"
  have "ci_buffer s = take ?k (ci_buffer s) @ drop ?k (ci_buffer s)"
    "coded_avail data s = take ?k (ci_buffer s) @ drop ?k (coded_avail data s)"
    by (rule append_take_drop_id [symmetric], subst b(1), rule append_take_drop_id [symmetric])
  moreover have "int (length (take ?k (ci_buffer s))) = ci_size s"
    using b(3) coded_invD(1) [OF assms] by simp
  ultimately show thesis by (rule that)
qed

lemma varint_in_buffer_total:
  assumes "coded_inv I okay rest data s"
  obtains (Fast) "varint_in_buffer s = Some True" "0 < ci_size s"
      "varint_len 10 (ci_buffer s) = varint_len 10 (coded_avail data s)"
      "\<And>n. varint_len 10 (coded_avail data s) = Some n \<Longrightarrow>
         int n \<le> ci_size s \<and> take n (ci_buffer s) = take n (coded_avail data s)"
      "varint_len 10 (coded_avail data s) = None \<Longrightarrow> 10 \<le> length (ci_buffer s)"
  | (Slow) "varint_in_buffer s = Some False"
proof -
  obtain a x y where a: "ci_buffer s = a @ x" "coded_avail data s = a @ y" "int (length a) = ci_size s"
    using coded_buffer_split [OF assms] by blast
  have z: "0 < ci_size s \<longleftrightarrow> a \<noteq> []" using a(3) by (cases a) auto
  have h: "(byte_word c :: 32 word) AND 0x80 = 0 \<longleftrightarrow> byte_val c < 128" for c
    by (rule high_bit_clear) simp
  have l: "byte_at (ci_buffer s) (nat (ci_size s) - 1) = Some (last a)" if "a \<noteq> []"
  proof -
    from that have "length a \<noteq> 0" by simp
    then obtain k where k: "length a = Suc k" by (rule not0_implies_Suc [THEN exE])
    then have "nat (ci_size s) - 1 = k" by (simp add: a(3) [symmetric])
    then show ?thesis using that k by (simp add: byte_at_def a(1) nth_append last_conv_nth)
  qed
  show thesis
  proof (cases "10 \<le> length a \<or> a \<noteq> [] \<and> byte_val (last a) < 128")
    case True
    then have ne: "a \<noteq> []" by auto
    have f: "varint_in_buffer s = Some True"
      using True l [OF ne] by (auto simp: varint_in_buffer_def kMaxVarintBytes_def a(3) [symmetric] h)
    have e: "varint_len 10 (ci_buffer s) = varint_len 10 (coded_avail data s)"
      unfolding a(1,2) by (rule varint_len_complete [OF True])
    have some: "int n \<le> ci_size s \<and> take n (ci_buffer s) = take n (coded_avail data s)"
      if n: "varint_len 10 (coded_avail data s) = Some n" for n
    proof -
      have "varint_len 10 (a @ []) = varint_len 10 (a @ y)" by (rule varint_len_complete [OF True])
      with n a(2) varint_len_le have "n \<le> length a" by simp
      then show ?thesis by (simp add: a(1,2) a(3) [symmetric])
    qed
    have none: "10 \<le> length (ci_buffer s)" if n: "varint_len 10 (coded_avail data s) = None"
    proof (rule ccontr)
      assume "\<not> 10 \<le> length (ci_buffer s)"
      then have "\<not> 10 \<le> length a" by (simp add: a(1))
      then have "last a \<in> set (take 10 (a @ y))" "byte_val (last a) < 128" using True by simp_all
      with n varint_len_None [of 10 "a @ y"] a(2) show False by force
    qed
    show thesis by (rule Fast [OF f _ e some none]) (use z ne in simp_all)
  next
    case False
    have "varint_in_buffer s = Some False"
      using False l by (cases "a = []") (auto simp: varint_in_buffer_def kMaxVarintBytes_def a(3) [symmetric] h)
    then show thesis by (rule Slow)
  qed
qed

lemma byte_at_first:
  assumes "coded_inv I okay rest data s" and "0 < ci_size s"
  shows "byte_at (ci_buffer s) 0 = Some (hd (ci_buffer s))" and "ci_buffer s \<noteq> []"
    and "hd (coded_avail data s) = hd (ci_buffer s)" and "coded_avail data s \<noteq> []"
proof -
  obtain a x y where a: "ci_buffer s = a @ x" "coded_avail data s = a @ y" "int (length a) = ci_size s"
    using coded_buffer_split [OF assms(1)] by blast
  with assms(2) have "a \<noteq> []" by (cases a) auto
  with a show "byte_at (ci_buffer s) 0 = Some (hd (ci_buffer s))" "ci_buffer s \<noteq> []"
    "hd (coded_avail data s) = hd (ci_buffer s)" "coded_avail data s \<noteq> []"
    by (auto simp: byte_at_def hd_conv_nth nth_append)
qed

subsection \<open>The slow path\<close>

lemma word_or_disjoint:
  assumes "x < 128"
  shows "(of_nat (x + 128 * y) :: 64 word) = of_nat x OR push_bit 7 (of_nat y)"
proof -
  have "of_nat (x + 128 * y) = (of_nat x + push_bit 7 (of_nat y) :: 64 word)"
    by (simp add: push_bit_eq_mult mult.commute)
  also have "\<dots> = of_nat x OR push_bit 7 (of_nat y)"
  proof (rule disjunctive_add)
    fix i
    have "take_bit 7 x = x" using assms by (simp add: take_bit_nat_eq_self_iff)
    then have "take_bit 7 (of_nat x :: 64 word) = of_nat x" by (metis take_bit_of_nat)
    then have "bit (of_nat x :: 64 word) i \<Longrightarrow> i < 7" by (metis bit_take_bit_iff)
    then show "\<not> bit (of_nat x :: 64 word) i \<or> \<not> bit (push_bit 7 (of_nat y) :: 64 word) i"
      by (auto simp: bit_push_bit_iff)
  qed
  finally show ?thesis .
qed

lemma low_bits_byte: "(ucast ((byte_word c :: 32 word) AND 0x7F) :: 64 word) = of_nat (byte_val c mod 128)"
proof -
  have "(byte_word c :: 32 word) AND 0x7F = byte_word c AND (2 ^ 7 - 1)" by simp
  also have "\<dots> = take_bit 7 (byte_word c)" by (simp add: take_bit_eq_mask mask_eq_exp_minus_1)
  finally have "unat ((byte_word c :: 32 word) AND 0x7F) = byte_val c mod 128"
    using unat_byte_word [where ?'a = 32, of c] by (simp only: unsigned_take_bit_eq) (simp add: take_bit_eq_mod)
  then have "of_nat (unat ((byte_word c :: 32 word) AND 0x7F)) = (of_nat (byte_val c mod 128) :: 64 word)" by simp
  then show ?thesis by (simp only: of_nat_unat)
qed


context coded_source
begin

text \<open>After refilling, the next byte is in the buffer, if there is one.\<close>

lemma refill_buffer_next:
  assumes "J s"
  shows "\<exists>s'. refill_buffer I s = Some (coded_avail data s \<noteq> [], s') \<and> J s' \<and> coded_frame s' = coded_frame s
      \<and> CurrentPosition s' = CurrentPosition s \<and> coded_avail data s' = coded_avail data s
      \<and> (coded_avail data s \<noteq> [] \<longrightarrow> 0 < ci_size s')"
proof (cases "ci_size s = 0")
  case False
  then have p: "0 < ci_size s" using coded_invD(1) [OF assms] by simp
  with byte_at_first(4) [OF assms p] assms show ?thesis by (subst refill_buffer.simps) simp
next
  case True
  obtain b t where t: "coded_Refresh I s = Some (b, t)" "J t" "coded_frame t = coded_frame s"
    "CurrentPosition t = CurrentPosition s"
    "if b then \<not> coded_blocked s \<and> (0 < ci_size t \<or> coded_blocked t) else ci_size t = 0 \<and> coded_avail data s = []"
    using coded_Refresh_inv [OF assms True] by blast
  have av: "coded_avail data t = coded_avail data s"
    using t(4) frame_closest [OF t(3)] by (simp add: coded_avail_def)
  consider (stop) "\<not> b" | (data) b "0 < ci_size t" | (limit) b "ci_size t = 0" "coded_blocked t"
    using t(5) coded_invD(1) [OF t(2)] by (cases b) (auto simp: less_le)
  then show ?thesis
  proof cases
    case stop
    with t True av show ?thesis by (subst refill_buffer.simps) auto
  next
    case data
    with t True av byte_at_first(4) [OF t(2) data(2)] show ?thesis
      by (subst refill_buffer.simps) (simp, subst refill_buffer.simps, auto)
  next
    case limit
    have e: "coded_avail data t = []" using coded_blocked_avail(1) [OF t(2) limit(2,3)] .
    have "coded_Refresh I t = Some (False, t)" using limit(3) by (simp add: coded_Refresh_def coded_blocked_def)
    with limit t True av e show ?thesis
      by (subst refill_buffer.simps) (simp, subst refill_buffer.simps, auto)
  qed
qed

lemma varint_slow:
  assumes "J s" and "count \<le> 10"
  shows "\<exists>ok v s'. ReadVarint64Slow_loop I result count s = Some ((ok, v), s') \<and> J s' \<and> coded_frame s' = coded_frame s
      \<and> (coded_avail data s = [] \<longrightarrow> CurrentPosition s' = CurrentPosition s)
      \<and> (case varint_len (10 - count) (coded_avail data s) of
            None \<Rightarrow> \<not> ok
          | Some n \<Rightarrow> ok \<and> v = result OR push_bit (7 * count) (of_nat (varint_val (take n (coded_avail data s))))
              \<and> coded_took data (int n) s True s')"
  using assms
proof (induction "10 - count" arbitrary: count result s)
  case 0
  then show ?case by (subst ReadVarint64Slow_loop.simps) (auto simp: kMaxVarintBytes_def)
next
  case (Suc m)
  have c: "count \<noteq> 10" "10 - count = Suc m" "m = 10 - (count + 1)" "count + 1 \<le> 10" using Suc.hyps(2) by auto
  obtain t where t: "refill_buffer I s = Some (coded_avail data s \<noteq> [], t)" "J t" "coded_frame t = coded_frame s"
    "CurrentPosition t = CurrentPosition s" "coded_avail data t = coded_avail data s"
    "coded_avail data s \<noteq> [] \<Longrightarrow> 0 < ci_size t"
    using refill_buffer_next [OF Suc.prems(1)] by blast
  show ?case
  proof (cases "coded_avail data s")
    case Nil
    with t show ?thesis
      by (subst ReadVarint64Slow_loop.simps) (auto simp: kMaxVarintBytes_def c(1))
  next
    case (Cons x xs)
    have sz: "0 < ci_size t" using t(6) Cons by simp
    note f = byte_at_first [OF t(2) sz]
    have hd: "hd (ci_buffer t) = x" using f(3) Cons t(5) by simp
    have one: "0 \<le> (1::int)" "1 \<le> ci_size t" using sz by simp_all
    define u where "u = coded_Advance 1 t"
    note U = coded_Advance_inv [OF t(2) one, folded u_def] and T = coded_Advance_took [OF t(2) one, folded u_def]
    have T1: "coded_took data 1 s True u" by (rule coded_took_skip [OF T t(4,3)])
    have au: "coded_avail data u = xs" using U(5) t(5) Cons by simp
    have h: "(byte_word x :: 32 word) AND 0x80 = 0 \<longleftrightarrow> byte_val x < 128" by (rule high_bit_clear) simp
    define r where "r = result OR push_bit (7 * count) (of_nat (byte_val x mod 128))"
    have step: "ReadVarint64Slow_loop I result count s =
        (if byte_val x < 128 then Some ((True, r), u) else ReadVarint64Slow_loop I r (count + 1) u)"
      using t(1) Cons f(1) hd c(1)
      by (subst ReadVarint64Slow_loop.simps) (simp add: kMaxVarintBytes_def Let_def u_def r_def h low_bits_byte)
    show ?thesis
    proof (cases "byte_val x < 128")
      case True
      then show ?thesis
        using step U(1,2) t(3) T1 by (auto simp: c(2) Cons r_def)
    next
      case False
      from Suc.hyps(1) [OF c(3) U(1) c(4), of r] obtain ok v s' where
        i: "ReadVarint64Slow_loop I r (count + 1) u = Some ((ok, v), s')" "J s'" "coded_frame s' = coded_frame u"
          "case varint_len m xs of None \<Rightarrow> \<not> ok
           | Some n \<Rightarrow> ok \<and> v = r OR push_bit (7 * (count + 1)) (of_nat (varint_val (take n xs)))
              \<and> coded_took data (int n) u True s'"
        unfolding au c(3) [symmetric] by blast
      have fr: "coded_frame s' = coded_frame s" using i(3) U(2) t(3) by simp
      show ?thesis
      proof (cases "varint_len m xs")
        case None
        with i step False fr show ?thesis by (auto simp: c(2) Cons)
      next
        case (Some n)
        with i(4) have v: "ok" "v = r OR push_bit (7 * (count + 1)) (of_nat (varint_val (take n xs)))"
          "coded_took data (int n) u True s'" by simp_all
        have "r OR push_bit (7 * (count + 1)) w = result OR push_bit (7 * count) (of_nat (byte_val x mod 128) OR push_bit 7 w)"
          for w :: "64 word"
          by (simp add: r_def push_bit_or or.assoc push_bit_push_bit add.commute)
        then have v2: "v = result OR push_bit (7 * count) (of_nat (varint_val (take (Suc n) (coded_avail data s))))"
          unfolding v(2) by (simp only: Cons take_Suc_Cons varint_val.simps word_or_disjoint [of "byte_val x mod 128"]
              mod_less_divisor zero_less_numeral)
        have "coded_took data (int (Suc n) - 1) u True s'" using v(3) by simp
        with T1 have "coded_took data (int (Suc n)) s True s'" by (rule coded_took_trans) simp_all
        with i(1,2) step False fr v(1) v2 Some show ?thesis by (auto simp: c(2) Cons)
      qed
    qed
  qed
qed

abbreviation varint_read :: "'s coded_input \<Rightarrow> bool \<Rightarrow> (nat \<Rightarrow> bool) \<Rightarrow> 's coded_input \<Rightarrow> bool" where
  "varint_read \<equiv> varint_outcome I okay rest data"

lemma varint_fast:
  assumes "J s" and "varint_in_buffer s = Some True" and "128 \<le> byte_val (hd (ci_buffer s))"
  shows "ReadVarint64FromArray (ci_buffer s) =
      (case coded_varint data s of Some (x, n) \<Rightarrow> Some (Some (of_nat x), n) | None \<Rightarrow> Some (None, 11))"
    and "ReadVarint32FromArray (byte_word (hd (ci_buffer s))) (ci_buffer s) =
      (case coded_varint data s of Some (x, n) \<Rightarrow> Some (Some (of_nat x), n) | None \<Rightarrow> Some (None, 10))"
    and "coded_varint data s = Some (x, n) \<Longrightarrow> J (coded_Advance (int n) s)
      \<and> coded_frame (coded_Advance (int n) s) = coded_frame s \<and> coded_took data (int n) s True (coded_Advance (int n) s)"
proof -
  from assms(1) have "ReadVarint64FromArray (ci_buffer s) =
      (case coded_varint data s of Some (x, n) \<Rightarrow> Some (Some (of_nat x), n) | None \<Rightarrow> Some (None, 11))
    \<and> ReadVarint32FromArray (byte_word (hd (ci_buffer s))) (ci_buffer s) =
      (case coded_varint data s of Some (x, n) \<Rightarrow> Some (Some (of_nat x), n) | None \<Rightarrow> Some (None, 10))
    \<and> (coded_varint data s = Some (x, n) \<longrightarrow> int n \<le> ci_size s)"
  proof (cases rule: varint_in_buffer_total)
    case Slow
    with assms(2) show ?thesis by simp
  next
    case Fast
    note f = byte_at_first [OF assms(1) Fast(2)]
    show ?thesis
    proof (cases "varint_len 10 (coded_avail data s)")
      case None
      then have "coded_varint data s = None" by (simp add: coded_varint_def)
      with None Fast ReadVarint64FromArray_val [OF f(2) assms(3)] ReadVarint32FromArray_val [OF f(2) assms(3)]
      show ?thesis by simp
    next
      case (Some m)
      then have "coded_varint data s = Some (varint_val (take m (coded_avail data s)), m)"
        by (simp add: coded_varint_def)
      with Some Fast(3) Fast(4) [OF Some] ReadVarint64FromArray_val [OF f(2) assms(3)]
        ReadVarint32FromArray_val [OF f(2) assms(3)]
      show ?thesis by simp
    qed
  qed
  then show "ReadVarint64FromArray (ci_buffer s) =
      (case coded_varint data s of Some (x, n) \<Rightarrow> Some (Some (of_nat x), n) | None \<Rightarrow> Some (None, 11))"
    and "ReadVarint32FromArray (byte_word (hd (ci_buffer s))) (ci_buffer s) =
      (case coded_varint data s of Some (x, n) \<Rightarrow> Some (Some (of_nat x), n) | None \<Rightarrow> Some (None, 10))"
    and "coded_varint data s = Some (x, n) \<Longrightarrow> J (coded_Advance (int n) s)
      \<and> coded_frame (coded_Advance (int n) s) = coded_frame s \<and> coded_took data (int n) s True (coded_Advance (int n) s)"
    using coded_Advance_inv(1,2) [OF assms(1)] coded_Advance_took [OF assms(1)] by simp_all
qed

lemma ReadVarint64Slow_read:
  assumes "J s"
  shows "\<exists>ok v s'. ReadVarint64Slow I s = Some ((ok, v), s') \<and> varint_read s ok (\<lambda>x. v = of_nat x) s'"
proof -
  obtain ok v s' where v: "ReadVarint64Slow_loop I 0 0 s = Some ((ok, v), s')" "J s'" "coded_frame s' = coded_frame s"
    "coded_avail data s = [] \<longrightarrow> CurrentPosition s' = CurrentPosition s"
    "case varint_len 10 (coded_avail data s) of None \<Rightarrow> \<not> ok
     | Some n \<Rightarrow> ok \<and> v = 0 OR push_bit (7 * 0) (of_nat (varint_val (take n (coded_avail data s))))
         \<and> coded_took data (int n) s True s'"
    using varint_slow [OF assms, of 0 0] by fastforce
  then have "varint_read s ok (\<lambda>x. v = of_nat x) s'"
    by (auto simp: varint_outcome_def coded_varint_def split: option.splits)
  with v(1) show ?thesis by (auto simp: ReadVarint64Slow_def)
qed

lemma ReadVarint64Fallback_read:
  assumes "J s" and "0 < ci_size s \<Longrightarrow> 128 \<le> byte_val (hd (ci_buffer s))"
  shows "\<exists>ok v s'. ReadVarint64Fallback I s = Some ((v, ok), s') \<and> varint_read s ok (\<lambda>x. v = of_nat x) s'"
  using assms(1)
proof (cases rule: varint_in_buffer_total)
  case Slow
  obtain ok v s' where "ReadVarint64Slow I s = Some ((ok, v), s')" "varint_read s ok (\<lambda>x. v = of_nat x) s'"
    using ReadVarint64Slow_read [OF assms(1)] by blast
  with Slow show ?thesis by (auto simp: ReadVarint64Fallback_def)
next
  case Fast
  note f = varint_fast [OF assms(1) Fast(1) assms(2) [OF Fast(2)]] and ne = byte_at_first(4) [OF assms(1) Fast(2)]
  show ?thesis
  proof (cases "coded_varint data s")
    case None
    with f(1) Fast(1) assms(1) show ?thesis by (auto simp: ReadVarint64Fallback_def varint_outcome_def ne)
  next
    case (Some p)
    obtain x n where p: "p = (x, n)" by (cases p)
    from Some f(1) f(3) [of x n] Fast(1) show ?thesis
      by (intro exI [of _ True] exI [of _ "of_nat x"]) (simp add: ReadVarint64Fallback_def varint_outcome_def p ne)
  qed
qed

text \<open>One byte is a varint of its own.\<close>

lemma varint_one_byte:
  assumes "J s" and "0 < ci_size s" and "byte_val (hd (ci_buffer s)) < 128"
  shows "coded_varint data s = Some (byte_val (hd (ci_buffer s)), 1)"
    and "varint_read s True (\<lambda>x. x = byte_val (hd (ci_buffer s))) (coded_Advance 1 s)"
proof -
  note f = byte_at_first [OF assms(1,2)]
  show v: "coded_varint data s = Some (byte_val (hd (ci_buffer s)), 1)"
    using f(3,4) assms(3) varint_len_first [of 10 "coded_avail data s"]
    by (cases "coded_avail data s") (simp_all add: coded_varint_def)
  have "0 \<le> (1::int)" "1 \<le> ci_size s" using assms(2) by simp_all
  from coded_Advance_inv(1,2) [OF assms(1) this] coded_Advance_took [OF assms(1) this]
  show "varint_read s True (\<lambda>x. x = byte_val (hd (ci_buffer s))) (coded_Advance 1 s)"
    using f(4) by (simp add: varint_outcome_def v)
qed

lemma ReadVarint64_read:
  assumes "J s"
  shows "\<exists>ok v s'. ReadVarint64 I s = Some ((ok, v), s') \<and> varint_read s ok (\<lambda>x. v = of_nat x) s'"
proof -
  let ?c = "hd (ci_buffer s)"
  consider (empty) "\<not> 0 < ci_size s" | (one) "0 < ci_size s" "byte_val ?c < 128"
    | (more) "0 < ci_size s" "\<not> byte_val ?c < 128" by blast
  then show ?thesis
  proof cases
    case empty
    obtain ok v s' where "ReadVarint64Fallback I s = Some ((v, ok), s')" "varint_read s ok (\<lambda>x. v = of_nat x) s'"
      using ReadVarint64Fallback_read [OF assms] empty by blast
    with empty show ?thesis by (auto simp: ReadVarint64_def)
  next
    case one
    with byte_at_first(1) [OF assms one(1)] varint_one_byte(2) [OF assms one] show ?thesis
      by (auto simp: ReadVarint64_def varint_outcome_def byte_word_def split: option.splits prod.splits)
  next
    case more
    obtain ok v s' where "ReadVarint64Fallback I s = Some ((v, ok), s')" "varint_read s ok (\<lambda>x. v = of_nat x) s'"
      using ReadVarint64Fallback_read [OF assms] more by force
    with more byte_at_first(1) [OF assms more(1)] show ?thesis by (auto simp: ReadVarint64_def)
  qed
qed

end

end
