(* ===== verification/Coded_Tag_Laws.thy ===== *)
theory Coded_Tag_Laws
  imports Coded_Read_Laws
begin

unbundle bit_operations_syntax

section \<open>The 32-bit readers, sizes, little-endian integers and tags\<close>

text \<open>
  The remaining readers of \<open>CodedInputStream\<close>, against the same reference: \<open>ReadVarint32\<close> keeps
  the low 32 bits, \<open>ReadVarintSizeAsInt\<close> refuses what an \<open>int\<close> cannot hold, the little-endian
  readers take a fixed number of bytes, and \<open>ReadTag\<close> also says whether the end it met is one
  where a message may end.
\<close>

lemma uint_of_nat_32: "uint (of_nat x :: 32 word) = int (x mod 2 ^ 32)"
  by (simp add: unsigned_of_nat take_bit_eq_mod of_nat_mod)

lemma uint_of_nat_64: "uint (of_nat x :: 64 word) = int (x mod 2 ^ 64)"
  by (simp add: unsigned_of_nat take_bit_eq_mod of_nat_mod)

lemma ucast_of_nat: "(ucast (of_nat x :: 64 word) :: 32 word) = of_nat x"
proof -
  have "unat (ucast (of_nat x :: 64 word) :: 32 word) = unat (of_nat x :: 32 word)"
    by (simp add: unsigned_ucast_eq unsigned_of_nat take_bit_take_bit)
  then show ?thesis by (simp only: word_unat_eq_iff)
qed

text \<open>The legitimate end of a message after a tag could not be read.\<close>

definition legit_after_end :: "'s coded_input \<Rightarrow> bool \<Rightarrow> bool" where
  "legit_after_end s b \<longleftrightarrow>
     (if CurrentPosition s < ci_total_limit s \<or> ci_limit s = ci_total_limit s then b
      else b \<longrightarrow> ci_legit_end s)"

text \<open>A size is read when it fits an \<open>int\<close>.\<close>

definition size_outcome ::
  "'s input_stream \<Rightarrow> ('s \<Rightarrow> bool) \<Rightarrow> ('s \<Rightarrow> string) \<Rightarrow> string \<Rightarrow> 's coded_input \<Rightarrow> int \<Rightarrow> 's coded_input \<Rightarrow> bool" where
  "size_outcome I okay rest data s r s' \<longleftrightarrow> coded_inv I okay rest data s' \<and> coded_frame s' = coded_frame s
     \<and> (case coded_varint data s of
           None \<Rightarrow> r = -1
         | Some (x, n) \<Rightarrow>
             if int (x mod 2 ^ 64) \<le> INT_MAX then r = int (x mod 2 ^ 64) \<and> coded_took data (int n) s True s'
             else r = -1)"

text \<open>A tag that was read, or zero.\<close>

definition tag_outcome ::
  "'s input_stream \<Rightarrow> ('s \<Rightarrow> bool) \<Rightarrow> ('s \<Rightarrow> string) \<Rightarrow> string \<Rightarrow> 's coded_input \<Rightarrow> 32 word \<Rightarrow> 's coded_input \<Rightarrow> bool" where
  "tag_outcome I okay rest data s tag s' \<longleftrightarrow> coded_inv I okay rest data s'
     \<and> (if coded_avail data s = []
        then tag = 0 \<and> CurrentPosition s' = CurrentPosition s \<and> legit_after_end s (ci_legit_end s')
             \<and> coded_frame (s'\<lparr>ci_legit_end := ci_legit_end s\<rparr>) = coded_frame s
        else coded_frame s' = coded_frame s
             \<and> (case coded_varint data s of
                   None \<Rightarrow> tag = 0
                 | Some (x, n) \<Rightarrow> tag = of_nat x \<and> coded_took data (int n) s True s'))"

context coded_source
begin

lemma ReadVarint32Slow_read:
  assumes "J s" and "0 < ci_size s \<Longrightarrow> 128 \<le> byte_val (hd (ci_buffer s))"
  shows "\<exists>ok v s'. ReadVarint32Slow I s = Some ((ok, v), s') \<and> varint_read s ok (\<lambda>x. v = of_nat x) s'"
  using ReadVarint64Fallback_read [OF assms]
  by (fastforce simp: ReadVarint32Slow_def varint_outcome_def ucast_of_nat split: option.splits)

lemma ReadVarint32Fallback_read:
  assumes "J s" and "0 < ci_size s \<Longrightarrow> 128 \<le> byte_val (hd (ci_buffer s)) \<and> f = byte_word (hd (ci_buffer s))"
  shows "\<exists>r s'. ReadVarint32Fallback I f s = Some (r, s')
      \<and> varint_read s (r \<ge> 0) (\<lambda>x. r = int (x mod 2 ^ 32)) s' \<and> (r < 0 \<longrightarrow> r = -1)"
  using assms(1)
proof (cases rule: varint_in_buffer_total)
  case Slow
  obtain ok v s' where v: "ReadVarint32Slow I s = Some ((ok, v), s')" "varint_read s ok (\<lambda>x. v = of_nat x) s'"
    using ReadVarint32Slow_read assms by blast
  then have "varint_read s ((if ok then uint v else -1) \<ge> 0) (\<lambda>x. (if ok then uint v else -1) = int (x mod 2 ^ 32)) s'"
    by (auto simp: varint_outcome_def uint_of_nat_32 split: option.splits)
  with Slow v(1) show ?thesis by (cases ok) (simp_all add: ReadVarint32Fallback_def)
next
  case Fast
  have h: "128 \<le> byte_val (hd (ci_buffer s))" "f = byte_word (hd (ci_buffer s))" using assms(2) Fast(2) by auto
  note f = varint_fast [OF assms(1) Fast(1) h(1)] and ne = byte_at_first(4) [OF assms(1) Fast(2)]
  show ?thesis
  proof (cases "coded_varint data s")
    case None
    with f(2) h(2) Fast(1) assms(1) show ?thesis by (simp add: ReadVarint32Fallback_def varint_outcome_def ne)
  next
    case (Some p)
    obtain x n where p: "p = (x, n)" by (cases p)
    from Some f(2) f(3) [of x n] Fast(1) h(2) show ?thesis
      by (simp add: ReadVarint32Fallback_def varint_outcome_def p uint_of_nat_32 ne)
  qed
qed

lemma byte_word_small: "(byte_word c :: 32 word) < 0x80 \<longleftrightarrow> byte_val c < 128"
  using unat_byte_word [where ?'a = 32, of c] by (simp add: word_less_nat_alt)

lemma ReadVarint32_read:
  assumes "J s"
  shows "\<exists>ok v s'. ReadVarint32 I s = Some ((ok, v), s') \<and> varint_read s ok (\<lambda>x. v = of_nat x) s'"
proof (cases "0 < ci_size s \<and> byte_val (hd (ci_buffer s)) < 128")
  case True
  let ?c = "hd (ci_buffer s)"
  have "ReadVarint32 I s = Some ((True, byte_word ?c), coded_Advance 1 s)"
    using True byte_at_first(1) [OF assms conjunct1 [OF True]] by (simp add: ReadVarint32_def byte_word_small)
  moreover have "varint_read s True (\<lambda>x. (byte_word ?c :: 32 word) = of_nat x) (coded_Advance 1 s)"
    using varint_one_byte(2) [OF assms conjunct1 [OF True] conjunct2 [OF True]]
    by (auto simp: varint_outcome_def byte_word_def split: option.splits)
  ultimately show ?thesis by blast
next
  case False
  define f :: "32 word" where "f = (if ci_size s > 0 then byte_word (hd (ci_buffer s)) else 0)"
  have "0 < ci_size s \<Longrightarrow> 128 \<le> byte_val (hd (ci_buffer s)) \<and> f = byte_word (hd (ci_buffer s))"
    using False by (auto simp: f_def)
  from ReadVarint32Fallback_read [OF assms this] obtain r s' where
    r: "ReadVarint32Fallback I f s = Some (r, s')" "varint_read s (r \<ge> 0) (\<lambda>x. r = int (x mod 2 ^ 32)) s'"
    by blast
  have "ReadVarint32 I s = Some ((r \<ge> 0, of_int r), s')"
    using False r(1) by (cases "0 < ci_size s")
      (auto simp: ReadVarint32_def byte_at_first(1) [OF assms] byte_word_small f_def)
  moreover have "(of_int (int (x mod 2 ^ 32)) :: 32 word) = of_nat x" for x
    by (simp only: of_int_of_nat_eq word_of_nat_eq_iff) (simp add: take_bit_eq_mod)
  then have "varint_read s (r \<ge> 0) (\<lambda>x. of_int r = (of_nat x :: 32 word)) s'"
    using r(2) by (auto simp: varint_outcome_def split: option.splits)
  ultimately show ?thesis by blast
qed

abbreviation size_read :: "'s coded_input \<Rightarrow> int \<Rightarrow> 's coded_input \<Rightarrow> bool" where
  "size_read \<equiv> size_outcome I okay rest data"

lemma ReadVarintSizeAsIntFallback_read:
  assumes "J s" and "0 < ci_size s \<Longrightarrow> 128 \<le> byte_val (hd (ci_buffer s))"
  shows "\<exists>r s'. ReadVarintSizeAsIntFallback I s = Some (r, s') \<and> size_read s r s'"
  using assms(1)
proof (cases rule: varint_in_buffer_total)
  case Slow
  obtain ok v s' where v: "ReadVarint64Fallback I s = Some ((v, ok), s')" "varint_read s ok (\<lambda>x. v = of_nat x) s'"
    using ReadVarint64Fallback_read assms by blast
  then have "size_read s (if \<not> ok \<or> uint v > INT_MAX then -1 else uint v) s'"
    by (auto simp: varint_outcome_def size_outcome_def uint_of_nat_64 split: option.splits)
  with Slow v(1) show ?thesis by (simp add: ReadVarintSizeAsIntFallback_def ReadVarintSizeAsIntSlow_def)
next
  case Fast
  have h: "128 \<le> byte_val (hd (ci_buffer s))" using assms(2) Fast(2) by auto
  note f = varint_fast [OF assms(1) Fast(1) h]
  show ?thesis
  proof (cases "coded_varint data s")
    case None
    with f(1) Fast(1) assms(1) show ?thesis by (simp add: ReadVarintSizeAsIntFallback_def size_outcome_def)
  next
    case (Some p)
    obtain x n where p: "p = (x, n)" by (cases p)
    from Some f(1) f(3) [of x n] Fast(1) assms(1) show ?thesis
      by (simp add: ReadVarintSizeAsIntFallback_def size_outcome_def p uint_of_nat_64)
  qed
qed

lemma ReadVarintSizeAsInt_read:
  assumes "J s"
  shows "\<exists>r s'. ReadVarintSizeAsInt I s = Some ((r \<ge> 0, r), s') \<and> size_read s r s'"
proof (cases "0 < ci_size s \<and> byte_val (hd (ci_buffer s)) < 128")
  case True
  note o = varint_one_byte [OF assms conjunct1 [OF True] conjunct2 [OF True]]
  have "size_read s (int (byte_val (hd (ci_buffer s)))) (coded_Advance 1 s)"
    using o True by (simp add: size_outcome_def varint_outcome_def INT_MAX_def)
  with True byte_at_first(1) [OF assms conjunct1 [OF True]] show ?thesis
    by (intro exI [of _ "int (byte_val (hd (ci_buffer s)))"]) (simp add: ReadVarintSizeAsInt_def)
next
  case False
  then have "0 < ci_size s \<Longrightarrow> 128 \<le> byte_val (hd (ci_buffer s))" by auto
  from ReadVarintSizeAsIntFallback_read [OF assms this] obtain r s' where
    "ReadVarintSizeAsIntFallback I s = Some (r, s')" "size_read s r s'" by blast
  with False show ?thesis
    by (cases "0 < ci_size s") (auto simp: ReadVarintSizeAsInt_def byte_at_first(1) [OF assms])
qed

text \<open>The little-endian readers take their bytes from the buffer or through \<open>ReadRaw\<close>.\<close>

lemma coded_take_buffer:
  assumes "J s" and "int k \<le> ci_size s"
  shows "take k (ci_buffer s) = take k (coded_avail data s)" and "k \<le> length (ci_buffer s)"
    and "k \<le> length (coded_avail data s)" and "J (coded_Advance (int k) s)"
    and "coded_took data (int k) s True (coded_Advance (int k) s)"
  using coded_copy [OF assms] coded_Advance_inv(1) [OF assms(1) _ assms(2)]
    coded_Advance_took [OF assms(1) _ assms(2)]
  by (auto simp: copy_bytes_def split: if_splits)

lemma ReadRaw_bytes:
  assumes "J s"
  obtains (Enough) s' where "ReadRaw I (int k) s = Some (True, take k (coded_avail data s), s')" "J s'"
      "coded_took data (int k) s True s'" "k \<le> length (coded_avail data s)"
  | (Short) out s' where "ReadRaw I (int k) s = Some (False, out, s')" "J s'" "coded_took data (int k) s False s'"
  using ReadRaw_took [OF assms, of "int k"] by (fastforce simp: coded_took_def)

lemma ReadLittleEndian16_read:
  assumes "J s"
  shows "\<exists>r s'. ReadLittleEndian16 I s = Some (r, s') \<and> J s' \<and> coded_took data 2 s (r \<noteq> None) s'
      \<and> (r = None \<or> r = Some (of_nat (le_val (take 2 (coded_avail data s)))))"
proof (cases "2 \<le> ci_size s")
  case True
  with coded_take_buffer [OF assms, of 2] show ?thesis
    by (simp add: ReadLittleEndian16_def ReadLittleEndian16FromArray_def)
next
  case False
  from assms show ?thesis
  proof (cases rule: ReadRaw_bytes [where k = 2])
    case (Enough s')
    with False show ?thesis
      by (simp add: ReadLittleEndian16_def ReadLittleEndian16Fallback_def ReadLittleEndian16FromArray_def)
  next
    case (Short out s')
    with False show ?thesis by (auto simp: ReadLittleEndian16_def ReadLittleEndian16Fallback_def)
  qed
qed

lemma ReadLittleEndian32_read:
  assumes "J s"
  shows "\<exists>r s'. ReadLittleEndian32 opt I s = Some (r, s') \<and> J s' \<and> coded_took data 4 s (r \<noteq> None) s'
      \<and> (r = None \<or> r = Some (of_nat (le_val (take 4 (coded_avail data s)))))"
proof (cases "4 \<le> ci_size s")
  case True
  with coded_take_buffer [OF assms, of 4] show ?thesis
    by (simp add: ReadLittleEndian32_def ReadLittleEndian32Fallback_def ReadLittleEndian32FromArray_def)
next
  case False
  from assms show ?thesis
  proof (cases rule: ReadRaw_bytes [where k = 4])
    case (Enough s')
    with False show ?thesis
      by (simp add: ReadLittleEndian32_def ReadLittleEndian32Fallback_def ReadLittleEndian32FromArray_def)
  next
    case (Short out s')
    with False show ?thesis by (auto simp: ReadLittleEndian32_def ReadLittleEndian32Fallback_def)
  qed
qed

lemma ReadLittleEndian64_read:
  assumes "J s"
  shows "\<exists>r s'. ReadLittleEndian64 opt I s = Some (r, s') \<and> J s' \<and> coded_took data 8 s (r \<noteq> None) s'
      \<and> (r = None \<or> r = Some (of_nat (le_val (take 8 (coded_avail data s)))))"
proof (cases "8 \<le> ci_size s")
  case True
  with coded_take_buffer [OF assms, of 8] show ?thesis
    by (simp add: ReadLittleEndian64_def ReadLittleEndian64Fallback_def ReadLittleEndian64FromArray_def)
next
  case False
  from assms show ?thesis
  proof (cases rule: ReadRaw_bytes [where k = 8])
    case (Enough s')
    with False show ?thesis
      by (simp add: ReadLittleEndian64_def ReadLittleEndian64Fallback_def ReadLittleEndian64FromArray_def)
  next
    case (Short out s')
    with False show ?thesis by (auto simp: ReadLittleEndian64_def ReadLittleEndian64Fallback_def)
  qed
qed

subsection \<open>Tags\<close>

text \<open>
  A tag that cannot be read is zero. At the end of the readable bytes the flag
  \<open>legitimate_message_end_\<close> is set, unless the end is the total bytes limit; otherwise only the
  position changes.
\<close>

abbreviation tag_read :: "'s coded_input \<Rightarrow> 32 word \<Rightarrow> 's coded_input \<Rightarrow> bool" where
  "tag_read \<equiv> tag_outcome I okay rest data"

lemma varint_tag_outcome:
  assumes "varint_read s ok (\<lambda>x. v = of_nat x) s'" and "coded_avail data s \<noteq> []"
  shows "tag_read s (if ok then v else 0) s'"
  using assms by (auto simp: varint_outcome_def tag_outcome_def split: option.splits)

lemma ReadTagSlow_read:
  assumes "J s" and "varint_in_buffer s = Some False"
  shows "\<exists>tag s'. ReadTagSlow I s = Some (tag, s') \<and> tag_read s tag s'"
proof -
  note d = coded_invD [OF assms(1)]
  have step: "\<exists>tag s'. do { ((ok, result), s) \<leftarrow> ReadVarint64 I t; Some (if \<not> ok then 0 else ucast result, s) }
        = Some (tag, s') \<and> tag_read t tag s'"
    if a: "J t" "coded_avail data t \<noteq> []" for t
  proof -
    obtain ok v s' where v: "ReadVarint64 I t = Some ((ok, v), s')" "varint_read t ok (\<lambda>x. v = of_nat x) s'"
      using ReadVarint64_read [OF a(1)] by blast
    then have "varint_read t ok (\<lambda>x. (ucast v :: 32 word) = of_nat x) s'"
      by (auto simp: varint_outcome_def ucast_of_nat split: option.splits)
    from varint_tag_outcome [OF this a(2)] v(1) show ?thesis by (cases ok) auto
  qed
  show ?thesis
  proof (cases "ci_size s = 0")
    case False
    then have "0 < ci_size s" using d(1) by simp
    from byte_at_first(4) [OF assms(1) this] step [OF assms(1)] False show ?thesis
      by (simp add: ReadTagSlow_def)
  next
    case True
    obtain b t where t: "coded_Refresh I s = Some (b, t)" "J t" "coded_frame t = coded_frame s"
      "CurrentPosition t = CurrentPosition s"
      "if b then \<not> coded_blocked s \<and> (0 < ci_size t \<or> coded_blocked t) else ci_size t = 0 \<and> coded_avail data s = []"
      using coded_Refresh_inv [OF assms(1) True] by blast
    have av: "coded_avail data t = coded_avail data s"
      using t(4) frame_closest [OF t(3)] by (simp add: coded_avail_def)
    have lim: "ci_limit t = ci_limit s" "ci_total_limit t = ci_total_limit s"
      using t(3) by (simp_all add: coded_frame_def)
    show ?thesis
    proof (cases b)
      case False
      with t(5) have e: "ci_size t = 0" "coded_avail data s = []" by simp_all
      then have p: "ci_total t - ci_after t = CurrentPosition s" using t(4) by (simp add: CurrentPosition_def)
      have "CurrentPosition s \<le> ci_total_limit s" using d(5) by (simp add: closest_limit_def)
      then have "tag_read s 0 (if ci_total t - ci_after t \<ge> ci_total_limit t
            then t\<lparr>ci_legit_end := (ci_limit t = ci_total_limit t)\<rparr> else t\<lparr>ci_legit_end := True\<rparr>)"
        unfolding p lim using t(2,3,4) e(2)
        by (auto simp: tag_outcome_def legit_after_end_def coded_frame_def)
      then show ?thesis
        using True False t(1) by (simp add: ReadTagSlow_def Let_def)
    next
      case True': True
      show ?thesis
      proof (cases "coded_avail data s = []")
        case False
        from step [OF t(2)] av False obtain tag s' where
          "do { ((ok, result), s) \<leftarrow> ReadVarint64 I t; Some (if \<not> ok then 0 else ucast result, s) } = Some (tag, s')"
          "tag_read t tag s'" by auto
        moreover from this(2) have "tag_read s tag s'"
          using av t(3) False coded_took_skip [OF _ t(4,3)]
          by (auto simp: tag_outcome_def coded_varint_def split: option.splits)
        ultimately show ?thesis using True True' t(1) by (simp add: ReadTagSlow_def)
      next
        case e: True
        have nb: "\<not> coded_blocked s" using t(5) True' by simp
        have "\<not> 0 < ci_size t" using byte_at_first(4) [OF t(2)] e av by auto
        then have z: "ci_size t = 0" "coded_blocked t" using t(5) True' coded_invD(1) [OF t(2)] by auto
        have "CurrentPosition s = closest_limit s"
          using coded_blocked_avail(2) [OF t(2) z] t(4) frame_closest [OF t(3)] by simp
        moreover have "CurrentPosition s < ci_limit s"
          using coded_unblocked [OF assms(1) True nb] by metis
        ultimately have lt: "\<not> CurrentPosition s < ci_total_limit s" "ci_limit s \<noteq> ci_total_limit s"
          by (auto simp: closest_limit_def min_def split: if_splits)
        obtain ok v s' where v: "ReadVarint64 I t = Some ((ok, v), s')" "varint_read t ok (\<lambda>x. v = of_nat x) s'"
          using ReadVarint64_read [OF t(2)] by blast
        have "coded_varint data t = None" using e av by (simp add: coded_varint_def)
        then have n: "\<not> ok" "J s'" "coded_frame s' = coded_frame s" "CurrentPosition s' = CurrentPosition s"
          using v(2) t(3,4) e av by (simp_all add: varint_outcome_def)
        have "tag_read s 0 s'"
          using n(2-4) e lt by (simp add: tag_outcome_def legit_after_end_def coded_frame_def)
        with v(1) n(1) True True' t(1) show ?thesis by (simp add: ReadTagSlow_def)
      qed
    qed
  qed
qed

end

end
