(* ===== verification/Coded_Tags.thy ===== *)
theory Coded_Tags
  imports Coded_Tag_Laws
begin

unbundle bit_operations_syntax

section \<open>ReadTag, its variants, and pushing a length\<close>

text \<open>
  The tag readers with their hot cases, \<open>ExpectTag\<close> and \<open>ExpectAtEnd\<close>, and
  \<open>ReadLengthAndPushLimit\<close>, against the reference of the theory \<open>Coded_Tag_Laws\<close>.
\<close>

context coded_source
begin

lemma ReadTagFallback_read:
  assumes "J s" and "0 < ci_size s \<Longrightarrow> f = byte_word (hd (ci_buffer s))
      \<and> (128 \<le> byte_val (hd (ci_buffer s)) \<or> byte_val (hd (ci_buffer s)) = 0)"
  shows "\<exists>tag s'. ReadTagFallback I f s = Some (tag, s') \<and> tag_read s tag s'"
  using assms(1)
proof (cases rule: varint_in_buffer_total)
  case Slow
  show ?thesis
  proof (cases "ci_size s = 0 \<and> (ci_after s > 0 \<or> ci_total s = ci_limit s) \<and> ci_total s - ci_after s < ci_total_limit s")
    case True
    then have b: "coded_blocked s" "ci_size s = 0" by (auto simp: coded_blocked_def)
    have "CurrentPosition s = ci_total s - ci_after s" using b(2) by (simp add: CurrentPosition_def)
    then have "tag_read s 0 (s\<lparr>ci_legit_end := True\<rparr>)"
      using True assms(1) coded_blocked_avail(1) [OF assms(1) b(2,1)]
      by (simp add: tag_outcome_def legit_after_end_def coded_frame_def)
    with Slow True show ?thesis by (simp add: ReadTagFallback_def)
  next
    case False
    with Slow ReadTagSlow_read [OF assms(1) Slow] show ?thesis by (auto simp: ReadTagFallback_def)
  qed
next
  case Fast
  let ?c = "hd (ci_buffer s)"
  have h: "f = byte_word ?c" "128 \<le> byte_val ?c \<or> byte_val ?c = 0" using assms(2) Fast(2) by auto
  note ne = byte_at_first(4) [OF assms(1) Fast(2)]
  have z: "f = 0 \<longleftrightarrow> byte_val ?c = 0"
    using unat_byte_word [where ?'a = 32, of ?c] by (simp add: h(1) flip: unat_eq_0)
  show ?thesis
  proof (cases "byte_val ?c = 0")
    case True
    then have "byte_val ?c < 128" by simp
    note o = varint_one_byte [OF assms(1) Fast(2) this]
    have "tag_read s 0 (coded_Advance 1 s)"
      using o True ne by (simp add: tag_outcome_def varint_outcome_def)
    with Fast(1) True z show ?thesis by (simp add: ReadTagFallback_def)
  next
    case False
    then have b: "128 \<le> byte_val ?c" using h(2) by simp
    note fa = varint_fast [OF assms(1) Fast(1) b]
    show ?thesis
    proof (cases "coded_varint data s")
      case None
      with fa(2) h(1) Fast(1) False z assms(1) ne show ?thesis by (simp add: ReadTagFallback_def tag_outcome_def)
    next
      case (Some p)
      obtain x n where p: "p = (x, n)" by (cases p)
      from Some fa(2) fa(3) [of x n] Fast(1) h(1) False z ne show ?thesis
        by (simp add: ReadTagFallback_def tag_outcome_def p)
    qed
  qed
qed

lemma one_byte_tag:
  assumes "J s" and "0 < ci_size s" and "byte_val (hd (ci_buffer s)) < 128"
  shows "tag_read s (byte_word (hd (ci_buffer s))) (coded_Advance 1 s)"
  using varint_one_byte [OF assms] byte_at_first(4) [OF assms(1,2)]
  by (simp add: tag_outcome_def varint_outcome_def byte_word_def)

lemma ReadTagNoLastTag_read:
  assumes "J s"
  shows "\<exists>tag s'. ReadTagNoLastTag I s = Some (tag, s') \<and> tag_read s tag s'"
proof (cases "0 < ci_size s \<and> byte_val (hd (ci_buffer s)) < 128")
  case True
  with one_byte_tag [OF assms] byte_at_first(1) [OF assms] show ?thesis
    by (simp add: ReadTagNoLastTag_def byte_word_small)
next
  case False
  define f :: "32 word" where "f = (if ci_size s > 0 then byte_word (hd (ci_buffer s)) else 0)"
  have "0 < ci_size s \<Longrightarrow> f = byte_word (hd (ci_buffer s))
      \<and> (128 \<le> byte_val (hd (ci_buffer s)) \<or> byte_val (hd (ci_buffer s)) = 0)"
    using False by (auto simp: f_def)
  from ReadTagFallback_read [OF assms this] obtain tag s' where
    "ReadTagFallback I f s = Some (tag, s')" "tag_read s tag s'" by blast
  with False show ?thesis
    by (cases "0 < ci_size s") (auto simp: ReadTagNoLastTag_def byte_at_first(1) [OF assms] byte_word_small f_def)
qed

text \<open>With a cutoff: the same tag, and a flag that is right whenever the tag is not zero.\<close>

lemma cutoff_flag:
  fixes tag cutoff :: "32 word"
  shows "tag - 1 < cutoff \<Longrightarrow> tag \<le> cutoff" and "tag \<noteq> 0 \<Longrightarrow> \<not> tag - 1 < cutoff \<Longrightarrow> cutoff < tag"
proof -
  have m: "unat (tag - 1) = unat tag - 1" if "tag \<noteq> 0" using that by (rule unat_minus_one)
  have p: "0 < unat tag" if "tag \<noteq> 0" using that by (simp add: unat_gt_0)
  show "cutoff < tag" if t: "tag \<noteq> 0" and n: "\<not> tag - 1 < cutoff"
    using m [OF t] p [OF t] n by (simp add: word_less_nat_alt)
  show "tag \<le> cutoff" if l: "tag - 1 < cutoff"
    using m p l by (cases "tag = 0") (simp_all add: word_less_nat_alt word_le_nat_alt)
qed

lemma two_byte_test:
  assumes "(byte_word c :: 32 word) AND NOT (byte_word d) \<ge> 0x80"
  shows "128 \<le> byte_val c" and "byte_val d < 128"
proof -
  let ?w = "(byte_word c :: 32 word) AND NOT (byte_word d)"
  have hb: "bit (byte_word x :: 32 word) 7 \<longleftrightarrow> 128 \<le> byte_val x" for x
    using high_bit_clear [where ?'a = 32, of x] and_exp_eq_0_iff_not_bit [of "byte_word x :: 32 word" 7] by auto
  have l8: "i < 8" if "bit (byte_word x :: 32 word) i" for x i
  proof (rule ccontr)
    assume "\<not> i < 8"
    then have "(2::nat) ^ 8 \<le> 2 ^ i" by (intro power_increasing) simp_all
    then have "byte_val x < 2 ^ i" using byte_val_less [of x] by simp
    then have "\<not> bit (byte_val x) i" by (simp add: bit_iff_odd)
    moreover have "bit (byte_val x) i"
      using that bit_unsigned_iff [where ?'a = nat, of "byte_word x :: 32 word" i] unat_byte_word [where ?'a = 32, of x]
      by simp
    ultimately show False by simp
  qed
  have "128 \<le> byte_val c \<and> byte_val d < 128"
  proof (rule ccontr)
    assume n: "\<not> (128 \<le> byte_val c \<and> byte_val d < 128)"
    have "i < 7" if "bit ?w i" for i
    proof -
      have i: "bit (byte_word c :: 32 word) i" "\<not> bit (byte_word d :: 32 word) i"
        using that by (auto simp: bit_and_iff bit_not_iff)
      then have "i < 8" "i \<noteq> 7" using l8 [of c] hb n by (auto simp: not_less)
      then show ?thesis by simp
    qed
    then have "take_bit 7 ?w = ?w" by (intro bit_eqI) (simp only: bit_take_bit_iff, blast)
    then have "unat ?w = take_bit 7 (unat ?w)" by (metis unsigned_take_bit_eq)
    also have "\<dots> < 2 ^ 7" by (rule take_bit_nat_less_exp)
    finally show False using assms by (simp add: word_le_nat_alt)
  qed
  then show "128 \<le> byte_val c" and "byte_val d < 128" by simp_all
qed

lemma two_byte_tag:
  assumes "J s" and "1 < ci_size s" and "byte_at (ci_buffer s) 0 = Some c" and "byte_at (ci_buffer s) 1 = Some d"
  shows "\<exists>y. coded_avail data s = c # d # y"
    and "128 \<le> byte_val c \<Longrightarrow> byte_val d < 128 \<Longrightarrow>
      tag_read s (of_nat (varint_val [c, d])) (coded_Advance 2 s)"
proof -
  obtain a x y where a: "ci_buffer s = a @ x" "coded_avail data s = a @ y" "int (length a) = ci_size s"
    using coded_buffer_split [OF assms(1)] by blast
  obtain c' d' a' where "a = c' # d' # a'"
    using assms(2) a(3) by (cases a; cases "tl a") auto
  with a assms(3,4) show av: "\<exists>y. coded_avail data s = c # d # y" by (auto simp: byte_at_def)
  assume cd: "128 \<le> byte_val c" "byte_val d < 128"
  obtain z where z: "coded_avail data s = c # d # z" using av by blast
  have "varint_len (Suc (Suc n)) (c # d # z) = Some 2" for n using cd by simp
  from this [of 8] have v: "coded_varint data s = Some (varint_val [c, d], 2)"
    by (simp add: coded_varint_def z)
  have "0 \<le> (2::int)" "2 \<le> ci_size s" using assms(2) by simp_all
  from coded_Advance_inv(1,2) [OF assms(1) this] coded_Advance_took [OF assms(1) this]
  show "tag_read s (of_nat (varint_val [c, d])) (coded_Advance 2 s)"
    by (simp add: tag_outcome_def v z)
qed

lemma ReadTagWithCutoff_read:
  assumes "J s"
  shows "\<exists>tag b s'. ReadTagWithCutoffNoLastTag I cutoff s = Some ((tag, b), s') \<and> tag_read s tag s'
      \<and> (b \<longrightarrow> tag \<le> cutoff) \<and> (\<not> b \<longrightarrow> tag = 0 \<or> cutoff < tag)"
proof -
  let ?c = "hd (ci_buffer s)"
  define f :: "32 word" where "f = (if ci_size s > 0 then byte_word ?c else 0)"
  define cold where "cold \<longleftrightarrow> (ci_size s > 0 \<longrightarrow> 128 \<le> byte_val ?c \<or> byte_val ?c = 0)"
  have slow: "\<exists>tag b s'. do { (tag, s) \<leftarrow> ReadTagFallback I f s; Some ((tag, tag - 1 < cutoff), s) } = Some ((tag, b), s')
      \<and> tag_read s tag s' \<and> (b \<longrightarrow> tag \<le> cutoff) \<and> (\<not> b \<longrightarrow> tag = 0 \<or> cutoff < tag)" if c: cold
  proof -
    have "0 < ci_size s \<Longrightarrow> f = byte_word ?c \<and> (128 \<le> byte_val ?c \<or> byte_val ?c = 0)"
      using c by (simp add: f_def cold_def)
    from ReadTagFallback_read [OF assms this] obtain tag s' where
      "ReadTagFallback I f s = Some (tag, s')" "tag_read s tag s'" by blast
    with cutoff_flag [of tag cutoff] show ?thesis by auto
  qed
  consider (empty) "\<not> 0 < ci_size s" | (one) "0 < ci_size s" "0 < byte_val ?c" "byte_val ?c < 128"
    | (cold) "0 < ci_size s" "128 \<le> byte_val ?c \<or> byte_val ?c = 0" by linarith
  then show ?thesis
  proof cases
    case empty
    with slow show ?thesis by (simp add: ReadTagWithCutoffNoLastTag_def f_def cold_def)
  next
    case one
    have "(byte_word ?c :: 32 word) \<le> 0x7F"
      using one(3) unat_byte_word [where ?'a = 32, of ?c] by (simp add: word_le_nat_alt)
    then have "(0x7F :: 32 word) \<le> cutoff \<Longrightarrow> byte_word ?c \<le> cutoff" by (rule order_trans)
    with one one_byte_tag [OF assms one(1,3)] byte_at_first(1) [OF assms one(1)] show ?thesis
      by (auto simp: ReadTagWithCutoffNoLastTag_def Let_def not_le)
  next
    case cold
    note b0 = byte_at_first(1) [OF assms cold(1)]
    have nc: "\<not> (0 < byte_val ?c \<and> byte_val ?c < 128)" using cold(2) by auto
    show ?thesis
    proof (cases "cutoff \<ge> 0x80 \<and> ci_size s > 1")
      case False
      with slow cold nc b0 show ?thesis
        by (auto simp: ReadTagWithCutoffNoLastTag_def f_def cold_def)
    next
      case True
      have "1 < length (ci_buffer s)" using True coded_buffer(3) [OF assms] by linarith
      then obtain d where d: "byte_at (ci_buffer s) 1 = Some d" by (simp add: byte_at_def)
      show ?thesis
      proof (cases "(byte_word ?c :: 32 word) AND NOT (byte_word d) \<ge> 0x80")
        case False
        with slow cold nc b0 d True show ?thesis
          by (auto simp: ReadTagWithCutoffNoLastTag_def f_def cold_def)
      next
        case two: True
        note cd = two_byte_test [OF two]
        define t :: "32 word" where "t = 2 ^ 7 * byte_word d + (byte_word ?c - 0x80)"
        have t: "t = of_nat (varint_val [?c, d])"
          using cd by (simp add: t_def byte_word_high) (simp add: byte_word_def)
        from t two_byte_tag(2) [OF assms conjunct2 [OF True] b0 d cd] have tr: "tag_read s t (coded_Advance 2 s)" by simp
        define m where "m = varint_val [?c, d]"
        have "m \<le> 2 ^ 14 - 1" using cd(2) by (simp add: m_def)
        moreover have "unat t \<le> m" unfolding t m_def [symmetric] by (simp add: unsigned_of_nat take_bit_eq_mod)
        moreover have "unat (push_bit 7 0x7F + 0x7F :: 32 word) = 2 ^ 14 - 1" by (simp add: push_bit_eq_mult)
        ultimately have "unat t \<le> unat (push_bit 7 0x7F + 0x7F :: 32 word)" by simp
        then have "t \<le> push_bit 7 0x7F + 0x7F" by (simp only: word_le_nat_alt)
        then have "push_bit 7 0x7F + 0x7F \<le> cutoff \<Longrightarrow> t \<le> cutoff" by (rule order_trans)
        moreover have "ReadTagWithCutoffNoLastTag I cutoff s
            = Some ((t, cutoff \<ge> push_bit 7 0x7F + 0x7F \<or> t \<le> cutoff), coded_Advance 2 s)"
          using cold(1) cd(1) b0 d True two by (simp add: ReadTagWithCutoffNoLastTag_def t_def Let_def)
        ultimately show ?thesis using tr by (auto simp: not_le)
      qed
    qed
  qed
qed

lemma ReadTag_read:
  assumes "J s"
  shows "\<exists>tag s'. ReadTag I s = Some (tag, s'\<lparr>ci_last_tag := tag\<rparr>) \<and> tag_read s tag s'"
  using ReadTagNoLastTag_read [OF assms] by (auto simp: ReadTag_def)

text \<open>\<open>ExpectTag\<close> advances only over the varint of the tag.\<close>

lemma ExpectTag_read:
  assumes "J s"
  shows "\<exists>b s'. ExpectTag expected s = Some (b, s') \<and> J s'
      \<and> (if b then \<exists>n. coded_varint data s = Some (unat expected, n) \<and> coded_took data (int n) s True s' else s' = s)"
proof -
  let ?c = "hd (ci_buffer s)"
  consider (one) "expected < 2 ^ 7" "0 < ci_size s" | (two) "\<not> expected < 2 ^ 7" "expected < 2 ^ 14" "2 \<le> ci_size s"
    | (none) "expected < 2 ^ 7 \<longrightarrow> \<not> 0 < ci_size s" "\<not> expected < 2 ^ 7 \<longrightarrow> \<not> (expected < 2 ^ 14 \<and> 2 \<le> ci_size s)"
    by blast
  then show ?thesis
  proof cases
    case one
    note b0 = byte_at_first(1) [OF assms one(2)]
    show ?thesis
    proof (cases "byte_word ?c = expected")
      case False
      with one b0 assms show ?thesis by (auto simp: ExpectTag_def)
    next
      case True
      then have e: "unat expected = byte_val ?c" using unat_byte_word [where ?'a = 32, of ?c] by auto
      with one(1) have "byte_val ?c < 128" by (simp add: word_less_nat_alt)
      note o = varint_one_byte [OF assms one(2) this]
      from o(2) have "J (coded_Advance 1 s)" "coded_took data (int 1) s True (coded_Advance 1 s)"
        by (simp_all add: varint_outcome_def o(1))
      with one b0 True o(1) e show ?thesis by (fastforce simp: ExpectTag_def)
    qed
  next
    case two
    note b0 = byte_at_first(1) [OF assms] and sz = two(3)
    have "0 < ci_size s" "1 < ci_size s" using sz by simp_all
    note b0 = byte_at_first(1) [OF assms this(1)]
    have "1 < length (ci_buffer s)" using sz coded_buffer(3) [OF assms] by linarith
    then obtain d where d: "byte_at (ci_buffer s) 1 = Some d" by (simp add: byte_at_def)
    show ?thesis
    proof (cases "?c = low_byte (expected OR 0x80) \<and> d = low_byte (drop_bit 7 expected)")
      case False
      with two b0 d assms show ?thesis by (auto simp: ExpectTag_def)
    next
      case True
      have e: "128 \<le> unat expected" "unat expected < 2 ^ 14"
        using two(1,2) by (simp_all add: word_less_nat_alt not_less)
      have c: "byte_val ?c = unat expected mod 128 + 128" using True low_byte_or [of expected] by simp
      have dd: "byte_val d = unat expected div 128"
        using True e(2) by (simp add: low_byte_def unat_drop7 less_mult_imp_div_less)
      have cd: "128 \<le> byte_val ?c" "byte_val d < 128" using c dd e(2) by (simp_all add: less_mult_imp_div_less)
      obtain y where y: "coded_avail data s = ?c # d # y"
        using two_byte_tag(1) [OF assms \<open>1 < ci_size s\<close> b0 d] by blast
      have "varint_len (Suc (Suc n)) (?c # d # y) = Some 2" for n using cd by simp
      from this [of 8] have v: "coded_varint data s = Some (unat expected, 2)"
        using cd by (simp add: coded_varint_def y c dd)
      have "0 \<le> (2::int)" by simp
      from coded_Advance_inv(1) [OF assms this sz] coded_Advance_took [OF assms this sz]
      have "J (coded_Advance 2 s)" "coded_took data (int 2) s True (coded_Advance 2 s)" by simp_all
      with two b0 d True v show ?thesis by (fastforce simp: ExpectTag_def)
    qed
  next
    case none
    with assms show ?thesis by (auto simp: ExpectTag_def)
  qed
qed

text \<open>\<open>ExpectAtEnd\<close> is true only when nothing more can be read.\<close>

lemma ExpectAtEnd_end:
  assumes "J s"
  shows "J (snd (ExpectAtEnd s))" and "fst (ExpectAtEnd s) \<Longrightarrow> coded_avail data s = []"
    and "fst (ExpectAtEnd s) \<Longrightarrow> LastTagWas 0 (snd (ExpectAtEnd s)) \<and> ConsumedEntireMessage (snd (ExpectAtEnd s))"
proof -
  have "J (s\<lparr>ci_last_tag := 0, ci_legit_end := True\<rparr>)" using assms by simp
  then show "J (snd (ExpectAtEnd s))" using assms by (simp add: ExpectAtEnd_def)
  show "coded_avail data s = []" if e: "fst (ExpectAtEnd s)"
  proof -
    have "ci_size s = 0" "coded_blocked s"
      using e coded_invD(2) [OF assms] by (auto simp: ExpectAtEnd_def coded_blocked_def split: if_splits)
    then show ?thesis by (rule coded_blocked_avail(1) [OF assms])
  qed
  show "fst (ExpectAtEnd s) \<Longrightarrow> LastTagWas 0 (snd (ExpectAtEnd s)) \<and> ConsumedEntireMessage (snd (ExpectAtEnd s))"
    by (auto simp: ExpectAtEnd_def LastTagWas_def ConsumedEntireMessage_def split: if_splits)
qed

text \<open>A length prefix: the limit is that many bytes behind it, when it is closer than the old one.\<close>

lemma ReadLengthAndPushLimit_read:
  assumes "J s" and "coded_varint data s = Some (x, n)"
  shows "\<exists>s'. ReadLengthAndPushLimit I s = Some (ci_limit s, s') \<and> J s'
      \<and> CurrentPosition s' = CurrentPosition s + int n
      \<and> ci_limit s' = (if 0 \<le> to_i32 (int (x mod 2 ^ 32))
                        then min (CurrentPosition s' + to_i32 (int (x mod 2 ^ 32))) (ci_limit s) else ci_limit s)"
proof -
  obtain ok v t where r: "ReadVarint32 I s = Some ((ok, v), t)" "varint_read s ok (\<lambda>x. v = of_nat x) t"
    using ReadVarint32_read [OF assms(1)] by blast
  then have t: "ok" "v = of_nat x" "J t" "CurrentPosition t = CurrentPosition s + int n" "ci_limit t = ci_limit s"
    by (simp_all add: varint_outcome_def assms(2) coded_took_def coded_frame_def)
  note p = PushLimit_inv [OF t(3), of "to_i32 (int (x mod 2 ^ 32))"]
  have "ReadLengthAndPushLimit I s = Some (PushLimit (to_i32 (int (x mod 2 ^ 32))) t)"
    using r(1) t(1,2) by (simp add: ReadLengthAndPushLimit_def uint_of_nat_32)
  with p t show ?thesis by (cases "PushLimit (to_i32 (int (x mod 2 ^ 32))) t") auto
qed

end

end
