(* ===== verification/Coded_Client.thy ===== *)
theory Coded_Client
  imports Coded_Tags Input_Laws
begin


section \<open>Any client of CodedInputStream\<close>

text \<open>
  A client calls the operations in any order, each call depending on what the earlier ones
  returned: a strategy maps the values received so far to the next command, or ends. Limits are
  pushed and popped in stack order. The client stops when a read fails, and when \<open>ReadTag\<close>
  returns zero without a legitimate end.

  \<open>reference_run\<close> is the abstract specification: the same commands on the flat content, with a
  position and the two limits as the only state. The simulation proved here makes every
  run over a wrapped stream equal to the reference run, so it cannot depend on how the stream
  cuts its buffers.
\<close>

datatype coded_cmd =
  CmdRaw nat | CmdString nat | CmdCord nat | CmdSkip nat
  | CmdVarint32 | CmdVarint64 | CmdSize | CmdFixed16 | CmdFixed32 | CmdFixed64
  | CmdTag | CmdPushLimit int | CmdPopLimit | CmdPosition | CmdBytesUntilLimit

datatype coded_value = VBytes string | VNum int | VDone

type_synonym strategy = "coded_value list \<Rightarrow> coded_cmd option"

text \<open>One call: the value returned, or \<open>None\<close> when the client stops, and the stack of old limits.\<close>

fun client_step ::
  "'s input_stream \<Rightarrow> coded_cmd \<Rightarrow> int list \<times> 's coded_input
    \<Rightarrow> (coded_value option \<times> int list \<times> 's coded_input) option" where
  "client_step I (CmdRaw n) (ls, s) = do {
     (b, out, s) \<leftarrow> ReadRaw I (int n) s; Some (if b then Some (VBytes out) else None, ls, s) }"
| "client_step I (CmdString n) (ls, s) = do {
     (b, out, s) \<leftarrow> ReadString I [] (int n) s; Some (if b then Some (VBytes out) else None, ls, s) }"
| "client_step I (CmdCord n) (ls, s) = do {
     (b, out, s) \<leftarrow> coded_ReadCord I (int n) s; Some (if b then Some (VBytes out) else None, ls, s) }"
| "client_step I (CmdSkip n) (ls, s) = do {
     (b, s) \<leftarrow> coded_Skip I (int n) s; Some (if b then Some VDone else None, ls, s) }"
| "client_step I CmdVarint32 (ls, s) = do {
     ((b, v), s) \<leftarrow> ReadVarint32 I s; Some (if b then Some (VNum (uint v)) else None, ls, s) }"
| "client_step I CmdVarint64 (ls, s) = do {
     ((b, v), s) \<leftarrow> ReadVarint64 I s; Some (if b then Some (VNum (uint v)) else None, ls, s) }"
| "client_step I CmdSize (ls, s) = do {
     ((b, v), s) \<leftarrow> ReadVarintSizeAsInt I s; Some (if b then Some (VNum v) else None, ls, s) }"
| "client_step I CmdFixed16 (ls, s) = do {
     (r, s) \<leftarrow> ReadLittleEndian16 I s; Some (map_option (\<lambda>v. VNum (uint v)) r, ls, s) }"
| "client_step I CmdFixed32 (ls, s) = do {
     (r, s) \<leftarrow> ReadLittleEndian32 True I s; Some (map_option (\<lambda>v. VNum (uint v)) r, ls, s) }"
| "client_step I CmdFixed64 (ls, s) = do {
     (r, s) \<leftarrow> ReadLittleEndian64 True I s; Some (map_option (\<lambda>v. VNum (uint v)) r, ls, s) }"
| "client_step I CmdTag (ls, s) = do {
     (tag, s) \<leftarrow> ReadTag I s;
     Some (if tag = 0 \<and> \<not> ConsumedEntireMessage s then None else Some (VNum (uint tag)), ls, s) }"
| "client_step I (CmdPushLimit n) (ls, s) =
     (let (old, s) = PushLimit n s in Some (Some VDone, old # ls, s))"
| "client_step I CmdPopLimit (ls, s) =
     (case ls of [] \<Rightarrow> Some (None, ls, s) | l # ls \<Rightarrow> Some (Some VDone, ls, PopLimit l s))"
| "client_step I CmdPosition (ls, s) = Some (Some (VNum (CurrentPosition s)), ls, s)"
| "client_step I CmdBytesUntilLimit (ls, s) = Some (Some (VNum (BytesUntilLimit s)), ls, s)"

text \<open>A run of at most \<open>k\<close> calls: the values received, and whether it has not failed.\<close>

fun client_run ::
  "nat \<Rightarrow> 's input_stream \<Rightarrow> strategy \<Rightarrow> coded_value list \<Rightarrow> int list \<times> 's coded_input
    \<Rightarrow> (bool \<times> coded_value list \<times> 's coded_input) option" where
  "client_run 0 I strat vs st = Some (True, vs, snd st)"
| "client_run (Suc k) I strat vs st =
     (case strat vs of
        None \<Rightarrow> Some (True, vs, snd st)
      | Some cmd \<Rightarrow> do {
          (r, st) \<leftarrow> client_step I cmd st;
          case r of
            None \<Rightarrow> Some (False, vs, snd st)
          | Some v \<Rightarrow> client_run k I strat (vs @ [v]) st })"

text \<open>The run of a client on a new object, then the destructor.\<close>

definition coded_session ::
  "nat \<Rightarrow> 's input_stream \<Rightarrow> strategy \<Rightarrow> 's \<Rightarrow> (bool \<times> coded_value list \<times> 's option) option" where
  "coded_session k I strat i = do {
     s \<leftarrow> CodedInputStream I i;
     (ok, vs, s) \<leftarrow> client_run k I strat [] ([], s);
     if \<not> ok then Some (False, vs, None)
     else do { i \<leftarrow> coded_destroy I s; Some (True, vs, i) } }"

subsection \<open>The reference\<close>

record reference =
  rf_pos :: int
  rf_limit :: int
  rf_total_limit :: int
  rf_legit :: bool
  rf_old :: "int list"

definition reference_avail :: "string \<Rightarrow> reference \<Rightarrow> string" where
  "reference_avail data r =
     take (nat (min (rf_limit r) (rf_total_limit r) - rf_pos r)) (drop (nat (rf_pos r)) data)"

definition reference_take :: "nat \<Rightarrow> (string \<Rightarrow> coded_value) \<Rightarrow> string \<Rightarrow> reference \<Rightarrow> (coded_value \<times> reference) option" where
  "reference_take n f data r =
     (if n \<le> length (reference_avail data r)
      then Some (f (take n (reference_avail data r)), r\<lparr>rf_pos := rf_pos r + int n\<rparr>) else None)"

definition reference_varint :: "(nat \<Rightarrow> coded_value option) \<Rightarrow> string \<Rightarrow> reference \<Rightarrow> (coded_value \<times> reference) option" where
  "reference_varint f data r =
     (case varint_len 10 (reference_avail data r) of
        None \<Rightarrow> None
      | Some n \<Rightarrow>
          (case f (varint_val (take n (reference_avail data r))) of
             None \<Rightarrow> None
           | Some v \<Rightarrow> Some (v, r\<lparr>rf_pos := rf_pos r + int n\<rparr>)))"

fun reference_step :: "string \<Rightarrow> coded_cmd \<Rightarrow> reference \<Rightarrow> (coded_value \<times> reference) option" where
  "reference_step data (CmdRaw n) r = reference_take n VBytes data r"
| "reference_step data (CmdString n) r = reference_take n VBytes data r"
| "reference_step data (CmdCord n) r = reference_take n VBytes data r"
| "reference_step data (CmdSkip n) r = reference_take n (\<lambda>_. VDone) data r"
| "reference_step data CmdVarint32 r = reference_varint (\<lambda>x. Some (VNum (int (x mod 2 ^ 32)))) data r"
| "reference_step data CmdVarint64 r = reference_varint (\<lambda>x. Some (VNum (int (x mod 2 ^ 64)))) data r"
| "reference_step data CmdSize r =
     reference_varint (\<lambda>x. if int (x mod 2 ^ 64) \<le> INT_MAX then Some (VNum (int (x mod 2 ^ 64))) else None) data r"
| "reference_step data CmdFixed16 r = reference_take 2 (\<lambda>b. VNum (int (le_val b))) data r"
| "reference_step data CmdFixed32 r = reference_take 4 (\<lambda>b. VNum (int (le_val b))) data r"
| "reference_step data CmdFixed64 r = reference_take 8 (\<lambda>b. VNum (int (le_val b))) data r"
| "reference_step data CmdTag r =
     (if reference_avail data r = []
      then if rf_pos r < rf_total_limit r \<or> rf_limit r = rf_total_limit r
           then Some (VNum 0, r\<lparr>rf_legit := True\<rparr>) else None
      else reference_varint (\<lambda>x. if x mod 2 ^ 32 = 0 then None else Some (VNum (int (x mod 2 ^ 32)))) data r)"
| "reference_step data (CmdPushLimit n) r =
     Some (VDone, r\<lparr>rf_limit := if 0 \<le> n then min (rf_pos r + n) (rf_limit r) else rf_limit r,
                    rf_old := rf_limit r # rf_old r\<rparr>)"
| "reference_step data CmdPopLimit r =
     (case rf_old r of
        [] \<Rightarrow> None
      | l # ls \<Rightarrow> Some (VDone, r\<lparr>rf_limit := l, rf_old := ls, rf_legit := False\<rparr>))"
| "reference_step data CmdPosition r = Some (VNum (rf_pos r), r)"
| "reference_step data CmdBytesUntilLimit r =
     Some (VNum (if rf_limit r = INT_MAX then -1 else rf_limit r - rf_pos r), r)"

fun reference_run ::
  "nat \<Rightarrow> string \<Rightarrow> strategy \<Rightarrow> coded_value list \<Rightarrow> reference \<Rightarrow> bool \<times> coded_value list \<times> reference" where
  "reference_run 0 data strat vs r = (True, vs, r)"
| "reference_run (Suc k) data strat vs r =
     (case strat vs of
        None \<Rightarrow> (True, vs, r)
      | Some cmd \<Rightarrow>
          (case reference_step data cmd r of
             None \<Rightarrow> (False, vs, r)
           | Some (v, r) \<Rightarrow> reference_run k data strat (vs @ [v]) r))"

definition reference_open :: "int \<Rightarrow> int \<Rightarrow> reference" where
  "reference_open limit total_limit =
     \<lparr>rf_pos = 0, rf_limit = limit, rf_total_limit = total_limit, rf_legit = False, rf_old = []\<rparr>"

section \<open>CodedInputStream refines the reference\<close>

text \<open>
  \<open>coded_sim\<close> relates the state of a \<open>CodedInputStream\<close>, with the stack of limits its client
  holds, to the state of the reference. Every call keeps it and returns what the reference
  returns; the theorems follow by induction over the calls, for streams that are arrays, cords
  of any chunk structure, and for flat arrays without a stream.
\<close>

definition coded_sim ::
  "'s input_stream \<Rightarrow> ('s \<Rightarrow> bool) \<Rightarrow> ('s \<Rightarrow> string) \<Rightarrow> string \<Rightarrow> bool \<Rightarrow> int list \<times> 's coded_input \<Rightarrow> reference \<Rightarrow> bool" where
  "coded_sim I okay rest data flat st r \<longleftrightarrow>
     (case st of (ls, s) \<Rightarrow>
        coded_inv I okay rest data s \<and> rf_pos r = CurrentPosition s \<and> rf_limit r = ci_limit s
        \<and> rf_total_limit r = ci_total_limit s \<and> rf_legit r = ci_legit_end s \<and> rf_old r = ls
        \<and> sorted (ci_limit s # ls)
        \<and> (ci_input s = None) = flat \<and> list_all (\<lambda>l. l \<le> (if flat then int (length data) else INT_MAX)) (ci_limit s # ls)
        \<and> (ci_legit_end s \<longrightarrow> coded_avail data s = []
             \<and> (CurrentPosition s < ci_total_limit s \<or> ci_limit s = ci_total_limit s)))"

definition coded_step_ok ::
  "'s input_stream \<Rightarrow> ('s \<Rightarrow> bool) \<Rightarrow> ('s \<Rightarrow> string) \<Rightarrow> string \<Rightarrow> bool
    \<Rightarrow> (coded_value option \<times> int list \<times> 's coded_input) option \<Rightarrow> (coded_value \<times> reference) option \<Rightarrow> bool" where
  "coded_step_ok I okay rest data flat res ref \<longleftrightarrow>
     (case res of
        None \<Rightarrow> False
      | Some (v, st) \<Rightarrow>
          (case ref of None \<Rightarrow> v = None | Some (w, r) \<Rightarrow> v = Some w \<and> coded_sim I okay rest data flat st r))"

lemma sim_avail:
  "coded_sim I okay rest data flat (ls, s) r \<Longrightarrow> reference_avail data r = coded_avail data s"
  by (simp add: coded_sim_def reference_avail_def coded_avail_def closest_limit_def)

text \<open>Reading keeps the relation.\<close>

lemma sim_took:
  assumes "coded_sim I okay rest data flat (ls, s) r" and "coded_inv I okay rest data s'" and "coded_took data (int n) s True s'"
  shows "coded_sim I okay rest data flat (ls, s') (r\<lparr>rf_pos := rf_pos r + int n\<rparr>)"
proof -
  have t: "coded_frame s' = coded_frame s" "CurrentPosition s' = CurrentPosition s + int n"
    "coded_avail data s' = drop n (coded_avail data s)" "n \<le> length (coded_avail data s)"
    using assms(3) by (simp_all add: coded_took_def)
  with assms(1,2) show ?thesis by (auto simp: coded_sim_def coded_frame_def)
qed

lemma take_step_ok:
  assumes "coded_sim I okay rest data flat (ls, s) r" and "coded_inv I okay rest data s'" and "coded_took data (int n) s b s'"
    and "b \<Longrightarrow> v = Some (f (take n (coded_avail data s)))" and "\<not> b \<Longrightarrow> v = None"
  shows "coded_step_ok I okay rest data flat (Some (v, ls, s')) (reference_take n f data r)"
  using assms sim_took [OF assms(1,2), of n] sim_avail [OF assms(1)]
  by (cases b) (auto simp: coded_step_ok_def reference_take_def coded_took_def)

lemma varint_step_ok:
  assumes "coded_sim I okay rest data flat (ls, s) r" and "varint_outcome I okay rest data s ok val s'"
    and "\<not> ok \<Longrightarrow> v = None" and "\<And>x. ok \<Longrightarrow> val x \<Longrightarrow> v = f x" 
  shows "coded_step_ok I okay rest data flat (Some (v, ls, s')) (reference_varint f data r)"
  using assms sim_took [OF assms(1), of s'] sim_avail [OF assms(1)]
  by (auto simp: coded_step_ok_def reference_varint_def varint_outcome_def coded_varint_def split: option.splits)

context coded_source
begin

abbreviation sim :: "bool \<Rightarrow> int list \<times> 's coded_input \<Rightarrow> reference \<Rightarrow> bool" where
  "sim flat \<equiv> coded_sim I okay rest data flat"

abbreviation step_ok where
  "step_ok flat \<equiv> coded_step_ok I okay rest data flat"

lemma step_raw:
  assumes "sim flat (ls, s) r"
  shows "step_ok flat (client_step I (CmdRaw n) (ls, s)) (reference_step data (CmdRaw n) r)"
    and "step_ok flat (client_step I (CmdString n) (ls, s)) (reference_step data (CmdString n) r)"
    and "step_ok flat (client_step I (CmdCord n) (ls, s)) (reference_step data (CmdCord n) r)"
    and "step_ok flat (client_step I (CmdSkip n) (ls, s)) (reference_step data (CmdSkip n) r)"
proof -
  have J: "J s" using assms by (simp add: coded_sim_def)
  have n: "0 \<le> int n" by simp
  obtain b s' where t: "ReadRaw I (int n) s = Some (b, take n (coded_avail data s), s')" "J s'" "coded_took data (int n) s b s'"
    using ReadRaw_took [OF J n] by (auto simp: nat_int)
  show "step_ok flat (client_step I (CmdRaw n) (ls, s)) (reference_step data (CmdRaw n) r)"
    using take_step_ok [OF assms t(2,3), of "if b then Some (VBytes (take n (coded_avail data s))) else None" VBytes] t(1)
    by simp
  obtain b s' where t: "ReadString I [] (int n) s = Some (b, take n (coded_avail data s), s')" "J s'" "coded_took data (int n) s b s'"
    using ReadString_took [OF J n, of "[]"] by (auto simp: nat_int)
  show "step_ok flat (client_step I (CmdString n) (ls, s)) (reference_step data (CmdString n) r)"
    using take_step_ok [OF assms t(2,3), of "if b then Some (VBytes (take n (coded_avail data s))) else None" VBytes] t(1)
    by simp
  obtain b s' where t: "coded_ReadCord I (int n) s = Some (b, take n (coded_avail data s), s')" "J s'" "coded_took data (int n) s b s'"
    using coded_ReadCord_took [OF J n] by (auto simp: nat_int)
  show "step_ok flat (client_step I (CmdCord n) (ls, s)) (reference_step data (CmdCord n) r)"
    using take_step_ok [OF assms t(2,3), of "if b then Some (VBytes (take n (coded_avail data s))) else None" VBytes] t(1)
    by simp
  obtain b s' where t: "coded_Skip I (int n) s = Some (b, s')" "J s'" "coded_took data (int n) s b s'"
    using coded_Skip_took [OF J n] by blast
  show "step_ok flat (client_step I (CmdSkip n) (ls, s)) (reference_step data (CmdSkip n) r)"
    using take_step_ok [OF assms t(2,3), of "if b then Some VDone else None" "\<lambda>_. VDone"] t(1) by simp
qed

lemma le_word_val:
  "length b = 2 \<Longrightarrow> uint (of_nat (le_val b) :: 16 word) = int (le_val b)"
  "length b = 4 \<Longrightarrow> uint (of_nat (le_val b) :: 32 word) = int (le_val b)"
  "length b = 8 \<Longrightarrow> uint (of_nat (le_val b) :: 64 word) = int (le_val b)"
proof -
  have l: "le_val b < 256 ^ length b" for b
  proof (induction b)
    case Nil
    then show ?case by simp
  next
    case (Cons c b)
    then have "byte_val c + 256 * le_val b < 256 + 256 * (256 ^ length b - 1)"
      using byte_val_less [of c] by (intro add_less_le_mono mult_le_mono2) simp_all
    also have "\<dots> = 256 ^ length (c # b)" by (simp add: right_diff_distrib')
    finally show ?case by simp
  qed
  from l [of b] show "length b = 2 \<Longrightarrow> uint (of_nat (le_val b) :: 16 word) = int (le_val b)"
    "length b = 4 \<Longrightarrow> uint (of_nat (le_val b) :: 32 word) = int (le_val b)"
    "length b = 8 \<Longrightarrow> uint (of_nat (le_val b) :: 64 word) = int (le_val b)"
    by (simp_all add: unsigned_of_nat take_bit_nat_eq_self_iff)
qed

lemma step_fixed:
  assumes "sim flat (ls, s) r"
  shows "step_ok flat (client_step I CmdFixed16 (ls, s)) (reference_step data CmdFixed16 r)"
    and "step_ok flat (client_step I CmdFixed32 (ls, s)) (reference_step data CmdFixed32 r)"
    and "step_ok flat (client_step I CmdFixed64 (ls, s)) (reference_step data CmdFixed64 r)"
proof -
  have J: "J s" using assms by (simp add: coded_sim_def)
  have len: "length (take n (coded_avail data s)) = n" if "coded_took data (int n) s True s'" for n s'
    using that by (simp add: coded_took_def)
  obtain q s' where r: "ReadLittleEndian16 I s = Some (q, s')" "J s'" "coded_took data (int 2) s (q \<noteq> None) s'"
    "q = None \<or> q = Some (of_nat (le_val (take 2 (coded_avail data s))))"
    using ReadLittleEndian16_read [OF J] by auto
  show "step_ok flat (client_step I CmdFixed16 (ls, s)) (reference_step data CmdFixed16 r)"
    using take_step_ok [OF assms r(2,3), of "map_option (\<lambda>v. VNum (uint v)) q" "\<lambda>b. VNum (int (le_val b))"]
      r(1,3,4) le_word_val(1) [OF len [of 2 s']] by (auto simp del: of_nat_numeral)
  obtain q s' where r: "ReadLittleEndian32 True I s = Some (q, s')" "J s'" "coded_took data (int 4) s (q \<noteq> None) s'"
    "q = None \<or> q = Some (of_nat (le_val (take 4 (coded_avail data s))))"
    using ReadLittleEndian32_read [OF J, of True] by auto
  show "step_ok flat (client_step I CmdFixed32 (ls, s)) (reference_step data CmdFixed32 r)"
    using take_step_ok [OF assms r(2,3), of "map_option (\<lambda>v. VNum (uint v)) q" "\<lambda>b. VNum (int (le_val b))"]
      r(1,3,4) le_word_val(2) [OF len [of 4 s']] by (auto simp del: of_nat_numeral)
  obtain q s' where r: "ReadLittleEndian64 True I s = Some (q, s')" "J s'" "coded_took data (int 8) s (q \<noteq> None) s'"
    "q = None \<or> q = Some (of_nat (le_val (take 8 (coded_avail data s))))"
    using ReadLittleEndian64_read [OF J, of True] by auto
  show "step_ok flat (client_step I CmdFixed64 (ls, s)) (reference_step data CmdFixed64 r)"
    using take_step_ok [OF assms r(2,3), of "map_option (\<lambda>v. VNum (uint v)) q" "\<lambda>b. VNum (int (le_val b))"]
      r(1,3,4) le_word_val(3) [OF len [of 8 s']] by (auto simp del: of_nat_numeral)
qed

lemma step_varint:
  assumes "sim flat (ls, s) r"
  shows "step_ok flat (client_step I CmdVarint32 (ls, s)) (reference_step data CmdVarint32 r)"
    and "step_ok flat (client_step I CmdVarint64 (ls, s)) (reference_step data CmdVarint64 r)"
    and "step_ok flat (client_step I CmdSize (ls, s)) (reference_step data CmdSize r)"
proof -
  have J: "J s" using assms by (simp add: coded_sim_def)
  obtain ok v s' where v: "ReadVarint32 I s = Some ((ok, v), s')" "varint_read s ok (\<lambda>x. v = of_nat x) s'"
    using ReadVarint32_read [OF J] by blast
  show "step_ok flat (client_step I CmdVarint32 (ls, s)) (reference_step data CmdVarint32 r)"
    using varint_step_ok [OF assms v(2), of "if ok then Some (VNum (uint v)) else None"] v(1)
    by (simp add: uint_of_nat_32)
  obtain ok v s' where v: "ReadVarint64 I s = Some ((ok, v), s')" "varint_read s ok (\<lambda>x. v = of_nat x) s'"
    using ReadVarint64_read [OF J] by blast
  show "step_ok flat (client_step I CmdVarint64 (ls, s)) (reference_step data CmdVarint64 r)"
    using varint_step_ok [OF assms v(2), of "if ok then Some (VNum (uint v)) else None"] v(1)
    by (simp add: uint_of_nat_64)
  obtain q s' where q: "ReadVarintSizeAsInt I s = Some ((q \<ge> 0, q), s')" "size_read s q s'"
    using ReadVarintSizeAsInt_read [OF J] by blast
  show "step_ok flat (client_step I CmdSize (ls, s)) (reference_step data CmdSize r)"
    using q sim_took [OF assms, of s'] sim_avail [OF assms]
    by (auto simp: coded_step_ok_def reference_varint_def size_outcome_def coded_varint_def split: option.splits if_splits)
qed

lemma step_tag:
  assumes "sim flat (ls, s) r"
  shows "step_ok flat (client_step I CmdTag (ls, s)) (reference_step data CmdTag r)"
proof -
  have J: "J s" and sim: "rf_pos r = CurrentPosition s" "rf_limit r = ci_limit s" "rf_total_limit r = ci_total_limit s"
    "rf_legit r = ci_legit_end s"
    and leg: "ci_legit_end s \<Longrightarrow> coded_avail data s = []
      \<and> (CurrentPosition s < ci_total_limit s \<or> ci_limit s = ci_total_limit s)"
    using assms by (auto simp: coded_sim_def)
  obtain tag s' where t: "ReadTag I s = Some (tag, s'\<lparr>ci_last_tag := tag\<rparr>)" "tag_read s tag s'"
    using ReadTag_read [OF J] by blast
  define v where "v = (if tag = 0 \<and> \<not> ci_legit_end s' then None else Some (VNum (uint tag)))"
  have c: "client_step I CmdTag (ls, s) = Some (v, ls, s'\<lparr>ci_last_tag := tag\<rparr>)"
    by (simp add: t(1) v_def ConsumedEntireMessage_def)
  have drop_tag: "sim flat (ls, x\<lparr>ci_last_tag := t\<rparr>) q = sim flat (ls, x) q" for x q t
    by (simp add: coded_sim_def)
  show ?thesis
  proof (cases "coded_avail data s = []")
    case True
    with t(2) have e: "tag = 0" "J s'" "CurrentPosition s' = CurrentPosition s"
      "legit_after_end s (ci_legit_end s')" "coded_frame (s'\<lparr>ci_legit_end := ci_legit_end s\<rparr>) = coded_frame s"
      by (simp_all add: tag_outcome_def)
    then have av: "coded_avail data s' = []"
      using True by (simp add: coded_avail_def coded_frame_def closest_limit_def)
    show ?thesis
    proof (cases "CurrentPosition s < ci_total_limit s \<or> ci_limit s = ci_total_limit s")
      case l: True
      then have "ci_legit_end s'" using e(4) by (simp add: legit_after_end_def)
      then have "sim flat (ls, s') (r\<lparr>rf_legit := True\<rparr>)"
        using assms e l av by (simp add: coded_sim_def coded_frame_def)
      with \<open>ci_legit_end s'\<close> show ?thesis
        unfolding c coded_step_ok_def
        using True l e(1) sim sim_avail [OF assms] by (simp add: v_def drop_tag)
    next
      case l: False
      then have "\<not> ci_legit_end s'" using e(4) leg by (auto simp: legit_after_end_def)
      with l show ?thesis
        unfolding c coded_step_ok_def
        using True e(1) sim sim_avail [OF assms] by (simp add: v_def)
    qed
  next
    case False
    with t(2) leg have e: "J s'" "coded_frame s' = coded_frame s" "\<not> ci_legit_end s'"
      "case coded_varint data s of None \<Rightarrow> tag = 0
       | Some (x, n) \<Rightarrow> tag = of_nat x \<and> coded_took data (int n) s True s'"
      by (auto simp: tag_outcome_def coded_frame_def)
    show ?thesis
    proof (cases "coded_varint data s")
      case None
      then have "varint_len 10 (coded_avail data s) = None" by (simp add: coded_varint_def)
      with None e False show ?thesis
        unfolding c coded_step_ok_def using sim_avail [OF assms]
        by (simp add: v_def reference_varint_def)
    next
      case (Some p)
      obtain x n where p: "p = (x, n)" by (cases p)
      have xn: "varint_len 10 (coded_avail data s) = Some n" "x = varint_val (take n (coded_avail data s))"
        using Some by (auto simp: p coded_varint_def)
      have tg: "tag = of_nat x" and tk: "coded_took data (int n) s True s'" using e(4) by (simp_all add: Some p)
      have u: "uint tag = int (x mod 2 ^ 32)" by (simp only: tg uint_of_nat_32)
      have z: "tag = 0 \<longleftrightarrow> x mod 2 ^ 32 = 0"
        using u by (metis of_nat_eq_0_iff uint_0_iff)
      have "reference_step data CmdTag r =
          (if x mod 2 ^ 32 = 0 then None else Some (VNum (int (x mod 2 ^ 32)), r\<lparr>rf_pos := rf_pos r + int n\<rparr>))"
        using False sim_avail [OF assms] xn by (simp add: reference_varint_def)
      then show ?thesis
        unfolding c coded_step_ok_def using sim_took [OF assms e(1) tk] e(3)
        by (simp add: v_def z u drop_tag)
    qed
  qed
qed

lemma step_limits:
  assumes "sim flat (ls, s) r"
  shows "step_ok flat (client_step I (CmdPushLimit n) (ls, s)) (reference_step data (CmdPushLimit n) r)"
    and "step_ok flat (client_step I CmdPopLimit (ls, s)) (reference_step data CmdPopLimit r)"
    and "step_ok flat (client_step I CmdPosition (ls, s)) (reference_step data CmdPosition r)"
    and "step_ok flat (client_step I CmdBytesUntilLimit (ls, s)) (reference_step data CmdBytesUntilLimit r)"
proof -
  have J: "J s" and sim: "rf_pos r = CurrentPosition s" "rf_limit r = ci_limit s" "rf_total_limit r = ci_total_limit s"
    "rf_old r = ls" "sorted (ci_limit s # ls)"
    "(ci_input s = None) = flat" "list_all (\<lambda>l. l \<le> (if flat then int (length data) else INT_MAX)) (ci_limit s # ls)"
    and leg: "ci_legit_end s \<Longrightarrow> coded_avail data s = []
      \<and> (CurrentPosition s < ci_total_limit s \<or> ci_limit s = ci_total_limit s)"
    using assms by (auto simp: coded_sim_def)
  note d = coded_invD [OF J]
  have pos: "CurrentPosition s \<le> ci_limit s" "CurrentPosition s \<le> ci_total_limit s" "ci_limit s \<le> INT_MAX"
    using d(5,13) by (auto simp: closest_limit_def coded_ints_def)
  have flat: "int (length data) \<le> ci_total s \<and> ci_limit s \<le> ci_total s" if n: "ci_input s = None"
    using d(4,10) n by (auto simp: coded_at_def CurrentPosition_def)
  have flat_size: "int (length data) \<le> INT_MAX" if "ci_input s = None"
    using flat [OF that] d(7) by simp
  show "step_ok flat (client_step I CmdPosition (ls, s)) (reference_step data CmdPosition r)"
    "step_ok flat (client_step I CmdBytesUntilLimit (ls, s)) (reference_step data CmdBytesUntilLimit r)"
    using assms sim by (simp_all add: coded_step_ok_def BytesUntilLimit_def)
  show "step_ok flat (client_step I CmdPopLimit (ls, s)) (reference_step data CmdPopLimit r)"
  proof (cases ls)
    case Nil
    with sim(4) show ?thesis by (simp add: coded_step_ok_def)
  next
    case (Cons l ls')
    have l: "CurrentPosition s \<le> l" "l \<le> INT_MAX" "ci_input s = None \<Longrightarrow> l \<le> ci_total s"
      using sim(5-7) pos flat flat_size by (auto simp: Cons split: if_splits)
    note p = PopLimit_inv [OF J l]
    have "\<not> ci_legit_end (PopLimit l s)" by (simp add: PopLimit_def)
    then have "sim flat (ls', PopLimit l s) (r\<lparr>rf_limit := l, rf_old := ls', rf_legit := False\<rparr>)"
      using p sim by (auto simp: coded_sim_def Cons)
    with sim(4) Cons show ?thesis by (simp add: coded_step_ok_def)
  qed
  define s' where "s' = snd (PushLimit n s)"
  note p = PushLimit_inv [OF J, of n, folded s'_def]
  have leg': "ci_legit_end s' = ci_legit_end s"
    using recompute_fields(7) [of "s\<lparr>ci_limit := CurrentPosition s + n\<rparr>"]
    by (simp add: s'_def PushLimit_def Let_def coded_frame_def)
  have lim: "ci_limit s' \<le> ci_limit s" using p(4) pos by auto
  have "ci_legit_end s' \<Longrightarrow> coded_avail data s' = []
      \<and> (CurrentPosition s' < ci_total_limit s' \<or> ci_limit s' = ci_total_limit s')"
  proof
    assume "ci_legit_end s'"
    then have l: "coded_avail data s = []" "CurrentPosition s < ci_total_limit s \<or> ci_limit s = ci_total_limit s"
      using leg leg' by auto
    have "closest_limit s' \<le> closest_limit s" using lim p(5) by (auto simp: closest_limit_def)
    then show "coded_avail data s' = []" using l(1) p(3) by (auto simp: coded_avail_def)
    show "CurrentPosition s' < ci_total_limit s' \<or> ci_limit s' = ci_total_limit s'"
      using l(2) p(3-5) pos by (auto split: if_splits)
  qed
  then have "sim flat (ci_limit s # ls, s') (r\<lparr>rf_limit := ci_limit s', rf_old := ci_limit s # ls\<rparr>)"
    using sim lim p(2-7) leg' assms by (auto simp: coded_sim_def)
  moreover have "reference_step data (CmdPushLimit n) r
      = Some (VDone, r\<lparr>rf_limit := ci_limit s', rf_old := ci_limit s # ls\<rparr>)"
    using p(4) sim by simp
  moreover have "client_step I (CmdPushLimit n) (ls, s) = Some (Some VDone, ci_limit s # ls, s')"
    using p(1) by (cases "PushLimit n s") (simp add: s'_def)
  ultimately show "step_ok flat (client_step I (CmdPushLimit n) (ls, s)) (reference_step data (CmdPushLimit n) r)"
    by (simp only: coded_step_ok_def option.case prod.case simp_thms)
qed

lemma client_step_ok:
  assumes "sim flat st r"
  shows "step_ok flat (client_step I cmd st) (reference_step data cmd r)"
proof -
  obtain ls s where st: "st = (ls, s)" by (cases st)
  with assms have "sim flat (ls, s) r" by simp
  from step_raw [OF this] step_fixed [OF this] step_varint [OF this] step_tag [OF this] step_limits [OF this]
  show ?thesis unfolding st by (cases cmd) (simp_all only:)
qed

text \<open>Any client, with any number of calls.\<close>

lemma client_run_ok:
  assumes "sim flat st r"
  shows "\<exists>s. client_run k I strat vs st = Some (fst (reference_run k data strat vs r), fst (snd (reference_run k data strat vs r)), s)
      \<and> (fst (reference_run k data strat vs r) \<longrightarrow>
           (\<exists>ls. sim flat (ls, s) (snd (snd (reference_run k data strat vs r)))))"
  using assms
proof (induction k arbitrary: vs st r)
  case 0
  then show ?case by (cases st) auto
next
  case (Suc k)
  show ?case
  proof (cases "strat vs")
    case None
    with Suc.prems show ?thesis by (cases st) auto
  next
    case (Some cmd)
    note ok = client_step_ok [OF Suc.prems, of cmd]
    then obtain v st' where c: "client_step I cmd st = Some (v, st')"
      by (auto simp: coded_step_ok_def split: option.splits)
    show ?thesis
    proof (cases "reference_step data cmd r")
      case None
      with ok c Some show ?thesis by (simp add: coded_step_ok_def)
    next
      case R: (Some p)
      obtain w r' where p: "p = (w, r')" by (cases p)
      with ok c R have "v = Some w" "sim flat st' r'" by (simp_all add: coded_step_ok_def)
      with Suc.IH [OF this(2), of "vs @ [w]"] c R p Some show ?thesis by simp
    qed
  qed
qed

lemma coded_open_sim:
  assumes "okay i" and "rest i = data" and "is_ByteCount I i = 0"
  shows "\<exists>s. CodedInputStream I i = Some s \<and> sim False ([], s) (reference_open INT_MAX INT_MAX)"
proof -
  obtain s i' where "CodedInputStream I i = Some s" "J s" "CurrentPosition s = 0" "ci_limit s = INT_MAX"
    "ci_total_limit s = INT_MAX" "ci_input s = Some i'" "ci_legit_end s = False"
    using CodedInputStream_inv [OF assms] by blast
  then show ?thesis by (auto simp: coded_sim_def reference_open_def)
qed

lemma sim_destroy:
  assumes "sim False (ls, s) r"
  shows "\<exists>i. coded_destroy I s = Some (Some i) \<and> okay i \<and> rest i = drop (nat (rf_pos r)) data"
  using assms coded_destroy_rest by (auto simp: coded_sim_def)

lemma array_open_sim:
  assumes "int (length data) \<le> INT_MAX"
  shows "sim True ([], CodedInputStream_array data (int (length data))) (reference_open (int (length data)) INT_MAX)"
proof -
  let ?s = "CodedInputStream_array data (int (length data)) :: 's coded_input"
  have p: "CurrentPosition ?s = 0" "closest_limit ?s = int (length data)"
    using assms by (simp_all add: CodedInputStream_array_def CurrentPosition_def closest_limit_def
        kDefaultTotalBytesLimit_def)
  have "J ?s"
    unfolding coded_inv_def coded_ints_def coded_at_def p using assms
    by (simp add: CodedInputStream_array_def kDefaultTotalBytesLimit_def INT_MAX_def)
  then show ?thesis
    using p by (simp add: coded_sim_def reference_open_def CodedInputStream_array_def kDefaultTotalBytesLimit_def)
qed

text \<open>The run of a client on a new object, then the destructor.\<close>

lemma session_ok:
  fixes k :: nat and strat :: strategy
  assumes "okay i" and "rest i = data" and "is_ByteCount I i = 0"
  defines "ref \<equiv> reference_run k data strat [] (reference_open INT_MAX INT_MAX)"
  shows "\<exists>i'. coded_session k I strat i = Some (fst ref, fst (snd ref), i')
      \<and> (fst ref \<longrightarrow> map_option rest i' = Some (drop (nat (rf_pos (snd (snd ref)))) data))"
proof -
  obtain s where s: "CodedInputStream I i = Some s" "sim False ([], s) (reference_open INT_MAX INT_MAX)"
    using coded_open_sim [OF assms(1-3)] by blast
  obtain s' where r: "client_run k I strat [] ([], s) = Some (fst ref, fst (snd ref), s')"
    "fst ref \<Longrightarrow> \<exists>ls. sim False (ls, s') (snd (snd ref))"
    using client_run_ok [OF s(2), of k strat "[]"] unfolding ref_def by auto
  show ?thesis
  proof (cases "fst ref")
    case False
    with s(1) r(1) show ?thesis by (simp add: coded_session_def)
  next
    case True
    then obtain ls where "sim False (ls, s') (snd (snd ref))" using r(2) by blast
    from sim_destroy [OF this] obtain i' where
      "coded_destroy I s' = Some (Some i')" "rest i' = drop (nat (rf_pos (snd (snd ref)))) data" by auto
    with True s(1) r(1) show ?thesis by (simp add: coded_session_def)
  qed
qed

end

end
