(* ===== verification/Coded_Streams.thy ===== *)
theory Coded_Streams
  imports Coded_Client
begin

section \<open>CodedInputStream over arrays and cords\<close>

text \<open>
  The contract of the wrapped stream holds for \<open>ArrayInputStream\<close> with any block size and for
  \<open>CordInputStream\<close> over a cord of any chunk structure, so any client gets what the reference
  says, and the destructor leaves the wrapped stream at the first unread byte. The last section
  evaluates the corner cases at the limits.
\<close>

definition array_stream :: "array_input input_stream" where
  "array_stream = \<lparr>is_Next = array_Next, is_BackUp = array_BackUp, is_Skip = array_Skip,
     is_ByteCount = array_ByteCount, is_ReadCord = ReadCord array_Next array_BackUp\<rparr>"

definition cord_stream :: "cord_input input_stream" where
  "cord_stream = \<lparr>is_Next = cord_Next, is_BackUp = cord_BackUp, is_Skip = cord_Skip,
     is_ByteCount = cord_ByteCount, is_ReadCord = cord_ReadCord\<rparr>"

lemma array_stream_ops [simp]:
  "is_Next array_stream = array_Next" "is_BackUp array_stream = array_BackUp" "is_Skip array_stream = array_Skip"
  "is_ByteCount array_stream = array_ByteCount" "is_ReadCord array_stream = ReadCord array_Next array_BackUp"
  by (simp_all add: array_stream_def)

lemma cord_stream_ops [simp]:
  "is_Next cord_stream = cord_Next" "is_BackUp cord_stream = cord_BackUp" "is_Skip cord_stream = cord_Skip"
  "is_ByteCount cord_stream = cord_ByteCount" "is_ReadCord cord_stream = cord_ReadCord"
  by (simp_all add: cord_stream_def)

interpretation coded_array: coded_source array_stream array_inv array_rest data
  for data
  by (intro coded_source.intro coded_source_axioms.intro)
    (simp_all add: array.zero_copy_input_axioms array.ReadCord_rest)

interpretation coded_cord: coded_source cord_stream cord_inv cord_rest data
  for data
  by (intro coded_source.intro coded_source_axioms.intro)
    (simp_all add: cord.zero_copy_input_axioms cord_ReadCord_rest)

text \<open>C4. Over an array with any block size, any client of \<open>CodedInputStream\<close> reads what the
  reference reads: bytes, varints, fixed-width integers and tags, under pushed and popped
  limits, however the calls fall on the blocks. If it does not stop on an error, the destructor
  leaves the array stream exactly behind the bytes read.\<close>

theorem coded_reads_array:
  "\<exists>i. coded_session k array_stream strat (ArrayInputStream data (int (length data)) block_size)
       = Some (fst (reference_run k data strat [] (reference_open INT_MAX INT_MAX)),
               fst (snd (reference_run k data strat [] (reference_open INT_MAX INT_MAX))), i)
     \<and> (fst (reference_run k data strat [] (reference_open INT_MAX INT_MAX)) \<longrightarrow>
          map_option array_rest i
            = Some (drop (nat (rf_pos (snd (snd (reference_run k data strat [] (reference_open INT_MAX INT_MAX)))))) data))"
proof -
  have o: "array_inv (ArrayInputStream data (int (length data)) block_size)"
    "array_rest (ArrayInputStream data (int (length data)) block_size) = data"
    "is_ByteCount array_stream (ArrayInputStream data (int (length data)) block_size) = 0" by simp_all
  show ?thesis using coded_array.session_ok [OF o] .
qed



text \<open>A client that decodes one field: the tag, then a varint or a length-delimited payload.\<close>

definition read_field :: strategy where
  "read_field vs =
     (case vs of
        [] \<Rightarrow> Some CmdTag
      | [VNum t] \<Rightarrow> if t mod 8 = 0 then Some CmdVarint64 else if t mod 8 = 2 then Some CmdSize else None
      | [VNum t, VNum n] \<Rightarrow> if t mod 8 = 2 then Some (CmdCord (nat n)) else None
      | _ \<Rightarrow> None)"

definition field_bytes :: string where
  "field_bytes = [CHR 0x12, CHR 0x03, CHR 0x61, CHR 0x62, CHR 0x63, CHR 0x08]"

lemma four_calls: "reference_run 4 data strat vs r = reference_run (Suc (Suc (Suc (Suc 0)))) data strat vs r"
  by (rule arg_cong [where f = "\<lambda>k. reference_run k data strat vs r"]) simp

lemma ten_bytes: "varint_len 10 (c # b) = (if byte_val c < 128 then Some 1 else map_option Suc (varint_len 9 b))"
  using varint_len.simps(3) [of 9 c b] by simp

lemmas reference_run_fields = four_calls field_bytes_def read_field_def reference_open_def reference_avail_def
  reference_varint_def reference_take_def ten_bytes INT_MAX_def byte_val_def

lemma read_field_reference:
  "reference_run 4 field_bytes read_field [] (reference_open INT_MAX INT_MAX)
     = (True, [VNum 18, VNum 3, VBytes ''abc''],
        \<lparr>rf_pos = 5, rf_limit = INT_MAX, rf_total_limit = INT_MAX, rf_legit = False, rf_old = []\<rparr>)"
  by (simp add: reference_run_fields)

lemma coded_reads_array_witness:
  "\<exists>i. coded_session 4 array_stream read_field (ArrayInputStream field_bytes (int (length field_bytes)) 2)
       = Some (True, [VNum 18, VNum 3, VBytes ''abc''], i)
     \<and> map_option array_rest i = Some [CHR 0x08]"
  using coded_reads_array [of 4 read_field field_bytes 2, unfolded read_field_reference]
  by (simp add: field_bytes_def)


text \<open>Over a flat array the same holds with the size of the array as the first limit; the pointer
  to a wrapped stream is null, and never followed.\<close>

theorem coded_reads_flat:
  assumes "int (length data) \<le> INT_MAX"
  shows "\<exists>s. client_run k array_stream strat [] ([], CodedInputStream_array data (int (length data)))
       = Some (fst (reference_run k data strat [] (reference_open (int (length data)) INT_MAX)),
               fst (snd (reference_run k data strat [] (reference_open (int (length data)) INT_MAX))), s)"
  using coded_array.client_run_ok [OF coded_array.array_open_sim [OF assms], of k strat "[]"] by blast

lemma read_field_flat:
  "reference_run 4 field_bytes read_field [] (reference_open 6 INT_MAX)
     = (True, [VNum 18, VNum 3, VBytes ''abc''],
        \<lparr>rf_pos = 5, rf_limit = 6, rf_total_limit = INT_MAX, rf_legit = False, rf_old = []\<rparr>)"
  by (simp add: reference_run_fields)

lemma coded_reads_flat_witness:
  "\<exists>s. client_run 4 array_stream read_field [] ([], CodedInputStream_array field_bytes (int (length field_bytes)))
       = Some (True, [VNum 18, VNum 3, VBytes ''abc''], s)"
proof -
  have l: "int (length field_bytes) = 6" by (simp add: field_bytes_def)
  then have "int (length field_bytes) \<le> INT_MAX" by (simp add: INT_MAX_def)
  from coded_reads_flat [OF this, of 4 read_field] show ?thesis by (simp add: l read_field_flat)
qed

subsection \<open>At the limits\<close>

text \<open>A buffer of four bytes, two of them read, with a total bytes limit of two.\<close>

definition at_total_limit :: "int \<Rightarrow> array_input coded_input option" where
  "at_total_limit block = do {
     s \<leftarrow> CodedInputStream array_stream (ArrayInputStream ''abcd'' 4 block);
     (_, _, s) \<leftarrow> ReadRaw array_stream 2 (SetTotalBytesLimit 2 s);
     Some s }"

lemmas coded_defs = coded_Refresh_def RecomputeBufferLimits_def closest_limit_def CurrentPosition_def INT_MAX_def
  kDefaultTotalBytesLimit_def default_recursion_limit_def coded_Advance_def copy_bytes_def

lemma NextNonEmpty_array:
  "ai_position s < ai_size s \<Longrightarrow> 0 < ai_block_size s \<Longrightarrow> 0 \<le> ai_position s \<Longrightarrow> nat (ai_size s) = length (ai_data s)
    \<Longrightarrow> NextNonEmpty array_Next s = array_Next s"
  by (subst NextNonEmpty.simps) (auto simp: array_Next_def Let_def)

lemma at_total_limit_states:
  "at_total_limit 2 = Some \<lparr>ci_buffer = [], ci_size = 0,
     ci_input = Some \<lparr>ai_data = ''abcd'', ai_size = 4, ai_block_size = 2, ai_position = 2, ai_last_returned_size = 2\<rparr>,
     ci_total = 2, ci_overflow = 0, ci_last_tag = 0, ci_legit_end = False, ci_limit = INT_MAX, ci_after = 0,
     ci_total_limit = 2, ci_recursion_budget = 100, ci_recursion_limit = 100\<rparr>"
  "at_total_limit 4 = Some \<lparr>ci_buffer = ''cd'', ci_size = 0,
     ci_input = Some \<lparr>ai_data = ''abcd'', ai_size = 4, ai_block_size = 4, ai_position = 4, ai_last_returned_size = 4\<rparr>,
     ci_total = 4, ci_overflow = 0, ci_last_tag = 0, ci_legit_end = False, ci_limit = INT_MAX, ci_after = 2,
     ci_total_limit = 2, ci_recursion_budget = 100, ci_recursion_limit = 100\<rparr>"
  by (simp_all add: at_total_limit_def CodedInputStream_def coded_defs NextNonEmpty_array ArrayInputStream_def
      array_Next_def SetTotalBytesLimit_def ReadRaw_def ReadRaw_loop.simps [of _ "[]" 2] Let_def)

text \<open>At the total bytes limit \<open>GetDirectBufferPointer\<close> returns true with an empty buffer: a refill
  that lies behind the limit altogether counts as a success.\<close>

theorem GetDirectBufferPointer_empty:
  "map_option fst (do { s \<leftarrow> at_total_limit 2; coded_GetDirectBufferPointer array_stream s }) = Some (Some [])"
  by (simp add: at_total_limit_states coded_GetDirectBufferPointer_def coded_defs NextNonEmpty_array
      array_Next_def Let_def)

text \<open>At the total bytes limit \<open>ExpectAtEnd\<close> declares a legitimate end of the message, where
  \<open>ReadTag\<close> does not.\<close>

theorem ExpectAtEnd_total_limit:
  "map_option (\<lambda>s. (fst (ExpectAtEnd s), ConsumedEntireMessage (snd (ExpectAtEnd s)),
       map_option (\<lambda>(tag, s). (tag = 0, ConsumedEntireMessage s)) (ReadTag array_stream s)))
     (at_total_limit 4) = Some (True, True, Some (True, False))"
  by (simp add: at_total_limit_states ExpectAtEnd_def ConsumedEntireMessage_def ReadTag_def ReadTagNoLastTag_def
      ReadTagFallback_def varint_in_buffer_def kMaxVarintBytes_def ReadTagSlow_def coded_defs Let_def)

text \<open>A skip that runs into the end of a wrapped stream sets the position from the byte count of
  that stream: when it had been read before the object was created, the position is wrong.\<close>

theorem failed_skip_position:
  "map_option (\<lambda>(b, s). (b, CurrentPosition s))
     (do { (_, i) \<leftarrow> array_Skip 3 (ArrayInputStream ''abcd'' 4 4);
           s \<leftarrow> CodedInputStream array_stream i;
           coded_Skip array_stream 5 s }) = Some (False, 4)"
  by (simp add: CodedInputStream_def coded_defs NextNonEmpty_array ArrayInputStream_def array_Next_def
      array_Skip_def coded_Skip_def SkipFallback_def array_ByteCount_def to_i32_id in_i32_def Let_def)



end
