(* ===== verification/Coded_Roundtrip.thy ===== *)
theory Coded_Roundtrip
  imports Coded_Streams Varint_Encode
begin

section \<open>What is written is read back\<close>

text \<open>
  The encoders and the decoder together. A message is a list of items, each written by one of the
  encoders of \<open>io/coded_stream.h\<close>; a client that calls the matching readers of
  \<open>CodedInputStream\<close> gets the values back, over a stream with any block structure, and leaves the
  wrapped stream behind the message. The size functions give the length of each encoding.
\<close>

datatype wire_item =
  Item32 "32 word" | Item64 "64 word" | ItemSigned "32 word" | ItemTag "32 word"
  | ItemFixed16 "16 word" | ItemFixed32 "32 word" | ItemFixed64 "64 word" | ItemString string

fun write_item :: "wire_item \<Rightarrow> string" where
  "write_item (Item32 v) = WriteVarint32ToArray v"
| "write_item (Item64 v) = WriteVarint64ToArray v"
| "write_item (ItemSigned v) = WriteVarint32SignExtendedToArray v"
| "write_item (ItemTag v) = WriteTagToArray v"
| "write_item (ItemFixed16 v) = WriteLittleEndian16ToArray v"
| "write_item (ItemFixed32 v) = WriteLittleEndian32ToArray v"
| "write_item (ItemFixed64 v) = WriteLittleEndian64ToArray v"
| "write_item (ItemString b) = UnsafeWriteSize (of_nat (length b)) @ b"

fun item_cmds :: "wire_item \<Rightarrow> coded_cmd list" where
  "item_cmds (Item32 v) = [CmdVarint32]"
| "item_cmds (Item64 v) = [CmdVarint64]"
| "item_cmds (ItemSigned v) = [CmdVarint32]"
| "item_cmds (ItemTag v) = [CmdTag]"
| "item_cmds (ItemFixed16 v) = [CmdFixed16]"
| "item_cmds (ItemFixed32 v) = [CmdFixed32]"
| "item_cmds (ItemFixed64 v) = [CmdFixed64]"
| "item_cmds (ItemString b) = [CmdSize, CmdString (length b)]"

fun item_values :: "wire_item \<Rightarrow> coded_value list" where
  "item_values (Item32 v) = [VNum (uint v)]"
| "item_values (Item64 v) = [VNum (uint v)]"
| "item_values (ItemSigned v) = [VNum (uint v)]"
| "item_values (ItemTag v) = [VNum (uint v)]"
| "item_values (ItemFixed16 v) = [VNum (uint v)]"
| "item_values (ItemFixed32 v) = [VNum (uint v)]"
| "item_values (ItemFixed64 v) = [VNum (uint v)]"
| "item_values (ItemString b) = [VNum (int (length b)), VBytes b]"

text \<open>The size that the code computes for each, with either variant of the size functions.\<close>

fun item_size :: "bool \<Rightarrow> wire_item \<Rightarrow> nat" where
  "item_size bsr (Item32 v) = VarintSize32 bsr v"
| "item_size bsr (Item64 v) = VarintSize64 bsr v"
| "item_size bsr (ItemSigned v) = VarintSize32SignExtended bsr v"
| "item_size bsr (ItemTag v) = TagSize v"
| "item_size bsr (ItemFixed16 v) = 2"
| "item_size bsr (ItemFixed32 v) = 4"
| "item_size bsr (ItemFixed64 v) = 8"
| "item_size bsr (ItemString b) = VarintSize32 bsr (of_nat (length b)) + length b"

text \<open>A client that calls a fixed list of commands.\<close>

definition script :: "coded_cmd list \<Rightarrow> strategy" where
  "script cmds vs = (if length vs < length cmds then Some (cmds ! length vs) else None)"

fun reference_steps ::
  "string \<Rightarrow> coded_cmd list \<Rightarrow> reference \<Rightarrow> (coded_value list \<times> reference) option" where
  "reference_steps data [] r = Some ([], r)"
| "reference_steps data (c # cs) r = do {
     (v, r) \<leftarrow> reference_step data c r;
     (vs, r) \<leftarrow> reference_steps data cs r;
     Some (v # vs, r) }"

lemma script_run:
  assumes "reference_steps data cmds r = Some (vs, r')" and "length us = length done_cmds"
  shows "reference_run (length cmds) data (script (done_cmds @ cmds)) us r = (True, us @ vs, r')"
  using assms
proof (induction cmds arbitrary: r us done_cmds vs)
  case Nil
  then show ?case by simp
next
  case (Cons c cs)
  then obtain v r1 vs' where "reference_step data c r = Some (v, r1)"
    "reference_steps data cs r1 = Some (vs', r')" "vs = v # vs'"
    by (auto simp: bind_eq_Some_conv split_def)
  with Cons.IH [of r1 vs' "us @ [v]" "done_cmds @ [c]"] Cons.prems(2) show ?case
    by (simp add: script_def)
qed

lemma reference_steps_append:
  assumes "reference_steps data xs r = Some (us, r1)" and "reference_steps data ys r1 = Some (vs, r2)"
  shows "reference_steps data (xs @ ys) r = Some (us @ vs, r2)"
  using assms by (induction xs arbitrary: r us) (auto simp: bind_eq_Some_conv split_def)

subsection \<open>One item\<close>

text \<open>A client at position \<open>p\<close> of the content, with no limit pushed.\<close>

definition at_position :: "int \<Rightarrow> reference" where
  "at_position p = (reference_open INT_MAX INT_MAX)\<lparr>rf_pos := p\<rparr>"

lemma at_position_avail:
  assumes "0 \<le> p" and "drop (nat p) data = b @ z" and "p + int (length b) \<le> INT_MAX"
  shows "\<exists>y. reference_avail data (at_position p) = b @ y"
proof -
  have "length b \<le> nat (INT_MAX - p)" using assms(1,3) by linarith
  then show ?thesis
    using assms(2) by (simp add: reference_avail_def at_position_def reference_open_def)
qed

lemma take_item:
  assumes "0 \<le> p" and "drop (nat p) data = b @ z" and "p + int (length b) \<le> INT_MAX"
  shows "reference_take (length b) f data (at_position p) = Some (f b, at_position (p + int (length b)))"
  using at_position_avail [OF assms] by (auto simp: reference_take_def at_position_def)

lemma varint_item:
  assumes "0 \<le> p" and "drop (nat p) data = varint_bytes n @ z"
    and "p + int (length (varint_bytes n)) \<le> INT_MAX" and "length (varint_bytes n) \<le> 10"
  shows "reference_varint f data (at_position p)
     = map_option (\<lambda>v. (v, at_position (p + int (length (varint_bytes n))))) (f n)"
  using at_position_avail [OF assms(1-3)] varint_len_bytes [OF assms(4)]
  by (auto simp: reference_varint_def at_position_def split: option.splits)

lemma unat_mod_32:
  "int (unat (v :: 32 word) mod 2 ^ 32) = uint v" "int (unat (w :: 64 word) mod 2 ^ 64) = uint w"
  "unat v mod 2 ^ 32 = 0 \<longleftrightarrow> v = 0"
  using unsigned_less [of v, where ?'a = nat] unsigned_less [of w, where ?'a = nat] by (simp_all add: unat_eq_0)

lemma scast_low: "int (unat (scast (v :: 32 word) :: 64 word) mod 2 ^ 32) = uint v"
proof -
  have "ucast (scast v :: 64 word) = v" by (rule bit_word_eqI) (simp add: bit_ucast_iff bit_signed_iff)
  then have "unat (ucast (scast v :: 64 word) :: 32 word) = unat v" by simp
  then show ?thesis by (simp add: unsigned_ucast_eq take_bit_eq_mod)
qed

lemma le_length:
  "length (WriteLittleEndian16ToArray a) = 2" "length (WriteLittleEndian32ToArray b) = 4"
  "length (WriteLittleEndian64ToArray c) = 8"
  by (simp_all add: WriteLittleEndian16ToArray_def WriteLittleEndian32ToArray_def WriteLittleEndian64ToArray_def Let_def)

lemma item_bytes:
  "write_item (Item32 v) = varint_bytes (unat v)" "write_item (Item64 w) = varint_bytes (unat w)"
  "write_item (ItemSigned v) = varint_bytes (unat (scast v :: 64 word))"
  "write_item (ItemTag v) = varint_bytes (unat v)"
  by (simp_all add: WriteVarint32ToArray_def WriteVarint64ToArray_def WriteTagToArray_def
      WriteVarint32SignExtendedToArray_def UnsafeVarint32_bytes UnsafeVarint64_bytes)

lemma string_item_bytes:
  assumes "int (length b) \<le> INT_MAX"
  shows "UnsafeWriteSize (of_nat (length b)) = varint_bytes (length b)"
    and "length (varint_bytes (length b)) \<le> 10"
proof -
  have "length b < 128 ^ Suc 4" "length b < 2 ^ 32" using assms by (simp_all add: INT_MAX_def)
  then show "UnsafeWriteSize (of_nat (length b)) = varint_bytes (length b)" "length (varint_bytes (length b)) \<le> 10"
    using varint_bytes_length_le [of "length b" 4] by (simp_all add: UnsafeWriteSize_bytes unsigned_of_nat take_bit_eq_mod)
qed

text \<open>A tag of zero is no tag: \<open>ReadTag\<close> reports it as an error.\<close>

fun item_ok :: "wire_item \<Rightarrow> bool" where
  "item_ok (ItemTag v) \<longleftrightarrow> v \<noteq> 0"
| "item_ok _ \<longleftrightarrow> True"

lemma item_steps:
  assumes "0 \<le> p" and "drop (nat p) data = write_item it @ z" and "p + int (length (write_item it)) \<le> INT_MAX"
    and "item_ok it"
  shows "reference_steps data (item_cmds it) (at_position p)
     = Some (item_values it, at_position (p + int (length (write_item it))))"
proof (cases it)
  case (Item32 v)
  with assms(1-3) varint_item [of p data "unat v" z] unat_length_32 [of v] show ?thesis
    by (simp add: item_bytes unat_mod_32 [simplified] del: write_item.simps)
next
  case (Item64 v)
  with assms(1-3) varint_item [of p data "unat v" z] unat_length_64 [of v] show ?thesis
    by (simp add: item_bytes unat_mod_32 [simplified] del: write_item.simps)
next
  case (ItemSigned v)
  with assms(1-3) varint_item [of p data "unat (scast v :: 64 word)" z] unat_length_64 [of "scast v"] show ?thesis
    by (simp add: item_bytes scast_low [simplified] del: write_item.simps)
next
  case (ItemTag v)
  have "reference_avail data (at_position p) \<noteq> []"
    using at_position_avail [OF assms(1-3)] ItemTag by (auto simp: item_bytes simp del: write_item.simps)
  with ItemTag assms varint_item [of p data "unat v" z] unat_length_32 [of v] show ?thesis
    by (simp add: item_bytes unat_mod_32 [simplified] del: write_item.simps)
next
  case (ItemFixed16 v)
  with assms(1-3) take_item [of p data "WriteLittleEndian16ToArray v" z] show ?thesis
    by (simp add: le_length WriteLittleEndian_val)
next
  case (ItemFixed32 v)
  with assms(1-3) take_item [of p data "WriteLittleEndian32ToArray v" z] show ?thesis
    by (simp add: le_length WriteLittleEndian_val)
next
  case (ItemFixed64 v)
  with assms(1-3) take_item [of p data "WriteLittleEndian64ToArray v" z] show ?thesis
    by (simp add: le_length WriteLittleEndian_val)
next
  case (ItemString b)
  then have l: "int (length b) \<le> INT_MAX" using assms(1,3) by simp
  let ?h = "varint_bytes (length b)"
  have w: "write_item it = ?h @ b" using string_item_bytes(1) [OF l] ItemString by simp
  have d: "drop (nat (p + int (length ?h))) data = b @ z"
    using assms(1,2) w by (simp add: nat_add_distrib add.commute [of _ "length ?h"] flip: drop_drop)
  have m: "length b mod 2 ^ 64 = length b" using l by (simp add: INT_MAX_def)
  have "reference_step data CmdSize (at_position p) = Some (VNum (int (length b)), at_position (p + int (length ?h)))"
    using varint_item [of p data "length b" "b @ z"] assms(1-3) w l string_item_bytes(2) [OF l] m by simp
  moreover have "reference_step data (CmdString (length b)) (at_position (p + int (length ?h)))
      = Some (VBytes b, at_position (p + int (length ?h) + int (length b)))"
    using take_item [OF _ d] assms(1,3) w by simp
  ultimately show ?thesis using ItemString w by (simp del: write_item.simps reference_step.simps add: add.assoc)
qed

lemma items_steps:
  assumes "0 \<le> p" and "drop (nat p) data = concat (map write_item items) @ z"
    and "p + int (length (concat (map write_item items))) \<le> INT_MAX" and "list_all item_ok items"
  shows "reference_steps data (concat (map item_cmds items)) (at_position p)
     = Some (concat (map item_values items), at_position (p + int (length (concat (map write_item items)))))"
  using assms
proof (induction items arbitrary: p)
  case Nil
  then show ?case by simp
next
  case (Cons it items)
  let ?q = "p + int (length (write_item it))"
  have "reference_steps data (item_cmds it) (at_position p) = Some (item_values it, at_position ?q)"
    by (rule item_steps) (use Cons.prems in simp_all)
  moreover have "drop (nat ?q) data = drop (length (write_item it)) (drop (nat p) data)"
    using Cons.prems(1) by (simp add: nat_add_distrib add.commute)
  then have "reference_steps data (concat (map item_cmds items)) (at_position ?q)
      = Some (concat (map item_values items), at_position (?q + int (length (concat (map write_item items)))))"
    by (intro Cons.IH) (use Cons.prems in simp_all)
  ultimately show ?case by (simp add: reference_steps_append add.assoc)
qed

subsection \<open>The round trip\<close>

text \<open>Over an array, with anything behind the message.\<close>

lemma array_items_read:
  assumes "list_all item_ok items" and "int (length (concat (map write_item items))) \<le> INT_MAX"
  shows "\<exists>i. coded_session (length (concat (map item_cmds items))) array_stream
         (script (concat (map item_cmds items)))
         (ArrayInputStream (concat (map write_item items) @ z)
            (int (length (concat (map write_item items) @ z))) block_size)
       = Some (True, concat (map item_values items), i)
     \<and> map_option array_rest i = Some z"
proof -
  let ?b = "concat (map write_item items)" and ?c = "concat (map item_cmds items)"
  let ?i = "ArrayInputStream (?b @ z) (int (length (?b @ z))) block_size"
  have "array_inv (ArrayInputStream data (int (length data)) block_size)"
    "array_rest (ArrayInputStream data (int (length data)) block_size) = data"
    "is_ByteCount array_stream (ArrayInputStream data (int (length data)) block_size) = 0" for data by simp_all
  note o = this [of "?b @ z"]
  have "at_position 0 = reference_open INT_MAX INT_MAX" by (simp add: at_position_def reference_open_def)
  then have "reference_steps (?b @ z) ?c (reference_open INT_MAX INT_MAX)
      = Some (concat (map item_values items), at_position (int (length ?b)))"
    using items_steps [of 0 "?b @ z" items z] assms by simp
  from script_run [OF this, of "[]" "[]"] coded_array.session_ok [OF o, of "length ?c" "script ?c"]
  show ?thesis by (simp add: at_position_def)
qed

text \<open>C23. A message written with the varint, tag, fixed-width and string encoders is read back by the
  matching readers of \<open>CodedInputStream\<close>, over an array stream with any block size, whatever
  follows it, and the wrapped stream is left right behind the message.\<close>

theorem coded_roundtrip:
  assumes "list_all item_ok items" and "int (length (concat (map write_item items))) \<le> INT_MAX"
  shows "\<exists>i. coded_session (length (concat (map item_cmds items))) array_stream
         (script (concat (map item_cmds items)))
         (ArrayInputStream (concat (map write_item items) @ z)
            (int (length (concat (map write_item items) @ z))) block_size)
       = Some (True, concat (map item_values items), i)
     \<and> map_option array_rest i = Some z"
  using assms by (rule array_items_read)

lemma coded_roundtrip_witness:
  "\<exists>i. coded_session 4 array_stream (script [CmdTag, CmdVarint64, CmdSize, CmdString 1])
         (ArrayInputStream (concat (map write_item [ItemTag 8, Item64 300, ItemString ''a'']) @ ''z'') 6 2)
       = Some (True, [VNum 8, VNum 300, VNum 1, VBytes ''a''], i)
     \<and> map_option array_rest i = Some ''z''"
proof -
  have u: "UnsafeVarint32 8 = [CHR 0x08]" "UnsafeVarint64 300 = [CHR 0xAC, CHR 0x02]" "UnsafeWriteSize 1 = [CHR 0x01]"
    by (simp_all add: UnsafeVarint32_bytes UnsafeVarint64_bytes UnsafeWriteSize_bytes varint_bytes.simps [of 8]
        varint_bytes.simps [of 300] varint_bytes.simps [of 2] varint_bytes.simps [of "Suc 0"] char_of_def bit_Suc_0_iff)
  have n: "(4::nat) = Suc (Suc (Suc (Suc 0)))" by simp
  show ?thesis unfolding n
    using coded_roundtrip [of "[ItemTag 8, Item64 300, ItemString ''a'']" "''z''" 2]
    by (simp add: WriteTagToArray_def WriteVarint32ToArray_def WriteVarint64ToArray_def u INT_MAX_def)
qed

text \<open>The sizes that the code computes before it writes are the lengths of the encodings, with
  either variant of the size functions.\<close>

theorem item_size_written: "item_size bsr it = length (write_item it)"
  by (cases it) (simp_all add: VarintSize32_value VarintSize64_value TagSize_value le_length
      VarintSize32SignExtended_def WriteVarint32ToArray_def WriteVarint64ToArray_def WriteTagToArray_def
      WriteVarint32SignExtendedToArray_def UnsafeVarint32_bytes UnsafeWriteSize_bytes)

end
