(* ===== verification/Output_Memory.thy ===== *)
theory Output_Memory
  imports Cord_Output
begin

section \<open>Output streams as memory\<close>

text \<open>
  A client that keeps a buffer of an output stream for longer than one call, as the encoder
  does, relies on more than \<open>zero_copy_output\<close>: the region handed out by \<open>Next()\<close> is memory, which
  can be read back and written again in any order, and what is behind the part that is kept
  may hold anything when the rest is given back. The locale \<open>output_memory\<close> adds these laws, and
  the streams of the library satisfy them. \<open>get a n\<close> reads \<open>n\<close> bytes at address \<open>a\<close>.
\<close>

type_synonym 's get_op = "int \<Rightarrow> int \<Rightarrow> 's \<Rightarrow> string"

definition fetch :: "string \<Rightarrow> int \<Rightarrow> int \<Rightarrow> string" where
  "fetch m a n = take (nat n) (drop (nat a) m)"

lemma fetch_length [simp]: "0 \<le> a \<Longrightarrow> 0 \<le> n \<Longrightarrow> a + n \<le> int (length m) \<Longrightarrow> int (length (fetch m a n)) = n"
  by (simp add: fetch_def)

lemma fetch_overwrite:
  assumes "0 \<le> p" and "p + int (length m) \<le> int (length b)" and "0 \<le> k" and "0 \<le> j" and "k + j \<le> int (length m)"
  shows "fetch (overwrite b p m) (p + k) j = fetch m k j"
proof -
  obtain x y z where "p = int x" "k = int y" "j = int z" using assms by (metis nonneg_int_cases)
  moreover from this assms have "x + length m \<le> length b" "y + z \<le> length m" by linarith+
  ultimately show ?thesis by (simp add: fetch_def overwrite_def nat_int_add)
qed

lemma overwrite_overwrite:
  assumes "0 \<le> p" and "p + int (length m) \<le> int (length b)" and "0 \<le> k" and "k + int (length c) \<le> int (length m)"
  shows "overwrite (overwrite b p m) (p + k) c = overwrite b p (overwrite m k c)"
proof -
  obtain x y where "p = int x" "k = int y" using assms by (metis nonneg_int_cases)
  moreover from this assms have "x + length m \<le> length b" "y + length c \<le> length m" by linarith+
  ultimately show ?thesis by (simp add: overwrite_def nat_int_add add.commute add.left_commute)
qed

lemma overwrite_fetch:
  assumes "0 \<le> p" and "0 \<le> n" and "p + n \<le> int (length b)"
  shows "overwrite b p (fetch b p n) = b"
proof -
  obtain x y where "p = int x" "n = int y" using assms by (metis nonneg_int_cases)
  moreover from this assms have "x + y \<le> length b" by linarith
  moreover have "take x b @ take y (drop x b) @ drop (x + y) b = b"
    by (metis append_take_drop_id drop_drop add.commute)
  ultimately show ?thesis by (simp add: overwrite_def fetch_def)
qed

lemma take_overwrite_part:
  assumes "0 \<le> p" and "p + int (length m) \<le> int (length b)" and "k \<le> length m"
  shows "take (nat p + k) (overwrite b p m) = take (nat p) b @ take k m"
proof -
  obtain x where "p = int x" using assms by (metis nonneg_int_cases)
  moreover from this assms have "x + length m \<le> length b" by linarith
  ultimately show ?thesis using assms(3) by (simp add: overwrite_def)
qed

locale output_memory = zero_copy_output nxt put backup cnt inv written full
  for nxt :: "'s \<Rightarrow> ((int \<times> int) option \<times> 's) option"
    and put :: "int \<Rightarrow> string \<Rightarrow> 's \<Rightarrow> 's"
    and backup :: "int \<Rightarrow> 's \<Rightarrow> 's option"
    and cnt :: "'s \<Rightarrow> int"
    and inv :: "'s \<Rightarrow> bool"
    and written :: "'s \<Rightarrow> string"
    and full :: "int \<Rightarrow> bool" +
  fixes get :: "int \<Rightarrow> int \<Rightarrow> 's \<Rightarrow> string"
  assumes region: "inv s \<Longrightarrow> nxt s = Some (Some (p, n), s') \<Longrightarrow> \<exists>m. int (length m) = n \<and> put p m s' = s'"
    and put_put: "inv s \<Longrightarrow> nxt s = Some (Some (p, n), s') \<Longrightarrow> int (length m) = n \<Longrightarrow> 0 \<le> k
      \<Longrightarrow> k + int (length c) \<le> n \<Longrightarrow> put (p + k) c (put p m s') = put p (overwrite m k c) s'"
    and get_put: "inv s \<Longrightarrow> nxt s = Some (Some (p, n), s') \<Longrightarrow> int (length m) = n \<Longrightarrow> 0 \<le> k \<Longrightarrow> 0 \<le> j
      \<Longrightarrow> k + j \<le> n \<Longrightarrow> get (p + k) j (put p m s') = fetch m k j"
    and backup_put: "inv s \<Longrightarrow> nxt s = Some (Some (p, n), s') \<Longrightarrow> int (length m) = n \<Longrightarrow> int i \<le> n
      \<Longrightarrow> \<exists>s''. backup (n - int i) (put p m s') = Some s'' \<and> inv s'' \<and> written s'' = written s @ take i m"
    and backup_0: "inv s \<Longrightarrow> \<exists>s'. backup 0 s = Some s' \<and> inv s' \<and> written s' = written s"

subsection \<open>The streams of the library\<close>

definition arrayout_get :: "array_output get_op" where
  "arrayout_get a n s = fetch (ao_data s) a n"

definition string_get :: "string_output get_op" where
  "string_get a n s = fetch (so_target s) a n"

definition copyout_get :: "'c copying_output get_op" where
  "copyout_get a n s = fetch (the (cu_buffer s)) a n"

definition cordout_get :: "cord_output get_op" where
  "cordout_get a n s = fetch (cb_data (cx_buffer s)) a n"

interpretation array_memory: output_memory arrayout_Next arrayout_put arrayout_BackUp arrayout_ByteCount
    "arrayout_inv n" arrayout_written "\<lambda>k. k = n" arrayout_get for n
proof unfold_locales
  fix s p l s'
  assume s: "arrayout_inv n s" "arrayout_Next s = Some (Some (p, l), s')"
  note d = arrayout_Next_SomeD [OF s]
  have p: "0 \<le> p" "p + l \<le> int (length (ao_data s'))" using s(1) d by (auto simp: arrayout_inv_def)
  then have "arrayout_put p (fetch (ao_data s') p l) s' = s'" "int (length (fetch (ao_data s') p l)) = l"
    using d(2) by (simp_all add: arrayout_put_def overwrite_fetch)
  then show "\<exists>m. int (length m) = l \<and> arrayout_put p m s' = s'" by blast
  fix m :: string
  assume m: "int (length m) = l"
  show "k + int (length c) \<le> l \<Longrightarrow> 0 \<le> k
      \<Longrightarrow> arrayout_put (p + k) c (arrayout_put p m s') = arrayout_put p (overwrite m k c) s'" for k c
    using p m by (simp add: arrayout_put_def overwrite_overwrite)
  show "0 \<le> k \<Longrightarrow> 0 \<le> j \<Longrightarrow> k + j \<le> l \<Longrightarrow> arrayout_get (p + k) j (arrayout_put p m s') = fetch m k j" for k j
    using p m by (simp add: arrayout_put_def arrayout_get_def fetch_overwrite)
  fix k
  assume k: "int k \<le> l"
  let ?t = "(arrayout_put p m s')\<lparr>ao_position := p + int k, ao_last_returned_size := int k\<rparr>"
  have "arrayout_BackUp (l - int k) (arrayout_put p m s') = Some ?t"
    using k unfolding d(4) by (simp add: arrayout_BackUp_def arrayout_put_def)
  moreover have "arrayout_inv n ?t" using s(1) d p m k by (simp add: arrayout_inv_def arrayout_put_def)
  moreover have "nat (p + int k) = nat p + k" using p(1) by simp
  then have "arrayout_written ?t = arrayout_written s @ take k m"
    using take_overwrite_part [OF p(1), of m "ao_data s'" k] p m k d
    by (simp add: arrayout_written_def arrayout_put_def)
  ultimately show "\<exists>s''. arrayout_BackUp (l - int k) (arrayout_put p m s') = Some s'' \<and> arrayout_inv n s''
      \<and> arrayout_written s'' = arrayout_written s @ take k m" by blast
next
  fix s
  assume "arrayout_inv n s"
  then show "\<exists>s'. arrayout_BackUp 0 s = Some s' \<and> arrayout_inv n s' \<and> arrayout_written s' = arrayout_written s"
    by (auto simp: arrayout_BackUp_def arrayout_inv_def arrayout_written_def)
qed

interpretation string_memory: output_memory string_Next string_put string_BackUp string_ByteCount
    string_inv so_target "\<lambda>k. False" string_get
proof unfold_locales
  fix s p l s'
  assume s: "string_inv s" "string_Next s = Some (Some (p, l), s')"
  note d = string_Next_SomeD [OF s(2)]
  have p: "0 \<le> p" "p + l \<le> int (length (so_target s'))" using d by auto
  then have "string_put p (fetch (so_target s') p l) s' = s'" "int (length (fetch (so_target s') p l)) = l"
    using d(2) by (simp_all add: string_put_def overwrite_fetch)
  then show "\<exists>m. int (length m) = l \<and> string_put p m s' = s'" by blast
  fix m :: string
  assume m: "int (length m) = l"
  show "k + int (length c) \<le> l \<Longrightarrow> 0 \<le> k
      \<Longrightarrow> string_put (p + k) c (string_put p m s') = string_put p (overwrite m k c) s'" for k c
    using p m by (simp add: string_put_def overwrite_overwrite)
  show "0 \<le> k \<Longrightarrow> 0 \<le> j \<Longrightarrow> k + j \<le> l \<Longrightarrow> string_get (p + k) j (string_put p m s') = fetch m k j" for k j
    using p m by (simp add: string_put_def string_get_def fetch_overwrite)
  fix k
  assume k: "int k \<le> l"
  let ?t = "string_put p m s'"
  have len: "int (length (so_target ?t)) = p + l" using p m d(3) by (simp add: string_put_def)
  then have e: "int (length (so_target ?t)) - (l - int k) = int (length (so_target s) + k)" using d(1) by simp
  have "string_BackUp (l - int k) ?t = Some (resize_string (int (length (so_target s) + k)) ?t)"
    using k len d(1) unfolding string_BackUp_def e by simp
  moreover have "take (length (so_target s) + k) (so_target ?t) = so_target s @ take k m"
    using take_overwrite_part [OF p(1), of m "so_target s'" k] p m k d by (simp add: string_put_def)
  moreover have "length (so_target s) + k \<le> length (so_target ?t)" using len k d(1) by linarith
  ultimately show "\<exists>s''. string_BackUp (l - int k) (string_put p m s') = Some s'' \<and> string_inv s''
      \<and> so_target s'' = so_target s @ take k m"
    using s(1) d(5) by (simp add: resize_string_def nat_int_add string_inv_def) (simp add: string_put_def)
next
  fix s
  assume "string_inv s"
  then show "\<exists>s'. string_BackUp 0 s = Some s' \<and> string_inv s' \<and> so_target s' = so_target s"
    by (simp add: string_BackUp_def resize_string_def string_inv_def)
qed

sublocale copying_write \<subseteq> adaptor_memory: output_memory "copyout_Next wr" copyout_put "copyout_BackUp wr"
    copyout_ByteCount "copyout_inv cinv out" "copyout_written out" "\<lambda>k. False" copyout_get
proof unfold_locales
  fix s p l s'
  assume s: "copyout_inv cinv out s" "copyout_Next wr s = Some (Some (p, l), s')"
  obtain s1 b where o: "copyout_inv cinv out s1" "copyout_written out s1 = copyout_written out s"
      "cu_buffer s1 = Some b" "int (length b) = cu_buffer_size s1" "cu_buffer_used s1 < cu_buffer_size s1"
      "copyout_Next wr s = Some (Some (cu_buffer_used s1, cu_buffer_size s1 - cu_buffer_used s1),
                               s1\<lparr>cu_buffer_used := cu_buffer_size s1\<rparr>)"
    using copyout_Next_out [OF s(1)] by blast
  have n: "p = cu_buffer_used s1" "l = cu_buffer_size s1 - cu_buffer_used s1"
      "s' = s1\<lparr>cu_buffer_used := cu_buffer_size s1\<rparr>" using s(2) o(6) by simp_all
  have p: "0 \<le> p" "0 < l" "p + l \<le> int (length b)" "cu_buffer s' = Some b"
    using o n by (auto simp: copyout_inv_def)
  then have "copyout_put p (fetch b p l) s' = s'" "int (length (fetch b p l)) = l"
    by (simp_all add: copyout_put_def overwrite_fetch)
  then show "\<exists>m. int (length m) = l \<and> copyout_put p m s' = s'" by blast
  fix m :: string
  assume m: "int (length m) = l"
  show "k + int (length c) \<le> l \<Longrightarrow> 0 \<le> k
      \<Longrightarrow> copyout_put (p + k) c (copyout_put p m s') = copyout_put p (overwrite m k c) s'" for k c
    using p m by (simp add: copyout_put_def overwrite_overwrite)
  show "0 \<le> k \<Longrightarrow> 0 \<le> j \<Longrightarrow> k + j \<le> l \<Longrightarrow> copyout_get (p + k) j (copyout_put p m s') = fetch m k j" for k j
    using p m by (simp add: copyout_put_def copyout_get_def fetch_overwrite)
  fix k
  assume k: "int k \<le> l"
  let ?t = "copyout_put p m s'" and ?u = "(copyout_put p m s')\<lparr>cu_buffer_used := p + int k\<rparr>"
  have "nat (p + int k) = nat p + k" using p(1) by simp
  then have u: "copyout_inv cinv out ?u" "copyout_written out ?u = copyout_written out s @ take k m"
    using take_overwrite_part [OF p(1), of m b k] o n p m k
    by (auto simp: copyout_inv_def copyout_put_def copyout_written_def)
  show "\<exists>s''. copyout_BackUp wr (l - int k) (copyout_put p m s') = Some s'' \<and> copyout_inv cinv out s''
      \<and> copyout_written out s'' = copyout_written out s @ take k m"
  proof (cases "int k = l")
    case True
    then have "?u = ?t" using n by (simp add: copyout_put_def)
    with copyout_WriteBuffer_out [OF u(1)] u True show ?thesis
      by (auto simp: copyout_BackUp_def copyout_Flush_def)
  next
    case False
    then have "copyout_BackUp wr (l - int k) ?t = Some (?t\<lparr>cu_buffer_used := cu_buffer_used ?t - (l - int k)\<rparr>)"
      using k n p(1,2) by (simp add: copyout_BackUp_def copyout_put_def)
    moreover have "cu_buffer_used ?t - (l - int k) = p + int k" using n by (simp add: copyout_put_def)
    ultimately show ?thesis using u by simp
  qed
next
  fix s
  assume "copyout_inv cinv out s"
  from copyout_WriteBuffer_out [OF this]
  show "\<exists>s'. copyout_BackUp wr 0 s = Some s' \<and> copyout_inv cinv out s' \<and> copyout_written out s' = copyout_written out s"
    by (auto simp: copyout_BackUp_def copyout_Flush_def)
qed

interpretation cord_memory: output_memory "cordout_Next A" cordout_put "cordout_BackUp A"
    cordout_ByteCount "\<lambda>s. buffers_ok A \<and> cordout_inv s" cordout_written "\<lambda>k. False" cordout_get for A
proof unfold_locales
  fix s p l s'
  assume s: "buffers_ok A \<and> cordout_inv s" "cordout_Next A s = Some (Some (p, l), s')"
  obtain d where d: "0 < l" "p = int (length d)" "int (length (cb_data (cx_buffer s'))) = p + l"
    "take (length d) (cb_data (cx_buffer s')) = d" "cx_cord s' @ d = cordout_written s"
    "p + l \<le> cb_capacity (cx_buffer s')"
    "cx_state s' = kPartial \<and> p + l < cb_capacity (cx_buffer s') \<or> cx_state s' = kFull"
    using cordout_Next_SomeD [OF conjunct1 conjunct2, OF s(1,1,2)] by blast
  let ?b = "cb_data (cx_buffer s')"
  have p: "0 \<le> p" "p + l \<le> int (length ?b)" using d by simp_all
  then have "cordout_put p (fetch ?b p l) s' = s'" "int (length (fetch ?b p l)) = l"
    using d(1) by (simp_all add: cordout_put_def overwrite_fetch)
  then show "\<exists>m. int (length m) = l \<and> cordout_put p m s' = s'" by blast
  fix m :: string
  assume m: "int (length m) = l"
  show "k + int (length c) \<le> l \<Longrightarrow> 0 \<le> k
      \<Longrightarrow> cordout_put (p + k) c (cordout_put p m s') = cordout_put p (overwrite m k c) s'" for k c
    using p m by (simp add: cordout_put_def overwrite_overwrite)
  show "0 \<le> k \<Longrightarrow> 0 \<le> j \<Longrightarrow> k + j \<le> l \<Longrightarrow> cordout_get (p + k) j (cordout_put p m s') = fetch m k j" for k j
    using p m by (simp add: cordout_put_def cordout_get_def fetch_overwrite)
  fix k
  assume k: "int k \<le> l"
  let ?t = "cordout_put p m s'"
  have len: "int (length (cb_data (cx_buffer ?t))) = p + l" using p m d(3) by (simp add: cordout_put_def)
  have tk: "cx_cord s' @ take (nat p + k) (cb_data (cx_buffer ?t)) = cordout_written s @ take k m"
    using take_overwrite_part [OF p(1), of m ?b k] p m k d by (simp add: cordout_put_def flip: d(5))
  show "\<exists>s''. cordout_BackUp A (l - int k) ?t = Some s'' \<and> (buffers_ok A \<and> cordout_inv s'')
      \<and> cordout_written s'' = cordout_written s @ take k m"
  proof (cases "int k = l")
    case True
    then have "length (cb_data (cx_buffer ?t)) = nat p + k" using len p(1) by simp
    with tk have "cordout_written ?t = cordout_written s @ take k m"
      by (simp add: cordout_written_def) (simp add: cordout_put_def)
    moreover have "cordout_inv ?t" using len d(7) by (auto simp: cordout_inv_def cordout_put_def)
    ultimately show ?thesis using True s(1) by (simp add: cordout_BackUp_def)
  next
    case False
    let ?u = "?t\<lparr>cx_buffer := SetLength A (p + int k) (cx_buffer ?t), cx_state := kPartial\<rparr>"
    have "cordout_BackUp A (l - int k) ?t = Some ?u"
      using len False k p by (simp add: cordout_BackUp_def Let_def)
    moreover have data: "cb_data (SetLength A (p + int k) (cx_buffer ?t)) = take (nat p + k) (cb_data (cx_buffer ?t))"
      using len k p by (simp add: SetLength_def nat_add_distrib)
    then have "cordout_written ?u = cordout_written s @ take k m"
      using tk by (simp add: cordout_written_def) (simp add: cordout_put_def)
    moreover have "int (length (cb_data (SetLength A (p + int k) (cx_buffer ?t)))) < cb_capacity (cx_buffer ?t)"
      unfolding data using len d(6) k False p by (simp add: cordout_put_def)
    then have "cordout_inv ?u" by (simp add: cordout_inv_def SetLength_def)
    ultimately show ?thesis using s(1) by blast
  qed
next
  fix s
  show "buffers_ok A \<and> cordout_inv s \<Longrightarrow> \<exists>s'. cordout_BackUp A 0 s = Some s' \<and> (buffers_ok A \<and> cordout_inv s')
      \<and> cordout_written s' = cordout_written s"
    by (simp add: cordout_BackUp_def)
qed

end
