(* ===== verification/Eps_Output.thy ===== *)
theory Eps_Output
  imports Output_Memory Coded_Varint
begin

unbundle bit_operations_syntax

section \<open>io/coded_stream: EpsCopyOutputStream\<close>

text \<open>
  \<open>EpsCopyOutputStream\<close> (files \<open>io/coded_stream.h\<close> and \<open>io/coded_stream.cc\<close>) lets its client
  write up to \<open>kSlopBytes\<close> bytes past \<open>end_\<close> before the bounds are checked again. It writes
  directly into the buffer of the wrapped stream up to the last \<open>kSlopBytes\<close> of it, and into
  the patch buffer \<open>buffer_\<close> otherwise, which is copied to where \<open>buffer_end_\<close> points.

  A pointer is an index into the patch buffer or an address of the memory of the wrapped
  stream. The difference and the order of pointers into different objects are unspecified in
  C++, and an access outside the patch buffer is undefined: both are \<open>None\<close>. The client holds the
  write position, which every operation takes and returns. \<open>eo_null\<close> says that \<open>stream_\<close> is null;
  \<open>eo_stream\<close> then only stands for the memory of the array. \<open>ABSL_DCHECK\<close> is compiled out of
  release builds. The flag for deterministic serialization is only stored, and is left out.
\<close>

record 's output_stream =
  os_Next :: "'s onext_op"
  os_put :: "'s put_op"
  os_get :: "'s get_op"
  os_BackUp :: "'s obackup_op"
  os_ByteCount :: "'s \<Rightarrow> int"
  os_WriteAliasedRaw :: "string \<Rightarrow> 's \<Rightarrow> (bool \<times> 's) option"
  os_WriteCord :: "string list \<Rightarrow> 's \<Rightarrow> (bool \<times> 's) option"
  os_AllowsAliasing :: bool

datatype address = Patch int | Mem int

record 's eps_output =
  eo_end :: address
  eo_buffer_end :: "address option"
  eo_buffer :: string
  eo_stream :: 's
  eo_null :: bool
  eo_had_error :: bool
  eo_aliasing :: bool

definition kSlopBytes :: int where
  "kSlopBytes = 16"

subsection \<open>Pointers\<close>

fun ptr_diff :: "address \<Rightarrow> address \<Rightarrow> int option" where
  "ptr_diff (Patch i) (Patch j) = Some (i - j)"
| "ptr_diff (Mem a) (Mem b) = Some (a - b)"
| "ptr_diff _ _ = None"

fun ptr_add :: "address \<Rightarrow> int \<Rightarrow> address" where
  "ptr_add (Patch i) k = Patch (i + k)"
| "ptr_add (Mem a) k = Mem (a + k)"

text \<open>\<open>memcpy\<close> to and from a pointer; \<open>store\<close> returns the pointer behind the bytes.\<close>

fun store :: "'s output_stream \<Rightarrow> string \<Rightarrow> address \<Rightarrow> 's eps_output \<Rightarrow> (address \<times> 's eps_output) option" where
  "store I bs (Patch i) s =
     (if 0 \<le> i \<and> i + int (length bs) \<le> 2 * kSlopBytes
      then Some (Patch (i + int (length bs)), s\<lparr>eo_buffer := overwrite (eo_buffer s) i bs\<rparr>) else None)"
| "store I bs (Mem a) s = Some (Mem (a + int (length bs)), s\<lparr>eo_stream := os_put I a bs (eo_stream s)\<rparr>)"

fun load :: "'s output_stream \<Rightarrow> int \<Rightarrow> address \<Rightarrow> 's eps_output \<Rightarrow> string option" where
  "load I n (Patch i) s = (if 0 \<le> i \<and> 0 \<le> n \<and> i + n \<le> 2 * kSlopBytes then Some (fetch (eo_buffer s) i n) else None)"
| "load I n (Mem a) s = Some (os_get I a n (eo_stream s))"

subsection \<open>Buffers\<close>

text \<open>The three constructors, with the start position; the content of a new patch buffer is unspecified.\<close>

definition EpsCopyOutputStream :: "string \<Rightarrow> 's \<Rightarrow> address \<times> 's eps_output" where
  "EpsCopyOutputStream fill stream =
     (Patch 0, \<lparr>eo_end = Patch 0, eo_buffer_end = Some (Patch 0), eo_buffer = fill, eo_stream = stream,
                eo_null = False, eo_had_error = False, eo_aliasing = False\<rparr>)"

definition EpsCopyOutputStream_array :: "string \<Rightarrow> int \<Rightarrow> int \<Rightarrow> 's \<Rightarrow> 's eps_output" where
  "EpsCopyOutputStream_array fill data n memory =
     \<lparr>eo_end = Mem (data + n), eo_buffer_end = None, eo_buffer = fill, eo_stream = memory,
      eo_null = True, eo_had_error = False, eo_aliasing = False\<rparr>"

definition SetInitialBuffer :: "address \<Rightarrow> int \<Rightarrow> 's eps_output \<Rightarrow> address \<times> 's eps_output" where
  "SetInitialBuffer data n s =
     (if n > kSlopBytes
      then (data, s\<lparr>eo_end := ptr_add data (n - kSlopBytes), eo_buffer_end := None\<rparr>)
      else (Patch 0, s\<lparr>eo_end := Patch n, eo_buffer_end := Some data\<rparr>))"

definition EpsCopyOutputStream_buffer :: "string \<Rightarrow> int \<Rightarrow> int \<Rightarrow> 's \<Rightarrow> address \<times> 's eps_output" where
  "EpsCopyOutputStream_buffer fill data n stream =
     SetInitialBuffer (Mem data) n (snd (EpsCopyOutputStream fill stream))"

definition eps_Error :: "'s eps_output \<Rightarrow> address \<times> 's eps_output" where
  "eps_Error s = (Patch 0, s\<lparr>eo_had_error := True, eo_end := Patch kSlopBytes\<rparr>)"

text \<open>A virtual call through \<open>stream_\<close>.\<close>

definition deref :: "'s eps_output \<Rightarrow> 's option" where
  "deref s = (if eo_null s then None else Some (eo_stream s))"

definition EnableAliasing :: "'s output_stream \<Rightarrow> bool \<Rightarrow> 's eps_output \<Rightarrow> 's eps_output option" where
  "EnableAliasing I enabled s =
     (if enabled then do { _ \<leftarrow> deref s; Some (s\<lparr>eo_aliasing := os_AllowsAliasing I\<rparr>) }
      else Some (s\<lparr>eo_aliasing := False\<rparr>))"

definition GetSize :: "address \<Rightarrow> 's eps_output \<Rightarrow> int option" where
  "GetSize ptr s = map_option (\<lambda>d. d + kSlopBytes) (ptr_diff (eo_end s) ptr)"

definition BytesAvailable :: "address \<Rightarrow> 's eps_output \<Rightarrow> int option" where
  "BytesAvailable ptr s = map_option (\<lambda>d. d + kSlopBytes) (ptr_diff (eo_end s) ptr)"

definition eps_ByteCount :: "'s output_stream \<Rightarrow> address \<Rightarrow> 's eps_output \<Rightarrow> int option" where
  "eps_ByteCount I ptr s = do {
     d \<leftarrow> ptr_diff (eo_end s) ptr;
     let delta = d + (if eo_buffer_end s \<noteq> None then 0 else kSlopBytes);
     st \<leftarrow> deref s;
     Some (os_ByteCount I st - delta) }"

text \<open>The stream is asked until it gives a buffer that is not empty.\<close>

partial_function (option) eps_next_buffer :: "'s onext_op \<Rightarrow> 's onext_op" where
  "eps_next_buffer nxt st = do {
     (r, st) \<leftarrow> nxt st;
     case r of
       None \<Rightarrow> Some (None, st)
     | Some (data, n) \<Rightarrow> if n = 0 then eps_next_buffer nxt st else Some (Some (data, n), st) }"

definition eps_Next :: "'s output_stream \<Rightarrow> 's eps_output \<Rightarrow> (address \<times> 's eps_output) option" where
  "eps_Next I s =
     (if eo_null s then Some (eps_Error s)
      else case eo_buffer_end s of
        Some buffer_end \<Rightarrow> do {
          n \<leftarrow> ptr_diff (eo_end s) (Patch 0);
          bs \<leftarrow> load I n (Patch 0) s;
          (_, s) \<leftarrow> store I bs buffer_end s;
          (r, st) \<leftarrow> eps_next_buffer (os_Next I) (eo_stream s);
          let s = s\<lparr>eo_stream := st\<rparr>;
          case r of
            None \<Rightarrow> Some (eps_Error s)
          | Some (data, n) \<Rightarrow>
              if n > kSlopBytes
              then do {
                bs \<leftarrow> load I kSlopBytes (eo_end s) s;
                (_, s) \<leftarrow> store I bs (Mem data) s;
                Some (Mem data, s\<lparr>eo_end := Mem (data + n - kSlopBytes), eo_buffer_end := None\<rparr>) }
              else do {
                bs \<leftarrow> load I kSlopBytes (eo_end s) s;
                (_, s) \<leftarrow> store I bs (Patch 0) s;
                Some (Patch 0, s\<lparr>eo_buffer_end := Some (Mem data), eo_end := Patch n\<rparr>) } }
      | None \<Rightarrow> do {
          bs \<leftarrow> load I kSlopBytes (eo_end s) s;
          (_, s) \<leftarrow> store I bs (Patch 0) s;
          Some (Patch 0, s\<lparr>eo_buffer_end := Some (eo_end s), eo_end := Patch kSlopBytes\<rparr>) })"

partial_function (option) EnsureSpaceFallback ::
  "'s output_stream \<Rightarrow> address \<Rightarrow> 's eps_output \<Rightarrow> (address \<times> 's eps_output) option" where
  "EnsureSpaceFallback I ptr s =
     (if eo_had_error s then Some (Patch 0, s)
      else do {
        overrun \<leftarrow> ptr_diff ptr (eo_end s);
        (p, s) \<leftarrow> eps_Next I s;
        let ptr = ptr_add p overrun;
        d \<leftarrow> ptr_diff ptr (eo_end s);
        if d \<ge> 0 then EnsureSpaceFallback I ptr s else Some (ptr, s) })"

definition EnsureSpace :: "'s output_stream \<Rightarrow> address \<Rightarrow> 's eps_output \<Rightarrow> (address \<times> 's eps_output) option" where
  "EnsureSpace I ptr s = do {
     d \<leftarrow> ptr_diff ptr (eo_end s);
     if d \<ge> 0 then EnsureSpaceFallback I ptr s else Some (ptr, s) }"

text \<open>The loop of \<open>Flush\<close>; the flag is false when it returns from the function.\<close>

partial_function (option) eps_Flush_loop ::
  "'s output_stream \<Rightarrow> address \<Rightarrow> 's eps_output \<Rightarrow> (bool \<times> address \<times> 's eps_output) option" where
  "eps_Flush_loop I ptr s =
     (if eo_buffer_end s = None then Some (True, ptr, s)
      else do {
        overrun \<leftarrow> ptr_diff ptr (eo_end s);
        if \<not> overrun > 0 then Some (True, ptr, s)
        else do {
          (p, s) \<leftarrow> eps_Next I s;
          let ptr = ptr_add p overrun;
          if eo_had_error s then Some (False, ptr, s) else eps_Flush_loop I ptr s } })"

text \<open>The size of the rest of the buffer, which then starts at \<open>buffer_end_\<close>.\<close>

definition eps_Flush :: "'s output_stream \<Rightarrow> address \<Rightarrow> 's eps_output \<Rightarrow> (int \<times> 's eps_output) option" where
  "eps_Flush I ptr s = do {
     (b, ptr, s) \<leftarrow> eps_Flush_loop I ptr s;
     if \<not> b then Some (0, s)
     else case eo_buffer_end s of
       Some buffer_end \<Rightarrow> do {
         n \<leftarrow> ptr_diff ptr (Patch 0);
         bs \<leftarrow> load I n (Patch 0) s;
         (_, s) \<leftarrow> store I bs buffer_end s;
         r \<leftarrow> ptr_diff (eo_end s) ptr;
         Some (r, s\<lparr>eo_buffer_end := Some (ptr_add buffer_end n)\<rparr>) }
     | None \<Rightarrow> do {
         d \<leftarrow> ptr_diff (eo_end s) ptr;
         Some (d + kSlopBytes, s\<lparr>eo_buffer_end := Some ptr\<rparr>) } }"

definition eps_Trim :: "'s output_stream \<Rightarrow> address \<Rightarrow> 's eps_output \<Rightarrow> (address \<times> 's eps_output) option" where
  "eps_Trim I ptr s =
     (if eo_had_error s then Some (ptr, s)
      else do {
        (n, s) \<leftarrow> eps_Flush I ptr s;
        st \<leftarrow> deref s;
        st \<leftarrow> os_BackUp I n st;
        Some (Patch 0, s\<lparr>eo_stream := st, eo_buffer_end := Some (Patch 0), eo_end := Patch 0\<rparr>) })"

definition FlushAndResetBuffer ::
  "'s output_stream \<Rightarrow> address \<Rightarrow> 's eps_output \<Rightarrow> (address \<times> 's eps_output) option" where
  "FlushAndResetBuffer I ptr s =
     (if eo_had_error s then Some (Patch 0, s)
      else do {
        (n, s) \<leftarrow> eps_Flush I ptr s;
        if eo_had_error s then Some (Patch 0, s)
        else do { data \<leftarrow> eo_buffer_end s; Some (SetInitialBuffer data n s) } })"

text \<open>The loops of \<open>Skip\<close> and \<open>GetDirectBufferPointer\<close>: the buffer to go on with, or an error.\<close>

partial_function (option) eps_Skip_loop ::
  "'s output_stream \<Rightarrow> int \<Rightarrow> address \<Rightarrow> int \<Rightarrow> 's eps_output
    \<Rightarrow> ((int \<times> address \<times> int) option \<times> 's eps_output) option" where
  "eps_Skip_loop I count data n s =
     (if count > n
      then do {
        st \<leftarrow> deref s;
        (r, st) \<leftarrow> os_Next I st;
        case r of
          None \<Rightarrow> Some (None, s\<lparr>eo_stream := st\<rparr>)
        | Some (data, m) \<Rightarrow> eps_Skip_loop I (count - n) (Mem data) m (s\<lparr>eo_stream := st\<rparr>) }
      else Some (Some (count, data, n), s))"

definition eps_Skip ::
  "'s output_stream \<Rightarrow> int \<Rightarrow> address \<Rightarrow> 's eps_output \<Rightarrow> (bool \<times> address \<times> 's eps_output) option" where
  "eps_Skip I count pp s =
     (if count < 0 then Some (False, pp, s)
      else if eo_had_error s then Some (False, Patch 0, s)
      else do {
        (n, s) \<leftarrow> eps_Flush I pp s;
        if eo_had_error s then Some (False, Patch 0, s)
        else do {
          data \<leftarrow> eo_buffer_end s;
          (r, s) \<leftarrow> eps_Skip_loop I count data n s;
          case r of
            None \<Rightarrow> (let (pp, s) = eps_Error s in Some (False, pp, s))
          | Some (count, data, n) \<Rightarrow>
              (let (pp, s) = SetInitialBuffer (ptr_add data count) (n - count) s in Some (True, pp, s)) } })"

text \<open>The buffer handed out: its address and size.\<close>

definition eps_GetDirectBufferPointer ::
  "'s output_stream \<Rightarrow> address \<Rightarrow> 's eps_output
    \<Rightarrow> ((address \<times> int) option \<times> address \<times> 's eps_output) option" where
  "eps_GetDirectBufferPointer I pp s =
     (if eo_had_error s then Some (None, Patch 0, s)
      else do {
        (n, s) \<leftarrow> eps_Flush I pp s;
        if eo_had_error s then Some (None, Patch 0, s)
        else do {
          data \<leftarrow> eo_buffer_end s;
          if n \<noteq> 0
          then (let (pp, s) = SetInitialBuffer data n s in Some (Some (data, n), pp, s))
          else do {
            st \<leftarrow> deref s;
            (r, st) \<leftarrow> eps_next_buffer (os_Next I) st;
            let s = s\<lparr>eo_stream := st\<rparr>;
            case r of
              None \<Rightarrow> (let (pp, s) = eps_Error s in Some (None, pp, s))
            | Some (data, n) \<Rightarrow>
                (let (pp, s) = SetInitialBuffer (Mem data) n s in Some (Some (Mem data, n), pp, s)) } } })"

definition GetDirectBufferForNBytesAndAdvance ::
  "'s output_stream \<Rightarrow> int \<Rightarrow> address \<Rightarrow> 's eps_output \<Rightarrow> (address option \<times> address \<times> 's eps_output) option" where
  "GetDirectBufferForNBytesAndAdvance I n pp s =
     (if eo_had_error s then Some (None, Patch 0, s)
      else do {
        (r, s) \<leftarrow> eps_Flush I pp s;
        if eo_had_error s then Some (None, Patch 0, s)
        else do {
          res \<leftarrow> eo_buffer_end s;
          if r \<ge> n
          then (let (pp, s) = SetInitialBuffer (ptr_add res n) (r - n) s in Some (Some res, pp, s))
          else (let (pp, s) = SetInitialBuffer res r s in Some (None, pp, s)) } })"

subsection \<open>Writing\<close>

partial_function (option) WriteRaw_loop ::
  "'s output_stream \<Rightarrow> string \<Rightarrow> int \<Rightarrow> address \<Rightarrow> 's eps_output \<Rightarrow> (address \<times> 's eps_output) option" where
  "WriteRaw_loop I data n ptr s =
     (if n < int (length data)
      then do {
        (ptr, s) \<leftarrow> store I (take (nat n) data) ptr s;
        (ptr, s) \<leftarrow> EnsureSpaceFallback I ptr s;
        m \<leftarrow> GetSize ptr s;
        WriteRaw_loop I (drop (nat n) data) m ptr s }
      else store I data ptr s)"

definition WriteRawFallback ::
  "'s output_stream \<Rightarrow> string \<Rightarrow> address \<Rightarrow> 's eps_output \<Rightarrow> (address \<times> 's eps_output) option" where
  "WriteRawFallback I data ptr s = do { n \<leftarrow> GetSize ptr s; WriteRaw_loop I data n ptr s }"

definition eps_WriteRaw ::
  "'s output_stream \<Rightarrow> string \<Rightarrow> address \<Rightarrow> 's eps_output \<Rightarrow> (address \<times> 's eps_output) option" where
  "eps_WriteRaw I data ptr s = do {
     d \<leftarrow> ptr_diff (eo_end s) ptr;
     if d < int (length data) then WriteRawFallback I data ptr s else store I data ptr s }"

definition eps_WriteAliasedRaw ::
  "'s output_stream \<Rightarrow> string \<Rightarrow> address \<Rightarrow> 's eps_output \<Rightarrow> (address \<times> 's eps_output) option" where
  "eps_WriteAliasedRaw I data ptr s = do {
     n \<leftarrow> GetSize ptr s;
     if int (length data) < n then eps_WriteRaw I data ptr s
     else do {
       (ptr, s) \<leftarrow> eps_Trim I ptr s;
       st \<leftarrow> deref s;
       (b, st) \<leftarrow> os_WriteAliasedRaw I data st;
       let s = s\<lparr>eo_stream := st\<rparr>;
       if b then Some (ptr, s) else Some (eps_Error s) } }"

definition eps_WriteRawMaybeAliased ::
  "'s output_stream \<Rightarrow> string \<Rightarrow> address \<Rightarrow> 's eps_output \<Rightarrow> (address \<times> 's eps_output) option" where
  "eps_WriteRawMaybeAliased I data ptr s =
     (if eo_aliasing s then eps_WriteAliasedRaw I data ptr s else eps_WriteRaw I data ptr s)"

text \<open>A cord is the list of its chunks.\<close>

fun CopyCordToArray ::
  "'s output_stream \<Rightarrow> string list \<Rightarrow> address \<Rightarrow> 's eps_output \<Rightarrow> (address \<times> 's eps_output) option" where
  "CopyCordToArray I [] target s = Some (target, s)"
| "CopyCordToArray I (sv # cord) target s = do {
     (target, s) \<leftarrow> store I sv target s; CopyCordToArray I cord target s }"

definition eps_WriteCord ::
  "'s output_stream \<Rightarrow> string list \<Rightarrow> address \<Rightarrow> 's eps_output \<Rightarrow> (address \<times> 's eps_output) option" where
  "eps_WriteCord I cord ptr s = do {
     n \<leftarrow> GetSize ptr s;
     let size = int (length (concat cord));
     if eo_null s
     then if size \<le> n then CopyCordToArray I cord ptr s else Some (eps_Error s)
     else if size \<le> n \<and> size < kMaxCordBytesToCopy then CopyCordToArray I cord ptr s
     else do {
       (ptr, s) \<leftarrow> eps_Trim I ptr s;
       (b, st) \<leftarrow> os_WriteCord I cord (eo_stream s);
       let s = s\<lparr>eo_stream := st\<rparr>;
       if b then Some (ptr, s) else Some (eps_Error s) } }"

end
