(* ===== verification/Coded_Output.thy ===== *)
theory Coded_Output
  imports Eps_Output
begin

unbundle bit_operations_syntax

section \<open>io/coded_stream: fields on EpsCopyOutputStream, and CodedOutputStream\<close>

text \<open>
  The functions of \<open>EpsCopyOutputStream\<close> that write tags, length-delimited and packed fields, and
  the class \<open>CodedOutputStream\<close>, which holds the write position \<open>cur_\<close> itself. The \<open>int\<close> that is
  returned by \<open>ByteCount\<close> is the low 32 bits of the difference.
\<close>

subsection \<open>Fields\<close>

definition eps_WriteTag ::
  "'s output_stream \<Rightarrow> 32 word \<Rightarrow> 32 word \<Rightarrow> address \<Rightarrow> 's eps_output \<Rightarrow> (address \<times> 's eps_output) option" where
  "eps_WriteTag I num wt ptr s = store I (UnsafeVarint32 (push_bit 3 num OR wt)) ptr s"

definition WriteLengthDelim ::
  "'s output_stream \<Rightarrow> 32 word \<Rightarrow> 32 word \<Rightarrow> address \<Rightarrow> 's eps_output \<Rightarrow> (address \<times> 's eps_output) option" where
  "WriteLengthDelim I num n ptr s = do {
     (ptr, s) \<leftarrow> eps_WriteTag I num 2 ptr s;
     store I (UnsafeWriteSize n) ptr s }"

text \<open>
  The \<open>uint32_t\<close> length is passed on as an \<open>int\<close>: what happens to a string of more than \<open>INT_MAX\<close>
  bytes is left open (\<open>None\<close>).
\<close>

definition WriteStringOutline ::
  "'s output_stream \<Rightarrow> 32 word \<Rightarrow> string \<Rightarrow> address \<Rightarrow> 's eps_output \<Rightarrow> (address \<times> 's eps_output) option" where
  "WriteStringOutline I num str ptr s = do {
     (ptr, s) \<leftarrow> EnsureSpace I ptr s;
     (ptr, s) \<leftarrow> WriteLengthDelim I num (of_nat (length str)) ptr s;
     if int (length str) \<le> INT_MAX then eps_WriteRaw I str ptr s else None }"

definition WriteStringMaybeAliasedOutline ::
  "'s output_stream \<Rightarrow> 32 word \<Rightarrow> string \<Rightarrow> address \<Rightarrow> 's eps_output \<Rightarrow> (address \<times> 's eps_output) option" where
  "WriteStringMaybeAliasedOutline I num str ptr s = do {
     (ptr, s) \<leftarrow> EnsureSpace I ptr s;
     (ptr, s) \<leftarrow> WriteLengthDelim I num (of_nat (length str)) ptr s;
     if int (length str) \<le> INT_MAX then eps_WriteRawMaybeAliased I str ptr s else None }"

definition WriteStringField ::
  "'s output_stream \<Rightarrow> 32 word \<Rightarrow> string \<Rightarrow> address \<Rightarrow> 's eps_output \<Rightarrow> (address \<times> 's eps_output) option" where
  "WriteStringField I num str ptr s = do {
     d \<leftarrow> ptr_diff (eo_end s) ptr;
     if int (length str) \<ge> 128 \<or> d + 16 - int (TagSize (push_bit 3 num)) - 1 < int (length str)
     then WriteStringOutline I num str ptr s
     else do {
       (ptr, s) \<leftarrow> store I (UnsafeVarint32 (push_bit 3 num OR 2)) ptr s;
       (ptr, s) \<leftarrow> store I [char_of (length str)] ptr s;
       store I str ptr s } }"

definition WriteStringMaybeAliased ::
  "'s output_stream \<Rightarrow> 32 word \<Rightarrow> string \<Rightarrow> address \<Rightarrow> 's eps_output \<Rightarrow> (address \<times> 's eps_output) option" where
  "WriteStringMaybeAliased I num str ptr s = do {
     d \<leftarrow> ptr_diff (eo_end s) ptr;
     if int (length str) \<ge> 128 \<or> d + 16 - int (TagSize (push_bit 3 num)) - 1 < int (length str)
     then WriteStringMaybeAliasedOutline I num str ptr s
     else do {
       (ptr, s) \<leftarrow> store I (UnsafeVarint32 (push_bit 3 num OR 2)) ptr s;
       (ptr, s) \<leftarrow> store I [char_of (length str)] ptr s;
       store I str ptr s } }"

definition WriteCordOutline ::
  "'s output_stream \<Rightarrow> string list \<Rightarrow> address \<Rightarrow> 's eps_output \<Rightarrow> (address \<times> 's eps_output) option" where
  "WriteCordOutline I c ptr s = do {
     (ptr, s) \<leftarrow> store I (UnsafeWriteSize (of_nat (length (concat c)))) ptr s;
     eps_WriteCord I c ptr s }"

definition WriteCordField ::
  "'s output_stream \<Rightarrow> 32 word \<Rightarrow> string list \<Rightarrow> address \<Rightarrow> 's eps_output \<Rightarrow> (address \<times> 's eps_output) option" where
  "WriteCordField I num c ptr s = do {
     (ptr, s) \<leftarrow> EnsureSpace I ptr s;
     (ptr, s) \<leftarrow> eps_WriteTag I num 2 ptr s;
     WriteCordOutline I c ptr s }"

text \<open>
  Packed fields. \<open>encode\<close> is the conversion followed by \<open>UnsafeVarint\<close> at its type. The loop
  tests its condition at the end: an empty field reads behind the array.
\<close>

fun packed_loop ::
  "'s output_stream \<Rightarrow> ('v \<Rightarrow> string) \<Rightarrow> 'v list \<Rightarrow> address \<Rightarrow> 's eps_output \<Rightarrow> (address \<times> 's eps_output) option" where
  "packed_loop I encode [] ptr s = None"
| "packed_loop I encode (v # vs) ptr s = do {
     (ptr, s) \<leftarrow> EnsureSpace I ptr s;
     (ptr, s) \<leftarrow> store I (encode v) ptr s;
     if vs = [] then Some (ptr, s) else packed_loop I encode vs ptr s }"

definition WriteVarintPacked ::
  "'s output_stream \<Rightarrow> 32 word \<Rightarrow> ('v \<Rightarrow> string) \<Rightarrow> 'v list \<Rightarrow> 32 word \<Rightarrow> address \<Rightarrow> 's eps_output
    \<Rightarrow> (address \<times> 's eps_output) option" where
  "WriteVarintPacked I num encode r n ptr s = do {
     (ptr, s) \<leftarrow> EnsureSpace I ptr s;
     (ptr, s) \<leftarrow> WriteLengthDelim I num n ptr s;
     packed_loop I encode r ptr s }"

definition WriteInt32Packed ::
  "'s output_stream \<Rightarrow> 32 word \<Rightarrow> 32 word list \<Rightarrow> 32 word \<Rightarrow> address \<Rightarrow> 's eps_output
    \<Rightarrow> (address \<times> 's eps_output) option" where
  "WriteInt32Packed I num r n ptr s = WriteVarintPacked I num (\<lambda>v. UnsafeVarint64 (scast v)) r n ptr s"

definition WriteUInt32Packed ::
  "'s output_stream \<Rightarrow> 32 word \<Rightarrow> 32 word list \<Rightarrow> 32 word \<Rightarrow> address \<Rightarrow> 's eps_output
    \<Rightarrow> (address \<times> 's eps_output) option" where
  "WriteUInt32Packed I num r n ptr s = WriteVarintPacked I num UnsafeVarint32 r n ptr s"

definition WriteSInt32Packed ::
  "'s output_stream \<Rightarrow> 32 word \<Rightarrow> 32 word list \<Rightarrow> 32 word \<Rightarrow> address \<Rightarrow> 's eps_output
    \<Rightarrow> (address \<times> 's eps_output) option" where
  "WriteSInt32Packed I num r n ptr s = WriteVarintPacked I num (\<lambda>v. UnsafeVarint32 (ZigZagEncode32 v)) r n ptr s"

definition WriteInt64Packed ::
  "'s output_stream \<Rightarrow> 32 word \<Rightarrow> 64 word list \<Rightarrow> 32 word \<Rightarrow> address \<Rightarrow> 's eps_output
    \<Rightarrow> (address \<times> 's eps_output) option" where
  "WriteInt64Packed I num r n ptr s = WriteVarintPacked I num UnsafeVarint64 r n ptr s"

definition WriteUInt64Packed ::
  "'s output_stream \<Rightarrow> 32 word \<Rightarrow> 64 word list \<Rightarrow> 32 word \<Rightarrow> address \<Rightarrow> 's eps_output
    \<Rightarrow> (address \<times> 's eps_output) option" where
  "WriteUInt64Packed I num r n ptr s = WriteVarintPacked I num UnsafeVarint64 r n ptr s"

definition WriteSInt64Packed ::
  "'s output_stream \<Rightarrow> 32 word \<Rightarrow> 64 word list \<Rightarrow> 32 word \<Rightarrow> address \<Rightarrow> 's eps_output
    \<Rightarrow> (address \<times> 's eps_output) option" where
  "WriteSInt64Packed I num r n ptr s = WriteVarintPacked I num (\<lambda>v. UnsafeVarint64 (ZigZagEncode64 v)) r n ptr s"

definition WriteEnumPacked ::
  "'s output_stream \<Rightarrow> 32 word \<Rightarrow> 32 word list \<Rightarrow> 32 word \<Rightarrow> address \<Rightarrow> 's eps_output
    \<Rightarrow> (address \<times> 's eps_output) option" where
  "WriteEnumPacked I num r n ptr s = WriteVarintPacked I num (\<lambda>v. UnsafeVarint64 (scast v)) r n ptr s"

text \<open>
  Arrays of fixed-width numbers: on a little-endian host their memory is the encoding; otherwise
  the numbers are written one by one, with one check of the bounds for each 16 bytes.
\<close>

fun store_each ::
  "'s output_stream \<Rightarrow> ('v \<Rightarrow> string) \<Rightarrow> 'v list \<Rightarrow> address \<Rightarrow> 's eps_output \<Rightarrow> (address \<times> 's eps_output) option" where
  "store_each I encode [] ptr s = Some (ptr, s)"
| "store_each I encode (x # xs) ptr s = do { (ptr, s) \<leftarrow> store I (encode x) ptr s; store_each I encode xs ptr s }"

fun fixed_tail_loop ::
  "'s output_stream \<Rightarrow> ('v \<Rightarrow> string) \<Rightarrow> 'v list \<Rightarrow> address \<Rightarrow> 's eps_output \<Rightarrow> (address \<times> 's eps_output) option" where
  "fixed_tail_loop I encode [] ptr s = Some (ptr, s)"
| "fixed_tail_loop I encode (x # xs) ptr s = do {
     (ptr, s) \<leftarrow> EnsureSpace I ptr s;
     (ptr, s) \<leftarrow> store I (encode x) ptr s;
     fixed_tail_loop I encode xs ptr s }"

function WriteRawLittleEndian32 ::
  "'s output_stream \<Rightarrow> 32 word list \<Rightarrow> address \<Rightarrow> 's eps_output \<Rightarrow> (address \<times> 's eps_output) option" where
  "WriteRawLittleEndian32 I data ptr s =
     (if length data \<ge> 4
      then do {
        (ptr, s) \<leftarrow> EnsureSpace I ptr s;
        (ptr, s) \<leftarrow> store_each I WriteLittleEndian32ToArray (take 4 data) ptr s;
        WriteRawLittleEndian32 I (drop 4 data) ptr s }
      else fixed_tail_loop I WriteLittleEndian32ToArray data ptr s)"
  by pat_completeness auto
termination by (relation "measure (\<lambda>(_, data, _, _). length data)") auto

function WriteRawLittleEndian64 ::
  "'s output_stream \<Rightarrow> 64 word list \<Rightarrow> address \<Rightarrow> 's eps_output \<Rightarrow> (address \<times> 's eps_output) option" where
  "WriteRawLittleEndian64 I data ptr s =
     (if length data \<ge> 2
      then do {
        (ptr, s) \<leftarrow> EnsureSpace I ptr s;
        (ptr, s) \<leftarrow> store_each I WriteLittleEndian64ToArray (take 2 data) ptr s;
        WriteRawLittleEndian64 I (drop 2 data) ptr s }
      else fixed_tail_loop I WriteLittleEndian64ToArray data ptr s)"
  by pat_completeness auto
termination by (relation "measure (\<lambda>(_, data, _, _). length data)") auto

declare WriteRawLittleEndian32.simps [simp del]
declare WriteRawLittleEndian64.simps [simp del]

definition WriteRawLittleEndian_4 ::
  "bool \<Rightarrow> 's output_stream \<Rightarrow> 32 word list \<Rightarrow> address \<Rightarrow> 's eps_output \<Rightarrow> (address \<times> 's eps_output) option" where
  "WriteRawLittleEndian_4 little I data ptr s =
     (if little then eps_WriteRaw I (concat (map WriteLittleEndian32ToArray data)) ptr s
      else WriteRawLittleEndian32 I data ptr s)"

definition WriteRawLittleEndian_8 ::
  "bool \<Rightarrow> 's output_stream \<Rightarrow> 64 word list \<Rightarrow> address \<Rightarrow> 's eps_output \<Rightarrow> (address \<times> 's eps_output) option" where
  "WriteRawLittleEndian_8 little I data ptr s =
     (if little then eps_WriteRaw I (concat (map WriteLittleEndian64ToArray data)) ptr s
      else WriteRawLittleEndian64 I data ptr s)"

definition WriteFixedPacked_4 ::
  "bool \<Rightarrow> 's output_stream \<Rightarrow> 32 word \<Rightarrow> 32 word list \<Rightarrow> address \<Rightarrow> 's eps_output
    \<Rightarrow> (address \<times> 's eps_output) option" where
  "WriteFixedPacked_4 little I num r ptr s = do {
     (ptr, s) \<leftarrow> EnsureSpace I ptr s;
     (ptr, s) \<leftarrow> WriteLengthDelim I num (of_nat (length r * 4)) ptr s;
     WriteRawLittleEndian_4 little I r ptr s }"

definition WriteFixedPacked_8 ::
  "bool \<Rightarrow> 's output_stream \<Rightarrow> 32 word \<Rightarrow> 64 word list \<Rightarrow> address \<Rightarrow> 's eps_output
    \<Rightarrow> (address \<times> 's eps_output) option" where
  "WriteFixedPacked_8 little I num r ptr s = do {
     (ptr, s) \<leftarrow> EnsureSpace I ptr s;
     (ptr, s) \<leftarrow> WriteLengthDelim I num (of_nat (length r * 8)) ptr s;
     WriteRawLittleEndian_8 little I r ptr s }"

subsection \<open>CodedOutputStream\<close>

record 's coded_output =
  cw_impl :: "'s eps_output"
  cw_cur :: address
  cw_start_count :: int

definition InitEagerly :: "'s output_stream \<Rightarrow> 's coded_output \<Rightarrow> 's coded_output option" where
  "InitEagerly I c = do {
     (r, st) \<leftarrow> os_Next I (eo_stream (cw_impl c));
     let s = (cw_impl c)\<lparr>eo_stream := st\<rparr>;
     Some (case r of
       Some (data, n) \<Rightarrow>
         if n > 0 then let (cur, s) = SetInitialBuffer (Mem data) n s in c\<lparr>cw_impl := s, cw_cur := cur\<rparr>
         else c\<lparr>cw_impl := s\<rparr>
     | None \<Rightarrow> c\<lparr>cw_impl := s\<rparr>) }"

definition CodedOutputStream :: "'s output_stream \<Rightarrow> string \<Rightarrow> bool \<Rightarrow> 's \<Rightarrow> 's coded_output option" where
  "CodedOutputStream I fill eager_init stream =
     (let (cur, s) = EpsCopyOutputStream fill stream;
          c = \<lparr>cw_impl = s, cw_cur = cur, cw_start_count = os_ByteCount I stream\<rparr>
      in if eager_init then InitEagerly I c else Some c)"

text \<open>A member function of \<open>EpsCopyOutputStream\<close> applied to the current position.\<close>

definition on_impl ::
  "(address \<Rightarrow> 's eps_output \<Rightarrow> (address \<times> 's eps_output) option) \<Rightarrow> 's coded_output \<Rightarrow> 's coded_output option" where
  "on_impl f c = do { (cur, s) \<leftarrow> f (cw_cur c) (cw_impl c); Some (c\<lparr>cw_cur := cur, cw_impl := s\<rparr>) }"

definition coded_Trim :: "'s output_stream \<Rightarrow> 's coded_output \<Rightarrow> 's coded_output option" where
  "coded_Trim I c = on_impl (eps_Trim I) c"

definition CodedOutputStream_destroy :: "'s output_stream \<Rightarrow> 's coded_output \<Rightarrow> 's option" where
  "CodedOutputStream_destroy I c = do { c \<leftarrow> coded_Trim I c; Some (eo_stream (cw_impl c)) }"

definition coded_HadError :: "'s output_stream \<Rightarrow> 's coded_output \<Rightarrow> (bool \<times> 's coded_output) option" where
  "coded_HadError I c = do { c \<leftarrow> on_impl (FlushAndResetBuffer I) c; Some (eo_had_error (cw_impl c), c) }"

definition coded_out_Skip :: "'s output_stream \<Rightarrow> int \<Rightarrow> 's coded_output \<Rightarrow> (bool \<times> 's coded_output) option" where
  "coded_out_Skip I count c = do {
     (b, cur, s) \<leftarrow> eps_Skip I count (cw_cur c) (cw_impl c);
     Some (b, c\<lparr>cw_cur := cur, cw_impl := s\<rparr>) }"

definition coded_out_GetDirectBufferPointer ::
  "'s output_stream \<Rightarrow> 's coded_output \<Rightarrow> ((address \<times> int) option \<times> 's coded_output) option" where
  "coded_out_GetDirectBufferPointer I c = do {
     (r, cur, s) \<leftarrow> eps_GetDirectBufferPointer I (cw_cur c) (cw_impl c);
     Some (r, c\<lparr>cw_cur := cur, cw_impl := s\<rparr>) }"

definition coded_GetDirectBufferForNBytesAndAdvance ::
  "'s output_stream \<Rightarrow> int \<Rightarrow> 's coded_output \<Rightarrow> (address option \<times> 's coded_output) option" where
  "coded_GetDirectBufferForNBytesAndAdvance I n c = do {
     (r, cur, s) \<leftarrow> GetDirectBufferForNBytesAndAdvance I n (cw_cur c) (cw_impl c);
     Some (r, c\<lparr>cw_cur := cur, cw_impl := s\<rparr>) }"

definition coded_WriteRaw :: "'s output_stream \<Rightarrow> string \<Rightarrow> 's coded_output \<Rightarrow> 's coded_output option" where
  "coded_WriteRaw I data c = on_impl (eps_WriteRaw I data) c"

definition coded_WriteRawMaybeAliased :: "'s output_stream \<Rightarrow> string \<Rightarrow> 's coded_output \<Rightarrow> 's coded_output option" where
  "coded_WriteRawMaybeAliased I data c = on_impl (eps_WriteRawMaybeAliased I data) c"

definition coded_WriteString :: "'s output_stream \<Rightarrow> string \<Rightarrow> 's coded_output \<Rightarrow> 's coded_output option" where
  "coded_WriteString I str c = coded_WriteRaw I str c"

definition coded_WriteCord :: "'s output_stream \<Rightarrow> string list \<Rightarrow> 's coded_output \<Rightarrow> 's coded_output option" where
  "coded_WriteCord I cord c = on_impl (eps_WriteCord I cord) c"

text \<open>The pattern of the small writers: space for 16 bytes, then the bytes at the position.\<close>

definition ensure_and_store :: "'s output_stream \<Rightarrow> string \<Rightarrow> 's coded_output \<Rightarrow> 's coded_output option" where
  "ensure_and_store I bs c = on_impl (\<lambda>cur s. do { (cur, s) \<leftarrow> EnsureSpace I cur s; store I bs cur s }) c"

definition WriteLittleEndian16 :: "'s output_stream \<Rightarrow> 16 word \<Rightarrow> 's coded_output \<Rightarrow> 's coded_output option" where
  "WriteLittleEndian16 I value c = ensure_and_store I (WriteLittleEndian16ToArray value) c"

definition WriteLittleEndian32 :: "'s output_stream \<Rightarrow> 32 word \<Rightarrow> 's coded_output \<Rightarrow> 's coded_output option" where
  "WriteLittleEndian32 I value c = ensure_and_store I (WriteLittleEndian32ToArray value) c"

definition WriteLittleEndian64 :: "'s output_stream \<Rightarrow> 64 word \<Rightarrow> 's coded_output \<Rightarrow> 's coded_output option" where
  "WriteLittleEndian64 I value c = ensure_and_store I (WriteLittleEndian64ToArray value) c"

definition WriteVarint32 :: "'s output_stream \<Rightarrow> 32 word \<Rightarrow> 's coded_output \<Rightarrow> 's coded_output option" where
  "WriteVarint32 I value c = ensure_and_store I (WriteVarint32ToArray value) c"

definition WriteVarint64 :: "'s output_stream \<Rightarrow> 64 word \<Rightarrow> 's coded_output \<Rightarrow> 's coded_output option" where
  "WriteVarint64 I value c = ensure_and_store I (WriteVarint64ToArray value) c"

definition WriteVarint32SignExtended :: "'s output_stream \<Rightarrow> 32 word \<Rightarrow> 's coded_output \<Rightarrow> 's coded_output option" where
  "WriteVarint32SignExtended I value c = WriteVarint64 I (scast value) c"

definition WriteTag :: "'s output_stream \<Rightarrow> 32 word \<Rightarrow> 's coded_output \<Rightarrow> 's coded_output option" where
  "WriteTag I value c = WriteVarint32 I value c"

definition coded_EnableAliasing :: "'s output_stream \<Rightarrow> bool \<Rightarrow> 's coded_output \<Rightarrow> 's coded_output option" where
  "coded_EnableAliasing I enabled c = do { s \<leftarrow> EnableAliasing I enabled (cw_impl c); Some (c\<lparr>cw_impl := s\<rparr>) }"

definition coded_out_ByteCount :: "'s output_stream \<Rightarrow> 's coded_output \<Rightarrow> int option" where
  "coded_out_ByteCount I c = do {
     n \<leftarrow> eps_ByteCount I (cw_cur c) (cw_impl c);
     Some (to_i32 (n - cw_start_count c)) }"

end
