(* ===== verification/Eps_Writer.thy ===== *)
theory Eps_Writer
  imports Coded_Output Varint_Encode
begin

unbundle bit_operations_syntax

section \<open>EpsCopyOutputStream: fields over a writer\<close>

text \<open>
  The functions that write tags, length-delimited and packed fields only use \<open>EnsureSpace\<close>, stores of a
  few bytes and \<open>WriteRaw\<close>, \<open>WriteRawMaybeAliased\<close> and \<open>WriteCord\<close>. The locale \<open>eps_writer\<close> states what they
  rely on: \<open>valid N w ptr s\<close> says that \<open>w\<close> has been written, of at most \<open>N\<close> bytes in all. Both uses
  of the class provide it: over a stream, and over an array whose size is the size of the message.
  In it every operation appends exactly the bytes of the wire format, whichever of its
  branches is taken.
\<close>

definition delimited :: "32 word \<Rightarrow> nat \<Rightarrow> string" where
  "delimited num n = UnsafeVarint32 (push_bit 3 num OR 2) @ UnsafeWriteSize (of_nat n)"

lemma varint_nonempty [simp]: "UnsafeVarint32 v \<noteq> []" "UnsafeVarint64 w \<noteq> []" "UnsafeWriteSize v \<noteq> []"
  by (simp_all add: UnsafeVarint32_bytes UnsafeVarint64_bytes UnsafeWriteSize_bytes)

lemma varint_length_le: "length (UnsafeVarint32 v) \<le> 5" "length (UnsafeVarint64 w) \<le> 10" "length (UnsafeWriteSize v) \<le> 5"
  by (simp_all add: UnsafeVarint32_bytes UnsafeVarint64_bytes UnsafeWriteSize_bytes unat_length_32 unat_length_64)

lemma delimited_length: "length (delimited num n) \<le> 16" "delimited num n \<noteq> []"
proof -
  show "length (delimited num n) \<le> 16"
    unfolding delimited_def length_append
    using varint_length_le(1) [of "push_bit 3 num OR 2"] varint_length_le(3) [of "of_nat n"] by linarith
qed (simp add: delimited_def)

text \<open>The wire type does not change the length of a tag.\<close>

lemma unat_tag:
  shows "unat (push_bit 3 num OR 2 :: 32 word) = unat (push_bit 3 num) + 2" and "8 dvd unat (push_bit 3 num :: 32 word)"
proof -
  have "push_bit 3 num OR 2 = push_bit 3 num + (2 :: 32 word)"
    by (rule disjunctive_add [symmetric]) (auto simp: bit_simps)
  moreover have m: "unat (push_bit 3 num :: 32 word) = 8 * (unat num mod 2 ^ 29)"
  proof -
    have "unat (push_bit 3 num :: 32 word) = take_bit 32 (push_bit 3 (unat num))"
      by (simp add: unsigned_push_bit_eq)
    also have "\<dots> = 8 * (unat num mod 2 ^ 29)"
      using mult_mod_right [of 8 "unat num" "2 ^ 29"] by (simp add: take_bit_eq_mod push_bit_eq_mult mult.commute)
    finally show ?thesis .
  qed
  moreover have "8 * (unat num mod 2 ^ 29) + 2 < 2 ^ LENGTH(32)"
  proof -
    have "unat num mod 2 ^ 29 \<le> 2 ^ 29 - 1" using mod_less_divisor [of "2 ^ 29" "unat num"] by simp
    then have "8 * (unat num mod 2 ^ 29) \<le> 8 * (2 ^ 29 - 1)" by (rule mult_le_mono2)
    then show ?thesis by simp
  qed
  ultimately show "unat (push_bit 3 num OR 2 :: 32 word) = unat (push_bit 3 num) + 2"
    by (simp add: unat_word_ariths)
  show "8 dvd unat (push_bit 3 num :: 32 word)" unfolding m by simp
qed

lemma TagSize_type: "TagSize (push_bit 3 num) = length (UnsafeVarint32 (push_bit 3 num OR 2))"
proof -
  let ?a = "push_bit 3 num :: 32 word" and ?b = "push_bit 3 num OR 2 :: 32 word"
  obtain k where k: "unat ?a = 8 * k" using unat_tag(2) [of num] by (auto simp: dvd_def)
  have "?a < 2 ^ 7 \<longleftrightarrow> ?b < 2 ^ 7" "?a < 2 ^ 14 \<longleftrightarrow> ?b < 2 ^ 14" "?a < 2 ^ 21 \<longleftrightarrow> ?b < 2 ^ 21" "?a < 2 ^ 28 \<longleftrightarrow> ?b < 2 ^ 28"
    by (simp_all add: word_less_nat_alt unat_tag(1) k) presburger+
  then have "TagSize ?a = TagSize ?b" by (simp add: TagSize_def)
  then show ?thesis by (simp add: TagSize_value)
qed

lemma small_size: "n < 128 \<Longrightarrow> UnsafeWriteSize (of_nat n) = [char_of n]"
  by (subst UnsafeWriteSize_bytes) (simp add: unsigned_of_nat take_bit_eq_mod varint_bytes.simps)


lemma encode_small:
  "UnsafeVarint32 v \<noteq> [] \<and> length (UnsafeVarint32 v) \<le> 16" "UnsafeVarint64 w \<noteq> [] \<and> length (UnsafeVarint64 w) \<le> 16"
proof -
  show "UnsafeVarint32 v \<noteq> [] \<and> length (UnsafeVarint32 v) \<le> 16"
    by (intro conjI varint_nonempty order_trans [OF varint_length_le(1)]) simp
  show "UnsafeVarint64 w \<noteq> [] \<and> length (UnsafeVarint64 w) \<le> 16"
    by (intro conjI varint_nonempty order_trans [OF varint_length_le(2)]) simp
qed

lemma LittleEndian_length [simp]:
  "length (WriteLittleEndian16ToArray a) = 2" "length (WriteLittleEndian32ToArray b) = 4" "length (WriteLittleEndian64ToArray c) = 8"
  by (simp_all add: WriteLittleEndian16ToArray_def WriteLittleEndian32ToArray_def WriteLittleEndian64ToArray_def Let_def)

lemma LittleEndian_small:
  "WriteLittleEndian16ToArray a \<noteq> [] \<and> length (WriteLittleEndian16ToArray a) \<le> 16"
  "WriteLittleEndian32ToArray b \<noteq> [] \<and> length (WriteLittleEndian32ToArray b) \<le> 16"
  "WriteLittleEndian64ToArray c \<noteq> [] \<and> length (WriteLittleEndian64ToArray c) \<le> 16"
  by (simp_all flip: length_greater_0_conv)

lemma concat_map_length: "(\<And>x. length (f x) = k) \<Longrightarrow> length (concat (map f xs)) = k * length xs"
  by (induction xs) simp_all

subsection \<open>Appending bytes\<close>

locale eps_position =
  fixes I :: "'s output_stream" and valid :: "nat \<Rightarrow> string \<Rightarrow> address \<Rightarrow> 's eps_output \<Rightarrow> bool"
  assumes valid_size: "valid N w ptr s \<Longrightarrow> \<exists>g. ptr_diff (eo_end s) ptr = Some (int g - 16) \<and> GetSize ptr s = Some (int g)"
    and valid_store: "valid N w ptr s \<Longrightarrow> GetSize ptr s = Some (int g) \<Longrightarrow> length bs \<le> g \<Longrightarrow> length w + length bs \<le> N
      \<Longrightarrow> \<exists>p s'. store I bs ptr s = Some (p, s') \<and> valid N (w @ bs) p s' \<and> GetSize p s' = Some (int (g - length bs))"
begin

definition appends :: "(address \<Rightarrow> 's eps_output \<Rightarrow> (address \<times> 's eps_output) option) \<Rightarrow> string \<Rightarrow> bool" where
  "appends f bs \<longleftrightarrow> (\<forall>w N ptr s. valid N w ptr s \<longrightarrow> length (w @ bs) \<le> N \<longrightarrow>
     (\<exists>p s'. f ptr s = Some (p, s') \<and> valid N (w @ bs) p s'))"

lemma appendsI:
  assumes "\<And>w N ptr s. valid N w ptr s \<Longrightarrow> length w + length bs \<le> N \<Longrightarrow>
     \<exists>p s'. f ptr s = Some (p, s') \<and> valid N (w @ bs) p s'"
  shows "appends f bs"
  using assms by (simp add: appends_def)

lemma appendsD:
  "appends f bs \<Longrightarrow> valid N w ptr s \<Longrightarrow> length w + length bs \<le> N \<Longrightarrow>
     \<exists>p s'. f ptr s = Some (p, s') \<and> valid N (w @ bs) p s'"
  by (simp add: appends_def)

lemma appends_seq:
  assumes "appends f a" and "appends g b"
  shows "appends (\<lambda>ptr s. do { (ptr, s) \<leftarrow> f ptr s; g ptr s }) (a @ b)"
proof (rule appendsI)
  fix w N ptr s
  assume i: "valid N w ptr s" and n: "length w + length (a @ b) \<le> N"
  from appendsD [OF assms(1) i] n obtain p s' where "f ptr s = Some (p, s')" "valid N (w @ a) p s'" by auto
  with appendsD [OF assms(2), of N "w @ a" p s'] n
  show "\<exists>p s'. (do { (ptr, s) \<leftarrow> f ptr s; g ptr s }) = Some (p, s') \<and> valid N (w @ a @ b) p s'" by simp
qed

subsection \<open>A few bytes after EnsureSpace\<close>

text \<open>\<open>fits f bs\<close>: with room for the bytes, \<open>f\<close> writes them without a check.\<close>

definition fits :: "(address \<Rightarrow> 's eps_output \<Rightarrow> (address \<times> 's eps_output) option) \<Rightarrow> string \<Rightarrow> bool" where
  "fits f bs \<longleftrightarrow> (\<forall>w N ptr s g. valid N w ptr s \<longrightarrow> GetSize ptr s = Some (int g) \<longrightarrow> length bs \<le> g \<longrightarrow> length w + length bs \<le> N \<longrightarrow>
     (\<exists>p s'. f ptr s = Some (p, s') \<and> valid N (w @ bs) p s' \<and> GetSize p s' = Some (int (g - length bs))))"

lemma fitsD:
  "fits f bs \<Longrightarrow> valid N w ptr s \<Longrightarrow> GetSize ptr s = Some (int g) \<Longrightarrow> length bs \<le> g \<Longrightarrow> length w + length bs \<le> N \<Longrightarrow>
     \<exists>p s'. f ptr s = Some (p, s') \<and> valid N (w @ bs) p s' \<and> GetSize p s' = Some (int (g - length bs))"
  unfolding fits_def by blast

lemma fits_store: "fits (store I bs) bs"
  unfolding fits_def using valid_store by blast

lemma fits_Nil: "fits (\<lambda>ptr s. Some (ptr, s)) []"
  by (simp add: fits_def)

lemma fits_seq:
  assumes "fits f a" and "fits g b"
  shows "fits (\<lambda>ptr s. do { (ptr, s) \<leftarrow> f ptr s; g ptr s }) (a @ b)"
  unfolding fits_def
proof (intro allI impI)
  fix w N ptr s k
  assume i: "valid N w ptr s" "GetSize ptr s = Some (int k)" "length (a @ b) \<le> k" "length w + length (a @ b) \<le> N"
  then have "length a \<le> k" "length w + length a \<le> N" by simp_all
  from fitsD [OF assms(1) i(1,2) this] obtain p s' where
    f: "f ptr s = Some (p, s')" "valid N (w @ a) p s'" "GetSize p s' = Some (int (k - length a))" by blast
  from i(3,4) have "length b \<le> k - length a" "length (w @ a) + length b \<le> N" by simp_all
  from fitsD [OF assms(2) f(2,3) this] f(1)
  show "\<exists>p s'. (do { (ptr, s) \<leftarrow> f ptr s; g ptr s }) = Some (p, s') \<and> valid N (w @ a @ b) p s'
      \<and> GetSize p s' = Some (int (k - length (a @ b)))" by auto
qed

lemma appends_return: "appends (\<lambda>ptr s. Some (ptr, s)) []"
  by (rule appendsI) simp

lemma CopyCord_fits: "fits (CopyCordToArray I cord) (concat cord)"
proof (induction cord)
  case Nil
  then show ?case by (simp add: fits_def)
next
  case (Cons c cord)
  have "CopyCordToArray I (c # cord) = (\<lambda>ptr s. do { (ptr, s) \<leftarrow> store I c ptr s; CopyCordToArray I cord ptr s })"
    by (intro ext) simp
  with fits_seq [OF fits_store Cons.IH, of c] show ?case by simp
qed

end

locale eps_writer = eps_position I valid
  for I :: "'s output_stream" and valid :: "nat \<Rightarrow> string \<Rightarrow> address \<Rightarrow> 's eps_output \<Rightarrow> bool" +
  assumes valid_space: "valid N w ptr s \<Longrightarrow> length w < N
      \<Longrightarrow> \<exists>p s'. EnsureSpace I ptr s = Some (p, s') \<and> valid N w p s' \<and> (\<exists>g \<ge> 16. GetSize p s' = Some (int g))"
    and WriteRaw_appends: "appends (eps_WriteRaw I data) data"
    and WriteRawMaybeAliased_appends: "appends (eps_WriteRawMaybeAliased I data) data"
    and WriteCord_appends: "appends (eps_WriteCord I cord) (concat cord)"
begin

lemma EnsureSpace_appends:
  assumes "fits f a" and "length a \<le> 16" and "a \<noteq> []" and "appends g b"
  shows "appends (\<lambda>ptr s. do { (ptr, s) \<leftarrow> EnsureSpace I ptr s; (ptr, s) \<leftarrow> f ptr s; g ptr s }) (a @ b)"
proof (rule appendsI)
  fix w N ptr s
  assume i: "valid N w ptr s" and n: "length w + length (a @ b) \<le> N"
  have "0 < length a" by (rule length_greater_0_conv [THEN iffD2, OF assms(3)])
  then have "length w < N" and n1: "length w + length a \<le> N" using n by (simp_all only: length_append)
  from valid_space [OF i this(1)] obtain p s1 k where
    e: "EnsureSpace I ptr s = Some (p, s1)" "valid N w p s1" "16 \<le> k" "GetSize p s1 = Some (int k)" by blast
  from e(3) assms(2) have "length a \<le> k" by simp
  from fitsD [OF assms(1) e(2,4) this n1] obtain p2 s2 where "f p s1 = Some (p2, s2)" "valid N (w @ a) p2 s2" by blast
  with e(1) appendsD [OF assms(4), of N "w @ a" p2 s2] n
  show "\<exists>p s'. (do { (ptr, s) \<leftarrow> EnsureSpace I ptr s; (ptr, s) \<leftarrow> f ptr s; g ptr s }) = Some (p, s')
      \<and> valid N (w @ a @ b) p s'" by simp
qed

lemma EnsureSpace_store:
  assumes "fits f a" and "length a \<le> 16" and "a \<noteq> []"
  shows "appends (\<lambda>ptr s. do { (ptr, s) \<leftarrow> EnsureSpace I ptr s; f ptr s }) a"
proof -
  have "(do { (ptr, s) \<leftarrow> f p s; Some (ptr, s) }) = f p s" for p s by (cases "f p s") auto
  then show ?thesis using EnsureSpace_appends [OF assms appends_return] by simp
qed

subsection \<open>Length-delimited fields\<close>

lemma LengthDelim_fits: "fits (WriteLengthDelim I num (of_nat n)) (delimited num n)"
proof -
  have "WriteLengthDelim I num (of_nat n)
      = (\<lambda>ptr s. do { (ptr, s) \<leftarrow> store I (UnsafeVarint32 (push_bit 3 num OR 2)) ptr s; store I (UnsafeWriteSize (of_nat n)) ptr s })"
    by (intro ext) (simp add: WriteLengthDelim_def eps_WriteTag_def)
  with fits_seq [OF fits_store fits_store] show ?thesis by (simp add: delimited_def)
qed

lemmas LengthDelim_appends = EnsureSpace_appends [OF LengthDelim_fits delimited_length]

lemma WriteStringOutline_appends:
  assumes "int (length str) \<le> INT_MAX"
  shows "appends (WriteStringOutline I num str) (delimited num (length str) @ str)"
  using LengthDelim_appends [OF WriteRaw_appends, of num "length str" str] assms by (simp add: WriteStringOutline_def [abs_def])

lemma WriteStringMaybeAliasedOutline_appends:
  assumes "int (length str) \<le> INT_MAX"
  shows "appends (WriteStringMaybeAliasedOutline I num str) (delimited num (length str) @ str)"
  using LengthDelim_appends [OF WriteRawMaybeAliased_appends, of num "length str" str] assms
  by (simp add: WriteStringMaybeAliasedOutline_def [abs_def])

text \<open>The inline branch for short strings: three stores that fit.\<close>

lemma short_string:
  assumes i: "valid N w ptr s" and d: "ptr_diff (eo_end s) ptr = Some d"
    and l: "length str < 128" "\<not> d + 16 - int (TagSize (push_bit 3 num)) - 1 < int (length str)"
    and n: "length w + length (delimited num (length str) @ str) \<le> N"
  shows "\<exists>p s'. (do { (ptr, s) \<leftarrow> store I (UnsafeVarint32 (push_bit 3 num OR 2)) ptr s;
       (ptr, s) \<leftarrow> store I [char_of (length str)] ptr s;
       store I str ptr s }) = Some (p, s') \<and> valid N (w @ delimited num (length str) @ str) p s'"
proof -
  let ?a = "UnsafeVarint32 (push_bit 3 num OR 2)" and ?b = "[char_of (length str) :: char]"
  obtain g where g: "GetSize ptr s = Some (int g)" "int g = d + 16" using valid_size [OF i] d by auto
  have e: "delimited num (length str) @ str = ?a @ ?b @ str" using small_size [OF l(1)] by (simp add: delimited_def)
  have f: "fits (\<lambda>ptr s. do { (ptr, s) \<leftarrow> store I ?a ptr s; (ptr, s) \<leftarrow> store I ?b ptr s; store I str ptr s }) (?a @ ?b @ str)"
    by (intro fits_seq fits_store)
  have "length (?a @ ?b @ str) \<le> g" using g(2) l(2) by (simp add: TagSize_type)
  from fitsD [OF f i g(1) this] n show ?thesis unfolding e by blast
qed

lemma WriteStringField_appends:
  assumes "int (length str) \<le> INT_MAX"
  shows "appends (WriteStringField I num str) (delimited num (length str) @ str)"
proof (rule appendsI)
  fix w N ptr s
  assume i: "valid N w ptr s" and n: "length w + length (delimited num (length str) @ str) \<le> N"
  obtain d where d: "ptr_diff (eo_end s) ptr = Some d" using valid_size [OF i] by blast
  show "\<exists>p s'. WriteStringField I num str ptr s = Some (p, s') \<and> valid N (w @ delimited num (length str) @ str) p s'"
  proof (cases "int (length str) \<ge> 128 \<or> d + 16 - int (TagSize (push_bit 3 num)) - 1 < int (length str)")
    case True
    with appendsD [OF WriteStringOutline_appends [OF assms] i n] d show ?thesis
      by (simp add: WriteStringField_def del: of_nat_le_iff)
  next
    case False
    with short_string [OF i d, of str num] d n show ?thesis by (simp add: WriteStringField_def del: store.simps)
  qed
qed

lemma WriteStringMaybeAliased_appends:
  assumes "int (length str) \<le> INT_MAX"
  shows "appends (WriteStringMaybeAliased I num str) (delimited num (length str) @ str)"
proof (rule appendsI)
  fix w N ptr s
  assume i: "valid N w ptr s" and n: "length w + length (delimited num (length str) @ str) \<le> N"
  obtain d where d: "ptr_diff (eo_end s) ptr = Some d" using valid_size [OF i] by blast
  show "\<exists>p s'. WriteStringMaybeAliased I num str ptr s = Some (p, s') \<and> valid N (w @ delimited num (length str) @ str) p s'"
  proof (cases "int (length str) \<ge> 128 \<or> d + 16 - int (TagSize (push_bit 3 num)) - 1 < int (length str)")
    case True
    with appendsD [OF WriteStringMaybeAliasedOutline_appends [OF assms] i n] d show ?thesis
      by (simp add: WriteStringMaybeAliased_def del: of_nat_le_iff)
  next
    case False
    with short_string [OF i d, of str num] d n show ?thesis by (simp add: WriteStringMaybeAliased_def del: store.simps)
  qed
qed

lemma WriteCordField_appends: "appends (WriteCordField I num cord) (delimited num (length (concat cord)) @ concat cord)"
proof -
  let ?n = "length (concat cord)"
  have "WriteCordField I num cord = (\<lambda>ptr s. do { (ptr, s) \<leftarrow> EnsureSpace I ptr s;
      (ptr, s) \<leftarrow> WriteLengthDelim I num (of_nat ?n) ptr s; eps_WriteCord I cord ptr s })"
    by (intro ext) (simp add: WriteCordField_def WriteCordOutline_def WriteLengthDelim_def split_def del: length_concat)
  with LengthDelim_appends [OF WriteCord_appends, of num ?n cord] show ?thesis by simp
qed

subsection \<open>Packed fields\<close>

lemma packed_loop_appends:
  assumes "vs \<noteq> []" and "\<And>v. encode v \<noteq> [] \<and> length (encode v) \<le> 16"
  shows "appends (packed_loop I encode vs) (concat (map encode vs))"
  using assms(1)
proof (induction vs)
  case Nil
  then show ?case by simp
next
  case (Cons v vs)
  have l: "length (encode v) \<le> 16" "encode v \<noteq> []" using assms(2) [of v] by simp_all
  show ?case
  proof (cases "vs = []")
    case True
    then have "packed_loop I encode (v # vs) = (\<lambda>ptr s. do { (ptr, s) \<leftarrow> EnsureSpace I ptr s; (ptr, s) \<leftarrow> store I (encode v) ptr s; Some (ptr, s) })"
      by (intro ext) simp
    with EnsureSpace_appends [OF fits_store l appends_return] True show ?thesis by simp
  next
    case False
    then have "packed_loop I encode (v # vs) = (\<lambda>ptr s. do { (ptr, s) \<leftarrow> EnsureSpace I ptr s; (ptr, s) \<leftarrow> store I (encode v) ptr s; packed_loop I encode vs ptr s })"
      by (intro ext) simp
    with EnsureSpace_appends [OF fits_store l Cons.IH [OF False]] show ?thesis by simp
  qed
qed

lemma WriteVarintPacked_appends:
  assumes "vs \<noteq> []" and "\<And>v. encode v \<noteq> [] \<and> length (encode v) \<le> 16"
  shows "appends (WriteVarintPacked I num encode vs (of_nat n)) (delimited num n @ concat (map encode vs))"
  using LengthDelim_appends [OF packed_loop_appends [OF assms], of num n] by (simp add: WriteVarintPacked_def [abs_def])

lemma packed_appends_32:
  assumes "vs \<noteq> []"
  shows "appends (WriteInt32Packed I num vs (of_nat n)) (delimited num n @ concat (map (\<lambda>v. UnsafeVarint64 (scast v)) vs))"
    and "appends (WriteUInt32Packed I num vs (of_nat n)) (delimited num n @ concat (map UnsafeVarint32 vs))"
    and "appends (WriteSInt32Packed I num vs (of_nat n)) (delimited num n @ concat (map (\<lambda>v. UnsafeVarint32 (ZigZagEncode32 v)) vs))"
    and "appends (WriteEnumPacked I num vs (of_nat n)) (delimited num n @ concat (map (\<lambda>v. UnsafeVarint64 (scast v)) vs))"
  unfolding WriteInt32Packed_def [abs_def] WriteUInt32Packed_def [abs_def] WriteSInt32Packed_def [abs_def]
    WriteEnumPacked_def [abs_def]
  by (rule WriteVarintPacked_appends [OF assms encode_small(2)] WriteVarintPacked_appends [OF assms encode_small(1)])+

lemma packed_appends_64:
  assumes "vs \<noteq> []"
  shows "appends (WriteInt64Packed I num vs (of_nat n)) (delimited num n @ concat (map UnsafeVarint64 vs))"
    and "appends (WriteUInt64Packed I num vs (of_nat n)) (delimited num n @ concat (map UnsafeVarint64 vs))"
    and "appends (WriteSInt64Packed I num vs (of_nat n)) (delimited num n @ concat (map (\<lambda>v. UnsafeVarint64 (ZigZagEncode64 v)) vs))"
  unfolding WriteInt64Packed_def [abs_def] WriteUInt64Packed_def [abs_def] WriteSInt64Packed_def [abs_def]
  by (rule WriteVarintPacked_appends [OF assms encode_small(2)])+

text \<open>Arrays of fixed-width numbers, on a host of either byte order.\<close>

lemma store_each_fits: "fits (store_each I encode xs) (concat (map encode xs))"
proof (induction xs)
  case Nil
  then show ?case by (simp add: fits_def)
next
  case (Cons x xs)
  have "store_each I encode (x # xs) = (\<lambda>ptr s. do { (ptr, s) \<leftarrow> store I (encode x) ptr s; store_each I encode xs ptr s })"
    by (intro ext) simp
  with fits_seq [OF fits_store Cons.IH, of "encode x"] show ?case by simp
qed

lemma fixed_tail_appends:
  assumes "\<And>v. encode v \<noteq> [] \<and> length (encode v) \<le> 16"
  shows "appends (fixed_tail_loop I encode xs) (concat (map encode xs))"
proof (induction xs)
  case Nil
  then show ?case using appends_return by simp
next
  case (Cons x xs)
  have "fixed_tail_loop I encode (x # xs) = (\<lambda>ptr s. do { (ptr, s) \<leftarrow> EnsureSpace I ptr s; (ptr, s) \<leftarrow> store I (encode x) ptr s; fixed_tail_loop I encode xs ptr s })"
    by (intro ext) simp
  moreover have "length (encode x) \<le> 16" "encode x \<noteq> []" using assms [of x] by simp_all
  ultimately show ?case using EnsureSpace_appends [OF fits_store _ _ Cons.IH, of "encode x"] by simp
qed

lemma WriteRawLittleEndian32_appends: "appends (WriteRawLittleEndian32 I xs) (concat (map WriteLittleEndian32ToArray xs))"
proof (induction "length xs" arbitrary: xs rule: less_induct)
  case less
  let ?f = "WriteLittleEndian32ToArray"
  show ?case
  proof (cases "length xs \<ge> 4")
    case False
    then have "WriteRawLittleEndian32 I xs = fixed_tail_loop I ?f xs"
      by (intro ext) (simp add: WriteRawLittleEndian32.simps)
    with fixed_tail_appends [OF LittleEndian_small(2)] show ?thesis by simp
  next
    case True
    have "length (concat (map ?f (take 4 xs))) = 16" using True by (subst concat_map_length [of _ 4]) simp_all
    moreover from this have "concat (map ?f (take 4 xs)) \<noteq> []" by (metis list.size(3) zero_neq_numeral)
    ultimately have "appends (\<lambda>ptr s. do { (ptr, s) \<leftarrow> EnsureSpace I ptr s; (ptr, s) \<leftarrow> store_each I ?f (take 4 xs) ptr s;
        WriteRawLittleEndian32 I (drop 4 xs) ptr s }) (concat (map ?f (take 4 xs)) @ concat (map ?f (drop 4 xs)))"
      using less.hyps [of "drop 4 xs"] True by (intro EnsureSpace_appends store_each_fits) auto
    moreover have "concat (map ?f (take 4 xs)) @ concat (map ?f (drop 4 xs)) = concat (map ?f xs)"
      by (metis append_take_drop_id concat_append map_append)
    moreover have "WriteRawLittleEndian32 I xs = (\<lambda>ptr s. do { (ptr, s) \<leftarrow> EnsureSpace I ptr s;
        (ptr, s) \<leftarrow> store_each I ?f (take 4 xs) ptr s; WriteRawLittleEndian32 I (drop 4 xs) ptr s })"
      using True by (intro ext) (simp add: WriteRawLittleEndian32.simps [of I xs])
    ultimately show ?thesis by simp
  qed
qed

lemma WriteRawLittleEndian64_appends: "appends (WriteRawLittleEndian64 I xs) (concat (map WriteLittleEndian64ToArray xs))"
proof (induction "length xs" arbitrary: xs rule: less_induct)
  case less
  let ?f = "WriteLittleEndian64ToArray"
  show ?case
  proof (cases "length xs \<ge> 2")
    case False
    then have "WriteRawLittleEndian64 I xs = fixed_tail_loop I ?f xs"
      by (intro ext) (simp add: WriteRawLittleEndian64.simps)
    with fixed_tail_appends [OF LittleEndian_small(3)] show ?thesis by simp
  next
    case True
    have "length (concat (map ?f (take 2 xs))) = 16" using True by (subst concat_map_length [of _ 8]) simp_all
    moreover from this have "concat (map ?f (take 2 xs)) \<noteq> []" by (metis list.size(3) zero_neq_numeral)
    ultimately have "appends (\<lambda>ptr s. do { (ptr, s) \<leftarrow> EnsureSpace I ptr s; (ptr, s) \<leftarrow> store_each I ?f (take 2 xs) ptr s;
        WriteRawLittleEndian64 I (drop 2 xs) ptr s }) (concat (map ?f (take 2 xs)) @ concat (map ?f (drop 2 xs)))"
      using less.hyps [of "drop 2 xs"] True by (intro EnsureSpace_appends store_each_fits) auto
    moreover have "concat (map ?f (take 2 xs)) @ concat (map ?f (drop 2 xs)) = concat (map ?f xs)"
      by (metis append_take_drop_id concat_append map_append)
    moreover have "WriteRawLittleEndian64 I xs = (\<lambda>ptr s. do { (ptr, s) \<leftarrow> EnsureSpace I ptr s;
        (ptr, s) \<leftarrow> store_each I ?f (take 2 xs) ptr s; WriteRawLittleEndian64 I (drop 2 xs) ptr s })"
      using True by (intro ext) (simp add: WriteRawLittleEndian64.simps [of I xs])
    ultimately show ?thesis by simp
  qed
qed

lemma WriteFixedPacked_appends:
  "appends (WriteFixedPacked_4 little I num vs) (delimited num (length vs * 4) @ concat (map WriteLittleEndian32ToArray vs))"
  "appends (WriteFixedPacked_8 little I num ws) (delimited num (length ws * 8) @ concat (map WriteLittleEndian64ToArray ws))"
proof -
  have 4: "appends (WriteRawLittleEndian_4 little I vs) (concat (map WriteLittleEndian32ToArray vs))"
    using WriteRaw_appends WriteRawLittleEndian32_appends by (cases little) (simp_all add: WriteRawLittleEndian_4_def [abs_def])
  have 8: "appends (WriteRawLittleEndian_8 little I ws) (concat (map WriteLittleEndian64ToArray ws))"
    using WriteRaw_appends WriteRawLittleEndian64_appends by (cases little) (simp_all add: WriteRawLittleEndian_8_def [abs_def])
  from LengthDelim_appends [OF 4, of num "length vs * 4"] LengthDelim_appends [OF 8, of num "length ws * 8"]
  show "appends (WriteFixedPacked_4 little I num vs) (delimited num (length vs * 4) @ concat (map WriteLittleEndian32ToArray vs))"
    "appends (WriteFixedPacked_8 little I num ws) (delimited num (length ws * 8) @ concat (map WriteLittleEndian64ToArray ws))"
    by (simp_all add: WriteFixedPacked_4_def [abs_def] WriteFixedPacked_8_def [abs_def])
qed

end

end
