(* ===== verification/Eps_Laws.thy ===== *)
theory Eps_Laws
  imports Eps_Writer
begin


section \<open>The invariant of EpsCopyOutputStream\<close>

text \<open>
  \<open>eps_sink\<close> is what \<open>EpsCopyOutputStream\<close> needs of the wrapped stream: its buffers are memory
  (\<open>output_memory\<close>), and the virtual \<open>WriteCord\<close> and \<open>WriteAliasedRaw\<close> append or fail because the
  stream is full. The predicates describe the two modes, writing into the buffer of the stream
  (\<open>direct_mode\<close>) or into the patch buffer (\<open>patch_mode\<close>), by the bytes \<open>w\<close> that the client has
  written so far; \<open>eps_inv N\<close> adds the error state, in which the stream was full at less than
  \<open>N\<close> bytes.
\<close>

lemma kSlop [simp]: "kSlopBytes = 16"
  by (simp add: kSlopBytes_def)

lemma ptr_diff_add [simp]: "ptr_diff (ptr_add p i) (ptr_add p j) = Some (i - j)" "ptr_diff (ptr_add p i) p = Some i"
  "ptr_diff p (ptr_add p i) = Some (- i)" "ptr_diff p p = Some 0"
  by (cases p; simp)+

lemma ptr_add_add [simp]: "ptr_add (ptr_add p i) j = ptr_add p (i + j)" "ptr_add p 0 = p"
  by (cases p; simp)+

lemma overwrite_0: "length c \<le> length m \<Longrightarrow> overwrite m 0 c = c @ drop (length c) m"
  by (simp add: overwrite_def)

locale eps_sink = output_memory "os_Next I" "os_put I" "os_BackUp I" "os_ByteCount I" inv written full "os_get I"
  for I :: "'s output_stream" and inv :: "'s \<Rightarrow> bool" and written :: "'s \<Rightarrow> string" and full :: "int \<Rightarrow> bool" +
  assumes cord_written: "inv s \<Longrightarrow> \<exists>b s'. os_WriteCord I cs s = Some (b, s') \<and> inv s'
      \<and> (b \<longrightarrow> written s' = written s @ concat cs)
      \<and> (\<not> b \<longrightarrow> (\<exists>k < length (concat cs). full (int (length (written s) + k))))"
    and alias_written: "os_AllowsAliasing I \<Longrightarrow> inv s \<Longrightarrow> \<exists>b s'. os_WriteAliasedRaw I bs s = Some (b, s') \<and> inv s'
      \<and> (b \<longrightarrow> written s' = written s @ bs)
      \<and> (\<not> b \<longrightarrow> (\<exists>k < length bs. full (int (length (written s) + k))))"
begin

subsection \<open>Memory of the stream\<close>

text \<open>\<open>w\<close> is written up to address \<open>a\<close>, where the rest of the buffer starts, with content \<open>r\<close>.\<close>

definition region_at :: "string \<Rightarrow> int \<Rightarrow> string \<Rightarrow> 's \<Rightarrow> bool" where
  "region_at w a r t \<longleftrightarrow> (\<exists>s0 p n s1 x. inv s0 \<and> os_Next I s0 = Some (Some (p, n), s1)
     \<and> int (length (x @ r)) = n \<and> t = os_put I p (x @ r) s1 \<and> a = p + int (length x) \<and> w = written s0 @ x)"

lemma region_start:
  assumes "inv s0" and "os_Next I s0 = Some (Some (p, n), s1)"
  shows "\<exists>r. int (length r) = n \<and> region_at (written s0) p r s1"
proof -
  from region [OF assms] obtain m where "int (length m) = n" "os_put I p m s1 = s1" by blast
  with assms show ?thesis
    unfolding region_at_def
    by (intro exI [of _ m] conjI exI [of _ s0] exI [of _ p] exI [of _ n] exI [of _ s1] exI [of _ "[]"]) simp_all
qed

lemma region_put:
  assumes "region_at w a r t" and "j + length c \<le> length r"
  shows "region_at w a (overwrite r (int j) c) (os_put I (a + int j) c t)"
proof -
  from assms(1) obtain s0 p n s1 x where o: "inv s0" "os_Next I s0 = Some (Some (p, n), s1)"
    "int (length (x @ r)) = n" "t = os_put I p (x @ r) s1" "a = p + int (length x)" "w = written s0 @ x"
    by (auto simp: region_at_def)
  let ?k = "int (length x + j)"
  have "overwrite (x @ r) ?k c = x @ overwrite r (int j) c"
    by (simp add: overwrite_def nat_int_add)
  moreover have "os_put I (p + ?k) c t = os_put I p (overwrite (x @ r) ?k c) s1"
    unfolding o(4) using o(3) assms(2) by (intro put_put [OF o(1,2)]) simp_all
  moreover have "length (overwrite r (int j) c) = length r" using assms(2) by (intro overwrite_length) simp_all
  ultimately show ?thesis
    unfolding region_at_def using o
    by (intro exI [of _ s0] exI [of _ p] exI [of _ n] exI [of _ s1] exI [of _ x]) (simp add: add.assoc)
qed

lemma region_advance: "region_at w a (x @ y) t \<Longrightarrow> region_at (w @ x) (a + int (length x)) y t"
  unfolding region_at_def by (metis append.assoc length_append of_nat_add add.assoc)

lemma region_get:
  assumes "region_at w a r t" and "j + l \<le> length r"
  shows "os_get I (a + int j) (int l) t = take l (drop j r)"
proof -
  from assms(1) obtain s0 p n s1 x where o: "inv s0" "os_Next I s0 = Some (Some (p, n), s1)"
    "int (length (x @ r)) = n" "t = os_put I p (x @ r) s1" "a = p + int (length x)" "w = written s0 @ x"
    by (auto simp: region_at_def)
  have "os_get I (p + int (length x + j)) (int l) t = fetch (x @ r) (int (length x + j)) (int l)"
    unfolding o(4) using o(3) assms(2) by (intro get_put [OF o(1,2)]) simp_all
  then show ?thesis by (simp add: o(5) fetch_def nat_int_add add.assoc)
qed

lemma region_full:
  assumes "region_at w a [] t"
  shows "inv t" and "written t = w"
  using assms fill_buffer by (auto simp: region_at_def)

lemma region_backup:
  assumes "region_at w a r t"
  shows "\<exists>t'. os_BackUp I (int (length r)) t = Some t' \<and> inv t' \<and> written t' = w"
proof -
  from assms(1) obtain s0 p n s1 x where o: "inv s0" "os_Next I s0 = Some (Some (p, n), s1)"
    "int (length (x @ r)) = n" "t = os_put I p (x @ r) s1" "w = written s0 @ x"
    by (auto simp: region_at_def)
  have "n - int (length x) = int (length r)" using o(3) by simp
  moreover have "int (length x) \<le> n" using o(3) by simp
  from backup_put [OF o(1,2,3) this] have "\<exists>s''. os_BackUp I (n - int (length x)) t = Some s'' \<and> inv s'' \<and> written s'' = w"
    by (simp add: o(4,5))
  ultimately show ?thesis by simp
qed

text \<open>The rest of a buffer behind \<open>buffer_end_\<close>, or none at the start and after \<open>Trim\<close>.\<close>

definition sink :: "string \<Rightarrow> address \<Rightarrow> string \<Rightarrow> 's \<Rightarrow> bool" where
  "sink w be m t \<longleftrightarrow> (\<exists>q. be = Mem q \<and> region_at w q m t) \<or> (be = Patch 0 \<and> m = [] \<and> inv t \<and> written t = w)"

lemma sink_advance: "sink w be (x @ y) t \<Longrightarrow> sink (w @ x) (ptr_add be (int (length x))) y t"
  by (auto simp: sink_def intro: region_advance)

lemma sink_full: "sink w be [] t \<Longrightarrow> inv t \<and> written t = w"
  by (auto simp: sink_def dest: region_full)

lemma sink_backup: "sink w be m t \<Longrightarrow> \<exists>t'. os_BackUp I (int (length m)) t = Some t' \<and> inv t' \<and> written t' = w"
  using region_backup backup_0 by (auto simp: sink_def)

text \<open>\<open>memcpy\<close> to \<open>buffer_end_\<close>.\<close>

lemma sink_store:
  assumes "sink w be m (eo_stream s)" and "length c \<le> length m"
  shows "\<exists>p t. store I c be s = Some (p, s\<lparr>eo_stream := t\<rparr>)
     \<and> sink (w @ c) (ptr_add be (int (length c))) (drop (length c) m) t"
  using assms(1) unfolding sink_def
proof (elim disjE exE conjE)
  fix q
  assume q: "be = Mem q" "region_at w q m (eo_stream s)"
  from region_put [OF q(2), of 0 c] assms(2)
  have "region_at w q (c @ drop (length c) m) (os_put I q c (eo_stream s))" by (simp add: overwrite_0)
  from region_advance [OF this] show "\<exists>p t. store I c be s = Some (p, s\<lparr>eo_stream := t\<rparr>)
     \<and> ((\<exists>q. ptr_add be (int (length c)) = Mem q \<and> region_at (w @ c) q (drop (length c) m) t)
       \<or> ptr_add be (int (length c)) = Patch 0 \<and> drop (length c) m = [] \<and> inv t \<and> written t = w @ c)"
    using q(1) by auto
next
  assume "be = Patch 0" "m = []" "inv (eo_stream s)" "written (eo_stream s) = w"
  with assms(2) show "\<exists>p t. store I c be s = Some (p, s\<lparr>eo_stream := t\<rparr>)
     \<and> ((\<exists>q. ptr_add be (int (length c)) = Mem q \<and> region_at (w @ c) q (drop (length c) m) t)
       \<or> ptr_add be (int (length c)) = Patch 0 \<and> drop (length c) m = [] \<and> inv t \<and> written t = w @ c)"
    by (intro exI [of _ "Patch 0"] exI [of _ "eo_stream s"]) simp
qed

subsection \<open>The modes\<close>

definition direct_mode :: "string \<Rightarrow> address \<Rightarrow> 's eps_output \<Rightarrow> bool" where
  "direct_mode w ptr s \<longleftrightarrow> (\<exists>w0 b m i. region_at w0 b m (eo_stream s) \<and> eo_buffer_end s = None \<and> 16 \<le> length m
     \<and> eo_end s = Mem (b + int (length m) - 16) \<and> ptr = Mem (b + int i) \<and> i \<le> length m \<and> w = w0 @ take i m)"

definition patch_mode :: "string \<Rightarrow> address \<Rightarrow> 's eps_output \<Rightarrow> bool" where
  "patch_mode w ptr s \<longleftrightarrow> (\<exists>w0 be m i. sink w0 be m (eo_stream s) \<and> eo_buffer_end s = Some be \<and> length m \<le> 16
     \<and> eo_end s = Patch (int (length m)) \<and> ptr = Patch (int i) \<and> i \<le> length m + 16 \<and> w = w0 @ take i (eo_buffer s))"

definition error_mode :: "address \<Rightarrow> 's eps_output \<Rightarrow> bool" where
  "error_mode ptr s \<longleftrightarrow> inv (eo_stream s) \<and> (\<exists>e i. (e = 0 \<or> e = 16) \<and> eo_end s = Patch e \<and> ptr = Patch (int i) \<and> int i \<le> e + 16)"

definition eps_frame :: "'s eps_output \<Rightarrow> bool" where
  "eps_frame s \<longleftrightarrow> \<not> eo_null s \<and> length (eo_buffer s) = 32 \<and> (eo_aliasing s \<longrightarrow> os_AllowsAliasing I)"

definition eps_inv :: "nat \<Rightarrow> string \<Rightarrow> address \<Rightarrow> 's eps_output \<Rightarrow> bool" where
  "eps_inv N w ptr s \<longleftrightarrow> eps_frame s
     \<and> (if eo_had_error s then error_mode ptr s \<and> (\<exists>k < N. full (int k))
        else direct_mode w ptr s \<or> patch_mode w ptr s)"

lemma eps_inv_mono: "eps_inv N w ptr s \<Longrightarrow> N \<le> M \<Longrightarrow> eps_inv M w ptr s"
  unfolding eps_inv_def by (metis less_le_trans)

lemma eps_frame_simps [simp]:
  "eps_frame (s\<lparr>eo_stream := t\<rparr>) = eps_frame s" "eps_frame (s\<lparr>eo_end := e\<rparr>) = eps_frame s"
  "eps_frame (s\<lparr>eo_buffer_end := be\<rparr>) = eps_frame s" "eps_frame (s\<lparr>eo_had_error := b\<rparr>) = eps_frame s"
  by (simp_all add: eps_frame_def)

lemma eps_frame_buffer: "eps_frame s \<Longrightarrow> length b = 32 \<Longrightarrow> eps_frame (s\<lparr>eo_buffer := b\<rparr>)"
  by (simp add: eps_frame_def)

lemma eps_frameD: "eps_frame s \<Longrightarrow> length (eo_buffer s) = 32" "eps_frame s \<Longrightarrow> \<not> eo_null s"
  by (simp_all add: eps_frame_def)

text \<open>The space behind the position is never negative.\<close>

lemma eps_GetSize:
  assumes "eps_inv N w ptr s"
  shows "\<exists>g. ptr_diff (eo_end s) ptr = Some (int g - 16) \<and> ptr_diff ptr (eo_end s) = Some (16 - int g)
     \<and> GetSize ptr s = Some (int g)"
proof (cases "eo_had_error s")
  case True
  with assms obtain e i where "eo_end s = Patch e" "ptr = Patch (int i)" "int i \<le> e + 16"
    by (auto simp: eps_inv_def error_mode_def)
  then show ?thesis by (intro exI [of _ "nat (e + 16 - int i)"]) (simp add: GetSize_def)
next
  case False
  with assms have "direct_mode w ptr s \<or> patch_mode w ptr s" by (simp add: eps_inv_def)
  then show ?thesis
  proof
    assume "direct_mode w ptr s"
    then obtain b i and m :: string where "eo_end s = Mem (b + int (length m) - 16)" "ptr = Mem (b + int i)" "i \<le> length m"
      unfolding direct_mode_def by blast
    then show ?thesis by (intro exI [of _ "length m - i"]) (simp add: GetSize_def of_nat_diff)
  next
    assume "patch_mode w ptr s"
    then obtain m i where "eo_end s = Patch (int (length m))" "ptr = Patch (int i)" "i \<le> length (m :: string) + 16"
      unfolding patch_mode_def by blast
    then show ?thesis by (intro exI [of _ "length m + 16 - i"]) (simp add: GetSize_def of_nat_diff)
  qed
qed

text \<open>Bytes that fit behind the position are written, in every mode.\<close>

lemma eps_store:
  assumes "eps_inv N w ptr s" and "GetSize ptr s = Some (int g)" and "length bs \<le> g"
  shows "\<exists>ptr' s'. store I bs ptr s = Some (ptr', s') \<and> eps_inv N (w @ bs) ptr' s'
     \<and> GetSize ptr' s' = Some (int (g - length bs)) \<and> eo_had_error s' = eo_had_error s"
proof (cases "eo_had_error s")
  case True
  with assms(1) obtain e i where e: "e = 0 \<or> e = 16" "eo_end s = Patch e" "ptr = Patch (int i)" "int i \<le> e + 16"
    "inv (eo_stream s)" "eps_frame s" "\<exists>k < N. full (int k)"
    by (auto simp: eps_inv_def error_mode_def)
  have g: "int g = e + 16 - int i" using assms(2) e(2,3) by (simp add: GetSize_def)
  let ?s = "s\<lparr>eo_buffer := overwrite (eo_buffer s) (int i) bs\<rparr>" and ?p = "Patch (int (i + length bs))"
  have "length (overwrite (eo_buffer s) (int i) bs) = 32"
    using eps_frameD(1) [OF e(6)] e(1) g assms(3) by (subst overwrite_length) auto
  moreover have "error_mode ?p ?s"
    unfolding error_mode_def
    by (intro conjI exI [of _ e] exI [of _ "i + length bs"]) (use e g assms(3) in simp_all)
  ultimately have "eps_inv N (w @ bs) ?p ?s"
    using True e(6,7) by (simp add: eps_inv_def eps_frame_buffer)
  moreover have "store I bs ptr s = Some (?p, ?s)" using e g assms(3) by auto
  moreover have "GetSize ?p ?s = Some (int (g - length bs))" using e(2) g assms(3) by (simp add: GetSize_def of_nat_diff)
  ultimately show ?thesis by auto
next
  case False
  with assms(1) have "direct_mode w ptr s \<or> patch_mode w ptr s" and fr: "eps_frame s" by (simp_all add: eps_inv_def)
  from this(1) show ?thesis
  proof
    assume "direct_mode w ptr s"
    then obtain w0 b m i where d: "region_at w0 b m (eo_stream s)" "eo_buffer_end s = None" "16 \<le> length m"
      "eo_end s = Mem (b + int (length m) - 16)" "ptr = Mem (b + int i)" "i \<le> length m" "w = w0 @ take i m"
      by (auto simp: direct_mode_def)
    have g: "g = length m - i" using assms(2) d(4-6) by (simp add: GetSize_def of_nat_diff)
    then have fit: "i + length bs \<le> length m" using assms(3) d(6) by simp
    let ?m = "overwrite m (int i) bs" and ?s = "s\<lparr>eo_stream := os_put I (b + int i) bs (eo_stream s)\<rparr>"
    let ?p = "Mem (b + int (i + length bs))"
    have m: "length ?m = length m" "take (i + length bs) ?m = take i m @ bs"
      using fit by (simp_all add: overwrite_def)
    have "direct_mode (w @ bs) ?p ?s"
      unfolding direct_mode_def
      by (intro exI [of _ w0] exI [of _ b] exI [of _ ?m] exI [of _ "i + length bs"])
        (use d fit m region_put [OF d(1) fit] in simp)
    moreover have "store I bs ptr s = Some (?p, ?s)" by (simp add: d(5))
    moreover have "GetSize ?p ?s = Some (int (g - length bs))" using d(4) g fit by (simp add: GetSize_def of_nat_diff)
    ultimately show ?thesis using False fr by (auto simp: eps_inv_def)
  next
    assume "patch_mode w ptr s"
    then obtain w0 be m i where d: "sink w0 be m (eo_stream s)" "eo_buffer_end s = Some be" "length m \<le> 16"
      "eo_end s = Patch (int (length m))" "ptr = Patch (int i)" "i \<le> length m + 16" "w = w0 @ take i (eo_buffer s)"
      by (auto simp: patch_mode_def)
    have g: "g = length m + 16 - i" using assms(2) d(4-6) by (simp add: GetSize_def of_nat_diff)
    then have fit: "i + length bs \<le> length m + 16" using assms(3) d(6) by simp
    let ?b = "overwrite (eo_buffer s) (int i) bs"
    let ?s = "s\<lparr>eo_buffer := ?b\<rparr>" and ?p = "Patch (int (i + length bs))"
    have b: "length ?b = 32" "take (i + length bs) ?b = take i (eo_buffer s) @ bs"
      using fit d(3) eps_frameD(1) [OF fr] by (simp_all add: overwrite_def)
    have "patch_mode (w @ bs) ?p ?s"
      unfolding patch_mode_def
      by (intro exI [of _ w0] exI [of _ be] exI [of _ m] exI [of _ "i + length bs"]) (use d fit b in simp)
    moreover have "store I bs ptr s = Some (?p, ?s)" using fit d(3,5) by simp
    moreover have "GetSize ?p ?s = Some (int (g - length bs))" using d(4) g fit by (simp add: GetSize_def of_nat_diff)
    ultimately show ?thesis using False fr b(1) by (auto simp: eps_inv_def eps_frame_buffer)
  qed
qed

end

sublocale eps_sink \<subseteq> eps_position I eps_inv
proof
  fix N w ptr s
  assume "eps_inv N w ptr s"
  from eps_GetSize [OF this] show "\<exists>g. ptr_diff (eo_end s) ptr = Some (int g - 16) \<and> GetSize ptr s = Some (int g)" by blast
next
  fix N w ptr s g and bs :: string
  assume "eps_inv N w ptr s" "GetSize ptr s = Some (int g)" "length bs \<le> g"
  from eps_store [OF this] show "\<exists>p s'. store I bs ptr s = Some (p, s') \<and> eps_inv N (w @ bs) p s'
      \<and> GetSize p s' = Some (int (g - length bs))" by blast
qed

section \<open>EpsCopyOutputStream: the next buffer, space and flushing\<close>

text \<open>
  \<open>Next\<close> moves to the next buffer from either mode and keeps the bytes written past \<open>end_\<close>;
  \<open>EnsureSpace\<close> always returns with room for 16 bytes; \<open>Flush\<close> puts everything into the memory of
  the wrapped stream, and \<open>Trim\<close> leaves that stream right behind the bytes written.
\<close>

context eps_sink begin

lemma eps_next_buffer_result:
  assumes "inv t"
  shows "(\<exists>t'. eps_next_buffer (os_Next I) t = Some (None, t') \<and> inv t' \<and> full (int (length (written t))))
    \<or> (\<exists>p r t'. eps_next_buffer (os_Next I) t = Some (Some (p, int (length r)), t') \<and> r \<noteq> []
         \<and> region_at (written t) p r t')"
  using nxt_buffer [OF assms]
proof
  assume "\<exists>s'. os_Next I t = Some (None, s') \<and> full (os_ByteCount I t)"
  then obtain t' where "os_Next I t = Some (None, t')" "full (os_ByteCount I t)" by blast
  with nxt_fail [OF assms] cnt_written [OF assms] show ?thesis by (subst (1 2) eps_next_buffer.simps) simp
next
  assume "\<exists>p n s'. os_Next I t = Some (Some (p, n), s') \<and> 0 < n"
  then obtain p n t' where n: "os_Next I t = Some (Some (p, n), t')" "0 < n" by blast
  from region_start [OF assms n(1)] obtain r where "int (length r) = n" "region_at (written t) p r t'" by blast
  moreover have "r \<noteq> []" using \<open>int (length r) = n\<close> n(2) by auto
  moreover have "eps_next_buffer (os_Next I) t = Some (Some (p, int (length r)), t')"
    using \<open>int (length r) = n\<close> n by (subst eps_next_buffer.simps) simp
  ultimately show ?thesis by blast
qed

text \<open>\<open>o\<close> bytes were written past \<open>end_\<close>; afterwards fewer are.\<close>

definition next_result :: "nat \<Rightarrow> string \<Rightarrow> nat \<Rightarrow> address \<Rightarrow> 's eps_output \<Rightarrow> bool" where
  "next_result N w k p s \<longleftrightarrow>
     (if eo_had_error s then p = Patch 0 \<and> eps_inv N w (Patch (int k)) s \<and> eo_end s = Patch 16
      else eps_inv N w (ptr_add p (int k)) s
        \<and> (\<exists>d. ptr_diff (ptr_add p (int k)) (eo_end s) = Some d \<and> d < int k))"

lemma eps_Next_direct:
  assumes "direct_mode w ptr s" and "eps_frame s" and "\<not> eo_had_error s" and "ptr_diff ptr (eo_end s) = Some (int k)"
  shows "\<exists>p s'. eps_Next I s = Some (p, s') \<and> next_result N w k p s'"
proof -
  from assms(1) obtain w0 b m i where d: "region_at w0 b m (eo_stream s)" "eo_buffer_end s = None" "16 \<le> length m"
      "eo_end s = Mem (b + int (length m) - 16)" "ptr = Mem (b + int i)" "i \<le> length m" "w = w0 @ take i m"
    by (auto simp: direct_mode_def)
  let ?h = "length m - 16"
  let ?a = "take ?h m" and ?r = "drop ?h m"
  have e: "b + int (length m) - 16 = b + int ?h" using d(3) by (simp add: of_nat_diff)
  have k: "i = ?h + k" "k \<le> 16" using assms(4) d(3-6) by (auto simp: of_nat_diff)
  have len: "length ?r = 16" "length ?a = ?h" using d(3) by simp_all
  have "os_get I (b + int ?h) (int 16) (eo_stream s) = take 16 ?r" using region_get [OF d(1), of ?h 16] d(3) by simp
  then have get: "load I 16 (eo_end s) s = Some ?r" unfolding d(4) e using len by simp
  let ?b = "overwrite (eo_buffer s) 0 ?r"
  let ?s = "s\<lparr>eo_buffer := ?b, eo_buffer_end := Some (eo_end s), eo_end := Patch 16\<rparr>"
  have b: "length ?b = 32" "take k ?b = take k ?r"
    using k(2) eps_frameD(1) [OF assms(2)] len by (simp_all add: overwrite_0)
  have "eps_Next I s = Some (Patch 0, ?s)"
    using get d(2) eps_frameD [OF assms(2)] len by (simp add: eps_Next_def)
  moreover have "region_at (w0 @ ?a) (b + int ?h) ?r (eo_stream s)"
    using region_advance [of w0 b ?a ?r] d(1) len by simp
  moreover have "w = (w0 @ ?a) @ take k ?b" unfolding b(2) d(7) k(1) by (simp add: take_add)
  ultimately have "patch_mode w (Patch (int k)) ?s"
    unfolding patch_mode_def
    by (intro exI [of _ "w0 @ ?a"] exI [of _ "eo_end s"] exI [of _ ?r] exI [of _ k])
      (use len k in \<open>simp add: sink_def d(4) e\<close>)
  with \<open>eps_Next I s = Some (Patch 0, ?s)\<close> show ?thesis
    using assms(2,3) b(1) k(2) by (auto simp: next_result_def eps_inv_def eps_frame_buffer)
qed

lemma eps_Next_patch:
  assumes "patch_mode w ptr s" and "eps_frame s" and "\<not> eo_had_error s" and "ptr_diff ptr (eo_end s) = Some (int k)"
    and "length w < N + k"
  shows "\<exists>p s'. eps_Next I s = Some (p, s') \<and> next_result N w k p s'"
proof -
  from assms(1) obtain w0 be m i where d: "sink w0 be m (eo_stream s)" "eo_buffer_end s = Some be" "length m \<le> 16"
      "eo_end s = Patch (int (length m))" "ptr = Patch (int i)" "i \<le> length m + 16" "w = w0 @ take i (eo_buffer s)"
    by (auto simp: patch_mode_def)
  let ?b = "eo_buffer s"
  let ?c = "take (length m) ?b" and ?tl = "take 16 (drop (length m) ?b)"
  have bl: "length ?b = 32" using assms(2) by (rule eps_frameD)
  have k: "i = length m + k" "k \<le> 16" using assms(4) d(3-6) by auto
  have len: "length ?c = length m" "length ?tl = 16" using bl d(3) by simp_all
  have w: "w = (w0 @ ?c) @ take k ?tl" unfolding d(7) k(1) using k(2) by (simp add: take_add min_def)
  obtain p1 t1 where st: "store I ?c be s = Some (p1, s\<lparr>eo_stream := t1\<rparr>)"
    "sink (w0 @ ?c) (ptr_add be (int (length ?c))) (drop (length ?c) m) t1"
    using sink_store [OF d(1), of ?c] len by auto
  have t1: "inv t1" "written t1 = w0 @ ?c" using sink_full st(2) len(1) by auto
  have ld: "load I (int (length m)) (Patch 0) s = Some ?c" using d(3) by (simp add: fetch_def)
  have ld2: "load I 16 (Patch (int (length m))) s' = Some ?tl" if "eo_buffer s' = ?b" for s' :: "'s eps_output"
    using d(3) that by (simp add: fetch_def)
  have st2: "store I ?tl (Patch 0) s' = Some (Patch 16, s'\<lparr>eo_buffer := overwrite (eo_buffer s') 0 ?tl\<rparr>)"
    "store I ?tl (Mem p) s' = Some (Mem (p + 16), s'\<lparr>eo_stream := os_put I p ?tl (eo_stream s')\<rparr>)"
    for s' :: "'s eps_output" and p using len by simp_all
  note start = eps_Next_def d(2,4) ld st(1) eps_frameD(2) [OF assms(2)]
  from eps_next_buffer_result [OF t1(1)] show ?thesis
  proof (elim disjE exE conjE)
    fix t'
    assume t': "eps_next_buffer (os_Next I) t1 = Some (None, t')" "inv t'" "full (int (length (written t1)))"
    let ?s = "s\<lparr>eo_stream := t', eo_had_error := True, eo_end := Patch 16\<rparr>"
    have "eps_Next I s = Some (Patch 0, ?s)" by (simp add: start t'(1) eps_Error_def del: load.simps store.simps)
    moreover have "error_mode (Patch (int k)) ?s" using t'(2) k(2) by (auto simp: error_mode_def)
    moreover have "length (written t1) < N" using assms(5) k(2) bl d(3) unfolding t1(2) w by simp
    ultimately show ?thesis using t'(3) assms(2) by (auto simp: next_result_def eps_inv_def)
  next
    fix p r t'
    assume t': "eps_next_buffer (os_Next I) t1 = Some (Some (p, int (length r)), t')" "r \<noteq> []"
      "region_at (written t1) p r t'"
    show ?thesis
    proof (cases "16 < length r")
      case True
      let ?m = "?tl @ drop 16 r"
      let ?s = "s\<lparr>eo_stream := os_put I p ?tl t', eo_end := Mem (p + int (length r) - 16), eo_buffer_end := None\<rparr>"
      have "eps_Next I s = Some (Mem p, ?s)"
        using True by (simp add: start t'(1) ld2 st2 del: load.simps store.simps)
      moreover have "region_at (w0 @ ?c) p ?m (os_put I p ?tl t')"
        using region_put [OF t'(3), of 0 ?tl] True len t1(2) by (simp add: overwrite_0)
      then have "direct_mode w (Mem (p + int k)) ?s"
        unfolding direct_mode_def
        by (intro exI [of _ "w0 @ ?c"] exI [of _ p] exI [of _ ?m] exI [of _ k])
          (use True len k(2) w in simp)
      ultimately show ?thesis
        using assms(2,3) True by (auto simp: next_result_def eps_inv_def)
    next
      case False
      let ?b' = "overwrite ?b 0 ?tl"
      let ?s = "s\<lparr>eo_stream := t', eo_buffer := ?b', eo_buffer_end := Some (Mem p), eo_end := Patch (int (length r))\<rparr>"
      have b': "length ?b' = 32" "take k ?b' = take k ?tl"
        using k(2) bl len by (simp_all add: overwrite_0)
      have "eps_Next I s = Some (Patch 0, ?s)"
        using False by (simp add: start t'(1) ld2 st2 del: load.simps store.simps)
      moreover have "patch_mode w (Patch (int k)) ?s"
        unfolding patch_mode_def
        by (intro exI [of _ "w0 @ ?c"] exI [of _ "Mem p"] exI [of _ r] exI [of _ k])
          (use False len k(2) w b' t'(3) t1(2) in \<open>simp add: sink_def\<close>)
      moreover have "0 < length r" using t'(2) by simp
      ultimately show ?thesis
        using assms(2,3) b'(1) by (auto simp: next_result_def eps_inv_def eps_frame_buffer)
    qed
  qed
qed

lemma eps_Next_result:
  assumes "eps_inv N w ptr s" and "\<not> eo_had_error s" and "ptr_diff ptr (eo_end s) = Some (int k)"
    and "length w < N + k"
  shows "\<exists>p s'. eps_Next I s = Some (p, s') \<and> next_result N w k p s'"
  using assms eps_Next_direct [of w ptr s k N] eps_Next_patch [of w ptr s k N] by (auto simp: eps_inv_def)

subsection \<open>EnsureSpace\<close>

text \<open>With room for at least 16 bytes.\<close>

definition roomy :: "nat \<Rightarrow> string \<Rightarrow> address \<Rightarrow> 's eps_output \<Rightarrow> bool" where
  "roomy N w ptr s \<longleftrightarrow> eps_inv N w ptr s \<and> (\<exists>g \<ge> 16. GetSize ptr s = Some (int g))"

lemma ptr_diff_swap: "ptr_diff p q = Some d \<Longrightarrow> ptr_diff q p = Some (- d)"
  by (cases p; cases q) auto

lemma GetSize_diff: "ptr_diff ptr (eo_end s) = Some d \<Longrightarrow> GetSize ptr s = Some (16 - d)"
  using ptr_diff_swap [of ptr "eo_end s" d] by (simp add: GetSize_def)

lemma roomyI: "eps_inv N w ptr s \<Longrightarrow> ptr_diff ptr (eo_end s) = Some d \<Longrightarrow> d \<le> 0 \<Longrightarrow> roomy N w ptr s"
  unfolding roomy_def using GetSize_diff [of ptr s d] by (auto intro: exI [of _ "nat (16 - d)"])

lemma EnsureSpaceFallback_result:
  assumes "eps_inv N w ptr s" and "ptr_diff ptr (eo_end s) = Some (int k)" and "length w < N"
  shows "\<exists>p s'. EnsureSpaceFallback I ptr s = Some (p, s') \<and> roomy N w p s' \<and> (eo_had_error s \<longrightarrow> s' = s \<and> p = Patch 0)"
  using assms
proof (induction k arbitrary: ptr s rule: less_induct)
  case (less k)
  show ?case
  proof (cases "eo_had_error s")
    case True
    with less.prems(1) obtain e where "e = 0 \<or> e = 16" "eo_end s = Patch e" "error_mode ptr s"
      by (auto simp: eps_inv_def error_mode_def)
    then have "eps_inv N w (Patch 0) s" "ptr_diff (Patch 0) (eo_end s) = Some (- e)" "- e \<le> 0"
      using less.prems(1) True by (auto simp: eps_inv_def error_mode_def intro: exI [of _ 0])
    from roomyI [OF this] True show ?thesis by (subst EnsureSpaceFallback.simps) simp
  next
    case False
    from less.prems(3) have "length w < N + k" by simp
    from eps_Next_result [OF less.prems(1) False less.prems(2) this] obtain p s1 where
      n: "eps_Next I s = Some (p, s1)" "next_result N w k p s1" by blast
    let ?q = "ptr_add p (int k)"
    have q: "eps_inv N w ?q s1" "\<exists>d. ptr_diff ?q (eo_end s1) = Some d \<and> (eo_had_error s1 \<or> d < int k)"
      using n(2) by (auto simp: next_result_def split: if_splits)
    from q(2) obtain d where d: "ptr_diff ?q (eo_end s1) = Some d" "eo_had_error s1 \<or> d < int k" by blast
    have step: "EnsureSpaceFallback I ptr s = (if d \<ge> 0 then EnsureSpaceFallback I ?q s1 else Some (?q, s1))"
      using n(1) False less.prems(2) d(1) by (subst EnsureSpaceFallback.simps) simp
    show ?thesis
    proof (cases "d \<ge> 0")
      case False
      with step roomyI [OF q(1) d(1)] \<open>\<not> eo_had_error s\<close> show ?thesis by simp
    next
      case d0: True
      show ?thesis
      proof (cases "eo_had_error s1")
        case True
        then have "eo_end s1 = Patch 16" using n(2) by (simp add: next_result_def)
        then have "eps_inv N w (Patch 0) s1" "ptr_diff (Patch 0) (eo_end s1) = Some (- 16)"
          using q(1) True by (auto simp: eps_inv_def error_mode_def intro: exI [of _ 0])
        from roomyI [OF this] step d0 True False show ?thesis by (simp add: EnsureSpaceFallback.simps [of I ?q s1])
      next
        case ok: False
        with d have "nat d < k" "ptr_diff ?q (eo_end s1) = Some (int (nat d))" using d0 by auto
        from less.IH [OF this(1) q(1) this(2) less.prems(3)] step d0 False show ?thesis by auto
      qed
    qed
  qed
qed

lemma EnsureSpace_room:
  assumes "eps_inv N w ptr s" and "length w < N"
  shows "\<exists>p s'. EnsureSpace I ptr s = Some (p, s') \<and> roomy N w p s'"
proof -
  obtain g where g: "ptr_diff ptr (eo_end s) = Some (16 - int g)" using eps_GetSize [OF assms(1)] by blast
  show ?thesis
  proof (cases "16 - int g \<ge> 0")
    case True
    then have "ptr_diff ptr (eo_end s) = Some (int (16 - g))" using g by (simp add: of_nat_diff)
    from EnsureSpaceFallback_result [OF assms(1) this assms(2)] g True show ?thesis
      by (auto simp: EnsureSpace_def)
  next
    case False
    with roomyI [OF assms(1) g] g show ?thesis by (simp add: EnsureSpace_def)
  qed
qed

end

end
