(* ===== verification/Eps_Flush.thy ===== *)
theory Eps_Flush
  imports Eps_Laws
begin

section \<open>EpsCopyOutputStream: flushing, direct buffers and skipping\<close>

text \<open>
  \<open>Flush\<close> puts everything that was written into the memory of the wrapped stream. Every function
  that gives the position back to the stream or hands out its buffer starts with it.
\<close>

context eps_sink begin

lemma Flush_loop_result:
  assumes "eps_inv N w ptr s" and "\<not> eo_had_error s" and "length w \<le> N"
  shows "\<exists>b p s'. eps_Flush_loop I ptr s = Some (b, p, s') \<and> (b \<longleftrightarrow> \<not> eo_had_error s')
     \<and> (b \<longrightarrow> eps_inv N w p s' \<and> (eo_buffer_end s' = None \<or> (\<exists>d \<le> 0. ptr_diff p (eo_end s') = Some d)))
     \<and> (\<not> b \<longrightarrow> eps_inv N w (Patch 0) s')"
proof -
  obtain d where "ptr_diff ptr (eo_end s) = Some d" using eps_GetSize [OF assms(1)] by blast
  then show ?thesis using assms(1,2)
  proof (induction "nat d" arbitrary: d ptr s rule: less_induct)
    case less
    show ?case
    proof (cases "eo_buffer_end s = None \<or> \<not> 0 < d")
      case True
      with less.prems have "eps_Flush_loop I ptr s = Some (True, ptr, s)"
        by (subst eps_Flush_loop.simps) auto
      moreover have "eo_buffer_end s = None \<or> (\<exists>d \<le> 0. ptr_diff ptr (eo_end s) = Some d)"
        using True less.prems(1) by (cases "0 < d") auto
      ultimately show ?thesis using less.prems(2,3)
        by (intro exI [of _ True] exI [of _ ptr] exI [of _ s]) simp
    next
      case False
      then have "0 < nat d" by simp
      then have d: "ptr_diff ptr (eo_end s) = Some (int (nat d))" "length w < N + nat d"
        using less.prems(1) assms(3) by simp_all
      from eps_Next_result [OF less.prems(2,3) d] obtain p s1 where
        n: "eps_Next I s = Some (p, s1)" "next_result N w (nat d) p s1" by blast
      have step: "eps_Flush_loop I ptr s
          = (if eo_had_error s1 then Some (False, ptr_add p d, s1) else eps_Flush_loop I (ptr_add p d) s1)"
        using n(1) False less.prems(1,3) by (subst eps_Flush_loop.simps) auto
      show ?thesis
      proof (cases "eo_had_error s1")
        case True
        with n(2) have "eps_inv N w (Patch 0) s1"
          by (auto simp: next_result_def eps_inv_def error_mode_def intro: exI [of _ 0])
        with step True show ?thesis
          by (intro exI [of _ False] exI [of _ "ptr_add p d"] exI [of _ s1]) simp
      next
        case ok: False
        then obtain d' where "eps_inv N w (ptr_add p d) s1" "ptr_diff (ptr_add p d) (eo_end s1) = Some d'" "d' < d"
          using n(2) False by (auto simp: next_result_def)
        moreover from this(3) False have "nat d' < nat d" by auto
        ultimately show ?thesis using less.hyps [of d' "ptr_add p d" s1] step ok by simp
      qed
    qed
  qed
qed

text \<open>The state after \<open>Flush\<close>: \<open>r\<close> bytes are left behind \<open>buffer_end_\<close>.\<close>

definition flushed :: "string \<Rightarrow> int \<Rightarrow> 's eps_output \<Rightarrow> bool" where
  "flushed w r s \<longleftrightarrow> eps_frame s \<and> \<not> eo_had_error s
     \<and> (\<exists>be m. sink w be m (eo_stream s) \<and> eo_buffer_end s = Some be \<and> r = int (length m))"

lemma Flush_result:
  assumes "eps_inv N w ptr s" and "\<not> eo_had_error s" and "length w \<le> N"
  shows "\<exists>r s'. eps_Flush I ptr s = Some (r, s')
     \<and> (if eo_had_error s' then r = 0 \<and> eps_inv N w (Patch 0) s' else flushed w r s')"
proof -
  from Flush_loop_result [OF assms] obtain b p s1 where
    l: "eps_Flush_loop I ptr s = Some (b, p, s1)" "b \<longleftrightarrow> \<not> eo_had_error s1"
      "b \<Longrightarrow> eps_inv N w p s1 \<and> (eo_buffer_end s1 = None \<or> (\<exists>d \<le> 0. ptr_diff p (eo_end s1) = Some d))"
      "\<not> b \<Longrightarrow> eps_inv N w (Patch 0) s1" by blast
  show ?thesis
  proof (cases b)
    case False
    with l show ?thesis by (simp add: eps_Flush_def)
  next
    case True
    then have "direct_mode w p s1 \<or> patch_mode w p s1" and fr: "eps_frame s1" "\<not> eo_had_error s1"
      using l(2,3) by (auto simp: eps_inv_def)
    from this(1) show ?thesis
    proof
      assume "direct_mode w p s1"
      then obtain w0 b m i where d: "region_at w0 b m (eo_stream s1)" "eo_buffer_end s1 = None"
        "eo_end s1 = Mem (b + int (length m) - 16)" "p = Mem (b + int i)" "i \<le> length m" "w = w0 @ take i m"
        by (auto simp: direct_mode_def)
      let ?s = "s1\<lparr>eo_buffer_end := Some p\<rparr>"
      have "eps_Flush I ptr s = Some (int (length (drop i m)), ?s)"
        using l(1) True d(2-5) by (simp add: eps_Flush_def of_nat_diff)
      moreover have "region_at w (b + int i) (drop i m) (eo_stream s1)"
        using region_advance [of w0 b "take i m" "drop i m"] d(1,5,6) by (simp add: min_absorb2)
      then have "flushed w (int (length (drop i m))) ?s"
        unfolding flushed_def using fr d(4) by (auto simp: sink_def)
      ultimately show ?thesis using fr(2) by auto
    next
      assume "patch_mode w p s1"
      then obtain w0 be m i where d: "sink w0 be m (eo_stream s1)" "eo_buffer_end s1 = Some be" "length m \<le> 16"
        "eo_end s1 = Patch (int (length m))" "p = Patch (int i)" "w = w0 @ take i (eo_buffer s1)"
        by (auto simp: patch_mode_def)
      have i: "i \<le> length m" using l(3) True d(2,4,5) by auto
      let ?c = "take i (eo_buffer s1)"
      have c: "length ?c = i" using i d(3) eps_frameD(1) [OF fr(1)] by simp
      from sink_store [OF d(1), of ?c] c i obtain q t where
        t: "store I ?c be s1 = Some (q, s1\<lparr>eo_stream := t\<rparr>)" "sink w (ptr_add be (int i)) (drop i m) t"
        by (auto simp: d(6))
      let ?s = "s1\<lparr>eo_stream := t, eo_buffer_end := Some (ptr_add be (int i))\<rparr>"
      have "load I (int i) (Patch 0) s1 = Some ?c" using i d(3) by (simp add: fetch_def)
      then have "eps_Flush I ptr s = Some (int (length (drop i m)), ?s)"
        using l(1) True d(2,4,5) t(1) i by (simp add: eps_Flush_def of_nat_diff del: load.simps store.simps)
      moreover have "flushed w (int (length (drop i m))) ?s"
        unfolding flushed_def using fr t(2) by auto
      ultimately show ?thesis using fr(2) by auto
    qed
  qed
qed

subsection \<open>Trim and SetInitialBuffer\<close>

text \<open>The state after \<open>Trim\<close>, without a buffer, is the state of a new object.\<close>

definition trimmed :: "string \<Rightarrow> 's eps_output \<Rightarrow> bool" where
  "trimmed w s \<longleftrightarrow> eps_frame s \<and> \<not> eo_had_error s \<and> inv (eo_stream s) \<and> written (eo_stream s) = w
     \<and> eo_end s = Patch 0 \<and> eo_buffer_end s = Some (Patch 0)"

lemma trimmed_inv: "trimmed w s \<Longrightarrow> eps_inv N w (Patch 0) s"
proof -
  assume t: "trimmed w s"
  then have "patch_mode w (Patch 0) s"
    unfolding patch_mode_def
    by (intro exI [of _ w] exI [of _ "Patch 0"] exI [of _ "[]"] exI [of _ 0]) (simp add: sink_def trimmed_def)
  with t show ?thesis by (simp add: eps_inv_def trimmed_def)
qed

lemma Trim_result:
  assumes "eps_inv N w ptr s" and "length w \<le> N"
  shows "\<exists>p s'. eps_Trim I ptr s = Some (p, s') \<and> inv (eo_stream s') \<and> eps_inv N w p s'
     \<and> (\<not> eo_had_error s' \<longrightarrow> trimmed w s' \<and> p = Patch 0)"
proof (cases "eo_had_error s")
  case True
  with assms(1) show ?thesis by (auto simp: eps_Trim_def eps_inv_def error_mode_def)
next
  case False
  from Flush_result [OF assms(1) False assms(2)] obtain r s1 where
    f: "eps_Flush I ptr s = Some (r, s1)"
      "if eo_had_error s1 then r = 0 \<and> eps_inv N w (Patch 0) s1 else flushed w r s1" by blast
  have fr: "eps_frame s1" using f(2) by (auto simp: eps_inv_def flushed_def split: if_splits)
  have b: "\<exists>t. os_BackUp I r (eo_stream s1) = Some t \<and> inv t \<and> (\<not> eo_had_error s1 \<longrightarrow> written t = w)"
  proof (cases "eo_had_error s1")
    case True
    then have "inv (eo_stream s1)" "r = 0" using f(2) by (auto simp: eps_inv_def error_mode_def)
    with backup_0 [of "eo_stream s1"] True show ?thesis by auto
  next
    case False
    with f(2) sink_backup show ?thesis by (auto simp: flushed_def)
  qed
  then obtain t where t: "os_BackUp I r (eo_stream s1) = Some t" "inv t" "\<not> eo_had_error s1 \<Longrightarrow> written t = w" by blast
  let ?s = "s1\<lparr>eo_stream := t, eo_buffer_end := Some (Patch 0), eo_end := Patch 0\<rparr>"
  have e: "eps_Trim I ptr s = Some (Patch 0, ?s)"
    using False f(1) t(1) eps_frameD(2) [OF fr] by (simp add: eps_Trim_def deref_def)
  show ?thesis
  proof (cases "eo_had_error s1")
    case True
    with f(2) fr t(2) have "eps_inv N w (Patch 0) ?s"
      by (auto simp: eps_inv_def error_mode_def intro: exI [of _ 0])
    with e t(2) True show ?thesis by simp
  next
    case False
    with t fr have "trimmed w ?s" by (simp add: trimmed_def)
    from trimmed_inv [OF this] this e t(2) show ?thesis by simp
  qed
qed

lemma SetInitialBuffer_inv:
  assumes "sink w be m (eo_stream s)" and "eps_frame s" and "\<not> eo_had_error s"
  shows "\<exists>p s'. SetInitialBuffer be (int (length m)) s = (p, s') \<and> eps_inv N w p s' \<and> \<not> eo_had_error s'
     \<and> eo_stream s' = eo_stream s"
proof (cases "16 < length m")
  case True
  then obtain q where q: "be = Mem q" "region_at w q m (eo_stream s)" using assms(1) by (auto simp: sink_def)
  let ?s = "s\<lparr>eo_end := Mem (q + (int (length m) - 16)), eo_buffer_end := None\<rparr>"
  have "direct_mode w (Mem q) ?s"
    unfolding direct_mode_def
    by (intro exI [of _ w] exI [of _ q] exI [of _ m] exI [of _ 0]) (use q True in simp)
  with True q assms(2,3) show ?thesis by (simp add: SetInitialBuffer_def eps_inv_def)
next
  case False
  let ?s = "s\<lparr>eo_end := Patch (int (length m)), eo_buffer_end := Some be\<rparr>"
  have "patch_mode w (Patch 0) ?s"
    unfolding patch_mode_def
    by (intro exI [of _ w] exI [of _ be] exI [of _ m] exI [of _ 0]) (use assms(1) False in simp)
  with False assms(2,3) show ?thesis by (simp add: SetInitialBuffer_def eps_inv_def)
qed

lemma SetInitialBuffer_frame: "SetInitialBuffer be n s = (p, s') \<Longrightarrow> eo_stream s' = eo_stream s"
  by (auto simp: SetInitialBuffer_def split: if_splits)

lemma SetInitialBuffer_stream:
  "SetInitialBuffer be n s = (p, s') \<Longrightarrow> SetInitialBuffer be n (s\<lparr>eo_stream := t\<rparr>) = (p, s'\<lparr>eo_stream := t\<rparr>)"
  by (auto simp: SetInitialBuffer_def split: if_splits)

lemma FlushAndResetBuffer_result:
  assumes "eps_inv N w ptr s" and "length w \<le> N"
  shows "\<exists>p s'. FlushAndResetBuffer I ptr s = Some (p, s') \<and> eps_inv N w p s'
     \<and> (\<not> eo_had_error s' \<longrightarrow> (\<exists>be m u. sink w be m (eo_stream u) \<and> SetInitialBuffer be (int (length m)) u = (p, s')
          \<and> eps_frame u \<and> \<not> eo_had_error u))"
proof (cases "eo_had_error s")
  case True
  with assms(1) show ?thesis
    by (auto simp: FlushAndResetBuffer_def eps_inv_def error_mode_def intro: exI [of _ 0])
next
  case False
  from Flush_result [OF assms(1) False assms(2)] obtain r s1 where
    f: "eps_Flush I ptr s = Some (r, s1)"
      "if eo_had_error s1 then r = 0 \<and> eps_inv N w (Patch 0) s1 else flushed w r s1" by blast
  show ?thesis
  proof (cases "eo_had_error s1")
    case True
    with f False show ?thesis by (simp add: FlushAndResetBuffer_def)
  next
    case ok: False
    with f(2) obtain be m where m: "sink w be m (eo_stream s1)" "eo_buffer_end s1 = Some be" "r = int (length m)"
      "eps_frame s1" by (auto simp: flushed_def)
    from SetInitialBuffer_inv [OF m(1,4) ok, of N] obtain p s' where
      i: "SetInitialBuffer be (int (length m)) s1 = (p, s')" "eps_inv N w p s'" by blast
    moreover have "FlushAndResetBuffer I ptr s = Some (p, s')"
      using f(1) False ok m(2,3) i(1) by (simp add: FlushAndResetBuffer_def)
    ultimately show ?thesis using m(1,4) ok by blast
  qed
qed

subsection \<open>Direct buffers\<close>

text \<open>
  A client that asks for a buffer of the size of its bytes and fills it, or falls back on
  \<open>WriteRaw\<close>, as the example in the header file does.
\<close>

lemma GetDirectBufferForNBytes_result:
  assumes "eps_inv N w ptr s" and "length w \<le> N"
  shows "\<exists>r p s'. GetDirectBufferForNBytesAndAdvance I (int (length bs)) ptr s = Some (r, p, s')
     \<and> (r = None \<longrightarrow> eps_inv N w p s')
     \<and> (\<forall>res. r = Some res \<longrightarrow> (\<exists>q s''. store I bs res s' = Some (q, s'') \<and> eps_inv N (w @ bs) p s''))"
proof (cases "eo_had_error s")
  case True
  with assms(1) show ?thesis
    by (auto simp: GetDirectBufferForNBytesAndAdvance_def eps_inv_def error_mode_def intro: exI [of _ 0])
next
  case False
  from Flush_result [OF assms(1) False assms(2)] obtain r s1 where
    f: "eps_Flush I ptr s = Some (r, s1)"
      "if eo_had_error s1 then r = 0 \<and> eps_inv N w (Patch 0) s1 else flushed w r s1" by blast
  show ?thesis
  proof (cases "eo_had_error s1")
    case True
    with f False show ?thesis by (simp add: GetDirectBufferForNBytesAndAdvance_def)
  next
    case ok: False
    with f(2) obtain be m where m: "sink w be m (eo_stream s1)" "eo_buffer_end s1 = Some be" "r = int (length m)"
      "eps_frame s1" by (auto simp: flushed_def)
    show ?thesis
    proof (cases "length bs \<le> length m")
      case False
      with SetInitialBuffer_inv [OF m(1,4) ok, of N] f(1) m(2,3) ok \<open>\<not> eo_had_error s\<close> show ?thesis
        by (auto simp: GetDirectBufferForNBytesAndAdvance_def)
    next
      case True
      let ?be = "ptr_add be (int (length bs))" and ?m = "drop (length bs) m"
      obtain p s2 where s2: "SetInitialBuffer ?be (int (length ?m)) s1 = (p, s2)" "eo_stream s2 = eo_stream s1"
        using SetInitialBuffer_frame by (cases "SetInitialBuffer ?be (int (length ?m)) s1") blast
      have g: "GetDirectBufferForNBytesAndAdvance I (int (length bs)) ptr s = Some (Some be, p, s2)"
        using f(1) m(2,3) ok False True s2(1)
        by (simp add: GetDirectBufferForNBytesAndAdvance_def of_nat_diff)
      from m(1) s2(2) have "sink w be m (eo_stream s2)" by simp
      from sink_store [OF this True] obtain q t where
        t: "store I bs be s2 = Some (q, s2\<lparr>eo_stream := t\<rparr>)" "sink (w @ bs) ?be ?m t" by blast
      have "sink (w @ bs) ?be ?m (eo_stream (s1\<lparr>eo_stream := t\<rparr>))" using t(2) by simp
      from SetInitialBuffer_inv [OF this, of N] SetInitialBuffer_stream [OF s2(1), of t] m(4) ok
      have "eps_inv N (w @ bs) p (s2\<lparr>eo_stream := t\<rparr>)" by auto
      with g t(1) show ?thesis by auto
    qed
  qed
qed

lemma sink_put:
  assumes "sink w be m (eo_stream s)" and "length c \<le> length m"
  shows "\<exists>p t. store I c be s = Some (p, s\<lparr>eo_stream := t\<rparr>) \<and> sink w be (c @ drop (length c) m) t"
  using assms(1) unfolding sink_def
proof (elim disjE exE conjE)
  fix q
  assume "be = Mem q" "region_at w q m (eo_stream s)"
  with region_put [of w q m "eo_stream s" 0 c] assms(2)
  show "\<exists>p t. store I c be s = Some (p, s\<lparr>eo_stream := t\<rparr>)
     \<and> ((\<exists>q. be = Mem q \<and> region_at w q (c @ drop (length c) m) t)
       \<or> be = Patch 0 \<and> c @ drop (length c) m = [] \<and> inv t \<and> written t = w)"
    by (auto simp: overwrite_0)
next
  assume "be = Patch 0" "m = []" "inv (eo_stream s)" "written (eo_stream s) = w"
  with assms(2) show "\<exists>p t. store I c be s = Some (p, s\<lparr>eo_stream := t\<rparr>)
     \<and> ((\<exists>q. be = Mem q \<and> region_at w q (c @ drop (length c) m) t)
       \<or> be = Patch 0 \<and> c @ drop (length c) m = [] \<and> inv t \<and> written t = w)"
    by (intro exI [of _ "Patch 0"] exI [of _ "eo_stream s"]) simp
qed

text \<open>\<open>Flush\<close> right after \<open>SetInitialBuffer\<close> changes nothing in the memory.\<close>

lemma Flush_fresh:
  assumes "SetInitialBuffer be (int (length m)) s = (p, s1)" and "sink w be m (eo_stream s)" and "\<not> eo_had_error s"
  shows "\<exists>s2. eps_Flush I p s1 = Some (int (length m), s2) \<and> sink w be m (eo_stream s2) \<and> eo_buffer_end s2 = Some be
     \<and> \<not> eo_had_error s2 \<and> (eps_frame s \<longrightarrow> eps_frame s2)"
proof (cases "16 < length m")
  case True
  then obtain q where "be = Mem q" "region_at w q m (eo_stream s)" using assms(2) by (auto simp: sink_def)
  with True assms show ?thesis
    by (auto simp: SetInitialBuffer_def eps_Flush_def eps_Flush_loop.simps [of I _ s1] sink_def)
next
  case False
  have s1: "s1 = s\<lparr>eo_end := Patch (int (length m)), eo_buffer_end := Some be\<rparr>" "p = Patch 0"
    using False assms(1) by (simp_all add: SetInitialBuffer_def)
  have "sink w be m (eo_stream s1)" using assms(2) by (simp add: s1)
  from sink_put [OF this, of "[]"] obtain q t where
    st: "store I [] be s1 = Some (q, s1\<lparr>eo_stream := t\<rparr>)" and t: "sink w be m t" by auto
  have l: "eps_Flush_loop I p s1 = Some (True, p, s1)" "load I 0 (Patch 0) s1 = Some []"
    unfolding s1 by (subst eps_Flush_loop.simps) (simp_all add: fetch_def)
  have "eps_Flush I p s1 = Some (int (length m), s1\<lparr>eo_stream := t, eo_buffer_end := Some be\<rparr>)"
    using l st by (simp add: eps_Flush_def s1 del: load.simps store.simps)
  with t assms(3) s1(1) show ?thesis by simp
qed

lemma GetDirectBufferPointer_result:
  assumes "eps_inv N w ptr s" and "length w < N"
  shows "\<exists>r p s'. eps_GetDirectBufferPointer I ptr s = Some (r, p, s')
     \<and> (r = None \<longrightarrow> eps_inv N w p s' \<and> eo_had_error s')
     \<and> (\<forall>data n. r = Some (data, n) \<longrightarrow> 0 < n \<and> eps_inv N w p s'
          \<and> (\<exists>m s0. sink w data m (eo_stream s0) \<and> n = int (length m) \<and> SetInitialBuffer data n s0 = (p, s')
               \<and> eps_frame s0 \<and> \<not> eo_had_error s0))"
proof (cases "eo_had_error s")
  case True
  with assms(1) show ?thesis
    by (auto simp: eps_GetDirectBufferPointer_def eps_inv_def error_mode_def intro: exI [of _ 0])
next
  case False
  have "length w \<le> N" using assms(2) by simp
  from Flush_result [OF assms(1) False this] obtain r s1 where
    f: "eps_Flush I ptr s = Some (r, s1)"
      "if eo_had_error s1 then r = 0 \<and> eps_inv N w (Patch 0) s1 else flushed w r s1" by blast
  show ?thesis
  proof (cases "eo_had_error s1")
    case True
    with f False show ?thesis by (simp add: eps_GetDirectBufferPointer_def)
  next
    case ok: False
    with f(2) obtain be m where m: "sink w be m (eo_stream s1)" "eo_buffer_end s1 = Some be" "r = int (length m)"
      "eps_frame s1" by (auto simp: flushed_def)
    show ?thesis
    proof (cases "m = []")
      case False
      from SetInitialBuffer_inv [OF m(1,4) ok, of N] obtain p s2 where
        "SetInitialBuffer be (int (length m)) s1 = (p, s2)" "eps_inv N w p s2" by blast
      with f(1) m ok False \<open>\<not> eo_had_error s\<close> show ?thesis
        by (auto simp: eps_GetDirectBufferPointer_def)
    next
      case True
      with m(1) have t1: "inv (eo_stream s1)" "written (eo_stream s1) = w" by (auto dest: sink_full)
      have start: "eps_GetDirectBufferPointer I ptr s = do {
            (r, st) \<leftarrow> eps_next_buffer (os_Next I) (eo_stream s1);
            let s = s1\<lparr>eo_stream := st\<rparr>;
            case r of
              None \<Rightarrow> (let (pp, s) = eps_Error s in Some (None, pp, s))
            | Some (data, n) \<Rightarrow>
                (let (pp, s) = SetInitialBuffer (Mem data) n s in Some (Some (Mem data, n), pp, s)) }"
        using f(1) m(2,3) True ok False eps_frameD(2) [OF m(4)]
        by (simp add: eps_GetDirectBufferPointer_def deref_def)
      from eps_next_buffer_result [OF t1(1)] show ?thesis
      proof (elim disjE exE conjE)
        fix t'
        assume t': "eps_next_buffer (os_Next I) (eo_stream s1) = Some (None, t')" "inv t'"
          "full (int (length (written (eo_stream s1))))"
        let ?s = "s1\<lparr>eo_stream := t', eo_had_error := True, eo_end := Patch 16\<rparr>"
        have "eps_GetDirectBufferPointer I ptr s = Some (None, Patch 0, ?s)"
          unfolding start by (simp add: t'(1) eps_Error_def)
        moreover have "eps_inv N w (Patch 0) ?s"
          using t' m(4) assms(2) t1(2) by (auto simp: eps_inv_def error_mode_def intro: exI [of _ 0])
        ultimately show ?thesis by simp
      next
        fix q r' t'
        assume t': "eps_next_buffer (os_Next I) (eo_stream s1) = Some (Some (q, int (length r')), t')" "r' \<noteq> []"
          "region_at (written (eo_stream s1)) q r' t'"
        let ?s = "s1\<lparr>eo_stream := t'\<rparr>"
        have sk: "sink w (Mem q) r' (eo_stream ?s)" using t'(3) t1(2) by (simp add: sink_def)
        from SetInitialBuffer_inv [OF this, of N] m(4) ok obtain p s2 where
          s2: "SetInitialBuffer (Mem q) (int (length r')) ?s = (p, s2)" "eps_inv N w p s2" by auto
        then have "eps_GetDirectBufferPointer I ptr s = Some (Some (Mem q, int (length r')), p, s2)"
          unfolding start by (simp add: t'(1))
        moreover have "\<exists>m s0. sink w (Mem q) m (eo_stream s0) \<and> int (length r') = int (length m)
            \<and> SetInitialBuffer (Mem q) (int (length r')) s0 = (p, s2) \<and> eps_frame s0 \<and> \<not> eo_had_error s0"
          by (intro exI [of _ r'] exI [of _ ?s]) (use sk s2(1) m(4) ok in simp)
        ultimately show ?thesis using s2(2) t'(2) by auto
      qed
    qed
  qed
qed

end

end
