(* ===== verification/Eps_Write.thy ===== *)
theory Eps_Write
  imports Eps_Flush
begin


section \<open>EpsCopyOutputStream: writing\<close>

text \<open>
  \<open>WriteRaw\<close>, its variant that may alias and \<open>WriteCord\<close> append exactly their bytes to what was
  written so far, so that the class over a stream is a writer for all kinds of fields.
\<close>

context eps_sink begin

subsection \<open>Raw bytes\<close>

lemma WriteRaw_loop_result:
  assumes "eps_inv N w ptr s" and "GetSize ptr s = Some (int g)" and "length w + length data \<le> N"
  shows "\<exists>p s'. WriteRaw_loop I data (int g) ptr s = Some (p, s') \<and> eps_inv N (w @ data) p s'"
  using assms
proof (induction "2 * length data + (if g = 0 then 1 else 0)" arbitrary: data g w ptr s rule: less_induct)
  case less
  show ?case
  proof (cases "g < length data")
    case False
    then have "length data \<le> g" by simp
    from eps_store [OF less.prems(1,2) this] False show ?thesis
      by (subst WriteRaw_loop.simps) auto
  next
    case True
    let ?c = "take g data"
    have c: "length ?c = g" using True by simp
    from eps_store [OF less.prems(1,2), of ?c] c obtain p s1 where
      s1: "store I ?c ptr s = Some (p, s1)" "eps_inv N (w @ ?c) p s1" "GetSize p s1 = Some (int 0)" by auto
    have "ptr_diff p (eo_end s1) = Some (int 16)"
      using s1(3) eps_GetSize [OF s1(2)] by auto
    moreover have "length (w @ ?c) < N" using less.prems(3) True c by simp
    ultimately obtain p2 s2 where
      s2: "EnsureSpaceFallback I p s1 = Some (p2, s2)" "roomy N (w @ ?c) p2 s2"
      using EnsureSpaceFallback_result [OF s1(2)] by blast
    then obtain g2 where g2: "eps_inv N (w @ ?c) p2 s2" "16 \<le> g2" "GetSize p2 s2 = Some (int g2)"
      by (auto simp: roomy_def)
    have "2 * length (drop g data) + (if g2 = 0 then 1 else 0) < 2 * length data + (if g = 0 then 1 else 0)"
      using True g2(2) by auto
    from less.hyps [OF this g2(1,3)] less.prems(3) c obtain p3 s3 where
      "WriteRaw_loop I (drop g data) (int g2) p2 s2 = Some (p3, s3)" "eps_inv N ((w @ ?c) @ drop g data) p3 s3"
      by auto
    with s1(1) s2(1) g2(3) True show ?thesis by (subst WriteRaw_loop.simps) (simp del: store.simps)
  qed
qed

lemma eps_WriteRaw_appends: "appends (eps_WriteRaw I data) data"
proof (rule appendsI)
  fix w N ptr s
  assume i: "eps_inv N w ptr s" and n: "length w + length data \<le> N"
  from eps_GetSize [OF i] obtain g where g: "ptr_diff (eo_end s) ptr = Some (int g - 16)" "GetSize ptr s = Some (int g)"
    by blast
  from WriteRaw_loop_result [OF i g(2) n] eps_store [OF i g(2), of data] g
  show "\<exists>p s'. eps_WriteRaw I data ptr s = Some (p, s') \<and> eps_inv N (w @ data) p s'"
    by (auto simp: eps_WriteRaw_def WriteRawFallback_def)
qed

subsection \<open>Bytes that go to the stream directly\<close>

lemma stream_write:
  assumes i: "eps_inv N w ptr s" and n: "length w + length bs \<le> N"
    and op: "\<And>t. inv t \<Longrightarrow> \<exists>b t'. f t = Some (b, t') \<and> inv t' \<and> (b \<longrightarrow> written t' = written t @ bs)
      \<and> (\<not> b \<longrightarrow> (\<exists>k < length bs. full (int (length (written t) + k))))"
  shows "\<exists>p s'. (do { (ptr, s) \<leftarrow> eps_Trim I ptr s;
       st \<leftarrow> Some (eo_stream s);
       (b, st) \<leftarrow> f st;
       let s = s\<lparr>eo_stream := st\<rparr>;
       if b then Some (ptr, s) else Some (eps_Error s) }) = Some (p, s') \<and> eps_inv N (w @ bs) p s'"
proof -
  have "length w \<le> N" using n by simp
  from Trim_result [OF i this] obtain p s1 where
    t: "eps_Trim I ptr s = Some (p, s1)" "inv (eo_stream s1)" "eps_inv N w p s1"
      "\<not> eo_had_error s1 \<Longrightarrow> trimmed w s1 \<and> p = Patch 0" by blast
  from op [OF t(2)] obtain b t' where o: "f (eo_stream s1) = Some (b, t')" "inv t'"
    "b \<Longrightarrow> written t' = written (eo_stream s1) @ bs"
    "\<not> b \<Longrightarrow> \<exists>k < length bs. full (int (length (written (eo_stream s1)) + k))" by blast
  have fr: "eps_frame s1" using t(3) by (simp add: eps_inv_def)
  have e: "eps_Error (s1\<lparr>eo_stream := t'\<rparr>) = (Patch 0, s1\<lparr>eo_stream := t', eo_had_error := True, eo_end := Patch 16\<rparr>)"
    by (simp add: eps_Error_def)
  have em: "error_mode (Patch 0) (s1\<lparr>eo_stream := t', eo_had_error := True, eo_end := Patch 16\<rparr>)"
    using o(2) by (auto simp: error_mode_def intro: exI [of _ 0])
  show ?thesis
  proof (cases "eo_had_error s1")
    case True
    with t(3) o(2) fr em have
      "eps_inv N (w @ bs) p (s1\<lparr>eo_stream := t'\<rparr>)"
      "eps_inv N (w @ bs) (Patch 0) (s1\<lparr>eo_stream := t', eo_had_error := True, eo_end := Patch 16\<rparr>)"
      by (auto simp: eps_inv_def error_mode_def)
    with t(1) o(1) e show ?thesis by (cases b) simp_all
  next
    case False
    note tr = t(4) [OF False]
    show ?thesis
    proof (cases b)
      case True
      then have "trimmed (w @ bs) (s1\<lparr>eo_stream := t'\<rparr>)" using tr o(2,3) by (simp add: trimmed_def)
      from trimmed_inv [OF this] t(1) o(1) True tr show ?thesis by simp
    next
      case nb: False
      then obtain k where "k < length bs" "full (int (length w + k))" using o(4) tr by (auto simp: trimmed_def)
      then have "eps_inv N (w @ bs) (Patch 0) (s1\<lparr>eo_stream := t', eo_had_error := True, eo_end := Patch 16\<rparr>)"
        using em fr n by (auto simp: eps_inv_def intro!: exI [of _ "length w + k"])
      with t(1) o(1) nb e show ?thesis by simp
    qed
  qed
qed

lemma Trim_null: "eps_inv N w ptr s \<Longrightarrow> length w \<le> N \<Longrightarrow> eps_Trim I ptr s = Some (p, s') \<Longrightarrow> deref s' = Some (eo_stream s')"
  using Trim_result [of N w ptr s] by (auto simp: eps_inv_def deref_def dest: eps_frameD(2))

lemma Trim_deref:
  assumes "eps_inv N w ptr s" and "length w \<le> N"
  shows "(do { (ptr, s) \<leftarrow> eps_Trim I ptr s; st \<leftarrow> deref s; h ptr s st })
     = (do { (ptr, s) \<leftarrow> eps_Trim I ptr s; st \<leftarrow> Some (eo_stream s); h ptr s st })"
  using Trim_result [OF assms] Trim_null [OF assms] by auto

lemma WriteAliasedRaw_appends:
  assumes "os_AllowsAliasing I"
  shows "appends (eps_WriteAliasedRaw I data) data"
proof (rule appendsI)
  fix w N ptr s
  assume i: "eps_inv N w ptr s" and n: "length w + length data \<le> N"
  from eps_GetSize [OF i] obtain g where g: "GetSize ptr s = Some (int g)" by blast
  have "length w \<le> N" using n by simp
  note d = Trim_deref [OF i this]
  show "\<exists>p s'. eps_WriteAliasedRaw I data ptr s = Some (p, s') \<and> eps_inv N (w @ data) p s'"
  proof (cases "length data < g")
    case True
    with g appendsD [OF eps_WriteRaw_appends i n] show ?thesis by (simp add: eps_WriteAliasedRaw_def)
  next
    case False
    with g stream_write [OF i n alias_written [OF assms]] show ?thesis
      by (simp add: eps_WriteAliasedRaw_def d)
  qed
qed

lemma aliasing_allowed: "eps_inv N w ptr s \<Longrightarrow> eo_aliasing s \<Longrightarrow> os_AllowsAliasing I"
  by (simp add: eps_inv_def eps_frame_def)

lemma eps_WriteRawMaybeAliased_appends: "appends (eps_WriteRawMaybeAliased I data) data"
proof (rule appendsI)
  fix w N ptr s
  assume i: "eps_inv N w ptr s" and n: "length w + length data \<le> N"
  show "\<exists>p s'. eps_WriteRawMaybeAliased I data ptr s = Some (p, s') \<and> eps_inv N (w @ data) p s'"
    using appendsD [OF WriteAliasedRaw_appends [OF aliasing_allowed [OF i]] i n] appendsD [OF eps_WriteRaw_appends i n]
    by (cases "eo_aliasing s") (simp_all add: eps_WriteRawMaybeAliased_def)
qed

lemma eps_WriteCord_appends: "appends (eps_WriteCord I cord) (concat cord)"
proof (rule appendsI)
  fix w N ptr s
  assume i: "eps_inv N w ptr s" and n: "length w + length (concat cord) \<le> N"
  from eps_GetSize [OF i] obtain g where g: "GetSize ptr s = Some (int g)" by blast
  have nn: "\<not> eo_null s" using i by (auto simp: eps_inv_def dest: eps_frameD(2))
  show "\<exists>p s'. eps_WriteCord I cord ptr s = Some (p, s') \<and> eps_inv N (w @ concat cord) p s'"
  proof (cases "length (concat cord) \<le> g \<and> int (length (concat cord)) < kMaxCordBytesToCopy")
    case True
    with fitsD [OF CopyCord_fits i g] n obtain p s' where
      "CopyCordToArray I cord ptr s = Some (p, s')" "eps_inv N (w @ concat cord) p s'" by blast
    with True g nn show ?thesis by (simp add: eps_WriteCord_def Let_def)
  next
    case False
    then have "eps_WriteCord I cord ptr s = (do {
       (ptr, s) \<leftarrow> eps_Trim I ptr s;
       (b, st) \<leftarrow> os_WriteCord I cord (eo_stream s);
       let s = s\<lparr>eo_stream := st\<rparr>;
       if b then Some (ptr, s) else Some (eps_Error s) })"
      using g nn by (auto simp: eps_WriteCord_def Let_def)
    with stream_write [OF i n cord_written] show ?thesis by simp
  qed
qed

end

sublocale eps_sink \<subseteq> eps_writer I eps_inv
proof
  fix N w ptr s
  assume "eps_inv N w ptr s" "length w < N"
  from EnsureSpace_room [OF this] show "\<exists>p s'. EnsureSpace I ptr s = Some (p, s') \<and> eps_inv N w p s'
      \<and> (\<exists>g \<ge> 16. GetSize p s' = Some (int g))" by (auto simp: roomy_def)
qed (rule eps_WriteRaw_appends eps_WriteRawMaybeAliased_appends eps_WriteCord_appends)+

section \<open>EpsCopyOutputStream: the position, skipping and filled buffers\<close>

text \<open>
  \<open>ByteCount\<close> is the number of bytes written in either mode; \<open>Skip\<close> advances over bytes whose
  content is left as it is in the buffers of the stream, so that a client which fills the buffer of
  \<open>GetDirectBufferPointer\<close> and skips what it has filled has written it.
\<close>

context eps_sink begin

text \<open>A buffer that is left as it is counts as written.\<close>

lemma region_left: "region_at w a r t \<Longrightarrow> inv t \<and> written t = w @ r"
  using fill_buffer by (auto simp: region_at_def)

lemma sink_left: "sink w be m t \<Longrightarrow> inv t \<and> written t = w @ m"
  by (auto simp: sink_def dest: region_left)

lemma eps_ByteCount_written:
  assumes "eps_inv N w ptr s"
  shows "\<exists>n. eps_ByteCount I ptr s = Some n \<and> (\<not> eo_had_error s \<longrightarrow> n = int (length w))"
proof (cases "eo_had_error s")
  case True
  obtain d where "ptr_diff (eo_end s) ptr = Some d" using eps_GetSize [OF assms] by blast
  moreover have "\<not> eo_null s" using assms by (auto simp: eps_inv_def dest: eps_frameD(2))
  ultimately show ?thesis using True by (simp add: eps_ByteCount_def deref_def Let_def)
next
  case False
  with assms have "direct_mode w ptr s \<or> patch_mode w ptr s" and fr: "eps_frame s" by (simp_all add: eps_inv_def)
  from this(1) show ?thesis
  proof
    assume "direct_mode w ptr s"
    then obtain w0 b m i where d: "region_at w0 b m (eo_stream s)" "eo_buffer_end s = None"
      "eo_end s = Mem (b + int (length m) - 16)" "ptr = Mem (b + int i)" "i \<le> length m" "w = w0 @ take i m"
      by (auto simp: direct_mode_def)
    have "os_ByteCount I (eo_stream s) = int (length w0 + length m)"
      using region_left [OF d(1)] cnt_written by simp
    with d fr show ?thesis
      by (simp add: eps_ByteCount_def deref_def eps_frameD Let_def)
  next
    assume "patch_mode w ptr s"
    then obtain w0 be m i where d: "sink w0 be m (eo_stream s)" "eo_buffer_end s = Some be" "length m \<le> 16"
      "eo_end s = Patch (int (length m))" "ptr = Patch (int i)" "i \<le> length m + 16" "w = w0 @ take i (eo_buffer s)"
      by (auto simp: patch_mode_def)
    have "os_ByteCount I (eo_stream s) = int (length w0 + length m)"
      using sink_left [OF d(1)] cnt_written by simp
    with d fr show ?thesis
      by (simp add: eps_ByteCount_def deref_def eps_frameD Let_def)
  qed
qed

subsection \<open>Skip\<close>

lemma Skip_loop_result:
  assumes "sink w be m (eo_stream s)" and "eps_frame s" and "\<not> eo_had_error s" and "length w + count \<le> N"
  shows "\<exists>r s' x. eps_Skip_loop I (int count) be (int (length m)) s = Some (r, s') \<and> eps_frame s' \<and> \<not> eo_had_error s'
     \<and> (r = None \<longrightarrow> inv (eo_stream s') \<and> (\<exists>k < N. full (int k)))
     \<and> (\<forall>k be' n. r = Some (k, be', n) \<longrightarrow> (\<exists>m'. 0 \<le> k \<and> n = int (length m') \<and> k \<le> n \<and> length x + nat k = count
          \<and> sink (w @ x) be' m' (eo_stream s')))"
  using assms
proof (induction "2 * count + (if m = [] then 1 else 0)" arbitrary: w be m s count rule: less_induct)
  case less
  show ?case
  proof (cases "length m < count")
    case False
    then have "eps_Skip_loop I (int count) be (int (length m)) s = Some (Some (int count, be, int (length m)), s)"
      by (subst eps_Skip_loop.simps) simp
    with less.prems False show ?thesis
      by (intro exI [of _ "Some (int count, be, int (length m))"] exI [of _ s] exI [of _ "[]"]) auto
  next
    case True
    note i = conjunct1 [OF sink_left [OF less.prems(1)]] conjunct2 [OF sink_left [OF less.prems(1)]]
    have dr: "deref s = Some (eo_stream s)" using eps_frameD(2) [OF less.prems(2)] by (simp add: deref_def)
    from nxt_buffer [OF i(1)] show ?thesis
    proof
      assume "\<exists>s'. os_Next I (eo_stream s) = Some (None, s') \<and> full (os_ByteCount I (eo_stream s))"
      then obtain t where t: "os_Next I (eo_stream s) = Some (None, t)" "full (int (length (w @ m)))"
        using cnt_written [OF i(1)] i(2) by auto
      have "inv t" using nxt_fail [OF i(1) t(1)] by simp
      moreover have "length (w @ m) < N" using True less.prems(4) by simp
      ultimately show ?thesis using True t dr less.prems(2,3)
        by (subst eps_Skip_loop.simps) (auto intro!: exI [of _ "length w + length m"])
    next
      assume "\<exists>p n s'. os_Next I (eo_stream s) = Some (Some (p, n), s') \<and> 0 < n"
      then obtain p n t where t: "os_Next I (eo_stream s) = Some (Some (p, n), t)" "0 < n" by blast
      from region_start [OF i(1) t(1)] i(2) obtain r where r: "int (length r) = n" "region_at (w @ m) p r t" by auto
      let ?s = "s\<lparr>eo_stream := t\<rparr>"
      have "2 * (count - length m) + (if r = [] then 1 else 0) < 2 * count + (if m = [] then 1 else 0)"
        using True r(1) t(2) by auto
      moreover have "sink (w @ m) (Mem p) r (eo_stream ?s)" using r(2) by (simp add: sink_def)
      ultimately have "\<exists>r' s' x. eps_Skip_loop I (int (count - length m)) (Mem p) (int (length r)) ?s = Some (r', s') \<and> eps_frame s'
          \<and> \<not> eo_had_error s' \<and> (r' = None \<longrightarrow> inv (eo_stream s') \<and> (\<exists>k < N. full (int k)))
          \<and> (\<forall>k be' n. r' = Some (k, be', n) \<longrightarrow> (\<exists>m'. 0 \<le> k \<and> n = int (length m') \<and> k \<le> n \<and> length x + nat k = count - length m
             \<and> sink ((w @ m) @ x) be' m' (eo_stream s')))"
        using True less.prems(2-4) by (intro less.hyps) simp_all
      then obtain r' s' x where h: "eps_Skip_loop I (int (count - length m)) (Mem p) (int (length r)) ?s = Some (r', s')" "eps_frame s'"
          "\<not> eo_had_error s'" "r' = None \<longrightarrow> inv (eo_stream s') \<and> (\<exists>k < N. full (int k))"
          "\<forall>k be' n. r' = Some (k, be', n) \<longrightarrow> (\<exists>m'. 0 \<le> k \<and> n = int (length m') \<and> k \<le> n \<and> length x + nat k = count - length m
             \<and> sink ((w @ m) @ x) be' m' (eo_stream s'))" by blast
      moreover have "eps_Skip_loop I (int count) be (int (length m)) s = Some (r', s')"
        using h(1) True t(1) dr r(1) by (subst eps_Skip_loop.simps) (simp add: of_nat_diff)
      moreover have "\<forall>k be' n. r' = Some (k, be', n) \<longrightarrow> (\<exists>m'. 0 \<le> k \<and> n = int (length m') \<and> k \<le> n \<and> length (m @ x) + nat k = count
             \<and> sink (w @ (m @ x)) be' m' (eo_stream s'))"
        using h(5) True by fastforce
      ultimately show ?thesis by blast
    qed
  qed
qed

text \<open>From a flushed state: \<open>Skip\<close> and \<open>SetInitialBuffer\<close> behind the bytes skipped.\<close>

lemma Skip_flushed:
  assumes "eps_Flush I ptr s = Some (int (length m), s1)" and "sink w be m (eo_stream s1)" and "eo_buffer_end s1 = Some be"
    and "\<not> eo_had_error s" and "\<not> eo_had_error s1" and "eps_frame s1" and "length w + count \<le> N"
  shows "\<exists>b p s' x. eps_Skip I (int count) ptr s = Some (b, p, s') \<and> length x = count \<and> eps_inv N (w @ x) p s'
     \<and> (b \<longleftrightarrow> \<not> eo_had_error s') \<and> (count \<le> length m \<longrightarrow> b \<and> x = take count m)"
proof -
  from Skip_loop_result [OF assms(2,6,5,7)] obtain r s2 x where
    l: "eps_Skip_loop I (int count) be (int (length m)) s1 = Some (r, s2)" "eps_frame s2" "\<not> eo_had_error s2"
      "r = None \<Longrightarrow> inv (eo_stream s2) \<and> (\<exists>k < N. full (int k))"
      "\<And>k be' n. r = Some (k, be', n) \<Longrightarrow> (\<exists>m'. 0 \<le> k \<and> n = int (length m') \<and> k \<le> n \<and> length x + nat k = count
          \<and> sink (w @ x) be' m' (eo_stream s2))" by blast
  have here: "count \<le> length m \<Longrightarrow> r = Some (int count, be, int (length m)) \<and> s2 = s1"
    using l(1) by (simp add: eps_Skip_loop.simps [of I "int count"])
  show ?thesis
  proof (cases r)
    case None
    let ?s = "s2\<lparr>eo_had_error := True, eo_end := Patch 16\<rparr>"
    have "eps_Skip I (int count) ptr s = Some (False, Patch 0, ?s)"
      using assms(1,3-5) l(1) None by (simp add: eps_Skip_def eps_Error_def)
    moreover have "eps_inv N (w @ replicate count c) (Patch 0) ?s" for c
      using l(2,4) None by (auto simp: eps_inv_def error_mode_def intro: exI [of _ 0])
    ultimately show ?thesis using here None
      by (intro exI [of _ False] exI [of _ "Patch 0"] exI [of _ ?s] exI [of _ "replicate count (CHR 0x00)"]) auto
  next
    case (Some kbn)
    then obtain k be' n where kbn: "r = Some (k, be', n)" by (cases kbn) auto
    from l(5) [OF kbn] obtain m' where m': "0 \<le> k" "n = int (length m')" "k \<le> n" "length x + nat k = count"
      "sink (w @ x) be' m' (eo_stream s2)" by blast
    let ?x = "x @ take (nat k) m'" and ?m = "drop (nat k) m'"
    have len: "length (take (nat k) m') = nat k" using m'(1-3) by simp
    have "sink (w @ ?x) (ptr_add be' k) ?m (eo_stream s2)"
      using sink_advance [of "w @ x" be' "take (nat k) m'" ?m "eo_stream s2"] m'(1,2,3,5) len by simp
    from SetInitialBuffer_inv [OF this l(2,3), of N] obtain p s3 where
      s3: "SetInitialBuffer (ptr_add be' k) (int (length ?m)) s2 = (p, s3)" "eps_inv N (w @ ?x) p s3" "\<not> eo_had_error s3" by blast
    have "int (length ?m) = n - k" using m'(1-3) by simp
    then have "eps_Skip I (int count) ptr s = Some (True, p, s3)"
      using assms(1,3-5) l(1) kbn s3(1) by (simp add: eps_Skip_def)
    moreover have "?x = take count m" if "count \<le> length m"
    proof -
      have k: "k = int count" "be' = be" "n = int (length m)" "s2 = s1" using here [OF that] kbn by simp_all
      then have "x = []" using m'(4) by simp
      have "sink w be m (eo_stream s1)" "sink w be m' (eo_stream s1)" using assms(2) m'(5) k \<open>x = []\<close> by simp_all
      then have "m' = m" using sink_left by (metis same_append_eq)
      with \<open>x = []\<close> k show ?thesis by simp
    qed
    moreover have "length ?x = count" using m'(4) len by simp
    ultimately show ?thesis using s3(2,3) by blast
  qed
qed

lemma Skip_result:
  assumes "eps_inv N w ptr s" and "length w + count \<le> N"
  shows "\<exists>b p s' x. eps_Skip I (int count) ptr s = Some (b, p, s') \<and> length x = count \<and> eps_inv N (w @ x) p s'
     \<and> (b \<longleftrightarrow> \<not> eo_had_error s')"
proof (cases "eo_had_error s")
  case True
  with assms(1) have "eps_inv N (w @ replicate count c) (Patch 0) s" for c
    by (auto simp: eps_inv_def error_mode_def intro: exI [of _ 0])
  with True show ?thesis
    by (intro exI [of _ False] exI [of _ "Patch 0"] exI [of _ s] exI [of _ "replicate count (CHR 0x00)"])
      (simp add: eps_Skip_def)
next
  case False
  have "length w \<le> N" using assms(2) by simp
  from Flush_result [OF assms(1) False this] obtain r s1 where
    f: "eps_Flush I ptr s = Some (r, s1)"
      "if eo_had_error s1 then r = 0 \<and> eps_inv N w (Patch 0) s1 else flushed w r s1" by blast
  show ?thesis
  proof (cases "eo_had_error s1")
    case True
    with f(2) have "eps_inv N (w @ replicate count c) (Patch 0) s1" for c by (auto simp: eps_inv_def error_mode_def)
    moreover have "eps_Skip I (int count) ptr s = Some (False, Patch 0, s1)" using f(1) True False by (simp add: eps_Skip_def)
    ultimately show ?thesis using True
      by (intro exI [of _ False] exI [of _ "Patch 0"] exI [of _ s1] exI [of _ "replicate count (CHR 0x00)"]) simp
  next
    case ok: False
    with f(2) obtain be m where m: "sink w be m (eo_stream s1)" "eo_buffer_end s1 = Some be" "r = int (length m)"
      "eps_frame s1" by (auto simp: flushed_def)
    from Skip_flushed [OF _ m(1,2) False ok m(4) assms(2)] f(1) m(3) show ?thesis by blast
  qed
qed

subsection \<open>HadError\<close>

text \<open>Without an error after \<open>FlushAndResetBuffer\<close>, \<open>Trim\<close> has none either.\<close>

lemma FlushAndReset_Trim:
  assumes "eps_inv N w ptr s" and "length w \<le> N"
  shows "\<exists>p s' q s''. FlushAndResetBuffer I ptr s = Some (p, s') \<and> eps_inv N w p s' \<and> eps_Trim I p s' = Some (q, s'')
     \<and> inv (eo_stream s'') \<and> (\<not> eo_had_error s' \<longrightarrow> written (eo_stream s'') = w)"
proof -
  from FlushAndResetBuffer_result [OF assms] obtain p s' where
    f: "FlushAndResetBuffer I ptr s = Some (p, s')" "eps_inv N w p s'"
      "\<not> eo_had_error s' \<Longrightarrow> \<exists>be m u. sink w be m (eo_stream u) \<and> SetInitialBuffer be (int (length m)) u = (p, s')
          \<and> eps_frame u \<and> \<not> eo_had_error u" by blast
  from Trim_result [OF f(2) assms(2)] obtain q s'' where
    t: "eps_Trim I p s' = Some (q, s'')" "inv (eo_stream s'')" "\<not> eo_had_error s'' \<Longrightarrow> trimmed w s''" by blast
  have "written (eo_stream s'') = w" if ok: "\<not> eo_had_error s'"
  proof -
    from f(3) [OF ok] obtain be m u where u: "SetInitialBuffer be (int (length m)) u = (p, s')" "sink w be m (eo_stream u)"
      "\<not> eo_had_error u" by blast
    from Flush_fresh [OF this] obtain s2 where "eps_Flush I p s' = Some (int (length m), s2)" "\<not> eo_had_error s2" by blast
    with t(1) ok have "\<not> eo_had_error s''" by (auto simp: eps_Trim_def bind_eq_Some_conv)
    with t(3) show ?thesis by (simp add: trimmed_def)
  qed
  with f(1,2) t(1,2) show ?thesis by blast
qed

subsection \<open>A buffer that the client fills\<close>

lemma fill_pointer:
  assumes "sink w data m (eo_stream s0)" and "SetInitialBuffer data (int (length m)) s0 = (p, s)"
    and "eps_frame s0" and "\<not> eo_had_error s0" and "length c \<le> length m" and "length w + length c \<le> N"
  shows "\<exists>q s1 p' s2. store I c data s = Some (q, s1) \<and> eps_Skip I (int (length c)) p s1 = Some (True, p', s2)
     \<and> eps_inv N (w @ c) p' s2"
proof -
  have st: "eo_stream s = eo_stream s0" using SetInitialBuffer_frame [OF assms(2)] .
  from assms(1) st have "sink w data m (eo_stream s)" by simp
  from sink_put [OF this assms(5)] obtain q t where
    t: "store I c data s = Some (q, s\<lparr>eo_stream := t\<rparr>)" "sink w data (c @ drop (length c) m) t" by blast
  let ?m = "c @ drop (length c) m" and ?u = "s0\<lparr>eo_stream := t\<rparr>" and ?s = "s\<lparr>eo_stream := t\<rparr>"
  have len: "length ?m = length m" using assms(5) by simp
  have "SetInitialBuffer data (int (length ?m)) ?u = (p, ?s)"
    unfolding len by (rule SetInitialBuffer_stream [OF assms(2)])
  moreover have "sink w data ?m (eo_stream ?u)" "\<not> eo_had_error ?u" "eps_frame ?u" using t(2) assms(3,4) by simp_all
  ultimately obtain s2 where s2: "eps_Flush I p ?s = Some (int (length ?m), s2)" "sink w data ?m (eo_stream s2)"
    "eo_buffer_end s2 = Some data" "\<not> eo_had_error s2" "eps_frame s2"
    using Flush_fresh by blast
  have "eo_had_error ?s = eo_had_error ?u"
    using assms(2) by (auto simp: SetInitialBuffer_def split: if_splits)
  then have "\<not> eo_had_error ?s" using assms(4) by simp
  from Skip_flushed [OF s2(1,2,3) this s2(4,5) assms(6)] len assms(5) t(1) show ?thesis by auto
qed

end

end
