(* ===== verification/Output_Client.thy ===== *)
theory Output_Client
  imports Eps_Write
begin


section \<open>A client of CodedOutputStream\<close>

text \<open>
  The clients of the encoder: a command is one call of \<open>CodedOutputStream\<close>, or one of
  \<open>EpsCopyOutputStream\<close> at the current position (\<open>SetCur(f(Cur(), EpsCopy()))\<close>, as generated code
  has it). \<open>OutDirect\<close> and \<open>OutPointer\<close> fill a buffer of the stream themselves, the way the comments
  of \<open>io/coded_stream.h\<close> describe; \<open>OutSkip\<close> leaves bytes unspecified. A session constructs the
  object, runs the commands, asks \<open>HadError()\<close> and \<open>ByteCount()\<close>, and destroys it.
\<close>

datatype packed_values =
  PackInt32 "32 word list" | PackUInt32 "32 word list" | PackSInt32 "32 word list" | PackEnum "32 word list"
  | PackInt64 "64 word list" | PackUInt64 "64 word list" | PackSInt64 "64 word list"
  | PackFixed32 "32 word list" | PackFixed64 "64 word list"

datatype out_cmd =
  OutRaw string | OutMaybeAliased string | OutString string | OutCord "string list"
  | OutVarint32 "32 word" | OutVarint64 "64 word" | OutSigned "32 word" | OutTag "32 word"
  | OutFixed16 "16 word" | OutFixed32 "32 word" | OutFixed64 "64 word"
  | OutField "32 word" string | OutFieldAliased "32 word" string | OutFieldCord "32 word" "string list"
  | OutPacked "32 word" packed_values
  | OutDirect string | OutPointer string | OutSkip nat | OutTrim | OutAliasing bool

text \<open>What the commands write; \<open>None\<close> is a byte that is not specified.\<close>

fun packed_bytes :: "packed_values \<Rightarrow> string" where
  "packed_bytes (PackInt32 vs) = concat (map (\<lambda>v. UnsafeVarint64 (scast v)) vs)"
| "packed_bytes (PackUInt32 vs) = concat (map UnsafeVarint32 vs)"
| "packed_bytes (PackSInt32 vs) = concat (map (\<lambda>v. UnsafeVarint32 (ZigZagEncode32 v)) vs)"
| "packed_bytes (PackEnum vs) = concat (map (\<lambda>v. UnsafeVarint64 (scast v)) vs)"
| "packed_bytes (PackInt64 vs) = concat (map UnsafeVarint64 vs)"
| "packed_bytes (PackUInt64 vs) = concat (map UnsafeVarint64 vs)"
| "packed_bytes (PackSInt64 vs) = concat (map (\<lambda>v. UnsafeVarint64 (ZigZagEncode64 v)) vs)"
| "packed_bytes (PackFixed32 vs) = concat (map WriteLittleEndian32ToArray vs)"
| "packed_bytes (PackFixed64 vs) = concat (map WriteLittleEndian64ToArray vs)"

fun out_bytes :: "out_cmd \<Rightarrow> char option list" where
  "out_bytes (OutRaw b) = map Some b"
| "out_bytes (OutMaybeAliased b) = map Some b"
| "out_bytes (OutString b) = map Some b"
| "out_bytes (OutCord c) = map Some (concat c)"
| "out_bytes (OutVarint32 v) = map Some (WriteVarint32ToArray v)"
| "out_bytes (OutVarint64 v) = map Some (WriteVarint64ToArray v)"
| "out_bytes (OutSigned v) = map Some (WriteVarint32SignExtendedToArray v)"
| "out_bytes (OutTag v) = map Some (WriteTagToArray v)"
| "out_bytes (OutFixed16 v) = map Some (WriteLittleEndian16ToArray v)"
| "out_bytes (OutFixed32 v) = map Some (WriteLittleEndian32ToArray v)"
| "out_bytes (OutFixed64 v) = map Some (WriteLittleEndian64ToArray v)"
| "out_bytes (OutField num b) = map Some (delimited num (length b) @ b)"
| "out_bytes (OutFieldAliased num b) = map Some (delimited num (length b) @ b)"
| "out_bytes (OutFieldCord num c) = map Some (delimited num (length (concat c)) @ concat c)"
| "out_bytes (OutPacked num p) = map Some (delimited num (length (packed_bytes p)) @ packed_bytes p)"
| "out_bytes (OutDirect b) = map Some b"
| "out_bytes (OutPointer b) = map Some b"
| "out_bytes (OutSkip k) = replicate k None"
| "out_bytes OutTrim = []"
| "out_bytes (OutAliasing e) = []"

definition matches :: "char option list \<Rightarrow> string \<Rightarrow> bool" where
  "matches pat x \<longleftrightarrow> list_all2 (\<lambda>p c. p = None \<or> p = Some c) pat x"

lemma matches_Some [simp]: "matches (map Some b) x \<longleftrightarrow> x = b"
  by (auto simp: matches_def list_all2_map1 list.rel_eq)

lemma matches_Nil [simp]: "matches [] x \<longleftrightarrow> x = []"
  by (simp add: matches_def)

lemma matches_None [simp]: "matches (replicate k None) x \<longleftrightarrow> length x = k"
  by (auto simp: matches_def list_all2_conv_all_nth)

lemma matches_append: "matches p x \<Longrightarrow> matches q y \<Longrightarrow> matches (p @ q) (x @ y)"
  unfolding matches_def by (rule list_all2_appendI)

lemma matches_length: "matches p x \<Longrightarrow> length x = length p"
  unfolding matches_def by (simp add: list_all2_lengthD)

text \<open>
  Packed fields must not be empty, unless the numbers have a fixed width; the sizes of strings fit
  into an \<open>int\<close>.
\<close>

fun packed_ok :: "packed_values \<Rightarrow> bool" where
  "packed_ok (PackInt32 vs) \<longleftrightarrow> vs \<noteq> []" | "packed_ok (PackUInt32 vs) \<longleftrightarrow> vs \<noteq> []"
| "packed_ok (PackSInt32 vs) \<longleftrightarrow> vs \<noteq> []" | "packed_ok (PackEnum vs) \<longleftrightarrow> vs \<noteq> []"
| "packed_ok (PackInt64 vs) \<longleftrightarrow> vs \<noteq> []" | "packed_ok (PackUInt64 vs) \<longleftrightarrow> vs \<noteq> []"
| "packed_ok (PackSInt64 vs) \<longleftrightarrow> vs \<noteq> []" | "packed_ok (PackFixed32 vs) \<longleftrightarrow> True"
| "packed_ok (PackFixed64 vs) \<longleftrightarrow> True"

fun out_ok :: "out_cmd \<Rightarrow> bool" where
  "out_ok (OutField num b) \<longleftrightarrow> int (length b) \<le> INT_MAX"
| "out_ok (OutFieldAliased num b) \<longleftrightarrow> int (length b) \<le> INT_MAX"
| "out_ok (OutPacked num p) \<longleftrightarrow> packed_ok p"
| "out_ok _ \<longleftrightarrow> True"

subsection \<open>The client\<close>

fun out_packed ::
  "bool \<Rightarrow> 's output_stream \<Rightarrow> 32 word \<Rightarrow> packed_values \<Rightarrow> 32 word \<Rightarrow> address \<Rightarrow> 's eps_output
    \<Rightarrow> (address \<times> 's eps_output) option" where
  "out_packed little I num (PackInt32 vs) n ptr s = WriteInt32Packed I num vs n ptr s"
| "out_packed little I num (PackUInt32 vs) n ptr s = WriteUInt32Packed I num vs n ptr s"
| "out_packed little I num (PackSInt32 vs) n ptr s = WriteSInt32Packed I num vs n ptr s"
| "out_packed little I num (PackEnum vs) n ptr s = WriteEnumPacked I num vs n ptr s"
| "out_packed little I num (PackInt64 vs) n ptr s = WriteInt64Packed I num vs n ptr s"
| "out_packed little I num (PackUInt64 vs) n ptr s = WriteUInt64Packed I num vs n ptr s"
| "out_packed little I num (PackSInt64 vs) n ptr s = WriteSInt64Packed I num vs n ptr s"
| "out_packed little I num (PackFixed32 vs) n ptr s = WriteFixedPacked_4 little I num vs ptr s"
| "out_packed little I num (PackFixed64 vs) n ptr s = WriteFixedPacked_8 little I num vs ptr s"

text \<open>The client stores \<open>b\<close> into memory it was given.\<close>

definition client_store :: "'s output_stream \<Rightarrow> string \<Rightarrow> address \<Rightarrow> 's coded_output \<Rightarrow> 's coded_output option" where
  "client_store I b a c = do { (_, s) \<leftarrow> store I b a (cw_impl c); Some (c\<lparr>cw_impl := s\<rparr>) }"

text \<open>Ask for room for all bytes, or write them the usual way.\<close>

definition out_direct :: "'s output_stream \<Rightarrow> string \<Rightarrow> 's coded_output \<Rightarrow> 's coded_output option" where
  "out_direct I b c = do {
     (r, c) \<leftarrow> coded_GetDirectBufferForNBytesAndAdvance I (int (length b)) c;
     case r of Some a \<Rightarrow> client_store I b a c | None \<Rightarrow> coded_WriteRaw I b c }"

text \<open>Fill one buffer after the other until all bytes are written or there is no more buffer.\<close>

partial_function (option) out_pointer :: "'s output_stream \<Rightarrow> string \<Rightarrow> 's coded_output \<Rightarrow> 's coded_output option" where
  "out_pointer I b c =
     (if b = [] then Some c
      else do {
        (r, c) \<leftarrow> coded_out_GetDirectBufferPointer I c;
        case r of
          None \<Rightarrow> Some c
        | Some (a, n) \<Rightarrow> do {
            c \<leftarrow> client_store I (take (nat n) b) a c;
            (_, c) \<leftarrow> coded_out_Skip I (int (length (take (nat n) b))) c;
            out_pointer I (drop (nat n) b) c } })"

fun out_step :: "bool \<Rightarrow> 's output_stream \<Rightarrow> out_cmd \<Rightarrow> 's coded_output \<Rightarrow> 's coded_output option" where
  "out_step little I (OutRaw b) c = coded_WriteRaw I b c"
| "out_step little I (OutMaybeAliased b) c = coded_WriteRawMaybeAliased I b c"
| "out_step little I (OutString b) c = coded_WriteString I b c"
| "out_step little I (OutCord b) c = coded_WriteCord I b c"
| "out_step little I (OutVarint32 v) c = WriteVarint32 I v c"
| "out_step little I (OutVarint64 v) c = WriteVarint64 I v c"
| "out_step little I (OutSigned v) c = WriteVarint32SignExtended I v c"
| "out_step little I (OutTag v) c = WriteTag I v c"
| "out_step little I (OutFixed16 v) c = WriteLittleEndian16 I v c"
| "out_step little I (OutFixed32 v) c = WriteLittleEndian32 I v c"
| "out_step little I (OutFixed64 v) c = WriteLittleEndian64 I v c"
| "out_step little I (OutField num b) c = on_impl (WriteStringField I num b) c"
| "out_step little I (OutFieldAliased num b) c = on_impl (WriteStringMaybeAliased I num b) c"
| "out_step little I (OutFieldCord num b) c = on_impl (WriteCordField I num b) c"
| "out_step little I (OutPacked num p) c = on_impl (out_packed little I num p (of_nat (length (packed_bytes p)))) c"
| "out_step little I (OutDirect b) c = out_direct I b c"
| "out_step little I (OutPointer b) c = out_pointer I b c"
| "out_step little I (OutSkip k) c = map_option snd (coded_out_Skip I (int k) c)"
| "out_step little I OutTrim c = coded_Trim I c"
| "out_step little I (OutAliasing e) c = coded_EnableAliasing I e c"

fun out_run :: "bool \<Rightarrow> 's output_stream \<Rightarrow> out_cmd list \<Rightarrow> 's coded_output \<Rightarrow> 's coded_output option" where
  "out_run little I [] c = Some c"
| "out_run little I (x # xs) c = do { c \<leftarrow> out_step little I x c; out_run little I xs c }"

text \<open>Had an error, bytes written, and the stream in the end.\<close>

definition out_session ::
  "bool \<Rightarrow> 's output_stream \<Rightarrow> string \<Rightarrow> bool \<Rightarrow> out_cmd list \<Rightarrow> 's \<Rightarrow> (bool \<times> int \<times> 's) option" where
  "out_session little I fill eager cmds st = do {
     c \<leftarrow> CodedOutputStream I fill eager st;
     c \<leftarrow> out_run little I cmds c;
     (e, c) \<leftarrow> coded_HadError I c;
     n \<leftarrow> coded_out_ByteCount I c;
     st \<leftarrow> CodedOutputStream_destroy I c;
     Some (e, n, st) }"

section \<open>CodedOutputStream against its specification\<close>

text \<open>
  Every command of the client appends the bytes that its specification \<open>out_bytes\<close> gives, for
  every stream that satisfies \<open>eps_sink\<close>, and a session returns: without an error the stream holds
  what was there before and all bytes in order, and \<open>ByteCount\<close> is their number; with an error the
  stream was full before the end of them.
\<close>

context eps_sink begin

definition out_inv :: "nat \<Rightarrow> int \<Rightarrow> string \<Rightarrow> 's coded_output \<Rightarrow> bool" where
  "out_inv N sc w c \<longleftrightarrow> eps_inv N w (cw_cur c) (cw_impl c) \<and> cw_start_count c = sc"

text \<open>\<open>f\<close> appends bytes that match the pattern.\<close>

definition outputs :: "('s coded_output \<Rightarrow> 's coded_output option) \<Rightarrow> char option list \<Rightarrow> bool" where
  "outputs f pat \<longleftrightarrow> (\<forall>w N sc c. out_inv N sc w c \<longrightarrow> length w + length pat \<le> N \<longrightarrow>
     (\<exists>c' x. f c = Some c' \<and> matches pat x \<and> out_inv N sc (w @ x) c'))"

lemma on_impl_outputs: "appends f b \<Longrightarrow> outputs (on_impl f) (map Some b)"
  unfolding outputs_def out_inv_def on_impl_def by (fastforce dest: appendsD)

lemma ensure_and_store_outputs:
  assumes "b \<noteq> [] \<and> length b \<le> 16"
  shows "outputs (ensure_and_store I b) (map Some b)"
proof -
  from assms have "appends (\<lambda>ptr s. do { (ptr, s) \<leftarrow> EnsureSpace I ptr s; store I b ptr s }) b"
    by (intro EnsureSpace_store fits_store) simp_all
  from on_impl_outputs [OF this] show ?thesis by (simp add: ensure_and_store_def [abs_def])
qed

text \<open>Bytes filled in by the client.\<close>

lemma out_direct_outputs: "outputs (out_direct I b) (map Some b)"
  unfolding outputs_def
proof (intro allI impI)
  fix w N sc and c :: "'s coded_output"
  assume i: "out_inv N sc w c" and n: "length w + length (map Some b) \<le> N"
  then have "eps_inv N w (cw_cur c) (cw_impl c)" "length w \<le> N" by (simp_all add: out_inv_def)
  from GetDirectBufferForNBytes_result [OF this, of b] obtain r p s' where
    g: "GetDirectBufferForNBytesAndAdvance I (int (length b)) (cw_cur c) (cw_impl c) = Some (r, p, s')"
      "r = None \<Longrightarrow> eps_inv N w p s'"
      "\<And>res. r = Some res \<Longrightarrow> (\<exists>q s''. store I b res s' = Some (q, s'') \<and> eps_inv N (w @ b) p s'')" by blast
  show "\<exists>c' x. out_direct I b c = Some c' \<and> matches (map Some b) x \<and> out_inv N sc (w @ x) c'"
  proof (cases r)
    case None
    from appendsD [OF WriteRaw_appends g(2) [OF None], of b] n obtain p2 s2 where
      "eps_WriteRaw I b p s' = Some (p2, s2)" "eps_inv N (w @ b) p2 s2" by auto
    with g(1) None i show ?thesis
      by (simp add: out_direct_def coded_GetDirectBufferForNBytesAndAdvance_def coded_WriteRaw_def on_impl_def out_inv_def)
  next
    case (Some res)
    from g(3) [OF Some] obtain q s2 where "store I b res s' = Some (q, s2)" "eps_inv N (w @ b) p s2" by blast
    with g(1) Some i show ?thesis
      by (simp add: out_direct_def coded_GetDirectBufferForNBytesAndAdvance_def client_store_def out_inv_def)
  qed
qed

lemma had_error_any:
  assumes "eps_inv N w p s" and "eo_had_error s"
  shows "eps_inv N w' p s"
  using assms by (simp add: eps_inv_def)

lemma out_pointer_outputs: "outputs (out_pointer I b) (map Some b)"
proof -
  have "\<exists>c'. out_pointer I b c = Some c' \<and> out_inv N sc (w @ b) c'"
    if "out_inv N sc w c" "length w + length b \<le> N" for w N sc and c :: "'s coded_output"
    using that
  proof (induction "length b" arbitrary: b w c rule: less_induct)
    case less
    show ?case
    proof (cases "b = []")
      case True
      with less.prems show ?thesis by (subst out_pointer.simps) simp
    next
      case False
      then have "0 < length b" by simp
      then have i: "eps_inv N w (cw_cur c) (cw_impl c)" "length w < N" "cw_start_count c = sc"
        using less.prems by (auto simp only: out_inv_def)
      from GetDirectBufferPointer_result [OF i(1,2)] obtain r p s1 where
        g: "eps_GetDirectBufferPointer I (cw_cur c) (cw_impl c) = Some (r, p, s1)"
          "r = None \<Longrightarrow> eps_inv N w p s1 \<and> eo_had_error s1"
          "\<And>data n. r = Some (data, n) \<Longrightarrow> 0 < n \<and> (\<exists>m s0. sink w data m (eo_stream s0) \<and> n = int (length m)
             \<and> SetInitialBuffer data n s0 = (p, s1) \<and> eps_frame s0 \<and> \<not> eo_had_error s0)" by blast
      show ?thesis
      proof (cases r)
        case None
        with g(2) have "eps_inv N (w @ b) p s1" using had_error_any by blast
        with g(1) None False i(3) show ?thesis
          by (subst out_pointer.simps) (simp add: coded_out_GetDirectBufferPointer_def out_inv_def)
      next
        case (Some dn)
        then obtain data n where dn: "r = Some (data, n)" by (cases dn) auto
        from g(3) [OF this] obtain m s0 where m: "0 < n" "sink w data m (eo_stream s0)" "n = int (length m)"
          "SetInitialBuffer data (int (length m)) s0 = (p, s1)" "eps_frame s0" "\<not> eo_had_error s0" by blast
        let ?c = "take (length m) b"
        have len: "length ?c \<le> length m" "length w + length ?c \<le> N" using less.prems(2) by auto
        from fill_pointer [OF m(2,4-6) len] obtain q s2 p2 s3 where
          s2: "store I ?c data s1 = Some (q, s2)" "eps_Skip I (int (length ?c)) p s2 = Some (True, p2, s3)"
            "eps_inv N (w @ ?c) p2 s3" by blast
        let ?d = "c\<lparr>cw_cur := p2, cw_impl := s3\<rparr>"
        have "length (drop (length m) b) < length b" using m(1,3) False by simp
        moreover have "out_inv N sc (w @ ?c) ?d" using s2(3) i(3) by (simp add: out_inv_def)
        moreover have "length (w @ ?c) + length (drop (length m) b) \<le> N" using less.prems(2) by simp
        ultimately obtain c' where c': "out_pointer I (drop (length m) b) ?d = Some c'"
            "out_inv N sc ((w @ ?c) @ drop (length m) b) c'"
          using less.hyps by blast
        have "out_pointer I b c = Some c'"
          using g(1) dn m(3) s2(1,2) c'(1) False
          by (subst out_pointer.simps)
            (simp add: coded_out_GetDirectBufferPointer_def client_store_def coded_out_Skip_def)
        with c'(2) show ?thesis by simp
      qed
    qed
  qed
  then show ?thesis by (auto simp: outputs_def)
qed

lemma out_skip_outputs: "outputs (\<lambda>c. map_option snd (coded_out_Skip I (int k) c)) (replicate k None)"
  unfolding outputs_def
proof (intro allI impI)
  fix w N sc and c :: "'s coded_output"
  assume i: "out_inv N sc w c" and n: "length w + length (replicate k (None :: char option)) \<le> N"
  from i have e: "eps_inv N w (cw_cur c) (cw_impl c)" by (simp add: out_inv_def)
  from n have k: "length w + k \<le> N" by simp
  from Skip_result [OF e k] i
  show "\<exists>c' x. map_option snd (coded_out_Skip I (int k) c) = Some c' \<and> matches (replicate k None) x \<and> out_inv N sc (w @ x) c'"
    by (fastforce simp: coded_out_Skip_def out_inv_def)
qed

text \<open>Commands that write nothing.\<close>

lemma out_trim_outputs: "outputs (coded_Trim I) []"
  unfolding outputs_def coded_Trim_def on_impl_def out_inv_def using Trim_result by fastforce

lemma out_aliasing_outputs: "outputs (coded_EnableAliasing I e) []"
  unfolding outputs_def
proof (intro allI impI)
  fix w N sc and c :: "'s coded_output"
  assume i: "out_inv N sc w c"
  let ?s = "cw_impl c"
  have nn: "\<not> eo_null ?s" using i by (auto simp: out_inv_def eps_inv_def dest: eps_frameD(2))
  have "eps_inv N w (cw_cur c) (?s\<lparr>eo_aliasing := b\<rparr>)" if "b \<longrightarrow> os_AllowsAliasing I" for b
    using i that
    by (auto simp: out_inv_def eps_inv_def eps_frame_def error_mode_def direct_mode_def patch_mode_def split: if_splits)
  with nn i show "\<exists>c' x. coded_EnableAliasing I e c = Some c' \<and> matches [] x \<and> out_inv N sc (w @ x) c'"
    by (auto simp: coded_EnableAliasing_def EnableAliasing_def deref_def out_inv_def)
qed

lemma out_packed_eta:
  "out_packed little I num (PackInt32 vs) n = WriteInt32Packed I num vs n"
  "out_packed little I num (PackUInt32 vs) n = WriteUInt32Packed I num vs n"
  "out_packed little I num (PackSInt32 vs) n = WriteSInt32Packed I num vs n"
  "out_packed little I num (PackEnum vs) n = WriteEnumPacked I num vs n"
  "out_packed little I num (PackInt64 ws) n = WriteInt64Packed I num ws n"
  "out_packed little I num (PackUInt64 ws) n = WriteUInt64Packed I num ws n"
  "out_packed little I num (PackSInt64 ws) n = WriteSInt64Packed I num ws n"
  "out_packed little I num (PackFixed32 vs) n = WriteFixedPacked_4 little I num vs"
  "out_packed little I num (PackFixed64 ws) n = WriteFixedPacked_8 little I num ws"
  by (intro ext; simp)+

lemma out_packed_appends:
  assumes "packed_ok p"
  shows "appends (out_packed little I num p (of_nat (length (packed_bytes p)))) (delimited num (length (packed_bytes p)) @ packed_bytes p)"
  using assms
proof (cases p)
  case (PackFixed32 vs)
  have "length (concat (map WriteLittleEndian32ToArray vs)) = length vs * 4"
    by (subst concat_map_length [of _ 4]) simp_all
  with WriteFixedPacked_appends(1) [of little num vs] PackFixed32 show ?thesis by (simp add: out_packed_eta del: length_concat)
next
  case (PackFixed64 vs)
  have "length (concat (map WriteLittleEndian64ToArray vs)) = length vs * 8"
    by (subst concat_map_length [of _ 8]) simp_all
  with WriteFixedPacked_appends(2) [of little num vs] PackFixed64 show ?thesis by (simp add: out_packed_eta del: length_concat)
qed (simp_all add: packed_appends_32 packed_appends_64 out_packed_eta del: length_concat)

lemma outputs_cong: "outputs f p \<Longrightarrow> (\<And>c. f c = g c) \<Longrightarrow> outputs g p"
  by (simp add: outputs_def)

lemma out_step_outputs:
  assumes "out_ok cmd"
  shows "outputs (out_step little I cmd) (out_bytes cmd)"
proof (cases cmd)
  case (OutCord c)
  then show ?thesis using on_impl_outputs [OF WriteCord_appends, of c] by (simp add: coded_WriteCord_def [abs_def] outputs_def)
next
  case (OutField num b)
  with assms on_impl_outputs [OF WriteStringField_appends, of b num] show ?thesis by (simp add: outputs_def)
next
  case (OutFieldAliased num b)
  with assms on_impl_outputs [OF WriteStringMaybeAliased_appends, of b num] show ?thesis by (simp add: outputs_def)
next
  case (OutFieldCord num c)
  with on_impl_outputs [OF WriteCordField_appends, of num c] show ?thesis by (simp add: outputs_def del: length_concat)
next
  case (OutPacked num p)
  with assms on_impl_outputs [OF out_packed_appends, of p little num] show ?thesis by (simp add: outputs_def)
next
  case (OutDirect b)
  with out_direct_outputs [of b] show ?thesis by (simp add: outputs_def)
next
  case (OutPointer b)
  with out_pointer_outputs [of b] show ?thesis by (simp add: outputs_def)
next
  case (OutSkip k)
  with out_skip_outputs [of k] show ?thesis by (simp add: outputs_def)
next
  case OutTrim
  with out_trim_outputs show ?thesis by (simp add: outputs_def)
next
  case (OutAliasing e)
  with out_aliasing_outputs [of e] show ?thesis by (simp add: outputs_def)
qed (use on_impl_outputs [OF WriteRaw_appends] on_impl_outputs [OF WriteRawMaybeAliased_appends]
      ensure_and_store_outputs [OF encode_small(1)] ensure_and_store_outputs [OF encode_small(2)]
      ensure_and_store_outputs [OF LittleEndian_small(1)] ensure_and_store_outputs [OF LittleEndian_small(2)]
      ensure_and_store_outputs [OF LittleEndian_small(3)]
    in \<open>simp_all add: outputs_def coded_WriteRaw_def coded_WriteRawMaybeAliased_def coded_WriteString_def
      WriteLittleEndian16_def WriteLittleEndian32_def WriteLittleEndian64_def WriteTag_def WriteVarint32_def WriteVarint64_def
      WriteVarint32SignExtended_def WriteVarint32ToArray_def WriteVarint64ToArray_def WriteTagToArray_def
      WriteVarint32SignExtendedToArray_def\<close>)

lemma out_run_outputs: "list_all out_ok cmds \<Longrightarrow> outputs (out_run little I cmds) (concat (map out_bytes cmds))"
proof (induction cmds)
  case Nil
  then show ?case by (auto simp: outputs_def)
next
  case (Cons x xs)
  show ?case
    unfolding outputs_def
  proof (intro allI impI)
    fix w N sc and c :: "'s coded_output"
    assume i: "out_inv N sc w c" and n: "length w + length (concat (map out_bytes (x # xs))) \<le> N"
    from n have n1: "length w + length (out_bytes x) \<le> N" by simp
    from out_step_outputs [of x little] Cons.prems i n1 obtain c1 y where
      1: "out_step little I x c = Some c1" "matches (out_bytes x) y" "out_inv N sc (w @ y) c1"
      unfolding outputs_def by (metis list.pred_inject(2))
    have "length (w @ y) + length (concat (map out_bytes xs)) \<le> N"
      using n matches_length [OF 1(2)] by (simp del: length_concat)
    with Cons 1(3) obtain c2 z where
      2: "out_run little I xs c1 = Some c2" "matches (concat (map out_bytes xs)) z" "out_inv N sc ((w @ y) @ z) c2"
      unfolding outputs_def by (metis list.pred_inject(2))
    from matches_append [OF 1(2) 2(2)] 1(1) 2(1,3)
    show "\<exists>c' z. out_run little I (x # xs) c = Some c' \<and> matches (concat (map out_bytes (x # xs))) z \<and> out_inv N sc (w @ z) c'"
      by (intro exI [of _ c2] exI [of _ "y @ z"]) simp
  qed
qed

subsection \<open>A session\<close>

lemma CodedOutputStream_inv:
  assumes "inv st" and "length fill = 32"
  shows "\<exists>c. CodedOutputStream I fill eager st = Some c \<and> out_inv N (int (length (written st))) (written st) c"
proof -
  let ?s = "snd (EpsCopyOutputStream fill st)"
  let ?c = "\<lparr>cw_impl = ?s, cw_cur = Patch 0, cw_start_count = os_ByteCount I st\<rparr>"
  have t: "trimmed (written st) ?s" using assms by (simp add: trimmed_def EpsCopyOutputStream_def eps_frame_def)
  have fst: "EpsCopyOutputStream fill st = (Patch 0, ?s)" "eo_stream ?s = st" by (simp_all add: EpsCopyOutputStream_def)
  have c: "out_inv N (int (length (written st))) (written st) ?c"
    using trimmed_inv [OF t] cnt_written [OF assms(1)] by (simp add: out_inv_def)
  have d: "CodedOutputStream I fill eager st = (if eager then InitEagerly I ?c else Some ?c)"
    by (simp add: CodedOutputStream_def EpsCopyOutputStream_def)
  show ?thesis
  proof (cases eager)
    case False
    with c d show ?thesis by simp
  next
    case True
    from nxt_buffer [OF assms(1)] show ?thesis
    proof
      assume "\<exists>s'. os_Next I st = Some (None, s') \<and> full (os_ByteCount I st)"
      then obtain st' where n: "os_Next I st = Some (None, st')" by blast
      from nxt_fail [OF assms(1) n] have "trimmed (written st) (?s\<lparr>eo_stream := st'\<rparr>)" using t by (simp add: trimmed_def)
      from trimmed_inv [OF this] n True d fst(2) cnt_written [OF assms(1)] show ?thesis
        by (simp add: InitEagerly_def out_inv_def)
    next
      assume "\<exists>p n s'. os_Next I st = Some (Some (p, n), s') \<and> 0 < n"
      then obtain p n st' where n: "os_Next I st = Some (Some (p, n), st')" "0 < n" by blast
      from region_start [OF assms(1) n(1)] obtain r where r: "int (length r) = n" "region_at (written st) p r st'" by blast
      let ?u = "?s\<lparr>eo_stream := st'\<rparr>"
      have "sink (written st) (Mem p) r (eo_stream ?u)" "eps_frame ?u" "\<not> eo_had_error ?u"
        using r(2) t by (simp_all add: sink_def trimmed_def)
      from SetInitialBuffer_inv [OF this, of N] r(1) obtain q s' where
        "SetInitialBuffer (Mem p) n ?u = (q, s')" "eps_inv N (written st) q s'" by blast
      with n True d fst(2) cnt_written [OF assms(1)] show ?thesis by (simp add: InitEagerly_def out_inv_def)
    qed
  qed
qed

text \<open>The end of a session: the error flag, the byte count and the destructor.\<close>

lemma session_end:
  assumes "out_inv N sc w c" and "length w \<le> N"
  shows "\<exists>e c' n st. coded_HadError I c = Some (e, c') \<and> coded_out_ByteCount I c' = Some n
     \<and> CodedOutputStream_destroy I c' = Some st \<and> inv st
     \<and> (\<not> e \<longrightarrow> written st = w \<and> n = to_i32 (int (length w) - sc)) \<and> (e \<longrightarrow> (\<exists>k < N. full (int k)))"
proof -
  from assms(1) have i: "eps_inv N w (cw_cur c) (cw_impl c)" "cw_start_count c = sc" by (simp_all add: out_inv_def)
  from FlushAndReset_Trim [OF i(1) assms(2)] obtain p2 s2 p3 s3 where
    2: "FlushAndResetBuffer I (cw_cur c) (cw_impl c) = Some (p2, s2)" "eps_inv N w p2 s2"
    and 3: "eps_Trim I p2 s2 = Some (p3, s3)" "inv (eo_stream s3)" "\<not> eo_had_error s2 \<Longrightarrow> written (eo_stream s3) = w" by blast
  from eps_ByteCount_written [OF 2(2)] obtain n where
    n: "eps_ByteCount I p2 s2 = Some n" "\<not> eo_had_error s2 \<Longrightarrow> n = int (length w)" by blast
  have "\<exists>k < N. full (int k)" if "eo_had_error s2" using 2(2) that by (simp add: eps_inv_def)
  with 2(1) 3 n i(2) show ?thesis
    by (simp add: coded_HadError_def on_impl_def coded_out_ByteCount_def CodedOutputStream_destroy_def coded_Trim_def)
qed

lemma session_written:
  assumes "inv st" and "length fill = 32" and "list_all out_ok cmds"
  shows "\<exists>e n st' x. out_session little I fill eager cmds st = Some (e, n, st') \<and> inv st'
     \<and> matches (concat (map out_bytes cmds)) x
     \<and> (\<not> e \<longrightarrow> written st' = written st @ x \<and> n = to_i32 (int (length x)))
     \<and> (e \<longrightarrow> (\<exists>k < length (written st) + length x. full (int k)))"
proof -
  let ?p = "concat (map out_bytes cmds)" and ?sc = "int (length (written st))"
  let ?N = "length (written st) + length ?p"
  from CodedOutputStream_inv [OF assms(1,2)] obtain c0 where
    0: "CodedOutputStream I fill eager st = Some c0" "out_inv ?N ?sc (written st) c0" by blast
  from out_run_outputs [OF assms(3), of little] 0(2) obtain c1 x where
    1: "out_run little I cmds c0 = Some c1" "matches ?p x" "out_inv ?N ?sc (written st @ x) c1"
    unfolding outputs_def by blast
  have len: "length (written st @ x) = ?N" using matches_length [OF 1(2)] by simp
  from len have "length (written st @ x) \<le> ?N" by (rule eq_imp_le)
  from session_end [OF 1(3) this] obtain e c' n st' where
    e: "coded_HadError I c1 = Some (e, c')" "coded_out_ByteCount I c' = Some n" "CodedOutputStream_destroy I c' = Some st'"
      "inv st'" "\<not> e \<longrightarrow> written st' = written st @ x \<and> n = to_i32 (int (length (written st @ x)) - ?sc)"
      "e \<longrightarrow> (\<exists>k < ?N. full (int k))" by blast
  have "out_session little I fill eager cmds st = Some (e, n, st')" using 0(1) 1(1) e(1-3) by (simp add: out_session_def)
  moreover have "\<exists>k < length (written st) + length x. full (int k)" if e using e(6) that len by (simp del: length_concat)
  moreover have "written st' = written st @ x \<and> n = to_i32 (int (length x))" if "\<not> e" using e(5) that by simp
  ultimately show ?thesis using e(4) 1(2) by blast
qed

end

end
