(* ===== verification/Output_Client_Streams.thy ===== *)
theory Output_Client_Streams
  imports Output_Client
begin

section \<open>CodedOutputStream over the output streams of the library\<close>

text \<open>
  The streams of the library as streams to encode to, each with the virtual functions it
  overrides. \<open>CopyingOutputStreamAdaptor\<close> allows aliasing and has a \<open>WriteCord\<close> of its own,
  \<open>CordOutputStream\<close> has a \<open>WriteCord\<close> of its own, the others take the defaults. The interpretations
  of \<open>eps_sink\<close> give what a session of the encoder leaves in each of them.
\<close>

text \<open>The default of \<open>WriteAliasedRaw\<close> ends the program.\<close>

definition default_WriteAliasedRaw :: "string \<Rightarrow> 's \<Rightarrow> (bool \<times> 's) option" where
  "default_WriteAliasedRaw data s = None"

definition array_sink :: "array_output output_stream" where
  "array_sink = \<lparr>os_Next = arrayout_Next, os_put = arrayout_put, os_get = arrayout_get, os_BackUp = arrayout_BackUp,
     os_ByteCount = arrayout_ByteCount, os_WriteAliasedRaw = default_WriteAliasedRaw,
     os_WriteCord = WriteCord arrayout_Next arrayout_put arrayout_BackUp, os_AllowsAliasing = False\<rparr>"

definition string_sink :: "string_output output_stream" where
  "string_sink = \<lparr>os_Next = string_Next, os_put = string_put, os_get = string_get, os_BackUp = string_BackUp,
     os_ByteCount = string_ByteCount, os_WriteAliasedRaw = default_WriteAliasedRaw,
     os_WriteCord = WriteCord string_Next string_put string_BackUp, os_AllowsAliasing = False\<rparr>"

definition adaptor_sink :: "'c write_op \<Rightarrow> 'c copying_output output_stream" where
  "adaptor_sink wr = \<lparr>os_Next = copyout_Next wr, os_put = copyout_put, os_get = copyout_get, os_BackUp = copyout_BackUp wr,
     os_ByteCount = copyout_ByteCount, os_WriteAliasedRaw = copyout_WriteAliasedRaw wr,
     os_WriteCord = copyout_WriteCord wr, os_AllowsAliasing = True\<rparr>"

definition ostream_sink :: "std_ostream copying_output output_stream" where
  "ostream_sink = \<lparr>os_Next = copyout_Next CopyingOstream_Write, os_put = copyout_put, os_get = copyout_get,
     os_BackUp = copyout_BackUp CopyingOstream_Write, os_ByteCount = copyout_ByteCount,
     os_WriteAliasedRaw = default_WriteAliasedRaw,
     os_WriteCord = WriteCord (copyout_Next CopyingOstream_Write) copyout_put (copyout_BackUp CopyingOstream_Write),
     os_AllowsAliasing = False\<rparr>"

definition cord_sink :: "absl_buffers \<Rightarrow> cord_output output_stream" where
  "cord_sink A = \<lparr>os_Next = cordout_Next A, os_put = cordout_put, os_get = cordout_get, os_BackUp = cordout_BackUp A,
     os_ByteCount = cordout_ByteCount, os_WriteAliasedRaw = default_WriteAliasedRaw,
     os_WriteCord = (\<lambda>cs s. Some (cordout_WriteCord (concat cs) s)), os_AllowsAliasing = False\<rparr>"

lemma sink_simps [simp]:
  "os_Next array_sink = arrayout_Next" "os_put array_sink = arrayout_put" "os_get array_sink = arrayout_get"
  "os_BackUp array_sink = arrayout_BackUp" "os_ByteCount array_sink = arrayout_ByteCount"
  "os_WriteCord array_sink = WriteCord arrayout_Next arrayout_put arrayout_BackUp" "\<not> os_AllowsAliasing array_sink"
  "os_Next string_sink = string_Next" "os_put string_sink = string_put" "os_get string_sink = string_get"
  "os_BackUp string_sink = string_BackUp" "os_ByteCount string_sink = string_ByteCount"
  "os_WriteCord string_sink = WriteCord string_Next string_put string_BackUp" "\<not> os_AllowsAliasing string_sink"
  "os_Next (adaptor_sink wr) = copyout_Next wr" "os_put (adaptor_sink wr) = copyout_put" "os_get (adaptor_sink wr) = copyout_get"
  "os_BackUp (adaptor_sink wr) = copyout_BackUp wr" "os_ByteCount (adaptor_sink wr) = copyout_ByteCount"
  "os_WriteAliasedRaw (adaptor_sink wr) = copyout_WriteAliasedRaw wr" "os_WriteCord (adaptor_sink wr) = copyout_WriteCord wr"
  "os_Next ostream_sink = copyout_Next CopyingOstream_Write" "os_put ostream_sink = copyout_put" "os_get ostream_sink = copyout_get"
  "os_BackUp ostream_sink = copyout_BackUp CopyingOstream_Write" "os_ByteCount ostream_sink = copyout_ByteCount"
  "os_WriteCord ostream_sink = WriteCord (copyout_Next CopyingOstream_Write) copyout_put (copyout_BackUp CopyingOstream_Write)"
  "\<not> os_AllowsAliasing ostream_sink"
  "os_Next (cord_sink A) = cordout_Next A" "os_put (cord_sink A) = cordout_put" "os_get (cord_sink A) = cordout_get"
  "os_BackUp (cord_sink A) = cordout_BackUp A" "os_ByteCount (cord_sink A) = cordout_ByteCount"
  "os_WriteCord (cord_sink A) = (\<lambda>cs s. Some (cordout_WriteCord (concat cs) s))" "\<not> os_AllowsAliasing (cord_sink A)"
  by (simp_all add: array_sink_def string_sink_def adaptor_sink_def ostream_sink_def cord_sink_def)

interpretation array_encoder: eps_sink array_sink "arrayout_inv n" arrayout_written "\<lambda>k. k = n" for n
proof (intro eps_sink.intro)
  show "output_memory (os_Next array_sink) (os_put array_sink) (os_BackUp array_sink) (os_ByteCount array_sink)
      (arrayout_inv n) arrayout_written (\<lambda>k. k = n) (os_get array_sink)"
    using array_memory.output_memory_axioms [of n] by simp
  show "eps_sink_axioms array_sink (arrayout_inv n) arrayout_written (\<lambda>k. k = n)"
  proof
    fix s cs
    assume "arrayout_inv n s"
    from array_output.WriteCord_written [OF this, of cs] array_output.cnt_written [OF this]
    show "\<exists>b s'. os_WriteCord array_sink cs s = Some (b, s') \<and> arrayout_inv n s'
        \<and> (b \<longrightarrow> arrayout_written s' = arrayout_written s @ concat cs)
        \<and> (\<not> b \<longrightarrow> (\<exists>k < length (concat cs). int (length (arrayout_written s) + k) = n))" by auto
  qed simp
qed

interpretation string_encoder: eps_sink string_sink string_inv so_target "\<lambda>k. False"
proof (intro eps_sink.intro)
  show "output_memory (os_Next string_sink) (os_put string_sink) (os_BackUp string_sink) (os_ByteCount string_sink)
      string_inv so_target (\<lambda>k. False) (os_get string_sink)"
    using string_memory.output_memory_axioms by simp
  show "eps_sink_axioms string_sink string_inv so_target (\<lambda>k. False)"
  proof
    fix s cs
    assume "string_inv s"
    from string_output.WriteCord_written [OF this, of cs]
    show "\<exists>b s'. os_WriteCord string_sink cs s = Some (b, s') \<and> string_inv s'
        \<and> (b \<longrightarrow> so_target s' = so_target s @ concat cs) \<and> (\<not> b \<longrightarrow> (\<exists>k < length (concat cs). False))" by auto
  qed simp
qed

sublocale copying_write \<subseteq> adaptor_encoder: eps_sink "adaptor_sink wr" "copyout_inv cinv out" "copyout_written out" "\<lambda>k. False"
proof (intro eps_sink.intro)
  show "output_memory (os_Next (adaptor_sink wr)) (os_put (adaptor_sink wr)) (os_BackUp (adaptor_sink wr))
      (os_ByteCount (adaptor_sink wr)) (copyout_inv cinv out) (copyout_written out) (\<lambda>k. False) (os_get (adaptor_sink wr))"
    using adaptor_memory.output_memory_axioms by simp
  show "eps_sink_axioms (adaptor_sink wr) (copyout_inv cinv out) (copyout_written out) (\<lambda>k. False)"
  proof
    fix s bs and cs :: "string list"
    assume i: "copyout_inv cinv out s"
    from copyout_WriteCord_written [OF i, of cs]
    show "\<exists>b s'. os_WriteCord (adaptor_sink wr) cs s = Some (b, s') \<and> copyout_inv cinv out s'
        \<and> (b \<longrightarrow> copyout_written out s' = copyout_written out s @ concat cs) \<and> (\<not> b \<longrightarrow> (\<exists>k < length (concat cs). False))" by auto
    from WriteAliasedRaw_written [OF i, of bs]
    show "\<exists>b s'. os_WriteAliasedRaw (adaptor_sink wr) bs s = Some (b, s') \<and> copyout_inv cinv out s'
        \<and> (b \<longrightarrow> copyout_written out s' = copyout_written out s @ bs) \<and> (\<not> b \<longrightarrow> (\<exists>k < length bs. False))" by auto
  qed
qed

interpretation ostream_encoder: eps_sink ostream_sink "copyout_inv ostream_inv os_content" "copyout_written os_content" "\<lambda>k. False"
proof (intro eps_sink.intro)
  show "output_memory (os_Next ostream_sink) (os_put ostream_sink) (os_BackUp ostream_sink) (os_ByteCount ostream_sink)
      (copyout_inv ostream_inv os_content) (copyout_written os_content) (\<lambda>k. False) (os_get ostream_sink)"
    using ostream.adaptor_memory.output_memory_axioms by simp
  show "eps_sink_axioms ostream_sink (copyout_inv ostream_inv os_content) (copyout_written os_content) (\<lambda>k. False)"
  proof
    fix s cs
    assume "copyout_inv ostream_inv os_content s"
    from ostream.adaptor_out.WriteCord_written [OF this, of cs]
    show "\<exists>b s'. os_WriteCord ostream_sink cs s = Some (b, s') \<and> copyout_inv ostream_inv os_content s'
        \<and> (b \<longrightarrow> copyout_written os_content s' = copyout_written os_content s @ concat cs)
        \<and> (\<not> b \<longrightarrow> (\<exists>k < length (concat cs). False))" by auto
  qed simp
qed

interpretation cord_encoder: eps_sink "cord_sink A" "\<lambda>s. buffers_ok A \<and> cordout_inv s" cordout_written "\<lambda>k. False" for A
proof (intro eps_sink.intro)
  show "output_memory (os_Next (cord_sink A)) (os_put (cord_sink A)) (os_BackUp (cord_sink A)) (os_ByteCount (cord_sink A))
      (\<lambda>s. buffers_ok A \<and> cordout_inv s) cordout_written (\<lambda>k. False) (os_get (cord_sink A))"
    using cord_memory.output_memory_axioms [of A] by simp
  show "eps_sink_axioms (cord_sink A) (\<lambda>s. buffers_ok A \<and> cordout_inv s) cordout_written (\<lambda>k. False)"
  proof
    fix s cs
    assume i: "buffers_ok A \<and> cordout_inv s"
    let ?t = "snd (cordout_WriteCord (concat cs) s)"
    have w: "cordout_WriteCord (concat cs) s = (True, ?t)" by (simp add: cordout_WriteCord_def Let_def)
    with i cordout_WriteCord_written [OF w]
    show "\<exists>b s'. os_WriteCord (cord_sink A) cs s = Some (b, s') \<and> (buffers_ok A \<and> cordout_inv s')
        \<and> (b \<longrightarrow> cordout_written s' = cordout_written s @ concat cs) \<and> (\<not> b \<longrightarrow> (\<exists>k < length (concat cs). False))"
      by (intro exI [of _ True] exI [of _ ?t]) simp
  qed simp
qed

end
