(* ===== verification/Coded_Output_Laws.thy ===== *)
theory Coded_Output_Laws
  imports Output_Client_Streams Coded_Roundtrip
begin

unbundle bit_operations_syntax

section \<open>What CodedOutputStream writes\<close>

text \<open>
  The properties of the encoder as its users see them: a session over each stream of the library
  leaves exactly the bytes of its commands there, whatever the buffers are and with or without
  aliasing, and what is encoded is read back by \<open>CodedInputStream\<close>.
\<close>



text \<open>Over a string the encoder never fails, and appends exactly the bytes of its calls to the
  target, however the string grows.\<close>

theorem coded_writes_string:
  assumes "length fill = 32" and "list_all out_ok cmds" and "\<And>n. n \<le> so_grow st n"
  shows "\<exists>n s x. out_session little string_sink fill eager cmds st = Some (False, n, s)
     \<and> matches (concat (map out_bytes cmds)) x \<and> so_target s = so_target st @ x \<and> n = to_i32 (int (length x))"
proof -
  have "string_inv st" using assms(3) by (simp add: string_inv_def)
  from string_encoder.session_written [OF this assms(1,2)] show ?thesis by (metis (full_types))
qed

lemma coded_writes_string_witness:
  "\<exists>n s. out_session True string_sink (replicate 32 (CHR ''?'')) True [OutMaybeAliased ''bc'', OutPointer ''def'']
       \<lparr>so_target = ''a'', so_capacity = 2, so_grow = (\<lambda>n. n), so_fill = (\<lambda>_. CHR ''?'')\<rparr> = Some (False, n, s)
     \<and> so_target s = ''abcdef'' \<and> n = to_i32 5"
proof -
  let ?c = "[OutMaybeAliased ''bc'', OutPointer ''def'']"
  let ?t = "\<lparr>so_target = ''a'', so_capacity = 2, so_grow = (\<lambda>n. n), so_fill = (\<lambda>_. CHR ''?'')\<rparr>"
  have m: "matches (concat (map out_bytes ?c)) x \<longleftrightarrow> x = ''bcdef''" for x
    using matches_Some [of "''bcdef''" x] by simp
  have h: "length (replicate 32 (CHR ''?'')) = 32" "list_all out_ok ?c" "\<And>n. n \<le> so_grow ?t n" by simp_all
  from coded_writes_string [OF h, of True True] show ?thesis unfolding m by simp
qed



text \<open>The same for a \<open>CordOutputStream\<close> started on any cord, with any size hint and any behaviour of
  Abseil within its contract: \<open>Consume\<close> returns the initial cord followed by the bytes.\<close>

theorem coded_writes_cord:
  assumes "length fill = 32" and "list_all out_ok cmds" and "buffers_ok A"
  shows "\<exists>n s x. out_session little (cord_sink A) fill eager cmds (CordOutputStream_cord c size_hint) = Some (False, n, s)
     \<and> matches (concat (map out_bytes cmds)) x \<and> n = to_i32 (int (length x)) \<and> fst (cordout_Consume s) = c @ x"
proof -
  note o = CordOutputStream_open
  have i: "buffers_ok A \<and> cordout_inv (CordOutputStream_cord c size_hint)" "cordout_written (CordOutputStream_cord c size_hint) = c"
    using assms(3) by (simp_all add: o)
  from cord_encoder.session_written [OF i(1) assms(1,2), of little eager] i(2) obtain n s x where
    s: "out_session little (cord_sink A) fill eager cmds (CordOutputStream_cord c size_hint) = Some (False, n, s)"
      "matches (concat (map out_bytes cmds)) x" "cordout_written s = c @ x" "n = to_i32 (int (length x))"
    by (metis (full_types))
  have "fst (cordout_Consume s) = cordout_written s"
    using cordout_Consume_written [of s "fst (cordout_Consume s)" "snd (cordout_Consume s)"] by simp
  with s show ?thesis by auto
qed

lemma coded_writes_cord_witness:
  "\<exists>n s. out_session True (cord_sink sample_buffers) (replicate 32 (CHR ''?'')) True [OutCord [''b'', ''c''], OutString ''d'']
       (CordOutputStream_cord ''a'' 0) = Some (False, n, s)
     \<and> n = to_i32 3 \<and> fst (cordout_Consume s) = ''abcd''"
proof -
  let ?c = "[OutCord [''b'', ''c''], OutString ''d'']"
  have m: "matches (concat (map out_bytes ?c)) x \<longleftrightarrow> x = ''bcd''" for x
    using matches_Some [of "''bcd''" x] by simp
  have h: "length (replicate 32 (CHR ''?'')) = 32" "list_all out_ok ?c" by simp_all
  from coded_writes_cord [OF h sample_buffers_ok, of True True "''a''" 0] show ?thesis unfolding m by simp
qed

subsection \<open>Encoding and decoding\<close>

text \<open>The items that a decoder finds, for the calls that write items.\<close>

fun readable :: "out_cmd \<Rightarrow> bool" where
  "readable (OutRaw b) \<longleftrightarrow> False" | "readable (OutMaybeAliased b) \<longleftrightarrow> False" | "readable (OutString b) \<longleftrightarrow> False"
| "readable (OutCord c) \<longleftrightarrow> False" | "readable (OutDirect b) \<longleftrightarrow> False" | "readable (OutPointer b) \<longleftrightarrow> False"
| "readable (OutSkip k) \<longleftrightarrow> False" | "readable _ \<longleftrightarrow> True"

fun cmd_items :: "out_cmd \<Rightarrow> wire_item list" where
  "cmd_items (OutVarint32 v) = [Item32 v]"
| "cmd_items (OutVarint64 v) = [Item64 v]"
| "cmd_items (OutSigned v) = [ItemSigned v]"
| "cmd_items (OutTag v) = [ItemTag v]"
| "cmd_items (OutFixed16 v) = [ItemFixed16 v]"
| "cmd_items (OutFixed32 v) = [ItemFixed32 v]"
| "cmd_items (OutFixed64 v) = [ItemFixed64 v]"
| "cmd_items (OutField num b) = [ItemTag (push_bit 3 num OR 2), ItemString b]"
| "cmd_items (OutFieldAliased num b) = [ItemTag (push_bit 3 num OR 2), ItemString b]"
| "cmd_items (OutFieldCord num c) = [ItemTag (push_bit 3 num OR 2), ItemString (concat c)]"
| "cmd_items (OutPacked num p) = [ItemTag (push_bit 3 num OR 2), ItemString (packed_bytes p)]"
| "cmd_items _ = []"

lemma cmd_items_bytes: "readable cmd \<Longrightarrow> out_bytes cmd = map Some (concat (map write_item (cmd_items cmd)))"
  by (cases cmd) (simp_all add: delimited_def WriteTagToArray_def WriteVarint32ToArray_def del: length_concat)

lemma all_items_bytes:
  "list_all readable cmds \<Longrightarrow> concat (map out_bytes cmds) = map Some (concat (map write_item (concat (map cmd_items cmds))))"
  by (induction cmds) (simp_all add: cmd_items_bytes)

text \<open>C19. What is written with \<open>CodedOutputStream\<close> into a string, numbers, tags, fields and packed fields in
  any order, with flushes and changes of aliasing between them, is read back by the matching
  readers of \<open>CodedInputStream\<close> from an array with any block size, up to the end.\<close>

theorem coded_output_roundtrip:
  assumes "length fill = 32" and "list_all out_ok cmds" and "\<And>n. n \<le> so_grow st n" and "so_target st = []"
    and "list_all readable cmds" and "list_all item_ok (concat (map cmd_items cmds))"
    and "length (concat (map out_bytes cmds)) \<le> nat INT_MAX"
  shows "\<exists>n s i. out_session little string_sink fill eager cmds st = Some (False, n, s)
     \<and> coded_session (length (concat (map item_cmds (concat (map cmd_items cmds))))) array_stream
         (script (concat (map item_cmds (concat (map cmd_items cmds)))))
         (ArrayInputStream (so_target s) (int (length (so_target s))) block_size)
       = Some (True, concat (map item_values (concat (map cmd_items cmds))), i)
     \<and> map_option array_rest i = Some []"
proof -
  let ?b = "concat (map write_item (concat (map cmd_items cmds)))"
  have "string_inv st" using assms(3) by (simp add: string_inv_def)
  from string_encoder.session_written [OF this assms(1,2), of little eager] all_items_bytes [OF assms(5)] assms(4)
  obtain n s where s: "out_session little string_sink fill eager cmds st = Some (False, n, s)" "so_target s = ?b" by auto
  have "int (length ?b) \<le> INT_MAX" using assms(7) all_items_bytes [OF assms(5)] by (simp add: INT_MAX_def del: length_concat)
  from array_items_read [OF assms(6) this, of "[]" block_size] s show ?thesis by simp
qed

lemma coded_output_roundtrip_witness:
  "\<exists>n s i. out_session False string_sink (replicate 32 (CHR ''?'')) False [OutTag 8, OutVarint64 300, OutTrim, OutField 1 ''a'']
       \<lparr>so_target = [], so_capacity = 2, so_grow = (\<lambda>n. n), so_fill = (\<lambda>_. CHR ''?'')\<rparr> = Some (False, n, s)
     \<and> coded_session 5 array_stream (script [CmdTag, CmdVarint64, CmdTag, CmdSize, CmdString 1])
         (ArrayInputStream (so_target s) (int (length (so_target s))) 1)
       = Some (True, [VNum 8, VNum 300, VNum 10, VNum 1, VBytes ''a''], i)
     \<and> map_option array_rest i = Some []"
proof -
  let ?c = "[OutTag 8, OutVarint64 300, OutTrim, OutField 1 ''a'']"
  let ?t = "\<lparr>so_target = [], so_capacity = 2, so_grow = (\<lambda>n. n), so_fill = (\<lambda>_. CHR ''?'')\<rparr>"
  have i: "concat (map cmd_items ?c) = [ItemTag 8, Item64 300, ItemTag 10, ItemString ''a'']" by simp
  have v: "concat (map item_cmds (concat (map cmd_items ?c))) = [CmdTag, CmdVarint64, CmdTag, CmdSize, CmdString 1]"
    "concat (map item_values (concat (map cmd_items ?c))) = [VNum 8, VNum 300, VNum 10, VNum 1, VBytes ''a'']"
    "length [CmdTag, CmdVarint64, CmdTag, CmdSize, CmdString 1] = 5" unfolding i by simp_all
  have h: "length (replicate 32 (CHR ''?'')) = 32" "list_all out_ok ?c" "\<And>n. n \<le> so_grow ?t n" "so_target ?t = []"
    "list_all readable ?c" "list_all item_ok (concat (map cmd_items ?c))"
    by (simp_all add: INT_MAX_def)
  have "length (UnsafeVarint32 8) \<le> 5" "length (UnsafeVarint64 300) \<le> 10" "length (delimited 1 1) \<le> 16"
    by (rule varint_length_le delimited_length)+
  then have "length (concat (map out_bytes ?c)) \<le> nat INT_MAX"
    by (simp add: INT_MAX_def WriteTagToArray_def WriteVarint32ToArray_def WriteVarint64ToArray_def)
  from coded_output_roundtrip [OF h this, of False False 1] show ?thesis unfolding v .
qed

end
