(* ===== verification/Wire_Format.thy ===== *)
theory Wire_Format
  imports Coded_Output Coded_Read
begin

unbundle bit_operations_syntax

section \<open>wire_format_lite: tags, values and sizes\<close>

text \<open>
  The class \<open>WireFormatLite\<close> (files \<open>wire_format_lite.h\<close> and \<open>wire_format_lite.cc\<close>): tags, the zigzag code,
  writing a field into memory or to a \<open>CodedOutputStream\<close>, and the sizes of the encodings. A function
  that writes to \<open>target\<close> is the string it writes. \<open>int32_t\<close> and \<open>int64_t\<close> values are words of
  their width, which the code casts to the unsigned types. A \<open>float\<close> or \<open>double\<close> is only ever
  copied, and is its IEEE bit pattern. The prefix \<open>wf_\<close> is for names that other classes use too.
\<close>

subsection \<open>Types and tags\<close>

definition WIRETYPE_VARINT :: "32 word" where "WIRETYPE_VARINT = 0"
definition WIRETYPE_FIXED64 :: "32 word" where "WIRETYPE_FIXED64 = 1"
definition WIRETYPE_LENGTH_DELIMITED :: "32 word" where "WIRETYPE_LENGTH_DELIMITED = 2"
definition WIRETYPE_START_GROUP :: "32 word" where "WIRETYPE_START_GROUP = 3"
definition WIRETYPE_END_GROUP :: "32 word" where "WIRETYPE_END_GROUP = 4"
definition WIRETYPE_FIXED32 :: "32 word" where "WIRETYPE_FIXED32 = 5"

lemmas wire_types = WIRETYPE_VARINT_def WIRETYPE_FIXED64_def WIRETYPE_LENGTH_DELIMITED_def WIRETYPE_START_GROUP_def
  WIRETYPE_END_GROUP_def WIRETYPE_FIXED32_def

datatype FieldType =
  TYPE_DOUBLE | TYPE_FLOAT | TYPE_INT64 | TYPE_UINT64 | TYPE_INT32 | TYPE_FIXED64 | TYPE_FIXED32 | TYPE_BOOL
  | TYPE_STRING | TYPE_GROUP | TYPE_MESSAGE | TYPE_BYTES | TYPE_UINT32 | TYPE_ENUM | TYPE_SFIXED32
  | TYPE_SFIXED64 | TYPE_SINT32 | TYPE_SINT64

datatype CppType =
  CPPTYPE_INT32 | CPPTYPE_INT64 | CPPTYPE_UINT32 | CPPTYPE_UINT64 | CPPTYPE_DOUBLE | CPPTYPE_FLOAT
  | CPPTYPE_BOOL | CPPTYPE_ENUM | CPPTYPE_STRING | CPPTYPE_MESSAGE

fun kFieldTypeToCppTypeMap :: "FieldType \<Rightarrow> CppType" where
  "kFieldTypeToCppTypeMap TYPE_DOUBLE = CPPTYPE_DOUBLE"
| "kFieldTypeToCppTypeMap TYPE_FLOAT = CPPTYPE_FLOAT"
| "kFieldTypeToCppTypeMap TYPE_INT64 = CPPTYPE_INT64"
| "kFieldTypeToCppTypeMap TYPE_UINT64 = CPPTYPE_UINT64"
| "kFieldTypeToCppTypeMap TYPE_INT32 = CPPTYPE_INT32"
| "kFieldTypeToCppTypeMap TYPE_FIXED64 = CPPTYPE_UINT64"
| "kFieldTypeToCppTypeMap TYPE_FIXED32 = CPPTYPE_UINT32"
| "kFieldTypeToCppTypeMap TYPE_BOOL = CPPTYPE_BOOL"
| "kFieldTypeToCppTypeMap TYPE_STRING = CPPTYPE_STRING"
| "kFieldTypeToCppTypeMap TYPE_GROUP = CPPTYPE_MESSAGE"
| "kFieldTypeToCppTypeMap TYPE_MESSAGE = CPPTYPE_MESSAGE"
| "kFieldTypeToCppTypeMap TYPE_BYTES = CPPTYPE_STRING"
| "kFieldTypeToCppTypeMap TYPE_UINT32 = CPPTYPE_UINT32"
| "kFieldTypeToCppTypeMap TYPE_ENUM = CPPTYPE_ENUM"
| "kFieldTypeToCppTypeMap TYPE_SFIXED32 = CPPTYPE_INT32"
| "kFieldTypeToCppTypeMap TYPE_SFIXED64 = CPPTYPE_INT64"
| "kFieldTypeToCppTypeMap TYPE_SINT32 = CPPTYPE_INT32"
| "kFieldTypeToCppTypeMap TYPE_SINT64 = CPPTYPE_INT64"

fun kWireTypeForFieldType :: "FieldType \<Rightarrow> 32 word" where
  "kWireTypeForFieldType TYPE_DOUBLE = WIRETYPE_FIXED64"
| "kWireTypeForFieldType TYPE_FLOAT = WIRETYPE_FIXED32"
| "kWireTypeForFieldType TYPE_INT64 = WIRETYPE_VARINT"
| "kWireTypeForFieldType TYPE_UINT64 = WIRETYPE_VARINT"
| "kWireTypeForFieldType TYPE_INT32 = WIRETYPE_VARINT"
| "kWireTypeForFieldType TYPE_FIXED64 = WIRETYPE_FIXED64"
| "kWireTypeForFieldType TYPE_FIXED32 = WIRETYPE_FIXED32"
| "kWireTypeForFieldType TYPE_BOOL = WIRETYPE_VARINT"
| "kWireTypeForFieldType TYPE_STRING = WIRETYPE_LENGTH_DELIMITED"
| "kWireTypeForFieldType TYPE_GROUP = WIRETYPE_START_GROUP"
| "kWireTypeForFieldType TYPE_MESSAGE = WIRETYPE_LENGTH_DELIMITED"
| "kWireTypeForFieldType TYPE_BYTES = WIRETYPE_LENGTH_DELIMITED"
| "kWireTypeForFieldType TYPE_UINT32 = WIRETYPE_VARINT"
| "kWireTypeForFieldType TYPE_ENUM = WIRETYPE_VARINT"
| "kWireTypeForFieldType TYPE_SFIXED32 = WIRETYPE_FIXED32"
| "kWireTypeForFieldType TYPE_SFIXED64 = WIRETYPE_FIXED64"
| "kWireTypeForFieldType TYPE_SINT32 = WIRETYPE_VARINT"
| "kWireTypeForFieldType TYPE_SINT64 = WIRETYPE_VARINT"

definition FieldTypeToCppType :: "FieldType \<Rightarrow> CppType" where
  "FieldTypeToCppType type = kFieldTypeToCppTypeMap type"

definition WireTypeForFieldType :: "FieldType \<Rightarrow> 32 word" where
  "WireTypeForFieldType type = kWireTypeForFieldType type"

definition kTagTypeBits :: nat where "kTagTypeBits = 3"

definition kTagTypeMask :: "32 word" where "kTagTypeMask = push_bit kTagTypeBits 1 - 1"

definition MakeTag :: "32 word \<Rightarrow> 32 word \<Rightarrow> 32 word" where
  "MakeTag field_number type = push_bit 3 field_number OR type"

definition GetTagWireType :: "32 word \<Rightarrow> 32 word" where
  "GetTagWireType tag = tag AND kTagTypeMask"

definition GetTagFieldNumber :: "32 word \<Rightarrow> 32 word" where
  "GetTagFieldNumber tag = drop_bit kTagTypeBits tag"

definition wf_TagSize :: "bool \<Rightarrow> 32 word \<Rightarrow> FieldType \<Rightarrow> nat" where
  "wf_TagSize bsr field_number type =
     (let result = VarintSize32 bsr (push_bit kTagTypeBits field_number)
      in if type = TYPE_GROUP then result * 2 else result)"

subsection \<open>The zigzag code and floating point numbers\<close>

definition ZigZagDecode32 :: "32 word \<Rightarrow> 32 word" where
  "ZigZagDecode32 n = drop_bit 1 n XOR (NOT (n AND 1) + 1)"

definition ZigZagDecode64 :: "64 word \<Rightarrow> 64 word" where
  "ZigZagDecode64 n = drop_bit 1 n XOR (NOT (n AND 1) + 1)"

definition EncodeFloat :: "32 word \<Rightarrow> 32 word" where "EncodeFloat value = value"
definition DecodeFloat :: "32 word \<Rightarrow> 32 word" where "DecodeFloat value = value"
definition EncodeDouble :: "64 word \<Rightarrow> 64 word" where "EncodeDouble value = value"
definition DecodeDouble :: "64 word \<Rightarrow> 64 word" where "DecodeDouble value = value"

subsection \<open>Values in memory, without and with a tag\<close>

definition wf_WriteTagToArray :: "32 word \<Rightarrow> 32 word \<Rightarrow> string" where
  "wf_WriteTagToArray field_number type = WriteTagToArray (MakeTag field_number type)"

definition WriteInt32NoTagToArray :: "32 word \<Rightarrow> string" where
  "WriteInt32NoTagToArray value = WriteVarint32SignExtendedToArray value"

definition WriteInt64NoTagToArray :: "64 word \<Rightarrow> string" where
  "WriteInt64NoTagToArray value = WriteVarint64ToArray value"

definition WriteUInt32NoTagToArray :: "32 word \<Rightarrow> string" where
  "WriteUInt32NoTagToArray value = WriteVarint32ToArray value"

definition WriteUInt64NoTagToArray :: "64 word \<Rightarrow> string" where
  "WriteUInt64NoTagToArray value = WriteVarint64ToArray value"

definition WriteSInt32NoTagToArray :: "32 word \<Rightarrow> string" where
  "WriteSInt32NoTagToArray value = WriteVarint32ToArray (ZigZagEncode32 value)"

definition WriteSInt64NoTagToArray :: "64 word \<Rightarrow> string" where
  "WriteSInt64NoTagToArray value = WriteVarint64ToArray (ZigZagEncode64 value)"

definition WriteFixed32NoTagToArray :: "32 word \<Rightarrow> string" where
  "WriteFixed32NoTagToArray value = WriteLittleEndian32ToArray value"

definition WriteFixed64NoTagToArray :: "64 word \<Rightarrow> string" where
  "WriteFixed64NoTagToArray value = WriteLittleEndian64ToArray value"

definition WriteSFixed32NoTagToArray :: "32 word \<Rightarrow> string" where
  "WriteSFixed32NoTagToArray value = WriteLittleEndian32ToArray value"

definition WriteSFixed64NoTagToArray :: "64 word \<Rightarrow> string" where
  "WriteSFixed64NoTagToArray value = WriteLittleEndian64ToArray value"

definition WriteFloatNoTagToArray :: "32 word \<Rightarrow> string" where
  "WriteFloatNoTagToArray value = WriteLittleEndian32ToArray (EncodeFloat value)"

definition WriteDoubleNoTagToArray :: "64 word \<Rightarrow> string" where
  "WriteDoubleNoTagToArray value = WriteLittleEndian64ToArray (EncodeDouble value)"

definition WriteBoolNoTagToArray :: "bool \<Rightarrow> string" where
  "WriteBoolNoTagToArray value = WriteVarint32ToArray (if value then 1 else 0)"

definition WriteEnumNoTagToArray :: "32 word \<Rightarrow> string" where
  "WriteEnumNoTagToArray value = WriteVarint32SignExtendedToArray value"

definition WriteInt32ToArray :: "32 word \<Rightarrow> 32 word \<Rightarrow> string" where
  "WriteInt32ToArray field_number value = wf_WriteTagToArray field_number WIRETYPE_VARINT @ WriteInt32NoTagToArray value"

definition WriteInt64ToArray :: "32 word \<Rightarrow> 64 word \<Rightarrow> string" where
  "WriteInt64ToArray field_number value = wf_WriteTagToArray field_number WIRETYPE_VARINT @ WriteInt64NoTagToArray value"

definition WriteUInt32ToArray :: "32 word \<Rightarrow> 32 word \<Rightarrow> string" where
  "WriteUInt32ToArray field_number value = wf_WriteTagToArray field_number WIRETYPE_VARINT @ WriteUInt32NoTagToArray value"

definition WriteUInt64ToArray :: "32 word \<Rightarrow> 64 word \<Rightarrow> string" where
  "WriteUInt64ToArray field_number value = wf_WriteTagToArray field_number WIRETYPE_VARINT @ WriteUInt64NoTagToArray value"

definition WriteSInt32ToArray :: "32 word \<Rightarrow> 32 word \<Rightarrow> string" where
  "WriteSInt32ToArray field_number value = wf_WriteTagToArray field_number WIRETYPE_VARINT @ WriteSInt32NoTagToArray value"

definition WriteSInt64ToArray :: "32 word \<Rightarrow> 64 word \<Rightarrow> string" where
  "WriteSInt64ToArray field_number value = wf_WriteTagToArray field_number WIRETYPE_VARINT @ WriteSInt64NoTagToArray value"

definition WriteFixed32ToArray :: "32 word \<Rightarrow> 32 word \<Rightarrow> string" where
  "WriteFixed32ToArray field_number value = wf_WriteTagToArray field_number WIRETYPE_FIXED32 @ WriteFixed32NoTagToArray value"

definition WriteFixed64ToArray :: "32 word \<Rightarrow> 64 word \<Rightarrow> string" where
  "WriteFixed64ToArray field_number value = wf_WriteTagToArray field_number WIRETYPE_FIXED64 @ WriteFixed64NoTagToArray value"

definition WriteSFixed32ToArray :: "32 word \<Rightarrow> 32 word \<Rightarrow> string" where
  "WriteSFixed32ToArray field_number value = wf_WriteTagToArray field_number WIRETYPE_FIXED32 @ WriteSFixed32NoTagToArray value"

definition WriteSFixed64ToArray :: "32 word \<Rightarrow> 64 word \<Rightarrow> string" where
  "WriteSFixed64ToArray field_number value = wf_WriteTagToArray field_number WIRETYPE_FIXED64 @ WriteSFixed64NoTagToArray value"

definition WriteFloatToArray :: "32 word \<Rightarrow> 32 word \<Rightarrow> string" where
  "WriteFloatToArray field_number value = wf_WriteTagToArray field_number WIRETYPE_FIXED32 @ WriteFloatNoTagToArray value"

definition WriteDoubleToArray :: "32 word \<Rightarrow> 64 word \<Rightarrow> string" where
  "WriteDoubleToArray field_number value = wf_WriteTagToArray field_number WIRETYPE_FIXED64 @ WriteDoubleNoTagToArray value"

definition WriteBoolToArray :: "32 word \<Rightarrow> bool \<Rightarrow> string" where
  "WriteBoolToArray field_number value = wf_WriteTagToArray field_number WIRETYPE_VARINT @ WriteBoolNoTagToArray value"

definition WriteEnumToArray :: "32 word \<Rightarrow> 32 word \<Rightarrow> string" where
  "WriteEnumToArray field_number value = wf_WriteTagToArray field_number WIRETYPE_VARINT @ WriteEnumNoTagToArray value"

text \<open>
  Repeated values. \<open>WritePrimitiveNoTagToArray\<close> tests its condition at the end, and reads behind an
  empty field (\<open>None\<close>); on a little-endian host the memory of fixed-width numbers is their encoding.
\<close>

fun WritePrimitiveNoTagToArray :: "('v \<Rightarrow> string) \<Rightarrow> 'v list \<Rightarrow> string option" where
  "WritePrimitiveNoTagToArray writer [] = None"
| "WritePrimitiveNoTagToArray writer (v # vs) =
     (if vs = [] then Some (writer v) else map_option (\<lambda>t. writer v @ t) (WritePrimitiveNoTagToArray writer vs))"

definition WriteFixedNoTagToArray :: "bool \<Rightarrow> ('v \<Rightarrow> string) \<Rightarrow> 'v list \<Rightarrow> string option" where
  "WriteFixedNoTagToArray little writer vs =
     (if little then Some (concat (map writer vs)) else WritePrimitiveNoTagToArray writer vs)"

fun WritePrimitiveToArray :: "32 word \<Rightarrow> (32 word \<Rightarrow> 'v \<Rightarrow> string) \<Rightarrow> 'v list \<Rightarrow> string" where
  "WritePrimitiveToArray field_number writer [] = []"
| "WritePrimitiveToArray field_number writer (v # vs) =
     writer field_number v @ WritePrimitiveToArray field_number writer vs"

text \<open>The size of the string is cast to \<open>uint32_t\<close>.\<close>

definition WriteStringWithSizeToArray :: "string \<Rightarrow> string" where
  "WriteStringWithSizeToArray str = WriteVarint32ToArray (of_nat (length str)) @ str"

definition wf_WriteStringToArray :: "32 word \<Rightarrow> string \<Rightarrow> string" where
  "wf_WriteStringToArray field_number value =
     wf_WriteTagToArray field_number WIRETYPE_LENGTH_DELIMITED @ WriteStringWithSizeToArray value"

definition WriteBytesToArray :: "32 word \<Rightarrow> string \<Rightarrow> string" where
  "WriteBytesToArray field_number value =
     wf_WriteTagToArray field_number WIRETYPE_LENGTH_DELIMITED @ WriteStringWithSizeToArray value"

subsection \<open>To a CodedOutputStream\<close>

definition wf_WriteTag :: "'s output_stream \<Rightarrow> 32 word \<Rightarrow> 32 word \<Rightarrow> 's coded_output \<Rightarrow> 's coded_output option" where
  "wf_WriteTag I field_number type c = WriteTag I (MakeTag field_number type) c"

definition WriteInt32NoTag :: "'s output_stream \<Rightarrow> 32 word \<Rightarrow> 's coded_output \<Rightarrow> 's coded_output option" where
  "WriteInt32NoTag I value c = WriteVarint32SignExtended I value c"

definition WriteInt64NoTag :: "'s output_stream \<Rightarrow> 64 word \<Rightarrow> 's coded_output \<Rightarrow> 's coded_output option" where
  "WriteInt64NoTag I value c = WriteVarint64 I value c"

definition WriteUInt32NoTag :: "'s output_stream \<Rightarrow> 32 word \<Rightarrow> 's coded_output \<Rightarrow> 's coded_output option" where
  "WriteUInt32NoTag I value c = WriteVarint32 I value c"

definition WriteUInt64NoTag :: "'s output_stream \<Rightarrow> 64 word \<Rightarrow> 's coded_output \<Rightarrow> 's coded_output option" where
  "WriteUInt64NoTag I value c = WriteVarint64 I value c"

definition WriteSInt32NoTag :: "'s output_stream \<Rightarrow> 32 word \<Rightarrow> 's coded_output \<Rightarrow> 's coded_output option" where
  "WriteSInt32NoTag I value c = WriteVarint32 I (ZigZagEncode32 value) c"

definition WriteSInt64NoTag :: "'s output_stream \<Rightarrow> 64 word \<Rightarrow> 's coded_output \<Rightarrow> 's coded_output option" where
  "WriteSInt64NoTag I value c = WriteVarint64 I (ZigZagEncode64 value) c"

definition WriteFixed32NoTag :: "'s output_stream \<Rightarrow> 32 word \<Rightarrow> 's coded_output \<Rightarrow> 's coded_output option" where
  "WriteFixed32NoTag I value c = WriteLittleEndian32 I value c"

definition WriteFixed64NoTag :: "'s output_stream \<Rightarrow> 64 word \<Rightarrow> 's coded_output \<Rightarrow> 's coded_output option" where
  "WriteFixed64NoTag I value c = WriteLittleEndian64 I value c"

definition WriteSFixed32NoTag :: "'s output_stream \<Rightarrow> 32 word \<Rightarrow> 's coded_output \<Rightarrow> 's coded_output option" where
  "WriteSFixed32NoTag I value c = WriteLittleEndian32 I value c"

definition WriteSFixed64NoTag :: "'s output_stream \<Rightarrow> 64 word \<Rightarrow> 's coded_output \<Rightarrow> 's coded_output option" where
  "WriteSFixed64NoTag I value c = WriteLittleEndian64 I value c"

definition WriteFloatNoTag :: "'s output_stream \<Rightarrow> 32 word \<Rightarrow> 's coded_output \<Rightarrow> 's coded_output option" where
  "WriteFloatNoTag I value c = WriteLittleEndian32 I (EncodeFloat value) c"

definition WriteDoubleNoTag :: "'s output_stream \<Rightarrow> 64 word \<Rightarrow> 's coded_output \<Rightarrow> 's coded_output option" where
  "WriteDoubleNoTag I value c = WriteLittleEndian64 I (EncodeDouble value) c"

definition WriteBoolNoTag :: "'s output_stream \<Rightarrow> bool \<Rightarrow> 's coded_output \<Rightarrow> 's coded_output option" where
  "WriteBoolNoTag I value c = WriteVarint32 I (if value then 1 else 0) c"

definition WriteEnumNoTag :: "'s output_stream \<Rightarrow> 32 word \<Rightarrow> 's coded_output \<Rightarrow> 's coded_output option" where
  "WriteEnumNoTag I value c = WriteVarint32SignExtended I value c"

definition WriteInt32 :: "'s output_stream \<Rightarrow> 32 word \<Rightarrow> 32 word \<Rightarrow> 's coded_output \<Rightarrow> 's coded_output option" where
  "WriteInt32 I field_number value c = do { c \<leftarrow> wf_WriteTag I field_number WIRETYPE_VARINT c; WriteInt32NoTag I value c }"

definition WriteInt64 :: "'s output_stream \<Rightarrow> 32 word \<Rightarrow> 64 word \<Rightarrow> 's coded_output \<Rightarrow> 's coded_output option" where
  "WriteInt64 I field_number value c = do { c \<leftarrow> wf_WriteTag I field_number WIRETYPE_VARINT c; WriteInt64NoTag I value c }"

definition WriteUInt32 :: "'s output_stream \<Rightarrow> 32 word \<Rightarrow> 32 word \<Rightarrow> 's coded_output \<Rightarrow> 's coded_output option" where
  "WriteUInt32 I field_number value c = do { c \<leftarrow> wf_WriteTag I field_number WIRETYPE_VARINT c; WriteUInt32NoTag I value c }"

definition WriteUInt64 :: "'s output_stream \<Rightarrow> 32 word \<Rightarrow> 64 word \<Rightarrow> 's coded_output \<Rightarrow> 's coded_output option" where
  "WriteUInt64 I field_number value c = do { c \<leftarrow> wf_WriteTag I field_number WIRETYPE_VARINT c; WriteUInt64NoTag I value c }"

definition WriteSInt32 :: "'s output_stream \<Rightarrow> 32 word \<Rightarrow> 32 word \<Rightarrow> 's coded_output \<Rightarrow> 's coded_output option" where
  "WriteSInt32 I field_number value c = do { c \<leftarrow> wf_WriteTag I field_number WIRETYPE_VARINT c; WriteSInt32NoTag I value c }"

definition WriteSInt64 :: "'s output_stream \<Rightarrow> 32 word \<Rightarrow> 64 word \<Rightarrow> 's coded_output \<Rightarrow> 's coded_output option" where
  "WriteSInt64 I field_number value c = do { c \<leftarrow> wf_WriteTag I field_number WIRETYPE_VARINT c; WriteSInt64NoTag I value c }"

definition WriteFixed32 :: "'s output_stream \<Rightarrow> 32 word \<Rightarrow> 32 word \<Rightarrow> 's coded_output \<Rightarrow> 's coded_output option" where
  "WriteFixed32 I field_number value c = do { c \<leftarrow> wf_WriteTag I field_number WIRETYPE_FIXED32 c; WriteFixed32NoTag I value c }"

definition WriteFixed64 :: "'s output_stream \<Rightarrow> 32 word \<Rightarrow> 64 word \<Rightarrow> 's coded_output \<Rightarrow> 's coded_output option" where
  "WriteFixed64 I field_number value c = do { c \<leftarrow> wf_WriteTag I field_number WIRETYPE_FIXED64 c; WriteFixed64NoTag I value c }"

definition WriteSFixed32 :: "'s output_stream \<Rightarrow> 32 word \<Rightarrow> 32 word \<Rightarrow> 's coded_output \<Rightarrow> 's coded_output option" where
  "WriteSFixed32 I field_number value c = do { c \<leftarrow> wf_WriteTag I field_number WIRETYPE_FIXED32 c; WriteSFixed32NoTag I value c }"

definition WriteSFixed64 :: "'s output_stream \<Rightarrow> 32 word \<Rightarrow> 64 word \<Rightarrow> 's coded_output \<Rightarrow> 's coded_output option" where
  "WriteSFixed64 I field_number value c = do { c \<leftarrow> wf_WriteTag I field_number WIRETYPE_FIXED64 c; WriteSFixed64NoTag I value c }"

definition WriteFloat :: "'s output_stream \<Rightarrow> 32 word \<Rightarrow> 32 word \<Rightarrow> 's coded_output \<Rightarrow> 's coded_output option" where
  "WriteFloat I field_number value c = do { c \<leftarrow> wf_WriteTag I field_number WIRETYPE_FIXED32 c; WriteFloatNoTag I value c }"

definition WriteDouble :: "'s output_stream \<Rightarrow> 32 word \<Rightarrow> 64 word \<Rightarrow> 's coded_output \<Rightarrow> 's coded_output option" where
  "WriteDouble I field_number value c = do { c \<leftarrow> wf_WriteTag I field_number WIRETYPE_FIXED64 c; WriteDoubleNoTag I value c }"

definition WriteBool :: "'s output_stream \<Rightarrow> 32 word \<Rightarrow> bool \<Rightarrow> 's coded_output \<Rightarrow> 's coded_output option" where
  "WriteBool I field_number value c = do { c \<leftarrow> wf_WriteTag I field_number WIRETYPE_VARINT c; WriteBoolNoTag I value c }"

definition WriteEnum :: "'s output_stream \<Rightarrow> 32 word \<Rightarrow> 32 word \<Rightarrow> 's coded_output \<Rightarrow> 's coded_output option" where
  "WriteEnum I field_number value c = do { c \<leftarrow> wf_WriteTag I field_number WIRETYPE_VARINT c; WriteEnumNoTag I value c }"

text \<open>
  Arrays of fixed-width values: their memory on a little-endian host, and otherwise in pieces of 128.
  A \<open>bool\<close> is a byte.
\<close>

definition kAtATime :: nat where "kAtATime = 128"

function WriteArray_loop ::
  "'s output_stream \<Rightarrow> ('v \<Rightarrow> string) \<Rightarrow> 'v list \<Rightarrow> 's coded_output \<Rightarrow> 's coded_output option" where
  "WriteArray_loop I encode a c =
     (if a = [] then Some c
      else do {
        c \<leftarrow> coded_WriteRaw I (concat (map encode (take kAtATime a))) c;
        WriteArray_loop I encode (drop kAtATime a) c })"
  by pat_completeness auto
termination by (relation "measure (\<lambda>(_, _, a, _). length a)") (auto simp: kAtATime_def)

declare WriteArray_loop.simps [simp del]

definition WriteArray ::
  "bool \<Rightarrow> 's output_stream \<Rightarrow> ('v \<Rightarrow> string) \<Rightarrow> 'v list \<Rightarrow> 's coded_output \<Rightarrow> 's coded_output option" where
  "WriteArray little I encode a c =
     (if little then coded_WriteRaw I (concat (map encode a)) c else WriteArray_loop I encode a c)"

definition WriteFloatArray ::
  "bool \<Rightarrow> 's output_stream \<Rightarrow> 32 word list \<Rightarrow> 's coded_output \<Rightarrow> 's coded_output option" where
  "WriteFloatArray little I a c = WriteArray little I WriteFloatNoTagToArray a c"

definition WriteDoubleArray ::
  "bool \<Rightarrow> 's output_stream \<Rightarrow> 64 word list \<Rightarrow> 's coded_output \<Rightarrow> 's coded_output option" where
  "WriteDoubleArray little I a c = WriteArray little I WriteDoubleNoTagToArray a c"

definition WriteFixed32Array ::
  "bool \<Rightarrow> 's output_stream \<Rightarrow> 32 word list \<Rightarrow> 's coded_output \<Rightarrow> 's coded_output option" where
  "WriteFixed32Array little I a c = WriteArray little I WriteFixed32NoTagToArray a c"

definition WriteFixed64Array ::
  "bool \<Rightarrow> 's output_stream \<Rightarrow> 64 word list \<Rightarrow> 's coded_output \<Rightarrow> 's coded_output option" where
  "WriteFixed64Array little I a c = WriteArray little I WriteFixed64NoTagToArray a c"

definition WriteSFixed32Array ::
  "bool \<Rightarrow> 's output_stream \<Rightarrow> 32 word list \<Rightarrow> 's coded_output \<Rightarrow> 's coded_output option" where
  "WriteSFixed32Array little I a c = WriteArray little I WriteSFixed32NoTagToArray a c"

definition WriteSFixed64Array ::
  "bool \<Rightarrow> 's output_stream \<Rightarrow> 64 word list \<Rightarrow> 's coded_output \<Rightarrow> 's coded_output option" where
  "WriteSFixed64Array little I a c = WriteArray little I WriteSFixed64NoTagToArray a c"

definition WriteBoolArray ::
  "bool \<Rightarrow> 's output_stream \<Rightarrow> bool list \<Rightarrow> 's coded_output \<Rightarrow> 's coded_output option" where
  "WriteBoolArray little I a c = WriteArray little I WriteBoolNoTagToArray a c"

text \<open>\<open>ABSL_CHECK\<close> ends the program when the size does not fit an \<open>int32_t\<close>.\<close>

definition kInt32MaxSize :: int where "kInt32MaxSize = 2 ^ 31 - 1"

definition wf_WriteString ::
  "'s output_stream \<Rightarrow> 32 word \<Rightarrow> string \<Rightarrow> 's coded_output \<Rightarrow> 's coded_output option" where
  "wf_WriteString I field_number value c = do {
     c \<leftarrow> wf_WriteTag I field_number WIRETYPE_LENGTH_DELIMITED c;
     if int (length value) \<le> kInt32MaxSize
     then do { c \<leftarrow> WriteVarint32 I (of_nat (length value)) c; coded_WriteString I value c }
     else None }"

definition wf_WriteStringMaybeAliased ::
  "'s output_stream \<Rightarrow> 32 word \<Rightarrow> string \<Rightarrow> 's coded_output \<Rightarrow> 's coded_output option" where
  "wf_WriteStringMaybeAliased I field_number value c = do {
     c \<leftarrow> wf_WriteTag I field_number WIRETYPE_LENGTH_DELIMITED c;
     if int (length value) \<le> kInt32MaxSize
     then do { c \<leftarrow> WriteVarint32 I (of_nat (length value)) c; coded_WriteRawMaybeAliased I value c }
     else None }"

definition wf_WriteBytes ::
  "'s output_stream \<Rightarrow> 32 word \<Rightarrow> string \<Rightarrow> 's coded_output \<Rightarrow> 's coded_output option" where
  "wf_WriteBytes I field_number value c = do {
     c \<leftarrow> wf_WriteTag I field_number WIRETYPE_LENGTH_DELIMITED c;
     if int (length value) \<le> kInt32MaxSize
     then do { c \<leftarrow> WriteVarint32 I (of_nat (length value)) c; coded_WriteString I value c }
     else None }"

definition WriteBytesMaybeAliased ::
  "'s output_stream \<Rightarrow> 32 word \<Rightarrow> string \<Rightarrow> 's coded_output \<Rightarrow> 's coded_output option" where
  "WriteBytesMaybeAliased I field_number value c = do {
     c \<leftarrow> wf_WriteTag I field_number WIRETYPE_LENGTH_DELIMITED c;
     if int (length value) \<le> kInt32MaxSize
     then do { c \<leftarrow> WriteVarint32 I (of_nat (length value)) c; coded_WriteRawMaybeAliased I value c }
     else None }"

subsection \<open>Sizes\<close>

definition Int32Size :: "bool \<Rightarrow> 32 word \<Rightarrow> nat" where
  "Int32Size bsr value = VarintSize32SignExtended bsr value"

definition Int64Size :: "bool \<Rightarrow> 64 word \<Rightarrow> nat" where
  "Int64Size bsr value = VarintSize64 bsr value"

definition UInt32Size :: "bool \<Rightarrow> 32 word \<Rightarrow> nat" where
  "UInt32Size bsr value = VarintSize32 bsr value"

definition UInt64Size :: "bool \<Rightarrow> 64 word \<Rightarrow> nat" where
  "UInt64Size bsr value = VarintSize64 bsr value"

definition SInt32Size :: "bool \<Rightarrow> 32 word \<Rightarrow> nat" where
  "SInt32Size bsr value = VarintSize32 bsr (ZigZagEncode32 value)"

definition SInt64Size :: "bool \<Rightarrow> 64 word \<Rightarrow> nat" where
  "SInt64Size bsr value = VarintSize64 bsr (ZigZagEncode64 value)"

definition EnumSize :: "bool \<Rightarrow> 32 word \<Rightarrow> nat" where
  "EnumSize bsr value = VarintSize32SignExtended bsr value"

definition Int32SizePlusOne :: "bool \<Rightarrow> 32 word \<Rightarrow> nat" where
  "Int32SizePlusOne bsr value = VarintSize32SignExtendedPlusOne bsr value"

definition Int64SizePlusOne :: "bool \<Rightarrow> 64 word \<Rightarrow> nat" where
  "Int64SizePlusOne bsr value = VarintSize64PlusOne bsr value"

definition UInt32SizePlusOne :: "bool \<Rightarrow> 32 word \<Rightarrow> nat" where
  "UInt32SizePlusOne bsr value = VarintSize32PlusOne bsr value"

definition UInt64SizePlusOne :: "bool \<Rightarrow> 64 word \<Rightarrow> nat" where
  "UInt64SizePlusOne bsr value = VarintSize64PlusOne bsr value"

definition SInt32SizePlusOne :: "bool \<Rightarrow> 32 word \<Rightarrow> nat" where
  "SInt32SizePlusOne bsr value = VarintSize32PlusOne bsr (ZigZagEncode32 value)"

definition SInt64SizePlusOne :: "bool \<Rightarrow> 64 word \<Rightarrow> nat" where
  "SInt64SizePlusOne bsr value = VarintSize64PlusOne bsr (ZigZagEncode64 value)"

definition EnumSizePlusOne :: "bool \<Rightarrow> 32 word \<Rightarrow> nat" where
  "EnumSizePlusOne bsr value = VarintSize32SignExtendedPlusOne bsr value"

definition LengthDelimitedSize :: "bool \<Rightarrow> nat \<Rightarrow> nat" where
  "LengthDelimitedSize bsr n = n + VarintSize32 bsr (of_nat n)"

definition StringSize :: "bool \<Rightarrow> string \<Rightarrow> nat" where
  "StringSize bsr value = LengthDelimitedSize bsr (length value)"

definition BytesSize :: "bool \<Rightarrow> string \<Rightarrow> nat" where
  "BytesSize bsr value = StringSize bsr value"

text \<open>
  The size of a repeated field. \<open>VarintSize_array\<close> and \<open>VarintSize64_array\<close> are written for vector
  instructions: they count in blocks of 32 by comparing with the bounds of each length. The sums are
  \<open>uint32_t\<close> and \<open>uint64_t\<close>, which wrap.
\<close>

definition pass_bounds :: "'a::len word \<Rightarrow> 'a word \<Rightarrow> 'a word" where
  "pass_bounds x count =
     (let count = (if x > 0x7F then count + 1 else count);
          count = (if x > 0x3FFF then count + 1 else count);
          count = (if x > 0x1FFFFF then count + 1 else count)
      in if x > 0xFFFFFFF then count + 1 else count)"

definition VarintSize_step :: "bool \<Rightarrow> bool \<Rightarrow> 32 word \<Rightarrow> 32 word \<times> 32 word \<Rightarrow> 32 word \<times> 32 word" where
  "VarintSize_step zigzag sign_extended x acc =
     (let (count, msb_sum) = acc;
          msb_sum = (if \<not> zigzag \<and> sign_extended then msb_sum + drop_bit 31 x else msb_sum);
          x = (if zigzag then ZigZagEncode32 x else x)
      in (pass_bounds x count, msb_sum))"

definition VarintSize_array :: "bool \<Rightarrow> bool \<Rightarrow> bool \<Rightarrow> 32 word list \<Rightarrow> nat" where
  "VarintSize_array bsr zigzag sign_extended data =
     (let vectorN = 32 * (length data div 32);
          (count, msb_sum) = fold (VarintSize_step zigzag sign_extended) (take vectorN data) (of_nat vectorN, 0);
          count = fold (\<lambda>x count. count + of_nat (if zigzag then SInt32Size bsr x
                                        else if sign_extended then Int32Size bsr x else UInt32Size bsr x))
                  (drop vectorN data) count;
          count = (if sign_extended then count + msb_sum * 5 else count)
      in unat count)"

definition VarintSize64_step :: "bool \<Rightarrow> 64 word \<Rightarrow> 64 word \<Rightarrow> 64 word" where
  "VarintSize64_step zigzag x count =
     (let x = (if zigzag then ZigZagEncode64 x else x);
          tmp = (if x \<ge> push_bit 35 1 then -1 else 0);
          count = count + (5 AND tmp);
          x = drop_bit (unat (35 AND tmp)) x
      in pass_bounds x count)"

definition VarintSize64_array :: "bool \<Rightarrow> bool \<Rightarrow> 64 word list \<Rightarrow> nat" where
  "VarintSize64_array bsr zigzag data =
     (let vectorN = 32 * (length data div 32);
          count = fold (VarintSize64_step zigzag) (take vectorN data) (of_nat vectorN);
          count = fold (\<lambda>x count. count + of_nat (if zigzag then SInt64Size bsr x else UInt64Size bsr x)) (drop vectorN data) count
      in unat count)"

text \<open>The functions of the interface, for a compiler that vectorises (\<open>vec\<close>) or not.\<close>

definition Int32Size_repeated :: "bool \<Rightarrow> bool \<Rightarrow> 32 word list \<Rightarrow> nat" where
  "Int32Size_repeated vec bsr value = (if vec then VarintSize_array bsr False True value else fold (\<lambda>x out. out + Int32Size bsr x) value 0)"

definition UInt32Size_repeated :: "bool \<Rightarrow> bool \<Rightarrow> 32 word list \<Rightarrow> nat" where
  "UInt32Size_repeated vec bsr value = (if vec then VarintSize_array bsr False False value else fold (\<lambda>x out. out + UInt32Size bsr x) value 0)"

definition SInt32Size_repeated :: "bool \<Rightarrow> bool \<Rightarrow> 32 word list \<Rightarrow> nat" where
  "SInt32Size_repeated vec bsr value = (if vec then VarintSize_array bsr True False value else fold (\<lambda>x out. out + SInt32Size bsr x) value 0)"

definition EnumSize_repeated :: "bool \<Rightarrow> bool \<Rightarrow> 32 word list \<Rightarrow> nat" where
  "EnumSize_repeated vec bsr value = (if vec then VarintSize_array bsr False True value else fold (\<lambda>x out. out + EnumSize bsr x) value 0)"

definition Int64Size_repeated :: "bool \<Rightarrow> bool \<Rightarrow> 64 word list \<Rightarrow> nat" where
  "Int64Size_repeated vec bsr value = (if vec then VarintSize64_array bsr False value else fold (\<lambda>x out. out + Int64Size bsr x) value 0)"

definition UInt64Size_repeated :: "bool \<Rightarrow> bool \<Rightarrow> 64 word list \<Rightarrow> nat" where
  "UInt64Size_repeated vec bsr value = (if vec then VarintSize64_array bsr False value else fold (\<lambda>x out. out + UInt64Size bsr x) value 0)"

definition SInt64Size_repeated :: "bool \<Rightarrow> bool \<Rightarrow> 64 word list \<Rightarrow> nat" where
  "SInt64Size_repeated vec bsr value = (if vec then VarintSize64_array bsr True value else fold (\<lambda>x out. out + SInt64Size bsr x) value 0)"

text \<open>The size of a packed field, and the size that is cached.\<close>

definition Int32SizeWithPackedTagSize :: "bool \<Rightarrow> bool \<Rightarrow> 32 word list \<Rightarrow> nat \<Rightarrow> nat \<times> int" where
  "Int32SizeWithPackedTagSize vec bsr value tag_size =
     (if value = [] then (0, 0)
      else let res = Int32Size_repeated vec bsr value in (tag_size + res + Int32Size bsr (of_nat res), to_i32 (int res)))"

definition Int64SizeWithPackedTagSize :: "bool \<Rightarrow> bool \<Rightarrow> 64 word list \<Rightarrow> nat \<Rightarrow> nat \<times> int" where
  "Int64SizeWithPackedTagSize vec bsr value tag_size =
     (if value = [] then (0, 0)
      else let res = Int64Size_repeated vec bsr value in (tag_size + res + Int32Size bsr (of_nat res), to_i32 (int res)))"

definition UInt32SizeWithPackedTagSize :: "bool \<Rightarrow> bool \<Rightarrow> 32 word list \<Rightarrow> nat \<Rightarrow> nat \<times> int" where
  "UInt32SizeWithPackedTagSize vec bsr value tag_size =
     (if value = [] then (0, 0)
      else let res = UInt32Size_repeated vec bsr value in (tag_size + res + Int32Size bsr (of_nat res), to_i32 (int res)))"

definition UInt64SizeWithPackedTagSize :: "bool \<Rightarrow> bool \<Rightarrow> 64 word list \<Rightarrow> nat \<Rightarrow> nat \<times> int" where
  "UInt64SizeWithPackedTagSize vec bsr value tag_size =
     (if value = [] then (0, 0)
      else let res = UInt64Size_repeated vec bsr value in (tag_size + res + Int32Size bsr (of_nat res), to_i32 (int res)))"

definition SInt32SizeWithPackedTagSize :: "bool \<Rightarrow> bool \<Rightarrow> 32 word list \<Rightarrow> nat \<Rightarrow> nat \<times> int" where
  "SInt32SizeWithPackedTagSize vec bsr value tag_size =
     (if value = [] then (0, 0)
      else let res = SInt32Size_repeated vec bsr value in (tag_size + res + Int32Size bsr (of_nat res), to_i32 (int res)))"

definition SInt64SizeWithPackedTagSize :: "bool \<Rightarrow> bool \<Rightarrow> 64 word list \<Rightarrow> nat \<Rightarrow> nat \<times> int" where
  "SInt64SizeWithPackedTagSize vec bsr value tag_size =
     (if value = [] then (0, 0)
      else let res = SInt64Size_repeated vec bsr value in (tag_size + res + Int32Size bsr (of_nat res), to_i32 (int res)))"

definition EnumSizeWithPackedTagSize :: "bool \<Rightarrow> bool \<Rightarrow> 32 word list \<Rightarrow> nat \<Rightarrow> nat \<times> int" where
  "EnumSizeWithPackedTagSize vec bsr value tag_size =
     (if value = [] then (0, 0)
      else let res = EnumSize_repeated vec bsr value in (tag_size + res + Int32Size bsr (of_nat res), to_i32 (int res)))"

end
