(* ===== verification/Wire_Read.thy ===== *)
theory Wire_Read
  imports Wire_Format
begin

unbundle bit_operations_syntax

section \<open>wire_format_lite: reading and skipping\<close>

text \<open>
  \<open>ReadPrimitive\<close> and its instances, which read one value behind a tag, the readers of packed fields,
  and \<open>SkipField\<close> with \<open>SkipMessage\<close>, which step over fields that the reader does not know, with or
  without copying them to a \<open>CodedOutputStream\<close>. A value that was not read is \<open>None\<close>; \<open>little\<close> says
  that the host is little-endian.
\<close>

subsection \<open>Values\<close>

text \<open>The flag of a varint reader decides about its value.\<close>

fun checked :: "(bool \<times> 'w) \<times> 's \<Rightarrow> 'w option \<times> 's" where
  "checked ((ok, v), s) = (if ok then Some v else None, s)"

definition ReadPrimitive_INT32 ::
  "bool \<Rightarrow> 's input_stream \<Rightarrow> 's coded_input \<Rightarrow> (32 word option \<times> 's coded_input) option" where
  "ReadPrimitive_INT32 little I s = map_option checked (ReadVarint32 I s)"

definition ReadPrimitive_INT64 ::
  "bool \<Rightarrow> 's input_stream \<Rightarrow> 's coded_input \<Rightarrow> (64 word option \<times> 's coded_input) option" where
  "ReadPrimitive_INT64 little I s = map_option checked (ReadVarint64 I s)"

definition ReadPrimitive_UINT32 ::
  "bool \<Rightarrow> 's input_stream \<Rightarrow> 's coded_input \<Rightarrow> (32 word option \<times> 's coded_input) option" where
  "ReadPrimitive_UINT32 little I s = map_option checked (ReadVarint32 I s)"

definition ReadPrimitive_UINT64 ::
  "bool \<Rightarrow> 's input_stream \<Rightarrow> 's coded_input \<Rightarrow> (64 word option \<times> 's coded_input) option" where
  "ReadPrimitive_UINT64 little I s = map_option checked (ReadVarint64 I s)"

definition ReadPrimitive_SINT32 ::
  "bool \<Rightarrow> 's input_stream \<Rightarrow> 's coded_input \<Rightarrow> (32 word option \<times> 's coded_input) option" where
  "ReadPrimitive_SINT32 little I s = map_option (map_prod (map_option ZigZagDecode32) id) (map_option checked (ReadVarint32 I s))"

definition ReadPrimitive_SINT64 ::
  "bool \<Rightarrow> 's input_stream \<Rightarrow> 's coded_input \<Rightarrow> (64 word option \<times> 's coded_input) option" where
  "ReadPrimitive_SINT64 little I s = map_option (map_prod (map_option ZigZagDecode64) id) (map_option checked (ReadVarint64 I s))"

definition ReadPrimitive_FIXED32 ::
  "bool \<Rightarrow> 's input_stream \<Rightarrow> 's coded_input \<Rightarrow> (32 word option \<times> 's coded_input) option" where
  "ReadPrimitive_FIXED32 little I s = ReadLittleEndian32 little I s"

definition ReadPrimitive_FIXED64 ::
  "bool \<Rightarrow> 's input_stream \<Rightarrow> 's coded_input \<Rightarrow> (64 word option \<times> 's coded_input) option" where
  "ReadPrimitive_FIXED64 little I s = ReadLittleEndian64 little I s"

definition ReadPrimitive_SFIXED32 ::
  "bool \<Rightarrow> 's input_stream \<Rightarrow> 's coded_input \<Rightarrow> (32 word option \<times> 's coded_input) option" where
  "ReadPrimitive_SFIXED32 little I s = ReadLittleEndian32 little I s"

definition ReadPrimitive_SFIXED64 ::
  "bool \<Rightarrow> 's input_stream \<Rightarrow> 's coded_input \<Rightarrow> (64 word option \<times> 's coded_input) option" where
  "ReadPrimitive_SFIXED64 little I s = ReadLittleEndian64 little I s"

definition ReadPrimitive_FLOAT ::
  "bool \<Rightarrow> 's input_stream \<Rightarrow> 's coded_input \<Rightarrow> (32 word option \<times> 's coded_input) option" where
  "ReadPrimitive_FLOAT little I s = map_option (map_prod (map_option DecodeFloat) id) (ReadLittleEndian32 little I s)"

definition ReadPrimitive_DOUBLE ::
  "bool \<Rightarrow> 's input_stream \<Rightarrow> 's coded_input \<Rightarrow> (64 word option \<times> 's coded_input) option" where
  "ReadPrimitive_DOUBLE little I s = map_option (map_prod (map_option DecodeDouble) id) (ReadLittleEndian64 little I s)"

definition ReadPrimitive_BOOL ::
  "bool \<Rightarrow> 's input_stream \<Rightarrow> 's coded_input \<Rightarrow> (bool option \<times> 's coded_input) option" where
  "ReadPrimitive_BOOL little I s = map_option (map_prod (map_option (\<lambda>temp. temp \<noteq> 0)) id) (map_option checked (ReadVarint64 I s))"

definition ReadPrimitive_ENUM ::
  "bool \<Rightarrow> 's input_stream \<Rightarrow> 's coded_input \<Rightarrow> (32 word option \<times> 's coded_input) option" where
  "ReadPrimitive_ENUM little I s = map_option checked (ReadVarint32 I s)"

text \<open>From memory: the value and the number of bytes.\<close>

definition ReadPrimitiveFromArray_FIXED32 :: "string \<Rightarrow> (32 word \<times> nat) option" where
  "ReadPrimitiveFromArray_FIXED32 buffer = ReadLittleEndian32FromArray buffer"

definition ReadPrimitiveFromArray_FIXED64 :: "string \<Rightarrow> (64 word \<times> nat) option" where
  "ReadPrimitiveFromArray_FIXED64 buffer = ReadLittleEndian64FromArray buffer"

definition ReadPrimitiveFromArray_SFIXED32 :: "string \<Rightarrow> (32 word \<times> nat) option" where
  "ReadPrimitiveFromArray_SFIXED32 buffer = ReadLittleEndian32FromArray buffer"

definition ReadPrimitiveFromArray_SFIXED64 :: "string \<Rightarrow> (64 word \<times> nat) option" where
  "ReadPrimitiveFromArray_SFIXED64 buffer = ReadLittleEndian64FromArray buffer"

definition ReadPrimitiveFromArray_FLOAT :: "string \<Rightarrow> (32 word \<times> nat) option" where
  "ReadPrimitiveFromArray_FLOAT buffer = map_option (map_prod DecodeFloat id) (ReadLittleEndian32FromArray buffer)"

definition ReadPrimitiveFromArray_DOUBLE :: "string \<Rightarrow> (64 word \<times> nat) option" where
  "ReadPrimitiveFromArray_DOUBLE buffer = map_option (map_prod DecodeDouble id) (ReadLittleEndian64FromArray buffer)"

text \<open>The length is read as \<open>uint32_t\<close> and passed on as \<open>int\<close>.\<close>

definition wf_ReadBytes :: "'s input_stream \<Rightarrow> 's coded_input \<Rightarrow> (string option \<times> 's coded_input) option" where
  "wf_ReadBytes I s = do {
     ((ok, len), s) \<leftarrow> ReadVarint32 I s;
     if \<not> ok then Some (None, s)
     else do {
       (b, out, s) \<leftarrow> ReadString I [] (to_i32 (uint len)) s;
       Some (if b then Some out else None, s) } }"

definition wf_ReadString :: "'s input_stream \<Rightarrow> 's coded_input \<Rightarrow> (string option \<times> 's coded_input) option" where
  "wf_ReadString I s = wf_ReadBytes I s"

definition wf_ReadBytes_cord :: "'s input_stream \<Rightarrow> 's coded_input \<Rightarrow> (string option \<times> 's coded_input) option" where
  "wf_ReadBytes_cord I s = do {
     ((ok, len), s) \<leftarrow> ReadVarintSizeAsInt I s;
     if \<not> ok then Some (None, s)
     else do {
       (b, out, s) \<leftarrow> coded_ReadCord I len s;
       Some (if b then Some out else None, s) } }"

subsection \<open>Packed fields\<close>

text \<open>
  The reader of the elements is a parameter, as the template parameter is. The values are appended to
  a list, the \<open>RepeatedField\<close>; reserving its memory has no effect here.
\<close>

type_synonym ('v, 's) value_reader = "'s input_stream \<Rightarrow> 's coded_input \<Rightarrow> ('v option \<times> 's coded_input) option"

partial_function (option) packed_read_loop ::
  "('v, 's) value_reader \<Rightarrow> 's input_stream \<Rightarrow> 'v list \<Rightarrow> 's coded_input \<Rightarrow> (bool \<times> 'v list \<times> 's coded_input) option" where
  "packed_read_loop rd I values s =
     (if BytesUntilLimit s > 0
      then do {
        (r, s) \<leftarrow> rd I s;
        case r of None \<Rightarrow> Some (False, values, s) | Some v \<Rightarrow> packed_read_loop rd I (values @ [v]) s }
      else Some (True, values, s))"

definition ReadPackedPrimitive ::
  "('v, 's) value_reader \<Rightarrow> 's input_stream \<Rightarrow> 'v list \<Rightarrow> 's coded_input \<Rightarrow> (bool \<times> 'v list \<times> 's coded_input) option" where
  "ReadPackedPrimitive rd I values s = do {
     ((ok, len), s) \<leftarrow> ReadVarintSizeAsInt I s;
     if \<not> ok then Some (False, values, s)
     else let (limit, s) = PushLimit len s
          in do {
            (b, values, s) \<leftarrow> packed_read_loop rd I values s;
            Some (b, values, if b then PopLimit limit s else s) } }"

fun packed_read_n ::
  "nat \<Rightarrow> ('v, 's) value_reader \<Rightarrow> 's input_stream \<Rightarrow> 'v list \<Rightarrow> 's coded_input \<Rightarrow> (bool \<times> 'v list \<times> 's coded_input) option" where
  "packed_read_n 0 rd I values s = Some (True, values, s)"
| "packed_read_n (Suc n) rd I values s = do {
     (r, s) \<leftarrow> rd I s;
     case r of None \<Rightarrow> Some (False, values, s) | Some v \<Rightarrow> packed_read_n n rd I (values @ [v]) s }"

text \<open>
  Elements of \<open>k\<close> bytes, which \<open>decode\<close> reads from memory. Memory for all of them is only taken at
  once when the limits say that they are there.
\<close>

definition element_chunks :: "nat \<Rightarrow> nat \<Rightarrow> string \<Rightarrow> string list" where
  "element_chunks k n b = map (\<lambda>i. take k (drop (k * i) b)) [0..<n]"

definition ReadPackedFixedSizePrimitive ::
  "bool \<Rightarrow> nat \<Rightarrow> (string \<Rightarrow> 'v) \<Rightarrow> ('v, 's) value_reader \<Rightarrow> 's input_stream \<Rightarrow> 'v list \<Rightarrow> 's coded_input
    \<Rightarrow> (bool \<times> 'v list \<times> 's coded_input) option" where
  "ReadPackedFixedSizePrimitive little k decode rd I values s = do {
     ((ok, len), s) \<leftarrow> ReadVarintSizeAsInt I s;
     if \<not> ok then Some (False, values, s)
     else let new_entries = len div int k;
              new_bytes = new_entries * int k
          in if new_bytes \<noteq> len then Some (False, values, s)
             else let total = BytesUntilTotalBytesLimit s;
                      bytes_limit = (if total = -1 then BytesUntilLimit s else min total (BytesUntilLimit s))
                  in if bytes_limit \<ge> new_bytes \<and> little
                     then do {
                       (b, out, s) \<leftarrow> ReadRaw I new_bytes s;
                       Some (b, if b then values @ map decode (element_chunks k (nat new_entries) out) else values, s) }
                     else packed_read_n (nat new_entries) rd I values s }"

subsection \<open>Skipping\<close>

text \<open>
  \<open>SkipField\<close> and \<open>SkipMessage\<close> call each other: \<open>SkipField_with\<close> is the former for a given function of
  the latter. Input that never ends is not skipped (\<open>None\<close>).
\<close>

type_synonym 's skip_message = "'s coded_input \<Rightarrow> (bool \<times> 's coded_input) option"

definition SkipField_with ::
  "bool \<Rightarrow> 's input_stream \<Rightarrow> 's skip_message \<Rightarrow> 32 word \<Rightarrow> 's coded_input \<Rightarrow> (bool \<times> 's coded_input) option" where
  "SkipField_with little I skip_message tag s =
     (if GetTagFieldNumber tag = 0 then Some (False, s)
      else let wt = GetTagWireType tag
      in if wt = WIRETYPE_VARINT then do { ((ok, _), s) \<leftarrow> ReadVarint64 I s; Some (ok, s) }
      else if wt = WIRETYPE_FIXED64 then do { (r, s) \<leftarrow> ReadLittleEndian64 little I s; Some (r \<noteq> None, s) }
      else if wt = WIRETYPE_LENGTH_DELIMITED
      then do {
        ((ok, len), s) \<leftarrow> ReadVarint32 I s;
        if \<not> ok then Some (False, s) else coded_Skip I (to_i32 (uint len)) s }
      else if wt = WIRETYPE_START_GROUP
      then do {
        (b, s) \<leftarrow> IncrementRecursionDepth s;
        if \<not> b then Some (False, s)
        else do {
          (b, s) \<leftarrow> skip_message s;
          if \<not> b then Some (False, s)
          else let s = DecrementRecursionDepth s
               in Some (LastTagWas (MakeTag (GetTagFieldNumber tag) WIRETYPE_END_GROUP) s, s) } }
      else if wt = WIRETYPE_END_GROUP then Some (False, s)
      else if wt = WIRETYPE_FIXED32 then do { (r, s) \<leftarrow> ReadLittleEndian32 little I s; Some (r \<noteq> None, s) }
      else Some (False, s))"

lemma SkipField_with_mono [partial_function_mono]:
  assumes "\<And>s. mono_option (\<lambda>f. skip f s)"
  shows "mono_option (\<lambda>f. SkipField_with little I (skip f) tag s)"
  unfolding SkipField_with_def Let_def split_def by (intro partial_function_mono assms)

partial_function (option) SkipMessage :: "bool \<Rightarrow> 's input_stream \<Rightarrow> 's coded_input \<Rightarrow> (bool \<times> 's coded_input) option" where
  "SkipMessage little I s = do {
     (tag, s) \<leftarrow> ReadTag I s;
     if tag = 0 then Some (True, s)
     else if GetTagWireType tag = WIRETYPE_END_GROUP then Some (True, s)
     else do {
       (b, s) \<leftarrow> SkipField_with little I (SkipMessage little I) tag s;
       if \<not> b then Some (False, s) else SkipMessage little I s } }"

definition SkipField :: "bool \<Rightarrow> 's input_stream \<Rightarrow> 32 word \<Rightarrow> 's coded_input \<Rightarrow> (bool \<times> 's coded_input) option" where
  "SkipField little I tag s = SkipField_with little I (SkipMessage little I) tag s"

text \<open>The same with everything skipped written to an output, whose state is passed along.\<close>

type_synonym ('s, 'o) copy_message =
  "'s coded_input \<Rightarrow> 'o coded_output \<Rightarrow> (bool \<times> 's coded_input \<times> 'o coded_output) option"

definition SkipField_out_with ::
  "bool \<Rightarrow> 's input_stream \<Rightarrow> 'o output_stream \<Rightarrow> ('s, 'o) copy_message \<Rightarrow> 32 word \<Rightarrow> ('s, 'o) copy_message" where
  "SkipField_out_with little I Out skip_message tag s c =
     (if GetTagFieldNumber tag = 0 then Some (False, s, c)
      else let wt = GetTagWireType tag
      in if wt = WIRETYPE_VARINT
      then do {
        ((ok, value), s) \<leftarrow> ReadVarint64 I s;
        if \<not> ok then Some (False, s, c)
        else do { c \<leftarrow> WriteVarint32 Out tag c; c \<leftarrow> WriteVarint64 Out value c; Some (True, s, c) } }
      else if wt = WIRETYPE_FIXED64
      then do {
        (r, s) \<leftarrow> ReadLittleEndian64 little I s;
        case r of
          None \<Rightarrow> Some (False, s, c)
        | Some value \<Rightarrow> do { c \<leftarrow> WriteVarint32 Out tag c; c \<leftarrow> WriteLittleEndian64 Out value c; Some (True, s, c) } }
      else if wt = WIRETYPE_LENGTH_DELIMITED
      then do {
        ((ok, len), s) \<leftarrow> ReadVarint32 I s;
        if \<not> ok then Some (False, s, c)
        else do {
          c \<leftarrow> WriteVarint32 Out tag c;
          c \<leftarrow> WriteVarint32 Out len c;
          (b, temp, s) \<leftarrow> ReadString I [] (to_i32 (uint len)) s;
          if \<not> b then Some (False, s, c) else do { c \<leftarrow> coded_WriteString Out temp c; Some (True, s, c) } } }
      else if wt = WIRETYPE_START_GROUP
      then do {
        c \<leftarrow> WriteVarint32 Out tag c;
        (b, s) \<leftarrow> IncrementRecursionDepth s;
        if \<not> b then Some (False, s, c)
        else do {
          (b, s, c) \<leftarrow> skip_message s c;
          if \<not> b then Some (False, s, c)
          else let s = DecrementRecursionDepth s
               in Some (LastTagWas (MakeTag (GetTagFieldNumber tag) WIRETYPE_END_GROUP) s, s, c) } }
      else if wt = WIRETYPE_END_GROUP then Some (False, s, c)
      else if wt = WIRETYPE_FIXED32
      then do {
        (r, s) \<leftarrow> ReadLittleEndian32 little I s;
        case r of
          None \<Rightarrow> Some (False, s, c)
        | Some value \<Rightarrow> do { c \<leftarrow> WriteVarint32 Out tag c; c \<leftarrow> WriteLittleEndian32 Out value c; Some (True, s, c) } }
      else Some (False, s, c))"

lemma SkipField_out_with_mono [partial_function_mono]:
  assumes "\<And>s c. mono_option (\<lambda>f. skip f s c)"
  shows "mono_option (\<lambda>f. SkipField_out_with little I Out (skip f) tag s c)"
  unfolding SkipField_out_with_def Let_def split_def by (intro partial_function_mono assms)

partial_function (option) SkipMessage_out :: "bool \<Rightarrow> 's input_stream \<Rightarrow> 'o output_stream \<Rightarrow> ('s, 'o) copy_message" where
  "SkipMessage_out little I Out s c = do {
     (tag, s) \<leftarrow> ReadTag I s;
     if tag = 0 then Some (True, s, c)
     else if GetTagWireType tag = WIRETYPE_END_GROUP then do { c \<leftarrow> WriteVarint32 Out tag c; Some (True, s, c) }
     else do {
       (b, s, c) \<leftarrow> SkipField_out_with little I Out (SkipMessage_out little I Out) tag s c;
       if \<not> b then Some (False, s, c) else SkipMessage_out little I Out s c } }"

definition SkipField_out :: "bool \<Rightarrow> 's input_stream \<Rightarrow> 'o output_stream \<Rightarrow> 32 word \<Rightarrow> ('s, 'o) copy_message" where
  "SkipField_out little I Out tag s c = SkipField_out_with little I Out (SkipMessage_out little I Out) tag s c"

subsection \<open>Field skippers\<close>

text \<open>
  \<open>FieldSkipper\<close> drops what it skips; \<open>CodedOutputStreamFieldSkipper\<close> saves it to the stream it holds. The
  value of an unknown enum is an \<open>int\<close>, which \<open>WriteVarint64\<close> takes sign-extended.
\<close>

definition FieldSkipper_SkipField :: "bool \<Rightarrow> 's input_stream \<Rightarrow> 32 word \<Rightarrow> 's coded_input \<Rightarrow> (bool \<times> 's coded_input) option" where
  "FieldSkipper_SkipField little I tag s = SkipField little I tag s"

definition FieldSkipper_SkipMessage :: "bool \<Rightarrow> 's input_stream \<Rightarrow> 's coded_input \<Rightarrow> (bool \<times> 's coded_input) option" where
  "FieldSkipper_SkipMessage little I s = SkipMessage little I s"

definition FieldSkipper_SkipUnknownEnum :: "32 word \<Rightarrow> 32 word \<Rightarrow> 'o coded_output \<Rightarrow> 'o coded_output option" where
  "FieldSkipper_SkipUnknownEnum field_number value c = Some c"

definition CodedOutputStreamFieldSkipper_SkipField ::
  "bool \<Rightarrow> 's input_stream \<Rightarrow> 'o output_stream \<Rightarrow> 32 word \<Rightarrow> ('s, 'o) copy_message" where
  "CodedOutputStreamFieldSkipper_SkipField little I Out tag s c = SkipField_out little I Out tag s c"

definition CodedOutputStreamFieldSkipper_SkipMessage ::
  "bool \<Rightarrow> 's input_stream \<Rightarrow> 'o output_stream \<Rightarrow> ('s, 'o) copy_message" where
  "CodedOutputStreamFieldSkipper_SkipMessage little I Out s c = SkipMessage_out little I Out s c"

definition CodedOutputStreamFieldSkipper_SkipUnknownEnum ::
  "'o output_stream \<Rightarrow> 32 word \<Rightarrow> 32 word \<Rightarrow> 'o coded_output \<Rightarrow> 'o coded_output option" where
  "CodedOutputStreamFieldSkipper_SkipUnknownEnum Out field_number value c = do {
     c \<leftarrow> WriteVarint32 Out field_number c;
     WriteVarint64 Out (scast value) c }"

end
