(* ===== verification/Wire_Laws.thy ===== *)
theory Wire_Laws
  imports Wire_Format Eps_Writer
begin


unbundle bit_operations_syntax

section \<open>Laws of the wire format\<close>

text \<open>
  A tag gives back its parts, the zigzag code is a bijection, every size function gives the length
  of what the matching writer writes, and the sums that are written for vector instructions
  are the sums of these sizes.
\<close>

subsection \<open>Tags\<close>

lemma take_bit_word_self: "w < 2 ^ n \<Longrightarrow> take_bit n (w :: 32 word) = w"
  using less_mask_eq [of w n] by (simp add: take_bit_eq_mask)

lemma low_type_bits:
  assumes "(t :: 32 word) < 8"
  shows "bit t i \<Longrightarrow> i < 3" and "t AND 7 = t" and "unat t < 8"
proof -
  have m: "t = take_bit 3 t"
    using assms by (intro take_bit_word_self [symmetric]) simp
  show "bit t i \<Longrightarrow> i < 3" by (subst (asm) m) (simp add: bit_take_bit_iff)
  show "t AND 7 = t" using m take_bit_eq_mask [of 3 t] by (simp add: mask_eq_exp_minus_1)
  show "unat t < 8" using assms by (simp add: word_less_nat_alt)
qed

lemma mask_3: "(7 :: 32 word) = mask 3"
  by (simp add: mask_eq_exp_minus_1)

lemma GetTagWireType_MakeTag: "t < 8 \<Longrightarrow> GetTagWireType (MakeTag num t) = t"
proof -
  assume t: "t < 8"
  have "push_bit 3 num AND (7 :: 32 word) = 0"
    unfolding mask_3 by (rule bit_word_eqI) (auto simp: bit_simps)
  then show ?thesis using low_type_bits(2) [OF t]
    by (simp add: GetTagWireType_def MakeTag_def kTagTypeMask_def kTagTypeBits_def bit.conj_disj_distrib2)
qed

lemma GetTagFieldNumber_MakeTag:
  assumes "t < 8" and "num < 2 ^ 29"
  shows "GetTagFieldNumber (MakeTag num t) = num"
proof -
  have n: "i < 29" if "bit num i" for i
  proof -
    have "num = take_bit 29 num" using assms(2) by (intro take_bit_word_self [symmetric]) simp
    with that show ?thesis by (metis bit_take_bit_iff)
  qed
  show ?thesis
    unfolding GetTagFieldNumber_def MakeTag_def kTagTypeBits_def
    using low_type_bits(1) [OF assms(1)] n
    by (intro bit_word_eqI) (fastforce simp: bit_simps)
qed

subsection \<open>The zigzag code\<close>

lemma signed_drop_bit_sign:
  "signed_drop_bit 31 (v :: 32 word) = (if bit v 31 then -1 else 0)"
  "signed_drop_bit 63 (w :: 64 word) = (if bit w 63 then -1 else 0)"
  by (rule bit_word_eqI; auto simp: bit_simps less_Suc_eq not_less_eq_eq)+

lemma ZigZag32 [simp]: "ZigZagDecode32 (ZigZagEncode32 v) = v"
proof -
  define p where "p = push_bit 1 v"
  have b: "bit p i \<longleftrightarrow> i < 32 \<and> 0 < i \<and> bit v (i - 1)" for i unfolding p_def bit_push_bit_iff by auto
  have last: "i < 32 \<Longrightarrow> \<not> i < 31 \<Longrightarrow> i = 31" for i :: nat by simp
  have e: "ZigZagEncode32 v = (if bit v 31 then NOT p else p)"
    unfolding ZigZagEncode32_def signed_drop_bit_sign p_def [symmetric] by simp
  have o: "NOT p AND 1 = 1" "p AND 1 = 0" by (rule bit_word_eqI; auto simp: bit_simps bit_1_iff b)+
  show ?thesis
  proof (cases "bit v 31")
    case True
    with e o have "ZigZagDecode32 (ZigZagEncode32 v) = drop_bit 1 (NOT p) XOR -1" by (simp add: ZigZagDecode32_def)
    also have "\<dots> = v" using True by (intro bit_word_eqI) (auto simp: bit_simps b dest: last)
    finally show ?thesis .
  next
    case False
    with e o have "ZigZagDecode32 (ZigZagEncode32 v) = drop_bit 1 p" by (simp add: ZigZagDecode32_def)
    also have "\<dots> = v" using False by (intro bit_word_eqI) (auto simp: bit_simps b dest: last)
    finally show ?thesis .
  qed
qed

lemma ZigZag64 [simp]: "ZigZagDecode64 (ZigZagEncode64 v) = v"
proof -
  define p where "p = push_bit 1 v"
  have b: "bit p i \<longleftrightarrow> i < 64 \<and> 0 < i \<and> bit v (i - 1)" for i unfolding p_def bit_push_bit_iff by auto
  have last: "i < 64 \<Longrightarrow> \<not> i < 63 \<Longrightarrow> i = 63" for i :: nat by simp
  have e: "ZigZagEncode64 v = (if bit v 63 then NOT p else p)"
    unfolding ZigZagEncode64_def signed_drop_bit_sign p_def [symmetric] by simp
  have o: "NOT p AND 1 = 1" "p AND 1 = 0" by (rule bit_word_eqI; auto simp: bit_simps bit_1_iff b)+
  show ?thesis
  proof (cases "bit v 63")
    case True
    with e o have "ZigZagDecode64 (ZigZagEncode64 v) = drop_bit 1 (NOT p) XOR -1" by (simp add: ZigZagDecode64_def)
    also have "\<dots> = v" using True by (intro bit_word_eqI) (auto simp: bit_simps b dest: last)
    finally show ?thesis .
  next
    case False
    with e o have "ZigZagDecode64 (ZigZagEncode64 v) = drop_bit 1 p" by (simp add: ZigZagDecode64_def)
    also have "\<dots> = v" using False by (intro bit_word_eqI) (auto simp: bit_simps b dest: last)
    finally show ?thesis .
  qed
qed

lemma ZigZag_inverse: "ZigZagEncode32 (ZigZagDecode32 v) = v" "ZigZagEncode64 (ZigZagDecode64 w) = w"
proof -
  have "surj ZigZagEncode32" "surj ZigZagEncode64"
    by (rule finite_UNIV_inj_surj; simp add: inj_def; metis ZigZag32 ZigZag64)+
  then obtain a b where "v = ZigZagEncode32 a" "w = ZigZagEncode64 b" by (metis surjD)
  then show "ZigZagEncode32 (ZigZagDecode32 v) = v" "ZigZagEncode64 (ZigZagDecode64 w) = w" by simp_all
qed

subsection \<open>Sizes\<close>

text \<open>The length of a tag does not depend on its type.\<close>

lemma unat_MakeTag:
  assumes "t < 8"
  shows "unat (MakeTag num t) = unat (push_bit 3 num :: 32 word) + unat t"
proof -
  have "push_bit 3 num OR t = push_bit 3 num + t"
    by (intro disjunctive_add [symmetric]) (auto simp: bit_simps dest: low_type_bits(1) [OF assms])
  moreover have "unat (push_bit 3 num :: 32 word) + unat t < 2 ^ LENGTH(32)"
  proof -
    obtain k where k: "unat (push_bit 3 num :: 32 word) = 8 * k" using unat_tag(2) [of num] by (auto simp: dvd_def)
    have "unat (push_bit 3 num :: 32 word) < 2 ^ 32" using unsigned_less [of "push_bit 3 num :: 32 word"] by simp
    then show ?thesis using low_type_bits(3) [OF assms] k by simp
  qed
  ultimately show ?thesis by (simp add: MakeTag_def unat_word_ariths)
qed

lemma VarintSize32_MakeTag:
  assumes "t < 8"
  shows "VarintSize32 bsr (push_bit 3 num) = length (wf_WriteTagToArray num t)"
proof -
  let ?a = "push_bit 3 num :: 32 word" and ?b = "MakeTag num t"
  obtain k where k: "unat ?a = 8 * k" using unat_tag(2) [of num] by (auto simp: dvd_def)
  have "?a < 2 ^ 7 \<longleftrightarrow> ?b < 2 ^ 7" "?a < 2 ^ 14 \<longleftrightarrow> ?b < 2 ^ 14" "?a < 2 ^ 21 \<longleftrightarrow> ?b < 2 ^ 21" "?a < 2 ^ 28 \<longleftrightarrow> ?b < 2 ^ 28"
    using low_type_bits(3) [OF assms] by (simp_all add: word_less_nat_alt unat_MakeTag [OF assms] k) presburger+
  then have "TagSize ?a = TagSize ?b" by (simp add: TagSize_def)
  then show ?thesis
    by (simp add: TagSize_value VarintSize32_value wf_WriteTagToArray_def WriteTagToArray_def WriteVarint32ToArray_def
        UnsafeVarint32_bytes)
qed

lemma wire_type_small: "WireTypeForFieldType type < 8"
  by (cases type) (simp_all add: WireTypeForFieldType_def wire_types)

lemma wf_TagSize_length:
  "wf_TagSize bsr num type = (if type = TYPE_GROUP then 2 else 1) * length (wf_WriteTagToArray num (WireTypeForFieldType type))"
  by (simp add: wf_TagSize_def kTagTypeBits_def VarintSize32_MakeTag [OF wire_type_small])

text \<open>Sizes of numbers.\<close>

lemma number_sizes:
  "Int32Size bsr v = length (WriteInt32NoTagToArray v)" "Int64Size bsr w = length (WriteInt64NoTagToArray w)"
  "UInt32Size bsr v = length (WriteUInt32NoTagToArray v)" "UInt64Size bsr w = length (WriteUInt64NoTagToArray w)"
  "SInt32Size bsr v = length (WriteSInt32NoTagToArray v)" "SInt64Size bsr w = length (WriteSInt64NoTagToArray w)"
  "EnumSize bsr v = length (WriteEnumNoTagToArray v)"
  by (simp_all add: Int32Size_def Int64Size_def UInt32Size_def UInt64Size_def SInt32Size_def SInt64Size_def EnumSize_def
      WriteInt32NoTagToArray_def WriteInt64NoTagToArray_def WriteUInt32NoTagToArray_def WriteUInt64NoTagToArray_def
      WriteSInt32NoTagToArray_def WriteSInt64NoTagToArray_def WriteEnumNoTagToArray_def VarintSize32_value
      VarintSize64_value VarintSize32SignExtended_def WriteVarint32ToArray_def WriteVarint64ToArray_def
      WriteVarint32SignExtendedToArray_def UnsafeVarint32_bytes UnsafeVarint64_bytes)

lemma number_sizes_plus_one:
  "Int32SizePlusOne bsr v = Int32Size bsr v + 1" "Int64SizePlusOne bsr w = Int64Size bsr w + 1"
  "UInt32SizePlusOne bsr v = UInt32Size bsr v + 1" "UInt64SizePlusOne bsr w = UInt64Size bsr w + 1"
  "SInt32SizePlusOne bsr v = SInt32Size bsr v + 1" "SInt64SizePlusOne bsr w = SInt64Size bsr w + 1"
  "EnumSizePlusOne bsr v = EnumSize bsr v + 1"
  by (simp_all add: Int32Size_def Int64Size_def UInt32Size_def UInt64Size_def SInt32Size_def SInt64Size_def EnumSize_def
      Int32SizePlusOne_def Int64SizePlusOne_def UInt32SizePlusOne_def UInt64SizePlusOne_def SInt32SizePlusOne_def
      SInt64SizePlusOne_def EnumSizePlusOne_def VarintSize32SignExtended_def VarintSize32SignExtendedPlusOne_def
      VarintSizePlusOne_value VarintSize32_value VarintSize64_value)

lemma length_string_item: "length (WriteStringWithSizeToArray b) = LengthDelimitedSize bsr (length b)"
  by (simp add: WriteStringWithSizeToArray_def LengthDelimitedSize_def VarintSize32_value WriteVarint32ToArray_def
      UnsafeVarint32_bytes)

section \<open>Sums of sizes\<close>

text \<open>
  The loops that add up the sizes of a repeated field with comparisons only, as they are written for
  vector instructions, compute the sum of the sizes of the elements, up to the width of their
  accumulator; so a packed field takes as many bytes as its size function says.
\<close>

text \<open>The number of bounds that a number exceeds.\<close>

definition thresholds :: "nat \<Rightarrow> nat" where
  "thresholds n = (if n > 0x7F then 1 else 0) + (if n > 0x3FFF then 1 else 0) + (if n > 0x1FFFFF then 1 else 0)
     + (if n > 0xFFFFFFF then 1 else 0)"

lemma thresholds_length: "n < 2 ^ 35 \<Longrightarrow> length (varint_bytes n) = Suc (thresholds n)"
  using varint_bytes_length_eq [of 0 n] varint_bytes_length_eq [of 1 n] varint_bytes_length_eq [of 2 n]
    varint_bytes_length_eq [of 3 n] varint_bytes_length_eq [of 4 n]
  by (auto simp: thresholds_def)

lemma varint_bytes_length_shift:
  "128 ^ k \<le> n \<Longrightarrow> length (varint_bytes n) = k + length (varint_bytes (n div 128 ^ k))"
proof (induction k arbitrary: n)
  case 0
  then show ?case by simp
next
  case (Suc k)
  then have "128 ^ k \<le> n div 128" by (simp add: less_eq_div_iff_mult_less_eq mult.commute)
  moreover have "\<not> n < 128"
  proof -
    have "(128::nat) \<le> 128 ^ Suc k" by simp
    from order_trans [OF this Suc.prems] show ?thesis by simp
  qed
  ultimately show ?case using Suc.IH [of "n div 128"]
    by (subst varint_bytes_length) (simp add: div_mult2_eq)
qed

lemma pass_bounds_value:
  "pass_bounds (x :: 32 word) count = count + of_nat (thresholds (unat x))"
  "pass_bounds (y :: 64 word) count' = count' + of_nat (thresholds (unat y))"
  by (simp_all add: thresholds_def pass_bounds_def word_less_nat_alt)

subsection \<open>32 bits\<close>

text \<open>The size of one element.\<close>

definition element_size :: "bool \<Rightarrow> bool \<Rightarrow> 32 word \<Rightarrow> nat" where
  "element_size zigzag sign_extended x =
     (if zigzag then length (WriteSInt32NoTagToArray x)
      else if sign_extended then length (WriteInt32NoTagToArray x) else length (WriteUInt32NoTagToArray x))"

lemma unat_lt_32: "unat (x :: 32 word) < 2 ^ 35"
  using unsigned_less [of x, where ?'a = nat] by simp

lemma bit_bound: "bit (n :: nat) i \<Longrightarrow> 2 ^ i \<le> n"
  by (metis bit_iff_odd div_less even_zero not_le)

lemma sign_extended_length:
  "length (varint_bytes (unat (scast (x :: 32 word) :: 64 word)))
     = Suc (thresholds (unat x)) + 5 * unat (drop_bit 31 x)"
proof (cases "bit x 31")
  case False
  have n: "\<not> bit x n" if "31 \<le> n" for n
    using that bit_imp_le_length [of x n] False by (cases "n = 31") auto
  then have "scast x = (ucast x :: 64 word)" by (intro bit_word_eqI) (auto simp: bit_simps min_def)
  moreover have "drop_bit 31 x = 0" using n by (intro bit_word_eqI) (auto simp: bit_simps)
  moreover have "unat (ucast x :: 64 word) = unat x"
    using unat_lt_32 [of x] by (simp add: unsigned_ucast_eq take_bit_nat_eq_self_iff)
  ultimately show ?thesis using thresholds_length [OF unat_lt_32] by simp
next
  case True
  let ?y = "scast x :: 64 word"
  have "bit ?y 63" using True by (simp add: bit_signed_iff)
  then have "2 ^ 63 \<le> unat ?y"
    by (intro bit_bound) (simp add: bit_unsigned_iff)
  moreover have "unat ?y < 128 ^ Suc 9" using unsigned_less [of ?y, where ?'a = nat] by simp
  ultimately have "length (varint_bytes (unat ?y)) = 10" using varint_bytes_length_eq [of 9 "unat ?y"] by simp
  moreover have "drop_bit 31 x = 1" using True by (intro bit_word_eqI) (auto simp: bit_simps bit_1_iff dest: bit_imp_le_length)
  moreover have "2 ^ 31 \<le> unat x"
    using True by (intro bit_bound) (simp add: bit_unsigned_iff)
  then have "thresholds (unat x) = 4" by (simp add: thresholds_def)
  ultimately show ?thesis by simp
qed

lemma VarintSize_step_value:
  assumes "VarintSize_step zigzag sign_extended x (count, msb_sum) = (count', msb_sum')" and "\<not> (zigzag \<and> sign_extended)"
  shows "count' + msb_sum' * 5 + 1 = count + msb_sum * 5 + of_nat (element_size zigzag sign_extended x)"
    and "\<not> sign_extended \<Longrightarrow> msb_sum' = msb_sum"
proof -
  let ?x = "if zigzag then ZigZagEncode32 x else x"
  have c: "count' = count + of_nat (thresholds (unat ?x))" "msb_sum' = (if sign_extended then msb_sum + drop_bit 31 x else msb_sum)"
    using assms by (auto simp: VarintSize_step_def pass_bounds_value Let_def split: if_splits)
  have e: "element_size zigzag sign_extended x = Suc (thresholds (unat ?x)) + (if sign_extended then 5 * unat (drop_bit 31 x) else 0)"
    using assms(2) sign_extended_length [of x] thresholds_length [OF unat_lt_32]
    by (auto simp: element_size_def WriteSInt32NoTagToArray_def WriteInt32NoTagToArray_def WriteUInt32NoTagToArray_def
        WriteVarint32ToArray_def WriteVarint32SignExtendedToArray_def WriteVarint64ToArray_def UnsafeVarint32_bytes UnsafeVarint64_bytes)
  show "count' + msb_sum' * 5 + 1 = count + msb_sum * 5 + of_nat (element_size zigzag sign_extended x)"
    by (simp add: c e algebra_simps)
  show "\<not> sign_extended \<Longrightarrow> msb_sum' = msb_sum" by (simp add: c)
qed

lemma VarintSize_fold:
  assumes "fold (VarintSize_step zigzag sign_extended) xs (count, msb_sum) = (count', msb_sum')" and "\<not> (zigzag \<and> sign_extended)"
  shows "count' + msb_sum' * 5 + of_nat (length xs) = count + msb_sum * 5 + of_nat (sum_list (map (element_size zigzag sign_extended) xs))"
    and "\<not> sign_extended \<Longrightarrow> msb_sum' = msb_sum"
proof -
  have "count' + msb_sum' * 5 + of_nat (length xs) = count + msb_sum * 5 + of_nat (sum_list (map (element_size zigzag sign_extended) xs))
      \<and> (\<not> sign_extended \<longrightarrow> msb_sum' = msb_sum)"
    using assms(1)
  proof (induction xs arbitrary: count msb_sum)
    case Nil
    then show ?case by simp
  next
    case (Cons x xs)
    obtain c m where s: "VarintSize_step zigzag sign_extended x (count, msb_sum) = (c, m)" by fastforce
    note v = VarintSize_step_value [OF s assms(2)]
    from Cons.IH [of c m] Cons.prems s have
      i: "count' + msb_sum' * 5 + of_nat (length xs) = c + m * 5 + of_nat (sum_list (map (element_size zigzag sign_extended) xs))"
      "\<not> sign_extended \<longrightarrow> msb_sum' = m" by simp_all
    have "count' + msb_sum' * 5 + of_nat (length (x # xs)) = (count' + msb_sum' * 5 + of_nat (length xs)) + 1" by simp
    also have "\<dots> = (c + m * 5 + 1) + of_nat (sum_list (map (element_size zigzag sign_extended) xs))" unfolding i(1) by simp
    also have "\<dots> = count + msb_sum * 5 + of_nat (sum_list (map (element_size zigzag sign_extended) (x # xs)))"
      unfolding v(1) by simp
    finally show ?case using i(2) v(2) by simp
  qed
  then show "count' + msb_sum' * 5 + of_nat (length xs) = count + msb_sum * 5 + of_nat (sum_list (map (element_size zigzag sign_extended) xs))"
    and "\<not> sign_extended \<Longrightarrow> msb_sum' = msb_sum" by simp_all
qed

lemma fold_add_sizes: "fold (\<lambda>x count. count + of_nat (f x)) xs (c :: 'a :: semiring_1) = c + of_nat (sum_list (map f xs))"
  by (induction xs arbitrary: c) (simp_all add: algebra_simps)

lemma sum_take_drop: "sum_list (map f (take n xs)) + sum_list (map f (drop n xs)) = sum_list (map f xs)"
  by (simp flip: sum_list_append map_append)

lemma VarintSize_array_value:
  assumes "\<not> (zigzag \<and> sign_extended)"
  shows "VarintSize_array bsr zigzag sign_extended xs = sum_list (map (element_size zigzag sign_extended) xs) mod 2 ^ 32"
proof -
  let ?n = "32 * (length xs div 32)" and ?f = "element_size zigzag sign_extended"
  obtain c m where f: "fold (VarintSize_step zigzag sign_extended) (take ?n xs) (of_nat ?n, 0) = (c, m)" by fastforce
  have n: "length (take ?n xs) = ?n" by simp
  have v: "c + m * 5 = of_nat (sum_list (map ?f (take ?n xs)))"
    using VarintSize_fold(1) [OF f assms] unfolding n by simp
  have e: "(if zigzag then SInt32Size bsr x else if sign_extended then Int32Size bsr x else UInt32Size bsr x) = ?f x" for x
    by (simp add: element_size_def number_sizes)
  have m: "(if sign_extended then c' + m * 5 else c') = c' + m * 5" for c'
    using VarintSize_fold(2) [OF f assms] by simp
  have "VarintSize_array bsr zigzag sign_extended xs = unat (c + of_nat (sum_list (map ?f (drop ?n xs))) + m * 5)"
    unfolding VarintSize_array_def Let_def f split e fold_add_sizes m ..
  also have "c + of_nat (sum_list (map ?f (drop ?n xs))) + m * 5 = of_nat (sum_list (map ?f (take ?n xs)) + sum_list (map ?f (drop ?n xs)))"
    using v by (simp add: algebra_simps)
  also have "sum_list (map ?f (take ?n xs)) + sum_list (map ?f (drop ?n xs)) = sum_list (map ?f xs)"
    by (rule sum_take_drop)
  finally show ?thesis by (simp add: unsigned_of_nat take_bit_eq_mod)
qed

subsection \<open>64 bits\<close>

lemma VarintSize64_step_value:
  "VarintSize64_step zigzag x count + 1
     = count + of_nat (if zigzag then length (WriteSInt64NoTagToArray x) else length (WriteUInt64NoTagToArray x))"
proof -
  let ?x = "if zigzag then ZigZagEncode64 x else x"
  have l: "(if zigzag then length (WriteSInt64NoTagToArray x) else length (WriteUInt64NoTagToArray x)) = length (varint_bytes (unat ?x))"
    by (simp add: WriteSInt64NoTagToArray_def WriteUInt64NoTagToArray_def WriteVarint64ToArray_def UnsafeVarint64_bytes)
  have b: "?x \<ge> push_bit 35 1 \<longleftrightarrow> 2 ^ 35 \<le> unat ?x" by (simp add: word_le_nat_alt push_bit_eq_mult)
  show ?thesis
  proof (cases "2 ^ 35 \<le> unat ?x")
    case False
    then have "VarintSize64_step zigzag x count = count + of_nat (thresholds (unat ?x))"
      using b by (simp add: VarintSize64_step_def pass_bounds_value Let_def)
    with False l thresholds_length [of "unat ?x"] show ?thesis by simp
  next
    case True
    have u: "unat (drop_bit 35 ?x) = unat ?x div 2 ^ 35" by (subst unat_drop_bit_eq) (simp add: drop_bit_eq_div)
    have "unat ?x < 2 ^ 64" using unsigned_less [of ?x, where ?'a = nat] by simp
    then have "unat ?x div 2 ^ 35 < 2 ^ 35" by (simp add: less_mult_imp_div_less)
    then have "length (varint_bytes (unat ?x)) = 5 + Suc (thresholds (unat ?x div 2 ^ 35))"
      using varint_bytes_length_shift [of 5 "unat ?x"] True thresholds_length by simp
    moreover have "VarintSize64_step zigzag x count = count + 5 + of_nat (thresholds (unat (drop_bit 35 ?x)))"
      using True b by (simp add: VarintSize64_step_def pass_bounds_value Let_def)
    ultimately show ?thesis unfolding l u by simp
  qed
qed

lemma VarintSize64_fold:
  "fold (VarintSize64_step zigzag) xs count + of_nat (length xs)
     = count + of_nat (sum_list (map (\<lambda>x. if zigzag then length (WriteSInt64NoTagToArray x) else length (WriteUInt64NoTagToArray x)) xs))"
proof (induction xs arbitrary: count)
  case Nil
  then show ?case by simp
next
  case (Cons x xs)
  let ?f = "\<lambda>x. if zigzag then length (WriteSInt64NoTagToArray x) else length (WriteUInt64NoTagToArray x)"
  have "fold (VarintSize64_step zigzag) (x # xs) count + of_nat (length (x # xs))
      = (fold (VarintSize64_step zigzag) xs (VarintSize64_step zigzag x count) + of_nat (length xs)) + 1" by simp
  also have "\<dots> = (VarintSize64_step zigzag x count + 1) + of_nat (sum_list (map ?f xs))" unfolding Cons.IH by simp
  also have "\<dots> = count + of_nat (sum_list (map ?f (x # xs)))" unfolding VarintSize64_step_value by simp
  finally show ?case .
qed

lemma VarintSize64_array_value:
  "VarintSize64_array bsr zigzag xs
     = sum_list (map (\<lambda>x. if zigzag then length (WriteSInt64NoTagToArray x) else length (WriteUInt64NoTagToArray x)) xs) mod 2 ^ 64"
proof -
  let ?n = "32 * (length xs div 32)"
    and ?f = "\<lambda>x. if zigzag then length (WriteSInt64NoTagToArray x) else length (WriteUInt64NoTagToArray x)"
  have n: "length (take ?n xs) = ?n" by simp
  have v: "fold (VarintSize64_step zigzag) (take ?n xs) (of_nat ?n) = of_nat (sum_list (map ?f (take ?n xs)))"
    using VarintSize64_fold [of zigzag "take ?n xs" "of_nat ?n"] unfolding n by simp
  have e: "(if zigzag then SInt64Size bsr x else UInt64Size bsr x) = ?f x" for x
    by (simp add: number_sizes)
  have "VarintSize64_array bsr zigzag xs
      = unat (of_nat (sum_list (map ?f (take ?n xs))) + of_nat (sum_list (map ?f (drop ?n xs))) :: 64 word)"
    unfolding VarintSize64_array_def Let_def v e fold_add_sizes ..
  also have "\<dots> = unat (of_nat (sum_list (map ?f (take ?n xs)) + sum_list (map ?f (drop ?n xs))) :: 64 word)" by simp
  also have "sum_list (map ?f (take ?n xs)) + sum_list (map ?f (drop ?n xs)) = sum_list (map ?f xs)"
    by (rule sum_take_drop)
  finally show ?thesis by (simp add: unsigned_of_nat take_bit_eq_mod)
qed

end
