(* ===== verification/Wire_Skip.thy ===== *)
theory Wire_Skip
  imports Wire_Read Wire_Laws Coded_Tags
begin

unbundle bit_operations_syntax

section \<open>Skipping unknown fields, on flat content\<close>

text \<open>
  \<open>flat_message\<close> is the specification of \<open>SkipMessage\<close>: it steps over the fields at the start of a
  byte string, down to the nesting depth that is left, and says at which tag it stopped, how many
  bytes it took, and which bytes a copy of them has. Both versions of \<open>SkipMessage\<close> agree
  with it on every input, well-formed or not, wherever the buffers of the input end; in
  particular they return on every input.
\<close>

subsection \<open>The specification\<close>

definition flat_varint :: "string \<Rightarrow> (nat \<times> nat) option" where
  "flat_varint b = map_option (\<lambda>n. (varint_val (take n b), n)) (varint_len 10 b)"

definition flat_tag :: "string \<Rightarrow> (32 word \<times> nat) option" where
  "flat_tag b = (if b = [] then Some (0, 0) else map_option (\<lambda>(x, n). (of_nat x, n)) (flat_varint b))"

text \<open>The value behind a tag that does not start a group: its bytes, and the bytes of a copy.\<close>

definition flat_value :: "32 word \<Rightarrow> string \<Rightarrow> (nat \<times> string) option" where
  "flat_value tag b =
     (let wt = GetTagWireType tag
      in if wt = WIRETYPE_VARINT then map_option (\<lambda>(x, n). (n, UnsafeVarint64 (of_nat x))) (flat_varint b)
      else if wt = WIRETYPE_FIXED64 then (if 8 \<le> length b then Some (8, take 8 b) else None)
      else if wt = WIRETYPE_LENGTH_DELIMITED
      then (case flat_varint b of
              None \<Rightarrow> None
            | Some (x, n) \<Rightarrow>
                let len = x mod 2 ^ 32
                in if len < 2 ^ 31 \<and> n + len \<le> length b
                   then Some (n + len, UnsafeVarint32 (of_nat x) @ take len (drop n b)) else None)
      else if wt = WIRETYPE_FIXED32 then (if 4 \<le> length b then Some (4, take 4 b) else None)
      else None)"

text \<open>
  The tag where the message stopped (zero at its end), the number of bytes unless the last tag could
  not be read, and the copy.
\<close>

type_synonym flat_result = "(32 word \<times> nat option \<times> string) option"

definition flat_after :: "nat \<Rightarrow> string \<Rightarrow> flat_result \<Rightarrow> flat_result" where
  "flat_after n out r = map_option (\<lambda>(t, m, o'). (t, map_option ((+) n) m, out @ o')) r"

lemma flat_after_simps [simp]:
  "flat_after n out None = None"
  "flat_after n out (Some (t, m, x)) = Some (t, map_option ((+) n) m, out @ x)"
  by (simp_all add: flat_after_def)

lemma varint_len_pos: "varint_len n b = Some k \<Longrightarrow> 0 < k \<and> b \<noteq> []"
  by (cases "(n, b)" rule: varint_len.cases) (auto split: if_splits)

lemma flat_tag_pos: "flat_tag b = Some (tag, k) \<Longrightarrow> tag \<noteq> 0 \<Longrightarrow> 0 < k \<and> b \<noteq> []"
  by (auto simp: flat_tag_def flat_varint_def dest: varint_len_pos split: if_splits)

function flat_message :: "nat \<Rightarrow> string \<Rightarrow> flat_result" where
  "flat_message d b =
     (case flat_tag b of
        None \<Rightarrow> Some (0, None, [])
      | Some (tag, k) \<Rightarrow>
          if tag = 0 then Some (0, Some k, [])
          else if GetTagWireType tag = WIRETYPE_END_GROUP then Some (tag, Some k, UnsafeVarint32 tag)
          else if GetTagFieldNumber tag = 0 then None
          else if GetTagWireType tag = WIRETYPE_START_GROUP
          then (case (if d = 0 then None else flat_message (d - 1) (drop k b)) of
                  Some (t, Some n, out) \<Rightarrow>
                    if t = MakeTag (GetTagFieldNumber tag) WIRETYPE_END_GROUP
                    then flat_after (k + n) (UnsafeVarint32 tag @ out) (flat_message d (drop (k + n) b)) else None
                | _ \<Rightarrow> None)
          else (case flat_value tag (drop k b) of
                  None \<Rightarrow> None
                | Some (n, out) \<Rightarrow> flat_after (k + n) (UnsafeVarint32 tag @ out) (flat_message d (drop (k + n) b))))"
  by pat_completeness auto
termination
  by (relation "measure (\<lambda>(d, b). length b)") (auto dest: flat_tag_pos)

declare flat_message.simps [simp del]

lemma flat_after_Some:
  "flat_after n out r = Some (t, m, x) \<longleftrightarrow> (\<exists>m' x'. r = Some (t, m', x') \<and> m = map_option ((+) n) m' \<and> x = out @ x')"
  by (auto simp: flat_after_def)

text \<open>Only the tag zero can be one that was not read.\<close>

lemma flat_message_unread: "flat_message d b = Some (t, None, out) \<Longrightarrow> t = 0"
proof (induction "length b" arbitrary: b out rule: less_induct)
  case less
  show ?case
  proof (rule ccontr)
    assume t: "t \<noteq> 0"
    from less.prems t obtain tag k where k: "flat_tag b = Some (tag, k)" "tag \<noteq> 0"
      by (subst (asm) flat_message.simps) (auto split: option.splits if_splits)
    from less.prems t k obtain m x where m: "flat_message d (drop (k + m) b) = Some (t, None, x)"
      by (subst (asm) flat_message.simps) (auto simp: flat_after_Some split: option.splits if_splits)
    from flat_tag_pos [OF k] have "length (drop (k + m) b) < length b" by simp
    from less.hyps [OF this m] t show False by simp
  qed
qed

lemma end_tag_nonzero: "MakeTag n WIRETYPE_END_GROUP \<noteq> 0"
proof
  assume "MakeTag n WIRETYPE_END_GROUP = 0"
  moreover have "GetTagWireType (MakeTag n WIRETYPE_END_GROUP) = WIRETYPE_END_GROUP"
    by (rule GetTagWireType_MakeTag) (simp add: wire_types)
  ultimately show False by (simp add: GetTagWireType_def wire_types)
qed

subsection \<open>The readers, on the readable bytes\<close>

lemma coded_varint_flat: "coded_varint data s = flat_varint (coded_avail data s)"
  by (simp add: coded_varint_def flat_varint_def)

text \<open>\<open>n\<close> bytes were taken; the limits and the depth are as before, and no end is seen before the bytes end.\<close>

definition stepped :: "string \<Rightarrow> nat \<Rightarrow> 's coded_input \<Rightarrow> 's coded_input \<Rightarrow> bool" where
  "stepped data n s s' \<longleftrightarrow> coded_avail data s' = drop n (coded_avail data s)
     \<and> CurrentPosition s' = CurrentPosition s + int n
     \<and> ci_recursion_budget s' = ci_recursion_budget s \<and> ci_recursion_limit s' = ci_recursion_limit s
     \<and> ci_limit s' = ci_limit s \<and> ci_total_limit s' = ci_total_limit s
     \<and> (ci_input s' = None) = (ci_input s = None)
     \<and> (ci_legit_end s' \<longrightarrow> coded_avail data s' = [] \<or> ci_legit_end s)"

lemma stepped_0 [simp]: "stepped data 0 s s"
  by (simp add: stepped_def)

lemma stepped_trans: "stepped data m s t \<Longrightarrow> stepped data n t u \<Longrightarrow> stepped data (m + n) s u"
  by (auto simp: stepped_def add.commute)

lemma took_stepped: "coded_took data (int n) s True s' \<Longrightarrow> stepped data n s s'"
  by (simp add: coded_took_def stepped_def coded_frame_def)

lemma stepped_tag [simp]: "stepped data n s (s'\<lparr>ci_last_tag := t\<rparr>) = stepped data n s s'"
  by (simp add: stepped_def CurrentPosition_def)

context coded_source
begin

lemma ReadTag_flat:
  assumes "J s"
  obtains (None) s' where "ReadTag I s = Some (0, s')" "J s'" "ci_last_tag s' = 0" "flat_tag (coded_avail data s) = None"
  | (Some) tag s' k where "ReadTag I s = Some (tag, s')" "J s'" "ci_last_tag s' = tag"
      "flat_tag (coded_avail data s) = Some (tag, k)" "stepped data k s s'"
proof -
  obtain tag t where t: "ReadTag I s = Some (tag, t\<lparr>ci_last_tag := tag\<rparr>)" "tag_read s tag t"
    using ReadTag_read [OF assms] by blast
  from t(2) have J: "J t" by (simp add: tag_outcome_def)
  show thesis
  proof (cases "coded_avail data s = []")
    case True
    with t(2) have z: "tag = 0" "CurrentPosition t = CurrentPosition s"
      "coded_frame (t\<lparr>ci_legit_end := ci_legit_end s\<rparr>) = coded_frame s" by (simp_all add: tag_outcome_def)
    from z(2,3) have "coded_avail data t = coded_avail data s" by (auto simp: coded_frame_def coded_avail_def closest_limit_def)
    with z(2,3) True have "stepped data 0 s t" by (auto simp: stepped_def coded_frame_def)
    with t(1) J z(1) True show thesis by (intro Some [of tag "t\<lparr>ci_last_tag := tag\<rparr>" 0]) (simp_all add: flat_tag_def)
  next
    case False
    show thesis
    proof (cases "flat_varint (coded_avail data s)")
      case None
      with False t J show thesis
        by (intro that(1) [of "t\<lparr>ci_last_tag := 0\<rparr>"]) (auto simp: flat_tag_def tag_outcome_def coded_varint_flat)
    next
      case (Some p)
      obtain x n where p: "p = (x, n)" by (cases p)
      from Some p False t(2) have "tag = of_nat x" "coded_took data (int n) s True t"
        by (simp_all add: tag_outcome_def coded_varint_flat)
      with Some p False t(1) J took_stepped show thesis
        by (intro that(2) [of tag "t\<lparr>ci_last_tag := tag\<rparr>" n]) (auto simp: flat_tag_def)
    qed
  qed
qed

lemma ReadTag_legit:
  assumes "J s" and "ReadTag I s = Some (tag, s')"
  shows "coded_avail data s = [] \<Longrightarrow> legit_after_end s (ci_legit_end s')"
    and "coded_avail data s \<noteq> [] \<Longrightarrow> ci_legit_end s' = ci_legit_end s"
proof -
  obtain t where t: "ReadTag I s = Some (tag, t\<lparr>ci_last_tag := tag\<rparr>)" "tag_read s tag t"
    using ReadTag_read [OF assms(1)] assms(2) by auto
  then have "s' = t\<lparr>ci_last_tag := tag\<rparr>" using assms(2) by simp
  then show "coded_avail data s = [] \<Longrightarrow> legit_after_end s (ci_legit_end s')"
    "coded_avail data s \<noteq> [] \<Longrightarrow> ci_legit_end s' = ci_legit_end s"
    using t(2) by (auto simp: tag_outcome_def coded_frame_def)
qed

lemma varint_flat:
  assumes "varint_read s ok (\<lambda>x. v = of_nat x) s'"
  shows "J s'" and "flat_varint (coded_avail data s) = None \<Longrightarrow> \<not> ok"
    and "flat_varint (coded_avail data s) = Some (x, n) \<Longrightarrow> ok \<and> v = of_nat x \<and> stepped data n s s'"
  using assms took_stepped by (auto simp: varint_outcome_def coded_varint_flat)

lemma ReadVarint64_flat:
  assumes "J s"
  obtains (None) v s' where "ReadVarint64 I s = Some ((False, v), s')" "J s'" "flat_varint (coded_avail data s) = None"
  | (Some) x n s' where "ReadVarint64 I s = Some ((True, of_nat x), s')" "J s'"
      "flat_varint (coded_avail data s) = Some (x, n)" "stepped data n s s'"
proof -
  obtain ok v s' where v: "ReadVarint64 I s = Some ((ok, v), s')" "varint_read s ok (\<lambda>x. v = of_nat x) s'"
    using ReadVarint64_read [OF assms] by blast
  with varint_flat [OF v(2)] that show thesis by (cases "flat_varint (coded_avail data s)") force+
qed

lemma ReadVarint32_flat:
  assumes "J s"
  obtains (None) v s' where "ReadVarint32 I s = Some ((False, v), s')" "J s'" "flat_varint (coded_avail data s) = None"
  | (Some) x n s' where "ReadVarint32 I s = Some ((True, of_nat x), s')" "J s'"
      "flat_varint (coded_avail data s) = Some (x, n)" "stepped data n s s'"
proof -
  obtain ok v s' where v: "ReadVarint32 I s = Some ((ok, v), s')" "varint_read s ok (\<lambda>x. v = of_nat x) s'"
    using ReadVarint32_read [OF assms] by blast
  with varint_flat [OF v(2)] that show thesis by (cases "flat_varint (coded_avail data s)") force+
qed

lemma ReadLittleEndian64_flat:
  assumes "J s"
  obtains (None) s' where "ReadLittleEndian64 little I s = Some (None, s')" "J s'" "length (coded_avail data s) < 8"
  | (Some) s' where "ReadLittleEndian64 little I s = Some (Some (of_nat (le_val (take 8 (coded_avail data s)))), s')" "J s'"
      "8 \<le> length (coded_avail data s)" "stepped data 8 s s'"
proof -
  obtain r s' where r: "ReadLittleEndian64 little I s = Some (r, s')" "J s'" "coded_took data 8 s (r \<noteq> None) s'"
    "r = None \<or> r = Some (of_nat (le_val (take 8 (coded_avail data s))))"
    using ReadLittleEndian64_read [OF assms] by blast
  show thesis
  proof (cases r)
    case None
    with r that(1) show thesis by (auto simp: coded_took_def)
  next
    case (Some v)
    with r(3) have "coded_took data (int 8) s True s'" by simp
    from took_stepped [OF this] this r Some that(2) show thesis by (auto simp: coded_took_def)
  qed
qed

lemma ReadLittleEndian32_flat:
  assumes "J s"
  obtains (None) s' where "ReadLittleEndian32 little I s = Some (None, s')" "J s'" "length (coded_avail data s) < 4"
  | (Some) s' where "ReadLittleEndian32 little I s = Some (Some (of_nat (le_val (take 4 (coded_avail data s)))), s')" "J s'"
      "4 \<le> length (coded_avail data s)" "stepped data 4 s s'"
proof -
  obtain r s' where r: "ReadLittleEndian32 little I s = Some (r, s')" "J s'" "coded_took data 4 s (r \<noteq> None) s'"
    "r = None \<or> r = Some (of_nat (le_val (take 4 (coded_avail data s))))"
    using ReadLittleEndian32_read [OF assms] by blast
  show thesis
  proof (cases r)
    case None
    with r that(1) show thesis by (auto simp: coded_took_def)
  next
    case (Some v)
    with r(3) have "coded_took data (int 4) s True s'" by simp
    from took_stepped [OF this] this r Some that(2) show thesis by (auto simp: coded_took_def)
  qed
qed

text \<open>The length of a delimited value is an \<open>int\<close>, negative when it is 2 GB or more.\<close>

lemma to_i32_length:
  "x mod 2 ^ 32 < 2 ^ 31 \<Longrightarrow> to_i32 (uint (of_nat x :: 32 word)) = int (x mod 2 ^ 32)"
  "\<not> x mod 2 ^ 32 < 2 ^ 31 \<Longrightarrow> to_i32 (uint (of_nat x :: 32 word)) < 0"
proof -
  let ?l = "int (x mod 2 ^ 32)"
  have e: "to_i32 (uint (of_nat x :: 32 word)) = to_i32 ?l" by (simp add: uint_of_nat_32)
  show "to_i32 (uint (of_nat x :: 32 word)) = ?l" if "x mod 2 ^ 32 < 2 ^ 31"
  proof -
    have "?l < 2 ^ 31" using that by simp
    then show ?thesis unfolding e by (intro to_i32_id) (simp add: in_i32_def)
  qed
  show "to_i32 (uint (of_nat x :: 32 word)) < 0" if n: "\<not> x mod 2 ^ 32 < 2 ^ 31"
  proof -
    define l where "l = x mod 2 ^ 32"
    have "l < 4294967296" "2147483648 \<le> l" using n by (simp_all add: l_def)
    then have l: "?l < 2 ^ 32" "2 ^ 31 \<le> ?l" unfolding l_def [symmetric] by simp_all
    from l have "?l div 2 ^ 31 = 1" by (intro int_div_pos_eq [of _ _ _ "?l - 2 ^ 31"]) simp_all
    then have "bit ?l 31" by (simp add: bit_iff_odd)
    moreover have "take_bit 32 ?l = ?l" using l by (simp add: take_bit_int_eq_self_iff)
    ultimately have "to_i32 ?l = ?l - 2 ^ 32" by (simp add: to_i32_def signed_take_bit_eq_take_bit_minus)
    then show ?thesis using l e by simp
  qed
qed

definition value_outcome :: "(nat \<times> string) option \<Rightarrow> 's coded_input \<Rightarrow> bool \<Rightarrow> 's coded_input \<Rightarrow> bool" where
  "value_outcome r s b s' \<longleftrightarrow> J s' \<and> (case r of None \<Rightarrow> \<not> b | Some (n, out) \<Rightarrow> b \<and> stepped data n s s')"

lemma Skip_length:
  assumes "J s"
  shows "\<exists>b s'. coded_Skip I (to_i32 (uint (of_nat x :: 32 word))) s = Some (b, s')
     \<and> value_outcome (if x mod 2 ^ 32 < 2 ^ 31 \<and> x mod 2 ^ 32 \<le> length (coded_avail data s)
          then Some (x mod 2 ^ 32, take (x mod 2 ^ 32) (coded_avail data s)) else None) s b s'"
proof (cases "x mod 2 ^ 32 < 2 ^ 31")
  case False
  with to_i32_length(2) [OF False] assms show ?thesis
    by (intro exI [of _ False]) (simp add: coded_Skip_def value_outcome_def)
next
  case True
  have "0 \<le> int (x mod 2 ^ 32)" by simp
  from coded_Skip_took [OF assms this] took_stepped to_i32_length(1) [OF True] True show ?thesis
    by (fastforce simp: value_outcome_def coded_took_def)
qed

lemma ReadString_length:
  assumes "J s"
  shows "\<exists>b out s'. ReadString I [] (to_i32 (uint (of_nat x :: 32 word))) s = Some (b, out, s')
     \<and> value_outcome (if x mod 2 ^ 32 < 2 ^ 31 \<and> x mod 2 ^ 32 \<le> length (coded_avail data s)
          then Some (x mod 2 ^ 32, out) else None) s b s'
     \<and> (b \<longrightarrow> out = take (x mod 2 ^ 32) (coded_avail data s))"
proof (cases "x mod 2 ^ 32 < 2 ^ 31")
  case False
  with to_i32_length(2) [OF False] assms show ?thesis
    by (intro exI [of _ False]) (simp add: ReadString_def value_outcome_def)
next
  case True
  have "0 \<le> int (x mod 2 ^ 32)" by simp
  from ReadString_took [OF assms this, of "[]"] took_stepped to_i32_length(1) [OF True] True show ?thesis
    by (fastforce simp: value_outcome_def coded_took_def)
qed

subsection \<open>SkipField and SkipMessage\<close>

lemma SkipField_value:
  assumes "J s" and "GetTagFieldNumber tag \<noteq> 0" and "GetTagWireType tag \<noteq> WIRETYPE_START_GROUP"
  shows "\<exists>b s'. SkipField_with little I skip tag s = Some (b, s') \<and> value_outcome (flat_value tag (coded_avail data s)) s b s'"
proof -
  let ?wt = "GetTagWireType tag"
  consider (varint) "?wt = WIRETYPE_VARINT" | (fixed64) "?wt = WIRETYPE_FIXED64" | (bytes) "?wt = WIRETYPE_LENGTH_DELIMITED"
    | (fixed32) "?wt = WIRETYPE_FIXED32"
    | (other) "?wt \<notin> {WIRETYPE_VARINT, WIRETYPE_FIXED64, WIRETYPE_LENGTH_DELIMITED, WIRETYPE_START_GROUP, WIRETYPE_FIXED32}"
    using assms(3) by blast
  then show ?thesis
  proof cases
    case varint
    from assms(1) show ?thesis
      by (cases rule: ReadVarint64_flat)
        (use assms(2) varint in \<open>auto simp: SkipField_with_def flat_value_def value_outcome_def Let_def\<close>)
  next
    case fixed64
    from assms(1) show ?thesis
      by (cases rule: ReadLittleEndian64_flat [where little = little])
        (use assms(2) fixed64 in \<open>auto simp: SkipField_with_def flat_value_def value_outcome_def Let_def wire_types\<close>)
  next
    case fixed32
    from assms(1) show ?thesis
      by (cases rule: ReadLittleEndian32_flat [where little = little])
        (use assms(2) fixed32 in \<open>auto simp: SkipField_with_def flat_value_def value_outcome_def Let_def wire_types\<close>)
  next
    case bytes
    from assms(1) show ?thesis
    proof (cases rule: ReadVarint32_flat)
      case None
      with assms(2) bytes show ?thesis
        by (auto simp: SkipField_with_def flat_value_def value_outcome_def Let_def wire_types)
    next
      case (Some x n t)
      let ?l = "x mod 2 ^ 32" and ?b = "coded_avail data s"
      have a: "coded_avail data t = drop n ?b" using Some(4) by (simp add: stepped_def)
      have n: "n \<le> length ?b" using Some(3) by (auto simp: flat_varint_def dest: varint_len_le)
      from Skip_length [OF Some(2), of x] obtain b s' where
        s': "coded_Skip I (to_i32 (uint (of_nat x :: 32 word))) t = Some (b, s')"
          "value_outcome (if ?l < 2 ^ 31 \<and> ?l \<le> length (drop n ?b) then Some (?l, take ?l (drop n ?b)) else None) t b s'"
        unfolding a by blast
      have v: "flat_value tag ?b = (if ?l < 2 ^ 31 \<and> ?l \<le> length (drop n ?b)
          then Some (n + ?l, UnsafeVarint32 (of_nat x) @ take ?l (drop n ?b)) else None)"
        using bytes Some(3) n by (auto simp: flat_value_def Let_def wire_types)
      have "value_outcome (flat_value tag ?b) s b s'"
        using s'(2) stepped_trans [OF Some(4)] unfolding v by (auto simp: value_outcome_def split: if_splits)
      moreover have "SkipField_with little I skip tag s = Some (b, s')"
        using assms(2) bytes Some(1) s'(1) by (simp add: SkipField_with_def Let_def wire_types)
      ultimately show ?thesis by blast
    qed
  next
    case other
    then show ?thesis using assms
      by (intro exI [of _ False]) (auto simp: SkipField_with_def flat_value_def value_outcome_def Let_def wire_types)
  qed
qed

text \<open>The depth that is left, and the limit it never exceeds.\<close>

definition depth_left :: "nat \<Rightarrow> 's coded_input \<Rightarrow> bool" where
  "depth_left d s \<longleftrightarrow> ci_recursion_budget s = int d \<and> int d \<le> ci_recursion_limit s \<and> int d \<le> INT_MAX"

lemma depth_left_stepped: "stepped data n s s' \<Longrightarrow> depth_left d s' = depth_left d s"
  by (simp add: depth_left_def stepped_def)

lemma IncrementRecursionDepth_left:
  assumes "depth_left d s"
  shows "IncrementRecursionDepth s = Some (d \<noteq> 0, s\<lparr>ci_recursion_budget := int d - 1\<rparr>)"
    and "d \<noteq> 0 \<Longrightarrow> depth_left (d - 1) (s\<lparr>ci_recursion_budget := int d - 1\<rparr>)"
  using assms by (auto simp: IncrementRecursionDepth_def depth_left_def i32_def in_i32_def INT_MAX_def)

lemma DecrementRecursionDepth_left:
  assumes "depth_left d s" and "stepped data n (s\<lparr>ci_recursion_budget := int d - 1\<rparr>) t"
  shows "stepped data n s (DecrementRecursionDepth t)"
  using assms by (auto simp: DecrementRecursionDepth_def depth_left_def stepped_def)

lemma DecrementRecursionDepth_keeps [simp]:
  "J (DecrementRecursionDepth s) = J s" "ci_last_tag (DecrementRecursionDepth s) = ci_last_tag s"
  by (simp_all add: DecrementRecursionDepth_def)

definition message_outcome :: "flat_result \<Rightarrow> 's coded_input \<Rightarrow> bool \<Rightarrow> 's coded_input \<Rightarrow> bool" where
  "message_outcome r s b s' \<longleftrightarrow> J s' \<and> (case r of None \<Rightarrow> \<not> b
     | Some (t, m, out) \<Rightarrow> b \<and> ci_last_tag s' = t \<and> (\<forall>n. m = Some n \<longrightarrow> stepped data n s s'))"

lemma message_outcome_after:
  assumes "stepped data n s u" and "message_outcome r u b s'"
  shows "message_outcome (flat_after n out r) s b s'"
proof (cases r)
  case (Some p)
  with assms stepped_trans [OF assms(1)] show ?thesis by (cases p) (auto simp: message_outcome_def)
qed (use assms(2) in \<open>simp add: message_outcome_def\<close>)

lemma SkipMessage_flat:
  assumes "J s" and "depth_left d s"
  shows "\<exists>b s'. SkipMessage little I s = Some (b, s') \<and> message_outcome (flat_message d (coded_avail data s)) s b s'"
  using assms
proof (induction d "coded_avail data s" arbitrary: s rule: flat_message.induct)
  case (1 d)
  let ?b = "coded_avail data s"
  from 1(4) show ?case
  proof (cases rule: ReadTag_flat)
    case (None s')
    then show ?thesis by (subst SkipMessage.simps, subst flat_message.simps) (auto simp: message_outcome_def)
  next
    case (Some tag t k)
    note tag = this
    note d = depth_left_stepped [OF tag(5), of d]
    have a: "coded_avail data t = drop k ?b" using tag(5) by (simp add: stepped_def)
    consider (ended) "tag = 0 \<or> GetTagWireType tag = WIRETYPE_END_GROUP"
      | (zero) "tag \<noteq> 0" "GetTagWireType tag \<noteq> WIRETYPE_END_GROUP" "GetTagFieldNumber tag = 0"
      | (group) "tag \<noteq> 0" "GetTagFieldNumber tag \<noteq> 0" "GetTagWireType tag = WIRETYPE_START_GROUP"
      | (plain) "tag \<noteq> 0" "GetTagWireType tag \<noteq> WIRETYPE_END_GROUP" "GetTagFieldNumber tag \<noteq> 0"
          "GetTagWireType tag \<noteq> WIRETYPE_START_GROUP"
      by blast
    then show ?thesis
    proof cases
      case ended
      with tag show ?thesis by (subst SkipMessage.simps, subst flat_message.simps) (auto simp: message_outcome_def)
    next
      case zero
      with tag show ?thesis
        by (subst SkipMessage.simps, subst flat_message.simps) (auto simp: message_outcome_def SkipField_with_def)
    next
      case plain
      from SkipField_value [OF tag(2) plain(3,4), of little "SkipMessage little I"] obtain b u where
        u: "SkipField_with little I (SkipMessage little I) tag t = Some (b, u)" "value_outcome (flat_value tag (drop k ?b)) t b u"
        unfolding a by blast
      show ?thesis
      proof (cases "flat_value tag (drop k ?b)")
        case None
        with u tag plain show ?thesis
          by (subst SkipMessage.simps, subst flat_message.simps) (auto simp: message_outcome_def value_outcome_def)
      next
        case (Some p)
        obtain n out where p: "p = (n, out)" by (cases p)
        from u(2) Some p have n: "b" "J u" "stepped data n t u" by (auto simp: value_outcome_def)
        from stepped_trans [OF tag(5) n(3)] have kn: "stepped data (k + n) s u" .
        then have "drop (k + n) ?b = coded_avail data u" by (simp add: stepped_def)
        from 1(3) [OF tag(4) refl plain(1,2,3) plain(4) Some p [symmetric] this n(2)] depth_left_stepped [OF kn, of d] 1(5)
        obtain b' s' where s': "SkipMessage little I u = Some (b', s')"
          "message_outcome (flat_message d (coded_avail data u)) u b' s'" by blast
        from message_outcome_after [OF kn s'(2)] tag u(1) n(1) plain Some p s'(1) \<open>drop (k + n) ?b = coded_avail data u\<close>
        show ?thesis by (subst SkipMessage.simps, subst flat_message.simps) simp
      qed
    next
      case group
      then have ne: "GetTagWireType tag \<noteq> WIRETYPE_END_GROUP" by (simp add: wire_types)
      let ?e = "MakeTag (GetTagFieldNumber tag) WIRETYPE_END_GROUP"
      let ?t = "t\<lparr>ci_recursion_budget := int d - 1\<rparr>"
      from d 1(5) have dt: "depth_left d t" by simp
      show ?thesis
      proof (cases "d = 0")
        case True
        with IncrementRecursionDepth_left(1) [OF dt] group tag ne show ?thesis
          by (subst SkipMessage.simps, subst flat_message.simps) (auto simp: message_outcome_def SkipField_with_def wire_types)
      next
        case False
        have "drop k ?b = coded_avail data ?t" "J ?t" using a tag(2) by simp_all
        from 1(1) [OF tag(4) refl group(1) ne group(2,3) False this IncrementRecursionDepth_left(2) [OF dt False]]
        obtain b u where u: "SkipMessage little I ?t = Some (b, u)"
          "message_outcome (flat_message (d - 1) (drop k ?b)) ?t b u"
          unfolding \<open>drop k ?b = coded_avail data ?t\<close> by blast
        have f: "SkipField_with little I (SkipMessage little I) tag t
            = Some (if b then (ci_last_tag u = ?e, DecrementRecursionDepth u) else (False, u))"
          using group ne False IncrementRecursionDepth_left(1) [OF dt] u(1)
          by (simp add: SkipField_with_def Let_def wire_types LastTagWas_def)
        show ?thesis
        proof (cases "\<exists>n out. flat_message (d - 1) (drop k ?b) = Some (?e, Some n, out)")
          case False': False
          with u(2) flat_message_unread [of "d - 1" "drop k ?b"] end_tag_nonzero
          have "\<not> b \<or> ci_last_tag u \<noteq> ?e" "J u"
            by (fastforce simp: message_outcome_def split: option.splits)+
          with f tag group ne False False' show ?thesis
            by (subst SkipMessage.simps, subst flat_message.simps)
              (auto simp: message_outcome_def split: option.splits)
        next
          case True
          then obtain n out where n: "flat_message (d - 1) (drop k ?b) = Some (?e, Some n, out)" by blast
          with u(2) have v: "b" "ci_last_tag u = ?e" "J u" "stepped data n ?t u" by (auto simp: message_outcome_def)
          let ?u = "DecrementRecursionDepth u"
          from stepped_trans [OF tag(5) DecrementRecursionDepth_left [OF dt v(4)]] have kn: "stepped data (k + n) s ?u" .
          then have c: "drop (k + n) ?b = coded_avail data ?u" by (simp add: stepped_def)
          from v(3) have "J ?u" by simp
          from False n have "(if d = 0 then None else flat_message (d - 1) (drop k ?b)) = Some (?e, Some n, out)" by simp
          from 1(2) [OF tag(4) refl group(1) ne group(2,3) this refl refl refl refl c \<open>J ?u\<close>] depth_left_stepped [OF kn, of d] 1(5)
          obtain b' s' where s': "SkipMessage little I ?u = Some (b', s')"
            "message_outcome (flat_message d (coded_avail data ?u)) ?u b' s'" by auto
          from message_outcome_after [OF kn s'(2)] tag f v(1,2) group ne n False s'(1) c
          show ?thesis by (subst SkipMessage.simps, subst flat_message.simps) simp
        qed
      qed
    qed
  qed
qed

end

end
