(* ===== verification/Wire_Fields.thy ===== *)
theory Wire_Fields
  imports Wire_Skip
begin

unbundle bit_operations_syntax

section \<open>Serialized fields\<close>

text \<open>
  A serialized message is a sequence of fields, each a number with a value of one of the wire types; a
  group holds fields again. \<open>wire_bytes\<close> is what the writers of \<open>wire_format_lite\<close> write for it.
  \<open>flat_message\<close> steps over well-formed fields one by one, and what it copies is what was there; fields
  that are nested too deeply it refuses.
\<close>

datatype wire_field =
    FVarint "32 word" "64 word"
  | FFixed64 "32 word" "64 word"
  | FFixed32 "32 word" "32 word"
  | FBytes "32 word" string
  | FGroup "32 word" "wire_field list"

fun wire_bytes :: "wire_field \<Rightarrow> string" where
  "wire_bytes (FVarint num v) = WriteUInt64ToArray num v"
| "wire_bytes (FFixed64 num v) = WriteFixed64ToArray num v"
| "wire_bytes (FFixed32 num v) = WriteFixed32ToArray num v"
| "wire_bytes (FBytes num b) = WriteBytesToArray num b"
| "wire_bytes (FGroup num fs) =
     wf_WriteTagToArray num WIRETYPE_START_GROUP @ concat (map wire_bytes fs) @ wf_WriteTagToArray num WIRETYPE_END_GROUP"

text \<open>Field numbers have 29 bits and are not zero; a length is an \<open>int\<close>.\<close>

definition field_number_ok :: "32 word \<Rightarrow> bool" where
  "field_number_ok num \<longleftrightarrow> num \<noteq> 0 \<and> num < 2 ^ 29"

fun field_ok :: "wire_field \<Rightarrow> bool" where
  "field_ok (FVarint num v) = field_number_ok num"
| "field_ok (FFixed64 num v) = field_number_ok num"
| "field_ok (FFixed32 num v) = field_number_ok num"
| "field_ok (FBytes num b) \<longleftrightarrow> field_number_ok num \<and> int (length b) \<le> INT_MAX"
| "field_ok (FGroup num fs) \<longleftrightarrow> field_number_ok num \<and> list_all field_ok fs"

fun field_depth :: "wire_field \<Rightarrow> nat" where
  "field_depth (FGroup num fs) = Suc (foldr max (map field_depth fs) 0)"
| "field_depth (FVarint num v) = 0"
| "field_depth (FFixed64 num v) = 0"
| "field_depth (FFixed32 num v) = 0"
| "field_depth (FBytes num b) = 0"

abbreviation message_bytes :: "wire_field list \<Rightarrow> string" where
  "message_bytes fs \<equiv> concat (map wire_bytes fs)"

definition message_depth :: "wire_field list \<Rightarrow> nat" where
  "message_depth fs = foldr max (map field_depth fs) 0"

lemma message_depth_simps [simp]:
  "message_depth [] = 0" "message_depth (f # fs) = max (field_depth f) (message_depth fs)"
  "field_depth (FGroup num fs) = Suc (message_depth fs)"
  by (simp_all add: message_depth_def)

declare field_depth.simps(1) [simp del]

subsection \<open>Tags and values that were written\<close>

lemma flat_varint_bytes: "length (varint_bytes n) \<le> 10 \<Longrightarrow> flat_varint (varint_bytes n @ z) = Some (n, length (varint_bytes n))"
  using varint_len_bytes [of n 10 z] by (simp add: flat_varint_def)

lemma flat_varint_write [simp]:
  "flat_varint (UnsafeVarint32 v @ z) = Some (unat v, length (UnsafeVarint32 v))"
  "flat_varint (UnsafeVarint64 x @ z) = Some (unat x, length (UnsafeVarint64 x))"
  unfolding UnsafeVarint32_bytes UnsafeVarint64_bytes
  by (rule flat_varint_bytes, rule order_trans [OF unat_length_32] order_trans [OF unat_length_64], simp)+

lemma flat_tag_write: "flat_tag (wf_WriteTagToArray num t @ z) = Some (MakeTag num t, length (wf_WriteTagToArray num t))"
  by (simp add: flat_tag_def wf_WriteTagToArray_def WriteTagToArray_def WriteVarint32ToArray_def)

lemma MakeTag_parts:
  assumes "field_number_ok num" and "t < 8"
  shows "GetTagWireType (MakeTag num t) = t" and "GetTagFieldNumber (MakeTag num t) = num" and "MakeTag num t \<noteq> 0"
proof -
  show "GetTagWireType (MakeTag num t) = t" using assms(2) by (rule GetTagWireType_MakeTag)
  show n: "GetTagFieldNumber (MakeTag num t) = num"
    using assms by (intro GetTagFieldNumber_MakeTag) (simp_all add: field_number_ok_def)
  show "MakeTag num t \<noteq> 0"
    using n assms(1) by (auto simp: GetTagFieldNumber_def field_number_ok_def)
qed

lemma MakeTag_types [simp]:
  assumes "field_number_ok num"
  shows "GetTagWireType (MakeTag num WIRETYPE_VARINT) = WIRETYPE_VARINT" "MakeTag num WIRETYPE_VARINT \<noteq> 0"
    "GetTagWireType (MakeTag num WIRETYPE_FIXED64) = WIRETYPE_FIXED64" "MakeTag num WIRETYPE_FIXED64 \<noteq> 0"
    "GetTagWireType (MakeTag num WIRETYPE_LENGTH_DELIMITED) = WIRETYPE_LENGTH_DELIMITED" "MakeTag num WIRETYPE_LENGTH_DELIMITED \<noteq> 0"
    "GetTagWireType (MakeTag num WIRETYPE_START_GROUP) = WIRETYPE_START_GROUP" "MakeTag num WIRETYPE_START_GROUP \<noteq> 0"
    "GetTagWireType (MakeTag num WIRETYPE_END_GROUP) = WIRETYPE_END_GROUP" "MakeTag num WIRETYPE_END_GROUP \<noteq> 0"
    "GetTagWireType (MakeTag num WIRETYPE_FIXED32) = WIRETYPE_FIXED32" "MakeTag num WIRETYPE_FIXED32 \<noteq> 0"
  by (rule MakeTag_parts [OF assms]; simp add: wire_types)+

lemma wire_types_distinct [simp]:
  "WIRETYPE_FIXED64 \<noteq> WIRETYPE_VARINT" "WIRETYPE_LENGTH_DELIMITED \<noteq> WIRETYPE_VARINT" "WIRETYPE_LENGTH_DELIMITED \<noteq> WIRETYPE_FIXED64"
  "WIRETYPE_FIXED32 \<noteq> WIRETYPE_VARINT" "WIRETYPE_FIXED32 \<noteq> WIRETYPE_FIXED64" "WIRETYPE_FIXED32 \<noteq> WIRETYPE_LENGTH_DELIMITED"
  "WIRETYPE_VARINT \<noteq> WIRETYPE_START_GROUP" "WIRETYPE_FIXED64 \<noteq> WIRETYPE_START_GROUP"
  "WIRETYPE_LENGTH_DELIMITED \<noteq> WIRETYPE_START_GROUP" "WIRETYPE_FIXED32 \<noteq> WIRETYPE_START_GROUP"
  "WIRETYPE_VARINT \<noteq> WIRETYPE_END_GROUP" "WIRETYPE_FIXED64 \<noteq> WIRETYPE_END_GROUP"
  "WIRETYPE_LENGTH_DELIMITED \<noteq> WIRETYPE_END_GROUP" "WIRETYPE_FIXED32 \<noteq> WIRETYPE_END_GROUP"
  "WIRETYPE_START_GROUP \<noteq> WIRETYPE_END_GROUP" "WIRETYPE_END_GROUP \<noteq> WIRETYPE_START_GROUP"
  by (simp_all add: wire_types)

lemma wf_tag_bytes: "wf_WriteTagToArray num t = UnsafeVarint32 (MakeTag num t)"
  by (simp add: wf_WriteTagToArray_def WriteTagToArray_def WriteVarint32ToArray_def)

text \<open>A tag and a value that is not a group.\<close>

lemma flat_message_value:
  assumes "field_number_ok num" and "t < 8" and "t \<noteq> WIRETYPE_START_GROUP" and "t \<noteq> WIRETYPE_END_GROUP"
    and "flat_value (MakeTag num t) (b @ z) = Some (length b, b)"
  shows "flat_message d (wf_WriteTagToArray num t @ b @ z)
     = flat_after (length (wf_WriteTagToArray num t @ b)) (wf_WriteTagToArray num t @ b) (flat_message d z)"
  using assms MakeTag_parts [OF assms(1,2)]
  by (subst flat_message.simps) (simp add: flat_tag_write field_number_ok_def flip: wf_tag_bytes)

lemma flat_message_end:
  assumes "field_number_ok num"
  shows "flat_message d (wf_WriteTagToArray num WIRETYPE_END_GROUP @ z)
     = Some (MakeTag num WIRETYPE_END_GROUP, Some (length (wf_WriteTagToArray num WIRETYPE_END_GROUP)),
             wf_WriteTagToArray num WIRETYPE_END_GROUP)"
  using assms by (subst flat_message.simps) (simp add: flat_tag_write flip: wf_tag_bytes)

lemma flat_message_Nil [simp]: "flat_message d [] = Some (0, Some 0, [])"
  by (subst flat_message.simps) (simp add: flat_tag_def)

lemma flat_after_after: "flat_after m a (flat_after n b r) = flat_after (m + n) (a @ b) r"
  by (cases r) (auto simp: option.map_comp intro!: option.map_cong)

lemma flat_after_0 [simp]: "flat_after 0 [] r = r"
  by (cases r) (auto intro!: option.map_ident_strong)

subsection \<open>Well-formed fields\<close>

lemma flat_message_group:
  assumes "field_number_ok num" and "d \<noteq> 0"
    and "\<And>y. flat_message (d - 1) (b @ y) = flat_after (length b) b (flat_message (d - 1) y)"
  defines "g \<equiv> wf_WriteTagToArray num WIRETYPE_START_GROUP @ b @ wf_WriteTagToArray num WIRETYPE_END_GROUP"
  shows "flat_message d (g @ z) = flat_after (length g) g (flat_message d z)"
proof -
  have n: "GetTagFieldNumber (MakeTag num WIRETYPE_START_GROUP) = num"
    by (rule MakeTag_parts(2) [OF assms(1)]) (simp add: wire_types)
  have l: "length (wf_WriteTagToArray num t) = length (UnsafeVarint32 (MakeTag num t))" for t by (simp add: wf_tag_bytes)
  show ?thesis
    using assms(1,2) n unfolding g_def
    by (subst flat_message.simps)
      (simp add: flat_tag_write assms(3) flat_message_end field_number_ok_def flat_after_Some add.assoc del: One_nat_def
        flip: wf_tag_bytes)
qed

lemma flat_message_fields_from:
  assumes "\<And>f z. f \<in> set fs \<Longrightarrow> flat_message d (wire_bytes f @ z) = flat_after (length (wire_bytes f)) (wire_bytes f) (flat_message d z)"
  shows "flat_message d (message_bytes fs @ z) = flat_after (length (message_bytes fs)) (message_bytes fs) (flat_message d z)"
  using assms by (induction fs) (simp_all add: flat_after_after)

lemma message_depth_le: "message_depth fs \<le> d \<longleftrightarrow> (\<forall>f \<in> set fs. field_depth f \<le> d)"
  by (induction fs) auto

lemma flat_message_field:
  assumes "field_ok f" and "field_depth f \<le> d"
  shows "flat_message d (wire_bytes f @ z) = flat_after (length (wire_bytes f)) (wire_bytes f) (flat_message d z)"
  using assms
proof (induction f arbitrary: d z)
  case (FVarint num v)
  then have "flat_value (MakeTag num WIRETYPE_VARINT) (WriteUInt64NoTagToArray v @ z)
      = Some (length (WriteUInt64NoTagToArray v), WriteUInt64NoTagToArray v)"
    by (simp add: flat_value_def WriteUInt64NoTagToArray_def WriteVarint64ToArray_def)
  from flat_message_value [OF _ _ _ _ this] FVarint show ?case
    by (simp add: WriteUInt64ToArray_def wire_types)
next
  case (FFixed64 num v)
  then have "flat_value (MakeTag num WIRETYPE_FIXED64) (WriteFixed64NoTagToArray v @ z)
      = Some (length (WriteFixed64NoTagToArray v), WriteFixed64NoTagToArray v)"
    by (simp add: flat_value_def WriteFixed64NoTagToArray_def)
  from flat_message_value [OF _ _ _ _ this] FFixed64 show ?case
    by (simp add: WriteFixed64ToArray_def wire_types)
next
  case (FFixed32 num v)
  then have "flat_value (MakeTag num WIRETYPE_FIXED32) (WriteFixed32NoTagToArray v @ z)
      = Some (length (WriteFixed32NoTagToArray v), WriteFixed32NoTagToArray v)"
    by (simp add: flat_value_def WriteFixed32NoTagToArray_def)
  from flat_message_value [OF _ _ _ _ this] FFixed32 show ?case
    by (simp add: WriteFixed32ToArray_def wire_types)
next
  case (FBytes num b)
  define n :: "32 word" where "n = of_nat (length b)"
  have n: "unat n = length b" "length b < 2 ^ 31"
    using FBytes(1) by (simp_all add: n_def unsigned_of_nat take_bit_nat_eq_self_iff INT_MAX_def)
  have "WriteStringWithSizeToArray b = UnsafeVarint32 n @ b"
    by (simp add: WriteStringWithSizeToArray_def WriteVarint32ToArray_def n_def)
  then have "flat_value (MakeTag num WIRETYPE_LENGTH_DELIMITED) (WriteStringWithSizeToArray b @ z)
      = Some (length (WriteStringWithSizeToArray b), WriteStringWithSizeToArray b)"
    using FBytes(1) n by (simp add: flat_value_def Let_def n_def [symmetric])
  from flat_message_value [OF _ _ _ _ this] FBytes show ?case
    by (simp add: WriteBytesToArray_def wire_types)
next
  case (FGroup num fs)
  then have "message_depth fs \<le> d - 1" "list_all field_ok fs" "d \<noteq> 0" "field_number_ok num" by auto
  then have "flat_message (d - 1) (message_bytes fs @ y)
      = flat_after (length (message_bytes fs)) (message_bytes fs) (flat_message (d - 1) y)" for y
    by (intro flat_message_fields_from FGroup.IH) (simp_all add: message_depth_le list_all_iff)
  from flat_message_group [OF \<open>field_number_ok num\<close> \<open>d \<noteq> 0\<close> this] show ?case by simp
qed

lemma flat_message_fields:
  assumes "list_all field_ok fs" and "message_depth fs \<le> d"
  shows "flat_message d (message_bytes fs @ z) = flat_after (length (message_bytes fs)) (message_bytes fs) (flat_message d z)"
  by (rule flat_message_fields_from, rule flat_message_field) (use assms in \<open>simp_all add: message_depth_le list_all_iff\<close>)

subsection \<open>Too deep\<close>

lemma flat_message_deep_from:
  assumes "list_all field_ok fs" and "d < message_depth fs"
    and "\<And>f z. f \<in> set fs \<Longrightarrow> d < field_depth f \<Longrightarrow> flat_message d (wire_bytes f @ z) = None"
  shows "flat_message d (message_bytes fs @ z) = None"
  using assms
proof (induction fs)
  case (Cons f fs)
  show ?case
  proof (cases "d < field_depth f")
    case True
    with Cons.prems(3) [of f] show ?thesis by simp
  next
    case False
    then have "flat_message d (message_bytes fs @ z) = None" using Cons by (simp add: max_def split: if_splits)
    with flat_message_field [of f d "message_bytes fs @ z"] False Cons.prems(1) show ?thesis by simp
  qed
qed simp

lemma flat_message_deep_field:
  assumes "field_ok f" and "d < field_depth f"
  shows "flat_message d (wire_bytes f @ z) = None"
  using assms
proof (induction f arbitrary: d z)
  case (FGroup num fs)
  then have ok: "list_all field_ok fs" "field_number_ok num" "d \<le> message_depth fs" by simp_all
  show ?case
  proof (cases "d = 0")
    case True
    with ok(2) MakeTag_parts(2) [OF ok(2), of WIRETYPE_START_GROUP] show ?thesis
      by (subst flat_message.simps) (simp add: flat_tag_write)
  next
    case False
    then have "d - 1 < message_depth fs" using ok(3) by simp
    from flat_message_deep_from [OF ok(1) this FGroup.IH] ok(1)
    have "flat_message (d - 1) (message_bytes fs @ y) = None" for y by (simp add: list_all_iff)
    with False ok(2) show ?thesis by (subst flat_message.simps) (simp add: flat_tag_write del: One_nat_def)
  qed
qed simp_all

lemma flat_message_deep:
  "list_all field_ok fs \<Longrightarrow> d < message_depth fs \<Longrightarrow> flat_message d (message_bytes fs @ z) = None"
  by (rule flat_message_deep_from) (auto simp: list_all_iff intro: flat_message_deep_field)

text \<open>A group that is closed with another number.\<close>

lemma flat_message_mismatch:
  assumes "field_number_ok num" and "field_number_ok num'" and "num \<noteq> num'" and "list_all field_ok fs"
  shows "flat_message d (wf_WriteTagToArray num WIRETYPE_START_GROUP @ message_bytes fs
           @ wf_WriteTagToArray num' WIRETYPE_END_GROUP @ z) = None"
proof (cases "d = 0 \<or> d - 1 < message_depth fs")
  case True
  with assms(1) flat_message_deep [OF assms(4), of "d - 1"] show ?thesis
    by (subst flat_message.simps) (auto simp: flat_tag_write simp del: One_nat_def)
next
  case False
  have n: "GetTagFieldNumber (MakeTag num WIRETYPE_START_GROUP) = num"
    by (rule MakeTag_parts(2) [OF assms(1)]) (simp add: wire_types)
  have e: "GetTagFieldNumber (MakeTag k WIRETYPE_END_GROUP) = k" if "field_number_ok k" for k
    by (rule MakeTag_parts(2) [OF that]) (simp add: wire_types)
  have "MakeTag num' WIRETYPE_END_GROUP \<noteq> MakeTag num WIRETYPE_END_GROUP" using e assms(1-3) by metis
  with False assms(1,2) n flat_message_fields [OF assms(4), of "d - 1"] show ?thesis
    by (subst flat_message.simps) (simp add: flat_tag_write flat_message_end del: One_nat_def)
qed

end
