(* ===== verification/Wire_Copy.thy ===== *)
theory Wire_Copy
  imports Wire_Skip Output_Client
begin

unbundle bit_operations_syntax

section \<open>Copying unknown fields to an output\<close>

text \<open>
  The version of \<open>SkipMessage\<close> that writes what it skips to a \<open>CodedOutputStream\<close>, for every input of
  \<open>coded_source\<close> and every output that satisfies \<open>wire_output\<close>: an encoder whose stream is
  never full. It stops where \<open>flat_message\<close> says, and has then written the copy that \<open>flat_message\<close>
  gives.
\<close>

subsection \<open>Little-endian numbers from their bytes\<close>

lemma le_val_inj: "length a = length b \<Longrightarrow> le_val a = le_val b \<Longrightarrow> a = b"
proof (induction a b rule: list_induct2)
  case (Cons x xs y ys)
  have l: "byte_val x < 256" "byte_val y < 256" by (rule byte_val_less)+
  have e: "byte_val x + 256 * le_val xs = byte_val y + 256 * le_val ys" using Cons.prems by simp
  from arg_cong [OF e, of "\<lambda>n. n mod 256"] l have h: "byte_val x = byte_val y" by simp
  with e have "le_val xs = le_val ys" by simp
  with Cons.IH h show ?case by (simp add: byte_val_def)
qed simp

lemma le_val_bound: "le_val b < 256 ^ length b"
proof (induction b)
  case (Cons c b)
  have "byte_val c < 256" by (rule byte_val_less)
  moreover have "le_val b + 1 \<le> 256 ^ length b" using Cons.IH by simp
  then have "256 * (le_val b + 1) \<le> 256 * 256 ^ length b" by (rule mult_le_mono2)
  ultimately show ?case by simp
qed simp

lemma WriteLittleEndian_le_val:
  "length b = 4 \<Longrightarrow> WriteLittleEndian32ToArray (of_nat (le_val b)) = b"
  "length b = 8 \<Longrightarrow> WriteLittleEndian64ToArray (of_nat (le_val b)) = b"
proof -
  show "WriteLittleEndian32ToArray (of_nat (le_val b)) = b" if l: "length b = 4"
  proof (rule le_val_inj)
    have "le_val b < 2 ^ 32" using le_val_bound [of b] by (simp add: l)
    then show "le_val (WriteLittleEndian32ToArray (of_nat (le_val b))) = le_val b"
      by (simp add: WriteLittleEndian_val unsigned_of_nat take_bit_nat_eq_self_iff)
  qed (simp add: l)
  show "WriteLittleEndian64ToArray (of_nat (le_val b)) = b" if l: "length b = 8"
  proof (rule le_val_inj)
    have "le_val b < 2 ^ 64" using le_val_bound [of b] by (simp add: l)
    then show "le_val (WriteLittleEndian64ToArray (of_nat (le_val b))) = le_val b"
      by (simp add: WriteLittleEndian_val unsigned_of_nat take_bit_nat_eq_self_iff)
  qed (simp add: l)
qed

subsection \<open>The output\<close>

locale wire_output =
  fixes Out :: "'o output_stream" and wrote :: "string \<Rightarrow> 'o coded_output \<Rightarrow> bool"
  assumes out_varint32: "wrote w c \<Longrightarrow> \<exists>c'. WriteVarint32 Out v32 c = Some c' \<and> wrote (w @ UnsafeVarint32 v32) c'"
    and out_varint64: "wrote w c \<Longrightarrow> \<exists>c'. WriteVarint64 Out v64 c = Some c' \<and> wrote (w @ UnsafeVarint64 v64) c'"
    and out_fixed32: "wrote w c \<Longrightarrow> \<exists>c'. WriteLittleEndian32 Out v32 c = Some c' \<and> wrote (w @ WriteLittleEndian32ToArray v32) c'"
    and out_fixed64: "wrote w c \<Longrightarrow> \<exists>c'. WriteLittleEndian64 Out v64 c = Some c' \<and> wrote (w @ WriteLittleEndian64ToArray v64) c'"
    and out_string: "wrote w c \<Longrightarrow> \<exists>c'. coded_WriteString Out b c = Some c' \<and> wrote (w @ b) c'"

locale wire_copy = coded_source I okay rest data + wire_output Out wrote
  for I :: "'s input_stream" and okay and rest and data and Out :: "'o output_stream" and wrote
begin

text \<open>What was written, whether or not all went well.\<close>

definition copied :: "string \<Rightarrow> 'o coded_output \<Rightarrow> bool" where
  "copied w c \<longleftrightarrow> (\<exists>x. wrote (w @ x) c)"

lemma copiedI: "wrote (w @ x) c \<Longrightarrow> copied w c"
  by (auto simp: copied_def)

lemma copied_refl: "wrote w c \<Longrightarrow> copied w c"
  by (rule copiedI [of _ "[]"]) simp

lemma copied_append: "copied (w @ x) c \<Longrightarrow> copied w c"
  by (auto simp: copied_def)

lemma SkipField_out_value:
  assumes "J s" and "wrote w c" and "GetTagFieldNumber tag \<noteq> 0" and "GetTagWireType tag \<noteq> WIRETYPE_START_GROUP"
  shows "\<exists>b s' c'. SkipField_out_with little I Out skip tag s c = Some (b, s', c')
     \<and> value_outcome (flat_value tag (coded_avail data s)) s b s' \<and> copied w c'
     \<and> (\<forall>n out. flat_value tag (coded_avail data s) = Some (n, out) \<longrightarrow> wrote (w @ UnsafeVarint32 tag @ out) c')"
proof -
  let ?wt = "GetTagWireType tag" and ?b = "coded_avail data s"
  from out_varint32 [OF assms(2), of tag] obtain c1 where
    c1: "WriteVarint32 Out tag c = Some c1" "wrote (w @ UnsafeVarint32 tag) c1" by blast
  note w0 = copied_refl [OF assms(2)]
  consider (varint) "?wt = WIRETYPE_VARINT" | (fixed64) "?wt = WIRETYPE_FIXED64" | (bytes) "?wt = WIRETYPE_LENGTH_DELIMITED"
    | (fixed32) "?wt = WIRETYPE_FIXED32"
    | (other) "?wt \<notin> {WIRETYPE_VARINT, WIRETYPE_FIXED64, WIRETYPE_LENGTH_DELIMITED, WIRETYPE_START_GROUP, WIRETYPE_FIXED32}"
    using assms(4) by blast
  then show ?thesis
  proof cases
    case varint
    from assms(1) show ?thesis
    proof (cases rule: ReadVarint64_flat)
      case None
      with assms(3) varint w0 show ?thesis
        by (auto simp: SkipField_out_with_def flat_value_def value_outcome_def Let_def)
    next
      case (Some x n s')
      from out_varint64 [OF c1(2), of "of_nat x"] obtain c2 where
        "WriteVarint64 Out (of_nat x) c1 = Some c2" "wrote (w @ UnsafeVarint32 tag @ UnsafeVarint64 (of_nat x)) c2" by auto
      with Some assms(3) varint c1(1) copiedI show ?thesis
        by (auto simp: SkipField_out_with_def flat_value_def value_outcome_def Let_def)
    qed
  next
    case fixed64
    from assms(1) show ?thesis
    proof (cases rule: ReadLittleEndian64_flat [where little = little])
      case None
      with assms(3) fixed64 w0 show ?thesis
        by (auto simp: SkipField_out_with_def flat_value_def value_outcome_def Let_def wire_types)
    next
      case (Some s')
      from Some(3) have "WriteLittleEndian64ToArray (of_nat (le_val (take 8 ?b))) = take 8 ?b"
        by (intro WriteLittleEndian_le_val) simp
      with out_fixed64 [OF c1(2), of "of_nat (le_val (take 8 ?b))"] obtain c2 where
        "WriteLittleEndian64 Out (of_nat (le_val (take 8 ?b))) c1 = Some c2" "wrote (w @ UnsafeVarint32 tag @ take 8 ?b) c2" by auto
      with Some assms(3) fixed64 c1(1) copiedI show ?thesis
        by (auto simp: SkipField_out_with_def flat_value_def value_outcome_def Let_def wire_types)
    qed
  next
    case fixed32
    from assms(1) show ?thesis
    proof (cases rule: ReadLittleEndian32_flat [where little = little])
      case None
      with assms(3) fixed32 w0 show ?thesis
        by (auto simp: SkipField_out_with_def flat_value_def value_outcome_def Let_def wire_types)
    next
      case (Some s')
      from Some(3) have "WriteLittleEndian32ToArray (of_nat (le_val (take 4 ?b))) = take 4 ?b"
        by (intro WriteLittleEndian_le_val) simp
      with out_fixed32 [OF c1(2), of "of_nat (le_val (take 4 ?b))"] obtain c2 where
        "WriteLittleEndian32 Out (of_nat (le_val (take 4 ?b))) c1 = Some c2" "wrote (w @ UnsafeVarint32 tag @ take 4 ?b) c2" by auto
      with Some assms(3) fixed32 c1(1) copiedI show ?thesis
        by (auto simp: SkipField_out_with_def flat_value_def value_outcome_def Let_def wire_types)
    qed
  next
    case bytes
    from assms(1) show ?thesis
    proof (cases rule: ReadVarint32_flat)
      case None
      with assms(3) bytes w0 show ?thesis
        by (auto simp: SkipField_out_with_def flat_value_def value_outcome_def Let_def wire_types)
    next
      case (Some x n t)
      let ?l = "x mod 2 ^ 32"
      have a: "coded_avail data t = drop n ?b" using Some(4) by (simp add: stepped_def)
      have n: "n \<le> length ?b" using Some(3) by (auto simp: flat_varint_def dest: varint_len_le)
      from out_varint32 [OF c1(2), of "of_nat x"] obtain c2 where
        c2: "WriteVarint32 Out (of_nat x) c1 = Some c2" "wrote ((w @ UnsafeVarint32 tag) @ UnsafeVarint32 (of_nat x)) c2" by blast
      from ReadString_length [OF Some(2), of x] obtain b out s' where
        s': "ReadString I [] (to_i32 (uint (of_nat x :: 32 word))) t = Some (b, out, s')"
          "value_outcome (if ?l < 2 ^ 31 \<and> ?l \<le> length (drop n ?b) then Some (?l, out) else None) t b s'"
          "b \<longrightarrow> out = take ?l (drop n ?b)"
        unfolding a by blast
      from out_string [OF c2(2), of out] obtain c3 where
        c3: "coded_WriteString Out out c2 = Some c3" "wrote (((w @ UnsafeVarint32 tag) @ UnsafeVarint32 (of_nat x)) @ out) c3" by blast
      have v: "flat_value tag ?b = (if ?l < 2 ^ 31 \<and> ?l \<le> length (drop n ?b)
          then Some (n + ?l, UnsafeVarint32 (of_nat x) @ take ?l (drop n ?b)) else None)"
        using bytes Some(3) n by (auto simp: flat_value_def Let_def wire_types)
      have o: "value_outcome (flat_value tag ?b) s b s'"
        using s'(2) stepped_trans [OF Some(4)] unfolding v by (auto simp: value_outcome_def split: if_splits)
      have f: "SkipField_out_with little I Out skip tag s c = Some (b, s', if b then c3 else c2)"
        using assms(3) bytes Some(1) c1(1) c2(1) s'(1) c3(1) by (simp add: SkipField_out_with_def Let_def wire_types)
      have k: "copied w (if b then c3 else c2)" using copiedI c2(2) c3(2) by (auto simp: copied_def)
      have "wrote (w @ UnsafeVarint32 tag @ o') (if b then c3 else c2)" if "flat_value tag ?b = Some (m, o')" for m o'
        using that s'(2,3) c3(2) unfolding v by (auto simp: value_outcome_def split: if_splits)
      with f o k show ?thesis by (intro exI [of _ b] exI [of _ s'] exI [of _ "if b then c3 else c2"]) blast
    qed
  next
    case other
    then show ?thesis using assms w0
      by (intro exI [of _ False]) (auto simp: SkipField_out_with_def flat_value_def value_outcome_def Let_def wire_types)
  qed
qed

definition copy_outcome ::
  "flat_result \<Rightarrow> 's coded_input \<Rightarrow> string \<Rightarrow> bool \<Rightarrow> 's coded_input \<Rightarrow> 'o coded_output \<Rightarrow> bool" where
  "copy_outcome r s w b s' c' \<longleftrightarrow> message_outcome r s b s' \<and> copied w c'
     \<and> (\<forall>t m out. r = Some (t, m, out) \<longrightarrow> wrote (w @ out) c')"

lemma copy_outcome_after:
  assumes "stepped data n s u" and "copy_outcome r u (w @ out) b s' c'"
  shows "copy_outcome (flat_after n out r) s w b s' c'"
  using assms message_outcome_after [OF assms(1)] copied_append
  by (fastforce simp: copy_outcome_def flat_after_Some)

lemma SkipMessage_out_flat:
  assumes "J s" and "depth_left d s" and "wrote w c"
  shows "\<exists>b s' c'. SkipMessage_out little I Out s c = Some (b, s', c')
     \<and> copy_outcome (flat_message d (coded_avail data s)) s w b s' c'"
  using assms
proof (induction d "coded_avail data s" arbitrary: s w c rule: flat_message.induct)
  case (1 d)
  let ?b = "coded_avail data s"
  note w0 = copied_refl [OF 1(6)]
  from 1(4) show ?case
  proof (cases rule: ReadTag_flat)
    case (None s')
    with 1(6) w0 show ?thesis
      by (subst SkipMessage_out.simps, subst flat_message.simps) (auto simp: message_outcome_def copy_outcome_def)
  next
    case (Some tag t k)
    note tag = this
    note d = depth_left_stepped [OF tag(5), of d]
    have a: "coded_avail data t = drop k ?b" using tag(5) by (simp add: stepped_def)
    from out_varint32 [OF 1(6), of tag] obtain c1 where
      c1: "WriteVarint32 Out tag c = Some c1" "wrote (w @ UnsafeVarint32 tag) c1" by blast
    consider (ended) "tag = 0" | (end_group) "tag \<noteq> 0" "GetTagWireType tag = WIRETYPE_END_GROUP"
      | (zero) "tag \<noteq> 0" "GetTagWireType tag \<noteq> WIRETYPE_END_GROUP" "GetTagFieldNumber tag = 0"
      | (group) "tag \<noteq> 0" "GetTagFieldNumber tag \<noteq> 0" "GetTagWireType tag = WIRETYPE_START_GROUP"
      | (plain) "tag \<noteq> 0" "GetTagWireType tag \<noteq> WIRETYPE_END_GROUP" "GetTagFieldNumber tag \<noteq> 0"
          "GetTagWireType tag \<noteq> WIRETYPE_START_GROUP"
      by blast
    then show ?thesis
    proof cases
      case ended
      with tag 1(6) w0 show ?thesis
        by (subst SkipMessage_out.simps, subst flat_message.simps) (auto simp: message_outcome_def copy_outcome_def)
    next
      case end_group
      with tag c1 copiedI [OF c1(2)] show ?thesis
        by (subst SkipMessage_out.simps, subst flat_message.simps) (auto simp: message_outcome_def copy_outcome_def)
    next
      case zero
      with tag w0 show ?thesis
        by (subst SkipMessage_out.simps, subst flat_message.simps)
          (auto simp: message_outcome_def copy_outcome_def SkipField_out_with_def)
    next
      case plain
      from SkipField_out_value [OF tag(2) 1(6) plain(3,4), of little "SkipMessage_out little I Out"] obtain b u c2 where
        u: "SkipField_out_with little I Out (SkipMessage_out little I Out) tag t c = Some (b, u, c2)"
          "value_outcome (flat_value tag (drop k ?b)) t b u" "copied w c2"
          "\<And>n out. flat_value tag (drop k ?b) = Some (n, out) \<Longrightarrow> wrote (w @ UnsafeVarint32 tag @ out) c2"
        unfolding a by blast
      show ?thesis
      proof (cases "flat_value tag (drop k ?b)")
        case None
        with u tag plain show ?thesis
          by (subst SkipMessage_out.simps, subst flat_message.simps)
            (auto simp: message_outcome_def copy_outcome_def value_outcome_def)
      next
        case (Some p)
        obtain n out where p: "p = (n, out)" by (cases p)
        from u(2) Some p have n: "b" "J u" "stepped data n t u" by (auto simp: value_outcome_def)
        from u(4) Some p have c2: "wrote (w @ UnsafeVarint32 tag @ out) c2" by simp
        from stepped_trans [OF tag(5) n(3)] have kn: "stepped data (k + n) s u" .
        then have e: "drop (k + n) ?b = coded_avail data u" by (simp add: stepped_def)
        from 1(3) [OF tag(4) refl plain(1,2,3) plain(4) Some p [symmetric] e n(2) _ c2] depth_left_stepped [OF kn, of d] 1(5)
        obtain b' s' c' where s': "SkipMessage_out little I Out u c2 = Some (b', s', c')"
          "copy_outcome (flat_message d (coded_avail data u)) u (w @ UnsafeVarint32 tag @ out) b' s' c'" by blast
        from copy_outcome_after [OF kn s'(2)] tag u(1) n(1) plain Some p s'(1) e
        show ?thesis by (subst SkipMessage_out.simps, subst flat_message.simps) simp
      qed
    next
      case group
      then have ne: "GetTagWireType tag \<noteq> WIRETYPE_END_GROUP" by (simp add: wire_types)
      let ?e = "MakeTag (GetTagFieldNumber tag) WIRETYPE_END_GROUP"
      let ?t = "t\<lparr>ci_recursion_budget := int d - 1\<rparr>"
      from d 1(5) have dt: "depth_left d t" by simp
      show ?thesis
      proof (cases "d = 0")
        case True
        with IncrementRecursionDepth_left(1) [OF dt] group tag ne c1 copiedI [OF c1(2)] show ?thesis
          by (subst SkipMessage_out.simps, subst flat_message.simps)
            (auto simp: message_outcome_def copy_outcome_def SkipField_out_with_def wire_types)
      next
        case False
        have at: "drop k ?b = coded_avail data ?t" "J ?t" using a tag(2) by simp_all
        from 1(1) [OF tag(4) refl group(1) ne group(2,3) False at IncrementRecursionDepth_left(2) [OF dt False] c1(2)]
        obtain b u c2 where u: "SkipMessage_out little I Out ?t c1 = Some (b, u, c2)"
          "copy_outcome (flat_message (d - 1) (drop k ?b)) ?t (w @ UnsafeVarint32 tag) b u c2"
          unfolding at(1) by blast
        have f: "SkipField_out_with little I Out (SkipMessage_out little I Out) tag t c
            = Some (if b then (ci_last_tag u = ?e, DecrementRecursionDepth u, c2) else (False, u, c2))"
          using group ne False IncrementRecursionDepth_left(1) [OF dt] u(1) c1(1)
          by (simp add: SkipField_out_with_def Let_def wire_types LastTagWas_def)
        have cp: "copied w c2" using u(2) copied_append by (auto simp: copy_outcome_def)
        show ?thesis
        proof (cases "\<exists>n out. flat_message (d - 1) (drop k ?b) = Some (?e, Some n, out)")
          case False': False
          with u(2) flat_message_unread [of "d - 1" "drop k ?b"] end_tag_nonzero
          have "\<not> b \<or> ci_last_tag u \<noteq> ?e" "J u"
            by (fastforce simp: message_outcome_def copy_outcome_def split: option.splits)+
          with f tag group ne False False' cp show ?thesis
            by (subst SkipMessage_out.simps, subst flat_message.simps)
              (auto simp: message_outcome_def copy_outcome_def split: option.splits)
        next
          case True
          then obtain n out where n: "flat_message (d - 1) (drop k ?b) = Some (?e, Some n, out)" by blast
          with u(2) have v: "b" "ci_last_tag u = ?e" "J u" "stepped data n ?t u"
            and c2: "wrote (w @ UnsafeVarint32 tag @ out) c2" by (auto simp: message_outcome_def copy_outcome_def)
          let ?u = "DecrementRecursionDepth u"
          from stepped_trans [OF tag(5) DecrementRecursionDepth_left [OF dt v(4)]] have kn: "stepped data (k + n) s ?u" .
          then have e: "drop (k + n) ?b = coded_avail data ?u" by (simp add: stepped_def)
          from v(3) have "J ?u" by simp
          from False n have "(if d = 0 then None else flat_message (d - 1) (drop k ?b)) = Some (?e, Some n, out)" by simp
          from 1(2) [OF tag(4) refl group(1) ne group(2,3) this refl refl refl refl e \<open>J ?u\<close> _ c2]
            depth_left_stepped [OF kn, of d] 1(5)
          obtain b' s' c' where s': "SkipMessage_out little I Out ?u c2 = Some (b', s', c')"
            "copy_outcome (flat_message d (coded_avail data ?u)) ?u (w @ UnsafeVarint32 tag @ out) b' s' c'" by auto
          from copy_outcome_after [OF kn s'(2)] tag f v(1,2) group ne n False s'(1) e
          show ?thesis by (subst SkipMessage_out.simps, subst flat_message.simps) simp
        qed
      qed
    qed
  qed
qed

end

subsection \<open>Encoders whose stream is never full\<close>

locale endless_sink = eps_sink I inv written "\<lambda>k. False"
  for I :: "'o output_stream" and inv :: "'o \<Rightarrow> bool" and written :: "'o \<Rightarrow> string"
begin

definition encoded :: "int \<Rightarrow> string \<Rightarrow> 'o coded_output \<Rightarrow> bool" where
  "encoded sc w c \<longleftrightarrow> out_inv (length w) sc w c"

lemma out_inv_any: "out_inv N sc w c = out_inv M sc w c"
  by (simp add: out_inv_def eps_inv_def)

lemma encoded_step:
  assumes "outputs f (map Some b)" and "encoded sc w c"
  shows "\<exists>c'. f c = Some c' \<and> encoded sc (w @ b) c'"
proof -
  from assms(2) have "out_inv (length w + length b) sc w c" unfolding encoded_def using out_inv_any by blast
  with assms(1) obtain c' x where "f c = Some c'" "matches (map Some b) x" "out_inv (length w + length b) sc (w @ x) c'"
    unfolding outputs_def by (metis length_map order_refl)
  then show ?thesis by (auto simp: encoded_def matches_Some)
qed

lemma open_encoder:
  assumes "inv st" and "length fill = 32"
  obtains c where "CodedOutputStream I fill eager st = Some c" "encoded (int (length (written st))) (written st) c"
  using CodedOutputStream_inv [OF assms, of eager] by (auto simp: encoded_def)

lemma close_encoder:
  assumes "encoded sc w c"
  obtains c' n st where "coded_HadError I c = Some (False, c')" "coded_out_ByteCount I c' = Some n"
    "CodedOutputStream_destroy I c' = Some st" "inv st" "written st = w" "n = to_i32 (int (length w) - sc)"
  using session_end [OF assms [unfolded encoded_def] order_refl] by auto

end

sublocale endless_sink \<subseteq> wire_out: wire_output I "encoded sc" for sc
proof
  fix w and c :: "'o coded_output" and v32 v64 b
  assume w: "encoded sc w c"
  show "\<exists>c'. WriteVarint32 I v32 c = Some c' \<and> encoded sc (w @ UnsafeVarint32 v32) c'"
    using encoded_step [OF out_step_outputs [of "OutVarint32 v32" True, simplified] w] by (simp add: WriteVarint32ToArray_def)
  show "\<exists>c'. WriteVarint64 I v64 c = Some c' \<and> encoded sc (w @ UnsafeVarint64 v64) c'"
    using encoded_step [OF out_step_outputs [of "OutVarint64 v64" True, simplified] w] by (simp add: WriteVarint64ToArray_def)
  show "\<exists>c'. WriteLittleEndian32 I v32 c = Some c' \<and> encoded sc (w @ WriteLittleEndian32ToArray v32) c'"
    using encoded_step [OF out_step_outputs [of "OutFixed32 v32" True, simplified] w] by simp
  show "\<exists>c'. WriteLittleEndian64 I v64 c = Some c' \<and> encoded sc (w @ WriteLittleEndian64ToArray v64) c'"
    using encoded_step [OF out_step_outputs [of "OutFixed64 v64" True, simplified] w] by simp
  show "\<exists>c'. coded_WriteString I b c = Some c' \<and> encoded sc (w @ b) c'"
    using encoded_step [OF out_step_outputs [of "OutString b" True, simplified] w] by simp
qed

end
