(* ===== verification/Wire_Unknown.thy ===== *)
theory Wire_Unknown
  imports Wire_Fields Wire_Copy Output_Client_Streams Coded_Streams
begin

unbundle bit_operations_syntax

section \<open>Unknown fields, over the streams of the library\<close>

text \<open>
  Skipping and copying whole messages over the streams of the library. \<open>skip_session\<close> is a client that
  opens a \<open>CodedInputStream\<close>, skips a message and closes it, \<open>copy_session\<close> one that copies what it
  skips to a \<open>CodedOutputStream\<close>.
\<close>

definition skip_session :: "bool \<Rightarrow> 's input_stream \<Rightarrow> 's \<Rightarrow> (bool \<times> 32 word \<times> 's option) option" where
  "skip_session little I i = do {
     s \<leftarrow> CodedInputStream I i;
     (b, s) \<leftarrow> SkipMessage little I s;
     j \<leftarrow> coded_destroy I s;
     Some (b, ci_last_tag s, j) }"

text \<open>The result, whether the output failed, its byte count, and both streams.\<close>

definition copy_session ::
  "bool \<Rightarrow> 's input_stream \<Rightarrow> 'o output_stream \<Rightarrow> string \<Rightarrow> bool \<Rightarrow> 's \<Rightarrow> 'o \<Rightarrow> (bool \<times> bool \<times> int \<times> 's option \<times> 'o) option" where
  "copy_session little I Out fill eager i st = do {
     s \<leftarrow> CodedInputStream I i;
     c \<leftarrow> CodedOutputStream Out fill eager st;
     (b, s, c) \<leftarrow> SkipMessage_out little I Out s c;
     (e, c) \<leftarrow> coded_HadError Out c;
     n \<leftarrow> coded_out_ByteCount Out c;
     st \<leftarrow> CodedOutputStream_destroy Out c;
     j \<leftarrow> coded_destroy I s;
     Some (b, e, n, j, st) }"

context coded_source
begin

lemma CodedInputStream_open:
  assumes "okay i" and "rest i = data" and "is_ByteCount I i = 0"
  obtains s where "CodedInputStream I i = Some s" "J s" "CurrentPosition s = 0" "ci_input s \<noteq> None"
    "coded_avail data s = take (nat INT_MAX) data" "depth_left 100 s"
  using CodedInputStream_inv [OF assms] by (auto simp: depth_left_def default_recursion_limit_def INT_MAX_def)

lemma message_destroy:
  assumes "message_outcome r s b s'" and "CurrentPosition s = 0" and "ci_input s \<noteq> None"
  shows "\<exists>j. coded_destroy I s' = Some j
     \<and> (\<forall>t n out. r = Some (t, Some n, out) \<longrightarrow> (\<exists>j'. j = Some j' \<and> okay j' \<and> rest j' = drop n data))"
proof (cases "ci_input s'")
  case None
  with assms show ?thesis by (auto simp: message_outcome_def stepped_def coded_destroy_def)
next
  case (Some i)
  from assms(1) have "J s'" by (simp add: message_outcome_def)
  from coded_destroy_rest [OF this Some] assms show ?thesis by (auto simp: message_outcome_def stepped_def)
qed

text \<open>A session that skips, on any input.\<close>

lemma skip_session_flat:
  assumes "okay i" and "rest i = data" and "is_ByteCount I i = 0"
  defines "r \<equiv> flat_message 100 (take (nat INT_MAX) data)"
  shows "\<exists>t j. skip_session little I i = Some (r \<noteq> None, t, j)
     \<and> (\<forall>t' m out. r = Some (t', m, out) \<longrightarrow> t = t'
         \<and> (\<forall>n. m = Some n \<longrightarrow> (\<exists>j'. j = Some j' \<and> okay j' \<and> rest j' = drop n data)))"
proof -
  from assms(1-3) obtain s where s: "CodedInputStream I i = Some s" "J s" "CurrentPosition s = 0" "ci_input s \<noteq> None"
    "coded_avail data s = take (nat INT_MAX) data" "depth_left 100 s" by (rule CodedInputStream_open)
  from SkipMessage_flat [OF s(2,6), of little] obtain b s' where
    b: "SkipMessage little I s = Some (b, s')" "message_outcome r s b s'" unfolding s(5) r_def by blast
  from message_destroy [OF b(2) s(3,4)] obtain j where
    j: "coded_destroy I s' = Some j"
      "\<forall>t n out. r = Some (t, Some n, out) \<longrightarrow> (\<exists>j'. j = Some j' \<and> okay j' \<and> rest j' = drop n data)"
    by (elim exE conjE)
  have "b \<longleftrightarrow> r \<noteq> None" "\<And>t m out. r = Some (t, m, out) \<Longrightarrow> ci_last_tag s' = t"
    using b(2) by (auto simp: message_outcome_def split: option.splits)
  with s(1) b(1) j show ?thesis by (fastforce simp: skip_session_def)
qed

lemma flat_message_all:
  "list_all field_ok fs \<Longrightarrow> message_depth fs \<le> d \<Longrightarrow>
     flat_message d (message_bytes fs) = Some (0, Some (length (message_bytes fs)), message_bytes fs)"
  using flat_message_fields [of fs d "[]"] by simp

lemma skip_session_message:
  assumes "okay i" and "rest i = data" and "is_ByteCount I i = 0"
    and "data = message_bytes fs" and "list_all field_ok fs" and "int (length data) \<le> INT_MAX"
  shows "message_depth fs \<le> 100 \<Longrightarrow> \<exists>j. skip_session little I i = Some (True, 0, Some j) \<and> okay j \<and> rest j = []"
    and "100 < message_depth fs \<Longrightarrow> \<exists>t j. skip_session little I i = Some (False, t, j)"
proof -
  have d: "take (nat INT_MAX) data = message_bytes fs" using assms(4,6) by (simp del: length_concat)
  note s = skip_session_flat [OF assms(1-3), of little, unfolded d]
  show "\<exists>j. skip_session little I i = Some (True, 0, Some j) \<and> okay j \<and> rest j = []" if "message_depth fs \<le> 100"
    using s flat_message_all [OF assms(5) that] assms(4) by auto
  show "\<exists>t j. skip_session little I i = Some (False, t, j)" if "100 < message_depth fs"
    using s flat_message_deep [OF assms(5) that, of "[]"] by auto
qed

end

text \<open>A session that copies to an encoder whose stream is never full.\<close>

locale copying = coded_source I okay rest data + endless_sink Out inv written
  for I :: "'s input_stream" and okay and rest and data and Out :: "'o output_stream" and inv and written

sublocale copying \<subseteq> wire: wire_copy I okay rest data Out "encoded sc" for sc
  by unfold_locales

context copying
begin

lemma copy_session_flat:
  assumes "okay i" and "rest i = data" and "is_ByteCount I i = 0" and "inv st" and "length fill = 32"
  defines "r \<equiv> flat_message 100 (take (nat INT_MAX) data)"
  shows "\<exists>n j st'. copy_session little I Out fill eager i st = Some (r \<noteq> None, False, n, j, st') \<and> inv st'
     \<and> prefix (written st) (written st')
     \<and> (\<forall>t m out. r = Some (t, m, out) \<longrightarrow> written st' = written st @ out \<and> n = to_i32 (int (length out))
         \<and> (\<forall>k. m = Some k \<longrightarrow> (\<exists>j'. j = Some j' \<and> okay j' \<and> rest j' = drop k data)))"
proof -
  let ?sc = "int (length (written st))"
  from assms(1-3) obtain s where s: "CodedInputStream I i = Some s" "J s" "CurrentPosition s = 0" "ci_input s \<noteq> None"
    "coded_avail data s = take (nat INT_MAX) data" "depth_left 100 s" by (rule CodedInputStream_open)
  from assms(4,5) obtain c where c: "CodedOutputStream Out fill eager st = Some c" "encoded ?sc (written st) c"
    by (rule open_encoder)
  from wire.SkipMessage_out_flat [OF s(2,6) c(2), of little] obtain b s' c1 where
    b: "SkipMessage_out little I Out s c = Some (b, s', c1)" "wire.copy_outcome ?sc r s (written st) b s' c1"
    unfolding s(5) r_def by blast
  from b(2) have m: "message_outcome r s b s'" and cp: "wire.copied ?sc (written st) c1"
    and w: "\<And>t m out. r = Some (t, m, out) \<Longrightarrow> encoded ?sc (written st @ out) c1"
    by (simp_all add: wire.copy_outcome_def)
  obtain x where x: "encoded ?sc (written st @ x) c1" "\<And>t m out. r = Some (t, m, out) \<Longrightarrow> out = x"
  proof (cases r)
    case None
    with cp that show thesis by (auto simp: wire.copied_def)
  next
    case (Some p)
    with w that show thesis by (cases p) auto
  qed
  from x(1) obtain c2 n st' where
    e: "coded_HadError Out c1 = Some (False, c2)" "coded_out_ByteCount Out c2 = Some n"
      "CodedOutputStream_destroy Out c2 = Some st'" "inv st'" "written st' = written st @ x"
      "n = to_i32 (int (length (written st @ x)) - ?sc)" by (rule close_encoder)
  from message_destroy [OF m s(3,4)] obtain j where
    j: "coded_destroy I s' = Some j"
      "\<forall>t n out. r = Some (t, Some n, out) \<longrightarrow> (\<exists>j'. j = Some j' \<and> okay j' \<and> rest j' = drop n data)"
    by (elim exE conjE)
  have "b \<longleftrightarrow> r \<noteq> None" using m by (auto simp: message_outcome_def split: option.splits)
  then have "copy_session little I Out fill eager i st = Some (r \<noteq> None, False, n, j, st')"
    using s(1) c(1) b(1) e(1-3) j(1) by (simp add: copy_session_def)
  with e(4-6) x(2) j(2) show ?thesis by fastforce
qed

lemma copy_session_message:
  assumes "okay i" and "rest i = data" and "is_ByteCount I i = 0" and "inv st" and "length fill = 32"
    and "data = message_bytes fs" and "list_all field_ok fs" and "message_depth fs \<le> 100" and "int (length data) \<le> INT_MAX"
  shows "\<exists>j st'. copy_session little I Out fill eager i st = Some (True, False, int (length data), Some j, st')
     \<and> okay j \<and> rest j = [] \<and> inv st' \<and> written st' = written st @ data"
proof -
  have d: "take (nat INT_MAX) data = message_bytes fs" using assms(6,9) by (simp del: length_concat)
  have "to_i32 (int (length data)) = int (length data)" using assms(9) by (intro to_i32_id) (simp add: in_i32_def INT_MAX_def)
  with copy_session_flat [OF assms(1-5), of little eager, unfolded d flat_message_all [OF assms(7,8)]] assms(6)
  show ?thesis by (auto simp del: length_concat)
qed

end

subsection \<open>The streams\<close>

interpretation string_endless: endless_sink string_sink string_inv so_target
  by (intro endless_sink.intro string_encoder.eps_sink_axioms)

interpretation array_to_string: copying array_stream array_inv array_rest data string_sink string_inv so_target for data
  by (intro copying.intro coded_array.coded_source_axioms string_endless.endless_sink_axioms)

interpretation cord_endless: endless_sink "cord_sink A" "\<lambda>s. buffers_ok A \<and> cordout_inv s" cordout_written for A
  by (intro endless_sink.intro cord_encoder.eps_sink_axioms)

interpretation cord_to_cord: copying cord_stream cord_inv cord_rest data "cord_sink A"
    "\<lambda>s. buffers_ok A \<and> cordout_inv s" cordout_written for data A
  by (intro copying.intro coded_cord.coded_source_axioms cord_endless.endless_sink_axioms)

lemma array_open:
  "array_inv (ArrayInputStream data (int (length data)) block_size)"
  "array_rest (ArrayInputStream data (int (length data)) block_size) = data"
  "is_ByteCount array_stream (ArrayInputStream data (int (length data)) block_size) = 0"
  by simp_all

text \<open>A message with a varint, and a group that holds a string.\<close>

definition example_message :: "wire_field list" where
  "example_message = [FVarint 1 150, FGroup 2 [FBytes 3 ''hi'']]"

definition example_bytes :: string where
  "example_bytes = map char_of [8, 150, 1, 19, 26, 2, 104, 105, 20 :: nat]"

lemma example_message_bytes: "message_bytes example_message = example_bytes"
  by code_simp

lemma example_message_ok: "list_all field_ok example_message" "message_depth example_message = 1"
  by (simp_all add: example_message_def field_number_ok_def INT_MAX_def)

text \<open>C3. \<open>SkipMessage\<close> returns on every input, also a malicious one, over an array with any block
  size: it fails exactly where the reference on the flat bytes fails, with at most 100 nested groups.
  When it succeeds it has stopped at the same tag, and the array stream is left right behind the
  bytes that the reference took, unless the last tag could not be read.\<close>

theorem skip_returns_array:
  "\<exists>t j. skip_session little array_stream (ArrayInputStream data (int (length data)) block_size)
       = Some (flat_message 100 (take (nat INT_MAX) data) \<noteq> None, t, j)
     \<and> (\<forall>t' m out. flat_message 100 (take (nat INT_MAX) data) = Some (t', m, out) \<longrightarrow> t = t'
         \<and> (\<forall>n. m = Some n \<longrightarrow> map_option array_rest j = Some (drop n data)))"
  using coded_array.skip_session_flat [OF array_open, of little] by fastforce

lemma example_then_end_group:
  "flat_message 100 (example_bytes @ [char_of (28 :: nat), CHR ''z''])
     = Some (28, Some 10, example_bytes @ [char_of (28 :: nat)])"
proof -
  have t: "wf_WriteTagToArray 3 WIRETYPE_END_GROUP = [char_of (28 :: nat)]" "MakeTag 3 WIRETYPE_END_GROUP = 28" by code_simp+
  have "field_number_ok 3" by (simp add: field_number_ok_def)
  from flat_message_end [OF this, of 100 "''z''"]
    flat_message_fields [of example_message 100 "[char_of (28 :: nat), CHR ''z'']"]
  show ?thesis by (simp add: example_message_ok example_message_bytes t) (simp add: example_bytes_def)
qed

lemma skip_returns_array_witness:
  "\<exists>j. skip_session True array_stream (ArrayInputStream (example_bytes @ [char_of (28 :: nat), CHR ''z'']) 11 3)
         = Some (True, 28, j) \<and> map_option array_rest j = Some ''z''"
proof -
  let ?d = "example_bytes @ [char_of (28 :: nat), CHR ''z'']"
  have l: "int (length ?d) = 11" "take (nat INT_MAX) ?d = ?d" "drop 10 ?d = ''z''"
    by (simp_all add: example_bytes_def INT_MAX_def)
  from skip_returns_array [of True ?d 3, unfolded l example_then_end_group] l(3) show ?thesis by auto
qed

text \<open>\<open>SkipMessage\<close> over a cord, cut into chunks anywhere, takes a message of well-formed fields with
  groups nested up to 100 deep completely: it returns true, at the end of the input, and leaves
  nothing unread.\<close>

theorem skip_message_cord:
  assumes "cord_ok c" and "cord_content c = message_bytes fs" and "list_all field_ok fs" and "message_depth fs \<le> 100"
    and "int (length (cord_content c)) \<le> INT_MAX"
  shows "\<exists>j. skip_session little cord_stream (CordInputStream c) = Some (True, 0, Some j) \<and> cord_rest j = []"
proof -
  note o = CordInputStream_open [OF assms(1)]
  have "is_ByteCount cord_stream (CordInputStream c) = 0" using o(3) by simp
  from coded_cord.skip_session_message(1) [OF o(1,2) this assms(2,3,5,4), of little] show ?thesis by blast
qed

lemma skip_message_cord_witness:
  "\<exists>j. skip_session True cord_stream (CordInputStream (blocks_of_four example_bytes)) = Some (True, 0, Some j) \<and> cord_rest j = []"
proof -
  let ?c = "blocks_of_four example_bytes"
  have c: "cord_ok ?c" by (rule blocks_of_four_ok) (simp add: example_bytes_def)
  have e: "cord_content ?c = example_bytes" by (simp add: blocks_of_four_def)
  have "int (length (cord_content ?c)) \<le> INT_MAX" unfolding e by (simp add: example_bytes_def INT_MAX_def)
  with c show ?thesis
    by (intro skip_message_cord [of _ example_message]) (simp_all add: e example_message_bytes example_message_ok)
qed

text \<open>A tower of groups.\<close>

fun nested_groups :: "nat \<Rightarrow> wire_field" where
  "nested_groups 0 = FVarint 1 0"
| "nested_groups (Suc n) = FGroup 1 [nested_groups n]"

lemma nested_groups_facts:
  "field_ok (nested_groups n)" "field_depth (nested_groups n) = n" "length (wire_bytes (nested_groups n)) = 2 * n + 2"
proof -
  have t: "length (wf_WriteTagToArray 1 WIRETYPE_START_GROUP) = 1" "length (wf_WriteTagToArray 1 WIRETYPE_END_GROUP) = 1"
    "length (WriteUInt64ToArray 1 0) = 2" by code_simp+
  show "field_ok (nested_groups n)" "field_depth (nested_groups n) = n" "length (wire_bytes (nested_groups n)) = 2 * n + 2"
    by (induction n) (simp_all add: field_number_ok_def t)
qed

text \<open>C20. A message with more than 100 nested groups is refused by \<open>SkipMessage\<close>, whatever else it holds.\<close>

theorem skip_too_deep_array:
  assumes "list_all field_ok fs" and "100 < message_depth fs" and "int (length (message_bytes fs)) \<le> INT_MAX"
  shows "\<exists>t j. skip_session little array_stream
      (ArrayInputStream (message_bytes fs) (int (length (message_bytes fs))) block_size) = Some (False, t, j)"
  by (rule coded_array.skip_session_message(2) [OF array_open refl assms(1,3,2)])

lemma skip_too_deep_array_witness:
  "\<exists>t j. skip_session True array_stream
      (ArrayInputStream (message_bytes [nested_groups 101]) (int (length (message_bytes [nested_groups 101]))) 7)
    = Some (False, t, j)"
  using nested_groups_facts [of 101] by (intro skip_too_deep_array) (simp_all add: INT_MAX_def)

text \<open>C1. \<open>SkipMessage\<close> with an output copies the unknown fields: from an array with any block size to a
  string, it appends a message of well-formed fields to the target byte for byte, with no error and with
  the right byte count, and leaves nothing unread.\<close>

theorem copy_message_string:
  assumes "list_all field_ok fs" and "message_depth fs \<le> 100" and "int (length (message_bytes fs)) \<le> INT_MAX"
    and "length fill = 32" and "\<And>n. n \<le> so_grow st n"
  shows "\<exists>j st'. copy_session little array_stream string_sink fill eager
        (ArrayInputStream (message_bytes fs) (int (length (message_bytes fs))) block_size) st
      = Some (True, False, int (length (message_bytes fs)), Some j, st')
     \<and> array_rest j = [] \<and> so_target st' = so_target st @ message_bytes fs"
proof -
  have "string_inv st" using assms(5) by (simp add: string_inv_def)
  from array_to_string.copy_session_message [OF array_open this assms(4) refl assms(1-3)] show ?thesis by blast
qed

lemma copy_message_string_witness:
  "\<exists>j st'. copy_session True array_stream string_sink (replicate 32 (CHR ''?'')) True (ArrayInputStream example_bytes 9 2)
        \<lparr>so_target = ''a'', so_capacity = 2, so_grow = (\<lambda>n. n), so_fill = (\<lambda>_. CHR ''?'')\<rparr>
      = Some (True, False, 9, Some j, st')
     \<and> array_rest j = [] \<and> so_target st' = CHR ''a'' # example_bytes"
proof -
  have l: "int (length example_bytes) = 9" by (simp add: example_bytes_def)
  let ?t = "\<lparr>so_target = ''a'', so_capacity = 2, so_grow = (\<lambda>n. n), so_fill = (\<lambda>_. CHR ''?'')\<rparr>"
  have h: "list_all field_ok example_message" "message_depth example_message \<le> 100"
    "int (length (message_bytes example_message)) \<le> INT_MAX" "length (replicate 32 (CHR ''?'')) = 32" "\<And>n. n \<le> so_grow ?t n"
    unfolding example_message_bytes l by (simp_all add: example_message_ok INT_MAX_def)
  from copy_message_string [OF h, of True True 2] show ?thesis unfolding example_message_bytes l by simp
qed

subsection \<open>Unknown enum values\<close>

text \<open>A client that saves one unknown enum value.\<close>

definition unknown_enum_session ::
  "'o output_stream \<Rightarrow> string \<Rightarrow> bool \<Rightarrow> 32 word \<Rightarrow> 32 word \<Rightarrow> 'o \<Rightarrow> (bool \<times> 'o) option" where
  "unknown_enum_session Out fill eager field_number value st = do {
     c \<leftarrow> CodedOutputStream Out fill eager st;
     c \<leftarrow> CodedOutputStreamFieldSkipper_SkipUnknownEnum Out field_number value c;
     (e, c) \<leftarrow> coded_HadError Out c;
     st \<leftarrow> CodedOutputStream_destroy Out c;
     Some (e, st) }"

context endless_sink
begin

lemma unknown_enum_written:
  assumes "inv st" and "length fill = 32"
  shows "\<exists>st'. unknown_enum_session I fill eager num v st = Some (False, st') \<and> inv st'
     \<and> written st' = written st @ UnsafeVarint32 num @ UnsafeVarint64 (scast v)"
proof -
  let ?sc = "int (length (written st))"
  from assms obtain c where c: "CodedOutputStream I fill eager st = Some c" "encoded ?sc (written st) c"
    by (rule open_encoder)
  from wire_out.out_varint32 [OF c(2), of num] obtain c1 where
    c1: "WriteVarint32 I num c = Some c1" "encoded ?sc (written st @ UnsafeVarint32 num) c1" by blast
  from wire_out.out_varint64 [OF c1(2), of "scast v"] obtain c2 where
    c2: "WriteVarint64 I (scast v) c1 = Some c2"
      "encoded ?sc ((written st @ UnsafeVarint32 num) @ UnsafeVarint64 (scast v)) c2" by blast
  from c2(2) obtain c3 n st' where "coded_HadError I c2 = Some (False, c3)" "coded_out_ByteCount I c3 = Some n"
    "CodedOutputStream_destroy I c3 = Some st'" "inv st'"
    "written st' = (written st @ UnsafeVarint32 num) @ UnsafeVarint64 (scast v)" by (rule close_encoder)
  with c(1) c1(1) c2(1) show ?thesis
    by (simp add: unknown_enum_session_def CodedOutputStreamFieldSkipper_SkipUnknownEnum_def)
qed

end

text \<open>A small field number is no tag of a field.\<close>

lemma small_number_tag:
  assumes "num \<noteq> 0" and "num < 8" and "num \<noteq> 4"
  shows "flat_message d (UnsafeVarint32 num @ b) = None"
proof -
  have "drop_bit 3 num = 0"
    using low_type_bits(1) [OF assms(2)] by (intro bit_word_eqI) (fastforce simp: bit_simps)
  then have "GetTagFieldNumber num = 0" by (simp add: GetTagFieldNumber_def kTagTypeBits_def)
  moreover have "GetTagWireType num = num"
    using low_type_bits(2) [OF assms(2)] by (simp add: GetTagWireType_def kTagTypeMask_def kTagTypeBits_def)
  ultimately show ?thesis
    using assms by (subst flat_message.simps) (simp add: flat_tag_def wire_types)
qed



end
