(* ===== verification/Wire_Sizes.thy ===== *)
theory Wire_Sizes
  imports Wire_Laws Output_Client
begin

unbundle bit_operations_syntax

section \<open>Sizes and what is written\<close>

text \<open>
  A message is serialized in two passes: the first computes sizes, the second writes behind length
  prefixes that hold them. The two have to agree for every kind of field; for packed fields this
  includes the sums that are written for vector instructions.
\<close>

subsection \<open>Single fields\<close>

lemmas field_sizes_defs = WriteInt32ToArray_def WriteInt64ToArray_def WriteUInt32ToArray_def WriteUInt64ToArray_def
  WriteSInt32ToArray_def WriteSInt64ToArray_def WriteFixed32ToArray_def WriteFixed64ToArray_def WriteSFixed32ToArray_def
  WriteSFixed64ToArray_def WriteFloatToArray_def WriteDoubleToArray_def WriteBoolToArray_def WriteEnumToArray_def
  wf_WriteStringToArray_def WriteBytesToArray_def WriteFixed32NoTagToArray_def WriteFixed64NoTagToArray_def
  WriteSFixed32NoTagToArray_def WriteSFixed64NoTagToArray_def WriteFloatNoTagToArray_def WriteDoubleNoTagToArray_def
  WriteBoolNoTagToArray_def

lemma bool_size: "length (WriteVarint32ToArray (if v then 1 else 0)) = 1"
  by (simp add: WriteVarint32ToArray_def UnsafeVarint32_bytes varint_bytes_length)


subsection \<open>The zigzag code\<close>

lemma sint_sign:
  "sint (v :: 32 word) = (if bit v 31 then uint v - 2 ^ 32 else uint v)"
  "sint (w :: 64 word) = (if bit w 63 then uint w - 2 ^ 64 else uint w)"
proof -
  have "take_bit 32 (uint v) = uint v" "take_bit 64 (uint w) = uint w"
    using unsigned_less [of v, where ?'a = int] unsigned_less [of w, where ?'a = int]
    by (simp_all add: take_bit_int_eq_self)
  then show "sint v = (if bit v 31 then uint v - 2 ^ 32 else uint v)" "sint w = (if bit w 63 then uint w - 2 ^ 64 else uint w)"
    by (simp_all add: sint_uint signed_take_bit_eq_take_bit_minus bit_unsigned_iff)
qed

lemma int_top_bit:
  assumes "0 \<le> (k :: int)" and "k < 2 * m"
  shows "odd (k div m) \<longleftrightarrow> m \<le> k" and "2 * k mod (2 * m) = (if m \<le> k then 2 * k - 2 * m else 2 * k)"
proof -
  have m: "0 < m" using assms by linarith
  show "odd (k div m) \<longleftrightarrow> m \<le> k"
  proof (cases "m \<le> k")
    case True
    then have "k div m = 1" using assms by (intro int_div_pos_eq [of _ _ _ "k - m"]) simp_all
    with True show ?thesis by simp
  qed (use assms m in \<open>simp add: div_pos_pos_trivial\<close>)
  show "2 * k mod (2 * m) = (if m \<le> k then 2 * k - 2 * m else 2 * k)"
  proof (cases "m \<le> k")
    case True
    have "(2 * k - 2 * m) mod (2 * m) = 2 * k - 2 * m" using True assms by (intro mod_pos_pos_trivial) simp_all
    with True show ?thesis by simp
  qed (use assms m in simp)
qed

lemma top_bit: "bit (v :: 32 word) 31 \<longleftrightarrow> 2 ^ 31 \<le> uint v" "bit (w :: 64 word) 63 \<longleftrightarrow> 2 ^ 63 \<le> uint w"
proof -
  have "uint v < 2 * 2 ^ 31" "uint w < 2 * 2 ^ 63"
    using unsigned_less [of v, where ?'a = int] unsigned_less [of w, where ?'a = int] by simp_all
  moreover have "bit v 31 \<longleftrightarrow> odd (uint v div 2 ^ 31)" "bit w 63 \<longleftrightarrow> odd (uint w div 2 ^ 63)"
    using bit_unsigned_iff [of v 31, where ?'a = int] bit_unsigned_iff [of w 63, where ?'a = int] by (simp_all add: bit_iff_odd)
  ultimately show "bit v 31 \<longleftrightarrow> 2 ^ 31 \<le> uint v" "bit w 63 \<longleftrightarrow> 2 ^ 63 \<le> uint w"
    using int_top_bit(1) [of "uint v" "2 ^ 31"] int_top_bit(1) [of "uint w" "2 ^ 63"] by simp_all
qed

lemma uint_double:
  "uint (push_bit 1 v :: 32 word) = (if bit v 31 then 2 * uint v - 2 ^ 32 else 2 * uint v)"
  "uint (push_bit 1 w :: 64 word) = (if bit w 63 then 2 * uint w - 2 ^ 64 else 2 * uint w)"
proof -
  have e: "uint (push_bit 1 v) = 2 * uint v mod (2 * 2 ^ 31)" "uint (push_bit 1 w) = 2 * uint w mod (2 * 2 ^ 63)"
    unfolding unsigned_push_bit_eq unfolding take_bit_eq_mod push_bit_eq_mult by (simp_all add: mult.commute)
  have l: "uint v < 2 * 2 ^ 31" "uint w < 2 * 2 ^ 63"
    using unsigned_less [of v, where ?'a = int] unsigned_less [of w, where ?'a = int] by simp_all
  from top_bit(1) [of v] top_bit(2) [of w]
  show "uint (push_bit 1 v :: 32 word) = (if bit v 31 then 2 * uint v - 2 ^ 32 else 2 * uint v)"
    "uint (push_bit 1 w :: 64 word) = (if bit w 63 then 2 * uint w - 2 ^ 64 else 2 * uint w)"
    using int_top_bit(2) [of "uint v" "2 ^ 31"] int_top_bit(2) [of "uint w" "2 ^ 63"] l unfolding e by simp_all
qed

lemma uint_not: "uint (NOT v :: 32 word) = 2 ^ 32 - 1 - uint v" "uint (NOT w :: 64 word) = 2 ^ 64 - 1 - uint w"
proof -
  have "NOT v = - 1 - v" "NOT w = - 1 - w" by (simp_all add: not_eq_complement)
  moreover have "v \<le> -1" "w \<le> -1" by simp_all
  ultimately show "uint (NOT v :: 32 word) = 2 ^ 32 - 1 - uint v" "uint (NOT w :: 64 word) = 2 ^ 64 - 1 - uint w"
    by (simp_all add: uint_minus_simple_alt unsigned_minus_1_eq_mask mask_eq_exp_minus_1)
qed

lemma ZigZagEncode_uint:
  "uint (ZigZagEncode32 v) = (if 0 \<le> sint v then 2 * sint v else - 2 * sint v - 1)"
  "uint (ZigZagEncode64 w) = (if 0 \<le> sint w then 2 * sint w else - 2 * sint w - 1)"
proof -
  define p where "p = push_bit 1 v"
  define q where "q = push_bit 1 w"
  have "ZigZagEncode32 v = (if bit v 31 then NOT p else p)" "ZigZagEncode64 w = (if bit w 63 then NOT q else q)"
    unfolding ZigZagEncode32_def ZigZagEncode64_def signed_drop_bit_sign p_def [symmetric] q_def [symmetric] by simp_all
  moreover have "uint v < 2 ^ 32" "uint w < 2 ^ 64" "0 \<le> uint v" "0 \<le> uint w"
    using unsigned_less [of v, where ?'a = int] unsigned_less [of w, where ?'a = int] by simp_all
  ultimately show "uint (ZigZagEncode32 v) = (if 0 \<le> sint v then 2 * sint v else - 2 * sint v - 1)"
    "uint (ZigZagEncode64 w) = (if 0 \<le> sint w then 2 * sint w else - 2 * sint w - 1)"
    using uint_double(1) [of v] uint_double(2) [of w] by (auto simp: sint_sign uint_not p_def q_def)
qed

text \<open>C22. The zigzag code maps the signed numbers in the order 0, -1, 1, -2, ... to the unsigned ones, in 32 and
  64 bits over the whole range, so a number near zero has a short varint; decoding inverts it on both sides.\<close>

theorem zigzag_code:
  "uint (ZigZagEncode32 v) = (if 0 \<le> sint v then 2 * sint v else - 2 * sint v - 1)
   \<and> uint (ZigZagEncode64 w) = (if 0 \<le> sint w then 2 * sint w else - 2 * sint w - 1)
   \<and> ZigZagDecode32 (ZigZagEncode32 v) = v \<and> ZigZagDecode64 (ZigZagEncode64 w) = w
   \<and> ZigZagEncode32 (ZigZagDecode32 v) = v \<and> ZigZagEncode64 (ZigZagDecode64 w) = w"
  by (simp only: ZigZagEncode_uint ZigZag32 ZigZag64 ZigZag_inverse simp_thms)

subsection \<open>Packed fields\<close>

text \<open>The size pass of a client: the size of the whole field, and of its payload, which is cached.\<close>

fun packed_field_size :: "bool \<Rightarrow> bool \<Rightarrow> packed_values \<Rightarrow> nat \<Rightarrow> nat \<times> int" where
  "packed_field_size vec bsr (PackInt32 vs) tag_size = Int32SizeWithPackedTagSize vec bsr vs tag_size"
| "packed_field_size vec bsr (PackUInt32 vs) tag_size = UInt32SizeWithPackedTagSize vec bsr vs tag_size"
| "packed_field_size vec bsr (PackSInt32 vs) tag_size = SInt32SizeWithPackedTagSize vec bsr vs tag_size"
| "packed_field_size vec bsr (PackEnum vs) tag_size = EnumSizeWithPackedTagSize vec bsr vs tag_size"
| "packed_field_size vec bsr (PackInt64 ws) tag_size = Int64SizeWithPackedTagSize vec bsr ws tag_size"
| "packed_field_size vec bsr (PackUInt64 ws) tag_size = UInt64SizeWithPackedTagSize vec bsr ws tag_size"
| "packed_field_size vec bsr (PackSInt64 ws) tag_size = SInt64SizeWithPackedTagSize vec bsr ws tag_size"
| "packed_field_size vec bsr (PackFixed32 vs) tag_size =
     (tag_size + LengthDelimitedSize bsr (4 * length vs), to_i32 (int (4 * length vs)))"
| "packed_field_size vec bsr (PackFixed64 ws) tag_size =
     (tag_size + LengthDelimitedSize bsr (8 * length ws), to_i32 (int (8 * length ws)))"

lemma fold_sizes: "fold (\<lambda>x out. out + f x) xs (n :: nat) = n + sum_list (map f xs)"
  by (induction xs arbitrary: n) simp_all

lemma repeated_sizes:
  "length (packed_bytes (PackInt32 vs)) < 2 ^ 32 \<Longrightarrow> Int32Size_repeated vec bsr vs = length (packed_bytes (PackInt32 vs))"
  "length (packed_bytes (PackUInt32 vs)) < 2 ^ 32 \<Longrightarrow> UInt32Size_repeated vec bsr vs = length (packed_bytes (PackUInt32 vs))"
  "length (packed_bytes (PackSInt32 vs)) < 2 ^ 32 \<Longrightarrow> SInt32Size_repeated vec bsr vs = length (packed_bytes (PackSInt32 vs))"
  "length (packed_bytes (PackEnum vs)) < 2 ^ 32 \<Longrightarrow> EnumSize_repeated vec bsr vs = length (packed_bytes (PackEnum vs))"
  "length (packed_bytes (PackInt64 ws)) < 2 ^ 64 \<Longrightarrow> Int64Size_repeated vec bsr ws = length (packed_bytes (PackInt64 ws))"
  "length (packed_bytes (PackUInt64 ws)) < 2 ^ 64 \<Longrightarrow> UInt64Size_repeated vec bsr ws = length (packed_bytes (PackUInt64 ws))"
  "length (packed_bytes (PackSInt64 ws)) < 2 ^ 64 \<Longrightarrow> SInt64Size_repeated vec bsr ws = length (packed_bytes (PackSInt64 ws))"
  by (simp_all add: Int32Size_repeated_def UInt32Size_repeated_def SInt32Size_repeated_def EnumSize_repeated_def
      Int64Size_repeated_def UInt64Size_repeated_def SInt64Size_repeated_def VarintSize_array_value VarintSize64_array_value
      fold_sizes element_size_def [abs_def] number_sizes WriteInt32NoTagToArray_def WriteUInt32NoTagToArray_def WriteSInt32NoTagToArray_def
      WriteEnumNoTagToArray_def WriteInt64NoTagToArray_def WriteUInt64NoTagToArray_def WriteSInt64NoTagToArray_def
      WriteVarint32ToArray_def WriteVarint64ToArray_def WriteVarint32SignExtendedToArray_def length_concat o_def)

text \<open>The size of a length prefix that fits an \<open>int\<close>.\<close>

lemma length_prefix_size:
  assumes "n < 2 ^ 31"
  shows "Int32Size bsr (of_nat n) = length (UnsafeWriteSize (of_nat n))"
    and "VarintSize32 bsr (of_nat n) = length (UnsafeWriteSize (of_nat n))"
proof -
  have u: "unat (of_nat n :: 32 word) = n" using assms by (simp add: unsigned_of_nat take_bit_nat_eq_self_iff)
  define v :: "32 word" where "v = of_nat n"
  have "uint v = int n" using arg_cong [OF u, of int] by (simp add: v_def)
  then have "sint v = int n" using assms by (simp add: sint_sign(1) top_bit(1))
  then have "(scast v :: 64 word) = of_nat n" by (metis of_int_of_nat_eq of_int_sint)
  then have "unat (scast (of_nat n :: 32 word) :: 64 word) = n"
    using assms by (simp add: v_def unsigned_of_nat take_bit_nat_eq_self_iff)
  then show "Int32Size bsr (of_nat n) = length (UnsafeWriteSize (of_nat n))"
    by (simp add: number_sizes WriteInt32NoTagToArray_def WriteVarint32SignExtendedToArray_def WriteVarint64ToArray_def
        UnsafeVarint64_bytes UnsafeWriteSize_bytes u)
  show "VarintSize32 bsr (of_nat n) = length (UnsafeWriteSize (of_nat n))"
    by (simp add: VarintSize32_value UnsafeWriteSize_bytes UnsafeVarint32_bytes u)
qed

lemma cached_size:
  assumes "int n \<le> INT_MAX"
  shows "to_i32 (int n) = int n" and "n < 2 ^ 31"
  using assms by (auto intro!: to_i32_id simp: in_i32_def INT_MAX_def)

lemmas packed_size_defs = Int32SizeWithPackedTagSize_def UInt32SizeWithPackedTagSize_def SInt32SizeWithPackedTagSize_def
  EnumSizeWithPackedTagSize_def Int64SizeWithPackedTagSize_def UInt64SizeWithPackedTagSize_def SInt64SizeWithPackedTagSize_def

text \<open>The two parts of every packed size: the payload, and the prefix in front of it.\<close>

lemma packed_size_parts:
  assumes "int (length b) \<le> INT_MAX" and "n = length b"
  shows "(TagSize (push_bit 3 num) + n + Int32Size bsr (of_nat n), to_i32 (int n))
      = (length (delimited num (length b) @ b), int (length b))"
    and "(TagSize (push_bit 3 num) + LengthDelimitedSize bsr n, to_i32 (int n))
      = (length (delimited num (length b) @ b), int (length b))"
  using cached_size [OF assms(1)]
  by (simp_all add: assms(2) length_prefix_size LengthDelimitedSize_def delimited_def TagSize_type)

text \<open>C5. The size pass agrees with the writer for packed fields: for every element type, and for sums with or
  without vector instructions, the size of the field is the number of bytes that the encoder writes for
  it, and the cached size is the length prefix that it writes.\<close>

theorem packed_sizes_written:
  assumes "packed_ok p" and "int (length (packed_bytes p)) \<le> INT_MAX"
  shows "packed_field_size vec bsr p (TagSize (push_bit 3 num))
     = (length (out_bytes (OutPacked num p)), int (length (packed_bytes p)))"
proof -
  have 32: "length (packed_bytes p) < 2 ^ 32" "length (packed_bytes p) < 2 ^ 64"
    using cached_size(2) [OF assms(2)] by simp_all
  note parts = packed_size_parts [OF assms(2), of _ num bsr]
  show ?thesis
  proof (cases p)
    case (PackFixed32 vs)
    have "4 * length vs = length (packed_bytes p)"
      unfolding PackFixed32 packed_bytes.simps by (subst concat_map_length [of _ 4]) simp_all
    from parts(2) [OF this] PackFixed32 show ?thesis by (simp del: packed_bytes.simps)
  next
    case (PackFixed64 ws)
    have "8 * length ws = length (packed_bytes p)"
      unfolding PackFixed64 packed_bytes.simps by (subst concat_map_length [of _ 8]) simp_all
    from parts(2) [OF this] PackFixed64 show ?thesis by (simp del: packed_bytes.simps)
  qed (use assms(1) parts(1) [OF refl] 32 repeated_sizes in \<open>simp_all add: packed_size_defs Let_def del: packed_bytes.simps\<close>)
qed

lemma packed_sizes_written_witness:
  "packed_field_size True True (PackSInt32 (replicate 40 (-1))) (TagSize (push_bit 3 5)) = (42, 40)"
proof -
  let ?p = "PackSInt32 (replicate 40 (-1))"
  have one: "UnsafeVarint32 (ZigZagEncode32 (-1)) = [char_of (1 :: nat)]" by code_simp
  have c: "concat (replicate k [x]) = replicate k x" for k and x :: char by (induction k) simp_all
  have b: "packed_bytes ?p = replicate 40 (char_of (1 :: nat))" by (simp add: one c)
  have d: "length (delimited 5 40) = 2" by code_simp
  have h: "packed_ok ?p" "int (length (packed_bytes ?p)) \<le> INT_MAX"
    unfolding b by (simp_all add: INT_MAX_def)
  have "length (out_bytes (OutPacked 5 ?p)) = 42" unfolding out_bytes.simps b using d by (simp)
  with packed_sizes_written [OF h, of True True 5] show ?thesis unfolding b by simp
qed

end
