(* ===== verification/Wire_Values.thy ===== *)
theory Wire_Values
  imports Wire_Fields Wire_Copy Coded_Streams
begin

unbundle bit_operations_syntax

section \<open>Values that are written and read back\<close>

text \<open>
  Every reader of \<open>wire_format_lite\<close> against the writer of its type. \<open>value_read\<close>: on a decoder
  whose readable bytes start with the given ones, the reader returns the value and takes exactly
  these bytes. The rest is a client that knows the types of the fields it reads.
\<close>

lemma ucast_scast_32 [simp]: "ucast (scast (v :: 32 word) :: 64 word) = v"
  by (rule bit_word_eqI) (simp add: bit_simps)

lemma of_nat_unat_ucast: "(of_nat (unat (x :: 64 word)) :: 32 word) = ucast x"
  by (simp add: unsigned_of_nat word_eq_iff_unsigned)

context coded_source
begin

definition value_read :: "('v, 's) value_reader \<Rightarrow> 'v \<Rightarrow> string \<Rightarrow> bool" where
  "value_read rd v bs \<longleftrightarrow> (\<forall>s z. J s \<longrightarrow> coded_avail data s = bs @ z \<longrightarrow>
     (\<exists>s'. rd I s = Some (Some v, s') \<and> J s' \<and> stepped data (length bs) s s'))"

lemma value_readD:
  assumes "value_read rd v bs" and "J s" and "coded_avail data s = bs @ z"
  obtains s' where "rd I s = Some (Some v, s')" and "J s'" and "stepped data (length bs) s s'" and "coded_avail data s' = z"
proof -
  obtain s' where s': "rd I s = Some (Some v, s')" "J s'" "stepped data (length bs) s s'"
    using assms unfolding value_read_def by blast
  then have "coded_avail data s' = z" using assms(3) by (simp add: stepped_def)
  with s' show thesis by (rule that)
qed

lemma ReadVarint32_value:
  "value_read (\<lambda>I s. map_option checked (ReadVarint32 I s)) v (UnsafeVarint32 v)"
  "value_read (\<lambda>I s. map_option checked (ReadVarint32 I s)) (ucast x) (UnsafeVarint64 x)"
  unfolding value_read_def
proof (intro allI impI)
  fix s z
  assume s: "J s" "coded_avail data s = UnsafeVarint32 v @ z"
  from s(1) show "\<exists>s'. map_option checked (ReadVarint32 I s) = Some (Some v, s') \<and> J s' \<and> stepped data (length (UnsafeVarint32 v)) s s'"
    by (cases rule: ReadVarint32_flat) (auto simp: s(2))
next
  show "\<forall>s z. J s \<longrightarrow> coded_avail data s = UnsafeVarint64 x @ z \<longrightarrow>
      (\<exists>s'. map_option checked (ReadVarint32 I s) = Some (Some (ucast x), s') \<and> J s' \<and> stepped data (length (UnsafeVarint64 x)) s s')"
  proof (intro allI impI)
    fix s z
    assume s: "J s" "coded_avail data s = UnsafeVarint64 x @ z"
    from s(1) show "\<exists>s'. map_option checked (ReadVarint32 I s) = Some (Some (ucast x), s') \<and> J s' \<and> stepped data (length (UnsafeVarint64 x)) s s'"
      by (cases rule: ReadVarint32_flat) (auto simp: s(2) of_nat_unat_ucast)
  qed
qed

lemma ReadVarint64_value: "value_read (\<lambda>I s. map_option checked (ReadVarint64 I s)) x (UnsafeVarint64 x)"
  "value_read (\<lambda>I s. map_option checked (ReadVarint64 I s)) (ucast v) (UnsafeVarint32 v)"
  unfolding value_read_def
proof (intro allI impI)
  fix s z
  assume s: "J s" "coded_avail data s = UnsafeVarint64 x @ z"
  from s(1) show "\<exists>s'. map_option checked (ReadVarint64 I s) = Some (Some x, s') \<and> J s' \<and> stepped data (length (UnsafeVarint64 x)) s s'"
    by (cases rule: ReadVarint64_flat) (auto simp: s(2))
next
  show "\<forall>s z. J s \<longrightarrow> coded_avail data s = UnsafeVarint32 v @ z \<longrightarrow>
      (\<exists>s'. map_option checked (ReadVarint64 I s) = Some (Some (ucast v), s') \<and> J s' \<and> stepped data (length (UnsafeVarint32 v)) s s')"
  proof (intro allI impI)
    fix s z
    assume s: "J s" "coded_avail data s = UnsafeVarint32 v @ z"
    from s(1) show "\<exists>s'. map_option checked (ReadVarint64 I s) = Some (Some (ucast v), s') \<and> J s' \<and> stepped data (length (UnsafeVarint32 v)) s s'"
      by (cases rule: ReadVarint64_flat) (auto simp: s(2) unsigned_ucast_eq word_eq_iff_unsigned unsigned_of_nat)
  qed
qed

lemma ReadLittleEndian_value:
  "value_read (ReadLittleEndian32 little) v (WriteLittleEndian32ToArray v)"
  "value_read (ReadLittleEndian64 little) w (WriteLittleEndian64ToArray w)"
  unfolding value_read_def
proof (intro allI impI)
  fix s z
  assume s: "J s" "coded_avail data s = WriteLittleEndian32ToArray v @ z"
  have l: "length (WriteLittleEndian32ToArray v) = 4" by (simp add: WriteLittleEndian32ToArray_def)
  then have "take 4 (coded_avail data s) = WriteLittleEndian32ToArray v" using s(2) by simp
  with s(1) l show "\<exists>s'. ReadLittleEndian32 little I s = Some (Some v, s') \<and> J s' \<and> stepped data (length (WriteLittleEndian32ToArray v)) s s'"
    by (cases rule: ReadLittleEndian32_flat [where little = little]) (auto simp: s(2) WriteLittleEndian_val)
next
  show "\<forall>s z. J s \<longrightarrow> coded_avail data s = WriteLittleEndian64ToArray w @ z \<longrightarrow>
      (\<exists>s'. ReadLittleEndian64 little I s = Some (Some w, s') \<and> J s' \<and> stepped data (length (WriteLittleEndian64ToArray w)) s s')"
  proof (intro allI impI)
    fix s z
    assume s: "J s" "coded_avail data s = WriteLittleEndian64ToArray w @ z"
    have l: "length (WriteLittleEndian64ToArray w) = 8" by (simp add: WriteLittleEndian64ToArray_def Let_def)
    then have "take 8 (coded_avail data s) = WriteLittleEndian64ToArray w" using s(2) by simp
    with s(1) l show "\<exists>s'. ReadLittleEndian64 little I s = Some (Some w, s') \<and> J s' \<and> stepped data (length (WriteLittleEndian64ToArray w)) s s'"
      by (cases rule: ReadLittleEndian64_flat [where little = little]) (auto simp: s(2) WriteLittleEndian_val)
  qed
qed

end

subsection \<open>Fields of known types\<close>

datatype field_value = Number32 "32 word" | Number64 "64 word" | Boolean bool | Text string

fun value_typed :: "FieldType \<Rightarrow> field_value \<Rightarrow> bool" where
  "value_typed TYPE_INT32 (Number32 v) \<longleftrightarrow> True"
| "value_typed TYPE_INT64 (Number64 v) \<longleftrightarrow> True"
| "value_typed TYPE_UINT32 (Number32 v) \<longleftrightarrow> True"
| "value_typed TYPE_UINT64 (Number64 v) \<longleftrightarrow> True"
| "value_typed TYPE_SINT32 (Number32 v) \<longleftrightarrow> True"
| "value_typed TYPE_SINT64 (Number64 v) \<longleftrightarrow> True"
| "value_typed TYPE_FIXED32 (Number32 v) \<longleftrightarrow> True"
| "value_typed TYPE_FIXED64 (Number64 v) \<longleftrightarrow> True"
| "value_typed TYPE_SFIXED32 (Number32 v) \<longleftrightarrow> True"
| "value_typed TYPE_SFIXED64 (Number64 v) \<longleftrightarrow> True"
| "value_typed TYPE_FLOAT (Number32 v) \<longleftrightarrow> True"
| "value_typed TYPE_DOUBLE (Number64 v) \<longleftrightarrow> True"
| "value_typed TYPE_BOOL (Boolean v) \<longleftrightarrow> True"
| "value_typed TYPE_ENUM (Number32 v) \<longleftrightarrow> True"
| "value_typed TYPE_STRING (Text b) \<longleftrightarrow> int (length b) \<le> INT_MAX"
| "value_typed TYPE_BYTES (Text b) \<longleftrightarrow> int (length b) \<le> INT_MAX"
| "value_typed _ _ \<longleftrightarrow> False"

fun write_field :: "FieldType \<Rightarrow> 32 word \<Rightarrow> field_value \<Rightarrow> string" where
  "write_field TYPE_INT32 num (Number32 v) = WriteInt32ToArray num v"
| "write_field TYPE_INT64 num (Number64 v) = WriteInt64ToArray num v"
| "write_field TYPE_UINT32 num (Number32 v) = WriteUInt32ToArray num v"
| "write_field TYPE_UINT64 num (Number64 v) = WriteUInt64ToArray num v"
| "write_field TYPE_SINT32 num (Number32 v) = WriteSInt32ToArray num v"
| "write_field TYPE_SINT64 num (Number64 v) = WriteSInt64ToArray num v"
| "write_field TYPE_FIXED32 num (Number32 v) = WriteFixed32ToArray num v"
| "write_field TYPE_FIXED64 num (Number64 v) = WriteFixed64ToArray num v"
| "write_field TYPE_SFIXED32 num (Number32 v) = WriteSFixed32ToArray num v"
| "write_field TYPE_SFIXED64 num (Number64 v) = WriteSFixed64ToArray num v"
| "write_field TYPE_FLOAT num (Number32 v) = WriteFloatToArray num v"
| "write_field TYPE_DOUBLE num (Number64 v) = WriteDoubleToArray num v"
| "write_field TYPE_BOOL num (Boolean v) = WriteBoolToArray num v"
| "write_field TYPE_ENUM num (Number32 v) = WriteEnumToArray num v"
| "write_field TYPE_STRING num (Text b) = wf_WriteStringToArray num b"
| "write_field TYPE_BYTES num (Text b) = WriteBytesToArray num b"
| "write_field _ num _ = []"

fun read_value :: "bool \<Rightarrow> FieldType \<Rightarrow> 's input_stream \<Rightarrow> 's coded_input \<Rightarrow> (field_value option \<times> 's coded_input) option" where
  "read_value little TYPE_INT32 I s = map_option (map_prod (map_option Number32) id) (ReadPrimitive_INT32 little I s)"
| "read_value little TYPE_INT64 I s = map_option (map_prod (map_option Number64) id) (ReadPrimitive_INT64 little I s)"
| "read_value little TYPE_UINT32 I s = map_option (map_prod (map_option Number32) id) (ReadPrimitive_UINT32 little I s)"
| "read_value little TYPE_UINT64 I s = map_option (map_prod (map_option Number64) id) (ReadPrimitive_UINT64 little I s)"
| "read_value little TYPE_SINT32 I s = map_option (map_prod (map_option Number32) id) (ReadPrimitive_SINT32 little I s)"
| "read_value little TYPE_SINT64 I s = map_option (map_prod (map_option Number64) id) (ReadPrimitive_SINT64 little I s)"
| "read_value little TYPE_FIXED32 I s = map_option (map_prod (map_option Number32) id) (ReadPrimitive_FIXED32 little I s)"
| "read_value little TYPE_FIXED64 I s = map_option (map_prod (map_option Number64) id) (ReadPrimitive_FIXED64 little I s)"
| "read_value little TYPE_SFIXED32 I s = map_option (map_prod (map_option Number32) id) (ReadPrimitive_SFIXED32 little I s)"
| "read_value little TYPE_SFIXED64 I s = map_option (map_prod (map_option Number64) id) (ReadPrimitive_SFIXED64 little I s)"
| "read_value little TYPE_FLOAT I s = map_option (map_prod (map_option Number32) id) (ReadPrimitive_FLOAT little I s)"
| "read_value little TYPE_DOUBLE I s = map_option (map_prod (map_option Number64) id) (ReadPrimitive_DOUBLE little I s)"
| "read_value little TYPE_BOOL I s = map_option (map_prod (map_option Boolean) id) (ReadPrimitive_BOOL little I s)"
| "read_value little TYPE_ENUM I s = map_option (map_prod (map_option Number32) id) (ReadPrimitive_ENUM little I s)"
| "read_value little TYPE_STRING I s = map_option (map_prod (map_option Text) id) (wf_ReadString I s)"
| "read_value little TYPE_BYTES I s = map_option (map_prod (map_option Text) id) (wf_ReadBytes I s)"
| "read_value little _ I s = Some (None, s)"

text \<open>The client knows the number and the type of each field, and stops at any other tag.\<close>

primrec read_fields ::
  "bool \<Rightarrow> 's input_stream \<Rightarrow> (32 word \<times> FieldType) list \<Rightarrow> 's coded_input \<Rightarrow> (field_value list option \<times> 's coded_input) option" where
  "read_fields little I [] s = Some (Some [], s)"
| "read_fields little I (f # fs) s = do {
     (tag, s) \<leftarrow> ReadTag I s;
     if tag \<noteq> MakeTag (fst f) (WireTypeForFieldType (snd f)) then Some (None, s)
     else do {
       (r, s) \<leftarrow> read_value little (snd f) I s;
       case r of None \<Rightarrow> Some (None, s)
       | Some v \<Rightarrow> do { (vs, s) \<leftarrow> read_fields little I fs s; Some (map_option ((#) v) vs, s) } } }"

definition typed_session ::
  "bool \<Rightarrow> 's input_stream \<Rightarrow> (32 word \<times> FieldType) list \<Rightarrow> 's \<Rightarrow> (field_value list option \<times> 32 word \<times> 's option) option" where
  "typed_session little I schema i = do {
     s \<leftarrow> CodedInputStream I i;
     (vs, s) \<leftarrow> read_fields little I schema s;
     (tag, s) \<leftarrow> ReadTag I s;
     j \<leftarrow> coded_destroy I s;
     Some (vs, tag, j) }"

lemma read_value_fun:
  "read_value little TYPE_INT32 = (\<lambda>I s. map_option (map_prod (map_option Number32) id) (ReadPrimitive_INT32 little I s))"
  "read_value little TYPE_INT64 = (\<lambda>I s. map_option (map_prod (map_option Number64) id) (ReadPrimitive_INT64 little I s))"
  "read_value little TYPE_UINT32 = (\<lambda>I s. map_option (map_prod (map_option Number32) id) (ReadPrimitive_UINT32 little I s))"
  "read_value little TYPE_UINT64 = (\<lambda>I s. map_option (map_prod (map_option Number64) id) (ReadPrimitive_UINT64 little I s))"
  "read_value little TYPE_SINT32 = (\<lambda>I s. map_option (map_prod (map_option Number32) id) (ReadPrimitive_SINT32 little I s))"
  "read_value little TYPE_SINT64 = (\<lambda>I s. map_option (map_prod (map_option Number64) id) (ReadPrimitive_SINT64 little I s))"
  "read_value little TYPE_FIXED32 = (\<lambda>I s. map_option (map_prod (map_option Number32) id) (ReadPrimitive_FIXED32 little I s))"
  "read_value little TYPE_FIXED64 = (\<lambda>I s. map_option (map_prod (map_option Number64) id) (ReadPrimitive_FIXED64 little I s))"
  "read_value little TYPE_SFIXED32 = (\<lambda>I s. map_option (map_prod (map_option Number32) id) (ReadPrimitive_SFIXED32 little I s))"
  "read_value little TYPE_SFIXED64 = (\<lambda>I s. map_option (map_prod (map_option Number64) id) (ReadPrimitive_SFIXED64 little I s))"
  "read_value little TYPE_FLOAT = (\<lambda>I s. map_option (map_prod (map_option Number32) id) (ReadPrimitive_FLOAT little I s))"
  "read_value little TYPE_DOUBLE = (\<lambda>I s. map_option (map_prod (map_option Number64) id) (ReadPrimitive_DOUBLE little I s))"
  "read_value little TYPE_BOOL = (\<lambda>I s. map_option (map_prod (map_option Boolean) id) (ReadPrimitive_BOOL little I s))"
  "read_value little TYPE_ENUM = (\<lambda>I s. map_option (map_prod (map_option Number32) id) (ReadPrimitive_ENUM little I s))"
  "read_value little TYPE_STRING = (\<lambda>I s. map_option (map_prod (map_option Text) id) (wf_ReadBytes I s))"
  "read_value little TYPE_BYTES = (\<lambda>I s. map_option (map_prod (map_option Text) id) (wf_ReadBytes I s))"
  by (simp_all add: fun_eq_iff wf_ReadString_def)

context coded_source
begin

lemma value_read_map:
  "value_read rd v bs \<Longrightarrow> value_read (\<lambda>I s. map_option (map_prod (map_option f) id) (rd I s)) (f v) bs"
  unfolding value_read_def by fastforce

lemma ReadString_value:
  assumes "int (length b) \<le> INT_MAX"
  shows "value_read wf_ReadBytes b (WriteStringWithSizeToArray b)"
  unfolding value_read_def
proof (intro allI impI)
  fix s z
  assume s: "J s" "coded_avail data s = WriteStringWithSizeToArray b @ z"
  let ?n = "of_nat (length b) :: 32 word"
  have n: "unat ?n = length b" "length b mod 2 ^ 32 = length b" "length b < 2 ^ 31"
    using assms by (simp_all add: INT_MAX_def unat_of_nat)
  have a: "coded_avail data s = UnsafeVarint32 ?n @ b @ z"
    using s(2) by (simp add: WriteStringWithSizeToArray_def WriteVarint32ToArray_def)
  from s(1) obtain s1 where s1: "ReadVarint32 I s = Some ((True, of_nat (length b)), s1)" "J s1"
    "stepped data (length (UnsafeVarint32 ?n)) s s1"
    by (cases rule: ReadVarint32_flat) (use a n in auto)
  have a1: "coded_avail data s1 = b @ z" using s1(3) a by (simp add: stepped_def)
  obtain o' out s2 where s2: "ReadString I [] (to_i32 (uint (of_nat (length b) :: 32 word))) s1 = Some (o', out, s2)"
    "value_outcome (Some (length b, out)) s1 o' s2" "o' \<longrightarrow> out = b"
    using ReadString_length [OF s1(2), of "length b"] n a1 by auto
  then have "o'" "J s2" "stepped data (length b) s1 s2" by (auto simp: value_outcome_def)
  with s2 s1 show "\<exists>s'. wf_ReadBytes I s = Some (Some b, s') \<and> J s' \<and> stepped data (length (WriteStringWithSizeToArray b)) s s'"
    using stepped_trans [OF s1(3), of "length b" s2]
    by (simp add: wf_ReadBytes_def WriteStringWithSizeToArray_def WriteVarint32ToArray_def add.commute)
qed

lemma reader_defs:
  "ReadPrimitive_INT32 little = (\<lambda>I s. map_option checked (ReadVarint32 I s))"
  "ReadPrimitive_INT64 little = (\<lambda>I s. map_option checked (ReadVarint64 I s))"
  "ReadPrimitive_UINT32 little = (\<lambda>I s. map_option checked (ReadVarint32 I s))"
  "ReadPrimitive_UINT64 little = (\<lambda>I s. map_option checked (ReadVarint64 I s))"
  "ReadPrimitive_ENUM little = (\<lambda>I s. map_option checked (ReadVarint32 I s))"
  "ReadPrimitive_FIXED32 little = ReadLittleEndian32 little" "ReadPrimitive_SFIXED32 little = ReadLittleEndian32 little"
  "ReadPrimitive_FIXED64 little = ReadLittleEndian64 little" "ReadPrimitive_SFIXED64 little = ReadLittleEndian64 little"
  by (simp_all add: fun_eq_iff ReadPrimitive_INT32_def ReadPrimitive_INT64_def ReadPrimitive_UINT32_def ReadPrimitive_UINT64_def
      ReadPrimitive_ENUM_def ReadPrimitive_FIXED32_def ReadPrimitive_SFIXED32_def ReadPrimitive_FIXED64_def ReadPrimitive_SFIXED64_def)

text \<open>The readers without a tag.\<close>

lemma primitive_values:
  "value_read (ReadPrimitive_INT32 little) v (WriteInt32NoTagToArray v)"
  "value_read (ReadPrimitive_INT64 little) w (WriteInt64NoTagToArray w)"
  "value_read (ReadPrimitive_UINT32 little) v (WriteUInt32NoTagToArray v)"
  "value_read (ReadPrimitive_UINT64 little) w (WriteUInt64NoTagToArray w)"
  "value_read (ReadPrimitive_SINT32 little) v (WriteSInt32NoTagToArray v)"
  "value_read (ReadPrimitive_SINT64 little) w (WriteSInt64NoTagToArray w)"
  "value_read (ReadPrimitive_FIXED32 little) v (WriteFixed32NoTagToArray v)"
  "value_read (ReadPrimitive_FIXED64 little) w (WriteFixed64NoTagToArray w)"
  "value_read (ReadPrimitive_SFIXED32 little) v (WriteSFixed32NoTagToArray v)"
  "value_read (ReadPrimitive_SFIXED64 little) w (WriteSFixed64NoTagToArray w)"
  "value_read (ReadPrimitive_FLOAT little) v (WriteFloatNoTagToArray v)"
  "value_read (ReadPrimitive_DOUBLE little) w (WriteDoubleNoTagToArray w)"
  "value_read (ReadPrimitive_BOOL little) b (WriteBoolNoTagToArray b)"
  "value_read (ReadPrimitive_ENUM little) v (WriteEnumNoTagToArray v)"
proof -
  note varint = WriteVarint32SignExtendedToArray_def WriteVarint64ToArray_def WriteVarint32ToArray_def
  show "value_read (ReadPrimitive_INT32 little) v (WriteInt32NoTagToArray v)"
    "value_read (ReadPrimitive_ENUM little) v (WriteEnumNoTagToArray v)"
    using ReadVarint32_value(2) [of "scast v"] by (simp_all add: reader_defs varint WriteInt32NoTagToArray_def WriteEnumNoTagToArray_def)
  show "value_read (ReadPrimitive_INT64 little) w (WriteInt64NoTagToArray w)"
    "value_read (ReadPrimitive_UINT64 little) w (WriteUInt64NoTagToArray w)"
    using ReadVarint64_value(1) by (simp_all add: reader_defs varint WriteInt64NoTagToArray_def WriteUInt64NoTagToArray_def)
  show "value_read (ReadPrimitive_UINT32 little) v (WriteUInt32NoTagToArray v)"
    using ReadVarint32_value(1) by (simp add: reader_defs varint WriteUInt32NoTagToArray_def)
  show "value_read (ReadPrimitive_SINT32 little) v (WriteSInt32NoTagToArray v)"
    using value_read_map [OF ReadVarint32_value(1) [of "ZigZagEncode32 v"], where f = ZigZagDecode32]
    by (simp add: ReadPrimitive_SINT32_def [abs_def] varint WriteSInt32NoTagToArray_def)
  show "value_read (ReadPrimitive_SINT64 little) w (WriteSInt64NoTagToArray w)"
    using value_read_map [OF ReadVarint64_value(1) [of "ZigZagEncode64 w"], where f = ZigZagDecode64]
    by (simp add: ReadPrimitive_SINT64_def [abs_def] varint WriteSInt64NoTagToArray_def)
  show "value_read (ReadPrimitive_FIXED32 little) v (WriteFixed32NoTagToArray v)"
    "value_read (ReadPrimitive_SFIXED32 little) v (WriteSFixed32NoTagToArray v)"
    using ReadLittleEndian_value(1) by (simp_all add: reader_defs WriteFixed32NoTagToArray_def WriteSFixed32NoTagToArray_def)
  show "value_read (ReadPrimitive_FIXED64 little) w (WriteFixed64NoTagToArray w)"
    "value_read (ReadPrimitive_SFIXED64 little) w (WriteSFixed64NoTagToArray w)"
    using ReadLittleEndian_value(2) by (simp_all add: reader_defs WriteFixed64NoTagToArray_def WriteSFixed64NoTagToArray_def)
  show "value_read (ReadPrimitive_FLOAT little) v (WriteFloatNoTagToArray v)"
    using value_read_map [OF ReadLittleEndian_value(1) [of little v], where f = DecodeFloat]
    by (simp add: ReadPrimitive_FLOAT_def [abs_def] WriteFloatNoTagToArray_def DecodeFloat_def EncodeFloat_def)
  show "value_read (ReadPrimitive_DOUBLE little) w (WriteDoubleNoTagToArray w)"
    using value_read_map [OF ReadLittleEndian_value(2) [of little w], where f = DecodeDouble]
    by (simp add: ReadPrimitive_DOUBLE_def [abs_def] WriteDoubleNoTagToArray_def DecodeDouble_def EncodeDouble_def)
  show "value_read (ReadPrimitive_BOOL little) b (WriteBoolNoTagToArray b)"
    using value_read_map [OF ReadVarint64_value(2) [of "if b then 1 else 0"], where f = "\<lambda>temp. temp \<noteq> 0"]
    by (cases b) (simp_all add: ReadPrimitive_BOOL_def [abs_def] varint WriteBoolNoTagToArray_def)
qed

text \<open>A field is its tag and the value.\<close>

lemma write_field_parts:
  assumes "value_typed t v"
  obtains bs where "write_field t num v = wf_WriteTagToArray num (WireTypeForFieldType t) @ bs"
    and "value_read (read_value little t) v bs"
  using assms
  by (cases "(t, v)" rule: value_typed.cases)
    (auto intro!: that value_read_map primitive_values ReadString_value
      simp: read_value_fun WireTypeForFieldType_def WriteInt32ToArray_def WriteInt64ToArray_def WriteUInt32ToArray_def
        WriteUInt64ToArray_def WriteSInt32ToArray_def WriteSInt64ToArray_def WriteFixed32ToArray_def WriteFixed64ToArray_def
        WriteSFixed32ToArray_def WriteSFixed64ToArray_def WriteFloatToArray_def WriteDoubleToArray_def WriteBoolToArray_def
        WriteEnumToArray_def wf_WriteStringToArray_def WriteBytesToArray_def simp del: read_value.simps)

lemma read_fields_written:
  assumes "J s" and "coded_avail data s = concat (map (\<lambda>((num, t), v). write_field t num v) fvs) @ z"
    and "\<forall>((num, t), v) \<in> set fvs. value_typed t v"
  shows "\<exists>s'. read_fields little I (map fst fvs) s = Some (Some (map snd fvs), s') \<and> J s'
    \<and> stepped data (length (concat (map (\<lambda>((num, t), v). write_field t num v) fvs))) s s'"
  using assms
proof (induction fvs arbitrary: s)
  case (Cons fv fvs)
  obtain num t v where fv: "fv = ((num, t), v)" by (metis prod.collapse)
  define w where "w = concat (map (\<lambda>((num, t), v). write_field t num v) fvs)"
  have "value_typed t v" using Cons.prems(3) fv by simp
  then obtain bs where bs: "write_field t num v = wf_WriteTagToArray num (WireTypeForFieldType t) @ bs"
    "value_read (read_value little t) v bs" by (rule write_field_parts)
  have a: "coded_avail data s = wf_WriteTagToArray num (WireTypeForFieldType t) @ bs @ w @ z"
    using Cons.prems(2) fv bs(1) by (simp add: w_def)
  from Cons.prems(1) obtain s1 where s1: "ReadTag I s = Some (MakeTag num (WireTypeForFieldType t), s1)" "J s1"
    "stepped data (length (wf_WriteTagToArray num (WireTypeForFieldType t))) s s1"
    by (cases rule: ReadTag_flat) (use a in \<open>auto simp: flat_tag_write\<close>)
  have "coded_avail data s1 = bs @ w @ z" using s1(3) a by (simp add: stepped_def)
  from value_readD [OF bs(2) s1(2) this] obtain s2 where s2: "read_value little t I s1 = Some (Some v, s2)" "J s2"
    "stepped data (length bs) s1 s2" "coded_avail data s2 = w @ z" .
  obtain s3 where s3: "read_fields little I (map fst fvs) s2 = Some (Some (map snd fvs), s3)" "J s3" "stepped data (length w) s2 s3"
    using Cons.IH [OF s2(2)] s2(4) Cons.prems(3) unfolding w_def by auto
  have "stepped data (length (wf_WriteTagToArray num (WireTypeForFieldType t)) + length bs + length w) s s3"
    using stepped_trans [OF stepped_trans [OF s1(3) s2(3)] s3(3)] .
  then have "stepped data (length (concat (map (\<lambda>((num, t), v). write_field t num v) (fv # fvs)))) s s3"
    using fv bs(1) by (simp add: w_def add.assoc del: length_concat)
  with s1(1) s2(1) s3(1,2) fv show ?case by simp
qed simp

lemma typed_session_written:
  assumes "okay i" and "rest i = data" and "is_ByteCount I i = 0"
    and "data = concat (map (\<lambda>((num, t), v). write_field t num v) fvs)"
    and "\<forall>((num, t), v) \<in> set fvs. value_typed t v" and "int (length data) \<le> INT_MAX"
  shows "\<exists>j. typed_session little I (map fst fvs) i = Some (Some (map snd fvs), 0, Some j) \<and> okay j \<and> rest j = []"
proof -
  obtain s where s: "CodedInputStream I i = Some s" "J s" "CurrentPosition s = 0" "ci_input s \<noteq> None"
    "coded_avail data s = take (nat INT_MAX) data"
    using CodedInputStream_inv [OF assms(1-3)] by (auto simp: INT_MAX_def)
  have a: "coded_avail data s = concat (map (\<lambda>((num, t), v). write_field t num v) fvs) @ []"
    using s(5) assms(4,6) by (simp del: length_concat)
  obtain s1 where s1: "read_fields little I (map fst fvs) s = Some (Some (map snd fvs), s1)" "J s1" "stepped data (length data) s s1"
    using read_fields_written [OF s(2) a assms(5)] assms(4) by blast
  have e: "coded_avail data s1 = []" using s1(3) a assms(4) by (simp add: stepped_def del: length_concat)
  from s1(2) obtain s2 where s2: "ReadTag I s1 = Some (0, s2)" "J s2" "stepped data 0 s1 s2"
    by (cases rule: ReadTag_flat) (use e in \<open>auto simp: flat_tag_def\<close>)
  have p: "CurrentPosition s2 = int (length data)" "ci_input s2 \<noteq> None"
    using s1(3) s2(3) s(3,4) by (simp_all add: stepped_def)
  then obtain i2 where "ci_input s2 = Some i2" by blast
  from coded_destroy_rest [OF s2(2) this] p(1) obtain j where "coded_destroy I s2 = Some (Some j)" "okay j" "rest j = []" by auto
  with s(1) s1(1) s2(1) show ?thesis by (simp add: typed_session_def)
qed

end

text \<open>C10. Fields of all scalar types and strings, written one after the other with their writers, are
  read back from an array with any block size, on hosts of either byte order: a client that
  knows numbers and types gets every tag it expects and every value, then the end of the input,
  and leaves the array stream there.
\<close>

theorem typed_fields_roundtrip:
  assumes "\<forall>((num, t), v) \<in> set fvs. value_typed t v"
    and "data = concat (map (\<lambda>((num, t), v). write_field t num v) fvs)" and "int (length data) \<le> INT_MAX"
  shows "\<exists>j. typed_session little array_stream (map fst fvs) (ArrayInputStream data (int (length data)) block_size)
      = Some (Some (map snd fvs), 0, Some j) \<and> array_rest j = []"
proof -
  have o: "array_inv (ArrayInputStream data (int (length data)) block_size)"
    "array_rest (ArrayInputStream data (int (length data)) block_size) = data"
    "is_ByteCount array_stream (ArrayInputStream data (int (length data)) block_size) = 0" by simp_all
  show ?thesis using coded_array.typed_session_written [OF o assms(2,1,3)] by blast
qed

lemma typed_fields_roundtrip_witness:
  "\<exists>j. typed_session True array_stream [(1, TYPE_STRING), (2, TYPE_SINT32), (3, TYPE_BOOL), (4, TYPE_DOUBLE)]
      (ArrayInputStream (wf_WriteStringToArray 1 ''x'' @ WriteSInt32ToArray 2 (- 5) @ WriteBoolToArray 3 True @ WriteDoubleToArray 4 7)
        (int (length (wf_WriteStringToArray 1 ''x'' @ WriteSInt32ToArray 2 (- 5) @ WriteBoolToArray 3 True @ WriteDoubleToArray 4 7))) 3)
      = Some (Some [Text ''x'', Number32 (- 5), Boolean True, Number64 7], 0, Some j) \<and> array_rest j = []"
proof -
  have "int (length (wf_WriteStringToArray 1 ''x'' @ WriteSInt32ToArray 2 (- 5) @ WriteBoolToArray 3 True @ WriteDoubleToArray 4 7)) \<le> INT_MAX"
    by code_simp
  then show ?thesis
    using typed_fields_roundtrip [of "[((1, TYPE_STRING), Text ''x''), ((2, TYPE_SINT32), Number32 (- 5)), ((3, TYPE_BOOL), Boolean True),
        ((4, TYPE_DOUBLE), Number64 7)]" _ True 3]
    by (simp add: INT_MAX_def)
qed

end
