(* ===== verification/Wire_Packed.thy ===== *)
theory Wire_Packed
  imports Wire_Values Coded_Output_Laws
begin

unbundle bit_operations_syntax

section \<open>Packed fields that are written and read back\<close>

text \<open>
  The readers of packed fields, \<open>ReadPackedPrimitive\<close> and \<open>ReadPackedFixedSizePrimitive\<close>, on what the
  encoder writes for every element type, in the middle of an input: the limit that they push stops
  them behind the last element, and is popped.
\<close>

context coded_source
begin

lemma size_flat:
  assumes "J s" and "coded_avail data s = UnsafeWriteSize (of_nat n) @ z" and "int n \<le> INT_MAX"
  obtains s' where "ReadVarintSizeAsInt I s = Some ((True, int n), s')" and "J s'"
    and "stepped data (length (UnsafeWriteSize (of_nat n :: 32 word))) s s'" and "coded_avail data s' = z"
proof -
  have u: "unat (of_nat n :: 32 word) = n" using assms(3) by (simp add: INT_MAX_def unat_of_nat)
  have "length (varint_bytes n) \<le> 10" using unat_length_32 [of "of_nat n"] u by simp
  then have v: "coded_varint data s = Some (n, length (UnsafeWriteSize (of_nat n :: 32 word)))"
    using assms(2) u by (simp add: coded_varint_flat UnsafeWriteSize_bytes flat_varint_bytes)
  have "n mod 2 ^ 64 = n" using assms(3) by (simp add: INT_MAX_def)
  then obtain s' where s': "ReadVarintSizeAsInt I s = Some ((True, int n), s')" "J s'"
    "coded_took data (int (length (UnsafeWriteSize (of_nat n :: 32 word)))) s True s'"
    using ReadVarintSizeAsInt_read [OF assms(1)] v assms(3) by (fastforce simp: size_outcome_def)
  from took_stepped [OF s'(3)] have t: "stepped data (length (UnsafeWriteSize (of_nat n :: 32 word))) s s'" .
  then have "coded_avail data s' = z" using assms(2) by (simp add: stepped_def)
  with s'(1,2) t show thesis by (rule that)
qed

text \<open>The loops over the elements.\<close>

lemma packed_read_loop_values:
  assumes "J s" and "coded_avail data s = concat (map w vs)" and "BytesUntilLimit s = int (length (concat (map w vs)))"
    and "\<And>v. v \<in> set vs \<Longrightarrow> value_read rd v (w v) \<and> w v \<noteq> []"
  shows "\<exists>s'. packed_read_loop rd I acc s = Some (True, acc @ vs, s') \<and> J s' \<and> stepped data (length (concat (map w vs))) s s'"
  using assms
proof (induction vs arbitrary: s acc)
  case Nil
  then show ?case by (subst packed_read_loop.simps) simp
next
  case (Cons v vs)
  have v: "value_read rd v (w v)" "0 < length (w v)" using Cons.prems(4) [of v] by auto
  have "coded_avail data s = w v @ concat (map w vs)" using Cons.prems(2) by simp
  from value_readD [OF v(1) Cons.prems(1) this] obtain s1 where s1: "rd I s = Some (Some v, s1)" "J s1"
    "stepped data (length (w v)) s s1" "coded_avail data s1 = concat (map w vs)" .
  have "ci_limit s \<noteq> INT_MAX" using Cons.prems(3) by (auto simp: BytesUntilLimit_def split: if_splits)
  then have "BytesUntilLimit s1 = int (length (concat (map w vs)))"
    using s1(3) Cons.prems(3) by (simp add: BytesUntilLimit_def stepped_def)
  from Cons.IH [OF s1(2,4) this Cons.prems(4), of "acc @ [v]"] obtain s2 where
    s2: "packed_read_loop rd I (acc @ [v]) s1 = Some (True, acc @ v # vs, s2)" "J s2" "stepped data (length (concat (map w vs))) s1 s2"
    by (auto simp del: length_concat)
  have "0 < BytesUntilLimit s" using Cons.prems(3) v(2) by (simp del: length_concat length_greater_0_conv)
  then show ?case
    using s1(1) s2 stepped_trans [OF s1(3) s2(3)] by (subst packed_read_loop.simps) simp
qed

lemma packed_read_n_values:
  assumes "J s" and "coded_avail data s = concat (map w vs) @ z" and "\<And>v. v \<in> set vs \<Longrightarrow> value_read rd v (w v)"
  shows "\<exists>s'. packed_read_n (length vs) rd I acc s = Some (True, acc @ vs, s') \<and> J s' \<and> stepped data (length (concat (map w vs))) s s'"
  using assms
proof (induction vs arbitrary: s acc)
  case (Cons v vs)
  have "coded_avail data s = w v @ concat (map w vs) @ z" using Cons.prems(2) by simp
  from value_readD [OF _ Cons.prems(1) this] Cons.prems(3) obtain s1 where s1: "rd I s = Some (Some v, s1)" "J s1"
    "stepped data (length (w v)) s s1" "coded_avail data s1 = concat (map w vs) @ z" by (metis list.set_intros(1))
  from Cons.IH [OF s1(2,4) Cons.prems(3), of "acc @ [v]"] obtain s2 where
    s2: "packed_read_n (length vs) rd I (acc @ [v]) s1 = Some (True, acc @ v # vs, s2)" "J s2" "stepped data (length (concat (map w vs))) s1 s2"
    by (auto simp del: length_concat)
  then show ?case using s1(1) stepped_trans [OF s1(3) s2(3)] by simp
qed simp

text \<open>The limits around the elements.\<close>

lemma avail_bounds:
  assumes "J s"
  shows "0 \<le> CurrentPosition s" and "coded_avail data s \<noteq> [] \<Longrightarrow> CurrentPosition s + int (length (coded_avail data s)) \<le> int (length data)"
    and "CurrentPosition s + int (length (coded_avail data s)) \<le> ci_limit s"
    and "CurrentPosition s + int (length (coded_avail data s)) \<le> ci_total_limit s"
    and "ci_limit s \<le> INT_MAX" and "ci_total_limit s \<le> INT_MAX"
proof -
  note d = coded_invD [OF assms]
  show l: "ci_limit s \<le> INT_MAX" "ci_total_limit s \<le> INT_MAX" using d(13) by (simp_all add: coded_ints_def)
  show "0 \<le> CurrentPosition s" by (rule d(4))
  have c: "CurrentPosition s \<le> closest_limit s" by (rule d(5))
  have n: "int (length (coded_avail data s)) \<le> closest_limit s - CurrentPosition s" using c by (simp add: coded_avail_def)
  then show "CurrentPosition s + int (length (coded_avail data s)) \<le> ci_limit s"
    "CurrentPosition s + int (length (coded_avail data s)) \<le> ci_total_limit s" by (auto simp: closest_limit_def)
  show "CurrentPosition s + int (length (coded_avail data s)) \<le> int (length data)" if "coded_avail data s \<noteq> []"
  proof -
    have "nat (CurrentPosition s) < length data" using that by (auto simp: coded_avail_def)
    then show ?thesis using d(4) by (simp add: coded_avail_def)
  qed
qed

lemma PushLimit_avail:
  assumes "J s" and "coded_avail data s = b @ z" and "CurrentPosition s + int (length b) < INT_MAX"
  defines "t \<equiv> snd (PushLimit (int (length b)) s)"
  shows "coded_avail data t = b" and "BytesUntilLimit t = int (length b)"
proof -
  note push = PushLimit_inv [OF assms(1), of "int (length b)", folded t_def]
  have p: "CurrentPosition s + int (length b) \<le> ci_limit s" "CurrentPosition s + int (length b) \<le> ci_total_limit s"
    using avail_bounds(3,4) [OF assms(1)] assms(2) by auto
  then have l: "ci_limit t = CurrentPosition s + int (length b)" using push(4) by simp
  then show "BytesUntilLimit t = int (length b)" using assms(3) push(3) by (simp add: BytesUntilLimit_def)
  have "closest_limit t = CurrentPosition s + int (length b)" "CurrentPosition s + int (length b) \<le> closest_limit s"
    using l p push(5) by (simp_all add: closest_limit_def)
  then have "coded_avail data t = take (length b) (coded_avail data s)" using push(3) by (simp add: coded_avail_def min_def)
  then show "coded_avail data t = b" using assms(2) by simp
qed

lemma nat_int_diff: "nat (a - (p + int n)) = nat (a - p) - n"
  by simp

lemma PopLimit_avail:
  assumes "J s" and "stepped data n (snd (PushLimit (int n) s)) t" and "J t" and "ci_input s \<noteq> None"
    and "CurrentPosition s + int n \<le> ci_limit s" and "CurrentPosition s + int n \<le> ci_total_limit s"
  shows "J (PopLimit (ci_limit s) t)" and "stepped data n s (PopLimit (ci_limit s) t)"
proof -
  note push = PushLimit_inv [OF assms(1), of "int n"]
  have t: "CurrentPosition t = CurrentPosition s + int n" "ci_total_limit t = ci_total_limit s" "ci_input t \<noteq> None"
    using assms(2,4) push(3,5,6) by (auto simp: stepped_def)
  have pop: "J (PopLimit (ci_limit s) t)" "CurrentPosition (PopLimit (ci_limit s) t) = CurrentPosition t"
    "ci_limit (PopLimit (ci_limit s) t) = ci_limit s" "ci_total_limit (PopLimit (ci_limit s) t) = ci_total_limit t"
    "ci_input (PopLimit (ci_limit s) t) = ci_input t"
    using PopLimit_inv [OF assms(3), of "ci_limit s"] t assms(5) avail_bounds(5) [OF assms(1)] by auto
  show "J (PopLimit (ci_limit s) t)" by (rule pop(1))
  have "0 \<le> CurrentPosition s" by (rule avail_bounds(1) [OF assms(1)])
  then have "coded_avail data (PopLimit (ci_limit s) t) = drop n (coded_avail data s)"
    using pop(2-4) t by (simp add: coded_avail_def closest_limit_def drop_take nat_add_distrib add.commute [of "nat _"] nat_int_diff)
  moreover have "ci_recursion_budget (PopLimit (ci_limit s) t) = ci_recursion_budget s"
    "ci_recursion_limit (PopLimit (ci_limit s) t) = ci_recursion_limit s"
    using assms(2) by (simp_all add: stepped_def PushLimit_def PopLimit_def RecomputeBufferLimits_def Let_def split: if_splits)
  moreover have "\<not> ci_legit_end (PopLimit (ci_limit s) t)" by (simp add: PopLimit_def)
  ultimately show "stepped data n s (PopLimit (ci_limit s) t)"
    using pop t assms(4) by (auto simp: stepped_def)
qed

lemma ReadPackedPrimitive_written:
  fixes w :: "'v \<Rightarrow> string"
  assumes "J s" and "ci_input s \<noteq> None" and "coded_avail data s = UnsafeWriteSize (of_nat (length (concat (map w vs)))) @ concat (map w vs) @ z"
    and "\<And>v. v \<in> set vs \<Longrightarrow> value_read rd v (w v) \<and> w v \<noteq> []" and "int (length data) < INT_MAX"
  shows "\<exists>s'. ReadPackedPrimitive rd I acc s = Some (True, acc @ vs, s') \<and> J s'
    \<and> stepped data (length (UnsafeWriteSize (of_nat (length (concat (map w vs))) :: 32 word) @ concat (map w vs))) s s'"
proof -
  define b where "b = concat (map w vs)"
  let ?n = "length (UnsafeWriteSize (of_nat (length b) :: 32 word))"
  have a: "coded_avail data s = UnsafeWriteSize (of_nat (length b)) @ b @ z" using assms(3) by (simp add: b_def del: length_concat)
  have p: "CurrentPosition s + int ?n + int (length b) < INT_MAX"
    using avail_bounds(2) [OF assms(1)] a assms(5) by (auto simp: UnsafeWriteSize_bytes)
  have "int (length b) \<le> INT_MAX" using p avail_bounds(1) [OF assms(1)] by linarith
  from size_flat [OF assms(1) a this] obtain s1 where s1: "ReadVarintSizeAsInt I s = Some ((True, int (length b)), s1)" "J s1"
    "stepped data ?n s s1" "coded_avail data s1 = b @ z" .
  define s2 where "s2 = snd (PushLimit (int (length b)) s1)"
  have p1: "CurrentPosition s1 + int (length b) < INT_MAX" using p s1(3) by (simp add: stepped_def)
  have i1: "ci_input s1 \<noteq> None" using s1(3) assms(2) by (simp add: stepped_def)
  have b1: "CurrentPosition s1 + int (length b) \<le> ci_limit s1" "CurrentPosition s1 + int (length b) \<le> ci_total_limit s1"
    using avail_bounds(3,4) [OF s1(2)] s1(4) by auto
  note a2 = PushLimit_avail [OF s1(2,4) p1, folded s2_def]
  have j2: "J s2" unfolding s2_def by (rule PushLimit_inv(2) [OF s1(2)])
  from packed_read_loop_values [OF j2 a2 [unfolded b_def] assms(4), of acc]
  obtain s3 where s3: "packed_read_loop rd I acc s2 = Some (True, acc @ vs, s3)" "J s3" "stepped data (length b) s2 s3"
    unfolding b_def by blast
  note pop = PopLimit_avail [OF s1(2) s3(3) [unfolded s2_def] s3(2) i1 b1]
  have "PushLimit (int (length b)) s1 = (ci_limit s1, s2)" by (simp add: s2_def PushLimit_def Let_def)
  then have "ReadPackedPrimitive rd I acc s = Some (True, acc @ vs, PopLimit (ci_limit s1) s3)"
    using s1(1) s3(1) by (simp add: ReadPackedPrimitive_def)
  then show ?thesis
    using pop(1) stepped_trans [OF s1(3) pop(2)] by (auto simp: b_def simp del: length_concat)
qed

text \<open>
  Elements of a fixed size. On a little-endian host they are copied at once when a limit says that they are
  there, and read one by one otherwise.
\<close>

lemma element_chunks_concat:
  assumes "\<And>v. v \<in> set vs \<Longrightarrow> length (w v) = k"
  shows "element_chunks k (length vs) (concat (map w vs) @ z) = map w vs"
  using assms
proof (induction vs)
  case (Cons v vs)
  have "[0..<length (v # vs)] = 0 # map Suc [0..<length vs]" by (simp add: map_Suc_upt upt_conv_Cons del: upt_Suc)
  then show ?case using Cons by (simp add: element_chunks_def o_def)
qed (simp add: element_chunks_def)

lemma length_concat_const: "(\<And>v. v \<in> set vs \<Longrightarrow> length (w v) = k) \<Longrightarrow> length (concat (map w vs)) = length vs * k"
  by (induction vs) auto

lemma ReadPackedFixedSizePrimitive_written:
  fixes w :: "'v \<Rightarrow> string"
  assumes "J s" and "coded_avail data s = UnsafeWriteSize (of_nat (length (concat (map w vs)))) @ concat (map w vs) @ z"
    and "\<And>v. value_read rd v (w v)" and "\<And>v. length (w v) = k" and "\<And>v. decode (w v) = v" and "0 < k"
    and "int (length data) \<le> INT_MAX"
  shows "\<exists>s'. ReadPackedFixedSizePrimitive little k decode rd I acc s = Some (True, acc @ vs, s') \<and> J s'
    \<and> stepped data (length (UnsafeWriteSize (of_nat (length (concat (map w vs))) :: 32 word) @ concat (map w vs))) s s'"
proof -
  define b where "b = concat (map w vs)"
  have l: "length b = length vs * k" unfolding b_def by (rule length_concat_const) (rule assms(4))
  let ?n = "length (UnsafeWriteSize (of_nat (length b) :: 32 word))"
  have a: "coded_avail data s = UnsafeWriteSize (of_nat (length b)) @ b @ z" using assms(2) by (simp add: b_def del: length_concat)
  have "int (length b) \<le> INT_MAX"
    using avail_bounds(1,2) [OF assms(1)] a assms(7) by (auto simp: UnsafeWriteSize_bytes)
  from size_flat [OF assms(1) a this] obtain s1 where s1: "ReadVarintSizeAsInt I s = Some ((True, int (length b)), s1)" "J s1"
    "stepped data ?n s s1" "coded_avail data s1 = b @ z" .
  have d: "int (length b) div int k = int (length vs)" "int (length vs) * int k = int (length b)"
    using assms(6) l by simp_all
  define bl where "bl = (if BytesUntilTotalBytesLimit s1 = -1 then BytesUntilLimit s1
    else min (BytesUntilTotalBytesLimit s1) (BytesUntilLimit s1))"
  have e: "ReadPackedFixedSizePrimitive little k decode rd I acc s =
    (if bl \<ge> int (length b) \<and> little
     then do { (ok, out, s) \<leftarrow> ReadRaw I (int (length b)) s1;
               Some (ok, if ok then acc @ map decode (element_chunks k (length vs) out) else acc, s) }
     else packed_read_n (length vs) rd I acc s1)"
    by (simp add: ReadPackedFixedSizePrimitive_def s1(1) d Let_def flip: bl_def cong: prod.case_cong if_cong)
  show ?thesis
  proof (cases "bl \<ge> int (length b) \<and> little")
    case True
    from s1(2) obtain s2 where s2: "ReadRaw I (int (length b)) s1 = Some (True, b, s2)" "J s2" "stepped data (length b) s1 s2"
    proof (cases rule: ReadRaw_bytes [where k = "length b"])
      case (Enough s')
      with took_stepped [OF Enough(3)] s1(4) that show thesis by simp
    next
      case (Short out s')
      with s1(4) show thesis by (simp add: coded_took_def)
    qed
    have "map decode (element_chunks k (length vs) b) = vs"
      using element_chunks_concat [of vs w k "[]"] assms(4,5) by (simp add: b_def o_def)
    then have "ReadPackedFixedSizePrimitive little k decode rd I acc s = Some (True, acc @ vs, s2)"
      using True s2(1) unfolding e by simp
    with s2(2) stepped_trans [OF s1(3) s2(3)] show ?thesis unfolding b_def length_append by blast
  next
    case False
    from packed_read_n_values [OF s1(2) s1(4) [unfolded b_def] assms(3), of acc] obtain s2 where
      s2: "packed_read_n (length vs) rd I acc s1 = Some (True, acc @ vs, s2)" "J s2" "stepped data (length b) s1 s2"
      unfolding b_def by blast
    then have "ReadPackedFixedSizePrimitive little k decode rd I acc s = Some (True, acc @ vs, s2)"
      using s2(1) unfolding e if_not_P [OF False] by simp
    with s2(2) stepped_trans [OF s1(3) s2(3)] show ?thesis unfolding b_def length_append by blast
  qed
qed

end

subsection \<open>A client that reads packed fields\<close>

text \<open>
  The values of one field, appended to those that the field has; \<open>packed_like p\<close> is the empty field
  of the type of \<open>p\<close>.
\<close>

fun read_packed ::
  "bool \<Rightarrow> 's input_stream \<Rightarrow> packed_values \<Rightarrow> 's coded_input \<Rightarrow> (bool \<times> packed_values \<times> 's coded_input) option" where
  "read_packed little I (PackInt32 vs) s = map_option (map_prod id (map_prod PackInt32 id)) (ReadPackedPrimitive (ReadPrimitive_INT32 little) I vs s)"
| "read_packed little I (PackUInt32 vs) s = map_option (map_prod id (map_prod PackUInt32 id)) (ReadPackedPrimitive (ReadPrimitive_UINT32 little) I vs s)"
| "read_packed little I (PackSInt32 vs) s = map_option (map_prod id (map_prod PackSInt32 id)) (ReadPackedPrimitive (ReadPrimitive_SINT32 little) I vs s)"
| "read_packed little I (PackEnum vs) s = map_option (map_prod id (map_prod PackEnum id)) (ReadPackedPrimitive (ReadPrimitive_ENUM little) I vs s)"
| "read_packed little I (PackInt64 vs) s = map_option (map_prod id (map_prod PackInt64 id)) (ReadPackedPrimitive (ReadPrimitive_INT64 little) I vs s)"
| "read_packed little I (PackUInt64 vs) s = map_option (map_prod id (map_prod PackUInt64 id)) (ReadPackedPrimitive (ReadPrimitive_UINT64 little) I vs s)"
| "read_packed little I (PackSInt64 vs) s = map_option (map_prod id (map_prod PackSInt64 id)) (ReadPackedPrimitive (ReadPrimitive_SINT64 little) I vs s)"
| "read_packed little I (PackFixed32 vs) s = map_option (map_prod id (map_prod PackFixed32 id))
     (ReadPackedFixedSizePrimitive little 4 (\<lambda>b. of_nat (le_val b)) (ReadPrimitive_FIXED32 little) I vs s)"
| "read_packed little I (PackFixed64 vs) s = map_option (map_prod id (map_prod PackFixed64 id))
     (ReadPackedFixedSizePrimitive little 8 (\<lambda>b. of_nat (le_val b)) (ReadPrimitive_FIXED64 little) I vs s)"

fun packed_like :: "packed_values \<Rightarrow> packed_values" where
  "packed_like (PackInt32 vs) = PackInt32 []"
| "packed_like (PackUInt32 vs) = PackUInt32 []"
| "packed_like (PackSInt32 vs) = PackSInt32 []"
| "packed_like (PackEnum vs) = PackEnum []"
| "packed_like (PackInt64 vs) = PackInt64 []"
| "packed_like (PackUInt64 vs) = PackUInt64 []"
| "packed_like (PackSInt64 vs) = PackSInt64 []"
| "packed_like (PackFixed32 vs) = PackFixed32 []"
| "packed_like (PackFixed64 vs) = PackFixed64 []"

primrec read_packed_fields ::
  "bool \<Rightarrow> 's input_stream \<Rightarrow> (32 word \<times> packed_values) list \<Rightarrow> 's coded_input
    \<Rightarrow> (packed_values list option \<times> 's coded_input) option" where
  "read_packed_fields little I [] s = Some (Some [], s)"
| "read_packed_fields little I (f # fs) s = do {
     (tag, s) \<leftarrow> ReadTag I s;
     if tag \<noteq> MakeTag (fst f) WIRETYPE_LENGTH_DELIMITED then Some (None, s)
     else do {
       (b, p, s) \<leftarrow> read_packed little I (snd f) s;
       if \<not> b then Some (None, s)
       else do { (ps, s) \<leftarrow> read_packed_fields little I fs s; Some (map_option ((#) p) ps, s) } } }"

definition packed_session ::
  "bool \<Rightarrow> 's input_stream \<Rightarrow> (32 word \<times> packed_values) list \<Rightarrow> 's \<Rightarrow> (packed_values list option \<times> 32 word \<times> 's option) option" where
  "packed_session little I schema i = do {
     s \<leftarrow> CodedInputStream I i;
     (ps, s) \<leftarrow> read_packed_fields little I schema s;
     (tag, s) \<leftarrow> ReadTag I s;
     j \<leftarrow> coded_destroy I s;
     Some (ps, tag, j) }"

definition packed_field :: "32 word \<Rightarrow> packed_values \<Rightarrow> string" where
  "packed_field num p = delimited num (length (packed_bytes p)) @ packed_bytes p"


context coded_source
begin

lemmas element_values = primitive_values [unfolded WriteInt32NoTagToArray_def WriteInt64NoTagToArray_def WriteUInt32NoTagToArray_def
  WriteUInt64NoTagToArray_def WriteSInt32NoTagToArray_def WriteSInt64NoTagToArray_def WriteFixed32NoTagToArray_def
  WriteFixed64NoTagToArray_def WriteEnumNoTagToArray_def WriteVarint32SignExtendedToArray_def WriteVarint32ToArray_def
  WriteVarint64ToArray_def]

lemma read_packed_written:
  assumes "J s" and "ci_input s \<noteq> None" and "coded_avail data s = UnsafeWriteSize (of_nat (length (packed_bytes p))) @ packed_bytes p @ z"
    and "int (length data) < INT_MAX"
  shows "\<exists>s'. read_packed little I (packed_like p) s = Some (True, p, s') \<and> J s'
    \<and> stepped data (length (UnsafeWriteSize (of_nat (length (packed_bytes p)) :: 32 word) @ packed_bytes p)) s s'"
proof -
  note varint = ReadPackedPrimitive_written [OF assms(1,2) _ _ assms(4), where acc = "[]" and z = z]
  note fixed = ReadPackedFixedSizePrimitive_written [OF assms(1), where acc = "[]" and z = z and little = little]
  have le: "length (WriteLittleEndian32ToArray v) = 4" "length (WriteLittleEndian64ToArray w) = 8" for v w
    by (simp_all add: WriteLittleEndian32ToArray_def WriteLittleEndian64ToArray_def Let_def)
  have n: "int (length data) \<le> INT_MAX" using assms(4) by simp
  show ?thesis
  proof (cases p)
    case (PackInt32 vs)
    with varint [of "\<lambda>v. UnsafeVarint64 (scast v)" vs "ReadPrimitive_INT32 little"] assms(3) element_values show ?thesis
      by (auto simp del: length_concat)
  next
    case (PackUInt32 vs)
    with varint [of UnsafeVarint32 vs "ReadPrimitive_UINT32 little"] assms(3) element_values show ?thesis
      by (auto simp del: length_concat)
  next
    case (PackSInt32 vs)
    with varint [of "\<lambda>v. UnsafeVarint32 (ZigZagEncode32 v)" vs "ReadPrimitive_SINT32 little"] assms(3) element_values show ?thesis
      by (auto simp del: length_concat)
  next
    case (PackEnum vs)
    with varint [of "\<lambda>v. UnsafeVarint64 (scast v)" vs "ReadPrimitive_ENUM little"] assms(3) element_values show ?thesis
      by (auto simp del: length_concat)
  next
    case (PackInt64 vs)
    with varint [of UnsafeVarint64 vs "ReadPrimitive_INT64 little"] assms(3) element_values show ?thesis
      by (auto simp del: length_concat)
  next
    case (PackUInt64 vs)
    with varint [of UnsafeVarint64 vs "ReadPrimitive_UINT64 little"] assms(3) element_values show ?thesis
      by (auto simp del: length_concat)
  next
    case (PackSInt64 vs)
    with varint [of "\<lambda>v. UnsafeVarint64 (ZigZagEncode64 v)" vs "ReadPrimitive_SINT64 little"] assms(3) element_values show ?thesis
      by (auto simp del: length_concat)
  next
    case (PackFixed32 vs)
    with fixed [of WriteLittleEndian32ToArray vs "ReadPrimitive_FIXED32 little" 4 "\<lambda>b. of_nat (le_val b)"] assms(3) element_values le n
    show ?thesis by (auto simp: WriteLittleEndian_val simp del: length_concat)
  next
    case (PackFixed64 vs)
    with fixed [of WriteLittleEndian64ToArray vs "ReadPrimitive_FIXED64 little" 8 "\<lambda>b. of_nat (le_val b)"] assms(3) element_values le n
    show ?thesis by (auto simp: WriteLittleEndian_val simp del: length_concat)
  qed
qed

lemma read_packed_fields_written:
  assumes "J s" and "ci_input s \<noteq> None" and "coded_avail data s = concat (map (\<lambda>(num, p). packed_field num p) fs) @ z"
    and "int (length data) < INT_MAX"
  shows "\<exists>s'. read_packed_fields little I (map (\<lambda>(num, p). (num, packed_like p)) fs) s = Some (Some (map snd fs), s') \<and> J s'
    \<and> stepped data (length (concat (map (\<lambda>(num, p). packed_field num p) fs))) s s'"
  using assms(1-3)
proof (induction fs arbitrary: s)
  case (Cons f fs)
  obtain num p where f: "f = (num, p)" by fastforce
  define w where "w = concat (map (\<lambda>(num, p). packed_field num p) fs)"
  let ?t = "wf_WriteTagToArray num WIRETYPE_LENGTH_DELIMITED" and ?b = "UnsafeWriteSize (of_nat (length (packed_bytes p)) :: 32 word)"
  have d: "packed_field num p = ?t @ ?b @ packed_bytes p"
    by (simp add: packed_field_def delimited_def wf_WriteTagToArray_def WriteTagToArray_def WriteVarint32ToArray_def MakeTag_def
        WIRETYPE_LENGTH_DELIMITED_def)
  have a: "coded_avail data s = ?t @ ?b @ packed_bytes p @ w @ z" using Cons.prems(3) f d by (simp add: w_def)
  from Cons.prems(1) obtain s1 where s1: "ReadTag I s = Some (MakeTag num WIRETYPE_LENGTH_DELIMITED, s1)" "J s1"
    "stepped data (length ?t) s s1"
    by (cases rule: ReadTag_flat) (use a in \<open>auto simp: flat_tag_write\<close>)
  have a1: "coded_avail data s1 = ?b @ packed_bytes p @ w @ z" "ci_input s1 \<noteq> None"
    using s1(3) a Cons.prems(2) by (simp_all add: stepped_def)
  obtain s2 where s2: "read_packed little I (packed_like p) s1 = Some (True, p, s2)" "J s2"
    "stepped data (length (?b @ packed_bytes p)) s1 s2"
    using read_packed_written [OF s1(2) a1(2,1) assms(4)] by blast
  have a2: "coded_avail data s2 = w @ z" "ci_input s2 \<noteq> None" using s2(3) a1 by (simp_all add: stepped_def)
  obtain s3 where s3: "read_packed_fields little I (map (\<lambda>(num, p). (num, packed_like p)) fs) s2 = Some (Some (map snd fs), s3)" "J s3"
    "stepped data (length w) s2 s3"
    using Cons.IH [OF s2(2) a2(2)] a2(1) unfolding w_def by blast
  have "stepped data (length ?t + length (?b @ packed_bytes p) + length w) s s3"
    using stepped_trans [OF stepped_trans [OF s1(3) s2(3)] s3(3)] .
  then have "stepped data (length (concat (map (\<lambda>(num, p). packed_field num p) (f # fs)))) s s3"
    using f d by (simp add: w_def add.assoc del: length_concat)
  with s1(1) s2(1) s3(1,2) f show ?case by simp
qed simp

lemma packed_session_written:
  assumes "okay i" and "rest i = data" and "is_ByteCount I i = 0"
    and "data = concat (map (\<lambda>(num, p). packed_field num p) fs)" and "int (length data) < INT_MAX"
  shows "\<exists>j. packed_session little I (map (\<lambda>(num, p). (num, packed_like p)) fs) i = Some (Some (map snd fs), 0, Some j)
    \<and> okay j \<and> rest j = []"
proof -
  obtain s where s: "CodedInputStream I i = Some s" "J s" "CurrentPosition s = 0" "ci_input s \<noteq> None"
    "coded_avail data s = take (nat INT_MAX) data"
    using CodedInputStream_inv [OF assms(1-3)] by (auto simp: INT_MAX_def)
  have a: "coded_avail data s = concat (map (\<lambda>(num, p). packed_field num p) fs) @ []"
    using s(5) assms(4,5) by (simp del: length_concat)
  obtain s1 where s1: "read_packed_fields little I (map (\<lambda>(num, p). (num, packed_like p)) fs) s = Some (Some (map snd fs), s1)" "J s1"
    "stepped data (length data) s s1"
    using read_packed_fields_written [OF s(2,4) a assms(5)] assms(4) by blast
  have e: "coded_avail data s1 = []" using s1(3) a assms(4) by (simp add: stepped_def del: length_concat)
  from s1(2) obtain s2 where s2: "ReadTag I s1 = Some (0, s2)" "J s2" "stepped data 0 s1 s2"
    by (cases rule: ReadTag_flat) (use e in \<open>auto simp: flat_tag_def\<close>)
  have p: "CurrentPosition s2 = int (length data)" "ci_input s2 \<noteq> None"
    using s1(3) s2(3) s(3,4) by (simp_all add: stepped_def)
  then obtain i2 where "ci_input s2 = Some i2" by blast
  from coded_destroy_rest [OF s2(2) this] p(1) obtain j where "coded_destroy I s2 = Some (Some j)" "okay j" "rest j = []" by auto
  with s(1) s1(1) s2(1) show ?thesis by (simp add: packed_session_def)
qed

end


lemma packed_commands_bytes:
  "concat (map out_bytes (map (\<lambda>(num, p). OutPacked num p) fs)) = map Some (concat (map (\<lambda>(num, p). packed_field num p) fs))"
  by (induction fs) (auto simp: packed_field_def)



end
