(* ===== verification/Descriptor_Symbols.thy ===== *)
theory Descriptor_Symbols
  imports Prelude "HOL-Library.Product_Lexorder" Runtime
begin


section \<open>Ordered containers and sorted vectors\<close>

text \<open>
  The ordered containers of the descriptor databases (\<open>btree_set\<close>, \<open>btree_map\<close>) and the
  algorithms on sorted vectors (\<open>std::lower_bound\<close>, \<open>std::upper_bound\<close>, \<open>std::binary_search\<close>,
  \<open>std::merge\<close>). A container is the list of its elements in iteration order; an iterator is an
  index, and the end iterator is the length. The comparison object is an argument. The standard
  defines \<open>upper_bound(value)\<close> as the furthest position such that no element before it is
  greater than the value, and \<open>lower_bound(value)\<close> as the furthest position such that all
  elements before it are less than the value.

  The lemmas hold in the locale \<open>keyed\<close>: the comparison of two elements is the comparison of
  their keys.
\<close>

definition std_lower_bound :: "('a \<Rightarrow> 'k \<Rightarrow> bool) \<Rightarrow> 'k \<Rightarrow> 'a list \<Rightarrow> nat" where
  "std_lower_bound lt v xs = length (takeWhile (\<lambda>e. lt e v) xs)"

definition std_upper_bound :: "('k \<Rightarrow> 'a \<Rightarrow> bool) \<Rightarrow> 'k \<Rightarrow> 'a list \<Rightarrow> nat" where
  "std_upper_bound lt v xs = length (takeWhile (\<lambda>e. \<not> lt v e) xs)"

definition std_binary_search :: "('a \<Rightarrow> 'k \<Rightarrow> bool) \<Rightarrow> ('k \<Rightarrow> 'a \<Rightarrow> bool) \<Rightarrow> 'k \<Rightarrow> 'a list \<Rightarrow> bool" where
  "std_binary_search lt lt' v xs =
     (let i = std_lower_bound lt v xs in i < length xs \<and> \<not> lt' v (xs ! i))"

text \<open>Insertion leaves an equivalent element as it is; the flag says whether it took place.\<close>

fun btree_insert :: "('a \<Rightarrow> 'a \<Rightarrow> bool) \<Rightarrow> 'a \<Rightarrow> 'a list \<Rightarrow> bool \<times> 'a list" where
  "btree_insert lt x [] = (True, [x])"
| "btree_insert lt x (y # ys) =
     (if lt y x then map_prod id ((#) y) (btree_insert lt x ys)
      else if lt x y then (True, x # y # ys)
      else (False, y # ys))"

text \<open>Of equivalent elements those of the first range come first.\<close>

fun std_merge :: "('a \<Rightarrow> 'a \<Rightarrow> bool) \<Rightarrow> 'a list \<Rightarrow> 'a list \<Rightarrow> 'a list" where
  "std_merge lt [] ys = ys"
| "std_merge lt xs [] = xs"
| "std_merge lt (x # xs) (y # ys) =
     (if lt y x then y # std_merge lt (x # xs) ys else x # std_merge lt xs (y # ys))"

text \<open>A map compares its keys.\<close>

definition by_key :: "('k \<Rightarrow> 'k \<Rightarrow> bool) \<Rightarrow> 'k \<times> 'v \<Rightarrow> 'k \<times> 'v \<Rightarrow> bool" where
  "by_key lt p q = lt (fst p) (fst q)"

subsection \<open>Laws\<close>

abbreviation strict :: "('a \<Rightarrow> 'k::linorder) \<Rightarrow> 'a list \<Rightarrow> bool" where
  "strict key xs \<equiv> sorted_wrt (\<lambda>a b. key a < key b) xs"

lemma strict_nth:
  "strict key xs \<Longrightarrow> i < j \<Longrightarrow> j < length xs \<Longrightarrow> key (xs ! i) < key (xs ! j)"
  by (simp add: sorted_wrt_iff_nth_less)

lemma strict_inj:
  assumes "strict key xs" and "a \<in> set xs" and "b \<in> set xs" and "key a = key b"
  shows "a = b"
  using assms by (induction xs) (simp, metis less_irrefl set_ConsD sorted_wrt.simps(2))

lemma strict_distinct: "strict key xs \<Longrightarrow> distinct xs"
  by (induction xs) auto

lemma filter_above:
  assumes "strict key (x # xs)" and "w \<le> key x"
  shows "filter (\<lambda>e. w \<le> key e) xs = xs" and "filter (\<lambda>e. w < key e) xs = xs"
    and "filter (\<lambda>e. key e \<le> w) xs = []"
  using assms by (auto simp: filter_id_conv filter_empty_conv)

lemma lower_bound_strict:
  assumes "strict key xs" and "\<forall>e \<in> set xs. lt e v \<longleftrightarrow> key e < w"
  shows "drop (std_lower_bound lt v xs) xs = filter (\<lambda>e. w \<le> key e) xs"
  using assms
proof (induction xs)
  case (Cons x xs)
  then show ?case using filter_above(1) [of key x xs w] by (auto simp: std_lower_bound_def not_less)
qed (simp add: std_lower_bound_def)

lemma upper_bound_strict:
  assumes "strict key xs" and "\<forall>e \<in> set xs. lt v e \<longleftrightarrow> w < key e"
  shows "take (std_upper_bound lt v xs) xs = filter (\<lambda>e. key e \<le> w) xs"
    and "drop (std_upper_bound lt v xs) xs = filter (\<lambda>e. w < key e) xs"
proof -
  have "take (std_upper_bound lt v xs) xs = filter (\<lambda>e. key e \<le> w) xs
      \<and> drop (std_upper_bound lt v xs) xs = filter (\<lambda>e. w < key e) xs"
    using assms
  proof (induction xs)
    case (Cons x xs)
    then show ?case using filter_above(2,3) [of key x xs w] by (auto simp: std_upper_bound_def not_less)
  qed (simp add: std_upper_bound_def)
  then show "take (std_upper_bound lt v xs) xs = filter (\<lambda>e. key e \<le> w) xs"
    and "drop (std_upper_bound lt v xs) xs = filter (\<lambda>e. w < key e) xs" by auto
qed

lemma drop_first:
  assumes "drop i xs = filter P xs"
  shows "(\<exists>e \<in> set xs. P e) \<longleftrightarrow> i < length xs"
proof -
  have "filter P xs = [] \<longleftrightarrow> length xs \<le> i" using assms by (metis drop_eq_Nil2)
  then show ?thesis by (auto simp: filter_empty_conv)
qed

text \<open>The element at the lower bound is the one with the key, if there is one.\<close>

lemma lower_bound_at:
  assumes "strict key xs" and "\<forall>e \<in> set xs. lt e v \<longleftrightarrow> key e < w" and "i = std_lower_bound lt v xs"
  shows "i < length xs \<and> key (xs ! i) = w \<longleftrightarrow> w \<in> key ` set xs"
    and "i < length xs \<Longrightarrow> w \<le> key (xs ! i)"
proof -
  have i: "drop i xs = filter (\<lambda>e. w \<le> key e) xs" using lower_bound_strict assms by metis
  show le: "w \<le> key (xs ! i)" if "i < length xs"
  proof -
    have "xs ! i \<in> set (drop i xs)" using that by (metis Cons_nth_drop_Suc list.set_intros(1))
    then show ?thesis using i by simp
  qed
  show "i < length xs \<and> key (xs ! i) = w \<longleftrightarrow> w \<in> key ` set xs"
  proof
    assume "w \<in> key ` set xs"
    then obtain e where e: "e \<in> set xs" "key e = w" by auto
    then have "e \<in> set (drop i xs)" using i by simp
    then obtain k where "k < length (drop i xs)" "drop i xs ! k = e" unfolding in_set_conv_nth by blast
    then obtain j where j: "i \<le> j" "j < length xs" "e = xs ! j" by (intro that [of "i + k"]) auto
    then show "i < length xs \<and> key (xs ! i) = w"
      using le e strict_nth [OF assms(1), of i j] by (cases "i = j") auto
  qed auto
qed

lemma btree_insert_result:
  assumes "strict key xs" and "\<forall>e \<in> set xs. (lt e x \<longleftrightarrow> key e < key x) \<and> (lt x e \<longleftrightarrow> key x < key e)"
    and "btree_insert lt x xs = (b, xs')"
  shows "(b \<longleftrightarrow> key x \<notin> key ` set xs) \<and> strict key xs' \<and> (b \<longrightarrow> set xs' = insert x (set xs)) \<and> (\<not> b \<longrightarrow> xs' = xs)"
  using assms
proof (induction xs arbitrary: b xs')
  case (Cons y ys)
  obtain c zs where r: "btree_insert lt x ys = (c, zs)" by fastforce
  have IH: "(c \<longleftrightarrow> key x \<notin> key ` set ys) \<and> strict key zs \<and> (c \<longrightarrow> set zs = insert x (set ys)) \<and> (\<not> c \<longrightarrow> zs = ys)"
    using Cons.IH [OF _ _ r] Cons.prems(1,2) by simp
  consider "key y < key x" | "key x < key y" | "key x = key y" by fastforce
  then show ?case
  proof cases
    case 1
    then have "b = c" "xs' = y # zs" using Cons.prems(2,3) r by (auto simp: map_prod_def)
    moreover have "strict key (y # zs)" using IH Cons.prems(1) 1 by (cases c) auto
    ultimately show ?thesis using IH 1 by auto
  next
    case 2
    then have "b" "xs' = x # y # ys" using Cons.prems(2,3) by auto
    moreover have "key x < key e" if "e \<in> set ys" for e using 2 that Cons.prems(1) by force
    ultimately show ?thesis using Cons.prems(1) 2 by fastforce
  qed (use Cons.prems in auto)
qed auto

lemma set_merge: "set (std_merge lt xs ys) = set xs \<union> set ys"
  by (induction lt xs ys rule: std_merge.induct) auto

lemma strict_merge:
  assumes "\<forall>x \<in> set xs. \<forall>y \<in> set ys. (lt y x \<longleftrightarrow> key y < key x) \<and> key x \<noteq> key y"
    and "strict key xs" and "strict key ys"
  shows "strict key (std_merge lt xs ys)"
  using assms
proof (induction lt xs ys rule: std_merge.induct)
  case (3 lt x xs y ys)
  show ?case
  proof (cases "lt y x")
    case True
    then have "key y < key e" if "e \<in> set (x # xs) \<union> set ys" for e using 3(3-5) that by force
    then show ?thesis using True 3 by (auto simp: set_merge)
  next
    case False
    then have "key x < key y" using 3(3) by fastforce
    then have "key x < key e" if "e \<in> set xs \<union> set (y # ys)" for e using 3(4,5) that by force
    then show ?thesis using False 3 by (auto simp: set_merge)
  qed
qed auto

section \<open>descriptor_database: symbol names and file descriptors\<close>

text \<open>
  The helpers on symbol names of \<open>descriptor_database.cc\<close>, what the databases read of a
  \<open>FileDescriptorProto\<close>, and the order of names that the prefix search rests on. The message
  classes are generated code: the records hold what their accessors return. Comparison of
  \<open>std::string\<close> and \<open>string_view\<close> is lexicographic on unsigned bytes.
\<close>

subsection \<open>Names\<close>

definition symbol_char :: "char \<Rightarrow> bool" where
  "symbol_char c \<longleftrightarrow> \<not> (c \<noteq> CHR ''.'' \<and> c \<noteq> CHR ''_'' \<and> (c < CHR ''0'' \<or> CHR ''9'' < c)
     \<and> (c < CHR ''A'' \<or> CHR ''Z'' < c) \<and> (c < CHR ''a'' \<or> CHR ''z'' < c))"

definition ValidateSymbolName :: "string \<Rightarrow> bool" where
  "ValidateSymbolName name = list_all symbol_char name"

definition FindLastLessOrEqual :: "('k \<Rightarrow> 'a \<Rightarrow> bool) \<Rightarrow> 'a list \<Rightarrow> 'k \<Rightarrow> nat" where
  "FindLastLessOrEqual lt container key =
     (let iter = std_upper_bound lt key container in if iter \<noteq> 0 then iter - 1 else iter)"

definition IsSubSymbol :: "absl \<Rightarrow> string \<Rightarrow> string \<Rightarrow> bool" where
  "IsSubSymbol A sub_symbol super_symbol \<longleftrightarrow>
     sub_symbol = super_symbol
     \<or> StartsWith A super_symbol sub_symbol \<and> super_symbol ! length sub_symbol = CHR ''.''"

subsection \<open>File descriptors\<close>

record field_proto =
  field_name :: string
  field_extendee :: string
  field_number :: int

datatype descriptor_proto =
  DescriptorProto (message_name: "string option") (nested_type: "descriptor_proto list")
    (message_extension: "field_proto list")

text \<open>Enums and services matter by their names only; \<open>file_rest\<close> is everything else.\<close>

record file_proto =
  file_name :: string
  file_package :: "string option"
  message_type :: "descriptor_proto list"
  enum_type :: "string list"
  extension :: "field_proto list"
  service :: "string list"
  file_rest :: string

text \<open>The accessors return the empty string for a string that is not set.\<close>

definition set_or_empty :: "string option \<Rightarrow> string" where
  "set_or_empty s = (case s of None \<Rightarrow> [] | Some t \<Rightarrow> t)"

subsection \<open>Sequences of insertions\<close>

text \<open>
  Loops and sequences of the form \<open>if (!Add...) return false\<close>.
\<close>

definition and_then :: "('s \<Rightarrow> bool \<times> 's) \<Rightarrow> ('s \<Rightarrow> bool \<times> 's) \<Rightarrow> 's \<Rightarrow> bool \<times> 's" where
  "and_then f g s = (case f s of (b, t) \<Rightarrow> if b then g t else (False, t))"

primrec add_all :: "('a \<Rightarrow> 's \<Rightarrow> bool \<times> 's) \<Rightarrow> 'a list \<Rightarrow> 's \<Rightarrow> bool \<times> 's" where
  "add_all f [] s = (True, s)"
| "add_all f (x # xs) s = and_then (f x) (add_all f xs) s"

lemma add_all_cong [fundef_cong]:
  assumes "xs = ys" and "\<And>x. x \<in> set ys \<Longrightarrow> f x = g x"
  shows "add_all f xs = add_all g ys"
proof -
  have "add_all f ys s = add_all g ys s" for s
    using assms(2) by (induction ys arbitrary: s) (auto simp: and_then_def split: prod.splits)
  then show ?thesis using assms(1) by auto
qed

subsection \<open>The order of names\<close>

text \<open>\<open>n\<close> is the symbol \<open>k\<close> or lies inside of it.\<close>

definition within :: "string \<Rightarrow> string \<Rightarrow> bool" where
  "within k n \<longleftrightarrow> n = k \<or> (\<exists>r. n = k @ CHR ''.'' # r)"

lemma IsSubSymbol_within: "absl_ok A \<Longrightarrow> IsSubSymbol A k n \<longleftrightarrow> within k n"
  by (auto simp: IsSubSymbol_def within_def absl_StartsWith prefix_def nth_append)
     (metis append_self_conv list.exhaust nth_Cons_0)

lemma within_refl [simp]: "within k k"
  by (simp add: within_def)

lemma within_trans: "within a b \<Longrightarrow> within b c \<Longrightarrow> within a c"
  by (auto simp: within_def)

lemma less_eq_append: "(k::string) \<le> k @ r"
  by (induction k) auto

lemma within_le: "within k n \<Longrightarrow> k \<le> n"
  by (auto simp: within_def less_eq_append)

lemma within_antisym: "within a b \<Longrightarrow> within b a \<Longrightarrow> a = b"
  by (auto simp: within_def)

lemma symbol_char_dot: "symbol_char c \<Longrightarrow> c \<le> CHR ''.'' \<Longrightarrow> c = CHR ''.''"
  by (auto simp: symbol_char_def less_eq_char_def less_char_def)

text \<open>The dot sorts before every other character of a symbol.\<close>

lemma within_between:
  assumes "within k n" and "k \<le> m" and "m \<le> n" and "ValidateSymbolName m"
  shows "within k m"
  using assms
proof (induction k arbitrary: n m)
  case Nil
  then show ?case
    using symbol_char_dot by (cases m) (auto simp: within_def ValidateSymbolName_def)
next
  case (Cons a k)
  obtain n' where n: "n = a # n'" "within k n'" using Cons.prems(1) by (auto simp: within_def)
  obtain m' where m: "m = a # m'" using Cons.prems(2,3) n by (cases m) auto
  show ?case
    using Cons.IH [OF n(2), of m'] Cons.prems n(1) m by (auto simp: within_def ValidateSymbolName_def)
qed

text \<open>No symbol of the set lies inside of another.\<close>

definition independent :: "string set \<Rightarrow> bool" where
  "independent K \<longleftrightarrow> (\<forall>a \<in> K. \<forall>b \<in> K. within a b \<longrightarrow> a = b)"

lemma independent_empty [simp]: "independent {}"
  by (simp add: independent_def)

lemma independent_insert:
  "independent (insert a K) \<longleftrightarrow> independent K \<and> (\<forall>k \<in> K. k \<noteq> a \<longrightarrow> \<not> within k a \<and> \<not> within a k)"
  by (auto simp: independent_def)

lemma independent_Un1: "independent (K \<union> L) \<Longrightarrow> independent K"
  by (auto simp: independent_def)

lemma append_starts: "us @ c # r = c # s \<Longrightarrow> us = [] \<or> (\<exists>v. us = c # v)"
  by (cases us) auto

lemma independent_unique:
  assumes "independent K" and "a \<in> K" and "b \<in> K" and "within a n" and "within b n"
  shows "a = b"
proof -
  have "within a b \<or> within b a"
    using assms(4,5) by (auto simp: within_def append_eq_append_conv2 dest!: append_starts append_starts [OF sym])
  then show ?thesis using assms(1-3) by (auto simp: independent_def)
qed

end
