(* ===== verification/Simple_Database.thy ===== *)
theory Simple_Database
  imports Descriptor_Symbols
begin

section \<open>DescriptorDatabase and SimpleDescriptorDatabase\<close>

text \<open>
  The interface \<open>DescriptorDatabase\<close> with its two enumerations, and the database that keeps file
  descriptors as messages (\<open>descriptor_database.cc\<close>, \<open>.h\<close>). A lookup returns the file it copies
  to its output, or \<open>None\<close> for \<open>false\<close>; it may change the state of the database. Log messages
  are left out. A pointer to a descriptor is the descriptor, which nobody changes while the
  database refers to it.
\<close>

subsection \<open>The interface\<close>

record 's descriptor_database =
  db_FindFileByName :: "string \<Rightarrow> 's \<Rightarrow> file_proto option \<times> 's"
  db_FindFileContainingSymbol :: "string \<Rightarrow> 's \<Rightarrow> file_proto option \<times> 's"
  db_FindFileContainingExtension :: "string \<Rightarrow> int \<Rightarrow> 's \<Rightarrow> file_proto option \<times> 's"
  db_FindAllExtensionNumbers :: "string \<Rightarrow> 's \<Rightarrow> int list option \<times> 's"
  db_FindAllFileNames :: "'s \<Rightarrow> string list option \<times> 's"

text \<open>The defaults of the interface find nothing.\<close>

definition default_FindAllExtensionNumbers :: "string \<Rightarrow> 's \<Rightarrow> int list option \<times> 's" where
  "default_FindAllExtensionNumbers extendee_type s = (None, s)"

definition default_FindAllFileNames :: "'s \<Rightarrow> string list option \<times> 's" where
  "default_FindAllFileNames s = (None, s)"

text \<open>\<open>None\<close>: the \<open>ABSL_CHECK\<close> on the name fails.\<close>

fun RecordMessageNames :: "descriptor_proto \<Rightarrow> string \<Rightarrow> string list \<Rightarrow> string list option" where
  "RecordMessageNames (DescriptorProto name nested exts) pre output =
     (case name of
        None \<Rightarrow> None
      | Some n \<Rightarrow>
          (let full_name = (if pre = [] then n else pre @ ''.'' @ n);
               output = snd (btree_insert (<) full_name output)
           in fold (\<lambda>d out. Option.bind out (RecordMessageNames d full_name)) nested (Some output)))"

definition RecordFileMessageNames :: "file_proto \<Rightarrow> string list \<Rightarrow> string list option" where
  "RecordFileMessageNames file output =
     fold (\<lambda>d out. Option.bind out (RecordMessageNames d (set_or_empty (file_package file)))) (message_type file) (Some output)"

text \<open>The loop over the file names: \<open>Some None\<close> when a file is not found.\<close>

primrec ForAllFileProtos_loop ::
  "'s descriptor_database \<Rightarrow> (file_proto \<Rightarrow> string list \<Rightarrow> string list option) \<Rightarrow> string list \<Rightarrow> string list \<Rightarrow> 's
     \<Rightarrow> (string list option \<times> 's) option" where
  "ForAllFileProtos_loop D callback [] names s = Some (Some names, s)"
| "ForAllFileProtos_loop D callback (f # fs) names s =
     (case db_FindFileByName D f s of
        (None, s) \<Rightarrow> Some (None, s)
      | (Some file, s) \<Rightarrow> do {
          names \<leftarrow> callback file names;
          ForAllFileProtos_loop D callback fs names s })"

definition ForAllFileProtos ::
  "'s descriptor_database \<Rightarrow> (file_proto \<Rightarrow> string list \<Rightarrow> string list option) \<Rightarrow> 's
     \<Rightarrow> (string list option \<times> 's) option" where
  "ForAllFileProtos D callback s =
     (case db_FindAllFileNames D s of
        (None, s) \<Rightarrow> Some (None, s)
      | (Some file_names, s) \<Rightarrow> ForAllFileProtos_loop D callback file_names [] s)"

definition FindAllPackageNames :: "'s descriptor_database \<Rightarrow> 's \<Rightarrow> (string list option \<times> 's) option" where
  "FindAllPackageNames D =
     ForAllFileProtos D (\<lambda>file names. Some (snd (btree_insert (<) (set_or_empty (file_package file)) names)))"

definition FindAllMessageNames :: "'s descriptor_database \<Rightarrow> 's \<Rightarrow> (string list option \<times> 's) option" where
  "FindAllMessageNames D = ForAllFileProtos D RecordFileMessageNames"

subsection \<open>SimpleDescriptorDatabase::DescriptorIndex\<close>

record 'v simple_index =
  by_name :: "(string \<times> 'v) list"
  by_symbol :: "(string \<times> 'v) list"
  by_extension :: "((string \<times> int) \<times> 'v) list"

definition index_AddSymbol :: "absl \<Rightarrow> string \<Rightarrow> 'v \<Rightarrow> 'v simple_index \<Rightarrow> bool \<times> 'v simple_index" where
  "index_AddSymbol A name v ix =
     (if \<not> ValidateSymbolName name then (False, ix)
      else let iter = FindLastLessOrEqual (\<lambda>k p. k < fst p) (by_symbol ix) name;
               inserted = (True, ix\<lparr>by_symbol := snd (btree_insert (by_key (<)) (name, v) (by_symbol ix))\<rparr>)
      in if iter = length (by_symbol ix) then inserted
      else if IsSubSymbol A (fst (by_symbol ix ! iter)) name then (False, ix)
      else let iter = iter + 1
      in if iter \<noteq> length (by_symbol ix) \<and> IsSubSymbol A name (fst (by_symbol ix ! iter)) then (False, ix)
      else inserted)"

definition index_AddExtension :: "field_proto \<Rightarrow> 'v \<Rightarrow> 'v simple_index \<Rightarrow> bool \<times> 'v simple_index" where
  "index_AddExtension field v ix =
     (if field_extendee field \<noteq> [] \<and> hd (field_extendee field) = CHR ''.'' then
        (case btree_insert (by_key (<)) ((tl (field_extendee field), field_number field), v) (by_extension ix) of
           (b, m) \<Rightarrow> (b, ix\<lparr>by_extension := m\<rparr>))
      else (True, ix))"

fun index_AddNestedExtensions :: "descriptor_proto \<Rightarrow> 'v \<Rightarrow> 'v simple_index \<Rightarrow> bool \<times> 'v simple_index" where
  "index_AddNestedExtensions (DescriptorProto name nested exts) v =
     and_then (add_all (\<lambda>d. index_AddNestedExtensions d v) nested) (add_all (\<lambda>f. index_AddExtension f v) exts)"

text \<open>The package of a file as a prefix of its symbols.\<close>

definition symbol_path :: "file_proto \<Rightarrow> string" where
  "symbol_path file = (let path = set_or_empty (file_package file) in if path \<noteq> [] then path @ ''.'' else path)"

definition index_AddFile :: "absl \<Rightarrow> file_proto \<Rightarrow> 'v \<Rightarrow> 'v simple_index \<Rightarrow> bool \<times> 'v simple_index" where
  "index_AddFile A file v ix =
     (case btree_insert (by_key (<)) (file_name file, v) (by_name ix) of
        (b, m) \<Rightarrow>
          if \<not> b then (False, ix\<lparr>by_name := m\<rparr>)
          else let path = symbol_path file in
            and_then (add_all (\<lambda>d. and_then (index_AddSymbol A (path @ set_or_empty (message_name d)) v)
                (index_AddNestedExtensions d v)) (message_type file))
            (and_then (add_all (\<lambda>e. index_AddSymbol A (path @ e) v) (enum_type file))
            (and_then (add_all (\<lambda>x. and_then (index_AddSymbol A (path @ field_name x) v)
                (index_AddExtension x v)) (extension file))
             (add_all (\<lambda>r. index_AddSymbol A (path @ r) v) (service file))))
            (ix\<lparr>by_name := m\<rparr>))"

definition index_FindFile :: "string \<Rightarrow> 'v simple_index \<Rightarrow> 'v option" where
  "index_FindFile filename ix = map_of (by_name ix) filename"

definition index_FindSymbol :: "absl \<Rightarrow> string \<Rightarrow> 'v simple_index \<Rightarrow> 'v option" where
  "index_FindSymbol A name ix =
     (let iter = FindLastLessOrEqual (\<lambda>k p. k < fst p) (by_symbol ix) name
      in if iter \<noteq> length (by_symbol ix) \<and> IsSubSymbol A (fst (by_symbol ix ! iter)) name
         then Some (snd (by_symbol ix ! iter)) else None)"

definition index_FindExtension :: "string \<Rightarrow> int \<Rightarrow> 'v simple_index \<Rightarrow> 'v option" where
  "index_FindExtension containing_type n ix = map_of (by_extension ix) (containing_type, n)"

definition index_FindAllExtensionNumbers :: "string \<Rightarrow> 'v simple_index \<Rightarrow> int list option" where
  "index_FindAllExtensionNumbers containing_type ix =
     (let i = std_lower_bound (\<lambda>p k. fst p < k) (containing_type, 0) (by_extension ix);
          found = map (snd \<circ> fst) (takeWhile (\<lambda>p. fst (fst p) = containing_type) (drop i (by_extension ix)))
      in if found = [] then None else Some found)"

definition index_FindAllFileNames :: "'v simple_index \<Rightarrow> string list" where
  "index_FindAllFileNames ix = map fst (by_name ix)"

subsection \<open>SimpleDescriptorDatabase\<close>

record simple_database =
  sd_index :: "file_proto simple_index"
  sd_files_to_delete :: "file_proto list"

definition SimpleDescriptorDatabase :: simple_database where
  "SimpleDescriptorDatabase = \<lparr>sd_index = \<lparr>by_name = [], by_symbol = [], by_extension = []\<rparr>, sd_files_to_delete = []\<rparr>"

definition simple_AddUnowned :: "absl \<Rightarrow> file_proto \<Rightarrow> simple_database \<Rightarrow> bool \<times> simple_database" where
  "simple_AddUnowned A file db =
     (case index_AddFile A file file (sd_index db) of (b, ix) \<Rightarrow> (b, db\<lparr>sd_index := ix\<rparr>))"

definition simple_AddAndOwn :: "absl \<Rightarrow> file_proto \<Rightarrow> simple_database \<Rightarrow> bool \<times> simple_database" where
  "simple_AddAndOwn A file db =
     (let db = db\<lparr>sd_files_to_delete := sd_files_to_delete db @ [file]\<rparr>
      in case index_AddFile A file file (sd_index db) of (b, ix) \<Rightarrow> (b, db\<lparr>sd_index := ix\<rparr>))"

definition simple_Add :: "absl \<Rightarrow> file_proto \<Rightarrow> simple_database \<Rightarrow> bool \<times> simple_database" where
  "simple_Add A file db = (let new_file = file in simple_AddAndOwn A new_file db)"

definition MaybeCopy :: "file_proto option \<Rightarrow> file_proto option" where
  "MaybeCopy file = (case file of None \<Rightarrow> None | Some f \<Rightarrow> Some f)"

definition simple_FindFileByName :: "string \<Rightarrow> simple_database \<Rightarrow> file_proto option \<times> simple_database" where
  "simple_FindFileByName filename db = (MaybeCopy (index_FindFile filename (sd_index db)), db)"

definition simple_FindFileContainingSymbol ::
  "absl \<Rightarrow> string \<Rightarrow> simple_database \<Rightarrow> file_proto option \<times> simple_database" where
  "simple_FindFileContainingSymbol A symbol_name db = (MaybeCopy (index_FindSymbol A symbol_name (sd_index db)), db)"

definition simple_FindFileContainingExtension ::
  "string \<Rightarrow> int \<Rightarrow> simple_database \<Rightarrow> file_proto option \<times> simple_database" where
  "simple_FindFileContainingExtension containing_type n db =
     (MaybeCopy (index_FindExtension containing_type n (sd_index db)), db)"

definition simple_FindAllExtensionNumbers :: "string \<Rightarrow> simple_database \<Rightarrow> int list option \<times> simple_database" where
  "simple_FindAllExtensionNumbers extendee_type db = (index_FindAllExtensionNumbers extendee_type (sd_index db), db)"

definition simple_FindAllFileNames :: "simple_database \<Rightarrow> string list option \<times> simple_database" where
  "simple_FindAllFileNames db = (Some (index_FindAllFileNames (sd_index db)), db)"

definition simple_db :: "absl \<Rightarrow> simple_database descriptor_database" where
  "simple_db A = \<lparr>db_FindFileByName = simple_FindFileByName,
     db_FindFileContainingSymbol = simple_FindFileContainingSymbol A,
     db_FindFileContainingExtension = simple_FindFileContainingExtension,
     db_FindAllExtensionNumbers = simple_FindAllExtensionNumbers,
     db_FindAllFileNames = simple_FindAllFileNames\<rparr>"

end
