(* ===== verification/Database_Spec.thy ===== *)
theory Database_Spec
  imports Simple_Database
begin


section \<open>The prefix search of the databases\<close>

text \<open>
  \<open>FindLastLessOrEqual\<close> on a container sorted by name, and why one comparison is enough for a
  lookup and two for an insertion. The locale \<open>named\<close> is what the search needs of a container:
  sorted by the names of its elements, all names valid, none inside of another, and a comparison
  of the searched name with an element that agrees with the order of names.
\<close>

lemma FindLastLessOrEqual_result:
  assumes "strict key xs" and "\<forall>e \<in> set xs. lt v e \<longleftrightarrow> w < key e" and "i = FindLastLessOrEqual lt xs v"
  obtains (None) "xs = []" "i = 0"
  | (Below) "xs \<noteq> []" "i = 0" "\<And>e. e \<in> set xs \<Longrightarrow> w < key e"
  | (At) "i < length xs" "key (xs ! i) \<le> w" "\<And>j. i < j \<Longrightarrow> j < length xs \<Longrightarrow> w < key (xs ! j)"
proof -
  define u where "u = std_upper_bound lt v xs"
  have t: "take u xs = filter (\<lambda>e. key e \<le> w) xs" "drop u xs = filter (\<lambda>e. w < key e) xs"
    using upper_bound_strict [of key xs lt v w] assms(1,2) by (auto simp: u_def)
  have le: "u \<le> length xs" by (simp add: u_def std_upper_bound_def length_takeWhile_le)
  show ?thesis
  proof (cases "u = 0")
    case True
    then have "filter (\<lambda>e. w < key e) xs = xs" using t(2) by simp
    then have "\<forall>e \<in> set xs. w < key e" by (simp add: filter_id_conv)
    then show ?thesis using None Below True assms(3) by (cases "xs = []") (auto simp: FindLastLessOrEqual_def u_def)
  next
    case False
    then have i: "i = u - 1" using assms(3) by (simp add: FindLastLessOrEqual_def u_def)
    have "xs ! i \<in> set (take u xs)" using False le i by (auto simp: in_set_conv_nth intro!: exI [of _ i])
    then have "key (xs ! i) \<le> w" using t(1) by simp
    moreover have "w < key (xs ! j)" if "i < j" "j < length xs" for j
    proof -
      have "xs ! j = drop u xs ! (j - u)" using that False i by simp
      then have "xs ! j \<in> set (drop u xs)" using that False i by (metis One_nat_def Suc_leI Suc_pred length_drop less_diff_conv add.commute le_add_diff_inverse nth_mem not_gr_zero diff_less_mono)
      then show ?thesis using t(2) by simp
    qed
    ultimately show ?thesis using At False le i by auto
  qed
qed

locale named =
  fixes key :: "'a \<Rightarrow> string" and xs :: "'a list" and lt :: "'k \<Rightarrow> 'a \<Rightarrow> bool" and v :: 'k and name :: string
  assumes sorted: "strict key xs"
    and valid: "e \<in> set xs \<Longrightarrow> ValidateSymbolName (key e)"
    and compare: "e \<in> set xs \<Longrightarrow> lt v e \<longleftrightarrow> name < key e"
begin

abbreviation "last_le \<equiv> FindLastLessOrEqual lt xs v"

lemma last_le_result:
  obtains (None) "xs = []" "last_le = 0"
  | (Below) "xs \<noteq> []" "last_le = 0" "\<And>e. e \<in> set xs \<Longrightarrow> name < key e"
  | (At) "last_le < length xs" "key (xs ! last_le) \<le> name" "\<And>j. last_le < j \<Longrightarrow> j < length xs \<Longrightarrow> name < key (xs ! j)"
proof -
  have c: "\<forall>e \<in> set xs. lt v e \<longleftrightarrow> name < key e" using compare by simp
  show thesis
  proof (rule FindLastLessOrEqual_result [where key = key and xs = xs and lt = lt and v = v and w = name, OF sorted c refl], goal_cases)
    case 1 then show ?case by (rule that(1))
  next
    case 2 then show ?case by (rule that(2))
  next
    case 3 then show ?case by (rule that(3))
  qed
qed

lemma last_le_less: "xs \<noteq> [] \<Longrightarrow> last_le < length xs"
  by (rule last_le_result) auto

lemma last_le_Nil: "xs = [] \<Longrightarrow> last_le = 0"
  by (simp add: FindLastLessOrEqual_def std_upper_bound_def)

lemma last_le_bound: "last_le \<noteq> length xs \<longleftrightarrow> xs \<noteq> []" "last_le < length xs \<longleftrightarrow> xs \<noteq> []"
  using last_le_less last_le_Nil by (metis list.size(3) less_irrefl)+

text \<open>A lookup: if some name covers the searched one, the search stops at it.\<close>

lemma covered_at:
  assumes "independent (key ` set xs)" and "e \<in> set xs" and "within (key e) name"
  shows "xs \<noteq> []" and "xs ! last_le = e"
proof -
  show "xs \<noteq> []" using assms(2) by auto
  have le: "key e \<le> name" using assms(3) within_le by blast
  show "xs ! last_le = e"
  proof (cases rule: last_le_result)
    case At
    obtain j where j: "j < length xs" "xs ! j = e" using assms(2) by (auto simp: in_set_conv_nth)
    then have "j \<le> last_le" using At(3) [of j] le by (meson leD not_le_imp_less)
    then have "key e \<le> key (xs ! last_le)"
      using strict_nth [OF sorted, of j last_le] At(1) j by (cases "j = last_le") auto
    then have "within (key e) (key (xs ! last_le))"
      using within_between [OF assms(3)] At(1,2) valid by simp
    then have "key e = key (xs ! last_le)" using assms(1,2) At(1) by (auto simp: independent_def)
    then show ?thesis using strict_inj [OF sorted] assms(2) At(1) by (metis nth_mem)
  qed (use assms(2) le in \<open>auto dest!: leD\<close>)
qed

lemma found:
  assumes "independent (key ` set xs)"
  shows "(last_le \<noteq> length xs \<and> within (key (xs ! last_le)) name) \<longleftrightarrow> (\<exists>e \<in> set xs. within (key e) name)"
  using covered_at [OF assms] last_le_bound by (metis nth_mem)

text \<open>What the two comparisons of an insertion find out.\<close>

definition accepted :: bool where
  "accepted \<longleftrightarrow> last_le = length xs
     \<or> \<not> within (key (xs ! last_le)) name
       \<and> \<not> (last_le + 1 \<noteq> length xs \<and> within name (key (xs ! (last_le + 1))))"

lemma no_conflict_accepted:
  assumes "\<And>e. e \<in> set xs \<Longrightarrow> \<not> within (key e) name \<and> \<not> within name (key e)"
  shows "accepted"
  using assms last_le_bound by (auto simp: accepted_def)

lemma inside_next:
  assumes "e \<in> set xs" and "within name (key e)" and "j < length xs" and "name \<le> key (xs ! j)" and "key (xs ! j) \<le> key e"
  shows "within name (key (xs ! j))"
  using within_between [OF assms(2,4,5)] valid assms(3) by simp

lemma accepted_iff:
  assumes "independent (key ` set xs)"
  shows "accepted \<longleftrightarrow> (\<forall>e \<in> set xs. \<not> within (key e) name \<and> (within name (key e) \<longrightarrow> e = hd xs))"
proof
  assume a: "accepted"
  have super: "\<not> within (key e) name" if "e \<in> set xs" for e
    using covered_at [OF assms that] that last_le_bound a by (auto simp: accepted_def)
  have sub: "e = hd xs" if e: "e \<in> set xs" "within name (key e)" for e
  proof -
    obtain j where j: "j < length xs" "xs ! j = e" using e(1) by (auto simp: in_set_conv_nth)
    have lt: "name < key e" using within_le [OF e(2)] super [OF e(1)] by (metis order_le_less within_refl)
    have next_le: "key (xs ! (last_le + 1)) \<le> key e" if "last_le < j"
      using strict_nth [OF sorted, of "last_le + 1" j] that j by (cases "j = last_le + 1") auto
    show ?thesis
    proof (cases rule: last_le_result)
      case Below
      show ?thesis
      proof (rule ccontr)
        assume "e \<noteq> hd xs"
        then have "last_le < j" using j Below by (metis gr0I hd_conv_nth)
        then have "last_le + 1 < length xs" "name < key (xs ! (last_le + 1))" using j Below by auto
        then show False using inside_next [OF e] next_le [OF \<open>last_le < j\<close>] a by (auto simp: accepted_def)
      qed
    next
      case At
      then have "last_le < j" using lt strict_nth [OF sorted, of j last_le] j
        by (metis linorder_neqE_nat order.strict_trans order_less_le_trans less_irrefl)
      then have "last_le + 1 < length xs" "name < key (xs ! (last_le + 1))" using j At by auto
      then show ?thesis using inside_next [OF e] next_le [OF \<open>last_le < j\<close>] a by (auto simp: accepted_def)
    qed (use e in auto)
  qed
  show "\<forall>e \<in> set xs. \<not> within (key e) name \<and> (within name (key e) \<longrightarrow> e = hd xs)"
    using super sub by blast
next
  assume c: "\<forall>e \<in> set xs. \<not> within (key e) name \<and> (within name (key e) \<longrightarrow> e = hd xs)"
  have "xs ! (last_le + 1) \<noteq> hd xs" if "last_le + 1 < length xs"
    using strict_nth [OF sorted, of 0 "last_le + 1"] that by (metis add_gr_0 hd_conv_nth less_irrefl list.size(3) not_less_zero zero_less_one)
  then show "accepted" using c last_le_bound unfolding accepted_def
    by (metis Suc_eq_plus1 Suc_lessI nth_mem)
qed

end

section \<open>What a descriptor database promises\<close>

text \<open>
  The symbols and extensions a file declares, what a database of files answers, the contract of
  the interface as the locale \<open>database\<close>, and of a database that files are added to as the
  locale \<open>file_database\<close>, with an arbitrary client. \<open>adds\<close> is the shared part of the proofs
  that \<open>AddFile\<close> enters everything that a file declares.
\<close>

subsection \<open>Declarations of a file\<close>

fun message_extensions :: "descriptor_proto \<Rightarrow> field_proto list" where
  "message_extensions (DescriptorProto name nested exts) = concat (map message_extensions nested) @ exts"

definition file_extensions :: "file_proto \<Rightarrow> field_proto list" where
  "file_extensions f = concat (map message_extensions (message_type f)) @ extension f"

definition local_symbols :: "file_proto \<Rightarrow> string list" where
  "local_symbols f = map (set_or_empty \<circ> message_name) (message_type f) @ enum_type f
     @ map field_name (extension f) @ service f"

definition file_symbols :: "file_proto \<Rightarrow> string list" where
  "file_symbols f = map ((@) (symbol_path f)) (local_symbols f)"

text \<open>Extensions of a type that is not fully qualified are not indexed.\<close>

fun extension_key :: "field_proto \<Rightarrow> (string \<times> int) list" where
  "extension_key x = (case field_extendee x of [] \<Rightarrow> []
     | c # t \<Rightarrow> if c = CHR ''.'' then [(t, field_number x)] else [])"

declare extension_key.simps [simp del]

lemma extension_key_if:
  "extension_key x = (if field_extendee x \<noteq> [] \<and> hd (field_extendee x) = CHR ''.''
     then [(tl (field_extendee x), field_number x)] else [])"
  by (simp add: extension_key.simps split: list.split)

definition file_keys :: "file_proto \<Rightarrow> (string \<times> int) list" where
  "file_keys f = concat (map extension_key (file_extensions f))"

text \<open>Files that can be together in a database.\<close>

definition well_named :: "file_proto \<Rightarrow> bool" where
  "well_named f \<longleftrightarrow> ValidateSymbolName (set_or_empty (file_package f))
     \<and> (\<forall>s \<in> set (local_symbols f). s \<noteq> [] \<and> ValidateSymbolName s)"

definition consistent :: "file_proto list \<Rightarrow> bool" where
  "consistent fs \<longleftrightarrow> list_all well_named fs \<and> distinct (map file_name fs)
     \<and> distinct (concat (map file_symbols fs)) \<and> independent (set (concat (map file_symbols fs)))
     \<and> distinct (concat (map file_keys fs))"

lemma consistent_append: "consistent (fs @ gs) \<Longrightarrow> consistent fs"
  by (auto simp: consistent_def intro: independent_Un1)

lemma symbols_valid:
  assumes "well_named f" and "s \<in> set (file_symbols f)"
  shows "ValidateSymbolName s"
  using assms
  by (auto simp: well_named_def file_symbols_def ValidateSymbolName_def symbol_path_def symbol_char_def Let_def
      split: if_splits)

subsection \<open>What is found\<close>

record db_view =
  v_file :: "string \<Rightarrow> file_proto option"
  v_symbol :: "string \<Rightarrow> file_proto option"
  v_extension :: "string \<Rightarrow> int \<Rightarrow> file_proto option"
  v_numbers :: "string \<Rightarrow> int set option"
  v_names :: "string set option"

definition nonempty :: "'a set \<Rightarrow> 'a set option" where
  "nonempty S = (if S = {} then None else Some S)"

text \<open>A symbol is found in the file that declares it or a symbol around it.\<close>

definition files_view :: "file_proto list \<Rightarrow> db_view" where
  "files_view fs = \<lparr>v_file = (\<lambda>n. find (\<lambda>f. file_name f = n) fs),
     v_symbol = (\<lambda>n. find (\<lambda>f. \<exists>s \<in> set (file_symbols f). within s n) fs),
     v_extension = (\<lambda>t k. find (\<lambda>f. (t, k) \<in> set (file_keys f)) fs),
     v_numbers = (\<lambda>t. nonempty {k. 0 \<le> k \<and> (\<exists>f \<in> set fs. (t, k) \<in> set (file_keys f))}),
     v_names = Some (file_name ` set fs)\<rparr>"

text \<open>Whatever file is found, its name leads to it.\<close>

definition coherent :: "db_view \<Rightarrow> bool" where
  "coherent w \<longleftrightarrow> (\<forall>n f. v_file w n = Some f \<longrightarrow> file_name f = n)
     \<and> (\<forall>n f. v_symbol w n = Some f \<longrightarrow> v_file w (file_name f) = Some f)
     \<and> (\<forall>t k f. v_extension w t k = Some f \<longrightarrow> v_file w (file_name f) = Some f)
     \<and> (\<forall>ns n. v_names w = Some ns \<longrightarrow> n \<in> ns \<longrightarrow> v_file w n \<noteq> None)"

lemma find_by_name:
  assumes "distinct (map file_name fs)"
  shows "find (\<lambda>f. file_name f = n) fs = Some f \<longleftrightarrow> f \<in> set fs \<and> file_name f = n"
  using assms by (induction fs) auto

lemma find_in: "find P fs = Some f \<Longrightarrow> f \<in> set fs \<and> P f"
  by (auto simp: find_Some_iff)

lemma files_view_coherent: "distinct (map file_name fs) \<Longrightarrow> coherent (files_view fs)"
  by (auto simp: coherent_def files_view_def find_by_name find_None_iff dest!: find_in)

subsection \<open>Names of messages\<close>

fun message_names :: "string \<Rightarrow> descriptor_proto \<Rightarrow> string list" where
  "message_names pre (DescriptorProto name nested exts) =
     (let full_name = (if pre = [] then set_or_empty name else pre @ ''.'' @ set_or_empty name)
      in full_name # concat (map (message_names full_name) nested))"

fun all_named :: "descriptor_proto \<Rightarrow> bool" where
  "all_named (DescriptorProto name nested exts) \<longleftrightarrow> name \<noteq> None \<and> list_all all_named nested"

definition file_message_names :: "file_proto \<Rightarrow> string list" where
  "file_message_names f = concat (map (message_names (set_or_empty (file_package f))) (message_type f))"

lemma insert_name:
  assumes "strict id acc"
  shows "strict id (snd (btree_insert (<) (x :: string) acc))" and "set (snd (btree_insert (<) x acc)) = set acc \<union> {x}"
proof -
  obtain b acc' where r: "btree_insert (<) x acc = (b, acc')" by fastforce
  show "strict id (snd (btree_insert (<) x acc))" "set (snd (btree_insert (<) x acc)) = set acc \<union> {x}"
    using btree_insert_result [where key = id, OF assms _ r] r by (cases b; auto)+
qed

lemma RecordMessageNames_list:
  assumes "list_all all_named ds"
    and "\<And>d acc. d \<in> set ds \<Longrightarrow> all_named d \<Longrightarrow> strict id acc \<Longrightarrow>
      \<exists>acc'. RecordMessageNames d pre acc = Some acc' \<and> strict id acc' \<and> set acc' = set acc \<union> set (message_names pre d)"
    and "strict id acc"
  shows "\<exists>acc'. fold (\<lambda>d out. Option.bind out (RecordMessageNames d pre)) ds (Some acc) = Some acc'
    \<and> strict id acc' \<and> set acc' = set acc \<union> set (concat (map (message_names pre) ds))"
  using assms
proof (induction ds arbitrary: acc)
  case (Cons d ds)
  obtain acc1 where a: "RecordMessageNames d pre acc = Some acc1" "strict id acc1" "set acc1 = set acc \<union> set (message_names pre d)"
    using Cons.prems(2) [of d acc] Cons.prems(1,3) by auto
  obtain acc2 where "fold (\<lambda>d out. Option.bind out (RecordMessageNames d pre)) ds (Some acc1) = Some acc2"
    "strict id acc2" "set acc2 = set acc1 \<union> set (concat (map (message_names pre) ds))"
    using Cons.IH [OF _ _ a(2)] Cons.prems(1,2) by fastforce
  then show ?case using a by (simp add: Un_assoc)
qed simp

lemma RecordMessageNames_result:
  assumes "all_named d" and "strict id acc"
  shows "\<exists>acc'. RecordMessageNames d pre acc = Some acc' \<and> strict id acc' \<and> set acc' = set acc \<union> set (message_names pre d)"
  using assms
proof (induction d arbitrary: pre acc)
  case (DescriptorProto name nested exts)
  obtain n where n: "name = Some n" using DescriptorProto.prems(1) by auto
  define full where "full = (if pre = [] then n else pre @ ''.'' @ n)"
  define acc1 where "acc1 = snd (btree_insert (<) full acc)"
  have a: "strict id acc1" "set acc1 = set acc \<union> {full}"
    using insert_name [OF DescriptorProto.prems(2), of full] by (simp_all add: acc1_def)
  obtain acc2 where "fold (\<lambda>d out. Option.bind out (RecordMessageNames d full)) nested (Some acc1) = Some acc2"
    "strict id acc2" "set acc2 = set acc1 \<union> set (concat (map (message_names full) nested))"
    using RecordMessageNames_list [OF _ _ a(1), of nested full] DescriptorProto by fastforce
  then show ?case using n a by (simp add: full_def acc1_def set_or_empty_def Let_def Un_assoc)
qed

lemma RecordFileMessageNames_result:
  assumes "list_all all_named (message_type f)" and "strict id acc"
  shows "\<exists>acc'. RecordFileMessageNames f acc = Some acc' \<and> strict id acc' \<and> set acc' = set acc \<union> set (file_message_names f)"
  using RecordMessageNames_list [OF assms(1) _ assms(2), of "set_or_empty (file_package f)"] RecordMessageNames_result
  by (simp add: RecordFileMessageNames_def file_message_names_def)

subsection \<open>The contract of the interface\<close>

text \<open>
  \<open>answers s w\<close>: in the state \<open>s\<close> the database finds what \<open>w\<close> says; lookups do not change that.
  \<open>askable n\<close>: a client may ask for the symbol \<open>n\<close>.
\<close>

locale database =
  fixes D :: "'s descriptor_database" and answers :: "'s \<Rightarrow> db_view \<Rightarrow> bool" and askable :: "string \<Rightarrow> bool"
  assumes view_coherent: "answers s w \<Longrightarrow> coherent w"
    and find_file: "answers s w \<Longrightarrow> \<exists>s'. db_FindFileByName D n s = (v_file w n, s') \<and> answers s' w"
    and find_symbol: "answers s w \<Longrightarrow> askable n \<Longrightarrow> \<exists>s'. db_FindFileContainingSymbol D n s = (v_symbol w n, s') \<and> answers s' w"
    and find_extension: "answers s w \<Longrightarrow>
      \<exists>s'. db_FindFileContainingExtension D n k s = (v_extension w n k, s') \<and> answers s' w"
    and find_numbers: "answers s w \<Longrightarrow>
      \<exists>r s'. db_FindAllExtensionNumbers D n s = (r, s') \<and> map_option set r = v_numbers w n \<and> answers s' w"
    and find_names: "answers s w \<Longrightarrow>
      \<exists>r s'. db_FindAllFileNames D s = (r, s') \<and> map_option set r = v_names w \<and> answers s' w"
begin

lemma for_all_loop:
  assumes "answers s w" and "\<And>n. n \<in> set ns \<Longrightarrow> v_file w n \<noteq> None"
    and "\<And>f acc. v_file w (file_name f) = Some f \<Longrightarrow> strict id acc \<Longrightarrow>
      \<exists>acc'. callback f acc = Some acc' \<and> strict id acc' \<and> set acc' = set acc \<union> names f"
    and "strict id acc"
  shows "\<exists>acc' s'. ForAllFileProtos_loop D callback ns acc s = Some (Some acc', s') \<and> strict id acc'
    \<and> set acc' = set acc \<union> (\<Union>n \<in> set ns. names (the (v_file w n))) \<and> answers s' w"
  using assms(1,2,4)
proof (induction ns arbitrary: acc s)
  case (Cons n ns)
  obtain f where f: "v_file w n = Some f" using Cons.prems(2) by fastforce
  obtain s' where s': "db_FindFileByName D n s = (Some f, s')" "answers s' w"
    using find_file [OF Cons.prems(1), of n] f by auto
  have "file_name f = n" using view_coherent [OF Cons.prems(1)] f by (auto simp: coherent_def)
  then obtain acc' where a: "callback f acc = Some acc'" "strict id acc'" "set acc' = set acc \<union> names f"
    using assms(3) f Cons.prems(3) by blast
  show ?case
    using Cons.IH [OF s'(2) _ a(2)] Cons.prems(2) a s' f by fastforce
qed auto

text \<open>The enumerations visit every file that the database names.\<close>

lemma for_all_files:
  assumes "answers s w" and "v_names w = Some ns"
    and "\<And>f acc. v_file w (file_name f) = Some f \<Longrightarrow> strict id acc \<Longrightarrow>
      \<exists>acc'. callback f acc = Some acc' \<and> strict id acc' \<and> set acc' = set acc \<union> names f"
  shows "\<exists>acc' s'. ForAllFileProtos D callback s = Some (Some acc', s') \<and> strict id acc'
    \<and> set acc' = (\<Union>n \<in> ns. names (the (v_file w n))) \<and> answers s' w"
proof -
  obtain l s' where l: "db_FindAllFileNames D s = (Some l, s')" "set l = ns" "answers s' w"
    using find_names [OF assms(1)] assms(2) by fastforce
  have n: "\<And>n. n \<in> set l \<Longrightarrow> v_file w n \<noteq> None"
    using view_coherent [OF assms(1)] assms(2) l(2) unfolding coherent_def by blast
  obtain acc' t where "ForAllFileProtos_loop D callback l [] s' = Some (Some acc', t)" "strict id acc'"
    "set acc' = set [] \<union> (\<Union>n \<in> set l. names (the (v_file w n)))" "answers t w"
    using for_all_loop [where ns = l and callback = callback and names = names and acc = "[]", OF l(3) n assms(3)] by auto
  then show ?thesis using l by (simp add: ForAllFileProtos_def)
qed

text \<open>In particular the names of packages, and of messages if all have one.\<close>

lemma find_packages:
  assumes "answers s w" and "v_names w = Some ns"
  shows "\<exists>ps s'. FindAllPackageNames D s = Some (Some ps, s') \<and> strict id ps
    \<and> set ps = (\<Union>n \<in> ns. {set_or_empty (file_package (the (v_file w n)))}) \<and> answers s' w"
  unfolding FindAllPackageNames_def
  by (rule for_all_files [OF assms]) (simp add: insert_name [unfolded id_def])

lemma find_messages:
  assumes "answers s w" and "v_names w = Some ns"
    and "\<And>f. v_file w (file_name f) = Some f \<Longrightarrow> list_all all_named (message_type f)"
  shows "\<exists>ms s'. FindAllMessageNames D s = Some (Some ms, s') \<and> strict id ms
    \<and> set ms = (\<Union>n \<in> ns. set (file_message_names (the (v_file w n)))) \<and> answers s' w"
  unfolding FindAllMessageNames_def
  by (rule for_all_files [OF assms(1,2)]) (use RecordFileMessageNames_result assms(3) in blast)

end

subsection \<open>Files that are added\<close>

text \<open>
  A client: additions and lookups in any order. Sets of numbers and names come in an order that
  the interface leaves open, so the answer has them sorted.
\<close>

datatype 'x db_call = AddFile 'x | ByName string | BySymbol string | ByExtension string int
  | Numbers string | Names

datatype db_answer = Added bool | Found "file_proto option" | NumbersFound "int list option"
  | NamesFound "string list option"

fun db_step ::
  "'s descriptor_database \<Rightarrow> ('x \<Rightarrow> 's \<Rightarrow> bool \<times> 's) \<Rightarrow> 'x db_call \<Rightarrow> 's \<Rightarrow> db_answer \<times> 's" where
  "db_step D add (AddFile x) s = map_prod Added id (add x s)"
| "db_step D add (ByName n) s = map_prod Found id (db_FindFileByName D n s)"
| "db_step D add (BySymbol n) s = map_prod Found id (db_FindFileContainingSymbol D n s)"
| "db_step D add (ByExtension n k) s = map_prod Found id (db_FindFileContainingExtension D n k s)"
| "db_step D add (Numbers n) s = map_prod (NumbersFound \<circ> map_option sort) id (db_FindAllExtensionNumbers D n s)"
| "db_step D add Names s = map_prod (NamesFound \<circ> map_option sort) id (db_FindAllFileNames D s)"

primrec db_run ::
  "'s descriptor_database \<Rightarrow> ('x \<Rightarrow> 's \<Rightarrow> bool \<times> 's) \<Rightarrow> 'x db_call list \<Rightarrow> 's \<Rightarrow> db_answer list" where
  "db_run D add [] s = []"
| "db_run D add (c # cs) s = (case db_step D add c s of (a, s) \<Rightarrow> a # db_run D add cs s)"

text \<open>The reference keeps a list of files.\<close>

definition spec_numbers :: "file_proto list \<Rightarrow> string \<Rightarrow> int list" where
  "spec_numbers fs n = filter (\<lambda>k. 0 \<le> k) (map snd (filter (\<lambda>p. fst p = n) (concat (map file_keys fs))))"

fun spec_step :: "('x \<Rightarrow> file_proto) \<Rightarrow> 'x db_call \<Rightarrow> file_proto list \<Rightarrow> db_answer \<times> file_proto list" where
  "spec_step file_of (AddFile x) fs = (Added True, fs @ [file_of x])"
| "spec_step file_of (ByName n) fs = (Found (find (\<lambda>f. file_name f = n) fs), fs)"
| "spec_step file_of (BySymbol n) fs = (Found (find (\<lambda>f. \<exists>s \<in> set (file_symbols f). within s n) fs), fs)"
| "spec_step file_of (ByExtension n k) fs = (Found (find (\<lambda>f. (n, k) \<in> set (file_keys f)) fs), fs)"
| "spec_step file_of (Numbers n) fs =
     (NumbersFound (if spec_numbers fs n = [] then None else Some (sort (spec_numbers fs n))), fs)"
| "spec_step file_of Names fs = (NamesFound (Some (sort (map file_name fs))), fs)"

primrec spec_run :: "('x \<Rightarrow> file_proto) \<Rightarrow> 'x db_call list \<Rightarrow> file_proto list \<Rightarrow> db_answer list" where
  "spec_run file_of [] fs = []"
| "spec_run file_of (c # cs) fs = (case spec_step file_of c fs of (a, fs) \<Rightarrow> a # spec_run file_of cs fs)"

fun added :: "'x db_call \<Rightarrow> 'x list" where
  "added (AddFile x) = [x]"
| "added _ = []"

fun call_ok :: "(string \<Rightarrow> bool) \<Rightarrow> 'x db_call \<Rightarrow> bool" where
  "call_ok askable (BySymbol n) \<longleftrightarrow> askable n"
| "call_ok askable _ \<longleftrightarrow> True"

lemma sorted_option:
  assumes "map_option sort r = (if l = [] then None else Some (sort l))"
  shows "map_option set r = nonempty (set l)"
  using assms by (cases r) (auto simp: nonempty_def split: if_splits dest: arg_cong [where f = set])

locale file_database =
  fixes D :: "'s descriptor_database" and add :: "'x \<Rightarrow> 's \<Rightarrow> bool \<times> 's"
    and content :: "'x \<Rightarrow> file_proto option" and reached :: "file_proto list \<Rightarrow> 's \<Rightarrow> bool"
    and askable :: "string \<Rightarrow> bool"
  assumes reached_consistent: "reached fs s \<Longrightarrow> consistent fs"
    and reached_add: "reached fs s \<Longrightarrow> content x = Some f \<Longrightarrow> consistent (fs @ [f]) \<Longrightarrow>
      \<exists>s'. add x s = (True, s') \<and> reached (fs @ [f]) s'"
    and reached_file: "reached fs s \<Longrightarrow>
      \<exists>s'. db_FindFileByName D n s = (v_file (files_view fs) n, s') \<and> reached fs s'"
    and reached_symbol: "reached fs s \<Longrightarrow> askable n \<Longrightarrow>
      \<exists>s'. db_FindFileContainingSymbol D n s = (v_symbol (files_view fs) n, s') \<and> reached fs s'"
    and reached_extension: "reached fs s \<Longrightarrow>
      \<exists>s'. db_FindFileContainingExtension D n k s = (v_extension (files_view fs) n k, s') \<and> reached fs s'"
    and reached_numbers: "reached fs s \<Longrightarrow> \<exists>r s'. db_FindAllExtensionNumbers D n s = (r, s') \<and> reached fs s'
      \<and> map_option sort r = (if spec_numbers fs n = [] then None else Some (sort (spec_numbers fs n)))"
    and reached_names: "reached fs s \<Longrightarrow> \<exists>r s'. db_FindAllFileNames D s = (Some r, s') \<and> reached fs s'
      \<and> sort r = sort (map file_name fs)"
begin

lemma reached_step:
  assumes "reached fs s" and "call_ok askable c" and "\<forall>x \<in> set (added c). content x \<noteq> None"
    and "consistent (fs @ map (\<lambda>x. the (content x)) (added c))"
  shows "\<exists>s'. db_step D add c s = (fst (spec_step (\<lambda>x. the (content x)) c fs), s')
    \<and> reached (snd (spec_step (\<lambda>x. the (content x)) c fs)) s'"
proof (cases c)
  case (AddFile x)
  then obtain f where "content x = Some f" using assms(3) by auto
  then show ?thesis using reached_add [OF assms(1), of x f] assms(4) AddFile by auto
next
  case (ByName n)
  then show ?thesis using reached_file [OF assms(1), of n] by (auto simp: files_view_def)
next
  case (BySymbol n)
  then show ?thesis using reached_symbol [OF assms(1), of n] assms(2) by (auto simp: files_view_def)
next
  case (ByExtension n k)
  then show ?thesis using reached_extension [OF assms(1), of n k] by (auto simp: files_view_def)
next
  case (Numbers n)
  then show ?thesis using reached_numbers [OF assms(1), of n] by auto
next
  case Names
  then show ?thesis using reached_names [OF assms(1)] by auto
qed

lemma spec_step_files: "snd (spec_step g c fs) = fs @ map g (added c)"
  by (cases c) simp_all

theorem run_refines:
  assumes "reached fs s" and "list_all (call_ok askable) cs" and "\<forall>x \<in> set (concat (map added cs)). content x \<noteq> None"
    and "consistent (fs @ map (\<lambda>x. the (content x)) (concat (map added cs)))"
  shows "db_run D add cs s = spec_run (\<lambda>x. the (content x)) cs fs"
  using assms
proof (induction cs arbitrary: fs s)
  case (Cons c cs)
  have "consistent (fs @ map (\<lambda>x. the (content x)) (added c))"
    using Cons.prems(4) consistent_append [of "fs @ map (\<lambda>x. the (content x)) (added c)"] by simp
  then obtain s' where s': "db_step D add c s = (fst (spec_step (\<lambda>x. the (content x)) c fs), s')"
    "reached (snd (spec_step (\<lambda>x. the (content x)) c fs)) s'"
    using reached_step [OF Cons.prems(1), of c] Cons.prems(2,3) by auto
  then show ?case using Cons.IH [OF s'(2)] Cons.prems(2-4) by (simp add: spec_step_files case_prod_beta)
qed simp

end

sublocale file_database \<subseteq> db: database D "\<lambda>s w. \<exists>fs. reached fs s \<and> w = files_view fs" askable
proof (unfold_locales, goal_cases)
  case (1 s w)
  then show ?case using reached_consistent files_view_coherent by (auto simp: consistent_def)
next
  case (2 s w n)
  then show ?case using reached_file by blast
next
  case (3 s w n)
  then show ?case using reached_symbol by blast
next
  case (4 s w n k)
  then show ?case using reached_extension by blast
next
  case (5 s w n)
  then obtain fs where fs: "reached fs s" "w = files_view fs" by auto
  obtain r s' where "db_FindAllExtensionNumbers D n s = (r, s')" "reached fs s'"
    "map_option sort r = (if spec_numbers fs n = [] then None else Some (sort (spec_numbers fs n)))"
    using reached_numbers [OF fs(1)] by blast
  moreover have "v_numbers w n = nonempty (set (spec_numbers fs n))"
    by (fastforce simp: fs(2) files_view_def spec_numbers_def image_iff intro!: arg_cong [where f = nonempty])
  ultimately show ?case using sorted_option fs(2) by metis
next
  case (6 s w)
  then show ?case using reached_names by (fastforce simp: files_view_def dest: arg_cong [where f = set])
qed

end
