(* ===== verification/Database_Adds.thy ===== *)
theory Database_Adds
  imports Database_Spec
begin

section \<open>Entering the declarations of a file\<close>

text \<open>
  \<open>holds s S E\<close>: the index \<open>s\<close> has the symbols \<open>S\<close> and the extensions \<open>E\<close>, with their values.
  \<open>adds holds v f ss ks\<close>: the step \<open>f\<close> of \<open>AddFile\<close> enters the symbols \<open>ss\<close> and the keys \<open>ks\<close>
  with the value \<open>v\<close>, when none of them is in conflict. Both databases compose their
  \<open>AddFile\<close> from such steps.
\<close>

definition fresh_symbols :: "(string \<times> 'v) set \<Rightarrow> string list \<Rightarrow> bool" where
  "fresh_symbols S ss \<longleftrightarrow> independent (fst ` S \<union> set ss) \<and> distinct ss \<and> fst ` S \<inter> set ss = {}"

definition fresh_keys :: "((string \<times> int) \<times> 'v) set \<Rightarrow> (string \<times> int) list \<Rightarrow> bool" where
  "fresh_keys E ks \<longleftrightarrow> distinct ks \<and> fst ` E \<inter> set ks = {}"

definition with_value :: "'v \<Rightarrow> 'k list \<Rightarrow> ('k \<times> 'v) set" where
  "with_value v ks = (\<lambda>k. (k, v)) ` set ks"

lemma with_value_simps [simp]:
  "with_value v [] = {}" "with_value v (k # ks) = insert (k, v) (with_value v ks)"
  "with_value v (ks @ ls) = with_value v ks \<union> with_value v ls" "fst ` with_value v ks = set ks"
  by (auto simp: with_value_def image_image)

definition adds ::
  "('s \<Rightarrow> (string \<times> 'v) set \<Rightarrow> ((string \<times> int) \<times> 'v) set \<Rightarrow> bool) \<Rightarrow> 'v \<Rightarrow> ('s \<Rightarrow> bool \<times> 's)
     \<Rightarrow> string list \<Rightarrow> (string \<times> int) list \<Rightarrow> bool" where
  "adds holds v f ss ks \<longleftrightarrow> (\<forall>s S E. holds s S E \<longrightarrow> fresh_symbols S ss \<longrightarrow> fresh_keys E ks \<longrightarrow>
     (\<exists>s'. f s = (True, s') \<and> holds s' (S \<union> with_value v ss) (E \<union> with_value v ks)))"

lemma addsD:
  assumes "adds holds v f ss ks" and "holds s S E" and "fresh_symbols S ss" and "fresh_keys E ks"
  obtains s' where "f s = (True, s')" and "holds s' (S \<union> with_value v ss) (E \<union> with_value v ks)"
  using assms unfolding adds_def by blast

lemma adds_and_then:
  assumes f: "adds holds v f ss ks" and g: "adds holds v g ts ls"
  shows "adds holds v (and_then f g) (ss @ ts) (ks @ ls)"
  unfolding adds_def
proof (intro allI impI)
  fix s S E
  assume h: "holds s S E" and S: "fresh_symbols S (ss @ ts)" and E: "fresh_keys E (ks @ ls)"
  have "fresh_symbols S ss" "fresh_keys E ks"
    using S E by (auto simp: fresh_symbols_def fresh_keys_def independent_def)
  from addsD [OF f h this] obtain s' where s': "f s = (True, s')" "holds s' (S \<union> with_value v ss) (E \<union> with_value v ks)" .
  have "fresh_symbols (S \<union> with_value v ss) ts" "fresh_keys (E \<union> with_value v ks) ls"
    using S E by (auto simp: fresh_symbols_def fresh_keys_def image_Un Un_assoc)
  from addsD [OF g s'(2) this] obtain t where "g s' = (True, t)"
    "holds t (S \<union> with_value v ss \<union> with_value v ts) (E \<union> with_value v ks \<union> with_value v ls)" .
  then show "\<exists>s'. and_then f g s = (True, s')
      \<and> holds s' (S \<union> with_value v (ss @ ts)) (E \<union> with_value v (ks @ ls))"
    using s'(1) by (auto simp: and_then_def Un_assoc)
qed

lemma adds_nothing: "adds holds v (Pair True) [] []"
  by (simp add: adds_def)

lemma adds_all:
  assumes "\<And>x. x \<in> set xs \<Longrightarrow> adds holds v (f x) (ss x) (ks x)"
  shows "adds holds v (add_all f xs) (concat (map ss xs)) (concat (map ks xs))"
  using assms
proof (induction xs)
  case Nil
  then show ?case by (simp add: adds_def)
next
  case (Cons x xs)
  have "add_all f (x # xs) = and_then (f x) (add_all f xs)" by (simp add: fun_eq_iff)
  then show ?case using adds_and_then [OF Cons.prems [of x] Cons.IH] Cons.prems by simp
qed

lemma adds_singles:
  assumes "\<And>x. x \<in> set xs \<Longrightarrow> adds holds v (f x) [s x] []"
  shows "adds holds v (add_all f xs) (map s xs) []"
  using adds_all [of xs holds v f "\<lambda>x. [s x]" "\<lambda>_. []"] assms by (simp add: concat_map_singleton concat_eq_Nil_conv [THEN iffD2])

lemma adds_keys:
  assumes "\<And>x. x \<in> set xs \<Longrightarrow> adds holds v (f x) [] (ks x)"
  shows "adds holds v (add_all f xs) [] (concat (map ks xs))"
  using adds_all [of xs holds v f "\<lambda>_. []" ks] assms by (simp add: concat_eq_Nil_conv [THEN iffD2])

lemma nested_keys:
  "concat (map extension_key (message_extensions (DescriptorProto name nested exts)))
    = concat (map (\<lambda>d. concat (map extension_key (message_extensions d))) nested) @ concat (map extension_key exts)"
  by (induction nested) auto

subsection \<open>What a step keeps, whatever happens\<close>

definition keeps :: "('s \<Rightarrow> bool) \<Rightarrow> ('s \<Rightarrow> bool \<times> 's) \<Rightarrow> bool" where
  "keeps P f \<longleftrightarrow> (\<forall>s. P s \<longrightarrow> P (snd (f s)))"

lemma keeps_and_then: "keeps P f \<Longrightarrow> keeps P g \<Longrightarrow> keeps P (and_then f g)"
  by (auto simp: keeps_def and_then_def split: prod.splits)

lemma keeps_all: "(\<And>x. x \<in> set xs \<Longrightarrow> keeps P (f x)) \<Longrightarrow> keeps P (add_all f xs)"
proof (induction xs)
  case (Cons x xs)
  have "add_all f (x # xs) = and_then (f x) (add_all f xs)" by (simp add: fun_eq_iff)
  then show ?case using keeps_and_then [of P "f x" "add_all f xs"] Cons by simp
qed (simp add: keeps_def)

text \<open>The body of \<open>AddFile\<close>, over the steps of either index.\<close>

definition add_declarations ::
  "(string \<Rightarrow> 's \<Rightarrow> bool \<times> 's) \<Rightarrow> (descriptor_proto \<Rightarrow> 's \<Rightarrow> bool \<times> 's) \<Rightarrow> (field_proto \<Rightarrow> 's \<Rightarrow> bool \<times> 's)
     \<Rightarrow> file_proto \<Rightarrow> 's \<Rightarrow> bool \<times> 's" where
  "add_declarations add_symbol add_nested add_extension file =
     and_then (add_all (\<lambda>d. and_then (add_symbol (set_or_empty (message_name d))) (add_nested d)) (message_type file))
     (and_then (add_all add_symbol (enum_type file))
     (and_then (add_all (\<lambda>x. and_then (add_symbol (field_name x)) (add_extension x)) (extension file))
      (add_all add_symbol (service file))))"

lemma adds_declarations:
  assumes "\<And>s. s \<in> set (local_symbols f) \<Longrightarrow> adds holds v (add_symbol s) [symbol_path f @ s] []"
    and "\<And>d. adds holds v (add_nested d) [] (concat (map extension_key (message_extensions d)))"
    and "\<And>x. adds holds v (add_extension x) [] (extension_key x)"
  shows "adds holds v (add_declarations add_symbol add_nested add_extension f) (file_symbols f) (file_keys f)"
proof -
  have m: "adds holds v (add_all (\<lambda>d. and_then (add_symbol (set_or_empty (message_name d))) (add_nested d)) (message_type f))
      (concat (map (\<lambda>d. [symbol_path f @ set_or_empty (message_name d)] @ []) (message_type f)))
      (concat (map (\<lambda>d. [] @ concat (map extension_key (message_extensions d))) (message_type f)))"
    by (rule adds_all, rule adds_and_then) (use assms(1,2) in \<open>auto simp: local_symbols_def\<close>)
  have e: "adds holds v (add_all add_symbol (enum_type f)) (map ((@) (symbol_path f)) (enum_type f)) []"
    by (rule adds_singles) (use assms(1) in \<open>auto simp: local_symbols_def\<close>)
  have x: "adds holds v (add_all (\<lambda>x. and_then (add_symbol (field_name x)) (add_extension x)) (extension f))
      (concat (map (\<lambda>x. [symbol_path f @ field_name x] @ []) (extension f)))
      (concat (map (\<lambda>x. [] @ extension_key x) (extension f)))"
    by (rule adds_all, rule adds_and_then) (use assms(1,3) in \<open>auto simp: local_symbols_def\<close>)
  have s: "adds holds v (add_all add_symbol (service f)) (map ((@) (symbol_path f)) (service f)) []"
    by (rule adds_singles) (use assms(1) in \<open>auto simp: local_symbols_def\<close>)
  have k: "concat (map extension_key (concat (map message_extensions ms)))
      = concat (map (\<lambda>d. concat (map extension_key (message_extensions d))) ms)" for ms
    by (induction ms) auto
  show ?thesis
    using adds_and_then [OF m adds_and_then [OF e adds_and_then [OF x s]]]
    by (simp add: add_declarations_def file_symbols_def local_symbols_def file_keys_def file_extensions_def k
        concat_map_singleton comp_def)
qed

lemma keeps_declarations:
  assumes "\<And>s. keeps P (add_symbol s)" and "\<And>d. keeps P (add_nested d)" and "\<And>x. keeps P (add_extension x)"
  shows "keeps P (add_declarations add_symbol add_nested add_extension f)"
  unfolding add_declarations_def by (intro keeps_and_then keeps_all assms)

subsection \<open>The declarations of all files\<close>

definition declared :: "(file_proto \<Rightarrow> 'k list) \<Rightarrow> ('v \<times> file_proto) list \<Rightarrow> ('k \<times> 'v) set" where
  "declared h vs = (\<Union>(v, f) \<in> set vs. with_value v (h f))"

lemma declared_simps [simp]:
  "declared h [] = {}" "declared h (vs @ [(v, f)]) = declared h vs \<union> with_value v (h f)"
  "fst ` declared h vs = set (concat (map h (map snd vs)))"
  by (auto simp: declared_def image_UN with_value_def image_image split_beta)

lemma declared_iff: "(k, v) \<in> declared h vs \<longleftrightarrow> (\<exists>f. (v, f) \<in> set vs \<and> k \<in> set (h f))"
  by (auto simp: declared_def with_value_def)

lemma consistent_last:
  assumes "consistent (map snd vs @ [f])"
  shows "fresh_symbols (declared file_symbols vs) (file_symbols f)" and "fresh_keys (declared file_keys vs) (file_keys f)"
    and "file_name f \<notin> file_name ` set (map snd vs)" and "well_named f" and "consistent (map snd vs)"
  using assms consistent_append [OF assms] by (auto simp: consistent_def fresh_symbols_def fresh_keys_def image_image)

lemma distinct_concat_unique:
  "distinct (concat (map h fs)) \<Longrightarrow> f \<in> set fs \<Longrightarrow> g \<in> set fs \<Longrightarrow> x \<in> set (h f) \<Longrightarrow> x \<in> set (h g) \<Longrightarrow> f = g"
  by (induction fs) auto

lemma find_unique:
  assumes "\<And>f g. f \<in> set fs \<Longrightarrow> g \<in> set fs \<Longrightarrow> P f \<Longrightarrow> P g \<Longrightarrow> f = g"
  shows "find P fs = Some f \<longleftrightarrow> f \<in> set fs \<and> P f"
proof
  assume "f \<in> set fs \<and> P f"
  moreover from this obtain g where "find P fs = Some g" using find_None_iff [of P fs] by fastforce
  ultimately show "find P fs = Some f" using assms find_in by metis
qed (rule find_in)

text \<open>A lookup that returns an entry of the index agrees with the reference.\<close>

lemma view_symbol:
  assumes "consistent fs"
  shows "v_symbol (files_view fs) n = Some f \<longleftrightarrow> f \<in> set fs \<and> (\<exists>s \<in> set (file_symbols f). within s n)"
proof -
  have "f = g" if "f \<in> set fs" "g \<in> set fs" "s \<in> set (file_symbols f)" "within s n" "t \<in> set (file_symbols g)" "within t n"
    for f g s t
  proof -
    have "s = t"
      using assms that independent_unique [of "set (concat (map file_symbols fs))" s t n] by (auto simp: consistent_def)
    then show ?thesis using assms that distinct_concat_unique [of file_symbols fs f g s] by (simp add: consistent_def)
  qed
  then show ?thesis unfolding files_view_def by (simp add: find_unique) (rule find_unique, blast)
qed

lemma view_extension:
  assumes "consistent fs"
  shows "v_extension (files_view fs) t k = Some f \<longleftrightarrow> f \<in> set fs \<and> (t, k) \<in> set (file_keys f)"
  using assms distinct_concat_unique [of file_keys fs]
  unfolding files_view_def consistent_def by (simp add: find_unique)

lemma view_file:
  assumes "consistent fs"
  shows "v_file (files_view fs) n = Some f \<longleftrightarrow> f \<in> set fs \<and> file_name f = n"
  using assms by (simp add: files_view_def consistent_def find_by_name)

lemma option_eqI: "(\<And>x. a = Some x \<longleftrightarrow> b = Some x) \<Longrightarrow> a = b"
  by (metis option.exhaust)

lemma sort_eqI:
  assumes "distinct xs" and "distinct ys" and "set xs = set (ys :: 'a::linorder list)"
  shows "sort xs = sort ys"
  using assms by (simp add: sorted_distinct_set_unique)

lemma numbers_sorted:
  assumes "consistent fs" and "distinct r"
    and "set r = {k. 0 \<le> k \<and> (t, k) \<in> set (concat (map file_keys fs))}"
  shows "map_option sort (if r = [] then None else Some r)
    = (if spec_numbers fs t = [] then None else Some (sort (spec_numbers fs t)))"
proof -
  have "set (spec_numbers fs t) = set r" using assms(3) by (force simp: spec_numbers_def)
  moreover have "distinct (map snd (filter (\<lambda>p. fst p = t) ks))" if "distinct ks" for ks :: "(string \<times> int) list"
    using that by (induction ks) auto
  then have "distinct (spec_numbers fs t)"
    using assms(1) unfolding consistent_def spec_numbers_def by (blast intro: distinct_filter)
  ultimately have "sort r = sort (spec_numbers fs t)" "r = [] \<longleftrightarrow> spec_numbers fs t = []"
    using sort_eqI [OF assms(2)] by (metis, metis set_empty)
  then show ?thesis by auto
qed

text \<open>The run of the extensions of one type, from the lower bound of the number zero.\<close>

lemma extension_run:
  assumes "strict key xs" and "\<forall>e \<in> set xs. lt e v \<longleftrightarrow> key e < (t, 0 :: int)"
  shows "takeWhile (\<lambda>e. fst (key e) = t) (drop (std_lower_bound lt v xs) xs)
    = filter (\<lambda>e. fst (key e) = t \<and> 0 \<le> snd (key e)) xs"
proof -
  have run: "takeWhile (\<lambda>e. fst (key e) = t) ys = filter (\<lambda>e. fst (key e) = t) ys"
    if "strict key ys" "\<forall>e \<in> set ys. (t, 0) \<le> key e" for ys
    using that
  proof (induction ys)
    case (Cons y ys)
    have "fst (key e) \<noteq> t" if "fst (key y) \<noteq> t" "e \<in> set ys" for e
    proof -
      have "(t, 0) \<le> key y" "key y < key e" using Cons.prems that by auto
      then show ?thesis using that(1) by (auto simp: less_eq_prod_def less_prod_def)
    qed
    then show ?case using Cons by (auto simp: filter_empty_conv)
  qed simp
  have "takeWhile (\<lambda>e. fst (key e) = t) (drop (std_lower_bound lt v xs) xs)
      = takeWhile (\<lambda>e. fst (key e) = t) (filter (\<lambda>e. (t, 0) \<le> key e) xs)"
    using lower_bound_strict [where key = key and xs = xs and lt = lt and v = v and w = "(t, 0)", OF assms] by simp
  also have "\<dots> = filter (\<lambda>e. fst (key e) = t) (filter (\<lambda>e. (t, 0) \<le> key e) xs)"
    by (rule run) (use assms(1) in \<open>auto intro: sorted_wrt_filter\<close>)
  also have "\<dots> = filter (\<lambda>e. fst (key e) = t \<and> 0 \<le> snd (key e)) xs"
    by (auto simp: less_eq_prod_def intro!: filter_cong)
  finally show ?thesis .
qed

end
