(* ===== verification/Simple_Database_Laws.thy ===== *)
theory Simple_Database_Laws
  imports Database_Adds
begin

section \<open>SimpleDescriptorDatabase\<close>

text \<open>
  The index of \<open>SimpleDescriptorDatabase\<close>: what each insertion and lookup does, what holds after
  any additions (\<open>simple_inv\<close>), and that the database implements the reference for consistent
  files (\<open>simple_files\<close>). The properties state when \<open>AddSymbol\<close> accepts a name, and that it
  accepts one conflict that it should refuse.
\<close>

subsection \<open>The index\<close>

definition simple_holds ::
  "(string \<times> 'v) set \<Rightarrow> 'v simple_index \<Rightarrow> (string \<times> 'v) set \<Rightarrow> ((string \<times> int) \<times> 'v) set \<Rightarrow> bool" where
  "simple_holds N ix S E \<longleftrightarrow>
     strict fst (by_name ix) \<and> set (by_name ix) = N
   \<and> strict fst (by_symbol ix) \<and> set (by_symbol ix) = S
   \<and> strict fst (by_extension ix) \<and> set (by_extension ix) = E
   \<and> independent (fst ` S) \<and> (\<forall>k \<in> fst ` S. ValidateSymbolName k)"

abbreviation name_less :: "string \<Rightarrow> string \<times> 'v \<Rightarrow> bool" where
  "name_less k p \<equiv> k < fst p"

lemma simple_named:
  assumes "strict fst (by_symbol ix)" and "\<forall>e \<in> set (by_symbol ix). ValidateSymbolName (fst e)"
  shows "named fst (by_symbol ix) name_less name name"
  by unfold_locales (use assms in auto)

lemma map_of_strict: "strict fst m \<Longrightarrow> map_of m k = Some v \<longleftrightarrow> (k, v) \<in> set m"
  by (rule map_of_eq_Some_iff, induction m) auto

lemma insert_by_key:
  assumes "strict fst m" and "btree_insert (by_key (<)) (k, v) m = (b, m')"
  shows "b \<longleftrightarrow> k \<notin> fst ` set m" and "strict fst m'" and "b \<Longrightarrow> set m' = insert (k, v) (set m)" and "\<not> b \<Longrightarrow> m' = m"
  using btree_insert_result [where key = fst and lt = "by_key (<)" and xs = m and x = "(k, v)", OF assms(1) _ assms(2)]
  by (auto simp: by_key_def)

text \<open>\<open>AddSymbol\<close> is the test of the locale \<open>named\<close>, followed by the insertion.\<close>

lemma AddSymbol_cases:
  assumes "absl_ok A" and "strict fst (by_symbol ix)" and "\<forall>e \<in> set (by_symbol ix). ValidateSymbolName (fst e)"
  shows "index_AddSymbol A name v ix =
    (if ValidateSymbolName name \<and> named.accepted fst (by_symbol ix) name_less name name
     then (True, ix\<lparr>by_symbol := snd (btree_insert (by_key (<)) (name, v) (by_symbol ix))\<rparr>) else (False, ix))"
  unfolding named.accepted_def [OF simple_named [OF assms(2,3)]]
  by (simp add: index_AddSymbol_def IsSubSymbol_within [OF assms(1)] Let_def)

lemma AddSymbol_keeps:
  assumes "absl_ok A" and "strict fst (by_symbol ix)" and "\<forall>e \<in> set (by_symbol ix). ValidateSymbolName (fst e)"
    and "index_AddSymbol A name v ix = (b, ix')"
  shows "strict fst (by_symbol ix')" and "\<forall>e \<in> set (by_symbol ix'). ValidateSymbolName (fst e)"
    and "set (by_symbol ix') \<subseteq> insert (name, v) (set (by_symbol ix))"
    and "by_name ix' = by_name ix" and "by_extension ix' = by_extension ix"
proof -
  obtain c m where m: "btree_insert (by_key (<)) (name, v) (by_symbol ix) = (c, m)" by fastforce
  have s: "strict fst m" "set m \<subseteq> insert (name, v) (set (by_symbol ix))"
    using insert_by_key [OF assms(2) m] by (cases c; auto)+
  show "strict fst (by_symbol ix')" "set (by_symbol ix') \<subseteq> insert (name, v) (set (by_symbol ix))"
    "by_name ix' = by_name ix" "by_extension ix' = by_extension ix"
    using AddSymbol_cases [OF assms(1-3)] assms(2,4) m s by (auto split: if_splits)
  show "\<forall>e \<in> set (by_symbol ix'). ValidateSymbolName (fst e)"
    using AddSymbol_cases [OF assms(1-3)] assms(3,4) m s by (auto split: if_splits)
qed

lemma AddSymbol_adds:
  assumes "absl_ok A" and "ValidateSymbolName name"
  shows "adds (simple_holds N) v (index_AddSymbol A name v) [name] []"
  unfolding adds_def
proof (intro allI impI)
  fix ix S E
  assume h: "simple_holds N ix S E" and f: "fresh_symbols S [name]"
  have s: "strict fst (by_symbol ix)" "\<forall>e \<in> set (by_symbol ix). ValidateSymbolName (fst e)" "set (by_symbol ix) = S"
    using h by (auto simp: simple_holds_def)
  have n: "independent (insert name (fst ` S))" "name \<notin> fst ` S" using f by (auto simp: fresh_symbols_def)
  have "\<not> within (fst e) name \<and> \<not> within name (fst e)" if "e \<in> S" for e
    using n that by (force simp: independent_insert)
  then have a: "named.accepted fst (by_symbol ix) name_less name name"
    using named.no_conflict_accepted [OF simple_named [OF s(1,2)]] s(3) by blast
  obtain c m where m: "btree_insert (by_key (<)) (name, v) (by_symbol ix) = (c, m)" by fastforce
  have "c" using insert_by_key(1) [OF s(1) m] n(2) s(3) by simp
  then have "strict fst m" "set m = insert (name, v) S" using insert_by_key [OF s(1) m] s(3) by auto
  then have "simple_holds N (ix\<lparr>by_symbol := m\<rparr>) (insert (name, v) S) E"
    using h n(1) assms(2) by (simp add: simple_holds_def)
  then show "\<exists>ix'. index_AddSymbol A name v ix = (True, ix')
      \<and> simple_holds N ix' (S \<union> with_value v [name]) (E \<union> with_value v [])"
    using AddSymbol_cases [OF assms(1) s(1,2)] assms(2) a m by simp
qed

lemma AddExtension_adds: "adds (simple_holds N) v (index_AddExtension x v) [] (extension_key x)"
  unfolding adds_def
proof (intro allI impI)
  fix ix S E
  assume h: "simple_holds N ix S E" and f: "fresh_keys E (extension_key x)"
  show "\<exists>ix'. index_AddExtension x v ix = (True, ix')
      \<and> simple_holds N ix' (S \<union> with_value v []) (E \<union> with_value v (extension_key x))"
  proof (cases "field_extendee x \<noteq> [] \<and> hd (field_extendee x) = CHR ''.''")
    case True
    define k where "k = (tl (field_extendee x), field_number x)"
    have k: "extension_key x = [k]" using True by (simp add: k_def extension_key_if)
    obtain c m where m: "btree_insert (by_key (<)) (k, v) (by_extension ix) = (c, m)" by fastforce
    have e: "strict fst (by_extension ix)" "set (by_extension ix) = E" using h by (auto simp: simple_holds_def)
    have "c" using insert_by_key(1) [OF e(1) m] f k e(2) by (simp add: fresh_keys_def)
    then have "strict fst m" "set m = insert (k, v) E" using insert_by_key [OF e(1) m] e(2) by auto
    then show ?thesis
      using True m h k \<open>c\<close> by (auto simp: index_AddExtension_def simple_holds_def k_def)
  next
    case False
    then have "extension_key x = []" by (auto simp: extension_key_if)
    then show ?thesis using False h by (auto simp: index_AddExtension_def)
  qed
qed

lemma AddNestedExtensions_adds:
  "adds (simple_holds N) v (index_AddNestedExtensions d v) [] (concat (map extension_key (message_extensions d)))"
proof (induction d)
  case (DescriptorProto name nested exts)
  have n: "adds (simple_holds N) v (add_all (\<lambda>d. index_AddNestedExtensions d v) nested) []
      (concat (map (\<lambda>d. concat (map extension_key (message_extensions d))) nested))"
    by (rule adds_keys) (rule DescriptorProto)
  have x: "adds (simple_holds N) v (add_all (\<lambda>f. index_AddExtension f v) exts) [] (concat (map extension_key exts))"
    by (rule adds_keys) (rule AddExtension_adds)
  have "index_AddNestedExtensions (DescriptorProto name nested exts) v
      = and_then (add_all (\<lambda>d. index_AddNestedExtensions d v) nested) (add_all (\<lambda>f. index_AddExtension f v) exts)"
    by (simp add: fun_eq_iff)
  then show ?case using adds_and_then [OF n x] by (simp only: nested_keys append_Nil)
qed

lemma index_AddFile_declarations:
  "index_AddFile A file v ix =
     (case btree_insert (by_key (<)) (file_name file, v) (by_name ix) of
        (b, m) \<Rightarrow> if \<not> b then (False, ix\<lparr>by_name := m\<rparr>)
          else add_declarations (\<lambda>s. index_AddSymbol A (symbol_path file @ s) v)
            (\<lambda>d. index_AddNestedExtensions d v) (\<lambda>x. index_AddExtension x v) file (ix\<lparr>by_name := m\<rparr>))"
  by (simp add: index_AddFile_def add_declarations_def Let_def split: prod.split)

lemma AddFile_adds:
  assumes "absl_ok A" and "well_named f" and "simple_holds N ix S E" and "file_name f \<notin> fst ` N"
    and "fresh_symbols S (file_symbols f)" and "fresh_keys E (file_keys f)"
  obtains ix' where "index_AddFile A f v ix = (True, ix')"
    and "simple_holds (insert (file_name f, v) N) ix' (S \<union> with_value v (file_symbols f)) (E \<union> with_value v (file_keys f))"
proof -
  obtain b m where m: "btree_insert (by_key (<)) (file_name f, v) (by_name ix) = (b, m)" by fastforce
  have n: "strict fst (by_name ix)" "set (by_name ix) = N" using assms(3) by (auto simp: simple_holds_def)
  have b: "b" using insert_by_key(1) [OF n(1) m] assms(4) n(2) by simp
  then have h: "simple_holds (insert (file_name f, v) N) (ix\<lparr>by_name := m\<rparr>) S E"
    using insert_by_key [OF n(1) m] assms(3) n(2) by (simp add: simple_holds_def)
  have "symbol_path f @ s \<in> set (file_symbols f)" if "s \<in> set (local_symbols f)" for s
    using that by (simp add: file_symbols_def)
  then have "adds (simple_holds (insert (file_name f, v) N)) v (add_declarations
      (\<lambda>s. index_AddSymbol A (symbol_path f @ s) v) (\<lambda>d. index_AddNestedExtensions d v) (\<lambda>x. index_AddExtension x v) f)
      (file_symbols f) (file_keys f)"
    by (intro adds_declarations AddSymbol_adds AddNestedExtensions_adds AddExtension_adds assms(1))
      (use symbols_valid [OF assms(2)] in blast)
  from addsD [OF this h assms(5,6)] show ?thesis
    using that m b by (auto simp: index_AddFile_declarations)
qed

subsection \<open>Lookups\<close>

lemma FindSymbol_some:
  assumes "absl_ok A" and "strict fst (by_symbol ix)" and "\<forall>e \<in> set (by_symbol ix). ValidateSymbolName (fst e)"
    and "index_FindSymbol A n ix = Some v"
  shows "\<exists>k. (k, v) \<in> set (by_symbol ix) \<and> within k n"
  using assms(4) named.last_le_bound [OF simple_named [OF assms(2,3)], of n]
  by (auto simp: index_FindSymbol_def IsSubSymbol_within [OF assms(1)] Let_def split: if_splits)
     (metis nth_mem prod.collapse length_pos_if_in_set neq_Nil_conv list.set_intros(1))

lemma FindSymbol_iff:
  assumes "absl_ok A" and "simple_holds N ix S E"
  shows "index_FindSymbol A n ix = Some v \<longleftrightarrow> (\<exists>k. (k, v) \<in> S \<and> within k n)"
proof
  have s: "strict fst (by_symbol ix)" "\<forall>e \<in> set (by_symbol ix). ValidateSymbolName (fst e)" "set (by_symbol ix) = S"
    "independent (fst ` set (by_symbol ix))"
    using assms(2) by (auto simp: simple_holds_def)
  note named = simple_named [OF s(1,2), of n]
  show "\<exists>k. (k, v) \<in> S \<and> within k n" if "index_FindSymbol A n ix = Some v"
    using FindSymbol_some [OF assms(1) s(1,2) that] s(3) by simp
  assume "\<exists>k. (k, v) \<in> S \<and> within k n"
  then obtain k where k: "(k, v) \<in> set (by_symbol ix)" "within k n" using s(3) by auto
  show "index_FindSymbol A n ix = Some v"
    using named.covered_at [OF named s(4) k(1)] k named.last_le_bound [OF named]
    by (simp add: index_FindSymbol_def IsSubSymbol_within [OF assms(1)])
qed

subsection \<open>After any additions\<close>

text \<open>Every indexed file is found under its name, whether the additions succeeded or not.\<close>

definition simple_index_ok :: "file_proto simple_index \<Rightarrow> bool" where
  "simple_index_ok ix \<longleftrightarrow>
     strict fst (by_name ix) \<and> strict fst (by_symbol ix) \<and> strict fst (by_extension ix)
   \<and> (\<forall>e \<in> set (by_symbol ix). ValidateSymbolName (fst e))
   \<and> (\<forall>(k, f) \<in> set (by_name ix). file_name f = k)
   \<and> (\<forall>f \<in> snd ` set (by_symbol ix) \<union> snd ` set (by_extension ix). (file_name f, f) \<in> set (by_name ix))"

definition indexed :: "file_proto \<Rightarrow> file_proto simple_index \<Rightarrow> bool" where
  "indexed f ix \<longleftrightarrow> simple_index_ok ix \<and> (file_name f, f) \<in> set (by_name ix)"

definition index_values :: "'v simple_index \<Rightarrow> 'v set" where
  "index_values ix = snd ` set (by_symbol ix) \<union> snd ` set (by_extension ix)"

lemma indexed_step:
  assumes ix: "indexed f ix" and n: "by_name ix' = by_name ix" and "strict fst (by_symbol ix')" and "strict fst (by_extension ix')"
    and "\<forall>e \<in> set (by_symbol ix'). ValidateSymbolName (fst e)" and v: "index_values ix' \<subseteq> insert f (index_values ix)"
  shows "indexed f ix'"
proof -
  have "\<forall>g \<in> insert f (index_values ix). (file_name g, g) \<in> set (by_name ix)"
    using ix by (simp add: indexed_def simple_index_ok_def index_values_def)
  then have "\<forall>g \<in> index_values ix'. (file_name g, g) \<in> set (by_name ix')" using v n by auto
  then show ?thesis
    using ix assms(3-5) n unfolding indexed_def simple_index_ok_def index_values_def by simp
qed

lemma AddSymbol_indexed: "absl_ok A \<Longrightarrow> keeps (indexed f) (index_AddSymbol A s f)"
  unfolding keeps_def
proof (intro allI impI)
  fix ix
  assume A: "absl_ok A" and ix: "indexed f ix"
  obtain b ix' where r: "index_AddSymbol A s f ix = (b, ix')" by fastforce
  have i: "strict fst (by_symbol ix)" "\<forall>e \<in> set (by_symbol ix). ValidateSymbolName (fst e)" "strict fst (by_extension ix)"
    using ix by (auto simp: indexed_def simple_index_ok_def)
  note k = AddSymbol_keeps [OF A i(1,2) r]
  have "index_values ix' \<subseteq> insert f (index_values ix)"
    using k(3,5) by (auto simp: index_values_def)
  then show "indexed f (snd (index_AddSymbol A s f ix))"
    using indexed_step [OF ix k(4,1) _ k(2)] k(5) i(3) r by simp
qed

lemma AddExtension_indexed: "keeps (indexed f) (index_AddExtension x f)"
  unfolding keeps_def
proof (intro allI impI)
  fix ix
  assume ix: "indexed f ix"
  obtain b m where r: "btree_insert (by_key (<)) ((tl (field_extendee x), field_number x), f) (by_extension ix) = (b, m)"
    by fastforce
  have i: "strict fst (by_extension ix)" using ix by (simp add: indexed_def simple_index_ok_def)
  have "snd ` set m \<subseteq> insert f (snd ` set (by_extension ix))" using insert_by_key [OF i r] by (cases b) auto
  then have "indexed f (ix\<lparr>by_extension := m\<rparr>)"
    using insert_by_key(2) [OF i r] ix
    by (intro indexed_step [OF ix]) (auto simp: index_values_def indexed_def simple_index_ok_def)
  then show "indexed f (snd (index_AddExtension x f ix))"
    using ix r by (simp add: index_AddExtension_def)
qed

lemma AddNestedExtensions_indexed: "keeps (indexed f) (index_AddNestedExtensions d f)"
proof (induction d)
  case (DescriptorProto name nested exts)
  have "index_AddNestedExtensions (DescriptorProto name nested exts) f
      = and_then (add_all (\<lambda>d. index_AddNestedExtensions d f) nested) (add_all (\<lambda>x. index_AddExtension x f) exts)"
    by (simp add: fun_eq_iff)
  then show ?case using DescriptorProto by (simp add: keeps_and_then keeps_all AddExtension_indexed)
qed

lemma AddFile_index_ok:
  assumes "absl_ok A" and "simple_index_ok ix"
  shows "simple_index_ok (snd (index_AddFile A f f ix))"
proof -
  obtain b m where m: "btree_insert (by_key (<)) (file_name f, f) (by_name ix) = (b, m)" by fastforce
  have n: "strict fst (by_name ix)" using assms(2) by (simp add: simple_index_ok_def)
  have "keeps (indexed f) (add_declarations (\<lambda>s. index_AddSymbol A (symbol_path f @ s) f)
      (\<lambda>d. index_AddNestedExtensions d f) (\<lambda>x. index_AddExtension x f) f)"
    by (intro keeps_declarations AddSymbol_indexed AddNestedExtensions_indexed AddExtension_indexed assms(1))
  moreover have "indexed f (ix\<lparr>by_name := m\<rparr>)" if b
    using insert_by_key [OF n m] that assms(2) by (auto simp: indexed_def simple_index_ok_def)
  ultimately show ?thesis
    using m insert_by_key(4) [OF n m] assms(2) by (auto simp: index_AddFile_declarations keeps_def indexed_def)
qed

definition simple_view :: "absl \<Rightarrow> file_proto simple_index \<Rightarrow> db_view" where
  "simple_view A ix = \<lparr>v_file = (\<lambda>n. index_FindFile n ix), v_symbol = (\<lambda>n. index_FindSymbol A n ix),
     v_extension = (\<lambda>t k. index_FindExtension t k ix),
     v_numbers = (\<lambda>t. map_option set (index_FindAllExtensionNumbers t ix)),
     v_names = Some (fst ` set (by_name ix))\<rparr>"

definition simple_answers :: "absl \<Rightarrow> simple_database \<Rightarrow> db_view \<Rightarrow> bool" where
  "simple_answers A db w \<longleftrightarrow> absl_ok A \<and> simple_index_ok (sd_index db) \<and> w = simple_view A (sd_index db)"

lemma simple_view_coherent:
  assumes "absl_ok A" and "simple_index_ok ix"
  shows "coherent (simple_view A ix)"
proof -
  have m: "index_FindFile n ix = Some f \<longleftrightarrow> (n, f) \<in> set (by_name ix)" for n f
    using assms(2) by (simp add: index_FindFile_def map_of_strict simple_index_ok_def)
  have named: "file_name f = n" if "(n, f) \<in> set (by_name ix)" for n f
    using assms(2) that by (auto simp: simple_index_ok_def)
  have listed: "(file_name f, f) \<in> set (by_name ix)"
    if "f \<in> snd ` set (by_symbol ix) \<union> snd ` set (by_extension ix)" for f
    using assms(2) that by (simp add: simple_index_ok_def)
  have s: "(file_name f, f) \<in> set (by_name ix)" if f: "index_FindSymbol A n ix = Some f" for n f
  proof -
    have "strict fst (by_symbol ix)" "\<forall>e \<in> set (by_symbol ix). ValidateSymbolName (fst e)"
      using assms(2) by (auto simp: simple_index_ok_def)
    from FindSymbol_some [OF assms(1) this f] show ?thesis by (intro listed) force
  qed
  have e: "(file_name f, f) \<in> set (by_name ix)" if "index_FindExtension t k ix = Some f" for t k f
    using map_of_SomeD [of "by_extension ix" "(t, k)" f] that listed by (force simp: index_FindExtension_def)
  have n: "\<exists>f. index_FindFile n ix = Some f" if "n \<in> fst ` set (by_name ix)" for n
    using m that by fastforce
  show ?thesis
    unfolding coherent_def simple_view_def using s e n by (simp add: m named)
qed

lemma MaybeCopy_id [simp]: "MaybeCopy f = f"
  by (cases f) (auto simp: MaybeCopy_def)

interpretation simple: database "simple_db A" "simple_answers A" "\<lambda>_. True" for A
  by unfold_locales
    (simp add: simple_answers_def simple_view_coherent,
     auto simp: simple_answers_def simple_db_def simple_view_def simple_FindFileByName_def
      simple_FindFileContainingSymbol_def simple_FindFileContainingExtension_def simple_FindAllExtensionNumbers_def
      simple_FindAllFileNames_def index_FindAllFileNames_def)

subsection \<open>The files of a database\<close>

definition simple_reached :: "absl \<Rightarrow> file_proto list \<Rightarrow> simple_database \<Rightarrow> bool" where
  "simple_reached A fs db \<longleftrightarrow> absl_ok A \<and> consistent fs
     \<and> simple_holds ((\<lambda>f. (file_name f, f)) ` set fs) (sd_index db)
         (declared file_symbols (map (\<lambda>f. (f, f)) fs)) (declared file_keys (map (\<lambda>f. (f, f)) fs))"

lemma simple_reached_empty: "absl_ok A \<Longrightarrow> simple_reached A [] SimpleDescriptorDatabase"
  by (simp add: simple_reached_def consistent_def simple_holds_def SimpleDescriptorDatabase_def)

lemma declared_self: "(k, f) \<in> declared h (map (\<lambda>f. (f, f)) fs) \<longleftrightarrow> f \<in> set fs \<and> k \<in> set (h f)"
  by (auto simp: declared_iff)

lemma simple_reached_view:
  assumes "simple_reached A fs db"
  shows "v_file (files_view fs) n = index_FindFile n (sd_index db)"
    and "v_symbol (files_view fs) n = index_FindSymbol A n (sd_index db)"
    and "v_extension (files_view fs) n k = index_FindExtension n k (sd_index db)"
proof -
  have h: "absl_ok A" "consistent fs" "simple_holds ((\<lambda>f. (file_name f, f)) ` set fs) (sd_index db)
         (declared file_symbols (map (\<lambda>f. (f, f)) fs)) (declared file_keys (map (\<lambda>f. (f, f)) fs))"
    using assms by (auto simp: simple_reached_def)
  show "v_file (files_view fs) n = index_FindFile n (sd_index db)"
    by (rule option_eqI)
      (use h in \<open>auto simp: view_file index_FindFile_def simple_holds_def map_of_strict\<close>)
  show "v_symbol (files_view fs) n = index_FindSymbol A n (sd_index db)"
    by (rule option_eqI) (auto simp: view_symbol [OF h(2)] FindSymbol_iff [OF h(1,3)] declared_self)
  show "v_extension (files_view fs) n k = index_FindExtension n k (sd_index db)"
    by (rule option_eqI)
      (use h in \<open>auto simp: view_extension index_FindExtension_def simple_holds_def map_of_strict declared_self\<close>)
qed

lemma simple_reached_numbers:
  assumes "simple_reached A fs db"
  shows "map_option sort (index_FindAllExtensionNumbers n (sd_index db))
    = (if spec_numbers fs n = [] then None else Some (sort (spec_numbers fs n)))"
proof -
  define xs where "xs = filter (\<lambda>e. fst (fst e) = n \<and> 0 \<le> snd (fst e)) (by_extension (sd_index db))"
  have e: "strict fst (by_extension (sd_index db))"
    "set (by_extension (sd_index db)) = declared file_keys (map (\<lambda>f. (f, f)) fs)" "consistent fs"
    using assms by (auto simp: simple_reached_def simple_holds_def)
  have r: "index_FindAllExtensionNumbers n (sd_index db) = (if map (snd \<circ> fst) xs = [] then None else Some (map (snd \<circ> fst) xs))"
    using extension_run [where key = fst and xs = "by_extension (sd_index db)" and lt = "\<lambda>p k. fst p < k" and v = "(n, 0)" and t = n, OF e(1)]
    by (simp add: index_FindAllExtensionNumbers_def xs_def Let_def)
  have "distinct (map (snd \<circ> fst) xs)"
    unfolding distinct_map
    using strict_distinct [OF e(1)] strict_inj [OF e(1)] by (auto simp: xs_def inj_on_def)
  moreover have "set (map (snd \<circ> fst) xs) = {k. 0 \<le> k \<and> (n, k) \<in> set (concat (map file_keys fs))}"
    by (auto simp: xs_def e(2) declared_iff image_iff)
  ultimately show ?thesis using numbers_sorted [OF e(3)] unfolding r by blast
qed

lemma simple_Add_reached:
  assumes "simple_reached A fs db" and "consistent (fs @ [f])"
  shows "\<exists>db'. simple_Add A f db = (True, db') \<and> simple_reached A (fs @ [f]) db'"
proof -
  let ?vs = "map (\<lambda>f. (f, f)) fs"
  have h: "absl_ok A" "simple_holds ((\<lambda>f. (file_name f, f)) ` set fs) (sd_index db) (declared file_symbols ?vs) (declared file_keys ?vs)"
    using assms(1) by (auto simp: simple_reached_def)
  have c: "fresh_symbols (declared file_symbols ?vs) (file_symbols f)" "fresh_keys (declared file_keys ?vs) (file_keys f)"
    "file_name f \<notin> fst ` (\<lambda>f. (file_name f, f)) ` set fs" "well_named f"
    using consistent_last [of ?vs f] assms(2) by (simp_all add: comp_def image_image)
  obtain ix' where "index_AddFile A f f (sd_index db) = (True, ix')"
    "simple_holds (insert (file_name f, f) ((\<lambda>f. (file_name f, f)) ` set fs)) ix'
      (declared file_symbols ?vs \<union> with_value f (file_symbols f)) (declared file_keys ?vs \<union> with_value f (file_keys f))"
    by (rule AddFile_adds [OF h(1) c(4) h(2) c(3,1,2)])
  then show ?thesis
    using assms(2) h(1) by (simp add: simple_Add_def simple_AddAndOwn_def simple_reached_def)
qed

interpretation simple_files: file_database "simple_db A" "simple_Add A" Some "simple_reached A" "\<lambda>_. True" for A
proof (unfold_locales, goal_cases)
  case (1 fs s)
  then show ?case by (simp add: simple_reached_def)
next
  case (2 fs s x f)
  then show ?case using simple_Add_reached by simp
next
  case (6 fs s n)
  then show ?case using simple_reached_numbers [OF 6] by (simp add: simple_db_def simple_FindAllExtensionNumbers_def)
next
  case (7 fs s)
  then have n: "strict fst (by_name (sd_index s))" "set (by_name (sd_index s)) = (\<lambda>f. (file_name f, f)) ` set fs" "consistent fs"
    by (auto simp: simple_reached_def simple_holds_def)
  have "distinct (map fst (by_name (sd_index s)))"
    unfolding distinct_map using strict_distinct [OF n(1)] strict_inj [OF n(1)] by (auto simp: inj_on_def)
  then have "sort (map fst (by_name (sd_index s))) = sort (map file_name fs)"
    using n(2,3) by (intro sort_eqI) (auto simp: consistent_def image_image)
  then show ?case
    using 7 by (simp add: simple_db_def simple_FindAllFileNames_def index_FindAllFileNames_def)
qed (simp_all add: simple_db_def simple_FindFileByName_def simple_FindFileContainingSymbol_def
  simple_FindFileContainingExtension_def simple_reached_view)

end
