(* ===== verification/Encoded_Database.thy ===== *)
theory Encoded_Database
  imports Simple_Database Wire_Read
begin

section \<open>EncodedDescriptorDatabase\<close>

text \<open>
  The database that keeps descriptors as bytes (\<open>descriptor_database.cc\<close>). Its index holds
  offsets into the table of all values; each of its three tables is an ordered set for what is
  new and a sorted vector into which a lookup merges the set. The value of an entry, a pointer
  and a size, is the bytes themselves, which the caller keeps unchanged; no value is the null
  pointer. The generated parser of \<open>FileDescriptorProto\<close> is the argument \<open>parse\<close>.
\<close>

subsection \<open>The index and its comparisons\<close>

record encoded_entry =
  ee_data :: string
  ee_package :: string

record file_entry =
  fe_offset :: nat
  fe_name :: string

record symbol_entry =
  se_offset :: nat
  se_symbol :: string

record extension_entry =
  xe_offset :: nat
  xe_extendee :: string
  xe_number :: int

record encoded_index =
  all_values :: "encoded_entry list"
  en_by_name :: "file_entry list"
  en_by_name_flat :: "file_entry list"
  en_by_symbol :: "symbol_entry list"
  en_by_symbol_flat :: "symbol_entry list"
  en_by_extension :: "extension_entry list"
  en_by_extension_flat :: "extension_entry list"

definition file_less :: "file_entry \<Rightarrow> file_entry \<Rightarrow> bool" where
  "file_less a b \<longleftrightarrow> fe_name a < fe_name b"

definition file_less_name :: "file_entry \<Rightarrow> string \<Rightarrow> bool" where
  "file_less_name a b \<longleftrightarrow> fe_name a < b"

definition name_less_file :: "string \<Rightarrow> file_entry \<Rightarrow> bool" where
  "name_less_file a b \<longleftrightarrow> a < fe_name b"

definition symbol_package :: "encoded_index \<Rightarrow> symbol_entry \<Rightarrow> string" where
  "symbol_package ix e = ee_package (all_values ix ! se_offset e)"

definition symbol_AsString :: "encoded_index \<Rightarrow> symbol_entry \<Rightarrow> string" where
  "symbol_AsString ix e =
     (let p = symbol_package ix e in p @ (if p = [] then [] else ''.'') @ se_symbol e)"

definition consume_part :: "absl \<Rightarrow> string \<Rightarrow> string \<Rightarrow> string option" where
  "consume_part A part super_symbol =
     (case ConsumePrefix A super_symbol part of
        None \<Rightarrow> None
      | Some super_symbol \<Rightarrow> if super_symbol = [] then Some [] else ConsumePrefix A super_symbol ''.'')"

definition IsSubSymbolOf :: "absl \<Rightarrow> encoded_index \<Rightarrow> symbol_entry \<Rightarrow> string \<Rightarrow> bool" where
  "IsSubSymbolOf A ix e super_symbol =
     (let p = symbol_package ix e
      in case (if p \<noteq> [] then consume_part A p super_symbol else Some super_symbol) of
           None \<Rightarrow> False
         | Some super_symbol \<Rightarrow> consume_part A (se_symbol e) super_symbol \<noteq> None)"

definition GetParts :: "encoded_index \<Rightarrow> symbol_entry \<Rightarrow> string \<times> string" where
  "GetParts ix e =
     (let package = symbol_package ix e in if package = [] then (se_symbol e, []) else (package, se_symbol e))"

definition symbol_less :: "encoded_index \<Rightarrow> symbol_entry \<Rightarrow> symbol_entry \<Rightarrow> bool" where
  "symbol_less ix lhs rhs =
     (let lhs_parts = GetParts ix lhs;
          rhs_parts = GetParts ix rhs;
          l = take (length (fst rhs_parts)) (fst lhs_parts);
          r = take (length (fst lhs_parts)) (fst rhs_parts)
      in if l \<noteq> r then l < r
         else if length (fst lhs_parts) = length (fst rhs_parts) then snd lhs_parts < snd rhs_parts
         else symbol_AsString ix lhs < symbol_AsString ix rhs)"

text \<open>The comparison of two characters with \<open><\<close>: \<open>char\<close> is signed.\<close>

definition char_less :: "char \<Rightarrow> char \<Rightarrow> bool" where
  "char_less c d \<longleftrightarrow> signed_take_bit 7 (of_char c :: int) < signed_take_bit 7 (of_char d :: int)"

definition name_less_symbol :: "encoded_index \<Rightarrow> string \<Rightarrow> symbol_entry \<Rightarrow> bool" where
  "name_less_symbol ix lhs rhs =
     (let p = symbol_package ix rhs
      in if p \<noteq> [] then
           (let lhs_part = take (length p) lhs;
                lhs = drop (length lhs_part) lhs
            in if lhs_part \<noteq> p then lhs_part < p
               else if lhs = [] \<or> char_less (hd lhs) (CHR ''.'') then True
               else if char_less (CHR ''.'') (hd lhs) then False
               else tl lhs < se_symbol rhs)
         else lhs < se_symbol rhs)"

definition extendee :: "extension_entry \<Rightarrow> string" where
  "extendee e = tl (xe_extendee e)"

definition extension_less :: "extension_entry \<Rightarrow> extension_entry \<Rightarrow> bool" where
  "extension_less a b \<longleftrightarrow> (extendee a, xe_number a) < (extendee b, xe_number b)"

definition extension_less_key :: "extension_entry \<Rightarrow> string \<times> int \<Rightarrow> bool" where
  "extension_less_key a b \<longleftrightarrow> (extendee a, xe_number a) < b"

definition key_less_extension :: "string \<times> int \<Rightarrow> extension_entry \<Rightarrow> bool" where
  "key_less_extension a b \<longleftrightarrow> a < (extendee b, xe_number b)"

subsection \<open>Additions\<close>

definition CheckForMutualSubsymbols ::
  "absl \<Rightarrow> string \<Rightarrow> nat \<Rightarrow> symbol_entry list \<Rightarrow> encoded_index \<Rightarrow> bool" where
  "CheckForMutualSubsymbols A symbol_name iter entries ix =
     (if iter \<noteq> length entries then
        if IsSubSymbol A (symbol_AsString ix (entries ! iter)) symbol_name then False
        else let iter = iter + 1
        in \<not> (iter \<noteq> length entries \<and> IsSubSymbol A symbol_name (symbol_AsString ix (entries ! iter)))
      else True)"

definition encoded_AddSymbol :: "absl \<Rightarrow> string \<Rightarrow> encoded_index \<Rightarrow> bool \<times> encoded_index" where
  "encoded_AddSymbol A symbol ix =
     (let entry = \<lparr>se_offset = length (all_values ix) - 1, se_symbol = symbol\<rparr>;
          entry_as_string = symbol_AsString ix entry
      in if \<not> ValidateSymbolName symbol then (False, ix)
      else let iter = FindLastLessOrEqual (symbol_less ix) (en_by_symbol ix) entry
      in if \<not> CheckForMutualSubsymbols A entry_as_string iter (en_by_symbol ix) ix then (False, ix)
      else let flat_iter = FindLastLessOrEqual (symbol_less ix) (en_by_symbol_flat ix) entry
      in if \<not> CheckForMutualSubsymbols A entry_as_string flat_iter (en_by_symbol_flat ix) ix then (False, ix)
      else (True, ix\<lparr>en_by_symbol := snd (btree_insert (symbol_less ix) entry (en_by_symbol ix))\<rparr>))"

definition encoded_AddExtension :: "field_proto \<Rightarrow> encoded_index \<Rightarrow> bool \<times> encoded_index" where
  "encoded_AddExtension field ix =
     (if field_extendee field \<noteq> [] \<and> hd (field_extendee field) = CHR ''.'' then
        (case btree_insert extension_less
            \<lparr>xe_offset = length (all_values ix) - 1, xe_extendee = field_extendee field, xe_number = field_number field\<rparr>
            (en_by_extension ix) of
           (b, m) \<Rightarrow>
             (\<not> (\<not> b \<or> std_binary_search extension_less_key key_less_extension
                  (tl (field_extendee field), field_number field) (en_by_extension_flat ix)),
              ix\<lparr>en_by_extension := m\<rparr>))
      else (True, ix))"

fun encoded_AddNestedExtensions :: "descriptor_proto \<Rightarrow> encoded_index \<Rightarrow> bool \<times> encoded_index" where
  "encoded_AddNestedExtensions (DescriptorProto name nested exts) =
     and_then (add_all encoded_AddNestedExtensions nested) (add_all encoded_AddExtension exts)"

definition encoded_AddFile :: "absl \<Rightarrow> file_proto \<Rightarrow> string \<Rightarrow> encoded_index \<Rightarrow> bool \<times> encoded_index" where
  "encoded_AddFile A file v ix =
     (let before = all_values ix;
          package = set_or_empty (file_package file);
          ix = ix\<lparr>all_values := before @ [\<lparr>ee_data = v, ee_package = []\<rparr>]\<rparr>
      in if \<not> ValidateSymbolName package then (False, ix)
      else let ix = ix\<lparr>all_values := before @ [\<lparr>ee_data = v, ee_package = package\<rparr>]\<rparr>
      in case btree_insert file_less \<lparr>fe_offset = length (all_values ix) - 1, fe_name = file_name file\<rparr> (en_by_name ix) of
        (b, m) \<Rightarrow>
          let ix = ix\<lparr>en_by_name := m\<rparr>
          in if \<not> b \<or> std_binary_search file_less_name name_less_file (file_name file) (en_by_name_flat ix)
          then (False, ix)
          else and_then (add_all (\<lambda>d. and_then (encoded_AddSymbol A (set_or_empty (message_name d)))
                (encoded_AddNestedExtensions d)) (message_type file))
            (and_then (add_all (encoded_AddSymbol A) (enum_type file))
            (and_then (add_all (\<lambda>x. and_then (encoded_AddSymbol A (field_name x)) (encoded_AddExtension x)) (extension file))
             (add_all (encoded_AddSymbol A) (service file)))) ix)"

subsection \<open>Lookups\<close>

definition MergeIntoFlat :: "('a \<Rightarrow> 'a \<Rightarrow> bool) \<Rightarrow> 'a list \<Rightarrow> 'a list \<Rightarrow> 'a list \<times> 'a list" where
  "MergeIntoFlat lt s flat = (if s = [] then (s, flat) else ([], std_merge lt s flat))"

definition EnsureFlat :: "encoded_index \<Rightarrow> encoded_index" where
  "EnsureFlat ix =
     (let (n, nf) = MergeIntoFlat file_less (en_by_name ix) (en_by_name_flat ix);
          (s, sf) = MergeIntoFlat (symbol_less ix) (en_by_symbol ix) (en_by_symbol_flat ix);
          (x, xf) = MergeIntoFlat extension_less (en_by_extension ix) (en_by_extension_flat ix)
      in ix\<lparr>en_by_name := n, en_by_name_flat := nf, en_by_symbol := s, en_by_symbol_flat := sf,
           en_by_extension := x, en_by_extension_flat := xf\<rparr>)"

definition FindSymbolOnlyFlat :: "absl \<Rightarrow> string \<Rightarrow> encoded_index \<Rightarrow> string option" where
  "FindSymbolOnlyFlat A name ix =
     (let iter = FindLastLessOrEqual (name_less_symbol ix) (en_by_symbol_flat ix) name
      in if iter \<noteq> length (en_by_symbol_flat ix) \<and> IsSubSymbolOf A ix (en_by_symbol_flat ix ! iter) name
         then Some (ee_data (all_values ix ! se_offset (en_by_symbol_flat ix ! iter))) else None)"

definition encoded_FindSymbol :: "absl \<Rightarrow> string \<Rightarrow> encoded_index \<Rightarrow> string option \<times> encoded_index" where
  "encoded_FindSymbol A name ix = (let ix = EnsureFlat ix in (FindSymbolOnlyFlat A name ix, ix))"

definition encoded_FindExtension :: "string \<Rightarrow> int \<Rightarrow> encoded_index \<Rightarrow> string option \<times> encoded_index" where
  "encoded_FindExtension containing_type n ix =
     (let ix = EnsureFlat ix;
          it = std_lower_bound extension_less_key (containing_type, n) (en_by_extension_flat ix)
      in (if it = length (en_by_extension_flat ix) \<or> extendee (en_by_extension_flat ix ! it) \<noteq> containing_type
             \<or> xe_number (en_by_extension_flat ix ! it) \<noteq> n
          then None else Some (ee_data (all_values ix ! xe_offset (en_by_extension_flat ix ! it))), ix))"

definition encoded_index_FindAllExtensionNumbers :: "string \<Rightarrow> encoded_index \<Rightarrow> int list option \<times> encoded_index" where
  "encoded_index_FindAllExtensionNumbers containing_type ix =
     (let ix = EnsureFlat ix;
          it = std_lower_bound extension_less_key (containing_type, 0) (en_by_extension_flat ix);
          found = map xe_number (takeWhile (\<lambda>e. extendee e = containing_type) (drop it (en_by_extension_flat ix)))
      in (if found = [] then None else Some found, ix))"

definition encoded_index_FindAllFileNames :: "encoded_index \<Rightarrow> string list" where
  "encoded_index_FindAllFileNames ix = map fe_name (en_by_name ix) @ map fe_name (en_by_name_flat ix)"

definition encoded_FindFile :: "string \<Rightarrow> encoded_index \<Rightarrow> string option \<times> encoded_index" where
  "encoded_FindFile filename ix =
     (let ix = EnsureFlat ix;
          it = std_lower_bound file_less_name filename (en_by_name_flat ix)
      in (if it = length (en_by_name_flat ix) \<or> fe_name (en_by_name_flat ix ! it) \<noteq> filename then None
          else Some (ee_data (all_values ix ! fe_offset (en_by_name_flat ix ! it))), ix))"

subsection \<open>The database\<close>

record encoded_database =
  ed_index :: encoded_index
  ed_files_to_delete :: "string list"

definition EncodedDescriptorDatabase :: encoded_database where
  "EncodedDescriptorDatabase = \<lparr>ed_index = \<lparr>all_values = [], en_by_name = [], en_by_name_flat = [],
     en_by_symbol = [], en_by_symbol_flat = [], en_by_extension = [], en_by_extension_flat = []\<rparr>,
     ed_files_to_delete = []\<rparr>"

definition encoded_Add ::
  "absl \<Rightarrow> (string \<Rightarrow> file_proto option) \<Rightarrow> string \<Rightarrow> encoded_database \<Rightarrow> bool \<times> encoded_database" where
  "encoded_Add A parse encoded_file_descriptor db =
     (case parse encoded_file_descriptor of
        Some file \<Rightarrow> map_prod id (\<lambda>ix. db\<lparr>ed_index := ix\<rparr>) (encoded_AddFile A file encoded_file_descriptor (ed_index db))
      | None \<Rightarrow> (False, db))"

definition encoded_AddCopy ::
  "absl \<Rightarrow> (string \<Rightarrow> file_proto option) \<Rightarrow> string \<Rightarrow> encoded_database \<Rightarrow> bool \<times> encoded_database" where
  "encoded_AddCopy A parse encoded_file_descriptor db =
     (let copy = encoded_file_descriptor
      in encoded_Add A parse copy (db\<lparr>ed_files_to_delete := ed_files_to_delete db @ [copy]\<rparr>))"

definition MaybeParse :: "(string \<Rightarrow> file_proto option) \<Rightarrow> string option \<Rightarrow> file_proto option" where
  "MaybeParse parse encoded_file = (case encoded_file of None \<Rightarrow> None | Some source \<Rightarrow> parse source)"

definition encoded_FindFileByName ::
  "(string \<Rightarrow> file_proto option) \<Rightarrow> string \<Rightarrow> encoded_database \<Rightarrow> file_proto option \<times> encoded_database" where
  "encoded_FindFileByName parse filename db =
     map_prod (MaybeParse parse) (\<lambda>ix. db\<lparr>ed_index := ix\<rparr>) (encoded_FindFile filename (ed_index db))"

definition encoded_FindFileContainingSymbol ::
  "absl \<Rightarrow> (string \<Rightarrow> file_proto option) \<Rightarrow> string \<Rightarrow> encoded_database \<Rightarrow> file_proto option \<times> encoded_database" where
  "encoded_FindFileContainingSymbol A parse symbol_name db =
     map_prod (MaybeParse parse) (\<lambda>ix. db\<lparr>ed_index := ix\<rparr>) (encoded_FindSymbol A symbol_name (ed_index db))"

definition encoded_FindFileContainingExtension ::
  "(string \<Rightarrow> file_proto option) \<Rightarrow> string \<Rightarrow> int \<Rightarrow> encoded_database \<Rightarrow> file_proto option \<times> encoded_database" where
  "encoded_FindFileContainingExtension parse containing_type n db =
     map_prod (MaybeParse parse) (\<lambda>ix. db\<lparr>ed_index := ix\<rparr>) (encoded_FindExtension containing_type n (ed_index db))"

definition encoded_FindAllExtensionNumbers :: "string \<Rightarrow> encoded_database \<Rightarrow> int list option \<times> encoded_database" where
  "encoded_FindAllExtensionNumbers extendee_type db =
     map_prod id (\<lambda>ix. db\<lparr>ed_index := ix\<rparr>) (encoded_index_FindAllExtensionNumbers extendee_type (ed_index db))"

definition encoded_FindAllFileNames :: "encoded_database \<Rightarrow> string list option \<times> encoded_database" where
  "encoded_FindAllFileNames db = (Some (encoded_index_FindAllFileNames (ed_index db)), db)"

text \<open>
  The name of a file without parsing all of it, when it comes first. The decoder reads the bytes
  directly; \<open>I\<close> stands for the stream it does not have.
\<close>

definition kNameFieldNumber :: "32 word" where "kNameFieldNumber = 1"

definition FindNameOfFileContainingSymbol ::
  "'s input_stream \<Rightarrow> absl \<Rightarrow> (string \<Rightarrow> file_proto option) \<Rightarrow> string \<Rightarrow> encoded_database
     \<Rightarrow> (string option \<times> encoded_database) option" where
  "FindNameOfFileContainingSymbol I A parse symbol_name db =
     (case encoded_FindSymbol A symbol_name (ed_index db) of
        (encoded_file, ix) \<Rightarrow>
          let db = db\<lparr>ed_index := ix\<rparr>
          in case encoded_file of
               None \<Rightarrow> Some (None, db)
             | Some data \<Rightarrow> do {
                 (tag, input) \<leftarrow> ReadTagNoLastTag I (CodedInputStream_array data (int (length data)) :: 's coded_input);
                 if tag = MakeTag kNameFieldNumber WIRETYPE_LENGTH_DELIMITED
                 then do { (name, _) \<leftarrow> wf_ReadString I input; Some (name, db) }
                 else Some (map_option file_name (parse data), db) })"

definition encoded_db :: "absl \<Rightarrow> (string \<Rightarrow> file_proto option) \<Rightarrow> encoded_database descriptor_database" where
  "encoded_db A parse = \<lparr>db_FindFileByName = encoded_FindFileByName parse,
     db_FindFileContainingSymbol = encoded_FindFileContainingSymbol A parse,
     db_FindFileContainingExtension = encoded_FindFileContainingExtension parse,
     db_FindAllExtensionNumbers = encoded_FindAllExtensionNumbers,
     db_FindAllFileNames = encoded_FindAllFileNames\<rparr>"

end
