(* ===== verification/Encoded_Order.thy ===== *)
theory Encoded_Order
  imports Encoded_Database Database_Adds
begin

section \<open>The comparisons of EncodedDescriptorDatabase\<close>

text \<open>
  The index compares symbols without building their full names: \<open>symbol_less\<close> between entries,
  \<open>name_less_symbol\<close> between a name and an entry, \<open>IsSubSymbolOf\<close> for the prefix test. Here they
  are the order and the prefix relation of the full names. Then the pairs of a set and a sorted
  vector, which together are one sorted table.
\<close>

subsection \<open>Names of entries\<close>

definition entry_name :: "encoded_entry list \<Rightarrow> symbol_entry \<Rightarrow> string" where
  "entry_name vals e = (let p = ee_package (vals ! se_offset e) in p @ (if p = [] then [] else ''.'') @ se_symbol e)"

lemma symbol_AsString_entry: "symbol_AsString ix = entry_name (all_values ix)"
  by (simp add: fun_eq_iff symbol_AsString_def symbol_package_def entry_name_def)

lemma entry_name_append: "se_offset e < length vals \<Longrightarrow> entry_name (vals @ ws) e = entry_name vals e"
  by (simp add: entry_name_def nth_append)

lemma common_prefix_less:
  assumes "take (length r) l \<noteq> take (length l) (r :: string)"
  shows "l @ x < r @ y \<longleftrightarrow> take (length r) l < take (length l) r"
  using assms
proof (induction l arbitrary: r)
  case (Cons a l)
  then show ?case by (cases r) auto
qed simp

lemma append_less [simp]: "(p :: string) @ x < p @ y \<longleftrightarrow> x < y"
  by (induction p) auto

lemma less_append [simp]: "(p :: string) < p @ y \<longleftrightarrow> y \<noteq> []"
  using append_less [of p "[]" y] by (cases y) auto

lemma append_less_self [simp]: "\<not> (p :: string) @ x < p"
  using append_less [of p x "[]"] by simp

theorem symbol_less_names:
  assumes "se_symbol a \<noteq> []" and "se_symbol b \<noteq> []"
  shows "symbol_less ix a b \<longleftrightarrow> symbol_AsString ix a < symbol_AsString ix b"
proof -
  define l r where "l = fst (GetParts ix a)" and "r = fst (GetParts ix b)"
  define x y where "x = (if symbol_package ix a = [] then [] else ''.'' @ snd (GetParts ix a))"
    and "y = (if symbol_package ix b = [] then [] else ''.'' @ snd (GetParts ix b))"
  have a: "symbol_AsString ix a = l @ x" "fst (GetParts ix a) = l" "x = [] \<longleftrightarrow> snd (GetParts ix a) = []"
    "x \<noteq> [] \<Longrightarrow> x = ''.'' @ snd (GetParts ix a)"
    using assms(1) by (auto simp: l_def x_def symbol_AsString_def GetParts_def Let_def)
  have b: "symbol_AsString ix b = r @ y" "fst (GetParts ix b) = r" "y = [] \<longleftrightarrow> snd (GetParts ix b) = []"
    "y \<noteq> [] \<Longrightarrow> y = ''.'' @ snd (GetParts ix b)"
    using assms(2) by (auto simp: r_def y_def symbol_AsString_def GetParts_def Let_def)
  show ?thesis
  proof (cases "take (length r) l \<noteq> take (length l) r")
    case True
    then show ?thesis using common_prefix_less [OF True, of x y] a(1,2) b(1,2) by (simp add: symbol_less_def Let_def)
  next
    case False
    show ?thesis
    proof (cases "length l = length r")
      case True
      then have "l = r" using False by simp
      then have "l @ x < r @ y \<longleftrightarrow> snd (GetParts ix a) < snd (GetParts ix b)"
        using a(3,4) b(3,4) by (cases "snd (GetParts ix a)"; cases "snd (GetParts ix b)") auto
      then show ?thesis using False True a(1,2) b(1,2) by (simp add: symbol_less_def Let_def)
    qed (use False a(2) b(2) in \<open>simp add: symbol_less_def Let_def\<close>)
  qed
qed

lemma char_less_ascii: "(of_char c :: nat) < 128 \<Longrightarrow> (of_char d :: nat) < 128 \<Longrightarrow> char_less c d \<longleftrightarrow> c < d"
proof -
  assume "(of_char c :: nat) < 128" "(of_char d :: nat) < 128"
  moreover have "signed_take_bit 7 (of_char e :: int) = of_char e" if "(of_char e :: nat) < 128" for e
  proof -
    have "(of_char e :: int) = int (of_char e)" by (simp only: of_nat_of_char)
    then have "0 \<le> (of_char e :: int)" "(of_char e :: int) < 128" using that by linarith+
    then show ?thesis by (simp add: signed_take_bit_int_eq_self)
  qed
  moreover have "(of_char c :: int) < of_char d \<longleftrightarrow> (of_char c :: nat) < of_char d"
    by (simp only: of_nat_of_char [symmetric, where ?'a = int] of_nat_less_iff)
  ultimately show ?thesis by (simp add: char_less_def less_char_def)
qed

text \<open>Names that clients may ask for: bytes of ASCII.\<close>

definition ascii :: "string \<Rightarrow> bool" where
  "ascii n \<longleftrightarrow> list_all (\<lambda>c. (of_char c :: nat) < 128) n"

theorem name_less_symbol_names:
  assumes "ascii n"
  shows "name_less_symbol ix n e \<longleftrightarrow> n < symbol_AsString ix e"
proof (cases "symbol_package ix e = []")
  case False
  define p where "p = symbol_package ix e"
  define rest where "rest = drop (length (take (length p) n)) n"
  have rest: "rest = drop (length p) n" by (simp add: rest_def min_def)
  then have n: "n = take (length p) n @ rest" by simp
  have name: "symbol_AsString ix e = p @ ''.'' @ se_symbol e" using False by (simp add: symbol_AsString_def p_def)
  show ?thesis
  proof (cases "take (length p) n = p")
    case True
    then have "n = p @ rest" using n by simp
    then have less: "n < symbol_AsString ix e \<longleftrightarrow> rest < ''.'' @ se_symbol e" using name by simp
    have "char_less (hd rest) (CHR ''.'') \<longleftrightarrow> hd rest < CHR ''.''" "char_less (CHR ''.'') (hd rest) \<longleftrightarrow> CHR ''.'' < hd rest"
      if "rest \<noteq> []"
      using that assms n by (auto simp: ascii_def list_all_iff intro!: char_less_ascii) (metis hd_in_set in_set_dropD rest)+
    moreover have "name_less_symbol ix n e \<longleftrightarrow> rest = [] \<or> char_less (hd rest) (CHR ''.'')
        \<or> \<not> char_less (CHR ''.'') (hd rest) \<and> tl rest < se_symbol e"
      using True False by (simp add: name_less_symbol_def Let_def p_def [symmetric] rest)
    ultimately show ?thesis using less by (cases rest) auto
  next
    case neq: False
    have "n < p @ ''.'' @ se_symbol e \<longleftrightarrow> take (length p) n < p"
    proof (cases "length p \<le> length n")
      case True
      then show ?thesis
        using common_prefix_less [of p "take (length p) n" rest "''.'' @ se_symbol e"] n neq by auto
    next
      case short: False
      then have t: "take (length p) n = n" by simp
      show ?thesis
      proof (cases "take (length n) p = n")
        case True
        then have "p = n @ drop (length n) p" by (metis append_take_drop_id)
        moreover have "drop (length n) p \<noteq> []" using short by simp
        ultimately show ?thesis using t by (metis append.assoc append_is_Nil_conv less_append)
      next
        case False
        then show ?thesis
          using common_prefix_less [of p n "[]" "''.'' @ se_symbol e"] common_prefix_less [of p n "[]" "[]"] t by auto
      qed
    qed
    then show ?thesis using False neq name by (simp add: name_less_symbol_def p_def Let_def)
  qed
qed (simp add: name_less_symbol_def symbol_AsString_def)

lemma consume_part_some:
  assumes "absl_ok A"
  shows "consume_part A part s = Some r \<longleftrightarrow> s = part \<and> r = [] \<or> s = part @ CHR ''.'' # r"
proof (cases "ConsumePrefix A s part")
  case None
  then have "s \<noteq> part @ t" for t using absl_ConsumePrefix [OF assms, of s part t] by auto
  then show ?thesis using None by (auto simp: consume_part_def)
next
  case (Some t)
  then have "s = part @ t" using absl_ConsumePrefix [OF assms] by simp
  then show ?thesis using Some absl_ConsumePrefix [OF assms, of t "''.''" r] by (auto simp: consume_part_def)
qed

lemma IsSubSymbolOf_within:
  assumes "absl_ok A" and "se_symbol e \<noteq> []"
  shows "IsSubSymbolOf A ix e n \<longleftrightarrow> within (symbol_AsString ix e) n"
proof -
  have w: "consume_part A (se_symbol e) s \<noteq> None \<longleftrightarrow> within (se_symbol e) s" for s
    using consume_part_some [OF assms(1), of "se_symbol e" s] by (auto simp: within_def)
  define p where "p = symbol_package ix e"
  show ?thesis
  proof (cases "p = []")
    case True
    then show ?thesis using w by (simp add: IsSubSymbolOf_def symbol_AsString_def p_def [symmetric])
  next
    case False
    have "within (p @ ''.'' @ se_symbol e) n \<longleftrightarrow> (\<exists>s. consume_part A p n = Some s \<and> within (se_symbol e) s)"
      using assms(2) unfolding consume_part_some [OF assms(1)] by (auto simp: within_def)
    then show ?thesis using False w by (auto simp: IsSubSymbolOf_def symbol_AsString_def p_def [symmetric] split: option.splits)
  qed
qed

subsection \<open>A set and a sorted vector\<close>

definition split_table :: "('a \<Rightarrow> 'k::linorder) \<Rightarrow> 'a list \<Rightarrow> 'a list \<Rightarrow> bool" where
  "split_table key xs ys \<longleftrightarrow> strict key xs \<and> strict key ys \<and> key ` set xs \<inter> key ` set ys = {}"

definition compares :: "('a \<Rightarrow> 'a \<Rightarrow> bool) \<Rightarrow> ('a \<Rightarrow> 'k::linorder) \<Rightarrow> 'a set \<Rightarrow> bool" where
  "compares lt key S \<longleftrightarrow> (\<forall>a \<in> S. \<forall>b \<in> S. lt a b \<longleftrightarrow> key a < key b)"

lemma merge_table:
  assumes "split_table key xs ys" and "compares lt key (set xs \<union> set ys)" and "MergeIntoFlat lt xs ys = (xs', ys')"
  shows "xs' = []" and "strict key ys'" and "set ys' = set xs \<union> set ys"
proof -
  have "strict key (std_merge lt xs ys)"
    using assms(1,2) by (intro strict_merge) (auto simp: split_table_def compares_def)
  then show "xs' = []" "strict key ys'" "set ys' = set xs \<union> set ys"
    using assms by (auto simp: MergeIntoFlat_def split_table_def set_merge split: if_splits)
qed

lemma insert_table:
  assumes "split_table key xs ys" and "compares lt key (insert x (set xs))" and "key x \<notin> key ` (set xs \<union> set ys)"
    and "btree_insert lt x xs = (b, xs')"
  shows "b" and "split_table key xs' ys" and "set xs' = insert x (set xs)"
proof -
  have r: "(b \<longleftrightarrow> key x \<notin> key ` set xs) \<and> strict key xs' \<and> (b \<longrightarrow> set xs' = insert x (set xs))"
    using btree_insert_result [where key = key, OF _ _ assms(4)] assms(1,2) by (auto simp: split_table_def compares_def)
  then show b: "b" using assms(3) by auto
  then show "set xs' = insert x (set xs)" "split_table key xs' ys" using r assms(1,3) by (auto simp: split_table_def)
qed

lemma binary_search_key:
  assumes "strict key xs" and "\<forall>e \<in> set xs. (lt e v \<longleftrightarrow> key e < w) \<and> (lt' v e \<longleftrightarrow> w < key e)"
  shows "std_binary_search lt lt' v xs \<longleftrightarrow> w \<in> key ` set xs"
proof -
  have e: "\<forall>e \<in> set xs. lt e v \<longleftrightarrow> key e < w" using assms(2) by simp
  define i where "i = std_lower_bound lt v xs"
  note at = lower_bound_at [where key = key and xs = xs and lt = lt and v = v and w = w, OF assms(1) e i_def]
  have "std_binary_search lt lt' v xs \<longleftrightarrow> i < length xs \<and> \<not> w < key (xs ! i)"
    using assms(2) by (auto simp: std_binary_search_def i_def Let_def)
  also have "\<dots> \<longleftrightarrow> i < length xs \<and> key (xs ! i) = w" using at(2) by auto
  finally show ?thesis using at(1) by simp
qed

end
