(* ===== verification/Encoded_Database_Laws.thy ===== *)
theory Encoded_Database_Laws
  imports Encoded_Order
begin

section \<open>EncodedDescriptorDatabase\<close>

text \<open>
  \<open>encoded_holds\<close> says what the tables of the index contain, \<open>encoded_reached\<close> that they contain
  the declarations of a list of files; the database implements the reference
  (\<open>encoded_files\<close>), whether a lookup has merged the tables or not.
\<close>

definition extension_entry_key :: "extension_entry \<Rightarrow> string \<times> int" where
  "extension_entry_key e = (extendee e, xe_number e)"

lemma extension_less_keys:
  "extension_less a b \<longleftrightarrow> extension_entry_key a < extension_entry_key b"
  "extension_less_key a k \<longleftrightarrow> extension_entry_key a < k"
  "key_less_extension k a \<longleftrightarrow> k < extension_entry_key a"
  by (simp_all add: extension_less_def extension_less_key_def key_less_extension_def extension_entry_key_def)

text \<open>The entries of a table, each with the bytes of its file.\<close>

definition entries :: "('a \<Rightarrow> 'k) \<Rightarrow> ('a \<Rightarrow> nat) \<Rightarrow> encoded_entry list \<Rightarrow> 'a set \<Rightarrow> ('k \<times> string) set" where
  "entries key off vals T = (\<lambda>e. (key e, ee_data (vals ! off e))) ` T"

lemma entries_simps [simp]:
  "entries key off vals {} = {}"
  "entries key off vals (insert e T) = insert (key e, ee_data (vals ! off e)) (entries key off vals T)"
  "fst ` entries key off vals T = key ` T"
  by (auto simp: entries_def image_image)

definition encoded_holds ::
  "encoded_entry list \<Rightarrow> (string \<times> string) set \<Rightarrow> encoded_index \<Rightarrow> (string \<times> string) set
     \<Rightarrow> ((string \<times> int) \<times> string) set \<Rightarrow> bool" where
  "encoded_holds vals N ix S E \<longleftrightarrow>
     all_values ix = vals
   \<and> split_table fe_name (en_by_name ix) (en_by_name_flat ix)
   \<and> split_table (entry_name vals) (en_by_symbol ix) (en_by_symbol_flat ix)
   \<and> split_table extension_entry_key (en_by_extension ix) (en_by_extension_flat ix)
   \<and> N = entries fe_name fe_offset vals (set (en_by_name ix) \<union> set (en_by_name_flat ix))
   \<and> S = entries (entry_name vals) se_offset vals (set (en_by_symbol ix) \<union> set (en_by_symbol_flat ix))
   \<and> E = entries extension_entry_key xe_offset vals (set (en_by_extension ix) \<union> set (en_by_extension_flat ix))
   \<and> (\<forall>e \<in> set (en_by_name ix) \<union> set (en_by_name_flat ix). fe_offset e < length vals)
   \<and> (\<forall>e \<in> set (en_by_symbol ix) \<union> set (en_by_symbol_flat ix). se_offset e < length vals \<and> se_symbol e \<noteq> []
        \<and> ValidateSymbolName (entry_name vals e))
   \<and> (\<forall>e \<in> set (en_by_extension ix) \<union> set (en_by_extension_flat ix). xe_offset e < length vals)
   \<and> independent (fst ` S)"

lemma compares_symbol:
  "\<forall>e \<in> T. se_symbol e \<noteq> [] \<Longrightarrow> compares (symbol_less ix) (entry_name (all_values ix)) T"
  using symbol_less_names [of _ _ ix] by (simp add: compares_def symbol_AsString_entry)

lemma compares_file: "compares file_less fe_name T"
  by (simp add: compares_def file_less_def)

lemma compares_extension: "compares extension_less extension_entry_key T"
  by (simp add: compares_def extension_less_keys)

subsection \<open>Additions\<close>

text \<open>The tests of an insertion, in one of the two tables.\<close>

lemma encoded_named:
  assumes "strict (entry_name (all_values ix)) xs" and "\<forall>e \<in> set xs. se_symbol e \<noteq> [] \<and> ValidateSymbolName (entry_name (all_values ix) e)"
    and "se_symbol entry \<noteq> []"
  shows "named (entry_name (all_values ix)) xs (symbol_less ix) entry (entry_name (all_values ix) entry)"
  by unfold_locales (use assms symbol_less_names [OF assms(3), of _ ix] in \<open>auto simp: symbol_AsString_entry\<close>)

lemma CheckForMutualSubsymbols_accepted:
  assumes "absl_ok A" and "named (entry_name (all_values ix)) xs lt v name"
  shows "CheckForMutualSubsymbols A name (FindLastLessOrEqual lt xs v) xs ix
    \<longleftrightarrow> named.accepted (entry_name (all_values ix)) xs lt v name"
  unfolding named.accepted_def [OF assms(2)]
  by (auto simp: CheckForMutualSubsymbols_def IsSubSymbol_within [OF assms(1)] symbol_AsString_entry Let_def)

lemma encoded_AddSymbol_adds:
  assumes "absl_ok A" and "ValidateSymbolName symbol" and "symbol \<noteq> []" and "vals \<noteq> []"
    and "ValidateSymbolName name" and "name = entry_name vals \<lparr>se_offset = length vals - 1, se_symbol = symbol\<rparr>"
  shows "adds (encoded_holds vals N) (ee_data (last vals)) (encoded_AddSymbol A symbol) [name] []"
  unfolding adds_def
proof (intro allI impI)
  fix ix S E
  assume h: "encoded_holds vals N ix S E" and f: "fresh_symbols S [name]"
  define entry where "entry = \<lparr>se_offset = length vals - 1, se_symbol = symbol\<rparr>"
  have name: "name = entry_name vals entry" using assms(6) by (simp add: entry_def)
  have v: "all_values ix = vals" using h by (simp add: encoded_holds_def)
  let ?T = "set (en_by_symbol ix) \<union> set (en_by_symbol_flat ix)"
  have s: "split_table (entry_name vals) (en_by_symbol ix) (en_by_symbol_flat ix)"
    "\<forall>e \<in> ?T. se_symbol e \<noteq> [] \<and> ValidateSymbolName (entry_name vals e)" "fst ` S = entry_name vals ` ?T"
    using h by (auto simp: encoded_holds_def image_Un)
  have n: "independent (insert name (fst ` S))" "name \<notin> fst ` S" using f by (auto simp: fresh_symbols_def)
  have free: "\<not> within (entry_name vals e) name \<and> \<not> within name (entry_name vals e)" if "e \<in> ?T" for e
    using n that s(3) by (auto simp: independent_insert)
  have ok: "CheckForMutualSubsymbols A name (FindLastLessOrEqual (symbol_less ix) xs entry) xs ix"
    if "set xs \<subseteq> ?T" "strict (entry_name vals) xs" for xs
  proof -
    have named: "named (entry_name (all_values ix)) xs (symbol_less ix) entry name"
      using encoded_named [of ix xs entry] that s(2) v assms(3) name by (auto simp: entry_def)
    show ?thesis
      using CheckForMutualSubsymbols_accepted [OF assms(1) named] named.no_conflict_accepted [OF named] free that(1) v
      by auto
  qed
  obtain b m where m: "btree_insert (symbol_less ix) entry (en_by_symbol ix) = (b, m)" by fastforce
  have c: "compares (symbol_less ix) (entry_name vals) (insert entry (set (en_by_symbol ix)))"
    using compares_symbol [of "insert entry (set (en_by_symbol ix))" ix] s(2) v assms(3) by (auto simp: entry_def)
  have "entry_name vals entry \<notin> entry_name vals ` ?T" using n(2) s(3) name by simp
  note ins = insert_table [OF s(1) c this m]
  have "ee_data (vals ! se_offset entry) = ee_data (last vals)" using assms(4) by (simp add: entry_def last_conv_nth)
  then have "encoded_holds vals N (ix\<lparr>en_by_symbol := m\<rparr>) (insert (name, ee_data (last vals)) S) E"
    using h ins(2,3) n(1) assms(3-5) name unfolding encoded_holds_def by (auto simp: entry_def)
  moreover have "encoded_AddSymbol A symbol ix = (True, ix\<lparr>en_by_symbol := m\<rparr>)"
    using ok [of "en_by_symbol ix"] ok [of "en_by_symbol_flat ix"] s(1) m v assms(2) name
    by (simp add: encoded_AddSymbol_def entry_def symbol_AsString_entry split_table_def Let_def)
  ultimately show "\<exists>ix'. encoded_AddSymbol A symbol ix = (True, ix')
      \<and> encoded_holds vals N ix' (S \<union> with_value (ee_data (last vals)) [name]) (E \<union> with_value (ee_data (last vals)) [])"
    by simp
qed

lemma encoded_AddExtension_adds:
  assumes "vals \<noteq> []"
  shows "adds (encoded_holds vals N) (ee_data (last vals)) (encoded_AddExtension x) [] (extension_key x)"
  unfolding adds_def
proof (intro allI impI)
  fix ix S E
  assume h: "encoded_holds vals N ix S E" and f: "fresh_keys E (extension_key x)"
  show "\<exists>ix'. encoded_AddExtension x ix = (True, ix')
      \<and> encoded_holds vals N ix' (S \<union> with_value (ee_data (last vals)) []) (E \<union> with_value (ee_data (last vals)) (extension_key x))"
  proof (cases "field_extendee x \<noteq> [] \<and> hd (field_extendee x) = CHR ''.''")
    case True
    define k where "k = (tl (field_extendee x), field_number x)"
    define entry where "entry = \<lparr>xe_offset = length vals - 1, xe_extendee = field_extendee x, xe_number = field_number x\<rparr>"
    have k: "extension_key x = [k]" "extension_entry_key entry = k"
      using True by (simp_all add: k_def extension_key_if entry_def extension_entry_key_def extendee_def)
    have v: "all_values ix = vals" using h by (simp add: encoded_holds_def)
    have s: "split_table extension_entry_key (en_by_extension ix) (en_by_extension_flat ix)"
      "fst ` E = extension_entry_key ` (set (en_by_extension ix) \<union> set (en_by_extension_flat ix))"
      using h by (auto simp: encoded_holds_def image_Un)
    have n: "extension_entry_key entry \<notin> extension_entry_key ` (set (en_by_extension ix) \<union> set (en_by_extension_flat ix))"
      using f k s(2) by (simp add: fresh_keys_def)
    obtain b m where m: "btree_insert extension_less entry (en_by_extension ix) = (b, m)" by fastforce
    note ins = insert_table [OF s(1) compares_extension n m]
    have "\<not> std_binary_search extension_less_key key_less_extension k (en_by_extension_flat ix)"
      using binary_search_key [where key = extension_entry_key and xs = "en_by_extension_flat ix" and v = k and w = k
          and lt = extension_less_key and lt' = key_less_extension] s(1) n k
      by (simp add: extension_less_keys split_table_def image_Un)
    then have r: "encoded_AddExtension x ix = (True, ix\<lparr>en_by_extension := m\<rparr>)"
      using True m ins(1) v by (simp add: encoded_AddExtension_def entry_def k_def)
    have "ee_data (vals ! xe_offset entry) = ee_data (last vals)" using assms by (simp add: entry_def last_conv_nth)
    then have "encoded_holds vals N (ix\<lparr>en_by_extension := m\<rparr>) S (insert (k, ee_data (last vals)) E)"
      using h ins(2,3) assms k unfolding encoded_holds_def by (auto simp: entry_def)
    then show ?thesis using r k by simp
  next
    case False
    then have "extension_key x = []" by (auto simp: extension_key_if)
    then show ?thesis using False h by (auto simp: encoded_AddExtension_def)
  qed
qed

lemma encoded_AddNestedExtensions_adds:
  assumes "vals \<noteq> []"
  shows "adds (encoded_holds vals N) (ee_data (last vals)) (encoded_AddNestedExtensions d) []
    (concat (map extension_key (message_extensions d)))"
proof (induction d)
  case (DescriptorProto name nested exts)
  have n: "adds (encoded_holds vals N) (ee_data (last vals)) (add_all encoded_AddNestedExtensions nested) []
      (concat (map (\<lambda>d. concat (map extension_key (message_extensions d))) nested))"
    by (rule adds_keys) (rule DescriptorProto)
  have x: "adds (encoded_holds vals N) (ee_data (last vals)) (add_all encoded_AddExtension exts) [] (concat (map extension_key exts))"
    by (rule adds_keys) (rule encoded_AddExtension_adds [OF assms])
  have "encoded_AddNestedExtensions (DescriptorProto name nested exts)
      = and_then (add_all encoded_AddNestedExtensions nested) (add_all encoded_AddExtension exts)"
    by (simp add: fun_eq_iff)
  then show ?case using adds_and_then [OF n x] by (simp only: nested_keys append_Nil)
qed

lemma encoded_AddFile_declarations:
  "encoded_AddFile A file v ix =
     (let before = all_values ix;
          package = set_or_empty (file_package file);
          ix = ix\<lparr>all_values := before @ [\<lparr>ee_data = v, ee_package = []\<rparr>]\<rparr>
      in if \<not> ValidateSymbolName package then (False, ix)
      else let ix = ix\<lparr>all_values := before @ [\<lparr>ee_data = v, ee_package = package\<rparr>]\<rparr>
      in case btree_insert file_less \<lparr>fe_offset = length before, fe_name = file_name file\<rparr> (en_by_name ix) of
        (b, m) \<Rightarrow>
          let ix = ix\<lparr>en_by_name := m\<rparr>
          in if \<not> b \<or> std_binary_search file_less_name name_less_file (file_name file) (en_by_name_flat ix)
          then (False, ix)
          else add_declarations (encoded_AddSymbol A) encoded_AddNestedExtensions encoded_AddExtension file ix)"
  by (simp add: encoded_AddFile_def add_declarations_def Let_def split: prod.split)

lemma entries_append:
  "\<forall>e \<in> T. off e < length vals \<Longrightarrow> entries key off (vals @ ws) T = entries key off vals T"
  by (auto simp: entries_def nth_append image_iff)

lemma entries_rename: "\<forall>e \<in> T. key e = key' e \<Longrightarrow> entries key off vals T = entries key' off vals T"
  by (auto simp: entries_def image_iff)

lemma split_table_rename:
  assumes "\<forall>e \<in> set xs \<union> set ys. key e = key' e"
  shows "split_table key xs ys = split_table key' xs ys"
proof -
  have "strict key zs = strict key' zs" if zs: "set zs \<subseteq> set xs \<union> set ys" for zs
  proof -
    have "key x = key' x" if "x \<in> set zs" for x using that zs assms by blast
    then show ?thesis by (auto intro: sorted_wrt_mono_rel [rotated])
  qed
  moreover have "key ` set xs = key' ` set xs" "key ` set ys = key' ` set ys"
    using assms by (auto intro!: image_cong)
  ultimately show ?thesis by (simp add: split_table_def)
qed

text \<open>A new value does not change the entries that are there.\<close>

lemma encoded_holds_push:
  assumes "encoded_holds vals N ix S E"
  shows "encoded_holds (vals @ [v]) N (ix\<lparr>all_values := vals @ [v]\<rparr>) S E"
proof -
  let ?T = "set (en_by_symbol ix) \<union> set (en_by_symbol_flat ix)"
  have o: "\<forall>e \<in> ?T. se_offset e < length vals" using assms by (simp add: encoded_holds_def)
  then have k: "\<forall>e \<in> ?T. entry_name (vals @ [v]) e = entry_name vals e" using entry_name_append by blast
  have "entries (entry_name (vals @ [v])) se_offset (vals @ [v]) ?T = entries (entry_name vals) se_offset vals ?T"
    using entries_rename [OF k] entries_append [OF o] by metis
  then show ?thesis
    using assms k split_table_rename [OF k] unfolding encoded_holds_def
    by (auto simp: entries_append less_SucI)
qed

lemma encoded_AddFile_adds:
  assumes "absl_ok A" and "well_named f" and "encoded_holds vals N ix S E" and "file_name f \<notin> fst ` N"
    and "fresh_symbols S (file_symbols f)" and "fresh_keys E (file_keys f)"
  obtains vals' ix' where "encoded_AddFile A f v ix = (True, ix')"
    and "encoded_holds vals' (insert (file_name f, v) N) ix' (S \<union> with_value v (file_symbols f)) (E \<union> with_value v (file_keys f))"
proof -
  define package where "package = set_or_empty (file_package f)"
  define vals' where "vals' = vals @ [\<lparr>ee_data = v, ee_package = package\<rparr>]"
  define ix1 where "ix1 = ix\<lparr>all_values := vals'\<rparr>"
  define entry where "entry = \<lparr>fe_offset = length vals, fe_name = file_name f\<rparr>"
  have h1: "encoded_holds vals' N ix1 S E" using encoded_holds_push [OF assms(3)] by (simp add: vals'_def ix1_def)
  have v: "all_values ix = vals" using assms(3) by (simp add: encoded_holds_def)
  have s: "split_table fe_name (en_by_name ix1) (en_by_name_flat ix1)"
    "fst ` N = fe_name ` (set (en_by_name ix1) \<union> set (en_by_name_flat ix1))"
    using h1 by (auto simp: encoded_holds_def image_Un)
  obtain b m where m: "btree_insert file_less entry (en_by_name ix1) = (b, m)" by fastforce
  have "fe_name entry \<notin> fe_name ` (set (en_by_name ix1) \<union> set (en_by_name_flat ix1))"
    using assms(4) s(2) by (simp add: entry_def)
  note ins = insert_table [OF s(1) compares_file this m]
  have search: "\<not> std_binary_search file_less_name name_less_file (file_name f) (en_by_name_flat ix1)"
    using binary_search_key [where key = fe_name and xs = "en_by_name_flat ix1" and v = "file_name f" and w = "file_name f"
        and lt = file_less_name and lt' = name_less_file] s assms(4)
    by (auto simp: file_less_name_def name_less_file_def split_table_def)
  define ix2 where "ix2 = ix1\<lparr>en_by_name := m\<rparr>"
  have h2: "encoded_holds vals' (insert (file_name f, v) N) ix2 S E"
    using h1 ins(2,3) unfolding encoded_holds_def by (auto simp: ix2_def entry_def vals'_def)
  have last: "ee_data (last vals') = v" "vals' \<noteq> []" by (simp_all add: vals'_def)
  have path: "symbol_path f @ s = entry_name vals' \<lparr>se_offset = length vals' - 1, se_symbol = s\<rparr>" for s
    by (simp add: entry_name_def vals'_def symbol_path_def package_def Let_def)
  have "adds (encoded_holds vals' (insert (file_name f, v) N)) v
      (add_declarations (encoded_AddSymbol A) encoded_AddNestedExtensions encoded_AddExtension f) (file_symbols f) (file_keys f)"
  proof (rule adds_declarations)
    fix s
    assume l: "s \<in> set (local_symbols f)"
    then have "symbol_path f @ s \<in> set (file_symbols f)" by (simp add: file_symbols_def)
    then have "ValidateSymbolName (symbol_path f @ s)" "ValidateSymbolName s" "s \<noteq> []"
      using symbols_valid [OF assms(2)] assms(2) l by (auto simp: well_named_def)
    then show "adds (encoded_holds vals' (insert (file_name f, v) N)) v (encoded_AddSymbol A s) [symbol_path f @ s] []"
      using encoded_AddSymbol_adds [OF assms(1) _ _ last(2), of s "symbol_path f @ s"] path last(1) by metis
  qed (use encoded_AddNestedExtensions_adds encoded_AddExtension_adds last in metis)+
  from addsD [OF this h2 assms(5,6)] obtain ix' where
    "add_declarations (encoded_AddSymbol A) encoded_AddNestedExtensions encoded_AddExtension f ix2 = (True, ix')"
    "encoded_holds vals' (insert (file_name f, v) N) ix' (S \<union> with_value v (file_symbols f)) (E \<union> with_value v (file_keys f))" .
  moreover have "ValidateSymbolName package" using assms(2) by (simp add: well_named_def package_def)
  ultimately show ?thesis
    using that m ins(1) search v
    by (simp add: encoded_AddFile_declarations ix2_def ix1_def vals'_def package_def entry_def Let_def)
qed

subsection \<open>Lookups\<close>

lemma split_table_flat: "strict key ys \<Longrightarrow> split_table key [] ys"
  by (simp add: split_table_def)

lemma EnsureFlat_holds:
  assumes "encoded_holds vals N ix S E"
  shows "encoded_holds vals N (EnsureFlat ix) S E"
    and "en_by_name (EnsureFlat ix) = []" and "en_by_symbol (EnsureFlat ix) = []" and "en_by_extension (EnsureFlat ix) = []"
proof -
  have v: "all_values ix = vals" using assms by (simp add: encoded_holds_def)
  obtain n nf where n: "MergeIntoFlat file_less (en_by_name ix) (en_by_name_flat ix) = (n, nf)" by fastforce
  obtain s sf where s: "MergeIntoFlat (symbol_less ix) (en_by_symbol ix) (en_by_symbol_flat ix) = (s, sf)" by fastforce
  obtain x xf where x: "MergeIntoFlat extension_less (en_by_extension ix) (en_by_extension_flat ix) = (x, xf)" by fastforce
  have t: "split_table fe_name (en_by_name ix) (en_by_name_flat ix)"
    "split_table (entry_name vals) (en_by_symbol ix) (en_by_symbol_flat ix)"
    "split_table extension_entry_key (en_by_extension ix) (en_by_extension_flat ix)"
    using assms by (auto simp: encoded_holds_def)
  have c: "compares (symbol_less ix) (entry_name vals) (set (en_by_symbol ix) \<union> set (en_by_symbol_flat ix))"
    using compares_symbol [of _ ix] assms v by (simp add: encoded_holds_def)
  note n' = merge_table [OF t(1) compares_file n] and s' = merge_table [OF t(2) c s]
    and x' = merge_table [OF t(3) compares_extension x]
  have e: "EnsureFlat ix = ix\<lparr>en_by_name := [], en_by_name_flat := nf, en_by_symbol := [], en_by_symbol_flat := sf,
      en_by_extension := [], en_by_extension_flat := xf\<rparr>"
    using n s x n'(1) s'(1) x'(1) by (simp add: EnsureFlat_def)
  show "en_by_name (EnsureFlat ix) = []" "en_by_symbol (EnsureFlat ix) = []" "en_by_extension (EnsureFlat ix) = []"
    by (simp_all add: e)
  have "independent (entry_name vals ` (set (en_by_symbol ix) \<union> set (en_by_symbol_flat ix)))"
    using assms unfolding encoded_holds_def by (metis entries_simps(3))
  then show "encoded_holds vals N (EnsureFlat ix) S E"
    using assms n'(2,3) s'(2,3) x'(2,3) unfolding encoded_holds_def e by (simp add: split_table_flat)
qed

text \<open>The entry at the lower bound of a key.\<close>

lemma entry_at:
  assumes "strict key xs" and "\<And>e. lt e k \<longleftrightarrow> key e < k" and "i = std_lower_bound lt k xs"
  shows "i < length xs \<and> key (xs ! i) = k \<and> ee_data (vals ! off (xs ! i)) = v \<longleftrightarrow> (k, v) \<in> entries key off vals (set xs)"
proof -
  have lt: "\<forall>e \<in> set xs. lt e k \<longleftrightarrow> key e < k" using assms(2) by simp
  note at = lower_bound_at(1) [where key = key and xs = xs and lt = lt and v = k and w = k, OF assms(1) lt assms(3)]
  show ?thesis
  proof
    assume "(k, v) \<in> entries key off vals (set xs)"
    then obtain e where e: "e \<in> set xs" "key e = k" "ee_data (vals ! off e) = v" by (auto simp: entries_def)
    then have "i < length xs \<and> key (xs ! i) = k" using at by blast
    moreover from this have "xs ! i = e" using strict_inj [OF assms(1) _ e(1)] e(2) by simp
    ultimately show "i < length xs \<and> key (xs ! i) = k \<and> ee_data (vals ! off (xs ! i)) = v" using e(3) by simp
  qed (auto simp: entries_def image_iff intro!: bexI [of _ "xs ! i"])
qed

lemma encoded_FindFile_iff:
  assumes "encoded_holds vals N ix S E"
  shows "fst (encoded_FindFile n ix) = Some v \<longleftrightarrow> (n, v) \<in> N"
proof -
  note h = EnsureFlat_holds [OF assms]
  have k: "all_values (EnsureFlat ix) = vals" "strict fe_name (en_by_name_flat (EnsureFlat ix))"
    "N = entries fe_name fe_offset vals (set (en_by_name_flat (EnsureFlat ix)))"
    using h(1) h(2) by (auto simp: encoded_holds_def split_table_def)
  define i where "i = std_lower_bound file_less_name n (en_by_name_flat (EnsureFlat ix))"
  have "i \<le> length (en_by_name_flat (EnsureFlat ix))" by (simp add: i_def std_lower_bound_def length_takeWhile_le)
  then have "fst (encoded_FindFile n ix) = Some v \<longleftrightarrow> i < length (en_by_name_flat (EnsureFlat ix))
      \<and> fe_name (en_by_name_flat (EnsureFlat ix) ! i) = n \<and> ee_data (vals ! fe_offset (en_by_name_flat (EnsureFlat ix) ! i)) = v"
    by (auto simp: encoded_FindFile_def i_def [symmetric] k(1) Let_def)
  then show ?thesis
    using entry_at [OF k(2) _ i_def, of vals fe_offset v] k(3) by (simp add: file_less_name_def)
qed

lemma encoded_FindExtension_iff:
  assumes "encoded_holds vals N ix S E"
  shows "fst (encoded_FindExtension t n ix) = Some v \<longleftrightarrow> ((t, n), v) \<in> E"
proof -
  note h = EnsureFlat_holds [OF assms]
  have k: "all_values (EnsureFlat ix) = vals" "strict extension_entry_key (en_by_extension_flat (EnsureFlat ix))"
    "E = entries extension_entry_key xe_offset vals (set (en_by_extension_flat (EnsureFlat ix)))"
    using h(1) h(4) by (auto simp: encoded_holds_def split_table_def)
  define i where "i = std_lower_bound extension_less_key (t, n) (en_by_extension_flat (EnsureFlat ix))"
  have "i \<le> length (en_by_extension_flat (EnsureFlat ix))" by (simp add: i_def std_lower_bound_def length_takeWhile_le)
  then have "fst (encoded_FindExtension t n ix) = Some v \<longleftrightarrow> i < length (en_by_extension_flat (EnsureFlat ix))
      \<and> extension_entry_key (en_by_extension_flat (EnsureFlat ix) ! i) = (t, n)
      \<and> ee_data (vals ! xe_offset (en_by_extension_flat (EnsureFlat ix) ! i)) = v"
    by (auto simp: encoded_FindExtension_def i_def [symmetric] k(1) extension_entry_key_def Let_def)
  then show ?thesis
    using entry_at [OF k(2) _ i_def, of vals xe_offset v] k(3) by (simp add: extension_less_keys)
qed

lemma encoded_FindSymbol_iff:
  assumes "absl_ok A" and "encoded_holds vals N ix S E" and "ascii n"
  shows "fst (encoded_FindSymbol A n ix) = Some v \<longleftrightarrow> (\<exists>k. (k, v) \<in> S \<and> within k n)"
proof -
  note h = EnsureFlat_holds [OF assms(2)]
  define fx where "fx = EnsureFlat ix"
  define xs where "xs = en_by_symbol_flat fx"
  have k: "all_values fx = vals" "strict (entry_name vals) xs" "S = entries (entry_name vals) se_offset vals (set xs)"
    "\<forall>e \<in> set xs. se_symbol e \<noteq> [] \<and> ValidateSymbolName (entry_name vals e)" "independent (entry_name vals ` set xs)"
    using h(1) h(3) by (auto simp: encoded_holds_def split_table_def fx_def xs_def)
  have named: "named (entry_name vals) xs (name_less_symbol fx) n n"
    by unfold_locales
      (use k in \<open>auto simp: name_less_symbol_names [OF assms(3)] symbol_AsString_entry\<close>)
  define i where "i = FindLastLessOrEqual (name_less_symbol fx) xs n"
  note bound = named.last_le_bound [OF named, folded i_def]
  have sub: "IsSubSymbolOf A fx (xs ! i) n \<longleftrightarrow> within (entry_name vals (xs ! i)) n" if "i < length xs"
    using IsSubSymbolOf_within [OF assms(1), of "xs ! i" fx n] k(1,4) that by (simp add: symbol_AsString_entry)
  have r: "fst (encoded_FindSymbol A n ix) = Some v \<longleftrightarrow> i < length xs \<and> within (entry_name vals (xs ! i)) n
      \<and> ee_data (vals ! se_offset (xs ! i)) = v"
    using sub bound
    by (auto simp: encoded_FindSymbol_def FindSymbolOnlyFlat_def fx_def [symmetric] xs_def [symmetric] i_def [symmetric] k(1) Let_def)
  show ?thesis
  proof
    assume "\<exists>k. (k, v) \<in> S \<and> within k n"
    then obtain e where e: "e \<in> set xs" "within (entry_name vals e) n" "ee_data (vals ! se_offset e) = v"
      using k(3) by (auto simp: entries_def)
    then have "xs ! i = e" using named.covered_at(2) [OF named k(5) e(1,2)] by (simp add: i_def)
    then show "fst (encoded_FindSymbol A n ix) = Some v" using r e bound by auto
  qed (use r k(3) in \<open>auto simp: entries_def image_iff intro!: bexI [of _ "xs ! i"]\<close>)
qed

lemma encoded_numbers:
  assumes "encoded_holds vals N ix S E"
  obtains r where "fst (encoded_index_FindAllExtensionNumbers t ix) = (if r = [] then None else Some r)"
    and "distinct r" and "set r = {k. 0 \<le> k \<and> (t, k) \<in> fst ` E}"
proof -
  note h = EnsureFlat_holds [OF assms]
  define ys where "ys = en_by_extension_flat (EnsureFlat ix)"
  have k: "strict extension_entry_key ys" "fst ` E = extension_entry_key ` set ys"
    using h(1) h(4) by (auto simp: encoded_holds_def split_table_def ys_def)
  define xs where "xs = filter (\<lambda>e. fst (extension_entry_key e) = t \<and> 0 \<le> snd (extension_entry_key e)) ys"
  have "takeWhile (\<lambda>e. extendee e = t) (drop (std_lower_bound extension_less_key (t, 0) ys) ys) = xs"
    using extension_run [where key = extension_entry_key and xs = ys and lt = extension_less_key and v = "(t, 0)" and t = t, OF k(1)]
    by (simp add: xs_def extension_less_keys) (simp add: extension_entry_key_def)
  then have "fst (encoded_index_FindAllExtensionNumbers t ix) = (if map xe_number xs = [] then None else Some (map xe_number xs))"
    by (simp add: encoded_index_FindAllExtensionNumbers_def ys_def [symmetric] Let_def)
  moreover have "distinct (map xe_number xs)"
    unfolding distinct_map using strict_distinct [OF k(1)] strict_inj [OF k(1)]
    by (auto simp: xs_def inj_on_def extension_entry_key_def)
  moreover have "set (map xe_number xs) = {k. 0 \<le> k \<and> (t, k) \<in> fst ` E}"
    by (auto simp: k(2) xs_def extension_entry_key_def image_iff)
  ultimately show ?thesis by (rule that)
qed

subsection \<open>The files of a database\<close>

definition encoded_reached ::
  "absl \<Rightarrow> (string \<Rightarrow> file_proto option) \<Rightarrow> file_proto list \<Rightarrow> encoded_database \<Rightarrow> bool" where
  "encoded_reached A parse fs db \<longleftrightarrow> absl_ok A \<and> consistent fs \<and>
     (\<exists>vs vals. fs = map snd vs \<and> (\<forall>(v, f) \<in> set vs. parse v = Some f)
       \<and> encoded_holds vals ((\<lambda>(v, f). (file_name f, v)) ` set vs) (ed_index db)
           (declared file_symbols vs) (declared file_keys vs))"

lemma encoded_reached_empty: "absl_ok A \<Longrightarrow> encoded_reached A parse [] EncodedDescriptorDatabase"
  by (auto simp: encoded_reached_def consistent_def encoded_holds_def EncodedDescriptorDatabase_def split_table_def)

lemma encoded_reachedE:
  assumes "encoded_reached A parse fs db"
  obtains vs vals where "absl_ok A" and "consistent fs" and "fs = map snd vs" and "\<And>v f. (v, f) \<in> set vs \<Longrightarrow> parse v = Some f"
    and "encoded_holds vals ((\<lambda>(v, f). (file_name f, v)) ` set vs) (ed_index db) (declared file_symbols vs) (declared file_keys vs)"
  using assms unfolding encoded_reached_def by blast

lemma encoded_Add_reached:
  assumes "encoded_reached A parse fs db" and "parse v = Some f" and "consistent (fs @ [f])"
  shows "\<exists>db'. encoded_Add A parse v db = (True, db') \<and> encoded_reached A parse (fs @ [f]) db'"
  using assms(1)
proof (cases rule: encoded_reachedE)
  case (1 vs vals)
  have c: "fresh_symbols (declared file_symbols vs) (file_symbols f)" "fresh_keys (declared file_keys vs) (file_keys f)"
    "file_name f \<notin> fst ` (\<lambda>(v, f). (file_name f, v)) ` set vs" "well_named f"
    using consistent_last [of vs f] assms(3) 1(3) by (auto simp: image_image split_beta)
  obtain vals' ix' where "encoded_AddFile A f v (ed_index db) = (True, ix')"
    and h: "encoded_holds vals' (insert (file_name f, v) ((\<lambda>(v, f). (file_name f, v)) ` set vs)) ix'
      (declared file_symbols vs \<union> with_value v (file_symbols f)) (declared file_keys vs \<union> with_value v (file_keys f))"
    by (rule encoded_AddFile_adds [OF 1(1) c(4) 1(5) c(3,1,2)])
  then have "encoded_Add A parse v db = (True, db\<lparr>ed_index := ix'\<rparr>)"
    using assms(2) by (simp add: encoded_Add_def)
  moreover have "encoded_reached A parse (fs @ [f]) (db\<lparr>ed_index := ix'\<rparr>)"
    unfolding encoded_reached_def using 1(1,3,4) assms(2,3) h
    by (intro conjI exI [of _ "vs @ [(v, f)]"] exI [of _ vals']) auto
  ultimately show ?thesis by blast
qed

lemma encoded_reached_flat:
  assumes "encoded_reached A parse fs db"
  shows "encoded_reached A parse fs (db\<lparr>ed_index := EnsureFlat (ed_index db)\<rparr>)"
  using assms
proof (cases rule: encoded_reachedE)
  case (1 vs vals)
  show ?thesis
    unfolding encoded_reached_def
    by (intro conjI exI [of _ vs] exI [of _ vals]) (use 1 EnsureFlat_holds(1) [OF 1(5)] in auto)
qed

lemma lookups_flatten:
  "snd (encoded_FindFile n ix) = EnsureFlat ix" "snd (encoded_FindSymbol A n ix) = EnsureFlat ix"
  "snd (encoded_FindExtension n k ix) = EnsureFlat ix" "snd (encoded_index_FindAllExtensionNumbers n ix) = EnsureFlat ix"
  by (simp_all add: encoded_FindFile_def encoded_FindSymbol_def encoded_FindExtension_def
      encoded_index_FindAllExtensionNumbers_def Let_def)

lemma MaybeParse_some:
  assumes "\<And>v. r = Some v \<longleftrightarrow> (\<exists>f. (v, f) \<in> set vs \<and> P f)" and "\<And>v f. (v, f) \<in> set vs \<Longrightarrow> parse v = Some f"
  shows "MaybeParse parse r = Some f \<longleftrightarrow> (\<exists>v. (v, f) \<in> set vs \<and> P f)"
proof (cases r)
  case None
  then show ?thesis using assms(1) by (auto simp: MaybeParse_def)
next
  case (Some v)
  then obtain g where g: "(v, g) \<in> set vs" "P g" using assms(1) by blast
  have "g = f" if "(v, f) \<in> set vs" for f using assms(2) [OF g(1)] assms(2) [OF that] by simp
  moreover have "v = w" if "(w, f) \<in> set vs" "P f" for w f
    using assms(1) [of w] that Some by (simp only: option.inject) blast
  ultimately have "(\<exists>w. (w, f) \<in> set vs \<and> P f) \<longleftrightarrow> g = f" using g by blast
  then show ?thesis using Some assms(2) [OF g(1)] by (simp add: MaybeParse_def)
qed

lemma encoded_reached_view:
  assumes "encoded_reached A parse fs db"
  shows "MaybeParse parse (fst (encoded_FindFile n (ed_index db))) = v_file (files_view fs) n"
    and "ascii n \<Longrightarrow> MaybeParse parse (fst (encoded_FindSymbol A n (ed_index db))) = v_symbol (files_view fs) n"
    and "MaybeParse parse (fst (encoded_FindExtension n k (ed_index db))) = v_extension (files_view fs) n k"
proof -
  obtain vs vals where r: "absl_ok A" "consistent fs" "fs = map snd vs" "\<And>v f. (v, f) \<in> set vs \<Longrightarrow> parse v = Some f"
    "encoded_holds vals ((\<lambda>(v, f). (file_name f, v)) ` set vs) (ed_index db) (declared file_symbols vs) (declared file_keys vs)"
    using encoded_reachedE [OF assms] by blast
  have m: "f \<in> set fs \<longleftrightarrow> (\<exists>v. (v, f) \<in> set vs)" for f using r(3) by force
  show "MaybeParse parse (fst (encoded_FindFile n (ed_index db))) = v_file (files_view fs) n"
  proof (rule option_eqI)
    fix f
    have "fst (encoded_FindFile n (ed_index db)) = Some v \<longleftrightarrow> (\<exists>f. (v, f) \<in> set vs \<and> file_name f = n)" for v
      unfolding encoded_FindFile_iff [OF r(5)] by force
    from MaybeParse_some [OF this r(4)] show "MaybeParse parse (fst (encoded_FindFile n (ed_index db))) = Some f
        \<longleftrightarrow> v_file (files_view fs) n = Some f"
      by (auto simp: view_file [OF r(2)] m)
  qed
  show "MaybeParse parse (fst (encoded_FindSymbol A n (ed_index db))) = v_symbol (files_view fs) n" if n: "ascii n"
  proof (rule option_eqI)
    fix f
    have "fst (encoded_FindSymbol A n (ed_index db)) = Some v \<longleftrightarrow> (\<exists>f. (v, f) \<in> set vs \<and> (\<exists>s \<in> set (file_symbols f). within s n))" for v
      using encoded_FindSymbol_iff [OF r(1,5) n] by (auto simp: declared_iff)
    from MaybeParse_some [OF this r(4)] show "MaybeParse parse (fst (encoded_FindSymbol A n (ed_index db))) = Some f
        \<longleftrightarrow> v_symbol (files_view fs) n = Some f"
      by (auto simp: view_symbol [OF r(2)] m)
  qed
  show "MaybeParse parse (fst (encoded_FindExtension n k (ed_index db))) = v_extension (files_view fs) n k"
  proof (rule option_eqI)
    fix f
    have "fst (encoded_FindExtension n k (ed_index db)) = Some v \<longleftrightarrow> (\<exists>f. (v, f) \<in> set vs \<and> (n, k) \<in> set (file_keys f))" for v
      using encoded_FindExtension_iff [OF r(5)] by (auto simp: declared_iff)
    from MaybeParse_some [OF this r(4)] show "MaybeParse parse (fst (encoded_FindExtension n k (ed_index db))) = Some f
        \<longleftrightarrow> v_extension (files_view fs) n k = Some f"
      by (auto simp: view_extension [OF r(2)] m)
  qed
qed

interpretation encoded_files: file_database "encoded_db A parse" "encoded_Add A parse" parse "encoded_reached A parse" ascii
  for A parse
proof (unfold_locales, goal_cases)
  case (1 fs s)
  then show ?case by (simp add: encoded_reached_def)
next
  case (2 fs s x f)
  then show ?case by (rule encoded_Add_reached)
next
  case (6 fs s n)
  then obtain vs vals where r: "consistent fs" "fs = map snd vs"
    "encoded_holds vals ((\<lambda>(v, f). (file_name f, v)) ` set vs) (ed_index s) (declared file_symbols vs) (declared file_keys vs)"
    using encoded_reachedE by metis
  obtain l where l: "fst (encoded_index_FindAllExtensionNumbers n (ed_index s)) = (if l = [] then None else Some l)"
    "distinct l" "set l = {k. 0 \<le> k \<and> (n, k) \<in> set (concat (map file_keys fs))}"
    using encoded_numbers [OF r(3)] r(2) by (metis declared_simps(3))
  then show ?case
    using numbers_sorted [OF r(1) l(2,3)] encoded_reached_flat [OF 6]
    by (simp add: encoded_db_def encoded_FindAllExtensionNumbers_def lookups_flatten map_prod_def split_beta)
next
  case (7 fs s)
  then obtain vs vals where r: "consistent fs" "fs = map snd vs"
    "encoded_holds vals ((\<lambda>(v, f). (file_name f, v)) ` set vs) (ed_index s) (declared file_symbols vs) (declared file_keys vs)"
    using encoded_reachedE by metis
  let ?ns = "map fe_name (en_by_name (ed_index s)) @ map fe_name (en_by_name_flat (ed_index s))"
  have t: "split_table fe_name (en_by_name (ed_index s)) (en_by_name_flat (ed_index s))"
    and "fst ` (\<lambda>(v, f). (file_name f, v)) ` set vs = fe_name ` (set (en_by_name (ed_index s)) \<union> set (en_by_name_flat (ed_index s)))"
    using r(3) by (auto simp: encoded_holds_def)
  then have "set ?ns = file_name ` set fs" using r(2) by (force simp: image_Un image_image split_beta)
  moreover have "distinct (map fe_name l)" if "strict fe_name l" for l
    unfolding distinct_map using strict_distinct [OF that] strict_inj [OF that] by (auto simp: inj_on_def)
  then have "distinct ?ns" using t by (auto simp: split_table_def)
  ultimately have "sort ?ns = sort (map file_name fs)"
    using r(1) by (intro sort_eqI) (auto simp: consistent_def)
  then show ?case
    using 7 by (simp add: encoded_db_def encoded_FindAllFileNames_def encoded_index_FindAllFileNames_def)
qed (simp_all add: encoded_db_def encoded_FindFileByName_def encoded_FindFileContainingSymbol_def
  encoded_FindFileContainingExtension_def encoded_reached_view encoded_reached_flat lookups_flatten map_prod_def split_beta)

end
