(* ===== verification/Merged_Database.thy ===== *)
theory Merged_Database
  imports Simple_Database_Laws Encoded_Database_Laws
begin

section \<open>MergedDescriptorDatabase and DescriptorPoolDatabase\<close>

text \<open>
  A database that asks several others in their order (\<open>descriptor_database.cc\<close>): its state is the
  list of their states, which are distinct objects of the interface \<open>D\<close>. It keeps the contract of
  the interface (\<open>merged_database\<close>). The database on a descriptor pool hands the questions to the
  pool, which is the argument \<open>P\<close>.
\<close>

subsection \<open>Operations\<close>

primrec merged_FindFileByName :: "'s descriptor_database \<Rightarrow> string \<Rightarrow> 's list \<Rightarrow> file_proto option \<times> 's list" where
  "merged_FindFileByName D filename [] = (None, [])"
| "merged_FindFileByName D filename (source # sources) =
     (case db_FindFileByName D filename source of
        (Some output, source) \<Rightarrow> (Some output, source # sources)
      | (None, source) \<Rightarrow> map_prod id ((#) source) (merged_FindFileByName D filename sources))"

text \<open>Does one of the previous sources define a file of that name?\<close>

primrec defined_before :: "'s descriptor_database \<Rightarrow> string \<Rightarrow> 's list \<Rightarrow> bool \<times> 's list" where
  "defined_before D name [] = (False, [])"
| "defined_before D name (source # sources) =
     (case db_FindFileByName D name source of
        (Some temp, source) \<Rightarrow> (True, source # sources)
      | (None, source) \<Rightarrow> map_prod id ((#) source) (defined_before D name sources))"

fun merged_find_loop ::
  "'s descriptor_database \<Rightarrow> ('s \<Rightarrow> file_proto option \<times> 's) \<Rightarrow> 's list \<Rightarrow> 's list \<Rightarrow> file_proto option \<times> 's list" where
  "merged_find_loop D find_in previous [] = (None, previous)"
| "merged_find_loop D find_in previous (source # sources) =
     (case find_in source of
        (None, source) \<Rightarrow> merged_find_loop D find_in (previous @ [source]) sources
      | (Some output, source) \<Rightarrow>
          (case defined_before D (file_name output) previous of
             (b, previous) \<Rightarrow> (if b then None else Some output, previous @ source # sources)))"

definition merged_FindFileContainingSymbol ::
  "'s descriptor_database \<Rightarrow> string \<Rightarrow> 's list \<Rightarrow> file_proto option \<times> 's list" where
  "merged_FindFileContainingSymbol D symbol_name sources =
     merged_find_loop D (db_FindFileContainingSymbol D symbol_name) [] sources"

definition merged_FindFileContainingExtension ::
  "'s descriptor_database \<Rightarrow> string \<Rightarrow> int \<Rightarrow> 's list \<Rightarrow> file_proto option \<times> 's list" where
  "merged_FindFileContainingExtension D containing_type n sources =
     merged_find_loop D (db_FindFileContainingExtension D containing_type n) [] sources"

primrec merged_numbers_loop ::
  "'s descriptor_database \<Rightarrow> string \<Rightarrow> int list \<Rightarrow> bool \<Rightarrow> 's list \<Rightarrow> (bool \<times> int list) \<times> 's list" where
  "merged_numbers_loop D extendee_type merged_results success [] = ((success, merged_results), [])"
| "merged_numbers_loop D extendee_type merged_results success (source # sources) =
     (case db_FindAllExtensionNumbers D extendee_type source of
        (None, source) \<Rightarrow> map_prod id ((#) source) (merged_numbers_loop D extendee_type merged_results success sources)
      | (Some results, source) \<Rightarrow> map_prod id ((#) source)
          (merged_numbers_loop D extendee_type (fold (\<lambda>r m. snd (btree_insert (<) r m)) results merged_results) True sources))"

definition merged_FindAllExtensionNumbers ::
  "'s descriptor_database \<Rightarrow> string \<Rightarrow> 's list \<Rightarrow> int list option \<times> 's list" where
  "merged_FindAllExtensionNumbers D extendee_type sources =
     (case merged_numbers_loop D extendee_type [] False sources of
        ((success, merged_results), sources) \<Rightarrow> (if success then Some merged_results else None, sources))"

primrec merged_names_loop ::
  "'s descriptor_database \<Rightarrow> string list \<Rightarrow> bool \<Rightarrow> 's list \<Rightarrow> (bool \<times> string list) \<times> 's list" where
  "merged_names_loop D output implemented [] = ((implemented, output), [])"
| "merged_names_loop D output implemented (source # sources) =
     (case db_FindAllFileNames D source of
        (None, source) \<Rightarrow> map_prod id ((#) source) (merged_names_loop D output implemented sources)
      | (Some source_output, source) \<Rightarrow>
          map_prod id ((#) source) (merged_names_loop D (output @ source_output) True sources))"

definition merged_FindAllFileNames :: "'s descriptor_database \<Rightarrow> 's list \<Rightarrow> string list option \<times> 's list" where
  "merged_FindAllFileNames D sources =
     (case merged_names_loop D [] False sources of
        ((implemented, output), sources) \<Rightarrow> (if implemented then Some output else None, sources))"

definition merged_db :: "'s descriptor_database \<Rightarrow> 's list descriptor_database" where
  "merged_db D = \<lparr>db_FindFileByName = merged_FindFileByName D,
     db_FindFileContainingSymbol = merged_FindFileContainingSymbol D,
     db_FindFileContainingExtension = merged_FindFileContainingExtension D,
     db_FindAllExtensionNumbers = merged_FindAllExtensionNumbers D,
     db_FindAllFileNames = merged_FindAllFileNames D\<rparr>"

subsection \<open>A pool as a database\<close>

record ('f, 'm, 'x) descriptor_pool =
  pool_FindFileByName :: "string \<Rightarrow> 'f option"
  pool_FindFileContainingSymbol :: "string \<Rightarrow> 'f option"
  pool_FindMessageTypeByName :: "string \<Rightarrow> 'm option"
  pool_FindExtensionByNumber :: "'m \<Rightarrow> int \<Rightarrow> 'x option"
  pool_FindAllExtensions :: "'m \<Rightarrow> 'x list"
  pool_extension_file :: "'x \<Rightarrow> 'f"
  pool_extension_number :: "'x \<Rightarrow> int"
  pool_CopyTo :: "'f \<Rightarrow> file_proto"
  pool_CopySourceCodeInfoTo :: "'f \<Rightarrow> file_proto \<Rightarrow> file_proto"

definition pool_copy :: "('f, 'm, 'x) descriptor_pool \<Rightarrow> bool \<Rightarrow> 'f \<Rightarrow> file_proto" where
  "pool_copy P preserve_source_code_info file =
     (let output = pool_CopyTo P file
      in if preserve_source_code_info then pool_CopySourceCodeInfoTo P file output else output)"

definition pooldb_FindFileByName :: "('f, 'm, 'x) descriptor_pool \<Rightarrow> bool \<Rightarrow> string \<Rightarrow> file_proto option" where
  "pooldb_FindFileByName P preserve filename = map_option (pool_copy P preserve) (pool_FindFileByName P filename)"

definition pooldb_FindFileContainingSymbol :: "('f, 'm, 'x) descriptor_pool \<Rightarrow> bool \<Rightarrow> string \<Rightarrow> file_proto option" where
  "pooldb_FindFileContainingSymbol P preserve symbol_name =
     map_option (pool_copy P preserve) (pool_FindFileContainingSymbol P symbol_name)"

definition pooldb_FindFileContainingExtension ::
  "('f, 'm, 'x) descriptor_pool \<Rightarrow> bool \<Rightarrow> string \<Rightarrow> int \<Rightarrow> file_proto option" where
  "pooldb_FindFileContainingExtension P preserve containing_type n =
     do { extendee \<leftarrow> pool_FindMessageTypeByName P containing_type;
          extension \<leftarrow> pool_FindExtensionByNumber P extendee n;
          Some (pool_copy P preserve (pool_extension_file P extension)) }"

definition pooldb_FindAllExtensionNumbers :: "('f, 'm, 'x) descriptor_pool \<Rightarrow> string \<Rightarrow> int list option" where
  "pooldb_FindAllExtensionNumbers P extendee_type =
     do { extendee \<leftarrow> pool_FindMessageTypeByName P extendee_type;
          Some (map (pool_extension_number P) (pool_FindAllExtensions P extendee)) }"

subsection \<open>What a merged database finds\<close>

fun merged_file :: "string \<Rightarrow> db_view list \<Rightarrow> file_proto option" where
  "merged_file n [] = None"
| "merged_file n (w # ws) = (case v_file w n of Some f \<Rightarrow> Some f | None \<Rightarrow> merged_file n ws)"

text \<open>The first source that finds something decides; an earlier file of the same name hides it.\<close>

fun merged_found :: "(db_view \<Rightarrow> file_proto option) \<Rightarrow> db_view list \<Rightarrow> db_view list \<Rightarrow> file_proto option" where
  "merged_found sel previous [] = None"
| "merged_found sel previous (w # ws) =
     (case sel w of
        None \<Rightarrow> merged_found sel (previous @ [w]) ws
      | Some f \<Rightarrow> if merged_file (file_name f) previous = None then Some f else None)"

definition merged_set :: "'a set option list \<Rightarrow> 'a set option" where
  "merged_set rs = (if \<forall>r \<in> set rs. r = None then None else Some (\<Union>r \<in> set rs. case r of None \<Rightarrow> {} | Some S \<Rightarrow> S))"

definition merged_view :: "db_view list \<Rightarrow> db_view" where
  "merged_view ws = \<lparr>v_file = (\<lambda>n. merged_file n ws),
     v_symbol = (\<lambda>n. merged_found (\<lambda>w. v_symbol w n) [] ws),
     v_extension = (\<lambda>n k. merged_found (\<lambda>w. v_extension w n k) [] ws),
     v_numbers = (\<lambda>n. merged_set (map (\<lambda>w. v_numbers w n) ws)),
     v_names = merged_set (map v_names ws)\<rparr>"

lemma merged_file_append: "merged_file n (ws @ vs) = (case merged_file n ws of Some f \<Rightarrow> Some f | None \<Rightarrow> merged_file n vs)"
  by (induction ws) (auto split: option.splits)

lemma merged_file_name: "list_all coherent ws \<Longrightarrow> merged_file n ws = Some f \<Longrightarrow> file_name f = n"
  by (induction ws) (auto simp: coherent_def split: option.splits)

lemma merged_found_listed:
  assumes "\<And>w f. w \<in> set ws \<Longrightarrow> sel w = Some f \<Longrightarrow> v_file w (file_name f) = Some f"
    and "merged_found sel previous ws = Some f"
  shows "merged_file (file_name f) (previous @ ws) = Some f"
  using assms
proof (induction ws arbitrary: previous)
  case (Cons w ws)
  show ?case
  proof (cases "sel w")
    case None
    then show ?thesis using Cons.IH [of "previous @ [w]"] Cons.prems by simp
  next
    case (Some g)
    then show ?thesis using Cons.prems(1) [of w g] Cons.prems(2) by (auto simp: merged_file_append split: if_splits)
  qed
qed simp

lemma merged_view_coherent:
  assumes "list_all coherent ws"
  shows "coherent (merged_view ws)"
proof -
  have c: "coherent w" if "w \<in> set ws" for w using assms that by (simp add: list_all_iff)
  have "merged_file (file_name f) ws = Some f" if "merged_found (\<lambda>w. v_symbol w n) [] ws = Some f" for n f
    using merged_found_listed [OF _ that] c by (auto simp: coherent_def)
  moreover have "merged_file (file_name f) ws = Some f" if "merged_found (\<lambda>w. v_extension w n k) [] ws = Some f" for n k f
    using merged_found_listed [OF _ that] c by (auto simp: coherent_def)
  moreover have "merged_file n ws \<noteq> None" if "v_names w = Some ns" "n \<in> ns" "w \<in> set ws" for n ns w
    using assms that by (induction ws) (fastforce simp: coherent_def split: option.splits)+
  ultimately show ?thesis
    using merged_file_name [OF assms]
    unfolding coherent_def merged_view_def by (auto simp: merged_set_def split: if_splits option.splits)
qed

subsection \<open>The contract\<close>

lemma fold_insert:
  assumes "strict id m"
  shows "strict id (fold (\<lambda>r m. snd (btree_insert (<) r m)) rs (m :: int list))
    \<and> set (fold (\<lambda>r m. snd (btree_insert (<) r m)) rs m) = set m \<union> set rs"
  using assms
proof (induction rs arbitrary: m)
  case (Cons r rs)
  obtain b m' where m: "btree_insert (<) r m = (b, m')" by fastforce
  have "strict id m'" "set m' = insert r (set m)"
    using btree_insert_result [where key = id, OF Cons.prems _ m] by (cases b; auto)+
  then show ?case using Cons.IH m by auto
qed simp

context database
begin

lemma merged_find_file:
  assumes "list_all2 answers ss ws"
  shows "\<exists>ss'. merged_FindFileByName D n ss = (merged_file n ws, ss') \<and> list_all2 answers ss' ws"
  using assms
proof (induction rule: list_all2_induct)
  case (Cons s ss w ws)
  obtain s' where "db_FindFileByName D n s = (v_file w n, s')" "answers s' w" using find_file [OF Cons(1)] by blast
  then show ?case using Cons by (cases "v_file w n") (auto simp: map_prod_def split_beta)
qed simp

lemma merged_defined_before:
  assumes "list_all2 answers ss ws"
  shows "\<exists>ss'. defined_before D n ss = (merged_file n ws \<noteq> None, ss') \<and> list_all2 answers ss' ws"
  using assms
proof (induction rule: list_all2_induct)
  case (Cons s ss w ws)
  obtain s' where "db_FindFileByName D n s = (v_file w n, s')" "answers s' w" using find_file [OF Cons(1)] by blast
  then show ?case using Cons by (cases "v_file w n") (auto simp: map_prod_def split_beta)
qed simp

lemma merged_find_in:
  assumes "\<And>s w. answers s w \<Longrightarrow> \<exists>s'. find_in s = (sel w, s') \<and> answers s' w"
    and "list_all2 answers ps vs" and "list_all2 answers ss ws"
  shows "\<exists>ss'. merged_find_loop D find_in ps ss = (merged_found sel vs ws, ss') \<and> list_all2 answers ss' (vs @ ws)"
  using assms(3,2)
proof (induction arbitrary: ps vs rule: list_all2_induct)
  case (Cons s ss w ws)
  obtain s' where s': "find_in s = (sel w, s')" "answers s' w" using assms(1) [OF Cons(1)] by blast
  show ?case
  proof (cases "sel w")
    case None
    have "list_all2 answers (ps @ [s']) (vs @ [w])" using Cons.prems s'(2) by (simp add: list_all2_appendI)
    then show ?thesis using Cons.IH [of "ps @ [s']" "vs @ [w]"] s' None by simp
  next
    case (Some f)
    obtain ps' where "defined_before D (file_name f) ps = (merged_file (file_name f) vs \<noteq> None, ps')" "list_all2 answers ps' vs"
      using merged_defined_before [OF Cons.prems] by blast
    then show ?thesis using s' Some Cons(1,2) by (auto intro!: list_all2_appendI)
  qed
qed simp

lemma merged_numbers:
  assumes "list_all2 answers ss ws" and "strict id acc"
  shows "\<exists>b acc' ss'. merged_numbers_loop D n acc b0 ss = ((b, acc'), ss') \<and> list_all2 answers ss' ws
    \<and> (b \<longleftrightarrow> b0 \<or> (\<exists>w \<in> set ws. v_numbers w n \<noteq> None))
    \<and> set acc' = set acc \<union> (\<Union>w \<in> set ws. case v_numbers w n of None \<Rightarrow> {} | Some S \<Rightarrow> S)"
  using assms
proof (induction arbitrary: acc b0 rule: list_all2_induct)
  case (Cons s ss w ws)
  obtain r s' where s': "db_FindAllExtensionNumbers D n s = (r, s')" "map_option set r = v_numbers w n" "answers s' w"
    using find_numbers [OF Cons(1)] by blast
  define acc1 where "acc1 = (case r of None \<Rightarrow> acc | Some l \<Rightarrow> fold (\<lambda>r m. snd (btree_insert (<) r m)) l acc)"
  have "strict id acc1" using fold_insert [OF Cons.prems] Cons.prems by (auto simp: acc1_def split: option.splits)
  from Cons.IH [OF this, of "b0 \<or> r \<noteq> None"] obtain b acc' ss' where
    "merged_numbers_loop D n acc1 (b0 \<or> r \<noteq> None) ss = ((b, acc'), ss')" "list_all2 answers ss' ws"
    "b \<longleftrightarrow> (b0 \<or> r \<noteq> None) \<or> (\<exists>w \<in> set ws. v_numbers w n \<noteq> None)"
    "set acc' = set acc1 \<union> (\<Union>w \<in> set ws. case v_numbers w n of None \<Rightarrow> {} | Some S \<Rightarrow> S)" by blast
  moreover have "v_numbers w n = map_option set r" using s'(2) by simp
  ultimately show ?case
    using s'(1,3) fold_insert [OF Cons.prems] by (cases r) (auto simp: acc1_def)
qed simp

lemma merged_names:
  assumes "list_all2 answers ss ws"
  shows "\<exists>b acc' ss'. merged_names_loop D acc b0 ss = ((b, acc'), ss') \<and> list_all2 answers ss' ws
    \<and> (b \<longleftrightarrow> b0 \<or> (\<exists>w \<in> set ws. v_names w \<noteq> None))
    \<and> set acc' = set acc \<union> (\<Union>w \<in> set ws. case v_names w of None \<Rightarrow> {} | Some S \<Rightarrow> S)"
  using assms
proof (induction arbitrary: acc b0 rule: list_all2_induct)
  case (Cons s ss w ws)
  obtain r s' where s': "db_FindAllFileNames D s = (r, s')" "map_option set r = v_names w" "answers s' w"
    using find_names [OF Cons(1)] by blast
  define acc1 where "acc1 = (case r of None \<Rightarrow> acc | Some l \<Rightarrow> acc @ l)"
  from Cons.IH [of acc1 "b0 \<or> r \<noteq> None"] obtain b acc' ss' where
    "merged_names_loop D acc1 (b0 \<or> r \<noteq> None) ss = ((b, acc'), ss')" "list_all2 answers ss' ws"
    "b \<longleftrightarrow> (b0 \<or> r \<noteq> None) \<or> (\<exists>w \<in> set ws. v_names w \<noteq> None)"
    "set acc' = set acc1 \<union> (\<Union>w \<in> set ws. case v_names w of None \<Rightarrow> {} | Some S \<Rightarrow> S)" by blast
  moreover have "v_names w = map_option set r" using s'(2) by simp
  ultimately show ?case using s'(1,3) by (cases r) (auto simp: acc1_def)
qed simp

definition merged_answers :: "'s list \<Rightarrow> db_view \<Rightarrow> bool" where
  "merged_answers ss w \<longleftrightarrow> (\<exists>ws. list_all2 answers ss ws \<and> w = merged_view ws)"

lemma answers_coherent: "list_all2 answers ss ws \<Longrightarrow> list_all coherent ws"
  by (induction rule: list_all2_induct) (auto simp: view_coherent)

text \<open>The merged database keeps the contract of its sources.\<close>

lemma merged_database: "database (merged_db D) merged_answers askable"
proof (unfold_locales, goal_cases)
  case (1 ss w)
  then show ?case using answers_coherent merged_view_coherent by (auto simp: merged_answers_def)
next
  case (2 ss w n)
  then show ?case using merged_find_file by (fastforce simp: merged_answers_def merged_db_def merged_view_def)
next
  case (3 ss w n)
  then obtain ws where ws: "list_all2 answers ss ws" "w = merged_view ws" by (auto simp: merged_answers_def)
  obtain ss' where "merged_find_loop D (db_FindFileContainingSymbol D n) [] ss = (merged_found (\<lambda>w. v_symbol w n) [] ws, ss')"
    "list_all2 answers ss' ([] @ ws)"
    using merged_find_in [where sel = "\<lambda>w. v_symbol w n" and find_in = "db_FindFileContainingSymbol D n" and ps = "[]" and vs = "[]",
        OF _ _ ws(1)] find_symbol [OF _ 3(2)] by auto
  then show ?case
    using ws(2) by (auto simp: merged_answers_def merged_db_def merged_view_def merged_FindFileContainingSymbol_def)
next
  case (4 ss w n k)
  then obtain ws where ws: "list_all2 answers ss ws" "w = merged_view ws" by (auto simp: merged_answers_def)
  obtain ss' where "merged_find_loop D (db_FindFileContainingExtension D n k) [] ss = (merged_found (\<lambda>w. v_extension w n k) [] ws, ss')"
    "list_all2 answers ss' ([] @ ws)"
    using merged_find_in [where sel = "\<lambda>w. v_extension w n k" and find_in = "db_FindFileContainingExtension D n k" and ps = "[]" and vs = "[]",
        OF _ _ ws(1)] find_extension by auto
  then show ?case
    using ws(2) by (auto simp: merged_answers_def merged_db_def merged_view_def merged_FindFileContainingExtension_def)
next
  case (5 ss w n)
  then obtain ws where ws: "list_all2 answers ss ws" "w = merged_view ws" by (auto simp: merged_answers_def)
  obtain b acc ss' where "merged_numbers_loop D n [] False ss = ((b, acc), ss')" "list_all2 answers ss' ws"
    "b \<longleftrightarrow> (\<exists>w \<in> set ws. v_numbers w n \<noteq> None)" "set acc = (\<Union>w \<in> set ws. case v_numbers w n of None \<Rightarrow> {} | Some S \<Rightarrow> S)"
    using merged_numbers [OF ws(1), of "[]" n False] by auto
  then show ?case
    using ws(2) by (auto simp: merged_answers_def merged_db_def merged_view_def merged_FindAllExtensionNumbers_def merged_set_def)
next
  case (6 ss w)
  then obtain ws where ws: "list_all2 answers ss ws" "w = merged_view ws" by (auto simp: merged_answers_def)
  obtain b acc ss' where "merged_names_loop D [] False ss = ((b, acc), ss')" "list_all2 answers ss' ws"
    "b \<longleftrightarrow> (\<exists>w \<in> set ws. v_names w \<noteq> None)" "set acc = (\<Union>w \<in> set ws. case v_names w of None \<Rightarrow> {} | Some S \<Rightarrow> S)"
    using merged_names [OF ws(1), of "[]" False] by auto
  then show ?case
    using ws(2) by (auto simp: merged_answers_def merged_db_def merged_view_def merged_FindAllFileNames_def merged_set_def)
qed

end

end
